(* ===== verification/Prelude.thy ===== *)
theory Prelude
  imports Main "HOL-Library.Word" "HOL-Library.Code_Target_Nat"
begin

text \<open>
  Shared vocabulary of the development: the machine integers of
  \<open>mindseye/core/me_defines.h\<close>, the faults a run of the C++ code can end in, the small
  error-value calculus every component is written in, and the generic facts on
  lists, block moves and wrap-around that the component theories use.
\<close>

section \<open>Machine integers\<close>

text \<open>
  \<open>u8\<close> .. \<open>u64\<close> are words where the code works on bits (flags, hashes, handles).
  Sizes, indices and offsets are natural numbers with the wrap-around written out
  by \<open>wrap32\<close> and \<open>wrap64\<close>: every addition or multiplication of the source on a
  \<open>u32\<close> or \<open>u64\<close> goes through one of them.
\<close>

type_synonym u8 = "8 word"
type_synonym u16 = "16 word"
type_synonym u32 = "32 word"
type_synonym u64 = "64 word"

definition wrap32 :: "nat \<Rightarrow> nat" where
  "wrap32 n = n mod 4294967296"

definition wrap64 :: "nat \<Rightarrow> nat" where
  "wrap64 n = n mod 18446744073709551616"

text \<open>Conversion of a mathematical integer to a 32-bit or 64-bit signed value.\<close>

definition s32_of :: "int \<Rightarrow> int" where
  "s32_of i = (i + 2147483648) mod 4294967296 - 2147483648"

definition s64_of :: "int \<Rightarrow> int" where
  "s64_of i = (i + 9223372036854775808) mod 18446744073709551616 - 9223372036854775808"

definition MEMIN :: "'a::linorder \<Rightarrow> 'a \<Rightarrow> 'a" where
  "MEMIN a b = (if a > b then b else a)"

definition MEMAX :: "'a::linorder \<Rightarrow> 'a \<Rightarrow> 'a" where
  "MEMAX a b = (if a > b then a else b)"

definition CLAMP :: "'a::linorder \<Rightarrow> 'a \<Rightarrow> 'a \<Rightarrow> 'a" where
  "CLAMP x lo hi = (if x < lo then lo else (if x > hi then hi else x))"

lemma wrap32_id [simp]: "n < 4294967296 \<Longrightarrow> wrap32 n = n"
  by (simp add: wrap32_def)

lemma wrap64_id [simp]: "n < 18446744073709551616 \<Longrightarrow> wrap64 n = n"
  by (simp add: wrap64_def)

lemma wrap32_less [simp]: "wrap32 n < 4294967296"
  by (simp add: wrap32_def)

lemma wrap64_less [simp]: "wrap64 n < 18446744073709551616"
  by (simp add: wrap64_def)

lemma wrap32_le [simp]: "wrap32 n \<le> n"
  by (simp add: wrap32_def)

lemma wrap64_le [simp]: "wrap64 n \<le> n"
  by (simp add: wrap64_def)

lemma s32_of_id [simp]: "-2147483648 \<le> i \<Longrightarrow> i < 2147483648 \<Longrightarrow> s32_of i = i"
  by (simp add: s32_of_def)

lemma s64_of_id [simp]:
  "-9223372036854775808 \<le> i \<Longrightarrow> i < 9223372036854775808 \<Longrightarrow> s64_of i = i"
  by (simp add: s64_of_def)

lemma MEMIN_min: "MEMIN a b = min a b"
  by (auto simp: MEMIN_def min_def)

lemma MEMAX_max: "MEMAX a b = max a b"
  by (auto simp: MEMAX_def max_def)

lemma CLAMP_bounds: "lo \<le> hi \<Longrightarrow> lo \<le> CLAMP x lo hi \<and> CLAMP x lo hi \<le> hi"
  by (auto simp: CLAMP_def)

section \<open>Faults and error values\<close>

text \<open>
  The ways a run of the modelled code stops early. \<open>ME_ASSERT\<close> is compiled in
  (\<open>BUILD_DEBUG\<close> is the only build the header accepts), so a failed assertion is a
  trap; \<open>Thrown\<close> is a C++ exception nobody catches; the other faults are the undefined
  behaviours the models check for, and
  \<open>NoReturn\<close> is a loop that has come back to a state it has already been in.
\<close>

datatype fault =
    AssertFailed
  | OutOfBounds
  | NullDeref
  | Dangling
  | BadFree
  | SignedOverflow
  | Thrown
  | NoReturn

type_synonym 'a result = "fault + 'a"

definition bindR :: "'a result \<Rightarrow> ('a \<Rightarrow> 'b result) \<Rightarrow> 'b result" where
  "bindR m f = (case m of Inl e \<Rightarrow> Inl e | Inr x \<Rightarrow> f x)"

definition require :: "fault \<Rightarrow> bool \<Rightarrow> 'a result \<Rightarrow> 'a result" where
  "require e b k = (if b then k else Inl e)"

definition ME_ASSERT :: "bool \<Rightarrow> 'a result \<Rightarrow> 'a result" where
  "ME_ASSERT b k = require AssertFailed b k"

lemma bindR_simps [simp]:
  "bindR (Inl e) f = Inl e"
  "bindR (Inr x) f = f x"
  by (simp_all add: bindR_def)

lemma require_True [simp]: "require e True k = k"
  by (simp add: require_def)

lemma require_False [simp]: "require e False k = Inl e"
  by (simp add: require_def)

lemma ME_ASSERT_True [simp]: "ME_ASSERT True k = k"
  by (simp add: ME_ASSERT_def)

lemma ME_ASSERT_False [simp]: "ME_ASSERT False k = Inl AssertFailed"
  by (simp add: ME_ASSERT_def)

lemma bindR_Inr: "bindR m f = Inr y \<longleftrightarrow> (\<exists>x. m = Inr x \<and> f x = Inr y)"
  by (cases m) auto

lemma bindR_InrE: "bindR m f = Inr y \<Longrightarrow> (\<And>x. m = Inr x \<Longrightarrow> f x = Inr y \<Longrightarrow> P) \<Longrightarrow> P"
  by (auto simp: bindR_Inr)

lemma require_Inr: "require e b k = Inr y \<longleftrightarrow> b \<and> k = Inr y"
  by (simp add: require_def)

lemma ME_ASSERT_Inr: "ME_ASSERT b k = Inr y \<longleftrightarrow> b \<and> k = Inr y"
  by (simp add: ME_ASSERT_def require_Inr)

definition deref :: "'a option \<Rightarrow> 'a result" where
  "deref p = (case p of None \<Rightarrow> Inl NullDeref | Some x \<Rightarrow> Inr x)"

lemma deref_simps [simp]:
  "deref None = Inl NullDeref"
  "deref (Some x) = Inr x"
  by (simp_all add: deref_def)

lemma deref_Inr: "deref p = Inr x \<longleftrightarrow> p = Some x"
  by (cases p) auto

lemmas result_Inr = bindR_Inr require_Inr ME_ASSERT_Inr deref_Inr

lemma bindR_assoc: "bindR (bindR m f) g = bindR m (\<lambda>x. bindR (f x) g)"
  by (cases m) auto

section \<open>Block moves inside a buffer\<close>

text \<open>
  \<open>memmove\<close> and \<open>memcpy\<close> on a buffer of elements: \<open>blit\<close> overwrites a run of a buffer
  with given elements, \<open>move_within\<close> copies a run of the buffer onto another run of
  it (with the semantics of \<open>memmove\<close>: overlapping runs read the old contents).
  Both report an access outside the buffer.
\<close>

definition blit :: "nat \<Rightarrow> 'a list \<Rightarrow> 'a list \<Rightarrow> 'a list result" where
  "blit at ys xs =
     require OutOfBounds (at + length ys \<le> length xs)
       (Inr (take at xs @ ys @ drop (at + length ys) xs))"

definition move_within :: "nat \<Rightarrow> nat \<Rightarrow> nat \<Rightarrow> 'a list \<Rightarrow> 'a list result" where
  "move_within to from n xs =
     require OutOfBounds (from + n \<le> length xs) (blit to (take n (drop from xs)) xs)"

definition readAt :: "nat \<Rightarrow> 'a list \<Rightarrow> 'a result" where
  "readAt i xs = require OutOfBounds (i < length xs) (Inr (xs ! i))"

definition writeAt :: "nat \<Rightarrow> 'a \<Rightarrow> 'a list \<Rightarrow> 'a list result" where
  "writeAt i x xs = require OutOfBounds (i < length xs) (Inr (xs[i := x]))"

lemma blit_Inr:
  "blit at ys xs = Inr zs \<longleftrightarrow>
     at + length ys \<le> length xs \<and> zs = take at xs @ ys @ drop (at + length ys) xs"
  by (auto simp: blit_def require_def)

lemma length_blit: "blit at ys xs = Inr zs \<Longrightarrow> length zs = length xs"
  by (auto simp: blit_Inr)

lemma move_within_Inr:
  "move_within to from n xs = Inr zs \<longleftrightarrow>
     from + n \<le> length xs \<and> to + n \<le> length xs \<and>
     zs = take to xs @ take n (drop from xs) @ drop (to + n) xs"
proof (cases "from + n \<le> length xs")
  case True
  then have "length (take n (drop from xs)) = n"
    by simp
  with True show ?thesis
    by (auto simp: move_within_def blit_Inr simp del: length_take)
qed (simp add: move_within_def)

lemma length_move_within: "move_within to from n xs = Inr zs \<Longrightarrow> length zs = length xs"
  by (auto simp: move_within_Inr)

lemma readAt_Inr [simp]: "readAt i xs = Inr x \<longleftrightarrow> i < length xs \<and> x = xs ! i"
  by (auto simp: readAt_def require_def)

lemma writeAt_Inr [simp]: "writeAt i x xs = Inr ys \<longleftrightarrow> i < length xs \<and> ys = xs[i := x]"
  by (auto simp: writeAt_def require_def)

lemma blit_ok [simp]:
  "at + length ys \<le> length xs \<Longrightarrow>
     blit at ys xs = Inr (take at xs @ ys @ drop (at + length ys) xs)"
  by (simp add: blit_def)

lemma move_within_ok [simp]:
  "from + n \<le> length xs \<Longrightarrow> to + n \<le> length xs \<Longrightarrow>
     move_within to from n xs = Inr (take to xs @ take n (drop from xs) @ drop (to + n) xs)"
  by (simp add: move_within_Inr)

lemma readAt_ok [simp]: "i < length xs \<Longrightarrow> readAt i xs = Inr (xs ! i)"
  by simp

lemma writeAt_ok [simp]: "i < length xs \<Longrightarrow> writeAt i x xs = Inr (xs[i := x])"
  by simp

section \<open>Little-endian bytes\<close>

text \<open>
  The memory image of an unsigned integer of \<open>n\<close> bytes, least significant byte first (the
  engine targets little-endian x64), and its reading back.
\<close>

fun le_encode :: "nat \<Rightarrow> nat \<Rightarrow> u8 list" where
  "le_encode 0 x = []"
| "le_encode (Suc n) x = of_nat (x mod 256) # le_encode n (x div 256)"

fun le_decode :: "u8 list \<Rightarrow> nat" where
  "le_decode [] = 0"
| "le_decode (b # bs) = unat b + 256 * le_decode bs"

lemma length_le_encode [simp]: "length (le_encode n x) = n"
  by (induction n arbitrary: x) auto

lemma unat_of_nat_byte: "unat (of_nat (x mod 256) :: u8) = x mod 256"
  by (simp add: unat_of_nat)

lemma le_decode_encode: "x < 256 ^ n \<Longrightarrow> le_decode (le_encode n x) = x"
proof (induction n arbitrary: x)
  case 0
  then show ?case by simp
next
  case (Suc n)
  then have "x div 256 < 256 ^ n"
    by (simp add: less_mult_imp_div_less mult.commute)
  with Suc.IH show ?case
    by (simp add: unat_of_nat_byte)
qed

lemma le_decode_less: "le_decode bs < 256 ^ length bs"
proof (induction bs)
  case (Cons b bs)
  have "unat b < 256" using unsigned_less [of b] by simp
  with Cons show ?case by simp
qed simp

lemma le_encode_decode: "le_encode (length bs) (le_decode bs) = bs"
proof (induction bs)
  case (Cons b bs)
  have b: "unat b < 256" using unsigned_less [of b] by simp
  then have "(unat b + 256 * le_decode bs) mod 256 = unat b"
    and "(unat b + 256 * le_decode bs) div 256 = le_decode bs" by simp_all
  with Cons show ?case by simp
qed simp

lemma le_encode_inj: "x < 256 ^ n \<Longrightarrow> y < 256 ^ n \<Longrightarrow> le_encode n x = le_encode n y \<Longrightarrow> x = y"
  by (metis le_decode_encode)

section \<open>Lists\<close>

lemma take_update_append:
  "n < length xs \<Longrightarrow> take (Suc n) (xs[n := x]) = take n xs @ [x]"
  by (simp add: take_Suc_conv_app_nth)

lemma nth_take_drop: "i < n \<Longrightarrow> k + n \<le> length xs \<Longrightarrow> take n (drop k xs) ! i = xs ! (k + i)"
  by simp

lemma list_split_at: "i < length xs \<Longrightarrow> xs = take i xs @ xs ! i # drop (Suc i) xs"
  by (simp add: id_take_nth_drop)

lemma take_eq_nth:
  "length xs \<ge> n \<Longrightarrow> length ys \<ge> n \<Longrightarrow>
     take n xs = take n ys \<longleftrightarrow> (\<forall>i<n. xs ! i = ys ! i)"
  by (auto simp: list_eq_iff_nth_eq)

lemma upt_split: "i \<le> j \<Longrightarrow> j \<le> k \<Longrightarrow> [i..<k] = [i..<j] @ [j..<k]"
  by (metis le_add_diff_inverse upt_add_eq_append)

end
