(* ===== verification/Bits.thy ===== *)
theory Bits
  imports Prelude
begin

unbundle bit_operations_syntax

text \<open>
  The bit macros of \<open>core/me_defines.h\<close> and \<open>core/me_memory.h\<close>, and the fixed-size bit
  array \<open>meBitArray\<close> of \<open>core/containers/me_bitarray.h\<close>. The bit array is a list of
  32-bit words; the locale \<open>bit_store\<close> states what its clients (the block list) rely
  on, and is interpreted on the model.
\<close>

section \<open>Bit macros\<close>

definition NTH_BIT :: "nat \<Rightarrow> u32" where
  "NTH_BIT index = push_bit index 1"

definition SET_BIT :: "u32 \<Rightarrow> nat \<Rightarrow> bool \<Rightarrow> u32" where
  "SET_BIT bitfield n_bit onoff =
     (bitfield AND NOT (push_bit n_bit 1)) OR push_bit n_bit (of_bool onoff)"

definition TOGGLE_NTH_BIT :: "u32 \<Rightarrow> nat \<Rightarrow> u32" where
  "TOGGLE_NTH_BIT bitfield n_bit = bitfield XOR push_bit n_bit 1"

definition TEST_BIT :: "u32 \<Rightarrow> nat \<Rightarrow> bool" where
  "TEST_BIT bitfield n_bit = (drop_bit n_bit bitfield AND 1 = 1)"

text \<open>The number of binary digits of a number, for the compiler's count-zero builtins.\<close>

fun bit_length :: "nat \<Rightarrow> nat" where
  "bit_length n = (if n = 0 then 0 else Suc (bit_length (n div 2)))"

declare bit_length.simps [simp del]

definition builtin_clzll :: "u64 \<Rightarrow> nat" where
  "builtin_clzll x = 64 - bit_length (unat x)"

definition CLZ32 :: "u32 \<Rightarrow> nat" where
  "CLZ32 x = (if x = 0 then 32 else 32 - bit_length (unat x))"

fun trailing_zeros :: "nat \<Rightarrow> nat \<Rightarrow> nat" where
  "trailing_zeros 0 n = 0"
| "trailing_zeros (Suc fuel) n = (if odd n then 0 else Suc (trailing_zeros fuel (n div 2)))"

definition CTZ32 :: "u32 \<Rightarrow> nat" where
  "CTZ32 x = (if x = 0 then 32 else trailing_zeros 32 (unat x))"

definition MSB64 :: "u64 \<Rightarrow> int" where
  "MSB64 x = 63 - int (builtin_clzll x)"

text \<open>\<open>MSB32\<close> subtracts the 64-bit count of leading zeros from 31, as the macro does.\<close>

definition MSB32 :: "u32 \<Rightarrow> int" where
  "MSB32 x = 31 - int (builtin_clzll (ucast x))"

lemma TEST_BIT_bit: "TEST_BIT w n = bit w n"
  by (simp add: TEST_BIT_def bit_iff_and_drop_bit_eq_1)

lemma bit_SET_BIT: "n < 32 \<Longrightarrow> bit (SET_BIT w n v) m = (if m = n then v else bit w m)"
  by (cases v) (auto simp: SET_BIT_def bit_simps dest: bit_imp_le_length)

lemma bit_TOGGLE: "n < 32 \<Longrightarrow> bit (TOGGLE_NTH_BIT w n) m = (if m = n then \<not> bit w m else bit w m)"
  by (auto simp: TOGGLE_NTH_BIT_def bit_simps dest: bit_imp_le_length)

lemma bit_length_upper: "n < 2 ^ bit_length n"
proof (induction n rule: bit_length.induct)
  case (1 n)
  show ?case
  proof (cases "n = 0")
    case True
    then show ?thesis by (simp add: bit_length.simps)
  next
    case False
    with "1.IH" have "n div 2 < 2 ^ bit_length (n div 2)" by simp
    then have "n < 2 * 2 ^ bit_length (n div 2)" by linarith
    with False show ?thesis by (simp add: bit_length.simps [of n])
  qed
qed

lemma bit_length_lower: "0 < n \<Longrightarrow> 2 ^ (bit_length n - 1) \<le> n"
proof (induction n rule: bit_length.induct)
  case (1 n)
  show ?case
  proof (cases "n div 2 = 0")
    case True
    with "1.prems" have "bit_length n = 1"
      by (simp add: bit_length.simps [of n] bit_length.simps [of 0])
    with "1.prems" show ?thesis by simp
  next
    case False
    with "1.IH" "1.prems" have IH: "2 ^ (bit_length (n div 2) - 1) \<le> n div 2" by simp
    from False have pos: "0 < bit_length (n div 2)"
      by (simp add: bit_length.simps [of "n div 2"])
    have "bit_length n = Suc (bit_length (n div 2))"
      using "1.prems" by (simp add: bit_length.simps [of n])
    with pos have "(2::nat) ^ (bit_length n - 1) = 2 * 2 ^ (bit_length (n div 2) - 1)"
      by (metis Suc_diff_1 diff_Suc_1 power_Suc)
    with IH show ?thesis by linarith
  qed
qed

lemma bit_length_le: "n < 2 ^ k \<Longrightarrow> bit_length n \<le> k"
proof (cases "n = 0")
  case False
  assume "n < 2 ^ k"
  with bit_length_lower [of n] False have "(2::nat) ^ (bit_length n - 1) < 2 ^ k" by linarith
  then have "bit_length n - 1 < k" by (simp add: power_strict_increasing_iff)
  then show ?thesis by linarith
qed (simp add: bit_length.simps)

lemma bit_length_pos: "0 < n \<Longrightarrow> 0 < bit_length n"
  by (simp add: bit_length.simps [of n])

section \<open>meBitArray\<close>

text \<open>
  \<open>meBitArray<N>\<close> holds \<open>NUM_WORDS\<close> words. \<open>get\<close> has no range check of its own: a read past
  the words is out of bounds; \<open>set\<close> asserts \<open>idx < N\<close>.
\<close>

type_synonym bitarray = "u32 list"

definition NUM_WORDS :: "nat \<Rightarrow> nat" where
  "NUM_WORDS N = (N + 32 - 1) div 32"

definition bitarray_init :: "nat \<Rightarrow> bool \<Rightarrow> bitarray" where
  "bitarray_init N isInitiallySet = replicate (NUM_WORDS N) (if isInitiallySet then NOT 0 else 0)"

definition bitarray_get :: "bitarray \<Rightarrow> nat \<Rightarrow> bool result" where
  "bitarray_get d idx = bindR (readAt (idx div 32) d) (\<lambda>w. Inr (TEST_BIT w (idx mod 32)))"

definition bitarray_set :: "nat \<Rightarrow> bitarray \<Rightarrow> nat \<Rightarrow> bool \<Rightarrow> bitarray result" where
  "bitarray_set N d idx value =
     ME_ASSERT (idx < N)
       (bindR (readAt (idx div 32) d)
         (\<lambda>w. writeAt (idx div 32) (SET_BIT w (idx mod 32) value) d))"

definition bitarray_clear :: "bitarray \<Rightarrow> bitarray" where
  "bitarray_clear d = replicate (length d) 0"

definition bitarray_count :: "nat \<Rightarrow> nat" where
  "bitarray_count N = N"

text \<open>The abstract view: the bits of the array as a list of \<open>N\<close> booleans.\<close>

definition bitarray_wf :: "nat \<Rightarrow> bitarray \<Rightarrow> bool" where
  "bitarray_wf N d \<longleftrightarrow> length d = NUM_WORDS N"

definition bitarray_bits :: "nat \<Rightarrow> bitarray \<Rightarrow> bool list" where
  "bitarray_bits N d = map (\<lambda>i. bit (d ! (i div 32)) (i mod 32)) [0..<N]"

lemma length_bitarray_bits [simp]: "length (bitarray_bits N d) = N"
  by (simp add: bitarray_bits_def)

lemma word_index_less: "i < N \<Longrightarrow> i div 32 < NUM_WORDS N"
  by (simp add: NUM_WORDS_def)

lemma bitarray_wf_init: "bitarray_wf N (bitarray_init N v)"
  by (simp add: bitarray_wf_def bitarray_init_def)

lemma bitarray_bits_init: "bitarray_bits N (bitarray_init N v) = replicate N v"
  by (auto simp: list_eq_iff_nth_eq bitarray_bits_def bitarray_init_def word_index_less bit_not_iff)

lemma bitarray_get_ok:
  "bitarray_wf N d \<Longrightarrow> i < N \<Longrightarrow> bitarray_get d i = Inr (bitarray_bits N d ! i)"
  by (simp add: bitarray_get_def bitarray_wf_def bitarray_bits_def word_index_less readAt_ok TEST_BIT_bit)

lemma div_mod_eq_iff: "i div 32 = j div 32 \<and> i mod 32 = j mod 32 \<longleftrightarrow> i = (j::nat)"
  by (metis div_mult_mod_eq)

lemma bitarray_set_spec:
  assumes "bitarray_wf N d" and "i < N"
  shows "\<exists>d'. bitarray_set N d i v = Inr d' \<and> bitarray_wf N d' \<and>
           bitarray_bits N d' = (bitarray_bits N d)[i := v]"
proof -
  let ?d = "d[i div 32 := SET_BIT (d ! (i div 32)) (i mod 32) v]"
  have len: "length d = NUM_WORDS N" and idx: "i div 32 < length d"
    using assms by (simp_all add: bitarray_wf_def word_index_less)
  have "bitarray_bits N ?d ! j = (bitarray_bits N d)[i := v] ! j" if "j < N" for j
  proof (cases "j div 32 = i div 32")
    case True
    with that idx div_mod_eq_iff [of j i] show ?thesis
      by (auto simp: bitarray_bits_def bit_SET_BIT nth_list_update)
  next
    case False
    then have "j \<noteq> i" by auto
    with False that show ?thesis by (simp add: bitarray_bits_def)
  qed
  then have "bitarray_bits N ?d = (bitarray_bits N d)[i := v]"
    by (simp add: list_eq_iff_nth_eq)
  with len idx assms show ?thesis
    by (simp add: bitarray_set_def readAt_ok writeAt_ok bitarray_wf_def)
qed

lemma bitarray_set_out_of_range: "\<not> i < N \<Longrightarrow> bitarray_set N d i v = Inl AssertFailed"
  by (simp add: bitarray_set_def)

lemma bitarray_clear_spec:
  assumes "bitarray_wf N d"
  shows "bitarray_wf N (bitarray_clear d) \<and> bitarray_bits N (bitarray_clear d) = replicate N False"
  using assms
  by (auto simp: bitarray_wf_def bitarray_clear_def bitarray_bits_def list_eq_iff_nth_eq word_index_less)

section \<open>The interface a slot allocator relies on\<close>

text \<open>
  A scan over \<open>n\<close> slots for the first one whose bit is set, as the block list's search
  for a free slot does (\<open>idx\<close> counts up, the scan stops at the first hit).
\<close>

fun scan_set :: "(nat \<Rightarrow> bool result) \<Rightarrow> nat \<Rightarrow> nat \<Rightarrow> (nat \<times> bool) result" where
  "scan_set get idx 0 = Inr (idx, False)"
| "scan_set get idx (Suc left) =
     bindR (get idx) (\<lambda>b. if b then Inr (idx, True) else scan_set get (Suc idx) left)"

locale bit_store =
  fixes N :: nat
    and wf :: "'s \<Rightarrow> bool"
    and bits :: "'s \<Rightarrow> bool list"
    and get :: "'s \<Rightarrow> nat \<Rightarrow> bool result"
    and put :: "'s \<Rightarrow> nat \<Rightarrow> bool \<Rightarrow> 's result"
  assumes bits_length: "length (bits s) = N"
    and get_law: "wf s \<Longrightarrow> i < N \<Longrightarrow> get s i = Inr (bits s ! i)"
    and put_law: "wf s \<Longrightarrow> i < N \<Longrightarrow>
          \<exists>s'. put s i v = Inr s' \<and> wf s' \<and> bits s' = (bits s)[i := v]"
begin

lemma put_get:
  assumes "wf s" "i < N" "j < N"
  shows "\<exists>s'. put s i v = Inr s' \<and> get s' j = Inr (if j = i then v else bits s ! j)"
proof -
  from put_law [OF assms(1,2)] obtain s' where
    s': "put s i v = Inr s'" "wf s'" "bits s' = (bits s)[i := v]" by blast
  with assms get_law [OF s'(2), of j] bits_length [of s] show ?thesis
    by (auto simp: nth_list_update)
qed

lemma scan_found:
  assumes "wf s" and "k + n = N" and "\<exists>i. k \<le> i \<and> i < N \<and> bits s ! i"
  shows "\<exists>i. scan_set (get s) k n = Inr (i, True) \<and> k \<le> i \<and> i < N \<and> bits s ! i \<and>
           (\<forall>j. k \<le> j \<and> j < i \<longrightarrow> \<not> bits s ! j)"
  using assms
proof (induction n arbitrary: k)
  case 0
  then show ?case by auto
next
  case (Suc n)
  have g: "get s k = Inr (bits s ! k)"
    using Suc.prems by (intro get_law) auto
  show ?case
  proof (cases "bits s ! k")
    case True
    with g Suc.prems show ?thesis by auto
  next
    case False
    with Suc.prems have "\<exists>i. Suc k \<le> i \<and> i < N \<and> bits s ! i"
      by (metis Suc_leI le_neq_implies_less)
    with Suc.IH [of "Suc k"] Suc.prems obtain i where
      i: "scan_set (get s) (Suc k) n = Inr (i, True)" "Suc k \<le> i" "i < N" "bits s ! i"
         "\<forall>j. Suc k \<le> j \<and> j < i \<longrightarrow> \<not> bits s ! j" by auto
    have "\<forall>j. k \<le> j \<and> j < i \<longrightarrow> \<not> bits s ! j"
      using i(5) False by (metis Suc_leI le_neq_implies_less)
    with i False g show ?thesis by auto
  qed
qed

lemma scan_none:
  assumes "wf s" and "k + n = N" and "\<forall>i. k \<le> i \<and> i < N \<longrightarrow> \<not> bits s ! i"
  shows "scan_set (get s) k n = Inr (N, False)"
  using assms
proof (induction n arbitrary: k)
  case 0
  then show ?case by simp
next
  case (Suc n)
  then have "get s k = Inr False"
    using get_law [of s k] by simp
  with Suc show ?case by simp
qed

end

interpretation bitarray: bit_store N "bitarray_wf N" "bitarray_bits N" bitarray_get "bitarray_set N"
  for N
  by unfold_locales (simp_all add: bitarray_get_ok bitarray_set_spec)

section \<open>Properties\<close>

text \<open>
  Setting a bit of a \<open>meBitArray\<close> and reading any bit back gives the new value at the
  written index and leaves every other bit alone; nothing faults inside the array.
\<close>

theorem bitarray_put_get:
  assumes "bitarray_wf N d" and "i < N" and "j < N"
  shows "\<exists>d'. bitarray_set N d i v = Inr d' \<and>
           bitarray_get d' j = Inr (if j = i then v else bitarray_bits N d ! j)"
  using assms by (rule bitarray.put_get)

lemma bitarray_put_get_witness:
  "\<exists>d'. bitarray_set 40 (bitarray_init 40 False) 35 True = Inr d' \<and>
     bitarray_get d' 35 = Inr True"
  using bitarray_put_get [OF bitarray_wf_init, of 35 40 35 False True] by simp

text \<open>
  The most significant bit of a 64-bit value is found by \<open>MSB64\<close>: for a non-zero value
  the result is the exponent of the largest power of two not above it. \<open>MSB32\<close> computes
  32 less than that for every 32-bit input, because it subtracts a 64-bit count from 31.
\<close>

lemma MSB64_bounds:
  assumes "x \<noteq> 0"
  shows "\<exists>k. MSB64 x = int k \<and> 2 ^ k \<le> unat x \<and> unat x < 2 ^ Suc k"
proof -
  have pos: "0 < unat x" using assms by (simp add: unat_gt_0)
  have "unat x < 2 ^ 64" using unsigned_less [of x] by simp
  then have le: "bit_length (unat x) \<le> 64" by (rule bit_length_le)
  have bl: "0 < bit_length (unat x)" using pos by (rule bit_length_pos)
  have "MSB64 x = int (bit_length (unat x) - 1)"
    using le bl by (simp add: MSB64_def builtin_clzll_def of_nat_diff)
  moreover have "unat x < 2 ^ Suc (bit_length (unat x) - 1)"
    using bit_length_upper [of "unat x"] bl by simp
  ultimately show ?thesis
    using bit_length_lower [OF pos] by blast
qed

lemma MSB32_off_by_32: "MSB32 x = MSB64 (ucast x) - 32"
  by (simp add: MSB32_def MSB64_def)

end
