(* ===== verification/Hashing.thy ===== *)
theory Hashing
  imports Prelude
begin

unbundle bit_operations_syntax

text \<open>
  The Fowler-Noll-Vo hashes of \<open>core/me_core.h\<close> and \<open>core/me_core.cpp\<close>: the run-time
  hashes over a byte buffer, the compile-time hashes over a string, and the hash
  combiner. A buffer is the list of its bytes; a C++ \<open>char\<close> is its byte, read as a
  signed value where the code widens it without going through \<open>unsigned char\<close>.
\<close>

section \<open>Definitions\<close>

definition FNV_offset_basis_u64 :: u64 where
  "FNV_offset_basis_u64 = 0xcbf29ce484222325"

definition FNV_prime_u64 :: u64 where
  "FNV_prime_u64 = 0x100000001b3"

definition FNV_offset_basis_u32 :: u32 where
  "FNV_offset_basis_u32 = 0x811c9dc5"

definition FNV_prime_u32 :: u32 where
  "FNV_prime_u32 = 0x01000193"

text \<open>The loop bodies and loops of \<open>HashBytesL\<close> and \<open>HashBytes\<close>.\<close>

definition fnv_step64 :: "u64 \<Rightarrow> u8 \<Rightarrow> u64" where
  "fnv_step64 hash byte = (hash XOR ucast byte) * FNV_prime_u64"

definition fnv_step32 :: "u32 \<Rightarrow> u8 \<Rightarrow> u32" where
  "fnv_step32 hash byte = (hash XOR ucast byte) * FNV_prime_u32"

fun fnv_loop64 :: "u64 \<Rightarrow> u8 list \<Rightarrow> u64" where
  "fnv_loop64 hash [] = hash"
| "fnv_loop64 hash (b # bs) = fnv_loop64 (fnv_step64 hash b) bs"

fun fnv_loop32 :: "u32 \<Rightarrow> u8 list \<Rightarrow> u32" where
  "fnv_loop32 hash [] = hash"
| "fnv_loop32 hash (b # bs) = fnv_loop32 (fnv_step32 hash b) bs"

definition HashBytesL :: "u8 list \<Rightarrow> u64" where
  "HashBytesL data = fnv_loop64 FNV_offset_basis_u64 data"

definition HashBytes :: "u8 list \<Rightarrow> u32" where
  "HashBytes data = fnv_loop32 FNV_offset_basis_u32 data"

text \<open>
  The recursive compile-time hashes stop at the terminating zero byte. They widen a
  \<open>char\<close> directly, which sign-extends it.
\<close>

fun HashStringComptimeL :: "u8 list \<Rightarrow> u64 \<Rightarrow> u64" where
  "HashStringComptimeL [] value = value"
| "HashStringComptimeL (c # str) value =
     (if c = 0 then value
      else HashStringComptimeL str ((value XOR scast c) * FNV_prime_u64))"

fun HashStringComptime :: "u8 list \<Rightarrow> u32 \<Rightarrow> u32" where
  "HashStringComptime [] value = value"
| "HashStringComptime (c # str) value =
     (if c = 0 then value
      else HashStringComptime str ((value XOR scast c) * FNV_prime_u32))"

text \<open>The overload on \<open>std::string_view\<close> goes through \<open>unsigned char\<close>; its constants are decimal.\<close>

fun HashStringComptime_sv_loop :: "u64 \<Rightarrow> u8 list \<Rightarrow> u64" where
  "HashStringComptime_sv_loop hash [] = hash"
| "HashStringComptime_sv_loop hash (c # str) =
     HashStringComptime_sv_loop ((hash XOR ucast c) * 1099511628211) str"

definition HashStringComptime_sv :: "u8 list \<Rightarrow> u64" where
  "HashStringComptime_sv str = HashStringComptime_sv_loop 14695981039346656037 str"

text \<open>The bytes of a 64-bit value in memory order.\<close>

definition bytes_of_u64 :: "u64 \<Rightarrow> u8 list" where
  "bytes_of_u64 w = le_encode 8 (unat w)"

definition HashCombineImpl :: "u64 \<Rightarrow> u64 \<Rightarrow> u64" where
  "HashCombineImpl seed val =
     seed XOR (HashBytesL (bytes_of_u64 val) + 0x9e3779b9 + push_bit 6 seed + drop_bit 2 seed)"

definition HashCombine :: "u64 list \<Rightarrow> u64" where
  "HashCombine args = foldl HashCombineImpl 0 args"

text \<open>\<open>std::hash<StringView>\<close> of \<open>core/me_string.cpp\<close>: the content hash mixed with the hash of
  the 64-bit length.\<close>

definition hash_StringView :: "u8 list \<Rightarrow> u64" where
  "hash_StringView s =
     HashBytesL s XOR push_bit 1 (ucast (HashBytes (bytes_of_u64 (of_nat (length s)))))"

section \<open>Lemmas\<close>

lemma fnv_loop64_append: "fnv_loop64 h (xs @ ys) = fnv_loop64 (fnv_loop64 h xs) ys"
  by (induction xs arbitrary: h) auto

lemma fnv_loop32_append: "fnv_loop32 h (xs @ ys) = fnv_loop32 (fnv_loop32 h xs) ys"
  by (induction xs arbitrary: h) auto

text \<open>Both primes are odd, so multiplication by them is undone by their inverses.\<close>

lemma FNV_prime_u64_inverse: "FNV_prime_u64 * 0xce965057aff6957b = 1"
  by (simp add: FNV_prime_u64_def)

lemma FNV_prime_u32_inverse: "FNV_prime_u32 * 0x359c449b = 1"
  by (simp add: FNV_prime_u32_def)

lemma mult_cancel_inverse:
  fixes x y p q :: "'a::len word"
  assumes "p * q = 1" and "x * p = y * p"
  shows "x = y"
  by (metis assms mult.assoc mult.right_neutral)

lemma xor_cancel_right: "x XOR b = y XOR b \<longleftrightarrow> x = (y :: 'a::len word)"
  by (metis xor.assoc xor_self_eq xor.right_neutral)

lemma xor_cancel_left: "b XOR x = b XOR y \<longleftrightarrow> x = (y :: 'a::len word)"
  by (metis xor.commute xor_cancel_right)

lemma ucast_u8_u64_inj: "(ucast (x :: u8) :: u64) = ucast y \<longleftrightarrow> x = y"
  by transfer (simp add: take_bit_eq_mod)

lemma ucast_u8_u32_inj: "(ucast (x :: u8) :: u32) = ucast y \<longleftrightarrow> x = y"
  by transfer (simp add: take_bit_eq_mod)

lemma fnv_step64_inj_hash: "fnv_step64 h b = fnv_step64 h' b \<longleftrightarrow> h = h'"
  using mult_cancel_inverse [OF FNV_prime_u64_inverse, of "h XOR ucast b" "h' XOR ucast b"]
  by (auto simp: fnv_step64_def xor_cancel_right)

lemma fnv_step64_inj_byte: "fnv_step64 h a = fnv_step64 h b \<longleftrightarrow> a = b"
  using mult_cancel_inverse [OF FNV_prime_u64_inverse, of "h XOR ucast a" "h XOR ucast b"]
  by (auto simp: fnv_step64_def xor_cancel_left ucast_u8_u64_inj)

lemma fnv_step32_inj_hash: "fnv_step32 h b = fnv_step32 h' b \<longleftrightarrow> h = h'"
  using mult_cancel_inverse [OF FNV_prime_u32_inverse, of "h XOR ucast b" "h' XOR ucast b"]
  by (auto simp: fnv_step32_def xor_cancel_right)

lemma fnv_step32_inj_byte: "fnv_step32 h a = fnv_step32 h b \<longleftrightarrow> a = b"
  using mult_cancel_inverse [OF FNV_prime_u32_inverse, of "h XOR ucast a" "h XOR ucast b"]
  by (auto simp: fnv_step32_def xor_cancel_left ucast_u8_u32_inj)

lemma fnv_loop64_inj_hash: "fnv_loop64 h bs = fnv_loop64 h' bs \<longleftrightarrow> h = h'"
  by (induction bs arbitrary: h h') (simp_all add: fnv_step64_inj_hash)

lemma fnv_loop32_inj_hash: "fnv_loop32 h bs = fnv_loop32 h' bs \<longleftrightarrow> h = h'"
  by (induction bs arbitrary: h h') (simp_all add: fnv_step32_inj_hash)

text \<open>A seven-bit character widens the same way signed and unsigned.\<close>

lemma sint_ascii: "c < 128 \<Longrightarrow> sint (c :: u8) = uint c"
proof -
  assume "c < 128"
  then have "uint c < 128" by (simp add: word_less_def)
  then show ?thesis
    by (simp add: sint_uint signed_take_bit_eq_if_positive bit_iff_odd take_bit_eq_mod)
qed

lemma scast_ascii64: "c < 128 \<Longrightarrow> (scast (c :: u8) :: u64) = ucast c"
  by (simp only: scast_eq ucast_eq sint_ascii)

lemma scast_ascii32: "c < 128 \<Longrightarrow> (scast (c :: u8) :: u32) = ucast c"
  by (simp only: scast_eq ucast_eq sint_ascii)

lemma HashStringComptime_sv_loop_eq: "HashStringComptime_sv_loop h s = fnv_loop64 h s"
  by (induction s arbitrary: h) (simp_all add: fnv_step64_def FNV_prime_u64_def)

lemma HashStringComptimeL_eq:
  "\<forall>c\<in>set s. c \<noteq> 0 \<and> c < 128 \<Longrightarrow> HashStringComptimeL s h = fnv_loop64 h s"
  by (induction s arbitrary: h) (simp_all add: fnv_step64_def scast_ascii64)

lemma HashStringComptime_eq:
  "\<forall>c\<in>set s. c \<noteq> 0 \<and> c < 128 \<Longrightarrow> HashStringComptime s h = fnv_loop32 h s"
  by (induction s arbitrary: h) (simp_all add: fnv_step32_def scast_ascii32)

section \<open>Properties\<close>

text \<open>
  Two buffers that differ in exactly one byte never collide under \<open>HashBytesL\<close> or
  \<open>HashBytes\<close>: every step of the hash is a bijection of the running state, because the
  primes are odd.
\<close>

theorem HashBytes_one_byte_apart:
  assumes "a \<noteq> b"
  shows "HashBytesL (xs @ a # ys) \<noteq> HashBytesL (xs @ b # ys) \<and>
         HashBytes (xs @ a # ys) \<noteq> HashBytes (xs @ b # ys)"
  using assms
  by (simp add: HashBytesL_def HashBytes_def fnv_loop64_append fnv_loop32_append
        fnv_loop64_inj_hash fnv_loop32_inj_hash fnv_step64_inj_byte fnv_step32_inj_byte)

lemma HashBytes_one_byte_apart_witness:
  "HashBytesL ([109] @ 1 # [101]) \<noteq> HashBytesL ([109] @ 2 # [101])"
  using HashBytes_one_byte_apart [of 1 2 "[109]" "[101]"] by simp

text \<open>
  On a string of seven-bit characters without a zero byte the compile-time hashes of a
  literal agree with the run-time hashes of its bytes; the \<open>string_view\<close> overload agrees
  with \<open>HashBytesL\<close> on every string.
\<close>

theorem comptime_hash_agrees:
  assumes "\<forall>c\<in>set s. c \<noteq> 0 \<and> c < 128"
  shows "HashStringComptimeL s FNV_offset_basis_u64 = HashBytesL s \<and>
         HashStringComptime s FNV_offset_basis_u32 = HashBytes s \<and>
         HashStringComptime_sv t = HashBytesL t"
  using assms
  by (simp add: HashBytesL_def HashBytes_def HashStringComptime_sv_def HashStringComptimeL_eq
        HashStringComptime_eq HashStringComptime_sv_loop_eq FNV_offset_basis_u64_def)

lemma comptime_hash_agrees_witness:
  "HashStringComptimeL [77, 69] FNV_offset_basis_u64 = HashBytesL [77, 69]"
proof -
  have "\<forall>c\<in>set [77, 69 :: u8]. c \<noteq> 0 \<and> c < 128" by simp
  from comptime_hash_agrees [OF this, of "[]"] show ?thesis by blast
qed

end
