(* ===== verification/Handles.thy ===== *)
theory Handles
  imports Bits Hashing
begin

text \<open>
  The run-time handle \<open>Eye\<close> of \<open>core/me_core.h\<close> (index, template flag and generation
  packed in 32 bits) and the asset id \<open>MAID\<close> of \<open>asset/me_asset.h\<close>. \<open>Eye\<close> has two
  layouts in the source: bit fields in the engine, hand-written masks in the build that
  runs the reflector (\<open>ME_REFLECTING\<close>); both are modelled.
\<close>

section \<open>Eye, the bit-field layout\<close>

text \<open>
  The bit fields \<open>index : 23\<close>, \<open>isAssetTemplate : 1\<close> and \<open>generation : 8\<close> are laid out from
  the least significant bit; storing a \<open>u32\<close> in \<open>index\<close> keeps its low 23 bits.
\<close>

type_synonym Eye = u32

definition IndexNumBits :: nat where
  "IndexNumBits = 23"

definition AssetTemplateNumBits :: nat where
  "AssetTemplateNumBits = 1"

definition IndexBitsMask :: u32 where
  "IndexBitsMask = push_bit IndexNumBits 1 - 1"

definition GenerationBitsMask :: u32 where
  "GenerationBitsMask = push_bit (IndexNumBits + AssetTemplateNumBits) (NOT 0)"

definition EYE_INVALID :: Eye where
  "EYE_INVALID = 0"

definition Eye_make :: "u32 \<Rightarrow> u8 \<Rightarrow> bool \<Rightarrow> Eye" where
  "Eye_make idx generation isAssetTemplate =
     take_bit 23 idx OR push_bit 23 (of_bool isAssetTemplate) OR push_bit 24 (ucast generation)"

definition Eye_GetIndex :: "Eye \<Rightarrow> u32" where
  "Eye_GetIndex eye = take_bit 23 eye"

definition Eye_GetGeneration :: "Eye \<Rightarrow> u8" where
  "Eye_GetGeneration eye = ucast (drop_bit 24 eye)"

definition Eye_IsTemplateAsset :: "Eye \<Rightarrow> bool" where
  "Eye_IsTemplateAsset eye = bit eye 23"

definition Eye_bool :: "Eye \<Rightarrow> bool" where
  "Eye_bool eye = (eye \<noteq> 0)"

section \<open>Eye, the masked layout of the reflector build\<close>

definition AssetTemplateBitMask :: u32 where
  "AssetTemplateBitMask = push_bit (IndexNumBits + AssetTemplateNumBits) 1"

definition REye_make :: "u32 \<Rightarrow> u8 \<Rightarrow> bool \<Rightarrow> Eye" where
  "REye_make idx generation isEditor =
     0 OR (idx AND IndexBitsMask)
       OR push_bit (IndexNumBits + AssetTemplateNumBits) (ucast generation)
       OR (if isEditor then AssetTemplateBitMask else 0)"

definition REye_GetIndex :: "Eye \<Rightarrow> u32" where
  "REye_GetIndex eye = eye AND IndexBitsMask"

definition REye_GetGeneration :: "Eye \<Rightarrow> u8" where
  "REye_GetGeneration eye =
     ucast (drop_bit (IndexNumBits + AssetTemplateNumBits) (eye AND GenerationBitsMask))"

definition REye_IsTemplateAsset :: "Eye \<Rightarrow> bool" where
  "REye_IsTemplateAsset eye = (eye AND AssetTemplateBitMask \<noteq> 0)"

section \<open>MAID\<close>

text \<open>The asset types of \<open>ME_DECLARE_ASSET_TYPES\<close>, numbered from 0, then \<open>NUM_ASSET_TYPES\<close>.\<close>

datatype meAssetType =
    MABadData | MAScene | MAShader | MAMaterial | MAMesh | MATexture | MAEntity

definition NUM_ASSET_TYPES :: nat where
  "NUM_ASSET_TYPES = 7"

fun meAssetType_value :: "meAssetType \<Rightarrow> u32" where
  "meAssetType_value MABadData = 0"
| "meAssetType_value MAScene = 1"
| "meAssetType_value MAShader = 2"
| "meAssetType_value MAMaterial = 3"
| "meAssetType_value MAMesh = 4"
| "meAssetType_value MATexture = 5"
| "meAssetType_value MAEntity = 6"

record MAID =
  maid_id :: u32
  maid_type :: u32

definition U32_INVALID_ID :: u32 where
  "U32_INVALID_ID = 0xFFFFFFFF"

definition MAID_INVALID :: MAID where
  "MAID_INVALID = \<lparr>maid_id = U32_INVALID_ID, maid_type = U32_INVALID_ID\<rparr>"

definition MAID_SetID :: "MAID \<Rightarrow> u64 \<Rightarrow> MAID result" where
  "MAID_SetID m i = ME_ASSERT (unat i \<le> 0xffffffff) (Inr (m\<lparr>maid_id := ucast i\<rparr>))"

definition MAID_SetType :: "MAID \<Rightarrow> u32 \<Rightarrow> MAID" where
  "MAID_SetType m ty = m\<lparr>maid_type := ty\<rparr>"

definition MAID_make :: "u64 \<Rightarrow> u32 \<Rightarrow> MAID result" where
  "MAID_make i ty = bindR (MAID_SetID MAID_INVALID i) (\<lambda>m. Inr (MAID_SetType m ty))"

text \<open>\<open>MAID::Of<T>()\<close>: an id of type \<open>T\<close> that refers to nothing yet.\<close>

definition MAID_Of :: "u32 \<Rightarrow> MAID" where
  "MAID_Of ty = (MAID_SetType MAID_INVALID ty)\<lparr>maid_id := U32_INVALID_ID\<rparr>"

text \<open>The enum compares as a signed \<open>int\<close>, so types with the top bit set are negative.\<close>

definition MAID_bool :: "MAID \<Rightarrow> bool" where
  "MAID_bool m = (maid_id m \<noteq> U32_INVALID_ID \<and> sint (maid_type m) < 7 \<and> sint (maid_type m) > 0)"

definition meAssetTypeIsValid :: "u32 \<Rightarrow> bool" where
  "meAssetTypeIsValid ty = (sint ty > 0 \<and> sint ty < 7)"

text \<open>\<open>operator u64\<close> reads the two fields as one little-endian 64-bit value.\<close>

definition MAID_u64 :: "MAID \<Rightarrow> u64" where
  "MAID_u64 m = ucast (maid_id m) OR push_bit 32 (ucast (maid_type m))"

definition MAID_eq :: "MAID \<Rightarrow> MAID \<Rightarrow> bool" where
  "MAID_eq a b = (maid_type a = maid_type b \<and> maid_id a = maid_id b)"

text \<open>\<open>MAID::Hash\<close> combines the standard library's hashes of the two fields.\<close>

definition MAID_Hash :: "(u64 \<Rightarrow> u64) \<Rightarrow> MAID \<Rightarrow> u64" where
  "MAID_Hash std_hash m =
     HashCombine [std_hash (ucast (maid_type m)), std_hash (ucast (maid_id m))]"

section \<open>Lemmas\<close>

lemmas eye_bits = NTH_BIT_def IndexNumBits_def AssetTemplateNumBits_def IndexBitsMask_def
  GenerationBitsMask_def AssetTemplateBitMask_def

lemma Eye_GetIndex_make: "Eye_GetIndex (Eye_make i g t) = take_bit 23 i"
  by (rule bit_eqI) (auto simp: Eye_GetIndex_def Eye_make_def bit_simps)

lemma Eye_GetGeneration_make: "Eye_GetGeneration (Eye_make i g t) = g"
  by (rule bit_eqI) (auto simp: Eye_GetGeneration_def Eye_make_def bit_simps)

lemma Eye_IsTemplateAsset_make: "Eye_IsTemplateAsset (Eye_make i g t) = t"
  by (auto simp: Eye_IsTemplateAsset_def Eye_make_def bit_simps)

lemma Eye_eqI:
  assumes "Eye_GetIndex a = Eye_GetIndex b" and "Eye_GetGeneration a = Eye_GetGeneration b"
    and "Eye_IsTemplateAsset a = Eye_IsTemplateAsset b"
  shows "a = b"
proof (rule bit_eqI)
  fix n assume n: "possible_bit TYPE(32 word) n"
  consider "n < 23" | "n = 23" | "24 \<le> n" by linarith
  then show "bit a n = bit b n"
  proof cases
    case 1
    from assms(1) have "bit (take_bit 23 a) n = bit (take_bit 23 b) n"
      by (simp add: Eye_GetIndex_def)
    with 1 n show ?thesis by (simp add: bit_simps)
  next
    case 2
    with assms(3) show ?thesis by (simp add: Eye_IsTemplateAsset_def)
  next
    case 3
    from assms(2) have "bit (ucast (drop_bit 24 a) :: u8) (n - 24) = bit (ucast (drop_bit 24 b) :: u8) (n - 24)"
      by (simp add: Eye_GetGeneration_def)
    with 3 n have "n - 24 < 8 \<Longrightarrow> bit a n = bit b n" by (simp add: bit_simps)
    with 3 n show ?thesis by simp
  qed
qed

lemma Eye_make_fields: "Eye_make (Eye_GetIndex e) (Eye_GetGeneration e) (Eye_IsTemplateAsset e) = e"
  by (rule Eye_eqI)
    (simp_all only: Eye_GetIndex_make Eye_GetGeneration_make Eye_IsTemplateAsset_make,
     simp add: Eye_GetIndex_def)

lemma unat_take_bit23: "unat (take_bit 23 (i :: u32)) = unat i mod 8388608"
  by (simp only: unsigned_take_bit_eq) (simp add: take_bit_eq_mod)

lemma take_bit_index: "unat i < 8388608 \<Longrightarrow> take_bit 23 (i :: u32) = i"
  by (simp add: word_unat_eq_iff unat_take_bit23)

lemma unat_Eye_GetIndex: "unat (Eye_GetIndex e) < 8388608"
  by (simp add: Eye_GetIndex_def unat_take_bit23)

lemma unat_of_nat_u32: "i < 4294967296 \<Longrightarrow> unat (of_nat i :: u32) = i"
  by (simp add: unat_of_nat)

lemma Eye_GetIndex_of_nat:
  "i < 8388608 \<Longrightarrow> unat (Eye_GetIndex (Eye_make (of_nat i) g t)) = i"
  by (simp add: Eye_GetIndex_make unat_take_bit23 unat_of_nat_u32)

lemma Eye_zero: "Eye_GetIndex 0 = 0" "Eye_GetGeneration 0 = 0" "\<not> Eye_IsTemplateAsset 0"
  by (simp_all add: Eye_GetIndex_def Eye_GetGeneration_def Eye_IsTemplateAsset_def)

lemma Eye_invalid_iff:
  "e = EYE_INVALID \<longleftrightarrow>
     Eye_GetIndex e = 0 \<and> Eye_GetGeneration e = 0 \<and> \<not> Eye_IsTemplateAsset e"
  using Eye_eqI [of e 0] by (auto simp: EYE_INVALID_def Eye_zero)

lemma IndexBitsMask_mask: "IndexBitsMask = mask 23"
  by (simp add: eye_bits mask_eq_exp_minus_1 push_bit_eq_mult)

lemma bit_AssetTemplateBitMask: "bit AssetTemplateBitMask n \<longleftrightarrow> n = 24"
  by (simp only: AssetTemplateBitMask_def IndexNumBits_def AssetTemplateNumBits_def bit_push_bit_iff)
    (auto simp: bit_1_iff)

lemma REye_bit: "n < 32 \<Longrightarrow> bit (REye_make i g t) n =
    (if n < 23 then bit i n else if n = 23 then False
     else bit g (n - 24) \<or> (n = 24 \<and> t))"
  by (auto simp: REye_make_def IndexBitsMask_mask IndexNumBits_def AssetTemplateNumBits_def
      bit_AssetTemplateBitMask bit_simps)

lemma odd_unat_bit: "odd (unat (g :: u8)) \<longleftrightarrow> bit g 0"
proof -
  have "odd (unat g) \<longleftrightarrow> bit (unat g) 0" by (simp only: bit_0)
  then show ?thesis by (simp only: bit_unsigned_iff) auto
qed

section \<open>Properties\<close>

text \<open>
  Packing and reading an \<open>Eye\<close> are inverse: the three fields of a packed handle are the
  ones stored (the index modulo 2^23), a handle is determined by its fields, and it is
  the invalid handle exactly when all three are zero.
\<close>

theorem Eye_roundtrip:
  "unat (Eye_GetIndex (Eye_make i g t)) = unat i mod 8388608 \<and>
   Eye_GetGeneration (Eye_make i g t) = g \<and>
   Eye_IsTemplateAsset (Eye_make i g t) = t \<and>
   Eye_make (Eye_GetIndex e) (Eye_GetGeneration e) (Eye_IsTemplateAsset e) = e \<and>
   (e = EYE_INVALID \<longleftrightarrow>
      Eye_GetIndex e = 0 \<and> Eye_GetGeneration e = 0 \<and> \<not> Eye_IsTemplateAsset e)"
  by (simp only: Eye_GetIndex_make Eye_GetGeneration_make Eye_IsTemplateAsset_make Eye_make_fields
      unat_take_bit23 Eye_invalid_iff)

text \<open>
  In the masked layout the template flag and the lowest generation bit are the same bit:
  an odd generation reads back as a template handle, and a template handle reads back
  with an odd generation.
\<close>

theorem REye_flag_aliases_generation:
  "REye_IsTemplateAsset (REye_make i g t) = (t \<or> bit g 0) \<and>
   REye_GetGeneration (REye_make i g t) = g OR of_bool t \<and>
   REye_GetIndex (REye_make i g t) = take_bit 23 i"
proof (intro conjI)
  have "REye_IsTemplateAsset e = bit e 24" for e
    using bit_eq_iff [of "e AND AssetTemplateBitMask" 0]
    by (auto simp: REye_IsTemplateAsset_def bit_and_iff bit_AssetTemplateBitMask)
  then show "REye_IsTemplateAsset (REye_make i g t) = (t \<or> bit g 0)"
    by (auto simp: REye_bit)
  show "REye_GetGeneration (REye_make i g t) = g OR of_bool t"
    by (rule bit_eqI) (auto simp: REye_GetGeneration_def REye_bit eye_bits bit_simps)
  show "REye_GetIndex (REye_make i g t) = take_bit 23 i"
    by (rule bit_eqI) (auto simp: REye_GetIndex_def REye_bit IndexBitsMask_mask bit_simps)
qed

end
