(* ===== verification/Arenas.thy ===== *)
theory Arenas
  imports Prelude
begin

text \<open>
  The bump allocator of \<open>core/me_arena.h\<close> and \<open>core/me_arena.cpp\<close> and the engine's
  allocator set-up in \<open>core/me_memory.cpp\<close>. An arena is its header plus the bytes of its
  backing memory; addresses are numbers, the null pointer is 0. \<open>ME_MEM_DEBUG\<close> is false
  in the source, so the debug clears are not part of the model. Offsets are \<open>u64\<close>, and
  their sums wrap around.
\<close>

section \<open>State\<close>

record arena =
  backing_mem :: nat
  backing_mem_size :: nat
  offset :: nat
  prev_offset :: nat
  backingAllocator :: "nat option"
  arena_name :: string
  contents :: "u8 list"

definition Arena_default :: arena where
  "Arena_default = \<lparr>backing_mem = 0, backing_mem_size = 0, offset = 0, prev_offset = 0,
     backingAllocator = None, arena_name = ''Unnamed allocator'', contents = []\<rparr>"

text \<open>
  \<open>ArenaInit\<close> asks the backing allocator (or the default one, number 0) for the memory;
  the address and the bytes it hands out are arguments here.
\<close>

definition ArenaInit :: "arena \<Rightarrow> nat \<Rightarrow> string \<Rightarrow> nat option \<Rightarrow> nat \<Rightarrow> u8 list \<Rightarrow> arena" where
  "ArenaInit a arenaSize name backing addr bytes =
     a\<lparr>backingAllocator := Some (case backing of Some b \<Rightarrow> b | None \<Rightarrow> 0),
       backing_mem := addr, backing_mem_size := arenaSize, contents := bytes,
       offset := 0, prev_offset := 0, arena_name := name\<rparr>"

definition ArenaInitFromMemory :: "arena \<Rightarrow> nat \<Rightarrow> nat \<Rightarrow> string option \<Rightarrow> u8 list \<Rightarrow> arena" where
  "ArenaInitFromMemory a mem mem_size name bytes =
     a\<lparr>backingAllocator := None, backing_mem := mem, backing_mem_size := mem_size, contents := bytes,
       offset := 0, prev_offset := 0,
       arena_name := (case name of Some n \<Rightarrow> n | None \<Rightarrow> ''Arena'')\<rparr>"

section \<open>Operations\<close>

text \<open>\<open>None\<close> is the null pointer of an exhausted arena.\<close>

definition ArenaAlloc :: "arena \<Rightarrow> nat \<Rightarrow> nat option \<times> arena" where
  "ArenaAlloc a alloc_size =
     (let is_out_of_mem = wrap64 (offset a + alloc_size) > backing_mem_size a
      in if is_out_of_mem then (None, a)
         else (Some (backing_mem a + offset a),
               a\<lparr>prev_offset := offset a, offset := wrap64 (offset a + alloc_size)\<rparr>))"

text \<open>
  \<open>ArenaResize\<close>: the newest block is resized in place, an older block is copied to a new
  one, an address outside the used part of the arena is a failed assertion. The copy into
  the null pointer of an exhausted arena is a fault.
\<close>

definition ArenaResize :: "arena \<Rightarrow> nat \<Rightarrow> nat \<Rightarrow> nat \<Rightarrow> (nat \<times> arena) result" where
  "ArenaResize a old_mem old_size new_size =
     (let is_old_mem_in_range = old_mem \<ge> backing_mem a \<and> old_mem < backing_mem a + offset a
      in if is_old_mem_in_range then
           (let is_most_recent_alloc = (old_mem = backing_mem a + prev_offset a)
            in if is_most_recent_alloc
               then Inr (old_mem, a\<lparr>offset := wrap64 (prev_offset a + new_size)\<rparr>)
               else (let copy_size = (if old_size < new_size then old_size else new_size)
                     in case ArenaAlloc a new_size of
                          (None, a') \<Rightarrow> (if copy_size = 0 then Inr (0, a') else Inl NullDeref)
                        | (Some new_mem, a') \<Rightarrow>
                            bindR (move_within (new_mem - backing_mem a) (old_mem - backing_mem a)
                                    copy_size (contents a'))
                              (\<lambda>bytes. Inr (new_mem, a'\<lparr>contents := bytes\<rparr>))))
         else Inl AssertFailed)"

definition ArenaClear :: "arena \<Rightarrow> arena" where
  "ArenaClear a = a\<lparr>offset := 0, prev_offset := 0\<rparr>"

definition ArenaClearNull :: "arena \<Rightarrow> arena" where
  "ArenaClearNull a =
     a\<lparr>offset := 0, prev_offset := 0, contents := replicate (backing_mem_size a) 0\<rparr>"

text \<open>
  Releasing the backing memory: the second component is the address handed to the backing
  allocator's \<open>meFree\<close>, if any. \<open>MEFREE\<close> skips null and nulls the pointer.
\<close>

definition ArenaFreeAll :: "arena \<Rightarrow> arena \<times> nat option" where
  "ArenaFreeAll a =
     (let a1 = (ArenaClear a)\<lparr>backing_mem_size := 0\<rparr>
      in if backingAllocator a1 \<noteq> None \<and> backing_mem a1 \<noteq> 0
         then (a1\<lparr>backing_mem := 0, contents := []\<rparr>, Some (backing_mem a1))
         else (a1, None))"

definition Arena_meAlloc :: "arena \<Rightarrow> nat \<Rightarrow> (nat option \<times> nat) \<times> arena" where
  "Arena_meAlloc a n = (case ArenaAlloc a n of (p, a') \<Rightarrow> ((p, n), a'))"

definition Arena_meFree :: "arena \<Rightarrow> nat \<Rightarrow> arena result" where
  "Arena_meFree a allocation =
     ME_ASSERT (backing_mem a \<le> allocation \<and> allocation \<le> backing_mem a + backing_mem_size a)
       (Inr a)"

definition Arena_meClear :: "arena \<Rightarrow> bool \<Rightarrow> arena \<times> nat option" where
  "Arena_meClear a deleteMemory =
     (if deleteMemory \<and> backingAllocator a \<noteq> None \<and> backing_mem a \<noteq> 0
      then (ArenaClear (a\<lparr>backing_mem := 0, contents := [], backing_mem_size := 0\<rparr>),
            Some (backing_mem a))
      else (ArenaClear a, None))"

text \<open>\<open>ArenaTLScratch::meClear\<close> forwards to the arena's.\<close>

definition ArenaTLScratch_meClear :: "arena \<Rightarrow> bool \<Rightarrow> arena \<times> nat option" where
  "ArenaTLScratch_meClear a deleteMemory = Arena_meClear a deleteMemory"

definition ArenaGetFreeSpace :: "arena \<Rightarrow> nat" where
  "ArenaGetFreeSpace a = wrap64 (backing_mem_size a + 18446744073709551616 - offset a)"

text \<open>
  \<open>ArenaGetName\<close> looks for a terminated string in the first 30 bytes of the backing memory;
  \<open>Some\<close> is the string found there, \<open>None\<close> the fixed fallback name.
\<close>

definition ARENA_MAX_NAME_LEN :: nat where
  "ARENA_MAX_NAME_LEN = 30"

fun name_scan :: "u8 list \<Rightarrow> nat \<Rightarrow> nat \<Rightarrow> nat option result" where
  "name_scan bytes i 0 = Inr None"
| "name_scan bytes i (Suc left) =
     bindR (readAt i bytes) (\<lambda>b. if b = 0 then Inr (Some i) else name_scan bytes (Suc i) left)"

definition ArenaGetName :: "arena \<Rightarrow> u8 list option result" where
  "ArenaGetName a =
     (if backing_mem a \<noteq> 0
      then bindR (name_scan (contents a) 0 ARENA_MAX_NAME_LEN)
             (\<lambda>r. Inr (map_option (\<lambda>n. take n (contents a)) r))
      else Inr None)"

section \<open>Temporary arenas\<close>

record arena_temp =
  tmp_offset :: nat
  tmp_prev_offset :: nat

definition ArenaTempInit :: "arena \<Rightarrow> arena_temp" where
  "ArenaTempInit a = \<lparr>tmp_offset = offset a, tmp_prev_offset = prev_offset a\<rparr>"

definition ArenaTempEnd :: "arena_temp \<Rightarrow> arena \<Rightarrow> arena" where
  "ArenaTempEnd tmp a = a\<lparr>offset := tmp_offset tmp, prev_offset := tmp_prev_offset tmp\<rparr>"

section \<open>The engine's arenas\<close>

definition KILOBYTES_BYTES :: "nat \<Rightarrow> nat" where
  "KILOBYTES_BYTES kb = wrap64 (kb * 1024)"

definition MEGABYTES_BYTES :: "nat \<Rightarrow> nat" where
  "MEGABYTES_BYTES mb = wrap64 (mb * 1024 * 1024)"

definition GIGABYTES_BYTES :: "nat \<Rightarrow> nat" where
  "GIGABYTES_BYTES gb = wrap64 (gb * 1024 * 1024 * 1024)"

definition ROOT_ARENA_SIZE :: nat where
  "ROOT_ARENA_SIZE = GIGABYTES_BYTES 2"

definition engine_arena_sizes :: "nat list" where
  "engine_arena_sizes =
     [MEGABYTES_BYTES 1024, MEGABYTES_BYTES 64, MEGABYTES_BYTES 128, MEGABYTES_BYTES 512]"

text \<open>A run of allocations from one allocator, in order.\<close>

fun alloc_run :: "('a \<Rightarrow> nat \<Rightarrow> nat option \<times> 'a) \<Rightarrow> 'a \<Rightarrow> nat list \<Rightarrow> nat option list \<times> 'a" where
  "alloc_run alloc a [] = ([], a)"
| "alloc_run alloc a (n # ns) =
     (case alloc a n of (p, a1) \<Rightarrow>
        (case alloc_run alloc a1 ns of (ps, a2) \<Rightarrow> (p # ps, a2)))"

text \<open>
  \<open>InitializeAllocatorSystem\<close>: the root arena over the tracked OS memory at \<open>mem\<close>, then the
  engine, frame, scene and game arenas allocated from it in that order. The backing
  allocator of the four is the root arena (number 1).
\<close>

definition InitializeAllocatorSystem :: "nat \<Rightarrow> u8 list \<Rightarrow> (arena \<times> arena list) result" where
  "InitializeAllocatorSystem mem bytes =
     ME_ASSERT (mem \<noteq> 0)
       (let root = ArenaInitFromMemory Arena_default mem ROOT_ARENA_SIZE (Some ''Root'') bytes
        in case alloc_run ArenaAlloc root engine_arena_sizes of (ps, root') \<Rightarrow>
             Inr (root', map2 (\<lambda>p (name, n).
                            ArenaInit Arena_default n name (Some 1)
                              (case p of Some addr \<Rightarrow> addr | None \<Rightarrow> 0)
                              (case p of Some addr \<Rightarrow> take n (drop (addr - mem) bytes) | None \<Rightarrow> []))
                          ps (zip [''Engine'', ''Engine Frame'', ''Engine Scene'', ''Game'']
                                  engine_arena_sizes)))"

section \<open>Well-formed arenas\<close>

definition arena_wf :: "arena \<Rightarrow> bool" where
  "arena_wf a \<longleftrightarrow> prev_offset a \<le> offset a \<and> offset a \<le> backing_mem_size a \<and>
     length (contents a) = backing_mem_size a \<and>
     backing_mem_size a < 18446744073709551616"

lemma arena_wf_init:
  "length bytes = n \<Longrightarrow> n < 18446744073709551616 \<Longrightarrow> arena_wf (ArenaInit a n name b addr bytes)"
  "length bytes = n \<Longrightarrow> n < 18446744073709551616 \<Longrightarrow> arena_wf (ArenaInitFromMemory a addr n nm bytes)"
  by (simp_all add: arena_wf_def ArenaInit_def ArenaInitFromMemory_def)

lemma ArenaAlloc_fits:
  assumes "arena_wf a" and "offset a + n \<le> backing_mem_size a"
  shows "ArenaAlloc a n =
    (Some (backing_mem a + offset a), a\<lparr>prev_offset := offset a, offset := offset a + n\<rparr>)"
  using assms by (simp add: ArenaAlloc_def arena_wf_def Let_def)

lemma ArenaAlloc_full:
  assumes "backing_mem_size a < offset a + n" and "offset a + n < 18446744073709551616"
  shows "ArenaAlloc a n = (None, a)"
  using assms by (simp add: ArenaAlloc_def)

lemma ArenaAlloc_wf:
  "arena_wf a \<Longrightarrow> offset a + n < 18446744073709551616 \<Longrightarrow> arena_wf (snd (ArenaAlloc a n))"
  by (auto simp: ArenaAlloc_def arena_wf_def Let_def)

lemma ArenaAlloc_frame:
  "backing_mem (snd (ArenaAlloc a n)) = backing_mem a"
  "backing_mem_size (snd (ArenaAlloc a n)) = backing_mem_size a"
  "contents (snd (ArenaAlloc a n)) = contents a"
  "backingAllocator (snd (ArenaAlloc a n)) = backingAllocator a"
  by (simp_all add: ArenaAlloc_def Let_def)

lemma ArenaClear_wf: "arena_wf a \<Longrightarrow> arena_wf (ArenaClear a)"
  by (simp add: arena_wf_def ArenaClear_def)

lemma ArenaClearNull_wf: "arena_wf a \<Longrightarrow> arena_wf (ArenaClearNull a)"
  by (simp add: arena_wf_def ArenaClearNull_def)

lemma ArenaFreeAll_wf_owned:
  "arena_wf a \<Longrightarrow> backingAllocator a \<noteq> None \<Longrightarrow> backing_mem a \<noteq> 0 \<Longrightarrow>
     arena_wf (fst (ArenaFreeAll a)) \<and> snd (ArenaFreeAll a) = Some (backing_mem a)"
  by (simp add: arena_wf_def ArenaFreeAll_def ArenaClear_def Let_def)

lemma Arena_meClear_wf: "arena_wf a \<Longrightarrow> arena_wf (fst (Arena_meClear a d))"
  by (simp add: arena_wf_def Arena_meClear_def ArenaClear_def)

section \<open>The interface: a region allocator\<close>

text \<open>
  What users of a bump allocator rely on: while a request fits, it is served with a run of
  addresses above everything served before and below the end of the region, and the
  amount in use grows by the request.
\<close>

fun runs_in :: "nat \<Rightarrow> nat \<Rightarrow> (nat \<times> nat) list \<Rightarrow> bool" where
  "runs_in lo hi [] \<longleftrightarrow> lo \<le> hi"
| "runs_in lo hi ((p, n) # rs) \<longleftrightarrow> lo \<le> p \<and> runs_in (p + n) hi rs"

lemma runs_in_bounds: "runs_in lo hi rs \<Longrightarrow> (p, n) \<in> set rs \<Longrightarrow> lo \<le> p \<and> p + n \<le> hi"
proof (induction rs arbitrary: lo)
  case (Cons r rs)
  obtain q m where r: "r = (q, m)" by (cases r)
  have "q + m \<le> hi" if "runs_in (q + m) hi rs" for q m
    using that by (induction rs arbitrary: q m) force+
  with Cons r show ?case by force
qed simp

lemma runs_in_disjoint:
  assumes "runs_in lo hi rs" and "i < j" and "j < length rs"
  shows "fst (rs ! i) + snd (rs ! i) \<le> fst (rs ! j)"
  using assms
proof (induction rs arbitrary: lo i j)
  case (Cons r rs)
  obtain q m where r: "r = (q, m)" by (cases r)
  show ?case
  proof (cases i)
    case 0
    with Cons.prems r have "runs_in (q + m) hi rs" "j - 1 < length rs" by auto
    then have "q + m \<le> fst (rs ! (j - 1))"
      by (metis nth_mem prod.collapse runs_in_bounds)
    with 0 Cons.prems r show ?thesis by simp
  next
    case (Suc k)
    with Cons.prems r Cons.IH [of "q + m" k "j - 1"] show ?thesis by auto
  qed
qed simp

locale region_allocator =
  fixes inv :: "'a \<Rightarrow> bool"
    and base :: "'a \<Rightarrow> nat"
    and used :: "'a \<Rightarrow> nat"
    and total :: "'a \<Rightarrow> nat"
    and alloc :: "'a \<Rightarrow> nat \<Rightarrow> nat option \<times> 'a"
  assumes alloc_fits: "inv a \<Longrightarrow> used a + n \<le> total a \<Longrightarrow>
      \<exists>a'. alloc a n = (Some (base a + used a), a') \<and> inv a' \<and> base a' = base a \<and>
           total a' = total a \<and> used a' = used a + n"
begin

lemma alloc_list_fits:
  assumes "inv a" and "used a + sum_list ns \<le> total a"
  shows "\<exists>ps a'. alloc_run alloc a ns = (map Some ps, a') \<and> length ps = length ns \<and>
           runs_in (base a + used a) (base a + total a) (zip ps ns) \<and>
           inv a' \<and> base a' = base a \<and> total a' = total a \<and> used a' = used a + sum_list ns"
  using assms
proof (induction ns arbitrary: a)
  case Nil
  then show ?case by auto
next
  case (Cons n ns)
  from alloc_fits [of a n] Cons.prems obtain a1 where
    a1: "alloc a n = (Some (base a + used a), a1)" "inv a1" "base a1 = base a"
        "total a1 = total a" "used a1 = used a + n" by auto
  with Cons.IH [of a1] Cons.prems obtain ps a' where
    ps: "alloc_run alloc a1 ns = (map Some ps, a')" "length ps = length ns"
        "runs_in (base a + (used a + n)) (base a + total a) (zip ps ns)"
        "inv a'" "base a' = base a" "total a' = total a" "used a' = used a + (n + sum_list ns)"
    by (auto simp: add.assoc)
  have "alloc_run alloc a (n # ns) = (map Some ((base a + used a) # ps), a')"
    using a1 ps by simp
  moreover have "runs_in (base a + used a) (base a + total a) (zip ((base a + used a) # ps) (n # ns))"
    using ps by (simp add: add.assoc)
  ultimately show ?case
    using ps by (intro exI [of _ "(base a + used a) # ps"] exI [of _ a']) simp
qed

end

interpretation arena_region: region_allocator arena_wf backing_mem offset backing_mem_size ArenaAlloc
  by unfold_locales (auto simp: ArenaAlloc_fits arena_wf_def)

section \<open>Properties\<close>

text \<open>
  C31. A run of allocations that fits the free part of an arena succeeds throughout, and the
  blocks it returns lie in order above everything allocated before, do not overlap, and end
  inside the backing memory.
\<close>

theorem ArenaAllocs_disjoint:
  assumes "arena_wf a" and "offset a + sum_list ns \<le> backing_mem_size a"
  shows "\<exists>ps a'. alloc_run ArenaAlloc a ns = (map Some ps, a') \<and> length ps = length ns \<and>
           runs_in (backing_mem a + offset a) (backing_mem a + backing_mem_size a) (zip ps ns) \<and>
           arena_wf a' \<and> offset a' = offset a + sum_list ns"
  using arena_region.alloc_list_fits [OF assms] by blast

lemma ArenaAllocs_disjoint_witness:
  "\<exists>ps a'. alloc_run ArenaAlloc (ArenaInitFromMemory Arena_default 4096 64 None (replicate 64 0)) [8, 16, 40]
       = (map Some ps, a') \<and> length ps = Suc (Suc (Suc 0)) \<and> runs_in 4096 4160 (zip ps [8, 16, 40]) \<and>
       arena_wf a' \<and> offset a' = 64"
  using ArenaAllocs_disjoint [of "ArenaInitFromMemory Arena_default 4096 64 None (replicate 64 0)" "[8, 16, 40]"]
  by (simp add: arena_wf_init ArenaInitFromMemory_def arena_wf_def)

lemma engine_arena_sizes_eval: "engine_arena_sizes = [1073741824, 67108864, 134217728, 536870912]"
  by (simp add: engine_arena_sizes_def MEGABYTES_BYTES_def)

lemma ROOT_ARENA_SIZE_eval: "ROOT_ARENA_SIZE = 2147483648"
  by (simp add: ROOT_ARENA_SIZE_def GIGABYTES_BYTES_def)

text \<open>
  The engine's set-up never fails on a 2 GB mapping: the engine, frame, scene and game
  arenas are well formed, sit one after the other inside the root arena, and leave 320 MB
  of it free.
\<close>

theorem InitializeAllocatorSystem_partition:
  assumes "mem \<noteq> 0" and "length bytes = ROOT_ARENA_SIZE"
  shows "\<exists>root as. InitializeAllocatorSystem mem bytes = Inr (root, as) \<and> arena_wf root \<and>
     (\<forall>a \<in> set as. arena_wf a \<and> backing_mem a \<noteq> 0 \<and> offset a = 0) \<and>
     map backing_mem_size as = engine_arena_sizes \<and>
     runs_in mem (mem + ROOT_ARENA_SIZE) (map (\<lambda>a. (backing_mem a, backing_mem_size a)) as) \<and>
     ArenaGetFreeSpace root = MEGABYTES_BYTES 320"
  using assms
  by (simp add: InitializeAllocatorSystem_def engine_arena_sizes_eval ROOT_ARENA_SIZE_eval
      ArenaInitFromMemory_def ArenaAlloc_def ArenaInit_def arena_wf_def ArenaGetFreeSpace_def
      MEGABYTES_BYTES_def wrap64_def)

lemma InitializeAllocatorSystem_partition_witness:
  "\<exists>root as. InitializeAllocatorSystem 65536 (replicate ROOT_ARENA_SIZE 0) = Inr (root, as) \<and>
     map backing_mem_size as = engine_arena_sizes \<and> ArenaGetFreeSpace root = MEGABYTES_BYTES 320"
  using InitializeAllocatorSystem_partition [of 65536 "replicate ROOT_ARENA_SIZE 0"] by auto

text \<open>
  Resizing a block that is not the newest one copies it: the new block starts at the old
  end of the arena, its first bytes are the old block's (as many as both sizes have), and
  every byte that was in use keeps its value.
\<close>

theorem ArenaResize_copies:
  assumes "arena_wf a" and "old < prev_offset a" and "old + old_size \<le> offset a"
    and "offset a + new_size \<le> backing_mem_size a"
  shows "\<exists>a'. ArenaResize a (backing_mem a + old) old_size new_size = Inr (backing_mem a + offset a, a') \<and>
     arena_wf a' \<and> offset a' = offset a + new_size \<and>
     take (min old_size new_size) (drop (offset a) (contents a')) =
       take (min old_size new_size) (drop old (contents a)) \<and>
     take (offset a) (contents a') = take (offset a) (contents a)"
  using assms
  by (auto simp: ArenaResize_def ArenaAlloc_fits Let_def arena_wf_def min_def)

lemma ArenaResize_copies_witness:
  "\<exists>a'. ArenaResize \<lparr>backing_mem = 4096, backing_mem_size = 8, offset = 4, prev_offset = 2,
       backingAllocator = None, arena_name = [], contents = [1,2,3,4,0,0,0,0]\<rparr> 4096 2 3 = Inr (4100, a') \<and>
     take 2 (drop 4 (contents a')) = [1, 2]"
  using ArenaResize_copies [of "\<lparr>backing_mem = 4096, backing_mem_size = 8, offset = 4, prev_offset = 2,
       backingAllocator = None, arena_name = [], contents = [1,2,3,4,0,0,0,0]\<rparr>" 0 2 3]
  by (auto simp: arena_wf_def numeral_2_eq_2)

text \<open>
  Resizing the newest block never fails and never looks at the size of the arena: the
  offset becomes the block's start plus the requested size, so a request beyond the end of
  the backing memory leaves an arena whose used part is larger than its memory.
\<close>

theorem ArenaResize_newest_unchecked:
  assumes "prev_offset a < offset a" and "backing_mem_size a < prev_offset a + new_size"
    and "prev_offset a + new_size < 18446744073709551616"
  shows "\<exists>a'. ArenaResize a (backing_mem a + prev_offset a) old_size new_size =
     Inr (backing_mem a + prev_offset a, a') \<and> offset a' = prev_offset a + new_size \<and> \<not> arena_wf a'"
  using assms by (auto simp: ArenaResize_def arena_wf_def Let_def)

lemma ArenaResize_newest_unchecked_witness:
  "\<exists>a'. ArenaResize \<lparr>backing_mem = 4096, backing_mem_size = 4, offset = 4, prev_offset = 2,
       backingAllocator = None, arena_name = [], contents = [1,2,3,4]\<rparr> 4098 2 100 = Inr (4098, a') \<and>
     offset a' = 102 \<and> \<not> arena_wf a'"
  using ArenaResize_newest_unchecked [of "\<lparr>backing_mem = 4096, backing_mem_size = 4, offset = 4,
    prev_offset = 2, backingAllocator = None, arena_name = [], contents = [1,2,3,4]\<rparr>" 100 2] by simp

definition same_memory :: "arena \<Rightarrow> arena \<Rightarrow> bool" where
  "same_memory a b \<longleftrightarrow> b = a\<lparr>offset := offset b, prev_offset := prev_offset b\<rparr>"

lemma same_memory_ArenaAlloc: "same_memory a (snd (ArenaAlloc a n))"
  by (simp add: same_memory_def ArenaAlloc_def Let_def)

lemma same_memory_trans: "same_memory a b \<Longrightarrow> same_memory b c \<Longrightarrow> same_memory a c"
  by (auto simp: same_memory_def) (metis arena.update_convs(3,4) arena.surjective)

lemma same_memory_alloc_run: "same_memory a (snd (alloc_run ArenaAlloc a ns))"
proof (induction ns arbitrary: a)
  case Nil
  show ?case by (simp add: same_memory_def)
next
  case (Cons n ns)
  have "same_memory (snd (ArenaAlloc a n)) (snd (alloc_run ArenaAlloc (snd (ArenaAlloc a n)) ns))"
    by (rule Cons.IH)
  from same_memory_trans [OF same_memory_ArenaAlloc this] show ?case
    by (simp add: case_prod_beta)
qed

text \<open>
  A temporary arena undoes every allocation made since it was opened, successful or not:
  the arena is exactly the one it started from.
\<close>

theorem ArenaTemp_restores:
  "ArenaTempEnd (ArenaTempInit a) (snd (alloc_run ArenaAlloc a ns)) = a"
proof -
  have "ArenaTempEnd (ArenaTempInit a) b = a" if "same_memory a b" for b
    using that unfolding same_memory_def by (cases a; cases b) (simp add: ArenaTempEnd_def ArenaTempInit_def)
  then show ?thesis using same_memory_alloc_run by blast
qed

end
