(* ===== verification/Strings.thy ===== *)
theory Strings
  imports Bits
begin

unbundle bit_operations_syntax

text \<open>
  String views and the string searches of \<open>core/me_string.h\<close> and \<open>core/me_string.cpp\<close>. A
  view is a memory object, a position in it and a length; characters are bytes. Reads are
  checked against the memory object, not against the view, as the hardware would: the
  theorems say when the code stays inside the view.
\<close>

section \<open>Views\<close>

record StringView =
  sv_mem :: "u8 list option"
  sv_at :: nat
  sv_len :: nat

definition StringView_default :: StringView where
  "StringView_default = \<lparr>sv_mem = None, sv_at = 0, sv_len = 0\<rparr>"

definition sv_of :: "u8 list \<Rightarrow> StringView" where
  "sv_of s = \<lparr>sv_mem = Some s, sv_at = 0, sv_len = length s\<rparr>"

text \<open>\<open>STRING_LIT\<close>: the literal's memory holds a terminating zero the view leaves out.\<close>

definition STRING_LIT :: "u8 list \<Rightarrow> StringView" where
  "STRING_LIT lit = \<lparr>sv_mem = Some (lit @ [0]), sv_at = 0, sv_len = length lit\<rparr>"

definition sv_get :: "StringView \<Rightarrow> nat \<Rightarrow> u8 result" where
  "sv_get v i = (case sv_mem v of None \<Rightarrow> Inl NullDeref | Some m \<Rightarrow> readAt (sv_at v + i) m)"

definition sv_geti :: "StringView \<Rightarrow> int \<Rightarrow> u8 result" where
  "sv_geti v k =
     (if sv_mem v = None then Inl NullDeref
      else require OutOfBounds (0 \<le> int (sv_at v) + k)
             (sv_get (v\<lparr>sv_at := nat (int (sv_at v) + k)\<rparr>) 0))"

definition sv_put :: "StringView \<Rightarrow> nat \<Rightarrow> u8 \<Rightarrow> StringView result" where
  "sv_put v i c =
     (case sv_mem v of None \<Rightarrow> Inl NullDeref
      | Some m \<Rightarrow> bindR (writeAt (sv_at v + i) c m) (\<lambda>m'. Inr (v\<lparr>sv_mem := Some m'\<rparr>)))"

text \<open>\<open>StringView::operator[]\<close>, for reading and for writing through the reference.\<close>

definition sv_index :: "StringView \<Rightarrow> nat \<Rightarrow> u8 result" where
  "sv_index v idx = ME_ASSERT (idx < sv_len v) (sv_get v idx)"

definition sv_index_put :: "StringView \<Rightarrow> nat \<Rightarrow> u8 \<Rightarrow> StringView result" where
  "sv_index_put v idx c = ME_ASSERT (idx < sv_len v) (sv_put v idx c)"

definition sv_bool :: "StringView \<Rightarrow> bool" where
  "sv_bool v \<longleftrightarrow> sv_mem v \<noteq> None \<and> sv_len v > 0"

definition OffsetView :: "StringView \<Rightarrow> nat \<Rightarrow> StringView" where
  "OffsetView v ofs =
     (let ofs = (if ofs > sv_len v then sv_len v else ofs)
      in v\<lparr>sv_at := sv_at v + ofs, sv_len := sv_len v - ofs\<rparr>)"

definition OffsetViewLen :: "StringView \<Rightarrow> nat \<Rightarrow> nat \<Rightarrow> StringView" where
  "OffsetViewLen v ofs n =
     v\<lparr>sv_at := sv_at v + ofs, sv_len := (if sv_len v < n then sv_len v else n)\<rparr>"

text \<open>The characters of a view, and the views that stay inside their memory object.\<close>

definition sv_wf :: "StringView \<Rightarrow> bool" where
  "sv_wf v = (case sv_mem v of None \<Rightarrow> sv_len v = 0 | Some m \<Rightarrow> sv_at v + sv_len v \<le> length m)"

definition sv_str :: "StringView \<Rightarrow> u8 list" where
  "sv_str v = (case sv_mem v of None \<Rightarrow> [] | Some m \<Rightarrow> take (sv_len v) (drop (sv_at v) m))"

lemma length_sv_str [simp]: "sv_wf v \<Longrightarrow> length (sv_str v) = sv_len v"
  by (auto simp: sv_wf_def sv_str_def split: option.splits)

lemma sv_nonempty: "sv_wf v \<Longrightarrow> sv_str v \<noteq> [] \<Longrightarrow> sv_mem v \<noteq> None \<and> sv_len v \<noteq> 0"
  by (cases "sv_mem v") (auto simp: sv_str_def)

lemma sv_get_ok: "sv_wf v \<Longrightarrow> i < sv_len v \<Longrightarrow> sv_get v i = Inr (sv_str v ! i)"
  by (auto simp: sv_wf_def sv_str_def sv_get_def split: option.splits)

lemma sv_geti_int [simp]: "sv_geti v (int i) = sv_get v i"
  by (auto simp: sv_geti_def sv_get_def nat_int_add split: option.splits)

lemma sv_index_ok: "sv_wf v \<Longrightarrow> i < sv_len v \<Longrightarrow> sv_index v i = Inr (sv_str v ! i)"
  by (simp add: sv_index_def sv_get_ok)

lemma sv_wf_of [simp]: "sv_wf (sv_of s)" "sv_str (sv_of s) = s" "sv_len (sv_of s) = length s"
  by (simp_all add: sv_wf_def sv_of_def sv_str_def)

lemma sv_wf_lit [simp]:
  "sv_wf (STRING_LIT s)" "sv_str (STRING_LIT s) = s" "sv_len (STRING_LIT s) = length s"
  by (simp_all add: sv_wf_def STRING_LIT_def sv_str_def)

lemma sv_wf_OffsetView: "sv_wf v \<Longrightarrow> sv_wf (OffsetView v k)"
  by (auto simp: sv_wf_def OffsetView_def Let_def split: option.splits)

lemma sv_str_OffsetView: "sv_wf v \<Longrightarrow> sv_str (OffsetView v k) = drop k (sv_str v)"
  by (auto simp: sv_wf_def sv_str_def OffsetView_def Let_def drop_take add.commute split: option.splits)

lemma sv_len_OffsetView: "sv_len (OffsetView v k) = sv_len v - k"
  by (auto simp: OffsetView_def Let_def)

lemma sv_mem_OffsetView [simp]: "sv_mem (OffsetView v k) = sv_mem v"
  by (simp add: OffsetView_def Let_def)

lemma OffsetView_OffsetView:
  "j + k \<le> sv_len v \<Longrightarrow> OffsetView (OffsetView v j) k = OffsetView v (j + k)"
  by (auto simp: OffsetView_def Let_def)

lemma OffsetView_0 [simp]: "OffsetView v 0 = v"
  by (simp add: OffsetView_def)

lemma sv_index_put_ok:
  assumes "sv_wf v" and "i < sv_len v"
  shows "\<exists>v'. sv_index_put v i c = Inr v' \<and> sv_wf v' \<and> sv_str v' = (sv_str v)[i := c] \<and>
           sv_len v' = sv_len v \<and> sv_at v' = sv_at v"
proof -
  obtain m where m: "sv_mem v = Some m" "sv_at v + sv_len v \<le> length m"
    using assms by (auto simp: sv_wf_def split: option.splits)
  let ?v = "v\<lparr>sv_mem := Some (m[sv_at v + i := c])\<rparr>"
  have "sv_index_put v i c = Inr ?v"
    using m assms by (simp add: sv_index_put_def sv_put_def writeAt_ok)
  moreover have "sv_str ?v = (sv_str v)[i := c]"
    using m assms by (simp add: sv_str_def drop_update_swap take_update_swap)
  moreover have "sv_wf ?v" using m by (simp add: sv_wf_def)
  ultimately show ?thesis by (intro exI [of _ ?v]) simp
qed

section \<open>Characters\<close>

definition IsWhitespace :: "u8 \<Rightarrow> bool" where
  "IsWhitespace c \<longleftrightarrow> c = 32 \<or> c = 9 \<or> c = 10 \<or> c = 13"

definition IsDigit :: "u8 \<Rightarrow> bool" where
  "IsDigit c \<longleftrightarrow> c \<ge> 48 \<and> c \<le> 57"

definition ToLower :: "u8 \<Rightarrow> u8" where
  "ToLower c = (if c \<ge> 65 \<and> c \<le> 90 then c + 32 else c)"

definition ToUpper :: "u8 \<Rightarrow> u8" where
  "ToUpper c = (if c \<ge> 97 \<and> c \<le> 122 then c - 32 else c)"

text \<open>The in-place loops: \<open>left\<close> counts the positions still to visit.\<close>

fun map_view_loop :: "(u8 \<Rightarrow> u8) \<Rightarrow> StringView \<Rightarrow> nat \<Rightarrow> nat \<Rightarrow> StringView result" where
  "map_view_loop f v i 0 = Inr v"
| "map_view_loop f v i (Suc left) =
     bindR (sv_index v i) (\<lambda>c. bindR (sv_index_put v i (f c))
       (\<lambda>v'. map_view_loop f v' (Suc i) left))"

definition ToLowerView :: "StringView \<Rightarrow> StringView result" where
  "ToLowerView v = map_view_loop ToLower v 0 (sv_len v)"

definition ToUpperView :: "StringView \<Rightarrow> StringView result" where
  "ToUpperView v = map_view_loop ToUpper v 0 (sv_len v)"

fun replace_loop :: "StringView \<Rightarrow> u8 \<Rightarrow> u8 \<Rightarrow> nat \<Rightarrow> nat \<Rightarrow> StringView result" where
  "replace_loop v oldC newC i 0 = Inr v"
| "replace_loop v oldC newC i (Suc left) =
     bindR (sv_index v i) (\<lambda>c.
       if c = oldC then bindR (sv_index_put v i newC) (\<lambda>v'. replace_loop v' oldC newC (Suc i) left)
       else replace_loop v oldC newC (Suc i) left)"

definition StringReplace :: "StringView \<Rightarrow> u8 \<Rightarrow> u8 \<Rightarrow> StringView result" where
  "StringReplace v oldC newC = replace_loop v oldC newC 0 (sv_len v)"

lemma map_view_loop_spec:
  assumes "sv_wf v" and "i + n = sv_len v"
  shows "\<exists>v'. map_view_loop f v i n = Inr v' \<and> sv_wf v' \<and>
           sv_str v' = take i (sv_str v) @ map f (drop i (sv_str v)) \<and> sv_len v' = sv_len v"
  using assms
proof (induction n arbitrary: v i)
  case 0
  then show ?case by simp
next
  case (Suc n)
  have i: "i < sv_len v" using Suc.prems by simp
  from sv_index_put_ok [OF Suc.prems(1) i, of "f (sv_str v ! i)"] obtain v1 where
    v1: "sv_index_put v i (f (sv_str v ! i)) = Inr v1" "sv_wf v1"
        "sv_str v1 = (sv_str v)[i := f (sv_str v ! i)]" "sv_len v1 = sv_len v" by blast
  with Suc.IH [of v1 "Suc i"] Suc.prems obtain v' where
    v': "map_view_loop f v1 (Suc i) n = Inr v'" "sv_wf v'" "sv_len v' = sv_len v"
        "sv_str v' = take (Suc i) (sv_str v1) @ map f (drop (Suc i) (sv_str v1))" by auto
  have "take (Suc i) (sv_str v1) = take i (sv_str v) @ [f (sv_str v ! i)]"
    using i v1(3) Suc.prems(1) by (simp add: take_update_append)
  moreover have "drop i (sv_str v) = sv_str v ! i # drop (Suc i) (sv_str v)"
    using i Suc.prems(1) by (simp add: Cons_nth_drop_Suc)
  ultimately show ?case
    using v1 v' i Suc.prems(1) by (simp add: sv_index_ok)
qed

lemma replace_loop_map:
  assumes "sv_wf v" and "i + n = sv_len v"
  shows "\<exists>v'. replace_loop v oldC newC i n = Inr v' \<and> sv_wf v' \<and> sv_len v' = sv_len v \<and>
           sv_str v' = take i (sv_str v) @ map (\<lambda>c. if c = oldC then newC else c) (drop i (sv_str v))"
  using assms
proof (induction n arbitrary: v i)
  case 0
  then show ?case by simp
next
  case (Suc n)
  let ?f = "\<lambda>c. if c = oldC then newC else c"
  have i: "i < sv_len v" using Suc.prems by simp
  have d: "drop i (sv_str v) = sv_str v ! i # drop (Suc i) (sv_str v)"
    using i Suc.prems(1) by (simp add: Cons_nth_drop_Suc)
  have t: "take (Suc i) (sv_str v) = take i (sv_str v) @ [sv_str v ! i]"
    using i Suc.prems(1) by (simp add: take_Suc_conv_app_nth)
  show ?case
  proof (cases "sv_str v ! i = oldC")
    case True
    from sv_index_put_ok [OF Suc.prems(1) i, of newC] obtain v1 where
      v1: "sv_index_put v i newC = Inr v1" "sv_wf v1" "sv_len v1 = sv_len v"
          "sv_str v1 = (sv_str v)[i := newC]" by blast
    with Suc.IH [of v1 "Suc i"] Suc.prems obtain v' where
      v': "replace_loop v1 oldC newC (Suc i) n = Inr v'" "sv_wf v'" "sv_len v' = sv_len v"
          "sv_str v' = take (Suc i) (sv_str v1) @ map ?f (drop (Suc i) (sv_str v1))" by auto
    have "take (Suc i) (sv_str v1) = take i (sv_str v) @ [newC]"
      using i v1(4) Suc.prems(1) by (simp add: take_update_append)
    with True v1 v' d i Suc.prems(1) show ?thesis by (simp add: sv_index_ok)
  next
    case False
    with Suc.IH [of v "Suc i"] Suc.prems d t i show ?thesis by (auto simp: sv_index_ok)
  qed
qed

section \<open>Comparison\<close>

type_synonym StringOpFlags = u32

definition StringOpFlags_CaseInsensitive :: StringOpFlags where
  "StringOpFlags_CaseInsensitive = NTH_BIT 0"

definition StringOpFlags_IdxAfterNeedle :: StringOpFlags where
  "StringOpFlags_IdxAfterNeedle = NTH_BIT 1"

definition has_flag :: "StringOpFlags \<Rightarrow> StringOpFlags \<Rightarrow> bool" where
  "has_flag flags f \<longleftrightarrow> flags AND f \<noteq> 0"

text \<open>The characters the comparisons see: lower-cased under the case-insensitive flag.\<close>

definition fold_char :: "StringOpFlags \<Rightarrow> u8 \<Rightarrow> u8" where
  "fold_char flags c = (if has_flag flags StringOpFlags_CaseInsensitive then ToLower c else c)"

fun compare_loop :: "StringView \<Rightarrow> StringView \<Rightarrow> StringOpFlags \<Rightarrow> nat \<Rightarrow> nat \<Rightarrow> bool result" where
  "compare_loop str1 str2 flags i 0 = Inr True"
| "compare_loop str1 str2 flags i (Suc left) =
     bindR (sv_get str1 i) (\<lambda>s1. bindR (sv_get str2 i) (\<lambda>s2.
       if fold_char flags s1 \<noteq> fold_char flags s2 then Inr False
       else compare_loop str1 str2 flags (Suc i) left))"

definition StringCompare :: "StringView \<Rightarrow> StringView \<Rightarrow> StringOpFlags \<Rightarrow> bool result" where
  "StringCompare str1 str2 flags =
     (if sv_len str1 \<noteq> sv_len str2 then Inr False
      else compare_loop str1 str2 flags 0 (sv_len str1))"

text \<open>
  \<open>StringView::operator==\<close>: equal lengths and \<open>memcmp\<close> of \<open>sv.len\<close> bytes gives 0.
\<close>

fun memcmp_eq :: "StringView \<Rightarrow> StringView \<Rightarrow> nat \<Rightarrow> nat \<Rightarrow> bool result" where
  "memcmp_eq v w i 0 = Inr True"
| "memcmp_eq v w i (Suc left) =
     bindR (sv_get v i) (\<lambda>a. bindR (sv_get w i) (\<lambda>b.
       if a = b then memcmp_eq v w (Suc i) left else Inr False))"

definition sv_eq :: "StringView \<Rightarrow> StringView \<Rightarrow> bool result" where
  "sv_eq v sv = (if sv_len sv = sv_len v then memcmp_eq v sv 0 (sv_len sv) else Inr False)"

definition sv_neq :: "StringView \<Rightarrow> StringView \<Rightarrow> bool result" where
  "sv_neq v sv = bindR (sv_eq v sv) (\<lambda>b. Inr (\<not> b))"

lemma compare_loop_spec:
  assumes "sv_wf v" "sv_wf w" "i + n = sv_len v" "sv_len v = sv_len w"
  shows "compare_loop v w flags i n =
    Inr (map (fold_char flags) (drop i (sv_str v)) = map (fold_char flags) (drop i (sv_str w)))"
  using assms
proof (induction n arbitrary: i)
  case 0
  then show ?case by simp
next
  case (Suc n)
  then have "drop i (sv_str v) = sv_str v ! i # drop (Suc i) (sv_str v)"
    and "drop i (sv_str w) = sv_str w ! i # drop (Suc i) (sv_str w)"
    by (simp_all add: Cons_nth_drop_Suc)
  with Suc show ?case by (simp add: sv_get_ok)
qed

lemma StringCompare_spec:
  assumes "sv_wf v" "sv_wf w"
  shows "StringCompare v w flags =
    Inr (map (fold_char flags) (sv_str v) = map (fold_char flags) (sv_str w))"
proof (cases "sv_len v = sv_len w")
  case True
  then show ?thesis using compare_loop_spec [OF assms, of 0] by (simp add: StringCompare_def)
next
  case False
  then have "map (fold_char flags) (sv_str v) \<noteq> map (fold_char flags) (sv_str w)"
    using assms by (metis length_map length_sv_str)
  with False show ?thesis by (simp add: StringCompare_def)
qed

lemma memcmp_eq_spec:
  assumes "sv_wf v" "sv_wf w" "i + n = sv_len v" "sv_len v = sv_len w"
  shows "memcmp_eq v w i n = Inr (drop i (sv_str v) = drop i (sv_str w))"
  using assms
proof (induction n arbitrary: i)
  case 0
  then show ?case by simp
next
  case (Suc n)
  then have "drop i (sv_str v) = sv_str v ! i # drop (Suc i) (sv_str v)"
    and "drop i (sv_str w) = sv_str w ! i # drop (Suc i) (sv_str w)"
    by (simp_all add: Cons_nth_drop_Suc)
  with Suc show ?case by (simp add: sv_get_ok)
qed

lemma sv_eq_spec: "sv_wf v \<Longrightarrow> sv_wf w \<Longrightarrow> sv_eq v w = Inr (sv_str v = sv_str w)"
proof (cases "sv_len w = sv_len v")
  case True
  assume "sv_wf v" "sv_wf w"
  with True have "memcmp_eq v w 0 (sv_len w) = Inr (sv_str v = sv_str w)"
    by (metis add_0 drop0 memcmp_eq_spec)
  with True show ?thesis by (simp add: sv_eq_def)
next
  case False
  assume "sv_wf v" "sv_wf w"
  with False have "sv_str v \<noteq> sv_str w" by (metis length_sv_str)
  with False show ?thesis by (simp add: sv_eq_def)
qed

section \<open>Searching\<close>

text \<open>
  The inner loop of both searches: does the needle match the haystack at \<open>at\<close>? \<open>left\<close>
  counts the needle's characters still to compare.
\<close>

fun match_here :: "StringView \<Rightarrow> StringView \<Rightarrow> StringOpFlags \<Rightarrow> int \<Rightarrow> nat \<Rightarrow> nat \<Rightarrow> bool result" where
  "match_here haystack needle flags at i 0 = Inr True"
| "match_here haystack needle flags at i (Suc left) =
     bindR (sv_get needle i) (\<lambda>s1. bindR (sv_geti haystack (at + int i)) (\<lambda>s2.
       if fold_char flags s1 \<noteq> fold_char flags s2 then Inr False
       else match_here haystack needle flags at (Suc i) left))"

text \<open>The \<open>s32\<close> index counts up; incrementing the largest one overflows.\<close>

fun find_loop :: "StringView \<Rightarrow> StringView \<Rightarrow> StringOpFlags \<Rightarrow> int \<Rightarrow> nat \<Rightarrow> int result" where
  "find_loop haystack needle flags idx 0 = Inr (-1)"
| "find_loop haystack needle flags idx (Suc left) =
     bindR (match_here haystack needle flags idx 0 (sv_len needle)) (\<lambda>matched.
       if matched then
         Inr (if has_flag flags StringOpFlags_IdxAfterNeedle
              then s32_of (idx + int (sv_len needle)) else idx)
       else if idx = 2147483647 then Inl SignedOverflow
       else find_loop haystack needle flags (idx + 1) left)"

definition needle_empty :: "StringView \<Rightarrow> bool result" where
  "needle_empty needle =
     (if sv_mem needle = None \<or> sv_len needle = 0 then Inr True
      else bindR (sv_get needle 0) (\<lambda>c. Inr (c = 0)))"

definition FindInString :: "StringView \<Rightarrow> StringView \<Rightarrow> nat \<Rightarrow> StringOpFlags \<Rightarrow> int result" where
  "FindInString haystack needle ofs flags =
     bindR (needle_empty needle) (\<lambda>e.
       if e then Inr (-1)
       else (let start = s32_of (int ofs);
                 last = int (sv_len haystack) - int (sv_len needle)
             in find_loop haystack needle flags start (nat (last + 1 - start))))"

fun find_rev_loop :: "StringView \<Rightarrow> StringView \<Rightarrow> StringOpFlags \<Rightarrow> int \<Rightarrow> nat \<Rightarrow> int result" where
  "find_rev_loop haystack needle flags idx 0 = Inr (-1)"
| "find_rev_loop haystack needle flags idx (Suc left) =
     bindR (match_here haystack needle flags idx 0 (sv_len needle)) (\<lambda>matched.
       if matched then
         Inr (if has_flag flags StringOpFlags_IdxAfterNeedle then idx + 1 else idx)
       else find_rev_loop haystack needle flags (idx - 1) left)"

definition FindInStringRev :: "StringView \<Rightarrow> StringView \<Rightarrow> nat \<Rightarrow> StringOpFlags \<Rightarrow> int result" where
  "FindInStringRev haystack needle offsetFromBack flags =
     bindR (needle_empty needle) (\<lambda>e.
       if e then Inr (-1)
       else (let start = s32_of (int (sv_len haystack) - int (sv_len needle) - s32_of (int offsetFromBack))
             in find_rev_loop haystack needle flags start (nat (start + 1))))"

text \<open>The compile-time search; \<open>maxLen\<close> is an unsigned difference.\<close>

fun strstr_match :: "StringView \<Rightarrow> StringView \<Rightarrow> nat \<Rightarrow> nat \<Rightarrow> nat \<Rightarrow> nat result" where
  "strstr_match haystack needle h_idx n_idx 0 = Inr n_idx"
| "strstr_match haystack needle h_idx n_idx (Suc left) =
     (if h_idx < sv_len haystack then
        bindR (sv_get haystack h_idx) (\<lambda>a. bindR (sv_get needle n_idx) (\<lambda>b.
          if a = b then strstr_match haystack needle (Suc h_idx) (Suc n_idx) left
          else Inr n_idx))
      else Inr n_idx)"

fun strstr_loop :: "StringView \<Rightarrow> StringView \<Rightarrow> nat \<Rightarrow> nat \<Rightarrow> int result" where
  "strstr_loop haystack needle haystackIdx 0 = Inr (-1)"
| "strstr_loop haystack needle haystackIdx (Suc left) =
     bindR (sv_get haystack haystackIdx) (\<lambda>a. bindR (sv_get needle 0) (\<lambda>b.
       if a = b then
         bindR (strstr_match haystack needle haystackIdx 0 (sv_len needle)) (\<lambda>n_idx.
           if n_idx = sv_len needle then Inr (s32_of (int haystackIdx))
           else strstr_loop haystack needle (Suc haystackIdx) left)
       else strstr_loop haystack needle (Suc haystackIdx) left))"

definition ConstexprStrstr :: "StringView \<Rightarrow> StringView \<Rightarrow> int result" where
  "ConstexprStrstr haystack needle =
     bindR (needle_empty needle) (\<lambda>e.
       if e then Inr (-1)
       else (let maxLen = wrap64 (sv_len haystack + 18446744073709551616 - sv_len needle)
             in strstr_loop haystack needle 0 (Suc maxLen)))"

section \<open>Skipping and trimming\<close>

text \<open>
  \<open>EatCharsOffset\<close>: \<open>left\<close> is the length of the remaining view, \<open>eaten\<close> the \<open>u32\<close> count.
\<close>

fun eat_loop :: "StringView \<Rightarrow> StringView \<Rightarrow> bool \<Rightarrow> nat \<Rightarrow> nat \<Rightarrow> nat result" where
  "eat_loop str chars invert eaten 0 = Inr eaten"
| "eat_loop str chars invert eaten (Suc left) =
     (if sv_mem str = None then Inr eaten
      else bindR (FindInString chars (str\<lparr>sv_len := 1\<rparr>) 0 0) (\<lambda>r.
        if (if invert then r = -1 else r \<noteq> -1)
        then eat_loop (OffsetView str 1) chars invert (wrap32 (Suc eaten)) left
        else Inr eaten))"

definition EatCharsOffset :: "StringView \<Rightarrow> StringView \<Rightarrow> bool \<Rightarrow> nat result" where
  "EatCharsOffset str chars invert = eat_loop str chars invert 0 (sv_len str)"

definition EatChars :: "StringView \<Rightarrow> StringView \<Rightarrow> bool \<Rightarrow> StringView result" where
  "EatChars str chars invert =
     bindR (EatCharsOffset str chars invert) (\<lambda>n. Inr (OffsetView str n))"

definition EatCharsOffset1 :: "StringView \<Rightarrow> u8 \<Rightarrow> bool \<Rightarrow> nat result" where
  "EatCharsOffset1 str c invert = EatCharsOffset str (sv_of [c]) invert"

definition EatChars1 :: "StringView \<Rightarrow> u8 \<Rightarrow> bool \<Rightarrow> StringView result" where
  "EatChars1 str c invert = EatChars str (sv_of [c]) invert"

fun trim_front :: "StringView \<Rightarrow> StringView \<Rightarrow> nat \<Rightarrow> nat \<Rightarrow> StringView result" where
  "trim_front str chars i 0 = Inr str"
| "trim_front str chars i (Suc left) =
     bindR (sv_index chars i) (\<lambda>c. bindR (EatChars1 str c False)
       (\<lambda>str'. trim_front str' chars (Suc i) left))"

text \<open>The inner loop of the back trim leaves the outer one at the first character of
  \<open>chars\<close> that differs.\<close>

fun all_equal :: "u8 \<Rightarrow> StringView \<Rightarrow> nat \<Rightarrow> nat \<Rightarrow> bool result" where
  "all_equal c chars j 0 = Inr True"
| "all_equal c chars j (Suc left) =
     bindR (sv_index chars j) (\<lambda>d. if c \<noteq> d then Inr False else all_equal c chars (Suc j) left)"

fun trim_back :: "StringView \<Rightarrow> StringView \<Rightarrow> nat \<Rightarrow> nat result" where
  "trim_back str chars 0 = Inr 0"
| "trim_back str chars (Suc i) =
     bindR (sv_index str i) (\<lambda>c. bindR (all_equal c chars 0 (sv_len chars)) (\<lambda>b.
       if b then trim_back str chars i else Inr (Suc i)))"

definition StringTrim :: "StringView \<Rightarrow> StringView \<Rightarrow> StringView result" where
  "StringTrim str chars =
     bindR (trim_front str chars 0 (sv_len chars)) (\<lambda>str.
       bindR (trim_back str chars (sv_len str)) (\<lambda>i.
         bindR (if sv_len str > i then sv_index_put str i 0 else Inr str) (\<lambda>str.
           Inr (str\<lparr>sv_len := i\<rparr>))))"

section \<open>Balanced characters\<close>

fun balance_loop :: "StringView \<Rightarrow> u8 \<Rightarrow> u8 \<Rightarrow> int \<Rightarrow> nat \<Rightarrow> nat \<Rightarrow> nat result" where
  "balance_loop str opening closing balance i 0 = Inr i"
| "balance_loop str opening closing balance i (Suc left) =
     bindR (sv_index str i) (\<lambda>c.
       bindR (if c = closing then Inr (balance - 1)
              else if c = opening
              then (if balance = 2147483647 then Inl SignedOverflow else Inr (balance + 1))
              else Inr balance) (\<lambda>balance.
         if balance = 0 then Inr i
         else balance_loop str opening closing balance (Suc i) left))"

definition ScanForBalancedChar :: "StringView \<Rightarrow> u8 \<Rightarrow> u8 \<Rightarrow> StringView result" where
  "ScanForBalancedChar str opening closing =
     bindR (sv_index str 0) (\<lambda>c0.
       ME_ASSERT (c0 = opening) (ME_ASSERT (sv_len str > 1)
         (bindR (balance_loop str opening closing 1 1 (sv_len str - 1)) (\<lambda>i.
           Inr (OffsetViewLen str 1 (i - 1))))))"

section \<open>C strings\<close>

text \<open>
  \<open>CStringLength\<close> walks to the terminating zero; memory without one is read past its end.
  A null pointer has length 0. \<open>StringFromCString\<close> compares the \<open>u32\<close> bound with it and
  keeps 32 bits of the result.
\<close>

fun cstring_loop :: "u8 list \<Rightarrow> nat result" where
  "cstring_loop [] = Inl OutOfBounds"
| "cstring_loop (c # cs) = (if c = 0 then Inr 0 else bindR (cstring_loop cs) (\<lambda>n. Inr (Suc n)))"

definition CStringLength :: "(u8 list \<times> nat) option \<Rightarrow> nat result" where
  "CStringLength str = (case str of None \<Rightarrow> Inr 0 | Some (m, at) \<Rightarrow> cstring_loop (drop at m))"

definition StringFromCString :: "(u8 list \<times> nat) option \<Rightarrow> nat \<Rightarrow> StringView result" where
  "StringFromCString str strLen =
     bindR (CStringLength str) (\<lambda>n.
       Inr \<lparr>sv_mem = map_option fst str, sv_at = (case str of None \<Rightarrow> 0 | Some (_, at) \<Rightarrow> at),
            sv_len = wrap32 (MEMIN strLen n)\<rparr>)"

text \<open>
  \<open>wcharToNarrow\<close>: \<open>src\<close> and \<open>dest\<close> are the code units and the destination buffer; the
  index and \<open>dest_len - 1\<close> are \<open>u64\<close>. A lead surrogate skips two positions of both.
\<close>

fun narrow_loop :: "u16 list \<Rightarrow> u8 list \<Rightarrow> nat \<Rightarrow> nat \<Rightarrow> nat \<Rightarrow> (nat \<times> u8 list) result" where
  "narrow_loop src dest stop i 0 = Inl NoReturn"
| "narrow_loop src dest stop i (Suc left) =
     bindR (readAt i src) (\<lambda>code.
       if code \<noteq> 0 \<and> i < stop then
         (if code < 128 then
            bindR (writeAt i (ucast code) dest) (\<lambda>dest. narrow_loop src dest stop (Suc i) left)
          else
            bindR (writeAt i 63 dest) (\<lambda>dest.
              narrow_loop src dest stop
                (if code \<ge> 0xD800 \<and> code \<le> 0xDBFF then Suc (Suc i) else Suc i) left))
       else Inr (i, dest))"

definition wcharToNarrow :: "u16 list \<Rightarrow> u8 list \<Rightarrow> nat \<Rightarrow> (nat \<times> u8 list) result" where
  "wcharToNarrow src dest dest_len =
     bindR (narrow_loop src dest (wrap64 (dest_len + 18446744073709551615)) 0 (Suc (length src)))
       (\<lambda>(i, dest). bindR (writeAt i 0 dest) (\<lambda>dest.
          Inr (wrap64 (i + 18446744073709551615), dest)))"

section \<open>What the searches compute\<close>

text \<open>
  \<open>occurs flags h n k\<close>: the characters of \<open>n\<close> stand in \<open>h\<close> at \<open>k\<close>, up to case if the flags say so.
\<close>

definition occurs :: "StringOpFlags \<Rightarrow> u8 list \<Rightarrow> u8 list \<Rightarrow> nat \<Rightarrow> bool" where
  "occurs flags h n k \<longleftrightarrow> k + length n \<le> length h \<and>
     map (fold_char flags) (take (length n) (drop k h)) = map (fold_char flags) n"

definition first_from :: "nat \<Rightarrow> (nat \<Rightarrow> bool) \<Rightarrow> nat \<Rightarrow> bool" where
  "first_from k P j \<longleftrightarrow> k \<le> j \<and> P j \<and> (\<forall>i. k \<le> i \<and> i < j \<longrightarrow> \<not> P i)"

definition last_upto :: "nat \<Rightarrow> (nat \<Rightarrow> bool) \<Rightarrow> nat \<Rightarrow> bool" where
  "last_upto k P j \<longleftrightarrow> j \<le> k \<and> P j \<and> (\<forall>i. j < i \<and> i \<le> k \<longrightarrow> \<not> P i)"

definition good_needle :: "StringView \<Rightarrow> bool" where
  "good_needle v \<longleftrightarrow> sv_wf v \<and> sv_len v > 0 \<and> sv_str v ! 0 \<noteq> 0"

lemma needle_empty_good: "good_needle n \<Longrightarrow> needle_empty n = Inr False"
  by (cases "sv_mem n") (auto simp: good_needle_def needle_empty_def sv_get_ok, simp add: sv_wf_def)

lemma match_here_spec:
  assumes "sv_wf h" "sv_wf n" "k + sv_len n \<le> sv_len h" "i + left = sv_len n"
  shows "match_here h n flags (int k) i left =
    Inr (map (fold_char flags) (take left (drop (k + i) (sv_str h))) =
         map (fold_char flags) (drop i (sv_str n)))"
  using assms
proof (induction left arbitrary: i)
  case 0
  then show ?case by simp
next
  case (Suc left)
  have n: "drop i (sv_str n) = sv_str n ! i # drop (Suc i) (sv_str n)"
    using Suc.prems by (simp add: Cons_nth_drop_Suc)
  have h: "drop (k + i) (sv_str h) = sv_str h ! (k + i) # drop (Suc (k + i)) (sv_str h)"
    using Suc.prems by (simp add: Cons_nth_drop_Suc)
  have g: "sv_geti h (int k + int i) = Inr (sv_str h ! (k + i))"
    using Suc.prems sv_geti_int [of h "k + i"] by (simp add: sv_get_ok)
  show ?case
    using Suc n h g by (auto simp: sv_get_ok)
qed

lemma match_here_occurs:
  assumes "sv_wf h" "sv_wf n" "k + sv_len n \<le> sv_len h"
  shows "match_here h n flags (int k) 0 (sv_len n) = Inr (occurs flags (sv_str h) (sv_str n) k)"
  using match_here_spec [OF assms, of 0 "sv_len n" flags] assms by (simp add: occurs_def)

lemma find_loop_spec:
  assumes "sv_wf h" "sv_wf n" "sv_len h < 2147483648" "k + left = Suc (sv_len h - sv_len n)"
    "sv_len n \<le> sv_len h" "0 < sv_len n"
  shows "\<exists>r. find_loop h n flags (int k) left = Inr r \<and>
    (if r = -1 then \<forall>j\<ge>k. \<not> occurs flags (sv_str h) (sv_str n) j
     else \<exists>j. first_from k (occurs flags (sv_str h) (sv_str n)) j \<and>
       r = int (if has_flag flags StringOpFlags_IdxAfterNeedle then j + sv_len n else j))"
  using assms
proof (induction left arbitrary: k)
  case 0
  then show ?case by (auto simp: occurs_def)
next
  case (Suc left)
  let ?P = "occurs flags (sv_str h) (sv_str n)"
  have k: "k + sv_len n \<le> sv_len h" using Suc.prems by simp
  note m = match_here_occurs [OF Suc.prems(1,2) k, of flags]
  show ?case
  proof (cases "?P k")
    case True
    with m k Suc.prems show ?thesis
      by (auto simp: first_from_def intro!: exI [of _ k])
  next
    case False
    from Suc.IH [of "Suc k"] Suc.prems obtain r where
      r: "find_loop h n flags (int (Suc k)) left = Inr r"
      "if r = -1 then \<forall>j\<ge>Suc k. \<not> ?P j
       else \<exists>j. first_from (Suc k) ?P j \<and>
         r = int (if has_flag flags StringOpFlags_IdxAfterNeedle then j + sv_len n else j)"
      by auto
    have step: "find_loop h n flags (int k) (Suc left) = Inr r"
      using False m r(1) k Suc.prems by (simp add: add.commute)
    have up: "first_from k ?P j" if "first_from (Suc k) ?P j" for j
      using that False by (auto simp: first_from_def) (metis Suc_leI le_neq_implies_less)
    have "\<forall>j\<ge>k. \<not> ?P j" if "\<forall>j\<ge>Suc k. \<not> ?P j"
      using that False by (metis Suc_leI le_neq_implies_less)
    with step r(2) up show ?thesis by (auto split: if_splits)
  qed
qed

lemma find_rev_loop_spec:
  assumes "sv_wf h" "sv_wf n" "k + sv_len n \<le> sv_len h" "0 < sv_len n"
  shows "\<exists>r. find_rev_loop h n flags (int k) (Suc k) = Inr r \<and>
    (if r = -1 then \<forall>j\<le>k. \<not> occurs flags (sv_str h) (sv_str n) j
     else \<exists>j. last_upto k (occurs flags (sv_str h) (sv_str n)) j \<and>
       r = int (if has_flag flags StringOpFlags_IdxAfterNeedle then j + 1 else j))"
  using assms
proof (induction k)
  case 0
  then show ?case
    using match_here_occurs [of h n 0 flags] by (auto simp: last_upto_def)
next
  case (Suc k)
  let ?P = "occurs flags (sv_str h) (sv_str n)"
  note m = match_here_occurs [OF Suc.prems(1,2,3), of flags]
  show ?case
  proof (cases "?P (Suc k)")
    case True
    with m show ?thesis by (auto simp: last_upto_def intro!: exI [of _ "Suc k"])
  next
    case False
    from Suc obtain r where
      r: "find_rev_loop h n flags (int k) (Suc k) = Inr r"
      "if r = -1 then \<forall>j\<le>k. \<not> ?P j
       else \<exists>j. last_upto k ?P j \<and>
         r = int (if has_flag flags StringOpFlags_IdxAfterNeedle then j + 1 else j)" by auto
    have step: "find_rev_loop h n flags (int (Suc k)) (Suc (Suc k)) = Inr r"
      using False m r(1) by (subst find_rev_loop.simps) simp
    have up: "last_upto (Suc k) ?P j" if "last_upto k ?P j" for j
      using that False by (auto simp: last_upto_def le_Suc_eq)
    have "\<forall>j\<le>Suc k. \<not> ?P j" if "\<forall>j\<le>k. \<not> ?P j"
      using that False by (auto simp: le_Suc_eq)
    with step r(2) up show ?thesis by (auto split: if_splits)
  qed
qed

text \<open>A single character is looked up in a set of characters as membership; zero is never found.\<close>

lemma FindInString_char:
  assumes "sv_wf chars" "sv_wf v" "sv_mem v \<noteq> None" "0 < sv_len v" "sv_len chars < 2147483648"
  shows "\<exists>r. FindInString chars (v\<lparr>sv_len := 1\<rparr>) 0 0 = Inr r \<and>
    (r \<noteq> -1 \<longleftrightarrow> sv_str v ! 0 \<noteq> 0 \<and> sv_str v ! 0 \<in> set (sv_str chars))"
proof -
  let ?n = "v\<lparr>sv_len := 1\<rparr>"
  let ?c = "sv_str v ! 0"
  obtain m where m: "sv_mem v = Some m" "sv_at v + sv_len v \<le> length m"
    using assms by (auto simp: sv_wf_def)
  have wf: "sv_wf ?n" and str: "sv_str ?n = [?c]"
    using m assms(4) by (simp_all add: sv_wf_def sv_str_def take_Suc_conv_app_nth [of 0, simplified])
  show ?thesis
  proof (cases "?c = 0")
    case True
    with wf str m show ?thesis by (simp add: FindInString_def needle_empty_def sv_get_ok)
  next
    case False
    have good: "good_needle ?n" using wf str False by (simp add: good_needle_def)
    have flag: "fold_char 0 c = c" for c by (simp add: fold_char_def has_flag_def)
    have occ: "occurs 0 (sv_str chars) [?c] j \<longleftrightarrow> j < sv_len chars \<and> sv_str chars ! j = ?c" for j
      using assms(1) by (auto simp: occurs_def flag take_Suc_conv_app_nth [of 0, simplified] hd_drop_conv_nth)
    show ?thesis
    proof (cases "sv_len chars = 0")
      case True
      with assms(1) have "sv_str chars = []" by (metis length_0_conv length_sv_str)
      with good True show ?thesis
        by (simp add: FindInString_def needle_empty_good)
    next
      case nz: False
      have "0 + sv_len chars = Suc (sv_len chars - sv_len ?n)" "sv_len ?n \<le> sv_len chars" "0 < sv_len ?n"
        using nz by simp_all
      from find_loop_spec [OF assms(1) wf assms(5) this, of 0] obtain r where r: "find_loop chars ?n 0 (int 0) (sv_len chars) = Inr r"
        "if r = -1 then \<forall>j\<ge>0. \<not> occurs 0 (sv_str chars) (sv_str ?n) j
         else \<exists>j. first_from 0 (occurs 0 (sv_str chars) (sv_str ?n)) j \<and>
           r = int (if has_flag 0 StringOpFlags_IdxAfterNeedle then j + sv_len ?n else j)"
        by blast
      have "FindInString chars ?n 0 0 = Inr r"
        using r(1) good by (simp add: FindInString_def needle_empty_good)
      moreover have "r \<noteq> -1 \<longleftrightarrow> ?c \<in> set (sv_str chars)"
        using r(2) occ str assms(1)
        by (auto simp: first_from_def in_set_conv_nth split: if_splits)
      ultimately show ?thesis using False by simp
    qed
  qed
qed

section \<open>Skipping and trimming, functionally\<close>

definition eats :: "u8 list \<Rightarrow> bool \<Rightarrow> u8 \<Rightarrow> bool" where
  "eats chars invert c \<longleftrightarrow> (c \<noteq> 0 \<and> c \<in> set chars) \<noteq> invert"

lemma eat_loop_spec:
  assumes "sv_wf str" "sv_wf chars" "sv_len chars < 2147483648" "left = sv_len str"
    "eaten + left < 4294967296"
  shows "eat_loop str chars invert eaten left =
    Inr (eaten + length (takeWhile (eats (sv_str chars) invert) (sv_str str)))"
  using assms
proof (induction left arbitrary: str eaten)
  case 0
  then have "sv_str str = []" by (metis length_0_conv length_sv_str)
  then show ?case by simp
next
  case (Suc left)
  have mem: "sv_mem str \<noteq> None" using Suc.prems by (auto simp: sv_wf_def split: option.splits)
  from FindInString_char [OF Suc.prems(2,1) mem] Suc.prems obtain r where
    r: "FindInString chars (str\<lparr>sv_len := 1\<rparr>) 0 0 = Inr r"
       "r \<noteq> -1 \<longleftrightarrow> sv_str str ! 0 \<noteq> 0 \<and> sv_str str ! 0 \<in> set (sv_str chars)" by auto
  obtain c cs where s: "sv_str str = c # cs"
    using Suc.prems(1,4) length_sv_str [of str] by (cases "sv_str str") auto
  have rest: "eat_loop (OffsetView str 1) chars invert (Suc eaten) left =
    Inr (Suc eaten + length (takeWhile (eats (sv_str chars) invert) cs))"
  proof -
    have "left = sv_len (OffsetView str 1)" using Suc.prems(4) by (simp add: sv_len_OffsetView)
    from Suc.IH [OF sv_wf_OffsetView [OF Suc.prems(1)] Suc.prems(2,3) this] Suc.prems(1,5) s
    show ?thesis by (simp add: sv_str_OffsetView)
  qed
  have "(if invert then r = -1 else r \<noteq> -1) = eats (sv_str chars) invert c"
    using r(2) s by (auto simp: eats_def)
  moreover have "wrap32 (Suc eaten) = Suc eaten" using Suc.prems(5) by simp
  ultimately show ?case using mem r(1) rest s by simp
qed

lemma EatCharsOffset_spec:
  assumes "sv_wf str" "sv_wf chars" "sv_len chars < 2147483648" "sv_len str < 4294967296"
  shows "EatCharsOffset str chars invert =
    Inr (length (takeWhile (eats (sv_str chars) invert) (sv_str str)))"
  using eat_loop_spec [OF assms(1-3) refl, of 0 invert] assms(4) by (simp add: EatCharsOffset_def)

lemma EatChars_spec:
  assumes "sv_wf str" "sv_wf chars" "sv_len chars < 2147483648" "sv_len str < 4294967296"
  shows "\<exists>k. EatChars str chars invert = Inr (OffsetView str k) \<and> k \<le> sv_len str \<and>
    sv_str (OffsetView str k) = dropWhile (eats (sv_str chars) invert) (sv_str str)"
proof -
  let ?k = "length (takeWhile (eats (sv_str chars) invert) (sv_str str))"
  have "?k \<le> sv_len str" using length_takeWhile_le [of _ "sv_str str"] assms(1) by simp
  moreover have "drop ?k (sv_str str) = dropWhile (eats (sv_str chars) invert) (sv_str str)"
    by (simp add: dropWhile_eq_drop)
  ultimately show ?thesis
    using assms by (intro exI [of _ ?k]) (simp add: EatChars_def EatCharsOffset_spec sv_str_OffsetView)
qed

text \<open>One pass per character of \<open>chars\<close>, in their order, at the front.\<close>

definition trim_front_str :: "u8 list \<Rightarrow> u8 list \<Rightarrow> u8 list" where
  "trim_front_str chars s = fold (\<lambda>c. dropWhile (\<lambda>d. d = c)) chars s"

definition trim_back_str :: "u8 list \<Rightarrow> u8 list \<Rightarrow> u8 list" where
  "trim_back_str chars s = rev (dropWhile (\<lambda>d. \<forall>c\<in>set chars. d = c) (rev s))"

lemma trim_front_spec:
  assumes "sv_wf str" "sv_wf chars" "sv_len str < 4294967296" "0 \<notin> set (sv_str chars)"
    "i + left = sv_len chars"
  shows "\<exists>k. trim_front str chars i left = Inr (OffsetView str k) \<and> k \<le> sv_len str \<and>
    sv_str (OffsetView str k) = trim_front_str (drop i (sv_str chars)) (sv_str str)"
  using assms
proof (induction left arbitrary: str i)
  case 0
  then show ?case by (auto simp: trim_front_str_def intro!: exI [of _ 0])
next
  case (Suc left)
  let ?c = "sv_str chars ! i"
  have i: "i < sv_len chars" using Suc.prems by simp
  have nz: "?c \<noteq> 0" using Suc.prems(2,4) i by (metis length_sv_str nth_mem)
  have e: "eats [?c] False = (\<lambda>d. d = ?c)" using nz by (auto simp: eats_def fun_eq_iff)
  from EatChars_spec [of str "sv_of [?c]" False] Suc.prems obtain k where
    k: "EatChars1 str ?c False = Inr (OffsetView str k)" "k \<le> sv_len str"
       "sv_str (OffsetView str k) = dropWhile (\<lambda>d. d = ?c) (sv_str str)"
    by (auto simp: EatChars1_def e)
  have "sv_len (OffsetView str k) < 4294967296" "Suc i + left = sv_len chars"
    using Suc.prems(3,5) by (simp_all add: sv_len_OffsetView)
  from Suc.IH [OF sv_wf_OffsetView [OF Suc.prems(1)] Suc.prems(2) this(1) Suc.prems(4) this(2)]
  obtain j where
    j: "trim_front (OffsetView str k) chars (Suc i) left = Inr (OffsetView (OffsetView str k) j)"
       "j \<le> sv_len str - k"
       "sv_str (OffsetView (OffsetView str k) j) =
          trim_front_str (drop (Suc i) (sv_str chars)) (sv_str (OffsetView str k))"
    unfolding sv_len_OffsetView by blast
  have "OffsetView (OffsetView str k) j = OffsetView str (k + j)"
    using j(2) k(2) by (simp add: OffsetView_OffsetView)
  moreover have "drop i (sv_str chars) = ?c # drop (Suc i) (sv_str chars)"
    using i Suc.prems(2) by (simp add: Cons_nth_drop_Suc)
  ultimately show ?case
    using j k i Suc.prems(2)
    by (auto simp: sv_index_ok trim_front_str_def intro!: exI [of _ "k + j"])
qed

lemma all_equal_spec:
  assumes "sv_wf chars" "j + left = sv_len chars"
  shows "all_equal c chars j left = Inr (\<forall>d\<in>set (drop j (sv_str chars)). c = d)"
  using assms
proof (induction left arbitrary: j)
  case 0
  then show ?case by simp
next
  case (Suc left)
  then have "drop j (sv_str chars) = sv_str chars ! j # drop (Suc j) (sv_str chars)"
    by (simp add: Cons_nth_drop_Suc)
  with Suc show ?case by (auto simp: sv_index_ok)
qed

lemma trim_back_spec:
  assumes "sv_wf str" "sv_wf chars" "i \<le> sv_len str"
  shows "\<exists>n. trim_back str chars i = Inr n \<and> n \<le> i \<and>
    take n (sv_str str) = trim_back_str (sv_str chars) (take i (sv_str str))"
  using assms(3)
proof (induction i)
  case 0
  then show ?case by (simp add: trim_back_str_def)
next
  case (Suc i)
  have t: "take (Suc i) (sv_str str) = take i (sv_str str) @ [sv_str str ! i]"
    using Suc.prems assms(1) by (simp add: take_Suc_conv_app_nth)
  show ?case
    using Suc assms t all_equal_spec [of chars 0 "sv_len chars" "sv_str str ! i"]
    by (auto simp: sv_index_ok trim_back_str_def)
qed

lemma StringTrim_result:
  assumes "sv_wf str" "sv_wf chars" "sv_len str < 4294967296" "0 \<notin> set (sv_str chars)"
  shows "\<exists>r. StringTrim str chars = Inr r \<and>
    sv_str r = trim_back_str (sv_str chars) (trim_front_str (sv_str chars) (sv_str str))"
proof -
  from trim_front_spec [OF assms, of 0 "sv_len chars"] obtain k where
    k: "trim_front str chars 0 (sv_len chars) = Inr (OffsetView str k)"
       "sv_str (OffsetView str k) = trim_front_str (sv_str chars) (sv_str str)" by auto
  let ?s = "OffsetView str k"
  have wf: "sv_wf ?s" using assms(1) by (rule sv_wf_OffsetView)
  from trim_back_spec [OF wf assms(2) order_refl] obtain n where
    n: "trim_back ?s chars (sv_len ?s) = Inr n" "n \<le> sv_len ?s"
       "take n (sv_str ?s) = trim_back_str (sv_str chars) (sv_str ?s)"
    using wf by auto
  show ?thesis
  proof (cases "n < sv_len ?s")
    case True
    from sv_index_put_ok [OF wf True, of 0] obtain v where
      v: "sv_index_put ?s n 0 = Inr v" "sv_wf v" "sv_str v = (sv_str ?s)[n := 0]"
         "sv_len v = sv_len ?s" by blast
    have "sv_str (v\<lparr>sv_len := n\<rparr>) = take n (sv_str v)"
      using v(2,4) n(2) by (auto simp: sv_str_def min_def split: option.splits)
    with True v k n show ?thesis by (simp add: StringTrim_def)
  next
    case False
    with n(2) have eq: "n = sv_len ?s" by simp
    then have "take n (sv_str ?s) = sv_str ?s" using wf by simp
    with k n eq show ?thesis by (simp add: StringTrim_def)
  qed
qed

section \<open>Balanced scanning\<close>

text \<open>
  The depth after reading a string inside one open pair; \<open>closes_at\<close> is the first position
  where it reaches zero.
\<close>

fun depth_after :: "u8 \<Rightarrow> u8 \<Rightarrow> int \<Rightarrow> u8 list \<Rightarrow> int" where
  "depth_after opening closing d [] = d"
| "depth_after opening closing d (c # cs) =
     depth_after opening closing
       (if c = closing then d - 1 else if c = opening then d + 1 else d) cs"

definition never_closes :: "u8 \<Rightarrow> u8 \<Rightarrow> int \<Rightarrow> u8 list \<Rightarrow> bool" where
  "never_closes opening closing d w \<longleftrightarrow>
     (\<forall>k\<in>{1..length w}. depth_after opening closing d (take k w) \<noteq> 0)"

lemma never_closes_Nil [simp]: "never_closes opening closing d []"
  by (simp add: never_closes_def)

lemma never_closes_Cons:
  "never_closes opening closing d (c # w) \<longleftrightarrow>
     (let d' = (if c = closing then d - 1 else if c = opening then d + 1 else d)
      in d' \<noteq> 0 \<and> never_closes opening closing d' w)"
proof -
  have "(\<forall>k\<in>{1..Suc n}. P k) \<longleftrightarrow> P 1 \<and> (\<forall>k\<in>{1..n}. P (Suc k))" for P and n :: nat
  proof
    assume a: "P 1 \<and> (\<forall>k\<in>{1..n}. P (Suc k))"
    show "\<forall>k\<in>{1..Suc n}. P k"
    proof
      fix k assume "k \<in> {1..Suc n}"
      with a show "P k" by (cases k; cases "k - 1") auto
    qed
  qed auto
  then show ?thesis by (simp add: never_closes_def Let_def)
qed

lemma balance_loop_closes:
  assumes "sv_wf v" "i + left = sv_len v" "i + length w < sv_len v"
    "take (length w) (drop i (sv_str v)) = w" "never_closes opening closing d w"
    "sv_str v ! (i + length w) = closing" "depth_after opening closing d w = 1"
    "d + int (length w) < 2147483647"
  shows "balance_loop v opening closing d i left = Inr (i + length w)"
  using assms
proof (induction w arbitrary: d i left)
  case Nil
  then obtain l where l: "left = Suc l" by (cases left) auto
  with Nil show ?case by (simp add: sv_index_ok)
next
  case (Cons c w)
  let ?d = "if c = closing then d - 1 else if c = opening then d + 1 else d"
  obtain l where l: "left = Suc l" using Cons.prems(2,3) by (cases left) auto
  have "drop i (sv_str v) = sv_str v ! i # drop (Suc i) (sv_str v)"
    using Cons.prems(1,3) by (simp add: Cons_nth_drop_Suc)
  with Cons.prems(4) have c: "sv_str v ! i = c" and rest: "take (length w) (drop (Suc i) (sv_str v)) = w"
    by simp_all
  have d: "?d \<noteq> 0" "never_closes opening closing ?d w"
    using Cons.prems(5) by (simp_all add: never_closes_Cons Let_def)
  have "balance_loop v opening closing ?d (Suc i) l = Inr (Suc i + length w)"
    using Cons.IH [of "Suc i" l ?d] Cons.prems l rest d by auto
  moreover have "sv_index v i = Inr c"
    using Cons.prems(1,3) c by (simp add: sv_index_ok)
  ultimately show ?case using l d(1) Cons.prems(8) by (auto split: if_splits)
qed

section \<open>Properties\<close>

text \<open>
  C32. \<open>FindInString\<close> returns the position of the first occurrence of the needle at or after
  the offset (or the position just behind it, under \<open>StringOpFlags_IdxAfterNeedle\<close>), and -1
  exactly when there is none; it reads nothing outside the two views. Case is ignored
  exactly under \<open>StringOpFlags_CaseInsensitive\<close>.
\<close>

theorem FindInString_first:
  assumes "sv_wf h" "good_needle n" "sv_len h < 2147483648" "ofs < 2147483648"
  shows "\<exists>r. FindInString h n ofs flags = Inr r \<and>
    (if r = -1 then \<forall>j\<ge>ofs. \<not> occurs flags (sv_str h) (sv_str n) j
     else \<exists>j. first_from ofs (occurs flags (sv_str h) (sv_str n)) j \<and>
       r = int (if has_flag flags StringOpFlags_IdxAfterNeedle then j + sv_len n else j))"
proof -
  let ?left = "nat (int (sv_len h) - int (sv_len n) + 1 - int ofs)"
  have n: "sv_wf n" "0 < sv_len n" using assms(2) by (auto simp: good_needle_def)
  have F: "FindInString h n ofs flags = find_loop h n flags (int ofs) ?left"
    using assms(4) needle_empty_good [OF assms(2)] by (simp add: FindInString_def Let_def)
  show ?thesis
  proof (cases "ofs + sv_len n \<le> sv_len h")
    case True
    then have "ofs + ?left = Suc (sv_len h - sv_len n)" "sv_len n \<le> sv_len h" by simp_all
    from find_loop_spec [OF assms(1) n(1) assms(3) this n(2)] F show ?thesis by simp
  next
    case False
    then have "?left = 0" by simp
    moreover have "\<forall>j\<ge>ofs. \<not> occurs flags (sv_str h) (sv_str n) j"
      using False assms(1) n(1) by (auto simp: occurs_def)
    ultimately show ?thesis using F by simp
  qed
qed

lemma FindInString_first_witness:
  "\<exists>r. FindInString (sv_of [97, 98, 65, 66, 98]) (sv_of [66, 98]) 1 1 = Inr r \<and>
    (if r = -1 then \<forall>j\<ge>1. \<not> occurs 1 (sv_str (sv_of [97, 98, 65, 66, 98])) (sv_str (sv_of [66, 98])) j
     else \<exists>j. first_from 1 (occurs 1 (sv_str (sv_of [97, 98, 65, 66, 98])) (sv_str (sv_of [66, 98]))) j \<and>
       r = int (if has_flag 1 StringOpFlags_IdxAfterNeedle then j + sv_len (sv_of [66, 98]) else j))"
  by (rule FindInString_first) (simp_all add: good_needle_def)

text \<open>
  \<open>FindInStringRev\<close> finds the last occurrence that starts at least the given distance
  before the last possible position; under \<open>StringOpFlags_IdxAfterNeedle\<close> it returns the
  position one after the start of the match, whatever the length of the needle.
\<close>

theorem FindInStringRev_last:
  assumes "sv_wf h" "good_needle n" "sv_len h < 2147483648" "sv_len n + ofs \<le> sv_len h"
  shows "\<exists>r. FindInStringRev h n ofs flags = Inr r \<and>
    (if r = -1 then \<forall>j\<le> sv_len h - sv_len n - ofs. \<not> occurs flags (sv_str h) (sv_str n) j
     else \<exists>j. last_upto (sv_len h - sv_len n - ofs) (occurs flags (sv_str h) (sv_str n)) j \<and>
       r = int (if has_flag flags StringOpFlags_IdxAfterNeedle then j + 1 else j))"
proof -
  let ?k = "sv_len h - sv_len n - ofs"
  have n: "sv_wf n" "0 < sv_len n" using assms(2) by (auto simp: good_needle_def)
  have "s32_of (int (sv_len h) - int (sv_len n) - s32_of (int ofs)) = int ?k"
    using assms(3,4) by simp
  moreover have "nat (int ?k + 1) = Suc ?k" by simp
  ultimately have "FindInStringRev h n ofs flags = find_rev_loop h n flags (int ?k) (Suc ?k)"
    using needle_empty_good [OF assms(2)]
    by (simp only: FindInStringRev_def Let_def bindR_simps if_False)
  moreover have "?k + sv_len n \<le> sv_len h" using assms(4) by simp
  ultimately show ?thesis
    using find_rev_loop_spec [OF assms(1) n(1) _ n(2), of ?k flags] by metis
qed

lemma FindInStringRev_last_witness:
  defines "h \<equiv> sv_of [97, 46, 98, 46, 99]" and "n \<equiv> STRING_LIT [46, 99]"
  shows "\<exists>r. FindInStringRev h n 0 2 = Inr r \<and>
    (if r = -1 then \<forall>j\<le> sv_len h - sv_len n - 0. \<not> occurs 2 (sv_str h) (sv_str n) j
     else \<exists>j. last_upto (sv_len h - sv_len n - 0) (occurs 2 (sv_str h) (sv_str n)) j \<and>
       r = int (if has_flag 2 StringOpFlags_IdxAfterNeedle then j + 1 else j))"
  by (rule FindInStringRev_last) (simp_all add: good_needle_def h_def n_def)

text \<open>
  \<open>StringTrim\<close> strips the front once per trimmed character, in the order they are given,
  and strips the back only of characters equal to every one of them: with two different
  characters to trim nothing is ever removed at the back, and with none the whole string is.
\<close>

theorem StringTrim_spec:
  assumes "sv_wf str" "sv_wf chars" "sv_len str < 4294967296" "0 \<notin> set (sv_str chars)"
  shows "\<exists>r. StringTrim str chars = Inr r \<and>
    sv_str r = trim_back_str (sv_str chars) (trim_front_str (sv_str chars) (sv_str str)) \<and>
    (sv_str chars = [] \<longrightarrow> sv_str r = []) \<and>
    (\<forall>c d. c \<in> set (sv_str chars) \<and> d \<in> set (sv_str chars) \<and> c \<noteq> d \<longrightarrow>
       sv_str r = trim_front_str (sv_str chars) (sv_str str))"
proof -
  from StringTrim_result [OF assms] obtain r where
    r: "StringTrim str chars = Inr r"
       "sv_str r = trim_back_str (sv_str chars) (trim_front_str (sv_str chars) (sv_str str))"
    by blast
  have "trim_back_str cs s = s" if "c \<in> set cs" "d \<in> set cs" "c \<noteq> d" for c d cs s
    using that by (simp add: trim_back_str_def dropWhile_eq_self_iff rev_swap) metis
  moreover have "trim_back_str [] s = []" for s by (simp add: trim_back_str_def dropWhile_eq_Nil_conv)
  ultimately show ?thesis using r by (intro exI [of _ r]) auto
qed

lemma StringTrim_spec_witness:
  "\<exists>r. StringTrim (sv_of [32, 97, 32, 32]) (STRING_LIT [32]) = Inr r \<and> sv_str r = [97]"
  using StringTrim_spec [of "sv_of [32, 97, 32, 32]" "STRING_LIT [32]"]
  by (simp add: trim_back_str_def trim_front_str_def)

text \<open>
  \<open>ScanForBalancedChar\<close> returns exactly the text between an opening character and the
  character that closes it, nested pairs included; for quotes (opening and closing equal)
  that is the text up to the next quote.
\<close>

theorem ScanForBalancedChar_balanced:
  assumes "never_closes opening closing 1 w" "depth_after opening closing 1 w = 1"
    "length w < 2147483646"
  shows "\<exists>r. ScanForBalancedChar (sv_of (opening # w @ closing # rest)) opening closing = Inr r \<and>
    sv_str r = w"
proof -
  let ?v = "sv_of (opening # w @ closing # rest)"
  have "balance_loop ?v opening closing 1 1 (sv_len ?v - 1) = Inr (1 + length w)"
    by (rule balance_loop_closes) (use assms in \<open>simp_all\<close>)
  then show ?thesis
    by (simp add: ScanForBalancedChar_def sv_index_ok)
       (simp add: OffsetViewLen_def sv_of_def sv_str_def)
qed

lemma ScanForBalancedChar_balanced_witness:
  "\<exists>r. ScanForBalancedChar (sv_of (40 # [97, 40, 98, 41, 99] @ 41 # [100])) 40 41 = Inr r \<and>
    sv_str r = [97, 40, 98, 41, 99]"
  using ScanForBalancedChar_balanced [of 40 41 "[97, 40, 98, 41, 99]" "[100]"]
  by (simp add: never_closes_Cons)

lemma strstr_match_short:
  assumes "sv_wf h" "sv_wf n" "sv_len h < sv_len n" "i + left = sv_len n" "k \<ge> i" "k \<le> sv_len h"
  shows "\<exists>r. strstr_match h n k i left = Inr r \<and> r < sv_len n"
  using assms
proof (induction left arbitrary: k i)
  case (Suc left)
  then show ?case by (cases "k < sv_len h") (auto simp: sv_get_ok)
qed simp

text \<open>
  \<open>ConstexprStrstr\<close> subtracts the lengths as unsigned numbers: with a needle longer than
  the haystack the search runs on past the end of the haystack, and over a haystack that
  ends with its memory it always ends in a read out of bounds instead of -1.
\<close>

theorem ConstexprStrstr_long_needle:
  assumes "good_needle n" "length m < sv_len n" "sv_len n < 18446744073709551616"
  shows "ConstexprStrstr (sv_of m) n = Inl OutOfBounds"
proof -
  have n: "sv_wf n" using assms(1) by (simp add: good_needle_def)
  have loop: "strstr_loop (sv_of m) n i left = Inl OutOfBounds"
    if "i \<le> length m" "i + left > length m" for i left
    using that
  proof (induction left arbitrary: i)
    case (Suc left)
    show ?case
    proof (cases "i = length m")
      case True
      then show ?thesis by (simp add: sv_get_def sv_of_def readAt_def)
    next
      case False
      have "\<exists>r. strstr_match (sv_of m) n i 0 (sv_len n) = Inr r \<and> r < sv_len n"
        using Suc.prems(1) assms n by (intro strstr_match_short) auto
      with False Suc show ?thesis using n assms by (auto simp: sv_get_ok)
    qed
  qed simp
  have "length m \<le> wrap64 (length m + 18446744073709551616 - sv_len n)"
    using assms(2,3) by simp
  then have "strstr_loop (sv_of m) n 0
      (Suc (wrap64 (length m + 18446744073709551616 - sv_len n))) = Inl OutOfBounds"
    by (intro loop) simp_all
  then show ?thesis
    using assms(1) by (simp add: ConstexprStrstr_def needle_empty_good del: strstr_loop.simps)
qed

lemma ConstexprStrstr_long_needle_witness:
  "ConstexprStrstr (sv_of [97]) (STRING_LIT [97, 98]) = Inl OutOfBounds"
  by (rule ConstexprStrstr_long_needle) (simp_all add: good_needle_def)

lemma narrow_loop_ascii:
  assumes "\<forall>c\<in>set units. c \<noteq> 0 \<and> c < 128" "i + length units \<le> stop"
    "i + length units < length dest" "drop i src = units @ 0 # rest" "left > length units"
  shows "narrow_loop src dest stop i left =
    Inr (i + length units, take i dest @ map ucast units @ drop (i + length units) dest)"
  using assms
proof (induction units arbitrary: i dest left)
  case Nil
  then obtain l where "left = Suc l" by (cases left) auto
  moreover have "readAt i src = Inr 0"
    using Nil.prems(4) by (metis append_Nil drop_eq_Nil linorder_not_less list.distinct(1) nth_via_drop readAt_ok)
  ultimately show ?case by simp
next
  case (Cons c units)
  obtain l where l: "left = Suc l" using Cons.prems(5) by (cases left) auto
  have r: "readAt i src = Inr c"
    using Cons.prems(4) by (metis append_Cons drop_eq_Nil linorder_not_less list.distinct(1) nth_via_drop readAt_ok)
  have d: "drop (Suc i) src = units @ 0 # rest"
    using Cons.prems(4) by (metis append_Cons drop_Suc list.sel(3) tl_drop)
  have w: "writeAt i (ucast c) dest = Inr (dest[i := ucast c])"
    using Cons.prems(3) by simp
  have "take (Suc i) (dest[i := ucast c]) = take i dest @ [ucast c]"
    using Cons.prems(3) by (simp add: take_update_append)
  with Cons.IH [of "Suc i" "dest[i := ucast c]" l] Cons.prems l r w d show ?case by simp
qed

text \<open>
  \<open>wcharToNarrow\<close> on ASCII text that fits copies it, terminates the copy and returns one
  less than its length, which for the empty text is the largest \<open>u64\<close>.
\<close>

theorem wcharToNarrow_ascii:
  assumes "\<forall>c\<in>set units. c \<noteq> 0 \<and> c < 128" "length units < length dest"
    "length dest < 18446744073709551616"
  shows "wcharToNarrow (units @ 0 # rest) dest (length dest) =
    Inr (wrap64 (length units + 18446744073709551615),
         map ucast units @ 0 # drop (Suc (length units)) dest)"
proof -
  have "wrap64 (length dest + 18446744073709551615) = length dest - 1"
    using assms(2,3) by (cases "length dest") (simp_all add: wrap64_def)
  then have "narrow_loop (units @ 0 # rest) dest (wrap64 (length dest + 18446744073709551615)) 0
      (Suc (length (units @ 0 # rest))) = Inr (length units, map ucast units @ drop (length units) dest)"
    using narrow_loop_ascii [of units 0 "length dest - 1" dest "units @ 0 # rest" rest
      "Suc (length (units @ 0 # rest))"] assms by (simp del: narrow_loop.simps)
  moreover have "(map ucast units @ drop (length units) dest)[length units := 0] =
      map ucast units @ 0 # drop (Suc (length units)) dest"
    using assms(2) by (simp add: list_update_append) (metis Cons_nth_drop_Suc list_update_code(2))
  ultimately show ?thesis
    using assms(2) by (simp add: wcharToNarrow_def del: narrow_loop.simps)
qed

lemma wcharToNarrow_ascii_witness:
  "wcharToNarrow ([] @ 0 # []) [7, 7] (length [7, 7::u8]) = Inr (18446744073709551615, [0, 7])"
  using wcharToNarrow_ascii [of "[]" "[7, 7]" "[]"] by simp

lemma narrow_surrogate:
  "readAt i src = Inr code \<Longrightarrow> i < stop \<Longrightarrow> 0xD800 \<le> code \<Longrightarrow> code \<le> 0xDBFF \<Longrightarrow> i < length dest \<Longrightarrow>
   narrow_loop src dest stop i (Suc left) = narrow_loop src (dest[i := 63]) stop (Suc (Suc i)) left"
  apply (subgoal_tac "code \<noteq> 0 \<and> \<not> code < 128")
  apply (simp del: readAt_Inr)
  apply (auto simp del: readAt_Inr simp: word_le_nat_alt word_less_nat_alt)
  done
lemma narrow_stop: "readAt i src = Inr 0 \<Longrightarrow> narrow_loop src dest stop i (Suc left) = Inr (i, dest)"
  by (simp del: readAt_Inr)
text \<open>
  A lead surrogate in the last free position of the destination steps the index over the
  end of the buffer, and the terminating zero is written outside of it.
\<close>

theorem wcharToNarrow_surrogate_overrun:
  "wcharToNarrow [0xD83D, 0xDE00, 0] [x, y] 2 = Inl OutOfBounds"
proof -
  let ?src = "[0xD83D, 0xDE00, 0] :: u16 list"
  have s: "wrap64 (2 + 18446744073709551615) = 1" by (simp add: wrap64_def)
  have a: "narrow_loop ?src [x, y] 1 0 (Suc n) = narrow_loop ?src [63, y] 1 (Suc (Suc 0)) n" for n
    using narrow_surrogate [of 0 ?src _ 1 "[x, y]" n] by simp
  have b: "narrow_loop ?src [63, y] 1 (Suc (Suc 0)) (Suc n) = Inr (Suc (Suc 0), [63, y])" for n
    by (rule narrow_stop) simp
  have "narrow_loop ?src [x, y] 1 0 (Suc (length ?src)) = Inr (Suc (Suc 0), [63, y])"
    by (simp only: a b list.size plus_nat.simps)
  then show ?thesis
    by (simp only: wcharToNarrow_def s bindR_simps prod.case) (simp add: writeAt_def)
qed
end
