(* ===== verification/StringParse.thy ===== *)
theory StringParse
  imports Strings
begin

text \<open>
  The decimal parsers of \<open>core/me_string.cpp\<close>. Each takes a view by reference and moves it
  behind what it has read, so the models return the value and the view left over. The
  signed parsers accumulate in a signed integer whose overflow is a fault; the unsigned
  ones wrap around.
\<close>

section \<open>The parsers\<close>

definition digit_of :: "u8 \<Rightarrow> int" where
  "digit_of c = int (unat c) - 48"

text \<open>The digit loops: position, value so far, characters left; \<open>acc\<close> adds a digit.\<close>

fun digits_loop :: "('v \<Rightarrow> int \<Rightarrow> 'v result) \<Rightarrow> StringView \<Rightarrow> nat \<Rightarrow> 'v \<Rightarrow> nat \<Rightarrow> (nat \<times> 'v) result" where
  "digits_loop acc str i value 0 = Inr (i, value)"
| "digits_loop acc str i value (Suc left) =
     bindR (sv_get str i) (\<lambda>c.
       if IsDigit c then
         bindR (acc value (digit_of c)) (\<lambda>value. digits_loop acc str (Suc i) value left)
       else Inr (i, value))"

definition s32_acc :: "int \<Rightarrow> int \<Rightarrow> int result" where
  "s32_acc value d = require SignedOverflow (value * 10 + d \<le> 2147483647) (Inr (value * 10 + d))"

definition s64_acc :: "int \<Rightarrow> int \<Rightarrow> int result" where
  "s64_acc value d =
     require SignedOverflow (value * 10 + d \<le> 9223372036854775807) (Inr (value * 10 + d))"

definition u32_acc :: "int \<Rightarrow> int \<Rightarrow> int result" where
  "u32_acc value d = Inr ((value * 10 + d) mod 4294967296)"

definition u64_acc :: "int \<Rightarrow> int \<Rightarrow> int result" where
  "u64_acc value d = Inr ((value * 10 + d) mod 18446744073709551616)"

text \<open>\<open>StringParseInt32\<close> and \<open>StringParseInt64\<close> are the same code at two widths.\<close>

definition parse_signed :: "(int \<Rightarrow> int \<Rightarrow> int result) \<Rightarrow> StringView \<Rightarrow> (int \<times> StringView) result" where
  "parse_signed acc str =
     (if sv_mem str = None \<or> sv_len str = 0 then Inr (0, str)
      else bindR (EatChars str (STRING_LIT [32]) False) (\<lambda>str.
        if sv_len str = 0 then Inr (0, str)
        else bindR (sv_get str 0) (\<lambda>c0.
          let negative = (c0 = 45);
              str = (if c0 = 45 \<or> c0 = 43 then OffsetView str 1 else str)
          in if sv_len str = 0 then Inr (0, str)
             else bindR (digits_loop acc str 0 0 (sv_len str)) (\<lambda>(i, value).
               Inr (if negative then - value else value, OffsetView str i)))))"

definition StringParseInt32 :: "StringView \<Rightarrow> (int \<times> StringView) result" where
  "StringParseInt32 str = parse_signed s32_acc str"

definition StringParseInt64 :: "StringView \<Rightarrow> (int \<times> StringView) result" where
  "StringParseInt64 str = parse_signed s64_acc str"

text \<open>\<open>StringParseUInt32\<close> and \<open>StringParseUInt64\<close> accept a plus sign only.\<close>

definition parse_unsigned :: "(int \<Rightarrow> int \<Rightarrow> int result) \<Rightarrow> StringView \<Rightarrow> (int \<times> StringView) result" where
  "parse_unsigned acc str =
     (if sv_mem str = None \<or> sv_len str = 0 then Inr (0, str)
      else bindR (EatChars str (STRING_LIT [32]) False) (\<lambda>str.
        if sv_len str = 0 then Inr (0, str)
        else bindR (sv_get str 0) (\<lambda>c0.
          let str = (if c0 = 43 then OffsetView str 1 else str)
          in if sv_len str = 0 then Inr (0, str)
             else bindR (digits_loop acc str 0 0 (sv_len str)) (\<lambda>(i, value).
               Inr (value, OffsetView str i)))))"

definition StringParseUInt32 :: "StringView \<Rightarrow> (int \<times> StringView) result" where
  "StringParseUInt32 str = parse_unsigned u32_acc str"

definition StringParseUInt64 :: "StringView \<Rightarrow> (int \<times> StringView) result" where
  "StringParseUInt64 str = parse_unsigned u64_acc str"

text \<open>
  \<open>stringToUint\<close> looks at the character before it checks the length, so it reads one
  position past the length when everything up to it is consumed. \<open>left\<close> counts down the
  positions below \<open>len\<close>; the last read is the one at \<open>len\<close>.
\<close>

definition isspace :: "u8 \<Rightarrow> bool" where
  "isspace c \<longleftrightarrow> c = 32 \<or> (9 \<le> c \<and> c \<le> 13)"

fun skip_space :: "StringView \<Rightarrow> nat \<Rightarrow> nat \<Rightarrow> nat result" where
  "skip_space str i 0 = bindR (sv_get str i) (\<lambda>c. Inr i)"
| "skip_space str i (Suc left) =
     bindR (sv_get str i) (\<lambda>c. if isspace c then skip_space str (Suc i) left else Inr i)"

fun uint_loop :: "StringView \<Rightarrow> nat \<Rightarrow> nat \<Rightarrow> nat \<Rightarrow> nat result" where
  "uint_loop str i value 0 = bindR (sv_get str i) (\<lambda>c. Inr value)"
| "uint_loop str i value (Suc left) =
     bindR (sv_get str i) (\<lambda>c.
       if c \<noteq> 0 \<and> IsDigit c then
         (let digit = unat c - 48
          in if value > 429496729 \<or> (value = 429496729 \<and> digit > 5) then Inr 4294967295
             else uint_loop str (Suc i) (value * 10 + digit) left)
       else Inr value)"

definition stringToUint :: "StringView \<Rightarrow> nat \<Rightarrow> nat result" where
  "stringToUint str n = bindR (skip_space str 0 n) (\<lambda>i. uint_loop str i 0 (n - i))"

definition StringToUint :: "StringView \<Rightarrow> nat result" where
  "StringToUint str = stringToUint str (wrap32 (sv_len str))"

section \<open>Decimal values\<close>

definition dec_value_from :: "int \<Rightarrow> u8 list \<Rightarrow> int" where
  "dec_value_from v ds = foldl (\<lambda>v c. v * 10 + digit_of c) v ds"

definition dec_value :: "u8 list \<Rightarrow> int" where
  "dec_value ds = dec_value_from 0 ds"

definition all_digits :: "u8 list \<Rightarrow> bool" where
  "all_digits ds \<longleftrightarrow> (\<forall>c\<in>set ds. IsDigit c)"

text \<open>The decimal notation of a number, for the round trip.\<close>

fun dec_digits :: "nat \<Rightarrow> u8 list" where
  "dec_digits n = (if n < 10 then [of_nat (48 + n)] else dec_digits (n div 10) @ [of_nat (48 + n mod 10)])"

declare dec_digits.simps [simp del]

lemma digit_of_range: "IsDigit c \<Longrightarrow> 0 \<le> digit_of c \<and> digit_of c \<le> 9"
  by (auto simp: IsDigit_def digit_of_def word_le_nat_alt simp del: of_nat_unat)

lemma IsDigit_range: "IsDigit c \<Longrightarrow> 48 \<le> unat c \<and> unat c \<le> 57"
  by (simp add: IsDigit_def word_le_nat_alt)

lemma dec_value_from_simps [simp]:
  "dec_value_from v [] = v"
  "dec_value_from v (c # cs) = dec_value_from (v * 10 + digit_of c) cs"
  "dec_value_from v (xs @ ys) = dec_value_from (dec_value_from v xs) ys"
  by (simp_all add: dec_value_from_def)

lemma dec_value_from_mono:
  "all_digits ds \<Longrightarrow> 0 \<le> v \<Longrightarrow> v \<le> dec_value_from v ds"
proof (induction ds arbitrary: v)
  case (Cons c cs)
  then have d: "0 \<le> digit_of c" using digit_of_range [of c] by (simp add: all_digits_def)
  with Cons have "v * 10 + digit_of c \<le> dec_value_from v (c # cs)"
    by (simp add: all_digits_def)
  with Cons.prems d show ?case by simp
qed simp

lemma digit_char: "d < 10 \<Longrightarrow> IsDigit (of_nat (48 + d)) \<and> digit_of (of_nat (48 + d)) = int d"
proof -
  assume "d < 10"
  then have "unat (of_nat (48 + d) :: u8) = 48 + d"
    by (simp only: unat_of_nat) simp
  with \<open>d < 10\<close> show ?thesis
    by (simp only: IsDigit_def word_le_nat_alt digit_of_def) simp
qed

lemma dec_digits_spec: "all_digits (dec_digits n) \<and> dec_value (dec_digits n) = int n \<and> dec_digits n \<noteq> []"
proof (induction n rule: dec_digits.induct)
  case (1 n)
  show ?case
  proof (cases "n < 10")
    case True
    then show ?thesis using digit_char [of n]
      by (simp add: dec_digits.simps [of n] all_digits_def dec_value_def del: of_nat_add)
  next
    case False
    have "int (n div 10) * 10 + int (n mod 10) = int n"
      by (metis div_mult_mod_eq of_nat_add of_nat_mult of_nat_numeral)
    with 1 False digit_char [of "n mod 10"] show ?thesis
      by (simp add: dec_digits.simps [of n] all_digits_def dec_value_def ball_Un del: of_nat_add)
  qed
qed

text \<open>The loop on the characters: it takes the digits there are and stops behind them.\<close>

fun acc_run :: "('v \<Rightarrow> int \<Rightarrow> 'v result) \<Rightarrow> 'v \<Rightarrow> u8 list \<Rightarrow> 'v result" where
  "acc_run acc x [] = Inr x"
| "acc_run acc x (c # cs) = bindR (acc x (digit_of c)) (\<lambda>x. acc_run acc x cs)"

text \<open>The input of the parsers ends where no digit follows.\<close>

definition ends_number :: "u8 list \<Rightarrow> bool" where
  "ends_number rest \<longleftrightarrow> rest = [] \<or> \<not> IsDigit (hd rest)"

lemma digits_loop_run:
  assumes "sv_wf v" "drop i (sv_str v) = ds @ rest" "all_digits ds" "ends_number rest" "i + left = sv_len v"
  shows "digits_loop acc v i x left = bindR (acc_run acc x ds) (\<lambda>y. Inr (i + length ds, y))"
  using assms(2,3,5)
proof (induction ds arbitrary: i x left)
  case Nil
  show ?case
  proof (cases left)
    case (Suc l)
    then have i: "i < sv_len v" using Nil.prems(3) by simp
    then have "rest = sv_str v ! i # drop (Suc i) (sv_str v)"
      using Nil.prems(1) assms(1) by (simp add: Cons_nth_drop_Suc)
    with assms(4) have "\<not> IsDigit (sv_str v ! i)" by (auto simp: ends_number_def)
    with Suc i assms(1) show ?thesis by (simp add: sv_get_ok)
  qed simp
next
  case (Cons c ds)
  have i: "i < sv_len v"
    using Cons.prems(1) assms(1) by (metis append_Cons drop_eq_Nil length_sv_str linorder_not_less list.distinct(1))
  then have dr: "drop i (sv_str v) = sv_str v ! i # drop (Suc i) (sv_str v)"
    using assms(1) by (simp add: Cons_nth_drop_Suc)
  obtain l where l: "left = Suc l" using i Cons.prems(3) by (cases left) auto
  have "digits_loop acc v (Suc i) y l = bindR (acc_run acc y ds) (\<lambda>y. Inr (Suc i + length ds, y))" for y
    using Cons.prems dr l by (intro Cons.IH) (auto simp: all_digits_def)
  moreover have "IsDigit c" "sv_get v i = Inr c"
    using Cons.prems dr i assms(1) by (simp_all add: sv_get_ok all_digits_def)
  ultimately show ?case using l by (cases "acc x (digit_of c)") simp_all
qed

text \<open>Accumulation in a signed type is exact within its bound, in an unsigned one modulo its width.\<close>

lemma acc_run_exact:
  assumes "\<And>x d. 0 \<le> x \<Longrightarrow> 0 \<le> d \<Longrightarrow> x * 10 + d \<le> bound \<Longrightarrow> acc x d = Inr (x * 10 + d)"
    "all_digits ds" "0 \<le> x" "dec_value_from x ds \<le> bound"
  shows "acc_run acc x ds = Inr (dec_value_from x ds)"
  using assms(2-)
proof (induction ds arbitrary: x)
  case (Cons c ds)
  have c: "0 \<le> digit_of c" and ds: "all_digits ds"
    using Cons.prems(1) digit_of_range [of c] by (simp_all add: all_digits_def)
  with Cons.prems(2) have x: "0 \<le> x * 10 + digit_of c" by simp
  with dec_value_from_mono [OF ds x] Cons.prems c have "acc x (digit_of c) = Inr (x * 10 + digit_of c)"
    by (intro assms(1)) simp_all
  with Cons.IH [OF ds x] Cons.prems(3) show ?case by simp
qed simp

lemma dec_value_from_mod:
  "dec_value_from (v mod m) ds mod m = dec_value_from v ds mod m"
proof (induction ds arbitrary: v)
  case (Cons c cs)
  have "((v mod m) * 10 + digit_of c) mod m = (v * 10 + digit_of c) mod m"
    by (metis mod_add_left_eq mod_mult_left_eq)
  then show ?case
    using Cons.IH [of "(v mod m) * 10 + digit_of c"] Cons.IH [of "v * 10 + digit_of c"]
    by simp
qed simp

lemma acc_run_mod:
  assumes "\<And>x d. acc x d = Inr ((x * 10 + d) mod m)" "x mod m = x"
  shows "acc_run acc x ds = Inr (dec_value_from x ds mod m)"
  using assms(2) by (induction ds arbitrary: x) (simp_all add: assms(1) dec_value_from_mod)

section \<open>Properties\<close>

lemma EatChars_spaces:
  assumes "sv_wf str" "sv_len str < 4294967296" "sv_str str = replicate k 32 @ cs" "cs = [] \<or> hd cs \<noteq> 32"
  shows "\<exists>v. EatChars str (STRING_LIT [32]) False = Inr v \<and> sv_wf v \<and> sv_str v = cs \<and> sv_mem v = sv_mem str"
proof -
  from EatChars_spec [OF assms(1) sv_wf_lit(1), of "[32]" False] assms(2) obtain j where
    j: "EatChars str (STRING_LIT [32]) False = Inr (OffsetView str j)"
       "sv_str (OffsetView str j) = dropWhile (eats [32] False) (sv_str str)" by auto
  have "eats [32] False = (\<lambda>c. c = 32)" by (auto simp: eats_def fun_eq_iff)
  moreover have "dropWhile (\<lambda>c. c = 32) (replicate k 32 @ cs) = cs"
    using assms(4) by (induction k) (cases cs, auto)
  ultimately have "dropWhile (eats [32] False) (replicate k 32 @ cs) = cs" by simp
  with j assms show ?thesis by (simp add: sv_wf_OffsetView)
qed

lemma parse_signed_exact:
  assumes "sv_wf str" "sv_len str < 4294967296"
    "sv_str str = replicate k 32 @ sign @ ds @ rest" "sign \<in> {[], [43], [45]}"
    "all_digits ds" "ds \<noteq> []" "ends_number rest" "dec_value ds \<le> bound"
    "\<And>x d. 0 \<le> x \<Longrightarrow> 0 \<le> d \<Longrightarrow> x * 10 + d \<le> bound \<Longrightarrow> acc x d = Inr (x * 10 + d)"
  shows "\<exists>v. parse_signed acc str = Inr (if sign = [45] then - dec_value ds else dec_value ds, v) \<and>
    sv_str v = rest"
proof -
  obtain c cs where ds: "ds = c # cs" using assms(6) by (cases ds) auto
  have dig: "IsDigit c" using assms(5) ds by (simp add: all_digits_def)
  then have c: "c \<noteq> 32" "c \<noteq> 43" "c \<noteq> 45" by (auto simp: IsDigit_def)
  have "sign @ ds @ rest = [] \<or> hd (sign @ ds @ rest) \<noteq> 32" using assms(4) ds c by auto
  from EatChars_spaces [OF assms(1-3) this] obtain v where
    v: "EatChars str (STRING_LIT [32]) False = Inr v" "sv_wf v" "sv_str v = sign @ ds @ rest"
       "sv_mem v = sv_mem str" by blast
  have len: "sv_len v = length sign + length ds + length rest" using v(2,3) length_sv_str [of v] by simp
  have str: "sv_mem str \<noteq> None" "sv_len str \<noteq> 0"
    using sv_nonempty [OF assms(1)] assms(3,6) by simp_all
  let ?w = "if sign = [] then v else OffsetView v 1"
  have w: "sv_wf ?w" "sv_str ?w = ds @ rest" "sv_len ?w = length ds + length rest"
    using v len assms(4) by (auto simp: sv_wf_OffsetView sv_str_OffsetView sv_len_OffsetView)
  have loop: "digits_loop acc ?w 0 0 (sv_len ?w) = Inr (0 + length ds, dec_value_from 0 ds)"
    using digits_loop_run [OF w(1) _ assms(5,7), of 0 _ acc] acc_run_exact [OF assms(9,5)] w(2,3) assms(8)
    by (simp add: dec_value_def)
  have g: "sv_get v 0 = Inr (hd (sign @ ds @ rest))"
    using v len ds by (auto simp: sv_get_ok hd_conv_nth)
  have "sv_str (OffsetView ?w (length ds)) = rest"
    using w by (simp add: sv_str_OffsetView)
  with g loop v(1) str len w(3) ds c assms(4) show ?thesis
    by (auto simp: parse_signed_def dec_value_def simp del: digits_loop.simps)
qed

lemma parse_unsigned_mod:
  assumes "sv_wf str" "sv_len str < 4294967296"
    "sv_str str = replicate k 32 @ sign @ ds @ rest" "sign \<in> {[], [43]}"
    "all_digits ds" "ds \<noteq> []" "ends_number rest" "\<And>x d. acc x d = Inr ((x * 10 + d) mod m)"
  shows "\<exists>v. parse_unsigned acc str = Inr (dec_value ds mod m, v) \<and> sv_str v = rest"
proof -
  obtain c cs where ds: "ds = c # cs" using assms(6) by (cases ds) auto
  have dig: "IsDigit c" using assms(5) ds by (simp add: all_digits_def)
  then have c: "c \<noteq> 32" "c \<noteq> 43" by (auto simp: IsDigit_def)
  have "sign @ ds @ rest = [] \<or> hd (sign @ ds @ rest) \<noteq> 32" using assms(4) ds c by auto
  from EatChars_spaces [OF assms(1-3) this] obtain v where
    v: "EatChars str (STRING_LIT [32]) False = Inr v" "sv_wf v" "sv_str v = sign @ ds @ rest"
       "sv_mem v = sv_mem str" by blast
  have len: "sv_len v = length sign + length ds + length rest" using v(2,3) length_sv_str [of v] by simp
  have str: "sv_mem str \<noteq> None" "sv_len str \<noteq> 0"
    using sv_nonempty [OF assms(1)] assms(3,6) by simp_all
  let ?w = "if sign = [] then v else OffsetView v 1"
  have w: "sv_wf ?w" "sv_str ?w = ds @ rest" "sv_len ?w = length ds + length rest"
    using v len assms(4) by (auto simp: sv_wf_OffsetView sv_str_OffsetView sv_len_OffsetView)
  have loop: "digits_loop acc ?w 0 0 (sv_len ?w) = Inr (0 + length ds, dec_value_from 0 ds mod m)"
    using digits_loop_run [OF w(1) _ assms(5,7), of 0 _ acc] acc_run_mod [OF assms(8)] w(2,3) by simp
  have g: "sv_get v 0 = Inr (hd (sign @ ds @ rest))"
    using v len ds by (auto simp: sv_get_ok hd_conv_nth)
  have "sv_str (OffsetView ?w (length ds)) = rest"
    using w by (simp add: sv_str_OffsetView)
  with g loop v(1) str len w(3) ds c assms(4) show ?thesis
    by (auto simp: parse_unsigned_def dec_value_def simp del: digits_loop.simps)
qed

text \<open>
  C33. The signed parsers read spaces, a sign and digits, return the number they denote and
  leave the view at the first character behind them, for every number whose magnitude the
  type can hold as a positive value.
\<close>

theorem StringParseInt_exact:
  assumes "sv_wf str" "sv_len str < 4294967296"
    "sv_str str = replicate k 32 @ sign @ ds @ rest" "sign \<in> {[], [43], [45]}"
    "all_digits ds" "ds \<noteq> []" "ends_number rest" "dec_value ds \<le> 9223372036854775807"
  shows "(dec_value ds \<le> 2147483647 \<longrightarrow>
      (\<exists>v. StringParseInt32 str = Inr (if sign = [45] then - dec_value ds else dec_value ds, v) \<and>
           sv_str v = rest)) \<and>
    (\<exists>v. StringParseInt64 str = Inr (if sign = [45] then - dec_value ds else dec_value ds, v) \<and>
         sv_str v = rest)"
  using parse_signed_exact [OF assms(1-7), of 2147483647 s32_acc]
    parse_signed_exact [OF assms(1-7), of 9223372036854775807 s64_acc] assms(8)
  by (simp add: StringParseInt32_def StringParseInt64_def s32_acc_def s64_acc_def)

lemma StringParseInt_exact_witness:
  "\<exists>v. StringParseInt32 (sv_of [32, 45, 52, 50, 59]) = Inr (-42, v) \<and> sv_str v = [59]"
  using StringParseInt_exact [of "sv_of [32, 45, 52, 50, 59]" 1 "[45]" "[52, 50]" "[59]"]
  by (simp add: all_digits_def IsDigit_def ends_number_def dec_value_def digit_of_def)

text \<open>
  The unsigned parsers return the number modulo the width of their type: overflow is
  silent. Reading back the decimal notation of a number that fits gives the number.
\<close>

theorem StringParseUInt_wraps:
  assumes "sv_wf str" "sv_len str < 4294967296"
    "sv_str str = replicate k 32 @ sign @ dec_digits n @ rest" "sign \<in> {[], [43]}" "ends_number rest"
  shows "(\<exists>v. StringParseUInt32 str = Inr (int n mod 4294967296, v) \<and> sv_str v = rest) \<and>
    (\<exists>v. StringParseUInt64 str = Inr (int n mod 18446744073709551616, v) \<and> sv_str v = rest)"
  using parse_unsigned_mod [OF assms(1-4) _ _ assms(5), of u32_acc 4294967296]
    parse_unsigned_mod [OF assms(1-4) _ _ assms(5), of u64_acc 18446744073709551616]
    dec_digits_spec [of n]
  by (simp add: StringParseUInt32_def StringParseUInt64_def u32_acc_def u64_acc_def)

lemma StringParseUInt_wraps_witness:
  "\<exists>v. StringParseUInt32 (sv_of (replicate 1 32 @ [43] @ dec_digits 4294967297 @ [])) = Inr (1, v)"
proof -
  have "length (dec_digits 4294967297) = 10" by (simp add: dec_digits.simps)
  then show ?thesis
    using StringParseUInt_wraps [of "sv_of (replicate 1 32 @ [43] @ dec_digits 4294967297 @ [])" 1
      "[43]" 4294967297 "[]"] by (auto simp: ends_number_def)
qed

text \<open>
  The most negative number of each signed type overflows the accumulator although it is
  representable: its digits are collected before the sign is applied.
\<close>

theorem StringParseInt32_min_overflows:
  "StringParseInt32 (sv_of (45 # dec_digits 2147483648)) = Inl SignedOverflow"
proof -
  have d: "dec_digits 2147483648 = [50, 49, 52, 55, 52, 56, 51, 54, 52, 56]"
    by (simp add: dec_digits.simps)
  let ?s = "[45, 50, 49, 52, 55, 52, 56, 51, 54, 52, 56] :: u8 list"
  let ?v = "sv_of ?s"
  let ?w = "OffsetView ?v 1"
  have e: "EatChars ?v (STRING_LIT [32]) False = Inr ?v"
  proof -
    obtain u where u: "EatChars ?v (STRING_LIT [32]) False = Inr (OffsetView ?v u)" "u \<le> sv_len ?v"
      "sv_str (OffsetView ?v u) = dropWhile (eats [32] False) ?s"
      using EatChars_spec [of ?v "STRING_LIT [32]" False] by auto
    have "dropWhile (eats [32] False) ?s = ?s" by (simp add: eats_def)
    with u(3) have "length (sv_str (OffsetView ?v u)) = 11" by simp
    then have "u = 0" by (simp add: sv_wf_OffsetView sv_len_OffsetView)
    with u(1) show ?thesis by simp
  qed
  let ?ds = "[50, 49, 52, 55, 52, 56, 51, 54, 52, 56 :: u8]"
  have w: "sv_wf ?w" "sv_str ?w = ?ds" "sv_len ?w = 10"
    by (simp_all add: sv_wf_OffsetView sv_str_OffsetView sv_len_OffsetView)
  moreover have "all_digits ?ds" "ends_number []" by (simp_all add: all_digits_def IsDigit_def ends_number_def)
  moreover have "acc_run s32_acc 0 ?ds = Inl SignedOverflow" by (simp add: digit_of_def s32_acc_def)
  ultimately have "digits_loop s32_acc ?w 0 0 (sv_len ?w) = Inl SignedOverflow"
    using digits_loop_run [of ?w 0 ?ds "[]" 10 s32_acc 0] by simp
  moreover have "sv_get ?v 0 = Inr 45" by (simp add: sv_get_ok)
  moreover have "sv_mem ?v \<noteq> None" by (simp add: sv_of_def)
  ultimately show ?thesis
    using e w(3) by (simp add: StringParseInt32_def parse_signed_def d)
qed

lemma uint_loop_digits:
  assumes "sv_wf str" "sv_len str = n" "drop i (sv_str str) = ds" "all_digits ds" "i + length ds = n"
    "sv_get str n = Inr z" "v \<le> 4294967295"
  shows "uint_loop str i v (length ds) = Inr (if dec_value_from (int v) ds \<le> 4294967295
           then nat (dec_value_from (int v) ds) else 4294967295)"
  using assms(3-)
proof (induction ds arbitrary: i v)
  case Nil
  then show ?case by simp
next
  case (Cons c cs)
  have i: "i < sv_len str" using Cons.prems(3) assms(2) by simp
  then have dr: "drop i (sv_str str) = sv_str str ! i # drop (Suc i) (sv_str str)"
    using assms(1) by (simp add: Cons_nth_drop_Suc)
  have c: "IsDigit c" "c \<noteq> 0" "0 \<le> digit_of c" "digit_of c \<le> 9" "int (unat c - 48) = digit_of c"
    using Cons.prems(2) digit_of_range [of c] IsDigit_range [of c]
    by (auto simp: all_digits_def digit_of_def simp del: of_nat_unat)
  have cs: "all_digits cs" using Cons.prems(2) by (simp add: all_digits_def)
  let ?d = "unat c - 48"
  have nx: "int (v * 10 + ?d) = int v * 10 + digit_of c" using c(5) by simp
  have "?d \<le> 9" using c(4,5) by linarith
  then have over: "(v > 429496729 \<or> (v = 429496729 \<and> ?d > 5)) \<longleftrightarrow> v * 10 + ?d > 4294967295"
    by auto
  have g: "sv_get str i = Inr c" using i assms(1) dr Cons.prems(1) by (simp add: sv_get_ok)
  have mono: "int (v * 10 + ?d) \<le> dec_value_from (int (v * 10 + ?d)) cs"
    by (rule dec_value_from_mono [OF cs]) simp
  show ?case
  proof (cases "v * 10 + ?d > 4294967295")
    case True
    with mono nx have "dec_value_from (int v) (c # cs) > 4294967295" by simp
    with g c(1,2) over True show ?thesis by (simp add: Let_def)
  next
    case False
    with Cons.IH [of "Suc i" "v * 10 + ?d"] Cons.prems dr cs nx
    have "uint_loop str (Suc i) (v * 10 + ?d) (length cs) =
      Inr (if dec_value_from (int v * 10 + digit_of c) cs \<le> 4294967295
           then nat (dec_value_from (int v * 10 + digit_of c) cs) else 4294967295)" by simp
    with g c(1,2) over False show ?thesis by (simp add: Let_def)
  qed
qed

lemma skip_space_digit:
  "sv_get str i = Inr c \<Longrightarrow> IsDigit c \<Longrightarrow> skip_space str i n = Inr i"
  by (cases n) (auto simp: isspace_def IsDigit_def word_le_nat_alt)

text \<open>
  \<open>StringToUint\<close> saturates at the largest \<open>u32\<close>, but it needs one readable byte behind the
  view: on a view that ends with its memory and is all digits it reads out of bounds.
\<close>

theorem StringToUint_saturates:
  assumes "all_digits ds" "ds \<noteq> []" "length ds < 4294967296"
  shows "StringToUint (STRING_LIT ds) = Inr (nat (min (dec_value ds) 4294967295)) \<and>
    (dec_value ds \<le> 4294967295 \<longrightarrow> StringToUint (sv_of ds) = Inl OutOfBounds)"
proof
  let ?v = "STRING_LIT ds"
  obtain c cs where ds: "ds = c # cs" using assms(2) by (cases ds) auto
  have c: "IsDigit c" using assms(1) ds by (simp add: all_digits_def)
  have z: "sv_get ?v (length ds) = Inr 0" by (simp add: sv_get_def STRING_LIT_def)
  have "skip_space ?v 0 (length ds) = Inr 0"
    using c ds by (intro skip_space_digit [of _ _ c]) (simp_all add: sv_get_ok)
  moreover have "uint_loop ?v 0 0 (length ds) = Inr (if dec_value_from (int 0) ds \<le> 4294967295
           then nat (dec_value_from (int 0) ds) else 4294967295)"
    using assms(1) z by (intro uint_loop_digits [of _ "length ds" _ _ 0]) simp_all
  ultimately show "StringToUint ?v = Inr (nat (min (dec_value ds) 4294967295))"
    using assms(3) by (simp add: StringToUint_def stringToUint_def dec_value_def)
  have oob: "uint_loop (sv_of ds) i v (length (drop i ds)) = Inl OutOfBounds"
    if "dec_value_from (int v) (drop i ds) \<le> 4294967295" "i \<le> length ds" for i v
    using that
  proof (induction "length (drop i ds)" arbitrary: i v)
    case 0
    then show ?case by (simp add: sv_get_def sv_of_def readAt_def)
  next
    case (Suc n)
    have i: "i < length ds" using Suc(2) by simp
    then have dr: "drop i ds = ds ! i # drop (Suc i) ds" by (simp add: Cons_nth_drop_Suc)
    have ci: "IsDigit (ds ! i)" using assms(1) i by (simp add: all_digits_def)
    have rest: "all_digits (drop (Suc i) ds)"
      using assms(1) by (auto simp: all_digits_def dest: in_set_dropD)
    have e: "int (unat (ds ! i) - 48) = digit_of (ds ! i)" "ds ! i \<noteq> 0"
      using IsDigit_range [OF ci] by (auto simp: digit_of_def simp del: of_nat_unat)
    let ?x = "v * 10 + (unat (ds ! i) - 48)"
    have x: "int ?x = int v * 10 + digit_of (ds ! i)" using e by simp
    have dv: "dec_value_from (int v) (drop i ds) = dec_value_from (int ?x) (drop (Suc i) ds)"
      using dr x by simp
    have "int ?x \<le> dec_value_from (int ?x) (drop (Suc i) ds)"
      by (rule dec_value_from_mono [OF rest]) simp
    with Suc.prems(1) dv have small: "?x \<le> 4294967295" by simp
    have "n = length (drop (Suc i) ds)" using Suc(2) by simp
    from Suc(1) [OF this, of ?x] Suc.prems dv i
    have "uint_loop (sv_of ds) (Suc i) ?x (length (drop (Suc i) ds)) = Inl OutOfBounds" by simp
    moreover have "sv_get (sv_of ds) i = Inr (ds ! i)" using i by (simp add: sv_get_ok)
    moreover have "length (drop i ds) = Suc (length (drop (Suc i) ds))" using i by simp
    ultimately show ?case using ci e small by (auto simp: Let_def)
  qed
  show "dec_value ds \<le> 4294967295 \<longrightarrow> StringToUint (sv_of ds) = Inl OutOfBounds"
  proof
    assume "dec_value ds \<le> 4294967295"
    with oob [of 0 0] have "uint_loop (sv_of ds) 0 0 (length ds) = Inl OutOfBounds"
      by (simp add: dec_value_def)
    moreover have "skip_space (sv_of ds) 0 (length ds) = Inr 0"
      using c ds by (intro skip_space_digit [of _ _ c]) (simp_all add: sv_get_ok)
    ultimately show "StringToUint (sv_of ds) = Inl OutOfBounds"
      using assms(3) by (simp add: StringToUint_def stringToUint_def)
  qed
qed

lemma StringToUint_saturates_witness:
  "StringToUint (STRING_LIT [49, 50]) = Inr 12 \<and> StringToUint (sv_of [49, 50]) = Inl OutOfBounds"
  using StringToUint_saturates [of "[49, 50]"]
  by (simp add: all_digits_def IsDigit_def dec_value_def digit_of_def)

end
