(* ===== verification/FloatParse.thy ===== *)
theory FloatParse
  imports StringParse Complex_Main
begin

text \<open>
  The parsers of floating-point numbers (\<open>StringParseFloat\<close>, \<open>StringParseDouble\<close> in
  \<open>core/me_string.cpp\<close>). The arithmetic is that of the processor: its operations are the fields of
  \<open>float_ops\<close>, at either precision. What is relied on of them is \<open>float_laws\<close>: an operation gives
  the exact result when that is representable.
\<close>

section \<open>The parsers\<close>

record 'f float_ops =
  f_of :: "int \<Rightarrow> 'f"
  f_add :: "'f \<Rightarrow> 'f \<Rightarrow> 'f"
  f_mul :: "'f \<Rightarrow> 'f \<Rightarrow> 'f"
  f_div :: "'f \<Rightarrow> 'f \<Rightarrow> 'f"
  f_neg :: "'f \<Rightarrow> 'f"
  f_inf :: 'f
  f_nan :: 'f

text \<open>\<open>inf\<close> and \<open>nan\<close> in any case; the view stays in front of them.\<close>

definition special_value :: "'f float_ops \<Rightarrow> bool \<Rightarrow> StringView \<Rightarrow> 'f option result" where
  "special_value ops negative str =
     (if sv_len str \<ge> 3 then
        bindR (sv_get str 0) (\<lambda>c0. bindR (sv_get str 1) (\<lambda>c1. bindR (sv_get str 2) (\<lambda>c2.
          Inr (if (c0 = 105 \<or> c0 = 73) \<and> (c1 = 110 \<or> c1 = 78) \<and> (c2 = 102 \<or> c2 = 70)
               then Some (if negative then f_neg ops (f_inf ops) else f_inf ops)
               else if (c0 = 110 \<or> c0 = 78) \<and> (c1 = 97 \<or> c1 = 65) \<and> (c2 = 110 \<or> c2 = 78)
               then Some (f_nan ops)
               else None))))
      else Inr None)"

definition whole_acc :: "'f float_ops \<Rightarrow> 'f \<Rightarrow> int \<Rightarrow> 'f result" where
  "whole_acc ops result d = Inr (f_add ops (f_mul ops result (f_of ops 10)) (f_of ops d))"

definition fraction_acc :: "'f float_ops \<Rightarrow> 'f \<times> 'f \<Rightarrow> int \<Rightarrow> ('f \<times> 'f) result" where
  "fraction_acc ops = (\<lambda>(sum, divisor) d.
     Inr (f_add ops sum (f_div ops (f_of ops d) divisor), f_mul ops divisor (f_of ops 10)))"

text \<open>
  The digits behind the point: \<open>StringParseFloat\<close> adds them to the result one by one,
  \<open>StringParseDouble\<close> adds them up first.
\<close>

definition fraction_float :: "'f float_ops \<Rightarrow> StringView \<Rightarrow> nat \<Rightarrow> 'f \<Rightarrow> (nat \<times> 'f) result" where
  "fraction_float ops str i result =
     bindR (digits_loop (fraction_acc ops) str i (result, f_of ops 10) (sv_len str - i)) (\<lambda>(i, result, divisor).
       Inr (i, result))"

definition fraction_double :: "'f float_ops \<Rightarrow> StringView \<Rightarrow> nat \<Rightarrow> 'f \<Rightarrow> (nat \<times> 'f) result" where
  "fraction_double ops str i result =
     bindR (digits_loop (fraction_acc ops) str i (f_of ops 0, f_of ops 10) (sv_len str - i)) (\<lambda>(i, fraction, divisor).
       Inr (i, f_add ops result fraction))"

text \<open>Is there one of these characters at a position?\<close>

definition char_in :: "StringView \<Rightarrow> nat \<Rightarrow> u8 set \<Rightarrow> bool result" where
  "char_in str i cs = (if i < sv_len str then bindR (sv_get str i) (\<lambda>c. Inr (c \<in> cs)) else Inr False)"

definition multiplier :: "'f float_ops \<Rightarrow> int \<Rightarrow> 'f" where
  "multiplier ops exponent =
     (if exponent > 0 then ((\<lambda>m. f_mul ops m (f_of ops 10)) ^^ nat exponent) (f_of ops 1)
      else ((\<lambda>m. f_div ops m (f_of ops 10)) ^^ nat (- exponent)) (f_of ops 1))"

definition parse_exponent :: "'f float_ops \<Rightarrow> StringView \<Rightarrow> nat \<Rightarrow> 'f \<Rightarrow> (nat \<times> 'f) result" where
  "parse_exponent ops str i result =
     bindR (char_in str i {101, 69}) (\<lambda>found.
       if \<not> found then Inr (i, result)
       else bindR (char_in str (i + 1) {45}) (\<lambda>expNegative.
            bindR (char_in str (i + 1) {43}) (\<lambda>plus.
              let i = (if expNegative \<or> plus then i + 2 else i + 1)
              in bindR (digits_loop s32_acc str i 0 (sv_len str - i)) (\<lambda>(i, exponent).
                   Inr (i, f_mul ops result (multiplier ops (if expNegative then - exponent else exponent)))))))"

text \<open>Whole part, fraction and exponent, and the position behind them; then spaces and sign before.\<close>

definition parse_number ::
    "('f float_ops \<Rightarrow> StringView \<Rightarrow> nat \<Rightarrow> 'f \<Rightarrow> (nat \<times> 'f) result) \<Rightarrow> 'f float_ops \<Rightarrow> StringView \<Rightarrow> (nat \<times> 'f) result" where
  "parse_number fraction ops str =
     bindR (digits_loop (whole_acc ops) str 0 (f_of ops 0) (sv_len str)) (\<lambda>(i, result).
     bindR (char_in str i {46}) (\<lambda>point.
     bindR (if point then fraction ops str (i + 1) result else Inr (i, result)) (\<lambda>(i, result).
       parse_exponent ops str i result)))"

definition parse_real ::
    "('f float_ops \<Rightarrow> StringView \<Rightarrow> nat \<Rightarrow> 'f \<Rightarrow> (nat \<times> 'f) result) \<Rightarrow> 'f float_ops \<Rightarrow> StringView \<Rightarrow> ('f \<times> StringView) result" where
  "parse_real fraction ops str =
     (if sv_mem str = None \<or> sv_len str = 0 then Inr (f_of ops 0, str)
      else bindR (EatChars str (STRING_LIT [32]) False) (\<lambda>str.
        if sv_len str = 0 then Inr (f_of ops 0, str)
        else bindR (sv_get str 0) (\<lambda>c0.
          let negative = (c0 = 45);
              str = (if c0 = 45 \<or> c0 = 43 then OffsetView str 1 else str)
          in if sv_len str = 0 then Inr (f_of ops 0, str)
             else bindR (special_value ops negative str) (\<lambda>special. case special of Some f \<Rightarrow> Inr (f, str) | None \<Rightarrow>
               bindR (parse_number fraction ops str) (\<lambda>(i, result).
                 Inr (if negative then f_neg ops result else result, OffsetView str i))))))"

definition StringParseFloat :: "'f float_ops \<Rightarrow> StringView \<Rightarrow> ('f \<times> StringView) result" where
  "StringParseFloat ops str = parse_real fraction_float ops str"

definition StringParseDouble :: "'f float_ops \<Rightarrow> StringView \<Rightarrow> ('f \<times> StringView) result" where
  "StringParseDouble ops str = parse_real fraction_double ops str"

section \<open>What is relied on of the arithmetic\<close>

text \<open>
  \<open>value\<close> is the number a float stands for, if it stands for one; \<open>R\<close> the numbers that are
  representable. Correctly rounded operations are exact on representable results.
\<close>

definition float_laws :: "'f float_ops \<Rightarrow> ('f \<Rightarrow> rat option) \<Rightarrow> rat set \<Rightarrow> bool" where
  "float_laws ops val R \<longleftrightarrow>
     (\<forall>n. of_int n \<in> R \<longrightarrow> val (f_of ops n) = Some (of_int n)) \<and>
     (\<forall>a b x y. val a = Some x \<and> val b = Some y \<longrightarrow>
        (x + y \<in> R \<longrightarrow> val (f_add ops a b) = Some (x + y)) \<and>
        (x * y \<in> R \<longrightarrow> val (f_mul ops a b) = Some (x * y)) \<and>
        (y \<noteq> 0 \<and> x / y \<in> R \<longrightarrow> val (f_div ops a b) = Some (x / y))) \<and>
     (\<forall>a x. val a = Some x \<longrightarrow> val (f_neg ops a) = Some (- x))"

text \<open>The whole numbers up to a bound are representable: \<open>2^24\<close> for floats, \<open>2^53\<close> for doubles.\<close>

definition holds_whole :: "rat set \<Rightarrow> int \<Rightarrow> bool" where
  "holds_whole R M \<longleftrightarrow> 10 \<le> M \<and> (\<forall>n. 0 \<le> n \<and> n \<le> M \<longrightarrow> of_int n \<in> R)"

lemma float_lawsD:
  assumes "float_laws ops val R"
  shows "of_int n \<in> R \<Longrightarrow> val (f_of ops n) = Some (of_int n)"
    and "val a = Some x \<Longrightarrow> val b = Some y \<Longrightarrow> x + y \<in> R \<Longrightarrow> val (f_add ops a b) = Some (x + y)"
    and "val a = Some x \<Longrightarrow> val b = Some y \<Longrightarrow> x * y \<in> R \<Longrightarrow> val (f_mul ops a b) = Some (x * y)"
    and "val a = Some x \<Longrightarrow> val b = Some y \<Longrightarrow> y \<noteq> 0 \<Longrightarrow> x / y \<in> R \<Longrightarrow> val (f_div ops a b) = Some (x / y)"
    and "val a = Some x \<Longrightarrow> val (f_neg ops a) = Some (- x)"
  using assms unfolding float_laws_def by blast+

lemma whole_run:
  assumes "float_laws ops val R" "holds_whole R M" "all_digits ds"
    "val r = Some (of_int x)" "0 \<le> x" "dec_value_from x ds \<le> M"
  shows "\<exists>r'. acc_run (whole_acc ops) r ds = Inr r' \<and> val r' = Some (of_int (dec_value_from x ds))"
  using assms(3-)
proof (induction ds arbitrary: r x)
  case (Cons c ds)
  have c: "0 \<le> digit_of c" "digit_of c \<le> 9" and ds: "all_digits ds"
    using Cons.prems(1) digit_of_range [of c] by (simp_all add: all_digits_def)
  let ?x = "x * 10 + digit_of c"
  have x: "0 \<le> ?x" "?x \<le> M" using dec_value_from_mono [OF ds, of ?x] Cons.prems(3,4) c(1) by simp_all
  have whole: "10 \<le> M" "\<And>n. 0 \<le> n \<Longrightarrow> n \<le> M \<Longrightarrow> rat_of_int n \<in> R"
    using assms(2) by (simp_all add: holds_whole_def)
  have R: "rat_of_int ?x \<in> R" "rat_of_int (x * 10) \<in> R" "rat_of_int (digit_of c) \<in> R" "rat_of_int 10 \<in> R"
    using whole(1) c x Cons.prems(3) by (intro whole(2); linarith)+
  have "val (f_mul ops r (f_of ops 10)) = Some (of_int (x * 10))"
    using float_lawsD(3) [OF assms(1) Cons.prems(2) float_lawsD(1) [OF assms(1) R(4)]] R(2) by simp
  from float_lawsD(2) [OF assms(1) this float_lawsD(1) [OF assms(1) R(3)]] R(1)
  have "val (f_add ops (f_mul ops r (f_of ops 10)) (f_of ops (digit_of c))) = Some (of_int ?x)" by simp
  from Cons.IH [OF ds this x(1)] Cons.prems(4) show ?case by (simp add: whole_acc_def)
qed simp

lemma fraction_run:
  assumes "float_laws ops val UNIV" "val s = Some x" "val q = Some y" "0 < y"
  shows "\<exists>s' q'. acc_run (fraction_acc ops) (s, q) ds = Inr (s', q') \<and>
    val s' = Some (x + of_int (dec_value ds) / (y * 10 ^ length ds) * 10)"
  using assms(2-)
proof (induction ds arbitrary: s q x y)
  case Nil
  then show ?case by (simp add: dec_value_def)
next
  case (Cons c ds)
  note L = float_lawsD [OF assms(1)]
  let ?d = "rat_of_int (digit_of c)"
  have s: "val (f_add ops s (f_div ops (f_of ops (digit_of c)) q)) = Some (x + ?d / y)"
    using L(2) [OF Cons.prems(1) L(4) [OF L(1) Cons.prems(2)]] Cons.prems(3) by simp
  have q: "val (f_mul ops q (f_of ops 10)) = Some (y * 10)" using L(3) [OF Cons.prems(2) L(1), of 10] by simp
  have shift: "dec_value_from v es = v * 10 ^ length es + dec_value es" for v es
  proof (induction es arbitrary: v)
    case (Cons e es)
    show ?case using Cons [of "v * 10 + digit_of e"] Cons [of "digit_of e"]
      by (simp add: dec_value_def algebra_simps)
  qed (simp add: dec_value_def)
  have "rat_of_int (dec_value (c # ds)) = ?d * 10 ^ length ds + of_int (dec_value ds)"
    using shift [of "digit_of c" ds] by (simp add: dec_value_def)
  then have sum: "x + ?d / y + of_int (dec_value ds) / (y * 10 * 10 ^ length ds) * 10 =
      x + of_int (dec_value (c # ds)) / (y * 10 ^ length (c # ds)) * 10"
    using Cons.prems(3) by (simp add: field_simps)
  from Cons.IH [OF s q, unfolded sum] Cons.prems(3) show ?case by (simp add: fraction_acc_def)
qed

section \<open>The exponent\<close>

lemma multiplier_up:
  assumes "float_laws ops val R" "holds_whole R M" "10 ^ n \<le> M"
  shows "val (multiplier ops (int n)) = Some (10 ^ n)"
proof -
  note L = float_lawsD [OF assms(1)]
  have whole: "10 \<le> M" "\<And>n. 0 \<le> n \<Longrightarrow> n \<le> M \<Longrightarrow> rat_of_int n \<in> R"
    using assms(2) by (simp_all add: holds_whole_def)
  have "val (((\<lambda>m. f_mul ops m (f_of ops 10)) ^^ n) (f_of ops 1)) = Some (of_int (10 ^ n))"
    using assms(3)
  proof (induction n)
    case 0
    then show ?case using L(1) [OF whole(2), of 1] whole(1) by simp
  next
    case (Suc n)
    have "(10 :: int) ^ n \<le> 10 ^ Suc n" by simp
    with Suc.prems have "10 ^ n \<le> M" by linarith
    with Suc.IH have IH: "val (((\<lambda>m. f_mul ops m (f_of ops 10)) ^^ n) (f_of ops 1)) = Some (of_int (10 ^ n))" .
    have "rat_of_int (10 ^ Suc n) \<in> R" by (intro whole(2) Suc.prems) simp
    with L(3) [OF IH L(1) [OF whole(2)], of 10] whole(1) show ?case by (simp add: mult.commute)
  qed
  then show ?thesis by (cases "n = 0") (simp_all add: multiplier_def)
qed

lemma multiplier_down:
  assumes "float_laws ops val UNIV"
  shows "val (multiplier ops (- int n)) = Some (1 / 10 ^ n)"
proof -
  note L = float_lawsD [OF assms(1)]
  have "val (((\<lambda>m. f_div ops m (f_of ops 10)) ^^ n) (f_of ops 1)) = Some (1 / 10 ^ n)"
  proof (induction n)
    case (Suc n)
    with L(4) [OF Suc.IH L(1), of 10] show ?case by (simp add: field_simps)
  qed (simp add: L(1) [of 1, simplified])
  then show ?thesis by (simp add: multiplier_def)
qed

text \<open>
  An exponent as it is written, the number scaled by it, and when the arithmetic is exact on it:
  always if all numbers are representable, else if there is nothing behind the point and every
  power of ten on the way is a whole number within the bound.
\<close>

definition exponent_text :: "u8 list \<Rightarrow> u8 list \<Rightarrow> u8 list \<Rightarrow> bool" where
  "exponent_text expo sg es \<longleftrightarrow> (expo = [] \<and> sg = [] \<and> es = []) \<or>
     ((\<exists>e\<in>{101, 69}. expo = e # sg @ es) \<and> es \<noteq> [] \<and> all_digits es \<and> sg \<in> {[], [43], [45]} \<and>
      dec_value es \<le> 2147483647)"

definition scaled :: "rat \<Rightarrow> u8 list \<Rightarrow> u8 list \<Rightarrow> rat" where
  "scaled x sg es = (if sg = [45] then x / 10 ^ nat (dec_value es) else x * 10 ^ nat (dec_value es))"

definition exact_exponent :: "rat set \<Rightarrow> rat \<Rightarrow> u8 list \<Rightarrow> u8 list \<Rightarrow> bool" where
  "exact_exponent R x sg es \<longleftrightarrow> R = UNIV \<or>
     (sg \<noteq> [45] \<and> scaled x sg es \<in> R \<and> (\<exists>M. holds_whole R M \<and> 10 ^ nat (dec_value es) \<le> M))"

lemma holds_whole_UNIV: "10 \<le> M \<Longrightarrow> holds_whole UNIV M"
  by (simp add: holds_whole_def)

lemma scale_exact:
  assumes "float_laws ops val R" "val r = Some x" "exact_exponent R x sg es" "0 \<le> dec_value es"
  shows "val (f_mul ops r (multiplier ops (if sg = [45] then - dec_value es else dec_value es))) = Some (scaled x sg es)"
proof (cases "sg = [45]")
  case True
  with assms(3) have "R = UNIV" by (simp add: exact_exponent_def)
  with float_lawsD(3) [OF assms(1,2) multiplier_down [of ops val "nat (dec_value es)"]] assms(1,4) True
  show ?thesis by (simp add: scaled_def)
next
  case False
  let ?n = "nat (dec_value es)"
  obtain M where M: "holds_whole R M" "10 ^ ?n \<le> M"
  proof (cases "R = UNIV")
    case True
    then show thesis using that [of "max 10 (10 ^ ?n)"] holds_whole_UNIV by simp
  qed (use assms(3) that in \<open>auto simp: exact_exponent_def\<close>)
  have "x * 10 ^ ?n \<in> R" using assms(3) False by (auto simp: exact_exponent_def scaled_def)
  with float_lawsD(3) [OF assms(1,2) multiplier_up [OF assms(1) M]] assms(4) False
  show ?thesis by (simp add: scaled_def)
qed

lemma char_in_spec: "sv_wf v \<Longrightarrow> char_in v i cs = Inr (drop i (sv_str v) \<noteq> [] \<and> hd (drop i (sv_str v)) \<in> cs)"
  by (auto simp: char_in_def sv_get_ok hd_drop_conv_nth length_sv_str)

lemma digit_neq: "IsDigit c \<Longrightarrow> c \<noteq> 43 \<and> c \<noteq> 45 \<and> c \<noteq> 46 \<and> c \<noteq> 101 \<and> c \<noteq> 69 \<and> c \<noteq> 32 \<and> c \<noteq> 105 \<and> c \<noteq> 73 \<and> c \<noteq> 110 \<and> c \<noteq> 78"
  by (auto simp: IsDigit_def)

lemma dec_value_nonneg: "all_digits ds \<Longrightarrow> 0 \<le> dec_value ds"
  using dec_value_from_mono [of ds 0] by (simp add: dec_value_def)

lemma drop_at: "drop i xs = ys @ zs \<Longrightarrow> drop (i + length ys) xs = zs"
  by (metis add.commute append_eq_conv_conj drop_drop)

lemma parse_exponent_exact:
  assumes "float_laws ops val R" "val r = Some x" "exact_exponent R x sg es" "exponent_text expo sg es"
    "sv_wf v" "drop i (sv_str v) = expo @ rest" "ends_number rest" "expo = [] \<Longrightarrow> rest = [] \<or> hd rest \<notin> {101, 69}"
  shows "\<exists>r'. parse_exponent ops v i r = Inr (i + length expo, r') \<and> val r' = Some (scaled x sg es)"
proof (cases "expo = []")
  case True
  with assms(4) have "sg = []" "es = []" by (auto simp: exponent_text_def)
  with True assms show ?thesis by (auto simp: parse_exponent_def char_in_spec scaled_def dec_value_def)
next
  case False
  with assms(4) obtain e where e: "e \<in> {101, 69}" "expo = e # sg @ es" "es \<noteq> []" "all_digits es"
    "sg \<in> {[], [43], [45]}" "dec_value es \<le> 2147483647" unfolding exponent_text_def by blast
  have d0: "drop i (sv_str v) = [e] @ sg @ es @ rest" using assms(6) e(2) by simp
  then have d1: "drop (Suc i) (sv_str v) = sg @ es @ rest" using drop_at [OF d0] by simp
  let ?j = "if sg = [] then Suc i else i + 2"
  have d2: "drop ?j (sv_str v) = es @ rest" using drop_at [OF d1] d1 e(5) by (auto simp: add.commute)
  have signs: "hd (sg @ es @ rest) = 45 \<longleftrightarrow> sg = [45]" "hd (sg @ es @ rest) = 43 \<longleftrightarrow> sg = [43]"
    using e(3-5) digit_neq [of "hd es"] by (auto simp: all_digits_def)
  have pos: "0 \<le> dec_value es" by (rule dec_value_nonneg [OF e(4)])
  have "acc_run s32_acc 0 es = Inr (dec_value_from 0 es)"
    by (rule acc_run_exact [of 2147483647]) (use e(4,6) in \<open>simp_all add: s32_acc_def dec_value_def\<close>)
  moreover have "?j + (sv_len v - ?j) = sv_len v"
    using d2 e(3) length_sv_str [OF assms(5)] by (metis add_diff_inverse_nat append_is_Nil_conv drop_eq_Nil nat_less_le linorder_not_less)
  ultimately have loop: "digits_loop s32_acc v ?j 0 (sv_len v - ?j) = Inr (?j + length es, dec_value es)"
    using digits_loop_run [OF assms(5) d2 e(4) assms(7), of "sv_len v - ?j" s32_acc 0] by (simp add: dec_value_def)
  have "parse_exponent ops v i r = Inr (i + length expo,
      f_mul ops r (multiplier ops (if sg = [45] then - dec_value es else dec_value es)))"
    using loop d0 d1 signs e(1,2,5) by (auto simp: parse_exponent_def char_in_spec [OF assms(5)] Let_def)
  with scale_exact [OF assms(1-3) pos] show ?thesis by simp
qed

section \<open>The number denoted\<close>

definition fraction_text :: "u8 list \<Rightarrow> u8 list \<Rightarrow> bool" where
  "fraction_text fr fs \<longleftrightarrow> (fr = [] \<and> fs = []) \<or> (fr = 46 # fs \<and> all_digits fs)"

definition denoted :: "u8 list \<Rightarrow> u8 list \<Rightarrow> u8 list \<Rightarrow> u8 list \<Rightarrow> rat" where
  "denoted ds fs sg es = scaled (of_int (dec_value ds) + of_int (dec_value fs) / 10 ^ length fs) sg es"

text \<open>What follows the number does not continue it.\<close>

definition real_ends :: "u8 list \<Rightarrow> u8 list \<Rightarrow> u8 list \<Rightarrow> bool" where
  "real_ends fr expo rest \<longleftrightarrow> ends_number rest \<and> (rest \<noteq> [] \<and> expo = [] \<longrightarrow> hd rest \<notin> {101, 69}) \<and>
     (rest \<noteq> [] \<and> expo = [] \<and> fr = [] \<longrightarrow> hd rest \<noteq> 46)"

text \<open>
  When the arithmetic is exact on the number: always if it has all numbers; else for whole numbers
  within a bound up to which whole numbers are representable.
\<close>

definition exact_number :: "rat set \<Rightarrow> u8 list \<Rightarrow> u8 list \<Rightarrow> u8 list \<Rightarrow> u8 list \<Rightarrow> bool" where
  "exact_number R ds fs sg es \<longleftrightarrow> R = UNIV \<or> (fs = [] \<and> sg \<noteq> [45] \<and>
     (\<exists>M. holds_whole R M \<and> 10 ^ nat (dec_value es) \<le> M \<and> dec_value ds * 10 ^ nat (dec_value es) \<le> M))"

lemma dec_value_Nil [simp]: "dec_value [] = 0"
  by (simp add: dec_value_def)

lemma fraction_exact:
  assumes "float_laws ops val R" "sv_wf v" "drop i (sv_str v) = fs @ rest" "all_digits fs" "ends_number rest"
    "i \<le> sv_len v" "val r = Some x" "R = UNIV \<or> (fs = [] \<and> x \<in> R \<and> 0 \<in> R)"
    and fr: "fraction = fraction_float \<or> fraction = fraction_double"
  shows "\<exists>r'. fraction ops v i r = Inr (i + length fs, r') \<and> val r' = Some (x + of_int (dec_value fs) / 10 ^ length fs)"
proof -
  note L = float_lawsD [OF assms(1)]
  have loop: "digits_loop (fraction_acc ops) v i s (sv_len v - i) =
      bindR (acc_run (fraction_acc ops) s fs) (\<lambda>y. Inr (i + length fs, y))" for s
    using digits_loop_run [OF assms(2-5), of "sv_len v - i"] assms(6) by simp
  show ?thesis
  proof (cases "fs = []")
    case True
    have "val (f_of ops 0) = Some 0" "x + 0 \<in> R" using L(1) [of 0] assms(8) by auto
    with L(2) [OF assms(7)] have "val (f_add ops r (f_of ops 0)) = Some x" by fastforce
    with loop True assms(7) fr show ?thesis by (auto simp: fraction_float_def fraction_double_def)
  next
    case False
    with assms(1,8) have U: "float_laws ops val UNIV" by simp
    note L = float_lawsD [OF U]
    have zero: "val (f_of ops 0) = Some 0" and ten: "val (f_of ops 10) = Some 10" using L(1) [of 0] L(1) [of 10] by simp_all
    obtain s1 q1 where 1: "acc_run (fraction_acc ops) (r, f_of ops 10) fs = Inr (s1, q1)"
        "val s1 = Some (x + of_int (dec_value fs) / 10 ^ length fs)"
      using fraction_run [OF U assms(7) ten, of fs] by auto
    obtain s2 q2 where 2: "acc_run (fraction_acc ops) (f_of ops 0, f_of ops 10) fs = Inr (s2, q2)"
        "val s2 = Some (of_int (dec_value fs) / 10 ^ length fs)"
      using fraction_run [OF U zero ten, of fs] by auto
    from L(2) [OF assms(7) 2(2)] 1 2(1) loop fr show ?thesis
      by (auto simp: fraction_float_def fraction_double_def)
  qed
qed

lemma exact_number_parts:
  assumes "exact_number R ds fs sg es" "all_digits ds"
  obtains M where "holds_whole R M" "dec_value ds \<le> M" "R = UNIV \<or> (fs = [] \<and> rat_of_int (dec_value ds) \<in> R \<and> 0 \<in> R)"
    "exact_exponent R (of_int (dec_value ds) + of_int (dec_value fs) / 10 ^ length fs) sg es"
proof (cases "R = UNIV")
  case True
  with that [of "max 10 (dec_value ds)"] holds_whole_UNIV [of "max 10 (dec_value ds)"] show thesis
    by (simp add: exact_exponent_def)
next
  case False
  let ?E = "nat (dec_value es)"
  from assms(1) False obtain M where M: "fs = []" "sg \<noteq> [45]" "holds_whole R M" "10 ^ ?E \<le> M" "dec_value ds * 10 ^ ?E \<le> M"
    by (auto simp: exact_number_def)
  have pos: "0 \<le> dec_value ds" by (rule dec_value_nonneg [OF assms(2)])
  then have "dec_value ds * 1 \<le> dec_value ds * 10 ^ ?E" by (intro mult_left_mono) simp_all
  then have le: "dec_value ds \<le> M" using M(5) by simp
  have whole: "\<And>n. 0 \<le> n \<Longrightarrow> n \<le> M \<Longrightarrow> rat_of_int n \<in> R" "10 \<le> M" using M(3) by (simp_all add: holds_whole_def)
  have "rat_of_int (dec_value ds * 10 ^ ?E) \<in> R" "rat_of_int (dec_value ds) \<in> R" "rat_of_int 0 \<in> R"
    using pos M(5) le whole(2) by (auto intro!: whole(1) simp del: of_int_mult of_int_power of_int_0)
  with that [OF M(3) le] M show thesis by (auto simp: exact_exponent_def scaled_def)
qed

lemma special_value_digit:
  assumes "sv_wf v" "sv_str v = c # cs" "IsDigit c"
  shows "special_value ops negative v = Inr None"
proof -
  have "sv_get v 0 = Inr c" if "3 \<le> sv_len v" using that assms(1,2) by (simp add: sv_get_ok)
  moreover have "\<exists>y z. sv_get v 1 = Inr y \<and> sv_get v 2 = Inr z" if "3 \<le> sv_len v"
    using that assms(1) by (simp add: sv_get_ok)
  ultimately show ?thesis using digit_neq [OF assms(3)] by (auto simp: special_value_def)
qed

lemma text_ends:
  assumes "fraction_text fr fs" "exponent_text expo sg es" "real_ends fr expo rest"
  shows "ends_number (fr @ expo @ rest)" "ends_number (expo @ rest)" "ends_number rest"
proof -
  have no: "\<not> IsDigit 46" "\<not> IsDigit 101" "\<not> IsDigit 69" by (simp_all add: IsDigit_def)
  show e3: "ends_number rest" using assms(3) by (simp add: real_ends_def)
  then show e2: "ends_number (expo @ rest)" using assms(2) no by (auto simp: exponent_text_def ends_number_def)
  then show "ends_number (fr @ expo @ rest)" using assms(1) no by (auto simp: fraction_text_def ends_number_def)
qed

lemma point_found:
  assumes "fraction_text fr fs" "exponent_text expo sg es" "real_ends fr expo rest"
  shows "(fr @ expo @ rest \<noteq> [] \<and> hd (fr @ expo @ rest) = 46) = (fr \<noteq> [])"
proof (cases "fr = []")
  case True
  then show ?thesis using assms(2,3) by (cases "expo = []") (auto simp: exponent_text_def real_ends_def)
qed (use assms(1) in \<open>simp add: fraction_text_def\<close>)

text \<open>The number behind the sign.\<close>

lemma parse_number_exact:
  assumes "float_laws ops val R" "exact_number R ds fs sg es" "all_digits ds" "fraction_text fr fs"
    "exponent_text expo sg es" "real_ends fr expo rest"
    "sv_wf v" "sv_str v = ds @ fr @ expo @ rest"
    and frac: "fraction = fraction_float \<or> fraction = fraction_double"
  shows "\<exists>r. parse_number fraction ops v = Inr (length (ds @ fr @ expo), r) \<and> val r = Some (denoted ds fs sg es)"
proof -
  obtain M where M: "holds_whole R M" "dec_value ds \<le> M" "R = UNIV \<or> (fs = [] \<and> rat_of_int (dec_value ds) \<in> R \<and> 0 \<in> R)"
    "exact_exponent R (of_int (dec_value ds) + of_int (dec_value fs) / 10 ^ length fs) sg es"
    by (rule exact_number_parts [OF assms(2,3)])
  have "rat_of_int 0 \<in> R" using M(1) by (simp add: holds_whole_def del: of_int_0)
  then have zero: "val (f_of ops 0) = Some (of_int 0)" by (rule float_lawsD(1) [OF assms(1)])
  obtain r0 where
    r0: "acc_run (whole_acc ops) (f_of ops 0) ds = Inr r0" "val r0 = Some (of_int (dec_value ds))"
    using whole_run [OF assms(1) M(1) assms(3) zero order_refl, folded dec_value_def, OF M(2)] by blast
  have ends: "ends_number (fr @ expo @ rest)" "ends_number (expo @ rest)" "ends_number rest"
    by (rule text_ends [OF assms(4-6)])+
  have "digits_loop (whole_acc ops) v 0 (f_of ops 0) (sv_len v) = Inr (length ds, r0)"
    using digits_loop_run [OF assms(7) _ assms(3) ends(1), where i = 0 and left = "sv_len v" and acc = "whole_acc ops" and x = "f_of ops 0"] assms(8) r0(1) by simp
  moreover have d1: "drop (length ds) (sv_str v) = fr @ expo @ rest" using assms(8) by simp
  then have "char_in v (length ds) {46} = Inr (fr \<noteq> [])"
    using point_found [OF assms(4-6)] by (simp add: char_in_spec [OF assms(7)])
  moreover obtain r1 where r1: "(if fr \<noteq> [] then fraction ops v (length ds + 1) r0 else Inr (length ds, r0)) =
      Inr (length (ds @ fr), r1)" "val r1 = Some (of_int (dec_value ds) + of_int (dec_value fs) / 10 ^ length fs)"
  proof (cases "fr = []")
    case True
    with that [of r0] r0(2) assms(4) show thesis by (simp add: fraction_text_def)
  next
    case False
    with assms(4) have fr: "fr = 46 # fs" "all_digits fs" by (simp_all add: fraction_text_def)
    have d: "drop (length ds + 1) (sv_str v) = fs @ expo @ rest" "length ds + 1 \<le> sv_len v"
      using assms(8) fr(1) length_sv_str [OF assms(7)] by simp_all
    from fraction_exact [OF assms(1,7) d(1) fr(2) ends(2) d(2) r0(2) M(3) frac] that fr(1) False show thesis by auto
  qed
  moreover have "drop (length (ds @ fr)) (sv_str v) = expo @ rest" using assms(8) by simp
  from parse_exponent_exact [OF assms(1) r1(2) M(4) assms(5,7) this ends(3)] assms(6)
  obtain r where "parse_exponent ops v (length (ds @ fr)) r1 = Inr (length (ds @ fr) + length expo, r)"
      "val r = Some (denoted ds fs sg es)" by (auto simp: real_ends_def denoted_def)
  ultimately show ?thesis by (auto simp: parse_number_def)
qed

text \<open>
  Both parsers return the number their text denotes, whenever the arithmetic is exact on it, and
  leave the view at the first character behind it.
\<close>

theorem StringParseFloat_exact:
  assumes "float_laws ops val R" "exact_number R ds fs sg es"
    "sv_wf str" "sv_len str < 4294967296" "sv_str str = replicate k 32 @ sign @ ds @ fr @ expo @ rest"
    "sign \<in> {[], [43], [45]}" "ds \<noteq> []" "all_digits ds" "fraction_text fr fs" "exponent_text expo sg es"
    "real_ends fr expo rest" "parse \<in> {StringParseFloat, StringParseDouble}"
  shows "\<exists>f v. parse ops str = Inr (f, v) \<and> sv_str v = rest \<and>
    val f = Some (if sign = [45] then - denoted ds fs sg es else denoted ds fs sg es)"
proof -
  obtain fraction where p: "parse ops str = parse_real fraction ops str" "fraction = fraction_float \<or> fraction = fraction_double"
    using assms(12) StringParseFloat_def StringParseDouble_def by blast
  obtain c cs where ds: "ds = c # cs" "IsDigit c" using assms(7,8) by (cases ds) (auto simp: all_digits_def)
  note c = digit_neq [OF ds(2)]
  let ?text = "ds @ fr @ expo @ rest"
  have "sign @ ?text = [] \<or> hd (sign @ ?text) \<noteq> 32" using assms(6) ds c by auto
  from EatChars_spaces [OF assms(3-5) this] obtain v where
    v: "EatChars str (STRING_LIT [32]) False = Inr v" "sv_wf v" "sv_str v = sign @ ?text" "sv_mem v = sv_mem str" by blast
  have str: "sv_mem str \<noteq> None" "sv_len str \<noteq> 0" using sv_nonempty [OF assms(3)] assms(5,7) by simp_all
  let ?w = "if sign = [] then v else OffsetView v 1"
  have w: "sv_wf ?w" "sv_str ?w = ?text" using v assms(6) by (auto simp: sv_wf_OffsetView sv_str_OffsetView)
  have len: "sv_len v \<noteq> 0" "sv_len ?w \<noteq> 0" using length_sv_str [OF v(2)] length_sv_str [OF w(1)] v(3) w(2) ds by auto
  have g: "sv_get v 0 = Inr (hd (sign @ ?text))" using v len by (auto simp: sv_get_ok hd_conv_nth ds)
  have sp: "special_value ops negative ?w = Inr None" for negative
    by (rule special_value_digit [OF w(1) _ ds(2)]) (use w(2) ds in simp)
  obtain r where r: "parse_number fraction ops ?w = Inr (length (ds @ fr @ expo), r)" "val r = Some (denoted ds fs sg es)"
    using parse_number_exact [OF assms(1,2,8-11) w p(2)] by blast
  have "parse ops str = Inr (if sign = [45] then f_neg ops r else r, OffsetView ?w (length (ds @ fr @ expo)))"
    using p(1) str v(1) g sp r(1) len assms(6) c by (auto simp: parse_real_def ds(1))
  moreover have "sv_str (OffsetView ?w (length (ds @ fr @ expo))) = rest" using w by (simp add: sv_str_OffsetView)
  ultimately show ?thesis using r(2) float_lawsD(5) [OF assms(1) r(2)] by (intro exI conjI) (assumption | simp)+
qed

text \<open>
  Whole numbers of at most 24 bits in an arithmetic that has no others: correctly rounded results are
  exact there, and anything that does not fit is no number.
\<close>

definition whole24 :: "rat option \<Rightarrow> rat option" where
  "whole24 r = (case r of None \<Rightarrow> None
     | Some x \<Rightarrow> if x = of_int \<lfloor>x\<rfloor> \<and> \<bar>x\<bar> \<le> 16777216 then Some x else None)"

definition ops24 :: "rat option float_ops" where
  "ops24 = \<lparr>f_of = (\<lambda>n. whole24 (Some (of_int n))),
     f_add = (\<lambda>a b. whole24 (case (a, b) of (Some x, Some y) \<Rightarrow> Some (x + y) | _ \<Rightarrow> None)),
     f_mul = (\<lambda>a b. whole24 (case (a, b) of (Some x, Some y) \<Rightarrow> Some (x * y) | _ \<Rightarrow> None)),
     f_div = (\<lambda>a b. whole24 (case (a, b) of (Some x, Some y) \<Rightarrow> Some (x / y) | _ \<Rightarrow> None)),
     f_neg = map_option uminus, f_inf = None, f_nan = None\<rparr>"

lemma ops24_laws: "float_laws ops24 (\<lambda>f. f) {x. x = of_int \<lfloor>x\<rfloor> \<and> \<bar>x\<bar> \<le> 16777216}"
  by (simp add: float_laws_def ops24_def whole24_def)

lemma StringParseFloat_exact_witness:
  "\<exists>f v. StringParseFloat ops24 (sv_of [32, 45, 49, 50, 101, 51, 59]) = Inr (f, v) \<and> sv_str v = [59] \<and> f = Some (- 12000)"
proof -
  let ?R = "{x :: rat. x = of_int \<lfloor>x\<rfloor> \<and> \<bar>x\<bar> \<le> 16777216}"
  have "holds_whole ?R 16777216" by (auto simp: holds_whole_def simp flip: of_int_abs)
  then have "exact_number ?R [49, 50] [] [] [51]"
    by (auto simp: exact_number_def dec_value_def digit_of_def intro!: exI [of _ 16777216])
  moreover have "denoted [49, 50] [] [] [51] = 12000"
    by (simp add: denoted_def scaled_def dec_value_def digit_of_def)
  ultimately show ?thesis
    using StringParseFloat_exact [OF ops24_laws, of "[49, 50]" "[]" "[]" "[51]" "sv_of [32, 45, 49, 50, 101, 51, 59]" 1 "[45]"
      "[]" "[101, 51]" "[59]" StringParseFloat]
    by (simp add: all_digits_def IsDigit_def fraction_text_def exponent_text_def real_ends_def ends_number_def dec_value_def digit_of_def)
qed

text \<open>A special value is returned, but the view is left in front of it.\<close>

lemma StringParseFloat_inf_stays:
  assumes "sv_wf str" "sv_len str < 4294967296" "sv_str str = replicate k 32 @ [105, 110, 102] @ rest"
  shows "\<exists>v. StringParseFloat ops str = Inr (f_inf ops, v) \<and> sv_str v = [105, 110, 102] @ rest"
proof -
  obtain v where v: "EatChars str (STRING_LIT [32]) False = Inr v" "sv_wf v" "sv_str v = [105, 110, 102] @ rest"
    using EatChars_spaces [OF assms] by auto
  have len: "sv_len v = 3 + length rest" using length_sv_str [OF v(2)] v(3) by simp
  then have "sv_get v 0 = Inr 105" "sv_get v 1 = Inr 110" "sv_get v 2 = Inr 102" using v(2,3) by (simp_all add: sv_get_ok)
  with v len sv_nonempty [OF assms(1)] assms(3) show ?thesis
    by (auto simp: StringParseFloat_def parse_real_def special_value_def)
qed

text \<open>The exponent is collected in a signed integer before it is looked at.\<close>

lemma acc_run_overflow:
  assumes "all_digits ds" "0 \<le> x" "x \<le> 2147483647" "2147483647 < dec_value_from x ds"
  shows "acc_run s32_acc x ds = Inl SignedOverflow"
  using assms
proof (induction ds arbitrary: x)
  case (Cons c ds)
  have c: "0 \<le> digit_of c" using Cons.prems(1) digit_of_range [of c] by (simp add: all_digits_def)
  with Cons show ?case by (simp add: s32_acc_def require_def all_digits_def)
qed simp

lemma parse_exponent_overflows:
  assumes "sv_wf v" "drop i (sv_str v) = 101 # dec_digits n @ rest" "ends_number rest" "2147483647 < n"
  shows "parse_exponent ops v i r = Inl SignedOverflow"
proof -
  have ds: "all_digits (dec_digits n)" "dec_value (dec_digits n) = int n" "dec_digits n \<noteq> []" using dec_digits_spec [of n] by simp_all
  then have c: "IsDigit (hd (dec_digits n))" by (simp add: all_digits_def)
  have d: "drop (Suc i) (sv_str v) = dec_digits n @ rest" using drop_at [of i "sv_str v" "[101]"] assms(2) by simp
  then have "Suc i < sv_len v" using ds(3) length_sv_str [OF assms(1)] by (metis append_is_Nil_conv drop_eq_Nil linorder_not_less)
  then have "digits_loop s32_acc v (Suc i) 0 (sv_len v - Suc i) = Inl SignedOverflow"
    using digits_loop_run [OF assms(1) d ds(1) assms(3), of "sv_len v - Suc i" s32_acc 0]
      acc_run_overflow [OF ds(1), of 0] ds(2) assms(4) by (simp add: dec_value_def)
  with assms(2) d ds(3) digit_neq [OF c] show ?thesis
    by (simp add: parse_exponent_def char_in_spec [OF assms(1)])
qed

end
