(* ===== verification/Sequences.thy ===== *)
theory Sequences
  imports Prelude
begin

text \<open>
  The interface of a growable sequence: what the stacks, the event lists and the users of
  the dynamic array rely on, whatever the storage behind it. \<open>items\<close> reads the stored
  elements, \<open>fits\<close> the elements a provider can store, \<open>limit\<close> the size up to which it grows.
\<close>

section \<open>Runs of operations\<close>

fun push_run :: "('s \<Rightarrow> 'e \<Rightarrow> 's result) \<Rightarrow> 's \<Rightarrow> 'e list \<Rightarrow> 's result" where
  "push_run push s [] = Inr s"
| "push_run push s (x # xs) = bindR (push s x) (\<lambda>s'. push_run push s' xs)"

fun pop_run :: "('s \<Rightarrow> ('e \<times> 's) result) \<Rightarrow> 's \<Rightarrow> nat \<Rightarrow> ('e list \<times> 's) result" where
  "pop_run pop s 0 = Inr ([], s)"
| "pop_run pop s (Suc n) =
     bindR (pop s) (\<lambda>(x, s'). bindR (pop_run pop s' n) (\<lambda>(xs, s''). Inr (x # xs, s'')))"

lemma push_run_append:
  "push_run push s (xs @ ys) = bindR (push_run push s xs) (\<lambda>s'. push_run push s' ys)"
  by (induction xs arbitrary: s) (simp_all add: bindR_assoc)

section \<open>The interface\<close>

locale growable_sequence =
  fixes inv :: "'s \<Rightarrow> bool"
    and items :: "'s \<Rightarrow> 'e list"
    and fits :: "'e \<Rightarrow> bool"
    and limit :: nat
    and push :: "'s \<Rightarrow> 'e \<Rightarrow> 's result"
    and pop :: "'s \<Rightarrow> ('e \<times> 's) result"
    and at :: "'s \<Rightarrow> nat \<Rightarrow> 'e result"
  assumes push_law: "inv s \<Longrightarrow> fits x \<Longrightarrow> length (items s) < limit \<Longrightarrow>
      \<exists>s'. push s x = Inr s' \<and> inv s' \<and> items s' = items s @ [x]"
    and pop_law: "inv s \<Longrightarrow> items s \<noteq> [] \<Longrightarrow>
      \<exists>s'. pop s = Inr (last (items s), s') \<and> inv s' \<and> items s' = butlast (items s)"
    and at_law: "inv s \<Longrightarrow> i < length (items s) \<Longrightarrow> at s i = Inr (items s ! i)"
begin

lemma push_run_items:
  assumes "inv s" "\<forall>x\<in>set xs. fits x" "length (items s) + length xs \<le> limit"
  shows "\<exists>s'. push_run push s xs = Inr s' \<and> inv s' \<and> items s' = items s @ xs"
  using assms
proof (induction xs arbitrary: s)
  case (Cons x xs)
  from push_law [of s x] Cons.prems obtain s1 where
    s1: "push s x = Inr s1" "inv s1" "items s1 = items s @ [x]" by auto
  with Cons.IH [of s1] Cons.prems obtain s' where
    "push_run push s1 xs = Inr s'" "inv s'" "items s' = items s1 @ xs" by auto
  with s1 show ?case by simp
qed simp

lemma pop_run_items:
  assumes "inv s" "n \<le> length (items s)"
  shows "\<exists>s'. pop_run pop s n = Inr (rev (drop (length (items s) - n) (items s)), s') \<and> inv s' \<and>
    items s' = take (length (items s) - n) (items s)"
  using assms
proof (induction n arbitrary: s)
  case (Suc n)
  let ?k = "length (items s) - Suc n"
  have ne: "items s \<noteq> []" using Suc.prems(2) by auto
  from pop_law [OF Suc.prems(1) ne] obtain s1 where
    s1: "pop s = Inr (last (items s), s1)" "inv s1" "items s1 = butlast (items s)" by blast
  have "n \<le> length (items s1)" and k: "length (items s1) - n = ?k"
    using Suc.prems(2) s1(3) by simp_all
  from Suc.IH [OF s1(2) this(1)] obtain s' where
    s': "pop_run pop s1 n = Inr (rev (drop ?k (butlast (items s))), s')" "inv s'"
        "items s' = take ?k (butlast (items s))" unfolding k unfolding s1(3) by blast
  have b: "butlast (items s) @ [last (items s)] = items s" using ne by simp
  have "drop ?k (items s) = drop ?k (butlast (items s)) @ [last (items s)]"
    by (subst b [symmetric]) (use Suc.prems(2) in simp)
  moreover have "take ?k (butlast (items s)) = take ?k (items s)"
    by (simp add: butlast_conv_take min_def)
  ultimately show ?case using s1 s' by simp
qed simp

lemma lifo:
  assumes "inv s" "\<forall>x\<in>set xs. fits x" "length (items s) + length xs \<le> limit"
  shows "\<exists>s1 s2. push_run push s xs = Inr s1 \<and> pop_run pop s1 (length xs) = Inr (rev xs, s2) \<and>
    inv s2 \<and> items s2 = items s"
proof -
  from push_run_items [OF assms] obtain s1 where
    s1: "push_run push s xs = Inr s1" "inv s1" "items s1 = items s @ xs" by blast
  with pop_run_items [of s1 "length xs"] show ?thesis by auto
qed

end

end
