(* ===== verification/HybridArrays.thy ===== *)
theory HybridArrays
  imports Sequences
begin

text \<open>
  \<open>HybridArray\<close> (\<open>core/containers/me_hybrid_array.h\<close>, \<open>.inl\<close>), the stack over it
  (\<open>me_stack.h\<close>), the fixed array (\<open>me_array.h\<close>) and the events (\<open>core/me_event.cpp\<close>). The
  elements live in the buffer inside the object until it is full, then in an allocation;
  \<open>heap\<close> is that allocation, \<open>None\<close> while \<open>elements\<close> points into the object. \<open>dflt\<close> is the
  value-initialised element, also what a fresh allocation is filled with here.
\<close>

section \<open>HybridArray\<close>

record 'a hybrid =
  fixedMem :: "'a list"
  heap :: "'a list option"
  internalSize :: nat
  capacity :: nat
  allocator :: "nat option"

definition FIXEDGROWABLE_GROWTH_FACTOR :: nat where
  "FIXEDGROWABLE_GROWTH_FACTOR = 2"

definition IsUsingInPlaceMemory :: "'a hybrid \<Rightarrow> bool" where
  "IsUsingInPlaceMemory a \<longleftrightarrow> heap a = None"

definition HybridArray :: "'a \<Rightarrow> nat \<Rightarrow> nat option \<Rightarrow> 'a hybrid" where
  "HybridArray dflt fixedSize inAllocator =
     \<lparr>fixedMem = replicate fixedSize dflt, heap = None, internalSize = 0, capacity = fixedSize,
      allocator = Some (case inAllocator of Some x \<Rightarrow> x | None \<Rightarrow> 0)\<rparr>"

text \<open>The buffer \<open>elements\<close> points to, and storing it back.\<close>

definition elements :: "'a hybrid \<Rightarrow> 'a list" where
  "elements a = (case heap a of None \<Rightarrow> fixedMem a | Some h \<Rightarrow> h)"

definition set_elements :: "'a hybrid \<Rightarrow> 'a list \<Rightarrow> 'a hybrid" where
  "set_elements a xs = (if heap a = None then a\<lparr>fixedMem := xs\<rparr> else a\<lparr>heap := Some xs\<rparr>)"

text \<open>
  Copying (construction and assignment): elements in place are copied into the copy's own
  buffer, elements on the heap into a new allocation of the source's capacity. The freed
  allocation of an overwritten array is \<open>Some\<close> of what it held.
\<close>

definition hybrid_copy :: "'a \<Rightarrow> nat \<Rightarrow> 'a hybrid \<Rightarrow> 'a hybrid result" where
  "hybrid_copy dflt fixedSize arr =
     (if IsUsingInPlaceMemory arr then
        bindR (blit 0 (take (internalSize arr) (fixedMem arr)) (replicate fixedSize dflt))
          (\<lambda>m. Inr \<lparr>fixedMem = m, heap = None, internalSize = internalSize arr,
                   capacity = capacity arr, allocator = allocator arr\<rparr>)
      else
        bindR (blit 0 (take (internalSize arr) (elements arr)) (replicate (capacity arr) dflt))
          (\<lambda>m. Inr \<lparr>fixedMem = replicate fixedSize dflt, heap = Some m,
                   internalSize = internalSize arr, capacity = capacity arr,
                   allocator = allocator arr\<rparr>))"

definition hybrid_assign :: "'a \<Rightarrow> 'a hybrid \<Rightarrow> 'a hybrid \<Rightarrow> ('a hybrid \<times> 'a list option) result" where
  "hybrid_assign dflt this arr =
     (let freed = (if IsUsingInPlaceMemory this then None else heap this)
      in if IsUsingInPlaceMemory arr then
           bindR (blit 0 (take (internalSize arr) (fixedMem arr)) (fixedMem this))
             (\<lambda>m. Inr (\<lparr>fixedMem = m, heap = None, internalSize = internalSize arr,
                      capacity = capacity arr, allocator = allocator arr\<rparr>, freed))
         else
           bindR (blit 0 (take (internalSize arr) (elements arr)) (replicate (capacity arr) dflt))
             (\<lambda>m. Inr (\<lparr>fixedMem = fixedMem this, heap = Some m,
                      internalSize = internalSize arr, capacity = capacity arr,
                      allocator = allocator arr\<rparr>, freed)))"

definition hybrid_destroy :: "'a hybrid \<Rightarrow> 'a list option" where
  "hybrid_destroy a = (if IsUsingInPlaceMemory a then None else heap a)"

definition CheckArrayResize :: "'a \<Rightarrow> 'a hybrid \<Rightarrow> (bool \<times> 'a hybrid) result" where
  "CheckArrayResize dflt a =
     ME_ASSERT (internalSize a \<le> capacity a)
       (if internalSize a \<ge> capacity a then
          (case allocator a of
             None \<Rightarrow> Inr (False, a)
           | Some _ \<Rightarrow>
               (let newcap = wrap32 (internalSize a * FIXEDGROWABLE_GROWTH_FACTOR);
                    prevElements = elements a
                in require OutOfBounds (internalSize a \<le> length prevElements)
                     (bindR (blit 0 (take (internalSize a) prevElements) (replicate newcap dflt))
                       (\<lambda>m. Inr (True, a\<lparr>capacity := newcap, heap := Some m\<rparr>)))))
        else Inr (True, a))"

definition hybrid_at :: "'a hybrid \<Rightarrow> nat \<Rightarrow> 'a result" where
  "hybrid_at a index = ME_ASSERT (index < internalSize a) (readAt index (elements a))"

definition hybrid_at_put :: "'a hybrid \<Rightarrow> nat \<Rightarrow> 'a \<Rightarrow> 'a hybrid result" where
  "hybrid_at_put a index x =
     ME_ASSERT (index < internalSize a)
       (bindR (writeAt index x (elements a)) (\<lambda>m. Inr (set_elements a m)))"

definition hybrid_size :: "'a hybrid \<Rightarrow> nat" where
  "hybrid_size a = internalSize a"

definition hybrid_clear :: "'a hybrid \<Rightarrow> 'a hybrid" where
  "hybrid_clear a = a\<lparr>internalSize := 0\<rparr>"

definition push_back :: "'a \<Rightarrow> 'a hybrid \<Rightarrow> 'a \<Rightarrow> 'a hybrid result" where
  "push_back dflt a element =
     bindR (CheckArrayResize dflt a) (\<lambda>(ok, a).
       if \<not> ok then Inr a
       else (let idx = internalSize a
             in hybrid_at_put (a\<lparr>internalSize := wrap32 (internalSize a + 1)\<rparr>) idx element))"

text \<open>A block move inside the current buffer.\<close>

definition hybrid_move :: "'a hybrid \<Rightarrow> nat \<Rightarrow> nat \<Rightarrow> nat \<Rightarrow> 'a hybrid result" where
  "hybrid_move a to from n =
     ME_ASSERT (to < internalSize a) (ME_ASSERT (from < internalSize a)
       (bindR (move_within to from n (elements a)) (\<lambda>m. Inr (set_elements a m))))"

definition hybrid_insert :: "'a \<Rightarrow> 'a hybrid \<Rightarrow> 'a \<Rightarrow> nat \<Rightarrow> 'a hybrid result" where
  "hybrid_insert dflt a element index =
     bindR (CheckArrayResize dflt a) (\<lambda>(ok, a).
       if \<not> ok then Inr a
       else if index \<ge> internalSize a then Inr a
       else (let prevSize = internalSize a;
                 a = a\<lparr>internalSize := wrap32 (prevSize + 1)\<rparr>
             in if index = prevSize then hybrid_at_put a prevSize element
                else bindR (hybrid_move a (index + 1) index (prevSize - index))
                       (\<lambda>a. hybrid_at_put a index element)))"

definition erase_and_fill :: "'a \<Rightarrow> 'a hybrid \<Rightarrow> nat \<Rightarrow> ('a \<times> 'a hybrid) result" where
  "erase_and_fill dflt a index =
     (if index \<ge> internalSize a then Inr (dflt, a)
      else bindR (hybrid_at a index) (\<lambda>tmp.
        bindR (hybrid_at a (internalSize a - 1)) (\<lambda>lst.
          bindR (hybrid_at_put a index lst) (\<lambda>a.
            Inr (tmp, a\<lparr>internalSize := internalSize a - 1\<rparr>)))))"

definition hybrid_erase :: "'a \<Rightarrow> 'a hybrid \<Rightarrow> nat \<Rightarrow> ('a \<times> 'a hybrid) result" where
  "hybrid_erase dflt a index =
     (if index \<ge> internalSize a then Inr (dflt, a)
      else bindR (hybrid_at a index) (\<lambda>tmp.
        bindR (hybrid_move a index (index + 1) (internalSize a - index)) (\<lambda>a.
          Inr (tmp, a\<lparr>internalSize := internalSize a - 1\<rparr>))))"

definition hybrid_pop :: "'a hybrid \<Rightarrow> ('a \<times> 'a hybrid) result" where
  "hybrid_pop a =
     ME_ASSERT (internalSize a > 0)
       (bindR (hybrid_at a (internalSize a - 1)) (\<lambda>value.
         Inr (value, a\<lparr>internalSize := internalSize a - 1\<rparr>)))"

section \<open>Stack and fixed array\<close>

definition STACK_FIXED_SIZE :: nat where
  "STACK_FIXED_SIZE = 50"

definition stack_push :: "'a \<Rightarrow> 'a hybrid \<Rightarrow> 'a \<Rightarrow> 'a hybrid result" where
  "stack_push dflt s value = push_back dflt s value"

definition stack_empty :: "'a hybrid \<Rightarrow> bool" where
  "stack_empty s \<longleftrightarrow> hybrid_size s = 0"

definition stack_pop :: "'a hybrid \<Rightarrow> ('a \<times> 'a hybrid) result" where
  "stack_pop s = ME_ASSERT (\<not> stack_empty s) (hybrid_pop s)"

definition stack_top :: "'a hybrid \<Rightarrow> 'a result" where
  "stack_top s = ME_ASSERT (\<not> stack_empty s) (hybrid_at s (hybrid_size s - 1))"

definition stack_size :: "'a hybrid \<Rightarrow> nat" where
  "stack_size s = hybrid_size s"

definition meArray_get :: "nat \<Rightarrow> 'a list \<Rightarrow> nat \<Rightarrow> 'a result" where
  "meArray_get N data idx = ME_ASSERT (idx < N) (readAt idx data)"

definition meArray_put :: "nat \<Rightarrow> 'a list \<Rightarrow> nat \<Rightarrow> 'a \<Rightarrow> 'a list result" where
  "meArray_put N data idx x = ME_ASSERT (idx < N) (writeAt idx x data)"

section \<open>Events\<close>

text \<open>
  A callback is its number (the null function pointer is 0). Calling the event calls the
  subscribers in order; the model returns the calls made.
\<close>

type_synonym meEvent = "nat hybrid"

definition meEvent_new :: meEvent where
  "meEvent_new = HybridArray 0 20 None"

fun event_calls :: "meEvent \<Rightarrow> nat \<Rightarrow> nat \<Rightarrow> nat list result" where
  "event_calls event i 0 = Inr []"
| "event_calls event i (Suc left) =
     bindR (hybrid_at event i) (\<lambda>cb. bindR (event_calls event (Suc i) left) (\<lambda>cbs. Inr (cb # cbs)))"

definition meEvent_call :: "meEvent \<Rightarrow> nat list result" where
  "meEvent_call event = event_calls event 0 (hybrid_size event)"

definition meEventSubscribe :: "meEvent \<Rightarrow> nat \<Rightarrow> meEvent result" where
  "meEventSubscribe event callback = push_back 0 event callback"

text \<open>The loop starts at \<open>size\<close>, one behind the last subscriber, and goes down to 0.\<close>

fun unsubscribe_loop :: "meEvent \<Rightarrow> nat \<Rightarrow> nat \<Rightarrow> meEvent result" where
  "unsubscribe_loop event callback 0 =
     bindR (hybrid_at event 0) (\<lambda>cb.
       if cb = callback then bindR (erase_and_fill 0 event 0) (\<lambda>(_, event). Inr event)
       else Inr event)"
| "unsubscribe_loop event callback (Suc i) =
     bindR (hybrid_at event (Suc i)) (\<lambda>cb.
       if cb = callback
       then bindR (erase_and_fill 0 event (Suc i)) (\<lambda>(_, event). unsubscribe_loop event callback i)
       else unsubscribe_loop event callback i)"

definition meEventUnsubscribe :: "meEvent \<Rightarrow> nat \<Rightarrow> meEvent result" where
  "meEventUnsubscribe event callback = unsubscribe_loop event callback (hybrid_size event)"

section \<open>The built-in test\<close>

text \<open>
  \<open>HybridArrayTests\<close> of \<open>me_hybrid_array.cpp\<close>, in three stretches: filling the buffer in place,
  moving to the heap and erasing, and the insertion at the end. The default allocator is
  number 0.
\<close>

text \<open>The loop that fills the array up to the given size with the indices.\<close>

fun fill_upto :: "nat hybrid \<Rightarrow> nat \<Rightarrow> nat \<Rightarrow> nat hybrid result" where
  "fill_upto arr goal 0 = Inl NoReturn"
| "fill_upto arr goal (Suc fuel) =
     (if internalSize arr < goal
      then bindR (push_back 0 arr (internalSize arr)) (\<lambda>arr. fill_upto arr goal fuel)
      else Inr arr)"

definition HybridArrayTests_fill :: "nat hybrid result" where
  "HybridArrayTests_fill =
     (let arr = HybridArray 0 10 (Some 0)
      in ME_ASSERT (internalSize arr = 0)
        (bindR (push_run (push_back 0) arr [0, 1, 2, 3]) (\<lambda>arr.
          ME_ASSERT (internalSize arr = 4) (ME_ASSERT (IsUsingInPlaceMemory arr)
            (bindR (fill_upto arr 10 11) (\<lambda>arr. ME_ASSERT (IsUsingInPlaceMemory arr) (Inr arr)))))))"

definition HybridArrayTests_change :: "nat hybrid result" where
  "HybridArrayTests_change =
     bindR HybridArrayTests_fill (\<lambda>arr.
     bindR (push_back 0 arr 10) (\<lambda>arr.
     ME_ASSERT (\<not> IsUsingInPlaceMemory arr)
     (bindR (hybrid_erase 0 arr 0) (\<lambda>(x, arr).
     ME_ASSERT (x = 0)
     (bindR (hybrid_at arr 0) (\<lambda>x.
     ME_ASSERT (x = 1) (ME_ASSERT (internalSize arr = 10) (ME_ASSERT (\<not> IsUsingInPlaceMemory arr)
     (bindR (hybrid_at arr (internalSize arr - 1)) (\<lambda>x.
     ME_ASSERT (x = 10)
     (bindR (erase_and_fill 0 arr 0) (\<lambda>(x, arr).
     ME_ASSERT (x = 1)
     (bindR (hybrid_at arr 0) (\<lambda>x. ME_ASSERT (x = 10) (Inr arr)))))))))))))))"

definition HybridArrayTests :: "unit result" where
  "HybridArrayTests =
     bindR HybridArrayTests_change (\<lambda>arr.
     bindR (hybrid_insert 0 arr 99 1) (\<lambda>arr.
     bindR (hybrid_at arr 0) (\<lambda>x0.
     ME_ASSERT (x0 = 10)
     (bindR (hybrid_at arr 1) (\<lambda>x1.
     ME_ASSERT (x1 = 99)
     (bindR (hybrid_at arr 2) (\<lambda>x2.
     ME_ASSERT (x2 = 2)
     (bindR (hybrid_at arr (internalSize arr - 1)) (\<lambda>x.
     ME_ASSERT (x = 10)
     (ME_ASSERT (internalSize (hybrid_clear arr) = 0) (Inr ())))))))))))"

section \<open>Well-formed arrays\<close>

definition hybrid_wf :: "'a hybrid \<Rightarrow> bool" where
  "hybrid_wf a \<longleftrightarrow> allocator a \<noteq> None \<and> length (elements a) = capacity a \<and>
     internalSize a \<le> capacity a \<and> 0 < capacity a"

definition hybrid_items :: "'a hybrid \<Rightarrow> 'a list" where
  "hybrid_items a = take (internalSize a) (elements a)"

lemma length_hybrid_items [simp]: "hybrid_wf a \<Longrightarrow> length (hybrid_items a) = internalSize a"
  by (simp add: hybrid_wf_def hybrid_items_def)

lemma elements_set_elements [simp]: "elements (set_elements a xs) = xs"
  by (simp add: elements_def set_elements_def split: option.splits)

lemma set_elements_frame [simp]:
  "internalSize (set_elements a xs) = internalSize a"
  "capacity (set_elements a xs) = capacity a"
  "allocator (set_elements a xs) = allocator a"
  by (simp_all add: set_elements_def)

lemma elements_update [simp]:
  "elements (a\<lparr>internalSize := n\<rparr>) = elements a"
  "elements (a\<lparr>capacity := n\<rparr>) = elements a"
  "elements (a\<lparr>heap := Some m\<rparr>) = m"
  by (simp_all add: elements_def split: option.split)

lemma hybrid_wf_new: "0 < n \<Longrightarrow> hybrid_wf (HybridArray dflt n alloc) \<and> hybrid_items (HybridArray dflt n alloc) = []"
  by (simp add: hybrid_wf_def hybrid_items_def HybridArray_def elements_def)

lemma hybrid_at_ok: "hybrid_wf a \<Longrightarrow> i < internalSize a \<Longrightarrow> hybrid_at a i = Inr (hybrid_items a ! i)"
  by (simp add: hybrid_at_def hybrid_wf_def hybrid_items_def)

lemma hybrid_at_put_ok:
  assumes "hybrid_wf a" "i < internalSize a"
  shows "\<exists>a'. hybrid_at_put a i x = Inr a' \<and> hybrid_wf a' \<and> hybrid_items a' = (hybrid_items a)[i := x] \<and>
    internalSize a' = internalSize a"
  using assms by (simp add: hybrid_at_put_def hybrid_wf_def hybrid_items_def take_update_swap)

lemma CheckArrayResize_ok:
  assumes "hybrid_wf a" "internalSize a < 2147483648"
  shows "\<exists>a'. CheckArrayResize dflt a = Inr (True, a') \<and> hybrid_wf a' \<and> hybrid_items a' = hybrid_items a \<and>
    internalSize a' = internalSize a \<and> internalSize a' < capacity a'"
  using assms
  by (auto simp: CheckArrayResize_def hybrid_wf_def hybrid_items_def FIXEDGROWABLE_GROWTH_FACTOR_def Let_def)

lemma push_back_ok:
  assumes "hybrid_wf a" "internalSize a < 2147483648"
  shows "\<exists>a'. push_back dflt a x = Inr a' \<and> hybrid_wf a' \<and> hybrid_items a' = hybrid_items a @ [x]"
proof -
  from CheckArrayResize_ok [OF assms] obtain b where
    b: "CheckArrayResize dflt a = Inr (True, b)" "hybrid_wf b" "hybrid_items b = hybrid_items a"
       "internalSize b = internalSize a" "internalSize b < capacity b" by blast
  let ?c = "b\<lparr>internalSize := internalSize a + 1\<rparr>"
  have c: "hybrid_wf ?c" "hybrid_items ?c = hybrid_items a @ [elements b ! internalSize a]"
    using b by (simp_all add: hybrid_wf_def hybrid_items_def take_Suc_conv_app_nth)
  from hybrid_at_put_ok [OF c(1), of "internalSize a" x] obtain d where
    d: "hybrid_at_put ?c (internalSize a) x = Inr d" "hybrid_wf d"
       "hybrid_items d = (hybrid_items ?c)[internalSize a := x]" by auto
  have "length (hybrid_items a) = internalSize a" using assms(1) by simp
  then have "hybrid_items d = hybrid_items a @ [x]"
    using d(3) c(2) by (simp add: list_update_append)
  with b d assms(2) show ?thesis by (simp add: push_back_def)
qed

lemma hybrid_shrink:
  "hybrid_wf a \<Longrightarrow> n \<le> internalSize a \<Longrightarrow>
     hybrid_wf (a\<lparr>internalSize := n\<rparr>) \<and> hybrid_items (a\<lparr>internalSize := n\<rparr>) = take n (hybrid_items a)"
  by (simp add: hybrid_wf_def hybrid_items_def min_def)

lemma hybrid_pop_ok:
  assumes "hybrid_wf a" "hybrid_items a \<noteq> []"
  shows "\<exists>a'. hybrid_pop a = Inr (last (hybrid_items a), a') \<and> hybrid_wf a' \<and>
    hybrid_items a' = butlast (hybrid_items a)"
proof -
  have "0 < internalSize a" using assms by (cases "internalSize a") (auto simp: hybrid_items_def)
  with assms hybrid_shrink [of a "internalSize a - 1"] show ?thesis
    by (simp add: hybrid_pop_def hybrid_at_ok last_conv_nth butlast_conv_take)
qed

interpretation hybrid: growable_sequence hybrid_wf hybrid_items "\<lambda>_. True" 2147483648
    "push_back dflt" hybrid_pop hybrid_at for dflt
  by unfold_locales (simp_all add: push_back_ok hybrid_pop_ok hybrid_at_ok)

lemma stack_pop_hybrid: "stack_pop s = hybrid_pop s"
  by (cases "internalSize s") (simp_all add: stack_pop_def stack_empty_def hybrid_size_def hybrid_pop_def)

interpretation stack: growable_sequence hybrid_wf hybrid_items "\<lambda>_. True" 2147483648
    "stack_push dflt" stack_pop hybrid_at for dflt
proof -
  have "stack_push dflt = push_back dflt" for dflt :: 'a by (simp add: stack_push_def fun_eq_iff)
  moreover have "stack_pop = (hybrid_pop :: 'a hybrid \<Rightarrow> _)" by (simp add: stack_pop_hybrid fun_eq_iff)
  ultimately show "growable_sequence hybrid_wf hybrid_items (\<lambda>_. True) 2147483648
    (stack_push dflt) stack_pop hybrid_at" for dflt :: 'a
    using hybrid.growable_sequence_axioms [of dflt] by simp
qed

lemma erase_and_fill_ok:
  assumes "hybrid_wf a" "i < internalSize a"
  shows "\<exists>a'. erase_and_fill dflt a i = Inr (hybrid_items a ! i, a') \<and> hybrid_wf a' \<and>
    hybrid_items a' = butlast ((hybrid_items a)[i := last (hybrid_items a)])"
proof -
  have l: "hybrid_items a ! (internalSize a - 1) = last (hybrid_items a)"
    using assms by (subst last_conv_nth) (auto simp: hybrid_items_def hybrid_wf_def)
  from hybrid_at_put_ok [OF assms, of "last (hybrid_items a)"] obtain b where
    b: "hybrid_at_put a i (last (hybrid_items a)) = Inr b" "hybrid_wf b"
       "hybrid_items b = (hybrid_items a)[i := last (hybrid_items a)]" "internalSize b = internalSize a"
    by blast
  with hybrid_shrink [of b "internalSize a - 1"] assms l show ?thesis
    by (simp add: erase_and_fill_def hybrid_at_ok butlast_conv_take)
qed

lemma hybrid_move_ok:
  assumes "hybrid_wf a" "to < internalSize a" "from < internalSize a" "to + n \<le> capacity a" "from + n \<le> capacity a"
  shows "\<exists>a'. hybrid_move a to from n = Inr a' \<and> hybrid_wf a' \<and> internalSize a' = internalSize a \<and>
    capacity a' = capacity a \<and>
    elements a' = take to (elements a) @ take n (drop from (elements a)) @ drop (to + n) (elements a)"
  using assms by (simp add: hybrid_move_def hybrid_wf_def)

section \<open>Properties\<close>

text \<open>
  A stack is last in, first out: after any run of pushes, as many pops return the pushed
  values in reverse order and leave the stack with what it held before, also when the
  pushes move the elements from the object to the heap.
\<close>

theorem Stack_lifo:
  assumes "hybrid_wf s" "internalSize s + length xs \<le> 2147483648"
  shows "\<exists>s1 s2. push_run (stack_push dflt) s xs = Inr s1 \<and>
    pop_run stack_pop s1 (length xs) = Inr (rev xs, s2) \<and>
    hybrid_wf s2 \<and> hybrid_items s2 = hybrid_items s"
  using stack.lifo [of s xs dflt] assms by simp

lemma Stack_lifo_witness:
  "\<exists>s1 s2. push_run (stack_push 0) (HybridArray 0 2 None) [3, 4, 5 :: nat] = Inr s1 \<and>
    pop_run stack_pop s1 (length [3, 4, 5 :: nat]) = Inr (rev [3, 4, 5], s2) \<and>
    hybrid_wf s2 \<and> hybrid_items s2 = hybrid_items (HybridArray 0 2 None)"
  by (rule Stack_lifo) (simp add: hybrid_wf_new, simp add: HybridArray_def)

text \<open>
  \<open>insert\<close> puts the element in front of the one at the index and keeps all others; an
  index at or behind the end changes nothing but possibly the capacity.
\<close>

theorem hybrid_insert_spec:
  assumes "hybrid_wf a" "internalSize a < 2147483648"
  shows "\<exists>a'. hybrid_insert dflt a x i = Inr a' \<and> hybrid_wf a' \<and>
    hybrid_items a' = (if i < internalSize a then take i (hybrid_items a) @ x # drop i (hybrid_items a)
                       else hybrid_items a)"
proof -
  from CheckArrayResize_ok [OF assms] obtain b where
    b: "CheckArrayResize dflt a = Inr (True, b)" "hybrid_wf b" "hybrid_items b = hybrid_items a"
       "internalSize b = internalSize a" "internalSize b < capacity b" by blast
  show ?thesis
  proof (cases "i < internalSize a")
    case False
    with b show ?thesis by (simp add: hybrid_insert_def)
  next
    case True
    let ?n = "internalSize a"
    let ?c = "b\<lparr>internalSize := ?n + 1\<rparr>"
    have c: "hybrid_wf ?c" using b by (simp add: hybrid_wf_def)
    from hybrid_move_ok [OF c, of "i + 1" i "?n - i"] True b obtain d where
      d: "hybrid_move ?c (i + 1) i (?n - i) = Inr d" "hybrid_wf d" "internalSize d = ?n + 1"
         "elements d = take (i + 1) (elements b) @ take (?n - i) (drop i (elements b)) @
                       drop (?n + 1) (elements b)" by auto
    from hybrid_at_put_ok [OF d(2), of i x] True d(3) obtain e where
      e: "hybrid_at_put d i x = Inr e" "hybrid_wf e" "hybrid_items e = (hybrid_items d)[i := x]" by auto
    have len: "length (elements b) = capacity b" using b(2) by (simp add: hybrid_wf_def)
    have "hybrid_items d = take (i + 1) (elements b) @ take (?n - i) (drop i (elements b))"
      using d(3,4) len b(4,5) True by (simp add: hybrid_items_def)
    also have "take (i + 1) (elements b) = take i (elements b) @ [elements b ! i]"
      using len b(4,5) True by (simp add: take_Suc_conv_app_nth)
    finally have "hybrid_items e = take i (elements b) @ x # take (?n - i) (drop i (elements b))"
      using e(3) len b(4,5) True by (simp add: list_update_append)
    moreover have "hybrid_items a = take ?n (elements b)"
      using b(3,4) by (simp add: hybrid_items_def)
    then have "take i (hybrid_items a) = take i (elements b)"
      "drop i (hybrid_items a) = take (?n - i) (drop i (elements b))"
      using True by (simp_all add: drop_take min_def)
    ultimately show ?thesis
      using True b(1,4) d(1) e(1,2) assms(2) by (simp add: hybrid_insert_def Let_def)
  qed
qed

lemma hybrid_insert_spec_witness:
  "\<exists>a'. hybrid_insert 0 (\<lparr>fixedMem = [7, 8, 0 :: nat], heap = None, internalSize = 2, capacity = 3,
      allocator = Some 0\<rparr>) 9 1 = Inr a' \<and> hybrid_wf a' \<and> hybrid_items a' = [7, 9, 8]"
  using hybrid_insert_spec [of "\<lparr>fixedMem = [7, 8, 0 :: nat], heap = None, internalSize = 2, capacity = 3,
      allocator = Some 0\<rparr>" 0 9 1]
  by (simp add: hybrid_wf_def elements_def hybrid_items_def numeral_2_eq_2)

text \<open>
  \<open>erase\<close> closes the gap for every element but the last, which it cannot erase: the
  address of the element behind it fails the range assertion. On a full array it moves one
  element too many and reads past the end of the buffer.
\<close>

theorem hybrid_erase_spec:
  assumes "hybrid_wf a" "i < internalSize a"
  shows "if i + 1 = internalSize a then hybrid_erase dflt a i = Inl AssertFailed
    else if internalSize a = capacity a then hybrid_erase dflt a i = Inl OutOfBounds
    else \<exists>a'. hybrid_erase dflt a i = Inr (hybrid_items a ! i, a') \<and> hybrid_wf a' \<and>
           hybrid_items a' = take i (hybrid_items a) @ drop (Suc i) (hybrid_items a)"
proof -
  have len: "length (elements a) = capacity a" "internalSize a \<le> capacity a"
    using assms(1) by (simp_all add: hybrid_wf_def)
  consider (last) "i + 1 = internalSize a" | (full) "i + 1 < internalSize a" "internalSize a = capacity a"
    | (room) "i + 1 < internalSize a" "internalSize a < capacity a"
    using assms(2) len by linarith
  then show ?thesis
  proof cases
    case last
    with assms show ?thesis by (simp add: hybrid_erase_def hybrid_at_ok hybrid_move_def)
  next
    case full
    with assms len show ?thesis
      by (simp add: hybrid_erase_def hybrid_at_ok hybrid_move_def move_within_def)
  next
    case room
    let ?n = "internalSize a"
    from hybrid_move_ok [OF assms(1), of i "i + 1" "?n - i"] room obtain b where
      b: "hybrid_move a i (i + 1) (?n - i) = Inr b" "hybrid_wf b" "internalSize b = ?n"
         "elements b = take i (elements a) @ take (?n - i) (drop (i + 1) (elements a)) @ drop ?n (elements a)"
      by auto
    let ?c = "b\<lparr>internalSize := ?n - 1\<rparr>"
    have "hybrid_wf ?c" using hybrid_shrink [OF b(2), of "?n - 1"] b(3) by simp
    moreover have "hybrid_items ?c = take i (hybrid_items a) @ drop (Suc i) (hybrid_items a)"
      using b(4) room len
      by (auto simp: hybrid_items_def drop_take min_def)
    moreover have "hybrid_erase dflt a i = Inr (hybrid_items a ! i, ?c)"
      using room assms b(1,3) by (simp add: hybrid_erase_def hybrid_at_ok)
    ultimately show ?thesis using room by auto
  qed
qed

lemma hybrid_erase_spec_witness:
  "hybrid_erase 0 \<lparr>fixedMem = [7, 8 :: nat], heap = None, internalSize = 2, capacity = 2,
      allocator = Some 0\<rparr> 0 = Inl OutOfBounds"
  using hybrid_erase_spec [of "\<lparr>fixedMem = [7, 8 :: nat], heap = None, internalSize = 2, capacity = 2,
      allocator = Some 0\<rparr>" 0 0]
  by (simp add: hybrid_wf_def elements_def)

lemma event_calls_spec:
  "hybrid_wf e \<Longrightarrow> i + left = internalSize e \<Longrightarrow> event_calls e i left = Inr (drop i (hybrid_items e))"
proof (induction left arbitrary: i)
  case 0
  then show ?case by simp
next
  case (Suc left)
  then have "drop i (hybrid_items e) = hybrid_items e ! i # drop (Suc i) (hybrid_items e)"
    by (simp add: Cons_nth_drop_Suc)
  with Suc show ?case by (simp add: hybrid_at_ok)
qed

text \<open>
  Subscribing appends the callback and calling the event calls the subscribers in the
  order they subscribed; unsubscribing always fails an assertion, whatever the event holds.
\<close>

theorem meEvent_subscribe_call:
  assumes "length cbs \<le> 2147483648"
  shows "\<exists>e. push_run meEventSubscribe meEvent_new cbs = Inr e \<and> meEvent_call e = Inr cbs \<and>
    meEventUnsubscribe e cb = Inl AssertFailed"
proof -
  have "meEventSubscribe = push_back 0" by (simp add: meEventSubscribe_def fun_eq_iff)
  moreover have "hybrid_wf meEvent_new \<and> hybrid_items meEvent_new = []"
    unfolding meEvent_new_def by (rule hybrid_wf_new) simp
  ultimately obtain e where e: "push_run meEventSubscribe meEvent_new cbs = Inr e" "hybrid_wf e"
    "hybrid_items e = cbs"
    using hybrid.push_run_items [of meEvent_new cbs 0] assms by auto
  have "meEvent_call e = Inr cbs"
    using event_calls_spec [OF e(2), of 0 "internalSize e"] e(3) by (simp add: meEvent_call_def hybrid_size_def)
  moreover have "meEventUnsubscribe e cb = Inl AssertFailed"
    by (cases "internalSize e") (simp_all add: meEventUnsubscribe_def hybrid_size_def hybrid_at_def)
  ultimately show ?thesis using e(1) by blast
qed

lemma meEvent_subscribe_call_witness:
  "\<exists>e. push_run meEventSubscribe meEvent_new [5, 6] = Inr e \<and> meEvent_call e = Inr [5, 6] \<and>
    meEventUnsubscribe e 5 = Inl AssertFailed"
  using meEvent_subscribe_call [of "[5, 6]" 5] by simp

text \<open>
  The engine's own test of the array gets through everything up to the insertion, and
  then fails: it expects the last element to be 10 where the array holds 9.
\<close>

theorem HybridArrayTests_fails:
  "(\<exists>arr. HybridArrayTests_change = Inr arr \<and> hybrid_items arr = [10, 2, 3, 4, 5, 6, 7, 8, 9] \<and>
     (\<exists>arr'. hybrid_insert 0 arr 99 1 = Inr arr' \<and> hybrid_items arr' = [10, 99, 2, 3, 4, 5, 6, 7, 8, 9])) \<and>
   HybridArrayTests = Inl AssertFailed"
proof -
  let ?arr = "\<lparr>fixedMem = [0, 1, 2, 3, 4, 5, 6, 7, 8, 9],
    heap = Some [10, 2, 3, 4, 5, 6, 7, 8, 9, 10, 0, 0, 0, 0, 0, 0, 0, 0, 0, 0],
    internalSize = 9, capacity = 20, allocator = Some (0 :: nat)\<rparr> :: nat hybrid"
  have wf: "hybrid_wf ?arr" and items: "hybrid_items ?arr = [10, 2, 3, 4, 5, 6, 7, 8, 9]"
    by code_simp+
  have "HybridArrayTests_change = Inr ?arr" by code_simp
  moreover have "HybridArrayTests = Inl AssertFailed" by code_simp
  moreover have "\<exists>arr'. hybrid_insert 0 ?arr 99 1 = Inr arr' \<and>
      hybrid_items arr' = [10, 99, 2, 3, 4, 5, 6, 7, 8, 9]"
  proof -
    have "bindR (hybrid_insert 0 ?arr 99 1) (\<lambda>a. Inr (hybrid_items a)) =
        Inr [10, 99, 2, 3, 4, 5, 6, 7, 8, 9]" by code_simp
    then show ?thesis by (auto simp: bindR_Inr)
  qed
  ultimately show ?thesis using items by blast
qed

end
