(* ===== verification/DynArrays.thy ===== *)
theory DynArrays
  imports Sequences
begin

text \<open>
  The dynamic array of \<open>core/containers/dynarray.h\<close> and \<open>dynarray.inl\<close>: a header of
  \<open>u32\<close> fields and a block of bytes, with the element size kept at run time. Every product
  and sum the code forms in \<open>u32\<close> wraps here too. \<open>alloc_ok\<close> says which requests the
  allocator serves; clearing the null pointer it returns otherwise is a fault.
\<close>

section \<open>State\<close>

record dynarray =
  hdr_size :: nat
  hdr_capacity :: nat
  hdr_stride :: nat
  hdr_allocator :: "nat option"
  dyn_data :: "u8 list option"

definition DYNARRAY_GROWTH_FACTOR :: nat where
  "DYNARRAY_GROWTH_FACTOR = 2"

definition DynArrayDefaultCapacity :: nat where
  "DynArrayDefaultCapacity = 8"

definition DynArray_empty :: dynarray where
  "DynArray_empty = \<lparr>hdr_size = 0, hdr_capacity = 0, hdr_stride = 0, hdr_allocator = None, dyn_data = None\<rparr>"

definition dyn_bool :: "dynarray \<Rightarrow> bool" where
  "dyn_bool a \<longleftrightarrow> dyn_data a \<noteq> None"

section \<open>Creation, destruction, growth\<close>

definition DynArrayCreate :: "(nat \<Rightarrow> bool) \<Rightarrow> nat \<Rightarrow> nat \<Rightarrow> nat \<Rightarrow> dynarray result" where
  "DynArrayCreate alloc_ok alloc initialCapacity strideOverride =
     (let stride = strideOverride;
          arraySize = wrap32 (initialCapacity * stride)
      in require NullDeref (alloc_ok arraySize)
           (Inr \<lparr>hdr_size = 0, hdr_capacity = initialCapacity, hdr_stride = stride,
                 hdr_allocator = Some alloc, dyn_data = Some (replicate arraySize 0)\<rparr>))"

definition DynArrayCreateWithReserved :: "(nat \<Rightarrow> bool) \<Rightarrow> nat \<Rightarrow> nat \<Rightarrow> nat \<Rightarrow> dynarray result" where
  "DynArrayCreateWithReserved alloc_ok alloc initialSize strideOverride =
     bindR (DynArrayCreate alloc_ok alloc initialSize strideOverride)
       (\<lambda>a. Inr (a\<lparr>hdr_size := initialSize\<rparr>))"

text \<open>The second component is the memory given back to the allocator.\<close>

definition DynArrayDestroy :: "dynarray \<Rightarrow> (dynarray \<times> u8 list option) result" where
  "DynArrayDestroy a =
     (if \<not> dyn_bool a then Inr (a, None)
      else require NullDeref (hdr_allocator a \<noteq> None) (Inr (DynArray_empty, dyn_data a)))"

definition DynArrayResize :: "(nat \<Rightarrow> bool) \<Rightarrow> dynarray \<Rightarrow> nat \<Rightarrow> dynarray result" where
  "DynArrayResize alloc_ok a newCapacity =
     ME_ASSERT (hdr_capacity a \<noteq> 0)
       (bindR (deref (hdr_allocator a)) (\<lambda>alloc.
        bindR (DynArrayCreate alloc_ok alloc newCapacity (hdr_stride a)) (\<lambda>newArray.
        bindR (deref (dyn_data a)) (\<lambda>old. bindR (deref (dyn_data newArray)) (\<lambda>new.
          let n = wrap32 (hdr_size a * hdr_stride a)
          in require OutOfBounds (n \<le> length old)
               (bindR (blit 0 (take n old) new) (\<lambda>m.
                 bindR (DynArrayDestroy a) (\<lambda>_.
                   Inr (newArray\<lparr>hdr_size := hdr_size a, dyn_data := Some m\<rparr>)))))))))"

section \<open>Modifiers\<close>

text \<open>The growth loop of \<open>DynArrayPushAt\<close>; \<open>fuel\<close> bounds its rounds, two are always enough.\<close>

fun grow_loop :: "(nat \<Rightarrow> bool) \<Rightarrow> nat \<Rightarrow> dynarray \<Rightarrow> nat \<Rightarrow> dynarray result" where
  "grow_loop alloc_ok numObjs a 0 = Inl NoReturn"
| "grow_loop alloc_ok numObjs a (Suc fuel) =
     (if wrap32 (hdr_size a + numObjs) > hdr_capacity a then
        (let newCapacity = wrap32 (hdr_capacity a * DYNARRAY_GROWTH_FACTOR);
             newCapacity = MEMAX newCapacity (wrap32 (hdr_size a + numObjs))
         in bindR (DynArrayResize alloc_ok a newCapacity)
              (\<lambda>a. grow_loop alloc_ok numObjs a fuel))
      else Inr a)"

text \<open>
  The element-wise move for types that are not trivially copyable: \<open>i\<close> is a \<open>u32\<close> that
  counts down while \<open>i >= 0\<close>, so after \<open>i = 1\<close> it indexes with \<open>0 - 1 = 4294967295\<close>. Elements
  are \<open>tsize\<close> bytes from the byte positions \<open>to\<close> and \<open>from\<close>.
\<close>

fun shift_loop :: "nat \<Rightarrow> nat \<Rightarrow> nat \<Rightarrow> nat \<Rightarrow> u8 list \<Rightarrow> u8 list result" where
  "shift_loop tsize to from 0 mem =
     bindR (move_within (to + 4294967295 * tsize) (from + 4294967295 * tsize) tsize mem)
       (\<lambda>mem. Inl NoReturn)"
| "shift_loop tsize to from (Suc i) mem =
     bindR (move_within (to + i * tsize) (from + i * tsize) tsize mem)
       (\<lambda>mem. shift_loop tsize to from i mem)"

text \<open>The element-wise copy of the pushed objects.\<close>

fun copy_loop :: "nat \<Rightarrow> nat \<Rightarrow> u8 list \<Rightarrow> nat \<Rightarrow> nat \<Rightarrow> u8 list \<Rightarrow> u8 list result" where
  "copy_loop tsize dst objs i 0 mem = Inr mem"
| "copy_loop tsize dst objs i (Suc left) mem =
     require OutOfBounds (i * tsize + tsize \<le> length objs)
       (bindR (blit (dst + i * tsize) (take tsize (drop (i * tsize) objs)) mem)
         (\<lambda>mem. copy_loop tsize dst objs (Suc i) left mem))"

definition push_store :: "bool \<Rightarrow> nat \<Rightarrow> dynarray \<Rightarrow> u8 list \<Rightarrow> nat \<Rightarrow> nat \<Rightarrow> u8 list \<Rightarrow> u8 list result" where
  "push_store trivial tsize a objs numObjs index mem =
     (let arrSize = hdr_size a; stride = hdr_stride a; destination = index * stride
      in bindR (if index < arrSize then
                  (let moveCount = arrSize - index;
                       moveTo = wrap32 (index + numObjs) * stride
                   in if trivial then move_within moveTo destination (wrap32 (moveCount * stride)) mem
                      else shift_loop tsize moveTo destination moveCount mem)
                else Inr mem)
           (\<lambda>mem. if trivial then
                    require OutOfBounds (wrap32 (numObjs * stride) \<le> length objs)
                      (blit destination (take (wrap32 (numObjs * stride)) objs) mem)
                  else copy_loop tsize destination objs 0 numObjs mem))"

definition DynArrayPushAt ::
  "(nat \<Rightarrow> bool) \<Rightarrow> bool \<Rightarrow> nat \<Rightarrow> dynarray \<Rightarrow> u8 list \<Rightarrow> nat \<Rightarrow> nat \<Rightarrow> (bool \<times> dynarray) result" where
  "DynArrayPushAt alloc_ok trivial tsize a objs numObjs index =
     (if index > hdr_size a then Inr (False, a)
      else bindR (grow_loop alloc_ok numObjs a 2) (\<lambda>a.
        case dyn_data a of
          None \<Rightarrow> (if numObjs = 0 \<and> index \<ge> hdr_size a then Inr (True, a) else Inl NullDeref)
        | Some mem \<Rightarrow>
            bindR (push_store trivial tsize a objs numObjs index mem) (\<lambda>mem.
              Inr (True, a\<lparr>dyn_data := Some mem,
                           hdr_size := wrap32 (hdr_size a + numObjs)\<rparr>))))"

definition DynArrayGetSize :: "dynarray \<Rightarrow> nat" where
  "DynArrayGetSize a = (if \<not> dyn_bool a then 0 else hdr_size a)"

definition DynArrayGetCapacity :: "dynarray \<Rightarrow> nat" where
  "DynArrayGetCapacity a = (if \<not> dyn_bool a then 0 else hdr_capacity a)"

definition DynArrayGetStride :: "dynarray \<Rightarrow> nat" where
  "DynArrayGetStride a = (if \<not> dyn_bool a then 0 else hdr_stride a)"

definition DynArrayGetAllocator :: "dynarray \<Rightarrow> nat option" where
  "DynArrayGetAllocator a = (if \<not> dyn_bool a then None else hdr_allocator a)"

definition DynArrayPush :: "(nat \<Rightarrow> bool) \<Rightarrow> bool \<Rightarrow> nat \<Rightarrow> dynarray \<Rightarrow> u8 list \<Rightarrow> dynarray result" where
  "DynArrayPush alloc_ok trivial tsize a obj =
     bindR (DynArrayPushAt alloc_ok trivial tsize a obj 1 (DynArrayGetSize a)) (\<lambda>(_, a). Inr a)"

definition DynArrayPushMany ::
  "(nat \<Rightarrow> bool) \<Rightarrow> bool \<Rightarrow> nat \<Rightarrow> dynarray \<Rightarrow> u8 list \<Rightarrow> nat \<Rightarrow> dynarray result" where
  "DynArrayPushMany alloc_ok trivial tsize a objs numObjs =
     bindR (DynArrayPushAt alloc_ok trivial tsize a objs (wrap32 numObjs) (DynArrayGetSize a))
       (\<lambda>(_, a). Inr a)"

text \<open>
  \<open>__DynArrayPopAt\<close>: the first component is what is written through \<open>out\<close>, \<open>None\<close> when the
  index is refused and the output is left alone.
\<close>

definition DynArrayPopAt :: "dynarray \<Rightarrow> nat \<Rightarrow> (u8 list option \<times> dynarray) result" where
  "DynArrayPopAt a index =
     (let arrSize = hdr_size a; stride = hdr_stride a
      in if index \<ge> arrSize then Inr (None, a)
         else (case dyn_data a of
                 None \<Rightarrow> Inl NullDeref
               | Some mem \<Rightarrow>
                   (let at = wrap32 (index * stride)
                    in require OutOfBounds (at + stride \<le> length mem)
                         (bindR (if index \<noteq> arrSize - 1
                                 then move_within (wrap32 (index * stride)) (wrap32 ((index + 1) * stride))
                                        (wrap32 ((arrSize - index - 1) * stride)) mem
                                 else Inr mem)
                           (\<lambda>mem'. Inr (Some (take stride (drop at mem)),
                                       a\<lparr>dyn_data := Some mem', hdr_size := arrSize - 1\<rparr>))))))"

definition DynArrayPop :: "dynarray \<Rightarrow> (u8 list option \<times> dynarray) result" where
  "DynArrayPop a = DynArrayPopAt a (wrap32 (DynArrayGetSize a + 4294967295))"

definition DynArrayClear :: "dynarray \<Rightarrow> dynarray" where
  "DynArrayClear a = (if dyn_bool a then a\<lparr>hdr_size := 0\<rparr> else a)"

definition dyn_index :: "dynarray \<Rightarrow> nat \<Rightarrow> u8 list result" where
  "dyn_index a index =
     ME_ASSERT (index < hdr_size a)
       (case dyn_data a of None \<Rightarrow> Inl NullDeref
        | Some mem \<Rightarrow> require OutOfBounds (index * hdr_stride a + hdr_stride a \<le> length mem)
            (Inr (take (hdr_stride a) (drop (index * hdr_stride a) mem))))"

text \<open>What a caller of \<open>DynArrayPop\<close> finds in its output variable.\<close>

definition dyn_pop :: "dynarray \<Rightarrow> (u8 list \<times> dynarray) result" where
  "dyn_pop a = bindR (DynArrayPop a) (\<lambda>(out, a). Inr (case out of Some x \<Rightarrow> x | None \<Rightarrow> [], a))"

section \<open>The built-in test\<close>

text \<open>
  \<open>DynArrayTests\<close> on an array of \<open>s32\<close>, in two stretches around the capacity check. An
  \<open>s32\<close> is its four bytes in two's complement.
\<close>

definition s32_bytes :: "int \<Rightarrow> u8 list" where
  "s32_bytes x = le_encode 4 (nat (x mod 4294967296))"

definition push_s32 :: "dynarray \<Rightarrow> int \<Rightarrow> dynarray result" where
  "push_s32 a x = DynArrayPush (\<lambda>_. True) True 4 a (s32_bytes x)"

definition expect_s32 :: "dynarray \<Rightarrow> int list \<Rightarrow> dynarray result" where
  "expect_s32 a xs =
     ME_ASSERT (\<forall>i\<in>set [0..<length xs]. dyn_index a i = Inr (s32_bytes (xs ! i))) (Inr a)"

definition DynArrayTests_fill :: "dynarray result" where
  "DynArrayTests_fill =
     bindR (DynArrayCreate (\<lambda>_. True) 0 DynArrayDefaultCapacity 4) (\<lambda>arr.
     bindR (push_s32 arr 1) (\<lambda>arr.
     ME_ASSERT (DynArrayGetSize arr = 1) (
     bindR (expect_s32 arr [1]) (\<lambda>arr.
     bindR (push_run push_s32 arr [-1, 2]) (\<lambda>arr.
     ME_ASSERT (DynArrayGetSize arr = 3) (
     bindR (expect_s32 arr [1, -1, 2]) (\<lambda>arr.
     bindR (DynArrayPushAt (\<lambda>_. True) True 4 arr (s32_bytes 90) 1 1) (\<lambda>(_, arr).
     bindR (expect_s32 arr [1, 90, -1, 2]) (\<lambda>arr.
     ME_ASSERT (DynArrayGetCapacity arr = DynArrayDefaultCapacity) (
     ME_ASSERT (DynArrayGetStride arr = 4) (
     bindR (push_run push_s32 arr (map int [0..<20])) (\<lambda>arr.
     ME_ASSERT (DynArrayGetSize arr = 24) (Inr arr)))))))))))))"

definition DynArrayTests_rest :: "dynarray \<Rightarrow> unit result" where
  "DynArrayTests_rest arr =
     bindR (DynArrayPop arr) (\<lambda>(lastElem, arr).
     ME_ASSERT (DynArrayGetSize arr = 23) (
     ME_ASSERT (lastElem = Some (s32_bytes 19)) (
     bindR (DynArrayPopAt arr 4) (\<lambda>(shouldBeZero, arr).
     ME_ASSERT (shouldBeZero = Some (s32_bytes 0)) (
     ME_ASSERT (DynArrayGetSize arr = 22) (
     let arr = DynArrayClear arr in
     ME_ASSERT (DynArrayGetSize arr = 0) (
     bindR (DynArrayPop arr) (\<lambda>(x, arr).
     bindR (DynArrayPopAt arr 0) (\<lambda>(y, arr).
     ME_ASSERT (x = None \<and> y = None) (Inr ()))))))))))"

definition DynArrayTests :: "unit result" where
  "DynArrayTests =
     bindR DynArrayTests_fill (\<lambda>arr. ME_ASSERT (DynArrayGetCapacity arr = 40) (DynArrayTests_rest arr))"

section \<open>Well-formed arrays and their elements\<close>

definition dyn_wf :: "dynarray \<Rightarrow> bool" where
  "dyn_wf a \<longleftrightarrow> 0 < hdr_stride a \<and> 0 < hdr_capacity a \<and> hdr_size a \<le> hdr_capacity a \<and>
     hdr_capacity a * hdr_stride a < 4294967296 \<and> hdr_allocator a \<noteq> None \<and>
     (\<exists>mem. dyn_data a = Some mem \<and> length mem = hdr_capacity a * hdr_stride a)"

text \<open>The stored bytes, and the same cut into elements.\<close>

definition dyn_bytes :: "dynarray \<Rightarrow> u8 list" where
  "dyn_bytes a = take (hdr_size a * hdr_stride a) (the (dyn_data a))"

fun chunks :: "nat \<Rightarrow> nat \<Rightarrow> 'a list \<Rightarrow> 'a list list" where
  "chunks n 0 xs = []"
| "chunks n (Suc k) xs = take n xs # chunks n k (drop n xs)"

definition dyn_items :: "dynarray \<Rightarrow> u8 list list" where
  "dyn_items a = chunks (hdr_stride a) (hdr_size a) (the (dyn_data a))"

lemma length_chunks [simp]: "length (chunks n k xs) = k"
  by (induction k arbitrary: xs) auto

lemma chunks_nth: "i < k \<Longrightarrow> chunks n k xs ! i = take n (drop (i * n) xs)"
proof (induction k arbitrary: xs i)
  case (Suc k)
  then show ?case by (cases i) (auto simp: add.commute)
qed simp

lemma chunks_append:
  "length xs = j * n \<Longrightarrow> chunks n (j + k) (xs @ ys) = chunks n j xs @ chunks n k ys"
proof (induction j arbitrary: xs)
  case (Suc j)
  then have "length (drop n xs) = j * n" by simp
  with Suc show ?case by simp
qed simp

lemma chunks_take: "k * n \<le> m \<Longrightarrow> chunks n k (take m xs) = chunks n k xs"
proof (induction k arbitrary: xs m)
  case (Suc k)
  then have "k * n \<le> m - n" by simp
  with Suc have "chunks n k (take (m - n) (drop n xs)) = chunks n k (drop n xs)" by blast
  with Suc.prems show ?case by (simp add: drop_take min_def)
qed simp

lemma dyn_items_bytes: "dyn_items a = chunks (hdr_stride a) (hdr_size a) (dyn_bytes a)"
  by (simp add: dyn_items_def dyn_bytes_def chunks_take)

lemma dyn_wf_bytes: "dyn_wf a \<Longrightarrow> length (dyn_bytes a) = hdr_size a * hdr_stride a"
  by (auto simp: dyn_wf_def dyn_bytes_def)

lemma DynArrayCreate_wf:
  assumes "0 < cap" "0 < stride" "cap * stride < 4294967296" "alloc_ok (cap * stride)"
  shows "\<exists>a. DynArrayCreate alloc_ok al cap stride = Inr a \<and> dyn_wf a \<and> dyn_items a = [] \<and>
    hdr_stride a = stride \<and> hdr_capacity a = cap \<and> hdr_size a = 0 \<and>
    dyn_data a = Some (replicate (cap * stride) 0)"
  using assms by (simp add: DynArrayCreate_def dyn_wf_def dyn_items_def)

lemma DynArrayResize_ok:
  assumes "dyn_wf a" "hdr_size a \<le> cap" "0 < cap" "cap * hdr_stride a < 4294967296"
    "alloc_ok (cap * hdr_stride a)"
  shows "\<exists>a'. DynArrayResize alloc_ok a cap = Inr a' \<and> dyn_wf a' \<and> dyn_bytes a' = dyn_bytes a \<and>
    hdr_size a' = hdr_size a \<and> hdr_stride a' = hdr_stride a \<and> hdr_capacity a' = cap"
proof -
  let ?s = "hdr_stride a" and ?n = "hdr_size a * hdr_stride a"
  obtain mem al where m: "dyn_data a = Some mem" "length mem = hdr_capacity a * ?s"
    "hdr_allocator a = Some al" "0 < ?s" "hdr_capacity a \<noteq> 0" "hdr_size a \<le> hdr_capacity a"
    "hdr_capacity a * ?s < 4294967296"
    using assms(1) by (auto simp: dyn_wf_def)
  have le: "?n \<le> length mem" "?n \<le> cap * ?s" using m(2,6) assms(2) by (simp_all add: mult_le_mono1)
  then have w: "wrap32 ?n = ?n" using m(2,7) by (intro wrap32_id) linarith
  let ?new = "take ?n mem @ replicate (cap * ?s - ?n) 0"
  let ?a = "\<lparr>hdr_size = hdr_size a, hdr_capacity = cap, hdr_stride = ?s, hdr_allocator = Some al,
    dyn_data = Some ?new\<rparr>"
  have "DynArrayResize alloc_ok a cap = Inr ?a"
    using m le w assms by (simp add: DynArrayResize_def DynArrayCreate_def DynArrayDestroy_def
        dyn_bool_def Let_def min_def)
  moreover have "dyn_wf ?a" using m assms le by (simp add: dyn_wf_def)
  moreover have "dyn_bytes ?a = dyn_bytes a" using m le by (simp add: dyn_bytes_def)
  ultimately show ?thesis by (intro exI [of _ ?a]) simp
qed

text \<open>The capacity after the growth loop.\<close>

definition grown :: "dynarray \<Rightarrow> nat \<Rightarrow> nat" where
  "grown a n = (if hdr_size a + n > hdr_capacity a then max (hdr_capacity a * 2) (hdr_size a + n)
                else hdr_capacity a)"

lemma grow_loop_ok:
  assumes "dyn_wf a" "grown a n * hdr_stride a < 4294967296"
    "\<forall>k\<le>grown a n * hdr_stride a. alloc_ok k"
  shows "\<exists>a'. grow_loop alloc_ok n a 2 = Inr a' \<and> dyn_wf a' \<and> dyn_bytes a' = dyn_bytes a \<and>
    hdr_size a' = hdr_size a \<and> hdr_stride a' = hdr_stride a \<and> hdr_capacity a' = grown a n \<and>
    hdr_size a + n \<le> hdr_capacity a'"
proof -
  have s: "0 < hdr_stride a" using assms(1) by (simp add: dyn_wf_def)
  have g: "grown a n < 4294967296" using assms(2) s
    by (metis le_square mult.commute mult_le_mono1 nat_mult_1 One_nat_def Suc_leI le_less_trans)
  show ?thesis
  proof (cases "hdr_size a + n > hdr_capacity a")
    case False
    with g assms(1) have "wrap32 (hdr_size a + n) = hdr_size a + n"
      by (intro wrap32_id) (simp add: grown_def)
    with False assms(1) show ?thesis
      by (auto simp: grown_def numeral_2_eq_2)
  next
    case True
    let ?c = "max (hdr_capacity a * 2) (hdr_size a + n)"
    have c: "grown a n = ?c" using True by (simp add: grown_def)
    have w: "wrap32 (hdr_size a + n) = hdr_size a + n" "wrap32 (hdr_capacity a * 2) = hdr_capacity a * 2"
      using g c by auto
    have "0 < ?c" "hdr_size a \<le> ?c" using True by (simp_all add: le_max_iff_disj)
    then obtain b where
      b: "DynArrayResize alloc_ok a ?c = Inr b" "dyn_wf b" "dyn_bytes b = dyn_bytes a"
         "hdr_size b = hdr_size a" "hdr_stride b = hdr_stride a" "hdr_capacity b = ?c"
      using DynArrayResize_ok [OF assms(1), of ?c alloc_ok] assms c by auto
    have "grow_loop alloc_ok n a 2 = Inr b"
      using True w b by (simp add: numeral_2_eq_2 DYNARRAY_GROWTH_FACTOR_def MEMAX_max)
    with b c show ?thesis by auto
  qed
qed

lemma grown_small:
  assumes "dyn_wf a" "grown a n * hdr_stride a < 4294967296"
  shows "hdr_size a + n \<le> grown a n" "(hdr_size a + n) * hdr_stride a < 4294967296"
    "hdr_size a + n < 4294967296"
proof -
  show le: "hdr_size a + n \<le> grown a n" by (auto simp: grown_def)
  have "grown a n * 1 \<le> grown a n * hdr_stride a"
    using assms(1) by (intro mult_le_mono2) (simp add: dyn_wf_def)
  with le assms(2) show "hdr_size a + n < 4294967296" by linarith
  from mult_le_mono1 [OF le, of "hdr_stride a"] assms(2)
  show "(hdr_size a + n) * hdr_stride a < 4294967296" by linarith
qed

text \<open>Opening a gap by a block move and filling it.\<close>

lemma insert_block:
  assumes "length P = p" "length Q = q" "length objs = N" "N \<le> length R"
  shows "bindR (move_within (p + N) p q (P @ Q @ R)) (blit p objs) = Inr (P @ objs @ Q @ drop N R)"
proof -
  have "move_within (p + N) p q (P @ Q @ R) = Inr (P @ take N (Q @ R) @ Q @ drop (N + q) (Q @ R))"
    using assms by simp
  moreover have "drop (N + q) (Q @ R) = drop N R" using assms(2) by simp
  ultimately show ?thesis using assms by simp
qed

lemma push_store_trivial:
  assumes "index \<le> hdr_size a" "length objs = n * s" "hdr_stride a = s"
    "(hdr_size a + n) * s \<le> length mem" "(hdr_size a + n) * s < 4294967296"
    "hdr_size a + n < 4294967296"
  shows "push_store True tsize a objs n index mem =
    Inr (take (index * s) mem @ objs @ drop (index * s) (take (hdr_size a * s) mem) @
         drop ((hdr_size a + n) * s) mem)"
proof -
  let ?k = "hdr_size a"
  define p q N where "p = index * s" and "q = (?k - index) * s" and "N = n * s"
  define P Q R where "P = take p mem" and "Q = drop p (take (p + q) mem)" and "R = drop (p + q) mem"
  have pq: "p + q = ?k * s"
    unfolding p_def q_def using assms(1) by (simp flip: add_mult_distrib)
  have tot: "(?k + n) * s = p + q + N" unfolding N_def pq [symmetric] by (simp add: add_mult_distrib pq)
  have len: "length P = p" "length Q = q" "N \<le> length R"
    using assms(4) unfolding tot P_def Q_def R_def by simp_all
  have mem: "mem = P @ Q @ R"
    unfolding P_def Q_def R_def by (metis append.assoc append_take_drop_id drop_take add_diff_cancel_left' take_add)
  have w: "wrap32 (index + n) * s = p + N" "wrap32 (n * s) = N" "wrap32 ((?k - index) * s) = q"
    using assms(1,5,6) tot unfolding p_def q_def N_def by (simp_all add: add_mult_distrib)
  have res: "bindR (if index < ?k then move_within (p + N) p q mem else Inr mem) (blit p objs) =
      Inr (P @ objs @ Q @ drop N R)"
  proof (cases "index < ?k")
    case True
    with insert_block [of P p Q q objs N R] len assms(2) show ?thesis by (simp add: N_def flip: mem)
  next
    case False
    with assms(1) have "q = 0" by (simp add: q_def)
    then have "Q = []" using len(2) by simp
    moreover have "blit p objs (P @ R) = Inr (P @ objs @ drop N R)"
      using len assms(2) by (simp add: N_def)
    ultimately show ?thesis using False by (simp add: mem)
  qed
  have "drop ((?k + n) * s) mem = drop N R"
    unfolding tot R_def by (simp add: add.commute)
  moreover have "drop (index * s) (take (?k * s) mem) = Q" unfolding Q_def pq by (simp add: p_def)
  moreover have "take (index * s) mem = P" by (simp add: P_def p_def)
  moreover have "push_store True tsize a objs n index mem =
    bindR (if index < ?k then move_within (p + N) p q mem else Inr mem) (blit p objs)"
    using w assms(2,3) by (simp add: push_store_def Let_def N_def [symmetric]) (simp add: p_def)
  ultimately show ?thesis using res by simp
qed

lemma splice_take:
  "length objs = N \<Longrightarrow> I \<le> K \<Longrightarrow> K \<le> length mem \<Longrightarrow>
     take (K + N) (take I mem @ objs @ drop I (take K mem) @ rest) =
     take I (take K mem) @ objs @ drop I (take K mem)"
proof -
  assume a: "length objs = N" "I \<le> K" "K \<le> length mem"
  then have l: "length (take I mem @ objs @ drop I (take K mem)) = K + N" by simp
  then have "take (K + N) ((take I mem @ objs @ drop I (take K mem)) @ rest) =
      take I mem @ objs @ drop I (take K mem)"
    by (metis append_eq_conv_conj)
  with a(2) show ?thesis by (simp add: min_def)
qed

text \<open>
  Insertion of \<open>n\<close> objects: the bytes are spliced in at the index, whatever growth it takes.
\<close>

lemma DynArrayPushAt_bytes:
  assumes "dyn_wf a" "index \<le> hdr_size a" "length objs = n * hdr_stride a"
    "grown a n * hdr_stride a < 4294967296" "\<forall>k\<le>grown a n * hdr_stride a. alloc_ok k"
  shows "\<exists>a'. DynArrayPushAt alloc_ok True tsize a objs n index = Inr (True, a') \<and> dyn_wf a' \<and>
    hdr_size a' = hdr_size a + n \<and> hdr_stride a' = hdr_stride a \<and> hdr_capacity a' = grown a n \<and>
    dyn_bytes a' = take (index * hdr_stride a) (dyn_bytes a) @ objs @ drop (index * hdr_stride a) (dyn_bytes a)"
proof -
  let ?s = "hdr_stride a"
  from grow_loop_ok [OF assms(1,4,5)] obtain b where
    b: "grow_loop alloc_ok n a 2 = Inr b" "dyn_wf b" "dyn_bytes b = dyn_bytes a"
       "hdr_size b = hdr_size a" "hdr_stride b = ?s" "hdr_capacity b = grown a n"
       "hdr_size a + n \<le> hdr_capacity b" by blast
  obtain mem where m: "dyn_data b = Some mem" "length mem = grown a n * ?s"
    using b(2,5,6) by (auto simp: dyn_wf_def)
  note small = grown_small [OF assms(1,4)]
  have le: "(hdr_size a + n) * ?s \<le> length mem"
    using mult_le_mono1 [OF small(1), of ?s] m(2) by simp
  let ?new = "take (index * ?s) mem @ objs @ drop (index * ?s) (take (hdr_size a * ?s) mem) @
         drop ((hdr_size a + n) * ?s) mem"
  have st: "push_store True tsize b objs n index mem = Inr ?new"
    using push_store_trivial [of index b objs n ?s mem tsize] assms(2,3) b(4,5) le small by simp
  let ?a = "b\<lparr>dyn_data := Some ?new, hdr_size := hdr_size a + n\<rparr>"
  have "DynArrayPushAt alloc_ok True tsize a objs n index = Inr (True, ?a)"
    using b m st assms(2) small by (simp add: DynArrayPushAt_def del: grow_loop.simps)
  moreover have ks: "hdr_size a * ?s \<le> length mem" "index * ?s \<le> hdr_size a * ?s"
    using le assms(2) by (simp_all add: add_mult_distrib)
  have len: "length ?new = length mem"
    using ks le add_mult_distrib [of "hdr_size a" n ?s]
    by (simp only: length_append length_take length_drop assms(3))
  moreover have "dyn_wf ?a"
    using b(2,5,6) m len small(1) by (simp add: dyn_wf_def)
  moreover have "dyn_bytes ?a = take (index * ?s) (dyn_bytes a) @ objs @ drop (index * ?s) (dyn_bytes a)"
  proof -
    have bytes: "dyn_bytes a = take (hdr_size a * ?s) mem"
      using b(3,4,5) m(1) by (simp add: dyn_bytes_def)
    have "dyn_bytes ?a = take (hdr_size a * ?s + n * ?s) ?new"
      using b(5) by (simp add: dyn_bytes_def add_mult_distrib)
    also have "\<dots> = take (index * ?s) (take (hdr_size a * ?s) mem) @ objs @
        drop (index * ?s) (take (hdr_size a * ?s) mem)"
      by (rule splice_take [OF assms(3) ks(2,1)])
    finally show ?thesis unfolding bytes .
  qed
  ultimately show ?thesis using b(5,6) by (intro exI [of _ ?a]) simp
qed

lemma dyn_items_insert:
  assumes "length bs = k * s" "length objs = n * s" "i \<le> k"
  shows "chunks s (k + n) (take (i * s) bs @ objs @ drop (i * s) bs) =
    take i (chunks s k bs) @ chunks s n objs @ drop i (chunks s k bs)"
proof -
  have sp: "bs = take (i * s) bs @ drop (i * s) bs" by simp
  have l1: "length (take (i * s) bs) = i * s"
    using mult_le_mono1 [OF assms(3), of s] assms(1) by simp
  have "chunks s k bs = chunks s (i + (k - i)) (take (i * s) bs @ drop (i * s) bs)" using assms(3) by simp
  also have "\<dots> = chunks s i (take (i * s) bs) @ chunks s (k - i) (drop (i * s) bs)"
    using l1 by (rule chunks_append)
  finally have c: "chunks s k bs = chunks s i (take (i * s) bs) @ chunks s (k - i) (drop (i * s) bs)" .
  have "chunks s (i + (n + (k - i))) (take (i * s) bs @ objs @ drop (i * s) bs) =
      chunks s i (take (i * s) bs) @ chunks s n objs @ chunks s (k - i) (drop (i * s) bs)"
    using l1 assms(2) by (simp add: chunks_append)
  then show ?thesis using assms(3) unfolding c by (simp add: add.commute add.left_commute)
qed

lemma DynArrayPushAt_items:
  assumes "dyn_wf a" "index \<le> hdr_size a" "length objs = n * hdr_stride a"
    "grown a n * hdr_stride a < 4294967296" "\<forall>k\<le>grown a n * hdr_stride a. alloc_ok k"
  shows "\<exists>a'. DynArrayPushAt alloc_ok True tsize a objs n index = Inr (True, a') \<and> dyn_wf a' \<and>
    hdr_stride a' = hdr_stride a \<and> hdr_capacity a' = grown a n \<and> hdr_size a' = hdr_size a + n \<and>
    dyn_items a' = take index (dyn_items a) @ chunks (hdr_stride a) n objs @ drop index (dyn_items a)"
proof -
  from DynArrayPushAt_bytes [OF assms] obtain b where
    b: "DynArrayPushAt alloc_ok True tsize a objs n index = Inr (True, b)" "dyn_wf b"
       "hdr_size b = hdr_size a + n" "hdr_stride b = hdr_stride a" "hdr_capacity b = grown a n"
       "dyn_bytes b = take (index * hdr_stride a) (dyn_bytes a) @ objs @ drop (index * hdr_stride a) (dyn_bytes a)"
    by blast
  have "dyn_items b = take index (dyn_items a) @ chunks (hdr_stride a) n objs @ drop index (dyn_items a)"
    unfolding dyn_items_bytes [of a] dyn_items_bytes [of b] b(3,4,6)
    using dyn_wf_bytes [OF assms(1)] assms(2,3) by (intro dyn_items_insert) simp_all
  with b show ?thesis by blast
qed

lemma remove_block:
  assumes "length P = p" "length Q = s" "length R = q" "0 < s"
  shows "move_within p (p + s) q (P @ Q @ R @ S) = Inr (P @ R @ drop (p + q) (P @ Q @ R @ S))"
  using assms by simp

lemma DynArrayPopAt_bytes:
  assumes "dyn_wf a" "index < hdr_size a"
  shows "\<exists>a'. DynArrayPopAt a index =
      Inr (Some (take (hdr_stride a) (drop (index * hdr_stride a) (dyn_bytes a))), a') \<and> dyn_wf a' \<and>
    hdr_size a' = hdr_size a - 1 \<and> hdr_stride a' = hdr_stride a \<and> hdr_capacity a' = hdr_capacity a \<and>
    dyn_bytes a' = take (index * hdr_stride a) (dyn_bytes a) @ drop (Suc index * hdr_stride a) (dyn_bytes a)"
proof -
  let ?s = "hdr_stride a" and ?k = "hdr_size a"
  obtain mem where m: "dyn_data a = Some mem" "length mem = hdr_capacity a * ?s" "0 < ?s"
    "?k \<le> hdr_capacity a" "hdr_capacity a * ?s < 4294967296"
    using assms(1) by (auto simp: dyn_wf_def)
  define p q where "p = index * ?s" and "q = (?k - Suc index) * ?s"
  have tot: "?k * ?s = p + ?s + q"
  proof -
    have "?k = index + 1 + (?k - Suc index)" using assms(2) by simp
    then have "?k * ?s = (index + 1 + (?k - Suc index)) * ?s" by simp
    then show ?thesis by (simp add: p_def q_def algebra_simps)
  qed
  have ks: "?k * ?s \<le> length mem" using m(2,4) by simp
  define P Q R S where "P = take p mem" and "Q = take ?s (drop p mem)"
    and "R = take q (drop (p + ?s) mem)" and "S = drop (p + ?s + q) mem"
  have len: "length P = p" "length Q = ?s" "length R = q"
    using ks unfolding tot P_def Q_def R_def by simp_all
  have mem: "mem = P @ Q @ R @ S"
    unfolding P_def Q_def R_def S_def
    by (metis append.assoc append_take_drop_id drop_drop add.commute)
  have w: "wrap32 (index * ?s) = p" "wrap32 ((index + 1) * ?s) = p + ?s"
    "wrap32 ((?k - index - 1) * ?s) = q"
  proof -
    have b: "p + ?s + q < 4294967296" using ks tot m(2,5) by linarith
    then show "wrap32 (index * ?s) = p" by (simp add: p_def)
    have "(index + 1) * ?s = p + ?s" by (simp add: p_def)
    with b show "wrap32 ((index + 1) * ?s) = p + ?s" by simp
    have "?k - index - 1 = ?k - Suc index" by simp
    with b show "wrap32 ((?k - index - 1) * ?s) = q" by (simp add: q_def)
  qed
  let ?new = "if index \<noteq> ?k - 1 then P @ R @ drop (p + q) mem else mem"
  have mv: "(if index \<noteq> ?k - 1 then move_within p (p + ?s) q mem else Inr mem) = Inr ?new"
    using remove_block [of P p Q ?s R q S] len m(3) by (simp flip: mem)
  let ?a = "a\<lparr>dyn_data := Some ?new, hdr_size := ?k - 1\<rparr>"
  have "p + ?s \<le> length mem" using ks tot by simp
  then have "DynArrayPopAt a index = Inr (Some Q, ?a)"
    using assms(2) m(1) mv w unfolding Q_def
    by (cases "index = ?k - 1") (simp_all add: DynArrayPopAt_def Let_def)
  moreover have bytes: "dyn_bytes a = P @ Q @ R"
    using len by (simp add: dyn_bytes_def m(1) tot) (simp add: mem)
  moreover have "length ?new = length mem"
    using len ks tot by (auto simp: mem)
  then have "dyn_wf ?a" using assms(1) m by (auto simp: dyn_wf_def)
  moreover have "dyn_bytes ?a = P @ R"
  proof -
    have k: "(?k - 1) * ?s = p + q" using tot by (simp add: diff_mult_distrib)
    show ?thesis
    proof (cases "index = ?k - 1")
      case True
      then have "q = 0" by (simp add: q_def)
      with True k len show ?thesis by (simp add: dyn_bytes_def) (simp add: mem)
    next
      case False
      with k len show ?thesis by (simp add: dyn_bytes_def)
    qed
  qed
  moreover have "Suc index * ?s = p + ?s" by (simp add: p_def)
  ultimately show ?thesis
    using len by (intro exI [of _ ?a]) (simp flip: p_def)
qed

lemma chunks_remove:
  assumes "length bs = k * s" "i < k"
  shows "chunks s (k - 1) (take (i * s) bs @ drop (Suc i * s) bs) =
    take i (chunks s k bs) @ drop (Suc i) (chunks s k bs)"
proof -
  let ?P = "take (i * s) bs" and ?Q = "take s (drop (i * s) bs)" and ?R = "drop (Suc i * s) bs"
  have "Suc i * s \<le> length bs" using assms(2) unfolding assms(1) by (intro mult_le_mono1) simp
  then have l: "length ?P = i * s" "length ?Q = 1 * s" by simp_all
  have "bs = ?P @ ?Q @ ?R" by (simp add: append_take_drop_id add.commute flip: drop_drop)
  then have "chunks s k bs = chunks s (i + (1 + (k - Suc i))) (?P @ ?Q @ ?R)"
    using assms(2) by simp
  also have "\<dots> = chunks s i ?P @ chunks s 1 ?Q @ chunks s (k - Suc i) ?R"
    using l by (simp only: chunks_append)
  finally have c: "chunks s k bs = chunks s i ?P @ chunks s 1 ?Q @ chunks s (k - Suc i) ?R" .
  have "chunks s (i + (k - Suc i)) (?P @ ?R) = chunks s i ?P @ chunks s (k - Suc i) ?R"
    using l(1) by (rule chunks_append)
  then show ?thesis using assms(2) unfolding c by simp
qed

lemma DynArrayPopAt_items:
  assumes "dyn_wf a" "index < hdr_size a"
  shows "\<exists>a'. DynArrayPopAt a index = Inr (Some (dyn_items a ! index), a') \<and> dyn_wf a' \<and>
    hdr_size a' = hdr_size a - 1 \<and> hdr_stride a' = hdr_stride a \<and> hdr_capacity a' = hdr_capacity a \<and>
    dyn_items a' = take index (dyn_items a) @ drop (Suc index) (dyn_items a)"
proof -
  from DynArrayPopAt_bytes [OF assms] obtain b where
    b: "DynArrayPopAt a index = Inr (Some (take (hdr_stride a) (drop (index * hdr_stride a) (dyn_bytes a))), b)"
       "dyn_wf b" "hdr_size b = hdr_size a - 1" "hdr_stride b = hdr_stride a" "hdr_capacity b = hdr_capacity a"
       "dyn_bytes b = take (index * hdr_stride a) (dyn_bytes a) @ drop (Suc index * hdr_stride a) (dyn_bytes a)"
    by blast
  have "dyn_items b = take index (dyn_items a) @ drop (Suc index) (dyn_items a)"
    unfolding dyn_items_bytes [of a] dyn_items_bytes [of b] b(3,4,6)
    using dyn_wf_bytes [OF assms(1)] assms(2) by (intro chunks_remove)
  moreover have "take (hdr_stride a) (drop (index * hdr_stride a) (dyn_bytes a)) = dyn_items a ! index"
    using assms(2) by (simp add: dyn_items_bytes chunks_nth)
  ultimately show ?thesis using b by auto
qed

lemma DynArrayPush_item:
  assumes "dyn_wf a" "length x = hdr_stride a" "hdr_size a * hdr_stride a < 2147483648"
  shows "\<exists>a'. DynArrayPush (\<lambda>_. True) True tsize a x = Inr a' \<and> dyn_wf a' \<and>
    hdr_stride a' = hdr_stride a \<and> dyn_items a' = dyn_items a @ [x]"
proof -
  have cap: "hdr_size a \<le> hdr_capacity a" "hdr_capacity a * hdr_stride a < 4294967296"
    "0 < hdr_capacity a" "dyn_bool a"
    using assms(1) by (auto simp: dyn_wf_def dyn_bool_def)
  have "grown a 1 * hdr_stride a < 4294967296"
  proof (cases "hdr_size a + 1 > hdr_capacity a")
    case True
    with cap have "hdr_capacity a = hdr_size a" by simp
    with True cap(3) have "grown a 1 = 2 * hdr_size a" by (simp add: grown_def)
    with assms(3) show ?thesis by simp
  qed (use cap in \<open>simp add: grown_def\<close>)
  from DynArrayPushAt_items [OF assms(1) order_refl _ this, of x "\<lambda>_. True" tsize] assms(2)
  show ?thesis using cap(4)
    by (auto simp: DynArrayPush_def DynArrayGetSize_def dyn_items_def)
qed

lemma dyn_pop_item:
  assumes "dyn_wf a" "dyn_items a \<noteq> []"
  shows "\<exists>a'. dyn_pop a = Inr (last (dyn_items a), a') \<and> dyn_wf a' \<and>
    hdr_stride a' = hdr_stride a \<and> dyn_items a' = butlast (dyn_items a)"
proof -
  have n: "0 < hdr_size a" using assms(2) by (cases "hdr_size a") (auto simp: dyn_items_def)
  have "hdr_size a < 4294967296"
    using grown_small(3) [OF assms(1), of 0] assms(1) by (auto simp: dyn_wf_def grown_def)
  then have "wrap32 (hdr_size a + 4294967295) = hdr_size a - 1"
    using n by (cases "hdr_size a") (simp_all add: wrap32_def)
  moreover have "dyn_bool a" using assms(1) by (auto simp: dyn_wf_def dyn_bool_def)
  moreover have "length (dyn_items a) = hdr_size a" by (simp add: dyn_items_def)
  ultimately show ?thesis
    using DynArrayPopAt_items [OF assms(1), of "hdr_size a - 1"] n
    by (auto simp: dyn_pop_def DynArrayPop_def DynArrayGetSize_def last_conv_nth assms(2) butlast_conv_take)
qed

lemma dyn_index_ok:
  assumes "dyn_wf a" "i < length (dyn_items a)"
  shows "dyn_index a i = Inr (dyn_items a ! i)"
proof -
  have i: "i < hdr_size a" using assms(2) by (simp add: dyn_items_def)
  obtain mem where m: "dyn_data a = Some mem" "length mem = hdr_capacity a * hdr_stride a"
    "hdr_size a \<le> hdr_capacity a" using assms(1) by (auto simp: dyn_wf_def)
  have "Suc i * hdr_stride a \<le> hdr_capacity a * hdr_stride a" using i m(3) by (intro mult_le_mono1) simp
  with i m show ?thesis by (simp add: dyn_index_def dyn_items_def chunks_nth add.commute)
qed

interpretation dyn: growable_sequence "\<lambda>a. dyn_wf a \<and> hdr_stride a = s" dyn_items "\<lambda>x. length x = s"
    "2147483648 div s" "DynArrayPush (\<lambda>_. True) True s" dyn_pop dyn_index for s
proof unfold_locales
  fix a and x :: "u8 list" assume a: "dyn_wf a \<and> hdr_stride a = s" "length x = s" "length (dyn_items a) < 2147483648 div s"
  then have "hdr_size a < 2147483648 div s" by (simp add: dyn_items_def)
  then have "hdr_size a * s < 2147483648" using a(1)
    by (metis div_less_iff_less_mult dyn_wf_def linorder_not_less mult.commute order_less_le_trans
        times_div_less_eq_dividend nat_mult_less_cancel_disj)
  with DynArrayPush_item [of a x s] a show
    "\<exists>s'. DynArrayPush (\<lambda>_. True) True s a x = Inr s' \<and> (dyn_wf s' \<and> hdr_stride s' = s) \<and>
       dyn_items s' = dyn_items a @ [x]" by auto
next
  fix a assume "dyn_wf a \<and> hdr_stride a = s" "dyn_items a \<noteq> []"
  with dyn_pop_item [of a] show "\<exists>s'. dyn_pop a = Inr (last (dyn_items a), s') \<and>
      (dyn_wf s' \<and> hdr_stride s' = s) \<and> dyn_items s' = butlast (dyn_items a)" by auto
qed (simp add: dyn_index_ok)

section \<open>Properties\<close>

text \<open>
  C28. Pushing \<open>n\<close> elements of a trivially copyable type at an index in range splices them in
  there, keeps all others in order, and keeps the array well formed, through whatever
  reallocation it takes (the new capacity in bytes has to fit a \<open>u32\<close>).
\<close>

theorem DynArrayPushAt_inserts:
  assumes "dyn_wf a" "index \<le> hdr_size a" "length objs = n * hdr_stride a"
    "grown a n * hdr_stride a < 4294967296" "\<forall>k\<le>grown a n * hdr_stride a. alloc_ok k"
  shows "\<exists>a'. DynArrayPushAt alloc_ok True tsize a objs n index = Inr (True, a') \<and> dyn_wf a' \<and>
    hdr_size a' = hdr_size a + n \<and>
    dyn_items a' = take index (dyn_items a) @ chunks (hdr_stride a) n objs @ drop index (dyn_items a)"
  using DynArrayPushAt_items [OF assms] by blast

lemma DynArrayPushAt_inserts_witness:
  defines "a \<equiv> \<lparr>hdr_size = 2, hdr_capacity = 2, hdr_stride = 1, hdr_allocator = Some 0, dyn_data = Some [1, 2]\<rparr>"
  shows "\<exists>a'. DynArrayPushAt (\<lambda>k. k \<le> 5) True 1 a [7, 8, 9] 3 1 = Inr (True, a') \<and> dyn_wf a' \<and>
    hdr_size a' = hdr_size a + 3 \<and>
    dyn_items a' = take 1 (dyn_items a) @ chunks (hdr_stride a) 3 [7, 8, 9] @ drop 1 (dyn_items a)"
  by (rule DynArrayPushAt_inserts) (simp_all add: a_def dyn_wf_def grown_def)

text \<open>
  Popping at an index in range returns that element's bytes and closes the gap.
\<close>

theorem DynArrayPopAt_removes:
  assumes "dyn_wf a" "index < hdr_size a"
  shows "\<exists>a'. DynArrayPopAt a index = Inr (Some (dyn_items a ! index), a') \<and> dyn_wf a' \<and>
    hdr_size a' = hdr_size a - 1 \<and> hdr_capacity a' = hdr_capacity a \<and>
    dyn_items a' = take index (dyn_items a) @ drop (Suc index) (dyn_items a)"
  using DynArrayPopAt_items [OF assms] by blast

lemma DynArrayPopAt_removes_witness:
  defines "a \<equiv> \<lparr>hdr_size = 2, hdr_capacity = 2, hdr_stride = 2, hdr_allocator = Some 0, dyn_data = Some [1, 2, 3, 4]\<rparr>"
  shows "\<exists>a'. DynArrayPopAt a 0 = Inr (Some (dyn_items a ! 0), a') \<and> dyn_wf a' \<and>
    hdr_size a' = hdr_size a - 1 \<and> hdr_capacity a' = hdr_capacity a \<and>
    dyn_items a' = take 0 (dyn_items a) @ drop (Suc 0) (dyn_items a)"
  by (rule DynArrayPopAt_removes) (simp_all add: a_def dyn_wf_def)

text \<open>
  A run of single pushes onto a fresh array of the default capacity stores exactly the
  pushed elements, in order, and popping as many returns them in reverse.
\<close>

theorem DynArray_push_pop_run:
  assumes "0 < s" "8 * s < 4294967296" "\<forall>x\<in>set xs. length x = s" "length xs \<le> 2147483648 div s"
  shows "\<exists>a a1 a2. DynArrayCreate (\<lambda>_. True) al DynArrayDefaultCapacity s = Inr a \<and>
    push_run (DynArrayPush (\<lambda>_. True) True s) a xs = Inr a1 \<and> dyn_items a1 = xs \<and>
    pop_run dyn_pop a1 (length xs) = Inr (rev xs, a2) \<and> dyn_items a2 = []"
proof -
  have "\<exists>a. DynArrayCreate (\<lambda>_. True) al DynArrayDefaultCapacity s = Inr a \<and> dyn_wf a \<and> dyn_items a = [] \<and>
      hdr_stride a = s"
    using DynArrayCreate_wf [of 8 s "\<lambda>_. True" al] assms(1,2) by (auto simp: DynArrayDefaultCapacity_def)
  then obtain a where a: "DynArrayCreate (\<lambda>_. True) al DynArrayDefaultCapacity s = Inr a"
    "dyn_wf a \<and> hdr_stride a = s" "dyn_items a = []" by blast
  from dyn.push_run_items [OF a(2) assms(3)] a(3) assms(4) obtain a1 where
    a1: "push_run (DynArrayPush (\<lambda>_. True) True s) a xs = Inr a1" "dyn_items a1 = xs" by auto
  from dyn.lifo [OF a(2) assms(3)] a(3) a1(1) assms(4) show ?thesis using a(1) a1(2) by auto
qed

lemma DynArray_push_pop_run_witness:
  "\<exists>a a1 a2. DynArrayCreate (\<lambda>_. True) 0 DynArrayDefaultCapacity 2 = Inr a \<and>
    push_run (DynArrayPush (\<lambda>_. True) True 2) a [[1, 2], [3, 4]] = Inr a1 \<and> dyn_items a1 = [[1, 2], [3, 4]] \<and>
    pop_run dyn_pop a1 (length [[1, 2], [3, 4 :: u8]]) = Inr (rev [[1, 2], [3, 4]], a2) \<and> dyn_items a2 = []"
  by (rule DynArray_push_pop_run) simp_all

lemma shift_loop_fails: "\<nexists>m. shift_loop tsize to from i mem = Inr m"
  by (induction i arbitrary: mem) (auto simp: result_Inr)

text \<open>
  For element types that are not trivially copyable, inserting in front of an existing
  element never succeeds: the downward loop on an unsigned index runs past 0.
\<close>

theorem DynArrayPushAt_nontrivial_insert:
  assumes "index < hdr_size a"
  shows "\<not> (\<exists>r. DynArrayPushAt alloc_ok False tsize a objs n index = Inr r)"
proof -
  have sz: "hdr_size b = hdr_size a" if "grow_loop alloc_ok n a k = Inr b" for b k
    using that
  proof (induction k arbitrary: a)
    case (Suc k)
    have "hdr_size c = hdr_size a" if "DynArrayResize alloc_ok a m = Inr c" for c m
      using that by (auto simp: DynArrayResize_def result_Inr Let_def)
    with Suc show ?case by (auto simp: Let_def result_Inr split: if_splits)
  qed simp
  have "\<nexists>m. push_store False tsize b objs n index mem = Inr m" if "hdr_size b = hdr_size a" for b mem
    using that assms shift_loop_fails by (auto simp: push_store_def Let_def result_Inr)
  with sz assms show ?thesis
    by (auto simp: DynArrayPushAt_def result_Inr simp del: grow_loop.simps split: option.splits if_splits)
qed

lemma DynArrayPushAt_nontrivial_insert_witness:
  "\<not> (\<exists>r. DynArrayPushAt (\<lambda>_. True) False 1 \<lparr>hdr_size = 2, hdr_capacity = 4, hdr_stride = 1,
     hdr_allocator = Some 0, dyn_data = Some [1, 2, 0, 0]\<rparr> [7] 1 0 = Inr r)"
  by (rule DynArrayPushAt_nontrivial_insert) simp

text \<open>
  The engine's own test of the array passes every check up to the capacity, and fails
  there: after 24 elements the capacity is 32, not 40. And the capacity need not be a power of
  two: a bulk push takes it to whatever it needs.
\<close>

theorem DynArrayTests_fails:
  "(\<exists>arr. DynArrayTests_fill = Inr arr \<and> DynArrayGetCapacity arr = 32 \<and>
     DynArrayTests_rest arr = Inr ()) \<and> DynArrayTests = Inl AssertFailed \<and>
   (\<exists>arr arr'. DynArrayCreate (\<lambda>_. True) 0 DynArrayDefaultCapacity 1 = Inr arr \<and>
     DynArrayPushMany (\<lambda>_. True) True 1 arr (replicate 20 0) 20 = Inr arr' \<and>
     DynArrayGetCapacity arr' = 20)"
proof (intro conjI)
  have "bindR DynArrayTests_fill (\<lambda>arr. bindR (DynArrayTests_rest arr) (\<lambda>u. Inr (DynArrayGetCapacity arr))) = Inr 32"
    by code_simp
  then show "\<exists>arr. DynArrayTests_fill = Inr arr \<and> DynArrayGetCapacity arr = 32 \<and> DynArrayTests_rest arr = Inr ()"
    by (auto simp: bindR_Inr)
  show "DynArrayTests = Inl AssertFailed" by code_simp
  have "bindR (DynArrayCreate (\<lambda>_. True) 0 DynArrayDefaultCapacity 1) (\<lambda>arr.
      bindR (DynArrayPushMany (\<lambda>_. True) True 1 arr (replicate 20 0) 20) (\<lambda>arr. Inr (DynArrayGetCapacity arr))) = Inr 20"
    by code_simp
  then show "\<exists>arr arr'. DynArrayCreate (\<lambda>_. True) 0 DynArrayDefaultCapacity 1 = Inr arr \<and>
     DynArrayPushMany (\<lambda>_. True) True 1 arr (replicate 20 0) 20 = Inr arr' \<and>
     DynArrayGetCapacity arr' = 20"
    by (auto simp: bindR_Inr)
qed

end
