(* ===== verification/BlockLists.thy ===== *)
theory BlockLists
  imports Bits
begin

text \<open>
  The block list of \<open>core/containers/me_blocklist.h\<close> and \<open>.inl\<close>: blocks of \<open>BLOCK_SIZE\<close>
  slots with a bit per slot that is set while the slot is free. The chain of blocks is a
  list (\<open>head\<close> is its first element, \<open>tail\<close> its last, \<open>next\<close> the following one). Storing a
  value in a slot goes through the element type's assignment operator, an argument
  \<open>assign old new\<close> here; \<open>dflt\<close> is the value-initialised element of a fresh block. The locale
  \<open>slot_store\<close> is what the resource pools rely on.
\<close>

section \<open>State and operations\<close>

record 'a block =
  blk_data :: "'a list"
  blk_count :: nat
  freeBits :: bitarray

record 'a blocklist =
  blocks :: "'a block list"
  bl_size :: nat
  bl_allocator :: "nat option"

definition BLOCK_SIZE_DEFAULT :: nat where
  "BLOCK_SIZE_DEFAULT = 32"

definition meBlockList :: "nat option \<Rightarrow> 'a blocklist" where
  "meBlockList alloc = \<lparr>blocks = [], bl_size = 0, bl_allocator = alloc\<rparr>"

definition new_block :: "nat \<Rightarrow> 'a \<Rightarrow> 'a block" where
  "new_block BS dflt = \<lparr>blk_data = replicate BS dflt, blk_count = 0, freeBits = bitarray_init BS True\<rparr>"

text \<open>The first block that is not full: its number, or the number of blocks.\<close>

fun find_block :: "nat \<Rightarrow> 'a block list \<Rightarrow> nat" where
  "find_block BS [] = 0"
| "find_block BS (b # bs) = (if blk_count b = BS then Suc (find_block BS bs) else 0)"

definition block_store :: "nat \<Rightarrow> ('a \<Rightarrow> 'a \<Rightarrow> 'a) \<Rightarrow> 'a block \<Rightarrow> 'a \<Rightarrow> (nat \<times> 'a block) result" where
  "block_store BS assign blk value =
     bindR (scan_set (bitarray_get (freeBits blk)) 0 BS) (\<lambda>(idx, foundFree).
       if foundFree then
         bindR (readAt idx (blk_data blk)) (\<lambda>old.
         bindR (writeAt idx (assign old value) (blk_data blk)) (\<lambda>data.
         bindR (bitarray_set BS (freeBits blk) idx False) (\<lambda>bits.
           Inr (idx, \<lparr>blk_data = data, blk_count = wrap32 (blk_count blk + 1), freeBits = bits\<rparr>))))
       else Inl AssertFailed)"

definition bl_push :: "nat \<Rightarrow> 'a \<Rightarrow> ('a \<Rightarrow> 'a \<Rightarrow> 'a) \<Rightarrow> 'a blocklist \<Rightarrow> 'a \<Rightarrow> (nat \<times> 'a blocklist) result" where
  "bl_push BS dflt assign l value =
     (let blockIdx = find_block BS (blocks l)
      in bindR (if blockIdx < length (blocks l) then Inr (blocks l)
                else require NullDeref (bl_allocator l \<noteq> None) (Inr (blocks l @ [new_block BS dflt])))
           (\<lambda>bs. bindR (block_store BS assign (bs ! blockIdx) value) (\<lambda>(idx, blk).
              Inr (wrap32 (blockIdx * BS + idx),
                   l\<lparr>blocks := bs[blockIdx := blk], bl_size := wrap32 (bl_size l + 1)\<rparr>))))"

text \<open>
  \<open>bl_block\<close> is the walk along \<open>next\<close> to the block of an index, with the assertion that
  there is one.
\<close>

definition bl_block :: "nat \<Rightarrow> 'a blocklist \<Rightarrow> nat \<Rightarrow> 'a block result" where
  "bl_block BS l index =
     ME_ASSERT (index div BS < length (blocks l)) (Inr (blocks l ! (index div BS)))"

definition bl_markDeleted :: "nat \<Rightarrow> 'a blocklist \<Rightarrow> nat \<Rightarrow> 'a blocklist result" where
  "bl_markDeleted BS l index =
     bindR (bl_block BS l index) (\<lambda>blk.
     bindR (bitarray_get (freeBits blk) (index mod BS)) (\<lambda>free.
     ME_ASSERT (\<not> free)
       (bindR (bitarray_set BS (freeBits blk) (index mod BS) True) (\<lambda>bits.
         Inr (l\<lparr>blocks := (blocks l)[index div BS :=
                  blk\<lparr>freeBits := bits, blk_count := wrap32 (blk_count blk + 4294967295)\<rparr>],
                bl_size := wrap32 (bl_size l + 4294967295)\<rparr>)))))"

definition bl_clear :: "'a blocklist \<Rightarrow> 'a blocklist" where
  "bl_clear l = l\<lparr>blocks := [], bl_size := 0\<rparr>"

definition bl_get :: "nat \<Rightarrow> 'a blocklist \<Rightarrow> nat \<Rightarrow> 'a result" where
  "bl_get BS l index =
     bindR (bl_block BS l index) (\<lambda>blk.
     bindR (bitarray_get (freeBits blk) (index mod BS)) (\<lambda>free.
     ME_ASSERT (\<not> free) (readAt (index mod BS) (blk_data blk))))"

text \<open>Writing through the reference that \<open>get\<close> returns.\<close>

definition bl_put :: "nat \<Rightarrow> 'a blocklist \<Rightarrow> nat \<Rightarrow> 'a \<Rightarrow> 'a blocklist result" where
  "bl_put BS l index value =
     bindR (bl_get BS l index) (\<lambda>_.
     bindR (bl_block BS l index) (\<lambda>blk.
     bindR (writeAt (index mod BS) value (blk_data blk)) (\<lambda>data.
       Inr (l\<lparr>blocks := (blocks l)[index div BS := blk\<lparr>blk_data := data\<rparr>]\<rparr>))))"

definition bl_empty :: "'a blocklist \<Rightarrow> bool" where
  "bl_empty l \<longleftrightarrow> bl_size l = 0"

section \<open>Iterators\<close>

text \<open>
  An iterator is a block number and a slot; the number of blocks stands for the null
  pointer. \<open>skip_slots\<close> is the inner loop of \<open>skip_free\<close>, \<open>skip_blocks\<close> the outer one over
  the blocks from the iterator's on.
\<close>

type_synonym bl_iter = "nat \<times> nat"

fun skip_slots :: "bitarray \<Rightarrow> nat \<Rightarrow> nat \<Rightarrow> nat result" where
  "skip_slots bits idx 0 = Inr idx"
| "skip_slots bits idx (Suc left) =
     bindR (bitarray_get bits idx) (\<lambda>free. if free then skip_slots bits (Suc idx) left else Inr idx)"

fun skip_blocks :: "nat \<Rightarrow> 'a block list \<Rightarrow> nat \<Rightarrow> nat \<Rightarrow> bl_iter result" where
  "skip_blocks BS [] blk idx = Inr (blk, idx)"
| "skip_blocks BS (b # bs) blk idx =
     bindR (skip_slots (freeBits b) idx (BS - idx)) (\<lambda>idx.
       if idx < BS then Inr (blk, idx) else skip_blocks BS bs (Suc blk) 0)"

definition bl_skip_free :: "nat \<Rightarrow> 'a blocklist \<Rightarrow> bl_iter \<Rightarrow> bl_iter result" where
  "bl_skip_free BS l it = skip_blocks BS (drop (fst it) (blocks l)) (fst it) (snd it)"

definition bl_begin :: "nat \<Rightarrow> 'a blocklist \<Rightarrow> bl_iter result" where
  "bl_begin BS l = bl_skip_free BS l (0, 0)"

definition bl_end :: "'a blocklist \<Rightarrow> bl_iter" where
  "bl_end l = (length (blocks l), 0)"

definition bl_deref :: "'a blocklist \<Rightarrow> bl_iter \<Rightarrow> 'a result" where
  "bl_deref l it =
     require NullDeref (fst it < length (blocks l)) (readAt (snd it) (blk_data (blocks l ! fst it)))"

definition bl_next :: "nat \<Rightarrow> 'a blocklist \<Rightarrow> bl_iter \<Rightarrow> bl_iter result" where
  "bl_next BS l it = bl_skip_free BS l (fst it, Suc (snd it))"

text \<open>The range-for loop: the values from an iterator to the end; \<open>fuel\<close> bounds the steps.\<close>

fun bl_iterate :: "nat \<Rightarrow> 'a blocklist \<Rightarrow> bl_iter \<Rightarrow> nat \<Rightarrow> 'a list result" where
  "bl_iterate BS l it 0 = Inl NoReturn"
| "bl_iterate BS l it (Suc fuel) =
     (if it = bl_end l then Inr []
      else bindR (bl_deref l it) (\<lambda>x. bindR (bl_next BS l it) (\<lambda>it.
             bindR (bl_iterate BS l it fuel) (\<lambda>xs. Inr (x # xs)))))"

definition bl_values :: "nat \<Rightarrow> 'a blocklist \<Rightarrow> 'a list result" where
  "bl_values BS l = bindR (bl_begin BS l) (\<lambda>it. bl_iterate BS l it (Suc (BS * length (blocks l))))"

section \<open>Well-formed block lists\<close>

definition block_free :: "nat \<Rightarrow> 'a block \<Rightarrow> nat \<Rightarrow> bool" where
  "block_free BS b j = bitarray_bits BS (freeBits b) ! j"

definition block_wf :: "nat \<Rightarrow> 'a block \<Rightarrow> bool" where
  "block_wf BS b \<longleftrightarrow> length (blk_data b) = BS \<and> bitarray_wf BS (freeBits b) \<and>
     blk_count b = length (filter Not (bitarray_bits BS (freeBits b)))"

definition bl_wf :: "nat \<Rightarrow> 'a blocklist \<Rightarrow> bool" where
  "bl_wf BS l \<longleftrightarrow> 0 < BS \<and> bl_allocator l \<noteq> None \<and> (\<forall>b\<in>set (blocks l). block_wf BS b) \<and>
     bl_size l = sum_list (map blk_count (blocks l)) \<and> length (blocks l) * BS < 4294967296"

text \<open>
  The abstract state: which indices are live, and what every slot holds, live or not (a
  slot that does not exist yet holds \<open>dflt\<close>).
\<close>

definition bl_live :: "nat \<Rightarrow> 'a blocklist \<Rightarrow> nat set" where
  "bl_live BS l = {i. i div BS < length (blocks l) \<and> \<not> block_free BS (blocks l ! (i div BS)) (i mod BS)}"

definition bl_raw :: "nat \<Rightarrow> 'a \<Rightarrow> 'a blocklist \<Rightarrow> nat \<Rightarrow> 'a" where
  "bl_raw BS dflt l i =
     (if i div BS < length (blocks l) then blk_data (blocks l ! (i div BS)) ! (i mod BS) else dflt)"

definition bl_room :: "nat \<Rightarrow> 'a blocklist \<Rightarrow> bool" where
  "bl_room BS l \<longleftrightarrow> length (blocks l) * BS + BS < 4294967296"

lemma count_le: "block_wf BS b \<Longrightarrow> blk_count b \<le> BS"
  unfolding block_wf_def by (metis length_bitarray_bits length_filter_le)

lemma count_full:
  "block_wf BS b \<Longrightarrow> blk_count b \<noteq> BS \<Longrightarrow> \<exists>j<BS. block_free BS b j"
proof (rule ccontr)
  assume b: "block_wf BS b" "blk_count b \<noteq> BS" "\<not> (\<exists>j<BS. block_free BS b j)"
  then have "filter Not (bitarray_bits BS (freeBits b)) = bitarray_bits BS (freeBits b)"
    by (auto simp: filter_id_conv in_set_conv_nth block_free_def)
  with b show False by (simp add: block_wf_def)
qed

lemma new_block_wf: "block_wf BS (new_block BS dflt)"
  by (simp add: block_wf_def new_block_def bitarray_wf_init bitarray_bits_init)

lemma new_block_free: "j < BS \<Longrightarrow> block_free BS (new_block BS dflt) j"
  by (simp add: block_free_def new_block_def bitarray_bits_init)

lemma count_split:
  "j < length bs \<Longrightarrow> length (filter Not (bs[j := v])) =
     length (filter Not (take j bs)) + (if v then 0 else 1) + length (filter Not (drop (Suc j) bs))"
  by (simp add: upd_conv_take_nth_drop)

lemma count_update:
  assumes "j < length bs"
  shows "length (filter Not (bs[j := v])) + (if bs ! j then 0 else 1) =
     length (filter Not bs) + (if v then 0 else 1)"
proof -
  have "length (filter Not (bs[j := bs ! j])) =
     length (filter Not (take j bs)) + (if bs ! j then 0 else 1) + length (filter Not (drop (Suc j) bs))"
    using assms by (rule count_split)
  with count_split [OF assms, of v] show ?thesis by (simp only: list_update_id)
qed

lemma block_store_ok:
  assumes "block_wf BS b" "blk_count b \<noteq> BS" "BS < 4294967296"
  shows "\<exists>j b'. block_store BS assign b v = Inr (j, b') \<and> j < BS \<and> block_free BS b j \<and>
    (\<forall>i<j. \<not> block_free BS b i) \<and> block_wf BS b' \<and> blk_count b' = Suc (blk_count b) \<and>
    blk_data b' = (blk_data b)[j := assign (blk_data b ! j) v] \<and>
    (\<forall>i<BS. block_free BS b' i = (if i = j then False else block_free BS b i))"
proof -
  have wf: "bitarray_wf BS (freeBits b)" "length (blk_data b) = BS" using assms(1) by (simp_all add: block_wf_def)
  have "\<exists>i. 0 \<le> i \<and> i < BS \<and> bitarray_bits BS (freeBits b) ! i"
    using count_full [OF assms(1,2)] by (auto simp: block_free_def)
  from bitarray.scan_found [OF wf(1) _ this] obtain j where
    j: "scan_set (bitarray_get (freeBits b)) 0 BS = Inr (j, True)" "j < BS"
       "bitarray_bits BS (freeBits b) ! j" "\<forall>i. 0 \<le> i \<and> i < j \<longrightarrow> \<not> bitarray_bits BS (freeBits b) ! i"
    by auto
  from bitarray_set_spec [OF wf(1) j(2), of False] obtain bits where
    bits: "bitarray_set BS (freeBits b) j False = Inr bits" "bitarray_wf BS bits"
          "bitarray_bits BS bits = (bitarray_bits BS (freeBits b))[j := False]" by blast
  have cnt: "length (filter Not (bitarray_bits BS bits)) = Suc (blk_count b)"
    using count_update [of j "bitarray_bits BS (freeBits b)" False] assms(1) j(2,3)
    by (simp add: bits(3) block_wf_def)
  have "blk_count b < BS" using count_le [OF assms(1)] assms(2) by simp
  then have w: "wrap32 (blk_count b + 1) = Suc (blk_count b)" using assms(3) by simp
  let ?b = "\<lparr>blk_data = (blk_data b)[j := assign (blk_data b ! j) v], blk_count = Suc (blk_count b), freeBits = bits\<rparr>"
  have "block_store BS assign b v = Inr (j, ?b)"
    using j(1,2) wf(2) bits(1) w by (simp add: block_store_def)
  moreover have "block_wf BS ?b" using wf(2) bits(2) cnt by (simp add: block_wf_def)
  moreover have "\<forall>i<BS. block_free BS ?b i = (if i = j then False else block_free BS b i)"
    using j(2) by (auto simp: block_free_def bits(3) nth_list_update)
  ultimately show ?thesis using j(2,3,4) by (intro exI [of _ j] exI [of _ ?b]) (simp add: block_free_def)
qed

lemma find_block_le: "find_block BS bs \<le> length bs"
  by (induction bs) auto

lemma find_block_props:
  "find_block BS bs < length bs \<Longrightarrow> blk_count (bs ! find_block BS bs) \<noteq> BS"
  "i < find_block BS bs \<Longrightarrow> blk_count (bs ! i) = BS"
  by (induction bs arbitrary: i) (auto split: if_splits simp: less_Suc_eq_0_disj)

lemma sum_counts_update:
  "i < length bs \<Longrightarrow> sum_list (map blk_count (bs[i := b])) + blk_count (bs ! i) =
     sum_list (map blk_count bs) + blk_count b"
proof (induction bs arbitrary: i)
  case (Cons c bs)
  then show ?case by (cases i) auto
qed simp

lemma sum_counts_le: "\<forall>b\<in>set bs. block_wf BS b \<Longrightarrow> sum_list (map blk_count bs) \<le> length bs * BS"
  by (induction bs) (auto dest: count_le)

lemma idx_div_mod: "j < BS \<Longrightarrow> (i * BS + j) div BS = i \<and> (i * BS + j) mod BS = (j :: nat)"
  by simp

lemma live_raw_update:
  assumes "0 < BS" "i < length bs" "j < BS" "length (blk_data (bs ! i)) = BS"
    "blk_data b' = (blk_data (bs ! i))[j := v]"
    "\<forall>r<BS. block_free BS b' r = (if r = j then f else block_free BS (bs ! i) r)"
    "blocks l = bs" "blocks l' = bs[i := b']"
  shows "bl_live BS l' = (if f then bl_live BS l - {i * BS + j} else insert (i * BS + j) (bl_live BS l))"
    and "bl_raw BS dflt l' = (bl_raw BS dflt l)(i * BS + j := v)"
proof -
  have eq: "x = i * BS + j \<longleftrightarrow> x div BS = i \<and> x mod BS = j" for x
    using assms(3) by (metis div_mult_mod_eq idx_div_mod)
  show "bl_live BS l' = (if f then bl_live BS l - {i * BS + j} else insert (i * BS + j) (bl_live BS l))"
  proof (rule set_eqI)
    fix x
    have "x mod BS < BS" using assms(1) by simp
    then show "x \<in> bl_live BS l' \<longleftrightarrow>
        x \<in> (if f then bl_live BS l - {i * BS + j} else insert (i * BS + j) (bl_live BS l))"
      using assms(2,6-8) eq [of x]
      by (cases "x div BS = i") (auto simp: bl_live_def nth_list_update split: if_splits)
  qed
  show "bl_raw BS dflt l' = (bl_raw BS dflt l)(i * BS + j := v)"
  proof (rule ext)
    fix x
    have "x mod BS < BS" using assms(1) by simp
    then show "bl_raw BS dflt l' x = ((bl_raw BS dflt l)(i * BS + j := v)) x"
      using assms(2-5,7,8) eq [of x]
      by (cases "x div BS = i") (auto simp: bl_raw_def nth_list_update)
  qed
qed

lemma live_raw_new_block:
  assumes "0 < BS" "blocks l' = blocks l @ [new_block BS dflt]"
  shows "bl_live BS l' = bl_live BS l" and "bl_raw BS dflt l' = bl_raw BS dflt l"
proof -
  have "x mod BS < BS" for x using assms(1) by simp
  then show "bl_live BS l' = bl_live BS l"
    using assms(2) by (auto simp: bl_live_def nth_append new_block_free less_Suc_eq split: if_splits)
  show "bl_raw BS dflt l' = bl_raw BS dflt l"
    using assms by (auto simp: bl_raw_def nth_append fun_eq_iff new_block_def less_Suc_eq)
qed

lemma bl_push_ok:
  assumes "bl_wf BS l" "bl_room BS l"
  shows "\<exists>k l'. bl_push BS dflt assign l v = Inr (k, l') \<and> bl_wf BS l' \<and> k \<notin> bl_live BS l \<and>
    (\<forall>x<k. x \<in> bl_live BS l) \<and> bl_live BS l' = insert k (bl_live BS l) \<and>
    bl_raw BS dflt l' = (bl_raw BS dflt l)(k := assign (bl_raw BS dflt l k) v) \<and>
    bl_size l' = Suc (bl_size l) \<and> bl_allocator l' = bl_allocator l \<and>
    k < length (blocks l) * BS + BS"
proof -
  let ?i = "find_block BS (blocks l)" and ?n = "length (blocks l)"
  define bs where "bs = (if ?i < ?n then blocks l else blocks l @ [new_block BS dflt])"
  define l0 where "l0 = l\<lparr>blocks := bs\<rparr>"
  have BS: "0 < BS" "BS < 4294967296" "bl_allocator l \<noteq> None" "?n * BS + BS < 4294967296"
    using assms by (auto simp: bl_wf_def bl_room_def)
  have in_le: "?i \<le> ?n" by (rule find_block_le)
  have i: "?i < length bs" using in_le by (auto simp: bs_def)
  have wfs: "\<forall>b\<in>set bs. block_wf BS b"
    using assms(1) new_block_wf by (auto simp: bl_wf_def bs_def)
  have wfi: "block_wf BS (bs ! ?i)" using wfs i nth_mem by blast
  have notfull: "blk_count (bs ! ?i) \<noteq> BS"
  proof (cases "?i < ?n")
    case True
    then show ?thesis by (simp add: bs_def find_block_props)
  next
    case False
    with in_le have "?i = ?n" by simp
    then show ?thesis using BS(1) by (simp add: bs_def nth_append new_block_def)
  qed
  from block_store_ok [OF wfi notfull BS(2), of assign v] obtain j b' where
    b': "block_store BS assign (bs ! ?i) v = Inr (j, b')" "j < BS" "block_free BS (bs ! ?i) j"
      "\<forall>r<j. \<not> block_free BS (bs ! ?i) r" "block_wf BS b'" "blk_count b' = Suc (blk_count (bs ! ?i))"
      "blk_data b' = (blk_data (bs ! ?i))[j := assign (blk_data (bs ! ?i) ! j) v]"
      "\<forall>r<BS. block_free BS b' r = (if r = j then False else block_free BS (bs ! ?i) r)" by blast
  let ?k = "?i * BS + j"
  let ?l = "l\<lparr>blocks := bs[?i := b'], bl_size := Suc (bl_size l)\<rparr>"
  have idx: "?k div BS = ?i" "?k mod BS = j" using b'(2) by (simp_all add: idx_div_mod)
  have "?i * BS \<le> ?n * BS" using in_le by (rule mult_le_mono1)
  then have klt: "?k < ?n * BS + BS" using b'(2) by linarith
  then have kw: "wrap32 ?k = ?k" using b'(2) BS(4) by (intro wrap32_id) linarith
  have sz: "bl_size l \<le> ?n * BS" using assms(1) sum_counts_le by (auto simp: bl_wf_def)
  then have sw: "wrap32 (bl_size l + 1) = Suc (bl_size l)" using BS(1,4) by simp
  have push: "bl_push BS dflt assign l v = Inr (?k, ?l)"
    using b'(1) kw sw BS(3) by (auto simp: bl_push_def Let_def bs_def)
  have l0: "bl_live BS l0 = bl_live BS l" "bl_raw BS dflt l0 = bl_raw BS dflt l" "blocks l0 = bs"
    using live_raw_new_block [of BS l0 l dflt] BS(1) by (auto simp: l0_def bs_def bl_live_def bl_raw_def)
  have len: "length (blk_data (bs ! ?i)) = BS" using wfi by (simp add: block_wf_def)
  have l': "blocks ?l = bs[?i := b']" by simp
  have live: "bl_live BS ?l = insert ?k (bl_live BS l)"
    using live_raw_update(1) [OF BS(1) i b'(2) len b'(7,8) l0(3) l'] l0(1) by simp
  have raw: "bl_raw BS dflt ?l = (bl_raw BS dflt l)(?k := assign (blk_data (bs ! ?i) ! j) v)"
    using live_raw_update(2) [OF BS(1) i b'(2) len b'(7,8) l0(3) l', of dflt] l0(2) by simp
  have old: "blk_data (bs ! ?i) ! j = bl_raw BS dflt l ?k"
    unfolding l0(2) [symmetric] by (simp only: bl_raw_def l0(3) idx i if_True)
  have notin: "?k \<notin> bl_live BS l"
    unfolding l0(1) [symmetric]
    by (simp only: bl_live_def l0(3) mem_Collect_eq idx b'(3) not_True_eq_False simp_thms)
  have below: "x \<in> bl_live BS l" if "x < ?k" for x
  proof (cases "x div BS = ?i")
    case True
    then have "x mod BS < j" using that
      by (metis add_less_cancel_left div_mult_mod_eq)
    with b'(4) have "\<not> block_free BS (bs ! ?i) (x mod BS)" by blast
    then have "x \<in> bl_live BS l0" using i by (simp only: bl_live_def l0(3) mem_Collect_eq True simp_thms)
    then show ?thesis unfolding l0(1) .
  next
    case False
    have "x div BS \<le> ?i" using that idx(1) by (metis div_le_mono less_imp_le)
    with False have lt: "x div BS < ?i" by simp
    then have n: "x div BS < ?n" using in_le by simp
    have wf: "block_wf BS (blocks l ! (x div BS))" using assms(1) n by (simp add: bl_wf_def)
    have full: "blk_count (blocks l ! (x div BS)) = BS" using lt by (rule find_block_props)
    have "\<not> block_free BS (blocks l ! (x div BS)) (x mod BS)"
    proof
      assume "block_free BS (blocks l ! (x div BS)) (x mod BS)"
      then have "bitarray_bits BS (freeBits (blocks l ! (x div BS))) ! (x mod BS)"
        by (simp add: block_free_def)
      moreover have "x mod BS < BS" using BS(1) by simp
      ultimately have "\<exists>c\<in>set (bitarray_bits BS (freeBits (blocks l ! (x div BS)))). \<not> Not c"
        by (metis length_bitarray_bits nth_mem)
      then have "length (filter Not (bitarray_bits BS (freeBits (blocks l ! (x div BS))))) < BS"
        by (metis length_bitarray_bits length_filter_less)
      with wf full show False by (simp add: block_wf_def)
    qed
    with n show ?thesis by (simp add: bl_live_def)
  qed
  have sum: "sum_list (map blk_count (bs[?i := b'])) = Suc (bl_size l)"
    using sum_counts_update [OF i, of b'] b'(6) assms(1)
    by (auto simp: bl_wf_def new_block_def bs_def split: if_splits)
  have "length bs \<le> Suc ?n" by (simp add: bs_def)
  then have "length bs * BS \<le> Suc ?n * BS" by (rule mult_le_mono1)
  then have "length bs * BS < 4294967296" using BS(4) by simp
  then have "bl_wf BS ?l"
    using sum BS wfs b'(5) by (auto simp: bl_wf_def dest!: set_update_subset_insert [THEN subsetD])
  with push live raw old notin below klt show ?thesis by (intro exI [of _ ?k] exI [of _ ?l]) simp
qed

lemma bl_live_wf:
  assumes "bl_wf BS l" "k \<in> bl_live BS l"
  shows "k div BS < length (blocks l)" "block_wf BS (blocks l ! (k div BS))" "k mod BS < BS"
    "bl_block BS l k = Inr (blocks l ! (k div BS))"
    "bitarray_get (freeBits (blocks l ! (k div BS))) (k mod BS) = Inr False"
proof -
  show i: "k div BS < length (blocks l)" and m: "k mod BS < BS"
    using assms by (auto simp: bl_live_def bl_wf_def)
  then show w: "block_wf BS (blocks l ! (k div BS))" using assms(1) by (simp add: bl_wf_def)
  show "bl_block BS l k = Inr (blocks l ! (k div BS))" using i by (simp add: bl_block_def)
  show "bitarray_get (freeBits (blocks l ! (k div BS))) (k mod BS) = Inr False"
    using assms(2) w m bitarray_get_ok [of BS "freeBits (blocks l ! (k div BS))" "k mod BS"]
    by (simp add: block_wf_def bl_live_def block_free_def)
qed

lemma bl_dead:
  assumes "bl_wf BS l" "k \<notin> bl_live BS l"
  shows "bl_get BS l k = Inl AssertFailed" "bl_markDeleted BS l k = Inl AssertFailed"
    "bl_put BS l k v = Inl AssertFailed"
proof -
  have "bl_get BS l k = Inl AssertFailed \<and> bl_markDeleted BS l k = Inl AssertFailed"
  proof (cases "k div BS < length (blocks l)")
    case True
    moreover have "k mod BS < BS" using assms(1) by (simp add: bl_wf_def)
    moreover have "block_wf BS (blocks l ! (k div BS))" using assms(1) True by (simp add: bl_wf_def)
    ultimately have "bitarray_get (freeBits (blocks l ! (k div BS))) (k mod BS) = Inr True"
      using assms(2) True bitarray_get_ok [of BS "freeBits (blocks l ! (k div BS))" "k mod BS"]
      by (simp add: block_wf_def bl_live_def block_free_def)
    with True show ?thesis by (simp add: bl_get_def bl_markDeleted_def bl_block_def)
  qed (simp add: bl_get_def bl_markDeleted_def bl_block_def)
  then show "bl_get BS l k = Inl AssertFailed" "bl_markDeleted BS l k = Inl AssertFailed"
    "bl_put BS l k v = Inl AssertFailed" by (simp_all add: bl_put_def)
qed

lemma bl_get_ok:
  assumes "bl_wf BS l" "k \<in> bl_live BS l"
  shows "bl_get BS l k = Inr (bl_raw BS dflt l k)"
  using bl_live_wf [OF assms] by (simp add: bl_get_def bl_raw_def block_wf_def)

lemma bl_put_ok:
  assumes "bl_wf BS l" "k \<in> bl_live BS l"
  shows "\<exists>l'. bl_put BS l k v = Inr l' \<and> bl_wf BS l' \<and> bl_live BS l' = bl_live BS l \<and>
    bl_raw BS dflt l' = (bl_raw BS dflt l)(k := v) \<and> bl_size l' = bl_size l \<and>
    length (blocks l') = length (blocks l)"
proof -
  note w = bl_live_wf [OF assms]
  let ?b = "blocks l ! (k div BS)"
  let ?b' = "?b\<lparr>blk_data := (blk_data ?b)[k mod BS := v]\<rparr>"
  let ?l = "l\<lparr>blocks := (blocks l)[k div BS := ?b']\<rparr>"
  have BS: "0 < BS" using assms(1) by (simp add: bl_wf_def)
  have k: "k div BS * BS + k mod BS = k" by simp
  have len: "length (blk_data ?b) = BS" using w(2) by (simp add: block_wf_def)
  have free: "\<forall>r<BS. block_free BS ?b' r = (if r = k mod BS then False else block_free BS ?b r)"
    using assms(2) by (simp add: block_free_def bl_live_def)
  have "bl_put BS l k v = Inr ?l"
    using w bl_get_ok [OF assms, of v] len by (simp add: bl_put_def)
  moreover have "bl_live BS ?l = bl_live BS l"
    using live_raw_update(1) [OF BS w(1) w(3) len _ free refl, of v ?l] assms(2) k by (auto simp: insert_absorb)
  moreover have "bl_raw BS dflt ?l = (bl_raw BS dflt l)(k := v)"
    using live_raw_update(2) [OF BS w(1) w(3) len _ free refl, of v ?l dflt] k by simp
  moreover have "sum_list (map blk_count (blocks ?l)) = sum_list (map blk_count (blocks l))"
    using sum_counts_update [OF w(1), of ?b'] by simp
  then have "bl_wf BS ?l"
    using assms(1) w(2) by (auto simp: bl_wf_def block_wf_def dest!: set_update_subset_insert [THEN subsetD])
  ultimately show ?thesis by (intro exI [of _ ?l]) simp
qed

lemma bl_markDeleted_ok:
  assumes "bl_wf BS l" "k \<in> bl_live BS l"
  shows "\<exists>l'. bl_markDeleted BS l k = Inr l' \<and> bl_wf BS l' \<and> bl_live BS l' = bl_live BS l - {k} \<and>
    bl_raw BS dflt l' = bl_raw BS dflt l \<and> bl_size l = Suc (bl_size l') \<and>
    length (blocks l') = length (blocks l)"
proof -
  note w = bl_live_wf [OF assms]
  let ?b = "blocks l ! (k div BS)"
  from w(2) have wb: "bitarray_wf BS (freeBits ?b)" by (simp add: block_wf_def)
  from bitarray_set_spec [OF wb w(3), of True] obtain bits where
    bits: "bitarray_set BS (freeBits ?b) (k mod BS) True = Inr bits" "bitarray_wf BS bits"
      "bitarray_bits BS bits = (bitarray_bits BS (freeBits ?b))[k mod BS := True]" by blast
  have used: "\<not> bitarray_bits BS (freeBits ?b) ! (k mod BS)"
    using assms(2) by (simp add: bl_live_def block_free_def)
  have cnt: "Suc (length (filter Not (bitarray_bits BS bits))) = blk_count ?b"
    using count_update [of "k mod BS" "bitarray_bits BS (freeBits ?b)" True] used w(2,3)
    by (simp add: bits(3) block_wf_def)
  have BS: "0 < BS" "length (blocks l) * BS < 4294967296" "bl_size l = sum_list (map blk_count (blocks l))"
    using assms(1) by (auto simp: bl_wf_def)
  have "1 * BS \<le> length (blocks l) * BS" using w(1) by (intro mult_le_mono1) simp
  then have "blk_count ?b < 4294967296" using count_le [OF w(2)] BS(2) by linarith
  then have c: "wrap32 (blk_count ?b + 4294967295) = blk_count ?b - 1"
    using cnt by (cases "blk_count ?b") (simp_all add: wrap32_def)
  have pos: "blk_count ?b \<le> bl_size l"
    unfolding BS(3) using w(1) by (intro member_le_sum_list) (simp_all add: nth_mem)
  have "bl_size l \<le> length (blocks l) * BS" using assms(1) sum_counts_le by (auto simp: bl_wf_def)
  then have s: "wrap32 (bl_size l + 4294967295) = bl_size l - 1"
    using pos cnt BS(2) by (cases "bl_size l") (simp_all add: wrap32_def)
  let ?b' = "?b\<lparr>freeBits := bits, blk_count := blk_count ?b - 1\<rparr>"
  let ?l = "l\<lparr>blocks := (blocks l)[k div BS := ?b'], bl_size := bl_size l - 1\<rparr>"
  have k: "k div BS * BS + k mod BS = k" by simp
  have len: "length (blk_data ?b) = BS" using w(2) by (simp add: block_wf_def)
  have free: "\<forall>r<BS. block_free BS ?b' r = (if r = k mod BS then True else block_free BS ?b r)"
    using w(3) by (auto simp: block_free_def bits(3) nth_list_update)
  have data: "blk_data ?b' = (blk_data ?b)[k mod BS := blk_data ?b ! (k mod BS)]" by simp
  have "bl_markDeleted BS l k = Inr ?l"
    using w bits(1) c s by (simp add: bl_markDeleted_def)
  moreover have "bl_live BS ?l = bl_live BS l - {k}"
    using live_raw_update(1) [OF BS(1) w(1) w(3) len data free refl, of ?l] k by simp
  moreover have "bl_raw BS dflt ?l = bl_raw BS dflt l"
    using live_raw_update(2) [OF BS(1) w(1) w(3) len data free refl, of ?l dflt] k w(1)
    by (auto simp: bl_raw_def fun_eq_iff)
  moreover have "sum_list (map blk_count (blocks ?l)) = bl_size l - 1"
    using sum_counts_update [OF w(1), of ?b'] pos cnt BS(3) by simp
  moreover have "block_wf BS ?b'" using w(2) bits(2) cnt by (simp add: block_wf_def)
  ultimately show ?thesis
    using assms(1) pos cnt
    by (intro exI [of _ ?l]) (auto simp: bl_wf_def dest!: set_update_subset_insert [THEN subsetD])
qed

section \<open>The interface: a store of slots\<close>

text \<open>
  What the owner of a slot store relies on: inserting takes a slot that is not live and
  assigns to it, every other slot keeps its state and content, live slots are read and
  written, and dead ones are refused. Runs of insertions and deletions stop when the store
  is out of room.
\<close>

datatype 'v slot_op = SInsert 'v | SDelete nat

fun slot_run ::
  "('s \<Rightarrow> bool) \<Rightarrow> ('s \<Rightarrow> 'v \<Rightarrow> (nat \<times> 's) result) \<Rightarrow> ('s \<Rightarrow> nat \<Rightarrow> 's result) \<Rightarrow> 's \<Rightarrow> 'v slot_op list \<Rightarrow> 's result" where
  "slot_run room ins del s [] = Inr s"
| "slot_run room ins del s (SInsert v # ops) =
     ME_ASSERT (room s) (bindR (ins s v) (\<lambda>(k, s'). slot_run room ins del s' ops))"
| "slot_run room ins del s (SDelete k # ops) =
     bindR (del s k) (\<lambda>s'. slot_run room ins del s' ops)"

locale slot_store =
  fixes inv :: "'s \<Rightarrow> bool"
    and room :: "'s \<Rightarrow> bool"
    and live :: "'s \<Rightarrow> nat set"
    and raw :: "'s \<Rightarrow> nat \<Rightarrow> 'v"
    and assign :: "'v \<Rightarrow> 'v \<Rightarrow> 'v"
    and ins :: "'s \<Rightarrow> 'v \<Rightarrow> (nat \<times> 's) result"
    and get :: "'s \<Rightarrow> nat \<Rightarrow> 'v result"
    and put :: "'s \<Rightarrow> nat \<Rightarrow> 'v \<Rightarrow> 's result"
    and del :: "'s \<Rightarrow> nat \<Rightarrow> 's result"
  assumes ins_law: "inv s \<Longrightarrow> room s \<Longrightarrow> \<exists>k s'. ins s v = Inr (k, s') \<and> inv s' \<and> k \<notin> live s \<and>
      live s' = insert k (live s) \<and> raw s' = (raw s)(k := assign (raw s k) v)"
    and get_law: "inv s \<Longrightarrow> k \<in> live s \<Longrightarrow> get s k = Inr (raw s k)"
    and get_dead: "inv s \<Longrightarrow> k \<notin> live s \<Longrightarrow> get s k = Inl AssertFailed"
    and put_law: "inv s \<Longrightarrow> k \<in> live s \<Longrightarrow>
      \<exists>s'. put s k v = Inr s' \<and> inv s' \<and> live s' = live s \<and> raw s' = (raw s)(k := v)"
    and del_law: "inv s \<Longrightarrow> k \<in> live s \<Longrightarrow>
      \<exists>s'. del s k = Inr s' \<and> inv s' \<and> live s' = live s - {k} \<and> raw s' = raw s"
    and del_dead: "inv s \<Longrightarrow> k \<notin> live s \<Longrightarrow> del s k = Inl AssertFailed"
begin

lemma ins_get:
  assumes "inv s" "room s"
  shows "\<exists>k s'. ins s v = Inr (k, s') \<and> inv s' \<and> k \<notin> live s \<and> get s' k = Inr (assign (raw s k) v) \<and>
    (\<forall>j\<in>live s. get s' j = get s j)"
proof -
  from ins_law [OF assms, of v] obtain k s' where
    k: "ins s v = Inr (k, s')" "inv s'" "k \<notin> live s" "live s' = insert k (live s)"
       "raw s' = (raw s)(k := assign (raw s k) v)" by blast
  moreover have "get s' k = Inr (assign (raw s k) v)" using k by (simp add: get_law)
  moreover have "\<forall>j\<in>live s. get s' j = get s j"
  proof
    fix j assume j: "j \<in> live s"
    with k(3) have "j \<noteq> k" by blast
    with j k(2,4,5) assms(1) show "get s' j = get s j" by (simp add: get_law)
  qed
  ultimately show ?thesis by blast
qed

lemma del_get:
  assumes "inv s" "k \<in> live s"
  shows "\<exists>s'. del s k = Inr s' \<and> inv s' \<and> get s' k = Inl AssertFailed \<and>
    (\<forall>j\<in>live s - {k}. get s' j = get s j)"
proof -
  from del_law [OF assms] obtain s' where
    s': "del s k = Inr s'" "inv s'" "live s' = live s - {k}" "raw s' = raw s" by blast
  then have "get s' k = Inl AssertFailed" by (simp add: get_dead)
  moreover have "\<forall>j\<in>live s - {k}. get s' j = get s j"
    using s' assms(1) by (simp add: get_law)
  ultimately show ?thesis using s' by blast
qed

lemma run_stable:
  assumes "inv s" "k \<in> live s" "SDelete k \<notin> set ops" "slot_run room ins del s ops = Inr s'"
  shows "inv s' \<and> k \<in> live s' \<and> get s' k = get s k"
  using assms
proof (induction ops arbitrary: s)
  case (Cons x ops)
  show ?case
  proof (cases x)
    case (SInsert v)
    with Cons.prems(4) have room: "room s" by (simp add: result_Inr)
    from ins_law [OF Cons.prems(1) room, of v] obtain i t where
      i: "ins s v = Inr (i, t)" "inv t" "i \<notin> live s" "live t = insert i (live s)"
         "raw t = (raw s)(i := assign (raw s i) v)" by blast
    with Cons.prems SInsert room have "inv s' \<and> k \<in> live s' \<and> get s' k = get t k"
      by (intro Cons.IH) auto
    moreover have "k \<noteq> i" using i(3) Cons.prems(2) by blast
    ultimately show ?thesis using i Cons.prems(1,2) by (simp add: get_law)
  next
    case (SDelete j)
    with Cons.prems(4) obtain t where t: "del s j = Inr t" "slot_run room ins del t ops = Inr s'"
      by (auto simp: result_Inr)
    have "j \<in> live s" using t(1) del_dead [OF Cons.prems(1)] by force
    from del_law [OF Cons.prems(1) this] t(1) have
      l: "inv t" "live t = live s - {j}" "raw t = raw s" by auto
    have "k \<noteq> j" using Cons.prems(3) SDelete by auto
    with Cons.prems l t(2) have "inv s' \<and> k \<in> live s' \<and> get s' k = get t k"
      by (intro Cons.IH) auto
    with l \<open>k \<noteq> j\<close> Cons.prems(1,2) show ?thesis by (simp add: get_law)
  qed
qed simp

end

interpretation blocklist: slot_store "bl_wf BS" "bl_room BS" "bl_live BS" "bl_raw BS dflt" assign
    "bl_push BS dflt assign" "bl_get BS" "bl_put BS" "bl_markDeleted BS" for BS dflt assign
proof unfold_locales
  fix s :: "'a blocklist" and v assume "bl_wf BS s" "bl_room BS s"
  from bl_push_ok [OF this, of dflt assign v]
  show "\<exists>k s'. bl_push BS dflt assign s v = Inr (k, s') \<and> bl_wf BS s' \<and> k \<notin> bl_live BS s \<and>
      bl_live BS s' = insert k (bl_live BS s) \<and>
      bl_raw BS dflt s' = (bl_raw BS dflt s)(k := assign (bl_raw BS dflt s k) v)" by blast
next
  fix s :: "'a blocklist" and k v assume "bl_wf BS s" "k \<in> bl_live BS s"
  from bl_put_ok [OF this, of v dflt]
  show "\<exists>s'. bl_put BS s k v = Inr s' \<and> bl_wf BS s' \<and> bl_live BS s' = bl_live BS s \<and>
      bl_raw BS dflt s' = (bl_raw BS dflt s)(k := v)" by blast
next
  fix s :: "'a blocklist" and k assume "bl_wf BS s" "k \<in> bl_live BS s"
  from bl_markDeleted_ok [OF this, of dflt]
  show "\<exists>s'. bl_markDeleted BS s k = Inr s' \<and> bl_wf BS s' \<and> bl_live BS s' = bl_live BS s - {k} \<and>
      bl_raw BS dflt s' = bl_raw BS dflt s" by blast
qed (simp_all add: bl_get_ok bl_dead)

section \<open>Iteration\<close>

definition next_live :: "nat \<Rightarrow> 'a blocklist \<Rightarrow> nat \<Rightarrow> nat \<Rightarrow> bool" where
  "next_live BS l p q \<longleftrightarrow> p \<le> q \<and> q \<le> length (blocks l) * BS \<and>
     (q \<in> bl_live BS l \<or> q = length (blocks l) * BS) \<and> (\<forall>x. p \<le> x \<and> x < q \<longrightarrow> x \<notin> bl_live BS l)"

lemma skip_slots_spec:
  assumes "bitarray_wf BS bits" "i + left = BS"
  shows "\<exists>j. skip_slots bits i left = Inr j \<and> i \<le> j \<and> j \<le> BS \<and>
    (j < BS \<longrightarrow> \<not> bitarray_bits BS bits ! j) \<and> (\<forall>r. i \<le> r \<and> r < j \<longrightarrow> bitarray_bits BS bits ! r)"
  using assms(2)
proof (induction left arbitrary: i)
  case (Suc left)
  have g: "bitarray_get bits i = Inr (bitarray_bits BS bits ! i)"
    using Suc.prems assms(1) by (intro bitarray_get_ok) auto
  show ?case
  proof (cases "bitarray_bits BS bits ! i")
    case True
    from Suc.IH [of "Suc i"] Suc.prems obtain j where
      j: "skip_slots bits (Suc i) left = Inr j" "Suc i \<le> j" "j \<le> BS"
         "j < BS \<longrightarrow> \<not> bitarray_bits BS bits ! j" "\<forall>r. Suc i \<le> r \<and> r < j \<longrightarrow> bitarray_bits BS bits ! r"
      by auto
    have "\<forall>r. i \<le> r \<and> r < j \<longrightarrow> bitarray_bits BS bits ! r"
      using j(5) True by (metis Suc_leI le_neq_implies_less)
    with j g True show ?thesis by auto
  next
    case False
    with g Suc.prems show ?thesis by auto
  qed
qed auto

lemma live_at:
  "j < BS \<Longrightarrow> b * BS + j \<in> bl_live BS l \<longleftrightarrow> b < length (blocks l) \<and> \<not> block_free BS (blocks l ! b) j"
  by (simp add: bl_live_def idx_div_mod)

lemma skip_blocks_spec:
  assumes "bl_wf BS l" "drop b (blocks l) = rest" "i \<le> BS" "b < length (blocks l) \<or> (b = length (blocks l) \<and> i = 0)"
  shows "\<exists>q. skip_blocks BS rest b i = Inr (q div BS, q mod BS) \<and> next_live BS l (b * BS + i) q"
  using assms(2-)
proof (induction rest arbitrary: b i)
  case Nil
  then have "b = length (blocks l)" "i = 0" by auto
  moreover have "0 < BS" using assms(1) by (simp add: bl_wf_def)
  ultimately show ?case by (intro exI [of _ "length (blocks l) * BS"]) (auto simp: next_live_def)
next
  case (Cons blk rest)
  let ?n = "length (blocks l)"
  have b: "b < ?n" using Cons.prems(1) by (metis drop_eq_Nil linorder_not_less list.distinct(1))
  have blk: "blk = blocks l ! b" and rest: "drop (Suc b) (blocks l) = rest"
    using Cons.prems(1) b by (metis Cons_nth_drop_Suc list.inject)+
  have wf: "bitarray_wf BS (freeBits blk)"
    using assms(1) b blk by (simp add: bl_wf_def block_wf_def)
  from skip_slots_spec [OF wf, of i "BS - i"] Cons.prems(2) obtain j where
    j: "skip_slots (freeBits blk) i (BS - i) = Inr j" "i \<le> j" "j \<le> BS"
       "j < BS \<longrightarrow> \<not> block_free BS blk j" "\<forall>r. i \<le> r \<and> r < j \<longrightarrow> block_free BS blk r"
    by (auto simp: block_free_def)
  have dead: "x \<notin> bl_live BS l" if "b * BS + i \<le> x" "x < b * BS + j" for x
  proof -
    have "x - b * BS < BS" using that j(3) by linarith
    moreover have "x = b * BS + (x - b * BS)" using that by linarith
    moreover have "block_free BS blk (x - b * BS)"
      using that j(5) by (metis add_leD1 le_add_diff_inverse add_le_cancel_left nat_add_left_cancel_less)
    ultimately show ?thesis using live_at [of "x - b * BS" BS b l] blk by auto
  qed
  show ?case
  proof (cases "j < BS")
    case True
    then have "b * BS + j \<in> bl_live BS l" using j(4) b blk by (simp add: live_at)
    moreover have "Suc b * BS \<le> ?n * BS" using b by (intro mult_le_mono1) simp
    ultimately have "next_live BS l (b * BS + i) (b * BS + j)"
      using dead j(2) True by (auto simp: next_live_def)
    with True j(1) show ?thesis by (intro exI [of _ "b * BS + j"]) simp
  next
    case False
    with j(3) have jB: "j = BS" by simp
    have "Suc b < ?n \<or> (Suc b = ?n \<and> (0 :: nat) = 0)" using b by auto
    from Cons.IH [OF rest _ this] obtain q where
      q: "skip_blocks BS rest (Suc b) 0 = Inr (q div BS, q mod BS)" "next_live BS l (Suc b * BS + 0) q"
      by auto
    have nl: "next_live BS l (b * BS + j) q" using q(2) jB by (simp add: add.commute)
    have "x \<notin> bl_live BS l" if "b * BS + i \<le> x" "x < q" for x
      using that dead [of x] nl by (cases "x < b * BS + j") (simp_all add: next_live_def)
    moreover have "b * BS + i \<le> q" using nl j(2) by (simp add: next_live_def)
    ultimately have "next_live BS l (b * BS + i) q" using nl by (simp add: next_live_def)
    with q(1) j(1) jB show ?thesis by auto
  qed
qed

lemma bl_iterate_spec:
  assumes "bl_wf BS l" "q \<in> bl_live BS l \<or> q = length (blocks l) * BS" "q \<le> length (blocks l) * BS"
    "length (blocks l) * BS - q < fuel"
  shows "bl_iterate BS l (q div BS, q mod BS) fuel =
    Inr (map (bl_raw BS dflt l) (filter (\<lambda>x. x \<in> bl_live BS l) [q..<length (blocks l) * BS]))"
  using assms(2-)
proof (induction fuel arbitrary: q)
  case (Suc fuel)
  let ?n = "length (blocks l)"
  have BS: "0 < BS" using assms(1) by (simp add: bl_wf_def)
  show ?case
  proof (cases "q = ?n * BS")
    case True
    with BS show ?thesis by (simp add: bl_end_def)
  next
    case False
    then have live: "q \<in> bl_live BS l" and lt: "q < ?n * BS" using Suc.prems by auto
    note w = bl_live_wf [OF assms(1) live]
    have noend: "(q div BS, q mod BS) \<noteq> bl_end l" using w(1) by (auto simp: bl_end_def)
    have deref: "bl_deref l (q div BS, q mod BS) = Inr (bl_raw BS dflt l q)"
      using w by (simp add: bl_deref_def bl_raw_def block_wf_def)
    have pos: "q div BS * BS + Suc (q mod BS) = Suc q" by simp
    from skip_blocks_spec [OF assms(1) refl, of "Suc (q mod BS)" "q div BS"] w(1,3) obtain r where
      r: "bl_next BS l (q div BS, q mod BS) = Inr (r div BS, r mod BS)" "next_live BS l (Suc q) r"
      by (auto simp: bl_next_def bl_skip_free_def pos)
    have IH: "bl_iterate BS l (r div BS, r mod BS) fuel =
        Inr (map (bl_raw BS dflt l) (filter (\<lambda>x. x \<in> bl_live BS l) [r..<?n * BS]))"
      using r(2) Suc.prems(3) lt by (intro Suc.IH) (auto simp: next_live_def)
    have "[q..<?n * BS] = q # [Suc q..<r] @ [r..<?n * BS]"
      using r(2) lt upt_split [of "Suc q" r "?n * BS"] by (simp add: next_live_def upt_conv_Cons)
    moreover have "filter (\<lambda>x. x \<in> bl_live BS l) [Suc q..<r] = []"
      using r(2) by (auto simp: next_live_def filter_empty_conv)
    ultimately show ?thesis using noend deref r(1) IH live by simp
  qed
qed simp

lemma bl_values_spec:
  assumes "bl_wf BS l"
  shows "bl_values BS l = Inr (map (bl_raw BS dflt l) (filter (\<lambda>x. x \<in> bl_live BS l) [0..<length (blocks l) * BS]))"
proof -
  let ?n = "length (blocks l)"
  from skip_blocks_spec [OF assms, of 0 "blocks l" 0] obtain q where
    q: "bl_begin BS l = Inr (q div BS, q mod BS)" "next_live BS l 0 q"
    by (auto simp: bl_begin_def bl_skip_free_def)
  have "bl_iterate BS l (q div BS, q mod BS) (Suc (BS * ?n)) =
      Inr (map (bl_raw BS dflt l) (filter (\<lambda>x. x \<in> bl_live BS l) [q..<?n * BS]))"
    using q(2) assms by (intro bl_iterate_spec) (auto simp: next_live_def mult.commute)
  moreover have "[0..<?n * BS] = [0..<q] @ [q..<?n * BS]"
    using q(2) by (intro upt_split) (simp_all add: next_live_def)
  moreover have "filter (\<lambda>x. x \<in> bl_live BS l) [0..<q] = []"
    using q(2) by (auto simp: next_live_def filter_empty_conv)
  ultimately show ?thesis using q(1) by (simp add: bl_values_def del: bl_iterate.simps)
qed

section \<open>The built-in test\<close>

text \<open>\<open>TestBlocklist\<close> of \<open>me_blocklist.cpp\<close>, on blocks of five \<open>int\<close>s.\<close>

definition push_int :: "int blocklist \<Rightarrow> int \<Rightarrow> (nat \<times> int blocklist) result" where
  "push_int = bl_push 5 0 (\<lambda>old new. new)"

fun push_expecting :: "int blocklist \<Rightarrow> nat \<Rightarrow> nat \<Rightarrow> int blocklist result" where
  "push_expecting l i 0 = Inr l"
| "push_expecting l i (Suc left) =
     bindR (push_int l (int i)) (\<lambda>(k, l). ME_ASSERT (k = i) (push_expecting l (Suc i) left))"

definition TestBlocklist :: "unit result" where
  "TestBlocklist =
     bindR (push_expecting (meBlockList (Some 0)) 0 10) (\<lambda>l.
     ME_ASSERT (bl_size l = 10) (
     ME_ASSERT (\<forall>i\<in>set [0..<10]. bl_get 5 l i = Inr (int i)) (
     bindR (bl_values 5 l) (\<lambda>xs.
     ME_ASSERT (xs = map int [0..<10] \<and> length xs = 10) (
     bindR (bl_markDeleted 5 l 5) (\<lambda>l.
     ME_ASSERT (bl_size l = 9) (
     bindR (bl_values 5 l) (\<lambda>xs.
     ME_ASSERT (5 \<notin> set xs) (ME_ASSERT (length xs = 9) (
     bindR (push_int l 10) (\<lambda>(k, l).
     ME_ASSERT (k = 5) (
     bindR (bl_get 5 l 5) (\<lambda>x.
     ME_ASSERT (x = 10) (
     bindR (bl_markDeleted 5 l 0) (\<lambda>l.
     bindR (bindR (bl_begin 5 l) (bl_deref l)) (\<lambda>x.
     ME_ASSERT (x = 1) (
     let l = bl_clear l in
     ME_ASSERT (bl_size l = 0) (
     bindR (bl_begin 5 l) (\<lambda>it.
     ME_ASSERT (it = bl_end l) (Inr ()))))))))))))))))))))"

section \<open>Properties\<close>

text \<open>
  \<open>push\<close> stores the value in the free slot of the lowest index, growing the list by a
  block when every slot is taken, and changes no other element: what any other index
  reads stays the same.
\<close>

theorem bl_push_lowest_free:
  assumes "bl_wf BS l" "bl_room BS l"
  shows "\<exists>k l'. bl_push BS dflt assign l v = Inr (k, l') \<and> bl_wf BS l' \<and> bl_size l' = Suc (bl_size l) \<and>
    k \<notin> bl_live BS l \<and> (\<forall>x<k. x \<in> bl_live BS l) \<and>
    bl_get BS l' k = Inr (assign (bl_raw BS dflt l k) v) \<and>
    (\<forall>x\<in>bl_live BS l. bl_get BS l' x = bl_get BS l x)"
proof -
  from bl_push_ok [OF assms, of dflt assign v] obtain k l' where
    k: "bl_push BS dflt assign l v = Inr (k, l')" "bl_wf BS l'" "k \<notin> bl_live BS l" "\<forall>x<k. x \<in> bl_live BS l"
       "bl_size l' = Suc (bl_size l)" by blast
  with blocklist.ins_get [OF assms, of dflt assign v] show ?thesis by auto
qed

lemma bl_push_lowest_free_witness:
  "\<exists>k l'. bl_push 5 0 (\<lambda>old new. new) (meBlockList (Some 0)) (7 :: int) = Inr (k, l') \<and> bl_wf 5 l' \<and>
    bl_size l' = 1"
  using bl_push_lowest_free [of 5 "meBlockList (Some 0)" 0 "\<lambda>old new. new" "7 :: int"]
  by (auto simp: meBlockList_def bl_wf_def bl_room_def)

text \<open>
  C26. References are stable: an index handed out stays valid and keeps reading the same
  value through any run of insertions and deletions that does not delete it.
\<close>

theorem bl_index_stable:
  assumes "bl_wf BS l" "k \<in> bl_live BS l" "SDelete k \<notin> set ops"
    "slot_run (bl_room BS) (bl_push BS dflt assign) (bl_markDeleted BS) l ops = Inr l'"
  shows "bl_wf BS l' \<and> k \<in> bl_live BS l' \<and> bl_get BS l' k = bl_get BS l k"
  using blocklist.run_stable [OF assms] .

lemma bl_index_stable_witness:
  "\<exists>l l'. bl_wf 2 l \<and> slot_run (bl_room 2) (bl_push 2 0 (\<lambda>old new. new)) (bl_markDeleted 2) l
      [SInsert (8 :: int), SDelete 1, SInsert 9] = Inr l' \<and> bl_get 2 l' 0 = bl_get 2 l 0"
proof -
  let ?l = "\<lparr>blocks = [\<lparr>blk_data = [7, 0], blk_count = 1, freeBits = [4294967294]\<rparr>], bl_size = 1,
    bl_allocator = Some 0\<rparr> :: int blocklist"
  let ?l' = "\<lparr>blocks = [\<lparr>blk_data = [7, 9], blk_count = 2, freeBits = [4294967292]\<rparr>], bl_size = 2,
    bl_allocator = Some 0\<rparr> :: int blocklist"
  have wf: "bl_wf 2 ?l" by code_simp
  moreover have live: "0 \<in> bl_live 2 ?l"
  proof -
    have "\<not> block_free 2 (blocks ?l ! 0) 0" by code_simp
    then show ?thesis by (simp add: bl_live_def)
  qed
  moreover have run: "slot_run (bl_room 2) (bl_push 2 0 (\<lambda>old new. new)) (bl_markDeleted 2) ?l
      [SInsert 8, SDelete 1, SInsert 9] = Inr ?l'" by code_simp
  ultimately have "bl_get 2 ?l' 0 = bl_get 2 ?l 0"
    using bl_index_stable [OF wf live _ run] by simp
  with wf run show ?thesis by blast
qed

text \<open>
  C27. Iterating over the list visits exactly the live slots, in the order of their indices,
  and ends.
\<close>

theorem bl_iteration_live:
  assumes "bl_wf BS l"
  shows "bl_values BS l =
    Inr (map (bl_raw BS dflt l) (filter (\<lambda>x. x \<in> bl_live BS l) [0..<length (blocks l) * BS]))"
  using assms by (rule bl_values_spec)

lemma bl_iteration_live_witness:
  "bl_values 2 (meBlockList (Some 0) :: int blocklist) = Inr []"
  using bl_iteration_live [of 2 "meBlockList (Some 0) :: int blocklist"]
  by (simp add: meBlockList_def bl_wf_def)

text \<open>The engine's own test of the block list passes.\<close>

theorem TestBlocklist_passes: "TestBlocklist = Inr ()"
  by code_simp

end
