(* ===== verification/ResourcePools.thy ===== *)
theory ResourcePools
  imports BlockLists Handles
begin

text \<open>
  The generational resource pools of \<open>core/me_resourcepool.h\<close>: two block lists of slots, one
  for template assets and one for instances, addressed by the handles of \<open>Handles\<close>. A slot
  holds its resource (\<open>None\<close> for an empty shared pointer), a 16-bit generation and a flag.
  The lifetime of shared resources is the subject of the pointers; here a slot either has
  its resource or has given it up.
\<close>

section \<open>State\<close>

record 'r slot =
  slot_obj :: "'r option"
  slot_generation :: u16
  slot_inUse :: bool

definition slot_default :: "'r slot" where
  "slot_default = \<lparr>slot_obj = None, slot_generation = 0, slot_inUse = False\<rparr>"

text \<open>\<open>meResourceSlot::operator=\<close> keeps the generation of the slot assigned to.\<close>

definition slot_assign :: "'r slot \<Rightarrow> 'r slot \<Rightarrow> 'r slot" where
  "slot_assign this other = this\<lparr>slot_obj := slot_obj other, slot_inUse := slot_inUse other\<rparr>"

datatype meResourceType = meResourceType_TemplateAsset | meResourceType_InstanceAsset

record 'r pool =
  resourcePoolTemplates :: "'r slot blocklist"
  resourcePoolInstances :: "'r slot blocklist"
  resourcePayloadAllocator :: "nat option"

definition is_template :: "meResourceType \<Rightarrow> bool" where
  "is_template ty \<longleftrightarrow> ty = meResourceType_TemplateAsset"

text \<open>\<open>GetAssociatedResourcePool\<close>, for reading and for storing the list back.\<close>

definition assoc_pool :: "bool \<Rightarrow> 'r pool \<Rightarrow> 'r slot blocklist" where
  "assoc_pool template p = (if template then resourcePoolTemplates p else resourcePoolInstances p)"

definition set_assoc_pool :: "bool \<Rightarrow> 'r slot blocklist \<Rightarrow> 'r pool \<Rightarrow> 'r pool" where
  "set_assoc_pool template l p =
     (if template then p\<lparr>resourcePoolTemplates := l\<rparr> else p\<lparr>resourcePoolInstances := l\<rparr>)"

section \<open>Operations\<close>

definition pool_push :: "'r slot blocklist \<Rightarrow> 'r slot \<Rightarrow> (nat \<times> 'r slot blocklist) result" where
  "pool_push = bl_push 32 slot_default slot_assign"

text \<open>\<open>CreateResource\<close> makes a default-constructed resource with the payload allocator.\<close>

definition CreateResource :: "'r \<Rightarrow> 'r pool \<Rightarrow> 'r result" where
  "CreateResource fresh p = require NullDeref (resourcePayloadAllocator p \<noteq> None) (Inr fresh)"

definition pool_push_bad :: "'r \<Rightarrow> bool \<Rightarrow> 'r pool \<Rightarrow> 'r pool result" where
  "pool_push_bad fresh template p =
     bindR (CreateResource fresh p) (\<lambda>obj.
     bindR (pool_push (assoc_pool template p) (slot_default\<lparr>slot_obj := Some obj, slot_inUse := True\<rparr>)) (\<lambda>(idx, l).
     ME_ASSERT (idx = 0) (Inr (set_assoc_pool template l p))))"

definition meResourcePool :: "'r \<Rightarrow> nat option \<Rightarrow> nat option \<Rightarrow> 'r pool result" where
  "meResourcePool fresh resourceAllocator payloadAllocator =
     (let p = \<lparr>resourcePoolTemplates = meBlockList resourceAllocator,
               resourcePoolInstances = meBlockList resourceAllocator,
               resourcePayloadAllocator = payloadAllocator\<rparr>
      in bindR (pool_push_bad fresh True p) (\<lambda>p. pool_push_bad fresh False p))"

definition RP_Empty :: "'r pool \<Rightarrow> bool" where
  "RP_Empty p \<longleftrightarrow> bl_empty (resourcePoolTemplates p) \<and> bl_empty (resourcePoolInstances p)"

definition RP_Create :: "'r \<Rightarrow> 'r pool \<Rightarrow> meResourceType \<Rightarrow> (Eye \<times> 'r pool) result" where
  "RP_Create fresh p ty =
     (let template = is_template ty
      in bindR (pool_push (assoc_pool template p) slot_default) (\<lambda>(idx, l).
         ME_ASSERT (idx \<noteq> 0)
           (bindR (bl_get 32 l idx) (\<lambda>res.
            bindR (CreateResource fresh p) (\<lambda>obj.
            bindR (bl_put 32 l idx (res\<lparr>slot_obj := Some obj\<rparr>)) (\<lambda>l.
              Inr (Eye_make (of_nat idx) (ucast (slot_generation res)) template,
                   set_assoc_pool template l p)))))))"

text \<open>The default \<open>Load\<close> of a pool.\<close>

definition RP_Load :: "'r \<Rightarrow> 'r pool \<Rightarrow> meResourceType \<Rightarrow> (Eye \<times> 'r pool) result" where
  "RP_Load fresh p ty = RP_Create fresh p ty"

definition RP_Destroy :: "'r pool \<Rightarrow> Eye \<Rightarrow> 'r pool result" where
  "RP_Destroy p handle =
     (if Eye_GetIndex handle = 0 then Inr p
      else (let template = Eye_IsTemplateAsset handle;
                l = assoc_pool template p;
                idx = unat (Eye_GetIndex handle)
            in bindR (bl_get 32 l idx) (\<lambda>res.
               bindR (bl_put 32 l idx (res\<lparr>slot_obj := None, slot_generation := slot_generation res + 1,
                                           slot_inUse := False\<rparr>)) (\<lambda>l.
               bindR (bl_markDeleted 32 l idx) (\<lambda>l. Inr (set_assoc_pool template l p))))))"

text \<open>
  \<open>Get\<close> compares the 16-bit generation of the slot with the 8-bit one of the handle as
  integers, then dereferences the shared pointer. \<open>GetShared\<close> returns the pointer itself.
\<close>

definition RP_GetShared :: "'r pool \<Rightarrow> Eye \<Rightarrow> 'r option result" where
  "RP_GetShared p handle =
     bindR (bl_get 32 (assoc_pool (Eye_IsTemplateAsset handle) p) (unat (Eye_GetIndex handle))) (\<lambda>res.
       ME_ASSERT (unat (slot_generation res) = unat (Eye_GetGeneration handle)) (Inr (slot_obj res)))"

definition RP_Get :: "'r pool \<Rightarrow> Eye \<Rightarrow> 'r result" where
  "RP_Get p handle =
     bindR (bl_get 32 (assoc_pool (Eye_IsTemplateAsset handle) p) (unat (Eye_GetIndex handle))) (\<lambda>res.
       ME_ASSERT (unat (slot_generation res) = unat (Eye_GetGeneration handle)) (deref (slot_obj res)))"

definition RP_GetBadData :: "'r pool \<Rightarrow> 'r result" where
  "RP_GetBadData p = RP_Get p EYE_INVALID"

text \<open>\<open>Clear\<close> empties both lists and constructs the pool anew with the same allocators.\<close>

definition RP_Clear :: "'r \<Rightarrow> 'r pool \<Rightarrow> 'r pool result" where
  "RP_Clear fresh p =
     (let t = bl_clear (resourcePoolTemplates p); i = bl_clear (resourcePoolInstances p)
      in ME_ASSERT (bl_allocator t = bl_allocator i)
           (meResourcePool fresh (bl_allocator t) (resourcePayloadAllocator p)))"

section \<open>Well-formed pools\<close>

abbreviation slots :: "bool \<Rightarrow> 'r pool \<Rightarrow> nat \<Rightarrow> 'r slot" where
  "slots t p \<equiv> bl_raw 32 slot_default (assoc_pool t p)"

abbreviation live_slots :: "bool \<Rightarrow> 'r pool \<Rightarrow> nat set" where
  "live_slots t p \<equiv> bl_live 32 (assoc_pool t p)"

definition pool_wf :: "'r pool \<Rightarrow> bool" where
  "pool_wf p \<longleftrightarrow> resourcePayloadAllocator p \<noteq> None \<and>
     (\<forall>t. bl_wf 32 (assoc_pool t p) \<and> 0 \<in> live_slots t p \<and>
          (\<forall>k\<in>live_slots t p. slot_obj (slots t p k) \<noteq> None))"

text \<open>Room for one more resource whose index fits the 23 bits of a handle.\<close>

definition pool_room :: "bool \<Rightarrow> 'r pool \<Rightarrow> bool" where
  "pool_room t p \<longleftrightarrow> length (blocks (assoc_pool t p)) * 32 + 32 \<le> 8388608"

lemma slot_default_generation: "slot_generation slot_default = 0"
  by (simp add: slot_default_def)

lemma assoc_set_pool [simp]: "assoc_pool t (set_assoc_pool u l p) = (if t = u then l else assoc_pool t p)"
  by (simp add: assoc_pool_def set_assoc_pool_def)

lemma set_assoc_pool_payload [simp]:
  "resourcePayloadAllocator (set_assoc_pool t l p) = resourcePayloadAllocator p"
  by (simp add: set_assoc_pool_def)

lemma pool_wf_parts:
  assumes "pool_wf p"
  shows "bl_wf 32 (assoc_pool t p)" "0 \<in> live_slots t p" "resourcePayloadAllocator p \<noteq> None"
    "k \<in> live_slots t p \<Longrightarrow> slot_obj (slots t p k) \<noteq> None"
  using assms by (auto simp: pool_wf_def)

lemma pool_wf_update:
  assumes "pool_wf p" "bl_wf 32 l" "0 \<in> bl_live 32 l"
    "\<forall>k\<in>bl_live 32 l. slot_obj (bl_raw 32 slot_default l k) \<noteq> None"
  shows "pool_wf (set_assoc_pool t l p)"
  using assms by (auto simp: pool_wf_def)

lemma RP_Create_ok:
  assumes "pool_wf p" "pool_room (is_template ty) p"
  shows "\<exists>k p'. let t = is_template ty; g = slot_generation (slots t p k) in
    RP_Create fresh p ty = Inr (Eye_make (of_nat k) (ucast g) t, p') \<and> pool_wf p' \<and>
    k \<notin> live_slots t p \<and> 0 < k \<and> k < 8388608 \<and>
    live_slots t p' = insert k (live_slots t p) \<and>
    slots t p' = (slots t p)(k := \<lparr>slot_obj = Some fresh, slot_generation = g, slot_inUse = False\<rparr>) \<and>
    assoc_pool (\<not> t) p' = assoc_pool (\<not> t) p"
proof -
  let ?t = "is_template ty"
  let ?l = "assoc_pool ?t p"
  note w = pool_wf_parts [OF assms(1)]
  have room: "bl_room 32 ?l" using assms(2) by (simp add: pool_room_def bl_room_def)
  from bl_push_ok [OF w(1) room, of slot_default slot_assign slot_default] obtain k l1 where
    l1: "bl_push 32 slot_default slot_assign ?l slot_default = Inr (k, l1)" "bl_wf 32 l1" "k \<notin> bl_live 32 ?l"
      "bl_live 32 l1 = insert k (bl_live 32 ?l)"
      "bl_raw 32 slot_default l1 = (slots ?t p)(k := slot_assign (slots ?t p k) slot_default)"
      "k < length (blocks ?l) * 32 + 32" by blast
  let ?g = "slot_generation (slots ?t p k)"
  let ?s = "\<lparr>slot_obj = Some fresh, slot_generation = ?g, slot_inUse = False\<rparr> :: 'a slot"
  have k: "k < 8388608" using l1(6) assms(2) by (simp add: pool_room_def)
  have k0: "k \<noteq> 0" using l1(3) w(2) by metis
  have kl: "k \<in> bl_live 32 l1" using l1(4) by simp
  have get: "bl_get 32 l1 k = Inr (slot_assign (slots ?t p k) slot_default)"
    using bl_get_ok [OF l1(2) kl, of slot_default] l1(5) by simp
  have s: "(slot_assign (slots ?t p k) slot_default)\<lparr>slot_obj := Some fresh\<rparr> = ?s"
    by (simp add: slot_assign_def slot_default_def)
  from bl_put_ok [OF l1(2) kl, of ?s slot_default] obtain l2 where
    l2: "bl_put 32 l1 k ?s = Inr l2" "bl_wf 32 l2" "bl_live 32 l2 = bl_live 32 l1"
      "bl_raw 32 slot_default l2 = (bl_raw 32 slot_default l1)(k := ?s)" by blast
  let ?p = "set_assoc_pool ?t l2 p"
  have "RP_Create fresh p ty = Inr (Eye_make (of_nat k) (ucast ?g) ?t, ?p)"
    using l1(1) get s l2(1) k0 w(3)
    by (simp add: RP_Create_def pool_push_def CreateResource_def slot_assign_def Let_def)
  moreover have "pool_wf ?p"
    using assms(1) l2(2,3,4) l1(4,5) w(2,4) by (intro pool_wf_update) auto
  moreover have "slots ?t ?p = (slots ?t p)(k := ?s)" using l2(4) l1(5) by simp
  moreover have "live_slots ?t ?p = insert k (live_slots ?t p)" using l2(3) l1(4) by simp
  ultimately show ?thesis
    using l1(3) k k0 by (intro exI [of _ k] exI [of _ ?p]) (simp add: Let_def)
qed

lemma RP_Get_live:
  assumes "pool_wf p" "unat (Eye_GetIndex h) \<in> live_slots (Eye_IsTemplateAsset h) p"
  shows "RP_Get p h =
    (let s = slots (Eye_IsTemplateAsset h) p (unat (Eye_GetIndex h))
     in ME_ASSERT (unat (slot_generation s) = unat (Eye_GetGeneration h)) (deref (slot_obj s)))"
  using bl_get_ok [OF pool_wf_parts(1) [OF assms(1)] assms(2), of slot_default]
  by (simp add: RP_Get_def Let_def)

lemma RP_Get_dead:
  assumes "pool_wf p" "unat (Eye_GetIndex h) \<notin> live_slots (Eye_IsTemplateAsset h) p"
  shows "RP_Get p h = Inl AssertFailed"
  using bl_dead(1) [OF pool_wf_parts(1) [OF assms(1)] assms(2)] by (simp add: RP_Get_def)

lemma RP_Destroy_ok:
  assumes "pool_wf p" "unat (Eye_GetIndex h) \<in> live_slots (Eye_IsTemplateAsset h) p" "Eye_GetIndex h \<noteq> 0"
  shows "\<exists>p'. RP_Destroy p h = Inr p' \<and> pool_wf p' \<and>
    (let t = Eye_IsTemplateAsset h; k = unat (Eye_GetIndex h) in
     live_slots t p' = live_slots t p - {k} \<and>
     slots t p' = (slots t p)(k := \<lparr>slot_obj = None, slot_generation = slot_generation (slots t p k) + 1,
                                    slot_inUse = False\<rparr>) \<and>
     assoc_pool (\<not> t) p' = assoc_pool (\<not> t) p \<and>
     length (blocks (assoc_pool t p')) = length (blocks (assoc_pool t p)))"
proof -
  let ?t = "Eye_IsTemplateAsset h" and ?k = "unat (Eye_GetIndex h)"
  let ?l = "assoc_pool ?t p"
  note w = pool_wf_parts [OF assms(1)]
  let ?s = "\<lparr>slot_obj = None, slot_generation = slot_generation (slots ?t p ?k) + 1, slot_inUse = False\<rparr>"
  have get: "bl_get 32 ?l ?k = Inr (slots ?t p ?k)" by (rule bl_get_ok [OF w(1) assms(2)])
  from bl_put_ok [OF w(1) assms(2), of ?s slot_default] obtain l1 where
    l1: "bl_put 32 ?l ?k ?s = Inr l1" "bl_wf 32 l1" "bl_live 32 l1 = bl_live 32 ?l"
      "bl_raw 32 slot_default l1 = (slots ?t p)(?k := ?s)" "length (blocks l1) = length (blocks ?l)" by blast
  from bl_markDeleted_ok [OF l1(2), of ?k slot_default] l1(3) assms(2) obtain l2 where
    l2: "bl_markDeleted 32 l1 ?k = Inr l2" "bl_wf 32 l2" "bl_live 32 l2 = bl_live 32 ?l - {?k}"
      "bl_raw 32 slot_default l2 = bl_raw 32 slot_default l1" "length (blocks l2) = length (blocks l1)" by auto
  let ?p = "set_assoc_pool ?t l2 p"
  let ?u = "(slots ?t p ?k)\<lparr>slot_obj := None, slot_generation := slot_generation (slots ?t p ?k) + 1,
      slot_inUse := False\<rparr>"
  have "?u = ?s" by simp
  then have l1u: "bl_put 32 ?l ?k ?u = Inr l1" by (simp only: l1(1))
  have k0: "?k \<noteq> 0" using assms(3) by (simp add: unat_eq_zero)
  have "RP_Destroy p h = Inr ?p"
    using assms(3) get l1u l2(1) by (simp add: RP_Destroy_def Let_def)
  moreover have "pool_wf ?p"
    using assms(1) l2(2,3,4) l1(4) w(2,4) k0 by (intro pool_wf_update) auto
  ultimately show ?thesis
    using l2(3,4,5) l1(4,5) by (intro exI [of _ ?p]) (simp add: Let_def)
qed

section \<open>Properties\<close>

text \<open>
  Creating a resource returns a fresh, valid handle of the requested kind, and every
  handle that worked before still reads the same resource. The new handle itself works
  exactly when the generation of its slot fits the 8 bits the handle has for it: after 256
  destructions of a slot, the handles \<open>Create\<close> returns for it fail the assertion in \<open>Get\<close>.
\<close>

theorem RP_Create_Get:
  assumes "pool_wf p" "pool_room (is_template ty) p"
  shows "\<exists>h p'. RP_Create fresh p ty = Inr (h, p') \<and> pool_wf p' \<and> Eye_bool h \<and>
    Eye_IsTemplateAsset h = is_template ty \<and>
    unat (Eye_GetIndex h) \<notin> live_slots (is_template ty) p \<and>
    RP_Get p' h = (if unat (slot_generation (slots (is_template ty) p (unat (Eye_GetIndex h)))) < 256
                   then Inr fresh else Inl AssertFailed) \<and>
    (\<forall>e x. RP_Get p e = Inr x \<longrightarrow> RP_Get p' e = Inr x)"
proof -
  let ?t = "is_template ty"
  from RP_Create_ok [OF assms, of fresh] obtain k p' where
    c: "RP_Create fresh p ty = Inr (Eye_make (of_nat k) (ucast (slot_generation (slots ?t p k))) ?t, p')"
      "pool_wf p'" "k \<notin> live_slots ?t p" "0 < k" "k < 8388608"
      "live_slots ?t p' = insert k (live_slots ?t p)"
      "slots ?t p' = (slots ?t p)(k := \<lparr>slot_obj = Some fresh, slot_generation = slot_generation (slots ?t p k),
         slot_inUse = False\<rparr>)"
      "assoc_pool (\<not> ?t) p' = assoc_pool (\<not> ?t) p"
    by (auto simp: Let_def)
  let ?g = "slot_generation (slots ?t p k)"
  let ?h = "Eye_make (of_nat k) (ucast ?g) ?t"
  have h: "unat (Eye_GetIndex ?h) = k" "Eye_IsTemplateAsset ?h = ?t" "Eye_GetGeneration ?h = ucast ?g"
    using c(5) by (simp_all only: Eye_GetIndex_of_nat Eye_IsTemplateAsset_make Eye_GetGeneration_make)
  have "unat (ucast ?g :: u8) = unat ?g mod 256"
    by (simp add: unsigned_ucast_eq take_bit_eq_mod)
  moreover have "unat ?g mod 256 = unat ?g \<longleftrightarrow> unat ?g < 256"
    by (metis mod_less mod_less_divisor zero_less_numeral)
  ultimately have gen: "unat ?g = unat (ucast ?g :: u8) \<longleftrightarrow> unat ?g < 256" by metis
  have "RP_Get p' ?h = (if unat ?g < 256 then Inr fresh else Inl AssertFailed)"
    using RP_Get_live [OF c(2), of ?h] h c(6,7) gen by (simp add: Let_def)
  moreover have "RP_Get p' e = Inr x" if "RP_Get p e = Inr x" for e x
  proof -
    let ?i = "unat (Eye_GetIndex e)" and ?u = "Eye_IsTemplateAsset e"
    have live: "?i \<in> live_slots ?u p" using that RP_Get_dead [OF assms(1), of e] by force
    show ?thesis
    proof (cases "?u = ?t")
      case True
      then have "?i \<noteq> k" using live c(3) by (auto simp del: Eye_bool_def)
      moreover have "?i \<in> live_slots ?u p'" using True live c(6) by simp
      ultimately show ?thesis
        using that RP_Get_live [OF assms(1) live] RP_Get_live [OF c(2), of e] c(7) True by simp
    next
      case False
      then have "assoc_pool ?u p' = assoc_pool ?u p" using c(8)
        by (cases "is_template ty"; cases "Eye_IsTemplateAsset e") simp_all
      with that show ?thesis by (simp add: RP_Get_def)
    qed
  qed
  moreover have "Eye_bool ?h"
  proof -
    have "Eye_GetIndex ?h \<noteq> Eye_GetIndex 0" using h(1) c(4) Eye_zero(1) by (metis unat_0 less_numeral_extra(3))
    then show ?thesis by (auto simp: Eye_bool_def)
  qed
  ultimately show ?thesis using c(1,2,3) h(1,2) by (intro exI [of _ ?h] exI [of _ p']) simp
qed

lemma pool_new_wf:
  "\<exists>p. meResourcePool fresh (Some ra) (Some pa) = Inr p \<and> pool_wf p \<and>
    (\<forall>t. live_slots t p = {0} \<and> length (blocks (assoc_pool t p)) = 1 \<and>
         slots t p = (\<lambda>_. slot_default)(0 := \<lparr>slot_obj = Some fresh, slot_generation = 0, slot_inUse = True\<rparr>))"
proof -
  let ?e = "meBlockList (Some ra) :: 'a slot blocklist"
  let ?s = "\<lparr>slot_obj = Some fresh, slot_generation = 0, slot_inUse = True\<rparr> :: 'a slot"
  have "bl_wf 32 ?e" "bl_room 32 ?e" "bl_live 32 ?e = {}" "bl_raw 32 slot_default ?e = (\<lambda>_. slot_default)"
    by (simp_all add: meBlockList_def bl_wf_def bl_room_def bl_live_def bl_raw_def fun_eq_iff)
  with bl_push_ok [of 32 ?e slot_default slot_assign ?s] obtain k l where
    k: "bl_push 32 slot_default slot_assign ?e ?s = Inr (k, l)" "bl_wf 32 l" "\<forall>x<k. x \<in> ({} :: nat set)"
      "bl_live 32 l = {k}" "bl_raw 32 slot_default l = (\<lambda>_. slot_default)(k := slot_assign slot_default ?s)"
    by auto
  then have k0: "k = 0" by auto
  have len: "length (blocks l) = 1"
    using k(1) by (auto simp: bl_push_def meBlockList_def result_Inr Let_def split: prod.splits)
  have as: "slot_assign slot_default ?s = ?s" by (simp add: slot_assign_def slot_default_def)
  let ?p = "\<lparr>resourcePoolTemplates = l, resourcePoolInstances = l, resourcePayloadAllocator = Some pa\<rparr>"
  have "slot_default\<lparr>slot_obj := Some fresh, slot_inUse := True\<rparr> = ?s" by (simp add: slot_default_def)
  then have "meResourcePool fresh (Some ra) (Some pa) = Inr ?p"
    using k(1) k0 by (simp add: meResourcePool_def pool_push_bad_def CreateResource_def pool_push_def
        assoc_pool_def set_assoc_pool_def)
  moreover have "assoc_pool t ?p = l" for t by (simp add: assoc_pool_def)
  moreover have "pool_wf ?p"
    using k(2,4,5) k0 as by (simp add: pool_wf_def assoc_pool_def)
  ultimately show ?thesis using k(4,5) k0 as len by (intro exI [of _ ?p]) simp
qed

lemma RP_Create_Get_witness:
  "\<exists>p h p'. meResourcePool 7 (Some 0) (Some 0) = Inr p \<and>
     RP_Create (9 :: nat) p meResourceType_InstanceAsset = Inr (h, p') \<and> RP_Get p' h = Inr 9"
proof -
  from pool_new_wf [of "7 :: nat" 0 0] obtain p where
    p: "meResourcePool (7 :: nat) (Some 0) (Some 0) = Inr p" "pool_wf p"
      "\<And>t. length (blocks (assoc_pool t p)) = 1"
      "\<And>t. slots t p = (\<lambda>_. slot_default)(0 := \<lparr>slot_obj = Some 7, slot_generation = 0, slot_inUse = True\<rparr>)"
    by auto
  have "pool_room (is_template meResourceType_InstanceAsset) p" by (simp add: pool_room_def p(3))
  from RP_Create_Get [OF p(2) this, of 9] obtain h p' where
    h: "RP_Create 9 p meResourceType_InstanceAsset = Inr (h, p')"
      "RP_Get p' h = (if unat (slot_generation (slots False p (unat (Eye_GetIndex h)))) < 256
                   then Inr 9 else Inl AssertFailed)"
    by (auto simp: is_template_def)
  then have "RP_Get p' h = Inr 9" by (simp add: p(4) slot_default_generation)
  with p(1) h(1) show ?thesis by blast
qed

text \<open>Destruction does not touch what other handles see.\<close>

lemma RP_Destroy_others:
  assumes "pool_wf p" "unat (Eye_GetIndex h) \<in> live_slots (Eye_IsTemplateAsset h) p" "Eye_GetIndex h \<noteq> 0"
    "RP_Destroy p h = Inr p'"
    and e: "Eye_GetIndex e \<noteq> Eye_GetIndex h \<or> Eye_IsTemplateAsset e \<noteq> Eye_IsTemplateAsset h"
  shows "RP_Get p' e = RP_Get p e"
proof (cases "Eye_IsTemplateAsset e = Eye_IsTemplateAsset h")
  case False
  then have "assoc_pool (Eye_IsTemplateAsset e) p' = assoc_pool (Eye_IsTemplateAsset e) p"
    using RP_Destroy_ok [OF assms(1-3)] assms(4)
    by (cases "Eye_IsTemplateAsset h"; cases "Eye_IsTemplateAsset e") (auto simp: Let_def)
  then show ?thesis by (simp add: RP_Get_def)
next
  case True
  with e have ne: "unat (Eye_GetIndex e) \<noteq> unat (Eye_GetIndex h)" by (simp add: word_unat_eq_iff)
  let ?t = "Eye_IsTemplateAsset e" and ?j = "unat (Eye_GetIndex e)"
  have p': "pool_wf p'" "?j \<in> live_slots ?t p' \<longleftrightarrow> ?j \<in> live_slots ?t p" "slots ?t p' ?j = slots ?t p ?j"
    using RP_Destroy_ok [OF assms(1-3)] assms(4) ne True by (auto simp: Let_def)
  show ?thesis
    using RP_Get_live [OF assms(1), of e] RP_Get_live [OF p'(1), of e]
      RP_Get_dead [OF assms(1), of e] RP_Get_dead [OF p'(1), of e] p'(2,3)
    by (cases "?j \<in> live_slots ?t p") simp_all
qed

text \<open>A creation brings no handle to life whose generation is not the one of its slot.\<close>

lemma RP_Create_stale:
  assumes "pool_wf p" "pool_room (is_template ty) p" "RP_Create fresh p ty = Inr (h', p')"
    "unat (Eye_GetIndex h) \<notin> live_slots (Eye_IsTemplateAsset h) p"
    "unat (slot_generation (slots (Eye_IsTemplateAsset h) p (unat (Eye_GetIndex h)))) \<noteq> unat (Eye_GetGeneration h)"
  shows "RP_Get p' h = Inl AssertFailed"
proof -
  let ?u = "is_template ty" and ?t = "Eye_IsTemplateAsset h" and ?k = "unat (Eye_GetIndex h)"
  from RP_Create_ok [OF assms(1,2), of fresh] assms(3) obtain j where
    c: "pool_wf p'" "live_slots ?u p' = insert j (live_slots ?u p)"
      "slots ?u p' = (slots ?u p)(j := \<lparr>slot_obj = Some fresh, slot_generation = slot_generation (slots ?u p j),
         slot_inUse = False\<rparr>)" "assoc_pool (\<not> ?u) p' = assoc_pool (\<not> ?u) p"
    by (auto simp: Let_def)
  show ?thesis
  proof (cases "?k \<in> live_slots ?t p'")
    case False
    then show ?thesis by (rule RP_Get_dead [OF c(1)])
  next
    case True
    with c(2,4) assms(4) have "?u = ?t \<and> j = ?k" by (cases ?u; cases ?t; cases "j = ?k") auto
    with c(3) have "slot_generation (slots ?t p' ?k) = slot_generation (slots ?t p ?k)" by auto
    with RP_Get_live [OF c(1) True] assms(5) show ?thesis by (simp add: Let_def)
  qed
qed

text \<open>
  C25. Destroying a resource through a working handle invalidates the handle for good as far
  as the next creation: reading it fails the assertion, also when a new resource takes over
  the slot; handles to other slots are not affected.
\<close>

theorem RP_Destroy_invalidates:
  assumes "pool_wf p" "RP_Get p h = Inr x" "Eye_GetIndex h \<noteq> 0"
  shows "\<exists>p'. RP_Destroy p h = Inr p' \<and> pool_wf p' \<and> RP_Get p' h = Inl AssertFailed \<and>
    (\<forall>e. Eye_GetIndex e \<noteq> Eye_GetIndex h \<or> Eye_IsTemplateAsset e \<noteq> Eye_IsTemplateAsset h \<longrightarrow>
         RP_Get p' e = RP_Get p e) \<and>
    (\<forall>ty fresh h' p''. pool_room (is_template ty) p' \<and> RP_Create fresh p' ty = Inr (h', p'') \<longrightarrow>
         RP_Get p'' h = Inl AssertFailed)"
proof -
  let ?t = "Eye_IsTemplateAsset h" and ?k = "unat (Eye_GetIndex h)"
  let ?g = "slot_generation (slots ?t p ?k)"
  have live: "?k \<in> live_slots ?t p" using assms(2) RP_Get_dead [OF assms(1), of h] by force
  have gen: "unat ?g = unat (Eye_GetGeneration h)"
    using assms(2) RP_Get_live [OF assms(1) live] by (simp add: Let_def ME_ASSERT_Inr)
  from RP_Destroy_ok [OF assms(1) live assms(3)] obtain p' where
    p': "RP_Destroy p h = Inr p'" "pool_wf p'" "?k \<notin> live_slots ?t p'" "slot_generation (slots ?t p' ?k) = ?g + 1"
    by (auto simp: Let_def)
  have "unat ?g < 256" using gen unsigned_less [of "Eye_GetGeneration h"] by simp
  then have "unat (?g + 1) \<noteq> unat (Eye_GetGeneration h)" using gen by (simp add: unat_word_ariths)
  then show ?thesis
    using p' RP_Get_dead [OF p'(2,3)] RP_Destroy_others [OF assms(1) live assms(3) p'(1)] RP_Create_stale [OF p'(2) _ _ p'(3)]
    by (intro exI [of _ p']) (auto simp del: de_Morgan_disj)
qed

lemma RP_Destroy_invalidates_witness:
  "\<exists>p h p'. pool_wf p \<and> RP_Get p h = Inr (9 :: nat) \<and> RP_Destroy p h = Inr p' \<and>
     RP_Get p' h = Inl AssertFailed"
proof -
  from pool_new_wf [of "7 :: nat" 0 0] obtain p where
    p: "pool_wf (p :: nat pool)" "\<And>t. length (blocks (assoc_pool t p)) = 1"
      "\<And>t. slots t p = (\<lambda>_. slot_default)(0 := \<lparr>slot_obj = Some 7, slot_generation = 0, slot_inUse = True\<rparr>)"
    by auto
  have "pool_room (is_template meResourceType_InstanceAsset) p" by (simp add: pool_room_def p(2))
  from RP_Create_ok [OF p(1) this, of 9] obtain k q where
    q: "pool_wf q" "0 < k" "k < 8388608" "k \<in> live_slots False q"
      "slots False q = (slots False p)(k := \<lparr>slot_obj = Some 9, slot_generation = slot_generation (slots False p k),
         slot_inUse = False\<rparr>)"
    by (auto simp: Let_def is_template_def)
  let ?h = "Eye_make (of_nat k) 0 False"
  have h: "unat (Eye_GetIndex ?h) = k" "\<not> Eye_IsTemplateAsset ?h" "Eye_GetGeneration ?h = 0"
    using q(3) by (simp_all only: Eye_GetIndex_of_nat Eye_IsTemplateAsset_make Eye_GetGeneration_make) simp
  have get: "RP_Get q ?h = Inr 9"
    using RP_Get_live [OF q(1), of ?h] h q(2,4,5) p(3) by (simp add: Let_def slot_default_generation)
  have "Eye_GetIndex ?h \<noteq> 0" using h(1) q(2) by auto
  from RP_Destroy_invalidates [OF q(1) get this] q(1) get show ?thesis by blast
qed

text \<open>
  Destruction never looks at the generation: two handles that differ only there destroy
  the same resource, so a stale handle destroys whatever has taken over its slot.
\<close>

theorem RP_Destroy_ignores_generation:
  "RP_Destroy p (Eye_make i g t) = RP_Destroy p (Eye_make i g' t)"
  by (simp only: RP_Destroy_def Eye_GetIndex_make Eye_IsTemplateAsset_make)

end
