(* ===== verification/HashMaps.thy ===== *)
theory HashMaps
  imports Prelude "HOL-Library.AList"
begin

text \<open>
  The hash map \<open>meMap\<close> of \<open>core/containers/me_map.h\<close>: separately allocated nodes, linked
  per bucket by \<open>bucketNext\<close> and all together, in the order of insertion, by \<open>next\<close>. The
  nodes live in a store from addresses to nodes, so the two chains are the source's
  pointers. The hash function is an argument. The bucket array is a \<open>DynArray\<close> of 8-byte
  pointers created with as many elements as its capacity: its memory has
  \<open>wrap32 (capacity * 8)\<close> bytes. Node allocation does not fail (the default allocator
  aborts); the chains are walked with one step per address ever handed out as fuel.
\<close>

section \<open>State\<close>

record ('k, 'v) mnode =
  node_first :: 'k
  node_second :: 'v
  bucketNext :: "nat option"
  node_next :: "nat option"

record ('k, 'v) memap =
  m_nodes :: "nat \<Rightarrow> ('k, 'v) mnode option"
  m_fresh :: nat
  m_allocator :: "nat option"
  m_capacity :: nat
  m_buckets :: "nat option list"
  m_head :: "nat option"
  m_tail :: "nat option"
  m_size :: nat

definition MAP_INITIAL_SIZE :: nat where
  "MAP_INITIAL_SIZE = 16"

definition bucket_array :: "nat \<Rightarrow> nat option list" where
  "bucket_array capacity = replicate (wrap32 (capacity * 8) div 8) None"

definition meMap_Initialize :: "nat \<Rightarrow> nat \<Rightarrow> ('k, 'v) memap" where
  "meMap_Initialize alloc capacity =
     \<lparr>m_nodes = (\<lambda>_. None), m_fresh = 0, m_allocator = Some alloc, m_capacity = capacity,
      m_buckets = bucket_array capacity, m_head = None, m_tail = None, m_size = 0\<rparr>"

definition meMap_new :: "nat option \<Rightarrow> ('k, 'v) memap" where
  "meMap_new alloc =
     meMap_Initialize (case alloc of Some a \<Rightarrow> a | None \<Rightarrow> 0) MAP_INITIAL_SIZE"

definition node_at :: "('k, 'v) memap \<Rightarrow> nat \<Rightarrow> ('k, 'v) mnode result" where
  "node_at m p = (case m_nodes m p of None \<Rightarrow> Inl Dangling | Some n \<Rightarrow> Inr n)"

text \<open>Reading and writing a bucket: \<open>DynArray::operator[]\<close> checks the index, then memory decides.\<close>

definition bucket_at :: "nat \<Rightarrow> nat option list \<Rightarrow> nat \<Rightarrow> nat option result" where
  "bucket_at capacity bs i = ME_ASSERT (i < capacity) (readAt i bs)"

definition bucket_put :: "nat \<Rightarrow> nat option list \<Rightarrow> nat \<Rightarrow> nat option \<Rightarrow> nat option list result" where
  "bucket_put capacity bs i p = ME_ASSERT (i < capacity) (writeAt i p bs)"

definition bucket_index :: "('k \<Rightarrow> nat) \<Rightarrow> 'k \<Rightarrow> nat \<Rightarrow> nat" where
  "bucket_index hash key capacity = wrap32 (wrap64 (hash key) mod capacity)"

section \<open>Lookup\<close>

fun chain_find :: "('k, 'v) memap \<Rightarrow> 'k \<Rightarrow> nat option \<Rightarrow> nat \<Rightarrow> nat option result" where
  "chain_find m key None fuel = Inr None"
| "chain_find m key (Some p) 0 = Inl NoReturn"
| "chain_find m key (Some p) (Suc fuel) =
     bindR (node_at m p) (\<lambda>n.
       if node_first n = key then Inr (Some p) else chain_find m key (bucketNext n) fuel)"

definition FindNode :: "('k \<Rightarrow> nat) \<Rightarrow> ('k, 'v) memap \<Rightarrow> 'k \<Rightarrow> nat option result" where
  "FindNode hash m key =
     (if m_capacity m = 0 then Inr None
      else bindR (bucket_at (m_capacity m) (m_buckets m) (bucket_index hash key (m_capacity m)))
             (\<lambda>p. chain_find m key p (Suc (m_fresh m))))"

text \<open>\<open>at\<close>: the value found, or \<open>None\<close> for false.\<close>

definition meMap_at :: "('k \<Rightarrow> nat) \<Rightarrow> ('k, 'v) memap \<Rightarrow> 'k \<Rightarrow> 'v option result" where
  "meMap_at hash m key =
     bindR (FindNode hash m key) (\<lambda>p. case p of
       None \<Rightarrow> Inr None
     | Some p \<Rightarrow> bindR (node_at m p) (\<lambda>n. Inr (Some (node_second n))))"

section \<open>Insertion and growth\<close>

definition GetRequiredBucketCountForSize :: "nat \<Rightarrow> nat" where
  "GetRequiredBucketCountForSize n = wrap64 (n * 4 + 3 - 1) div 3"

fun rehash_loop :: "('k \<Rightarrow> nat) \<Rightarrow> nat \<Rightarrow> ('k, 'v) memap \<Rightarrow> nat option list \<Rightarrow> nat option \<Rightarrow> nat \<Rightarrow>
    (('k, 'v) memap \<times> nat option list) result" where
  "rehash_loop hash capacity m nb None fuel = Inr (m, nb)"
| "rehash_loop hash capacity m nb (Some p) 0 = Inl NoReturn"
| "rehash_loop hash capacity m nb (Some p) (Suc fuel) =
     bindR (node_at m p) (\<lambda>n.
       let i = bucket_index hash (node_first n) capacity
       in bindR (bucket_at capacity nb i) (\<lambda>old.
          bindR (bucket_put capacity nb i (Some p)) (\<lambda>nb.
            rehash_loop hash capacity
              (m\<lparr>m_nodes := (m_nodes m)(p \<mapsto> n\<lparr>bucketNext := old\<rparr>)\<rparr>) nb (node_next n) fuel)))"

definition meMap_Rehash :: "('k \<Rightarrow> nat) \<Rightarrow> ('k, 'v) memap \<Rightarrow> nat \<Rightarrow> ('k, 'v) memap result" where
  "meMap_Rehash hash m capacity =
     (let capacity = (if capacity = 0 then MAP_INITIAL_SIZE else capacity)
      in require NullDeref (m_allocator m \<noteq> None)
           (bindR (rehash_loop hash capacity m (bucket_array capacity) (m_head m) (Suc (m_fresh m)))
             (\<lambda>(m, nb). Inr (m\<lparr>m_capacity := capacity, m_buckets := nb\<rparr>))))"

definition meMap_reserve :: "('k \<Rightarrow> nat) \<Rightarrow> ('k, 'v) memap \<Rightarrow> nat \<Rightarrow> ('k, 'v) memap result" where
  "meMap_reserve hash m capacity =
     (let requiredBuckets = GetRequiredBucketCountForSize capacity
      in ME_ASSERT (requiredBuckets \<le> 4294967295)
           (if requiredBuckets > m_capacity m then meMap_Rehash hash m requiredBuckets else Inr m))"

definition EnsureCapacityForInsert :: "('k \<Rightarrow> nat) \<Rightarrow> ('k, 'v) memap \<Rightarrow> ('k, 'v) memap result" where
  "EnsureCapacityForInsert hash m =
     (if GetRequiredBucketCountForSize (m_size m + 1) > m_capacity m
      then ME_ASSERT (m_capacity m \<le> 4294967295 div 2) (meMap_Rehash hash m (wrap32 (m_capacity m * 2)))
      else Inr m)"

text \<open>
  \<open>operator[]\<close> returns the node whose value is referred to; a missing key gets a new node with
  the value-initialised \<open>dflt\<close>.
\<close>

definition meMap_index :: "('k \<Rightarrow> nat) \<Rightarrow> 'v \<Rightarrow> ('k, 'v) memap \<Rightarrow> 'k \<Rightarrow> (nat \<times> ('k, 'v) memap) result" where
  "meMap_index hash dflt m key =
     bindR (FindNode hash m key) (\<lambda>found. case found of
       Some p \<Rightarrow> Inr (p, m)
     | None \<Rightarrow>
         bindR (EnsureCapacityForInsert hash m) (\<lambda>m.
         bindR (bucket_at (m_capacity m) (m_buckets m) (bucket_index hash key (m_capacity m))) (\<lambda>old.
         let p = m_fresh m;
             node = \<lparr>node_first = key, node_second = dflt, bucketNext = old, node_next = None\<rparr>
         in bindR (bucket_put (m_capacity m) (m_buckets m) (bucket_index hash key (m_capacity m)) (Some p)) (\<lambda>bs.
            bindR (case m_tail m of
                     None \<Rightarrow> Inr ((m_nodes m)(p \<mapsto> node), Some p)
                   | Some t \<Rightarrow> bindR (node_at m t) (\<lambda>tn.
                       Inr ((m_nodes m)(p \<mapsto> node, t \<mapsto> tn\<lparr>node_next := Some p\<rparr>), m_head m))) (\<lambda>(nodes, hd).
              Inr (p, m\<lparr>m_nodes := nodes, m_fresh := Suc p, m_buckets := bs, m_head := hd,
                        m_tail := Some p, m_size := wrap32 (m_size m + 1)\<rparr>))))))"

definition node_put :: "('k, 'v) memap \<Rightarrow> nat \<Rightarrow> 'v \<Rightarrow> ('k, 'v) memap result" where
  "node_put m p v =
     bindR (node_at m p) (\<lambda>n. Inr (m\<lparr>m_nodes := (m_nodes m)(p \<mapsto> n\<lparr>node_second := v\<rparr>)\<rparr>))"

text \<open>The statement \<open>map[key] = v\<close>.\<close>

definition meMap_set :: "('k \<Rightarrow> nat) \<Rightarrow> 'v \<Rightarrow> ('k, 'v) memap \<Rightarrow> 'k \<Rightarrow> 'v \<Rightarrow> ('k, 'v) memap result" where
  "meMap_set hash dflt m key v = bindR (meMap_index hash dflt m key) (\<lambda>(p, m). node_put m p v)"

section \<open>Clearing, copying, moving\<close>

fun free_loop :: "('k, 'v) memap \<Rightarrow> nat option \<Rightarrow> nat \<Rightarrow> ('k, 'v) memap result" where
  "free_loop m None fuel = Inr m"
| "free_loop m (Some p) 0 = Inl NoReturn"
| "free_loop m (Some p) (Suc fuel) =
     bindR (node_at m p) (\<lambda>n. free_loop (m\<lparr>m_nodes := (m_nodes m)(p := None)\<rparr>) (node_next n) fuel)"

fun null_buckets :: "nat \<Rightarrow> nat option list \<Rightarrow> nat \<Rightarrow> nat \<Rightarrow> nat option list result" where
  "null_buckets capacity bs i 0 = Inr bs"
| "null_buckets capacity bs i (Suc left) =
     bindR (bucket_put capacity bs i None) (\<lambda>bs. null_buckets capacity bs (Suc i) left)"

definition meMap_clear :: "('k, 'v) memap \<Rightarrow> ('k, 'v) memap result" where
  "meMap_clear m =
     bindR (free_loop m (m_head m) (Suc (m_fresh m))) (\<lambda>m.
     bindR (null_buckets (m_capacity m) (m_buckets m) 0 (m_capacity m)) (\<lambda>bs.
       Inr (m\<lparr>m_buckets := bs, m_head := None, m_tail := None, m_size := 0\<rparr>)))"

definition meMap_Destroy :: "('k, 'v) memap \<Rightarrow> ('k, 'v) memap result" where
  "meMap_Destroy m =
     bindR (meMap_clear m) (\<lambda>m. Inr (m\<lparr>m_capacity := 0, m_buckets := []\<rparr>))"

fun copy_loop :: "('k \<Rightarrow> nat) \<Rightarrow> 'v \<Rightarrow> ('k, 'v) memap \<Rightarrow> ('k, 'v) memap \<Rightarrow> nat option \<Rightarrow> nat \<Rightarrow>
    ('k, 'v) memap result" where
  "copy_loop hash dflt other m None fuel = Inr m"
| "copy_loop hash dflt other m (Some p) 0 = Inl NoReturn"
| "copy_loop hash dflt other m (Some p) (Suc fuel) =
     bindR (node_at other p) (\<lambda>n.
     bindR (meMap_set hash dflt m (node_first n) (node_second n)) (\<lambda>m.
       copy_loop hash dflt other m (node_next n) fuel))"

definition meMap_copy :: "('k \<Rightarrow> nat) \<Rightarrow> 'v \<Rightarrow> ('k, 'v) memap \<Rightarrow> ('k, 'v) memap result" where
  "meMap_copy hash dflt other =
     (let alloc = (case m_allocator other of Some a \<Rightarrow> a | None \<Rightarrow> 0);
          capacity = (if m_capacity other \<noteq> 0 then m_capacity other else MAP_INITIAL_SIZE)
      in copy_loop hash dflt other (meMap_Initialize alloc capacity) (m_head other) (Suc (m_fresh other)))"

text \<open>A moved-from map keeps its allocator and nothing else.\<close>

definition moved_from :: "('k, 'v) memap \<Rightarrow> ('k, 'v) memap" where
  "moved_from other =
     \<lparr>m_nodes = (\<lambda>_. None), m_fresh = 0, m_allocator = m_allocator other, m_capacity = 0,
      m_buckets = [], m_head = None, m_tail = None, m_size = 0\<rparr>"

definition meMap_move :: "('k, 'v) memap \<Rightarrow> ('k, 'v) memap \<times> ('k, 'v) memap" where
  "meMap_move other = (other, moved_from other)"

definition meMap_move_assign ::
    "('k, 'v) memap \<Rightarrow> ('k, 'v) memap \<Rightarrow> (('k, 'v) memap \<times> ('k, 'v) memap) result" where
  "meMap_move_assign this other = bindR (meMap_Destroy this) (\<lambda>_. Inr (other, moved_from other))"

definition meMap_Swap :: "('k, 'v) memap \<Rightarrow> ('k, 'v) memap \<Rightarrow> ('k, 'v) memap \<times> ('k, 'v) memap" where
  "meMap_Swap this other = (other, this)"

text \<open>Copy assignment: copy, swap, and the copy takes the old contents with it.\<close>

definition meMap_assign ::
    "('k \<Rightarrow> nat) \<Rightarrow> 'v \<Rightarrow> ('k, 'v) memap \<Rightarrow> ('k, 'v) memap \<Rightarrow> ('k, 'v) memap result" where
  "meMap_assign hash dflt this other =
     bindR (meMap_copy hash dflt other) (\<lambda>copy.
       case meMap_Swap this copy of (this, copy) \<Rightarrow> bindR (meMap_Destroy copy) (\<lambda>_. Inr this))"

section \<open>Iterators\<close>

text \<open>An iterator is a node (or null) and a bucket number.\<close>

type_synonym m_iter = "nat option \<times> nat"

fun SkipEmptyBuckets :: "('k, 'v) memap \<Rightarrow> nat option \<Rightarrow> nat \<Rightarrow> nat \<Rightarrow> m_iter result" where
  "SkipEmptyBuckets m (Some p) i left = Inr (Some p, i)"
| "SkipEmptyBuckets m None i 0 = Inr (None, i)"
| "SkipEmptyBuckets m None i (Suc left) =
     bindR (bucket_at (m_capacity m) (m_buckets m) i) (\<lambda>p. case p of
       Some p \<Rightarrow> Inr (Some p, i)
     | None \<Rightarrow> SkipEmptyBuckets m None (Suc i) left)"

definition m_iterator :: "('k, 'v) memap \<Rightarrow> nat \<Rightarrow> nat option \<Rightarrow> m_iter result" where
  "m_iterator m i node =
     (if node = None then SkipEmptyBuckets m None i (m_capacity m - i) else Inr (node, i))"

definition m_begin :: "('k, 'v) memap \<Rightarrow> m_iter result" where
  "m_begin m = m_iterator m 0 None"

definition m_end :: "('k, 'v) memap \<Rightarrow> m_iter result" where
  "m_end m = m_iterator m (m_capacity m) None"

definition m_next :: "('k, 'v) memap \<Rightarrow> m_iter \<Rightarrow> m_iter result" where
  "m_next m it =
     bindR (case fst it of None \<Rightarrow> Inr None | Some p \<Rightarrow> bindR (node_at m p) (\<lambda>n. Inr (bucketNext n)))
       (\<lambda>node. let i = (if node = None then wrap32 (snd it + 1) else snd it)
               in SkipEmptyBuckets m node i (m_capacity m - i))"

definition m_find :: "('k \<Rightarrow> nat) \<Rightarrow> ('k, 'v) memap \<Rightarrow> 'k \<Rightarrow> m_iter result" where
  "m_find hash m key =
     bindR (FindNode hash m key) (\<lambda>p.
       if p = None then m_end m else m_iterator m (bucket_index hash key (m_capacity m)) p)"

text \<open>The range-for loop: the nodes visited from an iterator to the end.\<close>

fun m_visit :: "('k, 'v) memap \<Rightarrow> m_iter \<Rightarrow> m_iter \<Rightarrow> nat \<Rightarrow> nat list result" where
  "m_visit m stop it 0 = Inl NoReturn"
| "m_visit m stop it (Suc fuel) =
     (if it = stop then Inr []
      else bindR (deref (fst it)) (\<lambda>p. bindR (m_next m it) (\<lambda>it.
             bindR (m_visit m stop it fuel) (\<lambda>ps. Inr (p # ps)))))"

definition m_range :: "('k, 'v) memap \<Rightarrow> nat list result" where
  "m_range m = bindR (m_end m) (\<lambda>stop. bindR (m_begin m) (\<lambda>it. m_visit m stop it (Suc (m_fresh m))))"

section \<open>The built-in test\<close>

text \<open>Reading through \<open>operator[]\<close>: the value referred to, and the map afterwards.\<close>

definition meMap_read :: "('k \<Rightarrow> nat) \<Rightarrow> 'v \<Rightarrow> ('k, 'v) memap \<Rightarrow> 'k \<Rightarrow> ('v \<times> ('k, 'v) memap) result" where
  "meMap_read hash dflt m key =
     bindR (meMap_index hash dflt m key) (\<lambda>(p, m). bindR (node_at m p) (\<lambda>n. Inr (node_second n, m)))"

definition expect_at :: "(nat, int) memap \<Rightarrow> nat \<Rightarrow> int \<Rightarrow> (nat, int) memap result" where
  "expect_at m key v =
     bindR (meMap_read (\<lambda>k. k) 0 m key) (\<lambda>(x, m). ME_ASSERT (x = v) (Inr m))"

fun sum_values :: "(nat, int) memap \<Rightarrow> nat list \<Rightarrow> int \<Rightarrow> int result" where
  "sum_values m [] acc = Inr acc"
| "sum_values m (p # ps) acc = bindR (node_at m p) (\<lambda>n. sum_values m ps (acc + node_second n))"

definition meMapTests :: "unit result" where
  "meMapTests =
     bindR (meMap_set (\<lambda>k. k) 0 (meMap_new None) 1 10) (\<lambda>m.
     bindR (meMap_set (\<lambda>k. k) 0 m 2 20) (\<lambda>m.
     ME_ASSERT (m_size m = 2)
    (bindR (expect_at m 1 10) (\<lambda>m.
     bindR (expect_at m 2 20) (\<lambda>m.
     bindR (meMap_set (\<lambda>k. k) 0 m 1 15) (\<lambda>m.
     ME_ASSERT (m_size m = 2)
    (bindR (expect_at m 1 15) (\<lambda>m.
     bindR (m_range m) (\<lambda>ps.
     bindR (sum_values m ps 0) (\<lambda>valueSum. ME_ASSERT (valueSum = 35) (Inr ())))))))))))"

section \<open>Chains\<close>

text \<open>\<open>chain nxt ns p C\<close>: following \<open>nxt\<close> from \<open>p\<close> visits exactly the addresses \<open>C\<close>, then null.\<close>

fun chain :: "('n \<Rightarrow> nat option) \<Rightarrow> (nat \<Rightarrow> 'n option) \<Rightarrow> nat option \<Rightarrow> nat list \<Rightarrow> bool" where
  "chain nxt ns p [] = (p = None)"
| "chain nxt ns p (a # C) = (p = Some a \<and> (\<exists>n. ns a = Some n \<and> chain nxt ns (nxt n) C))"

lemma chain_None [simp]: "chain nxt ns None C \<longleftrightarrow> C = []"
  by (cases C) auto

lemma chain_dom: "chain nxt ns p C \<Longrightarrow> a \<in> set C \<Longrightarrow> \<exists>n. ns a = Some n"
  by (induction C arbitrary: p) auto

lemma chain_cong:
  "chain nxt ns p C \<Longrightarrow> (\<And>a. a \<in> set C \<Longrightarrow> map_option nxt (ns' a) = map_option nxt (ns a)) \<Longrightarrow>
     chain nxt ns' p C"
proof (induction C arbitrary: p)
  case (Cons a C)
  from Cons.prems(1) obtain n where n: "p = Some a" "ns a = Some n" "chain nxt ns (nxt n) C" by auto
  moreover from Cons.prems(2)[of a] n(2) obtain n' where "ns' a = Some n'" "nxt n' = nxt n" by auto
  ultimately show ?case using Cons.IH[of "nxt n"] Cons.prems(2) by auto
qed simp

lemma chain_unique: "chain nxt ns p C \<Longrightarrow> chain nxt ns p D \<Longrightarrow> C = D"
proof (induction C arbitrary: p D)
  case (Cons a C)
  then show ?case by (cases D) auto
qed (cases D; auto)

lemma chain_suffix: "chain nxt ns p (xs @ a # ys) \<Longrightarrow> chain nxt ns (Some a) (a # ys)"
  by (induction xs arbitrary: p) auto

lemma chain_distinct: "chain nxt ns p C \<Longrightarrow> distinct C"
proof (induction C arbitrary: p)
  case (Cons a C)
  then obtain n where n: "p = Some a" "ns a = Some n" "chain nxt ns (nxt n) C" by auto
  have "a \<notin> set C"
  proof
    assume "a \<in> set C"
    then obtain xs ys where C: "C = xs @ a # ys" by (auto simp: in_set_conv_decomp)
    have "chain nxt ns (Some a) (a # ys)" using n(3) chain_suffix unfolding C by metis
    moreover have "chain nxt ns (Some a) (a # C)" using n by auto
    ultimately have "a # ys = a # C" by (rule chain_unique)
    then show False by (simp add: C)
  qed
  with Cons.IH n(3) show ?case by auto
qed simp

lemma chain_snoc:
  "chain nxt ns p (C @ [t]) \<Longrightarrow> ns' t = Some tn \<Longrightarrow> nxt tn = Some q \<Longrightarrow> ns' q = Some qn \<Longrightarrow>
     nxt qn = None \<Longrightarrow> (\<And>a. a \<in> set C \<Longrightarrow> ns' a = ns a) \<Longrightarrow> chain nxt ns' p (C @ [t, q])"
proof (induction C arbitrary: p)
  case (Cons a C)
  then show ?case by auto
qed auto

section \<open>The invariant and the abstraction\<close>

definition in_bucket :: "('k \<Rightarrow> nat) \<Rightarrow> nat \<Rightarrow> (nat \<Rightarrow> ('k, 'v) mnode option) \<Rightarrow> nat \<Rightarrow> nat \<Rightarrow> bool" where
  "in_bucket hash cap ns i a \<longleftrightarrow> (\<exists>n. ns a = Some n \<and> bucket_index hash (node_first n) cap = i)"

definition buckets_ok ::
    "('k \<Rightarrow> nat) \<Rightarrow> nat \<Rightarrow> (nat \<Rightarrow> ('k, 'v) mnode option) \<Rightarrow> nat option list \<Rightarrow> nat set \<Rightarrow> bool" where
  "buckets_ok hash cap ns bs S \<longleftrightarrow>
     length bs = cap \<and>
     (\<forall>i<cap. \<exists>C. chain bucketNext ns (bs ! i) C \<and> set C = {a \<in> S. in_bucket hash cap ns i a})"

definition nkey :: "('k, 'v) memap \<Rightarrow> nat \<Rightarrow> 'k" where
  "nkey m a = node_first (the (m_nodes m a))"

definition nval :: "('k, 'v) memap \<Rightarrow> nat \<Rightarrow> 'v" where
  "nval m a = node_second (the (m_nodes m a))"

definition map_wf :: "('k \<Rightarrow> nat) \<Rightarrow> ('k, 'v) memap \<Rightarrow> nat list \<Rightarrow> bool" where
  "map_wf hash m L \<longleftrightarrow>
     chain node_next (m_nodes m) (m_head m) L \<and> dom (m_nodes m) = set L \<and>
     (\<forall>a\<in>set L. a < m_fresh m) \<and>
     m_tail m = (if L = [] then None else Some (List.last L)) \<and>
     m_size m = length L \<and> distinct (List.map (nkey m) L) \<and> m_allocator m \<noteq> None \<and>
     m_capacity m * 8 < 4294967296 \<and> 4 * m_size m \<le> 3 * m_capacity m \<and>
     buckets_ok hash (m_capacity m) (m_nodes m) (m_buckets m) (set L)"

text \<open>What the map holds: its pairs in the order of insertion, and the finite map they are.\<close>

fun walk :: "(nat \<Rightarrow> ('k, 'v) mnode option) \<Rightarrow> nat option \<Rightarrow> nat \<Rightarrow> nat list" where
  "walk ns None fuel = []"
| "walk ns (Some p) 0 = []"
| "walk ns (Some p) (Suc fuel) = (case ns p of None \<Rightarrow> [] | Some n \<Rightarrow> p # walk ns (node_next n) fuel)"

definition m_order :: "('k, 'v) memap \<Rightarrow> nat list" where
  "m_order m = walk (m_nodes m) (m_head m) (m_fresh m)"

definition m_entries :: "('k, 'v) memap \<Rightarrow> ('k \<times> 'v) list" where
  "m_entries m = List.map (\<lambda>a. (nkey m a, nval m a)) (m_order m)"

definition m_abs :: "('k, 'v) memap \<Rightarrow> 'k \<Rightarrow> 'v option" where
  "m_abs m = map_of (m_entries m)"

lemma walk_chain: "chain node_next ns p C \<Longrightarrow> length C \<le> fuel \<Longrightarrow> walk ns p fuel = C"
proof (induction C arbitrary: p fuel)
  case (Cons a C)
  then show ?case by (cases fuel) auto
qed (cases fuel; auto)

lemma below_length: "distinct C \<Longrightarrow> \<forall>a\<in>set C. a < N \<Longrightarrow> length C \<le> N"
proof -
  assume "distinct C" "\<forall>a\<in>set C. a < N"
  then have "card (set C) \<le> card {..<N}" by (intro card_mono) auto
  with \<open>distinct C\<close> show ?thesis by (simp add: distinct_card)
qed

lemma wf_order: "map_wf hash m L \<Longrightarrow> m_order m = L"
  unfolding map_wf_def m_order_def
  by (metis walk_chain chain_distinct below_length)

lemma wf_entries: "map_wf hash m L \<Longrightarrow> m_entries m = List.map (\<lambda>a. (nkey m a, nval m a)) L"
  by (simp add: m_entries_def wf_order)

lemma wf_dom: "map_wf hash m L \<Longrightarrow> a \<in> set L \<longleftrightarrow> (\<exists>n. m_nodes m a = Some n)"
  unfolding map_wf_def by auto

lemma wf_fresh: "map_wf hash m L \<Longrightarrow> length L \<le> m_fresh m"
  unfolding map_wf_def by (metis chain_distinct below_length)

lemma wf_fresh_free: "map_wf hash m L \<Longrightarrow> m_fresh m \<notin> set L"
  unfolding map_wf_def by auto

lemma bucket_index_less: "0 < cap \<Longrightarrow> bucket_index hash k cap < cap"
  unfolding bucket_index_def by (meson le_less_trans mod_less_divisor wrap32_le)

lemma buckets_ok_chain:
  "buckets_ok hash cap ns bs S \<Longrightarrow> i < cap \<Longrightarrow>
     \<exists>C. chain bucketNext ns (bs ! i) C \<and> set C = {a \<in> S. in_bucket hash cap ns i a} \<and> distinct C"
  unfolding buckets_ok_def using chain_distinct by metis

section \<open>Lookup finds the entry\<close>

lemma chain_find_spec:
  "chain bucketNext (m_nodes m) p C \<Longrightarrow> length C \<le> fuel \<Longrightarrow>
     chain_find m key p fuel = Inr (find (\<lambda>a. nkey m a = key) C)"
proof (induction C arbitrary: p fuel)
  case (Cons a C)
  then obtain f n where "fuel = Suc f" "p = Some a" "m_nodes m a = Some n"
      "chain bucketNext (m_nodes m) (bucketNext n) C" "length C \<le> f" by (cases fuel) auto
  with Cons.IH show ?case by (auto simp: node_at_def nkey_def)
qed auto

lemma find_SomeD: "find P xs = Some a \<Longrightarrow> a \<in> set xs \<and> P a"
  by (auto simp: find_Some_iff)

lemma FindNode_spec:
  assumes wf: "map_wf hash m L"
  shows "FindNode hash m key = Inr (find (\<lambda>a. nkey m a = key) L)"
proof (cases "m_capacity m = 0")
  case True
  then have "L = []" using wf by (auto simp: map_wf_def)
  with True show ?thesis by (simp add: FindNode_def)
next
  case False
  define i where "i = bucket_index hash key (m_capacity m)"
  have i: "i < m_capacity m" unfolding i_def using False by (simp add: bucket_index_less)
  have bo: "buckets_ok hash (m_capacity m) (m_nodes m) (m_buckets m) (set L)"
    using wf by (simp add: map_wf_def)
  then have len: "length (m_buckets m) = m_capacity m" by (simp add: buckets_ok_def)
  from buckets_ok_chain[OF bo i] obtain C where C: "chain bucketNext (m_nodes m) (m_buckets m ! i) C"
      "set C = {a \<in> set L. in_bucket hash (m_capacity m) (m_nodes m) i a}" "distinct C" by auto
  have lC: "length C \<le> m_fresh m"
    using C wf by (intro below_length) (auto simp: map_wf_def)
  have inC: "a \<in> set C" if "a \<in> set L" "nkey m a = key" for a
  proof -
    from wf_dom[OF wf, of a] that(1) obtain n where n: "m_nodes m a = Some n" by auto
    with that show ?thesis unfolding C(2) by (auto simp: in_bucket_def i_def nkey_def)
  qed
  have uniq: "a = b" if "a \<in> set L" "b \<in> set L" "nkey m a = nkey m b" for a b
    using wf that by (auto simp: map_wf_def distinct_map inj_on_def)
  have "find (\<lambda>a. nkey m a = key) C = find (\<lambda>a. nkey m a = key) L"
  proof (cases "find (\<lambda>a. nkey m a = key) L")
    case None
    then have "\<forall>a\<in>set L. nkey m a \<noteq> key" by (simp add: find_None_iff)
    then have "find (\<lambda>a. nkey m a = key) C = None" unfolding find_None_iff using C(2) by auto
    with None show ?thesis by simp
  next
    case (Some a)
    then have a: "a \<in> set L" "nkey m a = key" by (auto dest: find_SomeD)
    then have "find (\<lambda>a. nkey m a = key) C \<noteq> None" unfolding find_None_iff using inC by blast
    then obtain b where b: "find (\<lambda>a. nkey m a = key) C = Some b" by blast
    then have "b \<in> set C" "nkey m b = key" by (auto dest: find_SomeD)
    then have "b = a" using uniq a C(2) by auto
    with b Some show ?thesis by simp
  qed
  moreover have "bucket_at (m_capacity m) (m_buckets m) i = Inr (m_buckets m ! i)"
    using i len by (simp add: bucket_at_def)
  moreover have "chain_find m key (m_buckets m ! i) (Suc (m_fresh m)) = Inr (find (\<lambda>a. nkey m a = key) C)"
    by (rule chain_find_spec[OF C(1)]) (use lC in simp)
  ultimately show ?thesis
    unfolding FindNode_def i_def[symmetric] using False by (simp del: chain_find.simps)
qed

lemma map_of_find:
  "map_of (List.map (\<lambda>a. (f a, g a)) L) k = map_option g (find (\<lambda>a. f a = k) L)"
  by (induction L) auto

lemma meMap_at_abs:
  assumes wf: "map_wf hash m L"
  shows "meMap_at hash m key = Inr (m_abs m key)"
proof -
  have "m_abs m key = map_option (nval m) (find (\<lambda>a. nkey m a = key) L)"
    by (simp add: m_abs_def wf_entries[OF wf] map_of_find)
  moreover have "\<exists>n. m_nodes m a = Some n" if "find (\<lambda>a. nkey m a = key) L = Some a" for a
    using that wf_dom[OF wf, of a] by (auto simp: find_Some_iff)
  ultimately show ?thesis
    by (cases "find (\<lambda>a. nkey m a = key) L")
       (force simp: meMap_at_def FindNode_spec[OF wf] node_at_def nval_def)+
qed

section \<open>Insertion keeps the invariant\<close>

lemma buckets_ok_cong:
  fixes ns ns' :: "nat \<Rightarrow> ('k, 'v) mnode option"
  assumes bo: "buckets_ok hash cap ns bs S"
    and same: "\<And>b. b \<in> S \<Longrightarrow> map_option (\<lambda>n. (node_first n, bucketNext n)) (ns' b)
                                = map_option (\<lambda>n. (node_first n, bucketNext n)) (ns b)"
  shows "buckets_ok hash cap ns' bs S"
proof -
  have ib: "in_bucket hash cap ns' j b = in_bucket hash cap ns j b" if "b \<in> S" for j b
    using same[OF that] by (cases "ns b"; cases "ns' b") (auto simp: in_bucket_def)
  have "\<exists>C. chain bucketNext ns' (bs ! j) C \<and> set C = {b \<in> S. in_bucket hash cap ns' j b}"
    if "j < cap" for j
  proof -
    from bo that obtain C where C: "chain bucketNext ns (bs ! j) C"
        "set C = {b \<in> S. in_bucket hash cap ns j b}" by (auto simp: buckets_ok_def)
    have nx: "map_option bucketNext (ns' b) = map_option bucketNext (ns b)" if "b \<in> set C" for b
      using same[of b] that C(2) by (cases "ns b"; cases "ns' b") auto
    have "chain bucketNext ns' (bs ! j) C" by (rule chain_cong[OF C(1)]) (rule nx)
    with C(2) ib show ?thesis by (intro exI[of _ C]) auto
  qed
  then show ?thesis using bo by (simp add: buckets_ok_def)
qed

lemma buckets_ok_insert:
  fixes ns ns' :: "nat \<Rightarrow> ('k, 'v) mnode option"
  assumes bo: "buckets_ok hash cap ns bs S" and a: "a \<notin> S"
    and same: "\<And>b. b \<in> S \<Longrightarrow> map_option (\<lambda>n. (node_first n, bucketNext n)) (ns' b)
                                = map_option (\<lambda>n. (node_first n, bucketNext n)) (ns b)"
    and new: "ns' a = Some n" "bucketNext n = bs ! bucket_index hash (node_first n) cap"
    and cap: "0 < cap"
  shows "buckets_ok hash cap ns' (bs[bucket_index hash (node_first n) cap := Some a]) (insert a S)"
proof -
  define i where "i = bucket_index hash (node_first n) cap"
  have i: "i < cap" "i < length bs"
    using bo bucket_index_less[OF cap] unfolding i_def buckets_ok_def by auto
  have old: "buckets_ok hash cap ns' bs S" using buckets_ok_cong[OF bo same] by simp
  have "\<exists>C. chain bucketNext ns' (bs[i := Some a] ! j) C \<and>
            set C = {b \<in> insert a S. in_bucket hash cap ns' j b}" if j: "j < cap" for j
  proof -
    from old j obtain C where C: "chain bucketNext ns' (bs ! j) C"
        "set C = {b \<in> S. in_bucket hash cap ns' j b}" by (auto simp: buckets_ok_def)
    show ?thesis
    proof (cases "j = i")
      case True
      with C new i a show ?thesis
        by (intro exI[of _ "a # C"]) (auto simp: in_bucket_def i_def)
    next
      case False
      with C new show ?thesis by (intro exI[of _ C]) (auto simp: in_bucket_def i_def)
    qed
  qed
  then show ?thesis using bo by (simp add: buckets_ok_def i_def)
qed

lemma buckets_ok_empty: "cap * 8 < 4294967296 \<Longrightarrow> buckets_ok hash cap ns (bucket_array cap) {}"
  by (auto simp: buckets_ok_def bucket_array_def)

text \<open>A rehash rewrites only the bucket links.\<close>

definition same_but_links :: "('k, 'v) memap \<Rightarrow> ('k, 'v) memap \<Rightarrow> bool" where
  "same_but_links m m' \<longleftrightarrow>
     (\<forall>a. map_option (\<lambda>n. n\<lparr>bucketNext := None\<rparr>) (m_nodes m' a)
        = map_option (\<lambda>n. n\<lparr>bucketNext := None\<rparr>) (m_nodes m a)) \<and>
     m_fresh m' = m_fresh m \<and> m_allocator m' = m_allocator m \<and> m_head m' = m_head m \<and>
     m_tail m' = m_tail m \<and> m_size m' = m_size m"

lemma same_but_links_fields:
  assumes "same_but_links m m'"
  shows "m_nodes m a = Some n \<Longrightarrow> \<exists>n'. m_nodes m' a = Some n' \<and> node_first n' = node_first n \<and>
           node_second n' = node_second n \<and> node_next n' = node_next n"
    and "dom (m_nodes m') = dom (m_nodes m)"
proof -
  have *: "map_option (\<lambda>n. n\<lparr>bucketNext := None\<rparr>) (m_nodes m' a)
         = map_option (\<lambda>n. n\<lparr>bucketNext := None\<rparr>) (m_nodes m a)" for a
    using assms unfolding same_but_links_def by blast
  show "\<exists>n'. m_nodes m' a = Some n' \<and> node_first n' = node_first n \<and>
          node_second n' = node_second n \<and> node_next n' = node_next n" if "m_nodes m a = Some n"
    using *[of a] that
    by (cases "m_nodes m' a") (auto, (metis mnode.ext_inject mnode.surjective mnode.update_convs(3))+)
  show "dom (m_nodes m') = dom (m_nodes m)"
    using * by (auto simp: dom_def) (metis map_option_is_None option.distinct(1) option.exhaust)+
qed

lemma same_but_links_trans: "same_but_links m m' \<Longrightarrow> same_but_links m' m'' \<Longrightarrow> same_but_links m m''"
  unfolding same_but_links_def by simp

lemma rehash_loop_spec:
  assumes "chain node_next (m_nodes m) p R" "length R \<le> fuel" "set R \<inter> D = {}" "0 < cap"
    "buckets_ok hash cap (m_nodes m) nb D"
  shows "\<exists>m' nb'. rehash_loop hash cap m nb p fuel = Inr (m', nb') \<and> same_but_links m m' \<and>
           buckets_ok hash cap (m_nodes m') nb' (D \<union> set R)"
  using assms
proof (induction R arbitrary: m nb p fuel D)
  case Nil
  then show ?case by (cases fuel) (auto simp: same_but_links_def)
next
  case (Cons a R)
  from Cons.prems obtain f n where f: "fuel = Suc f" "length R \<le> f" "p = Some a"
      "m_nodes m a = Some n" "chain node_next (m_nodes m) (node_next n) R" by (cases fuel) auto
  define i where "i = bucket_index hash (node_first n) cap"
  have i: "i < cap" "i < length nb"
    using Cons.prems(4,5) bucket_index_less[OF Cons.prems(4)] unfolding i_def buckets_ok_def by auto
  define m1 where "m1 = m\<lparr>m_nodes := (m_nodes m)(a \<mapsto> n\<lparr>bucketNext := nb ! i\<rparr>)\<rparr>"
  have step: "rehash_loop hash cap m nb p fuel = rehash_loop hash cap m1 (nb[i := Some a]) (node_next n) f"
    using f i by (simp add: node_at_def bucket_at_def bucket_put_def Let_def i_def m1_def)
  have aD: "a \<notin> D" using Cons.prems(3) by auto
  have aR: "a \<notin> set R" using chain_distinct[OF Cons.prems(1)] by simp
  have c1: "chain node_next (m_nodes m1) (node_next n) R"
    by (rule chain_cong[OF f(5)]) (use aR in \<open>auto simp: m1_def\<close>)
  have b1: "buckets_ok hash cap (m_nodes m1) (nb[i := Some a]) (insert a D)"
    using buckets_ok_insert[OF Cons.prems(5) aD, of "m_nodes m1" "n\<lparr>bucketNext := nb ! i\<rparr>"]
      Cons.prems(4) aD unfolding m1_def i_def by fastforce
  have s1: "same_but_links m m1" using f(4) by (auto simp: same_but_links_def m1_def)
  have d1: "set R \<inter> insert a D = {}" using Cons.prems(3) aR by auto
  from Cons.IH[OF c1 f(2) d1 Cons.prems(4) b1] obtain m' nb' where
    "rehash_loop hash cap m1 (nb[i := Some a]) (node_next n) f = Inr (m', nb')"
    "same_but_links m1 m'" "buckets_ok hash cap (m_nodes m') nb' (insert a D \<union> set R)" by blast
  with step same_but_links_trans[OF s1] show ?case by auto
qed

lemma links_chain:
  assumes "same_but_links m m'" "chain node_next (m_nodes m) p L"
  shows "chain node_next (m_nodes m') p L"
proof (rule chain_cong[OF assms(2)])
  fix a assume "a \<in> set L"
  with chain_dom[OF assms(2)] obtain n where "m_nodes m a = Some n" by blast
  with same_but_links_fields(1)[OF assms(1) this]
  show "map_option node_next (m_nodes m' a) = map_option node_next (m_nodes m a)" by auto
qed

lemma links_kv:
  assumes "same_but_links m m'" "m_nodes m a = Some n"
  shows "nkey m' a = nkey m a" "nval m' a = nval m a"
  using same_but_links_fields(1)[OF assms] assms(2) by (auto simp: nkey_def nval_def)

lemma meMap_Rehash_wf:
  assumes wf: "map_wf hash m L" and cap: "c = (if c0 = 0 then MAP_INITIAL_SIZE else c0)"
    "c * 8 < 4294967296" "4 * m_size m \<le> 3 * c"
  shows "\<exists>m'. meMap_Rehash hash m c0 = Inr m' \<and> map_wf hash m' L \<and> m_capacity m' = c \<and>
           m_entries m' = m_entries m \<and> m_fresh m' = m_fresh m \<and> m_size m' = m_size m"
proof -
  have ch: "chain node_next (m_nodes m) (m_head m) L" using wf by (simp add: map_wf_def)
  have c0: "0 < c" using cap(1) by (simp add: MAP_INITIAL_SIZE_def split: if_splits)
  have bo: "buckets_ok hash c (m_nodes m) (bucket_array c) {}" by (rule buckets_ok_empty[OF cap(2)])
  have "length L \<le> Suc (m_fresh m)" using wf_fresh[OF wf] by simp
  from rehash_loop_spec[OF ch this _ c0 bo] obtain m1 nb where m1:
    "rehash_loop hash c m (bucket_array c) (m_head m) (Suc (m_fresh m)) = Inr (m1, nb)"
    "same_but_links m m1" "buckets_ok hash c (m_nodes m1) nb (set L)" by auto
  have kv: "nkey m1 a = nkey m a \<and> nval m1 a = nval m a" if "a \<in> set L" for a
    using that wf_dom[OF wf, of a] links_kv[OF m1(2)] by auto
  have kv': "List.map (nkey m1) L = List.map (nkey m) L" using kv by simp
  define m' where "m' = m1\<lparr>m_capacity := c, m_buckets := nb\<rparr>"
  have run: "meMap_Rehash hash m c0 = Inr m'"
    using wf m1(1) cap(1)
    by (simp add: meMap_Rehash_def Let_def map_wf_def m'_def del: rehash_loop.simps split: if_splits)
  have eq: "nkey m' = nkey m1" "nval m' = nval m1" by (auto simp: nkey_def nval_def m'_def fun_eq_iff)
  have f: "m_fresh m1 = m_fresh m" "m_allocator m1 = m_allocator m" "m_head m1 = m_head m"
      "m_tail m1 = m_tail m" "m_size m1 = m_size m"
    using m1(2) by (auto simp: same_but_links_def)
  have wf': "map_wf hash m' L"
    using wf m1(3) cap(2,3) kv' links_chain[OF m1(2)] same_but_links_fields(2)[OF m1(2)]
    unfolding map_wf_def eq kv' by (intro conjI) (simp_all add: m'_def f)
  moreover have "m_entries m' = m_entries m"
    using kv by (simp add: wf_entries[OF wf] wf_entries[OF wf'] eq)
  ultimately show ?thesis using run f by (auto simp: m'_def)
qed

section \<open>Growth and insertion\<close>

lemma required_buckets: "n < 4294967296 \<Longrightarrow> GetRequiredBucketCountForSize n \<le> c \<longleftrightarrow> 4 * n \<le> 3 * c"
  by (auto simp: GetRequiredBucketCountForSize_def less_Suc_eq_le[symmetric] div_less_iff_less_mult)

lemma wf_size: "map_wf hash m L \<Longrightarrow> m_size m < 402653184"
  by (auto simp: map_wf_def)

lemma EnsureCapacity_wf:
  assumes wf: "map_wf hash m L" and cap: "m_capacity m < 268435456"
  shows "\<exists>m'. EnsureCapacityForInsert hash m = Inr m' \<and> map_wf hash m' L \<and>
           m_entries m' = m_entries m \<and> m_fresh m' = m_fresh m \<and> m_size m' = m_size m \<and>
           4 * (m_size m + 1) \<le> 3 * m_capacity m' \<and>
           (m_capacity m' = m_capacity m \<or>
            3 * m_capacity m < 4 * (m_size m + 1) \<and> m_capacity m' \<le> max MAP_INITIAL_SIZE (2 * m_capacity m))"
proof (cases "GetRequiredBucketCountForSize (m_size m + 1) > m_capacity m")
  case True
  define c where "c = (if wrap32 (m_capacity m * 2) = 0 then MAP_INITIAL_SIZE else wrap32 (m_capacity m * 2))"
  have small: "m_size m + 1 < 4294967296" using wf_size[OF wf] by simp
  have w: "wrap32 (m_capacity m * 2) = m_capacity m * 2" using cap by simp
  have full: "3 * m_capacity m < 4 * (m_size m + 1)"
    using True required_buckets[OF small, of "m_capacity m"] by linarith
  have load: "4 * m_size m \<le> 3 * m_capacity m" using wf by (simp add: map_wf_def)
  have dbl: "0 < m_capacity m \<Longrightarrow> 4 + 4 * m_size m \<le> 6 * m_capacity m" using load by presburger
  have c: "c * 8 < 4294967296" "4 * (m_size m + 1) \<le> 3 * c"
      "c \<le> max MAP_INITIAL_SIZE (2 * m_capacity m)"
    using cap load dbl by (auto simp: c_def w MAP_INITIAL_SIZE_def)
  then have "4 * m_size m \<le> 3 * c" by simp
  from meMap_Rehash_wf[OF wf c_def c(1) this] obtain m' where m':
    "meMap_Rehash hash m (wrap32 (m_capacity m * 2)) = Inr m'" "map_wf hash m' L" "m_capacity m' = c"
    "m_entries m' = m_entries m" "m_fresh m' = m_fresh m" "m_size m' = m_size m" by blast
  have "EnsureCapacityForInsert hash m = Inr m'"
    using True cap m'(1) by (simp add: EnsureCapacityForInsert_def)
  with m' c full show ?thesis by auto
next
  case False
  have small: "m_size m + 1 < 4294967296" using wf_size[OF wf] by simp
  have "4 * (m_size m + 1) \<le> 3 * m_capacity m"
    using False required_buckets[OF small, of "m_capacity m"] by linarith
  with False wf show ?thesis by (auto simp: EnsureCapacityForInsert_def)
qed

text \<open>The state after a new node is linked in.\<close>

definition linked :: "('k \<Rightarrow> nat) \<Rightarrow> 'v \<Rightarrow> ('k, 'v) memap \<Rightarrow> 'k \<Rightarrow> ('k, 'v) memap" where
  "linked hash dflt m key =
     (let i = bucket_index hash key (m_capacity m); p = m_fresh m;
          node = \<lparr>node_first = key, node_second = dflt, bucketNext = m_buckets m ! i, node_next = None\<rparr>
      in m\<lparr>m_nodes := (case m_tail m of None \<Rightarrow> (m_nodes m)(p \<mapsto> node)
                       | Some t \<Rightarrow> (m_nodes m)(p \<mapsto> node, t \<mapsto> (the (m_nodes m t))\<lparr>node_next := Some p\<rparr>)),
           m_fresh := Suc p, m_buckets := (m_buckets m)[i := Some p],
           m_head := (case m_tail m of None \<Rightarrow> Some p | Some t \<Rightarrow> m_head m),
           m_tail := Some p, m_size := wrap32 (m_size m + 1)\<rparr>)"

lemma linked_fields:
  assumes wf: "map_wf hash m L"
  shows "a \<in> set L \<Longrightarrow> m_nodes m a = Some n \<Longrightarrow> \<exists>n'. m_nodes (linked hash dflt m key) a = Some n' \<and>
           node_first n' = node_first n \<and> node_second n' = node_second n \<and> bucketNext n' = bucketNext n \<and>
           (node_next n' = node_next n \<or> a = List.last L)"
    and "\<exists>n'. m_nodes (linked hash dflt m key) (m_fresh m) = Some n' \<and> node_first n' = key \<and>
           node_second n' = dflt \<and> bucketNext n' = m_buckets m ! bucket_index hash key (m_capacity m) \<and>
           node_next n' = None"
    and "dom (m_nodes (linked hash dflt m key)) = insert (m_fresh m) (set L)"
proof -
  note fr = wf_fresh_free[OF wf]
  have d: "dom (m_nodes m) = set L" and t: "m_tail m = (if L = [] then None else Some (List.last L))"
    using wf by (auto simp: map_wf_def)
  have tl: "L \<noteq> [] \<Longrightarrow> List.last L \<in> set L" by simp
  have ne: "L \<noteq> [] \<Longrightarrow> List.last L \<noteq> m_fresh m" using tl fr by metis
  show "a \<in> set L \<Longrightarrow> m_nodes m a = Some n \<Longrightarrow> \<exists>n'. m_nodes (linked hash dflt m key) a = Some n' \<and>
           node_first n' = node_first n \<and> node_second n' = node_second n \<and> bucketNext n' = bucketNext n \<and>
           (node_next n' = node_next n \<or> a = List.last L)"
    using fr t by (auto simp: linked_def Let_def split: if_splits)
  show "\<exists>n'. m_nodes (linked hash dflt m key) (m_fresh m) = Some n' \<and> node_first n' = key \<and>
           node_second n' = dflt \<and> bucketNext n' = m_buckets m ! bucket_index hash key (m_capacity m) \<and>
           node_next n' = None"
    using t ne by (cases "L = []") (simp_all add: linked_def Let_def ne[symmetric])
  show "dom (m_nodes (linked hash dflt m key)) = insert (m_fresh m) (set L)"
    using d t tl by (auto simp: linked_def Let_def split: if_splits)
qed

lemma linked_chain:
  assumes wf: "map_wf hash m L"
  shows "chain node_next (m_nodes (linked hash dflt m key)) (m_head (linked hash dflt m key)) (L @ [m_fresh m])"
proof (cases L rule: rev_cases)
  case Nil
  with wf show ?thesis by (auto simp: map_wf_def linked_def Let_def)
next
  case (snoc C t)
  let ?m = "linked hash dflt m key"
  have ch: "chain node_next (m_nodes m) (m_head m) (C @ [t])" and tl: "m_tail m = Some t"
    using wf snoc by (auto simp: map_wf_def)
  from chain_dom[OF ch, of t] obtain tn where tn: "m_nodes m t = Some tn" by auto
  have ne: "t \<noteq> m_fresh m" using wf_fresh_free[OF wf] snoc by auto
  have nt: "t \<notin> set C" using chain_distinct[OF ch] by simp
  from linked_fields(2)[OF wf] obtain qn where qn: "m_nodes ?m (m_fresh m) = Some qn" "node_next qn = None"
    by blast
  have h: "m_head ?m = m_head m" using tl by (simp add: linked_def Let_def)
  have "m_nodes ?m t = Some (tn\<lparr>node_next := Some (m_fresh m)\<rparr>)"
    using tl tn by (simp add: linked_def Let_def)
  moreover have "m_nodes ?m a = m_nodes m a" if "a \<in> set C" for a
    using that tl nt wf_fresh_free[OF wf] snoc by (auto simp: linked_def Let_def)
  ultimately have "chain node_next (m_nodes ?m) (m_head m) (C @ [t, m_fresh m])"
    using chain_snoc[OF ch, of "m_nodes ?m"] qn by simp
  then show ?thesis using snoc h by simp
qed

lemma linked_kv:
  assumes wf: "map_wf hash m L"
  shows "a \<in> set L \<Longrightarrow> nkey (linked hash dflt m key) a = nkey m a"
    and "a \<in> set L \<Longrightarrow> nval (linked hash dflt m key) a = nval m a"
    and "nkey (linked hash dflt m key) (m_fresh m) = key"
    and "nval (linked hash dflt m key) (m_fresh m) = dflt"
proof -
  show "a \<in> set L \<Longrightarrow> nkey (linked hash dflt m key) a = nkey m a"
    using wf_dom[OF wf, of a] linked_fields(1)[OF wf, of a _ dflt key] by (fastforce simp: nkey_def)
  show "a \<in> set L \<Longrightarrow> nval (linked hash dflt m key) a = nval m a"
    using wf_dom[OF wf, of a] linked_fields(1)[OF wf, of a _ dflt key] by (fastforce simp: nval_def)
  show "nkey (linked hash dflt m key) (m_fresh m) = key" "nval (linked hash dflt m key) (m_fresh m) = dflt"
    using linked_fields(2)[OF wf, of dflt key] by (auto simp: nkey_def nval_def)
qed

lemma linked_wf:
  assumes wf: "map_wf hash m L" and load: "4 * (m_size m + 1) \<le> 3 * m_capacity m"
    and new: "key \<notin> nkey m ` set L"
  shows "map_wf hash (linked hash dflt m key) (L @ [m_fresh m])"
proof -
  let ?m = "linked hash dflt m key"
  have f: "m_fresh ?m = Suc (m_fresh m)" "m_tail ?m = Some (m_fresh m)" "m_allocator ?m = m_allocator m"
      "m_capacity ?m = m_capacity m" "m_size ?m = wrap32 (m_size m + 1)"
      "m_buckets ?m = (m_buckets m)[bucket_index hash key (m_capacity m) := Some (m_fresh m)]"
    by (simp_all add: linked_def Let_def)
  have bo: "buckets_ok hash (m_capacity m) (m_nodes m) (m_buckets m) (set L)"
    using wf by (simp add: map_wf_def)
  from linked_fields(2)[OF wf, of dflt key] obtain qn where qn:
    "m_nodes ?m (m_fresh m) = Some qn" "node_first qn = key"
    "bucketNext qn = m_buckets m ! bucket_index hash key (m_capacity m)" by blast
  have same: "map_option (\<lambda>n. (node_first n, bucketNext n)) (m_nodes ?m b)
            = map_option (\<lambda>n. (node_first n, bucketNext n)) (m_nodes m b)" if "b \<in> set L" for b
    using that wf_dom[OF wf, of b] linked_fields(1)[OF wf that, of _ dflt key] by fastforce
  have cap: "0 < m_capacity m" using load by simp
  have "buckets_ok hash (m_capacity m) (m_nodes ?m) (m_buckets ?m) (insert (m_fresh m) (set L))"
    using buckets_ok_insert[OF bo wf_fresh_free[OF wf] same qn(1) _ cap] qn f by simp
  moreover have "List.map (nkey ?m) (L @ [m_fresh m]) = List.map (nkey m) L @ [key]"
    using linked_kv[OF wf] by simp
  then have "distinct (List.map (nkey ?m) (L @ [m_fresh m]))"
    using wf new unfolding \<open>List.map (nkey ?m) (L @ [m_fresh m]) = _\<close> by (simp add: map_wf_def)
  moreover have "m_size ?m = length (L @ [m_fresh m])"
    using wf_size[OF wf] wf f by (simp add: map_wf_def)
  moreover have "m_size m = length L" using wf by (simp add: map_wf_def)
  ultimately show ?thesis
    using wf linked_chain[OF wf] linked_fields(3)[OF wf] f load
    unfolding map_wf_def by (intro conjI) (auto simp: less_SucI)
qed

lemma find_key_in: "find (\<lambda>a. f a = k) L = None \<longleftrightarrow> k \<notin> f ` set L"
  by (auto simp: find_None_iff)

lemma meMap_index_hit:
  assumes wf: "map_wf hash m L" and hit: "find (\<lambda>a. nkey m a = key) L = Some p"
  shows "meMap_index hash dflt m key = Inr (p, m)" "p \<in> set L" "nkey m p = key"
  using find_SomeD[OF hit] by (auto simp: meMap_index_def FindNode_spec[OF wf] hit)

lemma meMap_index_miss:
  assumes wf: "map_wf hash m L" and cap: "m_capacity m < 268435456" and new: "key \<notin> nkey m ` set L"
  shows "\<exists>m'. meMap_index hash dflt m key = Inr (m_fresh m, m') \<and> map_wf hash m' (L @ [m_fresh m]) \<and>
           (\<forall>a\<in>set L. nkey m' a = nkey m a \<and> nval m' a = nval m a) \<and>
           nkey m' (m_fresh m) = key \<and> nval m' (m_fresh m) = dflt \<and>
           (m_capacity m' = m_capacity m \<or>
            3 * m_capacity m < 4 * (m_size m + 1) \<and> m_capacity m' \<le> max MAP_INITIAL_SIZE (2 * m_capacity m))"
proof -
  from EnsureCapacity_wf[OF wf cap] obtain m1 where m1:
    "EnsureCapacityForInsert hash m = Inr m1" "map_wf hash m1 L" "m_entries m1 = m_entries m"
    "m_fresh m1 = m_fresh m" "m_size m1 = m_size m" "4 * (m_size m + 1) \<le> 3 * m_capacity m1"
    "m_capacity m1 = m_capacity m \<or> 3 * m_capacity m < 4 * (m_size m + 1) \<and>
       m_capacity m1 \<le> max MAP_INITIAL_SIZE (2 * m_capacity m)" by blast
  have kv: "nkey m1 a = nkey m a \<and> nval m1 a = nval m a" if "a \<in> set L" for a
    using m1(3) that unfolding wf_entries[OF wf] wf_entries[OF m1(2)] by auto
  then have new1: "key \<notin> nkey m1 ` set L" using new by (auto simp: image_iff)
  have i: "bucket_index hash key (m_capacity m1) < m_capacity m1"
    using m1(6) by (intro bucket_index_less) simp
  have len: "length (m_buckets m1) = m_capacity m1"
    using m1(2) by (simp add: map_wf_def buckets_ok_def)
  have tl: "m_tail m1 = Some t \<Longrightarrow> \<exists>tn. m_nodes m1 t = Some tn" for t
    using m1(2) wf_dom[OF m1(2), of t] by (auto simp: map_wf_def split: if_splits)
  define m' where "m' = linked hash dflt m1 key"
  have "FindNode hash m key = Inr None"
    using new by (simp add: FindNode_spec[OF wf] find_key_in)
  then have "meMap_index hash dflt m key = Inr (m_fresh m, m')"
    using m1(1,4) i len tl
    by (cases "m_tail m1")
       (auto simp: meMap_index_def bucket_at_def bucket_put_def Let_def node_at_def m'_def linked_def)
  moreover have "map_wf hash m' (L @ [m_fresh m])"
    using linked_wf[OF m1(2) _ new1] m1(4-6) by (simp add: m'_def)
  moreover have "m_capacity m' = m_capacity m1" by (simp add: m'_def linked_def Let_def)
  ultimately show ?thesis
    using linked_kv[OF m1(2), where dflt = dflt and key = key] kv m1(4,7)
    by (intro exI[of _ m']) (auto simp: m'_def)
qed

lemma node_put_wf:
  assumes wf: "map_wf hash m L" and p: "p \<in> set L"
  shows "\<exists>m'. node_put m p v = Inr m' \<and> map_wf hash m' L \<and> m_capacity m' = m_capacity m \<and>
           (\<forall>a. nkey m' a = nkey m a) \<and> nval m' p = v \<and> (\<forall>a. a \<noteq> p \<longrightarrow> nval m' a = nval m a)"
proof -
  from p wf_dom[OF wf, of p] obtain n where n: "m_nodes m p = Some n" by auto
  define m' where "m' = m\<lparr>m_nodes := (m_nodes m)(p \<mapsto> n\<lparr>node_second := v\<rparr>)\<rparr>"
  have nk: "nkey m' = nkey m" using n by (auto simp: nkey_def m'_def fun_eq_iff)
  have ch: "chain node_next (m_nodes m) (m_head m) L"
    and bo: "buckets_ok hash (m_capacity m) (m_nodes m) (m_buckets m) (set L)"
    using wf by (auto simp: map_wf_def)
  have "chain node_next (m_nodes m') (m_head m) L"
    by (rule chain_cong[OF ch]) (simp add: m'_def n)
  moreover have "buckets_ok hash (m_capacity m) (m_nodes m') (m_buckets m) (set L)"
    by (rule buckets_ok_cong[OF bo]) (simp add: m'_def n)
  moreover have "dom (m_nodes m') = dom (m_nodes m)" using n by (auto simp: m'_def)
  ultimately have "map_wf hash m' L"
    using wf unfolding map_wf_def nk by (simp add: m'_def)
  moreover have "node_put m p v = Inr m'" by (simp add: node_put_def node_at_def n m'_def)
  ultimately show ?thesis
    using nk by (intro exI[of _ m']) (auto simp: nval_def m'_def n)
qed

lemma update_absent: "k \<notin> fst ` set xs \<Longrightarrow> AList.update k v xs = xs @ [(k, v)]"
  by (induction xs) auto

lemma update_present:
  "distinct (List.map f L) \<Longrightarrow> p \<in> set L \<Longrightarrow> g' p = v \<Longrightarrow> (\<And>a. a \<noteq> p \<Longrightarrow> g' a = g a) \<Longrightarrow>
     AList.update (f p) v (List.map (\<lambda>a. (f a, g a)) L) = List.map (\<lambda>a. (f a, g' a)) L"
proof (induction L)
  case (Cons a L)
  show ?case
  proof (cases "a = p")
    case True
    then have "p \<notin> set L" using Cons.prems(1) by auto
    then have "\<forall>b\<in>set L. g' b = g b" using Cons.prems(4) by metis
    with True Cons.prems(3) show ?thesis by simp
  next
    case False
    then have "p \<in> set L" "f a \<noteq> f p" using Cons.prems(1,2) by auto
    with False Cons show ?thesis by simp
  qed
qed simp

lemma map_of_AList_update: "map_of (AList.update k v xs) = (map_of xs)(k \<mapsto> v)"
  by (simp add: update_conv')

text \<open>\<open>map[key] = v\<close>: in place when the key is there, at the end of the order when it is not.\<close>

lemma meMap_set_wf:
  assumes wf: "map_wf hash m L" and cap: "m_capacity m < 268435456"
  shows "\<exists>m' L'. meMap_set hash dflt m key v = Inr m' \<and> map_wf hash m' L' \<and>
           m_entries m' = AList.update key v (m_entries m) \<and>
           (\<exists>D. L' = L @ D) \<and>
           (\<forall>a\<in>set L. nkey m' a = nkey m a \<and> (nkey m a \<noteq> key \<longrightarrow> nval m' a = nval m a)) \<and>
           (m_capacity m' = m_capacity m \<or>
            3 * m_capacity m < 4 * (m_size m + 1) \<and> m_capacity m' \<le> max MAP_INITIAL_SIZE (2 * m_capacity m))"
proof (cases "find (\<lambda>a. nkey m a = key) L")
  case (Some p)
  note hit = meMap_index_hit[OF wf Some]
  from node_put_wf[OF wf hit(2), of v] obtain m' where m':
    "node_put m p v = Inr m'" "map_wf hash m' L" "m_capacity m' = m_capacity m"
    "\<forall>a. nkey m' a = nkey m a" "nval m' p = v" "\<forall>a. a \<noteq> p \<longrightarrow> nval m' a = nval m a" by blast
  have "distinct (List.map (nkey m) L)" using wf by (simp add: map_wf_def)
  then have "m_entries m' = AList.update key v (m_entries m)"
    using update_present[of "nkey m" L p "nval m'" v "nval m"] m' hit
    by (simp add: wf_entries[OF wf] wf_entries[OF m'(2)])
  with m' hit show ?thesis
    by (intro exI[of _ m'] exI[of _ L]) (auto simp: meMap_set_def, metis)
next
  case None
  then have new: "key \<notin> nkey m ` set L" by (simp add: find_key_in)
  from meMap_index_miss[OF wf cap new, of dflt] obtain m1 where m1:
    "meMap_index hash dflt m key = Inr (m_fresh m, m1)" "map_wf hash m1 (L @ [m_fresh m])"
    "\<forall>a\<in>set L. nkey m1 a = nkey m a \<and> nval m1 a = nval m a" "nkey m1 (m_fresh m) = key"
    "m_capacity m1 = m_capacity m \<or>
      3 * m_capacity m < 4 * (m_size m + 1) \<and> m_capacity m1 \<le> max MAP_INITIAL_SIZE (2 * m_capacity m)" by blast
  from node_put_wf[OF m1(2), of "m_fresh m" v] obtain m' where m':
    "node_put m1 (m_fresh m) v = Inr m'" "map_wf hash m' (L @ [m_fresh m])" "m_capacity m' = m_capacity m1"
    "\<forall>a. nkey m' a = nkey m1 a" "nval m' (m_fresh m) = v"
    "\<forall>a. a \<noteq> m_fresh m \<longrightarrow> nval m' a = nval m1 a" by auto
  have old: "nkey m' a = nkey m a \<and> nval m' a = nval m a" if "a \<in> set L" for a
    using that m' m1(3) wf_fresh_free[OF wf] by metis
  have "key \<notin> fst ` set (m_entries m)" using new by (auto simp: wf_entries[OF wf] image_iff)
  then have "m_entries m' = AList.update key v (m_entries m)"
    using old m' m1(4) by (simp add: wf_entries[OF wf] wf_entries[OF m'(2)] update_absent)
  with m' m1 old show ?thesis
    by (intro exI[of _ m'] exI[of _ "L @ [m_fresh m]"]) (auto simp: meMap_set_def)
qed

section \<open>The interface: a store of keys\<close>

text \<open>
  What a client of the map relies on, and what follows from it for a run of assignments: the
  result of a lookup is the value assigned last. \<open>room n\<close> says that \<open>n\<close> more assignments fit.
\<close>

fun put_run :: "('m \<Rightarrow> 'k \<Rightarrow> 'v \<Rightarrow> 'm result) \<Rightarrow> 'm \<Rightarrow> ('k \<times> 'v) list \<Rightarrow> 'm result" where
  "put_run put m [] = Inr m"
| "put_run put m ((k, v) # kvs) = bindR (put m k v) (\<lambda>m. put_run put m kvs)"

locale key_store =
  fixes room :: "nat \<Rightarrow> 'm \<Rightarrow> bool"
    and entries :: "'m \<Rightarrow> ('k \<times> 'v) list"
    and lookup :: "'m \<Rightarrow> 'k \<Rightarrow> 'v option result"
    and put :: "'m \<Rightarrow> 'k \<Rightarrow> 'v \<Rightarrow> 'm result"
  assumes lookup_entries: "room n m \<Longrightarrow> lookup m k = Inr (map_of (entries m) k)"
    and put_entries: "room (Suc n) m \<Longrightarrow>
      \<exists>m'. put m k v = Inr m' \<and> room n m' \<and> entries m' = AList.update k v (entries m)"
begin

lemma put_run_entries:
  "room (length kvs + n) m \<Longrightarrow>
     \<exists>m'. put_run put m kvs = Inr m' \<and> room n m' \<and>
          entries m' = fold (\<lambda>(k, v). AList.update k v) kvs (entries m)"
proof (induction kvs arbitrary: m)
  case (Cons kv kvs)
  obtain k v where kv: "kv = (k, v)" by (cases kv)
  from Cons.prems have "room (Suc (length kvs + n)) m" by simp
  from put_entries[OF this, of k v] obtain m1 where
    "put m k v = Inr m1" "room (length kvs + n) m1" "entries m1 = AList.update k v (entries m)" by blast
  with Cons.IH[of m1] kv show ?case by auto
qed auto

lemma fold_update_map_of:
  "map_of (fold (\<lambda>(k, v). AList.update k v) kvs xs) = map_of xs ++ map_of (rev kvs)"
proof (induction kvs arbitrary: xs)
  case (Cons kv kvs)
  then show ?case by (cases kv) (auto simp: update_conv' map_add_def split: option.split)
qed simp

lemma last_assignment:
  "room (length kvs + n) m \<Longrightarrow>
     \<exists>m'. put_run put m kvs = Inr m' \<and> room n m' \<and>
          lookup m' k = Inr ((map_of (entries m) ++ map_of (rev kvs)) k)"
  using put_run_entries[of kvs n m] lookup_entries fold_update_map_of by metis

end

definition map_room :: "('k \<Rightarrow> nat) \<Rightarrow> nat \<Rightarrow> ('k, 'v) memap \<Rightarrow> bool" where
  "map_room hash n m \<longleftrightarrow>
     (\<exists>L. map_wf hash m L) \<and> m_capacity m < 268435456 \<and> m_size m + n \<le> 67108864"

lemma map_room_order: "map_room hash n m \<Longrightarrow> map_wf hash m (m_order m)"
  unfolding map_room_def using wf_order by metis

lemma wf_size_entries: "map_wf hash m L \<Longrightarrow> m_size m = length (m_entries m)"
  by (simp add: wf_entries) (simp add: map_wf_def)

lemma length_AList_update: "length (AList.update k v xs) \<le> Suc (length xs)"
  by (induction xs) auto

lemma meMap_set_room:
  assumes room: "map_room hash (Suc n) m"
  shows "\<exists>m'. meMap_set hash dflt m k v = Inr m' \<and> map_room hash n m' \<and>
           m_entries m' = AList.update k v (m_entries m)"
proof -
  from room obtain L where wf: "map_wf hash m L" and cap: "m_capacity m < 268435456"
    and sz: "m_size m + Suc n \<le> 67108864" unfolding map_room_def by blast
  from meMap_set_wf[OF wf cap, of dflt k v] obtain m' L' where m':
    "meMap_set hash dflt m k v = Inr m'" "map_wf hash m' L'" "m_entries m' = AList.update k v (m_entries m)"
    "m_capacity m' = m_capacity m \<or> 3 * m_capacity m < 4 * (m_size m + 1) \<and>
       m_capacity m' \<le> max MAP_INITIAL_SIZE (2 * m_capacity m)" by blast
  have "m_capacity m' < 268435456" using m'(4) cap sz by (auto simp: MAP_INITIAL_SIZE_def max_def split: if_splits)
  moreover have "m_size m' \<le> Suc (m_size m)"
    using length_AList_update[of k v "m_entries m"]
    by (simp add: wf_size_entries[OF wf] wf_size_entries[OF m'(2)] m'(3))
  ultimately show ?thesis using m' sz unfolding map_room_def by (intro exI[of _ m']) auto
qed

interpretation hashmap: key_store "map_room hash" m_entries "meMap_at hash" "meMap_set hash dflt"
  for hash :: "'k \<Rightarrow> nat" and dflt :: 'v
  by unfold_locales (auto simp: m_abs_def dest!: map_room_order meMap_at_abs intro!: meMap_set_room)

lemma Initialize_wf: "c * 8 < 4294967296 \<Longrightarrow> map_wf hash (meMap_Initialize alloc c) []"
  by (simp add: map_wf_def meMap_Initialize_def buckets_ok_empty)

lemma empty_wf:
  "m_nodes m = (\<lambda>_. None) \<Longrightarrow> m_head m = None \<Longrightarrow> m_tail m = None \<Longrightarrow> m_size m = 0 \<Longrightarrow>
     m_allocator m \<noteq> None \<Longrightarrow> m_capacity m * 8 < 4294967296 \<Longrightarrow>
     m_buckets m = replicate (m_capacity m) None \<Longrightarrow> map_wf hash m []"
  by (auto simp: map_wf_def buckets_ok_def)

lemma wf_Nil_entries: "map_wf hash m [] \<Longrightarrow> m_entries m = []"
  by (simp add: wf_entries)

section \<open>Clearing, copying and moving\<close>

lemma free_loop_spec:
  "chain node_next (m_nodes m) p C \<Longrightarrow> length C \<le> fuel \<Longrightarrow>
     free_loop m p fuel = Inr (m\<lparr>m_nodes := (\<lambda>a. if a \<in> set C then None else m_nodes m a)\<rparr>)"
proof (induction C arbitrary: m p fuel)
  case (Cons a C)
  then obtain f n where f: "fuel = Suc f" "length C \<le> f" "p = Some a" "m_nodes m a = Some n"
      "chain node_next (m_nodes m) (node_next n) C" by (cases fuel) auto
  let ?m = "m\<lparr>m_nodes := (m_nodes m)(a := None)\<rparr>"
  have "a \<notin> set C" using chain_distinct[OF Cons.prems(1)] by simp
  then have "chain node_next (m_nodes ?m) (node_next n) C"
    by (intro chain_cong[OF f(5)]) auto
  from Cons.IH[OF this f(2)] f show ?case by (simp add: node_at_def) (auto simp: fun_eq_iff intro!: arg_cong)
qed (cases fuel; simp)

lemma null_buckets_spec:
  "i + left \<le> capacity \<Longrightarrow> length bs = capacity \<Longrightarrow>
     null_buckets capacity bs i left = Inr (take i bs @ replicate left None @ drop (i + left) bs)"
proof (induction left arbitrary: bs i)
  case (Suc left)
  then have "bucket_put capacity bs i None = Inr (bs[i := None])" by (simp add: bucket_put_def)
  moreover have "take (Suc i) (bs[i := None]) = take i bs @ [None]"
    using Suc.prems by (simp add: take_update_append)
  ultimately show ?case using Suc by simp
qed simp

lemma meMap_clear_wf:
  assumes wf: "map_wf hash m L"
  shows "\<exists>m'. meMap_clear m = Inr m' \<and> map_wf hash m' [] \<and> m_nodes m' = (\<lambda>_. None) \<and>
           m_capacity m' = m_capacity m \<and> m_allocator m' = m_allocator m"
proof -
  have ch: "chain node_next (m_nodes m) (m_head m) L" and d: "dom (m_nodes m) = set L"
    and len: "length (m_buckets m) = m_capacity m" and al: "m_allocator m \<noteq> None"
    and cap: "m_capacity m * 8 < 4294967296"
    using wf by (auto simp: map_wf_def buckets_ok_def)
  have none: "(\<lambda>a. if a \<in> set L then None else m_nodes m a) = (\<lambda>_. None)"
    using d by (auto simp: fun_eq_iff)
  have "free_loop m (m_head m) (Suc (m_fresh m)) = Inr (m\<lparr>m_nodes := (\<lambda>_. None)\<rparr>)"
    using free_loop_spec[OF ch, of "Suc (m_fresh m)"] wf_fresh[OF wf] none by simp
  then have "meMap_clear m = Inr (m\<lparr>m_nodes := (\<lambda>_. None), m_buckets := replicate (m_capacity m) None,
      m_head := None, m_tail := None, m_size := 0\<rparr>)" (is "_ = Inr ?m")
    using null_buckets_spec[of 0 "m_capacity m" "m_capacity m" "m_buckets m"] len
    by (simp add: meMap_clear_def)
  moreover have "map_wf hash ?m []" by (rule empty_wf) (use al cap in simp_all)
  ultimately show ?thesis by auto
qed

lemma meMap_Destroy_ok:
  assumes wf: "map_wf hash m L"
  shows "\<exists>m'. meMap_Destroy m = Inr m' \<and> m_nodes m' = (\<lambda>_. None) \<and> m_capacity m' = 0"
  using meMap_clear_wf[OF wf] by (auto simp: meMap_Destroy_def)

lemma copy_loop_run:
  "chain node_next (m_nodes other) p C \<Longrightarrow> length C \<le> fuel \<Longrightarrow>
     copy_loop hash dflt other m p fuel =
       put_run (meMap_set hash dflt) m (List.map (\<lambda>a. (nkey other a, nval other a)) C)"
proof (induction C arbitrary: m p fuel)
  case (Cons a C)
  then obtain f n where "fuel = Suc f" "length C \<le> f" "p = Some a" "m_nodes other a = Some n"
      "chain node_next (m_nodes other) (node_next n) C" by (cases fuel) auto
  with Cons.IH show ?case by (simp add: node_at_def nkey_def nval_def)
qed (cases fuel; simp)

lemma fold_update_fresh:
  "distinct (List.map fst (xs @ kvs)) \<Longrightarrow> fold (\<lambda>(k, v). AList.update k v) kvs xs = xs @ kvs"
proof (induction kvs arbitrary: xs)
  case (Cons kv kvs)
  obtain k v where kv: "kv = (k, v)" by (cases kv)
  with Cons.prems have "k \<notin> fst ` set xs" by auto
  with Cons kv show ?case by (simp add: update_absent)
qed simp

lemma wf_distinct_keys: "map_wf hash m L \<Longrightarrow> distinct (List.map fst (m_entries m))"
  by (simp add: wf_entries comp_def) (simp add: map_wf_def)

lemma meMap_copy_room:
  assumes room: "map_room hash n m"
  shows "\<exists>m'. meMap_copy hash dflt m = Inr m' \<and> map_room hash n m' \<and> m_entries m' = m_entries m"
proof -
  define L where "L = m_order m"
  have wf: "map_wf hash m L" unfolding L_def by (rule map_room_order[OF room])
  have ch: "chain node_next (m_nodes m) (m_head m) L" using wf by (simp add: map_wf_def)
  define c where "c = (if m_capacity m \<noteq> 0 then m_capacity m else MAP_INITIAL_SIZE)"
  define e where "e = (meMap_Initialize (case m_allocator m of Some a \<Rightarrow> a | None \<Rightarrow> 0) c :: ('a, 'b) memap)"
  have "m_capacity m < 268435456" and sz: "m_size m + n \<le> 67108864" using room by (auto simp: map_room_def)
  then have c: "c < 268435456" by (auto simp: c_def MAP_INITIAL_SIZE_def)
  then have ewf: "map_wf hash e []" unfolding e_def by (intro Initialize_wf) simp
  have len: "length (m_entries m) = m_size m" using wf_size_entries[OF wf] by simp
  have "map_room hash (length (m_entries m) + n) e"
    using ewf c sz unfolding map_room_def len by (auto simp: e_def meMap_Initialize_def)
  from hashmap.put_run_entries[OF this, of dflt] obtain m' where
    "put_run (meMap_set hash dflt) e (m_entries m) = Inr m'" "map_room hash n m'"
    "m_entries m' = fold (\<lambda>(k, v). AList.update k v) (m_entries m) (m_entries e)" by blast
  moreover have "m_entries e = []" by (rule wf_Nil_entries[OF ewf])
  moreover have "meMap_copy hash dflt m = put_run (meMap_set hash dflt) e (m_entries m)"
    using copy_loop_run[OF ch, of "Suc (m_fresh m)" hash dflt e] wf_fresh[OF wf]
    by (simp add: meMap_copy_def Let_def c_def e_def wf_entries[OF wf])
  ultimately show ?thesis
    using fold_update_fresh[of "[]" "m_entries m"] wf_distinct_keys[OF wf] by auto
qed

lemma moved_from_wf: "m_allocator m \<noteq> None \<Longrightarrow> map_wf hash (moved_from m) []"
  by (rule empty_wf) (simp_all add: moved_from_def)

section \<open>Iteration\<close>

lemma Skip_scan:
  assumes bo: "buckets_ok hash (m_capacity m) (m_nodes m) (m_buckets m) S"
  shows "i + left = m_capacity m \<Longrightarrow>
     (SkipEmptyBuckets m None i left = Inr (None, m_capacity m) \<and> (\<forall>j. i \<le> j \<and> j < m_capacity m \<longrightarrow> m_buckets m ! j = None)) \<or>
     (\<exists>p j. SkipEmptyBuckets m None i left = Inr (Some p, j) \<and> i \<le> j \<and> j < m_capacity m \<and>
            m_buckets m ! j = Some p \<and> (\<forall>k. i \<le> k \<and> k < j \<longrightarrow> m_buckets m ! k = None))"
proof (induction left arbitrary: i)
  case 0
  then show ?case by auto
next
  case (Suc left)
  have b: "bucket_at (m_capacity m) (m_buckets m) i = Inr (m_buckets m ! i)"
    using bo Suc.prems by (simp add: bucket_at_def buckets_ok_def)
  show ?case
  proof (cases "m_buckets m ! i")
    case None
    have step: "SkipEmptyBuckets m None i (Suc left) = SkipEmptyBuckets m None (Suc i) left"
      using b None by simp
    have ext: "(\<forall>k. Suc i \<le> k \<and> k < j \<longrightarrow> m_buckets m ! k = None) \<Longrightarrow>
               (\<forall>k. i \<le> k \<and> k < j \<longrightarrow> m_buckets m ! k = None)" for j
      using None by (metis le_antisym not_less_eq_eq)
    from Suc.IH[of "Suc i"] Suc.prems have
      "(SkipEmptyBuckets m None (Suc i) left = Inr (None, m_capacity m) \<and> (\<forall>j. Suc i \<le> j \<and> j < m_capacity m \<longrightarrow> m_buckets m ! j = None)) \<or>
       (\<exists>p j. SkipEmptyBuckets m None (Suc i) left = Inr (Some p, j) \<and> Suc i \<le> j \<and> j < m_capacity m \<and>
            m_buckets m ! j = Some p \<and> (\<forall>k. Suc i \<le> k \<and> k < j \<longrightarrow> m_buckets m ! k = None))" by simp
    then show ?thesis
    proof
      assume "SkipEmptyBuckets m None (Suc i) left = Inr (None, m_capacity m) \<and>
        (\<forall>j. Suc i \<le> j \<and> j < m_capacity m \<longrightarrow> m_buckets m ! j = None)"
      with step ext[of "m_capacity m"] show ?thesis by simp
    next
      assume "\<exists>p j. SkipEmptyBuckets m None (Suc i) left = Inr (Some p, j) \<and> Suc i \<le> j \<and> j < m_capacity m \<and>
            m_buckets m ! j = Some p \<and> (\<forall>k. Suc i \<le> k \<and> k < j \<longrightarrow> m_buckets m ! k = None)"
      then obtain p j where "SkipEmptyBuckets m None (Suc i) left = Inr (Some p, j)" "Suc i \<le> j"
        "j < m_capacity m" "m_buckets m ! j = Some p"
        "\<forall>k. Suc i \<le> k \<and> k < j \<longrightarrow> m_buckets m ! k = None" by blast
      with step ext[of j] show ?thesis by (metis Suc_leD)
    qed
  next
    case (Some p)
    then show ?thesis using b Suc.prems by (intro disjI2 exI[of _ p] exI[of _ i]) auto
  qed
qed

text \<open>The nodes of the buckets from \<open>i\<close> on, in the order the iterators go.\<close>

definition bucket_chain :: "('k, 'v) memap \<Rightarrow> nat \<Rightarrow> nat list" where
  "bucket_chain m i = (THE C. chain bucketNext (m_nodes m) (m_buckets m ! i) C)"

definition rest_chains :: "('k, 'v) memap \<Rightarrow> nat \<Rightarrow> nat list" where
  "rest_chains m i = concat (List.map (bucket_chain m) [i..<m_capacity m])"

lemma bucket_chain_eq: "chain bucketNext (m_nodes m) (m_buckets m ! i) C \<Longrightarrow> bucket_chain m i = C"
  unfolding bucket_chain_def using chain_unique by (intro the_equality) blast+

lemma rest_chains_Cons: "i < m_capacity m \<Longrightarrow> rest_chains m i = bucket_chain m i @ rest_chains m (Suc i)"
  by (simp add: rest_chains_def upt_conv_Cons)

lemma rest_chains_skip:
  "i \<le> j \<Longrightarrow> j \<le> m_capacity m \<Longrightarrow> (\<forall>k. i \<le> k \<and> k < j \<longrightarrow> m_buckets m ! k = None) \<Longrightarrow>
     rest_chains m i = rest_chains m j"
proof (induction "j - i" arbitrary: i)
  case (Suc d)
  then have "m_buckets m ! i = None" by simp
  then have "bucket_chain m i = []" by (intro bucket_chain_eq) simp
  moreover have "rest_chains m (Suc i) = rest_chains m j"
    using Suc.hyps(2) Suc.prems by (intro Suc.hyps(1)) auto
  ultimately show ?case using Suc.hyps(2) Suc.prems by (subst rest_chains_Cons) auto
qed simp

lemma visit_chains:
  assumes bo: "buckets_ok hash (m_capacity m) (m_nodes m) (m_buckets m) S"
    and c32: "m_capacity m < 4294967296"
  shows "chain bucketNext (m_nodes m) (Some p) D \<Longrightarrow> i < m_capacity m \<Longrightarrow>
     length (D @ rest_chains m (Suc i)) < fuel \<Longrightarrow>
     m_visit m (None, m_capacity m) (Some p, i) fuel = Inr (D @ rest_chains m (Suc i))"
proof (induction fuel arbitrary: p i D)
  case (Suc fuel)
  from Suc.prems(1) obtain n D' where D: "D = p # D'" "m_nodes m p = Some n"
      "chain bucketNext (m_nodes m) (bucketNext n) D'" by (cases D) auto
  show ?case
  proof (cases "bucketNext n")
    case (Some q)
    then have "m_next m (Some p, i) = Inr (Some q, i)" using D by (simp add: m_next_def node_at_def)
    with Suc D Some show ?thesis by simp
  next
    case None
    then have D': "D' = []" using D(3) by simp
    have nx: "m_next m (Some p, i) = SkipEmptyBuckets m None (Suc i) (m_capacity m - Suc i)"
      using D None c32 Suc.prems(2) by (simp add: m_next_def node_at_def)
    from Skip_scan[OF bo, of "Suc i" "m_capacity m - Suc i"] Suc.prems(2)
    consider (stop) "m_next m (Some p, i) = Inr (None, m_capacity m)"
        "\<forall>j. Suc i \<le> j \<and> j < m_capacity m \<longrightarrow> m_buckets m ! j = None"
      | (go) q j where "m_next m (Some p, i) = Inr (Some q, j)" "Suc i \<le> j" "j < m_capacity m"
        "m_buckets m ! j = Some q" "\<forall>k. Suc i \<le> k \<and> k < j \<longrightarrow> m_buckets m ! k = None"
      unfolding nx by fastforce
    then show ?thesis
    proof cases
      case stop
      have "rest_chains m (Suc i) = rest_chains m (m_capacity m)"
        using Suc.prems(2) stop(2) by (intro rest_chains_skip) auto
      then have "rest_chains m (Suc i) = []" by (simp add: rest_chains_def)
      with stop Suc.prems(3) D D' show ?thesis by (cases fuel) auto
    next
      case go
      from buckets_ok_chain[OF bo go(3)] go(4) obtain C where
        C: "chain bucketNext (m_nodes m) (m_buckets m ! j) C" by blast
      have "rest_chains m (Suc i) = rest_chains m j"
        using go by (intro rest_chains_skip) auto
      then have r: "rest_chains m (Suc i) = C @ rest_chains m (Suc j)"
        using rest_chains_Cons[OF go(3)] bucket_chain_eq[OF C] by simp
      have "m_visit m (None, m_capacity m) (Some q, j) fuel = Inr (C @ rest_chains m (Suc j))"
        using C go(3,4) Suc.prems(3) D r by (intro Suc.IH) auto
      with go D D' r show ?thesis by simp
    qed
  qed
qed simp

lemma rest_chains_set:
  assumes bo: "buckets_ok hash (m_capacity m) (m_nodes m) (m_buckets m) S"
  shows "i \<le> m_capacity m \<Longrightarrow> distinct (rest_chains m i) \<and>
     set (rest_chains m i) = {a \<in> S. \<exists>j. i \<le> j \<and> j < m_capacity m \<and> in_bucket hash (m_capacity m) (m_nodes m) j a}"
proof (induction "m_capacity m - i" arbitrary: i)
  case 0
  then show ?case by (auto simp: rest_chains_def)
next
  case (Suc d)
  then have i: "i < m_capacity m" by simp
  from buckets_ok_chain[OF bo i] obtain C where C: "chain bucketNext (m_nodes m) (m_buckets m ! i) C"
    "set C = {a \<in> S. in_bucket hash (m_capacity m) (m_nodes m) i a}" "distinct C" by blast
  have IH: "distinct (rest_chains m (Suc i))" "set (rest_chains m (Suc i)) =
     {a \<in> S. \<exists>j. Suc i \<le> j \<and> j < m_capacity m \<and> in_bucket hash (m_capacity m) (m_nodes m) j a}"
    using Suc.hyps(1)[of "Suc i"] Suc.hyps(2) i by auto
  have r: "rest_chains m i = C @ rest_chains m (Suc i)"
    using rest_chains_Cons[OF i] bucket_chain_eq[OF C(1)] by simp
  have "set C \<inter> set (rest_chains m (Suc i)) = {}"
    using C(2) IH(2) by (auto simp: in_bucket_def)
  moreover have ex: "(\<exists>j. i \<le> j \<and> j < m_capacity m \<and> P j) \<longleftrightarrow>
      P i \<or> (\<exists>j. Suc i \<le> j \<and> j < m_capacity m \<and> P j)" for P
    using i by (metis le_antisym not_less_eq_eq Suc_leD le_refl)
  ultimately show ?case using C(2,3) IH unfolding r ex by auto
qed

lemma m_range_wf:
  assumes wf: "map_wf hash m L"
  shows "\<exists>ps. m_range m = Inr ps \<and> distinct ps \<and> set ps = set L"
proof -
  have bo: "buckets_ok hash (m_capacity m) (m_nodes m) (m_buckets m) (set L)"
    and c32: "m_capacity m < 4294967296" using wf by (auto simp: map_wf_def)
  have all: "\<exists>j<m_capacity m. in_bucket hash (m_capacity m) (m_nodes m) j a" if a: "a \<in> set L" for a
  proof -
    from a wf_dom[OF wf, of a] obtain n where n: "m_nodes m a = Some n" by blast
    have "4 * length L \<le> 3 * m_capacity m" using wf by (simp add: map_wf_def)
    then have "0 < m_capacity m" using length_pos_if_in_set[OF a] by linarith
    then have "bucket_index hash (node_first n) (m_capacity m) < m_capacity m" by (rule bucket_index_less)
    with n show ?thesis unfolding in_bucket_def by auto
  qed
  have rs: "distinct (rest_chains m 0)" "set (rest_chains m 0) = set L"
    using rest_chains_set[OF bo, of 0] all by auto
  then have len: "length (rest_chains m 0) \<le> m_fresh m"
    using wf by (intro below_length) (auto simp: map_wf_def)
  have e: "m_end m = Inr (None, m_capacity m)" by (simp add: m_end_def m_iterator_def)
  have b: "m_begin m = SkipEmptyBuckets m None 0 (m_capacity m)" by (simp add: m_begin_def m_iterator_def)
  from Skip_scan[OF bo, of 0 "m_capacity m"]
  consider (none) "m_begin m = Inr (None, m_capacity m)" "\<forall>j<m_capacity m. m_buckets m ! j = None"
    | (some) q j where "m_begin m = Inr (Some q, j)" "j < m_capacity m" "m_buckets m ! j = Some q"
        "\<forall>k<j. m_buckets m ! k = None" unfolding b by fastforce
  then have "m_range m = Inr (rest_chains m 0)"
  proof cases
    case none
    have "rest_chains m 0 = rest_chains m (m_capacity m)" using none by (intro rest_chains_skip) auto
    then have "rest_chains m 0 = []" by (simp add: rest_chains_def)
    with none e show ?thesis by (simp add: m_range_def)
  next
    case some
    from buckets_ok_chain[OF bo some(2)] obtain C where
      C: "chain bucketNext (m_nodes m) (m_buckets m ! j) C" by blast
    have "rest_chains m 0 = rest_chains m j" using some by (intro rest_chains_skip) auto
    then have r: "rest_chains m 0 = C @ rest_chains m (Suc j)"
      using rest_chains_Cons[OF some(2)] bucket_chain_eq[OF C] by simp
    have "m_visit m (None, m_capacity m) (Some q, j) (Suc (m_fresh m)) = Inr (C @ rest_chains m (Suc j))"
      using C some len r by (intro visit_chains[OF bo c32]) auto
    with some e r show ?thesis unfolding m_range_def by (simp del: m_visit.simps)
  qed
  with rs show ?thesis by blast
qed

lemma m_find_spec:
  assumes wf: "map_wf hash m L"
  shows "m_find hash m key =
     (case find (\<lambda>a. nkey m a = key) L of
        None \<Rightarrow> m_end m
      | Some p \<Rightarrow> Inr (Some p, bucket_index hash key (m_capacity m)))"
  by (simp add: m_find_def FindNode_spec[OF wf] m_iterator_def split: option.split)

section \<open>Properties\<close>

lemma new_room: "n \<le> 67108864 \<Longrightarrow> map_room hash n (meMap_new alloc)"
  using Initialize_wf[of 16 hash]
  by (auto simp: map_room_def meMap_new_def MAP_INITIAL_SIZE_def meMap_Initialize_def)

lemma new_entries: "m_entries (meMap_new alloc) = []"
  by (simp add: m_entries_def m_order_def meMap_new_def meMap_Initialize_def)

text \<open>
  C22. \<open>map[key] = v\<close> returns on every map with room for it, growth included: the pairs of the
  map, in the order of insertion, have the value replaced in place when the key is there and
  the new pair at the end when it is not; and every node that was in the map is still at its
  address with its key, and with its value unless it is the one assigned.
\<close>

theorem meMap_set_spec:
  assumes "map_room hash (Suc n) m"
  shows "\<exists>m'. meMap_set hash dflt m k v = Inr m' \<and> map_room hash n m' \<and>
           m_entries m' = AList.update k v (m_entries m) \<and>
           (\<forall>a\<in>set (m_order m). a \<in> set (m_order m') \<and> nkey m' a = nkey m a \<and>
              (nkey m a \<noteq> k \<longrightarrow> nval m' a = nval m a))"
proof -
  define L where "L = m_order m"
  have wf: "map_wf hash m L" unfolding L_def by (rule map_room_order[OF assms])
  have cap: "m_capacity m < 268435456" using assms by (simp add: map_room_def)
  from meMap_set_wf[OF wf cap, of dflt k v] obtain m' D where m':
    "meMap_set hash dflt m k v = Inr m'" "map_wf hash m' (L @ D)"
    "\<forall>a\<in>set L. nkey m' a = nkey m a \<and> (nkey m a \<noteq> k \<longrightarrow> nval m' a = nval m a)" by blast
  moreover from meMap_set_room[OF assms, of dflt k v] m'(1) have
    "map_room hash n m'" "m_entries m' = AList.update k v (m_entries m)" by auto
  ultimately show ?thesis by (auto simp: L_def[symmetric] wf_order[OF m'(2)])
qed

theorem meMap_set_spec_witness:
  "\<exists>m m'. put_run (meMap_set (\<lambda>k :: nat. k) (0 :: int)) (meMap_new None) [(1, 10), (17, 20)] = Inr m \<and>
     meMap_set (\<lambda>k. k) 0 m 1 15 = Inr m' \<and> m_entries m' = [(1, 15), (17, 20)]"
proof -
  have "map_room (\<lambda>k :: nat. k) (length [(1 :: nat, 10 :: int), (17, 20)] + 1) (meMap_new None)"
    by (rule new_room) simp
  from hashmap.put_run_entries[OF this, of 0] obtain m where m:
    "put_run (meMap_set (\<lambda>k :: nat. k) (0 :: int)) (meMap_new None) [(1, 10), (17, 20)] = Inr m"
    "map_room (\<lambda>k. k) (Suc 0) m" "m_entries m = [(1, 10), (17, 20)]"
    by (auto simp: new_entries)
  from meMap_set_spec[OF m(2), of 0 1 15] m show ?thesis by fastforce
qed

text \<open>
  A run of assignments from any map with room for it returns, and looking any key up
  afterwards gives the value assigned to it last, or what the map held before when the run
  does not assign it.
\<close>

theorem meMap_last_assignment:
  assumes "map_room hash (length kvs + n) m"
  shows "\<exists>m'. put_run (meMap_set hash dflt) m kvs = Inr m' \<and> map_room hash n m' \<and>
           meMap_at hash m' k = Inr ((map_of (m_entries m) ++ map_of (rev kvs)) k)"
  by (rule hashmap.last_assignment[OF assms])

theorem meMap_last_assignment_witness:
  "\<exists>m. put_run (meMap_set (\<lambda>k :: nat. k) (0 :: int)) (meMap_new None) [(1, 10), (2, 20), (1, 15)] = Inr m \<and>
     meMap_at (\<lambda>k. k) m 1 = Inr (Some 15)"
proof -
  have "map_room (\<lambda>k :: nat. k) (length [(1 :: nat, 10 :: int), (2, 20), (1, 15)] + 0) (meMap_new None)"
    by (rule new_room) simp
  from meMap_last_assignment[OF this, of 0 1] show ?thesis by (auto simp: new_entries)
qed

text \<open>
  The range-for loop over a map ends and visits every node of the map exactly once,
  bucket after bucket.
\<close>

theorem meMap_range_visits:
  assumes "map_room hash n m"
  shows "\<exists>ps. m_range m = Inr ps \<and> distinct ps \<and> set ps = set (m_order m)"
  by (rule m_range_wf[OF map_room_order[OF assms]])

theorem meMap_range_visits_witness:
  "\<exists>m ps. put_run (meMap_set (\<lambda>k :: nat. k) (0 :: int)) (meMap_new None) [(1, 10), (17, 20)] = Inr m \<and>
     m_range m = Inr ps \<and> distinct ps \<and> length ps = 2"
proof -
  have "map_room (\<lambda>k :: nat. k) (length [(1 :: nat, 10 :: int), (17, 20)] + 0) (meMap_new None)"
    by (rule new_room) simp
  from hashmap.put_run_entries[OF this, of 0] obtain m where m:
    "put_run (meMap_set (\<lambda>k :: nat. k) (0 :: int)) (meMap_new None) [(1, 10), (17, 20)] = Inr m"
    "map_room (\<lambda>k. k) 0 m" "m_entries m = [(1, 10), (17, 20)]"
    by (auto simp: new_entries)
  have wf: "map_wf (\<lambda>k. k) m (m_order m)" by (rule map_room_order[OF m(2)])
  then have "distinct (m_order m)" unfolding map_wf_def using chain_distinct by blast
  moreover have "length (m_order m) = 2" using m(3) by (metis length_Cons length_map list.size(3) m_entries_def numeral_2_eq_2)
  ultimately have "card (set (m_order m)) = 2" by (simp add: distinct_card)
  with meMap_range_visits[OF m(2)] m(1) show ?thesis by (metis distinct_card)
qed

text \<open>
  Copying a map returns a map with the same pairs in the same order; copy assignment
  returns that copy; clearing empties the map and keeps its bucket array; a map that has been
  moved from, which has no buckets, finds nothing and takes assignments again.
\<close>

theorem meMap_lifecycle:
  assumes "map_room hash n m" and "map_room hash n' this"
  shows "(\<exists>c. meMap_copy hash dflt m = Inr c \<and> map_room hash n c \<and> m_entries c = m_entries m \<and>
              meMap_assign hash dflt this m = Inr c) \<and>
         (\<exists>c. meMap_clear m = Inr c \<and> map_room hash n c \<and> m_entries c = [] \<and>
              m_capacity c = m_capacity m) \<and>
         meMap_at hash (moved_from m) k = Inr None \<and>
         (\<exists>c. meMap_set hash dflt (moved_from m) k v = Inr c \<and> m_entries c = [(k, v)])"
proof (intro conjI)
  have wf: "map_wf hash m (m_order m)" "map_wf hash this (m_order this)"
    using assms map_room_order by blast+
  have m: "m_capacity m < 268435456" "m_size m + n \<le> 67108864" using assms by (auto simp: map_room_def)
  from meMap_copy_room[OF assms(1), of dflt] obtain c where
    "meMap_copy hash dflt m = Inr c" "map_room hash n c" "m_entries c = m_entries m" by blast
  with meMap_Destroy_ok[OF wf(2)]
  show "\<exists>c. meMap_copy hash dflt m = Inr c \<and> map_room hash n c \<and> m_entries c = m_entries m \<and>
              meMap_assign hash dflt this m = Inr c"
    by (auto simp: meMap_assign_def meMap_Swap_def)
  from meMap_clear_wf[OF wf(1)] obtain c where
    c: "meMap_clear m = Inr c" "map_wf hash c []" "m_capacity c = m_capacity m" by blast
  then show "\<exists>c. meMap_clear m = Inr c \<and> map_room hash n c \<and> m_entries c = [] \<and> m_capacity c = m_capacity m"
    using m wf_Nil_entries[OF c(2)] wf_size_entries[OF c(2)] by (auto simp: map_room_def)
  have mv: "map_wf hash (moved_from m) []" using wf(1) by (intro moved_from_wf) (simp add: map_wf_def)
  then have r: "map_room hash (Suc 0) (moved_from m)" by (auto simp: map_room_def moved_from_def)
  show "meMap_at hash (moved_from m) k = Inr None"
    using meMap_at_abs[OF mv] wf_Nil_entries[OF mv] by (simp add: m_abs_def)
  from meMap_set_room[OF r, of dflt k v] wf_Nil_entries[OF mv]
  show "\<exists>c. meMap_set hash dflt (moved_from m) k v = Inr c \<and> m_entries c = [(k, v)]" by auto
qed

theorem meMap_lifecycle_witness:
  "\<exists>m c. put_run (meMap_set (\<lambda>k :: nat. k) (0 :: int)) (meMap_new None) [(1, 10), (17, 20)] = Inr m \<and>
     meMap_copy (\<lambda>k. k) 0 m = Inr c \<and> m_entries c = [(1, 10), (17, 20)]"
proof -
  have r: "map_room (\<lambda>k :: nat. k) (length [(1 :: nat, 10 :: int), (17, 20)] + 0) (meMap_new None)"
    by (rule new_room) simp
  from hashmap.put_run_entries[OF r, of 0] obtain m where
    "put_run (meMap_set (\<lambda>k :: nat. k) (0 :: int)) (meMap_new None) [(1, 10), (17, 20)] = Inr m"
    "map_room (\<lambda>k. k) 0 m" "m_entries m = [(1, 10), (17, 20)]"
    by (auto simp: new_entries)
  with meMap_lifecycle[OF this(2) r, of 0] show ?thesis by auto
qed

text \<open>
  \<open>reserve(402653184)\<close> passes its check against the largest 32-bit number and asks for 536870912
  of them, whose size in bytes, computed on 32 bits, is 0: the map then has a bucket count of
  536870912 and no bucket memory, and looking up any key reads outside it.
\<close>

theorem meMap_reserve_overflow:
  "meMap_reserve (\<lambda>k :: nat. k) (meMap_new None :: (nat, int) memap) 402653184 =
     Inr ((meMap_new None)\<lparr>m_capacity := 536870912, m_buckets := []\<rparr>) \<and>
   FindNode (\<lambda>k :: nat. k) ((meMap_new None :: (nat, int) memap)\<lparr>m_capacity := 536870912, m_buckets := []\<rparr>) key =
     Inl OutOfBounds"
proof -
  have i: "bucket_index (\<lambda>k. k) key 536870912 < 536870912" by (rule bucket_index_less) simp
  then show ?thesis
    by (simp add: meMap_reserve_def GetRequiredBucketCountForSize_def meMap_Rehash_def bucket_array_def
        meMap_new_def meMap_Initialize_def MAP_INITIAL_SIZE_def wrap32_def wrap64_def
        FindNode_def bucket_at_def readAt_def)
qed

text \<open>The module's own test passes.\<close>

lemma meMapTests_passes: "meMapTests = Inr ()"
  by code_simp

end
