(* ===== verification/Json.thy ===== *)
theory Json
  imports Prelude "HOL-Library.AList"
begin

text \<open>
  The JSON values of the vendored \<open>external/json.hpp\<close> (nlohmann::json), as far as the text mode
  of \<open>core/me_chunker.cpp\<close> uses them: the value tree, \<open>operator[]\<close> with its insertions, and the
  conversions \<open>get<T>()\<close>, whose failures are exceptions. A \<open>json&\<close> into a document is the path
  from the root to the value. The members of an object are a \<open>std::map\<close>, kept sorted by key; a
  floating-point number is its 64-bit image.
\<close>

section \<open>Values and references into a document\<close>

datatype json =
    JNull
  | JBool bool
  | JInt int
  | JFloat u64
  | JString "u8 list"
  | JArray "json list"
  | JObject "(u8 list \<times> json) list"

datatype step = SKey "u8 list" | SIdx nat

fun json_at :: "json \<Rightarrow> step list \<Rightarrow> json option" where
  "json_at j [] = Some j"
| "json_at (JObject kvs) (SKey k # p) = (case map_of kvs k of None \<Rightarrow> None | Some j \<Rightarrow> json_at j p)"
| "json_at (JArray js) (SIdx i # p) = (if i < length js then json_at (js ! i) p else None)"
| "json_at _ _ = None"

fun json_put :: "json \<Rightarrow> step list \<Rightarrow> json \<Rightarrow> json" where
  "json_put j [] v = v"
| "json_put (JObject kvs) (SKey k # p) v =
     (case map_of kvs k of None \<Rightarrow> JObject kvs | Some j \<Rightarrow> JObject (AList.update k (json_put j p v) kvs))"
| "json_put (JArray js) (SIdx i # p) v = (if i < length js then JArray (js[i := json_put (js ! i) p v]) else JArray js)"
| "json_put j _ v = j"

text \<open>Insertion into the sorted members; keys compare bytewise.\<close>

fun key_less :: "u8 list \<Rightarrow> u8 list \<Rightarrow> bool" where
  "key_less _ [] = False"
| "key_less [] (_ # _) = True"
| "key_less (x # xs) (y # ys) = (x < y \<or> x = y \<and> key_less xs ys)"

fun obj_insert :: "u8 list \<Rightarrow> json \<Rightarrow> (u8 list \<times> json) list \<Rightarrow> (u8 list \<times> json) list" where
  "obj_insert k v [] = [(k, v)]"
| "obj_insert k v ((k', v') # kvs) =
     (if k = k' then (k, v) # kvs
      else if key_less k k' then (k, v) # (k', v') # kvs
      else (k', v') # obj_insert k v kvs)"

lemma obj_insert_facts [simp]:
  "map_of (obj_insert k v kvs) = (map_of kvs)(k \<mapsto> v)"
  "fst ` set (obj_insert k v kvs) = insert k (fst ` set kvs)"
  "AList.update k w (obj_insert k v kvs) = obj_insert k w kvs"
  by (induction k v kvs rule: obj_insert.induct) (simp_all add: fun_upd_twist insert_commute)

text \<open>\<open>operator[]\<close> with a key or an index: null becomes a container, a missing member is null.\<close>

definition json_key :: "json \<Rightarrow> u8 list \<Rightarrow> json result" where
  "json_key j k =
     (case j of
        JNull \<Rightarrow> Inr (JObject [(k, JNull)])
      | JObject kvs \<Rightarrow> Inr (JObject (if k \<in> fst ` set kvs then kvs else obj_insert k JNull kvs))
      | _ \<Rightarrow> Inl Thrown)"

definition json_idx :: "json \<Rightarrow> nat \<Rightarrow> json result" where
  "json_idx j i =
     (case j of
        JNull \<Rightarrow> Inr (JArray (replicate (Suc i) JNull))
      | JArray js \<Rightarrow> Inr (JArray (if i < length js then js else js @ replicate (Suc i - length js) JNull))
      | _ \<Rightarrow> Inl Thrown)"

definition json_contains :: "json \<Rightarrow> u8 list \<Rightarrow> bool" where
  "json_contains j k = (case j of JObject kvs \<Rightarrow> k \<in> fst ` set kvs | _ \<Rightarrow> False)"

definition json_is_object :: "json \<Rightarrow> bool" where
  "json_is_object j = (case j of JObject _ \<Rightarrow> True | _ \<Rightarrow> False)"

definition json_is_array :: "json \<Rightarrow> bool" where
  "json_is_array j = (case j of JArray _ \<Rightarrow> True | _ \<Rightarrow> False)"

definition json_is_string :: "json \<Rightarrow> bool" where
  "json_is_string j = (case j of JString _ \<Rightarrow> True | _ \<Rightarrow> False)"

definition json_size :: "json \<Rightarrow> nat" where
  "json_size j = (case j of JNull \<Rightarrow> 0 | JArray js \<Rightarrow> length js | JObject kvs \<Rightarrow> length kvs | _ \<Rightarrow> 1)"

section \<open>Conversions\<close>

text \<open>
  The casts between numbers that involve floating point are arguments: \<open>f32\<close> to \<open>f64\<close> and back,
  from an integer to both, and from \<open>f64\<close> to an integer.
\<close>

record fcasts =
  widen :: "u32 \<Rightarrow> u64"
  narrow :: "u64 \<Rightarrow> u32"
  f64_of_int :: "int \<Rightarrow> u64"
  f32_of_int :: "int \<Rightarrow> u32"
  int_of_f64 :: "u64 \<Rightarrow> int"

text \<open>
  \<open>get<T>()\<close> for an integer type; \<open>exact\<close> for the two types that are the library's own number
  types, which do not take a boolean.
\<close>

definition json_get_int :: "fcasts \<Rightarrow> bool \<Rightarrow> json \<Rightarrow> int result" where
  "json_get_int fc exact j =
     (case j of
        JInt i \<Rightarrow> Inr i
      | JFloat x \<Rightarrow> Inr (int_of_f64 fc x)
      | JBool b \<Rightarrow> (if exact then Inl Thrown else Inr (of_bool b))
      | _ \<Rightarrow> Inl Thrown)"

definition json_get_f64 :: "fcasts \<Rightarrow> json \<Rightarrow> u64 result" where
  "json_get_f64 fc j =
     (case j of JInt i \<Rightarrow> Inr (f64_of_int fc i) | JFloat x \<Rightarrow> Inr x | _ \<Rightarrow> Inl Thrown)"

definition json_get_f32 :: "fcasts \<Rightarrow> json \<Rightarrow> u32 result" where
  "json_get_f32 fc j =
     (case j of
        JInt i \<Rightarrow> Inr (f32_of_int fc i)
      | JFloat x \<Rightarrow> Inr (narrow fc x)
      | JBool b \<Rightarrow> Inr (f32_of_int fc (of_bool b))
      | _ \<Rightarrow> Inl Thrown)"

definition json_get_bool :: "json \<Rightarrow> bool result" where
  "json_get_bool j = (case j of JBool b \<Rightarrow> Inr b | _ \<Rightarrow> Inl Thrown)"

definition json_get_string :: "json \<Rightarrow> u8 list result" where
  "json_get_string j = (case j of JString s \<Rightarrow> Inr s | _ \<Rightarrow> Inl Thrown)"

section \<open>References compose\<close>

lemma json_at_append: "json_at j (p @ q) = Option.bind (json_at j p) (\<lambda>v. json_at v q)"
  by (induction j p rule: json_at.induct) (auto split: option.split)

lemma json_at_put: "json_at j p \<noteq> None \<Longrightarrow> json_at (json_put j p v) p = Some v"
proof (induction j p v rule: json_put.induct)
  case (2 kvs k p v)
  then show ?case by (auto simp: update_conv' split: option.splits)
qed (auto split: if_splits)

lemma json_at_put_below: "json_at j p \<noteq> None \<Longrightarrow> json_at (json_put j p v) (p @ q) = json_at v q"
  by (simp add: json_at_append json_at_put)

lemma update_update_same: "AList.update k v (AList.update k w xs) = AList.update k v xs"
  by (induction xs) auto

lemma json_put_put: "json_at j p \<noteq> None \<Longrightarrow> json_put (json_put j p v) (p @ q) w = json_put j p (json_put v q w)"
proof (induction j p v rule: json_put.induct)
  case (2 kvs k p v)
  then show ?case by (auto simp: update_conv' update_update_same split: option.splits)
qed (auto split: if_splits)

lemma json_put_self: "json_at j p = Some v \<Longrightarrow> json_put j p v = j"
proof (induction j p v rule: json_put.induct)
  case (2 kvs k p v)
  have "map_of kvs k = Some x \<Longrightarrow> AList.update k x kvs = kvs" for x
    by (induction kvs) auto
  with 2 show ?case by (auto split: option.splits)
next
  case (3 js i p v)
  then show ?case by (auto split: if_splits)
qed auto

end
