(* ===== verification/Chunkers.thy ===== *)
theory Chunkers
  imports Json Hashing
begin

text \<open>
  The chunker of \<open>core/me_chunker.h\<close> and \<open>core/me_chunker.cpp\<close>: one object that saves, loads,
  measures or verifies the data it is walked over, in binary (a byte buffer and a cursor) or in
  text (a JSON document and a reference into it). A primitive is its byte image. What
  \<open>meAlloc\<close> returns is given by the argument \<open>fresh\<close>; parsing and printing of JSON text are
  arguments of the functions that use them.
\<close>

section \<open>State\<close>

datatype meSerializationMode = meSerializationMode_Text | meSerializationMode_Binary

datatype Pass = PWrite | PRead | PMeasure | PVerify

datatype PrimitiveKind =
    KS8 | KU8 | KS16 | KU16 | KS32 | KU32 | KS64 | KU64 | KF32 | KF64 | KBool | KLong | KULong
  | KWChar | KRaw

record chunker =
  ck_mode :: meSerializationMode
  ck_pass :: Pass
  ck_valid :: bool
  bin_buf :: "u8 list"
  bin_cursor :: nat
  txt_root :: "json option"
  txt_current :: "step list option"
  txt_stack :: "step list list"
  txt_output :: "u8 list option"
  txt_casts :: fcasts

definition IsReadMode :: "chunker \<Rightarrow> bool" where
  "IsReadMode c \<longleftrightarrow> ck_pass c = PRead"

definition IsWriteMode :: "chunker \<Rightarrow> bool" where
  "IsWriteMode c \<longleftrightarrow> ck_pass c = PWrite"

definition IsMeasureMode :: "chunker \<Rightarrow> bool" where
  "IsMeasureMode c \<longleftrightarrow> ck_pass c = PMeasure"

definition IsVerifyMode :: "chunker \<Rightarrow> bool" where
  "IsVerifyMode c \<longleftrightarrow> ck_pass c = PVerify"

definition SetMeasureMode :: "chunker \<Rightarrow> chunker" where
  "SetMeasureMode c = c\<lparr>ck_pass := PMeasure\<rparr>"

definition BytesProcessed :: "chunker \<Rightarrow> nat" where
  "BytesProcessed c = (if ck_mode c = meSerializationMode_Binary then bin_cursor c else 0)"

section \<open>Construction\<close>

definition InitBinary :: "chunker \<Rightarrow> u8 list \<Rightarrow> chunker" where
  "InitBinary c buf = c\<lparr>bin_buf := buf, bin_cursor := 0, ck_valid := True\<rparr>"

definition TextStateInitForWrite :: "chunker \<Rightarrow> nat option \<Rightarrow> u8 list option \<Rightarrow> chunker result" where
  "TextStateInitForWrite c alloc out =
     ME_ASSERT (alloc \<noteq> None)
       (Inr (c\<lparr>txt_root := Some (JObject []), txt_current := Some [], txt_stack := [], txt_output := out\<rparr>))"

definition TextStateDestroy :: "chunker \<Rightarrow> chunker" where
  "TextStateDestroy c = c\<lparr>txt_root := None, txt_current := None, txt_stack := [], txt_output := None\<rparr>"

definition TextStateInitForRead ::
    "(u8 list \<Rightarrow> json option) \<Rightarrow> chunker \<Rightarrow> nat option \<Rightarrow> u8 list \<Rightarrow> (bool \<times> chunker) result" where
  "TextStateInitForRead parse c alloc input =
     ME_ASSERT (alloc \<noteq> None)
       (Inr (case parse input of
               None \<Rightarrow> (False, TextStateDestroy c)
             | Some j \<Rightarrow> (True, c\<lparr>txt_root := Some j, txt_current := Some [], txt_stack := [], txt_output := None\<rparr>)))"

definition InitText ::
    "(u8 list \<Rightarrow> json option) \<Rightarrow> chunker \<Rightarrow> nat option \<Rightarrow> u8 list option \<Rightarrow> chunker result" where
  "InitText parse c alloc data =
     (if IsReadMode c
      then bindR (TextStateInitForRead parse c alloc (case data of None \<Rightarrow> [] | Some d \<Rightarrow> d))
             (\<lambda>(ok, c). Inr (c\<lparr>ck_valid := ok\<rparr>))
      else bindR (TextStateInitForWrite c alloc data) (\<lambda>c. Inr (c\<lparr>ck_valid := True\<rparr>)))"

definition meChunker ::
    "fcasts \<Rightarrow> (u8 list \<Rightarrow> json option) \<Rightarrow> meSerializationMode \<Rightarrow> Pass \<Rightarrow> nat option \<Rightarrow> u8 list option \<Rightarrow>
     chunker result" where
  "meChunker fc parse mode pass alloc data =
     (let c = \<lparr>ck_mode = mode, ck_pass = pass, ck_valid = True, bin_buf = [], bin_cursor = 0,
               txt_root = None, txt_current = None, txt_stack = [], txt_output = None, txt_casts = fc\<rparr>
      in if mode = meSerializationMode_Binary
         then Inr (InitBinary c (case data of None \<Rightarrow> [] | Some d \<Rightarrow> d))
         else InitText parse c alloc data)"

section \<open>The text document\<close>

text \<open>\<open>TextJson(m_text.current)\<close>: the value referred to, and assigning to it.\<close>

definition text_value :: "chunker \<Rightarrow> json result" where
  "text_value c =
     ME_ASSERT (txt_current c \<noteq> None)
       (bindR (deref (txt_root c)) (\<lambda>root. bindR (deref (txt_current c)) (\<lambda>p.
          case json_at root p of None \<Rightarrow> Inl Dangling | Some j \<Rightarrow> Inr j)))"

definition text_assign :: "chunker \<Rightarrow> json \<Rightarrow> chunker result" where
  "text_assign c v =
     bindR (text_value c) (\<lambda>_.
     bindR (deref (txt_root c)) (\<lambda>root. bindR (deref (txt_current c)) (\<lambda>p.
       Inr (c\<lparr>txt_root := Some (json_put root p v)\<rparr>))))"

definition PushTextCurrent :: "chunker \<Rightarrow> chunker result" where
  "PushTextCurrent c =
     ME_ASSERT (ck_mode c = meSerializationMode_Text)
    (ME_ASSERT (length (txt_stack c) < 128)
       (bindR (deref (txt_current c)) (\<lambda>p. Inr (c\<lparr>txt_stack := p # txt_stack c\<rparr>))))"

definition PopTextCurrent :: "chunker \<Rightarrow> chunker result" where
  "PopTextCurrent c =
     ME_ASSERT (ck_mode c = meSerializationMode_Text)
       (case txt_stack c of
          [] \<Rightarrow> Inl AssertFailed
        | p # ps \<Rightarrow> Inr (c\<lparr>txt_current := Some p, txt_stack := ps\<rparr>))"

definition signed_of :: "u8 list \<Rightarrow> int" where
  "signed_of bs =
     (let n = le_decode bs; m = 256 ^ length bs
      in if 2 * n < m then int n else int n - int m)"

definition int_bytes :: "nat \<Rightarrow> int \<Rightarrow> u8 list" where
  "int_bytes n i = le_encode n (nat (i mod (256 ^ n)))"

text \<open>\<open>current = *(T*)data\<close>: the JSON value of a primitive, \<open>None\<close> for the raw kind.\<close>

definition json_of_prim :: "fcasts \<Rightarrow> PrimitiveKind \<Rightarrow> u8 list \<Rightarrow> json option" where
  "json_of_prim fc kind bs =
     (case kind of
        KS8 \<Rightarrow> Some (JInt (signed_of bs)) | KU8 \<Rightarrow> Some (JInt (int (le_decode bs)))
      | KS16 \<Rightarrow> Some (JInt (signed_of bs)) | KU16 \<Rightarrow> Some (JInt (int (le_decode bs)))
      | KS32 \<Rightarrow> Some (JInt (signed_of bs)) | KU32 \<Rightarrow> Some (JInt (int (le_decode bs)))
      | KS64 \<Rightarrow> Some (JInt (signed_of bs)) | KU64 \<Rightarrow> Some (JInt (int (le_decode bs)))
      | KF32 \<Rightarrow> Some (JFloat (widen fc (of_nat (le_decode bs))))
      | KF64 \<Rightarrow> Some (JFloat (of_nat (le_decode bs)))
      | KBool \<Rightarrow> Some (JBool (le_decode bs \<noteq> 0))
      | KLong \<Rightarrow> Some (JInt (signed_of bs)) | KULong \<Rightarrow> Some (JInt (int (le_decode bs)))
      | KWChar \<Rightarrow> Some (JInt (int (le_decode bs)))
      | KRaw \<Rightarrow> None)"

text \<open>\<open>*(T*)data = current.get<T>()\<close>, for data of \<open>n\<close> bytes.\<close>

definition prim_of_json :: "fcasts \<Rightarrow> PrimitiveKind \<Rightarrow> nat \<Rightarrow> json \<Rightarrow> u8 list result option" where
  "prim_of_json fc kind n j =
     (let int_of = (\<lambda>exact. bindR (json_get_int fc exact j) (\<lambda>i. Inr (int_bytes n i)))
      in case kind of
        KS8 \<Rightarrow> Some (int_of False) | KU8 \<Rightarrow> Some (int_of False)
      | KS16 \<Rightarrow> Some (int_of False) | KU16 \<Rightarrow> Some (int_of False)
      | KS32 \<Rightarrow> Some (int_of False) | KU32 \<Rightarrow> Some (int_of False)
      | KS64 \<Rightarrow> Some (int_of True) | KU64 \<Rightarrow> Some (int_of True)
      | KF32 \<Rightarrow> Some (bindR (json_get_f32 fc j) (\<lambda>w. Inr (le_encode n (unat w))))
      | KF64 \<Rightarrow> Some (bindR (json_get_f64 fc j) (\<lambda>w. Inr (le_encode n (unat w))))
      | KBool \<Rightarrow> Some (bindR (json_get_bool j) (\<lambda>b. Inr (le_encode n (of_bool b))))
      | KLong \<Rightarrow> Some (int_of False) | KULong \<Rightarrow> Some (int_of False)
      | KWChar \<Rightarrow> Some (int_of False)
      | KRaw \<Rightarrow> None)"

text \<open>
  \<open>==\<close> on the images of floating-point numbers: NaN differs from everything, the two zeros are
  equal. \<open>e\<close> is the image of infinity and \<open>s\<close> the weight of the sign bit.
\<close>

definition float_eq :: "nat \<Rightarrow> nat \<Rightarrow> nat \<Rightarrow> nat \<Rightarrow> bool" where
  "float_eq s e a b \<longleftrightarrow>
     a mod s \<le> e \<and> b mod s \<le> e \<and> (a = b \<or> (a mod s = 0 \<and> b mod s = 0))"

definition prim_eq :: "PrimitiveKind \<Rightarrow> u8 list \<Rightarrow> u8 list \<Rightarrow> bool" where
  "prim_eq kind x y =
     (case kind of
        KF32 \<Rightarrow> float_eq 2147483648 2139095040 (le_decode x) (le_decode y)
      | KF64 \<Rightarrow> float_eq 9223372036854775808 9218868437227405312 (le_decode x) (le_decode y)
      | _ \<Rightarrow> x = y)"

definition JsonValuesEqual :: "fcasts \<Rightarrow> json \<Rightarrow> u8 list \<Rightarrow> PrimitiveKind \<Rightarrow> bool result" where
  "JsonValuesEqual fc j data kind =
     (if kind = KWChar
      then bindR (json_get_int fc False j) (\<lambda>i. Inr (i mod 4294967296 = int (le_decode data)))
      else case prim_of_json fc kind (length data) j of
          None \<Rightarrow> Inr False
        | Some r \<Rightarrow> bindR r (\<lambda>bs. Inr (prim_eq kind bs data)))"

definition DoTextPrimitive :: "chunker \<Rightarrow> u8 list \<Rightarrow> PrimitiveKind \<Rightarrow> (u8 list \<times> chunker) result" where
  "DoTextPrimitive c data kind =
     bindR (text_value c) (\<lambda>current.
       if IsWriteMode c \<or> IsMeasureMode c then
         (case json_of_prim (txt_casts c) kind data of
            Some j \<Rightarrow> bindR (text_assign c j) (\<lambda>c. Inr (data, c))
          | None \<Rightarrow> Inl AssertFailed)
       else if IsReadMode c then
         (case prim_of_json (txt_casts c) kind (length data) current of
            Some r \<Rightarrow> bindR r (\<lambda>bs. Inr (bs, c))
          | None \<Rightarrow> Inl AssertFailed)
       else bindR (JsonValuesEqual (txt_casts c) current data kind) (\<lambda>same.
              ME_ASSERT same (Inr (data, c))))"

definition DoTextBeginObject :: "chunker \<Rightarrow> (bool \<times> chunker) result" where
  "DoTextBeginObject c =
     bindR (text_value c) (\<lambda>current.
       if IsWriteMode c \<or> IsMeasureMode c
       then bindR (text_assign c (JObject [])) (\<lambda>c. Inr (True, c))
       else Inr (json_is_object current, c))"

definition DoTextField :: "chunker \<Rightarrow> u8 list \<Rightarrow> (bool \<times> chunker) result" where
  "DoTextField c name =
     bindR (text_value c) (\<lambda>current.
       if IsReadMode c \<and> \<not> json_contains current name then Inr (False, c)
       else bindR (PushTextCurrent c) (\<lambda>c.
            bindR (json_key current name) (\<lambda>current'.
            bindR (text_assign c current') (\<lambda>c.
            bindR (deref (txt_current c)) (\<lambda>p.
              Inr (True, c\<lparr>txt_current := Some (p @ [SKey name])\<rparr>))))))"

definition DoTextBeginArray :: "chunker \<Rightarrow> nat \<Rightarrow> (bool \<times> nat \<times> chunker) result" where
  "DoTextBeginArray c count =
     bindR (text_value c) (\<lambda>current.
       if IsWriteMode c \<or> IsMeasureMode c
       then bindR (text_assign c (JArray [])) (\<lambda>c. Inr (True, count, c))
       else if \<not> json_is_array current then Inr (False, count, c)
       else Inr (True, wrap32 (json_size current), c))"

definition DoTextElement :: "chunker \<Rightarrow> nat \<Rightarrow> (bool \<times> chunker) result" where
  "DoTextElement c index =
     bindR (text_value c) (\<lambda>current.
       if IsReadMode c \<and> index \<ge> json_size current then Inr (False, c)
       else bindR (PushTextCurrent c) (\<lambda>c.
            bindR (json_idx current index) (\<lambda>current'.
            bindR (text_assign c current') (\<lambda>c.
            bindR (deref (txt_current c)) (\<lambda>p.
              Inr (True, c\<lparr>txt_current := Some (p @ [SIdx index])\<rparr>))))))"

text \<open>A span is \<open>None\<close> for the null span, else the bytes it refers to.\<close>

definition span_bytes :: "u8 list option \<Rightarrow> u8 list" where
  "span_bytes s = (case s of None \<Rightarrow> [] | Some bs \<Rightarrow> bs)"

definition DoTextBytes ::
    "chunker \<Rightarrow> u8 list option \<Rightarrow> nat option \<Rightarrow> (u8 list option \<times> chunker) result" where
  "DoTextBytes c span readAllocator =
     bindR (text_value c) (\<lambda>current.
       if IsWriteMode c \<or> IsMeasureMode c
       then bindR (text_assign c (JString (span_bytes span))) (\<lambda>c. Inr (span, c))
       else if IsReadMode c then
         (case current of
            JString value \<Rightarrow> ME_ASSERT (readAllocator \<noteq> None) (Inr (Some value, c))
          | _ \<Rightarrow> Inr (None, SetMeasureMode c))
       else bindR (ME_ASSERT (json_is_string current) (json_get_string current)) (\<lambda>value.
              ME_ASSERT (length value = length (span_bytes span))
             (ME_ASSERT (value = span_bytes span) (Inr (span, c)))))"

definition DoTextFinalize ::
    "(json \<Rightarrow> u8 list option) \<Rightarrow> chunker \<Rightarrow> nat option \<Rightarrow> (u8 list option \<times> nat \<times> chunker) result" where
  "DoTextFinalize dump c alloc =
     ME_ASSERT (txt_root c \<noteq> None)
       (if \<not> ck_valid c then Inr (None, 0, c)
        else bindR (deref (txt_root c)) (\<lambda>root.
          case dump root of
            None \<Rightarrow> Inr (None, 0, c\<lparr>ck_valid := False\<rparr>)
          | Some s \<Rightarrow>
              if IsMeasureMode c then Inr (None, length s, c)
              else (case txt_output c of
                  Some out \<Rightarrow>
                    if out \<noteq> [] then
                      ME_ASSERT (length out \<ge> length s)
                        (bindR (blit 0 s out) (\<lambda>out. Inr (Some (take (length s) out), length s, c\<lparr>txt_output := Some out\<rparr>)))
                    else ME_ASSERT (alloc \<noteq> None) (Inr (Some s, length s, c))
                | None \<Rightarrow> ME_ASSERT (alloc \<noteq> None) (Inr (Some s, length s, c)))))"

section \<open>Binary data and the common operations\<close>

definition DoBinaryVoid :: "chunker \<Rightarrow> u8 list \<Rightarrow> (u8 list \<times> chunker) result" where
  "DoBinaryVoid c data =
     (let n = length data;
          c = (if \<not> IsMeasureMode c \<and> bin_cursor c + n > length (bin_buf c) then SetMeasureMode c else c)
      in bindR (case ck_pass c of
             PWrite \<Rightarrow> bindR (blit (bin_cursor c) data (bin_buf c)) (\<lambda>buf. Inr (data, c\<lparr>bin_buf := buf\<rparr>))
           | PRead \<Rightarrow> require OutOfBounds (bin_cursor c + n \<le> length (bin_buf c))
                        (Inr (take n (drop (bin_cursor c) (bin_buf c)), c))
           | PMeasure \<Rightarrow> Inr (data, c)
           | PVerify \<Rightarrow> require OutOfBounds (bin_cursor c + n \<le> length (bin_buf c))
                         (ME_ASSERT (take n (drop (bin_cursor c) (bin_buf c)) = data) (Inr (data, c))))
         (\<lambda>(data, c). Inr (data, c\<lparr>bin_cursor := bin_cursor c + n\<rparr>)))"

definition DoPrimitive :: "chunker \<Rightarrow> u8 list \<Rightarrow> PrimitiveKind \<Rightarrow> (u8 list \<times> chunker) result" where
  "DoPrimitive c data kind =
     (if ck_mode c = meSerializationMode_Binary then DoBinaryVoid c data else DoTextPrimitive c data kind)"

definition Do_bool :: "chunker \<Rightarrow> bool \<Rightarrow> (bool \<times> chunker) result" where
  "Do_bool c x = bindR (DoPrimitive c [of_bool x] KBool) (\<lambda>(bs, c). Inr (le_decode bs \<noteq> 0, c))"

definition Do_u32 :: "chunker \<Rightarrow> nat \<Rightarrow> (nat \<times> chunker) result" where
  "Do_u32 c x = bindR (DoPrimitive c (le_encode 4 x) KU32) (\<lambda>(bs, c). Inr (le_decode bs, c))"

definition Do_s64 :: "chunker \<Rightarrow> int \<Rightarrow> (int \<times> chunker) result" where
  "Do_s64 c x = bindR (DoPrimitive c (int_bytes 8 x) KS64) (\<lambda>(bs, c). Inr (signed_of bs, c))"

text \<open>\<open>DoArray\<close> on \<open>count\<close> elements at \<open>arr\<close>, whose memory is \<open>mem\<close>.\<close>

definition DoArray :: "chunker \<Rightarrow> u8 list \<Rightarrow> nat \<Rightarrow> nat \<Rightarrow> (u8 list \<times> chunker) result" where
  "DoArray c mem count esize =
     ME_ASSERT (ck_mode c = meSerializationMode_Binary)
       (let n = wrap32 (count * esize)
        in require OutOfBounds (n \<le> length mem)
             (bindR (DoBinaryVoid c (take n mem)) (\<lambda>(bs, c). Inr (bs @ drop n mem, c))))"

definition DoBytes ::
    "(nat \<Rightarrow> u8 list) \<Rightarrow> chunker \<Rightarrow> u8 list option \<Rightarrow> nat option \<Rightarrow> (u8 list option \<times> chunker) result" where
  "DoBytes fresh c span readAllocator =
     (if ck_mode c = meSerializationMode_Binary then
        bindR (Do_u32 c (wrap32 (length (span_bytes span)))) (\<lambda>(n, c).
        bindR (if IsReadMode c then ME_ASSERT (readAllocator \<noteq> None) (Inr (Some (fresh n))) else Inr span) (\<lambda>span.
        require OutOfBounds (n \<le> length (span_bytes span))
       (bindR (DoBinaryVoid c (take n (span_bytes span))) (\<lambda>(bs, c).
          Inr (map_option (\<lambda>old. bs @ drop n old) span, c)))))
      else DoTextBytes c span readAllocator)"

text \<open>\<open>DoPointerOffset\<close> on the address of an object, relative to the address \<open>base\<close>.\<close>

definition DoPointerOffset :: "chunker \<Rightarrow> int option \<Rightarrow> int \<Rightarrow> (int option \<times> chunker) result" where
  "DoPointerOffset c ptr base =
     bindR (Do_s64 c (case ptr of Some p \<Rightarrow> p - base | None \<Rightarrow> -1)) (\<lambda>(ofs, c).
       Inr (if IsReadMode c then (if ofs \<ge> 0 then Some (base + ofs) else None) else ptr, c))"

text \<open>The tag of a marker is a literal; its terminating zero is hashed too.\<close>

definition DoMarker :: "chunker \<Rightarrow> u8 list \<Rightarrow> chunker result" where
  "DoMarker c tag =
     (let cookie = unat (HashBytes (tag @ [0]))
      in bindR (Do_u32 c cookie) (\<lambda>(x, c).
           if IsReadMode c \<and> x \<noteq> cookie then ME_ASSERT False (Inr (SetMeasureMode c)) else Inr c))"

definition BeginObject :: "chunker \<Rightarrow> (bool \<times> chunker) result" where
  "BeginObject c = (if ck_mode c = meSerializationMode_Binary then Inr (True, c) else DoTextBeginObject c)"

definition EndObject :: "chunker \<Rightarrow> chunker result" where
  "EndObject c = Inr c"

definition Field :: "chunker \<Rightarrow> u8 list \<Rightarrow> (bool \<times> chunker) result" where
  "Field c name = (if ck_mode c = meSerializationMode_Binary then Inr (True, c) else DoTextField c name)"

definition EndField :: "chunker \<Rightarrow> chunker result" where
  "EndField c = (if ck_mode c = meSerializationMode_Text then PopTextCurrent c else Inr c)"

definition BeginArray :: "chunker \<Rightarrow> nat \<Rightarrow> (bool \<times> nat \<times> chunker) result" where
  "BeginArray c count =
     (if ck_mode c = meSerializationMode_Binary
      then bindR (Do_u32 c count) (\<lambda>(count, c). Inr (True, count, c))
      else DoTextBeginArray c count)"

definition BeginFixedArray :: "chunker \<Rightarrow> nat \<Rightarrow> (bool \<times> nat \<times> chunker) result" where
  "BeginFixedArray c count =
     (if ck_mode c = meSerializationMode_Binary then Inr (True, count, c) else DoTextBeginArray c count)"

definition EndArray :: "chunker \<Rightarrow> chunker result" where
  "EndArray c = Inr c"

definition Element :: "chunker \<Rightarrow> nat \<Rightarrow> (bool \<times> chunker) result" where
  "Element c index = (if ck_mode c = meSerializationMode_Binary then Inr (True, c) else DoTextElement c index)"

definition EndElement :: "chunker \<Rightarrow> chunker result" where
  "EndElement c = (if ck_mode c = meSerializationMode_Text then PopTextCurrent c else Inr c)"

text \<open>A \<open>String\<close>: the memory it owns, which holds a terminating zero, and its length.\<close>

record String_obj =
  so_data :: "u8 list option"
  so_len :: nat

definition String_empty :: String_obj where
  "String_empty = \<lparr>so_data = None, so_len = 0\<rparr>"

definition so_bytes :: "String_obj \<Rightarrow> u8 list" where
  "so_bytes s = take (so_len s) (span_bytes (so_data s))"

definition String_of :: "u8 list \<Rightarrow> String_obj" where
  "String_of bs = (if bs = [] then String_empty else \<lparr>so_data = Some (bs @ [0]), so_len = length bs\<rparr>)"

definition DoString ::
    "(nat \<Rightarrow> u8 list) \<Rightarrow> chunker \<Rightarrow> String_obj \<Rightarrow> nat option \<Rightarrow> (String_obj \<times> chunker) result" where
  "DoString fresh c str readAllocator =
     (if ck_mode c = meSerializationMode_Binary then
        bindR (Do_u32 c (wrap32 (so_len str))) (\<lambda>(len, c).
          if IsReadMode c then
            if len = 0 then Inr (String_empty, c)
            else ME_ASSERT (readAllocator \<noteq> None)
                   (bindR (DoArray c (fresh (wrap32 (len + 1))) len 1) (\<lambda>(mem, c).
                    bindR (writeAt len 0 mem) (\<lambda>mem.
                      Inr (\<lparr>so_data = Some mem, so_len = len\<rparr>, c))))
          else if len > 0 then
            bindR (DoArray c (span_bytes (so_data str)) len 1) (\<lambda>(mem, c).
              Inr (str\<lparr>so_data := Some mem\<rparr>, c))
          else Inr (str, c))
      else
        bindR (text_value c) (\<lambda>current.
          if IsWriteMode c \<or> IsMeasureMode c
          then bindR (text_assign c (JString (so_bytes str))) (\<lambda>c. Inr (str, c))
          else if IsReadMode c then
            ME_ASSERT (readAllocator \<noteq> None)
              (bindR (json_get_string current) (\<lambda>value. Inr (String_of value, c)))
          else bindR (json_get_string current) (\<lambda>value.
                 ME_ASSERT (length value = so_len str)
                (ME_ASSERT (value = so_bytes str) (Inr (str, c))))))"

definition Finalize ::
    "(json \<Rightarrow> u8 list option) \<Rightarrow> chunker \<Rightarrow> nat option \<Rightarrow> (u8 list option \<times> nat \<times> chunker) result" where
  "Finalize dump c alloc =
     (if ck_mode c = meSerializationMode_Text then DoTextFinalize dump c alloc
      else Inr (Some (take (BytesProcessed c) (bin_buf c)), BytesProcessed c, c))"

section \<open>The built-in test\<close>

record SmokeState =
  sm_a :: "u8 list"
  sm_b :: "u8 list"
  sm_c :: bool
  sm_d :: int

definition DoSmokeState :: "SmokeState \<Rightarrow> chunker \<Rightarrow> (SmokeState \<times> chunker) result" where
  "DoSmokeState s w =
     bindR (DoPrimitive w (sm_a s) KU32) (\<lambda>(a, w).
     bindR (DoPrimitive w (sm_b s) KF32) (\<lambda>(b, w).
     bindR (Do_bool w (sm_c s)) (\<lambda>(c, w).
     bindR (Do_s64 w (sm_d s)) (\<lambda>(d, w).
     bindR (DoMarker w [83, 109, 111, 107, 101, 83, 116, 97, 116, 101]) (\<lambda>w.
       Inr (\<lparr>sm_a = a, sm_b = b, sm_c = c, sm_d = d\<rparr>, w))))))"

definition no_casts :: fcasts where
  "no_casts = \<lparr>widen = ucast, narrow = ucast, f64_of_int = of_int, f32_of_int = of_int, int_of_f64 = uint\<rparr>"

definition smoke_chunker :: "Pass \<Rightarrow> u8 list \<Rightarrow> chunker result" where
  "smoke_chunker pass buf = meChunker no_casts (\<lambda>_. None) meSerializationMode_Binary pass None (Some buf)"

definition meChunkerTests :: "bool result" where
  "meChunkerTests =
     (let original = \<lparr>sm_a = le_encode 4 3735928559, sm_b = le_encode 4 1078523331, sm_c = True, sm_d = -1234567890\<rparr>;
          restored = \<lparr>sm_a = le_encode 4 0, sm_b = le_encode 4 0, sm_c = False, sm_d = 0\<rparr>
      in bindR (smoke_chunker PMeasure []) (\<lambda>measure.
         bindR (DoSmokeState original measure) (\<lambda>(_, measure).
         let needed = BytesProcessed measure in
         ME_ASSERT (needed > 0) (
         bindR (smoke_chunker PWrite (replicate needed 0)) (\<lambda>write.
         bindR (DoSmokeState original write) (\<lambda>(_, write).
         ME_ASSERT (IsWriteMode write) (
         ME_ASSERT (BytesProcessed write = needed) (
         bindR (smoke_chunker PRead (bin_buf write)) (\<lambda>read.
         bindR (DoSmokeState restored read) (\<lambda>(restored, read).
         ME_ASSERT (IsReadMode read) (
         ME_ASSERT (sm_a restored = sm_a original \<and> prim_eq KF32 (sm_b restored) (sm_b original) \<and>
                    sm_c restored = sm_c original \<and> sm_d restored = sm_d original) (
         bindR (smoke_chunker PVerify (bin_buf write)) (\<lambda>verify.
         bindR (DoSmokeState original verify) (\<lambda>(_, verify).
         ME_ASSERT (IsVerifyMode verify) (Inr True)))))))))))))))"

lemma meChunkerTests_passes: "meChunkerTests = Inr True"
  by code_simp

end
