(* ===== verification/Reflection.thy ===== *)
theory Reflection
  imports Chunkers Handles
begin

text \<open>
  Reflected types (\<open>reflector/reflection_types.h\<close>, \<open>reflector/reflection_types.cpp\<close>): type
  descriptors and the operations that walk an object by its descriptor, comparison, destruction
  and deep copy. An object is a tree of values: the members of a struct in the order of its
  fields, the elements of an array, the byte image of a primitive, the buffer of a string or
  span. Descriptors are finite trees (no type contains itself through pointers). A type's
  function pointers are given by the kind of type it is, which is how the source sets them.
  The walks take the nesting depth as fuel.
\<close>

section \<open>Objects\<close>

datatype meAssetLoadStage = Unloaded | Loading | Compiling | Loaded | Unloading

datatype val =
    VPrim "u8 list"
  | VSpan "u8 list option"
  | VString String_obj
  | VDyn "val list option"
  | VFixed "val list"
  | VStruct "val list"
  | VAsset MAID Eye meAssetLoadStage

section \<open>Type descriptors\<close>

text \<open>
  The descriptors of the primitive types, and the function pointers a descriptor can have: those
  of a primitive, of the sized buffers, of \<open>DynArray\<close>, of \<open>meAsset\<close>, of a generated struct, or none
  (a field's descriptor has none of its own).
\<close>

datatype prim_td =
    TD_INT | TD_UNSIGNED_INT | TD_LONG_LONG | TD_UNSIGNED_LONG_LONG | TD_LONG | TD_UNSIGNED_LONG
  | TD_SHORT | TD_UNSIGNED_SHORT | TD_CHAR | TD_UNSIGNED_CHAR | TD_WCHAR_T | TD_FLOAT | TD_DOUBLE
  | TD_BOOL | TD_VEC3 | TD_QUAT

datatype td_fns =
    Fn_none
  | Fn_primitive prim_td
  | Fn_sizedBuffer
  | Fn_disallowed
  | Fn_string
  | Fn_DynArray
  | Fn_meAsset
  | Fn_generated

datatype meTypeDescriptor =
  TypeDesc (td_name: "u8 list") (td_fields: "meTypeDescriptor list") (td_flags: u32)
    (td_version: int) (td_size: nat) (td_thisType: "meTypeDescriptor option")
    (td_templatedTypes: "meTypeDescriptor list") (td_fns: td_fns) (td_defaults: "val option")
    (td_zeroed: val)

definition meTypeDescriptorFlag_ConstantArray :: nat where
  "meTypeDescriptorFlag_ConstantArray = 1"

definition meTypeDescriptorFlag_PaddingMember :: nat where
  "meTypeDescriptorFlag_PaddingMember = 2"

definition meTypeDescriptorFlag_Excluded :: nat where
  "meTypeDescriptorFlag_Excluded = 3"

definition ShouldSerialize :: "meTypeDescriptor \<Rightarrow> bool" where
  "ShouldSerialize td \<longleftrightarrow>
     \<not> (TEST_BIT (td_flags td) meTypeDescriptorFlag_Excluded \<or>
        TEST_BIT (td_flags td) meTypeDescriptorFlag_PaddingMember)"

definition is_constant_array :: "meTypeDescriptor \<Rightarrow> bool" where
  "is_constant_array td \<longleftrightarrow>
     td_thisType td \<noteq> None \<and> TEST_BIT (td_flags td) meTypeDescriptorFlag_ConstantArray"

definition meTypeDescriptorGetSingleTemplateArg :: "meTypeDescriptor \<Rightarrow> meTypeDescriptor result" where
  "meTypeDescriptorGetSingleTemplateArg fieldDesc =
     (case td_templatedTypes fieldDesc of [e] \<Rightarrow> Inr e | _ \<Rightarrow> Inl AssertFailed)"

text \<open>A member \<open>meTypeDescriptorWalkMembers\<close> visits.\<close>

definition visited :: "meTypeDescriptor \<Rightarrow> bool" where
  "visited field \<longleftrightarrow> ShouldSerialize field \<and> td_thisType field \<noteq> None"

text \<open>Walks that compute a new object: \<open>f\<close> at each visited member, or at each element.\<close>

fun walk_members ::
    "(meTypeDescriptor \<Rightarrow> val \<Rightarrow> val result) \<Rightarrow> meTypeDescriptor list \<Rightarrow> val list \<Rightarrow> val list result" where
  "walk_members f [] vs = Inr vs"
| "walk_members f (field # fds) [] = Inl OutOfBounds"
| "walk_members f (field # fds) (v # vs) =
     bindR (if visited field then f field v else Inr v) (\<lambda>v.
     bindR (walk_members f fds vs) (\<lambda>vs. Inr (v # vs)))"

fun walk_elements :: "(val \<Rightarrow> val result) \<Rightarrow> val list \<Rightarrow> val list result" where
  "walk_elements f [] = Inr []"
| "walk_elements f (v # vs) = bindR (f v) (\<lambda>v. bindR (walk_elements f vs) (\<lambda>vs. Inr (v # vs)))"

text \<open>Walks that compare two objects, stopping at the first difference.\<close>

fun all_members ::
    "(meTypeDescriptor \<Rightarrow> val \<Rightarrow> val \<Rightarrow> bool result) \<Rightarrow> meTypeDescriptor list \<Rightarrow> val list \<Rightarrow> val list \<Rightarrow> bool result" where
  "all_members f [] as bs = Inr True"
| "all_members f (field # fds) (a # as) (b # bs) =
     bindR (if visited field then f field a b else Inr True) (\<lambda>same.
       if same then all_members f fds as bs else Inr False)"
| "all_members f (field # fds) _ _ = Inl OutOfBounds"

fun all_elements :: "(val \<Rightarrow> val \<Rightarrow> bool result) \<Rightarrow> val list \<Rightarrow> val list \<Rightarrow> bool result" where
  "all_elements f [] bs = Inr True"
| "all_elements f (a # as) (b # bs) =
     bindR (f a b) (\<lambda>same. if same then all_elements f as bs else Inr False)"
| "all_elements f (a # as) [] = Inl OutOfBounds"

section \<open>Comparison\<close>

text \<open>Primitives compare with their own \<open>==\<close>; vectors and quaternions component by component.\<close>

fun float_images :: "u8 list \<Rightarrow> nat \<Rightarrow> u8 list list" where
  "float_images bs 0 = []"
| "float_images bs (Suc n) = take 4 bs # float_images (drop 4 bs) n"

definition primitive_equals :: "prim_td \<Rightarrow> u8 list \<Rightarrow> u8 list \<Rightarrow> bool" where
  "primitive_equals p a b =
     (case p of
        TD_FLOAT \<Rightarrow> prim_eq KF32 a b
      | TD_DOUBLE \<Rightarrow> prim_eq KF64 a b
      | TD_VEC3 \<Rightarrow> list_all2 (prim_eq KF32) (float_images a 3) (float_images b 3)
      | TD_QUAT \<Rightarrow> list_all2 (prim_eq KF32) (float_images a 4) (float_images b 4)
      | _ \<Rightarrow> a = b)"

definition sizedBufferEquals :: "u8 list \<Rightarrow> u8 list \<Rightarrow> bool" where
  "sizedBufferEquals a b \<longleftrightarrow> length a = length b \<and> (length a = 0 \<or> a = b)"

definition buffer_of :: "val \<Rightarrow> u8 list option" where
  "buffer_of v = (case v of VSpan s \<Rightarrow> Some (span_bytes s) | VString s \<Rightarrow> Some (so_bytes s) | _ \<Rightarrow> None)"

definition asset_is_instance :: "Eye \<Rightarrow> meAssetLoadStage \<Rightarrow> bool" where
  "asset_is_instance eye stage \<longleftrightarrow> Eye_bool eye \<and> \<not> Eye_IsTemplateAsset eye \<and> stage = Loaded"

definition meAssetEqualsFn :: "val \<Rightarrow> val \<Rightarrow> bool result" where
  "meAssetEqualsFn a b =
     (case (a, b) of
        (VAsset ia ea sa, VAsset ib eb sb) \<Rightarrow>
          Inr (if \<not> MAID_eq ia ib then False
               else if asset_is_instance ea sa \<noteq> asset_is_instance eb sb then False
               else if \<not> asset_is_instance ea sa then True
               else ea = eb)
      | _ \<Rightarrow> Inl OutOfBounds)"

text \<open>
  \<open>DynArrayEqualsFn\<close> indexes both arrays through \<open>operator[]\<close> of a byte array, with the byte offset
  of the element as the index: the assertion there compares the offset with the number of
  elements. \<open>eq\<close> is \<open>meFieldsEqual\<close> on the element type.
\<close>

fun dyn_equals_loop ::
    "(val \<Rightarrow> val \<Rightarrow> bool result) \<Rightarrow> nat \<Rightarrow> nat \<Rightarrow> nat \<Rightarrow> val list \<Rightarrow> val list \<Rightarrow> bool result" where
  "dyn_equals_loop eq stride n i (a # as) (b # bs) =
     ME_ASSERT (wrap32 (i * stride) < n)
       (bindR (eq a b) (\<lambda>same. if same then dyn_equals_loop eq stride n (Suc i) as bs else Inr False))"
| "dyn_equals_loop eq stride n i _ _ = Inr True"

definition DynArrayEqualsFn ::
    "(meTypeDescriptor \<Rightarrow> val \<Rightarrow> val \<Rightarrow> bool result) \<Rightarrow> meTypeDescriptor \<Rightarrow> val \<Rightarrow> val \<Rightarrow> bool result" where
  "DynArrayEqualsFn eq td a b =
     bindR (meTypeDescriptorGetSingleTemplateArg td) (\<lambda>elementType.
       case (a, b) of
         (VDyn xs, VDyn ys) \<Rightarrow>
           (let xs = (case xs of None \<Rightarrow> [] | Some xs \<Rightarrow> xs); ys = (case ys of None \<Rightarrow> [] | Some ys \<Rightarrow> ys)
            in if length xs \<noteq> length ys then Inr False
               else if length xs = 0 then Inr True
               else dyn_equals_loop (eq elementType) (td_size elementType) (length xs) 0 xs ys)
       | _ \<Rightarrow> Inl OutOfBounds)"

text \<open>Calling \<open>fns\<close>' equality with the descriptor \<open>td\<close>; \<open>None\<close> when the pointer is null.\<close>

definition equalsFn ::
    "(meTypeDescriptor \<Rightarrow> val \<Rightarrow> val \<Rightarrow> bool result) \<Rightarrow> td_fns \<Rightarrow> meTypeDescriptor \<Rightarrow> val \<Rightarrow> val \<Rightarrow>
     bool result option" where
  "equalsFn eq fns td a b =
     (case fns of
        Fn_none \<Rightarrow> None
      | Fn_generated \<Rightarrow> None
      | Fn_primitive p \<Rightarrow>
          Some (case (a, b) of (VPrim x, VPrim y) \<Rightarrow> Inr (primitive_equals p x y) | _ \<Rightarrow> Inl OutOfBounds)
      | Fn_DynArray \<Rightarrow> Some (DynArrayEqualsFn eq td a b)
      | Fn_meAsset \<Rightarrow> Some (meAssetEqualsFn a b)
      | _ \<Rightarrow> Some (case (buffer_of a, buffer_of b) of
                     (Some x, Some y) \<Rightarrow> Inr (sizedBufferEquals x y)
                   | _ \<Rightarrow> Inl OutOfBounds))"

fun meFieldsEqual :: "nat \<Rightarrow> meTypeDescriptor \<Rightarrow> val \<Rightarrow> val \<Rightarrow> bool result" where
  "meFieldsEqual 0 td a b = Inl NoReturn"
| "meFieldsEqual (Suc fuel) td a b =
     (if \<not> ShouldSerialize td then Inr True
      else case equalsFn (meFieldsEqual fuel) (td_fns td) td a b of
        Some r \<Rightarrow> r
      | None \<Rightarrow>
        (case td_thisType td of
           Some ty \<Rightarrow>
             if is_constant_array td then
               (case (a, b) of
                  (VFixed as, VFixed bs) \<Rightarrow>
                    if td_size ty = 0 then Inr (a = b) else all_elements (meFieldsEqual fuel ty) as bs
                | _ \<Rightarrow> Inl OutOfBounds)
             else (case equalsFn (meFieldsEqual fuel) (td_fns ty) td a b of
                     Some r \<Rightarrow> r
                   | None \<Rightarrow> meFieldsEqual fuel ty a b)
         | None \<Rightarrow>
             if td_fields td \<noteq> [] then
               (case (a, b) of
                  (VStruct as, VStruct bs) \<Rightarrow> all_members (meFieldsEqual fuel) (td_fields td) as bs
                | _ \<Rightarrow> Inl OutOfBounds)
             else Inr (a = b)))"

section \<open>Destruction\<close>

definition sizedBufferDestroy :: "nat option \<Rightarrow> val \<Rightarrow> val result" where
  "sizedBufferDestroy alloc v =
     (case v of
        VSpan (Some bs) \<Rightarrow> ME_ASSERT (alloc \<noteq> None) (Inr (VSpan None))
      | VSpan None \<Rightarrow> Inr v
      | _ \<Rightarrow> Inl OutOfBounds)"

definition stringDestroy :: "val \<Rightarrow> val result" where
  "stringDestroy v = (case v of VString s \<Rightarrow> Inr (VString String_empty) | _ \<Rightarrow> Inl OutOfBounds)"

text \<open>The two mutually recursive functions; \<open>fields_only\<close> is \<open>meTypeDescriptorDestroyFields\<close>.\<close>

fun Destroy ::
    "nat \<Rightarrow> bool \<Rightarrow> meTypeDescriptor \<Rightarrow> meTypeDescriptor option \<Rightarrow> nat option \<Rightarrow> val \<Rightarrow> val result" where
  "Destroy 0 fields_only td parent alloc v = Inl NoReturn"
| "Destroy (Suc fuel) fields_only td parent alloc v =
     (let generated = bindR (Destroy fuel True td parent alloc v) (\<lambda>v.
            Inr (case td_defaults td of Some d \<Rightarrow> d | None \<Rightarrow> v));
          by_fields = (case td_thisType td of
             Some ty \<Rightarrow>
               if is_constant_array td then
                 (case v of
                    VFixed vs \<Rightarrow> bindR (walk_elements (Destroy fuel False ty (Some td) alloc) vs) (\<lambda>vs. Inr (VFixed vs))
                  | _ \<Rightarrow> Inl OutOfBounds)
               else if td_fields td = [] then Destroy fuel False ty (Some td) alloc v
               else (case v of
                    VStruct vs \<Rightarrow> bindR (walk_members (\<lambda>f. Destroy fuel False f (Some td) alloc) (td_fields td) vs) (\<lambda>vs. Inr (VStruct vs))
                  | _ \<Rightarrow> Inr v)
           | None \<Rightarrow>
               (case v of
                  VStruct vs \<Rightarrow> bindR (walk_members (\<lambda>f. Destroy fuel False f (Some td) alloc) (td_fields td) vs) (\<lambda>vs. Inr (VStruct vs))
                | _ \<Rightarrow> Inr v))
      in if fields_only then by_fields
         else (case td_fns td of
             Fn_sizedBuffer \<Rightarrow> sizedBufferDestroy alloc v
           | Fn_string \<Rightarrow> stringDestroy v
           | Fn_DynArray \<Rightarrow>
               (case v of
                  VDyn None \<Rightarrow> Inr v
                | VDyn (Some vs) \<Rightarrow>
                    (let fieldDesc = (case parent of Some p \<Rightarrow> p | None \<Rightarrow> td)
                     in bindR (case td_templatedTypes fieldDesc of
                                 [e] \<Rightarrow> walk_elements (Destroy fuel False e (Some fieldDesc) alloc) vs
                               | _ \<Rightarrow> Inr vs)
                          (\<lambda>_. Inr (VDyn None)))
                | _ \<Rightarrow> Inl OutOfBounds)
           | Fn_generated \<Rightarrow> generated
           | Fn_meAsset \<Rightarrow> generated
           | _ \<Rightarrow> by_fields))"

section \<open>Deep copy\<close>

definition sizedBufferDeepCopy :: "nat option \<Rightarrow> val \<Rightarrow> val result" where
  "sizedBufferDeepCopy alloc src =
     (case src of
        VSpan None \<Rightarrow> Inr (VSpan None)
      | VSpan (Some bs) \<Rightarrow>
          if bs = [] then Inr (VSpan None) else require NullDeref (alloc \<noteq> None) (Inr (VSpan (Some bs)))
      | _ \<Rightarrow> Inl OutOfBounds)"

definition stringDeepCopy :: "nat option \<Rightarrow> val \<Rightarrow> val result" where
  "stringDeepCopy alloc src =
     (case src of
        VString s \<Rightarrow>
          if so_bytes s = [] then Inr (VString String_empty)
          else require NullDeref (alloc \<noteq> None) (Inr (VString (String_of (so_bytes s))))
      | _ \<Rightarrow> Inl OutOfBounds)"

fun DeepCopy :: "nat \<Rightarrow> meTypeDescriptor \<Rightarrow> meTypeDescriptor option \<Rightarrow> nat option \<Rightarrow> val \<Rightarrow> val result" where
  "DeepCopy 0 td parent alloc src = Inl NoReturn"
| "DeepCopy (Suc fuel) td parent alloc src =
     (case td_fns td of
        Fn_sizedBuffer \<Rightarrow> sizedBufferDeepCopy alloc src
      | Fn_string \<Rightarrow> stringDeepCopy alloc src
      | Fn_DynArray \<Rightarrow>
          (case src of
             VDyn None \<Rightarrow> Inr (VDyn None)
           | VDyn (Some vs) \<Rightarrow>
               (let fieldDesc = (case parent of Some p \<Rightarrow> p | None \<Rightarrow> td)
                in bindR (meTypeDescriptorGetSingleTemplateArg fieldDesc) (\<lambda>e.
                   require NullDeref (alloc \<noteq> None)
                     (bindR (walk_elements (DeepCopy fuel e (Some fieldDesc) alloc) vs) (\<lambda>vs. Inr (VDyn (Some vs))))))
           | _ \<Rightarrow> Inl OutOfBounds)
      | _ \<Rightarrow>
          (case td_thisType td of
             Some ty \<Rightarrow>
               if is_constant_array td then
                 (case src of
                    VFixed vs \<Rightarrow> bindR (walk_elements (DeepCopy fuel ty (Some td) alloc) vs) (\<lambda>vs. Inr (VFixed vs))
                  | _ \<Rightarrow> Inl OutOfBounds)
               else if td_fields td = [] then
                 ME_ASSERT (td_size td = td_size ty) (DeepCopy fuel ty (Some td) alloc src)
               else (case src of
                    VStruct vs \<Rightarrow> bindR (walk_members (\<lambda>f. DeepCopy fuel f (Some td) alloc) (td_fields td) vs) (\<lambda>vs. Inr (VStruct vs))
                  | _ \<Rightarrow> Inr src)
           | None \<Rightarrow>
               (case src of
                  VStruct vs \<Rightarrow> bindR (walk_members (\<lambda>f. DeepCopy fuel f (Some td) alloc) (td_fields td) vs) (\<lambda>vs. Inr (VStruct vs))
                | _ \<Rightarrow> Inr src)))"

end
