(* ===== verification/Serializer.thy ===== *)
theory Serializer
  imports Reflection
begin

text \<open>
  Serialisation by type descriptor (\<open>core/me_serialize.cpp\<close>): the walk that puts an object
  through a chunker. The state of a walk is
  the chunker, the list of asset dependencies being collected (\<open>None\<close> when there is none to
  collect into), and the dependencies recorded with the asset index while reading. The arguments
  \<open>fresh\<close> and \<open>alloc\<close> are the allocator's memory and the allocator; fuel is the nesting depth.
\<close>

record walk =
  wk_chunker :: chunker
  wk_deps :: "MAID list option"
  wk_recorded :: "MAID list"

definition on_chunker :: "(chunker \<Rightarrow> chunker result) \<Rightarrow> walk \<Rightarrow> walk result" where
  "on_chunker f w = bindR (f (wk_chunker w)) (\<lambda>c. Inr (w\<lparr>wk_chunker := c\<rparr>))"

definition on_chunker_with :: "(chunker \<Rightarrow> ('a \<times> chunker) result) \<Rightarrow> walk \<Rightarrow> ('a \<times> walk) result" where
  "on_chunker_with f w = bindR (f (wk_chunker w)) (\<lambda>(x, c). Inr (x, w\<lparr>wk_chunker := c\<rparr>))"

type_synonym chunk_result = "(bool \<times> val \<times> walk) result"

section \<open>Primitives, buffers and references\<close>

definition prim_kind :: "prim_td \<Rightarrow> PrimitiveKind" where
  "prim_kind p =
     (case p of
        TD_INT \<Rightarrow> KS32 | TD_UNSIGNED_INT \<Rightarrow> KU32 | TD_LONG_LONG \<Rightarrow> KS64 | TD_UNSIGNED_LONG_LONG \<Rightarrow> KU64
      | TD_LONG \<Rightarrow> KLong | TD_UNSIGNED_LONG \<Rightarrow> KULong | TD_SHORT \<Rightarrow> KS16 | TD_UNSIGNED_SHORT \<Rightarrow> KU16
      | TD_CHAR \<Rightarrow> KS8 | TD_UNSIGNED_CHAR \<Rightarrow> KU8 | TD_WCHAR_T \<Rightarrow> KWChar | TD_FLOAT \<Rightarrow> KF32
      | TD_DOUBLE \<Rightarrow> KF64 | TD_BOOL \<Rightarrow> KBool | TD_VEC3 \<Rightarrow> KF32 | TD_QUAT \<Rightarrow> KF32)"

text \<open>The bytes of memory a primitive has; \<open>long\<close> and \<open>wchar_t\<close> as the Windows compilers have them.\<close>

definition prim_size :: "prim_td \<Rightarrow> nat" where
  "prim_size p =
     (case p of
        TD_INT \<Rightarrow> 4 | TD_UNSIGNED_INT \<Rightarrow> 4 | TD_LONG_LONG \<Rightarrow> 8 | TD_UNSIGNED_LONG_LONG \<Rightarrow> 8
      | TD_LONG \<Rightarrow> 4 | TD_UNSIGNED_LONG \<Rightarrow> 4 | TD_SHORT \<Rightarrow> 2 | TD_UNSIGNED_SHORT \<Rightarrow> 2
      | TD_CHAR \<Rightarrow> 1 | TD_UNSIGNED_CHAR \<Rightarrow> 1 | TD_WCHAR_T \<Rightarrow> 2 | TD_FLOAT \<Rightarrow> 4
      | TD_DOUBLE \<Rightarrow> 8 | TD_BOOL \<Rightarrow> 1 | TD_VEC3 \<Rightarrow> 12 | TD_QUAT \<Rightarrow> 16)"

fun float_loop :: "chunker \<Rightarrow> nat \<Rightarrow> u8 list \<Rightarrow> nat \<Rightarrow> (bool \<times> u8 list \<times> chunker) result" where
  "float_loop c i bs 0 = Inr (True, bs, c)"
| "float_loop c i bs (Suc left) =
     bindR (Element c i) (\<lambda>(ok, c).
       if \<not> ok then Inr (False, bs, c)
       else bindR (DoPrimitive c (take 4 bs) KF32) (\<lambda>(x, c).
            bindR (EndElement c) (\<lambda>c.
            bindR (float_loop c (Suc i) (drop 4 bs) left) (\<lambda>(ok, rest, c). Inr (ok, x @ rest, c)))))"

definition ChunkFloatArray :: "chunker \<Rightarrow> u8 list \<Rightarrow> nat \<Rightarrow> (bool \<times> u8 list \<times> chunker) result" where
  "ChunkFloatArray c values count =
     bindR (BeginFixedArray c count) (\<lambda>(ok, arrayCount, c).
       if \<not> ok then Inr (False, values, c)
       else bindR (if arrayCount \<noteq> count then Inr (False, values, c) else float_loop c 0 values count) (\<lambda>(ok, values, c).
            bindR (EndArray c) (\<lambda>c. Inr (ok, values, c))))"

definition ChunkPrimitiveWithTypeDescriptor ::
    "prim_td \<Rightarrow> chunker \<Rightarrow> u8 list \<Rightarrow> (bool \<times> u8 list \<times> chunker) result" where
  "ChunkPrimitiveWithTypeDescriptor p c data =
     (if p = TD_VEC3 then ChunkFloatArray c data 3
      else if p = TD_QUAT then ChunkFloatArray c data 4
      else bindR (DoPrimitive c data (prim_kind p)) (\<lambda>(data, c). Inr (True, data, c)))"

definition chunk_primitive :: "prim_td \<Rightarrow> walk \<Rightarrow> val \<Rightarrow> chunk_result" where
  "chunk_primitive p w v =
     (case v of
        VPrim data \<Rightarrow>
          bindR (ChunkPrimitiveWithTypeDescriptor p (wk_chunker w) data) (\<lambda>(ok, data, c).
            Inr (ok, VPrim data, w\<lparr>wk_chunker := c\<rparr>))
      | _ \<Rightarrow> Inl OutOfBounds)"

definition sizedBufferSerializer :: "(nat \<Rightarrow> u8 list) \<Rightarrow> walk \<Rightarrow> val \<Rightarrow> chunk_result" where
  "sizedBufferSerializer fresh w v =
     (case v of
        VSpan span \<Rightarrow>
          bindR (on_chunker_with (\<lambda>c. DoBytes fresh c span None) w) (\<lambda>(span, w). Inr (True, VSpan span, w))
      | _ \<Rightarrow> Inl OutOfBounds)"

definition sizedBufferDeserializer :: "(nat \<Rightarrow> u8 list) \<Rightarrow> nat option \<Rightarrow> walk \<Rightarrow> val \<Rightarrow> chunk_result" where
  "sizedBufferDeserializer fresh alloc w v =
     (case v of
        VSpan span \<Rightarrow>
          bindR (if IsReadMode (wk_chunker w) \<and> span \<noteq> None then ME_ASSERT (alloc \<noteq> None) (Inr None) else Inr span) (\<lambda>span.
          bindR (on_chunker_with (\<lambda>c. DoBytes fresh c span alloc) w) (\<lambda>(span, w). Inr (True, VSpan span, w)))
      | _ \<Rightarrow> Inl OutOfBounds)"

definition stringSerializer :: "(nat \<Rightarrow> u8 list) \<Rightarrow> walk \<Rightarrow> val \<Rightarrow> chunk_result" where
  "stringSerializer fresh w v =
     (case v of
        VString str \<Rightarrow>
          bindR (on_chunker_with (\<lambda>c. DoString fresh c str None) w) (\<lambda>(str, w). Inr (True, VString str, w))
      | _ \<Rightarrow> Inl OutOfBounds)"

text \<open>Without an allocator a string is read with the default one, here number 0.\<close>

definition stringDeserializer :: "(nat \<Rightarrow> u8 list) \<Rightarrow> nat option \<Rightarrow> walk \<Rightarrow> val \<Rightarrow> chunk_result" where
  "stringDeserializer fresh alloc w v =
     (case v of
        VString str \<Rightarrow>
          bindR (on_chunker_with (\<lambda>c. DoString fresh c str (Some (case alloc of Some a \<Rightarrow> a | None \<Rightarrow> 0))) w)
            (\<lambda>(str, w). Inr (True, VString str, w))
      | _ \<Rightarrow> Inl OutOfBounds)"

text \<open>The descriptor the reflector generates for \<open>MAID\<close>, and an id as an object of that type.\<close>

definition prim_desc :: "prim_td \<Rightarrow> meTypeDescriptor" where
  "prim_desc p =
     TypeDesc [] [] 0 0 (prim_size p) None [] (Fn_primitive p) None (VPrim (replicate (prim_size p) 0))"

definition field_desc :: "u8 list \<Rightarrow> meTypeDescriptor \<Rightarrow> meTypeDescriptor" where
  "field_desc name ty = TypeDesc name [] 0 0 (td_size ty) (Some ty) [] Fn_none None (td_zeroed ty)"

definition MAID_val :: "MAID \<Rightarrow> val" where
  "MAID_val m = VStruct [VPrim (le_encode 4 (unat (maid_id m))), VPrim (le_encode 4 (unat (maid_type m)))]"

definition val_MAID :: "val \<Rightarrow> MAID result" where
  "val_MAID v =
     (case v of
        VStruct [VPrim i, VPrim t] \<Rightarrow>
          Inr \<lparr>maid_id = of_nat (le_decode i), maid_type = of_nat (le_decode t)\<rparr>
      | _ \<Rightarrow> Inl OutOfBounds)"

definition TD_MAID :: meTypeDescriptor where
  "TD_MAID =
     TypeDesc [77, 65, 73, 68]
       [field_desc [105, 100] (prim_desc TD_UNSIGNED_INT), field_desc [116, 121, 112, 101] (prim_desc TD_UNSIGNED_INT)]
       0 0 8 None [] Fn_generated (Some (MAID_val MAID_INVALID))
       (VStruct [VPrim [0, 0, 0, 0], VPrim [0, 0, 0, 0]])"

definition AddAssetDependency :: "MAID list option \<Rightarrow> MAID \<Rightarrow> MAID list option" where
  "AddAssetDependency dependencies maid =
     (case dependencies of
        None \<Rightarrow> None
      | Some ds \<Rightarrow>
          if \<not> MAID_bool maid then Some ds
          else if list_ex (\<lambda>d. MAID_eq d maid) ds then Some ds
          else Some (ds @ [maid]))"

section \<open>The walk\<close>

fun SetToDefaultsWithTypeDescriptor :: "nat \<Rightarrow> meTypeDescriptor \<Rightarrow> val \<Rightarrow> val result" where
  "SetToDefaultsWithTypeDescriptor 0 td v = Inl NoReturn"
| "SetToDefaultsWithTypeDescriptor (Suc fuel) td v =
     (case td_defaults td of
        Some d \<Rightarrow> Inr d
      | None \<Rightarrow>
        (case td_thisType td of
           None \<Rightarrow> Inr v
         | Some ty \<Rightarrow>
             if is_constant_array td then
               (case v of
                  VFixed vs \<Rightarrow>
                    bindR (walk_elements (SetToDefaultsWithTypeDescriptor fuel ty) vs) (\<lambda>vs. Inr (VFixed vs))
                | _ \<Rightarrow> Inl OutOfBounds)
             else Inr (case td_defaults ty of Some d \<Rightarrow> d | None \<Rightarrow> v)))"

definition ResetFieldBeforeDeserialize ::
    "nat \<Rightarrow> nat option \<Rightarrow> meTypeDescriptor \<Rightarrow> meTypeDescriptor \<Rightarrow> val \<Rightarrow> val result" where
  "ResetFieldBeforeDeserialize fuel alloc parentType field v =
     bindR (Destroy fuel False field (Some parentType) alloc v) (\<lambda>v.
       SetToDefaultsWithTypeDescriptor fuel field v)"

text \<open>The elements of an array from number \<open>i\<close> on; \<open>EndElement\<close> runs when a scope is left.\<close>

fun chunk_elements :: "(walk \<Rightarrow> val \<Rightarrow> chunk_result) \<Rightarrow> nat \<Rightarrow> walk \<Rightarrow> val list \<Rightarrow> (bool \<times> val list \<times> walk) result" where
  "chunk_elements f i w [] = Inr (True, [], w)"
| "chunk_elements f i w (v # vs) =
     bindR (on_chunker_with (\<lambda>c. Element c i) w) (\<lambda>(ok, w).
       if \<not> ok then Inr (False, v # vs, w)
       else bindR (f w v) (\<lambda>(ok, v, w).
            bindR (on_chunker EndElement w) (\<lambda>w.
              if \<not> ok then Inr (False, v # vs, w)
              else bindR (chunk_elements f (Suc i) w vs) (\<lambda>(ok, vs, w). Inr (ok, v # vs, w)))))"

text \<open>
  The members of a struct. A member whose field is not there is passed over; \<open>reset\<close> is
  \<open>ResetFieldBeforeDeserialize\<close> where it is asked for.
\<close>

fun chunk_members ::
    "(meTypeDescriptor \<Rightarrow> walk \<Rightarrow> val \<Rightarrow> chunk_result) \<Rightarrow> (meTypeDescriptor \<Rightarrow> val \<Rightarrow> val result) option \<Rightarrow>
     walk \<Rightarrow> meTypeDescriptor list \<Rightarrow> val list \<Rightarrow> (bool \<times> val list \<times> walk) result" where
  "chunk_members f reset w [] vs = Inr (True, vs, w)"
| "chunk_members f reset w (field # fds) [] = Inl OutOfBounds"
| "chunk_members f reset w (field # fds) (v # vs) =
     (if \<not> visited field then
        bindR (chunk_members f reset w fds vs) (\<lambda>(ok, vs, w). Inr (ok, v # vs, w))
      else
        bindR (on_chunker_with (\<lambda>c. Field c (td_name field)) w) (\<lambda>(present, w).
          if \<not> present then bindR (chunk_members f reset w fds vs) (\<lambda>(ok, vs, w). Inr (ok, v # vs, w))
          else
            bindR (case reset of
                     Some r \<Rightarrow> if IsReadMode (wk_chunker w) then r field v else Inr v
                   | None \<Rightarrow> Inr v) (\<lambda>v.
            bindR (f field w v) (\<lambda>(ok, v, w).
            bindR (on_chunker EndField w) (\<lambda>w.
              if \<not> ok then Inr (False, v # vs, w)
              else bindR (chunk_members f reset w fds vs) (\<lambda>(ok, vs, w). Inr (ok, v # vs, w)))))))"

text \<open>
  \<open>ChunkDynArray\<close>; \<open>f\<close> is the walk of one element, given its type. The memory of a new array is
  zero, and an element that is about to be read is first set to the defaults of its type.
\<close>

definition element_default :: "meTypeDescriptor \<Rightarrow> walk \<Rightarrow> val \<Rightarrow> val" where
  "element_default elemType w v =
     (if IsReadMode (wk_chunker w) then (case td_defaults elemType of Some d \<Rightarrow> d | None \<Rightarrow> v) else v)"

definition ChunkDynArray ::
    "(meTypeDescriptor \<Rightarrow> walk \<Rightarrow> val \<Rightarrow> chunk_result) \<Rightarrow> nat option \<Rightarrow> meTypeDescriptor \<Rightarrow> walk \<Rightarrow> val \<Rightarrow> chunk_result" where
  "ChunkDynArray f alloc fieldDesc w v =
     bindR (meTypeDescriptorGetSingleTemplateArg fieldDesc) (\<lambda>elemType.
       case v of
         VDyn arr \<Rightarrow>
           (let elems = (case arr of None \<Rightarrow> [] | Some vs \<Rightarrow> vs)
            in bindR (BeginArray (wk_chunker w) (length elems)) (\<lambda>(ok, count, c).
               let w = w\<lparr>wk_chunker := c\<rparr>
               in if \<not> ok then Inr (False, v, w)
                  else bindR (if IsReadMode c
                              then ME_ASSERT (alloc \<noteq> None)
                                     (Inr (Some (replicate count (td_zeroed elemType))))
                              else Inr arr) (\<lambda>arr.
                       let elems = (case arr of None \<Rightarrow> [] | Some vs \<Rightarrow> vs)
                       in require OutOfBounds (count \<le> length elems)
                            (bindR (chunk_elements (\<lambda>w v. f elemType w (element_default elemType w v)) 0 w (take count elems)) (\<lambda>(ok, vs, w).
                             bindR (on_chunker EndArray w) (\<lambda>w.
                               Inr (ok, VDyn (if arr = None then None else Some (vs @ drop count elems)), w)))))))
       | _ \<Rightarrow> Inl OutOfBounds)"

definition meAssetSerializerFn :: "(meTypeDescriptor \<Rightarrow> walk \<Rightarrow> val \<Rightarrow> chunk_result) \<Rightarrow> walk \<Rightarrow> val \<Rightarrow> chunk_result" where
  "meAssetSerializerFn f w v =
     (case v of
        VAsset assetId eye stage \<Rightarrow>
          bindR (f TD_MAID (w\<lparr>wk_deps := AddAssetDependency (wk_deps w) assetId\<rparr>) (MAID_val assetId))
            (\<lambda>(ok, _, w'). Inr (ok, v, w'))
      | _ \<Rightarrow> Inl OutOfBounds)"

definition meAssetDeserializerFn ::
    "(meTypeDescriptor \<Rightarrow> walk \<Rightarrow> val \<Rightarrow> chunk_result) \<Rightarrow> bool \<Rightarrow> walk \<Rightarrow> val \<Rightarrow> chunk_result" where
  "meAssetDeserializerFn f hasResult w v =
     (case v of
        VAsset _ _ _ \<Rightarrow>
          bindR (f TD_MAID w (MAID_val MAID_INVALID)) (\<lambda>(ok, m, w).
            if \<not> ok then Inr (False, VAsset MAID_INVALID EYE_INVALID Unloaded, w)
            else bindR (val_MAID m) (\<lambda>templateMaid.
              Inr (True, VAsset templateMaid EYE_INVALID Unloaded,
                   if hasResult then w\<lparr>wk_recorded := wk_recorded w @ [templateMaid]\<rparr> else w)))
      | _ \<Rightarrow> Inl OutOfBounds)"

fun ChunkWithTypeDescriptor ::
    "(nat \<Rightarrow> u8 list) \<Rightarrow> nat option \<Rightarrow> nat \<Rightarrow> meTypeDescriptor \<Rightarrow> meTypeDescriptor option \<Rightarrow> bool \<Rightarrow> bool \<Rightarrow>
     walk \<Rightarrow> val \<Rightarrow> chunk_result" where
  "ChunkWithTypeDescriptor fresh alloc 0 td parent hasResult reset w v = Inl NoReturn"
| "ChunkWithTypeDescriptor fresh alloc (Suc fuel) td parent hasResult reset w v =
     (if \<not> ShouldSerialize td then Inr (True, v, w)
      else
        (let reading = IsReadMode (wk_chunker w);
             fieldDesc = (case parent of Some p \<Rightarrow> p | None \<Rightarrow> td)
         in case td_fns td of
           Fn_primitive p \<Rightarrow> chunk_primitive p w v
         | Fn_sizedBuffer \<Rightarrow>
             if reading then sizedBufferDeserializer fresh alloc w v else sizedBufferSerializer fresh w v
         | Fn_disallowed \<Rightarrow> Inl AssertFailed
         | Fn_string \<Rightarrow>
             if reading then stringDeserializer fresh alloc w v else stringSerializer fresh w v
         | Fn_DynArray \<Rightarrow>
             ChunkDynArray (\<lambda>e. ChunkWithTypeDescriptor fresh alloc fuel e (Some fieldDesc) (hasResult \<and> reading) False)
               alloc fieldDesc w v
         | Fn_meAsset \<Rightarrow>
             if reading
             then meAssetDeserializerFn (\<lambda>t. ChunkWithTypeDescriptor fresh alloc fuel t None hasResult False) hasResult w v
             else bindR (meAssetSerializerFn
                    (\<lambda>t. ChunkWithTypeDescriptor fresh alloc fuel t None False False) w v)
                    (\<lambda>(ok, v, w'). Inr (ok, v, w'))
         | _ \<Rightarrow>
             if is_constant_array td then
               bindR (deref (td_thisType td)) (\<lambda>ty.
                 let fixedCount = (if td_size ty \<noteq> 0 then td_size td div td_size ty else 0)
                 in case v of
                    VFixed vs \<Rightarrow>
                      bindR (BeginFixedArray (wk_chunker w) fixedCount) (\<lambda>(ok, count, c).
                        let w = w\<lparr>wk_chunker := c\<rparr>
                        in if \<not> ok then Inr (False, v, w)
                           else if count \<noteq> fixedCount then
                             bindR (on_chunker EndArray w) (\<lambda>w. Inr (False, v, w))
                           else require OutOfBounds (fixedCount \<le> length vs)
                             (bindR (chunk_elements
                                 (ChunkWithTypeDescriptor fresh alloc fuel ty (Some td) hasResult reset)
                                 0 w (take fixedCount vs)) (\<lambda>(ok, vs', w).
                              bindR (on_chunker EndArray w) (\<lambda>w.
                                Inr (ok, VFixed (vs' @ drop fixedCount vs), w)))))
                  | _ \<Rightarrow> Inl OutOfBounds)
             else if td_thisType td \<noteq> None \<and> td_fields td = [] then
               bindR (deref (td_thisType td)) (\<lambda>ty.
                 ChunkWithTypeDescriptor fresh alloc fuel ty (Some td) hasResult reset w v)
             else if td_fields td \<noteq> [] then
               (case v of
                  VStruct vs \<Rightarrow>
                    bindR (on_chunker_with BeginObject w) (\<lambda>(ok, w).
                      if \<not> ok then Inr (False, v, w)
                      else bindR (chunk_members
                          (\<lambda>f. ChunkWithTypeDescriptor fresh alloc fuel f (Some td) hasResult False)
                          (if reset then Some (ResetFieldBeforeDeserialize fuel alloc td) else None)
                          w (td_fields td) vs) (\<lambda>(ok, vs, w).
                        bindR (on_chunker EndObject w) (\<lambda>w. Inr (ok, VStruct vs, w))))
                | _ \<Rightarrow> Inl OutOfBounds)
             else Inl AssertFailed))"

end
