(* ===== verification/BinaryWalks.thy ===== *)
theory BinaryWalks
  imports Serializer
begin

text \<open>
  The wire format of binary serialisation and its correctness. \<open>encode_val\<close> is the format as a
  function from values to bytes, \<open>restored\<close> what reading those bytes over an old value gives. One
  predicate, \<open>codes\<close>, says of an operation that it measures, writes, reads and verifies one piece
  of data according to them; it is proved of the chunker's operations, is kept by sequencing, and
  the walk by type descriptor inherits it by induction on the nesting depth.
\<close>

section \<open>One piece of binary data\<close>

text \<open>
  A chunker is \<open>ready\<close> for the bytes \<open>e\<close> when it measures, or has room for them and, where it
  reads or verifies, has them at the cursor. Going over them leaves it \<open>moved\<close>.
\<close>

definition ready :: "u8 list \<Rightarrow> chunker \<Rightarrow> bool" where
  "ready e c \<longleftrightarrow>
     ck_mode c = meSerializationMode_Binary \<and>
     (ck_pass c \<noteq> PMeasure \<longrightarrow> bin_cursor c + length e \<le> length (bin_buf c)) \<and>
     (ck_pass c = PRead \<or> ck_pass c = PVerify \<longrightarrow> take (length e) (drop (bin_cursor c) (bin_buf c)) = e)"

definition moved :: "u8 list \<Rightarrow> chunker \<Rightarrow> chunker" where
  "moved e c =
     c\<lparr>bin_cursor := bin_cursor c + length e,
       bin_buf := (if ck_pass c = PWrite
                   then take (bin_cursor c) (bin_buf c) @ e @ drop (bin_cursor c + length e) (bin_buf c)
                   else bin_buf c)\<rparr>"

lemma moved_simps [simp]:
  "ck_mode (moved e c) = ck_mode c"
  "ck_pass (moved e c) = ck_pass c"
  "bin_cursor (moved e c) = bin_cursor c + length e"
  "moved [] c = c"
  by (simp_all add: moved_def)

lemma IsReadMode_moved [simp]: "IsReadMode (moved e c) = IsReadMode c"
  by (simp add: IsReadMode_def)

lemma ready_binary: "ready e c \<Longrightarrow> ck_mode c = meSerializationMode_Binary"
  by (simp add: ready_def)

lemma ready_append:
  assumes "ready (e1 @ e2) c"
  shows "ready e1 c" and "ready e2 (moved e1 c)"
proof -
  let ?d = "drop (bin_cursor c) (bin_buf c)"
  have *: "take (length e1) ?d = e1 \<and> take (length e2) (drop (length e1) ?d) = e2"
    if "take (length e1 + length e2) ?d = e1 @ e2"
  proof -
    from that have "take (length e1) (take (length e1 + length e2) ?d) = e1"
      and "drop (length e1) (take (length e1 + length e2) ?d) = e2" by simp_all
    then show ?thesis by (simp add: drop_take)
  qed
  from assms * show "ready e1 c" by (auto simp: ready_def)
  from assms * show "ready e2 (moved e1 c)"
    by (auto simp: ready_def moved_def add.commute)
qed

lemma moved_moved:
  assumes "ready (e1 @ e2) c"
  shows "moved e2 (moved e1 c) = moved (e1 @ e2) c"
proof (cases "ck_pass c = PWrite")
  case True
  with assms have "length (take (bin_cursor c) (bin_buf c)) = bin_cursor c"
    by (simp add: ready_def)
  with True show ?thesis
    by (simp add: moved_def add.left_commute add.commute)
qed (simp add: moved_def)

lemma DoBinaryVoid_ready:
  assumes "ready e c" and "length data = length e" and "\<not> IsReadMode c \<Longrightarrow> data = e"
  shows "DoBinaryVoid c data = Inr (e, moved e c)"
proof -
  have "moved e c = c\<lparr>bin_cursor := bin_cursor c + length e\<rparr>" if "ck_pass c \<noteq> PWrite"
    using that by (simp add: moved_def)
  with assms show ?thesis
    by (cases "ck_pass c")
       (auto simp: DoBinaryVoid_def ready_def moved_def IsMeasureMode_def IsReadMode_def Let_def)
qed

lemma DoPrimitive_ready:
  assumes "ready e c" and "length data = length e" and "\<not> IsReadMode c \<Longrightarrow> data = e"
  shows "DoPrimitive c data kind = Inr (e, moved e c)"
  using DoBinaryVoid_ready[OF assms] ready_binary[OF assms(1)] by (simp add: DoPrimitive_def)

lemma Do_u32_ready:
  assumes "ready (le_encode 4 x) c" and "x < 4294967296" and "\<not> IsReadMode c \<Longrightarrow> y = x"
  shows "Do_u32 c y = Inr (x, moved (le_encode 4 x) c)"
proof -
  have "DoPrimitive c (le_encode 4 y) KU32 = Inr (le_encode 4 x, moved (le_encode 4 x) c)"
    using assms by (intro DoPrimitive_ready) auto
  then show ?thesis using assms(2) by (simp add: Do_u32_def le_decode_encode)
qed

lemma DoArray_ready:
  assumes "ready e c" and "length e \<le> length mem" and "length e < 4294967296"
    and "\<not> IsReadMode c \<Longrightarrow> take (length e) mem = e"
  shows "DoArray c mem (length e) 1 = Inr (e @ drop (length e) mem, moved e c)"
  using DoBinaryVoid_ready[of e c "take (length e) mem"] assms ready_binary[OF assms(1)]
  by (simp add: DoArray_def)

text \<open>Memory from the allocator has the length asked for.\<close>

definition allocates :: "(nat \<Rightarrow> u8 list) \<Rightarrow> bool" where
  "allocates fresh \<longleftrightarrow> (\<forall>n. length (fresh n) = n)"

definition span_wire :: "u8 list \<Rightarrow> u8 list" where
  "span_wire bs = le_encode 4 (length bs) @ bs"

lemma DoBytes_ready:
  assumes "ready (span_wire bs) c" and "length bs < 4294967296" and "allocates fresh"
    and "\<not> IsReadMode c \<Longrightarrow> span_bytes span = bs" and "IsReadMode c \<Longrightarrow> alloc \<noteq> None"
  shows "DoBytes fresh c span alloc =
           Inr (if IsReadMode c then Some bs else span, moved (span_wire bs) c)"
proof -
  note r = ready_append[OF assms(1)[unfolded span_wire_def]]
  let ?c = "moved (le_encode 4 (length bs)) c"
  have 1: "IsReadMode c \<or> length (span_bytes span) = length bs" using assms(4) by auto
  have n: "Do_u32 c (wrap32 (length (span_bytes span))) = Inr (length bs, ?c)"
    using r(1) assms(2,4) by (intro Do_u32_ready) auto
  have d: "DoBinaryVoid ?c (take (length bs) (span_bytes s)) = Inr (bs, moved (span_wire bs) c)"
    if "s = (if IsReadMode c then Some (fresh (length bs)) else span)" for s
    using DoBinaryVoid_ready[OF r(2), of "take (length bs) (span_bytes s)"]
      moved_moved[OF assms(1)[unfolded span_wire_def]] that assms(3,4)
    by (auto simp: span_wire_def allocates_def span_bytes_def)
  have k: "map_option (\<lambda>old. bs @ drop (length bs) old) span = span" if "span_bytes span = bs"
    using that by (auto simp: span_bytes_def split: option.splits)
  show ?thesis
  proof (cases "IsReadMode c")
    case True
    then obtain a where "alloc = Some a" using assms(5) by auto
    moreover have "span_bytes (Some (fresh (length bs))) = fresh (length bs)"
      by (simp add: span_bytes_def)
    moreover have "length (fresh (length bs)) = length bs"
      using assms(3) by (simp add: allocates_def)
    ultimately show ?thesis
      using True n d[of "Some (fresh (length bs))"] ready_binary[OF assms(1)]
      by (simp add: DoBytes_def)
  next
    case False
    with n d[of span] k assms(4) ready_binary[OF assms(1)] show ?thesis
      by (simp add: DoBytes_def)
  qed
qed

definition string_wire :: "u8 list \<Rightarrow> u8 list" where
  "string_wire bs = le_encode 4 (length bs) @ bs"

definition string_wf :: "String_obj \<Rightarrow> bool" where
  "string_wf s \<longleftrightarrow> so_len s < 4294967295 \<and> so_len s \<le> length (span_bytes (so_data s))"

lemma length_so_bytes: "string_wf s \<Longrightarrow> length (so_bytes s) = so_len s"
  by (simp add: string_wf_def so_bytes_def)

lemma DoString_ready:
  assumes r: "ready (string_wire (so_bytes s)) c" and wf: "string_wf s" and fresh: "allocates fresh"
    and old: "\<not> IsReadMode c \<Longrightarrow> str = s" and alloc: "IsReadMode c \<Longrightarrow> alloc \<noteq> None"
  shows "DoString fresh c str alloc =
           Inr (if IsReadMode c then String_of (so_bytes s) else s, moved (string_wire (so_bytes s)) c)"
proof -
  let ?bs = "so_bytes s"
  have len: "so_len s = length ?bs" using wf by (simp add: length_so_bytes)
  have small: "length ?bs + 1 < 4294967296" using wf len by (simp add: string_wf_def)
  have bin: "ck_mode c = meSerializationMode_Binary" using r by (rule ready_binary)
  note r' = ready_append[OF r[unfolded string_wire_def]]
  let ?c = "moved (le_encode 4 (length ?bs)) c"
  have n: "Do_u32 c (wrap32 (so_len str)) = Inr (length ?bs, ?c)"
    using r'(1) small old len by (intro Do_u32_ready) auto
  have mv: "moved ?bs ?c = moved (string_wire ?bs) c"
    unfolding string_wire_def by (rule moved_moved[OF r[unfolded string_wire_def]])
  show ?thesis
  proof (cases "IsReadMode c")
    case True
    have "DoArray ?c (fresh (length ?bs + 1)) (length ?bs) 1 =
            Inr (?bs @ drop (length ?bs) (fresh (length ?bs + 1)), moved (string_wire ?bs) c)"
      using DoArray_ready[OF r'(2), of "fresh (length ?bs + 1)"] fresh small True
      by (simp add: allocates_def mv)
    moreover have "writeAt (length ?bs) 0 (?bs @ drop (length ?bs) (fresh (length ?bs + 1))) =
        Inr (?bs @ [0])"
      using fresh by (cases "drop (length ?bs) (fresh (length ?bs + 1))")
        (auto simp: allocates_def list_update_append dest: arg_cong[where f = length])
    moreover have "?c = moved (string_wire ?bs) c" if "?bs = []" using that mv by simp
    ultimately show ?thesis
      using n True alloc small bin by (auto simp: DoString_def String_of_def Let_def)
  next
    case False
    let ?mem = "span_bytes (so_data s)"
    have le: "length ?bs \<le> length ?mem" using wf by (simp add: string_wf_def so_bytes_def)
    have tk: "take (length ?bs) ?mem = ?bs" using wf by (simp add: string_wf_def so_bytes_def)
    then have "?bs @ drop (length ?bs) ?mem = ?mem" by (metis append_take_drop_id)
    with DoArray_ready[OF r'(2), of ?mem] le tk small
    have "DoArray ?c ?mem (length ?bs) 1 = Inr (?mem, moved (string_wire ?bs) c)"
      by (simp add: mv)
    moreover have "?c = moved (string_wire ?bs) c" if "?bs = []" using that mv by simp
    moreover have "so_data s = Some ?mem" if "?bs \<noteq> []"
      using that by (cases "so_data s") (simp_all add: so_bytes_def span_bytes_def)
    then have "s\<lparr>so_data := Some ?mem\<rparr> = s" if "?bs \<noteq> []"
      using that by simp
    ultimately show ?thesis
      using n False old bin by (cases "?bs = []") (simp_all add: DoString_def)
  qed
qed

section \<open>Walks over data\<close>

abbreviation reading :: "walk \<Rightarrow> bool" where
  "reading w \<equiv> IsReadMode (wk_chunker w)"

text \<open>
  What a walk over the bytes \<open>e\<close> that contain the asset references \<open>ids\<close> leaves: a save collects
  the references, a load records them where \<open>h\<close> asks for it.
\<close>

definition add_deps :: "MAID list \<Rightarrow> MAID list option \<Rightarrow> MAID list option" where
  "add_deps ids deps = fold (\<lambda>m d. AddAssetDependency d m) ids deps"

definition walked :: "bool \<Rightarrow> u8 list \<Rightarrow> MAID list \<Rightarrow> walk \<Rightarrow> walk" where
  "walked h e ids w =
     w\<lparr>wk_chunker := moved e (wk_chunker w),
       wk_deps := (if reading w then wk_deps w else add_deps ids (wk_deps w)),
       wk_recorded := (if reading w \<and> h then wk_recorded w @ ids else wk_recorded w)\<rparr>"

definition codes :: "bool \<Rightarrow> (walk \<Rightarrow> val \<Rightarrow> chunk_result) \<Rightarrow> val \<Rightarrow> val \<Rightarrow> u8 list \<Rightarrow> MAID list \<Rightarrow> val \<Rightarrow> bool" where
  "codes h f u v e ids v' \<longleftrightarrow>
     (\<forall>w. ready e (wk_chunker w) \<longrightarrow>
        f w (if reading w then u else v) = Inr (True, if reading w then v' else v, walked h e ids w))"

lemma codesD:
  assumes "codes h f u v e ids v'" and "ready e (wk_chunker w)"
  shows "reading w \<Longrightarrow> f w u = Inr (True, v', walked h e ids w)"
    and "\<not> reading w \<Longrightarrow> f w v = Inr (True, v, walked h e ids w)"
  using assms unfolding codes_def by (metis (full_types))+

lemma walked_simps [simp]:
  "wk_chunker (walked h e ids w) = moved e (wk_chunker w)"
  "walked h [] [] w = w"
  by (simp_all add: walked_def add_deps_def)

lemma walked_walked:
  "ready (e1 @ e2) (wk_chunker w) \<Longrightarrow> walked h e2 ids2 (walked h e1 ids1 w) = walked h (e1 @ e2) (ids1 @ ids2) w"
  by (simp add: walked_def moved_moved add_deps_def)

lemma walked_no_refs: "walked h e [] w = w\<lparr>wk_chunker := moved e (wk_chunker w)\<rparr>"
  by (simp add: walked_def add_deps_def)

text \<open>In binary the marks around fields and elements are nothing.\<close>

lemma binary_marks:
  assumes "ck_mode (wk_chunker w) = meSerializationMode_Binary"
  shows "on_chunker_with (\<lambda>c. Element c i) w = Inr (True, w)"
    and "on_chunker EndElement w = Inr w"
    and "on_chunker_with (\<lambda>c. Field c name) w = Inr (True, w)"
    and "on_chunker EndField w = Inr w"
    and "on_chunker_with BeginObject w = Inr (True, w)"
    and "on_chunker EndObject w = Inr w"
    and "on_chunker EndArray w = Inr w"
  using assms
  by (simp_all add: on_chunker_def on_chunker_with_def Element_def EndElement_def Field_def
      EndField_def BeginObject_def EndObject_def EndArray_def)

lemma chunk_elements_codes:
  assumes "length us = length vs"
    and "\<And>u v. (u, v) \<in> set (zip us vs) \<Longrightarrow> codes h f u v (enc v) (ref v) (res u v)"
    and "ready (concat (map enc vs)) (wk_chunker w)"
  shows "chunk_elements f i w (if reading w then us else vs) =
           Inr (True, if reading w then map2 res us vs else vs,
                walked h (concat (map enc vs)) (concat (map ref vs)) w)"
  using assms
proof (induction us vs arbitrary: i w rule: list_induct2)
  case Nil
  then show ?case by simp
next
  case (Cons u us v vs)
  let ?rest = "concat (map enc vs)"
  have r: "ready (enc v @ ?rest) (wk_chunker w)" using Cons.prems(2) by simp
  note r' = ready_append[OF r]
  let ?w = "walked h (enc v) (ref v) w"
  have one: "codes h f u v (enc v) (ref v) (res u v)" using Cons.prems(1) by simp
  have bin: "ck_mode (wk_chunker w) = meSerializationMode_Binary" "ck_mode (wk_chunker ?w) = meSerializationMode_Binary"
    using ready_binary[OF r] by simp_all
  have rest: "chunk_elements f (Suc i) ?w (if reading w then us else vs) =
      Inr (True, if reading w then map2 res us vs else vs,
           walked h (enc v @ ?rest) (ref v @ concat (map ref vs)) w)"
    using Cons.IH[of ?w "Suc i"] Cons.prems(1) r'(2) by (simp add: walked_walked[OF r])
  show ?case
    using codesD[OF one r'(1)] rest binary_marks[OF bin(1)] binary_marks[OF bin(2)]
    by (cases "reading w") simp_all
qed

lemma chunk_members_codes:
  assumes "length us = length fds" and "length vs = length fds"
    and "\<And>field u v. (field, u, v) \<in> set (zip fds (zip us vs)) \<Longrightarrow> visited field \<Longrightarrow>
           codes h (f field) u v (enc field v) (ref field v) (res field u v)"
    and "\<And>field v. \<not> visited field \<Longrightarrow> enc field v = [] \<and> ref field v = []"
    and "\<And>field u v. \<not> visited field \<Longrightarrow> res field u v = u"
    and "ready (concat (map2 enc fds vs)) (wk_chunker w)"
  shows "chunk_members f None w fds (if reading w then us else vs) =
           Inr (True, if reading w then map2 (\<lambda>field (u, v). res field u v) fds (zip us vs) else vs,
                walked h (concat (map2 enc fds vs)) (concat (map2 ref fds vs)) w)"
  using assms
proof (induction fds arbitrary: us vs w)
  case Nil
  then show ?case by simp
next
  case (Cons field fds)
  from Cons.prems(1,2) obtain u us' v vs' where uv: "us = u # us'" "vs = v # vs'"
    by (metis length_Suc_conv)
  let ?rest = "concat (map2 enc fds vs')"
  have r: "ready (enc field v @ ?rest) (wk_chunker w)" using Cons.prems(6) uv by simp
  note r' = ready_append[OF r]
  let ?w = "walked h (enc field v) (ref field v) w"
  have bin: "ck_mode (wk_chunker w) = meSerializationMode_Binary" "ck_mode (wk_chunker ?w) = meSerializationMode_Binary"
    using ready_binary[OF r] by simp_all
  have rest: "chunk_members f None ?w fds (if reading w then us' else vs') =
      Inr (True, if reading w then map2 (\<lambda>field (u, v). res field u v) fds (zip us' vs') else vs',
           walked h (enc field v @ ?rest) (ref field v @ concat (map2 ref fds vs')) w)"
    using Cons.IH[of us' vs' ?w] Cons.prems uv r'(2) by (simp add: walked_walked[OF r])
  show ?case
  proof (cases "visited field")
    case True
    with Cons.prems(3) uv have "codes h (f field) u v (enc field v) (ref field v) (res field u v)" by simp
    from codesD[OF this r'(1)] rest binary_marks[OF bin(1)] binary_marks[OF bin(2)] True uv
    show ?thesis by (cases "reading w") simp_all
  next
    case False
    with Cons.prems(4,5) have "enc field v = []" "ref field v = []" "res field u v = u" by blast+
    with rest False uv show ?thesis by (cases "reading w") simp_all
  qed
qed

section \<open>Values of a type and their wire format\<close>

text \<open>
  The walk by descriptor has one case for each \<open>shape\<close> of a type; \<open>parent\<close> is the descriptor a
  \<open>DynArray\<close> takes its template argument from, \<open>elem_parent\<close> the one its elements get.
\<close>

datatype shape =
    ShSkip
  | ShPrim prim_td
  | ShBuffer
  | ShString
  | ShDyn meTypeDescriptor
  | ShAsset
  | ShFixed nat meTypeDescriptor
  | ShAlias meTypeDescriptor
  | ShStruct "meTypeDescriptor list"
  | ShBad

definition elem_parent :: "meTypeDescriptor \<Rightarrow> meTypeDescriptor option \<Rightarrow> meTypeDescriptor" where
  "elem_parent td parent = (case parent of Some p \<Rightarrow> p | None \<Rightarrow> td)"

definition shape_of :: "meTypeDescriptor \<Rightarrow> meTypeDescriptor option \<Rightarrow> shape" where
  "shape_of td parent =
     (if \<not> ShouldSerialize td then ShSkip
      else case td_fns td of
        Fn_primitive p \<Rightarrow> ShPrim p
      | Fn_sizedBuffer \<Rightarrow> ShBuffer
      | Fn_string \<Rightarrow> ShString
      | Fn_DynArray \<Rightarrow>
          (case td_templatedTypes (elem_parent td parent) of [e] \<Rightarrow> ShDyn e | _ \<Rightarrow> ShBad)
      | Fn_meAsset \<Rightarrow> ShAsset
      | Fn_disallowed \<Rightarrow> ShBad
      | _ \<Rightarrow>
          (case td_thisType td of
             Some ty \<Rightarrow>
               if is_constant_array td
               then (if td_size ty = 0 then ShBad else ShFixed (td_size td div td_size ty) ty)
               else if td_fields td = [] then ShAlias ty
               else ShStruct (td_fields td)
           | None \<Rightarrow> if td_fields td = [] then ShBad else ShStruct (td_fields td)))"

definition default_value :: "meTypeDescriptor \<Rightarrow> val" where
  "default_value td = (case td_defaults td of Some d \<Rightarrow> d | None \<Rightarrow> td_zeroed td)"

definition dyn_elems :: "val list option \<Rightarrow> val list" where
  "dyn_elems arr = (case arr of None \<Rightarrow> [] | Some vs \<Rightarrow> vs)"

text \<open>\<open>wt n td parent v\<close>: \<open>v\<close> is a value of the type \<open>td\<close> that can be saved, nested at most \<open>n\<close> deep.\<close>

fun wt :: "nat \<Rightarrow> meTypeDescriptor \<Rightarrow> meTypeDescriptor option \<Rightarrow> val \<Rightarrow> bool" where
  "wt 0 td parent v = False"
| "wt (Suc n) td parent v =
     (case (shape_of td parent, v) of
        (ShSkip, _) \<Rightarrow> True
      | (ShPrim p, VPrim bs) \<Rightarrow> length bs = prim_size p
      | (ShBuffer, VSpan s) \<Rightarrow> length (span_bytes s) < 4294967296
      | (ShString, VString s) \<Rightarrow> string_wf s
      | (ShDyn e, VDyn arr) \<Rightarrow> length (dyn_elems arr) < 4294967296 \<and>
           list_all (wt n e (Some (elem_parent td parent))) (dyn_elems arr)
      | (ShAsset, VAsset _ _ _) \<Rightarrow> True
      | (ShFixed k ty, VFixed vs) \<Rightarrow> length vs = k \<and> list_all (wt n ty (Some td)) vs
      | (ShAlias ty, v) \<Rightarrow> wt n ty (Some td) v
      | (ShStruct fds, VStruct vs) \<Rightarrow>
           list_all2 (\<lambda>field v. visited field \<longrightarrow> wt n field (Some td) v) fds vs
      | _ \<Rightarrow> False)"

text \<open>\<open>td_ok\<close>: every part of the type has a serializer, and the nesting is at most \<open>n\<close> deep.\<close>

fun td_ok :: "nat \<Rightarrow> meTypeDescriptor \<Rightarrow> meTypeDescriptor option \<Rightarrow> bool" where
  "td_ok 0 td parent = False"
| "td_ok (Suc n) td parent =
     (case shape_of td parent of
        ShBad \<Rightarrow> False
      | ShDyn e \<Rightarrow> td_ok n e (Some (elem_parent td parent)) \<and>
                  wt n e (Some (elem_parent td parent)) (default_value e)
      | ShAsset \<Rightarrow> 3 \<le> n
      | ShFixed k ty \<Rightarrow> td_ok n ty (Some td)
      | ShAlias ty \<Rightarrow> td_ok n ty (Some td)
      | ShStruct fds \<Rightarrow> list_all (\<lambda>field. visited field \<longrightarrow> td_ok n field (Some td)) fds
      | _ \<Rightarrow> True)"

definition maid_wire :: "MAID \<Rightarrow> u8 list" where
  "maid_wire m = le_encode 4 (unat (maid_id m)) @ le_encode 4 (unat (maid_type m))"

text \<open>The wire format.\<close>

fun encode_val :: "nat \<Rightarrow> meTypeDescriptor \<Rightarrow> meTypeDescriptor option \<Rightarrow> val \<Rightarrow> u8 list" where
  "encode_val 0 td parent v = []"
| "encode_val (Suc n) td parent v =
     (case (shape_of td parent, v) of
        (ShPrim p, VPrim bs) \<Rightarrow> bs
      | (ShBuffer, VSpan s) \<Rightarrow> span_wire (span_bytes s)
      | (ShString, VString s) \<Rightarrow> string_wire (so_bytes s)
      | (ShDyn e, VDyn arr) \<Rightarrow> le_encode 4 (length (dyn_elems arr)) @
           concat (map (encode_val n e (Some (elem_parent td parent))) (dyn_elems arr))
      | (ShAsset, VAsset m _ _) \<Rightarrow> maid_wire m
      | (ShFixed k ty, VFixed vs) \<Rightarrow> concat (map (encode_val n ty (Some td)) vs)
      | (ShAlias ty, v) \<Rightarrow> encode_val n ty (Some td) v
      | (ShStruct fds, VStruct vs) \<Rightarrow>
           concat (map2 (\<lambda>field v. if visited field then encode_val n field (Some td) v else []) fds vs)
      | _ \<Rightarrow> [])"

text \<open>The asset references in the data, in the order of the walk.\<close>

fun asset_refs :: "nat \<Rightarrow> meTypeDescriptor \<Rightarrow> meTypeDescriptor option \<Rightarrow> val \<Rightarrow> MAID list" where
  "asset_refs 0 td parent v = []"
| "asset_refs (Suc n) td parent v =
     (case (shape_of td parent, v) of
        (ShDyn e, VDyn arr) \<Rightarrow> concat (map (asset_refs n e (Some (elem_parent td parent))) (dyn_elems arr))
      | (ShAsset, VAsset m _ _) \<Rightarrow> [m]
      | (ShFixed k ty, VFixed vs) \<Rightarrow> concat (map (asset_refs n ty (Some td)) vs)
      | (ShAlias ty, v) \<Rightarrow> asset_refs n ty (Some td) v
      | (ShStruct fds, VStruct vs) \<Rightarrow>
           concat (map2 (\<lambda>field v. if visited field then asset_refs n field (Some td) v else []) fds vs)
      | _ \<Rightarrow> [])"

text \<open>
  What a load of the saved \<open>v\<close> over the old value \<open>u\<close> gives. A member that is not serialised keeps
  its old value, a null buffer or array comes back empty but allocated, a string comes back in a
  block of its own, an asset reference keeps its id only.
\<close>

fun restored :: "nat \<Rightarrow> meTypeDescriptor \<Rightarrow> meTypeDescriptor option \<Rightarrow> val \<Rightarrow> val \<Rightarrow> val" where
  "restored 0 td parent u v = u"
| "restored (Suc n) td parent u v =
     (case (shape_of td parent, u, v) of
        (ShPrim p, _, v) \<Rightarrow> v
      | (ShBuffer, _, VSpan s) \<Rightarrow> VSpan (Some (span_bytes s))
      | (ShString, _, VString s) \<Rightarrow> VString (String_of (so_bytes s))
      | (ShDyn e, _, VDyn arr) \<Rightarrow>
           VDyn (Some (map (restored n e (Some (elem_parent td parent)) (default_value e)) (dyn_elems arr)))
      | (ShAsset, _, VAsset m _ _) \<Rightarrow> VAsset m EYE_INVALID Unloaded
      | (ShFixed k ty, VFixed us, VFixed vs) \<Rightarrow> VFixed (map2 (restored n ty (Some td)) us vs)
      | (ShAlias ty, u, v) \<Rightarrow> restored n ty (Some td) u v
      | (ShStruct fds, VStruct us, VStruct vs) \<Rightarrow>
           VStruct (map2 (\<lambda>field (u, v). if visited field then restored n field (Some td) u v else u)
             fds (zip us vs))
      | _ \<Rightarrow> u)"

section \<open>The walk by shape\<close>

lemma float_loop_ready:
  assumes "ready e c" and "length e = 4 * n" and "length bs = 4 * n" and "\<not> IsReadMode c \<Longrightarrow> bs = e"
  shows "float_loop c i bs n = Inr (True, e, moved e c)"
  using assms
proof (induction n arbitrary: c i bs e)
  case 0
  then show ?case by simp
next
  case (Suc n)
  let ?x = "take 4 e" and ?e = "drop 4 e"
  have r: "ready (?x @ ?e) c" using Suc.prems(1) by simp
  note r' = ready_append[OF r]
  have "DoPrimitive c (take 4 bs) KF32 = Inr (?x, moved ?x c)"
    using r'(1) Suc.prems by (intro DoPrimitive_ready) auto
  moreover have "float_loop (moved ?x c) (Suc i) (drop 4 bs) n = Inr (True, ?e, moved ?e (moved ?x c))"
    using r'(2) Suc.prems by (intro Suc.IH) auto
  ultimately show ?case
    using ready_binary[OF r] moved_moved[OF r] by (simp add: Element_def EndElement_def)
qed

lemma ChunkFloatArray_ready:
  assumes "ready e c" and "length e = 4 * n" and "length bs = 4 * n" and "\<not> IsReadMode c \<Longrightarrow> bs = e"
  shows "ChunkFloatArray c bs n = Inr (True, e, moved e c)"
  using float_loop_ready[OF assms] ready_binary[OF assms(1)]
  by (simp add: ChunkFloatArray_def BeginFixedArray_def EndArray_def)

lemma chunk_primitive_codes:
  assumes "length e = prim_size p" and "length bs = prim_size p"
  shows "codes h (chunk_primitive p) (VPrim bs) (VPrim e) e [] (VPrim e)"
proof -
  have *: "ChunkPrimitiveWithTypeDescriptor p c x = Inr (True, e, moved e c)"
    if "ready e c" "IsReadMode c \<Longrightarrow> x = bs" "\<not> IsReadMode c \<Longrightarrow> x = e" for c x
  proof -
    have "length x = length e" using that(2,3) assms by (cases "IsReadMode c") auto
    with that assms ChunkFloatArray_ready[of e c 3 x] ChunkFloatArray_ready[of e c 4 x]
      DoPrimitive_ready[of e c x]
    show ?thesis by (auto simp: ChunkPrimitiveWithTypeDescriptor_def prim_size_def)
  qed
  have "ChunkPrimitiveWithTypeDescriptor p c bs = Inr (True, e, moved e c)"
    if "ready e c" "IsReadMode c" for c using *[OF that(1)] that(2) by blast
  moreover have "ChunkPrimitiveWithTypeDescriptor p c e = Inr (True, e, moved e c)"
    if "ready e c" "\<not> IsReadMode c" for c using *[OF that(1)] that(2) by blast
  ultimately show ?thesis by (auto simp: codes_def chunk_primitive_def walked_no_refs)
qed

lemma buffer_codes:
  assumes "length (span_bytes s) < 4294967296" and "allocates fresh"
  shows "codes h (\<lambda>w v. if reading w then sizedBufferDeserializer fresh (Some a) w v
                        else sizedBufferSerializer fresh w v)
           (VSpan t) (VSpan s) (span_wire (span_bytes s)) [] (VSpan (Some (span_bytes s)))"
proof -
  have rd: "DoBytes fresh c x (Some a) = Inr (Some (span_bytes s), moved (span_wire (span_bytes s)) c)"
    if "ready (span_wire (span_bytes s)) c" "IsReadMode c" for c x
    using DoBytes_ready[OF that(1) assms, of x "Some a"] that(2) by simp
  have wr: "DoBytes fresh c s None = Inr (s, moved (span_wire (span_bytes s)) c)"
    if "ready (span_wire (span_bytes s)) c" "\<not> IsReadMode c" for c
    using DoBytes_ready[OF that(1) assms, of s None] that(2) by simp
  show ?thesis
    by (auto simp: codes_def sizedBufferDeserializer_def sizedBufferSerializer_def on_chunker_with_def
        walked_no_refs rd wr)
qed

lemma string_codes:
  assumes "string_wf s" and "allocates fresh"
  shows "codes h (\<lambda>w v. if reading w then stringDeserializer fresh (Some a) w v
                        else stringSerializer fresh w v)
           (VString t) (VString s) (string_wire (so_bytes s)) [] (VString (String_of (so_bytes s)))"
proof -
  have rd: "DoString fresh c t (Some a) = Inr (String_of (so_bytes s), moved (string_wire (so_bytes s)) c)"
    if "ready (string_wire (so_bytes s)) c" "IsReadMode c" for c
    using DoString_ready[OF that(1) assms, of t "Some a"] that(2) by simp
  have wr: "DoString fresh c s None = Inr (s, moved (string_wire (so_bytes s)) c)"
    if "ready (string_wire (so_bytes s)) c" "\<not> IsReadMode c" for c
    using DoString_ready[OF that(1) assms, of s None] that(2) by simp
  show ?thesis
    by (auto simp: codes_def stringDeserializer_def stringSerializer_def on_chunker_with_def
        walked_no_refs rd wr)
qed

text \<open>The descriptor of an asset id.\<close>

lemma TD_MAID_shape:
  "shape_of TD_MAID parent = ShStruct (td_fields TD_MAID)"
  "shape_of (field_desc name (prim_desc p)) parent = ShAlias (prim_desc p)"
  "shape_of (prim_desc p) parent = ShPrim p"
  "visited (field_desc name (prim_desc p))"
  by (simp_all add: shape_of_def TD_MAID_def field_desc_def prim_desc_def ShouldSerialize_def
      visited_def is_constant_array_def TEST_BIT_def meTypeDescriptorFlag_Excluded_def
      meTypeDescriptorFlag_PaddingMember_def meTypeDescriptorFlag_ConstantArray_def)

lemma TD_MAID_fields:
  "td_fields TD_MAID = [field_desc [105, 100] (prim_desc TD_UNSIGNED_INT),
                        field_desc [116, 121, 112, 101] (prim_desc TD_UNSIGNED_INT)]"
  by (simp add: TD_MAID_def)

lemma TD_MAID_ok:
  assumes "3 \<le> n"
  shows "td_ok n TD_MAID parent" and "wt n TD_MAID parent (MAID_val m)"
    and "encode_val n TD_MAID parent (MAID_val m) = maid_wire m"
    and "asset_refs n TD_MAID parent (MAID_val m) = []"
    and "restored n TD_MAID parent (MAID_val m') (MAID_val m) = MAID_val m"
proof -
  obtain k where n: "n = Suc (Suc (Suc k))"
    using assms by (metis Suc_le_D numeral_3_eq_3 Suc_le_mono)
  show "td_ok n TD_MAID parent" "wt n TD_MAID parent (MAID_val m)"
    "encode_val n TD_MAID parent (MAID_val m) = maid_wire m"
    "asset_refs n TD_MAID parent (MAID_val m) = []"
    "restored n TD_MAID parent (MAID_val m') (MAID_val m) = MAID_val m"
    unfolding n
    by (simp_all add: TD_MAID_shape TD_MAID_fields MAID_val_def maid_wire_def prim_size_def)
qed

lemma val_MAID_val [simp]: "val_MAID (MAID_val m) = Inr m"
proof -
  have "unat (x :: u32) < 256 ^ 4" for x using unsigned_less[of x] by simp
  then show ?thesis by (simp add: val_MAID_def MAID_val_def le_decode_encode)
qed

lemma asset_codes:
  assumes "\<And>h. codes h (f h TD_MAID) (MAID_val MAID_INVALID) (MAID_val m) (maid_wire m) [] (MAID_val m)"
    and "codes False (f' TD_MAID) (MAID_val MAID_INVALID) (MAID_val m) (maid_wire m) [] (MAID_val m)"
  shows "codes h (\<lambda>w v. if reading w then meAssetDeserializerFn (f h) h w v
                        else bindR (meAssetSerializerFn f' w v) (\<lambda>(ok, v, w'). Inr (ok, v, w')))
           (VAsset m0 e0 s0) (VAsset m e s) (maid_wire m) [m] (VAsset m EYE_INVALID Unloaded)"
  using codesD(1)[OF assms(1)] codesD(2)[OF assms(2)]
  by (auto simp: codes_def meAssetDeserializerFn_def meAssetSerializerFn_def walked_def add_deps_def)

lemma elements_codes_default:
  assumes "codes h f (default_value e) v enc refs v'"
  shows "codes h (\<lambda>w v. f w (element_default e w v)) (td_zeroed e) v enc refs v'"
  using assms by (auto simp: codes_def element_default_def default_value_def split: option.splits)

text \<open>The cases of \<open>ChunkWithTypeDescriptor\<close> by shape.\<close>

lemma Chunk_shape:
  "shape_of td parent = ShSkip \<Longrightarrow>
     ChunkWithTypeDescriptor fresh alloc (Suc n) td parent h False w v = Inr (True, v, w)"
  "shape_of td parent = ShPrim p \<Longrightarrow>
     ChunkWithTypeDescriptor fresh alloc (Suc n) td parent h False w v = chunk_primitive p w v"
  "shape_of td parent = ShBuffer \<Longrightarrow>
     ChunkWithTypeDescriptor fresh alloc (Suc n) td parent h False w v =
       (if reading w then sizedBufferDeserializer fresh alloc w v else sizedBufferSerializer fresh w v)"
  "shape_of td parent = ShString \<Longrightarrow>
     ChunkWithTypeDescriptor fresh alloc (Suc n) td parent h False w v =
       (if reading w then stringDeserializer fresh alloc w v else stringSerializer fresh w v)"
  "shape_of td parent = ShAsset \<Longrightarrow>
     ChunkWithTypeDescriptor fresh alloc (Suc n) td parent h False w v =
       (if reading w
        then meAssetDeserializerFn (\<lambda>t. ChunkWithTypeDescriptor fresh alloc n t None h False) h w v
        else bindR (meAssetSerializerFn (\<lambda>t. ChunkWithTypeDescriptor fresh alloc n t None False False) w v)
               (\<lambda>(ok, v, w'). Inr (ok, v, w')))"
  "shape_of td parent = ShAlias ty \<Longrightarrow>
     ChunkWithTypeDescriptor fresh alloc (Suc n) td parent h False w v =
       ChunkWithTypeDescriptor fresh alloc n ty (Some td) h False w v"
  by (auto simp: shape_of_def Let_def is_constant_array_def
      split: if_splits td_fns.splits option.splits list.splits)

lemma Chunk_dyn:
  assumes "shape_of td parent = ShDyn e"
  shows "td_templatedTypes (elem_parent td parent) = [e]"
    and "ChunkWithTypeDescriptor fresh alloc (Suc n) td parent h False w v =
      ChunkDynArray (\<lambda>e. ChunkWithTypeDescriptor fresh alloc n e (Some (elem_parent td parent)) (h \<and> reading w) False)
        alloc (elem_parent td parent) w v"
  using assms
  by (auto simp: shape_of_def Let_def elem_parent_def
      split: if_splits td_fns.splits option.splits list.splits)

lemma Chunk_fixed:
  assumes "shape_of td parent = ShFixed k ty" and "ck_mode (wk_chunker w) = meSerializationMode_Binary"
    and "length vs = k"
  shows "ChunkWithTypeDescriptor fresh alloc (Suc n) td parent h False w (VFixed vs) =
      bindR (chunk_elements (ChunkWithTypeDescriptor fresh alloc n ty (Some td) h False) 0 w vs)
        (\<lambda>(ok, vs', w). bindR (on_chunker EndArray w) (\<lambda>w. Inr (ok, VFixed vs', w)))"
  using assms
  by (auto simp: shape_of_def Let_def BeginFixedArray_def
      split: if_splits td_fns.splits option.splits list.splits)

lemma Chunk_struct:
  assumes "shape_of td parent = ShStruct fds"
  shows "ChunkWithTypeDescriptor fresh alloc (Suc n) td parent h False w (VStruct vs) =
      bindR (on_chunker_with BeginObject w) (\<lambda>(ok, w).
        if \<not> ok then Inr (False, VStruct vs, w)
        else bindR (chunk_members (\<lambda>f. ChunkWithTypeDescriptor fresh alloc n f (Some td) h False) None w fds vs)
          (\<lambda>(ok, vs, w). bindR (on_chunker EndObject w) (\<lambda>w. Inr (ok, VStruct vs, w))))"
  using assms
  by (auto simp: shape_of_def Let_def is_constant_array_def
      split: if_splits td_fns.splits option.splits list.splits)

declare ChunkWithTypeDescriptor.simps [simp del]

lemma walked_flag [simp]: "walked (h \<and> reading w) e ids w = walked h e ids w"
  by (simp add: walked_def)

lemma map2_replicate: "map2 (\<lambda>_. g) (replicate (length vs) z) vs = map g vs"
  by (induction vs) auto

lemma dyn_codes:
  assumes "td_templatedTypes fieldDesc = [e]" and "length (dyn_elems arr) < 4294967296"
    and el: "\<And>h x. x \<in> set (dyn_elems arr) \<Longrightarrow> codes h (f h e) (default_value e) x (enc x) (ref x) (res x)"
  shows "codes h (\<lambda>w v. ChunkDynArray (f (h \<and> reading w)) (Some a) fieldDesc w v) (VDyn arr0) (VDyn arr)
           (le_encode 4 (length (dyn_elems arr)) @ concat (map enc (dyn_elems arr)))
           (concat (map ref (dyn_elems arr))) (VDyn (Some (map res (dyn_elems arr))))"
  unfolding codes_def
proof (intro allI impI)
  fix w :: walk
  let ?vs = "dyn_elems arr"
  let ?pre = "le_encode 4 (length ?vs)" and ?body = "concat (map enc ?vs)"
  let ?f = "\<lambda>w v. f (h \<and> reading w) e w (element_default e w v)"
  assume r: "ready (?pre @ ?body) (wk_chunker w)"
  note r' = ready_append[OF r]
  let ?w = "walked h ?pre [] w"
  let ?us = "replicate (length ?vs) (td_zeroed e)"
  have bin: "ck_mode (wk_chunker w) = meSerializationMode_Binary" using ready_binary[OF r] .
  have w1: "w\<lparr>wk_chunker := moved ?pre (wk_chunker w)\<rparr> = ?w" by (simp add: walked_no_refs)
  have begin_array: "BeginArray (wk_chunker w) k = Inr (True, length ?vs, moved ?pre (wk_chunker w))"
    if "\<not> reading w \<Longrightarrow> k = length ?vs" for k
    using Do_u32_ready[OF r'(1) assms(2), of k] that bin by (simp add: BeginArray_def)
  have elems: "chunk_elements (\<lambda>w' v. f (h \<and> reading w) e w' (element_default e w' v)) 0 ?w
      (if reading w then ?us else ?vs) =
      Inr (True, if reading w then map res ?vs else ?vs, walked h (?pre @ ?body) (concat (map ref ?vs)) w)"
  proof -
    have "chunk_elements (\<lambda>w' v. f (h \<and> reading w) e w' (element_default e w' v)) 0 ?w
        (if reading ?w then ?us else ?vs) =
        Inr (True, if reading ?w then map2 (\<lambda>_. res) ?us ?vs else ?vs,
             walked (h \<and> reading w) ?body (concat (map ref ?vs)) ?w)"
      using r'(2) el by (intro chunk_elements_codes)
        (auto simp: in_set_replicate dest!: set_zip_leftD set_zip_rightD
              intro!: elements_codes_default elim!: in_set_zipE)
    moreover have "walked (h \<and> reading w) ?body (concat (map ref ?vs)) ?w =
        walked h (?pre @ ?body) (concat (map ref ?vs)) w"
      using walked_flag[of h ?w] walked_walked[OF r, of h "concat (map ref ?vs)" "[]"] by simp
    ultimately show ?thesis by (simp add: map2_replicate)
  qed
  have single: "meTypeDescriptorGetSingleTemplateArg fieldDesc = Inr e"
    using assms(1) by (simp add: meTypeDescriptorGetSingleTemplateArg_def)
  have marks: "on_chunker EndArray (walked h (?pre @ ?body) (concat (map ref ?vs)) w) =
      Inr (walked h (?pre @ ?body) (concat (map ref ?vs)) w)"
    using bin by (intro binary_marks) simp
  show "ChunkDynArray (f (h \<and> reading w)) (Some a) fieldDesc w (if reading w then VDyn arr0 else VDyn arr) =
        Inr (True, if reading w then VDyn (Some (map res ?vs)) else VDyn arr,
             walked h (?pre @ ?body) (concat (map ref ?vs)) w)"
  proof (cases "reading w")
    case True
    with begin_array elems single marks show ?thesis
      by (simp add: ChunkDynArray_def w1 Let_def)
  next
    case False
    with begin_array[of "length ?vs"] elems single marks show ?thesis
      by (cases arr) (simp_all add: ChunkDynArray_def walked_no_refs[of h _ w, symmetric] Let_def dyn_elems_def)
  qed
qed

text \<open>The walk measures, writes, reads and verifies the wire format.\<close>

lemma Chunk_codes:
  assumes fresh: "allocates fresh"
  shows "td_ok n td parent \<Longrightarrow> wt n td parent u \<Longrightarrow> wt n td parent v \<Longrightarrow>
     codes h (ChunkWithTypeDescriptor fresh (Some a) n td parent h False) u v
       (encode_val n td parent v) (asset_refs n td parent v) (restored n td parent u v)"
proof (induction n arbitrary: td parent u v h)
  case 0
  then show ?case by simp
next
  case (Suc n)
  note IH = Suc.IH
  show ?case
  proof (cases "shape_of td parent")
    case ShSkip
    then show ?thesis by (auto simp: codes_def Chunk_shape)
  next
    case (ShPrim p)
    with Suc.prems obtain x y where "u = VPrim x" "v = VPrim y" "length x = prim_size p" "length y = prim_size p"
      by (auto split: val.splits)
    with ShPrim chunk_primitive_codes show ?thesis
      by (simp add: codes_def Chunk_shape)
  next
    case ShBuffer
    with Suc.prems obtain x y where "u = VSpan x" "v = VSpan y" "length (span_bytes y) < 4294967296"
      by (auto split: val.splits)
    with ShBuffer buffer_codes[OF _ fresh] show ?thesis
      by (simp add: codes_def Chunk_shape)
  next
    case ShString
    with Suc.prems obtain x y where "u = VString x" "v = VString y" "string_wf y"
      by (auto split: val.splits)
    with ShString string_codes[OF _ fresh] show ?thesis
      by (simp add: codes_def Chunk_shape)
  next
    case (ShDyn e)
    let ?p = "elem_parent td parent"
    from ShDyn Suc.prems obtain x y where uv: "u = VDyn x" "v = VDyn y"
      "length (dyn_elems y) < 4294967296" "list_all (wt n e (Some ?p)) (dyn_elems y)"
      by (auto split: val.splits)
    have ok: "td_ok n e (Some ?p)" "wt n e (Some ?p) (default_value e)" using ShDyn Suc.prems(1) by simp_all
    have "codes h (\<lambda>w v. ChunkDynArray ((\<lambda>h e. ChunkWithTypeDescriptor fresh (Some a) n e (Some ?p) h False) (h \<and> reading w))
            (Some a) ?p w v) (VDyn x) (VDyn y)
        (le_encode 4 (length (dyn_elems y)) @ concat (map (encode_val n e (Some ?p)) (dyn_elems y)))
        (concat (map (asset_refs n e (Some ?p)) (dyn_elems y)))
        (VDyn (Some (map (restored n e (Some ?p) (default_value e)) (dyn_elems y))))"
      using Chunk_dyn(1)[OF ShDyn] uv IH[OF ok] by (intro dyn_codes) (auto simp: list_all_iff)
    with ShDyn uv(1,2) show ?thesis
      by (simp add: codes_def Chunk_dyn(2))
  next
    case ShAsset
    with Suc.prems obtain m e s m0 e0 s0 where uv: "v = VAsset m e s" "u = VAsset m0 e0 s0" and n: "3 \<le> n"
      by (auto split: val.splits)
    note M = TD_MAID_ok[OF n]
    have "codes h (ChunkWithTypeDescriptor fresh (Some a) n TD_MAID None h False)
        (MAID_val MAID_INVALID) (MAID_val m) (maid_wire m) [] (MAID_val m)" for h
      using IH[where td = TD_MAID and parent = None and u = "MAID_val MAID_INVALID" and v = "MAID_val m", OF M(1) M(2) M(2)]
      by (simp add: M)
    then have "codes h (\<lambda>w v. if reading w
        then meAssetDeserializerFn (\<lambda>t. ChunkWithTypeDescriptor fresh (Some a) n t None h False) h w v
        else bindR (meAssetSerializerFn (\<lambda>t. ChunkWithTypeDescriptor fresh (Some a) n t None False False) w v)
               (\<lambda>(ok, v, w'). Inr (ok, v, w')))
        (VAsset m0 e0 s0) (VAsset m e s) (maid_wire m) [m] (VAsset m EYE_INVALID Unloaded)"
      by (intro asset_codes[where f = "\<lambda>h t. ChunkWithTypeDescriptor fresh (Some a) n t None h False"]) auto
    with ShAsset uv show ?thesis by (simp add: codes_def Chunk_shape)
  next
    case (ShFixed k ty)
    with Suc.prems obtain us vs where uv: "u = VFixed us" "v = VFixed vs" "length us = k" "length vs = k"
      "list_all (wt n ty (Some td)) us" "list_all (wt n ty (Some td)) vs" and ok: "td_ok n ty (Some td)"
      by (auto split: val.splits)
    have el: "codes h (ChunkWithTypeDescriptor fresh (Some a) n ty (Some td) h False) x y
        (encode_val n ty (Some td) y) (asset_refs n ty (Some td) y) (restored n ty (Some td) x y)"
      if "(x, y) \<in> set (zip us vs)" for x y
      using uv(5,6) that by (intro IH[OF ok]) (auto simp: list_all_iff elim: in_set_zipE)
    show ?thesis
      unfolding codes_def
    proof (intro allI impI)
      fix w :: walk
      assume r: "ready (encode_val (Suc n) td parent v) (wk_chunker w)"
      then have bin: "ck_mode (wk_chunker w) = meSerializationMode_Binary" by (rule ready_binary)
      have "ready (concat (map (encode_val n ty (Some td)) vs)) (wk_chunker w)"
        using r ShFixed uv(2) by simp
      then have "chunk_elements (ChunkWithTypeDescriptor fresh (Some a) n ty (Some td) h False) 0 w
          (if reading w then us else vs) =
          Inr (True, if reading w then map2 (restored n ty (Some td)) us vs else vs,
               walked h (encode_val (Suc n) td parent v) (asset_refs (Suc n) td parent v) w)"
        using chunk_elements_codes[where us = us and vs = vs and w = w and i = 0, OF _ el] ShFixed uv by simp
      with ShFixed uv binary_marks(7) bin Chunk_fixed[OF ShFixed bin, of "if reading w then us else vs"]
      show "ChunkWithTypeDescriptor fresh (Some a) (Suc n) td parent h False w (if reading w then u else v) =
          Inr (True, if reading w then restored (Suc n) td parent u v else v,
               walked h (encode_val (Suc n) td parent v) (asset_refs (Suc n) td parent v) w)"
        by (cases "reading w") (simp_all)
    qed
  next
    case (ShAlias ty)
    with Suc.prems IH[of ty "Some td" u v h] show ?thesis by (simp add: codes_def Chunk_shape)
  next
    case (ShStruct fds)
    with Suc.prems obtain us vs where uv: "u = VStruct us" "v = VStruct vs"
      "list_all2 (\<lambda>field v. visited field \<longrightarrow> wt n field (Some td) v) fds us"
      "list_all2 (\<lambda>field v. visited field \<longrightarrow> wt n field (Some td) v) fds vs"
      and ok: "list_all (\<lambda>field. visited field \<longrightarrow> td_ok n field (Some td)) fds"
      by (auto split: val.splits)
    then have len: "length us = length fds" "length vs = length fds"
      by (auto dest: list_all2_lengthD)
    have el: "codes h (ChunkWithTypeDescriptor fresh (Some a) n field (Some td) h False) x y
        (encode_val n field (Some td) y) (asset_refs n field (Some td) y) (restored n field (Some td) x y)"
      if "(field, x, y) \<in> set (zip fds (zip us vs))" "visited field" for field x y
    proof -
      from that(1) have "(field, x) \<in> set (zip fds us)" "(field, y) \<in> set (zip fds vs)"
        by (auto simp: set_zip)
      with uv(3,4) ok that(2) show ?thesis
        by (intro IH) (auto simp: list_all2_iff list_all_iff dest: set_zip_leftD)
    qed
    have el': "codes h (ChunkWithTypeDescriptor fresh (Some a) n field (Some td) h False) x y
        (if visited field then encode_val n field (Some td) y else [])
        (if visited field then asset_refs n field (Some td) y else [])
        (if visited field then restored n field (Some td) x y else x)"
      if "(field, x, y) \<in> set (zip fds (zip us vs))" "visited field" for field x y
      using el[OF that] that(2) by simp
    show ?thesis
      unfolding codes_def
    proof (intro allI impI)
      fix w :: walk
      assume r: "ready (encode_val (Suc n) td parent v) (wk_chunker w)"
      then have bin: "ck_mode (wk_chunker w) = meSerializationMode_Binary" by (rule ready_binary)
      have "ready (concat (map2 (\<lambda>field v. if visited field then encode_val n field (Some td) v else []) fds vs))
          (wk_chunker w)"
        using r ShStruct uv(2) by simp
      then have "chunk_members (\<lambda>f. ChunkWithTypeDescriptor fresh (Some a) n f (Some td) h False) None w fds
          (if reading w then us else vs) =
          Inr (True, if reading w
               then map2 (\<lambda>field (u, v). if visited field then restored n field (Some td) u v else u) fds (zip us vs)
               else vs,
               walked h (encode_val (Suc n) td parent v) (asset_refs (Suc n) td parent v) w)"
        using chunk_members_codes[where w = w, OF len el'] ShStruct uv(1,2) by simp
      with ShStruct uv(1,2) binary_marks(5)[OF bin] binary_marks(6) bin
      show "ChunkWithTypeDescriptor fresh (Some a) (Suc n) td parent h False w (if reading w then u else v) =
          Inr (True, if reading w then restored (Suc n) td parent u v else v,
               walked h (encode_val (Suc n) td parent v) (asset_refs (Suc n) td parent v) w)"
        by (cases "reading w") (simp_all add: Chunk_struct)
    qed
  next
    case ShBad
    with Suc.prems show ?thesis by simp
  qed
qed

section \<open>Whole walks\<close>

text \<open>A walk that begins at the start of a buffer.\<close>

definition bin_walk :: "Pass \<Rightarrow> u8 list \<Rightarrow> MAID list option \<Rightarrow> walk" where
  "bin_walk pass buf deps =
     \<lparr>wk_chunker = \<lparr>ck_mode = meSerializationMode_Binary, ck_pass = pass, ck_valid = True, bin_buf = buf,
                    bin_cursor = 0, txt_root = None, txt_current = None, txt_stack = [], txt_output = None,
                    txt_casts = no_casts\<rparr>,
      wk_deps = deps, wk_recorded = []\<rparr>"

lemma bin_walk_simps [simp]:
  "ck_mode (wk_chunker (bin_walk pass buf deps)) = meSerializationMode_Binary"
  "ck_pass (wk_chunker (bin_walk pass buf deps)) = pass"
  "ck_valid (wk_chunker (bin_walk pass buf deps))"
  "bin_buf (wk_chunker (bin_walk pass buf deps)) = buf"
  "bin_cursor (wk_chunker (bin_walk pass buf deps)) = 0"
  "wk_deps (bin_walk pass buf deps) = deps"
  "wk_recorded (bin_walk pass buf deps) = []"
  by (simp_all add: bin_walk_def)

lemma bin_walk_chunker:
  "meChunker no_casts parse meSerializationMode_Binary pass alloc (Some buf) = Inr (wk_chunker (bin_walk pass buf deps))"
  by (simp add: meChunker_def InitBinary_def bin_walk_def)

definition example_type :: meTypeDescriptor where
  "example_type =
     TypeDesc [65]
       [field_desc [110] (prim_desc TD_UNSIGNED_INT),
        field_desc [115] (TypeDesc [] [] 0 0 24 None [] Fn_string None (VString String_empty)),
        TypeDesc [97] [] 0 0 24 (Some (TypeDesc [] [] 0 0 24 None [] Fn_DynArray None (VDyn None)))
          [TypeDesc [] [] 0 0 16 None [] Fn_meAsset (Some (VAsset MAID_INVALID EYE_INVALID Unloaded))
             (VAsset MAID_INVALID EYE_INVALID Unloaded)]
          Fn_none None (VDyn None)]
       0 0 56 None [] Fn_generated None (VStruct [VPrim [0, 0, 0, 0], VString String_empty, VDyn None])"

definition example_value :: val where
  "example_value =
     VStruct [VPrim [1, 2, 3, 4], VString (String_of [104, 105]),
              VDyn (Some [VAsset \<lparr>maid_id = 7, maid_type = 4\<rparr> 9 Loaded])]"

definition example_blank :: val where
  "example_blank = VStruct [VPrim [0, 0, 0, 0], VString String_empty, VDyn None]"

lemma example_typed: "td_ok 7 example_type None \<and> wt 7 example_type None example_value \<and> wt 7 example_type None example_blank"
  by code_simp

text \<open>
  C6. Binary serialisation by type descriptor. For every type whose parts have serializers and
  every value of it: measuring gives the number of bytes of the wire format and collects the
  asset references; writing into a buffer of that size ends in write mode with exactly these
  bytes; reading them back (with more bytes behind) over any value of the type ends in read mode
  behind them with the value restored; verifying them succeeds.
\<close>

theorem Chunk_binary_roundtrip:
  assumes "allocates fresh" and "td_ok n td None" and "wt n td None v" and "wt n td None u"
    and "length buf = length (encode_val n td None v)"
  shows
    "(\<exists>w. ChunkWithTypeDescriptor fresh (Some a) n td None False False (bin_walk PMeasure [] deps) v = Inr (True, v, w) \<and>
         BytesProcessed (wk_chunker w) = length (encode_val n td None v) \<and>
         wk_deps w = add_deps (asset_refs n td None v) deps) \<and>
     (\<exists>w. ChunkWithTypeDescriptor fresh (Some a) n td None False False (bin_walk PWrite buf deps) v = Inr (True, v, w) \<and>
         IsWriteMode (wk_chunker w) \<and> bin_buf (wk_chunker w) = encode_val n td None v) \<and>
     (\<exists>w. ChunkWithTypeDescriptor fresh (Some a) n td None h False (bin_walk PRead (encode_val n td None v @ rest) deps) u =
           Inr (True, restored n td None u v, w) \<and>
         IsReadMode (wk_chunker w) \<and> BytesProcessed (wk_chunker w) = length (encode_val n td None v)) \<and>
     (\<exists>w. ChunkWithTypeDescriptor fresh (Some a) n td None False False (bin_walk PVerify (encode_val n td None v) deps) v =
           Inr (True, v, w))"
proof -
  let ?e = "encode_val n td None v" and ?ids = "asset_refs n td None v"
  have c: "codes h (ChunkWithTypeDescriptor fresh (Some a) n td None h False) u v ?e ?ids (restored n td None u v)" for h
    by (rule Chunk_codes[OF assms(1,2,4,3)])
  have r: "ready ?e (wk_chunker (bin_walk PMeasure [] deps))" "ready ?e (wk_chunker (bin_walk PWrite buf deps))"
    "ready ?e (wk_chunker (bin_walk PRead (?e @ rest) deps))" "ready ?e (wk_chunker (bin_walk PVerify ?e deps))"
    using assms(5) by (simp_all add: ready_def)
  show ?thesis
    using codesD(2)[OF c r(1)] codesD(2)[OF c r(2)] codesD(1)[OF c r(3)] codesD(2)[OF c r(4)] assms(5)
    by (simp add: IsReadMode_def IsWriteMode_def BytesProcessed_def walked_def)
      (simp add: moved_def)
qed

theorem Chunk_binary_roundtrip_witness:
  "\<exists>e w. ChunkWithTypeDescriptor (\<lambda>n. replicate n 0) (Some 0) 7 example_type None True False
           (bin_walk PRead (encode_val 7 example_type None example_value @ [1, 2]) None) example_blank = Inr (True, e, w) \<and>
     IsReadMode (wk_chunker w) \<and>
     e = VStruct [VPrim [1, 2, 3, 4], VString (String_of [104, 105]),
                  VDyn (Some [VAsset \<lparr>maid_id = 7, maid_type = 4\<rparr> EYE_INVALID Unloaded])]"
proof -
  have "restored 7 example_type None example_blank example_value =
      VStruct [VPrim [1, 2, 3, 4], VString (String_of [104, 105]),
               VDyn (Some [VAsset \<lparr>maid_id = 7, maid_type = 4\<rparr> EYE_INVALID Unloaded])]"
    by code_simp
  moreover have "allocates (\<lambda>n. replicate n 0)" by (simp add: allocates_def)
  ultimately show ?thesis
    using Chunk_binary_roundtrip[OF _ conjunct1[OF example_typed] conjunct1[OF conjunct2[OF example_typed]]
        conjunct2[OF conjunct2[OF example_typed]] length_replicate[of _ 0]] by metis
qed

end
