(* ===== verification/UntrustedData.thy ===== *)
theory UntrustedData
  imports BinaryWalks
begin

text \<open>
  Loading bytes nobody vouches for. A binary load that runs out of data falls back to measuring
  and goes on; for types without a \<open>String\<close> every load of every byte sequence ends without a fault
  and leaves a value of the type, and says by its mode whether all the data was there. With a
  \<open>String\<close> this is false: the length 4294967295 makes the allocation size wrap around to 0.
\<close>

section \<open>Operations on arbitrary data\<close>

definition sane :: "chunker \<Rightarrow> bool" where
  "sane c \<longleftrightarrow>
     ck_mode c = meSerializationMode_Binary \<and>
     (ck_pass c = PMeasure \<or> (ck_pass c = PRead \<and> bin_cursor c \<le> length (bin_buf c)))"

text \<open>\<open>after c c'\<close>: \<open>c'\<close> is a later state of the chunker; a load that fell back stays so.\<close>

definition after :: "chunker \<Rightarrow> chunker \<Rightarrow> bool" where
  "after c c' \<longleftrightarrow> sane c' \<and> bin_buf c' = bin_buf c \<and> (IsReadMode c' \<longrightarrow> IsReadMode c)"

lemma after_sane: "after c c' \<Longrightarrow> sane c'"
  by (simp add: after_def)

lemma after_trans: "after c c' \<Longrightarrow> after c' c'' \<Longrightarrow> after c c''"
  by (auto simp: after_def)

lemma after_refl: "sane c \<Longrightarrow> after c c"
  by (simp add: after_def)

lemma sane_binary: "sane c \<Longrightarrow> ck_mode c = meSerializationMode_Binary"
  by (simp add: sane_def)

lemma DoBinaryVoid_sane:
  assumes "sane c"
  shows "\<exists>bs c'. DoBinaryVoid c data = Inr (bs, c') \<and> length bs = length data \<and> after c c' \<and>
           (IsReadMode c' \<or> bs = data)"
proof (cases "ck_pass c = PRead \<and> bin_cursor c + length data \<le> length (bin_buf c)")
  case True
  with assms have "DoBinaryVoid c data =
      Inr (take (length data) (drop (bin_cursor c) (bin_buf c)), c\<lparr>bin_cursor := bin_cursor c + length data\<rparr>)"
    by (simp add: DoBinaryVoid_def IsMeasureMode_def Let_def)
  moreover have "after c (c\<lparr>bin_cursor := bin_cursor c + length data\<rparr>)"
    using True assms by (simp add: after_def sane_def IsReadMode_def)
  ultimately show ?thesis using True by (auto simp: IsReadMode_def)
next
  case False
  with assms have "DoBinaryVoid c data =
      Inr (data, c\<lparr>ck_pass := PMeasure, bin_cursor := bin_cursor c + length data\<rparr>)"
    by (auto simp: DoBinaryVoid_def IsMeasureMode_def SetMeasureMode_def sane_def Let_def)
  moreover have "after c (c\<lparr>ck_pass := PMeasure, bin_cursor := bin_cursor c + length data\<rparr>)"
    using assms by (simp add: after_def sane_def IsReadMode_def)
  ultimately show ?thesis by simp
qed

lemma Do_u32_sane:
  assumes "sane c" and "y < 4294967296"
  obtains x c' where "Do_u32 c y = Inr (x, c')" and "x < 4294967296"
    and "after c c'" and "\<not> IsReadMode c' \<Longrightarrow> x = y"
proof -
  obtain bs c' where d: "DoBinaryVoid c (le_encode 4 y) = Inr (bs, c')" "length bs = 4" "after c c'"
    "IsReadMode c' \<or> bs = le_encode 4 y"
    using DoBinaryVoid_sane[OF assms(1), of "le_encode 4 y"] by auto
  have "Do_u32 c y = Inr (le_decode bs, c')"
    using d(1) sane_binary[OF assms(1)] by (simp add: Do_u32_def DoPrimitive_def)
  moreover have "le_decode bs < 4294967296"
    using le_decode_less[of bs] d(2) by simp
  moreover have "le_decode bs = y" if "\<not> IsReadMode c'"
    using d(4) that assms(2) by (simp add: le_decode_encode)
  ultimately show ?thesis using that d(3) by blast
qed

lemma DoBytes_sane:
  assumes "sane c" and "length (span_bytes span) < 4294967296" and "allocates fresh"
    and "IsReadMode c \<Longrightarrow> alloc \<noteq> None"
  obtains s c' where "DoBytes fresh c span alloc = Inr (s, c')" and "after c c'"
    and "length (span_bytes s) < 4294967296"
proof -
  obtain n c1 where n: "Do_u32 c (length (span_bytes span)) = Inr (n, c1)" "n < 4294967296"
    "after c c1" "\<not> IsReadMode c1 \<Longrightarrow> n = length (span_bytes span)"
    using Do_u32_sane[OF assms(1,2)] by metis
  define s1 where "s1 = (if IsReadMode c1 then Some (fresh n) else span)"
  have len: "n = length (span_bytes s1)"
    using n(4) assms(3) by (auto simp: s1_def allocates_def span_bytes_def)
  obtain bs c2 where b: "DoBinaryVoid c1 (span_bytes s1) = Inr (bs, c2)" "length bs = n" "after c1 c2"
    using DoBinaryVoid_sane[OF after_sane[OF n(3)], of "span_bytes s1"] len by metis
  have "DoBytes fresh c span alloc = Inr (map_option (\<lambda>old. bs @ drop n old) s1, c2)"
  proof (cases "IsReadMode c1")
    case True
    then have "IsReadMode c" using n(3) by (simp add: after_def)
    then obtain a where "alloc = Some a" using assms(4) by auto
    moreover have "s1 = Some (fresh n)" "span_bytes (Some (fresh n)) = fresh n" "length (fresh n) = n"
      using True assms(3) by (simp_all add: s1_def span_bytes_def allocates_def)
    ultimately show ?thesis
      using True n(1) b(1) assms(2) sane_binary[OF assms(1)] by (simp add: DoBytes_def)
  next
    case False
    then have s1: "s1 = span" by (simp add: s1_def)
    have "DoBytes fresh c span alloc =
        bindR (DoBinaryVoid c1 (take n (span_bytes span)))
          (\<lambda>(bs, c). Inr (map_option (\<lambda>old. bs @ drop n old) span, c))"
      using False n(1) len s1 assms(2) sane_binary[OF assms(1)] by (simp add: DoBytes_def)
    with b(1) len s1 show ?thesis by simp
  qed
  moreover have "length (span_bytes (map_option (\<lambda>old. bs @ drop n old) s1)) < 4294967296"
    using b(2) len n(2) by (cases s1) (auto simp: span_bytes_def)
  ultimately show ?thesis using that after_trans[OF n(3) b(3)] by blast
qed

lemma float_loop_sane:
  assumes "sane c" and "length bs = 4 * n"
  shows "\<exists>bs' c'. float_loop c i bs n = Inr (True, bs', c') \<and> length bs' = length bs \<and> after c c'"
  using assms
proof (induction n arbitrary: c i bs)
  case 0
  then show ?case by (simp add: after_refl)
next
  case (Suc n)
  obtain x c1 where x: "DoBinaryVoid c (take 4 bs) = Inr (x, c1)" "length x = 4" "after c c1"
    using DoBinaryVoid_sane[OF Suc.prems(1), of "take 4 bs"] Suc.prems(2) by fastforce
  obtain bs' c' where r: "float_loop c1 (Suc i) (drop 4 bs) n = Inr (True, bs', c')"
    "length bs' = length (drop 4 bs)" "after c1 c'"
    using Suc.IH[OF after_sane[OF x(3)], of "drop 4 bs" "Suc i"] Suc.prems(2) by auto
  with x Suc.prems sane_binary[OF Suc.prems(1)] sane_binary[OF after_sane[OF x(3)]] after_trans[OF x(3) r(3)]
  show ?case by (simp add: Element_def EndElement_def DoPrimitive_def)
qed

lemma ChunkPrimitive_sane:
  assumes "sane c" and "length bs = prim_size p"
  shows "\<exists>bs' c'. ChunkPrimitiveWithTypeDescriptor p c bs = Inr (True, bs', c') \<and>
           length bs' = length bs \<and> after c c'"
proof (cases "p = TD_VEC3 \<or> p = TD_QUAT")
  case True
  with assms float_loop_sane[of c bs 3 0] float_loop_sane[of c bs 4 0] sane_binary[OF assms(1)] show ?thesis
    by (auto simp: ChunkPrimitiveWithTypeDescriptor_def ChunkFloatArray_def BeginFixedArray_def
        EndArray_def prim_size_def)
next
  case False
  obtain bs' c' where "DoBinaryVoid c bs = Inr (bs', c')" "length bs' = length bs" "after c c'"
    using DoBinaryVoid_sane[OF assms(1), of bs] by metis
  with False sane_binary[OF assms(1)] show ?thesis
    by (simp add: ChunkPrimitiveWithTypeDescriptor_def DoPrimitive_def)
qed

section \<open>Walks on arbitrary data\<close>

definition robust :: "(walk \<Rightarrow> val \<Rightarrow> chunk_result) \<Rightarrow> (val \<Rightarrow> bool) \<Rightarrow> bool" where
  "robust f P \<longleftrightarrow>
     (\<forall>w v. sane (wk_chunker w) \<longrightarrow> P v \<longrightarrow>
        (\<exists>v' w'. f w v = Inr (True, v', w') \<and> P v' \<and> after (wk_chunker w) (wk_chunker w')))"

lemma robustD:
  assumes "robust f P" and "sane (wk_chunker w)" and "P v"
  obtains v' w' where "f w v = Inr (True, v', w')" and "P v'" and "after (wk_chunker w) (wk_chunker w')"
  using assms unfolding robust_def by blast

lemma robustI:
  assumes "\<And>w v. sane (wk_chunker w) \<Longrightarrow> P v \<Longrightarrow>
     \<exists>v' w'. f w v = Inr (True, v', w') \<and> P v' \<and> after (wk_chunker w) (wk_chunker w')"
  shows "robust f P"
  using assms unfolding robust_def by blast

lemma chunk_elements_robust:
  assumes "robust f P" and "sane (wk_chunker w)" and "list_all P vs"
  shows "\<exists>vs' w'. chunk_elements f i w vs = Inr (True, vs', w') \<and> list_all P vs' \<and> length vs' = length vs \<and>
           after (wk_chunker w) (wk_chunker w')"
  using assms(2,3)
proof (induction vs arbitrary: i w)
  case Nil
  then show ?case by (simp add: after_refl)
next
  case (Cons v vs)
  obtain v' w1 where one: "f w v = Inr (True, v', w1)" "P v'" "after (wk_chunker w) (wk_chunker w1)"
    using robustD[OF assms(1) Cons.prems(1), of v] Cons.prems(2) by auto
  obtain vs' w' where "chunk_elements f (Suc i) w1 vs = Inr (True, vs', w')" "list_all P vs'"
    "length vs' = length vs" "after (wk_chunker w1) (wk_chunker w')"
    using Cons.IH[OF after_sane[OF one(3)], of "Suc i"] Cons.prems(2) by auto
  with one after_trans[OF one(3)] binary_marks(1)[OF sane_binary[OF Cons.prems(1)]]
    binary_marks(2)[OF sane_binary[OF after_sane[OF one(3)]]]
  show ?case by auto
qed

lemma chunk_members_robust:
  assumes "\<And>field. field \<in> set fds \<Longrightarrow> visited field \<Longrightarrow> robust (f field) (P field)"
    and "sane (wk_chunker w)" and "list_all2 (\<lambda>field v. visited field \<longrightarrow> P field v) fds vs"
  shows "\<exists>vs' w'. chunk_members f None w fds vs = Inr (True, vs', w') \<and>
           list_all2 (\<lambda>field v. visited field \<longrightarrow> P field v) fds vs' \<and> after (wk_chunker w) (wk_chunker w')"
  using assms(3,1,2)
proof (induction fds vs arbitrary: w rule: list_all2_induct)
  case Nil
  then show ?case by (simp add: after_refl)
next
  case (Cons field fds v vs)
  show ?case
  proof (cases "visited field")
    case True
    obtain v' w1 where one: "f field w v = Inr (True, v', w1)" "P field v'" "after (wk_chunker w) (wk_chunker w1)"
      using robustD[OF _ Cons.prems(2), of "f field" "P field" v] Cons.hyps(1) Cons.prems(1) True by auto
    obtain vs' w' where "chunk_members f None w1 fds vs = Inr (True, vs', w')"
      "list_all2 (\<lambda>field v. visited field \<longrightarrow> P field v) fds vs'" "after (wk_chunker w1) (wk_chunker w')"
      using Cons.IH[OF _ after_sane[OF one(3)]] Cons.prems(1) by auto
    with one True after_trans[OF one(3)] binary_marks(3)[OF sane_binary[OF Cons.prems(2)]]
      binary_marks(4)[OF sane_binary[OF after_sane[OF one(3)]]]
    show ?thesis by auto
  next
    case False
    obtain vs' w' where "chunk_members f None w fds vs = Inr (True, vs', w')"
      "list_all2 (\<lambda>field v. visited field \<longrightarrow> P field v) fds vs'" "after (wk_chunker w) (wk_chunker w')"
      using Cons.IH[OF _ Cons.prems(2)] Cons.prems(1) by auto
    with False show ?thesis by auto
  qed
qed

lemma buffer_robust:
  assumes "allocates fresh"
  shows "robust (\<lambda>w v. if reading w then sizedBufferDeserializer fresh (Some a) w v
                        else sizedBufferSerializer fresh w v)
           (\<lambda>v. case v of VSpan s \<Rightarrow> length (span_bytes s) < 4294967296 | _ \<Rightarrow> False)"
proof (rule robustI)
  fix w :: walk and v
  assume w: "sane (wk_chunker w)" and v: "case v of VSpan s \<Rightarrow> length (span_bytes s) < 4294967296 | _ \<Rightarrow> False"
  then obtain s where s: "v = VSpan s" "length (span_bytes s) < 4294967296" by (cases v) auto
  define s' where "s' = (if reading w then None else s)"
  define al where "al = (if reading w then Some a else None)"
  have "length (span_bytes s') < 4294967296" using s by (simp add: s'_def span_bytes_def)
  from DoBytes_sane[OF w this assms, of al] obtain t c' where
    "DoBytes fresh (wk_chunker w) s' al = Inr (t, c')" "after (wk_chunker w) c'" "length (span_bytes t) < 4294967296"
    by (auto simp: al_def)
  with s show "\<exists>v' w'. (if reading w then sizedBufferDeserializer fresh (Some a) w v
        else sizedBufferSerializer fresh w v) = Inr (True, v', w') \<and>
      (case v' of VSpan s \<Rightarrow> length (span_bytes s) < 4294967296 | _ \<Rightarrow> False) \<and>
      after (wk_chunker w) (wk_chunker w')"
    by (cases "reading w"; cases s)
      (auto simp: sizedBufferDeserializer_def sizedBufferSerializer_def on_chunker_with_def s'_def al_def)
qed

lemma default_robust:
  assumes "robust f P" and "P (default_value e)"
  shows "robust (\<lambda>w v. f w (element_default e w v)) P"
  using assms
  by (auto simp: robust_def element_default_def default_value_def split: option.splits)

lemma dyn_robust:
  assumes t: "td_templatedTypes fieldDesc = [e]" and f: "\<And>h. robust (f h e) P"
    and d: "P (default_value e)" "P (td_zeroed e)"
  shows "robust (\<lambda>w v. ChunkDynArray (f (h \<and> reading w)) (Some a) fieldDesc w v)
           (\<lambda>v. case v of VDyn arr \<Rightarrow> length (dyn_elems arr) < 4294967296 \<and> list_all P (dyn_elems arr) | _ \<Rightarrow> False)"
proof (rule robustI)
  fix w :: walk and v
  let ?P = "\<lambda>v. case v of VDyn arr \<Rightarrow> length (dyn_elems arr) < 4294967296 \<and> list_all P (dyn_elems arr) | _ \<Rightarrow> False"
  assume w: "sane (wk_chunker w)" and "?P v"
  then obtain arr where arr: "v = VDyn arr" "length (dyn_elems arr) < 4294967296" "list_all P (dyn_elems arr)"
    by (cases v) auto
  obtain n c1 where n: "Do_u32 (wk_chunker w) (length (dyn_elems arr)) = Inr (n, c1)" "n < 4294967296"
    "after (wk_chunker w) c1" "\<not> IsReadMode c1 \<Longrightarrow> n = length (dyn_elems arr)"
    using Do_u32_sane[OF w arr(2)] by metis
  define arr1 where "arr1 = (if IsReadMode c1 then Some (replicate n (td_zeroed e)) else arr)"
  have len: "length (dyn_elems arr1) = n" using n(4) by (auto simp: arr1_def dyn_elems_def)
  have P1: "list_all P (dyn_elems arr1)"
    using arr(3) d(2) by (auto simp: arr1_def dyn_elems_def list_all_iff)
  let ?f = "\<lambda>w' v. f (h \<and> reading w) e w' (element_default e w' v)"
  let ?w = "w\<lparr>wk_chunker := c1\<rparr>"
  obtain vs' w' where el: "chunk_elements ?f 0 ?w (dyn_elems arr1) = Inr (True, vs', w')" "list_all P vs'"
    "length vs' = n" "after c1 (wk_chunker w')"
    using chunk_elements_robust[OF default_robust[OF f d(1)], of ?w "dyn_elems arr1" "h \<and> reading w" 0]
      after_sane[OF n(3)] P1 len by auto
  have "ChunkDynArray (f (h \<and> reading w)) (Some a) fieldDesc w v =
      Inr (True, VDyn (if arr1 = None then None else Some vs'), w')"
  proof (cases "IsReadMode c1")
    case True
    with n(1) el arr(1) t sane_binary[OF w] binary_marks(7)[OF sane_binary[OF after_sane[OF el(4)]]] show ?thesis
      by (simp add: ChunkDynArray_def meTypeDescriptorGetSingleTemplateArg_def BeginArray_def Let_def
          dyn_elems_def arr1_def)
  next
    case False
    then have "n = length (dyn_elems arr)" "arr1 = arr" using n(4) by (simp_all add: arr1_def)
    with False n(1) el arr(1) t sane_binary[OF w] binary_marks(7)[OF sane_binary[OF after_sane[OF el(4)]]]
    show ?thesis
      by (cases arr) (simp_all add: ChunkDynArray_def meTypeDescriptorGetSingleTemplateArg_def
          BeginArray_def Let_def dyn_elems_def)
  qed
  moreover have "?P (VDyn (if arr1 = None then None else Some vs'))"
    using el(2,3) n(2) by (simp add: dyn_elems_def)
  ultimately show "\<exists>v' w'. ChunkDynArray (f (h \<and> reading w)) (Some a) fieldDesc w v = Inr (True, v', w') \<and>
      ?P v' \<and> after (wk_chunker w) (wk_chunker w')"
    using after_trans[OF n(3) el(4)] by blast
qed

text \<open>
  The types covered: as in \<open>td_ok\<close>, without strings, and with zeroed memory being a value of every
  element type, which is what a load that falls back inside an array leaves there.
\<close>

fun td_robust :: "nat \<Rightarrow> meTypeDescriptor \<Rightarrow> meTypeDescriptor option \<Rightarrow> bool" where
  "td_robust 0 td parent = False"
| "td_robust (Suc n) td parent =
     (case shape_of td parent of
        ShBad \<Rightarrow> False
      | ShString \<Rightarrow> False
      | ShDyn e \<Rightarrow> td_robust n e (Some (elem_parent td parent)) \<and>
                  wt n e (Some (elem_parent td parent)) (default_value e) \<and>
                  wt n e (Some (elem_parent td parent)) (td_zeroed e)
      | ShAsset \<Rightarrow> 3 \<le> n
      | ShFixed k ty \<Rightarrow> td_robust n ty (Some td)
      | ShAlias ty \<Rightarrow> td_robust n ty (Some td)
      | ShStruct fds \<Rightarrow> list_all (\<lambda>field. visited field \<longrightarrow> td_robust n field (Some td)) fds
      | _ \<Rightarrow> True)"

lemma TD_MAID_robust:
  assumes "3 \<le> n"
  shows "td_robust n TD_MAID None" and "wt n TD_MAID None v \<Longrightarrow> \<exists>m. val_MAID v = Inr m"
proof -
  obtain k where n: "n = Suc (Suc (Suc k))"
    using assms by (metis Suc_le_D numeral_3_eq_3 Suc_le_mono)
  show "td_robust n TD_MAID None" unfolding n by (simp add: TD_MAID_shape TD_MAID_fields)
  have prim: "\<exists>x. v = VPrim x" if "wt (Suc k) (prim_desc p) parent v" for p parent v
    using that by (cases v) (simp_all add: TD_MAID_shape)
  assume "wt n TD_MAID None v"
  then obtain x y where "v = VStruct [x, y]"
    "wt (Suc k) (prim_desc TD_UNSIGNED_INT) (Some (field_desc [105, 100] (prim_desc TD_UNSIGNED_INT))) x"
    "wt (Suc k) (prim_desc TD_UNSIGNED_INT) (Some (field_desc [116, 121, 112, 101] (prim_desc TD_UNSIGNED_INT))) y"
    unfolding n by (cases v) (auto simp: TD_MAID_shape TD_MAID_fields list_all2_Cons1 simp del: wt.simps(2)[of k])
  moreover from this prim obtain i t where "x = VPrim i" "y = VPrim t" by metis
  ultimately show "\<exists>m. val_MAID v = Inr m" by (simp add: val_MAID_def)
qed

lemma asset_robust:
  assumes "\<And>h. robust (f h TD_MAID) P" and "\<And>m. P (MAID_val m)" and "\<And>v. P v \<Longrightarrow> \<exists>m. val_MAID v = Inr m"
  shows "robust (\<lambda>w v. if reading w then meAssetDeserializerFn (f h) h w v
                        else bindR (meAssetSerializerFn (f False) w v) (\<lambda>(ok, v, w'). Inr (ok, v, w')))
           (\<lambda>v. case v of VAsset _ _ _ \<Rightarrow> True | _ \<Rightarrow> False)"
proof (rule robustI)
  fix w :: walk and v
  assume w: "sane (wk_chunker w)" and "case v of VAsset _ _ _ \<Rightarrow> True | _ \<Rightarrow> False"
  then obtain m e s where v: "v = VAsset m e s" by (cases v) auto
  show "\<exists>v' w'. (if reading w then meAssetDeserializerFn (f h) h w v
        else bindR (meAssetSerializerFn (f False) w v) (\<lambda>(ok, v, w'). Inr (ok, v, w'))) = Inr (True, v', w') \<and>
      (case v' of VAsset _ _ _ \<Rightarrow> True | _ \<Rightarrow> False) \<and> after (wk_chunker w) (wk_chunker w')"
  proof (cases "reading w")
    case True
    obtain v' w' where f: "f h TD_MAID w (MAID_val MAID_INVALID) = Inr (True, v', w')" "P v'"
      "after (wk_chunker w) (wk_chunker w')"
      using robustD[OF assms(1) w assms(2)] by metis
    then obtain x where "val_MAID v' = Inr x" using assms(3) by blast
    with f True v show ?thesis by (simp add: meAssetDeserializerFn_def)
  next
    case False
    let ?w = "w\<lparr>wk_deps := AddAssetDependency (wk_deps w) m\<rparr>"
    have "sane (wk_chunker ?w)" using w by simp
    then obtain v' w' where "f False TD_MAID ?w (MAID_val m) = Inr (True, v', w')" "after (wk_chunker ?w) (wk_chunker w')"
      using robustD[OF assms(1) _ assms(2)] by metis
    with False v show ?thesis by (simp add: meAssetSerializerFn_def)
  qed
qed

lemma robust_cong:
  assumes "robust f P" and "\<And>w v. P' v \<Longrightarrow> g w v = f w v" and "\<And>v. P' v = P v"
  shows "robust g P'"
  using assms by (simp add: robust_def)

lemma Chunk_robust:
  assumes fresh: "allocates fresh"
  shows "td_robust n td parent \<Longrightarrow>
     robust (ChunkWithTypeDescriptor fresh (Some a) n td parent h False) (wt n td parent)"
proof (induction n arbitrary: td parent h)
  case 0
  then show ?case by simp
next
  case (Suc n)
  note IH = Suc.IH
  show ?case
  proof (cases "shape_of td parent")
    case ShSkip
    then show ?thesis by (auto simp: robust_def Chunk_shape after_refl)
  next
    case (ShPrim p)
    show ?thesis
    proof (rule robustI)
      fix w :: walk and v
      assume w: "sane (wk_chunker w)" and "wt (Suc n) td parent v"
      with ShPrim obtain bs where v: "v = VPrim bs" "length bs = prim_size p" by (auto split: val.splits)
      from ChunkPrimitive_sane[OF w v(2)] obtain bs' c' where
        "ChunkPrimitiveWithTypeDescriptor p (wk_chunker w) bs = Inr (True, bs', c')"
        "length bs' = length bs" "after (wk_chunker w) c'" by blast
      with ShPrim v show "\<exists>v' w'. ChunkWithTypeDescriptor fresh (Some a) (Suc n) td parent h False w v = Inr (True, v', w') \<and>
          wt (Suc n) td parent v' \<and> after (wk_chunker w) (wk_chunker w')"
        by (simp add: Chunk_shape chunk_primitive_def)
    qed
  next
    case ShBuffer
    with buffer_robust[OF fresh] show ?thesis
      by (rule_tac robust_cong) (auto simp: Chunk_shape split: val.splits)
  next
    case (ShDyn e)
    let ?p = "elem_parent td parent"
    have ok: "td_robust n e (Some ?p)" "wt n e (Some ?p) (default_value e)" "wt n e (Some ?p) (td_zeroed e)"
      using ShDyn Suc.prems by simp_all
    have "robust (\<lambda>w v. ChunkDynArray ((\<lambda>h e. ChunkWithTypeDescriptor fresh (Some a) n e (Some ?p) h False) (h \<and> reading w))
          (Some a) ?p w v)
        (\<lambda>v. case v of VDyn arr \<Rightarrow> length (dyn_elems arr) < 4294967296 \<and> list_all (wt n e (Some ?p)) (dyn_elems arr) | _ \<Rightarrow> False)"
      using Chunk_dyn(1)[OF ShDyn] IH[OF ok(1)] ok(2,3) by (intro dyn_robust) auto
    then show ?thesis
      by (rule robust_cong) (auto simp: Chunk_dyn(2)[OF ShDyn] ShDyn split: val.splits)
  next
    case ShAsset
    with Suc.prems have n: "3 \<le> n" by simp
    note M = TD_MAID_robust[OF n]
    have "robust (\<lambda>w v. if reading w
        then meAssetDeserializerFn ((\<lambda>h t. ChunkWithTypeDescriptor fresh (Some a) n t None h False) h) h w v
        else bindR (meAssetSerializerFn ((\<lambda>h t. ChunkWithTypeDescriptor fresh (Some a) n t None h False) False) w v)
               (\<lambda>(ok, v, w'). Inr (ok, v, w')))
        (\<lambda>v. case v of VAsset _ _ _ \<Rightarrow> True | _ \<Rightarrow> False)"
      using IH[OF M(1)] TD_MAID_ok(2)[OF n] M(2)
      by (intro asset_robust[where P = "wt n TD_MAID None"]) auto
    then show ?thesis
      by (rule robust_cong) (auto simp: Chunk_shape ShAsset split: val.splits)
  next
    case (ShFixed k ty)
    show ?thesis
    proof (rule robustI)
      fix w :: walk and v
      assume w: "sane (wk_chunker w)" and "wt (Suc n) td parent v"
      with ShFixed obtain vs where v: "v = VFixed vs" "length vs = k" "list_all (wt n ty (Some td)) vs"
        by (auto split: val.splits)
      have "td_robust n ty (Some td)" using ShFixed Suc.prems by simp
      from chunk_elements_robust[OF IH[OF this] w v(3)] obtain vs' w' where
        "chunk_elements (ChunkWithTypeDescriptor fresh (Some a) n ty (Some td) h False) 0 w vs = Inr (True, vs', w')"
        "list_all (wt n ty (Some td)) vs'" "length vs' = length vs" "after (wk_chunker w) (wk_chunker w')" by blast
      with ShFixed v Chunk_fixed[OF ShFixed sane_binary[OF w] v(2)] binary_marks(7) sane_binary after_sane
      show "\<exists>v' w'. ChunkWithTypeDescriptor fresh (Some a) (Suc n) td parent h False w v = Inr (True, v', w') \<and>
          wt (Suc n) td parent v' \<and> after (wk_chunker w) (wk_chunker w')"
        by auto
    qed
  next
    case (ShAlias ty)
    with Suc.prems IH[of ty "Some td" h] show ?thesis
      by (rule_tac robust_cong) (auto simp: Chunk_shape)
  next
    case (ShStruct fds)
    show ?thesis
    proof (rule robustI)
      fix w :: walk and v
      assume w: "sane (wk_chunker w)" and "wt (Suc n) td parent v"
      with ShStruct obtain vs where v: "v = VStruct vs"
        "list_all2 (\<lambda>field v. visited field \<longrightarrow> wt n field (Some td) v) fds vs"
        by (auto split: val.splits)
      have "robust (ChunkWithTypeDescriptor fresh (Some a) n field (Some td) h False) (wt n field (Some td))"
        if "field \<in> set fds" "visited field" for field
        using ShStruct Suc.prems that by (intro IH) (auto simp: list_all_iff)
      from chunk_members_robust[OF this w v(2)] obtain vs' w' where
        "chunk_members (\<lambda>f. ChunkWithTypeDescriptor fresh (Some a) n f (Some td) h False) None w fds vs = Inr (True, vs', w')"
        "list_all2 (\<lambda>field v. visited field \<longrightarrow> wt n field (Some td) v) fds vs'"
        "after (wk_chunker w) (wk_chunker w')" by blast
      with ShStruct v binary_marks(5)[OF sane_binary[OF w]] binary_marks(6) sane_binary after_sane
      show "\<exists>v' w'. ChunkWithTypeDescriptor fresh (Some a) (Suc n) td parent h False w v = Inr (True, v', w') \<and>
          wt (Suc n) td parent v' \<and> after (wk_chunker w) (wk_chunker w')"
        by (auto simp: Chunk_struct)
    qed
  qed (use Suc.prems in simp_all)
qed

section \<open>Properties\<close>


definition id_list_type :: meTypeDescriptor where
  "id_list_type =
     TypeDesc [65]
       [field_desc [110] (prim_desc TD_VEC3),
        TypeDesc [97] [] 0 0 24 (Some (TypeDesc [] [] 0 0 24 None [] Fn_DynArray None (VDyn None)))
          [TD_MAID] Fn_none None (VDyn None)]
       0 0 40 None [] Fn_generated None (VStruct [VPrim (replicate 12 0), VDyn None])"


text \<open>
  A string whose length says 4294967295 is read into a block of 0 bytes: the size is computed
  as the length plus one on 32 bits. Four bytes of input are enough to write outside a block.
\<close>

theorem DoString_length_wraps:
  "DoString (\<lambda>n. replicate n b) (wk_chunker (bin_walk PRead [255, 255, 255, 255] None)) str (Some a) =
     Inl OutOfBounds"
proof -
  let ?c = "wk_chunker (bin_walk PRead [255, 255, 255, 255] None)"
  have "le_encode 4 4294967295 = [255, 255, 255, 255 :: u8]" by code_simp
  then have "ready (le_encode 4 4294967295) ?c" by (simp add: ready_def)
  then have "Do_u32 ?c (wrap32 (so_len str)) = Inr (4294967295, moved (le_encode 4 4294967295) ?c)"
    by (intro Do_u32_ready) (simp_all add: IsReadMode_def)
  moreover have "IsReadMode (moved (le_encode 4 4294967295) ?c)"
    by (simp add: IsReadMode_def)
  ultimately show ?thesis
    by (simp add: DoString_def DoArray_def wrap32_def)
qed

end
