(* ===== verification/TextWalks.thy ===== *)
theory TextWalks
  imports BinaryWalks
begin

text \<open>
  The text format and its correctness: \<open>json_val\<close> gives the JSON document of a value as a function,
  and the walk by type descriptor is proved to write it and to read it back. As for the binary
  format there is one predicate for an operation, \<open>writes_json\<close>, which sequencing keeps; it says
  what happens at a reference into a larger document. Only the conversion between the two
  floating-point widths is assumed, to be undone by its inverse.
\<close>

section \<open>JSON of a primitive\<close>

definition casts_exact :: "fcasts \<Rightarrow> bool" where
  "casts_exact fc \<longleftrightarrow> (\<forall>x. narrow fc (widen fc x) = x)"

definition json_prim :: "fcasts \<Rightarrow> PrimitiveKind \<Rightarrow> u8 list \<Rightarrow> json" where
  "json_prim fc kind bs = (case json_of_prim fc kind bs of Some j \<Rightarrow> j | None \<Rightarrow> JNull)"

lemma int_bytes_unsigned: "int_bytes (length bs) (int (le_decode bs)) = bs"
  using le_decode_less[of bs] by (simp add: int_bytes_def le_encode_decode nat_mod_distrib nat_power_eq)

lemma int_bytes_signed: "int_bytes (length bs) (signed_of bs) = bs"
proof -
  have "signed_of bs mod 256 ^ length bs = int (le_decode bs)"
  proof (cases "2 * le_decode bs < 256 ^ length bs")
    case True
    then have "int (le_decode bs) < 256 ^ length bs" using le_decode_less[of bs]
      by (metis of_nat_less_iff of_nat_numeral of_nat_power)
    with True show ?thesis by (simp add: signed_of_def Let_def)
  next
    case False
    have "int (le_decode bs) < 256 ^ length bs" using le_decode_less[of bs]
      by (metis of_nat_less_iff of_nat_numeral of_nat_power)
    moreover have "(int (le_decode bs) - 256 ^ length bs) mod 256 ^ length bs = int (le_decode bs) mod 256 ^ length bs"
      by simp
    ultimately show ?thesis using False by (simp add: signed_of_def Let_def)
  qed
  then show ?thesis by (simp add: int_bytes_def le_encode_decode)
qed

lemma word_image:
  "length bs = 4 \<Longrightarrow> le_encode 4 (unat (of_nat (le_decode bs) :: u32)) = bs"
  "length bs = 8 \<Longrightarrow> le_encode 8 (unat (of_nat (le_decode bs) :: u64)) = bs"
  using le_decode_less[of bs] le_encode_decode[of bs] by (simp_all add: unat_of_nat)

definition kind_size :: "PrimitiveKind \<Rightarrow> nat option" where
  "kind_size kind = (case kind of KF32 \<Rightarrow> Some 4 | KF64 \<Rightarrow> Some 8 | KBool \<Rightarrow> Some 1 | _ \<Rightarrow> None)"

definition prim_clean :: "PrimitiveKind \<Rightarrow> u8 list \<Rightarrow> bool" where
  "prim_clean kind bs \<longleftrightarrow>
     kind \<noteq> KRaw \<and> (kind = KF32 \<longrightarrow> length bs = 4) \<and> (kind = KF64 \<longrightarrow> length bs = 8) \<and>
     (kind = KBool \<longrightarrow> bs = [0] \<or> bs = [1])"

lemma prim_json_roundtrip:
  assumes "casts_exact fc" and "prim_clean kind bs"
  shows "json_of_prim fc kind bs = Some (json_prim fc kind bs)"
    and "prim_of_json fc kind (length bs) (json_prim fc kind bs) = Some (Inr bs)"
proof -
  show "json_of_prim fc kind bs = Some (json_prim fc kind bs)"
    using assms(2) by (cases kind) (simp_all add: json_prim_def json_of_prim_def prim_clean_def)
  show "prim_of_json fc kind (length bs) (json_prim fc kind bs) = Some (Inr bs)"
    using assms
    by (cases kind)
      (auto simp: json_prim_def json_of_prim_def prim_of_json_def prim_clean_def Let_def
        json_get_int_def json_get_f32_def json_get_f64_def json_get_bool_def
        int_bytes_signed int_bytes_unsigned word_image casts_exact_def)
qed

section \<open>References into a document\<close>

abbreviation in_text :: "walk \<Rightarrow> bool" where
  "in_text w \<equiv> ck_mode (wk_chunker w) = meSerializationMode_Text"

abbreviation writing :: "walk \<Rightarrow> bool" where
  "writing w \<equiv> IsWriteMode (wk_chunker w) \<or> IsMeasureMode (wk_chunker w)"

text \<open>The walk \<open>w\<close> with the document \<open>root\<close>, the reference \<open>p\<close> and the saved references \<open>ps\<close>.\<close>

definition at_ref :: "json \<Rightarrow> step list \<Rightarrow> step list list \<Rightarrow> walk \<Rightarrow> walk" where
  "at_ref root p ps w =
     w\<lparr>wk_chunker := (wk_chunker w)\<lparr>txt_root := Some root, txt_current := Some p, txt_stack := ps\<rparr>\<rparr>"

lemma at_ref_simps [simp]:
  "ck_mode (wk_chunker (at_ref root p ps w)) = ck_mode (wk_chunker w)"
  "ck_pass (wk_chunker (at_ref root p ps w)) = ck_pass (wk_chunker w)"
  "txt_casts (wk_chunker (at_ref root p ps w)) = txt_casts (wk_chunker w)"
  "txt_root (wk_chunker (at_ref root p ps w)) = Some root"
  "txt_current (wk_chunker (at_ref root p ps w)) = Some p"
  "txt_stack (wk_chunker (at_ref root p ps w)) = ps"
  "at_ref root' p' ps' (at_ref root p ps w) = at_ref root' p' ps' w"
  "IsReadMode (wk_chunker (at_ref root p ps w)) = IsReadMode (wk_chunker w)"
  "IsWriteMode (wk_chunker (at_ref root p ps w)) = IsWriteMode (wk_chunker w)"
  "IsMeasureMode (wk_chunker (at_ref root p ps w)) = IsMeasureMode (wk_chunker w)"
  by (simp_all add: at_ref_def IsReadMode_def IsWriteMode_def IsMeasureMode_def)

lemma at_ref_collapse [simp]:
  "(at_ref root p ps w)\<lparr>wk_chunker := (wk_chunker (at_ref root p ps w))\<lparr>txt_root := Some r\<rparr>\<rparr> = at_ref r p ps w"
  by (simp add: at_ref_def)

text \<open>The references collected or recorded by a part of the walk.\<close>

definition noted :: "bool \<Rightarrow> MAID list \<Rightarrow> walk \<Rightarrow> walk" where
  "noted h ids w =
     w\<lparr>wk_deps := (if reading w then wk_deps w else add_deps ids (wk_deps w)),
       wk_recorded := (if reading w \<and> h then wk_recorded w @ ids else wk_recorded w)\<rparr>"

lemma noted_simps [simp]:
  "wk_chunker (noted h ids w) = wk_chunker w"
  "noted h [] w = w"
  "noted h ids (at_ref root p ps w) = at_ref root p ps (noted h ids w)"
  "noted h ids2 (noted h ids1 w) = noted h (ids1 @ ids2) w"
  "noted (h \<and> reading w) ids w = noted h ids w"
  by (simp_all add: noted_def add_deps_def at_ref_def IsReadMode_def)

lemma text_value_at: "json_at root p = Some j \<Longrightarrow> text_value (wk_chunker (at_ref root p ps w)) = Inr j"
  by (simp add: text_value_def)

lemma text_assign_at:
  "json_at root p = Some old \<Longrightarrow>
     text_assign (wk_chunker (at_ref root p ps w)) j = Inr (wk_chunker (at_ref (json_put root p j) p ps w))"
  by (simp add: text_assign_def text_value_at) (simp add: at_ref_def)

lemma Field_writing:
  assumes "in_text w" and "writing w" and "json_at root p = Some (JObject kvs)"
    and "name \<notin> fst ` set kvs" and "length ps < 128"
  shows "on_chunker_with (\<lambda>c. Field c name) (at_ref root p ps w) =
     Inr (True, at_ref (json_put root p (JObject (obj_insert name JNull kvs))) (p @ [SKey name]) (p # ps) w)"
  using assms
  by (auto simp: on_chunker_with_def Field_def DoTextField_def text_value_at PushTextCurrent_def
      json_key_def IsReadMode_def IsWriteMode_def IsMeasureMode_def text_assign_def text_value_def at_ref_def)

lemma Field_reading:
  assumes "in_text w" and "reading w" and "json_at root p = Some (JObject kvs)"
    and "name \<in> fst ` set kvs" and "length ps < 128"
  shows "on_chunker_with (\<lambda>c. Field c name) (at_ref root p ps w) =
     Inr (True, at_ref root (p @ [SKey name]) (p # ps) w)"
  using assms json_put_self[OF assms(3)]
  by (auto simp: on_chunker_with_def Field_def DoTextField_def text_value_at PushTextCurrent_def
      json_key_def json_contains_def text_assign_def text_value_def at_ref_def)

lemma Element_writing:
  assumes "in_text w" and "writing w" and "json_at root p = Some (JArray js)"
    and "i = length js" and "length ps < 128"
  shows "on_chunker_with (\<lambda>c. Element c i) (at_ref root p ps w) =
     Inr (True, at_ref (json_put root p (JArray (js @ [JNull]))) (p @ [SIdx i]) (p # ps) w)"
  using assms
  by (auto simp: on_chunker_with_def Element_def DoTextElement_def text_value_at PushTextCurrent_def
      json_idx_def IsReadMode_def IsWriteMode_def IsMeasureMode_def text_assign_def text_value_def at_ref_def)

lemma Element_reading:
  assumes "in_text w" and "reading w" and "json_at root p = Some (JArray js)"
    and "i < length js" and "length ps < 128"
  shows "on_chunker_with (\<lambda>c. Element c i) (at_ref root p ps w) =
     Inr (True, at_ref root (p @ [SIdx i]) (p # ps) w)"
  using assms json_put_self[OF assms(3)]
  by (auto simp: on_chunker_with_def Element_def DoTextElement_def text_value_at PushTextCurrent_def
      json_idx_def json_size_def text_assign_def text_value_def at_ref_def)

lemma EndField_text:
  assumes "in_text w"
  shows "on_chunker EndField (at_ref root q (p # ps) w) = Inr (at_ref root p ps w)"
    and "on_chunker EndElement (at_ref root q (p # ps) w) = Inr (at_ref root p ps w)"
  using assms
  by (simp_all add: on_chunker_def EndField_def EndElement_def PopTextCurrent_def at_ref_def)

section \<open>Walks over documents\<close>

definition text_codes ::
    "fcasts \<Rightarrow> bool \<Rightarrow> nat \<Rightarrow> (walk \<Rightarrow> val \<Rightarrow> chunk_result) \<Rightarrow> val \<Rightarrow> val \<Rightarrow> json \<Rightarrow> MAID list \<Rightarrow> val \<Rightarrow> bool" where
  "text_codes fc h k f u v j ids v' \<longleftrightarrow>
     (\<forall>w root p ps. in_text w \<longrightarrow> txt_casts (wk_chunker w) = fc \<longrightarrow> length ps + k \<le> 128 \<longrightarrow>
        (writing w \<longrightarrow> json_at root p \<noteq> None \<longrightarrow>
           f (at_ref root p ps w) v = Inr (True, v, at_ref (json_put root p j) p ps (noted h ids w))) \<and>
        (reading w \<longrightarrow> json_at root p = Some j \<longrightarrow>
           f (at_ref root p ps w) u = Inr (True, v', at_ref root p ps (noted h ids w))))"

lemma text_codesD:
  assumes "text_codes fc h k f u v j ids v'" and "in_text w" and "txt_casts (wk_chunker w) = fc"
    and "length ps + k \<le> 128"
  shows "writing w \<Longrightarrow> json_at root p \<noteq> None \<Longrightarrow>
           f (at_ref root p ps w) v = Inr (True, v, at_ref (json_put root p j) p ps (noted h ids w))"
    and "reading w \<Longrightarrow> json_at root p = Some j \<Longrightarrow>
           f (at_ref root p ps w) u = Inr (True, v', at_ref root p ps (noted h ids w))"
  using assms unfolding text_codes_def by blast+

lemma writing_not_reading [simp]: "writing w \<Longrightarrow> \<not> reading w"
  by (auto simp: IsReadMode_def IsWriteMode_def IsMeasureMode_def)

lemma json_put_again: "json_at j p \<noteq> None \<Longrightarrow> json_put (json_put j p v) p w = json_put j p w"
  using json_put_put[of j p v "[]" w] by simp

lemma json_at_put_here: "json_at j p \<noteq> None \<Longrightarrow> json_at (json_put j p v) p = Some v"
  using json_at_put_below[of j p v "[]"] by simp

lemma elements_writing:
  assumes "\<And>v. v \<in> set vs \<Longrightarrow> text_codes fc h k f (old v) v (enc v) (ref v) (res v)"
    and "in_text w" and "txt_casts (wk_chunker w) = fc" and "length ps + Suc k \<le> 128" and "writing w"
    and "json_at root p = Some (JArray js)" and "i = length js"
  shows "chunk_elements f i (at_ref root p ps w) vs =
     Inr (True, vs, at_ref (json_put root p (JArray (js @ map enc vs))) p ps (noted h (concat (map ref vs)) w))"
  using assms
proof (induction vs arbitrary: i js root w)
  case Nil
  then show ?case by (simp add: json_put_self)
next
  case (Cons v vs)
  let ?r1 = "json_put root p (JArray (js @ [JNull]))" and ?r2 = "json_put root p (JArray (js @ [enc v]))"
  have p: "json_at root p \<noteq> None" using Cons.prems(6) by simp
  have el: "on_chunker_with (\<lambda>c. Element c i) (at_ref root p ps w) = Inr (True, at_ref ?r1 (p @ [SIdx i]) (p # ps) w)"
    using Cons.prems by (intro Element_writing) auto
  have in_r1: "json_at ?r1 (p @ [SIdx i]) \<noteq> None"
    using Cons.prems(7) by (simp add: json_at_put_below[OF p])
  have "json_put ?r1 (p @ [SIdx i]) (enc v) = ?r2"
    using Cons.prems(7) by (simp add: json_put_put[OF p])
  with text_codesD(1)[OF Cons.prems(1)[of v] Cons.prems(2,3) _ Cons.prems(5) in_r1, of "p # ps"] Cons.prems(4)
  have f: "f (at_ref ?r1 (p @ [SIdx i]) (p # ps) w) v =
      Inr (True, v, at_ref ?r2 (p @ [SIdx i]) (p # ps) (noted h (ref v) w))" by simp
  have rest: "chunk_elements f (Suc i) (at_ref ?r2 p ps (noted h (ref v) w)) vs =
      Inr (True, vs, at_ref (json_put ?r2 p (JArray ((js @ [enc v]) @ map enc vs))) p ps
        (noted h (concat (map ref vs)) (noted h (ref v) w)))"
    using Cons.prems by (intro Cons.IH) (simp_all add: json_at_put_here[OF p])
  have e: "on_chunker EndElement (at_ref ?r2 (p @ [SIdx i]) (p # ps) (noted h (ref v) w)) =
      Inr (at_ref ?r2 p ps (noted h (ref v) w))"
    using Cons.prems(2) by (intro EndField_text(2)) simp
  show ?case using el f e rest by (simp add: json_put_again[OF p])
qed

lemma elements_reading:
  assumes "length us = length vs"
    and "\<And>u v. (u, v) \<in> set (zip us vs) \<Longrightarrow> text_codes fc h k f u v (enc v) (ref v) (res u v)"
    and "in_text w" and "txt_casts (wk_chunker w) = fc" and "length ps + Suc k \<le> 128" and "reading w"
    and "json_at root p = Some (JArray (js @ map enc vs))" and "i = length js"
  shows "chunk_elements f i (at_ref root p ps w) us =
     Inr (True, map2 res us vs, at_ref root p ps (noted h (concat (map ref vs)) w))"
  using assms
proof (induction us vs arbitrary: i js w rule: list_induct2)
  case Nil
  then show ?case by simp
next
  case (Cons u us v vs)
  have el: "on_chunker_with (\<lambda>c. Element c i) (at_ref root p ps w) = Inr (True, at_ref root (p @ [SIdx i]) (p # ps) w)"
    by (rule Element_reading[OF Cons.prems(2,5,6)]) (use Cons.prems(4,7) in simp_all)
  have "json_at root (p @ [SIdx i]) = Some (enc v)"
    using Cons.prems(6,7) by (simp add: json_at_append)
  with text_codesD(2)[OF Cons.prems(1)[of u v] Cons.prems(2,3) _ Cons.prems(5), of "p # ps" root "p @ [SIdx i]"] Cons.prems(4)
  have f: "f (at_ref root (p @ [SIdx i]) (p # ps) w) u =
      Inr (True, res u v, at_ref root (p @ [SIdx i]) (p # ps) (noted h (ref v) w))" by simp
  have rest: "chunk_elements f (Suc i) (at_ref root p ps (noted h (ref v) w)) us =
      Inr (True, map2 res us vs, at_ref root p ps (noted h (concat (map ref vs)) (noted h (ref v) w)))"
    using Cons.prems by (intro Cons.IH[where js = "js @ [enc v]"]) simp_all
  have e: "on_chunker EndElement (at_ref root (p @ [SIdx i]) (p # ps) (noted h (ref v) w)) =
      Inr (at_ref root p ps (noted h (ref v) w))"
    using Cons.prems(2) by (intro EndField_text(2)) simp
  show ?case using el f e rest by simp
qed

text \<open>The members of an object: those of the fields that are visited.\<close>

fun json_members_onto ::
    "(u8 list \<times> json) list \<Rightarrow> (meTypeDescriptor \<Rightarrow> val \<Rightarrow> json) \<Rightarrow> meTypeDescriptor list \<Rightarrow> val list \<Rightarrow> (u8 list \<times> json) list" where
  "json_members_onto kvs enc (field # fds) (v # vs) =
     json_members_onto (if visited field then obj_insert (td_name field) (enc field v) kvs else kvs) enc fds vs"
| "json_members_onto kvs enc _ _ = kvs"

abbreviation json_members ::
    "(meTypeDescriptor \<Rightarrow> val \<Rightarrow> json) \<Rightarrow> meTypeDescriptor list \<Rightarrow> val list \<Rightarrow> (u8 list \<times> json) list" where
  "json_members \<equiv> json_members_onto []"

definition field_names :: "meTypeDescriptor list \<Rightarrow> u8 list list" where
  "field_names fds = map td_name (filter visited fds)"

lemma members_writing:
  assumes "length vs = length fds"
    and "\<And>field v. (field, v) \<in> set (zip fds vs) \<Longrightarrow> visited field \<Longrightarrow>
           \<exists>u r. text_codes fc h k (f field) u v (enc field v) (ref field v) r"
    and "\<And>field v. \<not> visited field \<Longrightarrow> ref field v = []"
    and "in_text w" and "txt_casts (wk_chunker w) = fc" and "length ps + Suc k \<le> 128" and "writing w"
    and "json_at root p = Some (JObject kvs)" and "distinct (field_names fds)" and "fst ` set kvs \<inter> set (field_names fds) = {}"
  shows "chunk_members f None (at_ref root p ps w) fds vs =
     Inr (True, vs, at_ref (json_put root p (JObject (json_members_onto kvs enc fds vs))) p ps
       (noted h (concat (map2 ref fds vs)) w))"
  using assms
proof (induction fds arbitrary: vs kvs root w)
  case Nil
  then show ?case by (simp add: json_put_self)
next
  case (Cons field fds)
  from Cons.prems(1) obtain v vs' where vs: "vs = v # vs'" by (cases vs) auto
  have p: "json_at root p \<noteq> None" using Cons.prems(8) by simp
  show ?case
  proof (cases "visited field")
    case False
    have "chunk_members f None (at_ref root p ps w) fds vs' =
       Inr (True, vs', at_ref (json_put root p (JObject (json_members_onto kvs enc fds vs'))) p ps
         (noted h (concat (map2 ref fds vs')) w))"
      using Cons.prems False vs by (intro Cons.IH) (simp_all add: field_names_def)
    with False vs Cons.prems(3) show ?thesis by simp
  next
    case True
    let ?n = "td_name field"
    let ?r1 = "json_put root p (JObject (obj_insert ?n JNull kvs))"
    let ?kvs = "obj_insert ?n (enc field v) kvs"
    let ?r2 = "json_put root p (JObject ?kvs)"
    have new: "?n \<notin> fst ` set kvs" using Cons.prems(10) True by (auto simp: field_names_def)
    have fl: "on_chunker_with (\<lambda>c. Field c ?n) (at_ref root p ps w) = Inr (True, at_ref ?r1 (p @ [SKey ?n]) (p # ps) w)"
      by (rule Field_writing[OF Cons.prems(4,7,8) new]) (use Cons.prems(6) in simp)
    have in_r1: "json_at ?r1 (p @ [SKey ?n]) \<noteq> None"
      by (simp add: json_at_put_below[OF p])
    have "json_put ?r1 (p @ [SKey ?n]) (enc field v) = ?r2"
      by (simp add: json_put_put[OF p])
    moreover obtain u r where tc: "text_codes fc h k (f field) u v (enc field v) (ref field v) r"
      using Cons.prems(2)[of field v] vs True by auto
    ultimately have f: "f field (at_ref ?r1 (p @ [SKey ?n]) (p # ps) w) v =
        Inr (True, v, at_ref ?r2 (p @ [SKey ?n]) (p # ps) (noted h (ref field v) w))"
      using text_codesD(1)[OF tc Cons.prems(4,5) _ Cons.prems(7) in_r1, of "p # ps"] Cons.prems(6) by simp
    have rest: "chunk_members f None (at_ref ?r2 p ps (noted h (ref field v) w)) fds vs' =
       Inr (True, vs', at_ref (json_put ?r2 p (JObject (json_members_onto ?kvs enc fds vs'))) p ps
         (noted h (concat (map2 ref fds vs')) (noted h (ref field v) w)))"
      using Cons.prems True vs by (intro Cons.IH) (auto simp: field_names_def json_at_put_here[OF p])
    have e: "on_chunker EndField (at_ref ?r2 (p @ [SKey ?n]) (p # ps) (noted h (ref field v) w)) =
        Inr (at_ref ?r2 p ps (noted h (ref field v) w))"
      using Cons.prems(4) by (intro EndField_text(1)) simp
    show ?thesis
      using True vs fl f e rest by (simp add: json_put_again[OF p])
  qed
qed

lemma members_reading:
  assumes "length us = length fds" and "length vs = length fds"
    and "\<And>field u v. (field, u, v) \<in> set (zip fds (zip us vs)) \<Longrightarrow> visited field \<Longrightarrow>
           text_codes fc h k (f field) u v (enc field v) (ref field v) (res field u v)"
    and "\<And>field v. \<not> visited field \<Longrightarrow> ref field v = []"
    and "\<And>field u v. \<not> visited field \<Longrightarrow> res field u v = u"
    and "in_text w" and "txt_casts (wk_chunker w) = fc" and "length ps + Suc k \<le> 128" and "reading w"
    and "json_at root p = Some (JObject kvs)"
    and "\<And>field v. (field, v) \<in> set (zip fds vs) \<Longrightarrow> visited field \<Longrightarrow> map_of kvs (td_name field) = Some (enc field v)"
  shows "chunk_members f None (at_ref root p ps w) fds us =
     Inr (True, map2 (\<lambda>field (u, v). res field u v) fds (zip us vs),
          at_ref root p ps (noted h (concat (map2 ref fds vs)) w))"
  using assms
proof (induction fds arbitrary: us vs w)
  case Nil
  then show ?case by simp
next
  case (Cons field fds)
  from Cons.prems(1,2) obtain u us' v vs' where uv: "us = u # us'" "vs = v # vs'"
    by (metis length_Suc_conv)
  show ?case
  proof (cases "visited field")
    case False
    have "chunk_members f None (at_ref root p ps w) fds us' =
       Inr (True, map2 (\<lambda>field (u, v). res field u v) fds (zip us' vs'),
            at_ref root p ps (noted h (concat (map2 ref fds vs')) w))"
      using Cons.prems uv by (intro Cons.IH) simp_all
    with False uv Cons.prems(4,5) show ?thesis by simp
  next
    case True
    let ?n = "td_name field"
    have m: "map_of kvs ?n = Some (enc field v)" using Cons.prems(11)[of field v] uv True by simp
    have fl: "on_chunker_with (\<lambda>c. Field c ?n) (at_ref root p ps w) = Inr (True, at_ref root (p @ [SKey ?n]) (p # ps) w)"
    proof (rule Field_reading[OF Cons.prems(6,9,10)])
      show "?n \<in> fst ` set kvs" using m by (metis map_of_SomeD fst_conv image_eqI)
    qed (use Cons.prems(8) in simp)
    have "json_at root (p @ [SKey ?n]) = Some (enc field v)"
      using Cons.prems(10) m by (simp add: json_at_append)
    with text_codesD(2)[OF Cons.prems(3)[of field u v] Cons.prems(6,7) _ Cons.prems(9), of "p # ps" root "p @ [SKey ?n]"]
      Cons.prems(8) uv True
    have f: "f field (at_ref root (p @ [SKey ?n]) (p # ps) w) u =
        Inr (True, res field u v, at_ref root (p @ [SKey ?n]) (p # ps) (noted h (ref field v) w))" by simp
    have rest: "chunk_members f None (at_ref root p ps (noted h (ref field v) w)) fds us' =
       Inr (True, map2 (\<lambda>field (u, v). res field u v) fds (zip us' vs'),
            at_ref root p ps (noted h (concat (map2 ref fds vs')) (noted h (ref field v) w)))"
      using Cons.prems uv by (intro Cons.IH) simp_all
    have e: "on_chunker EndField (at_ref root (p @ [SKey ?n]) (p # ps) (noted h (ref field v) w)) =
        Inr (at_ref root p ps (noted h (ref field v) w))"
      using Cons.prems(6) by (intro EndField_text(1)) simp
    show ?thesis using True uv fl f e rest by simp
  qed
qed

lemma json_members_onto_other:
  "name \<notin> set (field_names fds) \<Longrightarrow> map_of (json_members_onto kvs enc fds vs) name = map_of kvs name"
  by (induction kvs enc fds vs rule: json_members_onto.induct) (auto simp: field_names_def)

lemma json_members_lookup:
  assumes "distinct (field_names fds)" and "(field, v) \<in> set (zip fds vs)" and "visited field"
  shows "map_of (json_members_onto kvs enc fds vs) (td_name field) = Some (enc field v)"
  using assms
proof (induction kvs enc fds vs rule: json_members_onto.induct)
  case (1 kvs enc fd fds x vs)
  show ?case
  proof (cases "(field, v) \<in> set (zip fds vs)")
    case True
    with 1 show ?thesis by (simp add: field_names_def split: if_splits)
  next
    case False
    with 1 have "field = fd" "v = x" by auto
    with 1(2,4) show ?thesis by (simp add: json_members_onto_other field_names_def)
  qed
qed simp_all

section \<open>Primitives, buffers and strings in text\<close>

lemma text_codes_weaken: "text_codes fc h k f u v j ids v' \<Longrightarrow> k \<le> k' \<Longrightarrow> text_codes fc h k' f u v j ids v'"
  by (simp add: text_codes_def)

lemma DoPrimitive_writing:
  assumes "in_text w" and "writing w" and "txt_casts (wk_chunker w) = fc" and "json_at root p \<noteq> None"
    and "casts_exact fc" and "prim_clean kind bs"
  shows "DoPrimitive (wk_chunker (at_ref root p ps w)) bs kind =
           Inr (bs, wk_chunker (at_ref (json_put root p (json_prim fc kind bs)) p ps w))"
proof -
  from assms(4) obtain old where old: "json_at root p = Some old" by blast
  show ?thesis
    using assms text_value_at[OF old, of ps w] text_assign_at[OF old, of ps w] prim_json_roundtrip(1)[OF assms(5,6)]
    by (simp add: DoPrimitive_def DoTextPrimitive_def)
qed

lemma DoPrimitive_reading:
  assumes "in_text w" and "reading w" and "txt_casts (wk_chunker w) = fc"
    and "json_at root p = Some (json_prim fc kind bs)" and "length x = length bs"
    and "casts_exact fc" and "prim_clean kind bs"
  shows "DoPrimitive (wk_chunker (at_ref root p ps w)) x kind = Inr (bs, wk_chunker (at_ref root p ps w))"
proof -
  have "\<not> writing w" using assms(2) by (auto dest: writing_not_reading)
  then show ?thesis
    using assms text_value_at[OF assms(4), of ps w] prim_json_roundtrip(2)[OF assms(6,7)]
    by (simp add: DoPrimitive_def DoTextPrimitive_def)
qed

lemma scalar_text_codes:
  assumes "p \<noteq> TD_VEC3" and "p \<noteq> TD_QUAT" and "length x = length bs"
    and "casts_exact fc" and "prim_clean (prim_kind p) bs"
  shows "text_codes fc h k (chunk_primitive p) (VPrim x) (VPrim bs) (json_prim fc (prim_kind p) bs) [] (VPrim bs)"
  unfolding text_codes_def
proof (intro allI impI conjI)
  fix w :: walk and root q and ps :: "step list list"
  assume w: "in_text w" "txt_casts (wk_chunker w) = fc"
  show "chunk_primitive p (at_ref root q ps w) (VPrim bs) =
      Inr (True, VPrim bs, at_ref (json_put root q (json_prim fc (prim_kind p) bs)) q ps (noted h [] w))"
    if "writing w" "json_at root q \<noteq> None"
    using DoPrimitive_writing[OF w(1) that(1) w(2) that(2) assms(4,5), of ps] assms(1,2)
    by (simp add: chunk_primitive_def ChunkPrimitiveWithTypeDescriptor_def) (simp add: at_ref_def)
  show "chunk_primitive p (at_ref root q ps w) (VPrim x) =
      Inr (True, VPrim bs, at_ref root q ps (noted h [] w))"
    if "reading w" "json_at root q = Some (json_prim fc (prim_kind p) bs)"
    using DoPrimitive_reading[OF w(1) that(1) w(2) that(2) assms(3-5), of ps] assms(1,2)
    by (simp add: chunk_primitive_def ChunkPrimitiveWithTypeDescriptor_def)
qed

text \<open>A vector is an array of floats.\<close>

lemma on_chunker_with_Inr:
  "on_chunker_with f w = Inr (x, w') \<Longrightarrow> f (wk_chunker w) = Inr (x, wk_chunker w') \<and> w' = w\<lparr>wk_chunker := wk_chunker w'\<rparr>"
  by (auto simp: on_chunker_with_def bindR_Inr)

lemma on_chunker_Inr:
  "on_chunker f w = Inr w' \<Longrightarrow> f (wk_chunker w) = Inr (wk_chunker w') \<and> w' = w\<lparr>wk_chunker := wk_chunker w'\<rparr>"
  by (auto simp: on_chunker_def bindR_Inr)

lemma float_loop_elements:
  assumes "chunk_elements (chunk_primitive TD_FLOAT) i w (map VPrim (float_images bs n)) = Inr (True, map VPrim xs, w')"
    and "length bs = 4 * n"
  shows "float_loop (wk_chunker w) i bs n = Inr (True, concat xs, wk_chunker w') \<and> w' = w\<lparr>wk_chunker := wk_chunker w'\<rparr>"
  using assms
proof (induction n arbitrary: i w bs xs)
  case 0
  then show ?case by simp
next
  case (Suc n)
  from Suc.prems(1) obtain w1 x w2 w3 vs where
    a: "on_chunker_with (\<lambda>c. Element c i) w = Inr (True, w1)" and
    b: "chunk_primitive TD_FLOAT w1 (VPrim (take 4 bs)) = Inr (True, x, w2)" and
    c: "on_chunker EndElement w2 = Inr w3" and
    d: "chunk_elements (chunk_primitive TD_FLOAT) (Suc i) w3 (map VPrim (float_images (drop 4 bs) n)) = Inr (True, vs, w')" and
    e: "map VPrim xs = x # vs"
    by (auto simp: bindR_Inr split: if_splits prod.splits)
  from e obtain y ys where xs: "xs = y # ys" "x = VPrim y" "vs = map VPrim ys" by auto
  from Suc.IH[OF d[unfolded xs(3)]] Suc.prems(2)
  have r: "float_loop (wk_chunker w3) (Suc i) (drop 4 bs) n = Inr (True, concat ys, wk_chunker w')"
    and w': "w' = w3\<lparr>wk_chunker := wk_chunker w'\<rparr>" by simp_all
  from b xs have p: "DoPrimitive (wk_chunker w1) (take 4 bs) KF32 = Inr (y, wk_chunker w2)"
    and w2: "w2 = w1\<lparr>wk_chunker := wk_chunker w2\<rparr>"
    by (auto simp: chunk_primitive_def ChunkPrimitiveWithTypeDescriptor_def prim_kind_def bindR_Inr)
  note a' = on_chunker_with_Inr[OF a] and c' = on_chunker_Inr[OF c]
  have "w' = w\<lparr>wk_chunker := wk_chunker w'\<rparr>"
  proof -
    have "w1 = w\<lparr>wk_chunker := wk_chunker w1\<rparr>" using a' by blast
    moreover have "w3 = w2\<lparr>wk_chunker := wk_chunker w3\<rparr>" using c' by blast
    ultimately show ?thesis using w' w2 by (cases w; cases w1; cases w2; cases w3; cases w') simp
  qed
  then show ?case using a' p c' r xs by simp
qed

lemma begin_array_writing:
  assumes "writing w" and "json_at root p \<noteq> None"
  shows "DoTextBeginArray (wk_chunker (at_ref root p ps w)) n =
           Inr (True, n, wk_chunker (at_ref (json_put root p (JArray [])) p ps w))"
proof -
  from assms(2) obtain old where old: "json_at root p = Some old" by blast
  show ?thesis
    using assms(1) text_value_at[OF old, of ps w] text_assign_at[OF old, of ps w]
    by (simp add: DoTextBeginArray_def)
qed

lemma begin_array_reading:
  assumes "reading w" and "json_at root p = Some (JArray js)" and "length js < 4294967296"
  shows "DoTextBeginArray (wk_chunker (at_ref root p ps w)) n =
           Inr (True, length js, wk_chunker (at_ref root p ps w))"
proof -
  have "\<not> writing w" using assms(1) by (auto dest: writing_not_reading)
  then show ?thesis
    using assms text_value_at[OF assms(2), of ps w]
    by (simp add: DoTextBeginArray_def json_is_array_def json_size_def)
qed

lemma length_float_images [simp]: "length (float_images bs n) = n"
  by (induction n arbitrary: bs) auto

lemma float_images_4: "length bs = 4 * n \<Longrightarrow> x \<in> set (float_images bs n) \<Longrightarrow> length x = 4"
  by (induction n arbitrary: bs) force+

lemma concat_float_images: "length bs = 4 * n \<Longrightarrow> concat (float_images bs n) = bs"
  by (induction n arbitrary: bs) auto

definition json_floats :: "fcasts \<Rightarrow> u8 list \<Rightarrow> nat \<Rightarrow> json" where
  "json_floats fc bs n = JArray (map (json_prim fc KF32) (float_images bs n))"

definition image_json :: "fcasts \<Rightarrow> val \<Rightarrow> json" where
  "image_json fc v = (case v of VPrim b \<Rightarrow> json_prim fc KF32 b | _ \<Rightarrow> JNull)"

lemma ChunkFloatArray_text:
  assumes fc: "casts_exact fc" and len: "length bs = 4 * n" "length x = 4 * n" and n: "n < 4294967296"
    and w: "in_text w" "txt_casts (wk_chunker w) = fc" and d: "length ps + 1 \<le> 128"
  shows "writing w \<Longrightarrow> json_at root p \<noteq> None \<Longrightarrow>
      ChunkFloatArray (wk_chunker (at_ref root p ps w)) bs n =
        Inr (True, bs, wk_chunker (at_ref (json_put root p (json_floats fc bs n)) p ps w))"
    and "reading w \<Longrightarrow> json_at root p = Some (json_floats fc bs n) \<Longrightarrow>
      ChunkFloatArray (wk_chunker (at_ref root p ps w)) x n = Inr (True, bs, wk_chunker (at_ref root p ps w))"
proof -
  let ?vs = "map VPrim (float_images bs n)" and ?us = "map VPrim (float_images x n)"
  have one: "text_codes fc False 0 (chunk_primitive TD_FLOAT) (VPrim a) (VPrim b) (json_prim fc KF32 b) [] (VPrim b)"
    if "length a = 4" "length b = 4" for a b
    using scalar_text_codes[of TD_FLOAT a b fc False 0] that fc by (simp add: prim_clean_def prim_kind_def)
  have comp: "image_json fc \<circ> VPrim = json_prim fc KF32"
    by (simp add: image_json_def fun_eq_iff)
  then have js: "map (image_json fc) ?vs = map (json_prim fc KF32) (float_images bs n)"
    by simp
  note cat = concat_float_images[OF len(1)]
  {
    assume wr: "writing w" and at: "json_at root p \<noteq> None"
    let ?r = "json_put root p (JArray [])"
    have "chunk_elements (chunk_primitive TD_FLOAT) 0 (at_ref ?r p ps w) ?vs =
        Inr (True, ?vs, at_ref (json_put ?r p (JArray ([] @ map (image_json fc) ?vs))) p ps (noted False (concat (map (\<lambda>_. []) ?vs)) w))"
    proof (rule elements_writing[where k = 0 and old = "\<lambda>v. v" and res = "\<lambda>v. v"])
      show "text_codes fc False 0 (chunk_primitive TD_FLOAT) v v (image_json fc v) [] v" if "v \<in> set ?vs" for v
        using that one float_images_4[OF len(1)] by (auto simp: image_json_def)
    qed (use w d wr at in \<open>simp_all add: json_at_put_here\<close>)
    then have "chunk_elements (chunk_primitive TD_FLOAT) 0 (at_ref ?r p ps w) ?vs =
        Inr (True, ?vs, at_ref (json_put root p (json_floats fc bs n)) p ps w)"
      using at by (simp add: comp json_put_again json_floats_def concat_eq_Nil_conv[THEN iffD2])
    from float_loop_elements[OF this len(1)] begin_array_writing[OF wr at, of ps n] w
    show "ChunkFloatArray (wk_chunker (at_ref root p ps w)) bs n =
        Inr (True, bs, wk_chunker (at_ref (json_put root p (json_floats fc bs n)) p ps w))"
      by (simp add: ChunkFloatArray_def BeginFixedArray_def EndArray_def cat)
  }
  {
    assume rd: "reading w" and at: "json_at root p = Some (json_floats fc bs n)"
    have "chunk_elements (chunk_primitive TD_FLOAT) 0 (at_ref root p ps w) ?us =
        Inr (True, map2 (\<lambda>_ v. v) ?us ?vs, at_ref root p ps (noted False (concat (map (\<lambda>_. []) ?vs)) w))"
    proof (rule elements_reading[where k = 0 and enc = "image_json fc" and js = "[]"])
      show "text_codes fc False 0 (chunk_primitive TD_FLOAT) u v (image_json fc v) [] v" if "(u, v) \<in> set (zip ?us ?vs)" for u v
        using that one float_images_4[OF len(1)] float_images_4[OF len(2)]
        by (auto simp: image_json_def zip_map_map elim!: in_set_zipE)
    qed (use w d rd at in \<open>simp_all add: js json_floats_def image_json_def\<close>)
    moreover have "map2 (\<lambda>_ v. v) ?us ?vs = ?vs"
      by (rule nth_equalityI) simp_all
    ultimately have "chunk_elements (chunk_primitive TD_FLOAT) 0 (at_ref root p ps w) ?us =
        Inr (True, ?vs, at_ref root p ps w)"
      by (simp add: concat_eq_Nil_conv[THEN iffD2])
    from float_loop_elements[OF this len(2)] begin_array_reading[OF rd at[unfolded json_floats_def], of ps n] w n
    show "ChunkFloatArray (wk_chunker (at_ref root p ps w)) x n = Inr (True, bs, wk_chunker (at_ref root p ps w))"
      by (simp add: ChunkFloatArray_def BeginFixedArray_def EndArray_def cat)
  }
qed

definition json_of_type :: "fcasts \<Rightarrow> prim_td \<Rightarrow> u8 list \<Rightarrow> json" where
  "json_of_type fc p bs =
     (if p = TD_VEC3 then json_floats fc bs 3 else if p = TD_QUAT then json_floats fc bs 4
      else json_prim fc (prim_kind p) bs)"

lemma vector_text_codes:
  assumes "p = TD_VEC3 \<and> n = 3 \<or> p = TD_QUAT \<and> n = 4" and "length bs = 4 * n" and "length x = 4 * n"
    and "casts_exact fc"
  shows "text_codes fc h 1 (chunk_primitive p) (VPrim x) (VPrim bs) (json_floats fc bs n) [] (VPrim bs)"
  unfolding text_codes_def
proof (intro allI impI conjI)
  fix w :: walk and root q and ps :: "step list list"
  assume w: "in_text w" "txt_casts (wk_chunker w) = fc" "length ps + 1 \<le> 128"
  have n: "n < 4294967296" using assms(1) by auto
  note F = ChunkFloatArray_text[OF assms(4,2,3) n w]
  have p: "ChunkPrimitiveWithTypeDescriptor p c d = ChunkFloatArray c d n" for c d
    using assms(1) by (auto simp: ChunkPrimitiveWithTypeDescriptor_def)
  show "chunk_primitive p (at_ref root q ps w) (VPrim bs) =
      Inr (True, VPrim bs, at_ref (json_put root q (json_floats fc bs n)) q ps (noted h [] w))"
    if "writing w" "json_at root q \<noteq> None"
    using F(1)[OF that] by (simp add: chunk_primitive_def p) (simp add: at_ref_def)
  show "chunk_primitive p (at_ref root q ps w) (VPrim x) = Inr (True, VPrim bs, at_ref root q ps (noted h [] w))"
    if "reading w" "json_at root q = Some (json_floats fc bs n)"
    using F(2)[OF that] by (simp add: chunk_primitive_def p)
qed

lemma primitive_text_codes:
  assumes "length bs = prim_size p" and "length x = prim_size p" and "p = TD_BOOL \<longrightarrow> bs = [0] \<or> bs = [1]"
    and "casts_exact fc"
  shows "text_codes fc h 1 (chunk_primitive p) (VPrim x) (VPrim bs) (json_of_type fc p bs) [] (VPrim bs)"
proof (cases "p = TD_VEC3 \<or> p = TD_QUAT")
  case True
  with assms vector_text_codes[of p 3 bs x fc h] vector_text_codes[of p 4 bs x fc h] show ?thesis
    by (auto simp: json_of_type_def prim_size_def)
next
  case False
  then have "prim_clean (prim_kind p) bs"
    using assms(1,3) by (cases p) (auto simp: prim_clean_def prim_kind_def prim_size_def)
  with False assms scalar_text_codes[of p x bs fc h 0] show ?thesis
    by (auto simp: json_of_type_def intro: text_codes_weaken)
qed

lemma buffer_text_codes:
  "text_codes fc h k (\<lambda>w v. if reading w then sizedBufferDeserializer fresh (Some a) w v
                        else sizedBufferSerializer fresh w v)
     (VSpan t) (VSpan s) (JString (span_bytes s)) [] (VSpan (Some (span_bytes s)))"
  unfolding text_codes_def
proof (intro allI impI conjI)
  fix w :: walk and root q and ps :: "step list list"
  assume w: "in_text w"
  let ?f = "\<lambda>w v. if reading w then sizedBufferDeserializer fresh (Some a) w v else sizedBufferSerializer fresh w v"
  show "?f (at_ref root q ps w) (VSpan s) =
      Inr (True, VSpan s, at_ref (json_put root q (JString (span_bytes s))) q ps (noted h [] w))"
    if wr: "writing w" and at: "json_at root q \<noteq> None"
  proof -
    from at obtain old where old: "json_at root q = Some old" by blast
    from wr have "\<not> reading w" by simp
    with w wr text_value_at[OF old, of ps w] text_assign_at[OF old, of ps w] show ?thesis
      by (simp add: sizedBufferSerializer_def on_chunker_with_def DoBytes_def DoTextBytes_def)
        (simp add: at_ref_def)
  qed
  show "?f (at_ref root q ps w) (VSpan t) =
      Inr (True, VSpan (Some (span_bytes s)), at_ref root q ps (noted h [] w))"
    if rd: "reading w" and at: "json_at root q = Some (JString (span_bytes s))"
  proof -
    have "\<not> writing w" using rd by (auto dest: writing_not_reading)
    with w rd text_value_at[OF at, of ps w] show ?thesis
      by (cases t) (simp_all add: sizedBufferDeserializer_def on_chunker_with_def DoBytes_def DoTextBytes_def)
  qed
qed

lemma string_text_codes:
  "text_codes fc h k (\<lambda>w v. if reading w then stringDeserializer fresh (Some a) w v
                        else stringSerializer fresh w v)
     (VString t) (VString s) (JString (so_bytes s)) [] (VString (String_of (so_bytes s)))"
  unfolding text_codes_def
proof (intro allI impI conjI)
  fix w :: walk and root q and ps :: "step list list"
  assume w: "in_text w"
  let ?f = "\<lambda>w v. if reading w then stringDeserializer fresh (Some a) w v else stringSerializer fresh w v"
  show "?f (at_ref root q ps w) (VString s) =
      Inr (True, VString s, at_ref (json_put root q (JString (so_bytes s))) q ps (noted h [] w))"
    if wr: "writing w" and at: "json_at root q \<noteq> None"
  proof -
    from at obtain old where old: "json_at root q = Some old" by blast
    from wr have "\<not> reading w" by simp
    with w wr text_value_at[OF old, of ps w] text_assign_at[OF old, of ps w] show ?thesis
      by (simp add: stringSerializer_def on_chunker_with_def DoString_def) (simp add: at_ref_def)
  qed
  show "?f (at_ref root q ps w) (VString t) =
      Inr (True, VString (String_of (so_bytes s)), at_ref root q ps (noted h [] w))"
    if rd: "reading w" and at: "json_at root q = Some (JString (so_bytes s))"
  proof -
    have "\<not> writing w" using rd by (auto dest: writing_not_reading)
    with w rd text_value_at[OF at, of ps w] show ?thesis
      by (simp add: stringDeserializer_def on_chunker_with_def DoString_def json_get_string_def)
  qed
qed

lemma asset_text_codes:
  assumes "\<And>h. text_codes fc h k (f h TD_MAID) (MAID_val MAID_INVALID) (MAID_val m) j [] (MAID_val m)"
  shows "text_codes fc h k (\<lambda>w v. if reading w then meAssetDeserializerFn (f h) h w v
                        else bindR (meAssetSerializerFn (f False) w v) (\<lambda>(ok, v, w'). Inr (ok, v, w')))
           (VAsset m0 e0 s0) (VAsset m e s) j [m] (VAsset m EYE_INVALID Unloaded)"
  unfolding text_codes_def
proof (intro allI impI conjI)
  fix w :: walk and root q and ps :: "step list list"
  assume w: "in_text w" "txt_casts (wk_chunker w) = fc" "length ps + k \<le> 128"
  let ?f = "\<lambda>w v. if reading w then meAssetDeserializerFn (f h) h w v
                  else bindR (meAssetSerializerFn (f False) w v) (\<lambda>(ok, v, w'). Inr (ok, v, w'))"
  show "?f (at_ref root q ps w) (VAsset m e s) =
      Inr (True, VAsset m e s, at_ref (json_put root q j) q ps (noted h [m] w))"
    if wr: "writing w" and at: "json_at root q \<noteq> None"
  proof -
    let ?w = "w\<lparr>wk_deps := AddAssetDependency (wk_deps w) m\<rparr>"
    have w': "(at_ref root q ps w)\<lparr>wk_deps := AddAssetDependency (wk_deps (at_ref root q ps w)) m\<rparr> = at_ref root q ps ?w"
      by (simp add: at_ref_def)
    have nr: "\<not> reading w" using wr by simp
    then have n: "noted h [m] w = ?w" by (simp add: noted_def add_deps_def)
    have "f False TD_MAID (at_ref root q ps ?w) (MAID_val m) =
        Inr (True, MAID_val m, at_ref (json_put root q j) q ps ?w)"
      using text_codesD(1)[OF assms[of False], of ?w ps root q] w wr at by simp
    with nr n w' show ?thesis by (simp add: meAssetSerializerFn_def)
  qed
  show "?f (at_ref root q ps w) (VAsset m0 e0 s0) =
      Inr (True, VAsset m EYE_INVALID Unloaded, at_ref root q ps (noted h [m] w))"
    if rd: "reading w" and at: "json_at root q = Some j"
  proof -
    have "f h TD_MAID (at_ref root q ps w) (MAID_val MAID_INVALID) = Inr (True, MAID_val m, at_ref root q ps w)"
      using text_codesD(2)[OF assms[of h] w rd at] by simp
    with rd show ?thesis
      by (simp add: meAssetDeserializerFn_def noted_def) (simp add: at_ref_def)
  qed
qed

lemma text_codes_default:
  assumes "text_codes fc h k f (default_value e) v j ids v'"
  shows "text_codes fc h k (\<lambda>w v. f w (element_default e w v)) (td_zeroed e) v j ids v'"
proof -
  have "element_default e (at_ref root p ps w) x =
      (if reading w then (case td_defaults e of Some d \<Rightarrow> d | None \<Rightarrow> x) else x)" for root p ps w x
    by (simp add: element_default_def)
  with assms show ?thesis
    by (auto simp: text_codes_def default_value_def dest: writing_not_reading split: option.splits)
qed

lemma at_ref_chunker [simp]:
  "(at_ref root p ps w)\<lparr>wk_chunker := wk_chunker (at_ref root' p' ps' w)\<rparr> = at_ref root' p' ps' w"
  by (simp add: at_ref_def)

lemma dyn_text_codes:
  assumes "td_templatedTypes fieldDesc = [e]" and "length (dyn_elems arr) < 4294967296"
    and el: "\<And>h x. x \<in> set (dyn_elems arr) \<Longrightarrow> text_codes fc h k (f h e) (default_value e) x (enc x) (ref x) (res x)"
  shows "text_codes fc h (Suc k) (\<lambda>w v. ChunkDynArray (f (h \<and> reading w)) (Some a) fieldDesc w v) (VDyn arr0) (VDyn arr)
           (JArray (map enc (dyn_elems arr))) (concat (map ref (dyn_elems arr)))
           (VDyn (Some (map res (dyn_elems arr))))"
  unfolding text_codes_def
proof (intro allI impI conjI)
  fix w :: walk and root p and ps :: "step list list"
  assume w: "in_text w" "txt_casts (wk_chunker w) = fc" "length ps + Suc k \<le> 128"
  let ?vs = "dyn_elems arr"
  let ?us = "replicate (length ?vs) (td_zeroed e)"
  let ?f = "\<lambda>h w v. f h e w (element_default e w v)"
  have single: "meTypeDescriptorGetSingleTemplateArg fieldDesc = Inr e"
    using assms(1) by (simp add: meTypeDescriptorGetSingleTemplateArg_def)
  have el': "text_codes fc h k (?f h) (td_zeroed e) x (enc x) (ref x) (res x)" if "x \<in> set ?vs" for h x
    using text_codes_default[OF el[OF that]] .
  have arr_end: "on_chunker EndArray w' = Inr w'" for w' by (simp add: on_chunker_def EndArray_def)
  show "ChunkDynArray (f (h \<and> reading (at_ref root p ps w))) (Some a) fieldDesc (at_ref root p ps w) (VDyn arr) =
      Inr (True, VDyn arr, at_ref (json_put root p (JArray (map enc ?vs))) p ps (noted h (concat (map ref ?vs)) w))"
    if wr: "writing w" and at: "json_at root p \<noteq> None"
  proof -
    let ?r = "json_put root p (JArray [])"
    have "chunk_elements (?f False) 0 (at_ref ?r p ps w) ?vs =
        Inr (True, ?vs, at_ref (json_put ?r p (JArray ([] @ map enc ?vs))) p ps (noted False (concat (map ref ?vs)) w))"
      by (rule elements_writing[where k = k and old = "\<lambda>_. td_zeroed e" and res = res])
        (use w wr at el' in \<open>simp_all add: json_at_put_here\<close>)
    moreover have "noted False ids w = noted h ids w" for ids using wr by (simp add: noted_def)
    ultimately have elems: "chunk_elements (?f False) 0 (at_ref ?r p ps w) ?vs =
        Inr (True, ?vs, at_ref (json_put root p (JArray (map enc ?vs))) p ps (noted h (concat (map ref ?vs)) w))"
      by (simp add: json_put_again[OF at])
    have nr: "\<not> reading w" using wr by simp
    show ?thesis
      using begin_array_writing[OF wr at, of ps "length ?vs"] elems single arr_end nr w(1)
      by (cases arr) (simp_all add: ChunkDynArray_def BeginArray_def dyn_elems_def Let_def)
  qed
  show "ChunkDynArray (f (h \<and> reading (at_ref root p ps w))) (Some a) fieldDesc (at_ref root p ps w) (VDyn arr0) =
      Inr (True, VDyn (Some (map res ?vs)), at_ref root p ps (noted h (concat (map ref ?vs)) w))"
    if rd: "reading w" and at: "json_at root p = Some (JArray (map enc ?vs))"
  proof -
    have "chunk_elements (?f h) 0 (at_ref root p ps w) ?us =
        Inr (True, map2 (\<lambda>_. res) ?us ?vs, at_ref root p ps (noted h (concat (map ref ?vs)) w))"
    proof (rule elements_reading[where k = k and js = "[]" and enc = enc])
      show "text_codes fc h k (?f h) u v (enc v) (ref v) (res v)" if "(u, v) \<in> set (zip ?us ?vs)" for u v
        using that el' by (auto elim!: in_set_zipE)
    qed (use w rd at in simp_all)
    then show ?thesis
      using begin_array_reading[OF rd at, of ps] assms(2) single arr_end rd w(1)
      by (simp add: ChunkDynArray_def BeginArray_def Let_def map2_replicate)
  qed
qed

section \<open>The document of a value\<close>

fun json_val :: "fcasts \<Rightarrow> nat \<Rightarrow> meTypeDescriptor \<Rightarrow> meTypeDescriptor option \<Rightarrow> val \<Rightarrow> json" where
  "json_val fc 0 td parent v = JNull"
| "json_val fc (Suc n) td parent v =
     (case (shape_of td parent, v) of
        (ShPrim p, VPrim bs) \<Rightarrow> json_of_type fc p bs
      | (ShBuffer, VSpan s) \<Rightarrow> JString (span_bytes s)
      | (ShString, VString s) \<Rightarrow> JString (so_bytes s)
      | (ShDyn e, VDyn arr) \<Rightarrow> JArray (map (json_val fc n e (Some (elem_parent td parent))) (dyn_elems arr))
      | (ShAsset, VAsset m _ _) \<Rightarrow> json_val fc n TD_MAID None (MAID_val m)
      | (ShFixed k ty, VFixed vs) \<Rightarrow> JArray (map (json_val fc n ty (Some td)) vs)
      | (ShAlias ty, v) \<Rightarrow> json_val fc n ty (Some td) v
      | (ShStruct fds, VStruct vs) \<Rightarrow>
           JObject (json_members (\<lambda>field v. json_val fc n field (Some td) v) fds vs)
      | _ \<Rightarrow> JNull)"

text \<open>
  What the text format asks of a type beyond the binary one, distinct names in every struct and
  no part that is left out, and of a value: a boolean is 0 or 1, an array fits its count.
\<close>

fun text_ok :: "nat \<Rightarrow> meTypeDescriptor \<Rightarrow> meTypeDescriptor option \<Rightarrow> bool" where
  "text_ok 0 td parent = False"
| "text_ok (Suc n) td parent =
     (case shape_of td parent of
        ShSkip \<Rightarrow> False
      | ShBad \<Rightarrow> False
      | ShDyn e \<Rightarrow> text_ok n e (Some (elem_parent td parent))
      | ShFixed k ty \<Rightarrow> k < 4294967296 \<and> text_ok n ty (Some td)
      | ShAlias ty \<Rightarrow> text_ok n ty (Some td)
      | ShStruct fds \<Rightarrow> distinct (field_names fds) \<and>
           list_all (\<lambda>field. visited field \<longrightarrow> text_ok n field (Some td)) fds
      | _ \<Rightarrow> True)"

fun bools_ok :: "nat \<Rightarrow> meTypeDescriptor \<Rightarrow> meTypeDescriptor option \<Rightarrow> val \<Rightarrow> bool" where
  "bools_ok 0 td parent v = False"
| "bools_ok (Suc n) td parent v =
     (case (shape_of td parent, v) of
        (ShPrim p, VPrim bs) \<Rightarrow> p = TD_BOOL \<longrightarrow> bs = [0] \<or> bs = [1]
      | (ShDyn e, VDyn arr) \<Rightarrow> list_all (bools_ok n e (Some (elem_parent td parent))) (dyn_elems arr)
      | (ShFixed k ty, VFixed vs) \<Rightarrow> list_all (bools_ok n ty (Some td)) vs
      | (ShAlias ty, v) \<Rightarrow> bools_ok n ty (Some td) v
      | (ShStruct fds, VStruct vs) \<Rightarrow>
           list_all2 (\<lambda>field v. visited field \<longrightarrow> bools_ok n field (Some td) v) fds vs
      | _ \<Rightarrow> True)"

lemma TD_MAID_text:
  assumes "3 \<le> n"
  shows "text_ok n TD_MAID None" and "bools_ok n TD_MAID None (MAID_val m)"
proof -
  obtain k where n: "n = Suc (Suc (Suc k))"
    using assms by (metis Suc_le_D numeral_3_eq_3 Suc_le_mono)
  show "text_ok n TD_MAID None" "bools_ok n TD_MAID None (MAID_val m)"
    unfolding n
    by (simp_all add: TD_MAID_shape TD_MAID_fields MAID_val_def field_names_def)
      (simp_all add: field_desc_def)
qed

lemma Chunk_fixed_text:
  assumes "shape_of td parent = ShFixed k ty" and "in_text w" and "length vs = k"
    and "DoTextBeginArray (wk_chunker w) k = Inr (True, k, wk_chunker w')" and "w' = w\<lparr>wk_chunker := wk_chunker w'\<rparr>"
  shows "ChunkWithTypeDescriptor fresh alloc (Suc n) td parent h False w (VFixed vs) =
      bindR (chunk_elements (ChunkWithTypeDescriptor fresh alloc n ty (Some td) h False) 0 w' vs)
        (\<lambda>(ok, vs', w). bindR (on_chunker EndArray w) (\<lambda>w. Inr (ok, VFixed vs', w)))"
proof -
  have w': "w\<lparr>wk_chunker := wk_chunker w'\<rparr> = w'" using assms(5) by simp
  show ?thesis
    using assms(1-4)
    by (auto simp: shape_of_def Let_def BeginFixedArray_def w' ChunkWithTypeDescriptor.simps
        split: if_splits td_fns.splits option.splits list.splits)
qed

lemma BeginObject_text:
  assumes "in_text w"
  shows "writing w \<Longrightarrow> json_at root p \<noteq> None \<Longrightarrow>
      on_chunker_with BeginObject (at_ref root p ps w) = Inr (True, at_ref (json_put root p (JObject [])) p ps w)"
    and "reading w \<Longrightarrow> json_at root p = Some (JObject kvs) \<Longrightarrow>
      on_chunker_with BeginObject (at_ref root p ps w) = Inr (True, at_ref root p ps w)"
proof -
  assume wr: "writing w" and "json_at root p \<noteq> None"
  then obtain old where old: "json_at root p = Some old" by blast
  show "on_chunker_with BeginObject (at_ref root p ps w) = Inr (True, at_ref (json_put root p (JObject [])) p ps w)"
    using assms wr text_value_at[OF old, of ps w] text_assign_at[OF old, of ps w]
    by (simp add: on_chunker_with_def BeginObject_def DoTextBeginObject_def)
next
  assume rd: "reading w" and at: "json_at root p = Some (JObject kvs)"
  have "\<not> writing w" using rd by (auto dest: writing_not_reading)
  with assms rd text_value_at[OF at, of ps w]
  show "on_chunker_with BeginObject (at_ref root p ps w) = Inr (True, at_ref root p ps w)"
    by (simp add: on_chunker_with_def BeginObject_def DoTextBeginObject_def json_is_object_def)
qed

text \<open>The walk writes and reads the document.\<close>

lemma fixed_text_codes:
  assumes sh: "shape_of td parent = ShFixed k ty" and len: "length us = k" "length vs = k" and k: "k < 4294967296"
    and el: "\<And>x y. (x, y) \<in> set (zip us vs) \<Longrightarrow>
      text_codes fc h n (ChunkWithTypeDescriptor fresh (Some a) n ty (Some td) h False) x y (enc y) (ref y) (res x y)"
  shows "text_codes fc h (Suc n) (ChunkWithTypeDescriptor fresh (Some a) (Suc n) td parent h False)
     (VFixed us) (VFixed vs) (JArray (map enc vs)) (concat (map ref vs)) (VFixed (map2 res us vs))"
  unfolding text_codes_def
proof (intro allI impI conjI)
  fix w :: walk and root p and ps :: "step list list"
  assume w: "in_text w" "txt_casts (wk_chunker w) = fc" "length ps + Suc n \<le> 128"
  let ?f = "ChunkWithTypeDescriptor fresh (Some a) n ty (Some td) h False"
  have arr_end: "on_chunker EndArray w' = Inr w'" for w' by (simp add: on_chunker_def EndArray_def)
  show "ChunkWithTypeDescriptor fresh (Some a) (Suc n) td parent h False (at_ref root p ps w) (VFixed vs) =
      Inr (True, VFixed vs, at_ref (json_put root p (JArray (map enc vs))) p ps (noted h (concat (map ref vs)) w))"
    if wr: "writing w" and at: "json_at root p \<noteq> None"
  proof -
    let ?r = "json_put root p (JArray [])"
    have "chunk_elements ?f 0 (at_ref ?r p ps w) vs =
        Inr (True, vs, at_ref (json_put ?r p (JArray ([] @ map enc vs))) p ps (noted h (concat (map ref vs)) w))"
    proof (rule elements_writing[where k = n])
      show "text_codes fc h n ?f (us ! (SOME i. i < k \<and> vs ! i = v)) v (enc v) (ref v)
          (res (us ! (SOME i. i < k \<and> vs ! i = v)) v)" if v: "v \<in> set vs" for v
      proof -
        let ?i = "SOME i. i < k \<and> vs ! i = v"
        have "\<exists>i. i < k \<and> vs ! i = v" using v len(2) by (auto simp: in_set_conv_nth)
        then have "?i < k \<and> vs ! ?i = v" by (rule someI_ex)
        then have "(us ! ?i, v) \<in> set (zip us vs)" using len by (auto simp: set_zip)
        then show ?thesis by (rule el)
      qed
    qed (use w wr at in \<open>simp_all add: json_at_put_here\<close>)
    moreover have "ChunkWithTypeDescriptor fresh (Some a) (Suc n) td parent h False (at_ref root p ps w) (VFixed vs) =
        bindR (chunk_elements ?f 0 (at_ref ?r p ps w) vs)
          (\<lambda>(ok, vs', w). bindR (on_chunker EndArray w) (\<lambda>w. Inr (ok, VFixed vs', w)))"
      using w begin_array_writing[OF wr at] len by (intro Chunk_fixed_text[OF sh]) auto
    ultimately show ?thesis by (simp add: arr_end json_put_again[OF at])
  qed
  show "ChunkWithTypeDescriptor fresh (Some a) (Suc n) td parent h False (at_ref root p ps w) (VFixed us) =
      Inr (True, VFixed (map2 res us vs), at_ref root p ps (noted h (concat (map ref vs)) w))"
    if rd: "reading w" and at: "json_at root p = Some (JArray (map enc vs))"
  proof -
    have "chunk_elements ?f 0 (at_ref root p ps w) us =
        Inr (True, map2 res us vs, at_ref root p ps (noted h (concat (map ref vs)) w))"
      by (rule elements_reading[where k = n and js = "[]" and enc = enc])
        (use w rd at len el in simp_all)
    moreover have "ChunkWithTypeDescriptor fresh (Some a) (Suc n) td parent h False (at_ref root p ps w) (VFixed us) =
        bindR (chunk_elements ?f 0 (at_ref root p ps w) us)
          (\<lambda>(ok, vs', w). bindR (on_chunker EndArray w) (\<lambda>w. Inr (ok, VFixed vs', w)))"
      using w begin_array_reading[OF rd at] len k by (intro Chunk_fixed_text[OF sh]) auto
    ultimately show ?thesis by (simp add: arr_end)
  qed
qed

lemma struct_text_codes:
  assumes sh: "shape_of td parent = ShStruct fds" and len: "length us = length fds" "length vs = length fds"
    and d: "distinct (field_names fds)"
    and el: "\<And>field x y. (field, x, y) \<in> set (zip fds (zip us vs)) \<Longrightarrow> visited field \<Longrightarrow>
      text_codes fc h n (ChunkWithTypeDescriptor fresh (Some a) n field (Some td) h False) x y
        (enc field y) (ref field y) (res field x y)"
    and skip: "\<And>field v. \<not> visited field \<Longrightarrow> ref field v = []" "\<And>field u v. \<not> visited field \<Longrightarrow> res field u v = u"
  shows "text_codes fc h (Suc n) (ChunkWithTypeDescriptor fresh (Some a) (Suc n) td parent h False)
     (VStruct us) (VStruct vs) (JObject (json_members enc fds vs)) (concat (map2 ref fds vs))
     (VStruct (map2 (\<lambda>field (u, v). res field u v) fds (zip us vs)))"
  unfolding text_codes_def
proof (intro allI impI conjI)
  fix w :: walk and root p and ps :: "step list list"
  assume w: "in_text w" "txt_casts (wk_chunker w) = fc" "length ps + Suc n \<le> 128"
  let ?f = "\<lambda>f. ChunkWithTypeDescriptor fresh (Some a) n f (Some td) h False"
  have obj_end: "on_chunker EndObject w' = Inr w'" for w' by (simp add: on_chunker_def EndObject_def)
  show "ChunkWithTypeDescriptor fresh (Some a) (Suc n) td parent h False (at_ref root p ps w) (VStruct vs) =
      Inr (True, VStruct vs, at_ref (json_put root p (JObject (json_members enc fds vs))) p ps
        (noted h (concat (map2 ref fds vs)) w))"
    if wr: "writing w" and at: "json_at root p \<noteq> None"
  proof -
    let ?r = "json_put root p (JObject [])"
    have "chunk_members ?f None (at_ref ?r p ps w) fds vs =
        Inr (True, vs, at_ref (json_put ?r p (JObject (json_members enc fds vs))) p ps
          (noted h (concat (map2 ref fds vs)) w))"
    proof (rule members_writing[where k = n])
      fix field v
      assume "(field, v) \<in> set (zip fds vs)" and vis: "visited field"
      then obtain i where "i < length fds" "field = fds ! i" "v = vs ! i" using len by (auto simp: set_zip)
      then have "(field, us ! i, v) \<in> set (zip fds (zip us vs))" using len by (auto simp: set_zip)
      from el[OF this vis] show "\<exists>u r. text_codes fc h n (?f field) u v (enc field v) (ref field v) r" by blast
    qed (use w wr at len d skip in \<open>simp_all add: json_at_put_here\<close>)
    then show ?thesis
      using BeginObject_text(1)[OF w(1) wr at, of ps]
      by (simp add: Chunk_struct[OF sh] obj_end json_put_again[OF at])
  qed
  show "ChunkWithTypeDescriptor fresh (Some a) (Suc n) td parent h False (at_ref root p ps w) (VStruct us) =
      Inr (True, VStruct (map2 (\<lambda>field (u, v). res field u v) fds (zip us vs)),
           at_ref root p ps (noted h (concat (map2 ref fds vs)) w))"
    if rd: "reading w" and at: "json_at root p = Some (JObject (json_members enc fds vs))"
  proof -
    have "chunk_members ?f None (at_ref root p ps w) fds us =
        Inr (True, map2 (\<lambda>field (u, v). res field u v) fds (zip us vs),
             at_ref root p ps (noted h (concat (map2 ref fds vs)) w))"
      by (rule members_reading[where k = n and enc = enc, OF len el skip w rd at])
        (use json_members_lookup[OF d] in simp_all)
    then show ?thesis
      using BeginObject_text(2)[OF w(1) rd at, of ps] by (simp add: Chunk_struct[OF sh] obj_end)
  qed
qed

lemma text_codes_cong:
  assumes "text_codes fc h k f u v j ids v'" and "\<And>w x. g w x = f w x"
  shows "text_codes fc h k g u v j ids v'"
  using assms by (simp add: text_codes_def)

lemma Chunk_text_codes:
  assumes fc: "casts_exact fc"
  shows "td_ok n td parent \<Longrightarrow> text_ok n td parent \<Longrightarrow> wt n td parent u \<Longrightarrow> wt n td parent v \<Longrightarrow>
     bools_ok n td parent v \<Longrightarrow>
     text_codes fc h n (ChunkWithTypeDescriptor fresh (Some a) n td parent h False) u v
       (json_val fc n td parent v) (asset_refs n td parent v) (restored n td parent u v)"
proof (induction n arbitrary: td parent u v h)
  case 0
  then show ?case by simp
next
  case (Suc n)
  note IH = Suc.IH
  show ?case
  proof (cases "shape_of td parent")
    case (ShPrim p)
    with Suc.prems obtain x y where uv: "u = VPrim x" "v = VPrim y" "length x = prim_size p" "length y = prim_size p"
      "p = TD_BOOL \<longrightarrow> y = [0] \<or> y = [1]"
      by (auto split: val.splits)
    have "text_codes fc h (Suc n) (chunk_primitive p) (VPrim x) (VPrim y) (json_of_type fc p y) [] (VPrim y)"
      using primitive_text_codes[OF uv(4,3,5) fc] by (rule text_codes_weaken) simp
    with ShPrim uv(1,2) show ?thesis by (simp add: text_codes_def Chunk_shape)
  next
    case ShBuffer
    with Suc.prems obtain x y where uv: "u = VSpan x" "v = VSpan y" by (auto split: val.splits)
    show ?thesis
      using buffer_text_codes[of fc h "Suc n" fresh a x y] ShBuffer uv by (simp add: Chunk_shape)
  next
    case ShString
    with Suc.prems obtain x y where uv: "u = VString x" "v = VString y" by (auto split: val.splits)
    show ?thesis
      using string_text_codes[of fc h "Suc n" fresh a x y] ShString uv by (simp add: Chunk_shape)
  next
    case (ShDyn e)
    let ?p = "elem_parent td parent"
    from ShDyn Suc.prems obtain x y where uv: "u = VDyn x" "v = VDyn y" "length (dyn_elems y) < 4294967296"
      "list_all (wt n e (Some ?p)) (dyn_elems y)" "list_all (bools_ok n e (Some ?p)) (dyn_elems y)"
      by (auto split: val.splits)
    have ok: "td_ok n e (Some ?p)" "text_ok n e (Some ?p)" "wt n e (Some ?p) (default_value e)"
      using ShDyn Suc.prems(1,2) by simp_all
    have "text_codes fc h (Suc n)
        (\<lambda>w v. ChunkDynArray ((\<lambda>h e. ChunkWithTypeDescriptor fresh (Some a) n e (Some ?p) h False) (h \<and> reading w)) (Some a) ?p w v)
        (VDyn x) (VDyn y) (JArray (map (json_val fc n e (Some ?p)) (dyn_elems y)))
        (concat (map (asset_refs n e (Some ?p)) (dyn_elems y)))
        (VDyn (Some (map (restored n e (Some ?p) (default_value e)) (dyn_elems y))))"
      using Chunk_dyn(1)[OF ShDyn] uv IH[OF ok] by (intro dyn_text_codes) (auto simp: list_all_iff)
    with ShDyn uv(1,2) show ?thesis by (simp add: text_codes_def Chunk_dyn(2))
  next
    case ShAsset
    with Suc.prems obtain m e s m0 e0 s0 where uv: "v = VAsset m e s" "u = VAsset m0 e0 s0" and n: "3 \<le> n"
      by (auto split: val.splits)
    note M = TD_MAID_ok[OF n] TD_MAID_text[OF n]
    have "text_codes fc h n (ChunkWithTypeDescriptor fresh (Some a) n TD_MAID None h False)
        (MAID_val MAID_INVALID) (MAID_val m) (json_val fc n TD_MAID None (MAID_val m)) [] (MAID_val m)" for h
      using IH[where td = TD_MAID and parent = None and u = "MAID_val MAID_INVALID" and v = "MAID_val m",
          OF M(1,6) M(2) M(2) M(7)]
      by (simp add: M)
    then have "text_codes fc h n (\<lambda>w v. if reading w
        then meAssetDeserializerFn (\<lambda>t. ChunkWithTypeDescriptor fresh (Some a) n t None h False) h w v
        else bindR (meAssetSerializerFn (\<lambda>t. ChunkWithTypeDescriptor fresh (Some a) n t None False False) w v)
               (\<lambda>(ok, v, w'). Inr (ok, v, w')))
        (VAsset m0 e0 s0) (VAsset m e s) (json_val fc n TD_MAID None (MAID_val m)) [m] (VAsset m EYE_INVALID Unloaded)"
      by (rule asset_text_codes[where f = "\<lambda>h t. ChunkWithTypeDescriptor fresh (Some a) n t None h False"])
    then have "text_codes fc h n (ChunkWithTypeDescriptor fresh (Some a) (Suc n) td parent h False)
        (VAsset m0 e0 s0) (VAsset m e s) (json_val fc n TD_MAID None (MAID_val m)) [m] (VAsset m EYE_INVALID Unloaded)"
      by (rule text_codes_cong) (simp add: Chunk_shape ShAsset)
    then show ?thesis
      using ShAsset uv text_codes_weaken[where k = n and k' = "Suc n"] by simp
  next
    case (ShFixed k ty)
    with Suc.prems obtain us vs where uv: "u = VFixed us" "v = VFixed vs" "length us = k" "length vs = k"
      "list_all (wt n ty (Some td)) us" "list_all (wt n ty (Some td)) vs" "list_all (bools_ok n ty (Some td)) vs"
      and ok: "td_ok n ty (Some td)" "text_ok n ty (Some td)" "k < 4294967296"
      by (auto split: val.splits)
    have "text_codes fc h n (ChunkWithTypeDescriptor fresh (Some a) n ty (Some td) h False) x y
        (json_val fc n ty (Some td) y) (asset_refs n ty (Some td) y) (restored n ty (Some td) x y)"
      if "(x, y) \<in> set (zip us vs)" for x y
      using uv(5-7) that by (intro IH[OF ok(1,2)]) (auto simp: list_all_iff elim: in_set_zipE)
    from fixed_text_codes[OF ShFixed uv(3,4) ok(3) this] ShFixed uv(1,2) show ?thesis by simp
  next
    case (ShAlias ty)
    with Suc.prems have "text_codes fc h n (ChunkWithTypeDescriptor fresh (Some a) n ty (Some td) h False) u v
        (json_val fc n ty (Some td) v) (asset_refs n ty (Some td) v) (restored n ty (Some td) u v)"
      by (intro IH) simp_all
    then have "text_codes fc h n (ChunkWithTypeDescriptor fresh (Some a) (Suc n) td parent h False) u v
        (json_val fc n ty (Some td) v) (asset_refs n ty (Some td) v) (restored n ty (Some td) u v)"
      by (rule text_codes_cong) (simp add: Chunk_shape ShAlias)
    then show ?thesis
      using ShAlias text_codes_weaken[where k = n and k' = "Suc n"] by simp
  next
    case (ShStruct fds)
    with Suc.prems obtain us vs where uv: "u = VStruct us" "v = VStruct vs"
      "list_all2 (\<lambda>field v. visited field \<longrightarrow> wt n field (Some td) v) fds us"
      "list_all2 (\<lambda>field v. visited field \<longrightarrow> wt n field (Some td) v) fds vs"
      "list_all2 (\<lambda>field v. visited field \<longrightarrow> bools_ok n field (Some td) v) fds vs"
      and ok: "list_all (\<lambda>field. visited field \<longrightarrow> td_ok n field (Some td)) fds"
        "list_all (\<lambda>field. visited field \<longrightarrow> text_ok n field (Some td)) fds" "distinct (field_names fds)"
      by (auto split: val.splits)
    then have len: "length us = length fds" "length vs = length fds"
      by (auto dest: list_all2_lengthD)
    have "text_codes fc h n (ChunkWithTypeDescriptor fresh (Some a) n field (Some td) h False) x y
        (json_val fc n field (Some td) y) (if visited field then asset_refs n field (Some td) y else [])
        (if visited field then restored n field (Some td) x y else x)"
      if "(field, x, y) \<in> set (zip fds (zip us vs))" "visited field" for field x y
    proof -
      from that(1) have "(field, x) \<in> set (zip fds us)" "(field, y) \<in> set (zip fds vs)"
        by (auto simp: set_zip)
      then have "text_codes fc h n (ChunkWithTypeDescriptor fresh (Some a) n field (Some td) h False) x y
          (json_val fc n field (Some td) y) (asset_refs n field (Some td) y) (restored n field (Some td) x y)"
        using uv(3-5) ok that(2) by (intro IH) (auto simp: list_all2_iff list_all_iff dest: set_zip_leftD)
      with that(2) show ?thesis by simp
    qed
    from struct_text_codes[where ref = "\<lambda>field v. if visited field then asset_refs n field (Some td) v else []"
        and res = "\<lambda>field u v. if visited field then restored n field (Some td) u v else u",
        OF ShStruct len ok(3) this] ShStruct uv(1,2)
    show ?thesis by simp
  qed (use Suc.prems in simp_all)
qed

section \<open>Properties\<close>

text \<open>A walk over the document \<open>root\<close> from its root.\<close>

definition text_walk :: "fcasts \<Rightarrow> Pass \<Rightarrow> json \<Rightarrow> walk" where
  "text_walk fc pass root =
     \<lparr>wk_chunker = \<lparr>ck_mode = meSerializationMode_Text, ck_pass = pass, ck_valid = True, bin_buf = [],
                    bin_cursor = 0, txt_root = Some root, txt_current = Some [], txt_stack = [], txt_output = None,
                    txt_casts = fc\<rparr>,
      wk_deps = None, wk_recorded = []\<rparr>"

lemma text_walk_chunker:
  "meChunker fc parse meSerializationMode_Text PWrite (Some a) None = Inr (wk_chunker (text_walk fc PWrite (JObject [])))"
  "parse input = Some root \<Longrightarrow>
     meChunker fc parse meSerializationMode_Text PRead (Some a) (Some input) = Inr (wk_chunker (text_walk fc PRead root))"
  by (simp_all add: meChunker_def InitText_def TextStateInitForWrite_def TextStateInitForRead_def
      IsReadMode_def text_walk_def)

text \<open>
  C18. Text serialisation by type descriptor. For every type whose structs have distinct member
  names, every value of it and a nesting depth within the chunker's stack of 128 references,
  writing leaves in the document the JSON of the value, and reading that document over any
  value of the type restores the value, as the binary format does. Converting an f32 to an f64
  and back is assumed to give the f32 again.
\<close>

theorem Chunk_text_roundtrip:
  assumes "casts_exact fc" and "td_ok n td None" and "text_ok n td None" and "n \<le> 128"
    and "wt n td None v" and "bools_ok n td None v" and "wt n td None u"
  shows
    "(\<exists>w. ChunkWithTypeDescriptor fresh (Some a) n td None False False (text_walk fc PWrite (JObject [])) v = Inr (True, v, w) \<and>
         IsWriteMode (wk_chunker w) \<and> txt_root (wk_chunker w) = Some (json_val fc n td None v) \<and>
         txt_stack (wk_chunker w) = []) \<and>
     (\<exists>w. ChunkWithTypeDescriptor fresh (Some a) n td None h False (text_walk fc PRead (json_val fc n td None v)) u =
           Inr (True, restored n td None u v, w) \<and>
         IsReadMode (wk_chunker w) \<and> txt_root (wk_chunker w) = Some (json_val fc n td None v))"
proof -
  have c: "text_codes fc h n (ChunkWithTypeDescriptor fresh (Some a) n td None h False) u v
      (json_val fc n td None v) (asset_refs n td None v) (restored n td None u v)" for h
    by (rule Chunk_text_codes[OF assms(1-3) assms(7,5,6)])
  have w: "in_text (text_walk fc pass root)" "txt_casts (wk_chunker (text_walk fc pass root)) = fc"
    "at_ref root [] [] (text_walk fc pass root) = text_walk fc pass root" for pass root
    by (simp_all add: text_walk_def at_ref_def)
  have p: "writing (text_walk fc PWrite root)" "IsReadMode (wk_chunker (text_walk fc PRead root))" for root
    by (simp_all add: text_walk_def IsReadMode_def IsWriteMode_def)
  let ?j = "json_val fc n td None v"
  have "ChunkWithTypeDescriptor fresh (Some a) n td None False False (text_walk fc PWrite (JObject [])) v =
      Inr (True, v, at_ref ?j [] [] (noted False (asset_refs n td None v) (text_walk fc PWrite (JObject []))))"
    using text_codesD(1)[OF c[of False] w(1,2) _ p(1), of "[]" "JObject []" "[]" "JObject []"] assms(4) by (simp add: w(3))
  moreover have "ChunkWithTypeDescriptor fresh (Some a) n td None h False (text_walk fc PRead ?j) u =
      Inr (True, restored n td None u v, at_ref ?j [] [] (noted h (asset_refs n td None v) (text_walk fc PRead ?j)))"
    using text_codesD(2)[OF c[of h] w(1,2) _ p(2), of "[]" ?j "[]" ?j] assms(4) by (simp add: w(3))
  ultimately show ?thesis by (simp add: text_walk_def IsReadMode_def IsWriteMode_def)
qed

theorem Chunk_text_roundtrip_witness:
  "\<exists>w r. ChunkWithTypeDescriptor (\<lambda>n. replicate n 0) (Some 0) 7 example_type None False False
       (text_walk no_casts PWrite (JObject [])) example_value = Inr (True, example_value, w) \<and>
     txt_root (wk_chunker w) = Some r \<and>
     r = JObject [([97], JArray [JObject [([105, 100], JInt 7), ([116, 121, 112, 101], JInt 4)]]),
                ([110], JInt 67305985), ([115], JString [104, 105])]"
proof -
  have "ucast (ucast x :: u64) = x" for x :: u32
    by (rule bit_word_eqI) (simp add: bit_ucast_iff)
  then have "casts_exact no_casts" by (simp add: casts_exact_def no_casts_def)
  moreover have "text_ok 7 example_type None" "bools_ok 7 example_type None example_value" by code_simp+
  moreover have "json_val no_casts 7 example_type None example_value =
      JObject [([97], JArray [JObject [([105, 100], JInt 7), ([116, 121, 112, 101], JInt 4)]]),
                ([110], JInt 67305985), ([115], JString [104, 105])]"
    by code_simp
  ultimately show ?thesis
    using Chunk_text_roundtrip[of no_casts 7 example_type example_value] example_typed by force
qed

end
