(* ===== verification/AssetFiles.thy ===== *)
theory AssetFiles
  imports BinaryWalks
begin

text \<open>
  Asset files (the top-level calls of \<open>core/me_serialize.cpp\<close>): the header of \<open>asset/me_asset.h\<close> that
  every asset carries as a member, the three passes of saving, the two of measuring and the one of
  writing, and loading with its checks of the header. An asset is a struct value; the data of a
  parent asset, which the source gets from the asset system, is the argument \<open>parent_data\<close>
  (\<open>None\<close> when it cannot be had). Parsing and printing of JSON are arguments as for the chunker.
\<close>

section \<open>The header\<close>

text \<open>A C string literal.\<close>

definition lit :: "string \<Rightarrow> u8 list" where
  "lit s = map (\<lambda>c. of_nat (of_char c)) s"

definition ME_BINARY_SERIALIZED_MAGIC :: u32 where
  "ME_BINARY_SERIALIZED_MAGIC = 0x5341454D"

definition ME_BINARY_SERIALIZED_VERSION :: u32 where
  "ME_BINARY_SERIALIZED_VERSION = 1"

text \<open>The signed type version is its 32-bit image; \<open>None\<close> is the null array of dependencies.\<close>

record meSerializedHeader =
  hd_magic :: u32
  hd_formatVersion :: u32
  hd_typeVersion :: u32
  hd_typeNameHash :: u32
  hd_payloadSize :: u32
  hd_assetHeader :: MAID
  hd_parentAsset :: MAID
  hd_dependencies :: "MAID list option"

definition header_default :: meSerializedHeader where
  "header_default =
     \<lparr>hd_magic = ME_BINARY_SERIALIZED_MAGIC, hd_formatVersion = ME_BINARY_SERIALIZED_VERSION, hd_typeVersion = 0,
      hd_typeNameHash = 0, hd_payloadSize = 0, hd_assetHeader = MAID_INVALID, hd_parentAsset = MAID_INVALID,
      hd_dependencies = None\<rparr>"

definition u32_val :: "u32 \<Rightarrow> val" where
  "u32_val x = VPrim (le_encode 4 (unat x))"

text \<open>The header as an object of its reflected type.\<close>

definition header_val :: "meSerializedHeader \<Rightarrow> val" where
  "header_val h =
     VStruct [u32_val (hd_magic h), u32_val (hd_formatVersion h), u32_val (hd_typeVersion h),
              u32_val (hd_typeNameHash h), u32_val (hd_payloadSize h), MAID_val (hd_assetHeader h),
              MAID_val (hd_parentAsset h), VDyn (map_option (map MAID_val) (hd_dependencies h))]"

fun val_MAIDs :: "val list \<Rightarrow> MAID list result" where
  "val_MAIDs [] = Inr []"
| "val_MAIDs (v # vs) = bindR (val_MAID v) (\<lambda>m. bindR (val_MAIDs vs) (\<lambda>ms. Inr (m # ms)))"

definition val_header :: "val \<Rightarrow> meSerializedHeader result" where
  "val_header v =
     (case v of
        VStruct [VPrim m, VPrim f, VPrim tv, VPrim th, VPrim ps, a, p, VDyn deps] \<Rightarrow>
          bindR (val_MAID a) (\<lambda>a. bindR (val_MAID p) (\<lambda>p.
          bindR (case deps of None \<Rightarrow> Inr None | Some vs \<Rightarrow> bindR (val_MAIDs vs) (\<lambda>ms. Inr (Some ms))) (\<lambda>deps.
            Inr \<lparr>hd_magic = of_nat (le_decode m), hd_formatVersion = of_nat (le_decode f),
                 hd_typeVersion = of_nat (le_decode tv), hd_typeNameHash = of_nat (le_decode th),
                 hd_payloadSize = of_nat (le_decode ps), hd_assetHeader = a, hd_parentAsset = p,
                 hd_dependencies = deps\<rparr>)))
      | _ \<Rightarrow> Inl OutOfBounds)"

definition TD_DYNARRAY :: meTypeDescriptor where
  "TD_DYNARRAY = TypeDesc (lit ''DynArray'') [] 0 0 32 None [] Fn_DynArray None (VDyn None)"

definition TD_MESERIALIZEDHEADER :: meTypeDescriptor where
  "TD_MESERIALIZEDHEADER =
     TypeDesc (lit ''meSerializedHeader'')
       [field_desc (lit ''magic'') (prim_desc TD_UNSIGNED_INT),
        field_desc (lit ''formatVersion'') (prim_desc TD_UNSIGNED_INT),
        field_desc (lit ''typeVersion'') (prim_desc TD_INT),
        field_desc (lit ''typeNameHash'') (prim_desc TD_UNSIGNED_INT),
        field_desc (lit ''payloadSize'') (prim_desc TD_UNSIGNED_INT),
        field_desc (lit ''assetHeader'') TD_MAID,
        field_desc (lit ''parentAsset'') TD_MAID,
        TypeDesc (lit ''dependencies'') [] 0 0 32 (Some TD_DYNARRAY) [TD_MAID] Fn_none None (VDyn None)]
       0 0 72 None [] Fn_generated (Some (header_val header_default)) (header_val header_default)"

definition ME_ASSET_HEADER_FIELDNAME :: "u8 list" where
  "ME_ASSET_HEADER_FIELDNAME = lit ''header''"

definition IsSerializedHeaderField :: "meTypeDescriptor \<Rightarrow> bool" where
  "IsSerializedHeaderField field \<longleftrightarrow>
     td_thisType field = Some TD_MESERIALIZEDHEADER \<and> td_name field = ME_ASSET_HEADER_FIELDNAME"

definition TypeHasSerializedHeader :: "meTypeDescriptor \<Rightarrow> bool" where
  "TypeHasSerializedHeader typeDesc \<longleftrightarrow> list_ex IsSerializedHeaderField (td_fields typeDesc)"

text \<open>The position of the header member, as \<open>meSerializeTryGetSerializedHeader\<close> finds it.\<close>

fun header_index :: "meTypeDescriptor list \<Rightarrow> nat option" where
  "header_index [] = None"
| "header_index (field # fds) =
     (if IsSerializedHeaderField field then Some 0 else map_option Suc (header_index fds))"

definition meSerializeTryGetSerializedHeader :: "meTypeDescriptor \<Rightarrow> val \<Rightarrow> (nat \<times> meSerializedHeader) option result" where
  "meSerializeTryGetSerializedHeader typeDesc v =
     (case (header_index (td_fields typeDesc), v) of
        (None, _) \<Rightarrow> Inr None
      | (Some i, VStruct vs) \<Rightarrow>
          bindR (readAt i vs) (\<lambda>hv. bindR (val_header hv) (\<lambda>h. Inr (Some (i, h))))
      | _ \<Rightarrow> Inl OutOfBounds)"

definition store_header :: "nat \<Rightarrow> meSerializedHeader \<Rightarrow> val \<Rightarrow> val" where
  "store_header i h v = (case v of VStruct vs \<Rightarrow> VStruct (vs[i := header_val h]) | _ \<Rightarrow> v)"

definition meSerializeTypeNameHash :: "meTypeDescriptor \<Rightarrow> u32" where
  "meSerializeTypeNameHash typeDesc = HashBytes (td_name typeDesc)"

definition prepared :: "meTypeDescriptor \<Rightarrow> bool \<Rightarrow> meSerializedHeader \<Rightarrow> meSerializedHeader" where
  "prepared typeDesc resetDependencies h =
     h\<lparr>hd_magic := ME_BINARY_SERIALIZED_MAGIC, hd_formatVersion := ME_BINARY_SERIALIZED_VERSION,
       hd_typeVersion := of_int (td_version typeDesc), hd_typeNameHash := meSerializeTypeNameHash typeDesc,
       hd_payloadSize := 0,
       hd_dependencies := (if resetDependencies then map_option (\<lambda>_. []) (hd_dependencies h) else hd_dependencies h)\<rparr>"

definition PrepareSerializedHeaderInAssetData :: "meTypeDescriptor \<Rightarrow> val \<Rightarrow> bool \<Rightarrow> val result" where
  "PrepareSerializedHeaderInAssetData typeDesc v resetDependencies =
     bindR (meSerializeTryGetSerializedHeader typeDesc v) (\<lambda>found. case found of
       None \<Rightarrow> Inr v
     | Some (i, h) \<Rightarrow> Inr (store_header i (prepared typeDesc resetDependencies h) v))"

section \<open>Saving\<close>

datatype SerResultType = SER_FAILURE | SER_VERSION_MISMATCH | SER_SUCCESS

text \<open>
  The dependencies are collected into the array inside the header while the walk is under way; the
  walk has then passed the header, and the pass that adds to it only measures. A null array is
  created by the first reference that is added.
\<close>

definition store_deps :: "(nat \<times> meSerializedHeader) option \<Rightarrow> MAID list option \<Rightarrow> val \<Rightarrow> val" where
  "store_deps found deps v =
     (case (found, deps) of
        (Some (i, h), Some ds) \<Rightarrow>
          store_header i (h\<lparr>hd_dependencies := (if hd_dependencies h = None \<and> ds = [] then None else Some ds)\<rparr>) v
      | _ \<Rightarrow> v)"

record io =
  io_fresh :: "nat \<Rightarrow> u8 list"
  io_casts :: fcasts
  io_parse :: "u8 list \<Rightarrow> json option"
  io_dump :: "json \<Rightarrow> u8 list option"

definition SerializeChunkerPass ::
    "io \<Rightarrow> nat \<Rightarrow> nat \<Rightarrow> meSerializationMode \<Rightarrow> meTypeDescriptor \<Rightarrow> Pass \<Rightarrow> bool \<Rightarrow> val \<Rightarrow> u8 list option \<Rightarrow>
     (bool \<times> val \<times> u8 list option \<times> nat) result" where
  "SerializeChunkerPass env a fuel mode typeDesc pass resetDependencies v serializedData =
     bindR (PrepareSerializedHeaderInAssetData typeDesc v resetDependencies) (\<lambda>v.
     bindR (meSerializeTryGetSerializedHeader typeDesc v) (\<lambda>found.
     let dependencies = map_option (\<lambda>(i, h). case hd_dependencies h of None \<Rightarrow> [] | Some ds \<Rightarrow> ds) found;
         size = (case serializedData of None \<Rightarrow> 0 | Some d \<Rightarrow> length d)
     in bindR (meChunker (io_casts env) (io_parse env) mode pass (Some a) serializedData) (\<lambda>c.
        bindR (ChunkWithTypeDescriptor (io_fresh env) (Some a) fuel typeDesc None False False
                 \<lparr>wk_chunker = c, wk_deps = dependencies, wk_recorded = []\<rparr> v) (\<lambda>(ok, v, w).
        let v = store_deps found (wk_deps w) v; c = wk_chunker w
        in if \<not> ok then Inr (False, v, serializedData, size)
           else if \<not> ck_valid c then Inr (False, v, serializedData, size)
           else if pass = PWrite \<and> \<not> IsWriteMode c then Inr (False, v, serializedData, size)
           else bindR (Finalize (io_dump env) c (Some a)) (\<lambda>(out, len, _). Inr (True, v, out, len))))))"

definition SerializeBlocking ::
    "io \<Rightarrow> nat \<Rightarrow> nat \<Rightarrow> meSerializationMode \<Rightarrow> meTypeDescriptor \<Rightarrow> val \<Rightarrow>
     (SerResultType \<times> val \<times> u8 list option) result" where
  "SerializeBlocking env a fuel mode typeDesc v =
     bindR (SerializeChunkerPass env a fuel mode typeDesc PMeasure True v None) (\<lambda>(ok, v, data, _).
       if \<not> ok then Inr (SER_FAILURE, v, data)
       else bindR (SerializeChunkerPass env a fuel mode typeDesc PMeasure False v None) (\<lambda>(ok, v, data, measured).
         if \<not> ok \<or> measured = 0 then Inr (SER_FAILURE, v, data)
         else bindR (SerializeChunkerPass env a fuel mode typeDesc PWrite False v (Some (io_fresh env measured)))
           (\<lambda>(ok, v, data, written).
             if \<not> ok then Inr (SER_FAILURE, v, data)
             else ME_ASSERT (written = measured) (Inr (SER_SUCCESS, v, data)))))"

section \<open>Loading\<close>

definition SerializedBufferStartsWithBinaryHeader :: "u8 list \<Rightarrow> bool" where
  "SerializedBufferStartsWithBinaryHeader buf \<longleftrightarrow>
     8 \<le> length buf \<and>
     take 4 buf = le_encode 4 (unat ME_BINARY_SERIALIZED_MAGIC) \<and>
     take 4 (drop 4 buf) = le_encode 4 (unat ME_BINARY_SERIALIZED_VERSION)"

definition TryReadSerializedHeaderField ::
    "io \<Rightarrow> nat \<Rightarrow> nat \<Rightarrow> meSerializationMode \<Rightarrow> u8 list \<Rightarrow> (bool \<times> meSerializedHeader) result" where
  "TryReadSerializedHeaderField env a fuel mode source =
     bindR (meChunker (io_casts env) (io_parse env) mode PRead (Some a) (Some source)) (\<lambda>c.
       if \<not> ck_valid c then Inr (False, header_default)
       else bindR (BeginObject c) (\<lambda>(ok, c).
         if \<not> ok then Inr (False, header_default)
         else bindR (Field c ME_ASSET_HEADER_FIELDNAME) (\<lambda>(ok, c).
           if \<not> ok then Inr (False, header_default)
           else bindR (ChunkWithTypeDescriptor (io_fresh env) (Some a) fuel TD_MESERIALIZEDHEADER None False False
                         \<lparr>wk_chunker = c, wk_deps = None, wk_recorded = []\<rparr> (header_val header_default)) (\<lambda>(ok, v, w).
                bindR (val_header v) (\<lambda>h.
                bindR (EndField (wk_chunker w)) (\<lambda>c. bindR (EndObject c) (\<lambda>_.
                  Inr (ok \<and> IsReadMode (wk_chunker w), h))))))))"

definition ValidateSerializedHeader :: "meSerializedHeader \<Rightarrow> meTypeDescriptor \<Rightarrow> SerResultType option" where
  "ValidateSerializedHeader h typeDesc =
     (if hd_magic h \<noteq> ME_BINARY_SERIALIZED_MAGIC \<or> hd_formatVersion h \<noteq> ME_BINARY_SERIALIZED_VERSION then Some SER_FAILURE
      else if hd_typeNameHash h \<noteq> meSerializeTypeNameHash typeDesc then Some SER_FAILURE
      else if hd_typeVersion h \<noteq> of_int (td_version typeDesc) then Some SER_VERSION_MISMATCH
      else None)"

definition meSerializeTryReadBinaryHeader :: "io \<Rightarrow> nat \<Rightarrow> nat \<Rightarrow> u8 list \<Rightarrow> meSerializedHeader option result" where
  "meSerializeTryReadBinaryHeader env a fuel buf =
     (if \<not> SerializedBufferStartsWithBinaryHeader buf then Inr None
      else bindR (TryReadSerializedHeaderField env a fuel meSerializationMode_Binary buf) (\<lambda>(ok, h).
        if \<not> ok then Inr None
        else if hd_magic h \<noteq> ME_BINARY_SERIALIZED_MAGIC \<or> hd_formatVersion h \<noteq> ME_BINARY_SERIALIZED_VERSION
        then Inr None
        else Inr (Some h)))"

definition meSerializeTryReadHeader ::
    "io \<Rightarrow> nat \<Rightarrow> nat \<Rightarrow> meSerializationMode \<Rightarrow> u8 list \<Rightarrow> meTypeDescriptor \<Rightarrow> meSerializedHeader option result" where
  "meSerializeTryReadHeader env a fuel mode buf typeDesc =
     (if mode = meSerializationMode_Binary \<and> \<not> SerializedBufferStartsWithBinaryHeader buf then Inr None
      else bindR (TryReadSerializedHeaderField env a fuel mode buf) (\<lambda>(ok, h).
        if \<not> ok \<or> ValidateSerializedHeader h typeDesc \<noteq> None then Inr None else Inr (Some h)))"

text \<open>\<open>None\<close> when the parent cannot be used, else the output with the copied parent.\<close>

definition DeepCopyParentAssetIfNeeded ::
    "(MAID \<Rightarrow> val option) \<Rightarrow> nat \<Rightarrow> nat option \<Rightarrow> meSerializedHeader \<Rightarrow> meTypeDescriptor \<Rightarrow> val option result" where
  "DeepCopyParentAssetIfNeeded parent_data fuel ext h typeDesc =
     (if \<not> MAID_bool (hd_parentAsset h) then Inr None
      else if maid_type (hd_parentAsset h) \<noteq> maid_type (hd_assetHeader h) then Inr None
      else case parent_data (hd_parentAsset h) of
          None \<Rightarrow> Inr None
        | Some src \<Rightarrow> bindR (DeepCopy fuel typeDesc None ext src) (\<lambda>v. Inr (Some v)))"

record load_result =
  ld_result :: SerResultType
  ld_uid :: u32
  ld_value :: val
  ld_recorded :: "MAID list"

definition load_failed :: "SerResultType \<Rightarrow> val \<Rightarrow> load_result" where
  "load_failed r v = \<lparr>ld_result = r, ld_uid = 0, ld_value = v, ld_recorded = []\<rparr>"

text \<open>
  \<open>ext\<close> is the allocator of the caller, which may be null; the chunker then uses the scratch
  allocator, number 0.
\<close>

definition DeserializeBlocking ::
    "io \<Rightarrow> (MAID \<Rightarrow> val option) \<Rightarrow> nat option \<Rightarrow> nat \<Rightarrow> meSerializationMode \<Rightarrow> meTypeDescriptor \<Rightarrow> u8 list \<Rightarrow> val \<Rightarrow>
     load_result result" where
  "DeserializeBlocking env parent_data ext fuel mode typeDesc source v =
     (let a = (case ext of Some a \<Rightarrow> a | None \<Rightarrow> 0);
          sourceCanContainHeader = (mode \<noteq> meSerializationMode_Binary \<or> SerializedBufferStartsWithBinaryHeader source)
      in bindR (if sourceCanContainHeader then TryReadSerializedHeaderField env a fuel mode source
                else Inr (False, header_default)) (\<lambda>(found, h).
         if found \<and> ValidateSerializedHeader h typeDesc \<noteq> None then
           Inr (load_failed (case ValidateSerializedHeader h typeDesc of Some r \<Rightarrow> r | None \<Rightarrow> SER_FAILURE) v)
         else if TypeHasSerializedHeader typeDesc \<and> \<not> found then Inr (load_failed SER_FAILURE v)
         else
           bindR (if found \<and> MAID_bool (hd_parentAsset h)
                  then DeepCopyParentAssetIfNeeded parent_data fuel ext h typeDesc
                  else Inr None) (\<lambda>copied.
           if found \<and> MAID_bool (hd_parentAsset h) \<and> copied = None then Inr (load_failed SER_FAILURE v)
           else
             let v = (case copied of
                        Some p \<Rightarrow> p
                      | None \<Rightarrow> (case td_defaults typeDesc of Some d \<Rightarrow> d | None \<Rightarrow> v))
             in bindR (meChunker (io_casts env) (io_parse env) mode PRead (Some a) (Some source)) (\<lambda>c.
                bindR (if ck_valid c
                       then ChunkWithTypeDescriptor (io_fresh env) ext fuel typeDesc None True (copied \<noteq> None)
                              \<lparr>wk_chunker = c, wk_deps = None, wk_recorded = []\<rparr> v
                       else Inr (False, v, \<lparr>wk_chunker = c, wk_deps = None, wk_recorded = []\<rparr>)) (\<lambda>(ok, v, w).
                  Inr \<lparr>ld_result = (if ok \<and> IsReadMode (wk_chunker w) then SER_SUCCESS else SER_FAILURE),
                       ld_uid = ucast (HashBytesL source), ld_value = v, ld_recorded = wk_recorded w\<rparr>)))))"

section \<open>The header on the wire\<close>

definition header_deps :: "meSerializedHeader \<Rightarrow> MAID list" where
  "header_deps h = (case hd_dependencies h of None \<Rightarrow> [] | Some ds \<Rightarrow> ds)"

definition u32_wire :: "u32 \<Rightarrow> u8 list" where
  "u32_wire x = le_encode 4 (unat x)"

definition header_wire :: "meSerializedHeader \<Rightarrow> u8 list" where
  "header_wire h =
     u32_wire (hd_magic h) @ u32_wire (hd_formatVersion h) @ u32_wire (hd_typeVersion h) @
     u32_wire (hd_typeNameHash h) @ u32_wire (hd_payloadSize h) @ maid_wire (hd_assetHeader h) @
     maid_wire (hd_parentAsset h) @ le_encode 4 (length (header_deps h)) @ concat (map maid_wire (header_deps h))"

lemma val_MAIDs_map [simp]: "val_MAIDs (map MAID_val ms) = Inr ms"
  by (induction ms) auto

lemma word_of_le [simp]: "(of_nat (le_decode (le_encode 4 (unat (x :: u32)))) :: u32) = x"
proof -
  have "unat x < 256 ^ 4" using unsigned_less[of x] by simp
  then show ?thesis by (simp add: le_decode_encode)
qed

lemma val_header_val [simp]: "val_header (header_val h) = Inr h"
  by (cases "hd_dependencies h") (simp_all add: val_header_def header_val_def u32_val_def)

abbreviation deps_field :: meTypeDescriptor where
  "deps_field \<equiv> TypeDesc (lit ''dependencies'') [] 0 0 32 (Some TD_DYNARRAY) [TD_MAID] Fn_none None (VDyn None)"

lemma header_shapes:
  "shape_of TD_MESERIALIZEDHEADER parent = ShStruct (td_fields TD_MESERIALIZEDHEADER)"
  "shape_of (field_desc name TD_MAID) parent = ShAlias TD_MAID"
  "shape_of deps_field parent = ShAlias TD_DYNARRAY"
  "shape_of TD_DYNARRAY (Some deps_field) = ShDyn TD_MAID"
  "elem_parent TD_DYNARRAY (Some deps_field) = deps_field"
  "visited (field_desc name TD_MAID)"
  "visited deps_field"
  by (simp_all add: shape_of_def TD_MESERIALIZEDHEADER_def field_desc_def ShouldSerialize_def elem_parent_def
      TD_DYNARRAY_def visited_def is_constant_array_def TEST_BIT_def meTypeDescriptorFlag_Excluded_def
      meTypeDescriptorFlag_PaddingMember_def meTypeDescriptorFlag_ConstantArray_def)

lemma header_fields:
  "td_fields TD_MESERIALIZEDHEADER =
     [field_desc (lit ''magic'') (prim_desc TD_UNSIGNED_INT),
      field_desc (lit ''formatVersion'') (prim_desc TD_UNSIGNED_INT),
      field_desc (lit ''typeVersion'') (prim_desc TD_INT),
      field_desc (lit ''typeNameHash'') (prim_desc TD_UNSIGNED_INT),
      field_desc (lit ''payloadSize'') (prim_desc TD_UNSIGNED_INT),
      field_desc (lit ''assetHeader'') TD_MAID, field_desc (lit ''parentAsset'') TD_MAID, deps_field]"
  by (simp add: TD_MESERIALIZEDHEADER_def)

lemma dyn_elems_deps: "dyn_elems (map_option (map MAID_val) (hd_dependencies h)) = map MAID_val (header_deps h)"
  by (simp add: dyn_elems_def header_deps_def split: option.split)

lemma default_MAID: "default_value TD_MAID = MAID_val MAID_INVALID"
  by (simp add: default_value_def TD_MAID_def)

lemma header_typed:
  assumes "6 \<le> n"
  shows "td_ok n TD_MESERIALIZEDHEADER parent"
    and "length (header_deps h) < 4294967296 \<Longrightarrow> wt n TD_MESERIALIZEDHEADER parent (header_val h)"
    and "encode_val n TD_MESERIALIZEDHEADER parent (header_val h) = header_wire h"
    and "asset_refs n TD_MESERIALIZEDHEADER parent (header_val h) = []"
    and "restored n TD_MESERIALIZEDHEADER parent (header_val h0) (header_val h) =
           header_val (h\<lparr>hd_dependencies := Some (header_deps h)\<rparr>)"
proof -
  have "n = Suc (Suc (Suc (Suc (Suc (Suc (n - 6))))))"
    using assms by simp
  then obtain k where n: "n = Suc (Suc (Suc (Suc (Suc (Suc k)))))" by blast
  note S = header_shapes header_fields TD_MAID_shape TD_MAID_fields dyn_elems_deps default_MAID prim_size_def
    u32_val_def u32_wire_def header_val_def MAID_val_def
  show "td_ok n TD_MESERIALIZEDHEADER parent"
    unfolding n by (simp add: S)
  show "wt n TD_MESERIALIZEDHEADER parent (header_val h)" if "length (header_deps h) < 4294967296"
    unfolding n using that by (simp add: S list_all_iff)
  show "encode_val n TD_MESERIALIZEDHEADER parent (header_val h) = header_wire h"
    unfolding n by (simp add: S header_wire_def maid_wire_def[abs_def] comp_def)
  show "asset_refs n TD_MESERIALIZEDHEADER parent (header_val h) = []"
    unfolding n by (simp add: S comp_def)
  show "restored n TD_MESERIALIZEDHEADER parent (header_val h0) (header_val h) =
      header_val (h\<lparr>hd_dependencies := Some (header_deps h)\<rparr>)"
    unfolding n by (simp add: S comp_def)
qed

section \<open>Collecting the dependencies\<close>

definition dep_known :: "MAID list \<Rightarrow> MAID \<Rightarrow> bool" where
  "dep_known ds m \<longleftrightarrow> \<not> MAID_bool m \<or> m \<in> set ds"

lemma MAID_eq_iff: "MAID_eq a b \<longleftrightarrow> a = b"
  by (cases a; cases b) (auto simp: MAID_eq_def)

lemma AddAssetDependency_known: "AddAssetDependency (Some ds) m = Some (if dep_known ds m then ds else ds @ [m])"
  by (auto simp: AddAssetDependency_def dep_known_def list_ex_iff MAID_eq_iff)

lemma add_deps_list:
  "\<exists>ds'. add_deps ids (Some ds) = Some ds' \<and> set ds' = set ds \<union> {m \<in> set ids. MAID_bool m} \<and>
     length ds' \<le> length ds + length ids"
proof (induction ids arbitrary: ds)
  case Nil
  then show ?case by (simp add: add_deps_def)
next
  case (Cons m ids)
  let ?ds = "if dep_known ds m then ds else ds @ [m]"
  obtain ds' where "add_deps ids (Some ?ds) = Some ds'" "set ds' = set ?ds \<union> {m \<in> set ids. MAID_bool m}"
    "length ds' \<le> length ?ds + length ids"
    using Cons.IH by blast
  then show ?case
    by (auto simp: add_deps_def AddAssetDependency_known dep_known_def split: if_splits)
qed

lemma add_deps_again:
  "(\<And>m. m \<in> set ids \<Longrightarrow> dep_known ds m) \<Longrightarrow> add_deps ids (Some ds) = Some ds"
  by (induction ids) (auto simp: add_deps_def AddAssetDependency_known)

section \<open>Saving an asset\<close>

text \<open>A type whose first member is the header, as every type derived from \<open>meBaseAsset\<close> has it.\<close>

definition asset_type :: "meTypeDescriptor \<Rightarrow> bool" where
  "asset_type td \<longleftrightarrow>
     (case td_fields td of
        hf # fds \<Rightarrow> IsSerializedHeaderField hf \<and> visited hf \<and> shape_of hf (Some td) = ShAlias TD_MESERIALIZEDHEADER \<and>
          shape_of td None = ShStruct (hf # fds)
      | [] \<Rightarrow> False)"

lemma asset_typeD:
  assumes "asset_type td"
  obtains hf fds where "td_fields td = hf # fds" and "IsSerializedHeaderField hf" and "visited hf"
    and "shape_of hf (Some td) = ShAlias TD_MESERIALIZEDHEADER" and "shape_of td None = ShStruct (hf # fds)"
  using assms by (auto simp: asset_type_def split: list.splits)

abbreviation asset_val :: "meSerializedHeader \<Rightarrow> val list \<Rightarrow> val" where
  "asset_val h vs \<equiv> VStruct (header_val h # vs)"

text \<open>The value parts below the header do not depend on it.\<close>

lemma asset_parts:
  assumes "asset_type td" and "8 \<le> n"
  shows "asset_refs n td None (asset_val h vs) = asset_refs n td None (asset_val h' vs)"
    and "\<exists>body. \<forall>h. encode_val n td None (asset_val h vs) = header_wire h @ body"
    and "wt n td None (asset_val h vs) \<Longrightarrow> length (header_deps h') < 4294967296 \<Longrightarrow> wt n td None (asset_val h' vs)"
proof -
  obtain hf fds where t: "td_fields td = hf # fds" "IsSerializedHeaderField hf" "visited hf"
    "shape_of hf (Some td) = ShAlias TD_MESERIALIZEDHEADER" "shape_of td None = ShStruct (hf # fds)"
    using asset_typeD[OF assms(1)] by blast
  obtain m where n: "n = Suc (Suc m)" and m: "6 \<le> m"
    using assms(2) by (cases n; cases "n - 1") auto
  show "asset_refs n td None (asset_val h vs) = asset_refs n td None (asset_val h' vs)"
    by (simp add: n t header_typed[OF m])
  show "\<exists>body. \<forall>h. encode_val n td None (asset_val h vs) = header_wire h @ body"
    by (simp add: n t header_typed[OF m])
  show "wt n td None (asset_val h' vs)" if "wt n td None (asset_val h vs)" "length (header_deps h') < 4294967296"
    using that by (simp add: n t header_typed[OF m])
qed

lemma asset_header:
  assumes "asset_type td"
  shows "meSerializeTryGetSerializedHeader td (asset_val h vs) = Inr (Some (0, h))"
    and "PrepareSerializedHeaderInAssetData td (asset_val h vs) reset = Inr (asset_val (prepared td reset h) vs)"
    and "store_header 0 h' (asset_val h vs) = asset_val h' vs"
    and "TypeHasSerializedHeader td"
proof -
  obtain hf fds where t: "td_fields td = hf # fds" "IsSerializedHeaderField hf"
    using asset_typeD[OF assms] by blast
  show get: "meSerializeTryGetSerializedHeader td (asset_val h vs) = Inr (Some (0, h))" for h
    by (simp add: meSerializeTryGetSerializedHeader_def t)
  show "PrepareSerializedHeaderInAssetData td (asset_val h vs) reset = Inr (asset_val (prepared td reset h) vs)"
    by (simp add: PrepareSerializedHeaderInAssetData_def get store_header_def)
  show "store_header 0 h' (asset_val h vs) = asset_val h' vs" by (simp add: store_header_def)
  show "TypeHasSerializedHeader td" by (simp add: TypeHasSerializedHeader_def t)
qed

text \<open>A chunker at the start of a buffer, and one pass over an asset.\<close>

definition started :: "io \<Rightarrow> Pass \<Rightarrow> u8 list \<Rightarrow> chunker" where
  "started env pass buf =
     \<lparr>ck_mode = meSerializationMode_Binary, ck_pass = pass, ck_valid = True, bin_buf = buf, bin_cursor = 0,
      txt_root = None, txt_current = None, txt_stack = [], txt_output = None, txt_casts = io_casts env\<rparr>"

lemma started_chunker:
  "meChunker (io_casts env) parse meSerializationMode_Binary pass alloc data = Inr (started env pass (span_bytes data))"
  by (simp add: meChunker_def InitBinary_def started_def span_bytes_def)

lemma started_simps [simp]:
  "ck_mode (started env pass buf) = meSerializationMode_Binary"
  "ck_pass (started env pass buf) = pass"
  "ck_valid (started env pass buf)"
  "bin_buf (started env pass buf) = buf"
  "bin_cursor (started env pass buf) = 0"
  by (simp_all add: started_def)

lemma moved_valid [simp]: "ck_valid (moved e c) = ck_valid c"
  by (simp add: moved_def)

lemma SerializeChunkerPass_binary:
  assumes fresh: "allocates (io_fresh env)" and td: "td_ok n td None" "asset_type td"
    and wt: "wt n td None (asset_val (prepared td reset h) vs)"
    and e: "e = encode_val n td None (asset_val (prepared td reset h) vs)"
    and pass: "pass = PMeasure \<and> data = None \<or> pass = PWrite \<and> data = Some buf \<and> length buf = length e"
    and deps: "add_deps (asset_refs n td None (asset_val h vs)) (Some (header_deps (prepared td reset h))) = Some ds"
    and n: "8 \<le> n"
  shows "SerializeChunkerPass env a n meSerializationMode_Binary td pass reset (asset_val h vs) data =
     Inr (True, asset_val ((prepared td reset h)\<lparr>hd_dependencies :=
                  (if hd_dependencies (prepared td reset h) = None \<and> ds = [] then None else Some ds)\<rparr>) vs,
          Some (if pass = PWrite then e else []), length e)"
proof -
  let ?h = "prepared td reset h"
  let ?c = "started env pass (span_bytes data)"
  let ?w = "\<lparr>wk_chunker = ?c, wk_deps = Some (header_deps ?h), wk_recorded = []\<rparr>"
  let ?ids = "asset_refs n td None (asset_val ?h vs)"
  have c: "codes False (ChunkWithTypeDescriptor (io_fresh env) (Some a) n td None False False)
      (asset_val ?h vs) (asset_val ?h vs) e ?ids (restored n td None (asset_val ?h vs) (asset_val ?h vs))"
    unfolding e by (rule Chunk_codes[OF fresh td(1) wt wt])
  have r: "ready e (wk_chunker ?w)" "\<not> reading ?w"
    using pass by (auto simp: ready_def IsReadMode_def span_bytes_def)
  have walk: "ChunkWithTypeDescriptor (io_fresh env) (Some a) n td None False False ?w (asset_val ?h vs) =
      Inr (True, asset_val ?h vs, walked False e ?ids ?w)"
    using codesD(2)[OF c r] .
  have ids: "?ids = asset_refs n td None (asset_val h vs)" by (rule asset_parts(1)[OF td(2) n])
  have w': "wk_deps (walked False e ?ids ?w) = Some ds" "wk_chunker (walked False e ?ids ?w) = moved e ?c"
    using deps ids r(2) by (simp_all add: walked_def)
  have fin: "Finalize (io_dump env) (moved e ?c) (Some a) =
      Inr (Some (if pass = PWrite then e else []), length e, moved e ?c)"
    using pass by (auto simp: Finalize_def BytesProcessed_def moved_def span_bytes_def)
  have store: "store_deps (Some (0, ?h)) (Some ds) (asset_val ?h vs) =
      asset_val (?h\<lparr>hd_dependencies := (if hd_dependencies ?h = None \<and> ds = [] then None else Some ds)\<rparr>) vs"
    by (simp add: store_deps_def asset_header(3)[OF td(2)])
  have dep: "(case hd_dependencies ?h of None \<Rightarrow> [] | Some ds \<Rightarrow> ds) = header_deps ?h"
    by (simp add: header_deps_def)
  have wm: "IsWriteMode (moved e (started env PWrite (span_bytes data)))" by (simp add: IsWriteMode_def)
  show ?thesis
    unfolding SerializeChunkerPass_def
    by (simp add: asset_header(1,2)[OF td(2)] started_chunker dep walk w' fin store wm Let_def)
qed

lemma prepared_fields:
  "hd_assetHeader (prepared td reset h) = hd_assetHeader h"
  "hd_parentAsset (prepared td reset h) = hd_parentAsset h"
  "header_deps (prepared td True h) = []"
  "prepared td False ((prepared td reset h)\<lparr>hd_dependencies := d\<rparr>) = (prepared td reset h)\<lparr>hd_dependencies := d\<rparr>"
  "ValidateSerializedHeader ((prepared td reset h)\<lparr>hd_dependencies := d\<rparr>) td = None"
  by (auto simp: prepared_def header_deps_def ValidateSerializedHeader_def split: option.splits)

lemma SerializeBlocking_binary:
  assumes fresh: "allocates (io_fresh env)" and td: "td_ok n td None" "asset_type td" and n: "8 \<le> n"
    and wt: "wt n td None (asset_val h vs)"
    and refs: "length (asset_refs n td None (asset_val h vs)) < 4294967296"
  obtains h' where
    "SerializeBlocking env a n meSerializationMode_Binary td (asset_val h vs) =
       Inr (SER_SUCCESS, asset_val h' vs, Some (encode_val n td None (asset_val h' vs)))"
    and "wt n td None (asset_val h' vs)"
    and "hd_assetHeader h' = hd_assetHeader h" and "hd_parentAsset h' = hd_parentAsset h"
    and "ValidateSerializedHeader h' td = None"
    and "set (header_deps h') = {m \<in> set (asset_refs n td None (asset_val h vs)). MAID_bool m}"
    and "hd_magic h' = ME_BINARY_SERIALIZED_MAGIC" and "hd_formatVersion h' = ME_BINARY_SERIALIZED_VERSION"
proof -
  let ?ids = "asset_refs n td None (asset_val h vs)"
  have ids: "asset_refs n td None (asset_val g vs) = ?ids" for g by (rule asset_parts(1)[OF td(2) n])
  obtain ds where ds: "add_deps ?ids (Some []) = Some ds" "set ds = {m \<in> set ?ids. MAID_bool m}" "length ds \<le> length ?ids"
    using add_deps_list[of ?ids "[]"] by auto
  have again: "add_deps ?ids (Some ds) = Some ds"
    by (rule add_deps_again) (auto simp: dep_known_def ds(2))
  let ?h1 = "prepared td True h"
  define h' where "h' = ?h1\<lparr>hd_dependencies := (if hd_dependencies ?h1 = None \<and> ds = [] then None else Some ds)\<rparr>"
  have deps': "header_deps h' = ds" by (simp add: h'_def header_deps_def)
  have wt1: "wt n td None (asset_val ?h1 vs)"
    using asset_parts(3)[OF td(2) n wt] by (simp add: prepared_fields)
  have wt': "wt n td None (asset_val h' vs)"
    using asset_parts(3)[OF td(2) n wt] ds(3) refs by (simp add: deps')
  have prep': "prepared td False h' = h'" by (simp add: h'_def prepared_fields)
  let ?e = "encode_val n td None (asset_val h' vs)"
  have same: "h'\<lparr>hd_dependencies := (if hd_dependencies h' = None \<and> ds = [] then None else Some ds)\<rparr> = h'"
    by (simp add: h'_def)
  have p1: "SerializeChunkerPass env a n meSerializationMode_Binary td PMeasure True (asset_val h vs) None =
      Inr (True, asset_val h' vs, Some [], length (encode_val n td None (asset_val ?h1 vs)))"
    using SerializeChunkerPass_binary[OF fresh td wt1 refl _ _ n, of PMeasure None "[]" ds a] ds(1)
    by (simp add: prepared_fields h'_def)
  have pass: "SerializeChunkerPass env a n meSerializationMode_Binary td pass False (asset_val h' vs) data =
      Inr (True, asset_val h' vs, Some (if pass = PWrite then ?e else []), length ?e)"
    if "pass = PMeasure \<and> data = None \<or> pass = PWrite \<and> data = Some buf \<and> length buf = length ?e" for pass data buf
  proof -
    have w: "wt n td None (asset_val (prepared td False h') vs)" unfolding prep' by (rule wt')
    have e: "?e = encode_val n td None (asset_val (prepared td False h') vs)" unfolding prep' ..
    have d: "add_deps (asset_refs n td None (asset_val h' vs)) (Some (header_deps (prepared td False h'))) = Some ds"
      unfolding prep' deps' ids[of h'] by (rule again)
    show ?thesis
      using SerializeChunkerPass_binary[OF fresh td w e that d n, of a] unfolding prep' same .
  qed
  have p2: "SerializeChunkerPass env a n meSerializationMode_Binary td PMeasure False (asset_val h' vs) None =
      Inr (True, asset_val h' vs, Some [], length ?e)"
    using pass[of PMeasure None "[]"] by simp
  have p3: "SerializeChunkerPass env a n meSerializationMode_Binary td PWrite False (asset_val h' vs) (Some (io_fresh env (length ?e))) =
      Inr (True, asset_val h' vs, Some ?e, length ?e)"
    using pass[of PWrite "Some (io_fresh env (length ?e))" "io_fresh env (length ?e)"] fresh
    by (simp add: allocates_def)
  obtain body where "?e = header_wire h' @ body" using asset_parts(2)[OF td(2) n] by blast
  then have "0 < length ?e" by (simp add: header_wire_def u32_wire_def)
  with p1 p2 p3 have "SerializeBlocking env a n meSerializationMode_Binary td (asset_val h vs) =
      Inr (SER_SUCCESS, asset_val h' vs, Some ?e)"
    by (simp add: SerializeBlocking_def)
  moreover have "hd_assetHeader h' = hd_assetHeader h" "hd_parentAsset h' = hd_parentAsset h"
    "hd_magic h' = ME_BINARY_SERIALIZED_MAGIC" "hd_formatVersion h' = ME_BINARY_SERIALIZED_VERSION"
    by (simp_all add: h'_def prepared_def)
  moreover have "ValidateSerializedHeader h' td = None" by (simp add: h'_def prepared_fields)
  ultimately show ?thesis using that wt' ds(2) deps' by blast
qed

section \<open>Loading an asset\<close>

lemma starts_with_header:
  "hd_magic h = ME_BINARY_SERIALIZED_MAGIC \<Longrightarrow> hd_formatVersion h = ME_BINARY_SERIALIZED_VERSION \<Longrightarrow>
     SerializedBufferStartsWithBinaryHeader (header_wire h @ rest)"
  by (simp add: SerializedBufferStartsWithBinaryHeader_def header_wire_def u32_wire_def)

lemma TryReadSerializedHeaderField_binary:
  assumes "allocates (io_fresh env)" and "6 \<le> n" and "length (header_deps h) < 4294967296"
  shows "TryReadSerializedHeaderField env a n meSerializationMode_Binary (header_wire h @ rest) =
     Inr (True, h\<lparr>hd_dependencies := Some (header_deps h)\<rparr>)"
proof -
  note H = header_typed[where parent = None, OF assms(2)]
  let ?c = "started env PRead (header_wire h @ rest)"
  let ?w = "\<lparr>wk_chunker = ?c, wk_deps = None, wk_recorded = []\<rparr>"
  have "wt n TD_MESERIALIZEDHEADER None (header_val header_default)"
    by (rule H(2)) (simp add: header_deps_def header_default_def)
  from Chunk_codes[OF assms(1) H(1) this H(2)[OF assms(3)], of False a]
  have c: "codes False (ChunkWithTypeDescriptor (io_fresh env) (Some a) n TD_MESERIALIZEDHEADER None False False)
      (header_val header_default) (header_val h) (header_wire h) [] (header_val (h\<lparr>hd_dependencies := Some (header_deps h)\<rparr>))"
    by (simp add: H)
  have r: "ready (header_wire h) (wk_chunker ?w)" "reading ?w" by (simp_all add: ready_def IsReadMode_def)
  have "ChunkWithTypeDescriptor (io_fresh env) (Some a) n TD_MESERIALIZEDHEADER None False False ?w (header_val header_default) =
      Inr (True, header_val (h\<lparr>hd_dependencies := Some (header_deps h)\<rparr>), walked False (header_wire h) [] ?w)"
    using codesD(1)[OF c r] .
  then show ?thesis
    by (simp add: TryReadSerializedHeaderField_def started_chunker span_bytes_def BeginObject_def Field_def
        EndField_def EndObject_def IsReadMode_def)
qed

lemma ValidateSerializedHeader_deps:
  "ValidateSerializedHeader (h\<lparr>hd_dependencies := d\<rparr>) td = ValidateSerializedHeader h td"
  by (simp add: ValidateSerializedHeader_def)

lemma DeserializeBlocking_binary:
  assumes fresh: "allocates (io_fresh env)" and td: "td_ok n td None" "asset_type td" and n: "8 \<le> n"
    and wt: "wt n td None (asset_val h vs)" "wt n td None u"
    and u: "u = (case td_defaults td of Some d \<Rightarrow> d | None \<Rightarrow> old)"
    and h: "ValidateSerializedHeader h td = None" "\<not> MAID_bool (hd_parentAsset h)"
      "hd_magic h = ME_BINARY_SERIALIZED_MAGIC" "hd_formatVersion h = ME_BINARY_SERIALIZED_VERSION"
    and deps: "length (header_deps h) < 4294967296"
    and data: "data = encode_val n td None (asset_val h vs)"
  shows "DeserializeBlocking env parent_data (Some a) n meSerializationMode_Binary td data old =
     Inr \<lparr>ld_result = SER_SUCCESS, ld_uid = ucast (HashBytesL data),
          ld_value = restored n td None u (asset_val h vs), ld_recorded = asset_refs n td None (asset_val h vs)\<rparr>"
proof -
  obtain body where body: "data = header_wire h @ body" using asset_parts(2)[OF td(2) n] data by blast
  have n6: "6 \<le> n" using n by simp
  have hdr: "TryReadSerializedHeaderField env a n meSerializationMode_Binary data =
      Inr (True, h\<lparr>hd_dependencies := Some (header_deps h)\<rparr>)"
    unfolding body by (rule TryReadSerializedHeaderField_binary[OF fresh n6 deps])
  have start: "SerializedBufferStartsWithBinaryHeader data"
    unfolding body by (rule starts_with_header[OF h(3,4)])
  let ?w = "\<lparr>wk_chunker = started env PRead data, wk_deps = None, wk_recorded = []\<rparr>"
  have c: "codes True (ChunkWithTypeDescriptor (io_fresh env) (Some a) n td None True False) u (asset_val h vs)
      data (asset_refs n td None (asset_val h vs)) (restored n td None u (asset_val h vs))"
    unfolding data by (rule Chunk_codes[OF fresh td(1) wt(2,1)])
  have r: "ready data (wk_chunker ?w)" "reading ?w" by (simp_all add: ready_def IsReadMode_def)
  have walk: "ChunkWithTypeDescriptor (io_fresh env) (Some a) n td None True False ?w u =
      Inr (True, restored n td None u (asset_val h vs), walked True data (asset_refs n td None (asset_val h vs)) ?w)"
    using codesD(1)[OF c r] .
  show ?thesis
    unfolding DeserializeBlocking_def Let_def
    using r(2)
    by (simp add: start hdr ValidateSerializedHeader_deps h(1,2) u[symmetric] started_chunker span_bytes_def walk)
      (simp add: walked_def IsReadMode_def)
qed

lemma header_deps_fit:
  assumes "asset_type td" and "8 \<le> n" and "wt n td None (asset_val h vs)"
  shows "length (header_deps h) < 4294967296"
proof -
  obtain hf fds where t: "td_fields td = hf # fds" "visited hf"
    "shape_of hf (Some td) = ShAlias TD_MESERIALIZEDHEADER" "shape_of td None = ShStruct (hf # fds)"
    using asset_typeD[OF assms(1)] by blast
  have "n = Suc (Suc (Suc (Suc (Suc (Suc (Suc (Suc (n - 8))))))))"
    using assms(2) by simp
  then obtain k where n: "n = Suc (Suc (Suc (Suc (Suc (Suc (Suc (Suc k)))))))" by blast
  show ?thesis
    using assms(3) unfolding n
    by (simp add: t header_shapes header_fields header_val_def dyn_elems_deps)
qed

section \<open>Properties\<close>

text \<open>
  C8. Saving an asset in binary succeeds, and loading the saved bytes succeeds and restores the
  asset. The saved header keeps the asset's id and its parent, and lists as dependencies exactly
  the valid asset references in the data; the load records every reference. (The asset has no
  parent, whose data would come from the asset system.)
\<close>

theorem asset_file_roundtrip:
  assumes "allocates (io_fresh env)" and "td_ok n td None" and "asset_type td" and "8 \<le> n"
    and "wt n td None (asset_val h vs)" and "wt n td None u" and "td_defaults td = None \<or> td_defaults td = Some u"
    and "length (asset_refs n td None (asset_val h vs)) < 4294967296" and "\<not> MAID_bool (hd_parentAsset h)"
  shows "\<exists>h' data.
     SerializeBlocking env a n meSerializationMode_Binary td (asset_val h vs) = Inr (SER_SUCCESS, asset_val h' vs, Some data) \<and>
     hd_assetHeader h' = hd_assetHeader h \<and> hd_parentAsset h' = hd_parentAsset h \<and>
     set (header_deps h') = {m \<in> set (asset_refs n td None (asset_val h vs)). MAID_bool m} \<and>
     DeserializeBlocking env parent_data (Some b) n meSerializationMode_Binary td data u =
       Inr \<lparr>ld_result = SER_SUCCESS, ld_uid = ucast (HashBytesL data),
            ld_value = restored n td None u (asset_val h' vs), ld_recorded = asset_refs n td None (asset_val h vs)\<rparr>"
proof -
  obtain h' where s: "SerializeBlocking env a n meSerializationMode_Binary td (asset_val h vs) =
       Inr (SER_SUCCESS, asset_val h' vs, Some (encode_val n td None (asset_val h' vs)))"
    and w: "wt n td None (asset_val h' vs)"
    and i: "hd_assetHeader h' = hd_assetHeader h" "hd_parentAsset h' = hd_parentAsset h"
    and v: "ValidateSerializedHeader h' td = None"
    and d: "set (header_deps h') = {m \<in> set (asset_refs n td None (asset_val h vs)). MAID_bool m}"
    and m: "hd_magic h' = ME_BINARY_SERIALIZED_MAGIC" "hd_formatVersion h' = ME_BINARY_SERIALIZED_VERSION"
    by (rule SerializeBlocking_binary[OF assms(1-5,8)])
  have "length (header_deps h') < 4294967296" using header_deps_fit[OF assms(3,4) w] .
  moreover have "u = (case td_defaults td of Some d \<Rightarrow> d | None \<Rightarrow> u)" using assms(7) by auto
  ultimately have "DeserializeBlocking env parent_data (Some b) n meSerializationMode_Binary td
      (encode_val n td None (asset_val h' vs)) u =
     Inr \<lparr>ld_result = SER_SUCCESS, ld_uid = ucast (HashBytesL (encode_val n td None (asset_val h' vs))),
          ld_value = restored n td None u (asset_val h' vs), ld_recorded = asset_refs n td None (asset_val h' vs)\<rparr>"
    using DeserializeBlocking_binary[OF assms(1-4) w assms(6) _ v _ m] assms(9) i by simp
  moreover have "asset_refs n td None (asset_val h' vs) = asset_refs n td None (asset_val h vs)"
    by (rule asset_parts(1)[OF assms(3,4)])
  ultimately show ?thesis
    using s i d by (intro exI[of _ h'] exI[of _ "encode_val n td None (asset_val h' vs)"]) simp
qed

definition note_type :: meTypeDescriptor where
  "note_type =
     TypeDesc (lit ''Note'')
       [field_desc (lit ''header'') TD_MESERIALIZEDHEADER,
        field_desc (lit ''text'') (TypeDesc (lit ''String'') [] 0 0 24 None [] Fn_string None (VString String_empty)),
        field_desc (lit ''icon'')
          (TypeDesc (lit ''meAsset'') [] 0 0 16 None [] Fn_meAsset (Some (VAsset MAID_INVALID EYE_INVALID Unloaded))
             (VAsset MAID_INVALID EYE_INVALID Unloaded))]
       0 3 112 None [] Fn_generated None
       (VStruct [header_val header_default, VString String_empty, VAsset MAID_INVALID EYE_INVALID Unloaded])"

definition note_env :: io where
  "note_env = \<lparr>io_fresh = (\<lambda>n. replicate n 0), io_casts = no_casts, io_parse = (\<lambda>_. None), io_dump = (\<lambda>_. None)\<rparr>"

theorem asset_file_roundtrip_witness:
  "\<exists>v data r.
     SerializeBlocking note_env 0 8 meSerializationMode_Binary note_type
       (asset_val header_default [VString (String_of [104, 105]), VAsset \<lparr>maid_id = 7, maid_type = 5\<rparr> 9 Loaded]) =
         Inr (SER_SUCCESS, v, Some data) \<and>
     DeserializeBlocking note_env (\<lambda>_. None) (Some 0) 8 meSerializationMode_Binary note_type data
       (asset_val header_default [VString String_empty, VAsset MAID_INVALID EYE_INVALID Unloaded]) = Inr r \<and>
     ld_result r = SER_SUCCESS \<and> ld_recorded r = [\<lparr>maid_id = 7, maid_type = 5\<rparr>]"
proof -
  let ?vs = "[VString (String_of [104, 105]), VAsset \<lparr>maid_id = 7, maid_type = 5\<rparr> 9 Loaded]"
  let ?us = "[VString String_empty, VAsset MAID_INVALID EYE_INVALID Unloaded]"
  have ok: "td_ok 8 note_type None" "asset_type note_type" "wt 8 note_type None (asset_val header_default ?vs)"
    "wt 8 note_type None (asset_val header_default ?us)" "\<not> MAID_bool (hd_parentAsset header_default)"
    by code_simp+
  have refs: "asset_refs 8 note_type None (asset_val header_default ?vs) = [\<lparr>maid_id = 7, maid_type = 5\<rparr>]"
    by code_simp
  have "allocates (io_fresh note_env)" "td_defaults note_type = None"
    by (simp_all add: note_env_def note_type_def allocates_def)
  with asset_file_roundtrip[of note_env 8 note_type header_default ?vs "asset_val header_default ?us" 0 "\<lambda>_. None" 0] ok refs
  show ?thesis by auto
qed

text \<open>
  C19. Loading checks the header: data that is too short or does not begin with the magic number
  and version is refused for an asset type, and so is data whose header carries another type's
  name hash; another version of the type is reported as such. The value is left alone.
\<close>

theorem asset_load_refused:
  assumes "asset_type td" and "allocates (io_fresh env)" and "8 \<le> n"
    and "length (header_deps h) < 4294967296"
    and "hd_magic h = ME_BINARY_SERIALIZED_MAGIC" and "hd_formatVersion h = ME_BINARY_SERIALIZED_VERSION"
  shows "(\<not> SerializedBufferStartsWithBinaryHeader junk \<longrightarrow>
      DeserializeBlocking env parent_data (Some b) n meSerializationMode_Binary td junk u = Inr (load_failed SER_FAILURE u)) \<and>
    (hd_typeNameHash h \<noteq> meSerializeTypeNameHash td \<longrightarrow>
      DeserializeBlocking env parent_data (Some b) n meSerializationMode_Binary td (header_wire h @ rest) u =
        Inr (load_failed SER_FAILURE u)) \<and>
    (hd_typeNameHash h = meSerializeTypeNameHash td \<longrightarrow> hd_typeVersion h \<noteq> of_int (td_version td) \<longrightarrow>
      DeserializeBlocking env parent_data (Some b) n meSerializationMode_Binary td (header_wire h @ rest) u =
        Inr (load_failed SER_VERSION_MISMATCH u))"
proof -
  have "6 \<le> n" using assms(3) by simp
  note hdr = TryReadSerializedHeaderField_binary[OF assms(2) this assms(4), of b rest]
  note start = starts_with_header[OF assms(5,6), of rest]
  show ?thesis
    using assms(5,6)
    by (auto simp: DeserializeBlocking_def hdr start asset_header(4)[OF assms(1)] ValidateSerializedHeader_def)
qed

theorem asset_load_refused_witness:
  "DeserializeBlocking note_env (\<lambda>_. None) (Some 0) 8 meSerializationMode_Binary note_type
     (header_wire header_default) (VPrim []) = Inr (load_failed SER_FAILURE (VPrim []))"
proof -
  have "asset_type note_type" "hd_typeNameHash header_default \<noteq> meSerializeTypeNameHash note_type" by code_simp+
  moreover have "allocates (io_fresh note_env)" by (simp add: note_env_def allocates_def)
  moreover have "length (header_deps header_default) < 4294967296"
    "hd_magic header_default = ME_BINARY_SERIALIZED_MAGIC"
    "hd_formatVersion header_default = ME_BINARY_SERIALIZED_VERSION"
    by (simp_all add: header_deps_def header_default_def)
  ultimately show ?thesis
    using asset_load_refused[of note_type note_env 8 header_default "[]" "\<lambda>_. None" 0 "VPrim []" "[]"] by simp
qed

end
