(* ===== verification/ObjectWalks.thy ===== *)
theory ObjectWalks
  imports BinaryWalks
begin

text \<open>
  What the reflective operations of \<open>Reflection\<close> do to an object of a type: a deep copy has the same
  serialised form, destruction leaves an object that owns no memory, and the comparison of dynamic
  arrays fails an assertion where it should return.
\<close>

section \<open>Deep copy\<close>

text \<open>
  What copying asks of a type beyond \<open>td_ok\<close>: no part that is left out of the walk at its top,
  an alias as large as the type it stands for, and an asset reference that is not an alias.
\<close>

fun copy_ok :: "nat \<Rightarrow> meTypeDescriptor \<Rightarrow> meTypeDescriptor option \<Rightarrow> bool" where
  "copy_ok 0 td parent = False"
| "copy_ok (Suc n) td parent =
     (case shape_of td parent of
        ShSkip \<Rightarrow> False
      | ShBad \<Rightarrow> False
      | ShPrim p \<Rightarrow> td_thisType td = None
      | ShAsset \<Rightarrow> td_thisType td = None
      | ShDyn e \<Rightarrow> copy_ok n e (Some (elem_parent td parent))
      | ShFixed k ty \<Rightarrow> copy_ok n ty (Some td)
      | ShAlias ty \<Rightarrow> td_size td = td_size ty \<and> copy_ok n ty (Some td)
      | ShStruct fds \<Rightarrow> list_all (\<lambda>field. visited field \<longrightarrow> copy_ok n field (Some td)) fds
      | _ \<Rightarrow> True)"

text \<open>The copy: a buffer or string of its own for each non-empty one, null for an empty one.\<close>

definition span_copy :: "u8 list option \<Rightarrow> u8 list option" where
  "span_copy s = (if span_bytes s = [] then None else s)"

lemma span_bytes_copy [simp]: "span_bytes (span_copy s) = span_bytes s"
  by (simp add: span_copy_def span_bytes_def)

lemma so_bytes_String_of [simp]: "so_bytes (String_of bs) = bs"
  by (simp add: String_of_def so_bytes_def String_empty_def span_bytes_def)

lemma so_len_String_of [simp]: "so_len (String_of bs) = length bs"
  by (simp add: String_of_def String_empty_def)

definition copies :: "(val \<Rightarrow> val result) \<Rightarrow> (val \<Rightarrow> bool) \<Rightarrow> (val \<Rightarrow> u8 list) \<Rightarrow> val \<Rightarrow> bool" where
  "copies f P enc v \<longleftrightarrow> (\<exists>v'. f v = Inr v' \<and> P v' \<and> enc v' = enc v)"

lemma walk_elements_copies:
  assumes "\<And>v. v \<in> set vs \<Longrightarrow> copies f P enc v"
  shows "\<exists>vs'. walk_elements f vs = Inr vs' \<and> list_all P vs' \<and> length vs' = length vs \<and> map enc vs' = map enc vs"
  using assms
proof (induction vs)
  case Nil
  then show ?case by simp
next
  case (Cons v vs)
  obtain v' where "f v = Inr v'" "P v'" "enc v' = enc v"
    using Cons.prems[of v] by (auto simp: copies_def)
  moreover obtain vs' where "walk_elements f vs = Inr vs'" "list_all P vs'" "length vs' = length vs" "map enc vs' = map enc vs"
    using Cons by auto
  ultimately show ?case by auto
qed

lemma walk_members_copies:
  assumes "list_all2 (\<lambda>field v. visited field \<longrightarrow> copies (f field) (P field) (enc field) v) fds vs"
  shows "\<exists>vs'. walk_members f fds vs = Inr vs' \<and> list_all2 (\<lambda>field v. visited field \<longrightarrow> P field v) fds vs' \<and>
     map2 (\<lambda>field v. if visited field then enc field v else []) fds vs' =
     map2 (\<lambda>field v. if visited field then enc field v else []) fds vs"
  using assms
proof (induction fds vs rule: list_all2_induct)
  case Nil
  then show ?case by simp
next
  case (Cons field fds v vs)
  then obtain vs' where vs': "walk_members f fds vs = Inr vs'" "list_all2 (\<lambda>field v. visited field \<longrightarrow> P field v) fds vs'"
    "map2 (\<lambda>field v. if visited field then enc field v else []) fds vs' =
     map2 (\<lambda>field v. if visited field then enc field v else []) fds vs" by auto
  show ?case
  proof (cases "visited field")
    case True
    with Cons(1) obtain v' where "f field v = Inr v'" "P field v'" "enc field v' = enc field v"
      by (auto simp: copies_def)
    with True vs' show ?thesis by (auto intro!: exI[of _ "v' # vs'"])
  next
    case False
    with vs' show ?thesis by (auto intro!: exI[of _ "v # vs'"])
  qed
qed

lemma DeepCopy_shape:
  "shape_of td parent = ShPrim p \<Longrightarrow> td_thisType td = None \<Longrightarrow> DeepCopy (Suc n) td parent alloc (VPrim bs) = Inr (VPrim bs)"
  "shape_of td parent = ShBuffer \<Longrightarrow> DeepCopy (Suc n) td parent alloc v = sizedBufferDeepCopy alloc v"
  "shape_of td parent = ShString \<Longrightarrow> DeepCopy (Suc n) td parent alloc v = stringDeepCopy alloc v"
  "shape_of td parent = ShAsset \<Longrightarrow> td_thisType td = None \<Longrightarrow> DeepCopy (Suc n) td parent alloc (VAsset m e s) = Inr (VAsset m e s)"
  "shape_of td parent = ShFixed k ty \<Longrightarrow> DeepCopy (Suc n) td parent alloc (VFixed vs) =
     bindR (walk_elements (DeepCopy n ty (Some td) alloc) vs) (\<lambda>vs. Inr (VFixed vs))"
  "shape_of td parent = ShAlias ty \<Longrightarrow> td_size td = td_size ty \<Longrightarrow>
     DeepCopy (Suc n) td parent alloc v = DeepCopy n ty (Some td) alloc v"
  "shape_of td parent = ShStruct fds \<Longrightarrow> DeepCopy (Suc n) td parent alloc (VStruct vs) =
     bindR (walk_members (\<lambda>f. DeepCopy n f (Some td) alloc) fds vs) (\<lambda>vs. Inr (VStruct vs))"
  by (auto simp: shape_of_def is_constant_array_def split: if_splits td_fns.splits option.splits list.splits)

lemma DeepCopy_dyn:
  assumes "shape_of td parent = ShDyn e"
  shows "DeepCopy (Suc n) td parent (Some a) (VDyn arr) =
     (case arr of None \<Rightarrow> Inr (VDyn None)
      | Some vs \<Rightarrow> bindR (walk_elements (DeepCopy n e (Some (elem_parent td parent)) (Some a)) vs) (\<lambda>vs. Inr (VDyn (Some vs))))"
  using assms
  by (auto simp: shape_of_def elem_parent_def Let_def meTypeDescriptorGetSingleTemplateArg_def
      split: if_splits td_fns.splits option.splits list.splits)

declare DeepCopy.simps [simp del]

lemma DeepCopy_copies:
  "copy_ok n td parent \<Longrightarrow> wt n td parent v \<Longrightarrow>
     copies (DeepCopy n td parent (Some a)) (wt n td parent) (encode_val n td parent) v"
proof (induction n arbitrary: td parent v)
  case 0
  then show ?case by simp
next
  case (Suc n)
  note IH = Suc.IH
  show ?case
  proof (cases "shape_of td parent")
    case (ShPrim p)
    with Suc.prems show ?thesis by (auto simp: copies_def DeepCopy_shape split: val.splits)
  next
    case ShBuffer
    with Suc.prems obtain s where v: "v = VSpan s" "length (span_bytes s) < 4294967296" by (auto split: val.splits)
    have "sizedBufferDeepCopy (Some a) (VSpan s) = Inr (VSpan (span_copy s))"
      by (cases s) (auto simp: sizedBufferDeepCopy_def span_copy_def span_bytes_def)
    with ShBuffer v show ?thesis by (simp add: copies_def DeepCopy_shape)
  next
    case ShString
    with Suc.prems obtain s where v: "v = VString s" "string_wf s" by (auto split: val.splits)
    then have "stringDeepCopy (Some a) (VString s) = Inr (VString (String_of (so_bytes s)))"
      by (simp add: stringDeepCopy_def String_of_def)
    moreover have "string_wf (String_of (so_bytes s))"
      using v(2) length_so_bytes[OF v(2)]
      by (auto simp: string_wf_def String_of_def String_empty_def span_bytes_def)
    ultimately show ?thesis using ShString v by (simp add: copies_def DeepCopy_shape)
  next
    case (ShDyn e)
    let ?p = "elem_parent td parent"
    from ShDyn Suc.prems obtain arr where v: "v = VDyn arr" "length (dyn_elems arr) < 4294967296"
      "list_all (wt n e (Some ?p)) (dyn_elems arr)" and ok: "copy_ok n e (Some ?p)"
      by (auto split: val.splits)
    show ?thesis
    proof (cases arr)
      case None
      with ShDyn v show ?thesis by (simp add: copies_def DeepCopy_dyn)
    next
      case (Some vs)
      have "copies (DeepCopy n e (Some ?p) (Some a)) (wt n e (Some ?p)) (encode_val n e (Some ?p)) x" if "x \<in> set vs" for x
        using IH[OF ok] v(3) Some that by (simp add: dyn_elems_def list_all_iff)
      from walk_elements_copies[OF this] obtain vs' where
        "walk_elements (DeepCopy n e (Some ?p) (Some a)) vs = Inr vs'" "list_all (wt n e (Some ?p)) vs'"
        "length vs' = length vs" "map (encode_val n e (Some ?p)) vs' = map (encode_val n e (Some ?p)) vs" by blast
      with ShDyn v Some show ?thesis by (simp add: copies_def DeepCopy_dyn dyn_elems_def)
    qed
  next
    case ShAsset
    with Suc.prems show ?thesis by (auto simp: copies_def DeepCopy_shape split: val.splits)
  next
    case (ShFixed k ty)
    with Suc.prems obtain vs where v: "v = VFixed vs" "length vs = k" "list_all (wt n ty (Some td)) vs"
      and ok: "copy_ok n ty (Some td)" by (auto split: val.splits)
    have "copies (DeepCopy n ty (Some td) (Some a)) (wt n ty (Some td)) (encode_val n ty (Some td)) x" if "x \<in> set vs" for x
      using IH[OF ok] v(3) that by (simp add: list_all_iff)
    from walk_elements_copies[OF this] obtain vs' where
      "walk_elements (DeepCopy n ty (Some td) (Some a)) vs = Inr vs'" "list_all (wt n ty (Some td)) vs'"
      "length vs' = length vs" "map (encode_val n ty (Some td)) vs' = map (encode_val n ty (Some td)) vs" by blast
    with ShFixed v show ?thesis by (simp add: copies_def DeepCopy_shape)
  next
    case (ShAlias ty)
    with Suc.prems IH[of ty "Some td" v] show ?thesis by (simp add: copies_def DeepCopy_shape)
  next
    case (ShStruct fds)
    with Suc.prems obtain vs where v: "v = VStruct vs"
      "list_all2 (\<lambda>field v. visited field \<longrightarrow> wt n field (Some td) v) fds vs"
      and ok: "list_all (\<lambda>field. visited field \<longrightarrow> copy_ok n field (Some td)) fds"
      by (auto split: val.splits)
    have "list_all2 (\<lambda>field v. visited field \<longrightarrow>
        copies (DeepCopy n field (Some td) (Some a)) (wt n field (Some td)) (encode_val n field (Some td)) v) fds vs"
      unfolding list_all2_iff
    proof (intro conjI ballI)
      show "length fds = length vs" using v(2) by (rule list_all2_lengthD)
      fix x assume x: "x \<in> set (zip fds vs)"
      obtain field w where [simp]: "x = (field, w)" by (cases x)
      have "field \<in> set fds" using x by (auto dest: set_zip_leftD)
      then have "visited field \<Longrightarrow> copy_ok n field (Some td)" using ok by (simp add: list_all_iff)
      moreover have "visited field \<Longrightarrow> wt n field (Some td) w" using v(2) x by (auto simp: list_all2_iff)
      ultimately show "case x of (field, v) \<Rightarrow> visited field \<longrightarrow>
          copies (DeepCopy n field (Some td) (Some a)) (wt n field (Some td)) (encode_val n field (Some td)) v"
        using IH[of field "Some td" w] by simp
    qed
    from walk_members_copies[OF this] obtain vs' where
      "walk_members (\<lambda>f. DeepCopy n f (Some td) (Some a)) fds vs = Inr vs'"
      "list_all2 (\<lambda>field v. visited field \<longrightarrow> wt n field (Some td) v) fds vs'"
      "map2 (\<lambda>field v. if visited field then encode_val n field (Some td) v else []) fds vs' =
       map2 (\<lambda>field v. if visited field then encode_val n field (Some td) v else []) fds vs" by blast
    with ShStruct v show ?thesis by (simp add: copies_def DeepCopy_shape)
  qed (use Suc.prems in simp_all)
qed

section \<open>Destruction\<close>

text \<open>The blocks of memory an object owns.\<close>

fun blocks :: "val \<Rightarrow> nat" where
  "blocks (VPrim bs) = 0"
| "blocks (VSpan s) = (if s = None then 0 else 1)"
| "blocks (VString s) = (if so_data s = None then 0 else 1)"
| "blocks (VDyn None) = 0"
| "blocks (VDyn (Some vs)) = Suc (sum_list (map blocks vs))"
| "blocks (VFixed vs) = sum_list (map blocks vs)"
| "blocks (VStruct vs) = sum_list (map blocks vs)"
| "blocks (VAsset m e s) = 0"

text \<open>
  What full destruction asks of a type: no part is left out of the walk, and the value a
  generated type is reset to owns nothing.
\<close>

fun destroy_ok :: "nat \<Rightarrow> meTypeDescriptor \<Rightarrow> meTypeDescriptor option \<Rightarrow> bool" where
  "destroy_ok 0 td parent = False"
| "destroy_ok (Suc n) td parent =
     ((case td_defaults td of Some d \<Rightarrow> blocks d = 0 | None \<Rightarrow> True) \<and>
      (case shape_of td parent of
         ShSkip \<Rightarrow> False
       | ShBad \<Rightarrow> False
       | ShPrim p \<Rightarrow> td_thisType td = None
       | ShAsset \<Rightarrow> td_thisType td = None
       | ShDyn e \<Rightarrow> destroy_ok n e (Some (elem_parent td parent))
       | ShFixed k ty \<Rightarrow> destroy_ok n ty (Some td)
       | ShAlias ty \<Rightarrow> destroy_ok n ty (Some td)
       | ShStruct fds \<Rightarrow> list_all (\<lambda>field. visited field \<and> destroy_ok n field (Some td)) fds
       | _ \<Rightarrow> True))"

definition frees :: "(val \<Rightarrow> val result) \<Rightarrow> val \<Rightarrow> bool" where
  "frees f v \<longleftrightarrow> (\<exists>v'. f v = Inr v' \<and> blocks v' = 0)"

lemma walk_elements_frees:
  assumes "\<And>v. v \<in> set vs \<Longrightarrow> frees f v"
  shows "\<exists>vs'. walk_elements f vs = Inr vs' \<and> sum_list (map blocks vs') = 0"
  using assms
proof (induction vs)
  case (Cons v vs)
  from Cons.prems[of v] obtain v' where "f v = Inr v'" "blocks v' = 0" by (auto simp: frees_def)
  moreover from Cons obtain vs' where "walk_elements f vs = Inr vs'" "sum_list (map blocks vs') = 0" by auto
  ultimately show ?case by simp
qed simp

lemma walk_members_frees:
  assumes "list_all2 (\<lambda>field v. visited field \<and> frees (f field) v) fds vs"
  shows "\<exists>vs'. walk_members f fds vs = Inr vs' \<and> sum_list (map blocks vs') = 0"
  using assms
proof (induction fds vs rule: list_all2_induct)
  case (Cons field fds v vs)
  then obtain v' vs' where "visited field" "f field v = Inr v'" "blocks v' = 0"
    "walk_members f fds vs = Inr vs'" "sum_list (map blocks vs') = 0" by (auto simp: frees_def)
  then show ?case by simp
qed simp

text \<open>Destruction of a type with a generated function: its fields, then the reset.\<close>

definition reset_to_default :: "meTypeDescriptor \<Rightarrow> val \<Rightarrow> val" where
  "reset_to_default td v = (case td_defaults td of Some d \<Rightarrow> d | None \<Rightarrow> v)"

lemma Destroy_leaf:
  "shape_of td parent = ShPrim p \<Longrightarrow> td_thisType td = None \<Longrightarrow>
     Destroy (Suc (Suc n)) False td parent alloc (VPrim bs) = Inr (VPrim bs)"
  "shape_of td parent = ShBuffer \<Longrightarrow> Destroy (Suc (Suc n)) False td parent alloc v = sizedBufferDestroy alloc v"
  "shape_of td parent = ShString \<Longrightarrow> Destroy (Suc (Suc n)) False td parent alloc v = stringDestroy v"
  "shape_of td parent = ShAsset \<Longrightarrow> td_thisType td = None \<Longrightarrow>
     Destroy (Suc (Suc n)) False td parent alloc (VAsset m e s) = Inr (reset_to_default td (VAsset m e s))"
  by (auto simp: shape_of_def reset_to_default_def Let_def
      split: if_splits td_fns.splits option.splits list.splits)

lemma Destroy_dyn:
  assumes "shape_of td parent = ShDyn e"
  shows "Destroy (Suc n) False td parent alloc (VDyn None) = Inr (VDyn None)"
    and "Destroy (Suc n) False td parent alloc (VDyn (Some vs)) =
      bindR (walk_elements (Destroy n False e (Some (elem_parent td parent)) alloc) vs) (\<lambda>_. Inr (VDyn None))"
  using assms
  by (auto simp: shape_of_def elem_parent_def Let_def
      split: if_splits td_fns.splits option.splits list.splits)

lemma Destroy_fields:
  "shape_of td parent = ShFixed k ty \<Longrightarrow> Destroy (Suc n) True td parent alloc (VFixed vs) =
     bindR (walk_elements (Destroy n False ty (Some td) alloc) vs) (\<lambda>vs. Inr (VFixed vs))"
  "shape_of td parent = ShAlias ty \<Longrightarrow> Destroy (Suc n) True td parent alloc v = Destroy n False ty (Some td) alloc v"
  "shape_of td parent = ShStruct fds \<Longrightarrow> Destroy (Suc n) True td parent alloc (VStruct vs) =
     bindR (walk_members (\<lambda>f. Destroy n False f (Some td) alloc) fds vs) (\<lambda>vs. Inr (VStruct vs))"
  by (auto simp: shape_of_def is_constant_array_def Let_def
      split: if_splits td_fns.splits option.splits list.splits)

definition structural :: "shape \<Rightarrow> bool" where
  "structural s \<longleftrightarrow> (case s of ShFixed _ _ \<Rightarrow> True | ShAlias _ \<Rightarrow> True | ShStruct _ \<Rightarrow> True | _ \<Rightarrow> False)"

lemma Destroy_structural:
  assumes "structural (shape_of td parent)"
  shows "td_fns td = Fn_generated \<Longrightarrow>
      Destroy (Suc n) False td parent alloc v = bindR (Destroy n True td parent alloc v) (\<lambda>v. Inr (reset_to_default td v))"
    and "td_fns td \<noteq> Fn_generated \<Longrightarrow>
      Destroy (Suc n) False td parent alloc v = Destroy (Suc n) True td parent alloc v"
  using assms
  by (auto simp: structural_def shape_of_def reset_to_default_def Let_def
      split: if_splits td_fns.splits option.splits list.splits)

declare Destroy.simps [simp del]

lemma blocks_reset:
  assumes "case td_defaults td of Some d \<Rightarrow> blocks d = 0 | None \<Rightarrow> True" and "blocks v = 0"
  shows "blocks (reset_to_default td v) = 0"
  using assms by (simp add: reset_to_default_def split: option.splits)

lemma frees_reset:
  assumes "frees (Destroy fuel True td parent alloc) v"
    and "case td_defaults td of Some d \<Rightarrow> blocks d = 0 | None \<Rightarrow> True"
  shows "frees (\<lambda>v. bindR (Destroy fuel True td parent alloc v) (\<lambda>v. Inr (reset_to_default td v))) v"
  using assms by (auto simp: frees_def blocks_reset)

lemma Destroy_structural_frees:
  assumes "structural (shape_of td parent)"
    and "case td_defaults td of Some d \<Rightarrow> blocks d = 0 | None \<Rightarrow> True"
    and "\<And>m. k \<le> m \<Longrightarrow> frees (Destroy (Suc m) True td parent alloc) v"
  shows "frees (Destroy (Suc (Suc k)) False td parent alloc) v"
proof (cases "td_fns td = Fn_generated")
  case True
  with frees_reset[OF assms(3)[of k] assms(2)] show ?thesis
    by (simp add: frees_def Destroy_structural(1)[OF assms(1)])
next
  case False
  with assms(3)[of "Suc k"] show ?thesis by (simp add: frees_def Destroy_structural(2)[OF assms(1)])
qed

lemma Destroy_frees:
  "destroy_ok n td parent \<Longrightarrow> wt n td parent v \<Longrightarrow> 2 * n \<le> fuel \<Longrightarrow>
     frees (Destroy fuel False td parent (Some a)) v"
proof (induction n arbitrary: td parent v fuel)
  case 0
  then show ?case by simp
next
  case (Suc n)
  note IH = Suc.IH
  from Suc.prems(3) obtain k where fuel: "fuel = Suc (Suc k)" and k: "2 * n \<le> k"
    by (cases fuel; cases "fuel - 1") auto
  have defaults: "case td_defaults td of Some d \<Rightarrow> blocks d = 0 | None \<Rightarrow> True"
    using Suc.prems(1) by simp
  note by_parts = Destroy_structural_frees[OF _ defaults, of parent k "Some a" v, folded fuel]
  show ?case
  proof (cases "shape_of td parent")
    case (ShPrim p)
    with Suc.prems fuel show ?thesis by (auto simp: frees_def Destroy_leaf split: val.splits)
  next
    case ShBuffer
    with Suc.prems fuel show ?thesis
      by (auto simp: frees_def Destroy_leaf sizedBufferDestroy_def split: val.splits option.splits)
  next
    case ShString
    with Suc.prems fuel show ?thesis
      by (auto simp: frees_def Destroy_leaf stringDestroy_def String_empty_def split: val.splits)
  next
    case ShAsset
    with Suc.prems fuel show ?thesis by (auto simp: frees_def Destroy_leaf blocks_reset split: val.splits)
  next
    case (ShDyn e)
    let ?p = "elem_parent td parent"
    from ShDyn Suc.prems obtain arr where v: "v = VDyn arr"
      "list_all (wt n e (Some ?p)) (dyn_elems arr)" and ok: "destroy_ok n e (Some ?p)"
      by (auto split: val.splits)
    have "frees (Destroy (Suc k) False e (Some ?p) (Some a)) x" if "x \<in> set (dyn_elems arr)" for x
      using IH[OF ok] v(2) that k by (simp add: list_all_iff)
    from walk_elements_frees[OF this, of "dyn_elems arr"] show ?thesis
      using ShDyn v fuel by (cases arr) (auto simp: frees_def Destroy_dyn dyn_elems_def)
  next
    case (ShFixed c ty)
    with Suc.prems obtain vs where v: "v = VFixed vs" "list_all (wt n ty (Some td)) vs"
      and ok: "destroy_ok n ty (Some td)" by (auto split: val.splits)
    have "frees (Destroy (Suc m) True td parent (Some a)) v" if "k \<le> m" for m
    proof -
      have "frees (Destroy m False ty (Some td) (Some a)) x" if "x \<in> set vs" for x
        using IH[OF ok] v(2) that k \<open>k \<le> m\<close> by (simp add: list_all_iff)
      from walk_elements_frees[OF this, of vs] show ?thesis
        using ShFixed v by (auto simp: frees_def Destroy_fields)
    qed
    then show ?thesis using ShFixed by (intro by_parts) (simp_all add: structural_def)
  next
    case (ShAlias ty)
    with Suc.prems have ok: "destroy_ok n ty (Some td)" "wt n ty (Some td) v" by simp_all
    have "frees (Destroy (Suc m) True td parent (Some a)) v" if "k \<le> m" for m
      using IH[OF ok, of m] k that ShAlias by (simp add: frees_def Destroy_fields)
    then show ?thesis using ShAlias by (intro by_parts) (simp_all add: structural_def)
  next
    case (ShStruct fds)
    with Suc.prems obtain vs where v: "v = VStruct vs"
      "list_all2 (\<lambda>field v. visited field \<longrightarrow> wt n field (Some td) v) fds vs"
      and ok: "list_all (\<lambda>field. visited field \<and> destroy_ok n field (Some td)) fds"
      by (auto split: val.splits)
    have "frees (Destroy (Suc m) True td parent (Some a)) v" if "k \<le> m" for m
    proof -
      have "list_all2 (\<lambda>field v. visited field \<and> frees (Destroy m False field (Some td) (Some a)) v) fds vs"
        unfolding list_all2_iff
      proof (intro conjI ballI)
        show "length fds = length vs" using v(2) by (rule list_all2_lengthD)
        fix x assume x: "x \<in> set (zip fds vs)"
        obtain field w where [simp]: "x = (field, w)" by (cases x)
        have "visited field" "destroy_ok n field (Some td)"
          using x ok by (auto simp: list_all_iff dest: set_zip_leftD)
        moreover from this have "wt n field (Some td) w" using v(2) x by (auto simp: list_all2_iff)
        ultimately show "case x of (field, v) \<Rightarrow> visited field \<and> frees (Destroy m False field (Some td) (Some a)) v"
          using IH[of field "Some td" w m] k that by simp
      qed
      from walk_members_frees[OF this] show ?thesis
        using ShStruct v by (auto simp: frees_def Destroy_fields)
    qed
    then show ?thesis using ShStruct by (intro by_parts) (simp_all add: structural_def)
  qed (use Suc.prems in simp_all)
qed

section \<open>Properties\<close>





text \<open>
  Comparing two dynamic arrays of the same length that start with equal elements fails the
  bounds assertion at the second element when the elements are at least as large as the array is
  long: \<open>DynArrayEqualsFn\<close> passes the byte offset of an element as the index into the array.
\<close>

theorem DynArrayEqualsFn_asserts:
  assumes "td_templatedTypes td = [e]" and "length xs = length ys"
    and "Suc (Suc 0) \<le> length xs" and "length xs \<le> td_size e" and "td_size e < 4294967296"
    and "eq e (hd xs) (hd ys) = Inr True"
  shows "DynArrayEqualsFn eq td (VDyn (Some xs)) (VDyn (Some ys)) = Inl AssertFailed"
proof -
  from assms(2,3) obtain x x2 xs' y y2 ys' where "xs = x # x2 # xs'" "ys = y # y2 # ys'"
    by (metis Suc_le_length_iff)
  with assms show ?thesis
    by (auto simp: DynArrayEqualsFn_def meTypeDescriptorGetSingleTemplateArg_def)
qed

theorem DynArrayEqualsFn_asserts_witness:
  "DynArrayEqualsFn (meFieldsEqual 3)
     (TypeDesc [] [] 0 0 16 None [prim_desc TD_INT] Fn_DynArray None (VDyn None))
     (VDyn (Some [VPrim [1, 0, 0, 0], VPrim [2, 0, 0, 0]]))
     (VDyn (Some [VPrim [1, 0, 0, 0], VPrim [2, 0, 0, 0]])) = Inl AssertFailed"
proof (rule DynArrayEqualsFn_asserts[where e = "prim_desc TD_INT"])
  show "meFieldsEqual 3 (prim_desc TD_INT) (hd [VPrim [1, 0, 0, 0], VPrim [2, 0, 0, 0]])
      (hd [VPrim [1, 0, 0, 0], VPrim [2, 0, 0, 0]]) = Inr True" by code_simp
qed (simp_all add: prim_desc_def prim_size_def)

end
