(* ===== verification/TextFiles.thy ===== *)
theory TextFiles
  imports TextWalks AssetFiles
begin

text \<open>
  Asset files in text, which is how the asset system stores them: saving and loading with the
  asset header (\<open>SerializeBlocking\<close>, \<open>DeserializeBlocking\<close> of \<open>AssetFiles\<close>) through a JSON document.
  Printing and parsing of documents belong to the JSON library and are arguments.
\<close>

section \<open>The header as a document\<close>

lemma header_text:
  assumes "6 \<le> n"
  shows "text_ok n TD_MESERIALIZEDHEADER parent"
    and "bools_ok n TD_MESERIALIZEDHEADER parent (header_val h)"
    and "json_val fc n TD_MESERIALIZEDHEADER parent (header_val h) = json_val fc 6 TD_MESERIALIZEDHEADER None (header_val h)"
proof -
  have "n = Suc (Suc (Suc (Suc (Suc (Suc (n - 6))))))"
    using assms by simp
  then obtain k where n: "n = Suc (Suc (Suc (Suc (Suc (Suc k)))))" by blast
  have six: "6 = Suc (Suc (Suc (Suc (Suc (Suc 0)))))" by simp
  note S = header_shapes header_fields TD_MAID_shape TD_MAID_fields dyn_elems_deps
    u32_val_def header_val_def MAID_val_def field_names_def
  show "text_ok n TD_MESERIALIZEDHEADER parent"
    unfolding n by (simp add: S) (simp add: lit_def field_desc_def)
  show "bools_ok n TD_MESERIALIZEDHEADER parent (header_val h)"
    unfolding n by (simp add: S list_all_iff)
  show "json_val fc n TD_MESERIALIZEDHEADER parent (header_val h) = json_val fc 6 TD_MESERIALIZEDHEADER None (header_val h)"
    unfolding n six by (simp add: S comp_def)
qed

abbreviation header_json :: "fcasts \<Rightarrow> meSerializedHeader \<Rightarrow> json" where
  "header_json fc h \<equiv> json_val fc 6 TD_MESERIALIZEDHEADER None (header_val h)"

text \<open>An asset's document holds the header's under its name.\<close>

lemma asset_document:
  assumes "asset_type td" and "8 \<le> n" and "text_ok n td None"
  shows "\<exists>kvs. json_val fc n td None (asset_val h vs) = JObject kvs \<and>
      map_of kvs ME_ASSET_HEADER_FIELDNAME = Some (header_json fc h)"
    and "bools_ok n td None (asset_val h vs) \<Longrightarrow> bools_ok n td None (asset_val h' vs)"
proof -
  obtain hf fds where t: "td_fields td = hf # fds" "IsSerializedHeaderField hf" "visited hf"
    "shape_of hf (Some td) = ShAlias TD_MESERIALIZEDHEADER" "shape_of td None = ShStruct (hf # fds)"
    using asset_typeD[OF assms(1)] by blast
  have nm: "td_name hf = ME_ASSET_HEADER_FIELDNAME" using t(2) by (simp add: IsSerializedHeaderField_def)
  obtain m where n: "n = Suc (Suc m)" and m: "6 \<le> m"
    using assms(2) by (cases n; cases "n - 1") auto
  have d: "distinct (field_names (hf # fds))" using assms(3) by (simp add: n t)
  show "\<exists>kvs. json_val fc n td None (asset_val h vs) = JObject kvs \<and>
      map_of kvs ME_ASSET_HEADER_FIELDNAME = Some (header_json fc h)"
  proof -
    let ?enc = "\<lambda>field v. json_val fc (Suc m) field (Some td) v"
    have "map_of (json_members ?enc (hf # fds) (header_val h # vs)) (td_name hf) = Some (?enc hf (header_val h))"
      by (rule json_members_lookup[OF d]) (simp_all add: t)
    moreover have "?enc hf (header_val h) = header_json fc h"
      using header_text(3)[OF m] by (simp add: t)
    moreover have "json_val fc n td None (asset_val h vs) = JObject (json_members ?enc (hf # fds) (header_val h # vs))"
      unfolding n json_val.simps(2)[of fc "Suc m" td] t(5) by (simp del: json_members_onto.simps json_val.simps)
    ultimately show ?thesis by (simp add: nm del: json_members_onto.simps json_val.simps)
  qed
  show "bools_ok n td None (asset_val h' vs)" if "bools_ok n td None (asset_val h vs)"
    using that by (simp add: n t header_text[OF m])
qed

section \<open>Passes over a document\<close>

definition opened :: "io \<Rightarrow> Pass \<Rightarrow> json \<Rightarrow> u8 list option \<Rightarrow> chunker" where
  "opened env pass root out =
     \<lparr>ck_mode = meSerializationMode_Text, ck_pass = pass, ck_valid = True, bin_buf = [], bin_cursor = 0,
      txt_root = Some root, txt_current = Some [], txt_stack = [], txt_output = out, txt_casts = io_casts env\<rparr>"

lemma opened_chunker:
  "pass \<noteq> PRead \<Longrightarrow>
     meChunker (io_casts env) parse meSerializationMode_Text pass (Some a) data = Inr (opened env pass (JObject []) data)"
  "parse input = Some root \<Longrightarrow>
     meChunker (io_casts env) parse meSerializationMode_Text PRead (Some a) (Some input) = Inr (opened env PRead root None)"
  by (simp_all add: meChunker_def InitText_def TextStateInitForWrite_def TextStateInitForRead_def
      IsReadMode_def opened_def)

lemma opened_simps [simp]:
  "ck_mode (opened env pass root out) = meSerializationMode_Text"
  "ck_pass (opened env pass root out) = pass"
  "ck_valid (opened env pass root out)"
  "txt_casts (opened env pass root out) = io_casts env"
  "txt_output (opened env pass root out) = out"
  "txt_current (opened env pass root out) = Some []"
  "txt_root (opened env pass root out) = Some root"
  "(opened env pass root out)\<lparr>txt_root := Some r, txt_current := Some [], txt_stack := []\<rparr> = opened env pass r out"
  by (simp_all add: opened_def)

lemma opened_at: "wk_chunker w = opened env pass root out \<Longrightarrow> at_ref r [] [] w = w\<lparr>wk_chunker := opened env pass r out\<rparr>"
  by (simp add: at_ref_def)

text \<open>What a walk over a whole document leaves.\<close>

lemma text_codes_whole:
  assumes c: "text_codes (io_casts env) h n f u v j ids v'" and n: "n \<le> 128"
    and w: "wk_chunker w = opened env pass root out"
  shows "pass = PMeasure \<or> pass = PWrite \<Longrightarrow>
      f w v = Inr (True, v, (noted h ids w)\<lparr>wk_chunker := opened env pass j out\<rparr>)"
    and "pass = PRead \<Longrightarrow> root = j \<Longrightarrow> f w u = Inr (True, v', noted h ids w)"
proof -
  have t: "in_text w" "txt_casts (wk_chunker w) = io_casts env" "length ([] :: step list list) + n \<le> 128"
    using w n by simp_all
  have same: "at_ref root [] [] w = w" using opened_at[OF w, of root] w by simp
  show "f w v = Inr (True, v, (noted h ids w)\<lparr>wk_chunker := opened env pass j out\<rparr>)"
    if "pass = PMeasure \<or> pass = PWrite"
  proof -
    have "writing w" using that w by (auto simp: IsWriteMode_def IsMeasureMode_def)
    moreover have "at_ref j [] [] (noted h ids w) = (noted h ids w)\<lparr>wk_chunker := opened env pass j out\<rparr>"
      by (rule opened_at) (simp add: w)
    ultimately show ?thesis using text_codesD(1)[OF c t, of root "[]"] by (simp add: same)
  qed
  show "f w u = Inr (True, v', noted h ids w)" if "pass = PRead" "root = j"
  proof -
    have "reading w" using that w by (simp add: IsReadMode_def)
    moreover have "at_ref j [] [] (noted h ids w) = noted h ids w"
      using opened_at[of "noted h ids w" env pass root out j] w that by simp
    ultimately show ?thesis using text_codesD(2)[OF c t, of root "[]"] that same by simp
  qed
qed

lemma Finalize_opened:
  "pass = PMeasure \<Longrightarrow> Finalize dump (opened env pass j out) (Some a) =
     (case dump j of None \<Rightarrow> Inr (None, 0, (opened env pass j out)\<lparr>ck_valid := False\<rparr>)
      | Some s \<Rightarrow> Inr (None, length s, opened env pass j out))"
  "dump j = Some s \<Longrightarrow> length buf = length s \<Longrightarrow> s \<noteq> [] \<Longrightarrow>
     Finalize dump (opened env PWrite j (Some buf)) (Some a) = Inr (Some s, length s, opened env PWrite j (Some s))"
  by (auto simp: Finalize_def DoTextFinalize_def IsMeasureMode_def blit_def opened_def split: option.splits)

section \<open>Saving\<close>

lemma SerializeChunkerPass_text:
  assumes fc: "casts_exact (io_casts env)" and td: "td_ok n td None" "text_ok n td None" "asset_type td"
    and n: "8 \<le> n" "n \<le> 128"
    and wt: "wt n td None (asset_val (prepared td reset h) vs)" and bools: "bools_ok n td None (asset_val h vs)"
    and j: "j = json_val (io_casts env) n td None (asset_val (prepared td reset h) vs)"
    and deps: "add_deps (asset_refs n td None (asset_val h vs)) (Some (header_deps (prepared td reset h))) = Some ds"
    and h': "h' = (prepared td reset h)\<lparr>hd_dependencies :=
                  (if hd_dependencies (prepared td reset h) = None \<and> ds = [] then None else Some ds)\<rparr>"
  shows "SerializeChunkerPass env a n meSerializationMode_Text td PMeasure reset (asset_val h vs) None =
      Inr (True, asset_val h' vs, None, case io_dump env j of None \<Rightarrow> 0 | Some s \<Rightarrow> length s)"
    and "io_dump env j = Some s \<Longrightarrow> s \<noteq> [] \<Longrightarrow> length buf = length s \<Longrightarrow>
      SerializeChunkerPass env a n meSerializationMode_Text td PWrite reset (asset_val h vs) (Some buf) =
      Inr (True, asset_val h' vs, Some s, length s)"
proof -
  let ?h = "prepared td reset h"
  let ?v = "asset_val ?h vs"
  let ?ids = "asset_refs n td None ?v"
  let ?w = "\<lambda>pass out. \<lparr>wk_chunker = opened env pass (JObject []) out, wk_deps = Some (header_deps ?h), wk_recorded = []\<rparr>"
  have bools': "bools_ok n td None ?v" using asset_document(2)[OF td(3) n(1) td(2) bools] .
  have c: "text_codes (io_casts env) False n (ChunkWithTypeDescriptor (io_fresh env) (Some a) n td None False False)
      ?v ?v j ?ids (restored n td None ?v ?v)"
    unfolding j by (rule Chunk_text_codes[OF fc td(1,2) wt wt bools'])
  have ids: "?ids = asset_refs n td None (asset_val h vs)" by (rule asset_parts(1)[OF td(3) n(1)])
  have walk: "ChunkWithTypeDescriptor (io_fresh env) (Some a) n td None False False (?w pass out) ?v =
      Inr (True, ?v, \<lparr>wk_chunker = opened env pass j out, wk_deps = Some ds, wk_recorded = []\<rparr>)"
    if "pass = PMeasure \<or> pass = PWrite" for pass out
    using text_codes_whole(1)[OF c n(2) _ that, of "?w pass out" "JObject []" out] that deps ids
    by (auto simp: noted_def IsReadMode_def)
  have dep: "(case hd_dependencies ?h of None \<Rightarrow> [] | Some ds \<Rightarrow> ds) = header_deps ?h"
    by (simp add: header_deps_def)
  have store: "store_deps (Some (0, ?h)) (Some ds) ?v = asset_val h' vs"
    by (simp add: store_deps_def asset_header(3)[OF td(3)] h')
  note P = SerializeChunkerPass_def asset_header(1,2)[OF td(3)] opened_chunker(1) dep store Let_def
  show "SerializeChunkerPass env a n meSerializationMode_Text td PMeasure reset (asset_val h vs) None =
      Inr (True, asset_val h' vs, None, case io_dump env j of None \<Rightarrow> 0 | Some s \<Rightarrow> length s)"
    using walk[of PMeasure None] by (simp add: P Finalize_opened(1) split: option.split)
  show "SerializeChunkerPass env a n meSerializationMode_Text td PWrite reset (asset_val h vs) (Some buf) =
      Inr (True, asset_val h' vs, Some s, length s)"
    if "io_dump env j = Some s" "s \<noteq> []" "length buf = length s"
    using walk[of PWrite "Some buf"] Finalize_opened(2)[of "io_dump env", OF that(1,3,2)]
    by (simp add: P IsWriteMode_def)
qed

text \<open>The header a save leaves in the asset: filled in, with the references found as dependencies.\<close>

definition saved_header :: "nat \<Rightarrow> meTypeDescriptor \<Rightarrow> meSerializedHeader \<Rightarrow> val list \<Rightarrow> meSerializedHeader" where
  "saved_header n td h vs =
     (let h1 = prepared td True h;
          ds = (case add_deps (asset_refs n td None (asset_val h vs)) (Some []) of Some ds \<Rightarrow> ds | None \<Rightarrow> [])
      in h1\<lparr>hd_dependencies := (if hd_dependencies h1 = None \<and> ds = [] then None else Some ds)\<rparr>)"

lemma saved_header_fields:
  "hd_assetHeader (saved_header n td h vs) = hd_assetHeader h"
  "hd_parentAsset (saved_header n td h vs) = hd_parentAsset h"
  "ValidateSerializedHeader (saved_header n td h vs) td = None"
  "prepared td False (saved_header n td h vs) = saved_header n td h vs"
  by (simp_all add: saved_header_def Let_def prepared_fields)

lemma saved_header_deps:
  "add_deps (asset_refs n td None (asset_val h vs)) (Some []) = Some (header_deps (saved_header n td h vs))"
  "set (header_deps (saved_header n td h vs)) = {m \<in> set (asset_refs n td None (asset_val h vs)). MAID_bool m}"
  "length (header_deps (saved_header n td h vs)) \<le> length (asset_refs n td None (asset_val h vs))"
proof -
  let ?ids = "asset_refs n td None (asset_val h vs)"
  obtain ds where ds: "add_deps ?ids (Some []) = Some ds" "set ds = {m \<in> set ?ids. MAID_bool m}" "length ds \<le> length ?ids"
    using add_deps_list[of ?ids "[]"] by auto
  have "header_deps (saved_header n td h vs) = ds"
    by (simp add: saved_header_def header_deps_def Let_def ds(1))
  with ds show "add_deps ?ids (Some []) = Some (header_deps (saved_header n td h vs))"
    "set (header_deps (saved_header n td h vs)) = {m \<in> set ?ids. MAID_bool m}"
    "length (header_deps (saved_header n td h vs)) \<le> length ?ids" by simp_all
qed

lemma SerializeBlocking_text:
  assumes fc: "casts_exact (io_casts env)" and fresh: "allocates (io_fresh env)"
    and td: "td_ok n td None" "text_ok n td None" "asset_type td" and n: "8 \<le> n" "n \<le> 128"
    and wt: "wt n td None (asset_val h vs)" and bools: "bools_ok n td None (asset_val h vs)"
    and refs: "length (asset_refs n td None (asset_val h vs)) < 4294967296"
    and h': "h' = saved_header n td h vs"
    and dump: "io_dump env (json_val (io_casts env) n td None (asset_val h' vs)) = Some data" "data \<noteq> []"
  shows "SerializeBlocking env a n meSerializationMode_Text td (asset_val h vs) =
       Inr (SER_SUCCESS, asset_val h' vs, Some data)"
    and "wt n td None (asset_val h' vs)"
proof -
  let ?ids = "asset_refs n td None (asset_val h vs)"
  have ids: "asset_refs n td None (asset_val h' vs) = ?ids" by (rule asset_parts(1)[OF td(3) n(1)])
  have deps: "add_deps ?ids (Some []) = Some (header_deps h')" unfolding h' by (rule saved_header_deps)
  have again: "add_deps ?ids (Some (header_deps h')) = Some (header_deps h')"
    by (rule add_deps_again) (auto simp: dep_known_def h' saved_header_deps(2))
  have wt1: "wt n td None (asset_val (prepared td True h) vs)"
    using asset_parts(3)[OF td(3) n(1) wt] by (simp add: prepared_fields)
  show wt': "wt n td None (asset_val h' vs)"
    using asset_parts(3)[OF td(3) n(1) wt, of h'] saved_header_deps(3)[of n td h vs] refs by (simp add: h')
  have bools': "bools_ok n td None (asset_val h' vs)" using asset_document(2)[OF td(3) n(1) td(2) bools] .
  have prep: "prepared td False h' = h'" by (simp add: h' saved_header_fields)
  have p1: "SerializeChunkerPass env a n meSerializationMode_Text td PMeasure True (asset_val h vs) None =
      Inr (True, asset_val h' vs, None, case io_dump env (json_val (io_casts env) n td None (asset_val (prepared td True h) vs))
        of None \<Rightarrow> 0 | Some s \<Rightarrow> length s)"
  proof (rule SerializeChunkerPass_text(1)[OF fc td n wt1 bools refl])
    show "add_deps ?ids (Some (header_deps (prepared td True h))) = Some (header_deps h')"
      using deps by (simp add: prepared_fields)
    show "h' = (prepared td True h)\<lparr>hd_dependencies := (if hd_dependencies (prepared td True h) = None \<and> header_deps h' = []
        then None else Some (header_deps h'))\<rparr>"
      by (simp add: h' saved_header_def Let_def header_deps_def)
  qed
  have same: "h' = h'\<lparr>hd_dependencies := (if hd_dependencies h' = None \<and> header_deps h' = [] then None else Some (header_deps h'))\<rparr>"
    by (cases "hd_dependencies h'") (simp_all add: header_deps_def)
  note again' = again[folded ids]
  note pass = SerializeChunkerPass_text[OF fc td n _ bools', where reset = False and h' = h' and ds = "header_deps h'",
      unfolded prep, OF wt' refl again' same]
  have "SerializeBlocking env a n meSerializationMode_Text td (asset_val h vs) = Inr (SER_SUCCESS, asset_val h' vs, Some data)"
    using p1 pass(1)[of a] pass(2)[of data "io_fresh env (length data)" a] dump fresh
    by (simp add: SerializeBlocking_def allocates_def)
  then show "SerializeBlocking env a n meSerializationMode_Text td (asset_val h vs) =
       Inr (SER_SUCCESS, asset_val h' vs, Some data)" .
qed

section \<open>Loading\<close>

lemma TryReadSerializedHeaderField_text:
  assumes fc: "casts_exact (io_casts env)" and n: "6 \<le> n" "n \<le> 127" and fit: "length (header_deps h) < 4294967296"
    and parse: "io_parse env data = Some (JObject kvs)"
    and kvs: "map_of kvs ME_ASSET_HEADER_FIELDNAME = Some (header_json (io_casts env) h)"
  shows "TryReadSerializedHeaderField env a n meSerializationMode_Text data =
     Inr (True, h\<lparr>hd_dependencies := Some (header_deps h)\<rparr>)"
proof -
  note H = header_typed[where parent = None, OF n(1)] header_text[where parent = None, OF n(1)]
  have "wt n TD_MESERIALIZEDHEADER None (header_val header_default)"
    by (rule H(2)) (simp add: header_deps_def header_default_def)
  from Chunk_text_codes[OF fc H(1,6) this H(2)[OF fit] H(7), of False "io_fresh env" a]
  have c: "text_codes (io_casts env) False n
      (ChunkWithTypeDescriptor (io_fresh env) (Some a) n TD_MESERIALIZEDHEADER None False False)
      (header_val header_default) (header_val h) (header_json (io_casts env) h) []
      (header_val (h\<lparr>hd_dependencies := Some (header_deps h)\<rparr>))"
    by (simp add: H)
  let ?c = "opened env PRead (JObject kvs) None"
  let ?w = "\<lparr>wk_chunker = ?c, wk_deps = None, wk_recorded = []\<rparr>"
  have t: "in_text ?w" "txt_casts (wk_chunker ?w) = io_casts env" "reading ?w" by (simp_all add: IsReadMode_def)
  have whole: "at_ref (JObject kvs) [] [] ?w = ?w" using opened_at[of ?w env PRead "JObject kvs" None] by simp
  let ?in = "at_ref (JObject kvs) [SKey ME_ASSET_HEADER_FIELDNAME] [[]] ?w"
  have "on_chunker_with BeginObject (at_ref (JObject kvs) [] [] ?w) = Inr (True, at_ref (JObject kvs) [] [] ?w)"
    by (rule BeginObject_text(2)[OF t(1,3)]) simp
  then have b: "BeginObject ?c = Inr (True, ?c)"
    unfolding whole by (auto simp: on_chunker_with_def bindR_Inr)
  have "on_chunker_with (\<lambda>c. Field c ME_ASSET_HEADER_FIELDNAME) (at_ref (JObject kvs) [] [] ?w) =
      Inr (True, at_ref (JObject kvs) ([] @ [SKey ME_ASSET_HEADER_FIELDNAME]) [[]] ?w)"
    using kvs by (intro Field_reading[OF t(1,3)]) (auto dest: map_of_SomeD intro: rev_image_eqI)
  then have f: "Field ?c ME_ASSET_HEADER_FIELDNAME = Inr (True, wk_chunker ?in)"
    unfolding whole by (auto simp: on_chunker_with_def bindR_Inr dest: arg_cong[where f = wk_chunker])
  have i: "\<lparr>wk_chunker = wk_chunker ?in, wk_deps = None, wk_recorded = []\<rparr> = ?in" by (simp add: at_ref_def)
  have walk: "ChunkWithTypeDescriptor (io_fresh env) (Some a) n TD_MESERIALIZEDHEADER None False False ?in (header_val header_default) =
      Inr (True, header_val (h\<lparr>hd_dependencies := Some (header_deps h)\<rparr>), ?in)"
    using text_codesD(2)[OF c t(1,2) _ t(3), of "[[]]" "JObject kvs" "[SKey ME_ASSET_HEADER_FIELDNAME]"] n kvs by simp
  have "on_chunker EndField ?in = Inr (at_ref (JObject kvs) [] [] ?w)" by (rule EndField_text(1)[OF t(1)])
  then obtain c' where e: "EndField (wk_chunker ?in) = Inr c'" by (auto simp: on_chunker_def bindR_Inr)
  have e': "EndObject c' = Inr c'" by (simp add: EndObject_def)
  show ?thesis
    by (simp add: TryReadSerializedHeaderField_def opened_chunker(2)[of "io_parse env", OF parse] b f i walk e e' IsReadMode_def)
qed

lemma DeserializeBlocking_text:
  assumes fc: "casts_exact (io_casts env)" and td: "td_ok n td None" "text_ok n td None" "asset_type td"
    and n: "8 \<le> n" "n \<le> 127"
    and wt: "wt n td None (asset_val h vs)" "wt n td None u" and bools: "bools_ok n td None (asset_val h vs)"
    and u: "u = (case td_defaults td of Some d \<Rightarrow> d | None \<Rightarrow> old)"
    and h: "ValidateSerializedHeader h td = None" "\<not> MAID_bool (hd_parentAsset h)"
    and parse: "io_parse env data = Some (json_val (io_casts env) n td None (asset_val h vs))"
  shows "DeserializeBlocking env parent_data (Some a) n meSerializationMode_Text td data old =
     Inr \<lparr>ld_result = SER_SUCCESS, ld_uid = ucast (HashBytesL data),
          ld_value = restored n td None u (asset_val h vs), ld_recorded = asset_refs n td None (asset_val h vs)\<rparr>"
proof -
  let ?j = "json_val (io_casts env) n td None (asset_val h vs)"
  obtain kvs where kvs: "?j = JObject kvs" "map_of kvs ME_ASSET_HEADER_FIELDNAME = Some (header_json (io_casts env) h)"
    using asset_document(1)[OF td(3) n(1) td(2)] by blast
  have n': "6 \<le> n" "n \<le> 128" using n by simp_all
  have hdr: "TryReadSerializedHeaderField env a n meSerializationMode_Text data =
      Inr (True, h\<lparr>hd_dependencies := Some (header_deps h)\<rparr>)"
    by (rule TryReadSerializedHeaderField_text[OF fc n'(1) n(2) header_deps_fit[OF td(3) n(1) wt(1)] parse[unfolded kvs(1)] kvs(2)])
  let ?w = "\<lparr>wk_chunker = opened env PRead ?j None, wk_deps = None, wk_recorded = []\<rparr>"
  have c: "text_codes (io_casts env) True n (ChunkWithTypeDescriptor (io_fresh env) (Some a) n td None True False)
      u (asset_val h vs) ?j (asset_refs n td None (asset_val h vs)) (restored n td None u (asset_val h vs))"
    by (rule Chunk_text_codes[OF fc td(1,2) wt(2,1) bools])
  have walk: "ChunkWithTypeDescriptor (io_fresh env) (Some a) n td None True False ?w u =
      Inr (True, restored n td None u (asset_val h vs), noted True (asset_refs n td None (asset_val h vs)) ?w)"
    by (rule text_codes_whole(2)[OF c n'(2), of ?w PRead ?j None]) simp_all
  show ?thesis
    unfolding DeserializeBlocking_def Let_def
    by (simp add: hdr ValidateSerializedHeader_deps h u[symmetric] opened_chunker(2)[of "io_parse env", OF parse] walk)
      (simp add: noted_def IsReadMode_def)
qed

section \<open>Properties\<close>

text \<open>
  C7. Asset files are text. Saving an asset succeeds with the printed document, leaves in the
  asset the filled-in header (its own id and parent kept, as dependencies exactly the valid
  references in the data), and loading the saved bytes over the type's defaults restores the
  asset and records its references. Assumed of the JSON library for this one document: printing
  it gives a non-empty text from which parsing gives it back; and of the hardware that an f32
  converted to f64 and back is unchanged. (The asset has no parent.)
\<close>

theorem asset_text_roundtrip:
  assumes "casts_exact (io_casts env)" and "allocates (io_fresh env)"
    and "td_ok n td None" and "text_ok n td None" and "asset_type td" and "8 \<le> n" and "n \<le> 127"
    and "wt n td None (asset_val h vs)" and "bools_ok n td None (asset_val h vs)" and "wt n td None u"
    and "td_defaults td = None \<or> td_defaults td = Some u"
    and "length (asset_refs n td None (asset_val h vs)) < 4294967296" and "\<not> MAID_bool (hd_parentAsset h)"
    and "h' = saved_header n td h vs"
    and "io_dump env (json_val (io_casts env) n td None (asset_val h' vs)) = Some data" and "data \<noteq> []"
    and "io_parse env data = Some (json_val (io_casts env) n td None (asset_val h' vs))"
  shows "SerializeBlocking env a n meSerializationMode_Text td (asset_val h vs) =
      Inr (SER_SUCCESS, asset_val h' vs, Some data) \<and>
    hd_assetHeader h' = hd_assetHeader h \<and> hd_parentAsset h' = hd_parentAsset h \<and>
    set (header_deps h') = {m \<in> set (asset_refs n td None (asset_val h vs)). MAID_bool m} \<and>
    DeserializeBlocking env parent_data (Some b) n meSerializationMode_Text td data u =
      Inr \<lparr>ld_result = SER_SUCCESS, ld_uid = ucast (HashBytesL data),
           ld_value = restored n td None u (asset_val h' vs), ld_recorded = asset_refs n td None (asset_val h vs)\<rparr>"
proof -
  have n: "n \<le> 128" using assms(7) by simp
  note save = SerializeBlocking_text[OF assms(1-6) n assms(8,9,12,14-16)]
  have "u = (case td_defaults td of Some d \<Rightarrow> d | None \<Rightarrow> u)" using assms(11) by auto
  note load = DeserializeBlocking_text[OF assms(1,3-7) save(2) assms(10) asset_document(2)[OF assms(5,6,4,9)] this _ _ assms(17)]
  have "asset_refs n td None (asset_val h' vs) = asset_refs n td None (asset_val h vs)"
    by (rule asset_parts(1)[OF assms(5,6)])
  with save(1) load assms(13) show ?thesis
    by (simp add: assms(14) saved_header_fields saved_header_deps)
qed

text \<open>A library that prints one document as the byte 1 and reads it back from there.\<close>

definition one_document :: "json \<Rightarrow> io" where
  "one_document j =
     \<lparr>io_fresh = (\<lambda>n. replicate n 0), io_casts = no_casts, io_parse = (\<lambda>s. if s = [1] then Some j else None),
      io_dump = (\<lambda>j'. if j' = j then Some [1] else None)\<rparr>"

definition note_values :: "val list" where
  "note_values = [VString (String_of [104, 105]), VAsset \<lparr>maid_id = 7, maid_type = 5\<rparr> 9 Loaded]"

definition note_blank :: val where
  "note_blank = asset_val header_default [VString String_empty, VAsset MAID_INVALID EYE_INVALID Unloaded]"

definition note_json :: json where
  "note_json = json_val no_casts 8 note_type None (asset_val (saved_header 8 note_type header_default note_values) note_values)"

theorem asset_text_roundtrip_witness:
  "\<exists>v r.
     SerializeBlocking (one_document note_json) 0 8 meSerializationMode_Text note_type
       (asset_val header_default note_values) = Inr (SER_SUCCESS, v, Some [1]) \<and>
     DeserializeBlocking (one_document note_json) (\<lambda>_. None) (Some 0) 8 meSerializationMode_Text note_type [1] note_blank = Inr r \<and>
     ld_result r = SER_SUCCESS \<and> ld_recorded r = [\<lparr>maid_id = 7, maid_type = 5\<rparr>]"
proof -
  have "ucast (ucast x :: u64) = x" for x :: u32
    by (rule bit_word_eqI) (simp add: bit_ucast_iff)
  then have fc: "casts_exact (io_casts (one_document note_json))" "allocates (io_fresh (one_document note_json))"
    by (simp_all add: casts_exact_def no_casts_def one_document_def allocates_def)
  have ok: "td_ok 8 note_type None" "text_ok 8 note_type None" "asset_type note_type"
    "wt 8 note_type None (asset_val header_default note_values)"
    "bools_ok 8 note_type None (asset_val header_default note_values)" "wt 8 note_type None note_blank"
    "td_defaults note_type = None" "\<not> MAID_bool (hd_parentAsset header_default)"
    "asset_refs 8 note_type None (asset_val header_default note_values) = [\<lparr>maid_id = 7, maid_type = 5\<rparr>]"
    by code_simp+
  let ?j = "json_val no_casts 8 note_type None (asset_val (saved_header 8 note_type header_default note_values) note_values)"
  have doc: "io_dump (one_document note_json) ?j = Some [1]" "io_parse (one_document note_json) [1] = Some ?j"
    "io_casts (one_document note_json) = no_casts"
    by (simp_all add: one_document_def note_json_def)
  show ?thesis
    using asset_text_roundtrip[OF fc ok(1-3) _ _ ok(4-6) _ _ ok(8) refl, of "[1]" 0 "\<lambda>_. None" 0] ok(7,9) doc
    by auto
qed

end
