(* ===== verification/AssetPaths.thy ===== *)
theory AssetPaths
  imports Strings Handles
begin

text \<open>
  Asset file names (\<open>asset/me_asset.cpp\<close>, \<open>asset/me_asset_index.cpp\<close>, \<open>core/me_filesystem.cpp\<close>):
  separators, the file and directory part of a path, the extensions of the asset types, and
  paths relative to the resource directory. Functions that write separators through the view
  they are given return the changed view as well. \<open>STRING_FMT\<close> prints a view up to its first zero.
\<close>

definition chars :: "string \<Rightarrow> u8 list" where
  "chars s = map of_char s"

abbreviation LIT :: "string \<Rightarrow> StringView" where
  "LIT s \<equiv> STRING_LIT (chars s)"

section \<open>Separators and parts of a path\<close>

definition meFsGetDirectorySeperator :: StringView where
  "meFsGetDirectorySeperator = LIT ''/''"

fun separators_loop :: "StringView \<Rightarrow> nat \<Rightarrow> nat \<Rightarrow> StringView result" where
  "separators_loop str i 0 = Inr str"
| "separators_loop str i (Suc left) =
     bindR (sv_get str i) (\<lambda>c.
     bindR (if c = 92 then sv_put str i 47 else Inr str) (\<lambda>str. separators_loop str (Suc i) left))"

definition meFsNormalizePathSeperators :: "StringView \<Rightarrow> StringView result" where
  "meFsNormalizePathSeperators str = separators_loop str 0 (sv_len str)"

definition meFsGetFileFromFullPath :: "StringView \<Rightarrow> StringView result" where
  "meFsGetFileFromFullPath path =
     bindR (meFsNormalizePathSeperators meFsGetDirectorySeperator) (\<lambda>dirSep.
     bindR (FindInStringRev path dirSep 0 StringOpFlags_IdxAfterNeedle) (\<lambda>lastDirSep.
       Inr (if lastDirSep = -1 then path else OffsetView path (nat lastDirSep))))"

definition msFsGetDirFromPath :: "StringView \<Rightarrow> StringView result" where
  "msFsGetDirFromPath path =
     bindR (meFsNormalizePathSeperators meFsGetDirectorySeperator) (\<lambda>dirSep.
     bindR (meFsNormalizePathSeperators path) (\<lambda>path.
     bindR (FindInStringRev path dirSep 0 StringOpFlags_IdxAfterNeedle) (\<lambda>lastDirSep.
       if lastDirSep = -1 then Inr path
       else bindR (FindInString path (LIT ''.'') (nat lastDirSep) 0) (\<lambda>dot.
         if dot = -1 then Inr path
         else Inr (path\<lparr>sv_len := nat (MEMAX 0 (lastDirSep - 1))\<rparr>)))))"

section \<open>Extensions\<close>

fun asset_extension :: "meAssetType \<Rightarrow> string" where
  "asset_extension MABadData = ''''"
| "asset_extension MAScene = ''scn''"
| "asset_extension MAShader = ''shd''"
| "asset_extension MAMaterial = ''mat''"
| "asset_extension MAMesh = ''mesh''"
| "asset_extension MATexture = ''tex''"
| "asset_extension MAEntity = ''ent''"

definition meAssetFileExtFromType :: "meAssetType \<Rightarrow> StringView" where
  "meAssetFileExtFromType type = LIT (asset_extension type)"

definition ME_ASSET_EXTENSION :: string where
  "ME_ASSET_EXTENSION = ''.masset''"

definition asset_types :: "meAssetType list" where
  "asset_types = [MABadData, MAScene, MAShader, MAMaterial, MAMesh, MATexture, MAEntity]"

fun match_extension :: "StringView \<Rightarrow> meAssetType list \<Rightarrow> meAssetType result" where
  "match_extension extension [] = Inr MABadData"
| "match_extension extension (type # types) =
     bindR (StringCompare extension (meAssetFileExtFromType type) 0) (\<lambda>same.
       if same then Inr type else match_extension extension types)"

definition meAssetFindAssetTypeFromFilepath :: "StringView \<Rightarrow> meAssetType result" where
  "meAssetFindAssetTypeFromFilepath path =
     bindR (meFsGetFileFromFullPath path) (\<lambda>filename.
     bindR (FindInStringRev filename (LIT ME_ASSET_EXTENSION) 0 0) (\<lambda>commonExt.
     bindR (FindInStringRev filename (LIT ''.'')
              (if commonExt \<noteq> -1 then nat (int (sv_len filename) - commonExt) else 0)
              StringOpFlags_IdxAfterNeedle) (\<lambda>idx.
       if idx = -1 then Inr MABadData
       else match_extension
              (OffsetViewLen filename (nat idx) (if commonExt \<noteq> -1 then nat \<bar>commonExt - idx\<bar> else 2147483647))
              asset_types)))"

definition fmt_str :: "StringView \<Rightarrow> u8 list" where
  "fmt_str v = takeWhile (\<lambda>c. c \<noteq> 0) (sv_str v)"

definition meAssetEnsurePathHasGoodExtension :: "StringView \<Rightarrow> meAssetType \<Rightarrow> StringView result" where
  "meAssetEnsurePathHasGoodExtension assetPath inputType =
     bindR (meAssetFindAssetTypeFromFilepath assetPath) (\<lambda>guessedType.
       if guessedType \<noteq> MABadData then Inr assetPath
       else bindR (FindInString assetPath (LIT ''.'') 0 0) (\<lambda>firstDot.
         let noExtStr = (if firstDot \<noteq> -1 then OffsetView assetPath (nat firstDot) else assetPath)
         in Inr (STRING_LIT (fmt_str noExtStr @ chars ''.'' @ fmt_str (meAssetFileExtFromType inputType) @
                             chars ME_ASSET_EXTENSION))))"

section \<open>The resource directory\<close>

text \<open>The path as changed by the normalisation, and the result.\<close>

definition meAssetGetAbsPathForResource :: "StringView \<Rightarrow> StringView \<Rightarrow> (StringView \<times> StringView) result" where
  "meAssetGetAbsPathForResource resDir resourcePath =
     (if \<not> sv_bool resourcePath then Inr (resourcePath, StringView_default)
      else bindR (meFsNormalizePathSeperators resourcePath) (\<lambda>resourcePath.
           bindR (FindInString resourcePath resDir 0 0) (\<lambda>found.
             Inr (resourcePath,
                  if found = -1
                  then STRING_LIT (fmt_str resDir @ fmt_str meFsGetDirectorySeperator @ fmt_str resourcePath)
                  else resourcePath))))"

definition meAssetGetRelPathForResource :: "StringView \<Rightarrow> StringView \<Rightarrow> StringView result" where
  "meAssetGetRelPathForResource resDir resourcePath =
     bindR (FindInString resourcePath resDir 0 0) (\<lambda>idx.
       if idx \<noteq> -1 then EatChars (OffsetView resourcePath (sv_len resDir)) meFsGetDirectorySeperator False
       else Inr resourcePath)"

section \<open>What the functions compute\<close>

lemma chars_simps [simp]: "length (chars s) = length s" "chars s = [] \<longleftrightarrow> s = []"
  "chars ''/'' = [47]" "chars ''.'' = [46]"
  by (simp_all add: chars_def)

lemma fmt_str_clean: "0 \<notin> set (sv_str v) \<Longrightarrow> fmt_str v = sv_str v"
  by (auto simp: fmt_str_def takeWhile_eq_all_conv)

lemma separators_loop_clean:
  assumes "sv_wf v" and "92 \<notin> set (sv_str v)" and "i + left \<le> sv_len v"
  shows "separators_loop v i left = Inr v"
  using assms(3)
proof (induction left arbitrary: i)
  case (Suc left)
  then have "sv_get v i = Inr (sv_str v ! i)" using assms(1) by (simp add: sv_get_ok)
  moreover have "i < length (sv_str v)" using Suc.prems assms(1) by simp
  then have "sv_str v ! i \<noteq> 92" using assms(2) by (metis nth_mem)
  ultimately show ?case using Suc by simp
qed simp

lemma normalize_clean: "sv_wf v \<Longrightarrow> 92 \<notin> set (sv_str v) \<Longrightarrow> meFsNormalizePathSeperators v = Inr v"
  by (simp add: meFsNormalizePathSeperators_def separators_loop_clean)

lemma dirSep_normal: "meFsNormalizePathSeperators meFsGetDirectorySeperator = Inr (LIT ''/'')"
  by (simp add: meFsGetDirectorySeperator_def normalize_clean chars_def)

text \<open>The searches, by what occurs where.\<close>

lemma find_first:
  assumes "sv_wf h" "good_needle n" "sv_len h < 2147483648"
  shows "first_from 0 (occurs flags (sv_str h) (sv_str n)) j \<Longrightarrow> \<not> has_flag flags StringOpFlags_IdxAfterNeedle \<Longrightarrow>
      FindInString h n 0 flags = Inr (int j)"
    and "\<forall>j. \<not> occurs flags (sv_str h) (sv_str n) j \<Longrightarrow> FindInString h n 0 flags = Inr (-1)"
proof -
  have n: "sv_wf n" "0 < sv_len n" using assms(2) by (auto simp: good_needle_def)
  have F: "FindInString h n 0 flags = find_loop h n flags 0 (nat (int (sv_len h) - int (sv_len n) + 1))"
    using needle_empty_good [OF assms(2)] by (simp add: FindInString_def Let_def)
  have spec: "\<exists>r. FindInString h n 0 flags = Inr r \<and>
    (if r = -1 then \<forall>j. \<not> occurs flags (sv_str h) (sv_str n) j
     else \<exists>j. first_from 0 (occurs flags (sv_str h) (sv_str n)) j \<and>
       r = int (if has_flag flags StringOpFlags_IdxAfterNeedle then j + sv_len n else j))"
  proof (cases "sv_len n \<le> sv_len h")
    case True
    then have "0 + nat (int (sv_len h) - int (sv_len n) + 1) = Suc (sv_len h - sv_len n)" by simp
    from find_loop_spec [OF assms(1) n(1) assms(3) this True n(2), of flags]
    show ?thesis by (simp only: F le0 simp_thms int_ops(1))
  next
    case False
    then have "nat (int (sv_len h) - int (sv_len n) + 1) = 0" by simp
    moreover have "\<forall>j. \<not> occurs flags (sv_str h) (sv_str n) j"
      using False assms(1) n(1) by (auto simp: occurs_def)
    ultimately show ?thesis using F by simp
  qed
  then obtain r where r: "FindInString h n 0 flags = Inr r"
    "if r = -1 then \<forall>j. \<not> occurs flags (sv_str h) (sv_str n) j
     else \<exists>j. first_from 0 (occurs flags (sv_str h) (sv_str n)) j \<and>
       r = int (if has_flag flags StringOpFlags_IdxAfterNeedle then j + sv_len n else j)" by blast
  show "FindInString h n 0 flags = Inr (int j)"
    if j: "first_from 0 (occurs flags (sv_str h) (sv_str n)) j" and plain: "\<not> has_flag flags StringOpFlags_IdxAfterNeedle"
  proof (cases "r = -1")
    case True
    with r(2) j show ?thesis by (auto simp: first_from_def)
  next
    case False
    with r(2) plain obtain i where i: "first_from 0 (occurs flags (sv_str h) (sv_str n)) i" "r = int i" by auto
    have "i = j" using i(1) j by (metis first_from_def nat_neq_iff zero_le)
    with r(1) i(2) show ?thesis by simp
  qed
  show "FindInString h n 0 flags = Inr (-1)" if none: "\<forall>j. \<not> occurs flags (sv_str h) (sv_str n) j"
  proof (cases "r = -1")
    case False
    with r(2) none show ?thesis by (auto simp: first_from_def)
  qed (use r(1) in simp)
qed

lemma find_last:
  assumes "sv_wf h" "good_needle n" "sv_len h < 2147483648" "sv_len n + ofs \<le> sv_len h"
  shows "last_upto (sv_len h - sv_len n - ofs) (occurs flags (sv_str h) (sv_str n)) j \<Longrightarrow>
      FindInStringRev h n ofs flags = Inr (int (if has_flag flags StringOpFlags_IdxAfterNeedle then j + 1 else j))"
    and "\<forall>j. j \<le> sv_len h - sv_len n - ofs \<longrightarrow> \<not> occurs flags (sv_str h) (sv_str n) j \<Longrightarrow>
      FindInStringRev h n ofs flags = Inr (-1)"
proof -
  let ?k = "sv_len h - sv_len n - ofs"
  let ?P = "occurs flags (sv_str h) (sv_str n)"
  have n: "sv_wf n" "0 < sv_len n" using assms(2) by (auto simp: good_needle_def)
  have "s32_of (int (sv_len h) - int (sv_len n) - s32_of (int ofs)) = int ?k"
    using assms(3,4) by simp
  moreover have "nat (int ?k + 1) = Suc ?k" by simp
  ultimately have F: "FindInStringRev h n ofs flags = find_rev_loop h n flags (int ?k) (Suc ?k)"
    using needle_empty_good [OF assms(2)]
    by (simp only: FindInStringRev_def Let_def bindR_simps if_False)
  have k: "?k + sv_len n \<le> sv_len h" using assms(4) by simp
  obtain r where r: "FindInStringRev h n ofs flags = Inr r"
    "if r = -1 then \<forall>j. j \<le> ?k \<longrightarrow> \<not> ?P j
     else \<exists>j. last_upto ?k ?P j \<and> r = int (if has_flag flags StringOpFlags_IdxAfterNeedle then j + 1 else j)"
    using find_rev_loop_spec [OF assms(1) n(1) k n(2), of flags] unfolding F by blast
  have unique: "i = j" if "last_upto ?k ?P i" "last_upto ?k ?P j" for i j
    using that by (metis last_upto_def nat_neq_iff)
  show "FindInStringRev h n ofs flags = Inr (int (if has_flag flags StringOpFlags_IdxAfterNeedle then j + 1 else j))"
    if j: "last_upto ?k ?P j"
  proof (cases "r = -1")
    case True
    with r(2) j show ?thesis by (auto simp: last_upto_def)
  next
    case False
    with r(2) obtain i where "last_upto ?k ?P i"
      "r = int (if has_flag flags StringOpFlags_IdxAfterNeedle then i + 1 else i)" by auto
    with r(1) unique[OF j] show ?thesis by simp
  qed
  show "FindInStringRev h n ofs flags = Inr (-1)" if none: "\<forall>j. j \<le> ?k \<longrightarrow> \<not> ?P j"
  proof (cases "r = -1")
    case False
    with r(2) obtain i where "last_upto ?k ?P i" by auto
    with none show ?thesis by (auto simp: last_upto_def)
  qed (use r(1) in simp)
qed

lemma find_last_short:
  assumes "good_needle n" "sv_len h < sv_len n" "sv_len n < 2147483648"
  shows "FindInStringRev h n 0 flags = Inr (-1)"
proof -
  have "s32_of (int (sv_len h) - int (sv_len n)) = int (sv_len h) - int (sv_len n)"
    using assms(2,3) by (intro s32_of_id) auto
  then show ?thesis
    using needle_empty_good [OF assms(1)] assms(2) by (simp add: FindInStringRev_def Let_def s32_of_def)
qed

lemma plain_flags [simp]:
  "fold_char 0 = id" "fold_char StringOpFlags_IdxAfterNeedle = id"
  "has_flag StringOpFlags_IdxAfterNeedle StringOpFlags_IdxAfterNeedle"
  "\<not> has_flag 0 StringOpFlags_IdxAfterNeedle"
proof -
  have "\<not> has_flag 0 StringOpFlags_CaseInsensitive" "\<not> has_flag StringOpFlags_IdxAfterNeedle StringOpFlags_CaseInsensitive"
    by code_simp+
  then show "fold_char 0 = id" "fold_char StringOpFlags_IdxAfterNeedle = id" by (auto simp: fold_char_def)
  show "has_flag StringOpFlags_IdxAfterNeedle StringOpFlags_IdxAfterNeedle" "\<not> has_flag 0 StringOpFlags_IdxAfterNeedle"
    by code_simp+
qed

lemma occurs_plain:
  "fold_char flags = id \<Longrightarrow> occurs flags h n k \<longleftrightarrow> k + length n \<le> length h \<and> take (length n) (drop k h) = n"
  by (simp add: occurs_def)

lemma occurs_char:
  "fold_char flags = id \<Longrightarrow> occurs flags h [c] k \<longleftrightarrow> k < length h \<and> h ! k = c"
  by (auto simp: occurs_plain take_Suc_conv_app_nth [of 0, simplified] hd_drop_conv_nth)

lemma occurs_subset: "fold_char flags = id \<Longrightarrow> occurs flags h n k \<Longrightarrow> set n \<subseteq> set h"
proof -
  assume "fold_char flags = id" "occurs flags h n k"
  then have "take (length n) (drop k h) = n" by (simp add: occurs_plain)
  moreover have "set (take (length n) (drop k h)) \<subseteq> set h"
    by (meson set_take_subset set_drop_subset order_trans)
  ultimately show ?thesis by simp
qed

lemma good_lit: "s \<noteq> [] \<Longrightarrow> hd s \<noteq> 0 \<Longrightarrow> good_needle (STRING_LIT s)"
  by (simp add: good_needle_def hd_conv_nth)

lemma sv_str_OffsetViewLen:
  "sv_wf v \<Longrightarrow> ofs + n \<le> sv_len v \<Longrightarrow>
     sv_wf (OffsetViewLen v ofs n) \<and> sv_str (OffsetViewLen v ofs n) = take n (drop ofs (sv_str v))"
  by (auto simp: sv_wf_def sv_str_def OffsetViewLen_def drop_take add.commute min_def split: option.splits)

text \<open>The file name is what follows the last separator.\<close>

lemma file_of_path:
  assumes "sv_wf path" and "sv_len path < 2147483648"
  obtains k where "meFsGetFileFromFullPath path = Inr (OffsetView path k)" and "k \<le> sv_len path"
    and "k = 0 \<or> sv_str path ! (k - 1) = 47" and "47 \<notin> set (drop k (sv_str path))"
proof -
  have sep: "good_needle (LIT ''/'')" by (rule good_lit) (simp_all add: chars_def)
  let ?s = "sv_str path"
  let ?P = "\<lambda>j. j < length ?s \<and> ?s ! j = 47"
  have occ: "occurs StringOpFlags_IdxAfterNeedle ?s [47] = ?P" by (rule ext) (simp add: occurs_char)
  show thesis
  proof (cases "47 \<in> set ?s")
    case False
    have "FindInStringRev path (LIT ''/'') 0 StringOpFlags_IdxAfterNeedle = Inr (-1)"
    proof (cases "sv_len path = 0")
      case True
      then show ?thesis by (intro find_last_short[OF sep]) simp_all
    next
      case nz: False
      show ?thesis
        using False nz by (intro find_last(2)[OF assms(1) sep assms(2)]) (auto simp: occ in_set_conv_nth)
    qed
    then have "meFsGetFileFromFullPath path = Inr (OffsetView path 0)"
      by (simp add: meFsGetFileFromFullPath_def dirSep_normal)
    with that[of 0] False show ?thesis by simp
  next
    case True
    then obtain a b where ab: "?s = a @ 47 # b" "47 \<notin> set b" by (meson split_list_last)
    let ?j = "length a"
    have len: "sv_len path = length a + 1 + length b" using ab(1) assms(1) length_sv_str[of path] by simp
    have later: "\<not> ?P i" if "?j < i" for i
    proof
      assume "?P i"
      then have "b ! (i - ?j - 1) = 47" "i - ?j - 1 < length b" using that ab(1) by (auto simp: nth_append nth_Cons')
      then show False using ab(2) by (metis nth_mem)
    qed
    have "last_upto (sv_len path - sv_len (LIT ''/'') - 0) (occurs StringOpFlags_IdxAfterNeedle ?s (sv_str (LIT ''/''))) ?j"
      unfolding sv_wf_lit chars_simps occ last_upto_def using later by (auto simp: len ab(1))
    then have "FindInStringRev path (LIT ''/'') 0 StringOpFlags_IdxAfterNeedle = Inr (int (?j + 1))"
      using find_last(1)[OF assms(1) sep assms(2), of 0] len by simp
    then have "meFsGetFileFromFullPath path = Inr (OffsetView path (?j + 1))"
      by (simp add: meFsGetFileFromFullPath_def dirSep_normal nat_add_distrib)
    with that[of "?j + 1"] ab len show ?thesis by simp
  qed
qed

text \<open>Extensions contain no dot, no separator and no zero.\<close>

lemma extension_chars:
  "46 \<notin> set (chars (asset_extension t))" "47 \<notin> set (chars (asset_extension t))" "0 \<notin> set (chars (asset_extension t))"
  "chars ME_ASSET_EXTENSION = [46, 109, 97, 115, 115, 101, 116]"
proof -
  show "46 \<notin> set (chars (asset_extension t))" "47 \<notin> set (chars (asset_extension t))" "0 \<notin> set (chars (asset_extension t))"
    by (cases t; simp add: chars_def)+
  show "chars ME_ASSET_EXTENSION = [46, 109, 97, 115, 115, 101, 116]"
    by (simp add: ME_ASSET_EXTENSION_def chars_def)
qed

lemma good_needles [simp]:
  "good_needle (LIT ME_ASSET_EXTENSION)" "good_needle (LIT ''.'')" "good_needle (STRING_LIT [46])"
  using good_lit[of "chars ME_ASSET_EXTENSION"] good_lit[of "[46]"] by (simp_all add: extension_chars)

lemma match_extension_types:
  assumes "sv_wf v" and "sv_str v = chars (asset_extension t)"
  shows "match_extension v asset_types = Inr t"
proof -
  have "StringCompare v (meAssetFileExtFromType u) 0 = Inr (chars (asset_extension t) = chars (asset_extension u))" for u
    using StringCompare_spec[OF assms(1), of "meAssetFileExtFromType u" 0] assms(2)
    by (simp add: meAssetFileExtFromType_def)
  then show ?thesis by (cases t) (simp_all add: asset_types_def chars_def)
qed

text \<open>A name without a dot has no type; a name that ends in a type's extension and the common one has that type.\<close>

lemma type_of_dotless:
  assumes "sv_wf path" "sv_len path < 2147483648" "46 \<notin> set (sv_str path)"
  shows "meAssetFindAssetTypeFromFilepath path = Inr MABadData"
proof -
  obtain k where fn: "meFsGetFileFromFullPath path = Inr (OffsetView path k)"
    using file_of_path[OF assms(1,2)] by metis
  let ?f = "OffsetView path k"
  have wf: "sv_wf ?f" and len: "sv_len ?f < 2147483648" and dotless: "46 \<notin> set (sv_str ?f)"
    using assms by (auto simp: sv_wf_OffsetView sv_len_OffsetView sv_str_OffsetView dest: in_set_dropD)
  have absent: "\<not> occurs flags (sv_str ?f) n j" if "fold_char flags = id" "46 \<in> set n" for flags n j
    using that dotless occurs_subset[of flags] by blast
  have none: "FindInStringRev ?f n 0 flags = Inr (-1)"
    if "good_needle n" "sv_len n < 2147483648" "fold_char flags = id" "46 \<in> set (sv_str n)" for n flags
  proof (cases "sv_len n \<le> sv_len ?f")
    case True
    then show ?thesis using absent that by (intro find_last(2)[OF wf that(1) len]) simp_all
  next
    case False
    then show ?thesis using that by (intro find_last_short) simp_all
  qed
  have "FindInStringRev ?f (LIT ME_ASSET_EXTENSION) 0 0 = Inr (-1)"
    by (rule none[OF good_needles(1)]) (simp_all add: extension_chars)
  moreover have "FindInStringRev ?f (LIT ''.'') 0 StringOpFlags_IdxAfterNeedle = Inr (-1)"
    by (rule none) simp_all
  ultimately show ?thesis by (simp add: meAssetFindAssetTypeFromFilepath_def fn)
qed

lemma type_of_typed:
  assumes "sv_wf path" "sv_len path < 2147483648"
    and "sv_str path = base @ 46 # chars (asset_extension t) @ chars ME_ASSET_EXTENSION" and "46 \<notin> set base"
  shows "meAssetFindAssetTypeFromFilepath path = Inr t"
proof -
  let ?e = "chars (asset_extension t)" and ?m = "chars ME_ASSET_EXTENSION"
  obtain k where fn: "meFsGetFileFromFullPath path = Inr (OffsetView path k)" and k: "k \<le> sv_len path"
    "k = 0 \<or> sv_str path ! (k - 1) = 47"
    using file_of_path[OF assms(1,2)] by metis
  have m: "length ?m = 7" "47 \<notin> set ?m" by (simp_all add: extension_chars del: chars_simps)
  have "k \<le> length base"
  proof (rule ccontr)
    assume "\<not> k \<le> length base"
    then have "k - 1 - length base < length (46 # ?e @ ?m)" "sv_str path ! (k - 1) = (46 # ?e @ ?m) ! (k - 1 - length base)"
      using k(1) assms(1,3) length_sv_str[OF assms(1)] by (auto simp: nth_append)
    then have "47 \<in> set (46 # ?e @ ?m)" using k(2) \<open>\<not> k \<le> length base\<close> by (metis nth_mem le0)
    then show False using m(2) extension_chars(2)[of t] by simp
  qed
  define f where "f = OffsetView path k"
  define b where "b = drop k base"
  have wf: "sv_wf f" using assms(1) by (simp add: f_def sv_wf_OffsetView)
  have str: "sv_str f = b @ 46 # ?e @ ?m"
    using \<open>k \<le> length base\<close> assms(1,3) by (simp add: f_def b_def sv_str_OffsetView)
  have b: "46 \<notin> set b" using assms(4) by (auto simp: b_def dest: in_set_dropD)
  have flen: "sv_len f = length b + 1 + length ?e + 7"
    using length_sv_str[OF wf] str m(1) by simp
  have short: "sv_len f < 2147483648" using assms(2) by (simp add: f_def sv_len_OffsetView)
  let ?c = "length b + 1 + length ?e"
  have ext: "FindInStringRev f (LIT ME_ASSET_EXTENSION) 0 0 = Inr (int ?c)"
  proof -
    have "last_upto (sv_len f - sv_len (LIT ME_ASSET_EXTENSION) - 0) (occurs 0 (sv_str f) (sv_str (LIT ME_ASSET_EXTENSION))) ?c"
      using m(1) by (auto simp: last_upto_def flen occurs_plain str)
    from find_last(1)[OF wf _ short _ this] show ?thesis using m(1) by (simp add: flen)
  qed
  have dot: "FindInStringRev f (LIT ''.'') 7 StringOpFlags_IdxAfterNeedle = Inr (int (length b + 1))"
  proof -
    have occ: "occurs StringOpFlags_IdxAfterNeedle (sv_str f) [46] j \<longleftrightarrow> j < sv_len f \<and> sv_str f ! j = 46" for j
      using wf by (simp add: occurs_char)
    have "sv_str f ! j \<noteq> 46" if "length b < j" "j < ?c" for j
    proof -
      have lt: "j - Suc (length b) < length (asset_extension t)" using that by simp
      then have "sv_str f ! j = ?e ! (j - Suc (length b))" "j - Suc (length b) < length ?e"
        using that by (simp_all add: str nth_append nth_Cons')
      then show ?thesis using extension_chars(1)[of t] by (metis nth_mem)
    qed
    then have "last_upto (sv_len f - 1 - 7) (occurs StringOpFlags_IdxAfterNeedle (sv_str f) [46]) (length b)"
      by (auto simp: last_upto_def occ flen str[symmetric]) (simp add: str)
    then have "last_upto (sv_len f - sv_len (LIT ''.'') - 7) (occurs StringOpFlags_IdxAfterNeedle (sv_str f) (sv_str (LIT ''.''))) (length b)"
      by simp
    from find_last(1)[OF wf _ short _ this] show ?thesis by (simp add: flen)
  qed
  let ?v = "OffsetViewLen f (length b + 1) (length ?e)"
  have view: "sv_wf ?v" "sv_str ?v = ?e"
    using sv_str_OffsetViewLen[OF wf, of "length b + 1" "length ?e"] flen by (simp_all add: str)
  have "nat (int (sv_len f) - int ?c) = 7" "nat \<bar>int ?c - int (length b + 1)\<bar> = length ?e"
    "nat (int (length b + 1)) = length b + 1" by (simp_all add: flen)
  with ext dot match_extension_types[OF view] show ?thesis
    by (simp add: meAssetFindAssetTypeFromFilepath_def fn f_def[symmetric] del: chars_simps)
qed

section \<open>Properties\<close>

text \<open>
  Completing an asset's file name and reading the type off a file name agree: a path without
  a dot gets the type's extension and the common one appended, and the result is recognised as a
  file of that type, in any directory.
\<close>

theorem good_extension_recognised:
  assumes "sv_wf path" and "sv_len path < 1073741824" and "46 \<notin> set (sv_str path)" and "0 \<notin> set (sv_str path)"
  shows "\<exists>full. meAssetEnsurePathHasGoodExtension path t = Inr full \<and>
    sv_str full = sv_str path @ chars ''.'' @ chars (asset_extension t) @ chars ''.masset'' \<and>
    meAssetFindAssetTypeFromFilepath full = Inr t"
proof -
  let ?full = "STRING_LIT (sv_str path @ chars ''.'' @ chars (asset_extension t) @ chars ME_ASSET_EXTENSION)"
  have short: "sv_len path < 2147483648" using assms(2) by simp
  have "FindInString path (LIT ''.'') 0 0 = Inr (-1)"
    using assms(3) by (intro find_first(2)[OF assms(1) good_needles(2) short]) (auto simp: occurs_char in_set_conv_nth)
  moreover have "fmt_str path = sv_str path" by (rule fmt_str_clean[OF assms(4)])
  moreover have "fmt_str (meAssetFileExtFromType t) = chars (asset_extension t)"
    by (simp add: fmt_str_clean meAssetFileExtFromType_def extension_chars)
  ultimately have "meAssetEnsurePathHasGoodExtension path t = Inr ?full"
    by (simp add: meAssetEnsurePathHasGoodExtension_def type_of_dotless[OF assms(1) short assms(3)])
  moreover have "meAssetFindAssetTypeFromFilepath ?full = Inr t"
  proof (rule type_of_typed[OF _ _ _ assms(3)])
    have "length (asset_extension t) \<le> 4" by (cases t) simp_all
    then show "sv_len ?full < 2147483648" using assms(1,2) by (simp add: ME_ASSET_EXTENSION_def)
  qed simp_all
  ultimately show ?thesis by (simp add: ME_ASSET_EXTENSION_def)
qed

theorem good_extension_recognised_witness:
  "\<exists>full. meAssetEnsurePathHasGoodExtension (LIT ''levels/forest'') MAScene = Inr full \<and>
     sv_str full = chars ''levels/forest.scn.masset'' \<and> meAssetFindAssetTypeFromFilepath full = Inr MAScene"
proof -
  have "46 \<notin> set (chars ''levels/forest'')" "0 \<notin> set (chars ''levels/forest'')" by (simp_all add: chars_def)
  then show ?thesis
    using good_extension_recognised[of "LIT ''levels/forest''" MAScene] by (simp add: chars_def)
qed

text \<open>
  A file name that has a dot but no asset extension loses everything up to its first dot when
  it is completed, instead of its extension: the function passes the position of the dot as the
  start of the view it keeps.
\<close>

theorem good_extension_drops_name:
  assumes "sv_wf path" and "sv_len path < 2147483648" and "sv_str path = base @ 46 # rest" and "46 \<notin> set base"
    and "0 \<notin> set rest" and "meAssetFindAssetTypeFromFilepath path = Inr MABadData"
  shows "\<exists>full. meAssetEnsurePathHasGoodExtension path t = Inr full \<and>
    sv_str full = 46 # rest @ 46 # chars (asset_extension t) @ chars ''.masset''"
proof -
  have "first_from 0 (occurs 0 (sv_str path) [46]) (length base)"
    using assms(4) by (auto simp: first_from_def occurs_char assms(3) nth_append in_set_conv_nth)
  then have dot: "FindInString path (LIT ''.'') 0 0 = Inr (int (length base))"
    by (intro find_first(1)[OF assms(1) good_needles(2) assms(2)]) simp_all
  have "sv_str (OffsetView path (length base)) = 46 # rest"
    using assms(1,3) by (simp add: sv_str_OffsetView)
  then have "fmt_str (OffsetView path (length base)) = 46 # rest"
    using assms(5) fmt_str_clean[of "OffsetView path (length base)"] by simp
  moreover have "fmt_str (meAssetFileExtFromType t) = chars (asset_extension t)"
    by (simp add: fmt_str_clean meAssetFileExtFromType_def extension_chars)
  ultimately show ?thesis
    using dot by (simp add: meAssetEnsurePathHasGoodExtension_def assms(6)) (simp add: ME_ASSET_EXTENSION_def)
qed

theorem good_extension_drops_name_witness:
  "\<exists>full. meAssetEnsurePathHasGoodExtension (LIT ''forest.txt'') MAScene = Inr full \<and>
     sv_str full = chars ''.txt.scn.masset''"
proof -
  have "meAssetFindAssetTypeFromFilepath (LIT ''forest.txt'') = Inr MABadData" by code_simp
  then show ?thesis
    using good_extension_drops_name[of "LIT ''forest.txt''" "chars ''forest''" "chars ''txt''" MAScene]
    by (simp add: chars_def)
qed

text \<open>
  Resource paths: the absolute path of a path relative to the resource directory is the
  directory, a separator and the path, and making it relative again gives the path back; a path
  that already contains the directory is left as it is.
\<close>

theorem resource_path_roundtrip:
  assumes "sv_wf dir" "good_needle dir" "0 \<notin> set (sv_str dir)"
    and "sv_wf path" "sv_str path \<noteq> []" "0 \<notin> set (sv_str path)" "92 \<notin> set (sv_str path)" "hd (sv_str path) \<noteq> 47"
    and "\<forall>j. \<not> occurs 0 (sv_str path) (sv_str dir) j" and "sv_len dir + sv_len path < 2147483647"
    and "92 \<notin> set (sv_str dir)"
  shows "\<exists>full back. meAssetGetAbsPathForResource dir path = Inr (path, full) \<and>
    sv_str full = sv_str dir @ 47 # sv_str path \<and>
    meAssetGetAbsPathForResource dir full = Inr (full, full) \<and>
    meAssetGetRelPathForResource dir full = Inr back \<and> sv_str back = sv_str path"
proof -
  let ?full = "STRING_LIT (sv_str dir @ 47 # sv_str path)"
  have ne: "sv_mem path \<noteq> None" "sv_len path \<noteq> 0" using sv_nonempty[OF assms(4,5)] by simp_all
  have short: "sv_len path < 2147483648" "sv_len ?full < 2147483648" using assms(1,4,10) by simp_all
  have absent: "FindInString path dir 0 0 = Inr (-1)"
    by (rule find_first(2)[OF assms(4,2) short(1) assms(9)])
  have "first_from 0 (occurs 0 (sv_str ?full) (sv_str dir)) 0" using assms(1) by (simp add: first_from_def occurs_plain)
  then have found: "FindInString ?full dir 0 0 = Inr 0"
    using find_first(1)[OF _ assms(2) short(2), of 0 0] by simp
  have abs1: "meAssetGetAbsPathForResource dir path = Inr (path, ?full)"
    using ne assms(3,4,6,7) absent
    by (simp add: meAssetGetAbsPathForResource_def sv_bool_def normalize_clean fmt_str_clean meFsGetDirectorySeperator_def)
  have "92 \<notin> set (sv_str ?full)" using assms(7,11) by simp
  then have abs2: "meAssetGetAbsPathForResource dir ?full = Inr (?full, ?full)"
    using found by (simp add: meAssetGetAbsPathForResource_def sv_bool_def normalize_clean) (simp add: STRING_LIT_def)
  let ?v = "OffsetView ?full (sv_len dir)"
  have v: "sv_wf ?v" "sv_str ?v = 47 # sv_str path" "sv_len ?v < 4294967296"
    using assms(1) short(2) by (simp_all add: sv_wf_OffsetView sv_str_OffsetView sv_len_OffsetView)
  have sep: "sv_wf meFsGetDirectorySeperator" "sv_str meFsGetDirectorySeperator = [47]" "sv_len meFsGetDirectorySeperator < 2147483648"
    by (simp_all add: meFsGetDirectorySeperator_def)
  obtain i where i: "EatChars ?v meFsGetDirectorySeperator False = Inr (OffsetView ?v i)"
    "sv_str (OffsetView ?v i) = dropWhile (eats [47] False) (sv_str ?v)"
    using EatChars_spec[OF v(1) sep(1,3) v(3), of False] sep(2) by auto
  have "dropWhile (eats [47] False) (sv_str ?v) = sv_str path"
    unfolding v(2) using assms(5,8) by (cases "sv_str path") (simp_all add: eats_def)
  with i have "meAssetGetRelPathForResource dir ?full = Inr (OffsetView ?v i)" "sv_str (OffsetView ?v i) = sv_str path"
    by (simp_all add: meAssetGetRelPathForResource_def found)
  with abs1 abs2 show ?thesis
    by (intro exI[of _ ?full] exI[of _ "OffsetView ?v i"]) simp
qed

theorem resource_path_roundtrip_witness:
  "\<exists>full back. meAssetGetAbsPathForResource (LIT ''C:/game'') (LIT ''levels/forest'') = Inr (LIT ''levels/forest'', full) \<and>
    sv_str full = chars ''C:/game/levels/forest'' \<and>
    meAssetGetRelPathForResource (LIT ''C:/game'') full = Inr back \<and> sv_str back = chars ''levels/forest''"
proof -
  have "good_needle (LIT ''C:/game'')" by (rule good_lit) (simp_all add: chars_def)
  moreover have "\<not> occurs 0 (chars ''levels/forest'') (chars ''C:/game'') j" for j
  proof
    assume "occurs 0 (chars ''levels/forest'') (chars ''C:/game'') j"
    from occurs_subset[OF _ this] have "set (chars ''C:/game'') \<subseteq> set (chars ''levels/forest'')" by simp
    then show False by (simp add: chars_def)
  qed
  ultimately show ?thesis
    using resource_path_roundtrip[of "LIT ''C:/game''" "LIT ''levels/forest''"]
    by (simp add: chars_def) blast
qed

end
