(* ===== verification/AssetIndexes.thy ===== *)
theory AssetIndexes
  imports AssetPaths TextFiles
begin

text \<open>
  The asset index (\<open>asset/me_asset_index.h\<close>, \<open>asset/me_asset_index.cpp\<close>): which file an asset is
  stored in, which asset a file holds, the hash of the file and the recorded dependencies. Its
  maps are \<open>meMap\<close>s, whose lookups and assignments are those of finite maps (\<open>HashMaps\<close>); strings
  are the characters they hold. The content of files is an argument.
\<close>

section \<open>State and operations\<close>

record meAssetIndex =
  assetToPathMap :: "MAID \<rightharpoonup> u8 list"
  pathToAssetsMap :: "u8 list \<rightharpoonup> MAID"
  serializedUniqueIdentifiers :: "MAID \<rightharpoonup> u32"
  dependencyMap :: "MAID \<rightharpoonup> MAID list"

definition index_empty :: meAssetIndex where
  "index_empty = \<lparr>assetToPathMap = Map.empty, pathToAssetsMap = Map.empty,
     serializedUniqueIdentifiers = Map.empty, dependencyMap = Map.empty\<rparr>"

definition meAssetIndexRecordDependency :: "MAID \<Rightarrow> MAID \<Rightarrow> meAssetIndex \<Rightarrow> meAssetIndex" where
  "meAssetIndexRecordDependency owner dep index =
     (if \<not> MAID_bool owner \<or> \<not> MAID_bool dep then index
      else let deps = (case dependencyMap index owner of None \<Rightarrow> [] | Some ds \<Rightarrow> ds)
           in index\<lparr>dependencyMap := (dependencyMap index)(owner \<mapsto> deps @ [dep])\<rparr>)"

text \<open>The span of dependencies, empty when there is none.\<close>

definition meAssetIndexGetDependencies :: "MAID \<Rightarrow> meAssetIndex \<Rightarrow> MAID list" where
  "meAssetIndexGetDependencies owner index =
     (if \<not> MAID_bool owner then []
      else case dependencyMap index owner of None \<Rightarrow> [] | Some ds \<Rightarrow> ds)"

definition meAssetIndexGetFilesystemPath :: "MAID \<Rightarrow> meAssetIndex \<Rightarrow> StringView" where
  "meAssetIndexGetFilesystemPath maid index =
     (case assetToPathMap index maid of Some path \<Rightarrow> STRING_LIT path | None \<Rightarrow> StringView_default)"

definition meAssetIndexGetMAIDFromPath :: "StringView \<Rightarrow> StringView \<Rightarrow> meAssetIndex \<Rightarrow> MAID result" where
  "meAssetIndexGetMAIDFromPath resDir path index =
     (if \<not> sv_bool path then Inr MAID_INVALID
      else bindR (meAssetGetRelPathForResource resDir path) (\<lambda>assetPath.
             Inr (case pathToAssetsMap index (sv_str assetPath) of Some m \<Rightarrow> m | None \<Rightarrow> MAID_INVALID)))"

definition meAssetIndexGetUniqueID :: "MAID \<Rightarrow> meAssetIndex \<Rightarrow> u32" where
  "meAssetIndexGetUniqueID maid index =
     (if \<not> MAID_bool maid then 0
      else case serializedUniqueIdentifiers index maid of Some i \<Rightarrow> i | None \<Rightarrow> 0)"

definition meAssetIndexRegisterRelation :: "StringView \<Rightarrow> MAID \<Rightarrow> meAssetIndex \<Rightarrow> meAssetIndex" where
  "meAssetIndexRegisterRelation path maid index =
     (if \<not> sv_bool path \<or> \<not> MAID_bool maid then index
      else index\<lparr>assetToPathMap := (assetToPathMap index)(maid \<mapsto> sv_str path),
                 pathToAssetsMap := (pathToAssetsMap index)(sv_str path \<mapsto> maid)\<rparr>)"

section \<open>Building the index from the files\<close>

text \<open>
  The types registered with a loader, the files by absolute path. The normalisation in
  \<open>meAssetGetAbsPathForResource\<close> also changes the file path that is stored in the index.
\<close>

definition OnFoundAssetFile ::
    "io \<Rightarrow> nat \<Rightarrow> StringView \<Rightarrow> (u32 \<Rightarrow> meTypeDescriptor option) \<Rightarrow> (u8 list \<rightharpoonup> u8 list) \<Rightarrow> StringView \<Rightarrow> meAssetIndex \<Rightarrow>
     meAssetIndex result" where
  "OnFoundAssetFile env fuel resDir loaders files filepath index =
     bindR (meAssetFindAssetTypeFromFilepath filepath) (\<lambda>type.
       if type = MABadData then Inr index
       else bindR (meAssetGetAbsPathForResource resDir filepath) (\<lambda>(filepath, assetPath).
         case loaders (meAssetType_value type) of None \<Rightarrow> Inr index
         | Some typeDesc \<Rightarrow>
             (case files (sv_str assetPath) of None \<Rightarrow> Inr index
              | Some sourceData \<Rightarrow>
                  bindR (meSerializeTryReadHeader env 0 fuel meSerializationMode_Text sourceData typeDesc) (\<lambda>found.
                    case found of None \<Rightarrow> Inr index
                    | Some header \<Rightarrow>
                        if \<not> MAID_bool (hd_assetHeader header) then Inr index
                        else let m = hd_assetHeader header;
                                 index = index\<lparr>assetToPathMap := (assetToPathMap index)(m \<mapsto> sv_str filepath),
                                               pathToAssetsMap := (pathToAssetsMap index)(sv_str filepath \<mapsto> m),
                                               serializedUniqueIdentifiers :=
                                                 (serializedUniqueIdentifiers index)(m \<mapsto> ucast (HashBytesL sourceData))\<rparr>
                             in Inr (fold (meAssetIndexRecordDependency m) (header_deps header) index)))))"

text \<open>A file found by the directory walk: its path and whether it is a directory.\<close>

fun index_files ::
    "io \<Rightarrow> nat \<Rightarrow> StringView \<Rightarrow> (u32 \<Rightarrow> meTypeDescriptor option) \<Rightarrow> (u8 list \<rightharpoonup> u8 list) \<Rightarrow> (u8 list \<times> bool) list \<Rightarrow>
     meAssetIndex \<Rightarrow> meAssetIndex result" where
  "index_files env fuel resDir loaders files [] index = Inr index"
| "index_files env fuel resDir loaders files ((path, isDirectory) # rest) index =
     (if isDirectory then index_files env fuel resDir loaders files rest index
      else bindR (FindInString (STRING_LIT path) (LIT ME_ASSET_EXTENSION) 0 0) (\<lambda>found.
           bindR (if found \<noteq> -1 then OnFoundAssetFile env fuel resDir loaders files (STRING_LIT path) index
                  else Inr index) (\<lambda>index.
           index_files env fuel resDir loaders files rest index)))"

definition meAssetIndexInitialize ::
    "io \<Rightarrow> nat \<Rightarrow> StringView \<Rightarrow> (u32 \<Rightarrow> meTypeDescriptor option) \<Rightarrow> (u8 list \<rightharpoonup> u8 list) \<Rightarrow> (u8 list \<times> bool) list \<Rightarrow>
     meAssetIndex result" where
  "meAssetIndexInitialize env fuel resDir loaders files dataFiles =
     index_files env fuel resDir loaders files dataFiles index_empty"

section \<open>Well-formed indices\<close>

text \<open>
  Every indexed asset has a valid id, and its path leads back to an indexed asset; dependencies
  are recorded between valid ids only.
\<close>

definition index_wf :: "meAssetIndex \<Rightarrow> bool" where
  "index_wf index \<longleftrightarrow>
     (\<forall>m path. assetToPathMap index m = Some path \<longrightarrow> MAID_bool m \<and> pathToAssetsMap index path \<noteq> None) \<and>
     (\<forall>path m. pathToAssetsMap index path = Some m \<longrightarrow> assetToPathMap index m \<noteq> None) \<and>
     (\<forall>m ds. dependencyMap index m = Some ds \<longrightarrow> MAID_bool m \<and> list_all MAID_bool ds)"

lemma index_wf_empty: "index_wf index_empty"
  by (simp add: index_wf_def index_empty_def)

lemma RecordDependency_maps [simp]:
  "assetToPathMap (meAssetIndexRecordDependency owner dep index) = assetToPathMap index"
  "pathToAssetsMap (meAssetIndexRecordDependency owner dep index) = pathToAssetsMap index"
  "serializedUniqueIdentifiers (meAssetIndexRecordDependency owner dep index) = serializedUniqueIdentifiers index"
  by (simp_all add: meAssetIndexRecordDependency_def Let_def)

lemma RecordDependencies_maps [simp]:
  "assetToPathMap (fold (meAssetIndexRecordDependency owner) deps index) = assetToPathMap index"
  "pathToAssetsMap (fold (meAssetIndexRecordDependency owner) deps index) = pathToAssetsMap index"
  by (induction deps arbitrary: index) simp_all

lemma index_wf_RecordDependency: "index_wf index \<Longrightarrow> index_wf (meAssetIndexRecordDependency owner dep index)"
  by (auto simp: index_wf_def meAssetIndexRecordDependency_def Let_def split: option.splits)

lemma index_wf_RecordDependencies:
  "index_wf index \<Longrightarrow> index_wf (fold (meAssetIndexRecordDependency owner) deps index)"
  by (induction deps arbitrary: index) (simp_all add: index_wf_RecordDependency)

lemma index_wf_relation:
  assumes "index_wf index" and "MAID_bool m"
  shows "index_wf (index\<lparr>assetToPathMap := (assetToPathMap index)(m \<mapsto> path),
    pathToAssetsMap := (pathToAssetsMap index)(path \<mapsto> m)\<rparr>)"
  using assms by (auto simp: index_wf_def)

lemma index_wf_unique [simp]: "index_wf (index\<lparr>serializedUniqueIdentifiers := f\<rparr>) = index_wf index"
  by (simp add: index_wf_def)

lemma index_wf_RegisterRelation: "index_wf index \<Longrightarrow> index_wf (meAssetIndexRegisterRelation path m index)"
  by (simp add: meAssetIndexRegisterRelation_def index_wf_relation)

lemma GetDependencies_valid:
  "index_wf index \<Longrightarrow> d \<in> set (meAssetIndexGetDependencies m index) \<Longrightarrow> MAID_bool d"
  by (cases "dependencyMap index m")
    (auto simp: index_wf_def meAssetIndexGetDependencies_def list_all_iff split: if_splits)

lemma GetDependencies_Record:
  assumes "MAID_bool owner"
  shows "meAssetIndexGetDependencies m (fold (meAssetIndexRecordDependency owner) deps index) =
    meAssetIndexGetDependencies m index @ (if m = owner then filter MAID_bool deps else [])"
proof (induction deps arbitrary: index)
  case (Cons d deps)
  have "meAssetIndexGetDependencies m (meAssetIndexRecordDependency owner d index) =
      meAssetIndexGetDependencies m index @ (if m = owner \<and> MAID_bool d then [d] else [])"
    using assms by (auto simp: meAssetIndexRecordDependency_def meAssetIndexGetDependencies_def Let_def)
  then show ?case using Cons.IH by simp
qed simp

lemma OnFoundAssetFile_wf:
  assumes "index_wf index" and "OnFoundAssetFile env fuel resDir loaders files filepath index = Inr index'"
  shows "index_wf index'"
proof -
  have "index_wf (fold (meAssetIndexRecordDependency m) deps (index\<lparr>assetToPathMap := (assetToPathMap index)(m \<mapsto> path),
      pathToAssetsMap := (pathToAssetsMap index)(path \<mapsto> m), serializedUniqueIdentifiers := u\<rparr>))"
    if "MAID_bool m" for m deps path u
    using index_wf_relation[OF assms(1) that, of path]
    by (intro index_wf_RecordDependencies) (simp add: index_wf_def)
  then show ?thesis
    using assms
    by (auto simp: OnFoundAssetFile_def Let_def elim!: bindR_InrE split: if_split_asm option.split_asm prod.split_asm)
qed

lemma index_files_wf:
  "index_wf index \<Longrightarrow> index_files env fuel resDir loaders files dataFiles index = Inr index' \<Longrightarrow> index_wf index'"
  by (induction env fuel resDir loaders files dataFiles index rule: index_files.induct)
    (auto simp: bindR_Inr split: if_splits intro: OnFoundAssetFile_wf)

section \<open>Properties\<close>

text \<open>
  C24. The index built from the files is consistent, and registering a relation and recording
  dependencies keep it so: every asset it knows has a valid id and a path that leads to a known
  asset, and every known dependency is valid. Registering makes the path of the asset and the
  asset of the path the given ones; another path the asset had before still leads to it.
\<close>

theorem asset_index_consistent:
  assumes "index_wf index" and "sv_bool path" and "MAID_bool m"
  shows "(meAssetIndexInitialize env fuel resDir loaders files dataFiles = Inr built \<longrightarrow> index_wf built) \<and>
      index_wf (meAssetIndexRegisterRelation path m index) \<and> index_wf (meAssetIndexRecordDependency m d index) \<and>
      sv_str (meAssetIndexGetFilesystemPath m (meAssetIndexRegisterRelation path m index)) = sv_str path \<and>
      pathToAssetsMap (meAssetIndexRegisterRelation path m index) (sv_str path) = Some m \<and>
      (\<forall>old. pathToAssetsMap index old = Some m \<longrightarrow> pathToAssetsMap (meAssetIndexRegisterRelation path m index) old = Some m)"
  using assms index_files_wf[OF index_wf_empty]
  by (auto simp: meAssetIndexInitialize_def index_wf_RegisterRelation index_wf_RecordDependency
      meAssetIndexGetFilesystemPath_def) (simp_all add: meAssetIndexRegisterRelation_def)

theorem asset_index_consistent_witness:
  "pathToAssetsMap (meAssetIndexRegisterRelation (LIT ''b'') \<lparr>maid_id = 1, maid_type = 2\<rparr>
     (meAssetIndexRegisterRelation (LIT ''a'') \<lparr>maid_id = 1, maid_type = 2\<rparr> index_empty)) (chars ''a'') =
   Some \<lparr>maid_id = 1, maid_type = 2\<rparr>"
proof -
  let ?m = "\<lparr>maid_id = 1, maid_type = 2\<rparr>"
  have m: "MAID_bool ?m" by code_simp
  have "sv_bool (LIT ''b'')" "sv_bool (LIT ''a'')" by (simp_all add: sv_bool_def STRING_LIT_def)
  with asset_index_consistent[OF index_wf_RegisterRelation[OF index_wf_empty, of "LIT ''a''" ?m] \<open>sv_bool (LIT ''b'')\<close> m, where d = ?m] m
  show ?thesis by (simp add: meAssetIndexRegisterRelation_def)
qed

end
