(* ===== verification/AssetSystems.thy ===== *)
theory AssetSystems
  imports AssetIndexes ResourcePools
begin

text \<open>
  The asset system (\<open>asset/me_asset.h\<close>, \<open>asset/me_asset.cpp\<close>): the registries of template assets,
  one per asset type, the loaders with their resource pools, and the queue of the compiler
  thread. Requests put a job in the queue; the one worker thread
  (\<open>NUM_ASSET_COMPILER_THREADS\<close>) runs the jobs. The content of an asset is an object in an
  address store, shared between the pool's slot and the registry entry. The virtual functions of
  the loaders, the JSON library and the files are arguments or part of the state.
\<close>

section \<open>State\<close>

record asset =
  as_id :: MAID
  as_handle :: Eye
  as_stage :: meAssetLoadStage
  as_content :: "nat option"

definition isLoaded :: "asset \<Rightarrow> bool" where
  "isLoaded a \<longleftrightarrow> as_handle a \<noteq> EYE_INVALID \<and> as_stage a = Loaded"

text \<open>\<open>meAsset(identifier, stage)\<close> and \<open>meAsset(eye, identifier)\<close>.\<close>

definition asset_staged :: "MAID \<Rightarrow> meAssetLoadStage \<Rightarrow> asset" where
  "asset_staged m stage = \<lparr>as_id = m, as_handle = EYE_INVALID, as_stage = stage, as_content = None\<rparr>"

definition asset_handled :: "Eye \<Rightarrow> MAID \<Rightarrow> asset" where
  "asset_handled eye m =
     \<lparr>as_id = m, as_handle = eye, as_stage = (if Eye_bool eye then Loaded else Unloaded), as_content = None\<rparr>"

text \<open>A loader: its type descriptor and the value of a default-constructed object of the type.\<close>

record loader =
  lo_desc :: meTypeDescriptor
  lo_blank :: val

datatype job = LoadJob MAID "nat option" | WriteJob MAID "nat option"

datatype event =
    BeginLoading MAID
  | FinishedLoading MAID
  | FinishedWriting MAID
  | OnLoad MAID
  | Callback nat MAID

record asset_system =
  sy_registries :: "u32 \<Rightarrow> MAID \<rightharpoonup> asset"
  sy_loaders :: "u32 \<Rightarrow> loader option"
  sy_pools :: "u32 \<Rightarrow> nat pool"
  sy_heap :: "nat \<rightharpoonup> val"
  sy_next :: nat
  sy_index :: meAssetIndex
  sy_files :: "u8 list \<rightharpoonup> u8 list"
  sy_jobs :: "job list"
  sy_jobid :: u32
  sy_events :: "event list"

text \<open>
  What does not change: the JSON library and the allocator, the resource directory, the fuel of
  the walks, and \<open>meAssetPrepareCompiledData\<close> and \<open>meAssetInitializeRuntime\<close> of the loaders, which
  may change the content. \<open>en_writable\<close> says which files \<open>meOSWriteFileContentAtomic\<close> can write.
\<close>

record engine =
  en_io :: io
  en_resdir :: StringView
  en_fuel :: nat
  en_prepare :: "u32 \<Rightarrow> val \<Rightarrow> bool \<times> val"
  en_initialize :: "u32 \<Rightarrow> val \<Rightarrow> bool \<times> val"
  en_writable :: "u8 list \<Rightarrow> bool"

definition fire :: "event \<Rightarrow> asset_system \<Rightarrow> asset_system" where
  "fire e s = s\<lparr>sy_events := sy_events s @ [e]\<rparr>"

definition call_back :: "nat option \<Rightarrow> MAID \<Rightarrow> asset_system \<Rightarrow> asset_system" where
  "call_back cb m s = (case cb of None \<Rightarrow> s | Some f \<Rightarrow> fire (Callback f m) s)"

definition put_asset :: "MAID \<Rightarrow> asset \<Rightarrow> asset_system \<Rightarrow> asset_system" where
  "put_asset m a s =
     s\<lparr>sy_registries := (sy_registries s)(maid_type m := (sy_registries s (maid_type m))(m \<mapsto> a))\<rparr>"

definition put_content :: "nat \<Rightarrow> val \<Rightarrow> asset_system \<Rightarrow> asset_system" where
  "put_content c v s = s\<lparr>sy_heap := (sy_heap s)(c \<mapsto> v)\<rparr>"

definition put_pool :: "u32 \<Rightarrow> nat pool \<Rightarrow> asset_system \<Rightarrow> asset_system" where
  "put_pool t p s = s\<lparr>sy_pools := (sy_pools s)(t := p)\<rparr>"

definition content_of :: "asset_system \<Rightarrow> nat option \<Rightarrow> val result" where
  "content_of s c = bindR (deref c) (\<lambda>c. deref (sy_heap s c))"

section \<open>Requests\<close>

definition meAssetTryGetTemplate :: "asset_system \<Rightarrow> MAID \<Rightarrow> asset option" where
  "meAssetTryGetTemplate s m = (if \<not> MAID_bool m then None else sy_registries s (maid_type m) m)"

definition stage_of :: "asset_system \<Rightarrow> MAID \<Rightarrow> meAssetLoadStage" where
  "stage_of s m = (case meAssetTryGetTemplate s m of Some a \<Rightarrow> as_stage a | None \<Rightarrow> Unloaded)"

text \<open>\<open>meJobSystem::Execute\<close>: the id is the counter before it is counted up.\<close>

definition Execute :: "job \<Rightarrow> asset_system \<Rightarrow> u32 \<times> asset_system" where
  "Execute j s = (sy_jobid s, s\<lparr>sy_jobid := sy_jobid s + 1, sy_jobs := sy_jobs s @ [j]\<rparr>)"

fun meAssetRequestLoadTemplate :: "nat option \<Rightarrow> asset_system \<Rightarrow> MAID list \<Rightarrow> (u32 \<times> asset_system) result" where
  "meAssetRequestLoadTemplate cb s [] = Inr (0, s)"
| "meAssetRequestLoadTemplate cb s (m # ms) =
     ME_ASSERT (MAID_bool m)
       (if sy_loaders s (maid_type m) = None then Inr (0, s)
        else if stage_of s m = Unloaded then
          Inr (Execute (LoadJob m cb) (fire (BeginLoading m) (put_asset m (asset_staged m Loading) s)))
        else if stage_of s m = Loaded then meAssetRequestLoadTemplate cb (call_back cb m s) ms
        else meAssetRequestLoadTemplate cb s ms)"

fun meAssetRequestWriteTemplate :: "nat option \<Rightarrow> asset_system \<Rightarrow> MAID list \<Rightarrow> (u32 \<times> asset_system) result" where
  "meAssetRequestWriteTemplate cb s [] = Inr (0, s)"
| "meAssetRequestWriteTemplate cb s (m # ms) =
     require OutOfBounds (unat (maid_type m) < NUM_ASSET_TYPES)
       (if sy_loaders s (maid_type m) = None then Inr (0, s)
        else if stage_of s m = Loaded then Inr (Execute (WriteJob m cb) (fire (BeginLoading m) s))
        else meAssetRequestWriteTemplate cb s ms)"

section \<open>Loading\<close>

text \<open>
  \<open>meAssetCompile\<close> in two parts. The first finds the asset already loaded, or enters the compiling
  stage with an object of its own. (The entry compiled is the registry's, so \<open>&asset\<close> is
  \<open>loaded\<close>.)
\<close>

definition compile_begin :: "engine \<Rightarrow> asset_system \<Rightarrow> MAID \<Rightarrow> (bool \<times> asset_system) result" where
  "compile_begin en s m =
     bindR (deref (meAssetTryGetTemplate s m)) (\<lambda>asset.
     ME_ASSERT (maid_type (as_id asset) = maid_type m)
       (if isLoaded asset then Inr (True, s)
        else if as_content asset \<noteq> None then Inr (False, put_asset m (asset\<lparr>as_stage := Compiling\<rparr>) s)
        else bindR (deref (sy_loaders s (maid_type m))) (\<lambda>loader.
             bindR (RP_Load (sy_next s) (sy_pools s (maid_type m)) meResourceType_TemplateAsset) (\<lambda>(handle, pool).
             bindR (RP_GetShared pool handle) (\<lambda>content.
               Inr (False, put_asset m (asset\<lparr>as_stage := Compiling, as_handle := handle, as_content := content\<rparr>)
                             (put_pool (maid_type m) pool
                               (put_content (sy_next s) (lo_blank loader) (s\<lparr>sy_next := Suc (sy_next s)\<rparr>)))))))))"

text \<open>The object of an asset: its own reference, else the pool's.\<close>

definition asset_content :: "asset_system \<Rightarrow> MAID \<Rightarrow> asset \<Rightarrow> nat option result" where
  "asset_content s m asset =
     (if as_content asset \<noteq> None then Inr (as_content asset)
      else RP_GetShared (sy_pools s (maid_type m)) (as_handle asset))"

text \<open>
  The parent a file names, when loading gets as far as asking for it; and its data as seen from
  the worker. The worker is the only thread that loads, so waiting for a parent that is not
  loaded yet runs into the limit of attempts and fails.
\<close>

definition parent_wanted :: "engine \<Rightarrow> nat \<Rightarrow> meTypeDescriptor \<Rightarrow> u8 list \<Rightarrow> MAID option result" where
  "parent_wanted en a typeDesc source =
     bindR (TryReadSerializedHeaderField (en_io en) a (en_fuel en) meSerializationMode_Text source) (\<lambda>(found, h).
       Inr (if found \<and> ValidateSerializedHeader h typeDesc = None \<and> MAID_bool (hd_parentAsset h) \<and>
               maid_type (hd_parentAsset h) = maid_type (hd_assetHeader h)
            then Some (hd_parentAsset h) else None))"

definition parent_data :: "asset_system \<Rightarrow> meTypeDescriptor \<Rightarrow> MAID \<Rightarrow> val option" where
  "parent_data s typeDesc m =
     (case (meAssetTryGetTemplate s m, sy_loaders s (maid_type m)) of
        (Some parent, Some loader) \<Rightarrow>
          if as_stage parent = Loaded \<and> Eye_bool (as_handle parent) \<and> lo_desc loader = typeDesc
          then (case bindR (asset_content s m parent) (content_of s) of Inr v \<Rightarrow> Some v | Inl _ \<Rightarrow> None) else None
      | _ \<Rightarrow> None)"

text \<open>\<open>DeserializeFromFileBlocking\<close> into the asset's object; references are recorded in the index.\<close>

definition load_file :: "engine \<Rightarrow> asset_system \<Rightarrow> MAID \<Rightarrow> loader \<Rightarrow> nat \<Rightarrow> (bool \<times> asset_system) result" where
  "load_file en s m loader content =
     bindR (meAssetGetAbsPathForResource (en_resdir en) (meAssetIndexGetFilesystemPath m (sy_index s))) (\<lambda>(disk, path).
     let s = (if assetToPathMap (sy_index s) m = None then s
              else s\<lparr>sy_index := (sy_index s)\<lparr>assetToPathMap := (assetToPathMap (sy_index s))(m \<mapsto> sv_str disk)\<rparr>\<rparr>)
     in case sy_files s (sv_str path) of
          None \<Rightarrow> Inr (False, s)
        | Some source \<Rightarrow>
            (let ext = resourcePayloadAllocator (sy_pools s (maid_type m));
                 a = (case ext of Some a \<Rightarrow> a | None \<Rightarrow> 0)
             in bindR (parent_wanted en a (lo_desc loader) source) (\<lambda>parent.
                bindR (case parent of None \<Rightarrow> Inr s
                       | Some p \<Rightarrow> bindR (meAssetRequestLoadTemplate None s [p]) (\<lambda>(_, s). Inr s)) (\<lambda>s.
                bindR (deref (sy_heap s content)) (\<lambda>v.
                bindR (DeserializeBlocking (en_io en) (parent_data s (lo_desc loader)) ext (en_fuel en)
                         meSerializationMode_Text (lo_desc loader) source v) (\<lambda>r.
                  Inr (ld_result r = SER_SUCCESS,
                       put_content content (ld_value r)
                         (s\<lparr>sy_index := fold (meAssetIndexRecordDependency m) (ld_recorded r) (sy_index s)\<rparr>))))))))"

definition header_id :: "val \<Rightarrow> MAID result" where
  "header_id v =
     (case v of VStruct (h # _) \<Rightarrow> bindR (val_header h) (\<lambda>h. Inr (hd_assetHeader h)) | _ \<Rightarrow> Inl OutOfBounds)"

definition compile_read :: "engine \<Rightarrow> asset_system \<Rightarrow> MAID \<Rightarrow> (bool \<times> asset_system) result" where
  "compile_read en s m =
     bindR (deref (meAssetTryGetTemplate s m)) (\<lambda>asset.
     bindR (deref (as_content asset)) (\<lambda>content.
     bindR (deref (sy_loaders s (maid_type m))) (\<lambda>loader.
     bindR (load_file en s m loader content) (\<lambda>(ok, s).
       if \<not> ok then Inr (False, s)
       else bindR (deref (sy_heap s content)) (\<lambda>v.
            bindR (header_id v) (\<lambda>owner.
            ME_ASSERT (owner = m)
              (let (ok, v) = en_prepare en (maid_type m) v in Inr (ok, put_content content v s))))))))"

text \<open>\<open>meAssetLoad\<close> after compilation.\<close>

definition load_failure :: "asset_system \<Rightarrow> MAID \<Rightarrow> asset \<Rightarrow> asset_system result" where
  "load_failure s m asset =
     (let failedHandle = as_handle asset;
          s = put_asset m (asset\<lparr>as_content := None, as_handle := EYE_INVALID, as_stage := Unloaded\<rparr>) s
      in if failedHandle \<noteq> EYE_INVALID
         then bindR (RP_Destroy (sy_pools s (maid_type m)) failedHandle) (\<lambda>pool. Inr (put_pool (maid_type m) pool s))
         else Inr s)"

text \<open>Whether the asset is ready; a failure is rolled back.\<close>

definition load_initialize :: "engine \<Rightarrow> asset_system \<Rightarrow> MAID \<Rightarrow> bool \<Rightarrow> (bool \<times> asset_system) result" where
  "load_initialize en s m compiled =
     bindR (deref (meAssetTryGetTemplate s m)) (\<lambda>asset.
       if \<not> compiled then bindR (load_failure s m asset) (\<lambda>s. Inr (False, s))
       else bindR (deref (as_content asset)) (\<lambda>c.
            bindR (deref (sy_heap s c)) (\<lambda>v.
            let asset = asset\<lparr>as_stage := Loading\<rparr>; (ok, v) = en_initialize en (maid_type m) v;
                s = put_asset m asset (put_content c v s)
            in if ok then Inr (True, s) else bindR (load_failure s m asset) (\<lambda>s. Inr (False, s)))))"

definition load_done :: "asset_system \<Rightarrow> MAID \<Rightarrow> asset_system result" where
  "load_done s m =
     bindR (meAssetRequestLoadTemplate None s (meAssetIndexGetDependencies m (sy_index s))) (\<lambda>(_, s).
     bindR (deref (meAssetTryGetTemplate s m)) (\<lambda>asset.
       Inr (put_asset m (asset\<lparr>as_stage := Loaded\<rparr>) s)))"

text \<open>The rest of the job: the events and the callback of a load that succeeded.\<close>

definition after_load :: "asset_system \<Rightarrow> MAID \<Rightarrow> nat option \<Rightarrow> asset_system result" where
  "after_load s m cb =
     bindR (deref (meAssetTryGetTemplate s m)) (\<lambda>asset.
     ME_ASSERT (MAID_bool (as_id asset))
       (Inr (if \<not> isLoaded asset then s
             else call_back cb m (fire (FinishedLoading m) (fire (OnLoad m) s)))))"

definition run_load :: "engine \<Rightarrow> asset_system \<Rightarrow> MAID \<Rightarrow> nat option \<Rightarrow> asset_system result" where
  "run_load en s m cb =
     ME_ASSERT (meAssetTryGetTemplate s m \<noteq> None)
       (bindR (compile_begin en s m) (\<lambda>(already, s).
          if already then after_load s m cb
          else bindR (compile_read en s m) (\<lambda>(ok, s).
               bindR (load_initialize en s m ok) (\<lambda>(ok, s).
               bindR (if ok then load_done s m else Inr s) (\<lambda>s. after_load s m cb)))))"

section \<open>Waiting for an asset, and access to its content\<close>

text \<open>
  \<open>states\<close> is the state after each sleep of the waiting thread: what the other threads make of
  it. The loop gives up after 1000 attempts.
\<close>

fun wait_attempts :: "(nat \<Rightarrow> asset_system) \<Rightarrow> MAID \<Rightarrow> meAssetLoadStage \<Rightarrow> nat \<Rightarrow> nat \<Rightarrow> nat" where
  "wait_attempts states m stage now 0 = now"
| "wait_attempts states m stage now (Suc left) =
     (case meAssetTryGetTemplate (states now) m of
        None \<Rightarrow> now
      | Some asset \<Rightarrow> if as_stage asset = stage then now else wait_attempts states m stage (Suc now) left)"

definition meAssetWaitForLoadstage :: "(nat \<Rightarrow> asset_system) \<Rightarrow> MAID \<Rightarrow> meAssetLoadStage \<Rightarrow> nat \<Rightarrow> meAssetLoadStage \<times> nat" where
  "meAssetWaitForLoadstage states m stage now =
     (let now = wait_attempts states m stage now 1000
      in (case meAssetTryGetTemplate (states now) m of
            None \<Rightarrow> Unloaded | Some asset \<Rightarrow> if as_stage asset = stage then stage else Unloaded, now))"

fun meAssetWaitUntilLoadstage :: "(nat \<Rightarrow> asset_system) \<Rightarrow> MAID list \<Rightarrow> meAssetLoadStage \<Rightarrow> nat \<Rightarrow> (bool \<times> nat) result" where
  "meAssetWaitUntilLoadstage states [] stage now = Inr (True, now)"
| "meAssetWaitUntilLoadstage states (m # ms) stage now =
     ME_ASSERT (unat (maid_type m) < NUM_ASSET_TYPES)
       (if sy_loaders (states now) (maid_type m) = None then meAssetWaitUntilLoadstage states ms stage now
        else let (loadedStage, now) = meAssetWaitForLoadstage states m stage now
             in if loadedStage \<noteq> stage then Inr (False, now)
                else meAssetWaitUntilLoadstage states ms stage now)"

text \<open>
  \<open>ScopedAssetOpaqueLockR\<close> and \<open>ScopedAssetOpaqueLockW\<close> do the same: the asset they hold and its
  object, and the time and state they end in. \<open>run s t\<close> is the state \<open>t\<close> sleeps after \<open>s\<close>.
\<close>

definition lock_loaded_runtime :: "asset_system \<Rightarrow> asset \<Rightarrow> (asset \<times> nat option) result" where
  "lock_loaded_runtime s asset =
     (let t = maid_type (as_id asset)
      in if \<not> meAssetTypeIsValid t \<or> sy_loaders s t = None then Inr (asset, None)
         else bindR (if as_content asset \<noteq> None then Inr (as_content asset)
                     else RP_GetShared (sy_pools s t) (if isLoaded asset then as_handle asset else EYE_INVALID)) (\<lambda>content.
              Inr (asset\<lparr>as_content := content\<rparr>, content)))"

definition lock_template_asset ::
    "(asset_system \<Rightarrow> nat \<Rightarrow> asset_system) \<Rightarrow> asset_system \<Rightarrow> asset \<Rightarrow> (asset \<times> nat option \<times> asset_system) result" where
  "lock_template_asset run s asset =
     (let m = as_id asset
      in if \<not> MAID_bool m \<or> \<not> meAssetTypeIsValid (maid_type m) then Inr (asset, None, s)
         else bindR (meAssetRequestLoadTemplate None s [m]) (\<lambda>(_, s).
              bindR (meAssetWaitUntilLoadstage (run s) [m] Loaded 0) (\<lambda>(ok, now).
              let s = run s now
              in if \<not> ok then Inr (asset, None, s)
                 else let asset = (case meAssetTryGetTemplate s m of Some t \<Rightarrow> t | None \<Rightarrow> asset)
                      in if sy_loaders s (maid_type m) = None then Inr (asset, None, s)
                         else bindR (asset_content s m asset) (\<lambda>content.
                              Inr (asset\<lparr>as_content := content\<rparr>, content, s)))))"

definition ScopedAssetOpaqueLock ::
    "(asset_system \<Rightarrow> nat \<Rightarrow> asset_system) \<Rightarrow> asset_system \<Rightarrow> asset \<Rightarrow> (asset \<times> nat option \<times> asset_system) result" where
  "ScopedAssetOpaqueLock run s asset =
     (if isLoaded asset \<or> \<not> MAID_bool (as_id asset)
      then bindR (lock_loaded_runtime s asset) (\<lambda>(asset, content). Inr (asset, content, s))
      else lock_template_asset run s asset)"

text \<open>Registering a loader.\<close>

definition meAssetRegisterLoader :: "u32 \<Rightarrow> loader \<Rightarrow> asset_system \<Rightarrow> asset_system result" where
  "meAssetRegisterLoader type loader s =
     ME_ASSERT (unat type < NUM_ASSET_TYPES)
     (ME_ASSERT (sy_loaders s type = None)
     (ME_ASSERT (type \<noteq> 0)
       (case td_fields (lo_desc loader) of
          [] \<Rightarrow> Inl OutOfBounds
        | field # _ \<Rightarrow>
            ME_ASSERT (td_thisType field = Some TD_MESERIALIZEDHEADER)
              (Inr (s\<lparr>sy_loaders := (sy_loaders s)(type \<mapsto> loader)\<rparr>)))))"

section \<open>Writing\<close>

text \<open>\<open>meAssetWrite\<close>: the object is written in text to the asset's file, its header filled in.\<close>

definition meAssetWrite :: "engine \<Rightarrow> asset_system \<Rightarrow> MAID \<Rightarrow> asset \<Rightarrow> asset_system result" where
  "meAssetWrite en s m asset =
     (if \<not> isLoaded asset then Inr s
      else bindR (deref (sy_loaders s (maid_type m))) (\<lambda>loader.
           require OutOfBounds (td_fields (lo_desc loader) \<noteq> [])
           (ME_ASSERT (td_thisType (hd (td_fields (lo_desc loader))) = Some TD_MESERIALIZEDHEADER)
           (bindR (asset_content s m asset) (\<lambda>content.
           bindR (deref content) (\<lambda>c.
           bindR (deref (sy_heap s c)) (\<lambda>v.
           bindR (meAssetGetAbsPathForResource (en_resdir en) (meAssetIndexGetFilesystemPath m (sy_index s))) (\<lambda>(disk, path).
           let s = (if assetToPathMap (sy_index s) m = None then s
                    else s\<lparr>sy_index := (sy_index s)\<lparr>assetToPathMap := (assetToPathMap (sy_index s))(m \<mapsto> sv_str disk)\<rparr>\<rparr>)
           in bindR (SerializeBlocking (en_io en) 0 (en_fuel en) meSerializationMode_Text (lo_desc loader) v) (\<lambda>(res, v, data).
              ME_ASSERT (res = SER_SUCCESS)
                (let s = put_content c v s; bytes = (case data of Some d \<Rightarrow> d | None \<Rightarrow> [])
                 in Inr (if en_writable en (sv_str path) then s\<lparr>sy_files := (sy_files s)(sv_str path \<mapsto> bytes)\<rparr>
                         else s)))))))))))"

definition run_write :: "engine \<Rightarrow> asset_system \<Rightarrow> MAID \<Rightarrow> nat option \<Rightarrow> asset_system result" where
  "run_write en s m cb =
     (case meAssetTryGetTemplate s m of
        None \<Rightarrow> Inl AssertFailed
      | Some asset \<Rightarrow>
          ME_ASSERT (as_stage asset = Loaded \<and> Eye_bool (as_handle asset) \<and> MAID_bool (as_id asset))
            (bindR (meAssetWrite en s m asset) (\<lambda>s. Inr (fire (FinishedWriting m) (call_back cb m s)))))"

section \<open>Unloading and creating\<close>

text \<open>The asset is the caller's copy; the registry's entry is reset for a template.\<close>

definition unload_one :: "asset_system \<Rightarrow> asset \<Rightarrow> (asset \<times> asset_system) result" where
  "unload_one s asset =
     (let handle = as_handle asset;
          s = (if Eye_IsTemplateAsset handle then
                 (case meAssetTryGetTemplate s (as_id asset) of
                    Some registryAsset \<Rightarrow>
                      put_asset (as_id asset)
                        (registryAsset\<lparr>as_stage := Unloaded, as_content := None, as_handle := EYE_INVALID\<rparr>) s
                  | None \<Rightarrow> s)
               else s);
          asset = asset\<lparr>as_content := None, as_handle := EYE_INVALID, as_stage := Unloaded\<rparr>;
          t = maid_type (as_id asset)
      in if handle \<noteq> EYE_INVALID \<and> meAssetTypeIsValid t
         then ME_ASSERT (sy_loaders s t \<noteq> None)
                (bindR (RP_Destroy (sy_pools s t) handle) (\<lambda>pool. Inr (asset, put_pool t pool s)))
         else Inr (asset, s))"

fun meAssetUnloadBlocking :: "asset_system \<Rightarrow> asset list \<Rightarrow> (asset list \<times> asset_system) result" where
  "meAssetUnloadBlocking s [] = Inr ([], s)"
| "meAssetUnloadBlocking s (a # as) =
     bindR (unload_one s a) (\<lambda>(a, s). bindR (meAssetUnloadBlocking s as) (\<lambda>(as, s). Inr (a # as, s)))"

text \<open>\<open>sCreateNewAssetID\<close> hashes the bytes of the current time.\<close>

definition sCreateNewAssetID :: "u8 list \<Rightarrow> u32 \<Rightarrow> MAID result" where
  "sCreateNewAssetID time type = MAID_make (ucast (HashBytes time)) type"

definition with_header_id :: "MAID \<Rightarrow> val \<Rightarrow> val result" where
  "with_header_id m v =
     (case v of
        VStruct (h # vs) \<Rightarrow> bindR (val_header h) (\<lambda>h. Inr (VStruct (header_val (h\<lparr>hd_assetHeader := m\<rparr>) # vs)))
      | _ \<Rightarrow> Inl OutOfBounds)"

definition meAssetCreateNewAsset ::
    "engine \<Rightarrow> u8 list \<Rightarrow> asset_system \<Rightarrow> meAssetType \<Rightarrow> meResourceType \<Rightarrow> StringView \<Rightarrow> (asset \<times> asset_system) result" where
  "meAssetCreateNewAsset en time s type resourceType templateFilename =
     (let t = meAssetType_value type
      in bindR (sCreateNewAssetID time t) (\<lambda>newMaid.
         ME_ASSERT (sy_loaders s t \<noteq> None)
          (bindR (deref (sy_loaders s t)) (\<lambda>loader.
           bindR (RP_Load (sy_next s) (sy_pools s t) resourceType) (\<lambda>(eye, pool).
           bindR (RP_GetShared pool eye) (\<lambda>content.
           bindR (with_header_id newMaid (lo_blank loader)) (\<lambda>v.
           let s = put_pool t pool (put_content (sy_next s) v (s\<lparr>sy_next := Suc (sy_next s)\<rparr>));
               asset = (asset_handled eye newMaid)\<lparr>as_content := content\<rparr>
           in bindR (if sv_bool templateFilename then
                       bindR (meFsNormalizePathSeperators templateFilename) (\<lambda>name.
                       bindR (meAssetEnsurePathHasGoodExtension name type) (\<lambda>name.
                       bindR (meAssetGetRelPathForResource (en_resdir en) name) (\<lambda>name.
                         Inr (meAssetIndexRegisterRelation name newMaid (sy_index s)))))
                     else Inr (sy_index s)) (\<lambda>index.
              let s = s\<lparr>sy_index := index\<rparr>
              in Inr (asset, if resourceType = meResourceType_TemplateAsset then put_asset newMaid asset s else s)))))))))"

end
