(* ===== verification/AssetInvariants.thy ===== *)
theory AssetInvariants
  imports AssetSystems
begin

text \<open>
  What every part of the asset system's work keeps: a registry entry owns an object through a
  handle of its pool exactly when its stage says so, a queued load belongs to one entry that is
  waiting for it, and no object is shared. One lemma per part: requests, the stages of a load,
  writing, unloading and creating.
\<close>

section \<open>Handles and the objects they own\<close>

definition holds_slot :: "nat pool \<Rightarrow> Eye \<Rightarrow> nat \<Rightarrow> bool" where
  "holds_slot p h c \<longleftrightarrow> Eye_IsTemplateAsset h \<and> Eye_GetIndex h \<noteq> 0 \<and>
     unat (Eye_GetIndex h) \<in> live_slots True p \<and> slot_obj (slots True p (unat (Eye_GetIndex h))) = Some c \<and>
     unat (slot_generation (slots True p (unat (Eye_GetIndex h)))) = unat (Eye_GetGeneration h)"

lemma holds_slot_valid: "holds_slot p h c \<Longrightarrow> h \<noteq> EYE_INVALID \<and> Eye_bool h"
  by (auto simp: holds_slot_def EYE_INVALID_def Eye_bool_def Eye_zero)

lemma RP_GetShared_live:
  assumes "pool_wf p" "unat (Eye_GetIndex h) \<in> live_slots (Eye_IsTemplateAsset h) p"
  shows "RP_GetShared p h =
    (let s = slots (Eye_IsTemplateAsset h) p (unat (Eye_GetIndex h))
     in ME_ASSERT (unat (slot_generation s) = unat (Eye_GetGeneration h)) (Inr (slot_obj s)))"
  using bl_get_ok [OF pool_wf_parts(1) [OF assms(1)] assms(2), of slot_default]
  by (simp add: RP_GetShared_def Let_def)

lemma RP_GetShared_holds: "pool_wf p \<Longrightarrow> holds_slot p h c \<Longrightarrow> RP_GetShared p h = Inr (Some c)"
  using RP_GetShared_live[of p h] by (simp add: holds_slot_def Let_def)

lemma pool_load:
  assumes "pool_wf p" and "pool_room True p"
    and "RP_Load c p meResourceType_TemplateAsset = Inr (h, p')" and "RP_GetShared p' h = Inr x"
  shows "pool_wf p'" and "x = Some c" and "holds_slot p' h c"
    and "\<And>h' c'. holds_slot p h' c' \<Longrightarrow> holds_slot p' h' c'"
proof -
  have t: "is_template meResourceType_TemplateAsset" by (simp add: is_template_def)
  from RP_Create_ok[of p meResourceType_TemplateAsset c] assms(1,2) t obtain k q where
    q: "RP_Create c p meResourceType_TemplateAsset = Inr (Eye_make (of_nat k) (ucast (slot_generation (slots True p k))) True, q)"
      "pool_wf q" "k \<notin> live_slots True p" "0 < k" "k < 8388608" "live_slots True q = insert k (live_slots True p)"
      "slots True q = (slots True p)(k := \<lparr>slot_obj = Some c, slot_generation = slot_generation (slots True p k), slot_inUse = False\<rparr>)"
    by (auto simp: Let_def)
  then have h: "h = Eye_make (of_nat k) (ucast (slot_generation (slots True p k))) True" "p' = q"
    using assms(3) by (simp_all add: RP_Load_def)
  have i: "unat (Eye_GetIndex h) = k" "Eye_IsTemplateAsset h"
    using q(5) h(1) by (simp_all only: Eye_GetIndex_of_nat Eye_IsTemplateAsset_make)
  have live: "unat (Eye_GetIndex h) \<in> live_slots (Eye_IsTemplateAsset h) p'" using i q(6) h(2) by simp
  have "ME_ASSERT (unat (slot_generation (slots True p k)) = unat (Eye_GetGeneration h)) (Inr (Some c)) = Inr x"
    using assms(4) RP_GetShared_live[OF _ live] q(2,7) h(2) i by (simp add: Let_def)
  then have get: "unat (slot_generation (slots True p k)) = unat (Eye_GetGeneration h)" "x = Some c"
    by (auto simp: ME_ASSERT_Inr)
  show "pool_wf p'" using q(2) h(2) by simp
  show "x = Some c" by (rule get(2))
  show "holds_slot p' h c" using i q(4,6,7) h(2) get(1) by (auto simp: holds_slot_def)
  show "holds_slot p' h' c'" if "holds_slot p h' c'" for h' c'
    using that q(3,6,7) h(2) by (auto simp: holds_slot_def)
qed

lemma pool_create_instance:
  assumes "pool_wf p" and "pool_room (is_template ty) p" and "RP_Load c p ty = Inr (h, p')"
  shows "pool_wf p'" and "\<And>h' c'. holds_slot p h' c' \<Longrightarrow> holds_slot p' h' c'"
proof -
  from RP_Create_ok[OF assms(1,2), of c] obtain k q where
    q: "RP_Create c p ty = Inr (Eye_make (of_nat k) (ucast (slot_generation (slots (is_template ty) p k))) (is_template ty), q)"
      "pool_wf q" "k \<notin> live_slots (is_template ty) p" "live_slots (is_template ty) q = insert k (live_slots (is_template ty) p)"
      "slots (is_template ty) q = (slots (is_template ty) p)(k := \<lparr>slot_obj = Some c,
         slot_generation = slot_generation (slots (is_template ty) p k), slot_inUse = False\<rparr>)"
      "assoc_pool (\<not> is_template ty) q = assoc_pool (\<not> is_template ty) p"
    by (auto simp: Let_def)
  then have [simp]: "p' = q" using assms(3) by (simp add: RP_Load_def)
  show "pool_wf p'" using q(2) by simp
  show "holds_slot p' h' c'" if "holds_slot p h' c'" for h' c'
    using that q(3-6) by (cases "is_template ty") (auto simp: holds_slot_def)
qed

lemma pool_destroy:
  assumes "pool_wf p" and "holds_slot p h c"
  shows "\<exists>p'. RP_Destroy p h = Inr p' \<and> pool_wf p' \<and> (\<forall>h' c'. holds_slot p h' c' \<and> c' \<noteq> c \<longrightarrow> holds_slot p' h' c')"
proof -
  have live: "unat (Eye_GetIndex h) \<in> live_slots (Eye_IsTemplateAsset h) p" "Eye_GetIndex h \<noteq> 0"
    and t: "Eye_IsTemplateAsset h" using assms(2) by (simp_all add: holds_slot_def)
  from RP_Destroy_ok[OF assms(1) live] t obtain p' where
    p': "RP_Destroy p h = Inr p'" "pool_wf p'" "live_slots True p' = live_slots True p - {unat (Eye_GetIndex h)}"
      "\<And>k. k \<noteq> unat (Eye_GetIndex h) \<Longrightarrow> slots True p' k = slots True p k"
    by (auto simp: Let_def)
  have "holds_slot p' h' c'" if h': "holds_slot p h' c'" "c' \<noteq> c" for h' c'
  proof -
    have "unat (Eye_GetIndex h') \<noteq> unat (Eye_GetIndex h)" using h' assms(2) by (auto simp: holds_slot_def)
    with h'(1) p'(3,4) show ?thesis by (simp add: holds_slot_def)
  qed
  with p'(1,2) show ?thesis by blast
qed

section \<open>The invariant\<close>

text \<open>What the worker is doing between the atomic parts of a load.\<close>

datatype work =
    Idle
  | Begun MAID "nat option"
  | Compiled MAID "nat option" bool
  | Initialized MAID "nat option"

fun working :: "work \<Rightarrow> MAID \<Rightarrow> bool" where
  "working Idle m = False"
| "working (Begun m' cb) m = (m = m')"
| "working (Compiled m' cb ok) m = (m = m')"
| "working (Initialized m' cb) m = (m = m')"

definition owns :: "asset_system \<Rightarrow> MAID \<Rightarrow> asset \<Rightarrow> bool" where
  "owns s m a \<longleftrightarrow> (\<exists>c. as_content a = Some c \<and> holds_slot (sy_pools s (maid_type m)) (as_handle a) c \<and>
     sy_heap s c \<noteq> None \<and> c < sy_next s)"

definition owns_nothing :: "asset \<Rightarrow> bool" where
  "owns_nothing a \<longleftrightarrow> as_content a = None \<and> as_handle a = EYE_INVALID"

fun is_load_of :: "MAID \<Rightarrow> job \<Rightarrow> bool" where
  "is_load_of m (LoadJob m' cb) = (m = m')"
| "is_load_of m (WriteJob m' cb) = False"

definition load_jobs :: "asset_system \<Rightarrow> MAID \<Rightarrow> nat" where
  "load_jobs s m = length (filter (is_load_of m) (sy_jobs s))"

definition entry_ok :: "asset_system \<Rightarrow> work \<Rightarrow> MAID \<Rightarrow> asset option \<Rightarrow> bool" where
  "entry_ok s w m entry =
     (case entry of
        None \<Rightarrow> \<not> working w m \<and> load_jobs s m = 0
      | Some a \<Rightarrow> as_id a = m \<and>
          (case as_stage a of
             Unloaded \<Rightarrow> owns_nothing a \<and> \<not> working w m \<and> load_jobs s m = 0
           | Loading \<Rightarrow> (if working w m then owns s m a \<and> load_jobs s m = 0 else owns_nothing a \<and> load_jobs s m = 1)
           | Compiling \<Rightarrow> working w m \<and> owns s m a \<and> load_jobs s m = 0
           | Loaded \<Rightarrow> owns s m a \<and> \<not> working w m \<and> load_jobs s m = 0
           | Unloading \<Rightarrow> False))"

definition unshared :: "asset_system \<Rightarrow> bool" where
  "unshared s \<longleftrightarrow> (\<forall>m m' a a' c. meAssetTryGetTemplate s m = Some a \<longrightarrow> meAssetTryGetTemplate s m' = Some a' \<longrightarrow>
     as_content a = Some c \<longrightarrow> as_content a' = Some c \<longrightarrow> m = m')"

definition asset_inv :: "asset_system \<Rightarrow> work \<Rightarrow> bool" where
  "asset_inv s w \<longleftrightarrow> (\<forall>t. pool_wf (sy_pools s t)) \<and> (\<forall>m. entry_ok s w m (meAssetTryGetTemplate s m)) \<and> unshared s"

lemma asset_invD:
  assumes "asset_inv s w"
  shows "pool_wf (sy_pools s t)" and "entry_ok s w m (meAssetTryGetTemplate s m)" and "unshared s"
  using assms unfolding asset_inv_def by blast+

lemma unsharedD:
  "unshared s \<Longrightarrow> meAssetTryGetTemplate s m = Some a \<Longrightarrow> meAssetTryGetTemplate s m' = Some a' \<Longrightarrow>
   as_content a = Some c \<Longrightarrow> as_content a' = Some c \<Longrightarrow> m = m'"
  unfolding unshared_def by blast

lemma entry_ok_content:
  "entry_ok s w m (Some a) \<Longrightarrow> as_content a = Some c \<Longrightarrow> owns s m a \<and> c < sy_next s"
  by (auto simp: entry_ok_def owns_nothing_def owns_def split: meAssetLoadStage.splits if_splits)

section \<open>What the operations leave alone\<close>

lemma TryGet_frame [simp]:
  "meAssetTryGetTemplate (fire e s) = meAssetTryGetTemplate s"
  "meAssetTryGetTemplate (call_back cb m s) = meAssetTryGetTemplate s"
  "meAssetTryGetTemplate (put_content c v s) = meAssetTryGetTemplate s"
  "meAssetTryGetTemplate (put_pool t p s) = meAssetTryGetTemplate s"
  "meAssetTryGetTemplate (s\<lparr>sy_index := i\<rparr>) = meAssetTryGetTemplate s"
  "meAssetTryGetTemplate (s\<lparr>sy_next := n\<rparr>) = meAssetTryGetTemplate s"
  "meAssetTryGetTemplate (s\<lparr>sy_files := fs\<rparr>) = meAssetTryGetTemplate s"
  "meAssetTryGetTemplate (s\<lparr>sy_jobs := js\<rparr>) = meAssetTryGetTemplate s"
  "meAssetTryGetTemplate (s\<lparr>sy_jobid := jobid\<rparr>) = meAssetTryGetTemplate s"
  by (simp_all add: fun_eq_iff meAssetTryGetTemplate_def fire_def call_back_def put_content_def put_pool_def
      split: option.split)

lemma TryGet_put [simp]:
  "MAID_bool m \<Longrightarrow> meAssetTryGetTemplate (put_asset m a s) = (meAssetTryGetTemplate s)(m \<mapsto> a)"
  by (auto simp: fun_eq_iff meAssetTryGetTemplate_def put_asset_def)

lemma TryGet_Execute [simp]: "meAssetTryGetTemplate (snd (Execute jb s)) = meAssetTryGetTemplate s"
  by (simp add: Execute_def)

lemma TryGet_valid: "meAssetTryGetTemplate s m = Some a \<Longrightarrow> MAID_bool m"
  by (simp add: meAssetTryGetTemplate_def split: if_splits)

lemma frame_simps [simp]:
  "sy_pools (fire e s) = sy_pools s" "sy_heap (fire e s) = sy_heap s" "sy_next (fire e s) = sy_next s"
  "sy_jobs (fire e s) = sy_jobs s" "sy_index (fire e s) = sy_index s" "sy_files (fire e s) = sy_files s"
  "sy_loaders (fire e s) = sy_loaders s"
  "sy_pools (call_back cb m s) = sy_pools s" "sy_heap (call_back cb m s) = sy_heap s"
  "sy_next (call_back cb m s) = sy_next s" "sy_jobs (call_back cb m s) = sy_jobs s"
  "sy_index (call_back cb m s) = sy_index s" "sy_files (call_back cb m s) = sy_files s"
  "sy_loaders (call_back cb m s) = sy_loaders s"
  "sy_pools (put_asset m a s) = sy_pools s" "sy_heap (put_asset m a s) = sy_heap s"
  "sy_next (put_asset m a s) = sy_next s" "sy_jobs (put_asset m a s) = sy_jobs s"
  "sy_index (put_asset m a s) = sy_index s" "sy_files (put_asset m a s) = sy_files s"
  "sy_loaders (put_asset m a s) = sy_loaders s"
  "sy_pools (put_content c v s) = sy_pools s" "sy_heap (put_content c v s) = (sy_heap s)(c \<mapsto> v)"
  "sy_next (put_content c v s) = sy_next s" "sy_jobs (put_content c v s) = sy_jobs s"
  "sy_index (put_content c v s) = sy_index s" "sy_files (put_content c v s) = sy_files s"
  "sy_loaders (put_content c v s) = sy_loaders s"
  "sy_pools (put_pool t p s) = (sy_pools s)(t := p)" "sy_heap (put_pool t p s) = sy_heap s"
  "sy_next (put_pool t p s) = sy_next s" "sy_jobs (put_pool t p s) = sy_jobs s"
  "sy_index (put_pool t p s) = sy_index s" "sy_files (put_pool t p s) = sy_files s"
  "sy_loaders (put_pool t p s) = sy_loaders s"
  "sy_events (fire e s) = sy_events s @ [e]" "sy_events (put_asset m a s) = sy_events s"
  "sy_events (put_content c v s) = sy_events s" "sy_events (put_pool t p s) = sy_events s"
  by (simp_all add: fire_def call_back_def put_asset_def put_content_def put_pool_def split: option.splits)

section \<open>Changes that keep the invariant\<close>

lemma owns_mono:
  assumes "owns s m a"
    and "\<And>h c. as_content a = Some c \<Longrightarrow> holds_slot (sy_pools s (maid_type m)) h c \<Longrightarrow>
           holds_slot (sy_pools s' (maid_type m)) h c"
    and "\<And>c. sy_heap s c \<noteq> None \<Longrightarrow> sy_heap s' c \<noteq> None" and "sy_next s \<le> sy_next s'"
  shows "owns s' m a"
  using assms unfolding owns_def by (meson less_le_trans)

lemma entry_ok_mono:
  assumes "entry_ok s w m entry" and "load_jobs s' m = load_jobs s m" and "working w' m = working w m"
    and "\<And>a. entry = Some a \<Longrightarrow> owns s m a \<Longrightarrow> owns s' m a"
  shows "entry_ok s' w' m entry"
  using assms by (auto simp: entry_ok_def split: option.splits meAssetLoadStage.splits)

text \<open>The change is at one entry: it keeps its object, drops it, or takes a new one.\<close>

lemma asset_inv_at:
  assumes inv: "asset_inv s w" and upd: "meAssetTryGetTemplate s' = (meAssetTryGetTemplate s)(m := Some a)"
    and same: "\<And>m'. m' \<noteq> m \<Longrightarrow> load_jobs s' m' = load_jobs s m' \<and> working w' m' = working w m'"
    and wf: "\<And>t. pool_wf (sy_pools s' t)"
    and slots: "\<And>t h c. holds_slot (sy_pools s t) h c \<Longrightarrow>
      \<not> (\<exists>b. meAssetTryGetTemplate s m = Some b \<and> as_content b = Some c) \<Longrightarrow> holds_slot (sy_pools s' t) h c"
    and heap: "\<And>c. sy_heap s c \<noteq> None \<Longrightarrow> sy_heap s' c \<noteq> None" and nxt: "sy_next s \<le> sy_next s'"
    and entry: "entry_ok s' w' m (Some a)"
    and own: "\<And>c. as_content a = Some c \<Longrightarrow>
      (\<exists>b. meAssetTryGetTemplate s m = Some b \<and> as_content b = Some c) \<or> sy_next s \<le> c"
  shows "asset_inv s' w'"
proof -
  note old = asset_invD(2)[OF inv] and un = asset_invD(3)[OF inv]
  have others: "entry_ok s' w' m' (meAssetTryGetTemplate s m')" if "m' \<noteq> m" for m'
  proof (rule entry_ok_mono[OF old])
    fix b assume b: "meAssetTryGetTemplate s m' = Some b" "owns s m' b"
    show "owns s' m' b"
      by (rule owns_mono[OF b(2) _ heap nxt]) (use slots unsharedD[OF un] b(1) that in blast)+
  qed (use same that in auto)
  have fresh: "m' = m" if c: "as_content a = Some c" "meAssetTryGetTemplate s m' = Some b" "as_content b = Some c" for m' b c
  proof (rule ccontr)
    assume "m' \<noteq> m"
    then have "sy_next s \<le> c" using own[OF c(1)] unsharedD[OF un c(2) _ c(3)] by blast
    with entry_ok_content[of s w m' b c] old[of m'] c(2,3) show False by simp
  qed
  have "unshared s'"
    unfolding unshared_def upd using fresh unsharedD[OF un] by (auto split: if_splits)
  with others entry wf show ?thesis unfolding asset_inv_def upd by simp
qed

text \<open>No entry changes.\<close>

lemma asset_inv_frame:
  assumes inv: "asset_inv s w" and tryget: "meAssetTryGetTemplate s' = meAssetTryGetTemplate s"
    and same: "\<And>m. load_jobs s' m = load_jobs s m \<and> working w' m = working w m"
    and wf: "\<And>t. pool_wf (sy_pools s' t)"
    and slots: "\<And>t h c. holds_slot (sy_pools s t) h c \<Longrightarrow> holds_slot (sy_pools s' t) h c"
    and heap: "\<And>c. sy_heap s c \<noteq> None \<Longrightarrow> sy_heap s' c \<noteq> None" and nxt: "sy_next s \<le> sy_next s'"
  shows "asset_inv s' w'"
proof -
  have "entry_ok s' w' m (meAssetTryGetTemplate s m)" for m
    by (rule entry_ok_mono[OF asset_invD(2)[OF inv]]) (use same owns_mono[OF _ _ heap nxt] slots in auto)
  with wf asset_invD(3)[OF inv] show ?thesis unfolding asset_inv_def unshared_def tryget by blast
qed

section \<open>Requests keep the invariant\<close>

lemma load_jobs_frame [simp]:
  "load_jobs (fire e s) m = load_jobs s m" "load_jobs (call_back cb m' s) m = load_jobs s m"
  "load_jobs (put_asset m' a s) m = load_jobs s m" "load_jobs (put_content c v s) m = load_jobs s m"
  "load_jobs (put_pool t p s) m = load_jobs s m" "load_jobs (s\<lparr>sy_index := ix\<rparr>) m = load_jobs s m"
  "load_jobs (s\<lparr>sy_next := n\<rparr>) m = load_jobs s m" "load_jobs (s\<lparr>sy_files := fs\<rparr>) m = load_jobs s m"
  "load_jobs (snd (Execute jb s)) m = load_jobs s m + (if is_load_of m jb then 1 else 0)"
  by (simp_all add: load_jobs_def Execute_def)

lemma Execute_frame [simp]:
  "sy_pools (snd (Execute jb s)) = sy_pools s" "sy_heap (snd (Execute jb s)) = sy_heap s"
  "sy_next (snd (Execute jb s)) = sy_next s"
  by (simp_all add: Execute_def)

lemma stage_unloaded:
  assumes "asset_inv s w" "stage_of s m = Unloaded"
  shows "\<not> working w m" and "load_jobs s m = 0"
    and "meAssetTryGetTemplate s m = Some b \<Longrightarrow> as_content b = None"
  using asset_invD(2)[OF assms(1), of m] assms(2)
  by (auto simp: entry_ok_def stage_of_def owns_nothing_def split: option.splits meAssetLoadStage.splits)

lemma request_one:
  assumes inv: "asset_inv s w" and m: "MAID_bool m" "stage_of s m = Unloaded"
  shows "asset_inv (snd (Execute (LoadJob m cb) (fire (BeginLoading m) (put_asset m (asset_staged m Loading) s)))) w"
  by (rule asset_inv_at[OF inv, where m = m and a = "asset_staged m Loading"])
    (use m stage_unloaded[OF inv m(2)] asset_invD(1)[OF inv] in
      \<open>auto simp: entry_ok_def asset_staged_def owns_nothing_def\<close>)

lemma asset_inv_call_back: "asset_inv s w \<Longrightarrow> asset_inv (call_back cb m s) w"
  by (rule asset_inv_frame) (auto simp: asset_invD)

lemma request_inv:
  "meAssetRequestLoadTemplate cb s ms = Inr (i, s') \<Longrightarrow> asset_inv s w \<Longrightarrow> asset_inv s' w"
proof (induction cb s ms rule: meAssetRequestLoadTemplate.induct)
  case (2 cb s m ms)
  then show ?case
    using request_one[of s w m cb] asset_inv_call_back[of s w cb m]
    by (auto simp: ME_ASSERT_Inr split: if_splits)
qed simp

section \<open>The stages of a load keep the invariant\<close>

lemma queued_entry:
  assumes "asset_inv s w" and "sy_jobs s = xs @ LoadJob m cb # ys"
  obtains a where "meAssetTryGetTemplate s m = Some a" "as_id a = m" "as_stage a = Loading" "owns_nothing a"
    "\<not> working w m" "load_jobs s m = 1" "filter (is_load_of m) (xs @ ys) = []"
proof -
  have "load_jobs s m \<noteq> 0" and "load_jobs s m = 1 \<Longrightarrow> filter (is_load_of m) (xs @ ys) = []"
    by (auto simp: load_jobs_def assms(2))
  with asset_invD(2)[OF assms(1), of m] show ?thesis
    by (auto simp: entry_ok_def split: option.splits meAssetLoadStage.splits if_splits intro: that)
qed

lemma compile_begin_unowned:
  assumes "meAssetTryGetTemplate s m = Some a" "as_id a = m" "owns_nothing a"
  shows "compile_begin en s m =
    bindR (deref (sy_loaders s (maid_type m))) (\<lambda>loader.
    bindR (RP_Load (sy_next s) (sy_pools s (maid_type m)) meResourceType_TemplateAsset) (\<lambda>(handle, pool).
    bindR (RP_GetShared pool handle) (\<lambda>content.
      Inr (False, put_asset m (a\<lparr>as_stage := Compiling, as_handle := handle, as_content := content\<rparr>)
                    (put_pool (maid_type m) pool
                      (put_content (sy_next s) (lo_blank loader) (s\<lparr>sy_next := Suc (sy_next s)\<rparr>)))))))"
  using assms by (simp add: compile_begin_def isLoaded_def owns_nothing_def)

lemma compile_begin_inv:
  assumes inv: "asset_inv s w" and job: "sy_jobs s = xs @ LoadJob m cb # ys" and idle: "\<And>m. \<not> working w m"
    and room: "pool_room True (sy_pools s (maid_type m))"
    and run: "compile_begin en (s\<lparr>sy_jobs := xs @ ys\<rparr>) m = Inr (already, s')"
  shows "\<not> already" and "asset_inv s' (Begun m cb)"
proof -
  obtain a where a: "meAssetTryGetTemplate s m = Some a" "as_id a = m" "as_stage a = Loading" "owns_nothing a"
    "filter (is_load_of m) (xs @ ys) = []" by (rule queued_entry[OF inv job])
  let ?s = "s\<lparr>sy_jobs := xs @ ys\<rparr>"
  have "meAssetTryGetTemplate ?s m = Some a" using a(1) by simp
  note start = compile_begin_unowned[OF this a(2,4), of en]
  from run[unfolded start] have "\<exists>blank handle pool content.
      RP_Load (sy_next s) (sy_pools s (maid_type m)) meResourceType_TemplateAsset = Inr (handle, pool) \<and>
      RP_GetShared pool handle = Inr content \<and> \<not> already \<and>
      s' = put_asset m (a\<lparr>as_stage := Compiling, as_handle := handle, as_content := content\<rparr>)
        (put_pool (maid_type m) pool (put_content (sy_next s) blank (?s\<lparr>sy_next := Suc (sy_next s)\<rparr>)))"
    by (auto elim!: bindR_InrE)
  then obtain blank handle pool content where
    r: "RP_Load (sy_next s) (sy_pools s (maid_type m)) meResourceType_TemplateAsset = Inr (handle, pool)"
      "RP_GetShared pool handle = Inr content" "\<not> already"
      "s' = put_asset m (a\<lparr>as_stage := Compiling, as_handle := handle, as_content := content\<rparr>)
        (put_pool (maid_type m) pool (put_content (sy_next s) blank (?s\<lparr>sy_next := Suc (sy_next s)\<rparr>)))"
    by blast
  note p = pool_load[OF asset_invD(1)[OF inv] room r(1,2)]
  have valid: "MAID_bool m" using TryGet_valid a(1) .
  show "\<not> already" by (rule r(3))
  show "asset_inv s' (Begun m cb)"
  proof (rule asset_inv_at[OF inv, where m = m and a = "a\<lparr>as_stage := Compiling, as_handle := handle, as_content := content\<rparr>"])
    show "meAssetTryGetTemplate s' = (meAssetTryGetTemplate s)(m \<mapsto> a\<lparr>as_stage := Compiling, as_handle := handle, as_content := content\<rparr>)"
      using valid by (simp add: r(4))
    show "load_jobs s' m' = load_jobs s m' \<and> working (Begun m cb) m' = working w m'" if "m' \<noteq> m" for m'
      using that idle by (simp add: r(4) load_jobs_def job)
    show "entry_ok s' (Begun m cb) m (Some (a\<lparr>as_stage := Compiling, as_handle := handle, as_content := content\<rparr>))"
      using p(2,3) a(2,5) by (simp add: entry_ok_def owns_def r(4) load_jobs_def)
  qed (use p asset_invD(1)[OF inv] in \<open>auto simp: r(4) a(1)\<close>)
qed

text \<open>Objects, files, the index and events may change without a word about the entries.\<close>

lemma asset_inv_put_content: "asset_inv s w \<Longrightarrow> asset_inv (put_content c v s) w"
  by (rule asset_inv_frame) (auto simp: asset_invD)

lemma asset_inv_index: "asset_inv s w \<Longrightarrow> asset_inv (s\<lparr>sy_index := ix\<rparr>) w"
  by (rule asset_inv_frame) (auto simp: asset_invD)

lemma asset_inv_files: "asset_inv s w \<Longrightarrow> asset_inv (s\<lparr>sy_files := fs\<rparr>) w"
  by (rule asset_inv_frame) (auto simp: asset_invD)

lemma asset_inv_fire: "asset_inv s w \<Longrightarrow> asset_inv (fire e s) w"
  by (rule asset_inv_frame) (auto simp: asset_invD)

lemma asset_inv_working: "asset_inv s w \<Longrightarrow> (\<And>m. working w' m = working w m) \<Longrightarrow> asset_inv s w'"
  by (rule asset_inv_frame) (auto simp: asset_invD)

lemmas asset_inv_keeps =
  asset_inv_put_content asset_inv_index asset_inv_files asset_inv_fire asset_inv_call_back request_inv

declare meAssetRequestLoadTemplate.simps [simp del]

lemma load_file_inv:
  assumes "load_file en s m loader content = Inr (ok, s')" and "asset_inv s w"
  shows "asset_inv s' w"
  using assms
  by (auto simp: load_file_def Let_def elim!: bindR_InrE split: option.split_asm prod.split_asm if_split_asm
      intro!: asset_inv_put_content asset_inv_index) (erule request_inv, simp add: asset_inv_index)+

lemma compile_read_inv:
  assumes "compile_read en s m = Inr (ok, s')" and inv: "asset_inv s w"
  shows "asset_inv s' w"
  using assms(1)
  by (auto simp: compile_read_def Let_def ME_ASSERT_Inr elim!: bindR_InrE split: prod.split_asm if_split_asm
      intro!: asset_inv_put_content) (erule load_file_inv, rule inv)+

lemma working_entry:
  assumes "asset_inv s w" and "working w m"
  shows "\<exists>a c. meAssetTryGetTemplate s m = Some a \<and> as_id a = m \<and> owns s m a \<and> as_content a = Some c \<and>
    load_jobs s m = 0 \<and> MAID_bool m"
  using asset_invD(2)[OF assms(1), of m] assms(2)
  by (auto simp: entry_ok_def TryGet_valid owns_def split: option.splits meAssetLoadStage.splits)

lemma working_only: "working w m \<Longrightarrow> working w m' \<Longrightarrow> m' = m"
  by (cases w) auto

lemma load_failure_inv:
  assumes inv: "asset_inv s w" and m: "working w m" "meAssetTryGetTemplate s m = Some a"
    and run: "load_failure s m a = Inr s'"
  shows "asset_inv s' Idle"
proof -
  let ?a = "a\<lparr>as_content := None, as_handle := EYE_INVALID, as_stage := Unloaded\<rparr>"
  from working_entry[OF inv m(1)] m(2) have a: "as_id a = m" "owns s m a" "load_jobs s m = 0" "MAID_bool m" by auto
  from a(2) obtain c where c: "as_content a = Some c" "holds_slot (sy_pools s (maid_type m)) (as_handle a) c"
    by (auto simp: owns_def)
  from pool_destroy[OF asset_invD(1)[OF inv] c(2)] obtain p' where
    p': "RP_Destroy (sy_pools s (maid_type m)) (as_handle a) = Inr p'" "pool_wf p'"
      "\<And>h' c'. holds_slot (sy_pools s (maid_type m)) h' c' \<Longrightarrow> c' \<noteq> c \<Longrightarrow> holds_slot p' h' c'" by blast
  have s': "s' = put_pool (maid_type m) p' (put_asset m ?a s)"
    using run holds_slot_valid[OF c(2)] p'(1) by (simp add: load_failure_def)
  show ?thesis
    by (rule asset_inv_at[OF inv, where m = m and a = ?a])
      (use a c p' m(2) working_only[OF m(1)] asset_invD(1)[OF inv] in
        \<open>auto simp: s' entry_ok_def owns_nothing_def\<close>)
qed

lemma asset_inv_restage:
  assumes inv: "asset_inv s w" and m: "working w m" "meAssetTryGetTemplate s m = Some a"
    and st: "st = Loaded \<and> w' = Idle \<or> st \<in> {Loading, Compiling} \<and> working w' = working w"
  shows "asset_inv (put_asset m (a\<lparr>as_stage := st\<rparr>) s) w'"
proof -
  let ?s = "put_asset m (a\<lparr>as_stage := st\<rparr>) s"
  from working_entry[OF inv m(1)] m(2) have a: "as_id a = m" "owns s m a" "load_jobs s m = 0" "MAID_bool m" by auto
  have o: "owns ?s m (a\<lparr>as_stage := st\<rparr>)" using a(2) by (simp add: owns_def)
  have e: "entry_ok ?s w' m (Some (a\<lparr>as_stage := st\<rparr>))"
    using st a(1,3) o m(1) by (auto simp: entry_ok_def)
  have same: "working w' m' = working w m'" if "m' \<noteq> m" for m'
    using that st working_only[OF m(1), of m'] by auto
  show ?thesis
    by (rule asset_inv_at[OF inv _ _ _ _ _ _ e]) (use a(4) m(2) same asset_invD(1)[OF inv] in auto)
qed

lemma load_initialize_inv:
  assumes inv: "asset_inv s (Compiled m cb compiled)" and run: "load_initialize en s m compiled = Inr (ok, s')"
  shows "asset_inv s' (if ok then Initialized m cb else Idle)"
proof -
  have w: "working (Compiled m cb compiled) m" by simp
  from working_entry[OF inv w] obtain a c where a: "meAssetTryGetTemplate s m = Some a" "MAID_bool m" "as_content a = Some c"
    by blast
  let ?s = "\<lambda>v. put_asset m (a\<lparr>as_stage := Loading\<rparr>) (put_content c v s)"
  have inv': "asset_inv (?s v) (Initialized m cb)" for v
    by (rule asset_inv_restage[OF asset_inv_put_content[OF inv] w]) (use a in auto)
  have w': "working (Initialized m cb) m" by simp
  have fail: "asset_inv s' Idle" if "load_failure (?s v) m (a\<lparr>as_stage := Loading\<rparr>) = Inr s'" for v
    by (rule load_failure_inv[OF inv' w' _ that]) (use a(2) in simp)
  show ?thesis
    using run a(1,3) fail inv' load_failure_inv[OF inv w a(1)]
    by (auto simp: load_initialize_def Let_def elim!: bindR_InrE split: prod.split_asm if_split_asm)
qed

lemma load_done_inv:
  assumes inv: "asset_inv s (Initialized m cb)" and run: "load_done s m = Inr s'"
  shows "asset_inv s' Idle"
proof -
  from run obtain i s1 a where
    r: "meAssetRequestLoadTemplate None s (meAssetIndexGetDependencies m (sy_index s)) = Inr (i, s1)"
      "meAssetTryGetTemplate s1 m = Some a" "s' = put_asset m (a\<lparr>as_stage := Loaded\<rparr>) s1"
    by (auto simp: load_done_def deref_Inr elim!: bindR_InrE)
  show ?thesis unfolding r(3)
    by (rule asset_inv_restage[OF request_inv[OF r(1) inv] _ r(2)]) simp_all
qed

lemma after_load_inv: "after_load s m cb = Inr s' \<Longrightarrow> asset_inv s w \<Longrightarrow> asset_inv s' w"
  by (auto simp: after_load_def ME_ASSERT_Inr asset_inv_call_back asset_inv_fire elim!: bindR_InrE split: if_split_asm)

section \<open>Writing, unloading and creating keep the invariant\<close>

lemma meAssetWrite_inv: "meAssetWrite en s m a = Inr s' \<Longrightarrow> asset_inv s w \<Longrightarrow> asset_inv s' w"
  by (auto simp: meAssetWrite_def Let_def ME_ASSERT_Inr require_Inr elim!: bindR_InrE
      split: option.split_asm prod.split_asm if_split_asm
      intro!: asset_inv_put_content asset_inv_index asset_inv_files)

lemma run_write_inv: "run_write en s m cb = Inr s' \<Longrightarrow> asset_inv s w \<Longrightarrow> asset_inv s' w"
  by (auto simp: run_write_def ME_ASSERT_Inr elim!: bindR_InrE split: option.split_asm
      intro!: asset_inv_fire asset_inv_call_back) (erule meAssetWrite_inv)

lemma asset_inv_dequeue_write:
  "asset_inv s w \<Longrightarrow> sy_jobs s = xs @ WriteJob m cb # ys \<Longrightarrow> asset_inv (s\<lparr>sy_jobs := xs @ ys\<rparr>) w"
  by (rule asset_inv_frame) (auto simp: asset_invD load_jobs_def)

lemma loaded_entry:
  assumes "asset_inv s w" "meAssetTryGetTemplate s m = Some a" "as_stage a = Loaded"
  obtains c where "as_id a = m" "as_content a = Some c" "holds_slot (sy_pools s (maid_type m)) (as_handle a) c"
    "sy_heap s c \<noteq> None" "\<not> working w m" "load_jobs s m = 0" "MAID_bool m"
  using asset_invD(2)[OF assms(1), of m] assms(2,3) TryGet_valid[OF assms(2)]
  by (auto simp: entry_ok_def owns_def)

lemma unload_template_inv:
  assumes inv: "asset_inv s w" and a: "meAssetTryGetTemplate s m = Some a" "as_stage a = Loaded"
    and run: "unload_one s a = Inr (a', s')"
  shows "asset_inv s' w" and "meAssetTryGetTemplate s' m = Some (a\<lparr>as_stage := Unloaded, as_content := None, as_handle := EYE_INVALID\<rparr>)"
proof -
  let ?a = "a\<lparr>as_stage := Unloaded, as_content := None, as_handle := EYE_INVALID\<rparr>"
  obtain c where c: "as_id a = m" "as_content a = Some c" "holds_slot (sy_pools s (maid_type m)) (as_handle a) c"
    "\<not> working w m" "load_jobs s m = 0" "MAID_bool m" by (rule loaded_entry[OF inv a])
  have h: "Eye_IsTemplateAsset (as_handle a)" using c(3) by (simp add: holds_slot_def)
  from pool_destroy[OF asset_invD(1)[OF inv] c(3)] obtain p' where
    p': "RP_Destroy (sy_pools s (maid_type m)) (as_handle a) = Inr p'" "pool_wf p'"
      "\<And>h' c'. holds_slot (sy_pools s (maid_type m)) h' c' \<Longrightarrow> c' \<noteq> c \<Longrightarrow> holds_slot p' h' c'" by blast
  have "meAssetTypeIsValid (maid_type m)" using c(6) by (simp add: MAID_bool_def meAssetTypeIsValid_def)
  then have s': "s' = put_pool (maid_type m) p' (put_asset m ?a s)"
    using run holds_slot_valid[OF c(3)] p'(1) c(1) a(1) h
    by (auto simp: unload_one_def Let_def ME_ASSERT_Inr elim!: bindR_InrE)
  show "meAssetTryGetTemplate s' m = Some ?a" using c(6) by (simp add: s')
  show "asset_inv s' w"
    by (rule asset_inv_at[OF inv, where m = m and a = ?a])
      (use a c p' asset_invD(1)[OF inv] in \<open>auto simp: s' entry_ok_def owns_nothing_def\<close>)
qed

lemma unload_instance_inv:
  assumes inv: "asset_inv s w" and h: "\<not> Eye_IsTemplateAsset (as_handle a)" "Eye_GetIndex (as_handle a) \<noteq> 0"
      "unat (Eye_GetIndex (as_handle a)) \<in> live_slots False (sy_pools s (maid_type (as_id a)))"
    and run: "unload_one s a = Inr (a', s')"
  shows "asset_inv s' w"
proof -
  let ?t = "maid_type (as_id a)"
  from RP_Destroy_ok[of "sy_pools s ?t" "as_handle a"] asset_invD(1)[OF inv] h obtain p' where
    p': "RP_Destroy (sy_pools s ?t) (as_handle a) = Inr p'" "pool_wf p'" "assoc_pool True p' = assoc_pool True (sy_pools s ?t)"
    by (auto simp: Let_def)
  have keeps: "holds_slot p' h' c" if "holds_slot (sy_pools s ?t) h' c" for h' c
    using that p'(3) by (simp add: holds_slot_def)
  from run h(1) p'(1) consider "s' = s" | "s' = put_pool ?t p' s"
    by (auto simp: unload_one_def Let_def ME_ASSERT_Inr elim!: bindR_InrE split: if_split_asm)
  then show ?thesis
  proof cases
    case 2
    show ?thesis
      by (rule asset_inv_frame[OF inv]) (use p'(2) keeps asset_invD(1)[OF inv] in \<open>auto simp: 2\<close>)
  qed (use inv in simp)
qed

lemma create_parts:
  assumes "meAssetCreateNewAsset en time s type rt name = Inr (a, s')"
    and "sCreateNewAssetID time (meAssetType_value type) = Inr m"
  obtains eye pool content v ix where
    "RP_Load (sy_next s) (sy_pools s (meAssetType_value type)) rt = Inr (eye, pool)"
    "RP_GetShared pool eye = Inr content" "a = (asset_handled eye m)\<lparr>as_content := content\<rparr>"
    "s' = (let s1 = (put_pool (meAssetType_value type) pool
                      (put_content (sy_next s) v (s\<lparr>sy_next := Suc (sy_next s)\<rparr>)))\<lparr>sy_index := ix\<rparr>
           in if rt = meResourceType_TemplateAsset then put_asset m a s1 else s1)"
proof -
  have "\<exists>eye pool content v ix.
    RP_Load (sy_next s) (sy_pools s (meAssetType_value type)) rt = Inr (eye, pool) \<and>
    RP_GetShared pool eye = Inr content \<and> a = (asset_handled eye m)\<lparr>as_content := content\<rparr> \<and>
    s' = (let s1 = (put_pool (meAssetType_value type) pool
                      (put_content (sy_next s) v (s\<lparr>sy_next := Suc (sy_next s)\<rparr>)))\<lparr>sy_index := ix\<rparr>
           in if rt = meResourceType_TemplateAsset then put_asset m a s1 else s1)"
    using assms(1) unfolding meAssetCreateNewAsset_def Let_def assms(2)
    by (elim bindR_InrE)
      (auto simp: ME_ASSERT_Inr elim!: bindR_InrE split: if_split_asm,
       (rule exI, rule exI, rule refl | rule exI, rule exI[of _ "sy_index s"], simp)+)
  with that show thesis by blast
qed

lemma sCreateNewAssetID_type: "sCreateNewAssetID time t = Inr m \<Longrightarrow> maid_type m = t"
  by (auto simp: sCreateNewAssetID_def MAID_make_def MAID_SetType_def elim!: bindR_InrE)

lemma TryGet_put_invalid [simp]:
  "\<not> MAID_bool m \<Longrightarrow> meAssetTryGetTemplate (put_asset m a s) = meAssetTryGetTemplate s"
  by (auto simp: fun_eq_iff meAssetTryGetTemplate_def put_asset_def)

lemma create_inv:
  assumes inv: "asset_inv s w" and id: "sCreateNewAssetID time (meAssetType_value type) = Inr m"
    and fresh: "meAssetTryGetTemplate s m = None" and room: "pool_room (is_template rt) (sy_pools s (meAssetType_value type))"
    and run: "meAssetCreateNewAsset en time s type rt name = Inr (a, s')"
  shows "asset_inv s' w"
proof -
  note t = sCreateNewAssetID_type[OF id]
  obtain eye pool content v ix where
    c: "RP_Load (sy_next s) (sy_pools s (maid_type m)) rt = Inr (eye, pool)" "RP_GetShared pool eye = Inr content"
      "a = (asset_handled eye m)\<lparr>as_content := content\<rparr>"
      "s' = (let s1 = (put_pool (maid_type m) pool (put_content (sy_next s) v (s\<lparr>sy_next := Suc (sy_next s)\<rparr>)))\<lparr>sy_index := ix\<rparr>
             in if rt = meResourceType_TemplateAsset then put_asset m a s1 else s1)"
    by (rule create_parts[OF run id, folded t])
  note p = pool_create_instance[OF asset_invD(1)[OF inv] room[folded t] c(1)]
  show ?thesis
  proof (cases "rt = meResourceType_TemplateAsset \<and> MAID_bool m")
    case True
    then have "pool_room True (sy_pools s (maid_type m))" using room t by (simp add: is_template_def)
    note q = pool_load[OF asset_invD(1)[OF inv] this c(1)[unfolded conjunct1[OF True]] c(2)]
    have "\<not> working w m \<and> load_jobs s m = 0" using asset_invD(2)[OF inv, of m] fresh by (simp add: entry_ok_def)
    then have e: "entry_ok s' w m (Some a)"
      using q(2,3) holds_slot_valid[OF q(3)] True
      by (simp add: entry_ok_def owns_def c(3,4) asset_handled_def Let_def load_jobs_def)
    show ?thesis
      by (rule asset_inv_at[OF inv _ _ _ _ _ _ e])
        (use True p q(2) fresh asset_invD(1)[OF inv] in \<open>auto simp: c(3,4) Let_def\<close>)
  next
    case False
    show ?thesis
      by (rule asset_inv_frame[OF inv])
        (use False p asset_invD(1)[OF inv] in \<open>auto simp: c(4) Let_def\<close>)
  qed
qed

end
