(* ===== verification/AssetRuns.thy ===== *)
theory AssetRuns
  imports AssetInvariants
begin

text \<open>
  Runs of the asset system: the requests of the engine's threads interleaved with the stages of
  the worker's jobs, and what holds in every state of a run.
\<close>

section \<open>Steps\<close>

text \<open>
  A state is the system and the worker's place in the load it is running. The worker may take any
  job of the queue: the queue keeps the order of the jobs of one thread only. Clients unload
  assets that are loaded, ids of new assets are new, and the pools have room for one more object;
  code that the events call is not part of a step.
\<close>

inductive worker_part :: "engine \<Rightarrow> asset_system \<times> work \<Rightarrow> asset_system \<times> work \<Rightarrow> bool" for en where
  compile: "sy_jobs s = xs @ LoadJob m cb # ys \<Longrightarrow> pool_room True (sy_pools s (maid_type m)) \<Longrightarrow>
    compile_begin en (s\<lparr>sy_jobs := xs @ ys\<rparr>) m = Inr (False, s') \<Longrightarrow> worker_part en (s, Idle) (s', Begun m cb)"
| read: "compile_read en s m = Inr (ok, s') \<Longrightarrow> worker_part en (s, Begun m cb) (s', Compiled m cb ok)"
| initialize: "load_initialize en s m compiled = Inr (ok, s') \<Longrightarrow>
    worker_part en (s, Compiled m cb compiled) (s', if ok then Initialized m cb else Idle)"
| finish: "load_done s m = Inr s' \<Longrightarrow> after_load s' m cb = Inr s'' \<Longrightarrow>
    worker_part en (s, Initialized m cb) (s'', Idle)"
| write_file: "sy_jobs s = xs @ WriteJob m cb # ys \<Longrightarrow> run_write en (s\<lparr>sy_jobs := xs @ ys\<rparr>) m cb = Inr s' \<Longrightarrow>
    worker_part en (s, Idle) (s', Idle)"

inductive asset_step :: "engine \<Rightarrow> asset_system \<times> work \<Rightarrow> asset_system \<times> work \<Rightarrow> bool" for en where
  request: "meAssetRequestLoadTemplate cb s ms = Inr (i, s') \<Longrightarrow> asset_step en (s, w) (s', w)"
| request_write: "meAssetRequestWriteTemplate cb s ms = Inr (i, s') \<Longrightarrow> asset_step en (s, w) (s', w)"
| unload: "meAssetTryGetTemplate s m = Some a \<Longrightarrow> as_stage a = Loaded \<Longrightarrow> unload_one s a = Inr (a', s') \<Longrightarrow>
    asset_step en (s, w) (s', w)"
| unload_instance: "\<not> Eye_IsTemplateAsset (as_handle a) \<Longrightarrow> Eye_GetIndex (as_handle a) \<noteq> 0 \<Longrightarrow>
    unat (Eye_GetIndex (as_handle a)) \<in> live_slots False (sy_pools s (maid_type (as_id a))) \<Longrightarrow>
    unload_one s a = Inr (a', s') \<Longrightarrow> asset_step en (s, w) (s', w)"
| create: "sCreateNewAssetID time (meAssetType_value type) = Inr m \<Longrightarrow> meAssetTryGetTemplate s m = None \<Longrightarrow>
    pool_room (is_template rt) (sy_pools s (meAssetType_value type)) \<Longrightarrow>
    meAssetCreateNewAsset en time s type rt name = Inr (a, s') \<Longrightarrow> asset_step en (s, w) (s', w)"
| work: "worker_part en x y \<Longrightarrow> asset_step en x y"

inductive asset_run :: "engine \<Rightarrow> asset_system \<times> work \<Rightarrow> asset_system \<times> work \<Rightarrow> bool" for en where
  none: "asset_run en x x"
| more: "asset_run en x y \<Longrightarrow> asset_step en y z \<Longrightarrow> asset_run en x z"

lemma request_write_inv:
  "meAssetRequestWriteTemplate cb s ms = Inr (i, s') \<Longrightarrow> asset_inv s w \<Longrightarrow> asset_inv s' w"
proof (induction cb s ms rule: meAssetRequestWriteTemplate.induct)
  case (2 cb s m ms)
  have "asset_inv (snd (Execute (WriteJob m cb) (fire (BeginLoading m) s))) w"
    by (rule asset_inv_frame[OF 2(3)]) (use asset_invD(1)[OF 2(3)] in auto)
  with 2 show ?case by (auto simp: require_Inr split: if_split_asm)
qed simp

lemma worker_part_inv:
  assumes "worker_part en x y" and "asset_inv (fst x) (snd x)"
  shows "asset_inv (fst y) (snd y)"
  using assms
proof cases
  case (compile s xs m cb ys s')
  with assms(2) show ?thesis using compile_begin_inv(2)[of s Idle xs m cb ys en False s'] by simp
next
  case (read s m ok s' cb)
  then show ?thesis
    using asset_inv_working[OF compile_read_inv[of en s m ok s' "Begun m cb"], of "Compiled m cb ok"] assms(2)
    by simp
next
  case (write_file s xs m cb ys s')
  then show ?thesis using assms(2) run_write_inv asset_inv_dequeue_write[of s Idle xs m cb ys] by simp
qed (use assms(2) in \<open>auto dest: load_initialize_inv load_done_inv after_load_inv split: if_splits\<close>)

lemma asset_step_inv:
  assumes "asset_step en x y" and "asset_inv (fst x) (snd x)"
  shows "asset_inv (fst y) (snd y)"
  using assms
  by cases (auto dest: request_inv request_write_inv unload_template_inv(1) unload_instance_inv create_inv worker_part_inv)

lemma asset_run_inv: "asset_run en x y \<Longrightarrow> asset_inv (fst x) (snd x) \<Longrightarrow> asset_inv (fst y) (snd y)"
  by (induction rule: asset_run.induct) (auto dest: asset_step_inv)

section \<open>What holds in every state of a run\<close>

text \<open>The system with its loaders registered and nothing requested yet.\<close>

definition asset_system_start ::
    "(u32 \<Rightarrow> nat pool) \<Rightarrow> (u32 \<Rightarrow> loader option) \<Rightarrow> meAssetIndex \<Rightarrow> (u8 list \<rightharpoonup> u8 list) \<Rightarrow> asset_system" where
  "asset_system_start pools loaders index files =
     \<lparr>sy_registries = (\<lambda>_. Map.empty), sy_loaders = loaders, sy_pools = pools, sy_heap = Map.empty, sy_next = 0,
      sy_index = index, sy_files = files, sy_jobs = [], sy_jobid = 0, sy_events = []\<rparr>"

lemma TryGet_start [simp]: "meAssetTryGetTemplate (asset_system_start pools loaders index files) = (\<lambda>_. None)"
  by (simp add: fun_eq_iff meAssetTryGetTemplate_def asset_system_start_def)

lemma asset_inv_start: "\<forall>t. pool_wf (pools t) \<Longrightarrow> asset_inv (asset_system_start pools loaders index files) Idle"
  by (simp add: asset_inv_def entry_ok_def unshared_def load_jobs_def) (simp add: asset_system_start_def)

end
