(* ===== verification/AssetLoads.thy ===== *)
theory AssetLoads
  imports AssetRuns
begin

text \<open>
  What one load job does: it ends with the asset loaded or rolled back, a request for several
  assets reaches the first one only, and an asset cannot be loaded before its parent.
\<close>

section \<open>The outcome of a load job\<close>

lemma run_load_parts:
  assumes "run_load en s m cb = Inr s'" and "compile_begin en s m = Inr (False, s1)"
  obtains ok1 s2 ok2 s3 s4 where "compile_read en s1 m = Inr (ok1, s2)" and "load_initialize en s2 m ok1 = Inr (ok2, s3)"
    and "(if ok2 then load_done s3 m else Inr s3) = Inr s4" and "after_load s4 m cb = Inr s'"
  using assms(1) that unfolding run_load_def ME_ASSERT_Inr assms(2)
  by (elim conjE bindR_InrE) (auto elim!: bindR_InrE)

text \<open>Which events a part of a load adds: requests announce the loads they start.\<close>

definition quiet :: "asset_system \<Rightarrow> asset_system \<Rightarrow> bool" where
  "quiet s s' \<longleftrightarrow> (\<exists>ms. sy_events s' = sy_events s @ map BeginLoading ms)"

lemma quiet_same: "sy_events s' = sy_events s \<Longrightarrow> quiet s s'"
  unfolding quiet_def by (rule exI[of _ "[]"]) simp

lemma quiet_trans: "quiet s s' \<Longrightarrow> quiet s' s'' \<Longrightarrow> quiet s s''"
  unfolding quiet_def by (metis append_assoc map_append)

lemma request_quiet: "meAssetRequestLoadTemplate None s ms = Inr (i, s') \<Longrightarrow> quiet s s'"
proof (induction "None :: nat option" s ms rule: meAssetRequestLoadTemplate.induct)
  case (2 s m ms)
  then show ?case
    by (auto simp: ME_ASSERT_Inr meAssetRequestLoadTemplate.simps call_back_def Execute_def quiet_same
        split: if_split_asm) (auto simp: quiet_def intro: exI[of _ "[m]"])
qed (simp add: meAssetRequestLoadTemplate.simps quiet_same)

lemma load_file_quiet: "load_file en s m loader content = Inr (ok, s') \<Longrightarrow> quiet s s'"
  by (auto simp: load_file_def Let_def quiet_same elim!: bindR_InrE
      split: option.split_asm prod.split_asm if_split_asm)
    (drule request_quiet, simp add: quiet_def)+

lemma compile_read_quiet: "compile_read en s m = Inr (ok, s') \<Longrightarrow> quiet s s'"
  by (auto simp: compile_read_def Let_def ME_ASSERT_Inr elim!: bindR_InrE split: prod.split_asm if_split_asm)
    (drule load_file_quiet, simp add: quiet_def)+

lemma load_failure_result:
  assumes "load_failure s m a = Inr s'" and "MAID_bool m"
  shows "meAssetTryGetTemplate s' m = Some (a\<lparr>as_content := None, as_handle := EYE_INVALID, as_stage := Unloaded\<rparr>)"
    and "sy_events s' = sy_events s" and "sy_jobs s' = sy_jobs s"
  using assms by (auto simp: load_failure_def Let_def split: if_split_asm elim!: bindR_InrE)

lemma load_initialize_result:
  assumes "load_initialize en s m compiled = Inr (ok, s')" and "MAID_bool m"
  shows "quiet s s'" and "\<not> ok \<Longrightarrow> \<exists>a. meAssetTryGetTemplate s' m = Some a \<and> as_stage a = Unloaded \<and> owns_nothing a"
proof -
  have fail: "sy_events s' = sy_events t \<and>
      (\<exists>a. meAssetTryGetTemplate s' m = Some a \<and> as_stage a = Unloaded \<and> as_content a = None \<and> as_handle a = EYE_INVALID)"
    if "load_failure t m x = Inr s'" for t x
    using load_failure_result[OF that assms(2)] by simp
  show "quiet s s'"
    using assms(1)
    by (auto simp: load_initialize_def Let_def elim!: bindR_InrE split: prod.split_asm if_split_asm intro!: quiet_same)
      (drule fail, simp)+
  show "\<not> ok \<Longrightarrow> \<exists>a. meAssetTryGetTemplate s' m = Some a \<and> as_stage a = Unloaded \<and> owns_nothing a"
    using assms(1)
    by (auto simp: load_initialize_def Let_def owns_nothing_def elim!: bindR_InrE split: prod.split_asm if_split_asm)
      (drule fail, simp)+
qed

lemma load_done_result:
  assumes "load_done s m = Inr s'" and "MAID_bool m"
  shows "quiet s s'" and "\<exists>a. meAssetTryGetTemplate s' m = Some a \<and> as_stage a = Loaded"
  using assms by (auto simp: load_done_def deref_Inr quiet_def elim!: bindR_InrE dest!: request_quiet)

text \<open>A load that cannot read its file.\<close>

lemma load_failure_ok:
  assumes inv: "asset_inv s w" and m: "working w m" "meAssetTryGetTemplate s m = Some a"
  shows "\<exists>s'. load_failure s m a = Inr s'"
proof -
  from working_entry[OF inv m(1)] m(2) obtain c where "holds_slot (sy_pools s (maid_type m)) (as_handle a) c"
    by (auto simp: owns_def)
  from pool_destroy[OF asset_invD(1)[OF inv] this] show ?thesis
    by (auto simp: load_failure_def Let_def)
qed

lemma unread_load:
  assumes inv: "asset_inv s Idle" and job: "sy_jobs s = xs @ LoadJob m cb # ys" and room: "pool_room True (sy_pools s (maid_type m))"
    and start: "compile_begin en (s\<lparr>sy_jobs := xs @ ys\<rparr>) m = Inr (False, s1)" and read: "compile_read en s1 m = Inr (False, s2)"
  obtains s' where "run_load en (s\<lparr>sy_jobs := xs @ ys\<rparr>) m cb = Inr s'" "stage_of s' m = Unloaded"
    "sy_events s' = sy_events s2" "sy_jobs s' = sy_jobs s2"
    "\<And>m'. m' \<noteq> m \<Longrightarrow> stage_of s' m' = stage_of s2 m'"
proof -
  obtain a0 where a0: "meAssetTryGetTemplate s m = Some a0" using queued_entry[OF inv job] by metis
  have valid: "MAID_bool m" by (rule TryGet_valid[OF a0])
  have w: "working (Compiled m cb False) m" by simp
  have inv2: "asset_inv s2 (Compiled m cb False)"
    by (rule asset_inv_working[OF compile_read_inv[OF read compile_begin_inv(2)[OF inv job _ room start]]]) simp_all
  from working_entry[OF inv2 w] obtain a where a: "meAssetTryGetTemplate s2 m = Some a" "as_id a = m" by blast
  from load_failure_ok[OF inv2 w a(1)] obtain s' where s': "load_failure s2 m a = Inr s'" ..
  note f = load_failure_result[OF s' valid]
  have "after_load s' m cb = Inr s'" using f(1) a(2) valid by (simp add: after_load_def isLoaded_def)
  then have "run_load en (s\<lparr>sy_jobs := xs @ ys\<rparr>) m cb = Inr s'"
    using a0 by (simp add: run_load_def start read load_initialize_def a s')
  moreover have "stage_of s' m' = stage_of s2 m'" if "m' \<noteq> m" for m'
    using s' that valid by (auto simp: load_failure_def Let_def stage_of_def split: if_split_asm elim!: bindR_InrE)
  ultimately show thesis using that f by (simp add: stage_of_def)
qed

section \<open>Loading below a parent\<close>

text \<open>The system after the request for an unloaded asset.\<close>

definition waiting_asset :: "asset_system \<Rightarrow> MAID \<Rightarrow> nat option \<Rightarrow> asset_system" where
  "waiting_asset s m cb = snd (Execute (LoadJob m cb) (fire (BeginLoading m) (put_asset m (asset_staged m Loading) s)))"

lemma parent_wantedD:
  assumes "parent_wanted en a td source = Inr (Some p)"
  obtains h where "TryReadSerializedHeaderField (en_io en) a (en_fuel en) meSerializationMode_Text source = Inr (True, h)"
    and "ValidateSerializedHeader h td = None" and "hd_parentAsset h = p" and "MAID_bool p"
    and "maid_type p = maid_type (hd_assetHeader h)"
  using assms by (auto simp: parent_wanted_def elim!: bindR_InrE split: if_split_asm intro: that)

lemma DeserializeBlocking_parent_missing:
  assumes "parent_wanted en (case ext of Some a \<Rightarrow> a | None \<Rightarrow> 0) td source = Inr (Some p)" and "parents p = None"
  shows "DeserializeBlocking (en_io en) parents ext (en_fuel en) meSerializationMode_Text td source v =
    Inr (load_failed SER_FAILURE v)"
proof -
  obtain h where "TryReadSerializedHeaderField (en_io en) (case ext of Some a \<Rightarrow> a | None \<Rightarrow> 0) (en_fuel en)
      meSerializationMode_Text source = Inr (True, h)" "ValidateSerializedHeader h td = None" "hd_parentAsset h = p" "MAID_bool p"
    "maid_type p = maid_type (hd_assetHeader h)" by (rule parent_wantedD[OF assms(1)])
  then show ?thesis using assms(2) by (simp add: DeserializeBlocking_def DeepCopyParentAssetIfNeeded_def Let_def)
qed

lemma request_unloaded:
  assumes "MAID_bool m" "sy_loaders s (maid_type m) \<noteq> None" "stage_of s m = Unloaded"
  shows "meAssetRequestLoadTemplate cb s [m] = Inr (sy_jobid s, waiting_asset s m cb)"
  using assms by (simp add: meAssetRequestLoadTemplate.simps waiting_asset_def Execute_def) (auto simp: fire_def put_asset_def)

lemma load_file_parent_missing:
  assumes lo: "sy_loaders s (maid_type m) = Some lo" and heap: "sy_heap s c = Some v"
    and path: "meAssetGetAbsPathForResource (en_resdir en) (meAssetIndexGetFilesystemPath m (sy_index s)) = Inr (disk, path)"
    and source: "sy_files s (sv_str path) = Some source" and wanted: "\<forall>a. parent_wanted en a (lo_desc lo) source = Inr (Some p)"
    and p: "sy_loaders s (maid_type p) \<noteq> None" "stage_of s p = Unloaded"
  obtains s' where "load_file en s m lo c = Inr (False, s')" and "stage_of s' = (stage_of s)(p := Loading)"
    and "sy_jobs s' = sy_jobs s @ [LoadJob p None]" and "sy_events s' = sy_events s @ [BeginLoading p]"
proof -
  let ?s = "if assetToPathMap (sy_index s) m = None then s
    else s\<lparr>sy_index := (sy_index s)\<lparr>assetToPathMap := (assetToPathMap (sy_index s))(m \<mapsto> sv_str disk)\<rparr>\<rparr>"
  have valid: "MAID_bool p" using parent_wantedD[OF spec[OF wanted, of 0]] by metis
  have same: "stage_of ?s = stage_of s" "sy_loaders ?s = sy_loaders s" "sy_files ?s = sy_files s" "sy_heap ?s = sy_heap s"
    "sy_jobs ?s = sy_jobs s" "sy_events ?s = sy_events s"
    by (simp_all add: fun_eq_iff stage_of_def)
  let ?w = "waiting_asset ?s p None"
  have req: "meAssetRequestLoadTemplate None ?s [p] = Inr (sy_jobid ?s, ?w)"
    by (rule request_unloaded[OF valid]) (use p same in auto)
  have w: "stage_of ?w = (stage_of s)(p := Loading)" "sy_heap ?w = sy_heap s"
    "sy_jobs ?w = sy_jobs s @ [LoadJob p None]" "sy_events ?w = sy_events s @ [BeginLoading p]"
    using valid same by (auto simp: fun_eq_iff waiting_asset_def stage_of_def asset_staged_def Execute_def)
  have none: "parent_data ?w (lo_desc lo) p = None"
    using fun_cong[OF w(1), of p] by (auto simp: parent_data_def stage_of_def split: option.splits)
  have d: "DeserializeBlocking (en_io en) (parent_data ?w (lo_desc lo)) ext (en_fuel en) meSerializationMode_Text (lo_desc lo) source v =
      Inr (load_failed SER_FAILURE v)" for ext
    by (rule DeserializeBlocking_parent_missing) (use wanted none in simp_all)
  have "load_file en s m lo c = Inr (False, put_content c v ?w)"
    unfolding load_file_def path bindR_simps prod.case Let_def same(3) source option.case wanted[rule_format] req w(2) heap deref_simps d
    by (simp add: load_failed_def)
  then show thesis by (rule that) (use w in \<open>auto simp: fun_eq_iff stage_of_def\<close>)
qed

text \<open>A small engine: nothing on disk, one loader for assets of type 5.\<close>

definition small_engine :: "json \<Rightarrow> engine" where
  "small_engine j = \<lparr>en_io = one_document j, en_resdir = STRING_LIT [68], en_fuel = 8,
     en_prepare = (\<lambda>_ v. (True, v)), en_initialize = (\<lambda>_ v. (True, v)), en_writable = (\<lambda>_. True)\<rparr>"

definition note_loader :: loader where
  "note_loader = \<lparr>lo_desc = note_type, lo_blank = note_blank\<rparr>"

lemma note_loader_simps [simp]: "lo_desc note_loader = note_type" "lo_blank note_loader = note_blank"
  by (simp_all add: note_loader_def)

definition note_system :: "nat pool \<Rightarrow> meAssetIndex \<Rightarrow> (u8 list \<rightharpoonup> u8 list) \<Rightarrow> asset_system" where
  "note_system p index files = asset_system_start (\<lambda>_. p) (\<lambda>t. if t = 5 then Some note_loader else None) index files"

definition note_id :: MAID where
  "note_id = \<lparr>maid_id = 1, maid_type = 5\<rparr>"

lemma note_id_valid [simp]: "MAID_bool note_id" "maid_type note_id = 5"
  by (code_simp, simp add: note_id_def)

lemma new_pool_load:
  assumes "meResourcePool x (Some 0) (Some 0) = Inr p"
  shows "pool_wf p" and "pool_room t p"
    and "\<exists>h p'. RP_Load c p meResourceType_TemplateAsset = Inr (h, p') \<and> RP_GetShared p' h = Inr (Some c)"
proof -
  from pool_new_wf[of x 0 0] assms have p: "pool_wf p" "\<And>t. length (blocks (assoc_pool t p)) = 1"
    "\<And>t k. slot_generation (slots t p k) = 0"
    by (auto simp: slot_default_generation)
  show "pool_wf p" by (rule p(1))
  show room: "pool_room t p" for t by (simp add: pool_room_def p(2))
  from RP_Create_ok[OF p(1) room, of meResourceType_TemplateAsset c] obtain k p' where
    q: "RP_Create c p meResourceType_TemplateAsset = Inr (Eye_make (of_nat k) (ucast (0 :: u16)) True, p')" "pool_wf p'"
      "k < 8388608" "k \<in> live_slots True p'" "slots True p' k = \<lparr>slot_obj = Some c, slot_generation = 0, slot_inUse = False\<rparr>"
    by (auto simp: Let_def p(3) is_template_def)
  let ?h = "Eye_make (of_nat k) (ucast (0 :: u16)) True"
  have h: "unat (Eye_GetIndex ?h) = k" "Eye_IsTemplateAsset ?h" "Eye_GetGeneration ?h = 0"
    using q(3) by (simp_all only: Eye_GetIndex_of_nat Eye_IsTemplateAsset_make Eye_GetGeneration_make) simp
  have "RP_GetShared p' ?h = Inr (Some c)"
    using RP_GetShared_live[OF q(2), of ?h] q(4,5) h by (simp add: Let_def)
  then show "\<exists>h p'. RP_Load c p meResourceType_TemplateAsset = Inr (h, p') \<and> RP_GetShared p' h = Inr (Some c)"
    using q(1) by (auto simp: RP_Load_def)
qed

lemma note_waiting:
  assumes "meResourcePool x (Some 0) (Some 0) = Inr p"
    and s_def: "s = waiting_asset (note_system p index files) note_id cb"
  shows "asset_inv s Idle" and "sy_jobs s = [] @ LoadJob note_id cb # []" and "pool_room True (sy_pools s (maid_type note_id))"
    and "\<exists>h p'. compile_begin en (s\<lparr>sy_jobs := []\<rparr>) note_id = Inr (False, put_asset note_id
      \<lparr>as_id = note_id, as_handle = h, as_stage = Compiling, as_content = Some 0\<rparr>
      (put_pool 5 p' (put_content 0 note_blank (s\<lparr>sy_jobs := [], sy_next := 1\<rparr>))))"
proof -
  note P = new_pool_load[OF assms(1)]
  have inv: "asset_inv (note_system p index files) Idle" unfolding note_system_def by (rule asset_inv_start) (simp add: P(1))
  show "asset_inv s Idle"
    unfolding s_def waiting_asset_def by (rule request_one[OF inv]) (simp_all add: stage_of_def note_system_def)
  show "sy_jobs s = [] @ LoadJob note_id cb # []" "pool_room True (sy_pools s (maid_type note_id))"
    using P(2) by (simp_all add: s_def waiting_asset_def Execute_def note_system_def asset_system_start_def fire_def put_asset_def)
  have t: "meAssetTryGetTemplate (s\<lparr>sy_jobs := []\<rparr>) note_id = Some (asset_staged note_id Loading)"
    by (simp add: s_def waiting_asset_def)
  from P(3)[of 0] obtain h p' where "RP_Load 0 p meResourceType_TemplateAsset = Inr (h, p')" "RP_GetShared p' h = Inr (Some 0)" by blast
  then show "\<exists>h p'. compile_begin en (s\<lparr>sy_jobs := []\<rparr>) note_id = Inr (False, put_asset note_id
      \<lparr>as_id = note_id, as_handle = h, as_stage = Compiling, as_content = Some 0\<rparr>
      (put_pool 5 p' (put_content 0 note_blank (s\<lparr>sy_jobs := [], sy_next := 1\<rparr>))))"
    using compile_begin_unowned[OF t, of en]
    by (auto simp: asset_staged_def owns_nothing_def s_def waiting_asset_def Execute_def note_system_def
        asset_system_start_def fire_def put_asset_def[of _ _ "_\<lparr>sy_registries := _\<rparr>"])
qed

lemma note_missing:
  assumes p: "meResourcePool x (Some 0) (Some 0) = Inr p"
  defines "s \<equiv> waiting_asset (note_system p index_empty Map.empty) note_id (Some 3)"
  shows "\<exists>s'. run_load (small_engine JNull) (s\<lparr>sy_jobs := []\<rparr>) note_id (Some 3) = Inr s' \<and> stage_of s' note_id = Unloaded"
proof -
  note W = note_waiting[OF p refl, where index = index_empty and files = Map.empty and cb = "Some 3", folded s_def]
  from W(4)[of "small_engine JNull"] obtain h p' where
    s1: "compile_begin (small_engine JNull) (s\<lparr>sy_jobs := [] @ []\<rparr>) note_id = Inr (False, put_asset note_id
      \<lparr>as_id = note_id, as_handle = h, as_stage = Compiling, as_content = Some 0\<rparr>
      (put_pool 5 p' (put_content 0 note_blank (s\<lparr>sy_jobs := [], sy_next := 1\<rparr>))))" (is "_ = Inr (False, ?s1)") by auto
  have files: "sy_files ?s1 = Map.empty" "sy_index ?s1 = index_empty" "sy_loaders ?s1 5 = Some note_loader"
    by (simp_all add: s_def waiting_asset_def Execute_def note_system_def asset_system_start_def fire_def)
  have "meAssetGetAbsPathForResource (STRING_LIT [68]) StringView_default = Inr (StringView_default, StringView_default)"
    by code_simp
  then have "compile_read (small_engine JNull) ?s1 note_id = Inr (False, ?s1)"
    using files by (simp add: compile_read_def load_file_def meAssetIndexGetFilesystemPath_def index_empty_def small_engine_def)
  from unread_load[OF W(1-3) s1 this] show ?thesis by (metis append_Nil)
qed

section \<open>Properties\<close>

text \<open>
  C1. In every state of every run of the asset system - requests, writes, unloads and creations
  interleaved with the stages of the worker's loads, the jobs taken in any order - each loaded
  asset has a working handle: the pool's lookup yields the object the registry refers to, and the
  object exists. An asset that is loading without the worker being at it has exactly one job in
  the queue, no asset has two, and two assets never share an object.
\<close>

theorem asset_run_invariant:
  assumes "\<forall>t. pool_wf (pools t)"
    and "asset_run en (asset_system_start pools loaders index files, Idle) (s, w)"
  shows "(\<forall>m a. meAssetTryGetTemplate s m = Some a \<and> as_stage a = Loaded \<longrightarrow>
      isLoaded a \<and> (\<exists>c v. as_content a = Some c \<and> sy_heap s c = Some v \<and>
        RP_GetShared (sy_pools s (maid_type m)) (as_handle a) = Inr (Some c))) \<and>
    (\<forall>m. load_jobs s m \<le> 1) \<and>
    (\<forall>m. load_jobs s m = 1 \<longleftrightarrow> stage_of s m = Loading \<and> \<not> working w m) \<and>
    (\<forall>m m' a a' c. meAssetTryGetTemplate s m = Some a \<and> meAssetTryGetTemplate s m' = Some a' \<and>
      as_content a = Some c \<and> as_content a' = Some c \<longrightarrow> m = m')"
proof -
  have inv: "asset_inv s w" using asset_run_inv[OF assms(2)] asset_inv_start[OF assms(1)] by simp
  note entry = asset_invD(2)[OF inv]
  have "isLoaded a \<and> (\<exists>c v. as_content a = Some c \<and> sy_heap s c = Some v \<and>
      RP_GetShared (sy_pools s (maid_type m)) (as_handle a) = Inr (Some c))"
    if a: "meAssetTryGetTemplate s m = Some a" "as_stage a = Loaded" for m a
  proof -
    obtain c where c: "as_content a = Some c" "holds_slot (sy_pools s (maid_type m)) (as_handle a) c" "sy_heap s c \<noteq> None"
      by (rule loaded_entry[OF inv a])
    with RP_GetShared_holds[OF asset_invD(1)[OF inv] c(2)] holds_slot_valid[OF c(2)] a(2)
    show ?thesis by (auto simp: isLoaded_def)
  qed
  moreover have "load_jobs s m \<le> 1" "load_jobs s m = 1 \<longleftrightarrow> stage_of s m = Loading \<and> \<not> working w m" for m
    using entry[of m] by (auto simp: entry_ok_def stage_of_def split: option.splits meAssetLoadStage.splits if_splits)
  ultimately show ?thesis using unsharedD[OF asset_invD(3)[OF inv]] by blast
qed

theorem asset_run_invariant_witness:
  "\<exists>p s. asset_run (small_engine JNull) (note_system p index_empty Map.empty, Idle) (s, Begun note_id (Some 3)) \<and>
     stage_of s note_id = Compiling \<and> load_jobs s note_id \<le> 1"
proof -
  from pool_new_wf[of 7 0 0] obtain p where p: "meResourcePool (7 :: nat) (Some 0) (Some 0) = Inr p" by blast
  let ?start = "note_system p index_empty Map.empty"
  let ?s = "waiting_asset ?start note_id (Some 3)"
  note W = note_waiting[OF p refl, where index = index_empty and files = Map.empty and cb = "Some 3"]
  from W(4)[of "small_engine JNull"] obtain s1 where
    s1: "compile_begin (small_engine JNull) (?s\<lparr>sy_jobs := [] @ []\<rparr>) note_id = Inr (False, s1)" "stage_of s1 note_id = Compiling"
    by (auto simp: stage_of_def)
  have "sy_loaders ?start (maid_type note_id) \<noteq> None" "sy_jobid ?start = 0" "stage_of ?start note_id = Unloaded"
    by (simp_all add: note_system_def stage_of_def) (simp_all add: asset_system_start_def)
  then have req: "meAssetRequestLoadTemplate (Some 3) ?start [note_id] = Inr (0, ?s)"
    by (simp add: meAssetRequestLoadTemplate.simps waiting_asset_def Execute_def) (auto simp: fire_def put_asset_def)
  have run: "asset_run (small_engine JNull) (?start, Idle) (s1, Begun note_id (Some 3))"
    by (rule asset_run.more[OF asset_run.more[OF asset_run.none asset_step.request[OF req]]
          asset_step.work[OF worker_part.compile[OF W(2,3) s1(1)]]])
  from asset_run_invariant[OF _ run[unfolded note_system_def]] new_pool_load(1)[OF p] have "load_jobs s1 note_id \<le> 1" by simp
  with run s1(2) show ?thesis by blast
qed

text \<open>The parts of a load job, with the invariant and the events as they are before the last one.\<close>

lemma run_load_traced:
  assumes "asset_inv s Idle" and "sy_jobs s = xs @ LoadJob m cb # ys" and "pool_room True (sy_pools s (maid_type m))"
    and "run_load en (s\<lparr>sy_jobs := xs @ ys\<rparr>) m cb = Inr s'"
  obtains ok1 s2 ok2 s3 s4 ms where "MAID_bool m" "load_initialize en s2 m ok1 = Inr (ok2, s3)"
    "(if ok2 then load_done s3 m else Inr s3) = Inr s4" "after_load s4 m cb = Inr s'" "asset_inv s4 Idle"
    "sy_events s4 = sy_events s @ map BeginLoading ms"
proof -
  let ?s = "s\<lparr>sy_jobs := xs @ ys\<rparr>"
  from assms(4) obtain already s1 where s1: "compile_begin en ?s m = Inr (already, s1)"
    by (auto simp: run_load_def ME_ASSERT_Inr elim!: bindR_InrE)
  from queued_entry[OF assms(1,2)] obtain a0 where a0: "meAssetTryGetTemplate s m = Some a0" "as_id a0 = m" "owns_nothing a0"
    by metis
  have valid: "MAID_bool m" by (rule TryGet_valid[OF a0(1)])
  note b = compile_begin_inv[OF assms(1,2) _ assms(3) s1, simplified]
  have inv1: "asset_inv s1 (Begun m cb)" using b(2) by (cases cb) simp_all
  have q1: "quiet s s1"
    using s1 compile_begin_unowned[of ?s m a0 en] a0 by (auto simp: quiet_same elim!: bindR_InrE)
  from s1 b(1) have "compile_begin en ?s m = Inr (False, s1)" by simp
  from run_load_parts[OF assms(4) this] obtain ok1 s2 ok2 s3 s4 where
    r: "compile_read en s1 m = Inr (ok1, s2)" "load_initialize en s2 m ok1 = Inr (ok2, s3)"
      "(if ok2 then load_done s3 m else Inr s3) = Inr s4" "after_load s4 m cb = Inr s'" by blast
  have inv2: "asset_inv s2 (Compiled m cb ok1)"
    by (rule asset_inv_working[OF compile_read_inv[OF r(1) inv1]]) simp
  note inv3 = load_initialize_inv[OF inv2 r(2)]
  have inv4: "asset_inv s4 Idle" using r(3) inv3 load_done_inv[of s3 m cb s4] by (cases ok2) simp_all
  note quiet = compile_read_quiet[OF r(1)] load_initialize_result(1)[OF r(2) valid]
  have "quiet s s4"
    using r(3) load_done_result(1)[OF _ valid, of s3 s4] q1 quiet by (cases ok2) (auto intro: quiet_trans)
  then obtain ms where "sy_events s4 = sy_events s @ map BeginLoading ms" by (auto simp: quiet_def)
  with that valid r(2-4) inv4 show thesis by blast
qed

lemma run_load_inv:
  assumes "asset_inv s Idle" and "sy_jobs s = xs @ LoadJob m cb # ys" and "pool_room True (sy_pools s (maid_type m))"
    and "run_load en (s\<lparr>sy_jobs := xs @ ys\<rparr>) m cb = Inr s'"
  shows "asset_inv s' Idle"
  by (rule run_load_traced[OF assms]) (rule after_load_inv)



text \<open>
  C14. A request for several assets starts the load of the first one that is not loaded and
  returns: whatever follows it in the list is not requested. Loading an asset asks for all its
  dependencies in one request, so at most one of them is loaded ahead.
\<close>

theorem request_reaches_first_only:
  assumes "\<forall>m'\<in>set pre. MAID_bool m' \<and> sy_loaders s (maid_type m') \<noteq> None \<and> stage_of s m' \<noteq> Unloaded"
    and "MAID_bool m" and "sy_loaders s (maid_type m) \<noteq> None" and "stage_of s m = Unloaded"
  shows "\<exists>s'. meAssetRequestLoadTemplate cb s (pre @ m # rest) = Inr (sy_jobid s, s') \<and>
    sy_jobs s' = sy_jobs s @ [LoadJob m cb] \<and> stage_of s' m = Loading \<and>
    (\<forall>m'. m' \<noteq> m \<longrightarrow> meAssetTryGetTemplate s' m' = meAssetTryGetTemplate s m')"
  using assms
proof (induction pre arbitrary: s)
  case Nil
  then show ?case
    by (simp add: meAssetRequestLoadTemplate.simps Execute_def stage_of_def asset_staged_def) (simp add: fire_def put_asset_def)
next
  case (Cons m1 pre)
  let ?s = "if stage_of s m1 = Loaded then call_back cb m1 s else s"
  have "stage_of (call_back cb m1 s) = stage_of s" by (simp add: fun_eq_iff stage_of_def)
  moreover have "sy_jobid (call_back cb m1 s) = sy_jobid s" by (simp add: call_back_def fire_def split: option.split)
  ultimately have "stage_of ?s = stage_of s" "sy_jobid ?s = sy_jobid s" by simp_all
  with Cons.IH[of ?s] Cons.prems show ?case
    by (cases "stage_of s m1 = Loaded") (simp_all add: meAssetRequestLoadTemplate.simps)
qed

theorem request_reaches_first_only_witness:
  "\<exists>p s'. meResourcePool (7 :: nat) (Some 0) (Some 0) = Inr p \<and> meAssetRequestLoadTemplate None (note_system p index_empty Map.empty) [note_id, note_id\<lparr>maid_id := 2\<rparr>] = Inr (0, s') \<and>
     sy_jobs s' = [LoadJob note_id None] \<and> stage_of s' (note_id\<lparr>maid_id := 2\<rparr>) = Unloaded"
proof -
  from pool_new_wf[of 7 0 0] obtain p where p: "meResourcePool (7 :: nat) (Some 0) (Some 0) = Inr p" by blast
  let ?s = "note_system p index_empty Map.empty"
  have "sy_loaders ?s (maid_type note_id) \<noteq> None" "stage_of ?s note_id = Unloaded" "sy_jobid ?s = 0" "sy_jobs ?s = []"
    "meAssetTryGetTemplate ?s = (\<lambda>_. None)" and ne: "note_id\<lparr>maid_id := 2\<rparr> \<noteq> note_id"
    by (simp_all add: note_system_def stage_of_def note_id_def) (simp_all add: asset_system_start_def)
  with p request_reaches_first_only[of "[]" ?s note_id None "[note_id\<lparr>maid_id := 2\<rparr>]"] show ?thesis
    by - (rule exI[of _ p], auto simp: stage_of_def)
qed


text \<open>A note stored in the file \<open>D/p\<close>, with another note as its parent.\<close>

definition child_header :: meSerializedHeader where
  "child_header = saved_header 8 note_type
     (header_default\<lparr>hd_assetHeader := note_id, hd_parentAsset := note_id\<lparr>maid_id := 2\<rparr>\<rparr>) note_values"

definition child_json :: json where
  "child_json = json_val no_casts 8 note_type None (asset_val child_header note_values)"

definition note_index :: meAssetIndex where
  "note_index = index_empty\<lparr>assetToPathMap := [note_id \<mapsto> [112]], pathToAssetsMap := [[112] \<mapsto> note_id]\<rparr>"

lemma note_path:
  "meAssetGetAbsPathForResource (STRING_LIT [68]) (meAssetIndexGetFilesystemPath note_id note_index) =
     Inr (STRING_LIT [112], STRING_LIT [68, 47, 112])"
proof -
  have "meAssetGetAbsPathForResource (STRING_LIT [68]) (STRING_LIT [112]) = Inr (STRING_LIT [112], STRING_LIT [68, 47, 112])"
    by code_simp
  then show ?thesis by (simp add: meAssetIndexGetFilesystemPath_def note_index_def)
qed

lemma no_casts_exact: "casts_exact no_casts"
proof -
  have "ucast (ucast x :: u64) = x" for x :: u32 by (rule bit_word_eqI) (simp add: bit_ucast_iff)
  then show ?thesis by (simp add: casts_exact_def no_casts_def)
qed

lemma child_parent_wanted:
  "parent_wanted (small_engine child_json) a note_type [1] = Inr (Some (note_id\<lparr>maid_id := 2\<rparr>))"
proof -
  have ok: "asset_type note_type" "text_ok 8 note_type None" "length (header_deps child_header) < 4294967296"
    "MAID_bool (note_id\<lparr>maid_id := 2\<rparr>)"
    by code_simp+
  have p: "hd_parentAsset child_header = note_id\<lparr>maid_id := 2\<rparr>" "hd_assetHeader child_header = note_id"
    "ValidateSerializedHeader child_header note_type = None"
    by (simp_all add: child_header_def saved_header_fields)
  from asset_document(1)[OF ok(1) _ ok(2), of no_casts child_header note_values] obtain kvs where
    kvs: "child_json = JObject kvs" "map_of kvs ME_ASSET_HEADER_FIELDNAME = Some (header_json no_casts child_header)"
    by (auto simp: child_json_def)
  have io: "io_casts (one_document child_json) = no_casts" "io_parse (one_document child_json) [1] = Some (JObject kvs)"
    by (simp_all add: one_document_def kvs(1))
  have "TryReadSerializedHeaderField (one_document child_json) a 8 meSerializationMode_Text [1] =
      Inr (True, child_header\<lparr>hd_dependencies := Some (header_deps child_header)\<rparr>)"
    by (rule TryReadSerializedHeaderField_text) (use ok(3) kvs(2) io no_casts_exact in simp_all)
  then show ?thesis
    using p ok(4) by (simp add: parent_wanted_def small_engine_def ValidateSerializedHeader_deps)
qed


end
