(* ===== verification/AssetReload.thy ===== *)
theory AssetReload
  imports AssetLoads
begin

text \<open>
  The way of an asset through its file: what the job that writes a loaded asset stores is what a
  later load job puts into the asset's new object, in this run of the engine or in another.
\<close>

section \<open>The parts of a load that succeeds\<close>

lemma restored_asset:
  assumes "asset_type td" and "8 \<le> n"
  shows "\<exists>vs'. restored n td None (asset_val h0 us) (asset_val h vs) =
    asset_val (h\<lparr>hd_dependencies := Some (header_deps h)\<rparr>) vs'"
proof -
  obtain hf fds where t: "td_fields td = hf # fds" "visited hf"
    "shape_of hf (Some td) = ShAlias TD_MESERIALIZEDHEADER" "shape_of td None = ShStruct (hf # fds)"
    using asset_typeD[OF assms(1)] by blast
  obtain m where n: "n = Suc (Suc m)" and m: "6 \<le> m"
    using assms(2) by (cases n; cases "n - 1") auto
  show ?thesis by (simp add: n t header_typed[OF m])
qed

lemma header_id_asset [simp]: "header_id (asset_val h vs) = Inr (hd_assetHeader h)"
  by (simp add: header_id_def)

lemma request_valid:
  assumes "\<forall>d\<in>set ms. MAID_bool d"
  shows "\<exists>i s'. meAssetRequestLoadTemplate None s ms = Inr (i, s') \<and> sy_heap s' = sy_heap s \<and>
    (\<forall>m. stage_of s m \<noteq> Unloaded \<longrightarrow> meAssetTryGetTemplate s' m = meAssetTryGetTemplate s m)"
  using assms
  by (induction ms) (auto simp: meAssetRequestLoadTemplate.simps Execute_def call_back_def stage_of_def)

lemma load_done_ok:
  assumes "\<forall>d\<in>set (meAssetIndexGetDependencies m (sy_index s)). MAID_bool d" and "meAssetTryGetTemplate s m = Some a"
    and "as_stage a \<noteq> Unloaded"
  shows "\<exists>s'. load_done s m = Inr s' \<and> meAssetTryGetTemplate s' m = Some (a\<lparr>as_stage := Loaded\<rparr>) \<and> sy_heap s' = sy_heap s"
proof -
  have "stage_of s m \<noteq> Unloaded" using assms(2,3) by (simp add: stage_of_def)
  with request_valid[OF assms(1), of s] assms(2) TryGet_valid[OF assms(2)] show ?thesis
    by (auto simp: load_done_def)
qed

lemma load_initialize_ok:
  assumes "meAssetTryGetTemplate s m = Some a" and "as_content a = Some c" and "sy_heap s c = Some v"
    and "en_initialize en (maid_type m) v = (True, v)"
  shows "load_initialize en s m True = Inr (True, put_asset m (a\<lparr>as_stage := Loading\<rparr>) (put_content c v s))"
  using assms by (simp add: load_initialize_def)

lemma load_file_ok:
  assumes "sy_loaders s (maid_type m) = Some lo" and "sy_heap s c = Some u"
    and "assetToPathMap (sy_index s) m = Some name"
    and "meAssetGetAbsPathForResource (en_resdir en) (STRING_LIT name) = Inr (STRING_LIT name, path)"
    and "sy_files s (sv_str path) = Some data" and "resourcePayloadAllocator (sy_pools s (maid_type m)) = Some al"
    and "parent_wanted en al (lo_desc lo) data = Inr None"
    and "DeserializeBlocking (en_io en) (parent_data s (lo_desc lo)) (Some al) (en_fuel en) meSerializationMode_Text (lo_desc lo) data u =
      Inr \<lparr>ld_result = SER_SUCCESS, ld_uid = uid, ld_value = v, ld_recorded = ids\<rparr>"
  shows "load_file en s m lo c = Inr (True, put_content c v
    (s\<lparr>sy_index := fold (meAssetIndexRecordDependency m) ids (sy_index s)\<rparr>))"
proof -
  have "(assetToPathMap (sy_index s))(m \<mapsto> name) = assetToPathMap (sy_index s)" using assms(3) by auto
  then have "s\<lparr>sy_index := (sy_index s)\<lparr>assetToPathMap := (assetToPathMap (sy_index s))(m \<mapsto> name)\<rparr>\<rparr> = s" by simp
  then show ?thesis
    using assms by (simp add: load_file_def meAssetIndexGetFilesystemPath_def)
qed

lemma parent_wanted_none:
  assumes "casts_exact (io_casts (en_io en))" and "asset_type td" and "text_ok (en_fuel en) td None"
    and "8 \<le> en_fuel en" and "en_fuel en \<le> 127" and "wt (en_fuel en) td None (asset_val h vs)"
    and "io_parse (en_io en) data = Some (json_val (io_casts (en_io en)) (en_fuel en) td None (asset_val h vs))"
    and "\<not> MAID_bool (hd_parentAsset h)"
  shows "parent_wanted en al td data = Inr None"
proof -
  from asset_document(1)[OF assms(2,4,3), of "io_casts (en_io en)" h vs] obtain kvs where
    kvs: "json_val (io_casts (en_io en)) (en_fuel en) td None (asset_val h vs) = JObject kvs"
      "map_of kvs ME_ASSET_HEADER_FIELDNAME = Some (header_json (io_casts (en_io en)) h)" by blast
  have n: "6 \<le> en_fuel en" using assms(4) by simp
  have "TryReadSerializedHeaderField (en_io en) al (en_fuel en) meSerializationMode_Text data =
      Inr (True, h\<lparr>hd_dependencies := Some (header_deps h)\<rparr>)"
    by (rule TryReadSerializedHeaderField_text[OF assms(1) n assms(5) header_deps_fit[OF assms(2,4,6)] _ kvs(2)])
      (simp add: assms(7) kvs(1))
  then show ?thesis using assms(8) by (simp add: parent_wanted_def)
qed

text \<open>What the first part of a compilation prepares for an entry that owns nothing.\<close>

lemma compile_begin_object:
  assumes inv: "asset_inv s Idle" and job: "sy_jobs s = xs @ LoadJob m cb # ys" and room: "pool_room True (sy_pools s (maid_type m))"
    and lo: "sy_loaders s (maid_type m) = Some lo"
    and start: "compile_begin en (s\<lparr>sy_jobs := xs @ ys\<rparr>) m = Inr (False, s1)"
  obtains a c al where "meAssetTryGetTemplate s1 m = Some a" and "as_id a = m" and "as_handle a \<noteq> EYE_INVALID"
    and "as_stage a = Compiling" and "as_content a = Some c" and "sy_heap s1 c = Some (lo_blank lo)"
    and "resourcePayloadAllocator (sy_pools s1 (maid_type m)) = Some al"
    and "sy_index s1 = sy_index s" and "sy_files s1 = sy_files s" and "sy_loaders s1 = sy_loaders s"
proof -
  obtain a0 where a0: "meAssetTryGetTemplate (s\<lparr>sy_jobs := xs @ ys\<rparr>) m = Some a0" "as_id a0 = m" "owns_nothing a0"
    using queued_entry[OF inv job] by (metis TryGet_frame(8))
  have valid: "MAID_bool m" by (rule TryGet_valid[OF a0(1)])
  from start[unfolded compile_begin_unowned[OF a0]] obtain h p x where
    r: "RP_Load (sy_next s) (sy_pools s (maid_type m)) meResourceType_TemplateAsset = Inr (h, p)" "RP_GetShared p h = Inr x"
      "s1 = put_asset m (a0\<lparr>as_stage := Compiling, as_handle := h, as_content := x\<rparr>)
        (put_pool (maid_type m) p (put_content (sy_next s) (lo_blank lo) (s\<lparr>sy_jobs := xs @ ys, sy_next := Suc (sy_next s)\<rparr>)))"
    by (auto simp: lo elim!: bindR_InrE)
  note p = pool_load[OF asset_invD(1)[OF inv] room r(1,2)]
  obtain al where al: "resourcePayloadAllocator p = Some al" using p(1) by (auto simp: pool_wf_def)
  show thesis
    by (rule that[of "a0\<lparr>as_stage := Compiling, as_handle := h, as_content := x\<rparr>" "sy_next s" al])
      (use valid a0(2) p(2) al holds_slot_valid[OF p(3)] in \<open>simp_all add: r(3)\<close>)
qed

lemma after_load_heap:
  assumes "meAssetTryGetTemplate s m = Some a" and "as_id a = m"
  shows "\<exists>s'. after_load s m cb = Inr s' \<and> meAssetTryGetTemplate s' = meAssetTryGetTemplate s \<and> sy_heap s' = sy_heap s"
  using assms TryGet_valid[OF assms(1)] by (simp add: after_load_def)

lemma file_reloads:
  assumes fc: "casts_exact (io_casts (en_io en))" and td: "td_ok n td None" "text_ok n td None" "asset_type td"
    and n: "n = en_fuel en" "8 \<le> n" "n \<le> 127"
    and wt: "wt n td None (asset_val h vs)" "wt n td None (asset_val h0 us)" and bools: "bools_ok n td None (asset_val h vs)"
    and u: "td_defaults td = None \<or> td_defaults td = Some (asset_val h0 us)"
    and h: "ValidateSerializedHeader h td = None" "\<not> MAID_bool (hd_parentAsset h)" "hd_assetHeader h = m"
    and parse: "io_parse (en_io en) data = Some (json_val (io_casts (en_io en)) n td None (asset_val h vs))"
    and hooks: "\<forall>v. en_prepare en (maid_type m) v = (True, v) \<and> en_initialize en (maid_type m) v = (True, v)"
    and path: "meAssetGetAbsPathForResource (en_resdir en) (STRING_LIT name) = Inr (STRING_LIT name, path)"
    and lo: "sy_loaders s (maid_type m) = Some lo" "lo_desc lo = td" "lo_blank lo = asset_val h0 us"
    and inv: "asset_inv s Idle" and job: "sy_jobs s = xs @ LoadJob m cb # ys" and room: "pool_room True (sy_pools s (maid_type m))"
    and index: "index_wf (sy_index s)" "assetToPathMap (sy_index s) m = Some name" and stored: "sy_files s (sv_str path) = Some data"
    and start: "compile_begin en (s\<lparr>sy_jobs := xs @ ys\<rparr>) m = Inr (False, s1)"
  shows "\<exists>s' a c. run_load en (s\<lparr>sy_jobs := xs @ ys\<rparr>) m cb = Inr s' \<and> meAssetTryGetTemplate s' m = Some a \<and> isLoaded a \<and>
    as_content a = Some c \<and> sy_heap s' c = Some (restored n td None (asset_val h0 us) (asset_val h vs))"
proof -
  obtain a c al where a: "meAssetTryGetTemplate s1 m = Some a" "as_id a = m" "as_handle a \<noteq> EYE_INVALID" "as_stage a = Compiling"
      "as_content a = Some c" "sy_heap s1 c = Some (lo_blank lo)" "resourcePayloadAllocator (sy_pools s1 (maid_type m)) = Some al"
    and same: "sy_index s1 = sy_index s" "sy_files s1 = sy_files s" "sy_loaders s1 = sy_loaders s"
    by (rule compile_begin_object[OF inv job room lo(1) start])
  have valid: "MAID_bool m" by (rule TryGet_valid[OF a(1)])
  let ?v = "restored n td None (asset_val h0 us) (asset_val h vs)"
  let ?ids = "asset_refs n td None (asset_val h vs)"
  have "asset_val h0 us = (case td_defaults td of Some d \<Rightarrow> d | None \<Rightarrow> asset_val h0 us)" using u by auto
  note read = DeserializeBlocking_text[OF fc td n(2,3) wt bools this h(1,2) parse]
  have wanted: "parent_wanted en al td data = Inr None"
    by (rule parent_wanted_none[OF fc td(3)]) (use td(2) n wt(1) parse h(2) in simp_all)
  let ?r = "put_content c ?v (s1\<lparr>sy_index := fold (meAssetIndexRecordDependency m) ?ids (sy_index s1)\<rparr>)"
  have loads: "load_file en s1 m lo c = Inr (True, ?r)"
    by (rule load_file_ok) (use a lo same index stored path wanted read n(1) in simp_all)
  obtain vs' where v: "?v = asset_val (h\<lparr>hd_dependencies := Some (header_deps h)\<rparr>) vs'"
    using restored_asset[OF td(3) n(2)] by blast
  let ?s2 = "put_content c ?v ?r"
  have compiled: "compile_read en s1 m = Inr (True, ?s2)"
    using a lo same loads v hooks h(3) by (simp add: compile_read_def)
  let ?s3 = "put_asset m (a\<lparr>as_stage := Loading\<rparr>) (put_content c ?v ?s2)"
  have initialized: "load_initialize en ?s2 m True = Inr (True, ?s3)"
    by (rule load_initialize_ok) (use a hooks in simp_all)
  have deps: "\<forall>d\<in>set (meAssetIndexGetDependencies m (sy_index ?s3)). MAID_bool d"
    using GetDependencies_valid[OF index_wf_RecordDependencies[OF index(1)]] same by simp
  from load_done_ok[OF deps, of "a\<lparr>as_stage := Loading\<rparr>"] valid obtain s4 where
    s4: "load_done ?s3 m = Inr s4" "meAssetTryGetTemplate s4 m = Some (a\<lparr>as_stage := Loaded\<rparr>)" "sy_heap s4 c = Some ?v" by auto
  from after_load_heap[OF s4(2), of cb] a(2) obtain s5 where
    s5: "after_load s4 m cb = Inr s5" "meAssetTryGetTemplate s5 = meAssetTryGetTemplate s4" "sy_heap s5 = sy_heap s4" by auto
  have "meAssetTryGetTemplate (s\<lparr>sy_jobs := xs @ ys\<rparr>) m \<noteq> None" using queued_entry[OF inv job] by auto
  then have "run_load en (s\<lparr>sy_jobs := xs @ ys\<rparr>) m cb = Inr s5"
    by (simp add: run_load_def start compiled initialized s4(1) s5(1) del: TryGet_frame)
  with s4 s5 a show ?thesis by (auto simp: isLoaded_def)
qed

lemma run_write_ok:
  assumes "meAssetTryGetTemplate s m = Some a" and "isLoaded a" and "Eye_bool (as_handle a)" and "as_id a = m"
    and "as_content a = Some c" and "sy_heap s c = Some v" and "sy_loaders s (maid_type m) = Some lo" and "asset_type (lo_desc lo)"
    and "assetToPathMap (sy_index s) m = Some name"
    and "meAssetGetAbsPathForResource (en_resdir en) (STRING_LIT name) = Inr (STRING_LIT name, path)"
    and "en_writable en (sv_str path)"
    and "SerializeBlocking (en_io en) 0 (en_fuel en) meSerializationMode_Text (lo_desc lo) v = Inr (SER_SUCCESS, v', Some data)"
  shows "\<exists>s'. run_write en s m cb = Inr s' \<and> sy_files s' = (sy_files s)(sv_str path \<mapsto> data) \<and>
    sy_heap s' = (sy_heap s)(c \<mapsto> v') \<and> meAssetTryGetTemplate s' = meAssetTryGetTemplate s"
proof -
  obtain hf fds where t: "td_fields (lo_desc lo) = hf # fds" "td_thisType hf = Some TD_MESERIALIZEDHEADER"
    using asset_typeD[OF assms(8)] by (metis IsSerializedHeaderField_def)
  have v: "MAID_bool m" by (rule TryGet_valid[OF assms(1)])
  have "as_stage a = Loaded" using assms(2) by (simp add: isLoaded_def)
  then show ?thesis
    using assms v t by (simp add: run_write_def meAssetWrite_def asset_content_def meAssetIndexGetFilesystemPath_def Let_def)
qed

section \<open>Properties\<close>


text \<open>The note again, without a parent.\<close>

definition note_header :: meSerializedHeader where
  "note_header = header_default\<lparr>hd_assetHeader := note_id\<rparr>"

definition note_document :: json where
  "note_document = json_val no_casts 8 note_type None (asset_val (saved_header 8 note_type note_header note_values) note_values)"

definition note_loaded :: "nat pool \<Rightarrow> asset_system" where
  "note_loaded p = put_asset note_id \<lparr>as_id = note_id, as_handle = Eye_make 1 0 True, as_stage = Loaded, as_content = Some 0\<rparr>
     (put_content 0 (asset_val note_header note_values) (note_system p note_index Map.empty))"


end
