(* ===== verification/AssetWorker.thy ===== *)
theory AssetWorker
  imports AssetLoads
begin

text \<open>
  The worker thread comes to an end of its queue: how many load jobs it can run, when no file
  names a parent.
\<close>

section \<open>What a load job leaves alone\<close>

definition unloaded :: "asset_system \<Rightarrow> MAID set" where
  "unloaded s = {m \<in> dom (assetToPathMap (sy_index s)). stage_of s m \<noteq> Loaded}"

definition parentless :: "engine \<Rightarrow> (u8 list \<rightharpoonup> u8 list) \<Rightarrow> bool" where
  "parentless en files \<longleftrightarrow> (\<forall>path source a td p. files path = Some source \<longrightarrow> parent_wanted en a td source \<noteq> Inr (Some p))"

text \<open>The same files, and paths for the same assets.\<close>

definition same_files :: "asset_system \<Rightarrow> asset_system \<Rightarrow> bool" where
  "same_files s s' \<longleftrightarrow> sy_files s' = sy_files s \<and> dom (assetToPathMap (sy_index s')) = dom (assetToPathMap (sy_index s))"

lemma same_files_trans: "same_files s s' \<Longrightarrow> same_files s' s'' \<Longrightarrow> same_files s s''"
  by (simp add: same_files_def)

lemma same_files_frame [simp]:
  "same_files s s" "same_files (put_asset m a s) s' = same_files s s'" "same_files s (put_asset m a s') = same_files s s'"
  "same_files (put_content c v s) s' = same_files s s'" "same_files s (put_content c v s') = same_files s s'"
  "same_files s (put_pool t p s') = same_files s s'"
  by (simp_all add: same_files_def)

lemma stage_of_frame [simp]:
  "stage_of (fire e s) = stage_of s" "stage_of (call_back cb m s) = stage_of s" "stage_of (put_content c v s) = stage_of s"
  "stage_of (put_pool t p s) = stage_of s" "stage_of (s\<lparr>sy_index := ix\<rparr>) = stage_of s" "stage_of (snd (Execute jb s)) = stage_of s"
  "stage_of (s\<lparr>sy_jobs := js\<rparr>) = stage_of s" "stage_of (s\<lparr>sy_next := n\<rparr>) = stage_of s"
  by (simp_all add: fun_eq_iff stage_of_def)

lemma stage_of_put [simp]: "MAID_bool m \<Longrightarrow> stage_of (put_asset m a s) = (stage_of s)(m := as_stage a)"
  by (simp add: fun_eq_iff stage_of_def)

lemma waiting_asset_simps:
  "sy_jobs (waiting_asset s m cb) = sy_jobs s @ [LoadJob m cb]" "sy_files (waiting_asset s m cb) = sy_files s"
  "sy_index (waiting_asset s m cb) = sy_index s"
  "MAID_bool m \<Longrightarrow> stage_of (waiting_asset s m cb) = (stage_of s)(m := Loading)"
  by (simp_all add: waiting_asset_def asset_staged_def) (simp_all add: Execute_def)

lemma request_effect:
  assumes "meAssetRequestLoadTemplate cb s ms = Inr (i, s')"
  shows "length (sy_jobs s') \<le> Suc (length (sy_jobs s)) \<and> same_files s s' \<and>
    (\<forall>m. stage_of s' m = stage_of s m \<or> stage_of s m = Unloaded \<and> stage_of s' m = Loading)"
  using assms
proof (induction cb s ms rule: meAssetRequestLoadTemplate.induct)
  case (2 cb s m ms)
  show ?case
  proof (cases "sy_loaders s (maid_type m) \<noteq> None \<and> stage_of s m = Unloaded")
    case True
    with 2(3) have "MAID_bool m" "s' = waiting_asset s m cb"
      by (auto simp: meAssetRequestLoadTemplate.simps ME_ASSERT_Inr waiting_asset_def)
    with True show ?thesis by (simp add: waiting_asset_simps same_files_def)
  next
    case False
    with 2 show ?thesis
      by (auto simp: meAssetRequestLoadTemplate.simps ME_ASSERT_Inr same_files_def split: if_split_asm)
  qed
qed (simp add: meAssetRequestLoadTemplate.simps same_files_def)

lemma load_file_effect:
  assumes "load_file en s m loader content = Inr (ok, s')" and "parentless en (sy_files s)"
  shows "sy_jobs s' = sy_jobs s" and "same_files s s'" and "stage_of s' = stage_of s"
    and "ok \<Longrightarrow> sy_files s [] = None \<Longrightarrow> assetToPathMap (sy_index s) m \<noteq> None"
proof -
  have np: "sy_files s path = Some source \<Longrightarrow> parent_wanted en a td source = Inr (Some p) \<longleftrightarrow> False" for a td source p path
    using assms(2) by (auto simp: parentless_def)
  have "sy_jobs s' = sy_jobs s \<and> same_files s s' \<and> stage_of s' = stage_of s"
    using assms(1)
    by (auto simp: load_file_def Let_def same_files_def np elim!: bindR_InrE
        split: option.split_asm prod.split_asm if_split_asm)
  then show "sy_jobs s' = sy_jobs s" "same_files s s'" "stage_of s' = stage_of s" by simp_all
  have "meAssetGetAbsPathForResource d StringView_default = Inr (StringView_default, StringView_default)" for d
    by (simp add: meAssetGetAbsPathForResource_def sv_bool_def StringView_default_def)
  moreover have "sv_str StringView_default = []" by (simp add: sv_str_def StringView_default_def)
  ultimately have "load_file en s m loader content = Inr (False, s)"
    if "assetToPathMap (sy_index s) m = None" "sy_files s [] = None"
    using that by (simp add: load_file_def meAssetIndexGetFilesystemPath_def)
  then show "assetToPathMap (sy_index s) m \<noteq> None" if "ok" "sy_files s [] = None"
    using assms(1) that by auto
qed

lemma compile_read_effect:
  assumes "compile_read en s m = Inr (ok, s')" and "parentless en (sy_files s)"
  shows "sy_jobs s' = sy_jobs s \<and> same_files s s' \<and> stage_of s' = stage_of s \<and>
    (ok \<longrightarrow> sy_files s [] = None \<longrightarrow> assetToPathMap (sy_index s) m \<noteq> None)"
proof -
  obtain lo c ok1 s1 where r: "load_file en s m lo c = Inr (ok1, s1)"
      "sy_jobs s' = sy_jobs s1" "same_files s1 s'" "stage_of s' = stage_of s1" "ok \<Longrightarrow> ok1"
    using assms(1)
    by (auto simp: compile_read_def Let_def ME_ASSERT_Inr same_files_def elim!: bindR_InrE split: prod.split_asm if_split_asm)
  with load_file_effect[OF r(1) assms(2)] show ?thesis by (auto intro: same_files_trans)
qed

section \<open>The load jobs of the queue\<close>

inductive load_step :: "engine \<Rightarrow> asset_system \<Rightarrow> asset_system \<Rightarrow> bool" for en where
  load_step: "sy_jobs s = xs @ LoadJob m cb # ys \<Longrightarrow> pool_room True (sy_pools s (maid_type m)) \<Longrightarrow>
    run_load en (s\<lparr>sy_jobs := xs @ ys\<rparr>) m cb = Inr s' \<Longrightarrow> load_step en s s'"

lemma load_initialize_stage:
  assumes "load_initialize en s m compiled = Inr (ok, s')" and "MAID_bool m"
  shows "sy_jobs s' = sy_jobs s \<and> same_files s s' \<and> stage_of s' = (stage_of s)(m := if ok then Loading else Unloaded)"
proof -
  have fail: "sy_jobs s' = sy_jobs t \<and> same_files t s' \<and> stage_of s' = (stage_of t)(m := Unloaded)"
    if "load_failure t m x = Inr s'" for t x
    using that assms(2) by (auto simp: load_failure_def Let_def elim!: bindR_InrE split: if_split_asm)
  show ?thesis
    using assms
    by (auto simp: load_initialize_def Let_def elim!: bindR_InrE split: prod.split_asm if_split_asm)
      (drule fail, simp)+
qed

lemma load_done_effect:
  assumes "load_done s m = Inr s'" and "MAID_bool m"
  shows "length (sy_jobs s') \<le> Suc (length (sy_jobs s)) \<and> same_files s s' \<and> stage_of s' m = Loaded \<and>
    (\<forall>m'. m' \<noteq> m \<longrightarrow> (stage_of s' m' = Loaded \<longleftrightarrow> stage_of s m' = Loaded))"
proof -
  from assms(1) obtain i s1 a where r: "meAssetRequestLoadTemplate None s (meAssetIndexGetDependencies m (sy_index s)) = Inr (i, s1)"
    "s' = put_asset m (a\<lparr>as_stage := Loaded\<rparr>) s1"
    by (auto simp: load_done_def elim!: bindR_InrE)
  with request_effect[OF r(1)] assms(2) show ?thesis by (auto simp: same_files_def) (metis meAssetLoadStage.distinct)+
qed

lemma after_load_effect:
  "after_load s m cb = Inr s' \<Longrightarrow> sy_jobs s' = sy_jobs s \<and> same_files s s' \<and> stage_of s' = stage_of s"
  by (auto simp: after_load_def same_files_def ME_ASSERT_Inr elim!: bindR_InrE split: if_split_asm)

text \<open>Each load job makes the queue shorter, or brings an indexed asset in.\<close>

lemma load_step_decreases:
  assumes step: "load_step en s s'" and inv: "asset_inv s Idle" and np: "parentless en (sy_files s)" "sy_files s [] = None"
    and fin: "finite (dom (assetToPathMap (sy_index s)))"
  shows "asset_inv s' Idle \<and> same_files s s' \<and>
    length (sy_jobs s') + card (unloaded s') < length (sy_jobs s) + card (unloaded s)"
  using step
proof cases
  case (load_step xs m cb ys)
  have room: "pool_room True (sy_pools s (maid_type m))" by fact
  let ?s = "s\<lparr>sy_jobs := xs @ ys\<rparr>"
  from load_step(3) obtain already s1 where "compile_begin en ?s m = Inr (already, s1)"
    by (auto simp: run_load_def ME_ASSERT_Inr elim!: bindR_InrE)
  with compile_begin_inv(1)[OF inv load_step(1) _ room this] have s1: "compile_begin en ?s m = Inr (False, s1)" by simp
  obtain a0 where a0: "meAssetTryGetTemplate ?s m = Some a0" "as_id a0 = m" "owns_nothing a0" "stage_of s m = Loading"
    using queued_entry[OF inv load_step(1)] by (metis TryGet_frame(8) option.simps(5) stage_of_def)
  have valid: "MAID_bool m" by (rule TryGet_valid[OF a0(1)])
  have b: "sy_jobs s1 = xs @ ys \<and> same_files s s1 \<and> stage_of s1 = (stage_of s)(m := Compiling)"
    using s1 valid by (auto simp: compile_begin_unowned[OF a0(1-3)] same_files_def elim!: bindR_InrE)
  then have np1: "parentless en (sy_files s1)" "sy_files s1 [] = None" using np by (simp_all add: same_files_def)
  from run_load_parts[OF load_step(3) s1] obtain ok1 s2 ok2 s3 s4 where
    r: "compile_read en s1 m = Inr (ok1, s2)" "load_initialize en s2 m ok1 = Inr (ok2, s3)"
      "(if ok2 then load_done s3 m else Inr s3) = Inr s4" "after_load s4 m cb = Inr s'" by blast
  note c = compile_read_effect[OF r(1) np1(1)] load_initialize_stage[OF r(2) valid] after_load_effect[OF r(4)]
  have inv': "asset_inv s' Idle" by (rule run_load_inv[OF inv load_step(1) room load_step(3)])
  show ?thesis
  proof (cases ok2)
    case True
    note d = load_done_effect[OF _ valid, of s3 s4]
    have "ok1" using r(2) True by (auto simp: load_initialize_def elim!: bindR_InrE split: if_split_asm)
    then have m: "m \<in> unloaded s" using b c(1) np1(2) a0(4) by (auto simp: unloaded_def same_files_def)
    have f: "same_files s s'" using b c d r(3) True by (simp add: same_files_def)
    have "unloaded s' = unloaded s - {m}"
      using f b c d r(3) True by (auto simp: unloaded_def same_files_def)
    moreover have "length (sy_jobs s') \<le> length (sy_jobs s)" using b c d r(3) True load_step(1) by auto
    moreover have "finite (unloaded s)" using fin by (simp add: unloaded_def)
    ultimately show ?thesis using m f inv' card_Diff1_less[of "unloaded s" m] by simp
  next
    case False
    have f: "same_files s s'" using b c r(3) False by (simp add: same_files_def)
    have "unloaded s' = unloaded s" using f b c r(3) False a0(4) by (auto simp: unloaded_def same_files_def)
    then show ?thesis using f inv' b c r(3) False load_step(1) by auto
  qed
qed

section \<open>Properties\<close>

lemma load_steps_measure:
  assumes "(load_step en ^^ n) s s'" and "asset_inv s Idle" and "parentless en (sy_files s)" and "sy_files s [] = None"
    and "finite (dom (assetToPathMap (sy_index s)))"
  shows "asset_inv s' Idle \<and> same_files s s' \<and>
    n + (length (sy_jobs s') + card (unloaded s')) \<le> length (sy_jobs s) + card (unloaded s)"
  using assms(1)
proof (induction n arbitrary: s')
  case (Suc n)
  then obtain t where t: "(load_step en ^^ n) s t" "load_step en t s'" by auto
  with Suc.IH[OF t(1)] load_step_decreases[OF t(2)] assms(3-5) show ?case
    by (force simp: same_files_def)
qed (use assms(2) in simp)

text \<open>
  C4. The worker gets through its loads, taking the jobs of the queue in any order: when no
  file on disk names a parent, the number of load jobs it can run is at most the length of
  the queue and the number of indexed assets that are not loaded, together - although every
  load asks for further loads. When the queue is empty, every asset is loaded or unloaded,
  none is stuck half-way.
\<close>

theorem worker_finishes:
  assumes "asset_inv s Idle" and "parentless en (sy_files s)" and "sy_files s [] = None"
    and "finite (dom (assetToPathMap (sy_index s)))" and "(load_step en ^^ n) s s'"
  shows "n \<le> length (sy_jobs s) + card (unloaded s) \<and>
    (sy_jobs s' = [] \<longrightarrow> (\<forall>m. stage_of s' m = Loaded \<or> stage_of s' m = Unloaded))"
proof -
  note M = load_steps_measure[OF assms(5,1-4)]
  have "stage_of s' m = Loaded \<or> stage_of s' m = Unloaded" if "sy_jobs s' = []" for m
    using asset_invD(2)[of s' Idle m] M that
    by (auto simp: entry_ok_def stage_of_def load_jobs_def split: option.splits meAssetLoadStage.splits)
  with M show ?thesis by auto
qed

theorem worker_finishes_witness:
  "\<exists>s s'. (load_step (small_engine JNull) ^^ 1) s s' \<and> sy_jobs s = [LoadJob note_id (Some 3)] \<and>
     1 \<le> length (sy_jobs s) + card (unloaded s)"
proof -
  from pool_new_wf[of 7 0 0] obtain p where p: "meResourcePool (7 :: nat) (Some 0) (Some 0) = Inr p" by blast
  let ?s = "waiting_asset (note_system p index_empty Map.empty) note_id (Some 3)"
  note W = note_waiting[OF p refl, where index = index_empty and files = Map.empty and cb = "Some 3"]
  from note_missing[OF p] obtain s' where
    "run_load (small_engine JNull) (?s\<lparr>sy_jobs := [] @ []\<rparr>) note_id (Some 3) = Inr s'" by auto
  then have step: "(load_step (small_engine JNull) ^^ 1) ?s s'" using load_step.intros[OF W(2,3)] by (simp add: eq_OO)
  have "sy_files ?s = Map.empty" "sy_index ?s = index_empty"
    by (simp_all add: waiting_asset_simps note_system_def asset_system_start_def)
  then have "parentless (small_engine JNull) (sy_files ?s)" "sy_files ?s [] = None" "finite (dom (assetToPathMap (sy_index ?s)))"
    by (simp_all add: parentless_def index_empty_def)
  from conjunct1[OF worker_finishes[OF W(1) this step]] step W(2) show ?thesis
    by (intro exI[of _ ?s] exI[of _ s']) simp_all
qed

end
