(* ===== verification/JobSystems.thy ===== *)
theory JobSystems
  imports Prelude "HOL-Library.Multiset"
begin

text \<open>
  The job system (\<open>core/me_job_system.h\<close>, \<open>core/me_job_system.cpp\<close>): its state, the calls of
  its clients, and the loop of its worker threads as an interleaving step relation.
\<close>

section \<open>State\<close>

text \<open>
  A job's function is a value of type \<open>'f\<close>; what a run of it submits to the same job system is
  the parameter \<open>spawn\<close> of the steps. A worker is absent (never started, or joined), at the test
  of its outer loop, at the test of its inner loop, inside a job with the submissions the job has
  still to make, or returned and waiting to be joined. The queue is the vendored concurrent queue,
  of which the code uses two promises: what is enqueued is dequeued at most once, in an order that
  is not fixed between threads, and \<open>try_dequeue\<close> may find nothing although something is there.
\<close>

record 'f meJob =
  job_func :: 'f
  job_id :: u32

datatype 'f worker = NoThread | AtLoop | AtQueue | InJob "'f meJob" "'f list" | Returned

datatype joining = Free | Joining nat

record 'f meJobSystem =
  jb_numThreads :: nat
  jb_isRunning :: u32
  jb_currentJobID :: u32
  jb_workers :: "'f worker list"
  jb_jobPool :: "'f meJob list"
  jb_joining :: joining

definition MAX_JOB_WORKERS :: nat where
  "MAX_JOB_WORKERS = 32"

definition meJobSystem_new :: "'f meJobSystem" where
  "meJobSystem_new = \<lparr>jb_numThreads = 0, jb_isRunning = 0, jb_currentJobID = 0,
    jb_workers = replicate MAX_JOB_WORKERS NoThread, jb_jobPool = [], jb_joining = Free\<rparr>"

section \<open>Calls of the clients\<close>

text \<open>
  Starting a thread in a slot that still holds a joinable one would end the program. \<open>WaitOnJob\<close>
  is a failing assertion whatever it is given.
\<close>

definition jobs_Initialize :: "nat \<Rightarrow> 'f meJobSystem \<Rightarrow> 'f meJobSystem result" where
  "jobs_Initialize n js = ME_ASSERT (jb_isRunning js = 0) (ME_ASSERT (n \<le> MAX_JOB_WORKERS)
    (require Thrown (\<forall>i < n. jb_workers js ! i = NoThread)
      (Inr (js\<lparr>jb_numThreads := n, jb_isRunning := 1,
        jb_workers := replicate n AtLoop @ drop n (jb_workers js)\<rparr>))))"

definition jobs_Execute :: "'f \<Rightarrow> 'f meJobSystem \<Rightarrow> u32 \<times> 'f meJobSystem" where
  "jobs_Execute f js = (let job = \<lparr>job_func = f, job_id = jb_currentJobID js\<rparr>
    in (job_id job, js\<lparr>jb_currentJobID := jb_currentJobID js + 1, jb_jobPool := jb_jobPool js @ [job]\<rparr>))"

definition jobs_WaitOnJob :: "u32 \<Rightarrow> 'f meJobSystem \<Rightarrow> 'f meJobSystem result" where
  "jobs_WaitOnJob n js = Inl AssertFailed"

text \<open>
  \<open>Shutdown\<close> clears the flag and joins the workers one after the other; a call that finds the
  flag clear returns at once. The joining thread waits for the worker whose turn it is.
\<close>

definition shutdown_begin :: "'f meJobSystem \<Rightarrow> 'f meJobSystem" where
  "shutdown_begin js = (if jb_isRunning js = 0 then js else js\<lparr>jb_isRunning := 0, jb_joining := Joining 0\<rparr>)"

definition shutdown_join :: "'f meJobSystem \<Rightarrow> 'f meJobSystem option" where
  "shutdown_join js = (case jb_joining js of Free \<Rightarrow> None
    | Joining i \<Rightarrow> (if i < jb_numThreads js then
        (case jb_workers js ! i of
          Returned \<Rightarrow> Some (js\<lparr>jb_workers := (jb_workers js)[i := NoThread], jb_joining := Joining (Suc i)\<rparr>)
        | NoThread \<Rightarrow> Some (js\<lparr>jb_joining := Joining (Suc i)\<rparr>)
        | _ \<Rightarrow> None)
      else Some (js\<lparr>jb_numThreads := 0, jb_joining := Free\<rparr>)))"

section \<open>The worker loop\<close>

text \<open>Entering and leaving the outer loop, a dequeue, a failed dequeue, and what a job does.\<close>

fun worker_test :: "u32 \<Rightarrow> 'f worker \<Rightarrow> 'f worker option" where
  "worker_test running AtLoop = Some (if running \<noteq> 0 then AtQueue else Returned)"
| "worker_test running _ = None"

datatype 'f job_event = Submitted "'f meJob" | Started nat "'f meJob" | Ended nat "'f meJob"
  | ShuttingDown | Silent

definition set_worker :: "nat \<Rightarrow> 'f worker \<Rightarrow> 'f meJobSystem \<Rightarrow> 'f meJobSystem" where
  "set_worker i w js = js\<lparr>jb_workers := (jb_workers js)[i := w]\<rparr>"

inductive worker_step :: "('f \<Rightarrow> 'f list) \<Rightarrow> 'f meJobSystem \<Rightarrow> 'f job_event \<Rightarrow> 'f meJobSystem \<Rightarrow> bool"
  for spawn where
  test: "i < length (jb_workers js) \<Longrightarrow> worker_test (jb_isRunning js) (jb_workers js ! i) = Some w \<Longrightarrow>
    worker_step spawn js Silent (set_worker i w js)"
| dequeue: "i < length (jb_workers js) \<Longrightarrow> jb_workers js ! i = AtQueue \<Longrightarrow>
    jb_jobPool js = xs @ j # ys \<Longrightarrow>
    worker_step spawn js (Started i j)
      (set_worker i (InJob j (spawn (job_func j))) (js\<lparr>jb_jobPool := xs @ ys\<rparr>))"
| miss: "i < length (jb_workers js) \<Longrightarrow> jb_workers js ! i = AtQueue \<Longrightarrow>
    worker_step spawn js Silent (set_worker i AtLoop js)"
| submit: "i < length (jb_workers js) \<Longrightarrow> jb_workers js ! i = InJob j (f # fs) \<Longrightarrow>
    worker_step spawn js (Submitted \<lparr>job_func = f, job_id = jb_currentJobID js\<rparr>)
      (set_worker i (InJob j fs) (snd (jobs_Execute f js)))"
| finish: "i < length (jb_workers js) \<Longrightarrow> jb_workers js ! i = InJob j [] \<Longrightarrow>
    worker_step spawn js (Ended i j) (set_worker i AtQueue js)"
| join: "shutdown_join js = Some js' \<Longrightarrow> worker_step spawn js Silent js'"

text \<open>
  A run interleaves them with submissions of other threads and with shutdowns. It starts where
  \<open>Initialize\<close> returned.
\<close>

inductive job_step :: "('f \<Rightarrow> 'f list) \<Rightarrow> 'f meJobSystem \<Rightarrow> 'f job_event \<Rightarrow> 'f meJobSystem \<Rightarrow> bool"
  for spawn where
  worker: "worker_step spawn js e js' \<Longrightarrow> job_step spawn js e js'"
| execute: "job_step spawn js (Submitted \<lparr>job_func = f, job_id = jb_currentJobID js\<rparr>) (snd (jobs_Execute f js))"
| shutdown: "job_step spawn js ShuttingDown (shutdown_begin js)"

inductive job_run :: "('s \<Rightarrow> 'e \<Rightarrow> 's \<Rightarrow> bool) \<Rightarrow> 's \<Rightarrow> 'e list \<Rightarrow> 's \<Rightarrow> bool" for step where
  none: "job_run step x [] x"
| more: "job_run step x es y \<Longrightarrow> step y e z \<Longrightarrow> job_run step x (es @ [e]) z"

inductive_cases job_run_nil: "job_run step x [] y"

section \<open>What a run has submitted, started and ended\<close>

fun submitted :: "'f job_event list \<Rightarrow> 'f meJob list" where
  "submitted [] = []"
| "submitted (Submitted j # es) = j # submitted es"
| "submitted (_ # es) = submitted es"

fun started :: "'f job_event list \<Rightarrow> 'f meJob list" where
  "started [] = []"
| "started (Started i j # es) = j # started es"
| "started (_ # es) = started es"

fun ended :: "'f job_event list \<Rightarrow> 'f meJob list" where
  "ended [] = []"
| "ended (Ended i j # es) = j # ended es"
| "ended (_ # es) = ended es"

fun job_of :: "'f worker \<Rightarrow> 'f meJob list" where
  "job_of (InJob j fs) = [j]"
| "job_of _ = []"

lemma submitted_append [simp]: "submitted (es @ es') = submitted es @ submitted es'"
  by (induction es rule: submitted.induct) auto

lemma started_append [simp]: "started (es @ es') = started es @ started es'"
  by (induction es rule: started.induct) auto

lemma ended_append [simp]: "ended (es @ es') = ended es @ ended es'"
  by (induction es rule: ended.induct) auto

definition jobs_running :: "'f meJobSystem \<Rightarrow> 'f meJob multiset" where
  "jobs_running js = mset (concat (map job_of (jb_workers js)))"

lemma mset_concat_update:
  "i < length xs \<Longrightarrow> mset (concat (map g (xs[i := x]))) + mset (g (xs ! i)) = mset (concat (map g xs)) + mset (g x)"
  by (induction xs arbitrary: i) (auto split: nat.split simp: ac_simps less_Suc_eq_0_disj)

lemma jobs_running_set:
  "i < length (jb_workers js) \<Longrightarrow>
    jobs_running (set_worker i w js) + mset (job_of (jb_workers js ! i)) = jobs_running js + mset (job_of w)"
  unfolding jobs_running_def set_worker_def by (simp add: mset_concat_update)

section \<open>No job is lost and none runs twice\<close>

text \<open>
  What every step keeps: what was submitted is what was started and what waits, what was started
  is what has ended and what runs, and the ids count up from the first.
\<close>

definition jobs_balance :: "'f job_event list \<Rightarrow> 'f meJobSystem \<Rightarrow> bool" where
  "jobs_balance es js \<longleftrightarrow> mset (submitted es) = mset (started es) + mset (jb_jobPool js) \<and>
    mset (started es) = mset (ended es) + jobs_running js \<and>
    map job_id (submitted es) = map word_of_nat [0..<length (submitted es)] \<and>
    jb_currentJobID js = word_of_nat (length (submitted es))"

lemma worker_test_idle: "worker_test r w = Some w' \<Longrightarrow> job_of w = [] \<and> job_of w' = []"
  by (cases w) (auto split: if_splits)

lemma set_worker_simps [simp]:
  "jb_jobPool (set_worker i w js) = jb_jobPool js"
  "jb_isRunning (set_worker i w js) = jb_isRunning js"
  "jb_currentJobID (set_worker i w js) = jb_currentJobID js"
  "jb_numThreads (set_worker i w js) = jb_numThreads js"
  "jb_joining (set_worker i w js) = jb_joining js"
  "jb_workers (set_worker i w js) = (jb_workers js)[i := w]"
  by (simp_all add: set_worker_def)

lemma jobs_running_frame [simp]:
  "jobs_running (js\<lparr>jb_jobPool := q\<rparr>) = jobs_running js"
  "jobs_running (js\<lparr>jb_joining := c\<rparr>) = jobs_running js"
  "jobs_running (js\<lparr>jb_numThreads := n\<rparr>) = jobs_running js"
  "jobs_running (js\<lparr>jb_currentJobID := c'\<rparr>) = jobs_running js"
  "jobs_running (js\<lparr>jb_isRunning := r\<rparr>) = jobs_running js"
  by (simp_all add: jobs_running_def)

lemma jobs_running_swap:
  "i < length (jb_workers js) \<Longrightarrow> job_of (jb_workers js ! i) = job_of w \<Longrightarrow>
    jobs_running (set_worker i w js) = jobs_running js"
  using jobs_running_set[of i js w] by simp

lemma shutdown_join_frame:
  assumes "shutdown_join js = Some js'"
  shows "jb_jobPool js' = jb_jobPool js" and "jb_currentJobID js' = jb_currentJobID js"
    and "jb_isRunning js' = jb_isRunning js" and "jb_numThreads js \<le> length (jb_workers js) \<Longrightarrow> jobs_running js' = jobs_running js"
proof -
  show "jb_jobPool js' = jb_jobPool js" "jb_currentJobID js' = jb_currentJobID js" "jb_isRunning js' = jb_isRunning js"
    using assms by (auto simp: shutdown_join_def split: joining.splits if_splits worker.splits)
  assume n: "jb_numThreads js \<le> length (jb_workers js)"
  show "jobs_running js' = jobs_running js"
    using assms n jobs_running_swap[of _ js NoThread]
    by (auto simp: shutdown_join_def set_worker_def split: joining.splits if_splits worker.splits)
qed

lemma jobs_Execute_frame [simp]:
  "jb_workers (snd (jobs_Execute f js)) = jb_workers js"
  "jb_isRunning (snd (jobs_Execute f js)) = jb_isRunning js"
  "jb_numThreads (snd (jobs_Execute f js)) = jb_numThreads js"
  "jb_joining (snd (jobs_Execute f js)) = jb_joining js"
  "jb_jobPool (snd (jobs_Execute f js)) = jb_jobPool js @ [\<lparr>job_func = f, job_id = jb_currentJobID js\<rparr>]"
  "jb_currentJobID (snd (jobs_Execute f js)) = jb_currentJobID js + 1"
  "jobs_running (snd (jobs_Execute f js)) = jobs_running js"
  by (simp_all add: jobs_Execute_def Let_def jobs_running_def)

lemma jobs_balance_submit:
  "jobs_balance es js \<Longrightarrow> jobs_balance (es @ [Submitted \<lparr>job_func = f, job_id = jb_currentJobID js\<rparr>]) (snd (jobs_Execute f js))"
  by (simp add: jobs_balance_def ac_simps)

lemma worker_step_balance:
  assumes "worker_step spawn js e js'" and "jobs_balance es js" and "jb_numThreads js \<le> length (jb_workers js)"
  shows "jobs_balance (es @ [e]) js' \<and> jb_numThreads js' \<le> length (jb_workers js') \<and> length (jb_workers js') = length (jb_workers js)"
  using assms
proof cases
  case (test i w)
  have "jobs_running js' = jobs_running js"
    using jobs_running_swap[OF test(3)] worker_test_idle[OF test(4)] test(2) by simp
  with test assms show ?thesis by (simp add: jobs_balance_def)
next
  case (dequeue i xs j ys)
  have "jobs_running js' = jobs_running js + {#j#}"
    using jobs_running_set[of i "js\<lparr>jb_jobPool := xs @ ys\<rparr>" "InJob j (spawn (job_func j))"] dequeue by simp
  with dequeue assms show ?thesis by (simp add: jobs_balance_def)
next
  case (miss i)
  have "jobs_running js' = jobs_running js"
    using jobs_running_swap[of i js AtLoop] miss by simp
  with miss assms show ?thesis by (simp add: jobs_balance_def)
next
  case (submit i j f fs)
  have "jobs_running js' = jobs_running js"
    using jobs_running_swap[of i "snd (jobs_Execute f js)" "InJob j fs"] submit by simp
  with submit assms show ?thesis by (simp add: jobs_balance_def ac_simps)
next
  case (finish i j)
  have "jobs_running js' + {#j#} = jobs_running js"
    using jobs_running_set[of i js AtQueue] finish by simp
  with finish assms show ?thesis by (simp add: jobs_balance_def ac_simps)
next
  case join
  have "jb_numThreads js' \<le> length (jb_workers js') \<and> length (jb_workers js') = length (jb_workers js)"
    using join assms(3) by (auto simp: shutdown_join_def split: joining.splits if_splits worker.splits)
  with join assms shutdown_join_frame[OF join(2)] show ?thesis by (simp add: jobs_balance_def)
qed

lemma job_step_balance:
  assumes "job_step spawn js e js'" and "jobs_balance es js" and "jb_numThreads js \<le> length (jb_workers js)"
  shows "jobs_balance (es @ [e]) js' \<and> jb_numThreads js' \<le> length (jb_workers js')"
  using assms
proof cases
  case worker
  then show ?thesis using worker_step_balance assms by blast
next
  case (execute f)
  with assms jobs_balance_submit[of es js f] show ?thesis by simp
next
  case shutdown
  with assms show ?thesis by (auto simp: jobs_balance_def shutdown_begin_def)
qed

lemma job_run_balance:
  assumes "job_run (job_step spawn) js es js'" and "jobs_balance [] js" and "jb_numThreads js \<le> length (jb_workers js)"
  shows "jobs_balance es js' \<and> jb_numThreads js' \<le> length (jb_workers js')"
  using assms by (induction) (use job_step_balance in blast)+

lemma jobs_start:
  assumes "jobs_Initialize n meJobSystem_new = Inr js"
  shows "jobs_balance [] js" and "jb_numThreads js \<le> length (jb_workers js)"
  using assms by (auto simp: jobs_Initialize_def meJobSystem_new_def jobs_balance_def jobs_running_def ME_ASSERT_def
      require_def map_replicate_const concat_replicate_trivial split: if_splits)

lemma distinct_ids:
  assumes "map job_id js = map word_of_nat [0..<length js]" and "length js \<le> 4294967296"
  shows "distinct (map job_id (js::'f meJob list))"
proof -
  have "inj_on (word_of_nat :: nat \<Rightarrow> u32) {0..<length js}"
  proof (rule inj_onI)
    fix a b assume a: "a \<in> {0..<length js}" "b \<in> {0..<length js}" "(word_of_nat a :: u32) = word_of_nat b"
    have "unat (word_of_nat k :: u32) = k" if "k < length js" for k
      using that assms(2) by (simp add: unat_of_nat)
    with a show "a = b" by (metis atLeastLessThan_iff)
  qed
  then show ?thesis using assms(1) by (simp add: distinct_map)
qed

text \<open>
  C11. In every run of the job system - any number of workers up to the limit, any interleaving
  with submissions and shutdowns, jobs that submit jobs - the started jobs are submitted jobs, the
  waiting ones are the rest, and the started ones have ended or are running now; so nothing is
  lost. As long as the id counter has not come round, ids are unique and no job starts twice.
\<close>

theorem jobs_run_once:
  assumes "jobs_Initialize n meJobSystem_new = Inr js" and "job_run (job_step spawn) js es js'"
  shows "mset (submitted es) = mset (started es) + mset (jb_jobPool js') \<and>
    mset (started es) = mset (ended es) + jobs_running js' \<and>
    (length (submitted es) \<le> 4294967296 \<longrightarrow> distinct (map job_id (submitted es)) \<and> distinct (map job_id (started es)))"
proof -
  have b: "jobs_balance es js'"
    using job_run_balance[OF assms(2)] jobs_start[OF assms(1)] by blast
  then have m: "mset (submitted es) = mset (started es) + mset (jb_jobPool js')" by (simp add: jobs_balance_def)
  have "distinct (map job_id (submitted es)) \<and> distinct (map job_id (started es))" if "length (submitted es) \<le> 4294967296"
  proof -
    have d: "distinct (map job_id (submitted es))"
      using that b distinct_ids[of "submitted es"] by (simp add: jobs_balance_def)
    have "mset (map job_id (submitted es)) = mset (map job_id (started es @ jb_jobPool js'))"
      using m by (simp add: mset_map)
    from mset_eq_imp_distinct_iff[OF this] d show ?thesis by simp
  qed
  with b show ?thesis by (simp add: jobs_balance_def)
qed

text \<open>One worker, one job that submits another, both run.\<close>

definition note_jobs :: "nat meJobSystem" where
  "note_jobs = meJobSystem_new\<lparr>jb_numThreads := 1, jb_isRunning := 1, jb_workers := AtLoop # replicate 31 NoThread\<rparr>"

lemma note_jobs_started: "jobs_Initialize 1 meJobSystem_new = Inr note_jobs"
  by (simp add: jobs_Initialize_def meJobSystem_new_def note_jobs_def MAX_JOB_WORKERS_def ME_ASSERT_def
      require_def numeral_eq_Suc)

lemma jobs_run_once_witness:
  "\<exists>es js'. job_run (job_step (\<lambda>n. replicate n 0)) note_jobs es js' \<and> length (submitted es) = 1 \<and>
    mset (submitted es) = mset (started es) + mset (jb_jobPool js') \<and> distinct (map job_id (started es))"
proof -
  have "job_run (job_step (\<lambda>n. replicate n 0)) note_jobs ([] @ [Submitted \<lparr>job_func = 1, job_id = jb_currentJobID note_jobs\<rparr>])
      (snd (jobs_Execute 1 note_jobs))"
    by (intro job_run.more[OF job_run.none] execute)
  from jobs_run_once[OF note_jobs_started this] this show ?thesis by fastforce
qed

section \<open>Shutdown\<close>

text \<open>
  Nothing but \<open>Initialize\<close> starts a worker, so after a shutdown that has joined them all the queue
  is never read again.
\<close>

lemma shut_step:
  assumes "job_step spawn js e js'" and "jb_isRunning js = 0" and "jb_joining js = Free"
    and "\<forall>w\<in>set (jb_workers js). w = NoThread"
  shows "started [e] = [] \<and> jb_isRunning js' = 0 \<and> jb_joining js' = Free \<and> jb_workers js' = jb_workers js \<and>
    mset (jb_jobPool js) \<subseteq># mset (jb_jobPool js')"
  using assms(1)
proof cases
  case worker
  have "\<And>i. i < length (jb_workers js) \<Longrightarrow> jb_workers js ! i = NoThread" using assms(4) nth_mem by blast
  with worker show ?thesis using assms(2,3)
    by cases (auto simp: shutdown_join_def)
qed (use assms in \<open>auto simp: shutdown_begin_def\<close>)

lemma shut_run:
  assumes "job_run (job_step spawn) js es js'" and "jb_isRunning js = 0" and "jb_joining js = Free"
    and "\<forall>w\<in>set (jb_workers js). w = NoThread"
  shows "started es = [] \<and> jb_isRunning js' = 0 \<and> jb_joining js' = Free \<and> jb_workers js' = jb_workers js \<and>
    mset (jb_jobPool js) \<subseteq># mset (jb_jobPool js')"
  using assms
proof induction
  case (more x es y e z)
  then have y: "started es = []" "jb_isRunning y = 0" "jb_joining y = Free" "jb_workers y = jb_workers x"
    "mset (jb_jobPool x) \<subseteq># mset (jb_jobPool y)" by auto
  from shut_step[OF more(2) y(2,3)] y more(6) show ?case by (auto intro: subset_mset.trans)
qed simp

text \<open>
  Slots behind the started threads are empty, a shutdown has emptied the slots it is past, and
  when the flag is clear and nobody is joining, no thread is left.
\<close>

definition joined_inv :: "'f meJobSystem \<Rightarrow> bool" where
  "joined_inv js \<longleftrightarrow> jb_numThreads js \<le> length (jb_workers js) \<and>
    (\<forall>k < length (jb_workers js). jb_numThreads js \<le> k \<longrightarrow> jb_workers js ! k = NoThread) \<and>
    (case jb_joining js of Free \<Rightarrow> jb_isRunning js = 0 \<longrightarrow> jb_numThreads js = 0
      | Joining i \<Rightarrow> jb_isRunning js = 0 \<and> (\<forall>k < length (jb_workers js). k < i \<longrightarrow> jb_workers js ! k = NoThread))"

lemma joined_inv_set:
  "joined_inv js \<Longrightarrow> jb_workers js ! i \<noteq> NoThread \<Longrightarrow> joined_inv (set_worker i w js)"
  by (cases "i < length (jb_workers js)") (auto simp: joined_inv_def nth_list_update split: joining.splits)

lemma joined_inv_frame [simp]:
  "joined_inv (js\<lparr>jb_jobPool := q\<rparr>) = joined_inv js"
  "joined_inv (snd (jobs_Execute f js)) = joined_inv js"
  by (auto simp: joined_inv_def jobs_Execute_def Let_def split: joining.splits)

lemma joined_inv_join: "shutdown_join js = Some js' \<Longrightarrow> joined_inv js \<Longrightarrow> joined_inv js'"
  by (auto simp: joined_inv_def shutdown_join_def nth_list_update less_Suc_eq split: joining.splits if_splits worker.splits)

lemma worker_step_joined:
  assumes "worker_step spawn js e js'" and "joined_inv js"
  shows "joined_inv js'"
  using assms(1)
proof cases
  case (test i w)
  then show ?thesis using joined_inv_set[OF assms(2), of i w] by (cases "jb_workers js ! i") auto
next
  case (dequeue i xs j ys)
  then show ?thesis using joined_inv_set[of "js\<lparr>jb_jobPool := xs @ ys\<rparr>" i] assms(2) by simp
next
  case (submit i j f fs)
  then show ?thesis using joined_inv_set[of "snd (jobs_Execute f js)" i] assms(2) by simp
qed (use assms joined_inv_set[of js] joined_inv_join in auto)

lemma joined_inv_begin: "joined_inv js \<Longrightarrow> joined_inv (shutdown_begin js)"
  by (auto simp: joined_inv_def shutdown_begin_def split: joining.splits)

lemma job_step_joined: "job_step spawn js e js' \<Longrightarrow> joined_inv js \<Longrightarrow> joined_inv js'"
  by (erule job_step.cases) (simp_all add: worker_step_joined joined_inv_begin)

lemma job_run_joined: "job_run (job_step spawn) js es js' \<Longrightarrow> joined_inv js \<Longrightarrow> joined_inv js'"
  by (induction rule: job_run.induct) (auto intro: job_step_joined)

lemma jobs_start_joined: "jobs_Initialize n meJobSystem_new = Inr js \<Longrightarrow> joined_inv js"
  by (auto simp: jobs_Initialize_def meJobSystem_new_def joined_inv_def ME_ASSERT_def require_def nth_append
      split: if_splits)

text \<open>
  Once a shutdown has returned, no job that still waits is ever started: whatever the clients
  do then, short of a new \<open>Initialize\<close>, every job of the queue stays in it. The engine never
  learns of them: \<open>WaitOnJob\<close> is a failing assertion.
\<close>

theorem shutdown_leaves_jobs:
  assumes "jobs_Initialize n meJobSystem_new = Inr js" and "job_run (job_step spawn) js es js'"
    and "jb_isRunning js' = 0" and "jb_joining js' = Free" and "job_run (job_step spawn) js' es' js''"
  shows "started es' = [] \<and> mset (jb_jobPool js') \<subseteq># mset (jb_jobPool js'') \<and> jobs_WaitOnJob k js'' = Inl AssertFailed"
proof -
  have "joined_inv js'" using job_run_joined jobs_start_joined assms(1,2) by blast
  then have "\<forall>w\<in>set (jb_workers js'). w = NoThread"
    using assms(3,4) by (auto simp: joined_inv_def in_set_conv_nth)
  from shut_run[OF assms(5,3,4) this] show ?thesis by (simp add: jobs_WaitOnJob_def)
qed

section \<open>A shutdown ends\<close>

text \<open>
  While the flag is clear, every step of a worker or of the joining thread uses up weight: a
  waiting job weighs what its run may submit and two steps more, a worker what is left of its
  loop.
\<close>

definition fits :: "('f \<Rightarrow> 'f list) \<Rightarrow> ('f \<Rightarrow> nat) \<Rightarrow> bool" where
  "fits spawn weight \<longleftrightarrow> (\<forall>f. (\<Sum>g\<leftarrow>spawn f. Suc (weight g)) + 2 \<le> weight f)"

fun worker_weight :: "('f \<Rightarrow> nat) \<Rightarrow> 'f worker \<Rightarrow> nat" where
  "worker_weight weight (InJob j fs) = (\<Sum>g\<leftarrow>fs. Suc (weight g)) + 3"
| "worker_weight weight AtQueue = 2"
| "worker_weight weight AtLoop = 1"
| "worker_weight weight _ = 0"

fun joiner_weight :: "nat \<Rightarrow> joining \<Rightarrow> nat" where
  "joiner_weight n Free = 0"
| "joiner_weight n (Joining i) = Suc (n - i)"

definition shutdown_weight :: "('f \<Rightarrow> nat) \<Rightarrow> 'f meJobSystem \<Rightarrow> nat" where
  "shutdown_weight weight js = (\<Sum>j\<leftarrow>jb_jobPool js. weight (job_func j)) +
    (\<Sum>w\<leftarrow>jb_workers js. worker_weight weight w) +
    joiner_weight (jb_numThreads js) (jb_joining js)"

lemma sum_list_update:
  "i < length xs \<Longrightarrow> (\<Sum>x\<leftarrow>xs[i := y]. h x) + h (xs ! i) = (\<Sum>x\<leftarrow>xs. h x) + (h y :: nat)"
  by (induction xs arbitrary: i) (auto split: nat.split simp: less_Suc_eq_0_disj)

lemma worker_weight_set:
  "i < length (jb_workers js) \<Longrightarrow> worker_weight weight w < worker_weight weight (jb_workers js ! i) + k \<Longrightarrow>
    shutdown_weight weight (set_worker i w js) < shutdown_weight weight js + k"
  using sum_list_update[of i "jb_workers js" "worker_weight weight" w] by (simp add: shutdown_weight_def)

lemma shutdown_join_weight:
  assumes "shutdown_join js = Some js'" and "joined_inv js"
  shows "shutdown_weight weight js' < shutdown_weight weight js"
proof -
  obtain i where i: "jb_joining js = Joining i"
    using assms(1) by (cases "jb_joining js") (auto simp: shutdown_join_def)
  then show ?thesis
  proof (cases "i < jb_numThreads js \<and> jb_workers js ! i = Returned")
    case True
    with assms i have "i < length (jb_workers js)" by (simp add: joined_inv_def)
    from sum_list_update[OF this, of "worker_weight weight" NoThread] True assms i
    show ?thesis by (auto simp: shutdown_join_def shutdown_weight_def)
  qed (use assms i in \<open>auto simp: shutdown_join_def shutdown_weight_def split: if_splits worker.splits\<close>)
qed

lemma worker_step_weight:
  assumes "worker_step spawn js e js'" and "fits spawn weight" and "jb_isRunning js = 0" and "joined_inv js"
  shows "shutdown_weight weight js' < shutdown_weight weight js"
  using assms(1)
proof cases
  case (test i w)
  then show ?thesis using worker_weight_set[of i js weight w 0] assms(3) by (cases "jb_workers js ! i") auto
next
  case (dequeue i xs j ys)
  have "(\<Sum>g\<leftarrow>spawn (job_func j). Suc (weight g)) + 2 \<le> weight (job_func j)" using assms(2) by (simp add: fits_def)
  with worker_weight_set[of i "js\<lparr>jb_jobPool := xs @ ys\<rparr>" weight "InJob j (spawn (job_func j))" "weight (job_func j)"] dequeue
  show ?thesis by (simp add: shutdown_weight_def)
next
  case (miss i)
  then show ?thesis using worker_weight_set[of i js weight AtLoop 0] by simp
next
  case (submit i j f fs)
  then show ?thesis using sum_list_update[of i "jb_workers js" "worker_weight weight" "InJob j fs"]
    by (simp add: shutdown_weight_def)
next
  case (finish i j)
  then show ?thesis using worker_weight_set[of i js weight AtQueue 0] by simp
next
  case join
  then show ?thesis using shutdown_join_weight assms(4) by blast
qed

lemma worker_step_stopped: "worker_step spawn js e js' \<Longrightarrow> jb_isRunning js' = jb_isRunning js"
  by (erule worker_step.cases) (auto simp: shutdown_join_frame)

lemma worker_run_weight:
  assumes "job_run (worker_step spawn) js es js'" and "fits spawn weight" and "jb_isRunning js = 0" and "joined_inv js"
  shows "length es + shutdown_weight weight js' \<le> shutdown_weight weight js \<and> jb_isRunning js' = 0 \<and> joined_inv js'"
  using assms
proof induction
  case (more x es y e z)
  then have y: "length es + shutdown_weight weight y \<le> shutdown_weight weight x" "jb_isRunning y = 0" "joined_inv y" by auto
  with worker_step_weight[OF more(2,4) y(2,3)] worker_step_stopped[OF more(2)] worker_step_joined[OF more(2)]
  show ?case by auto
qed simp

lemma worker_can_step:
  assumes "jb_joining js = Joining i" and "joined_inv js" and "jb_isRunning js = 0"
  shows "\<exists>e js'. worker_step spawn js e js'"
proof (cases "i < jb_numThreads js")
  case False
  with assms have "shutdown_join js = Some (js\<lparr>jb_numThreads := 0, jb_joining := Free\<rparr>)"
    by (simp add: shutdown_join_def)
  then show ?thesis by (blast intro: worker_step.join)
next
  case True
  with assms have i: "i < length (jb_workers js)" by (simp add: joined_inv_def)
  show ?thesis
  proof (cases "jb_workers js ! i")
    case NoThread
    with True assms show ?thesis by (fastforce simp: shutdown_join_def intro: worker_step.join)
  next
    case AtLoop
    with i show ?thesis by (fastforce intro: worker_step.test)
  next
    case AtQueue
    with i show ?thesis by (fastforce intro: worker_step.miss)
  next
    case (InJob j fs)
    with i show ?thesis by (cases fs) (fastforce intro: worker_step.submit worker_step.finish)+
  next
    case Returned
    with True assms show ?thesis by (fastforce simp: shutdown_join_def intro: worker_step.join)
  qed
qed

text \<open>
  C10. A shutdown returns. Suppose what the jobs submit is bounded, in the sense that some weight
  of a job exceeds those of the jobs it submits. After \<open>Shutdown\<close> has cleared the flag and no
  other thread submits any more, the workers and the joining thread make at most as many steps as
  the weight says, in whatever order; and as long as \<open>Shutdown\<close> has not returned one of them can
  make a step. When none can, it has returned and no thread is left.
\<close>

theorem Shutdown_returns:
  assumes "jobs_Initialize n meJobSystem_new = Inr js" and "job_run (job_step spawn) js es js'"
    and "fits spawn weight" and "job_run (worker_step spawn) (shutdown_begin js') es' js''"
  shows "length es' \<le> shutdown_weight weight (shutdown_begin js') \<and>
    ((\<nexists>e s. worker_step spawn js'' e s) \<longrightarrow> jb_joining js'' = Free \<and> (\<forall>w\<in>set (jb_workers js''). w = NoThread))"
proof -
  have "joined_inv js'" using job_run_joined jobs_start_joined assms(1,2) by blast
  then have b: "joined_inv (shutdown_begin js')" "jb_isRunning (shutdown_begin js') = 0"
    by (simp add: joined_inv_begin) (simp add: shutdown_begin_def)
  note r = worker_run_weight[OF assms(4,3) b(2,1)]
  have "jb_joining js'' = Free" if "\<nexists>e s. worker_step spawn js'' e s"
    using that r worker_can_step by (cases "jb_joining js''") blast+
  with r show ?thesis by (auto simp: joined_inv_def in_set_conv_nth)
qed

text \<open>The run of one worker that is shut down before it looks at the queue.\<close>

definition note_late :: "nat meJobSystem" where
  "note_late = shutdown_begin (snd (jobs_Execute 7 note_jobs))"

definition note_left :: "nat meJobSystem" where
  "note_left = note_late\<lparr>jb_workers := replicate 32 NoThread, jb_numThreads := 0, jb_joining := Free\<rparr>"

lemma note_late_run: "job_run (job_step spawn) note_jobs ([] @ [Submitted \<lparr>job_func = 7, job_id = 0\<rparr>] @ [ShuttingDown]) note_late"
proof -
  have "jb_currentJobID note_jobs = 0" by (simp add: note_jobs_def meJobSystem_new_def)
  then have "job_run (job_step spawn) note_jobs ([] @ [Submitted \<lparr>job_func = 7, job_id = 0\<rparr>]) (snd (jobs_Execute 7 note_jobs))"
    using execute[of spawn note_jobs 7] by (intro job_run.more[OF job_run.none]) simp
  from job_run.more[OF this job_step.shutdown] show ?thesis by (simp add: note_late_def)
qed

lemma note_left_run: "job_run (worker_step spawn) note_late (([Silent] @ [Silent]) @ [Silent]) note_left"
proof -
  let ?a = "set_worker 0 Returned note_late"
  let ?b = "?a\<lparr>jb_workers := (jb_workers ?a)[0 := NoThread], jb_joining := Joining (Suc 0)\<rparr>"
  have s: "jb_workers note_late = AtLoop # replicate 31 NoThread" "jb_isRunning note_late = 0"
    "jb_joining note_late = Joining 0" "jb_numThreads note_late = 1"
    by (simp_all add: note_late_def shutdown_begin_def note_jobs_def)
  have "worker_step spawn note_late Silent ?a"
    by (rule worker_step.test) (simp_all add: s)
  then have "job_run (worker_step spawn) note_late ([] @ [Silent]) ?a" by (intro job_run.more[OF job_run.none])
  moreover have "worker_step spawn ?a Silent ?b"
    by (rule worker_step.join) (simp add: shutdown_join_def s set_worker_def)
  moreover have "worker_step spawn ?b Silent note_left"
    by (rule worker_step.join) (simp add: shutdown_join_def s set_worker_def note_left_def numeral_eq_Suc)
  ultimately show ?thesis by (metis append_Nil job_run.more)
qed

lemma job_run_worker: "job_run (worker_step spawn) x es y \<Longrightarrow> job_run (job_step spawn) x es y"
  by (induction rule: job_run.induct) (auto intro: job_run.intros job_step.worker)

lemma job_run_trans: "job_run st y es' z \<Longrightarrow> job_run st x es y \<Longrightarrow> job_run st x (es @ es') z"
proof (induction rule: job_run.induct)
  case (more y es' u e z)
  then show ?case using job_run.more[of st x "es @ es'" u e z] by simp
qed simp

lemma shutdown_leaves_jobs_witness:
  "\<exists>es. job_run (job_step (\<lambda>n. [])) note_jobs es note_left \<and> length (submitted es) = 1 \<and>
    (\<nexists>es' js''. job_run (job_step (\<lambda>n. [])) note_left es' js'' \<and> started es' \<noteq> [])"
proof -
  note r = job_run_trans[OF job_run_worker[OF note_left_run] note_late_run]
  have "jb_isRunning note_left = 0" "jb_joining note_left = Free"
    by (simp_all add: note_left_def note_late_def shutdown_begin_def note_jobs_def)
  with shutdown_leaves_jobs[OF note_jobs_started r] r show ?thesis by fastforce
qed

lemma note_left_stuck: "\<not> worker_step spawn note_left e s"
proof
  assume "worker_step spawn note_left e s"
  then show False
    by cases (auto simp: note_left_def shutdown_join_def)
qed

lemma Shutdown_returns_witness:
  "fits (\<lambda>n. replicate n 0) (\<lambda>n. 3 * n + 2) \<and>
    job_run (worker_step (\<lambda>n. replicate n (0::nat))) note_late (([Silent] @ [Silent]) @ [Silent]) note_left \<and>
    3 \<le> shutdown_weight (\<lambda>n. 3 * n + 2) note_late \<and>
    jb_joining note_left = Free \<and> set (jb_workers note_left) \<subseteq> {NoThread}"
proof -
  let ?spawn = "\<lambda>n. replicate n (0::nat)"
  have f: "fits ?spawn (\<lambda>n. 3 * n + 2)" by (simp add: fits_def sum_list_replicate)
  have r: "job_run (job_step ?spawn) note_jobs ([] @ [Submitted \<lparr>job_func = 7, job_id = jb_currentJobID note_jobs\<rparr>])
      (snd (jobs_Execute 7 note_jobs))"
    by (intro job_run.more[OF job_run.none] execute)
  note t = Shutdown_returns[OF note_jobs_started r f note_left_run[unfolded note_late_def]]
  show ?thesis using t f note_left_run note_left_stuck by (auto simp: note_late_def[symmetric])
qed

end
