(* ===== verification/Scenes.thy ===== *)
theory Scenes
  imports AssetLoads Arenas
begin

text \<open>
  The scene manager (\<open>scene/me_scene.h\<close>, \<open>scene/me_scene.cpp\<close>) on top of the asset system: the
  current scene, changing it while the worker loads, and what the main thread may rely on in
  between.
\<close>

section \<open>State and operations\<close>

text \<open>
  The engine's state as far as scenes go: the asset system with the worker's place in a load, the
  root scene, the arena that lives as long as a scene, and the assets \<open>onSceneLoaded\<close> of the user's
  program was told about.
\<close>

record game =
  gm_assets :: asset_system
  gm_work :: work
  gm_rootScene :: asset
  gm_sceneAllocator :: arena
  gm_onSceneLoaded :: "MAID list"

definition asset_default :: asset where
  "asset_default = asset_staged MAID_INVALID Unloaded"

abbreviation SCENE :: u32 where
  "SCENE \<equiv> meAssetType_value MAScene"

text \<open>
  The callback \<open>ChangeCurrentSceneAsync\<close> passes to the asset system: a function like others, known
  to it by a number.
\<close>

definition SCENE_CALLBACK :: nat where
  "SCENE_CALLBACK = 0"

definition scene_callback :: "MAID \<Rightarrow> game \<Rightarrow> game" where
  "scene_callback m g = (case meAssetTryGetTemplate (gm_assets g) m of
     None \<Rightarrow> g
   | Some asset \<Rightarrow> g\<lparr>gm_rootScene := asset, gm_onSceneLoaded := gm_onSceneLoaded g @ [m]\<rparr>)"

definition UnloadCurrentScene :: "game \<Rightarrow> game result" where
  "UnloadCurrentScene g =
     bindR (if isLoaded (gm_rootScene g)
            then bindR (meAssetUnloadBlocking (gm_assets g) [gm_rootScene g]) (\<lambda>(_, s).
                   Inr (g\<lparr>gm_assets := s, gm_rootScene := asset_default\<rparr>))
            else Inr g) (\<lambda>g.
       Inr (g\<lparr>gm_sceneAllocator := fst (Arena_meClear (gm_sceneAllocator g) False)\<rparr>))"

text \<open>A request that finds the scene loaded calls back before it returns.\<close>

definition ChangeCurrentSceneAsync :: "engine \<Rightarrow> StringView \<Rightarrow> game \<Rightarrow> game result" where
  "ChangeCurrentSceneAsync en filename g =
     bindR (meAssetIndexGetMAIDFromPath (en_resdir en) filename (sy_index (gm_assets g))) (\<lambda>sceneIdent.
       if \<not> MAID_bool sceneIdent \<or> maid_type sceneIdent \<noteq> SCENE then Inr g
       else bindR (UnloadCurrentScene g) (\<lambda>g.
            bindR (meAssetRequestLoadTemplate (Some SCENE_CALLBACK) (gm_assets g) [sceneIdent]) (\<lambda>(_, s).
            let loaded = sy_loaders (gm_assets g) SCENE \<noteq> None \<and> stage_of (gm_assets g) sceneIdent = Loaded;
                g = g\<lparr>gm_assets := s\<rparr>
            in Inr (if loaded then scene_callback sceneIdent g else g))))"

definition CurrentScene :: "game \<Rightarrow> nat result" where
  "CurrentScene g = RP_Get (sy_pools (gm_assets g) SCENE) (as_handle (gm_rootScene g))"

text \<open>\<open>Tick\<close> lets the input move the main camera of the current scene.\<close>

definition scene_Tick :: "(val \<Rightarrow> val) \<Rightarrow> game \<Rightarrow> game result" where
  "scene_Tick moveCamera g =
     bindR (CurrentScene g) (\<lambda>c.
     bindR (deref (sy_heap (gm_assets g) c)) (\<lambda>v.
       Inr (g\<lparr>gm_assets := put_content c (moveCamera v) (gm_assets g)\<rparr>)))"

text \<open>The blank scene the engine starts with.\<close>

definition meSceneInitializeLate :: "engine \<Rightarrow> u8 list \<Rightarrow> game \<Rightarrow> game result" where
  "meSceneInitializeLate en time g =
     bindR (meAssetCreateNewAsset en time (gm_assets g) MAScene meResourceType_InstanceAsset StringView_default)
       (\<lambda>(scene, s). Inr (g\<lparr>gm_assets := s, gm_rootScene := scene\<rparr>))"

section \<open>Runs of the engine\<close>

text \<open>
  The main thread and the worker interleaved. The only code that unloads assets is the scene
  manager, and only it passes its callback. The callback runs at the end of the worker's load.
\<close>

fun finished :: "work \<Rightarrow> MAID option" where
  "finished (Initialized m (Some cb)) = (if cb = SCENE_CALLBACK then Some m else None)"
| "finished _ = None"

definition call_scene :: "work \<Rightarrow> game \<Rightarrow> game" where
  "call_scene w g = (case finished w of None \<Rightarrow> g | Some m \<Rightarrow> scene_callback m g)"

inductive game_step :: "engine \<Rightarrow> game \<Rightarrow> game \<Rightarrow> bool" for en where
  request: "cb \<noteq> Some SCENE_CALLBACK \<Longrightarrow> meAssetRequestLoadTemplate cb (gm_assets g) ms = Inr (i, s') \<Longrightarrow>
    game_step en g (g\<lparr>gm_assets := s'\<rparr>)"
| request_write: "cb \<noteq> Some SCENE_CALLBACK \<Longrightarrow> meAssetRequestWriteTemplate cb (gm_assets g) ms = Inr (i, s') \<Longrightarrow>
    game_step en g (g\<lparr>gm_assets := s'\<rparr>)"
| create: "sCreateNewAssetID time (meAssetType_value type) = Inr m \<Longrightarrow> meAssetTryGetTemplate (gm_assets g) m = None \<Longrightarrow>
    pool_room (is_template rt) (sy_pools (gm_assets g) (meAssetType_value type)) \<Longrightarrow>
    meAssetCreateNewAsset en time (gm_assets g) type rt name = Inr (a, s') \<Longrightarrow> game_step en g (g\<lparr>gm_assets := s'\<rparr>)"
| register: "game_step en g (g\<lparr>gm_assets := (gm_assets g)\<lparr>sy_index :=
    meAssetIndexRegisterRelation path m (sy_index (gm_assets g))\<rparr>\<rparr>)"
| work: "worker_part en (gm_assets g, gm_work g) (s', w') \<Longrightarrow>
    game_step en g (call_scene (gm_work g) (g\<lparr>gm_assets := s', gm_work := w'\<rparr>))"
| change: "ChangeCurrentSceneAsync en filename g = Inr g' \<Longrightarrow> game_step en g g'"
| tick: "scene_Tick moveCamera g = Inr g' \<Longrightarrow> game_step en g g'"

inductive game_run :: "engine \<Rightarrow> game \<Rightarrow> game \<Rightarrow> bool" for en where
  none: "game_run en g g"
| more: "game_run en g g' \<Longrightarrow> game_step en g' g'' \<Longrightarrow> game_run en g g''"

section \<open>What the asset system leaves alone\<close>

text \<open>
  Everything but unloading keeps the instances in their slots, the loaded assets in the registry
  and the objects.
\<close>

definition kept :: "asset_system \<Rightarrow> asset_system \<Rightarrow> bool" where
  "kept s s' \<longleftrightarrow>
     (\<forall>t. \<forall>k\<in>live_slots False (sy_pools s t). k \<in> live_slots False (sy_pools s' t) \<and>
        slots False (sy_pools s' t) k = slots False (sy_pools s t) k) \<and>
     (\<forall>m a. meAssetTryGetTemplate s m = Some a \<longrightarrow> as_stage a = Loaded \<longrightarrow> meAssetTryGetTemplate s' m = Some a) \<and>
     (\<forall>c. sy_heap s c \<noteq> None \<longrightarrow> sy_heap s' c \<noteq> None)"

lemma kept_refl [simp]: "kept s s"
  by (simp add: kept_def)

lemma kept_trans: "kept s s' \<Longrightarrow> kept s' s'' \<Longrightarrow> kept s s''"
  unfolding kept_def by metis

lemma kept_frame [simp]:
  "kept s (fire e s') = kept s s'" "kept s (call_back cb m s') = kept s s'"
  "kept s (s'\<lparr>sy_index := ix\<rparr>) = kept s s'" "kept s (s'\<lparr>sy_files := fs\<rparr>) = kept s s'"
  "kept s (s'\<lparr>sy_jobs := js\<rparr>) = kept s s'" "kept s (snd (Execute jb s')) = kept s s'"
  "kept s (s'\<lparr>sy_next := n\<rparr>) = kept s s'" "kept s (s'\<lparr>sy_jobid := jid\<rparr>) = kept s s'"
  by (simp_all add: kept_def)

lemma kept_put_content: "kept s s' \<Longrightarrow> kept s (put_content c v s')"
  by (auto simp: kept_def)

lemma kept_put_asset: "kept s s' \<Longrightarrow> stage_of s' m \<noteq> Loaded \<Longrightarrow> kept s (put_asset m a s')"
  by (cases "MAID_bool m") (auto simp: kept_def stage_of_def split: option.splits)

lemma kept_put_pool:
  "kept s s' \<Longrightarrow> (\<And>k. k \<in> live_slots False (sy_pools s' t) \<Longrightarrow> k \<in> live_slots False p \<and>
     slots False p k = slots False (sy_pools s' t) k) \<Longrightarrow> kept s (put_pool t p s')"
  by (auto simp: kept_def)

lemma pool_load_keeps:
  assumes "pool_wf p" and "pool_room (is_template ty) p" and "RP_Load c p ty = Inr (h, p')"
    and "k \<in> live_slots False p"
  shows "k \<in> live_slots False p' \<and> slots False p' k = slots False p k"
proof -
  from RP_Create_ok[OF assms(1,2), of c] obtain j q where
    q: "RP_Create c p ty = Inr (Eye_make (of_nat j) (ucast (slot_generation (slots (is_template ty) p j))) (is_template ty), q)"
      "j \<notin> live_slots (is_template ty) p" "live_slots (is_template ty) q = insert j (live_slots (is_template ty) p)"
      "slots (is_template ty) q = (slots (is_template ty) p)(j := \<lparr>slot_obj = Some c,
         slot_generation = slot_generation (slots (is_template ty) p j), slot_inUse = False\<rparr>)"
      "assoc_pool (\<not> is_template ty) q = assoc_pool (\<not> is_template ty) p"
    by (auto simp: Let_def)
  moreover have "p' = q" using assms(3) q(1) by (simp add: RP_Load_def)
  ultimately show ?thesis using assms(4) by (cases "is_template ty") auto
qed

lemma pool_destroy_keeps:
  "RP_Destroy p h = Inr p' \<Longrightarrow> Eye_IsTemplateAsset h \<Longrightarrow> assoc_pool False p' = assoc_pool False p"
  by (auto simp: RP_Destroy_def Let_def elim!: bindR_InrE split: if_split_asm)

text \<open>The operations one by one.\<close>

lemma kept_request: "meAssetRequestLoadTemplate cb s ms = Inr (i, s') \<Longrightarrow> kept s s'"
proof (induction cb s ms rule: meAssetRequestLoadTemplate.induct)
  case (2 cb s m ms)
  have "kept s (call_back cb m s)" by simp
  moreover have "stage_of s m = Unloaded \<Longrightarrow> kept s (put_asset m (asset_staged m Loading) s)"
    by (intro kept_put_asset) simp_all
  ultimately show ?case
    using 2 kept_trans[of s "call_back cb m s" s']
    by (auto simp: meAssetRequestLoadTemplate.simps ME_ASSERT_Inr Execute_def split: if_split_asm)
qed (simp add: meAssetRequestLoadTemplate.simps)

lemma kept_request_write: "meAssetRequestWriteTemplate cb s ms = Inr (i, s') \<Longrightarrow> kept s s'"
  by (induction cb s ms rule: meAssetRequestWriteTemplate.induct) (auto simp: require_Inr Execute_def split: if_split_asm)

lemma kept_create:
  assumes inv: "asset_inv s w" and id: "sCreateNewAssetID time (meAssetType_value type) = Inr m"
    and fresh: "meAssetTryGetTemplate s m = None" and room: "pool_room (is_template rt) (sy_pools s (meAssetType_value type))"
    and run: "meAssetCreateNewAsset en time s type rt name = Inr (a, s')"
  shows "kept s s'"
proof -
  obtain eye pool content v ix where
    c: "RP_Load (sy_next s) (sy_pools s (meAssetType_value type)) rt = Inr (eye, pool)"
      "s' = (let s1 = (put_pool (meAssetType_value type) pool (put_content (sy_next s) v (s\<lparr>sy_next := Suc (sy_next s)\<rparr>)))\<lparr>sy_index := ix\<rparr>
             in if rt = meResourceType_TemplateAsset then put_asset m a s1 else s1)"
    by (rule create_parts[OF run id])
  let ?s1 = "(put_pool (meAssetType_value type) pool (put_content (sy_next s) v (s\<lparr>sy_next := Suc (sy_next s)\<rparr>)))\<lparr>sy_index := ix\<rparr>"
  have "kept s (put_pool (meAssetType_value type) pool (put_content (sy_next s) v (s\<lparr>sy_next := Suc (sy_next s)\<rparr>)))"
    by (intro kept_put_pool kept_put_content)
      (use pool_load_keeps[OF asset_invD(1)[OF inv] room c(1)] in simp_all)
  then have "kept s ?s1" by simp
  moreover have "stage_of ?s1 m \<noteq> Loaded" using fresh by (simp add: stage_of_def)
  ultimately show ?thesis using kept_put_asset[of s ?s1 m a] by (simp add: c(2) Let_def)
qed

lemma kept_load_file: "load_file en s m loader content = Inr (ok, s') \<Longrightarrow> kept s s'"
  by (auto simp: load_file_def Let_def elim!: bindR_InrE split: option.split_asm prod.split_asm if_split_asm
      intro!: kept_put_content) (drule kept_request, simp add: kept_def)+

lemma kept_compile_read: "compile_read en s m = Inr (ok, s') \<Longrightarrow> kept s s'"
  by (auto simp: compile_read_def Let_def ME_ASSERT_Inr elim!: bindR_InrE split: prod.split_asm if_split_asm
      intro!: kept_put_content) (erule kept_load_file)+

lemma kept_load_failure:
  assumes "load_failure s m a = Inr s'" and "stage_of s m \<noteq> Loaded"
    and "as_handle a \<noteq> EYE_INVALID \<Longrightarrow> Eye_IsTemplateAsset (as_handle a)"
  shows "kept s s'"
proof -
  have put: "kept s (put_asset m b s)" for b by (rule kept_put_asset) (use assms(2) in simp_all)
  from assms(1) consider "s' = put_asset m (a\<lparr>as_content := None, as_handle := EYE_INVALID, as_stage := Unloaded\<rparr>) s"
    | p where "as_handle a \<noteq> EYE_INVALID" "RP_Destroy (sy_pools s (maid_type m)) (as_handle a) = Inr p"
      "s' = put_pool (maid_type m) p (put_asset m (a\<lparr>as_content := None, as_handle := EYE_INVALID, as_stage := Unloaded\<rparr>) s)"
    by (auto simp: load_failure_def Let_def elim!: bindR_InrE split: if_split_asm)
  then show ?thesis
  proof cases
    case (2 p)
    have "assoc_pool False p = assoc_pool False (sy_pools s (maid_type m))"
      by (rule pool_destroy_keeps[OF 2(2) assms(3)[OF 2(1)]])
    then show ?thesis unfolding 2(3) by (intro kept_put_pool put) simp
  qed (use put in simp)
qed

lemma working_stage:
  assumes "asset_inv s w" "working w m"
  shows "stage_of s m \<noteq> Loaded"
  using asset_invD(2)[OF assms(1), of m] assms(2)
  by (auto simp: entry_ok_def stage_of_def split: option.splits meAssetLoadStage.splits)

lemma kept_initialize:
  assumes inv: "asset_inv s (Compiled m cb compiled)" and run: "load_initialize en s m compiled = Inr (ok, s')"
  shows "kept s s'"
proof -
  have w: "working (Compiled m cb compiled) m" by simp
  from working_entry[OF inv w] obtain a c where
    a: "meAssetTryGetTemplate s m = Some a" "MAID_bool m" "as_content a = Some c" "owns s m a" by blast
  have t: "Eye_IsTemplateAsset (as_handle a)" using a(4) by (auto simp: owns_def holds_slot_def)
  let ?s = "\<lambda>v. put_asset m (a\<lparr>as_stage := Loading\<rparr>) (put_content c v s)"
  have k: "kept s (?s v)" for v
    by (intro kept_put_asset kept_put_content) (use working_stage[OF inv w] in \<open>simp_all add: stage_of_def\<close>)
  have "kept s s'" if "load_failure (?s v) m (a\<lparr>as_stage := Loading\<rparr>) = Inr s'" for v
    by (rule kept_trans[OF k kept_load_failure[OF that]]) (use a(2) t in \<open>simp_all add: stage_of_def\<close>)
  moreover have "kept s s'" if "load_failure s m a = Inr s'"
    by (rule kept_load_failure[OF that working_stage[OF inv w] t])
  ultimately show ?thesis
    using run a(1,3) k
    by (auto simp: load_initialize_def Let_def elim!: bindR_InrE split: prod.split_asm if_split_asm)
qed

lemma kept_done:
  assumes inv: "asset_inv s (Initialized m cb)" and run: "load_done s m = Inr s'"
  shows "kept s s'"
proof -
  from run obtain i s1 a where
    r: "meAssetRequestLoadTemplate None s (meAssetIndexGetDependencies m (sy_index s)) = Inr (i, s1)"
      "s' = put_asset m (a\<lparr>as_stage := Loaded\<rparr>) s1"
    by (auto simp: load_done_def deref_Inr elim!: bindR_InrE)
  show ?thesis unfolding r(2)
    by (intro kept_put_asset kept_request[OF r(1)] working_stage[OF request_inv[OF r(1) inv]]) simp
qed

lemma kept_after_load: "after_load s m cb = Inr s' \<Longrightarrow> kept s s'"
  by (auto simp: after_load_def ME_ASSERT_Inr elim!: bindR_InrE split: if_split_asm)

lemma kept_write: "run_write en s m cb = Inr s' \<Longrightarrow> kept s s'"
  by (auto simp: run_write_def meAssetWrite_def Let_def ME_ASSERT_Inr require_Inr elim!: bindR_InrE
      split: option.split_asm prod.split_asm if_split_asm intro!: kept_put_content)

lemma kept_compile_begin:
  assumes inv: "asset_inv s Idle" and job: "sy_jobs s = xs @ LoadJob m cb # ys"
    and room: "pool_room True (sy_pools s (maid_type m))"
    and run: "compile_begin en (s\<lparr>sy_jobs := xs @ ys\<rparr>) m = Inr (already, s')"
  shows "kept s s'"
proof -
  obtain a where a: "meAssetTryGetTemplate s m = Some a" "as_id a = m" "as_stage a = Loading" "owns_nothing a"
    by (rule queued_entry[OF inv job])
  let ?s = "s\<lparr>sy_jobs := xs @ ys\<rparr>"
  have "meAssetTryGetTemplate ?s m = Some a" using a(1) by simp
  note start = compile_begin_unowned[OF this a(2,4), of en]
  from run[unfolded start] obtain blank handle pool content where
    r: "RP_Load (sy_next s) (sy_pools s (maid_type m)) meResourceType_TemplateAsset = Inr (handle, pool)"
      "s' = put_asset m (a\<lparr>as_stage := Compiling, as_handle := handle, as_content := content\<rparr>)
        (put_pool (maid_type m) pool (put_content (sy_next s) blank (?s\<lparr>sy_next := Suc (sy_next s)\<rparr>)))"
    by (auto elim!: bindR_InrE)
  have "pool_room (is_template meResourceType_TemplateAsset) (sy_pools s (maid_type m))"
    using room by (simp add: is_template_def)
  note p = pool_load_keeps[OF asset_invD(1)[OF inv] this r(1)]
  show ?thesis unfolding r(2)
    by (intro kept_put_asset kept_put_pool kept_put_content) (use p a(1,3) in \<open>auto simp: stage_of_def\<close>)
qed

lemma worker_part_kept:
  assumes "worker_part en (s, w) (s', w')" and "asset_inv s w"
  shows "kept s s'"
  using assms(1)
proof cases
  case (compile xs m cb ys)
  with assms(2) show ?thesis by (auto intro: kept_compile_begin)
next
  case (initialize m compiled ok cb)
  with assms(2) show ?thesis by (auto intro: kept_initialize)
next
  case (finish m s1 cb)
  with assms(2) have "kept s s1" by (auto intro: kept_done)
  with finish show ?thesis using kept_trans kept_after_load by blast
next
  case (write_file xs m cb ys)
  then have "kept (s\<lparr>sy_jobs := xs @ ys\<rparr>) s'" by (blast intro: kept_write)
  then show ?thesis by (auto simp: kept_def)
qed (use kept_compile_read in blast)

section \<open>The invariant of the scene manager\<close>

text \<open>
  The root scene refers to nothing, is a copy of the registry's entry of a loaded scene, or is an
  instance in its slot. The scene manager's callback waits in loads of scenes only. The slot of
  the pool's bad data has the generation of the invalid handle.
\<close>

definition holds_instance :: "asset_system \<Rightarrow> asset \<Rightarrow> bool" where
  "holds_instance s a \<longleftrightarrow> (let p = sy_pools s SCENE; k = unat (Eye_GetIndex (as_handle a)) in
     \<not> Eye_IsTemplateAsset (as_handle a) \<and> k \<noteq> 0 \<and> k \<in> live_slots False p \<and>
     slot_obj (slots False p k) = as_content a \<and>
     unat (slot_generation (slots False p k)) = unat (Eye_GetGeneration (as_handle a)) \<and>
     (\<exists>c. as_content a = Some c \<and> sy_heap s c \<noteq> None))"

definition root_ok :: "asset_system \<Rightarrow> asset \<Rightarrow> bool" where
  "root_ok s a \<longleftrightarrow> as_handle a = EYE_INVALID \<or>
     isLoaded a \<and> maid_type (as_id a) = SCENE \<and>
     (meAssetTryGetTemplate s (as_id a) = Some a \<or> holds_instance s a)"

fun scene_job :: "job \<Rightarrow> bool" where
  "scene_job (LoadJob m cb) \<longleftrightarrow> (cb = Some SCENE_CALLBACK \<longrightarrow> maid_type m = SCENE)"
| "scene_job (WriteJob m cb) = True"

fun scene_work :: "work \<Rightarrow> bool" where
  "scene_work Idle = True"
| "scene_work (Begun m cb) \<longleftrightarrow> (cb = Some SCENE_CALLBACK \<longrightarrow> maid_type m = SCENE)"
| "scene_work (Compiled m cb ok) \<longleftrightarrow> (cb = Some SCENE_CALLBACK \<longrightarrow> maid_type m = SCENE)"
| "scene_work (Initialized m cb) \<longleftrightarrow> (cb = Some SCENE_CALLBACK \<longrightarrow> maid_type m = SCENE)"

definition bad_slots :: "asset_system \<Rightarrow> bool" where
  "bad_slots s \<longleftrightarrow> (\<forall>t. slot_generation (slots False (sy_pools s t) 0) = 0)"

definition game_inv :: "game \<Rightarrow> bool" where
  "game_inv g \<longleftrightarrow> asset_inv (gm_assets g) (gm_work g) \<and> bad_slots (gm_assets g) \<and>
     root_ok (gm_assets g) (gm_rootScene g) \<and> list_all scene_job (sy_jobs (gm_assets g)) \<and> scene_work (gm_work g)"

lemma bad_slots_kept: "kept s s' \<Longrightarrow> asset_inv s w \<Longrightarrow> bad_slots s \<Longrightarrow> bad_slots s'"
  using pool_wf_parts(2)[OF asset_invD(1)] unfolding kept_def bad_slots_def by metis

lemma holds_instance_kept:
  assumes "kept s s'" and "holds_instance s a"
  shows "holds_instance s' a"
proof -
  let ?k = "unat (Eye_GetIndex (as_handle a))"
  have "?k \<in> live_slots False (sy_pools s SCENE)" using assms(2) by (simp add: holds_instance_def Let_def)
  with assms(1) have "?k \<in> live_slots False (sy_pools s' SCENE)"
    "slots False (sy_pools s' SCENE) ?k = slots False (sy_pools s SCENE) ?k" unfolding kept_def by blast+
  moreover have "\<And>c. sy_heap s c \<noteq> None \<Longrightarrow> sy_heap s' c \<noteq> None" using assms(1) by (simp add: kept_def)
  ultimately show ?thesis using assms(2) by (auto simp: holds_instance_def Let_def)
qed

lemma root_ok_kept: "kept s s' \<Longrightarrow> root_ok s a \<Longrightarrow> root_ok s' a"
  using holds_instance_kept[of s s' a] by (auto simp: root_ok_def kept_def isLoaded_def)

text \<open>What the operations add to the queue.\<close>

lemma jobs_request:
  "meAssetRequestLoadTemplate cb s ms = Inr (i, s') \<Longrightarrow> list_all scene_job (sy_jobs s) \<Longrightarrow>
    cb = Some SCENE_CALLBACK \<longrightarrow> (\<forall>m\<in>set ms. maid_type m = SCENE) \<Longrightarrow> list_all scene_job (sy_jobs s')"
  by (induction cb s ms rule: meAssetRequestLoadTemplate.induct)
    (auto simp: meAssetRequestLoadTemplate.simps ME_ASSERT_Inr Execute_def split: if_split_asm)

lemma jobs_request_write:
  "meAssetRequestWriteTemplate cb s ms = Inr (i, s') \<Longrightarrow> list_all scene_job (sy_jobs s) \<Longrightarrow> list_all scene_job (sy_jobs s')"
  by (induction cb s ms rule: meAssetRequestWriteTemplate.induct)
    (auto simp: require_Inr Execute_def split: if_split_asm)

lemma jobs_load_file:
  "load_file en s m loader content = Inr (ok, s') \<Longrightarrow> list_all scene_job (sy_jobs s) \<Longrightarrow> list_all scene_job (sy_jobs s')"
  by (auto simp: load_file_def Let_def elim!: bindR_InrE split: option.split_asm prod.split_asm if_split_asm)
    (drule jobs_request, simp_all)+

lemma jobs_compile_read:
  "compile_read en s m = Inr (ok, s') \<Longrightarrow> list_all scene_job (sy_jobs s) \<Longrightarrow> list_all scene_job (sy_jobs s')"
  by (auto simp: compile_read_def Let_def ME_ASSERT_Inr elim!: bindR_InrE split: prod.split_asm if_split_asm)
    (drule jobs_load_file, simp_all)+

lemma jobs_load_failure: "load_failure s m a = Inr s' \<Longrightarrow> sy_jobs s' = sy_jobs s"
  by (auto simp: load_failure_def Let_def elim!: bindR_InrE split: if_split_asm)

lemma jobs_initialize: "load_initialize en s m compiled = Inr (ok, s') \<Longrightarrow> sy_jobs s' = sy_jobs s"
  by (auto simp: load_initialize_def Let_def elim!: bindR_InrE split: prod.split_asm if_split_asm)
    (drule jobs_load_failure, simp)+

lemma jobs_done: "load_done s m = Inr s' \<Longrightarrow> list_all scene_job (sy_jobs s) \<Longrightarrow> list_all scene_job (sy_jobs s')"
  by (auto simp: load_done_def elim!: bindR_InrE) (drule jobs_request, simp_all)

lemma jobs_after_load: "after_load s m cb = Inr s' \<Longrightarrow> sy_jobs s' = sy_jobs s"
  by (auto simp: after_load_def ME_ASSERT_Inr elim!: bindR_InrE split: if_split_asm)

lemma jobs_write: "run_write en s m cb = Inr s' \<Longrightarrow> sy_jobs s' = sy_jobs s"
  by (auto simp: run_write_def meAssetWrite_def Let_def ME_ASSERT_Inr require_Inr elim!: bindR_InrE
      split: option.split_asm prod.split_asm if_split_asm)

lemma jobs_create: "meAssetCreateNewAsset en time s type rt name = Inr (a, s') \<Longrightarrow> sy_jobs s' = sy_jobs s"
  by (auto simp: meAssetCreateNewAsset_def Let_def ME_ASSERT_Inr elim!: bindR_InrE split: if_split_asm)

lemma jobs_compile_begin: "compile_begin en s m = Inr (already, s') \<Longrightarrow> sy_jobs s' = sy_jobs s"
  by (auto simp: compile_begin_def Let_def ME_ASSERT_Inr elim!: bindR_InrE split: if_split_asm)

lemma worker_part_jobs:
  assumes "worker_part en (s, w) (s', w')" and "list_all scene_job (sy_jobs s)" and "scene_work w"
  shows "list_all scene_job (sy_jobs s') \<and> scene_work w'"
  using assms(1)
proof cases
  case (compile xs m cb ys)
  with assms(2) jobs_compile_begin[OF compile(5)] show ?thesis by auto
next
  case (initialize m compiled ok cb)
  with assms(2,3) jobs_initialize[OF initialize(3)] show ?thesis by simp
next
  case (finish m s1 cb)
  with assms(2) jobs_done[OF finish(3)] jobs_after_load[OF finish(4)] show ?thesis by simp
next
  case (write_file xs m cb ys)
  with assms(2) jobs_write[OF write_file(4)] show ?thesis by simp
qed (use assms jobs_compile_read in auto)

text \<open>Unloading the root scene.\<close>

lemma unload_one_parts:
  assumes "unload_one s a = Inr (a', s')"
  shows "sy_jobs s' = sy_jobs s \<and> sy_loaders s' = sy_loaders s \<and> sy_index s' = sy_index s \<and> sy_events s' = sy_events s \<and>
    (sy_pools s' = sy_pools s \<or>
     (\<exists>p. RP_Destroy (sy_pools s (maid_type (as_id a))) (as_handle a) = Inr p \<and>
       sy_pools s' = (sy_pools s)(maid_type (as_id a) := p)))"
  using assms by (auto simp: unload_one_def Let_def ME_ASSERT_Inr elim!: bindR_InrE split: if_split_asm option.split_asm)

lemma destroy_bad_slot:
  assumes "pool_wf p" "unat (Eye_GetIndex h) \<in> live_slots (Eye_IsTemplateAsset h) p" "Eye_GetIndex h \<noteq> 0"
    and "RP_Destroy p h = Inr p'"
  shows "slots False p' 0 = slots False p 0"
proof -
  have "unat (Eye_GetIndex h) \<noteq> 0" using assms(3) by (simp add: unat_eq_zero)
  with RP_Destroy_ok[OF assms(1-3)] assms(4) show ?thesis
    by (cases "Eye_IsTemplateAsset h") (auto simp: Let_def)
qed

lemma root_live:
  assumes "asset_inv s w" and "root_ok s a" and "isLoaded a"
  shows "maid_type (as_id a) = SCENE" and "Eye_GetIndex (as_handle a) \<noteq> 0"
    and "unat (Eye_GetIndex (as_handle a)) \<in> live_slots (Eye_IsTemplateAsset (as_handle a)) (sy_pools s SCENE)"
    and "Eye_IsTemplateAsset (as_handle a) \<Longrightarrow> meAssetTryGetTemplate s (as_id a) = Some a"
proof -
  have st: "as_stage a = Loaded" "as_handle a \<noteq> EYE_INVALID" using assms(3) by (simp_all add: isLoaded_def)
  show t: "maid_type (as_id a) = SCENE" using assms(2) st by (auto simp: root_ok_def)
  have c: "meAssetTryGetTemplate s (as_id a) = Some a \<or> holds_instance s a" using assms(2) st by (auto simp: root_ok_def)
  then show "Eye_IsTemplateAsset (as_handle a) \<Longrightarrow> meAssetTryGetTemplate s (as_id a) = Some a"
    by (auto simp: holds_instance_def Let_def)
  from c have "Eye_GetIndex (as_handle a) \<noteq> 0 \<and>
    unat (Eye_GetIndex (as_handle a)) \<in> live_slots (Eye_IsTemplateAsset (as_handle a)) (sy_pools s SCENE)"
  proof
    assume a: "meAssetTryGetTemplate s (as_id a) = Some a"
    obtain d where "holds_slot (sy_pools s (maid_type (as_id a))) (as_handle a) d" by (rule loaded_entry[OF assms(1) a st(1)])
    then show ?thesis unfolding t by (simp add: holds_slot_def)
  qed (auto simp: holds_instance_def Let_def)
  then show "Eye_GetIndex (as_handle a) \<noteq> 0"
    "unat (Eye_GetIndex (as_handle a)) \<in> live_slots (Eye_IsTemplateAsset (as_handle a)) (sy_pools s SCENE)" by simp_all
qed

lemma unload_root:
  assumes inv: "asset_inv s w" and ok: "root_ok s a" and l: "isLoaded a" and bad: "bad_slots s"
    and run: "unload_one s a = Inr (a', s')"
  shows "asset_inv s' w \<and> bad_slots s' \<and> sy_jobs s' = sy_jobs s"
proof -
  have st: "as_stage a = Loaded" using l by (simp add: isLoaded_def)
  note r = root_live[OF inv ok l]
  have "asset_inv s' w"
  proof (cases "Eye_IsTemplateAsset (as_handle a)")
    case True
    from unload_template_inv(1)[OF inv r(4)[OF True] st run] show ?thesis .
  next
    case False
    then show ?thesis using unload_instance_inv[OF inv _ r(2) _ run] r(1,3) by simp
  qed
  moreover have "bad_slots s'"
    using unload_one_parts[OF run] bad destroy_bad_slot[OF asset_invD(1)[OF inv] r(3,2)] r(1)
    by (auto simp: bad_slots_def)
  ultimately show ?thesis using unload_one_parts[OF run] by simp
qed

lemma root_ok_default [simp]: "root_ok s asset_default"
  by (simp add: root_ok_def asset_default_def asset_staged_def)

lemma UnloadCurrentScene_inv:
  assumes "UnloadCurrentScene g = Inr g'" and "game_inv g"
  shows "game_inv g' \<and> \<not> isLoaded (gm_rootScene g') \<and> gm_work g' = gm_work g"
proof (cases "isLoaded (gm_rootScene g)")
  case True
  from assms(1) True obtain a' s' ar where
    u: "unload_one (gm_assets g) (gm_rootScene g) = Inr (a', s')"
      "g' = g\<lparr>gm_assets := s', gm_rootScene := asset_default, gm_sceneAllocator := ar\<rparr>"
    by (auto simp: UnloadCurrentScene_def elim!: bindR_InrE)
  have i: "asset_inv (gm_assets g) (gm_work g)" "root_ok (gm_assets g) (gm_rootScene g)" "bad_slots (gm_assets g)"
    using assms(2) by (simp_all add: game_inv_def)
  from unload_root[OF i(1,2) True i(3) u(1)] assms(2) show ?thesis
    by (simp add: u(2) game_inv_def isLoaded_def asset_default_def asset_staged_def root_ok_def)
next
  case False
  with assms show ?thesis by (auto simp: UnloadCurrentScene_def game_inv_def)
qed

text \<open>The scene manager's callback makes a loaded scene the root.\<close>

lemma scene_callback_inv:
  assumes "game_inv g" and "stage_of (gm_assets g) m = Loaded" and "maid_type m = SCENE"
  shows "game_inv (scene_callback m g)" and "isLoaded (gm_rootScene (scene_callback m g))"
    and "as_id (gm_rootScene (scene_callback m g)) = m"
    and "gm_onSceneLoaded (scene_callback m g) = gm_onSceneLoaded g @ [m]"
proof -
  obtain a where a: "meAssetTryGetTemplate (gm_assets g) m = Some a" "as_stage a = Loaded"
    using assms(2) by (auto simp: stage_of_def split: option.splits)
  have inv: "asset_inv (gm_assets g) (gm_work g)" using assms(1) by (simp add: game_inv_def)
  obtain c where c: "as_id a = m" "holds_slot (sy_pools (gm_assets g) (maid_type m)) (as_handle a) c"
    by (rule loaded_entry[OF inv a])
  have l: "isLoaded a" using a(2) holds_slot_valid[OF c(2)] by (simp add: isLoaded_def)
  have s: "scene_callback m g = g\<lparr>gm_rootScene := a, gm_onSceneLoaded := gm_onSceneLoaded g @ [m]\<rparr>"
    by (simp add: scene_callback_def a(1))
  show "game_inv (scene_callback m g)" using assms(1,3) a(1) c(1) l by (simp add: s game_inv_def root_ok_def)
  show "isLoaded (gm_rootScene (scene_callback m g))" "as_id (gm_rootScene (scene_callback m g)) = m"
    "gm_onSceneLoaded (scene_callback m g) = gm_onSceneLoaded g @ [m]" using l c(1) by (simp_all add: s)
qed

lemma game_inv_assets:
  assumes "game_inv g" and "kept (gm_assets g) s'" and "asset_inv s' w'" and "list_all scene_job (sy_jobs s')" and "scene_work w'"
  shows "game_inv (g\<lparr>gm_assets := s', gm_work := w'\<rparr>)"
  using assms bad_slots_kept[OF assms(2)] root_ok_kept[OF assms(2)] by (auto simp: game_inv_def)

lemma ChangeCurrentSceneAsync_inv:
  assumes "ChangeCurrentSceneAsync en filename g = Inr g'" and "game_inv g"
  shows "game_inv g'"
proof -
  consider "g' = g" | m g1 i s' where "MAID_bool m" "maid_type m = SCENE" "UnloadCurrentScene g = Inr g1"
      "meAssetRequestLoadTemplate (Some SCENE_CALLBACK) (gm_assets g1) [m] = Inr (i, s')"
      "g' = (if sy_loaders (gm_assets g1) SCENE \<noteq> None \<and> stage_of (gm_assets g1) m = Loaded
             then scene_callback m (g1\<lparr>gm_assets := s'\<rparr>) else g1\<lparr>gm_assets := s'\<rparr>)"
    using assms(1) by (auto simp: ChangeCurrentSceneAsync_def Let_def elim!: bindR_InrE split: if_split_asm)
  then show ?thesis
  proof cases
    case (2 m g1 i s')
    from UnloadCurrentScene_inv[OF 2(3) assms(2)] have g1: "game_inv g1" by simp
    then have inv: "asset_inv (gm_assets g1) (gm_work g1)" "list_all scene_job (sy_jobs (gm_assets g1))" "scene_work (gm_work g1)"
      by (simp_all add: game_inv_def)
    have "list_all scene_job (sy_jobs s')" using jobs_request[OF 2(4) inv(2)] 2(2) by simp
    from game_inv_assets[OF g1 kept_request[OF 2(4)] request_inv[OF 2(4) inv(1)] this inv(3)]
    have g2: "game_inv (g1\<lparr>gm_assets := s'\<rparr>)" by simp
    show ?thesis
    proof (cases "sy_loaders (gm_assets g1) SCENE \<noteq> None \<and> stage_of (gm_assets g1) m = Loaded")
      case True
      then have "stage_of s' m = Loaded" using 2(2,4) kept_request[OF 2(4)]
        by (auto simp: stage_of_def kept_def split: option.splits)
      from scene_callback_inv(1)[OF g2 _ 2(2)] this True 2(5) show ?thesis by simp
    qed (use g2 2(5) in auto)
  qed (use assms(2) in simp)
qed

lemma after_load_stage: "after_load s m cb = Inr s' \<Longrightarrow> stage_of s' m = stage_of s m"
  by (auto simp: after_load_def ME_ASSERT_Inr stage_of_def elim!: bindR_InrE split: if_split_asm)

lemma load_done_stage: "load_done s m = Inr s' \<Longrightarrow> stage_of s' m = Loaded"
  by (auto simp: load_done_def stage_of_def deref_Inr TryGet_valid elim!: bindR_InrE)

lemma work_inv:
  assumes "worker_part en (gm_assets g, gm_work g) (s', w')" and "game_inv g"
  shows "game_inv (call_scene (gm_work g) (g\<lparr>gm_assets := s', gm_work := w'\<rparr>))"
proof -
  have g: "asset_inv (gm_assets g) (gm_work g)" "list_all scene_job (sy_jobs (gm_assets g))" "scene_work (gm_work g)"
    using assms(2) by (simp_all add: game_inv_def)
  note j = worker_part_jobs[OF assms(1) g(2,3)]
  have g': "game_inv (g\<lparr>gm_assets := s', gm_work := w'\<rparr>)"
    by (rule game_inv_assets[OF assms(2) worker_part_kept[OF assms(1) g(1)]])
      (use worker_part_inv[OF assms(1)] g(1) j in simp_all)
  show ?thesis
  proof (cases "finished (gm_work g)")
    case (Some m)
    then have w: "gm_work g = Initialized m (Some SCENE_CALLBACK)"
      by (cases "gm_work g" rule: finished.cases) (auto split: if_splits)
    have "stage_of s' m = Loaded"
      using assms(1) unfolding w by cases (use load_done_stage after_load_stage in auto)
    moreover have "maid_type m = SCENE" using g(3) w by simp
    ultimately show ?thesis using scene_callback_inv(1)[OF g', of m] Some by (simp add: call_scene_def)
  qed (use g' in \<open>simp add: call_scene_def\<close>)
qed

lemma game_step_inv:
  assumes "game_step en g g'" and "game_inv g"
  shows "game_inv g'"
proof -
  have g: "asset_inv (gm_assets g) (gm_work g)" "list_all scene_job (sy_jobs (gm_assets g))" "scene_work (gm_work g)"
    using assms(2) by (simp_all add: game_inv_def)
  note keep = game_inv_assets[OF assms(2), where w' = "gm_work g"]
  from assms(1) show ?thesis
  proof cases
    case (request cb ms i s')
    have "list_all scene_job (sy_jobs s')" using jobs_request[OF request(3) g(2)] request(2) by simp
    from keep[OF kept_request[OF request(3)] request_inv[OF request(3) g(1)] this g(3)] show ?thesis by (simp add: request(1))
  next
    case (request_write cb ms i s')
    note r = request_write(3)
    from keep[OF kept_request_write[OF r] request_write_inv[OF r g(1)] jobs_request_write[OF r g(2)] g(3)]
    show ?thesis by (simp add: request_write(1))
  next
    case (create time type m rt name a s')
    from keep[OF kept_create[OF g(1) create(2-5)] create_inv[OF g(1) create(2-5)] _ g(3)] jobs_create[OF create(5)] g(2)
    show ?thesis by (simp add: create(1))
  next
    case (register path m)
    let ?s = "(gm_assets g)\<lparr>sy_index := meAssetIndexRegisterRelation path m (sy_index (gm_assets g))\<rparr>"
    from keep[of ?s] g asset_inv_index[OF g(1)] show ?thesis by (simp add: register)
  next
    case (work s' w')
    with work_inv assms(2) show ?thesis by simp
  next
    case (change filename)
    with ChangeCurrentSceneAsync_inv assms(2) show ?thesis by blast
  next
    case (tick moveCamera)
    then obtain c v where c: "g' = g\<lparr>gm_assets := put_content c v (gm_assets g)\<rparr>"
      by (auto simp: scene_Tick_def elim!: bindR_InrE)
    from keep[OF kept_put_content[OF kept_refl] asset_inv_put_content[OF g(1)] _ g(3), of c v] g(2)
    show ?thesis by (simp add: c)
  qed
qed

lemma game_run_inv: "game_run en g g' \<Longrightarrow> game_inv g \<Longrightarrow> game_inv g'"
  by (induction rule: game_run.induct) (auto intro: game_step_inv)

section \<open>The current scene\<close>

lemma pool_load_instance:
  assumes "pool_wf p" and "pool_room False p" and "RP_Load c p meResourceType_InstanceAsset = Inr (h, p')"
    and "RP_GetShared p' h = Inr x"
  shows "x = Some c \<and> \<not> Eye_IsTemplateAsset h \<and> unat (Eye_GetIndex h) \<noteq> 0 \<and> unat (Eye_GetIndex h) \<in> live_slots False p' \<and>
    slot_obj (slots False p' (unat (Eye_GetIndex h))) = Some c \<and>
    unat (slot_generation (slots False p' (unat (Eye_GetIndex h)))) = unat (Eye_GetGeneration h)"
proof -
  from RP_Create_ok[of p meResourceType_InstanceAsset c] assms(1,2) obtain k q where
    q: "RP_Create c p meResourceType_InstanceAsset = Inr (Eye_make (of_nat k) (ucast (slot_generation (slots False p k))) False, q)"
      "pool_wf q" "0 < k" "k < 8388608" "live_slots False q = insert k (live_slots False p)"
      "slots False q = (slots False p)(k := \<lparr>slot_obj = Some c, slot_generation = slot_generation (slots False p k), slot_inUse = False\<rparr>)"
    by (auto simp: Let_def is_template_def)
  then have h: "h = Eye_make (of_nat k) (ucast (slot_generation (slots False p k))) False" "p' = q"
    using assms(3) by (simp_all add: RP_Load_def)
  have i: "unat (Eye_GetIndex h) = k" "\<not> Eye_IsTemplateAsset h"
    using q(4) h(1) by (simp_all only: Eye_GetIndex_of_nat Eye_IsTemplateAsset_make not_False_eq_True)
  have live: "unat (Eye_GetIndex h) \<in> live_slots (Eye_IsTemplateAsset h) p'" using i q(5) h(2) by simp
  have "ME_ASSERT (unat (slot_generation (slots False p k)) = unat (Eye_GetGeneration h)) (Inr (Some c)) = Inr x"
    using assms(4) RP_GetShared_live[OF _ live] q(2,6) h(2) i by (simp add: Let_def)
  then have "unat (slot_generation (slots False p k)) = unat (Eye_GetGeneration h)" "x = Some c"
    by (auto simp: ME_ASSERT_Inr)
  then show ?thesis using i q(3,5,6) h(2) by simp
qed

text \<open>The engine once its loaders are registered, before the blank scene is made.\<close>

definition game_start :: "asset_system \<Rightarrow> arena \<Rightarrow> game" where
  "game_start s arena = \<lparr>gm_assets = s, gm_work = Idle, gm_rootScene = asset_default, gm_sceneAllocator = arena,
     gm_onSceneLoaded = []\<rparr>"

definition fresh_pools :: "(u32 \<Rightarrow> nat pool) \<Rightarrow> bool" where
  "fresh_pools pools \<longleftrightarrow> (\<forall>t. \<exists>x a b. meResourcePool x (Some a) (Some b) = Inr (pools t))"

lemma fresh_pools_D:
  assumes "fresh_pools pools"
  shows "pool_wf (pools t)" and "pool_room u (pools t)" and "slot_generation (slots u (pools t) 0) = 0"
proof -
  from assms obtain x a b where "meResourcePool x (Some a) (Some b) = Inr (pools t)" unfolding fresh_pools_def by blast
  with pool_new_wf[of x a b]
  have p: "pool_wf (pools t)" "\<forall>t'. length (blocks (assoc_pool t' (pools t))) = 1"
    "\<forall>t'. slots t' (pools t) = (\<lambda>_. slot_default)(0 := \<lparr>slot_obj = Some x, slot_generation = 0, slot_inUse = True\<rparr>)"
    by auto
  then show "pool_wf (pools t)" "pool_room u (pools t)" "slot_generation (slots u (pools t) 0) = 0"
    by (simp_all add: pool_room_def)
qed

lemma game_inv_start:
  assumes pools: "fresh_pools pools"
    and run: "meSceneInitializeLate en time (game_start (asset_system_start pools loaders index files) arena) = Inr g"
  shows "game_inv g" and "isLoaded (gm_rootScene g)" and "gm_work g = Idle"
proof -
  let ?s = "asset_system_start pools loaders index files"
  obtain m where m: "sCreateNewAssetID time (meAssetType_value MAScene) = Inr m"
    using run by (auto simp: meSceneInitializeLate_def meAssetCreateNewAsset_def Let_def elim!: bindR_InrE)
  from run obtain a s' where
    c: "meAssetCreateNewAsset en time ?s MAScene meResourceType_InstanceAsset StringView_default = Inr (a, s')"
      "g = (game_start ?s arena)\<lparr>gm_assets := s', gm_rootScene := a\<rparr>"
    by (auto simp: meSceneInitializeLate_def game_start_def elim!: bindR_InrE)
  have inv: "asset_inv ?s Idle" by (rule asset_inv_start) (use fresh_pools_D(1)[OF pools] in blast)
  have fresh: "meAssetTryGetTemplate ?s m = None" by simp
  have room: "pool_room False (pools SCENE)" by (rule fresh_pools_D(2)[OF pools])
  have pools_start: "sy_pools ?s = pools" by (simp add: asset_system_start_def)
  have room': "pool_room (is_template meResourceType_InstanceAsset) (sy_pools ?s (meAssetType_value MAScene))"
    using room by (simp add: is_template_def pools_start)
  note t = sCreateNewAssetID_type[OF m]
  obtain eye pool content v ix where
    p: "RP_Load (sy_next ?s) (sy_pools ?s SCENE) meResourceType_InstanceAsset = Inr (eye, pool)"
      "RP_GetShared pool eye = Inr content" "a = (asset_handled eye m)\<lparr>as_content := content\<rparr>"
      "s' = (let s1 = (put_pool SCENE pool (put_content (sy_next ?s) v (?s\<lparr>sy_next := Suc (sy_next ?s)\<rparr>)))\<lparr>sy_index := ix\<rparr>
             in if meResourceType_InstanceAsset = meResourceType_TemplateAsset then put_asset m a s1 else s1)"
    by (rule create_parts[OF c(1) m])
  have s': "s' = (put_pool SCENE pool (put_content (sy_next ?s) v (?s\<lparr>sy_next := Suc (sy_next ?s)\<rparr>)))\<lparr>sy_index := ix\<rparr>"
    using p(4) by simp
  note q = pool_load_instance[OF fresh_pools_D(1)[OF pools] room p(1)[unfolded pools_start] p(2)]
  have e: "as_handle a = eye" "as_content a = content" "as_id a = m" by (simp_all add: p(3) asset_handled_def)
  have nz: "eye \<noteq> EYE_INVALID" using q by (auto simp: EYE_INVALID_def Eye_zero)
  then have l: "isLoaded a" by (simp add: p(3) asset_handled_def isLoaded_def Eye_bool_def EYE_INVALID_def)
  have "holds_instance s' a" unfolding holds_instance_def Let_def e using q by (simp add: s')
  then have root: "root_ok s' a" using l t e(3) by (simp add: root_ok_def)
  have bad: "bad_slots ?s" using fresh_pools_D(3)[OF pools] by (simp add: bad_slots_def pools_start)
  show "game_inv g"
    using create_inv[OF inv m fresh room' c(1)] bad_slots_kept[OF kept_create[OF inv m fresh room' c(1)] inv bad] root
      jobs_create[OF c(1)]
    by (simp add: game_inv_def c(2) game_start_def) (simp add: asset_system_start_def)
  show "isLoaded (gm_rootScene g)" "gm_work g = Idle" using l by (simp_all add: c(2) game_start_def)
qed

lemma CurrentScene_ok:
  assumes "game_inv g"
  shows "\<exists>c. CurrentScene g = Inr c \<and>
    (if isLoaded (gm_rootScene g) then as_content (gm_rootScene g) = Some c \<and> sy_heap (gm_assets g) c \<noteq> None
     else RP_GetBadData (sy_pools (gm_assets g) SCENE) = Inr c)"
proof -
  let ?s = "gm_assets g" and ?a = "gm_rootScene g"
  let ?p = "sy_pools ?s SCENE"
  have g: "asset_inv ?s (gm_work g)" "bad_slots ?s" "root_ok ?s ?a" using assms by (simp_all add: game_inv_def)
  note wf = asset_invD(1)[OF g(1), of SCENE]
  show ?thesis
  proof (cases "as_handle ?a = EYE_INVALID")
    case True
    have "slot_obj (slots False ?p 0) \<noteq> None" "0 \<in> live_slots False ?p" using pool_wf_parts(2,4)[OF wf] by blast+
    moreover have "slot_generation (slots False ?p 0) = 0" using g(2) by (simp add: bad_slots_def)
    ultimately obtain c where "RP_Get ?p EYE_INVALID = Inr c"
      using RP_Get_live[OF wf, of EYE_INVALID] by (auto simp: EYE_INVALID_def Eye_zero Let_def)
    with True show ?thesis by (simp add: CurrentScene_def RP_GetBadData_def isLoaded_def)
  next
    case False
    then have l: "isLoaded ?a" "as_stage ?a = Loaded" "maid_type (as_id ?a) = SCENE"
      and c: "meAssetTryGetTemplate ?s (as_id ?a) = Some ?a \<or> holds_instance ?s ?a"
      using g(3) by (auto simp: root_ok_def isLoaded_def)
    from c have "\<exists>c. RP_Get ?p (as_handle ?a) = Inr c \<and> as_content ?a = Some c \<and> sy_heap ?s c \<noteq> None"
    proof
      assume t: "meAssetTryGetTemplate ?s (as_id ?a) = Some ?a"
      obtain c where "as_content ?a = Some c" "holds_slot (sy_pools ?s (maid_type (as_id ?a))) (as_handle ?a) c" "sy_heap ?s c \<noteq> None"
        by (rule loaded_entry[OF g(1) t l(2)])
      then show ?thesis using RP_Get_live[OF wf, of "as_handle ?a"] l(3) by (simp add: holds_slot_def Let_def)
    next
      assume "holds_instance ?s ?a"
      then show ?thesis using RP_Get_live[OF wf, of "as_handle ?a"] by (auto simp: holds_instance_def Let_def)
    qed
    with l(1) show ?thesis by (auto simp: CurrentScene_def)
  qed
qed

text \<open>
  C3. The main thread can always ask for the current scene. In every state of every run of the
  engine - requests, creations, ticks and scene changes interleaved with the worker's loads,
  whether they succeed or not - \<open>CurrentScene\<close> returns without an assertion: the content of the
  root scene if one is loaded, else the bad-data scene of the pool, which is what the main thread
  ticks and renders while the next scene is on its way, and for good if its load fails.
\<close>

theorem CurrentScene_always:
  assumes "fresh_pools pools"
    and "meSceneInitializeLate en time (game_start (asset_system_start pools loaders index files) arena) = Inr g"
    and "game_run en g g'"
  shows "\<exists>c. CurrentScene g' = Inr c \<and>
    (if isLoaded (gm_rootScene g') then as_content (gm_rootScene g') = Some c \<and> sy_heap (gm_assets g') c \<noteq> None
     else RP_GetBadData (sy_pools (gm_assets g') SCENE) = Inr c)"
  using CurrentScene_ok game_run_inv[OF assms(3)] game_inv_start(1)[OF assms(1,2)] by blast

section \<open>Changing the scene\<close>

lemma unload_root_ok:
  assumes inv: "asset_inv s w" and ok: "root_ok s a" and l: "isLoaded a" and loader: "sy_loaders s SCENE \<noteq> None"
  shows "\<exists>a' s'. unload_one s a = Inr (a', s') \<and> RP_Get (sy_pools s' SCENE) (as_handle a) = Inl AssertFailed \<and>
    (\<forall>m. stage_of s' m = (if Eye_IsTemplateAsset (as_handle a) \<and> m = as_id a then Unloaded else stage_of s m)) \<and>
    sy_loaders s' = sy_loaders s \<and> sy_jobs s' = sy_jobs s"
proof -
  note r = root_live[OF inv ok l] and wf = asset_invD(1)[OF inv, of SCENE]
  from RP_Destroy_ok[OF wf r(3,2)] obtain p where
    p: "RP_Destroy (sy_pools s SCENE) (as_handle a) = Inr p" "pool_wf p"
      "live_slots (Eye_IsTemplateAsset (as_handle a)) p =
        live_slots (Eye_IsTemplateAsset (as_handle a)) (sy_pools s SCENE) - {unat (Eye_GetIndex (as_handle a))}"
    by (auto simp: Let_def)
  have dead: "RP_Get p (as_handle a) = Inl AssertFailed" by (rule RP_Get_dead[OF p(2)]) (simp add: p(3))
  have valid: "meAssetTypeIsValid 1" by code_simp
  have h: "as_handle a \<noteq> EYE_INVALID" using l by (simp add: isLoaded_def)
  show ?thesis
  proof (cases "Eye_IsTemplateAsset (as_handle a)")
    case True
    then show ?thesis
      using r(1) r(4)[OF True] TryGet_valid[OF r(4)[OF True]] p(1) dead valid h loader
      by (auto simp: unload_one_def Let_def ME_ASSERT_def stage_of_def)
  next
    case False
    then show ?thesis
      using r(1) p(1) dead valid h loader by (auto simp: unload_one_def Let_def ME_ASSERT_def stage_of_def)
  qed
qed

text \<open>What unloading the current scene does in every state of a run.\<close>

lemma UnloadCurrentScene_ok:
  assumes "game_inv g" and "sy_loaders (gm_assets g) SCENE \<noteq> None"
  shows "\<exists>g'. UnloadCurrentScene g = Inr g' \<and> \<not> isLoaded (gm_rootScene g') \<and> gm_work g' = gm_work g \<and>
    offset (gm_sceneAllocator g') = 0 \<and> gm_onSceneLoaded g' = gm_onSceneLoaded g \<and>
    sy_jobs (gm_assets g') = sy_jobs (gm_assets g) \<and> sy_loaders (gm_assets g') = sy_loaders (gm_assets g) \<and>
    (isLoaded (gm_rootScene g) \<longrightarrow> RP_Get (sy_pools (gm_assets g') SCENE) (as_handle (gm_rootScene g)) = Inl AssertFailed) \<and>
    (\<forall>m. stage_of (gm_assets g') m =
       (if isLoaded (gm_rootScene g) \<and> Eye_IsTemplateAsset (as_handle (gm_rootScene g)) \<and> m = as_id (gm_rootScene g)
        then Unloaded else stage_of (gm_assets g) m))"
proof (cases "isLoaded (gm_rootScene g)")
  case True
  have "asset_inv (gm_assets g) (gm_work g)" "root_ok (gm_assets g) (gm_rootScene g)" using assms(1) by (simp_all add: game_inv_def)
  from unload_root_ok[OF this True assms(2)] True show ?thesis
    by (auto simp: UnloadCurrentScene_def Arena_meClear_def ArenaClear_def isLoaded_def asset_default_def asset_staged_def)
next
  case False
  then show ?thesis by (auto simp: UnloadCurrentScene_def Arena_meClear_def ArenaClear_def)
qed

definition scene_reloads :: "game \<Rightarrow> MAID \<Rightarrow> bool" where
  "scene_reloads g m \<longleftrightarrow> isLoaded (gm_rootScene g) \<and> Eye_IsTemplateAsset (as_handle (gm_rootScene g)) \<and>
     as_id (gm_rootScene g) = m"

text \<open>
  C15. Changing to a scene that is not loaded, or to the current one again, gives up the current
  scene at once - its handle fails from then on, its arena is empty, \<open>CurrentScene\<close> is the
  bad-data scene - and queues one load of the new scene.
\<close>

theorem ChangeCurrentScene_starts:
  assumes "game_inv g" and "sy_loaders (gm_assets g) SCENE \<noteq> None"
    and "meAssetIndexGetMAIDFromPath (en_resdir en) filename (sy_index (gm_assets g)) = Inr m"
    and "MAID_bool m" and "maid_type m = SCENE" and "stage_of (gm_assets g) m = Unloaded \<or> scene_reloads g m"
  shows "\<exists>g'. ChangeCurrentSceneAsync en filename g = Inr g' \<and>
    \<not> isLoaded (gm_rootScene g') \<and> offset (gm_sceneAllocator g') = 0 \<and>
    (isLoaded (gm_rootScene g) \<longrightarrow> RP_Get (sy_pools (gm_assets g') SCENE) (as_handle (gm_rootScene g)) = Inl AssertFailed) \<and>
    CurrentScene g' = RP_GetBadData (sy_pools (gm_assets g') SCENE) \<and>
    stage_of (gm_assets g') m = Loading \<and>
    sy_jobs (gm_assets g') = sy_jobs (gm_assets g) @ [LoadJob m (Some SCENE_CALLBACK)] \<and>
    gm_onSceneLoaded g' = gm_onSceneLoaded g"
proof -
  from UnloadCurrentScene_ok[OF assms(1,2)] obtain g1 where
    g1: "UnloadCurrentScene g = Inr g1" "\<not> isLoaded (gm_rootScene g1)" "offset (gm_sceneAllocator g1) = 0"
      "gm_onSceneLoaded g1 = gm_onSceneLoaded g" "sy_jobs (gm_assets g1) = sy_jobs (gm_assets g)"
      "sy_loaders (gm_assets g1) SCENE \<noteq> None"
      "isLoaded (gm_rootScene g) \<Longrightarrow> RP_Get (sy_pools (gm_assets g1) SCENE) (as_handle (gm_rootScene g)) = Inl AssertFailed"
      "stage_of (gm_assets g1) m = Unloaded"
    using assms(2,6) by (auto simp: scene_reloads_def)
  let ?s = "snd (Execute (LoadJob m (Some SCENE_CALLBACK)) (fire (BeginLoading m) (put_asset m (asset_staged m Loading) (gm_assets g1))))"
  have "\<exists>i. meAssetRequestLoadTemplate (Some SCENE_CALLBACK) (gm_assets g1) [m] = Inr (i, ?s)"
    using assms(4,5) g1(6,8) by (auto simp: meAssetRequestLoadTemplate.simps Execute_def)
  then have change: "ChangeCurrentSceneAsync en filename g = Inr (g1\<lparr>gm_assets := ?s\<rparr>)"
    using assms(3-5) g1(1,8) by (auto simp: ChangeCurrentSceneAsync_def Let_def)
  have "as_handle (gm_rootScene (g1\<lparr>gm_assets := ?s\<rparr>)) = EYE_INVALID"
    using ChangeCurrentSceneAsync_inv[OF change assms(1)] g1(2) by (auto simp: game_inv_def root_ok_def)
  moreover have "stage_of ?s m = Loading" using assms(4) by (simp add: stage_of_def asset_staged_def)
  moreover have "sy_jobs ?s = sy_jobs (gm_assets g) @ [LoadJob m (Some SCENE_CALLBACK)]" using g1(5) by (simp add: Execute_def)
  ultimately show ?thesis using change g1 by (simp add: CurrentScene_def RP_GetBadData_def)
qed

text \<open>
  When the worker finishes the load of a scene that a change of scene asked for, that scene
  becomes the root, \<open>CurrentScene\<close> is its content and the user's program is told once.
\<close>

theorem scene_load_arrives:
  assumes "game_inv g" and "gm_work g = Initialized m (Some SCENE_CALLBACK)"
    and "worker_part en (gm_assets g, gm_work g) (s', w')" and "g' = call_scene (gm_work g) (g\<lparr>gm_assets := s', gm_work := w'\<rparr>)"
  shows "isLoaded (gm_rootScene g') \<and> as_id (gm_rootScene g') = m \<and>
    (\<exists>c. CurrentScene g' = Inr c \<and> as_content (gm_rootScene g') = Some c) \<and>
    gm_onSceneLoaded g' = gm_onSceneLoaded g @ [m]"
proof -
  have g: "game_inv g'" using work_inv[OF assms(3,1)] by (simp add: assms(4))
  have "load_done (gm_assets g) m = Inr s1 \<Longrightarrow> after_load s1 m cb = Inr s' \<Longrightarrow> stage_of s' m = Loaded" for s1 cb
    using load_done_stage after_load_stage by metis
  then have loaded: "stage_of s' m = Loaded" "w' = Idle"
    using assms(3) unfolding assms(2) by (auto elim: worker_part.cases)
  have asset: "asset_inv s' Idle" using worker_part_inv[OF assms(3)] assms(1) loaded(2) by (simp add: game_inv_def)
  obtain a where a: "meAssetTryGetTemplate s' m = Some a" "as_stage a = Loaded"
    using loaded(1) by (auto simp: stage_of_def split: option.splits)
  obtain c where c: "as_id a = m" "holds_slot (sy_pools s' (maid_type m)) (as_handle a) c"
    by (rule loaded_entry[OF asset a])
  have root: "gm_rootScene g' = a" "gm_onSceneLoaded g' = gm_onSceneLoaded g @ [m]"
    using a(1) by (simp_all add: assms(2,4) call_scene_def scene_callback_def)
  have "isLoaded a" using a(2) holds_slot_valid[OF c(2)] by (simp add: isLoaded_def)
  with CurrentScene_ok[OF g] c(1) root show ?thesis by auto
qed


section \<open>The properties at a small engine\<close>

text \<open>One scene, known under the name \<open>a\<close>.\<close>

definition scene_id :: MAID where
  "scene_id = \<lparr>maid_id = 1, maid_type = 1\<rparr>"

definition scene_index :: meAssetIndex where
  "scene_index = index_empty\<lparr>pathToAssetsMap := [[97] \<mapsto> scene_id]\<rparr>"

definition scene_system :: "nat pool \<Rightarrow> asset_system" where
  "scene_system p = asset_system_start (\<lambda>_. p) (\<lambda>t. if t = 1 then Some note_loader else None) scene_index Map.empty"

lemma scene_id_valid [simp]: "MAID_bool scene_id" "maid_type scene_id = 1"
  by (code_simp, simp add: scene_id_def)

lemma scene_found: "meAssetIndexGetMAIDFromPath (en_resdir (small_engine JNull)) (STRING_LIT [97]) scene_index = Inr scene_id"
proof -
  have "meAssetGetRelPathForResource (STRING_LIT [68]) (STRING_LIT [97]) = Inr (STRING_LIT [97])" by code_simp
  moreover have "sv_bool (STRING_LIT [97])" "sv_str (STRING_LIT [97]) = [97]" by code_simp+
  ultimately show ?thesis by (simp add: meAssetIndexGetMAIDFromPath_def small_engine_def scene_index_def)
qed

lemma scene_system_simps [simp]:
  "sy_loaders (scene_system p) 1 = Some note_loader" "sy_pools (scene_system p) = (\<lambda>_. p)"
  "sy_index (scene_system p) = scene_index" "sy_jobs (scene_system p) = []"
  "meAssetTryGetTemplate (scene_system p) = (\<lambda>_. None)" "sy_next (scene_system p) = 0"
  unfolding scene_system_def by (simp_all only: TryGet_start) (simp_all add: asset_system_start_def)

lemma new_pool: "\<exists>p. meResourcePool (7::nat) (Some 0) (Some 0) = Inr p"
  using pool_new_wf[of 7 0 0] by blast

lemma new_pools: "meResourcePool (7::nat) (Some 0) (Some 0) = Inr p \<Longrightarrow> fresh_pools (\<lambda>_. p)"
  unfolding fresh_pools_def by blast

lemma new_pool_instance:
  assumes "meResourcePool x (Some 0) (Some 0) = Inr p"
  shows "\<exists>h p'. RP_Load c p meResourceType_InstanceAsset = Inr (h, p') \<and> RP_GetShared p' h = Inr (Some c)"
proof -
  from pool_new_wf[of x 0 0] assms have p: "pool_wf p" "\<And>t. length (blocks (assoc_pool t p)) = 1"
    "\<And>t k. slot_generation (slots t p k) = 0"
    by (auto simp: slot_default_generation)
  have room: "pool_room t p" for t by (simp add: pool_room_def p(2))
  from RP_Create_ok[OF p(1) room, of meResourceType_InstanceAsset c] obtain k p' where
    q: "RP_Create c p meResourceType_InstanceAsset = Inr (Eye_make (of_nat k) (ucast (0 :: u16)) False, p')" "pool_wf p'"
      "k < 8388608" "k \<in> live_slots False p'" "slots False p' k = \<lparr>slot_obj = Some c, slot_generation = 0, slot_inUse = False\<rparr>"
    by (auto simp: Let_def p(3) is_template_def)
  let ?h = "Eye_make (of_nat k) (ucast (0 :: u16)) False"
  have h: "unat (Eye_GetIndex ?h) = k" "\<not> Eye_IsTemplateAsset ?h" "Eye_GetGeneration ?h = 0"
    using q(3) by (simp_all only: Eye_GetIndex_of_nat Eye_IsTemplateAsset_make Eye_GetGeneration_make not_False_eq_True) simp
  have "RP_GetShared p' ?h = Inr (Some c)"
    using RP_GetShared_live[OF q(2), of ?h] q(4,5) h by (simp add: Let_def)
  then show ?thesis using q(1) by (auto simp: RP_Load_def)
qed

text \<open>The engine after its start.\<close>

lemma small_game:
  assumes "meResourcePool (7::nat) (Some 0) (Some 0) = Inr p"
  shows "\<exists>g. meSceneInitializeLate (small_engine JNull) [] (game_start (scene_system p) arena) = Inr g \<and>
    sy_loaders (gm_assets g) 1 = Some note_loader \<and> sy_index (gm_assets g) = scene_index \<and>
    meAssetTryGetTemplate (gm_assets g) = (\<lambda>_. None) \<and> sy_jobs (gm_assets g) = []"
proof -
  obtain h p' where p': "RP_Load 0 p meResourceType_InstanceAsset = Inr (h, p')" "RP_GetShared p' h = Inr (Some 0)"
    using new_pool_instance[OF assms, of 0] by blast
  have "case sCreateNewAssetID [] 1 of Inr m \<Rightarrow> True | Inl e \<Rightarrow> False" by code_simp
  then obtain m where m: "sCreateNewAssetID [] 1 = Inr m" by (auto split: sum.splits)
  have "\<exists>v. with_header_id m note_blank = Inr v" by (simp add: with_header_id_def note_blank_def)
  then obtain v where v: "with_header_id m note_blank = Inr v" ..
  have name: "\<not> sv_bool StringView_default" by code_simp
  show ?thesis
    by (simp add: meSceneInitializeLate_def game_start_def meAssetCreateNewAsset_def m p' v name Let_def ME_ASSERT_def)
qed

definition scene_arena :: arena where
  "scene_arena = \<lparr>backing_mem = 4096, backing_mem_size = 64, offset = 8, prev_offset = 0, backingAllocator = None,
     arena_name = ''Engine Scene'', contents = []\<rparr>"

lemma CurrentScene_always_witness:
  "\<exists>p g s' c. fresh_pools (\<lambda>_. p) \<and>
    meSceneInitializeLate (small_engine JNull) [] (game_start (scene_system p) scene_arena) = Inr g \<and>
    game_run (small_engine JNull) g (g\<lparr>gm_assets := s'\<rparr>) \<and> sy_jobs s' = [LoadJob scene_id None] \<and>
    CurrentScene (g\<lparr>gm_assets := s'\<rparr>) = Inr c"
proof -
  obtain p where p: "meResourcePool (7::nat) (Some 0) (Some 0) = Inr p" using new_pool by blast
  from small_game[OF p] obtain g where
    g: "meSceneInitializeLate (small_engine JNull) [] (game_start (scene_system p) scene_arena) = Inr g"
      "sy_loaders (gm_assets g) 1 = Some note_loader" "meAssetTryGetTemplate (gm_assets g) = (\<lambda>_. None)"
      "sy_jobs (gm_assets g) = []" by blast
  let ?s = "snd (Execute (LoadJob scene_id None) (fire (BeginLoading scene_id) (put_asset scene_id (asset_staged scene_id Loading) (gm_assets g))))"
  have "\<exists>i. meAssetRequestLoadTemplate None (gm_assets g) [scene_id] = Inr (i, ?s)"
    using g(2,3) by (simp add: meAssetRequestLoadTemplate.simps Execute_def stage_of_def)
  then have run: "game_run (small_engine JNull) g (g\<lparr>gm_assets := ?s\<rparr>)"
    by (auto intro: game_run.more[OF game_run.none game_step.request])
  have "sy_jobs ?s = [LoadJob scene_id None]" using g(4) by (simp add: Execute_def)
  with CurrentScene_always[OF new_pools[OF p] g(1)[unfolded scene_system_def] run] new_pools[OF p] g(1) run
  show ?thesis by blast
qed

lemma ChangeCurrentScene_starts_witness:
  "\<exists>p g g'. meSceneInitializeLate (small_engine JNull) [] (game_start (scene_system p) scene_arena) = Inr g \<and>
    isLoaded (gm_rootScene g) \<and> ChangeCurrentSceneAsync (small_engine JNull) (STRING_LIT [97]) g = Inr g' \<and>
    \<not> isLoaded (gm_rootScene g') \<and> sy_jobs (gm_assets g') = [LoadJob scene_id (Some SCENE_CALLBACK)]"
proof -
  obtain p where p: "meResourcePool (7::nat) (Some 0) (Some 0) = Inr p" using new_pool by blast
  from small_game[OF p] obtain g where
    g: "meSceneInitializeLate (small_engine JNull) [] (game_start (scene_system p) scene_arena) = Inr g"
      "sy_loaders (gm_assets g) 1 = Some note_loader" "sy_index (gm_assets g) = scene_index"
      "meAssetTryGetTemplate (gm_assets g) = (\<lambda>_. None)" "sy_jobs (gm_assets g) = []" by blast
  note inv = game_inv_start[OF new_pools[OF p] g(1)[unfolded scene_system_def]]
  have "sy_loaders (gm_assets g) SCENE \<noteq> None" "maid_type scene_id = SCENE"
    "stage_of (gm_assets g) scene_id = Unloaded \<or> scene_reloads g scene_id"
    "meAssetIndexGetMAIDFromPath (en_resdir (small_engine JNull)) (STRING_LIT [97]) (sy_index (gm_assets g)) = Inr scene_id"
    using g scene_found by (simp_all add: stage_of_def)
  from ChangeCurrentScene_starts[OF inv(1) this(1,4) scene_id_valid(1) this(2,3)] g(1,5) inv(2)
  show ?thesis by auto
qed

text \<open>A worker that has just prepared the scene.\<close>

lemma scene_prepared:
  assumes p: "meResourcePool (7::nat) (Some 0) (Some 0) = Inr p"
  shows "\<exists>s a. asset_inv s (Initialized scene_id cb) \<and> bad_slots s \<and> meAssetTryGetTemplate s scene_id = Some a \<and>
    as_id a = scene_id \<and> as_handle a \<noteq> EYE_INVALID \<and> sy_jobs s = [] \<and> sy_index s = scene_index \<and> sy_loaders s 1 = Some note_loader"
proof -
  let ?w = "waiting_asset (scene_system p) scene_id cb"
  note P = new_pool_load[OF p]
  have inv: "asset_inv (scene_system p) Idle" unfolding scene_system_def by (rule asset_inv_start) (simp add: P(1))
  have winv: "asset_inv ?w Idle" unfolding waiting_asset_def by (rule request_one[OF inv]) (simp_all add: stage_of_def)
  have w: "sy_jobs ?w = [] @ LoadJob scene_id cb # []" "sy_pools ?w = (\<lambda>_. p)" "sy_loaders ?w 1 = Some note_loader"
    "sy_index ?w = scene_index" "meAssetTryGetTemplate ?w scene_id = Some (asset_staged scene_id Loading)" "sy_next ?w = 0"
    by (simp_all add: waiting_asset_def Execute_def)
  have room: "pool_room True (sy_pools ?w (maid_type scene_id))" using P(2) w(2) by simp
  have t: "meAssetTryGetTemplate (?w\<lparr>sy_jobs := [] @ []\<rparr>) scene_id = Some (asset_staged scene_id Loading)" using w(5) by simp
  from P(3)[of 0] obtain h p' where l: "RP_Load 0 p meResourceType_TemplateAsset = Inr (h, p')" "RP_GetShared p' h = Inr (Some 0)" by blast
  let ?a = "(asset_staged scene_id Loading)\<lparr>as_stage := Compiling, as_handle := h, as_content := Some 0\<rparr>"
  let ?s = "put_asset scene_id ?a (put_pool 1 p' (put_content 0 note_blank (?w\<lparr>sy_jobs := [], sy_next := 1\<rparr>)))"
  have c: "compile_begin (small_engine JNull) (?w\<lparr>sy_jobs := [] @ []\<rparr>) scene_id = Inr (False, ?s)"
    using compile_begin_unowned[OF t, of "small_engine JNull"] l w by (simp add: asset_staged_def owns_nothing_def)
  note b = compile_begin_inv(2)[OF winv w(1) _ room c] and k = kept_compile_begin[OF winv w(1) room c]
  have ga: "meAssetTryGetTemplate ?s scene_id = Some ?a" by simp
  have fin: "asset_inv (put_asset scene_id (?a\<lparr>as_stage := Loading\<rparr>) ?s) (Initialized scene_id cb)"
    by (rule asset_inv_restage[OF b _ ga]) (simp_all add: fun_eq_iff)
  have bad: "bad_slots ?w" using fresh_pools_D(3)[OF new_pools[OF p]] w(2) by (simp add: bad_slots_def)
  then have "bad_slots ?s" using bad_slots_kept[OF k winv] by simp
  then have bad': "bad_slots (put_asset scene_id (?a\<lparr>as_stage := Loading\<rparr>) ?s)" by (simp add: bad_slots_def)
  have "h \<noteq> EYE_INVALID"
    using pool_load(3)[OF P(1,2) l] holds_slot_valid by blast
  with fin bad' w show ?thesis
    by (intro exI[of _ "put_asset scene_id (?a\<lparr>as_stage := Loading\<rparr>) ?s"]) (auto simp: asset_staged_def)
qed

definition scene_game :: "asset_system \<Rightarrow> nat option \<Rightarrow> game" where
  "scene_game s cb = (game_start s scene_arena)\<lparr>gm_work := Initialized scene_id cb\<rparr>"

lemma scene_game_inv: "asset_inv s (Initialized scene_id cb) \<Longrightarrow> bad_slots s \<Longrightarrow> sy_jobs s = [] \<Longrightarrow> game_inv (scene_game s cb)"
  by (simp add: scene_game_def game_start_def game_inv_def)

lemma scene_game_simps [simp]: "gm_assets (scene_game s cb) = s" "gm_work (scene_game s cb) = Initialized scene_id cb"
  "gm_onSceneLoaded (scene_game s cb) = []"
  by (simp_all add: scene_game_def game_start_def)

lemma scene_load_arrives_witness:
  "\<exists>s s' w'. worker_part (small_engine JNull) (s, Initialized scene_id (Some SCENE_CALLBACK)) (s', w') \<and>
    (let g = call_scene (Initialized scene_id (Some SCENE_CALLBACK))
               (scene_game s (Some SCENE_CALLBACK)\<lparr>gm_assets := s', gm_work := w'\<rparr>)
     in as_id (gm_rootScene g) = scene_id \<and> gm_onSceneLoaded g = [scene_id])"
proof -
  obtain p where p: "meResourcePool (7::nat) (Some 0) (Some 0) = Inr p" using new_pool by blast
  from scene_prepared[OF p, of "Some SCENE_CALLBACK"] obtain s a where
    s: "asset_inv s (Initialized scene_id (Some SCENE_CALLBACK))" "bad_slots s" "meAssetTryGetTemplate s scene_id = Some a"
      "as_id a = scene_id" "as_handle a \<noteq> EYE_INVALID" "sy_jobs s = []" "sy_index s = scene_index" by blast
  have "meAssetIndexGetDependencies scene_id scene_index = []"
    by (simp add: meAssetIndexGetDependencies_def scene_index_def index_empty_def)
  then have d: "load_done s scene_id = Inr (put_asset scene_id (a\<lparr>as_stage := Loaded\<rparr>) s)"
    using s(3,7) by (simp add: load_done_def meAssetRequestLoadTemplate.simps)
  then obtain s' where l: "after_load (put_asset scene_id (a\<lparr>as_stage := Loaded\<rparr>) s) scene_id (Some SCENE_CALLBACK) = Inr s'"
    using s(4,5) by (simp add: after_load_def ME_ASSERT_def)
  note step = worker_part.finish[OF d l, of "small_engine JNull"]
  have "worker_part (small_engine JNull) (gm_assets (scene_game s (Some SCENE_CALLBACK)), gm_work (scene_game s (Some SCENE_CALLBACK))) (s', Idle)"
    using step by simp
  from scene_load_arrives[OF scene_game_inv[OF s(1,2,6)] scene_game_simps(2) this refl] step show ?thesis
    by (auto simp: Let_def)
qed


end
