(* ===== verification/Commands.thy ===== *)
theory Commands
  imports Scenes
begin

text \<open>
  The queue of commands other threads send to the main thread (\<open>core/me_command.h\<close>,
  \<open>core/me_command.cpp\<close>): the handlers, over the asset system and the scene manager, and the flush
  that the main loop runs once per frame.
\<close>

section \<open>Commands\<close>

text \<open>
  The command is a record with a field for each kind in the source, of which only the one of its
  type is read. \<open>'u\<close> are the commands whose effect is not that of this development's parts: a
  function of the user (\<open>MainThreadCmd\<close>), and a click into the scene (\<open>PickEntity\<close>, for which see
  \<open>Picking\<close>).
\<close>

datatype 'u meExternalCommand =
    ChangeScene "u8 list"
  | SaveAsset asset
  | CreateAsset meAssetType "u8 list"
  | OtherCmd 'u

text \<open>The main thread: the game, the queue, the bytes of the clock and what other commands do.\<close>

record 'u main_thread =
  mt_game :: game
  mt_queue :: "'u meExternalCommand list"

record 'u user =
  us_clock :: "game \<Rightarrow> u8 list"
  us_other :: "'u \<Rightarrow> game \<Rightarrow> (game \<times> 'u meExternalCommand list) result"

definition meSendExternalCommand :: "'u meExternalCommand \<Rightarrow> 'u main_thread \<Rightarrow> 'u main_thread" where
  "meSendExternalCommand cmd mt = mt\<lparr>mt_queue := mt_queue mt @ [cmd]\<rparr>"

section \<open>Handlers\<close>

definition HandleCreateAsset :: "engine \<Rightarrow> u8 list \<Rightarrow> meAssetType \<Rightarrow> u8 list \<Rightarrow> game \<Rightarrow> game result" where
  "HandleCreateAsset en time type path g =
     bindR (meAssetCreateNewAsset en time (gm_assets g) type meResourceType_TemplateAsset (STRING_LIT path)) (\<lambda>(newAsset, s).
     bindR (meAssetRequestWriteTemplate None s [as_id newAsset]) (\<lambda>(writeReq, s).
       Inr (g\<lparr>gm_assets := s\<rparr>)))"

definition HandleChangeScene :: "engine \<Rightarrow> u8 list \<Rightarrow> game \<Rightarrow> game result" where
  "HandleChangeScene en path g =
     bindR (meFsNormalizePathSeperators (STRING_LIT path)) (\<lambda>sceneFile. ChangeCurrentSceneAsync en sceneFile g)"

text \<open>The asset's type as an enumerator, for the extension of its file.\<close>

definition type_of_value :: "u32 \<Rightarrow> meAssetType" where
  "type_of_value t = (case find (\<lambda>ty. meAssetType_value ty = t) asset_types of Some ty \<Rightarrow> ty | None \<Rightarrow> MABadData)"

definition HandleSaveAsset :: "engine \<Rightarrow> asset \<Rightarrow> game \<Rightarrow> game result" where
  "HandleSaveAsset en cmd_asset g =
     (let maid = as_id cmd_asset
      in if meAssetTryGetTemplate (gm_assets g) maid = None then Inr g
         else let filePath = meAssetIndexGetFilesystemPath maid (sy_index (gm_assets g))
              in bindR (if sv_bool filePath then
                          bindR (meFsNormalizePathSeperators filePath) (\<lambda>filePath.
                          bindR (meAssetEnsurePathHasGoodExtension filePath (type_of_value (maid_type maid))) (\<lambda>filePath.
                          bindR (meAssetGetRelPathForResource (en_resdir en) filePath) (\<lambda>filePath.
                            Inr (g\<lparr>gm_assets := (gm_assets g)\<lparr>sy_index :=
                                   meAssetIndexRegisterRelation filePath maid (sy_index (gm_assets g))\<rparr>\<rparr>))))
                        else Inr g) (\<lambda>g.
                 bindR (meAssetRequestWriteTemplate None (gm_assets g) [maid]) (\<lambda>(writeReq, s).
                   Inr (g\<lparr>gm_assets := s\<rparr>))))"

fun DispatchExternalCommand ::
    "engine \<Rightarrow> 'u user \<Rightarrow> 'u meExternalCommand \<Rightarrow> game \<Rightarrow> (game \<times> 'u meExternalCommand list) result" where
  "DispatchExternalCommand en us (ChangeScene path) g = bindR (HandleChangeScene en path g) (\<lambda>g. Inr (g, []))"
| "DispatchExternalCommand en us (SaveAsset asset) g = bindR (HandleSaveAsset en asset g) (\<lambda>g. Inr (g, []))"
| "DispatchExternalCommand en us (CreateAsset type path) g =
     bindR (HandleCreateAsset en (us_clock us g) type path g) (\<lambda>g. Inr (g, []))"
| "DispatchExternalCommand en us (OtherCmd u) g = us_other us u g"

text \<open>
  The loop goes on as long as it finds a command, those sent meanwhile included: the function gives
  none if it does not end. Of several threads' commands the queue keeps each thread's order.
\<close>

partial_function (option) meFlushMainThreadCommands :: "engine \<Rightarrow> 'u user \<Rightarrow> 'u main_thread \<Rightarrow> 'u main_thread result option" where
  "meFlushMainThreadCommands en us mt =
     (case mt_queue mt of
        [] \<Rightarrow> Some (Inr mt)
      | cmd # rest \<Rightarrow>
          (case DispatchExternalCommand en us cmd (mt_game mt) of
             Inl e \<Rightarrow> Some (Inl e)
           | Inr (g, sent) \<Rightarrow> meFlushMainThreadCommands en us \<lparr>mt_game = g, mt_queue = rest @ sent\<rparr>))"

section \<open>The handlers are runs of the engine\<close>

lemma game_run_trans: "game_run en g' g'' \<Longrightarrow> game_run en g g' \<Longrightarrow> game_run en g g''"
  by (induction rule: game_run.induct) (auto intro: game_run.intros)

lemma game_run_one: "game_step en g g' \<Longrightarrow> game_run en g g'"
  by (rule game_run.more[OF game_run.none])

lemma HandleChangeScene_run: "HandleChangeScene en path g = Inr g' \<Longrightarrow> game_run en g g'"
  by (auto simp: HandleChangeScene_def elim!: bindR_InrE intro: game_run_one game_step.change)

lemma game_run_write:
  "meAssetRequestWriteTemplate None (gm_assets g) ms = Inr (i, s') \<Longrightarrow> game_run en g (g\<lparr>gm_assets := s'\<rparr>)"
  by (rule game_run_one[OF game_step.request_write]) simp_all

lemma HandleSaveAsset_run:
  assumes "HandleSaveAsset en cmd_asset g = Inr g'"
  shows "game_run en g g'"
proof -
  let ?m = "as_id cmd_asset"
  consider "g' = g"
    | g1 i s where "g1 = g \<or> (\<exists>path. g1 = g\<lparr>gm_assets := (gm_assets g)\<lparr>sy_index := meAssetIndexRegisterRelation path ?m (sy_index (gm_assets g))\<rparr>\<rparr>)"
      "meAssetRequestWriteTemplate None (gm_assets g1) [?m] = Inr (i, s)" "g' = g1\<lparr>gm_assets := s\<rparr>"
    using assms by (auto simp: HandleSaveAsset_def Let_def elim!: bindR_InrE split: if_split_asm simp del: meAssetRequestWriteTemplate.simps)
  then show ?thesis
  proof cases
    case (2 g1 i s)
    then have "game_run en g g1" by (auto intro: game_run.none game_run_one game_step.register)
    from game_run_trans[OF game_run_write[OF 2(2)] this] show ?thesis by (simp add: 2(3))
  qed (simp add: game_run.none)
qed

text \<open>A new asset's id is new, and its pool has room.\<close>

definition can_create :: "u8 list \<Rightarrow> meAssetType \<Rightarrow> game \<Rightarrow> bool" where
  "can_create time type g \<longleftrightarrow> pool_room True (sy_pools (gm_assets g) (meAssetType_value type)) \<and>
     (\<forall>m. sCreateNewAssetID time (meAssetType_value type) = Inr m \<longrightarrow> meAssetTryGetTemplate (gm_assets g) m = None)"

lemma HandleCreateAsset_run:
  assumes "HandleCreateAsset en time type path g = Inr g'" and "can_create time type g"
  shows "game_run en g g'"
proof -
  obtain m where m: "sCreateNewAssetID time (meAssetType_value type) = Inr m"
    using assms(1) by (auto simp: HandleCreateAsset_def meAssetCreateNewAsset_def Let_def elim!: bindR_InrE)
  from assms(1) obtain a s i s' where
    c: "meAssetCreateNewAsset en time (gm_assets g) type meResourceType_TemplateAsset (STRING_LIT path) = Inr (a, s)"
      "meAssetRequestWriteTemplate None s [as_id a] = Inr (i, s')" "g' = g\<lparr>gm_assets := s'\<rparr>"
    by (auto simp: HandleCreateAsset_def elim!: bindR_InrE simp del: meAssetRequestWriteTemplate.simps)
  have "game_run en g (g\<lparr>gm_assets := s\<rparr>)"
    by (rule game_run_one[OF game_step.create[OF m _ _ c(1)]])
      (use assms(2) m in \<open>auto simp: can_create_def is_template_def\<close>)
  from game_run_trans[OF game_run_write this, of "[as_id a]" i s'] c(2) show ?thesis by (simp add: c(3))
qed

definition cmd_ok :: "engine \<Rightarrow> 'u user \<Rightarrow> 'u meExternalCommand \<Rightarrow> game \<Rightarrow> bool" where
  "cmd_ok en us cmd g = (case cmd of
     CreateAsset type path \<Rightarrow> can_create (us_clock us g) type g
   | OtherCmd u \<Rightarrow> (case us_other us u g of Inr (g', sent) \<Rightarrow> game_run en g g' | Inl e \<Rightarrow> True)
   | _ \<Rightarrow> True)"

lemma Dispatch_run:
  "DispatchExternalCommand en us cmd g = Inr (g', sent) \<Longrightarrow> cmd_ok en us cmd g \<Longrightarrow> game_run en g g'"
  by (cases cmd) (auto simp: cmd_ok_def HandleChangeScene_run HandleSaveAsset_run HandleCreateAsset_run elim!: bindR_InrE)

section \<open>The flush\<close>

text \<open>The commands one after the other, as a plain list is worked through.\<close>

fun run_commands :: "engine \<Rightarrow> 'u user \<Rightarrow> 'u meExternalCommand list \<Rightarrow> game \<Rightarrow> game result" where
  "run_commands en us [] g = Inr g"
| "run_commands en us (cmd # cmds) g =
     bindR (DispatchExternalCommand en us cmd g) (\<lambda>(g, sent). run_commands en us cmds g)"

text \<open>Every command finds what it needs when its turn comes.\<close>

fun commands_ok :: "engine \<Rightarrow> 'u user \<Rightarrow> 'u meExternalCommand list \<Rightarrow> game \<Rightarrow> bool" where
  "commands_ok en us [] g = True"
| "commands_ok en us (cmd # cmds) g \<longleftrightarrow> cmd_ok en us cmd g \<and>
     (case DispatchExternalCommand en us cmd g of Inl e \<Rightarrow> True | Inr (g', sent) \<Rightarrow> commands_ok en us cmds g')"

definition sends_nothing :: "'u user \<Rightarrow> bool" where
  "sends_nothing us \<longleftrightarrow> (\<forall>u g g' sent. us_other us u g = Inr (g', sent) \<longrightarrow> sent = [])"

lemma Dispatch_sends:
  "sends_nothing us \<Longrightarrow> DispatchExternalCommand en us cmd g = Inr (g', sent) \<Longrightarrow> sent = []"
  by (cases cmd) (auto simp: sends_nothing_def elim!: bindR_InrE)

lemma flush_run_commands:
  assumes "sends_nothing us"
  shows "meFlushMainThreadCommands en us \<lparr>mt_game = g, mt_queue = cmds\<rparr> =
    Some (bindR (run_commands en us cmds g) (\<lambda>g. Inr \<lparr>mt_game = g, mt_queue = []\<rparr>))"
proof (induction cmds arbitrary: g)
  case Nil
  show ?case by (subst meFlushMainThreadCommands.simps) simp
next
  case (Cons cmd cmds)
  show ?case
  proof (cases "DispatchExternalCommand en us cmd g")
    case (Inr r)
    obtain g' sent where r: "r = (g', sent)" by (cases r)
    with Dispatch_sends[OF assms] Inr have "sent = []" by blast
    then show ?thesis using Inr r Cons by (subst meFlushMainThreadCommands.simps) simp
  qed (subst meFlushMainThreadCommands.simps, simp)
qed

lemma run_commands_run:
  "run_commands en us cmds g = Inr g' \<Longrightarrow> commands_ok en us cmds g \<Longrightarrow> game_run en g g'"
proof (induction cmds arbitrary: g)
  case (Cons cmd cmds)
  then obtain g1 sent where d: "DispatchExternalCommand en us cmd g = Inr (g1, sent)" "run_commands en us cmds g1 = Inr g'"
    by (auto elim!: bindR_InrE)
  with Cons(3) have "game_run en g g1" "game_run en g1 g'" using Dispatch_run Cons(1) by auto
  then show ?case by (rule game_run_trans[rotated])
qed (simp add: game_run.none)

text \<open>
  C17. The flush ends, works through the queue in its order and leaves it empty, when no command
  sends another; and what the handlers do is a run of the engine, so that the scene manager's
  invariant holds again and \<open>CurrentScene\<close> works in the same frame.
\<close>

theorem meFlushMainThreadCommands_runs:
  assumes "sends_nothing us" and "commands_ok en us cmds g"
  shows "\<exists>r. meFlushMainThreadCommands en us \<lparr>mt_game = g, mt_queue = cmds\<rparr> = Some r \<and>
    r = bindR (run_commands en us cmds g) (\<lambda>g. Inr \<lparr>mt_game = g, mt_queue = []\<rparr>) \<and>
    (\<forall>mt. r = Inr mt \<and> game_inv g \<longrightarrow>
      game_run en g (mt_game mt) \<and> game_inv (mt_game mt) \<and> (\<exists>c. CurrentScene (mt_game mt) = Inr c))"
proof -
  have "game_run en g g'" if "run_commands en us cmds g = Inr g'" for g' using run_commands_run that assms(2) .
  then show ?thesis
    using flush_run_commands[OF assms(1), of en g cmds] game_run_inv CurrentScene_ok
    by (auto elim!: bindR_InrE) blast
qed

text \<open>A command that sends itself again keeps the main thread in the flush for good.\<close>

lemma flush_resending:
  assumes "\<And>g. \<exists>g'. us_other us u g = Inr (g', [OtherCmd u])"
  shows "meFlushMainThreadCommands en us \<lparr>mt_game = g, mt_queue = [OtherCmd u]\<rparr> = None"
proof -
  let ?P = "\<lambda>(en :: engine) us' mt (r :: 'a main_thread result). us' = us \<longrightarrow> mt_queue mt \<noteq> [OtherCmd u]"
  have P: "?P en us' mt r" if "meFlushMainThreadCommands en us' mt = Some r" for en us' mt r
  proof (rule meFlushMainThreadCommands.raw_induct[where P = ?P, OF _ that])
    fix flush e1 u1 m1 y1
    assume IH: "\<And>en us' mt y. flush en us' mt = Some y \<Longrightarrow> ?P en us' mt y"
      and run: "(case mt_queue m1 of [] \<Rightarrow> Some (Inr m1)
        | cmd # rest \<Rightarrow> case DispatchExternalCommand e1 u1 cmd (mt_game m1) of Inl e \<Rightarrow> Some (Inl e)
          | Inr (g, sent) \<Rightarrow> flush e1 u1 \<lparr>mt_game = g, mt_queue = rest @ sent\<rparr>) = Some y1"
    show "?P e1 u1 m1 y1"
    proof (intro impI notI)
      assume q: "u1 = us" "mt_queue m1 = [OtherCmd u]"
      obtain g' where "us_other us u (mt_game m1) = Inr (g', [OtherCmd u])" using assms by blast
      with run q have "flush e1 u1 \<lparr>mt_game = g', mt_queue = [OtherCmd u]\<rparr> = Some y1" by simp
      from IH[OF this] q(1) show False by simp
    qed
  qed
  then show ?thesis by (cases "meFlushMainThreadCommands en us \<lparr>mt_game = g, mt_queue = [OtherCmd u]\<rparr>")
      (auto dest!: P)
qed

section \<open>Creating assets\<close>

text \<open>What creating an asset leaves: the new object, owned by the registry's entry.\<close>

lemma create_entry:
  assumes wf: "pool_wf (sy_pools s (meAssetType_value type))" and room: "pool_room True (sy_pools s (meAssetType_value type))"
    and id: "sCreateNewAssetID time (meAssetType_value type) = Inr m" and valid: "MAID_bool m"
    and run: "meAssetCreateNewAsset en time s type meResourceType_TemplateAsset name = Inr (a, s')"
  shows "meAssetTryGetTemplate s' m = Some a \<and> as_id a = m \<and> as_stage a = Loaded \<and> as_content a = Some (sy_next s) \<and>
    sy_next s' = Suc (sy_next s)"
proof -
  obtain eye pool content v ix where
    c: "RP_Load (sy_next s) (sy_pools s (meAssetType_value type)) meResourceType_TemplateAsset = Inr (eye, pool)"
      "RP_GetShared pool eye = Inr content" "a = (asset_handled eye m)\<lparr>as_content := content\<rparr>"
      "s' = (let s1 = (put_pool (meAssetType_value type) pool (put_content (sy_next s) v (s\<lparr>sy_next := Suc (sy_next s)\<rparr>)))\<lparr>sy_index := ix\<rparr>
             in if meResourceType_TemplateAsset = meResourceType_TemplateAsset then put_asset m a s1 else s1)"
    by (rule create_parts[OF run id])
  note p = pool_load(2,3)[OF wf room c(1,2)]
  have "Eye_bool eye" using holds_slot_valid[OF p(2)] by simp
  then show ?thesis using c(3,4) p(1) valid by (simp add: asset_handled_def Let_def)
qed

lemma write_request_frame:
  "meAssetRequestWriteTemplate None s ms = Inr (i, s') \<Longrightarrow>
    meAssetTryGetTemplate s' = meAssetTryGetTemplate s \<and> sy_next s' = sy_next s \<and> sy_pools s' = sy_pools s"
  by (induction "None :: nat option" s ms rule: meAssetRequestWriteTemplate.induct)
    (auto simp: require_Inr Execute_def split: if_split_asm)

text \<open>
  The id of a new asset is a hash of the clock. Two assets of one type created at the same
  reading of the clock get the same id: the second takes the registry's entry from the first,
  whose object is in the pool still but reached by no id.
\<close>

theorem create_same_clock:
  assumes "game_inv g" and "can_create time type g" and "pool_room True (sy_pools (gm_assets g1) (meAssetType_value type))"
    and "HandleCreateAsset en time type path g = Inr g1" and "HandleCreateAsset en time type path' g1 = Inr g2"
    and "sCreateNewAssetID time (meAssetType_value type) = Inr m" and "MAID_bool m"
  shows "\<exists>a b c d. meAssetTryGetTemplate (gm_assets g1) m = Some a \<and> as_content a = Some c \<and>
    meAssetTryGetTemplate (gm_assets g2) m = Some b \<and> as_content b = Some d \<and> c \<noteq> d \<and>
    (\<forall>m' e. meAssetTryGetTemplate (gm_assets g2) m' = Some e \<longrightarrow> as_content e \<noteq> Some c)"
proof -
  let ?t = "meAssetType_value type"
  have inv: "asset_inv (gm_assets g) (gm_work g)" and inv1: "asset_inv (gm_assets g1) (gm_work g1)"
    using assms(1) game_run_inv[OF HandleCreateAsset_run[OF assms(4,2)] assms(1)] by (simp_all add: game_inv_def)
  from assms(4) obtain a s i s' where
    a: "meAssetCreateNewAsset en time (gm_assets g) type meResourceType_TemplateAsset (STRING_LIT path) = Inr (a, s)"
      "meAssetRequestWriteTemplate None s [as_id a] = Inr (i, s')" "g1 = g\<lparr>gm_assets := s'\<rparr>"
    by (auto simp: HandleCreateAsset_def elim!: bindR_InrE simp del: meAssetRequestWriteTemplate.simps)
  from assms(5) obtain b r j r' where
    b: "meAssetCreateNewAsset en time (gm_assets g1) type meResourceType_TemplateAsset (STRING_LIT path') = Inr (b, r)"
      "meAssetRequestWriteTemplate None r [as_id b] = Inr (j, r')" "g2 = g1\<lparr>gm_assets := r'\<rparr>"
    by (auto simp: HandleCreateAsset_def elim!: bindR_InrE simp del: meAssetRequestWriteTemplate.simps)
  have room: "pool_room True (sy_pools (gm_assets g) ?t)" using assms(2) by (simp add: can_create_def)
  note A = create_entry[OF asset_invD(1)[OF inv] room assms(6,7) a(1)]
  note B = create_entry[OF asset_invD(1)[OF inv1] assms(3,6,7) b(1)]
  have g1: "meAssetTryGetTemplate (gm_assets g1) m = Some a" "sy_next (gm_assets g1) = Suc (sy_next (gm_assets g))"
    using write_request_frame[OF a(2)] A a(3) by simp_all
  have others: "meAssetTryGetTemplate (gm_assets g2) m' = meAssetTryGetTemplate (gm_assets g1) m'" if "m' \<noteq> m" for m'
  proof -
    obtain eye pool content v ix where
      "r = (let s1 = (put_pool ?t pool (put_content (sy_next (gm_assets g1)) v ((gm_assets g1)\<lparr>sy_next := Suc (sy_next (gm_assets g1))\<rparr>)))\<lparr>sy_index := ix\<rparr>
             in if meResourceType_TemplateAsset = meResourceType_TemplateAsset then put_asset m b s1 else s1)"
      by (rule create_parts[OF b(1) assms(6)])
    with write_request_frame[OF b(2)] b(3) that assms(7) show ?thesis by (simp add: Let_def)
  qed
  have g2: "meAssetTryGetTemplate (gm_assets g2) m = Some b" using write_request_frame[OF b(2)] B b(3) by simp
  have "as_content e \<noteq> as_content a" if e: "meAssetTryGetTemplate (gm_assets g2) m' = Some e" for m' e
  proof (cases "m' = m")
    case True
    with e g2 A B g1(2) show ?thesis by auto
  next
    case False
    with unsharedD[OF asset_invD(3)[OF inv1], of m' e m a] others[OF False] e g1(1) A show ?thesis by auto
  qed
  then show ?thesis using A B g1 g2 by (intro exI[of _ a] exI[of _ b] exI[of _ "sy_next (gm_assets g)"] exI[of _ "sy_next (gm_assets g1)"]) auto
qed

section \<open>The properties at a small engine\<close>

definition quiet_user :: "unit user" where
  "quiet_user = \<lparr>us_clock = (\<lambda>_. []), us_other = (\<lambda>u g. Inr (g, []))\<rparr>"

lemma scene_start_inv:
  assumes "meResourcePool (7::nat) (Some 0) (Some 0) = Inr p"
  shows "game_inv (game_start (scene_system p) scene_arena)"
proof -
  have "asset_inv (scene_system p) Idle" unfolding scene_system_def
    by (rule asset_inv_start) (use fresh_pools_D(1)[OF new_pools[OF assms]] in blast)
  then show ?thesis using fresh_pools_D(3)[OF new_pools[OF assms]] by (simp add: game_inv_def game_start_def bad_slots_def)
qed

lemma meFlushMainThreadCommands_runs_witness:
  "\<exists>p mt. meFlushMainThreadCommands (small_engine JNull) quiet_user
      \<lparr>mt_game = game_start (scene_system p) scene_arena, mt_queue = [SaveAsset (asset_staged scene_id Unloaded), OtherCmd ()]\<rparr>
    = Some (Inr mt) \<and> mt_queue mt = [] \<and> (\<exists>c. CurrentScene (mt_game mt) = Inr c)"
proof -
  obtain p where p: "meResourcePool (7::nat) (Some 0) (Some 0) = Inr p" using new_pool by blast
  let ?g = "game_start (scene_system p) scene_arena" and ?cmds = "[SaveAsset (asset_staged scene_id Unloaded), OtherCmd ()]"
  have other: "us_other quiet_user u g = Inr (g, [])" for u g by (simp add: quiet_user_def)
  have ok: "sends_nothing quiet_user" "commands_ok (small_engine JNull) quiet_user ?cmds ?g"
    by (auto simp: sends_nothing_def cmd_ok_def other HandleSaveAsset_def game_start_def asset_staged_def intro: game_run.none)
  have "run_commands (small_engine JNull) quiet_user ?cmds ?g = Inr ?g"
    by (simp add: HandleSaveAsset_def game_start_def other asset_staged_def)
  with meFlushMainThreadCommands_runs[OF ok] scene_start_inv[OF p]
  have "meFlushMainThreadCommands (small_engine JNull) quiet_user \<lparr>mt_game = ?g, mt_queue = ?cmds\<rparr> =
      Some (Inr \<lparr>mt_game = ?g, mt_queue = []\<rparr>) \<and> (\<exists>c. CurrentScene ?g = Inr c)" by auto
  then show ?thesis by (intro exI[of _ p] exI[of _ "\<lparr>mt_game = ?g, mt_queue = []\<rparr>"]) simp
qed

lemma two_templates:
  "\<exists>h p' h' p'' p. meResourcePool (7::nat) (Some 0) (Some 0) = Inr p \<and>
     RP_Load 0 p meResourceType_TemplateAsset = Inr (h, p') \<and> RP_GetShared p' h = Inr (Some 0) \<and> pool_room True p' \<and>
     RP_Load 1 p' meResourceType_TemplateAsset = Inr (h', p'') \<and> RP_GetShared p'' h' = Inr (Some 1)"
proof -
  have "case meResourcePool (7::nat) (Some 0) (Some 0) of Inl e \<Rightarrow> False
    | Inr p \<Rightarrow> (case RP_Load 0 p meResourceType_TemplateAsset of Inl e \<Rightarrow> False
    | Inr (h, p') \<Rightarrow> RP_GetShared p' h = Inr (Some 0) \<and> pool_room True p' \<and>
      (case RP_Load 1 p' meResourceType_TemplateAsset of Inl e \<Rightarrow> False
       | Inr (h', p'') \<Rightarrow> RP_GetShared p'' h' = Inr (Some 1)))"
    by code_simp
  then obtain p where p: "meResourcePool (7::nat) (Some 0) (Some 0) = Inr p"
    and rest: "case RP_Load 0 p meResourceType_TemplateAsset of Inl e \<Rightarrow> False
    | Inr (h, p') \<Rightarrow> RP_GetShared p' h = Inr (Some 0) \<and> pool_room True p' \<and>
      (case RP_Load 1 p' meResourceType_TemplateAsset of Inl e \<Rightarrow> False
       | Inr (h', p'') \<Rightarrow> RP_GetShared p'' h' = Inr (Some 1))"
    by (cases "meResourcePool (7::nat) (Some 0) (Some 0)") auto
  then obtain h p' where l: "RP_Load 0 p meResourceType_TemplateAsset = Inr (h, p')" "RP_GetShared p' h = Inr (Some 0)" "pool_room True p'"
    and rest': "case RP_Load 1 p' meResourceType_TemplateAsset of Inl e \<Rightarrow> False
       | Inr (h', p'') \<Rightarrow> RP_GetShared p'' h' = Inr (Some 1)"
    by (cases "RP_Load 0 p meResourceType_TemplateAsset") auto
  then obtain h' p'' where "RP_Load 1 p' meResourceType_TemplateAsset = Inr (h', p'')" "RP_GetShared p'' h' = Inr (Some 1)"
    by (cases "RP_Load 1 p' meResourceType_TemplateAsset") auto
  with p l show ?thesis by blast
qed

lemma small_create:
  assumes "sy_loaders s 1 = Some note_loader" and "RP_Load (sy_next s) (sy_pools s 1) meResourceType_TemplateAsset = Inr (h, p')"
    and "RP_GetShared p' h = Inr content"
  shows "\<exists>m a s'. sCreateNewAssetID [] 1 = Inr m \<and> MAID_bool m \<and>
    meAssetCreateNewAsset en [] s MAScene meResourceType_TemplateAsset (STRING_LIT []) = Inr (a, s') \<and> as_id a = m \<and>
    sy_pools s' 1 = p' \<and> sy_next s' = Suc (sy_next s) \<and> sy_loaders s' = sy_loaders s"
proof -
  have "case sCreateNewAssetID [] 1 of Inr m \<Rightarrow> MAID_bool m | Inl e \<Rightarrow> False" by code_simp
  then obtain m where m: "sCreateNewAssetID [] 1 = Inr m" "MAID_bool m" by (auto split: sum.splits)
  have "\<exists>v. with_header_id m note_blank = Inr v" by (simp add: with_header_id_def note_blank_def)
  then obtain v where v: "with_header_id m note_blank = Inr v" ..
  have name: "\<not> sv_bool (STRING_LIT [])" by code_simp
  show ?thesis
    using assms m by (simp add: meAssetCreateNewAsset_def v name Let_def ME_ASSERT_def asset_handled_def)
qed

lemma small_write:
  assumes "MAID_bool m" and "maid_type m = 1" and "sy_loaders s 1 = Some note_loader"
  shows "\<exists>i s'. meAssetRequestWriteTemplate None s [m] = Inr (i, s') \<and> sy_loaders s' = sy_loaders s"
  using assms by (auto simp: require_def NUM_ASSET_TYPES_def Execute_def)

lemma small_HandleCreate:
  assumes "sy_loaders (gm_assets g) 1 = Some note_loader"
    and "RP_Load (sy_next (gm_assets g)) (sy_pools (gm_assets g) 1) meResourceType_TemplateAsset = Inr (h, p')"
    and "RP_GetShared p' h = Inr content"
  shows "\<exists>g'. HandleCreateAsset en [] MAScene [] g = Inr g' \<and> sy_loaders (gm_assets g') 1 = Some note_loader \<and>
    sy_pools (gm_assets g') 1 = p' \<and> sy_next (gm_assets g') = Suc (sy_next (gm_assets g))"
proof -
  from small_create[OF assms, of en] obtain m a s where
    c: "sCreateNewAssetID [] 1 = Inr m" "MAID_bool m"
      "meAssetCreateNewAsset en [] (gm_assets g) MAScene meResourceType_TemplateAsset (STRING_LIT []) = Inr (a, s)" "as_id a = m"
      "sy_pools s 1 = p'" "sy_next s = Suc (sy_next (gm_assets g))" "sy_loaders s = sy_loaders (gm_assets g)" by blast
  from small_write[OF c(2) sCreateNewAssetID_type[OF c(1)], of s] c(7) assms(1) obtain i s' where
    w: "meAssetRequestWriteTemplate None s [m] = Inr (i, s')" "sy_loaders s' = sy_loaders s" by auto
  have "HandleCreateAsset en [] MAScene [] g = Inr (g\<lparr>gm_assets := s'\<rparr>)"
    unfolding HandleCreateAsset_def c(3) by (simp add: c(4) w(1) del: meAssetRequestWriteTemplate.simps)
  with write_request_frame[OF w(1)] w(2) c(5-7) assms(1) show ?thesis by auto
qed

lemma create_same_clock_witness:
  "\<exists>p g1 g2 a b m. HandleCreateAsset (small_engine JNull) [] MAScene [] (game_start (scene_system p) scene_arena) = Inr g1 \<and>
     HandleCreateAsset (small_engine JNull) [] MAScene [] g1 = Inr g2 \<and>
     meAssetTryGetTemplate (gm_assets g1) m = Some a \<and> meAssetTryGetTemplate (gm_assets g2) m = Some b \<and>
     as_content a \<noteq> as_content b"
proof -
  from two_templates obtain h p' h' p'' p where
    p: "meResourcePool (7::nat) (Some 0) (Some 0) = Inr p" "RP_Load 0 p meResourceType_TemplateAsset = Inr (h, p')"
      "RP_GetShared p' h = Inr (Some 0)" "pool_room True p'" "RP_Load 1 p' meResourceType_TemplateAsset = Inr (h', p'')"
      "RP_GetShared p'' h' = Inr (Some 1)" by blast
  let ?g = "game_start (scene_system p) scene_arena" and ?en = "small_engine JNull"
  have g: "gm_assets ?g = scene_system p" by (simp add: game_start_def)
  from small_HandleCreate[of ?g h p' "Some 0" ?en] p(2,3) g obtain g1 where
    g1: "HandleCreateAsset ?en [] MAScene [] ?g = Inr g1" "sy_loaders (gm_assets g1) 1 = Some note_loader"
      "sy_pools (gm_assets g1) 1 = p'" "sy_next (gm_assets g1) = 1" by auto
  from small_HandleCreate[of g1 h' p'' "Some 1" ?en] p(5,6) g1(2-4) obtain g2 where
    g2: "HandleCreateAsset ?en [] MAScene [] g1 = Inr g2" by auto
  have "case sCreateNewAssetID [] 1 of Inr m \<Rightarrow> MAID_bool m | Inl e \<Rightarrow> False" by code_simp
  then obtain m where m: "sCreateNewAssetID [] (meAssetType_value MAScene) = Inr m" "MAID_bool m" by (auto split: sum.splits)
  have can: "can_create [] MAScene ?g" using new_pool_load(2)[OF p(1)] by (simp add: can_create_def g)
  have room: "pool_room True (sy_pools (gm_assets g1) (meAssetType_value MAScene))" using p(4) g1(3) by simp
  from create_same_clock[OF scene_start_inv[OF p(1)] can room g1(1) g2 m] obtain a b c d where
    "meAssetTryGetTemplate (gm_assets g1) m = Some a" "as_content a = Some c"
    "meAssetTryGetTemplate (gm_assets g2) m = Some b" "as_content b = Some d" "c \<noteq> d" by blast
  then have "meAssetTryGetTemplate (gm_assets g1) m = Some a \<and> meAssetTryGetTemplate (gm_assets g2) m = Some b \<and>
    as_content a \<noteq> as_content b" by simp
  with g1(1) g2 show ?thesis by blast
qed

end
