(* ===== verification/Geometry.thy ===== *)
theory Geometry
  imports Complex_Main Bits
begin

text \<open>
  The geometry of \<open>core/me_math.h\<close>, \<open>core/me_math.cpp\<close> and \<open>scene/me_transform\<close>: rectangles, boxes,
  the frustum and the ray test that picks entities. Numbers are those of an ordered field: the
  arithmetic is exact where the program rounds, and there is no NaN. The constants are the
  program's.
\<close>

section \<open>Numbers\<close>

definition FLT_MAX :: "'a::linordered_field" where
  "FLT_MAX = 340282346638528859811704183484516925440"

definition Math_Abs :: "'a::linordered_field \<Rightarrow> 'a" where
  "Math_Abs n = (if n < 0 then - n else n)"

definition Math_Clamp :: "'a::linorder \<Rightarrow> 'a \<Rightarrow> 'a \<Rightarrow> 'a" where
  "Math_Clamp value low high = (if value < low then low else if value > high then high else value)"

definition signof :: "'a::linordered_field \<Rightarrow> int" where
  "signof v = of_bool (0 < v) - of_bool (v < 0)"

definition isInRange :: "'a::linorder \<Rightarrow> 'a \<Rightarrow> 'a \<Rightarrow> bool" where
  "isInRange x lo hi \<longleftrightarrow> lo \<le> x \<and> x \<le> hi"

definition Math_Lerp :: "'a::linordered_field \<Rightarrow> 'a \<Rightarrow> 'a \<Rightarrow> 'a" where
  "Math_Lerp a b t = a * (1 - t) + (b * t)"

definition InvLerp :: "'a::linordered_field \<Rightarrow> 'a \<Rightarrow> 'a \<Rightarrow> 'a" where
  "InvLerp a b v = (v - a) / (b - a)"

definition Remap :: "'a::linordered_field \<Rightarrow> 'a \<Rightarrow> 'a \<Rightarrow> 'a \<Rightarrow> 'a \<Rightarrow> 'a" where
  "Remap v iMin iMax oMin oMax = Math_Lerp oMin oMax (InvLerp iMin iMax v)"

text \<open>\<open>PercentOf\<close> at \<open>u32\<close>.\<close>

definition PercentOf :: "u32 \<Rightarrow> u32 \<Rightarrow> u32" where
  "PercentOf x percentOutOf100 = (x * Math_Clamp percentOutOf100 0 100) div 100"

text \<open>The logarithm is exact: its argument has one bit.\<close>

definition countLeadingZeroes :: "u32 \<Rightarrow> nat" where
  "countLeadingZeroes n = (if n = 0 then 0 else bit_length (unat (n AND - n)) - 1)"

section \<open>Rectangles and boxes\<close>

type_synonym 'a vec2 = "'a \<times> 'a"
type_synonym 'a vec3 = "'a \<times> 'a \<times> 'a"

definition isOverlappingRect2D :: "'a::linordered_field vec2 \<Rightarrow> 'a vec2 \<Rightarrow> 'a vec2 \<Rightarrow> 'a vec2 \<Rightarrow> bool" where
  "isOverlappingRect2D startPos1 endPos1 startPos2 endPos2 =
     (if fst startPos1 > fst endPos2 \<or> fst startPos2 > fst endPos1 then False
      else if snd startPos1 > snd endPos2 \<or> snd startPos2 > snd endPos1 then False
      else True)"

definition isOverlappingRectSize2D :: "'a::linordered_field vec2 \<Rightarrow> 'a vec2 \<Rightarrow> 'a vec2 \<Rightarrow> 'a vec2 \<Rightarrow> bool" where
  "isOverlappingRectSize2D pos1 size1 pos2 size2 =
     (let r1 = (fst pos1 + fst size1, snd pos1 + snd size1);
          r2 = (fst pos2 + fst size2, snd pos2 + snd size2)
      in isOverlappingRect2D pos1 pos2 r1 r2)"

definition isPointInRectangle :: "'a::linordered_field vec2 \<Rightarrow> 'a vec2 \<Rightarrow> 'a vec2 \<Rightarrow> bool" where
  "isPointInRectangle point rectStart rectEnd =
     (fst point > fst rectStart \<and> fst point < fst rectEnd \<and> snd point > snd rectStart \<and> snd point < snd rectEnd)"

record 'a BoundingBox =
  bb_min :: "'a vec3"
  bb_max :: "'a vec3"

definition BoundingBox_FromCenterHalfExtents :: "'a::linordered_field vec3 \<Rightarrow> 'a vec3 \<Rightarrow> 'a BoundingBox" where
  "BoundingBox_FromCenterHalfExtents c h = (case (c, h) of ((cx, cy, cz), (hx, hy, hz)) \<Rightarrow>
     \<lparr>bb_min = (cx - hx, cy - hy, cz - hz), bb_max = (cx + hx, cy + hy, cz + hz)\<rparr>)"

definition BoundingBox_center :: "'a::linordered_field BoundingBox \<Rightarrow> 'a vec3" where
  "BoundingBox_center b = (case (bb_min b, bb_max b) of ((lx, ly, lz), (hx, hy, hz)) \<Rightarrow>
     (lx + (hx - lx) / 2, ly + (hy - ly) / 2, lz + (hz - lz) / 2))"

definition BoundingBox_halfExtents :: "'a::linordered_field BoundingBox \<Rightarrow> 'a vec3" where
  "BoundingBox_halfExtents b = (case (bb_max b, BoundingBox_center b) of ((hx, hy, hz), (cx, cy, cz)) \<Rightarrow>
     (hx - cx, hy - cy, hz - cz))"

definition BoundingBox_Intersects :: "'a::linordered_field BoundingBox \<Rightarrow> 'a BoundingBox \<Rightarrow> bool" where
  "BoundingBox_Intersects a b = (case (bb_min a, bb_max a, bb_min b, bb_max b) of
     ((ax, ay, az), (aX, aY, aZ), (bx, by', bz), (bX, bY, bZ)) \<Rightarrow>
       (ax \<le> bX \<and> aX \<ge> bx) \<and> (ay \<le> bY \<and> aY \<ge> by') \<and> (az \<le> bZ \<and> aZ \<ge> bz))"

section \<open>The frustum\<close>

text \<open>A matrix by column and row, four of each; the planes in the order of the union.\<close>

type_synonym 'a mat4 = "nat \<Rightarrow> nat \<Rightarrow> 'a"

definition Frustum_planes :: "'a::linordered_field mat4 \<Rightarrow> (nat \<Rightarrow> 'a) list" where
  "Frustum_planes mat =
     [\<lambda>i. mat i 3 + mat i 0, \<lambda>i. mat i 3 - mat i 0, \<lambda>i. mat i 3 + mat i 1, \<lambda>i. mat i 3 - mat i 1,
      \<lambda>i. mat i 3 + mat i 2, \<lambda>i. mat i 3 - mat i 2]"

fun dot4 :: "'a::linordered_field vec3 \<Rightarrow> (nat \<Rightarrow> 'a) \<Rightarrow> 'a" where
  "dot4 (x, y, z) plane = x * plane 0 + y * plane 1 + z * plane 2 + plane 3"

fun cull_loop :: "'a::linordered_field vec3 \<Rightarrow> 'a \<Rightarrow> (nat \<Rightarrow> 'a) list \<Rightarrow> bool" where
  "cull_loop center radius [] = False"
| "cull_loop center radius (plane # planes) =
     (let dist = dot4 center plane + radius in if dist < 0 then True else cull_loop center radius planes)"

definition ShouldCullSphere :: "'a::linordered_field mat4 \<Rightarrow> 'a vec3 \<Rightarrow> 'a \<Rightarrow> bool" where
  "ShouldCullSphere mat center radius = cull_loop center radius (Frustum_planes mat)"

section \<open>The ray and the box\<close>

text \<open>
  One round of the loop for each axis, with the origin, direction and bounds along it; \<open>None\<close> is
  the early \<open>return false\<close>.
\<close>

fun slab_loop :: "('a::linordered_field \<times> 'a \<times> 'a \<times> 'a) list \<Rightarrow> 'a \<Rightarrow> 'a \<Rightarrow> ('a \<times> 'a) option" where
  "slab_loop [] tmin tmax = Some (tmin, tmax)"
| "slab_loop ((org, dir, lo, hi) # axes) tmin tmax =
     (if Math_Abs dir < 1 / 100000000 then
        (if org < lo \<or> org > hi then None else slab_loop axes tmin tmax)
      else let invD = 1 / dir;
               t1 = (lo - org) * invD;
               t2 = (hi - org) * invD;
               (t1, t2) = (if t1 > t2 then (t2, t1) else (t1, t2));
               tmin = (if t1 > tmin then t1 else tmin);
               tmax = (if t2 < tmax then t2 else tmax)
           in if tmin > tmax then None else slab_loop axes tmin tmax)"

fun axes_of :: "'a vec3 \<Rightarrow> 'a vec3 \<Rightarrow> 'a vec3 \<Rightarrow> 'a vec3 \<Rightarrow> ('a \<times> 'a \<times> 'a \<times> 'a) list" where
  "axes_of (ox, oy, oz) (dx, dy, dz) (lx, ly, lz) (hx, hy, hz) = [(ox, dx, lx, hx), (oy, dy, ly, hy), (oz, dz, lz, hz)]"

definition meRayIntersectsAABB :: "'a::linordered_field vec3 \<Rightarrow> 'a vec3 \<Rightarrow> 'a vec3 \<Rightarrow> 'a vec3 \<Rightarrow> 'a option" where
  "meRayIntersectsAABB org dir aabbMin aabbMax =
     (case slab_loop (axes_of org dir aabbMin aabbMax) (- FLT_MAX) FLT_MAX of
        None \<Rightarrow> None
      | Some (tmin, tmax) \<Rightarrow> if tmax < 0 then None else Some (if tmin \<ge> 0 then tmin else tmax))"

section \<open>Properties\<close>

text \<open>Where a ray is inside a slab, and inside all of them.\<close>

fun in_slab :: "'a::linordered_field \<Rightarrow> 'a \<times> 'a \<times> 'a \<times> 'a \<Rightarrow> bool" where
  "in_slab t (org, dir, lo, hi) \<longleftrightarrow> lo \<le> org + t * dir \<and> org + t * dir \<le> hi"

fun slab_ok :: "'a::linordered_field \<times> 'a \<times> 'a \<times> 'a \<Rightarrow> bool" where
  "slab_ok (org, dir, lo, hi) \<longleftrightarrow> lo \<le> hi \<and> (dir = 0 \<or> 1 / 100000000 \<le> Math_Abs dir)"

lemma slab_interval:
  fixes org dir lo hi t :: "'a::linordered_field"
  assumes "dir \<noteq> 0" and "lo \<le> hi"
  defines "t1 \<equiv> (lo - org) * (1 / dir)" and "t2 \<equiv> (hi - org) * (1 / dir)"
  shows "in_slab t (org, dir, lo, hi) \<longleftrightarrow> min t1 t2 \<le> t \<and> t \<le> max t1 t2"
proof (cases "0 < dir")
  case True
  then have "t1 \<le> t2" using assms(2) by (simp add: t1_def t2_def divide_right_mono)
  moreover have "t1 \<le> t \<longleftrightarrow> lo \<le> org + t * dir" using True by (simp add: t1_def field_simps)
  moreover have "t \<le> t2 \<longleftrightarrow> org + t * dir \<le> hi" using True by (simp add: t2_def field_simps)
  ultimately show ?thesis by simp
next
  case False
  with assms(1) have d: "dir < 0" by simp
  then have "t2 \<le> t1" using assms(2) by (simp add: t1_def t2_def divide_right_mono_neg)
  moreover have "t \<le> t1 \<longleftrightarrow> lo \<le> org + t * dir" using d by (simp add: t1_def field_simps)
  moreover have "t2 \<le> t \<longleftrightarrow> org + t * dir \<le> hi" using d by (simp add: t2_def field_simps)
  ultimately show ?thesis by auto
qed

text \<open>The loop keeps the parameters of the points inside the slabs it is past.\<close>

lemma slab_loop_interval:
  assumes "\<forall>s\<in>set axes. slab_ok s" and "tmin \<le> tmax"
  shows "{t. tmin \<le> t \<and> t \<le> tmax \<and> (\<forall>s\<in>set axes. in_slab t s)} =
    (case slab_loop axes tmin tmax of None \<Rightarrow> {} | Some (a, b) \<Rightarrow> {t. a \<le> t \<and> t \<le> b})"
  using assms
proof (induction axes arbitrary: tmin tmax)
  case (Cons s axes)
  obtain org dir lo hi where s: "s = (org, dir, lo, hi)" by (cases s)
  have ok: "lo \<le> hi" "dir = 0 \<or> 1 / 100000000 \<le> Math_Abs dir" using Cons(2) by (simp_all add: s)
  have IH: "tmin \<le> tmax \<Longrightarrow> {t. tmin \<le> t \<and> t \<le> tmax \<and> (\<forall>s\<in>set axes. in_slab t s)} =
    (case slab_loop axes tmin tmax of None \<Rightarrow> {} | Some (a, b) \<Rightarrow> {t. a \<le> t \<and> t \<le> b})" for tmin tmax
    using Cons(1,2) by simp
  show ?case
  proof (cases "Math_Abs dir < 1 / 100000000")
    case True
    then have "dir = 0" using ok(2) by auto
    then show ?thesis using IH[OF Cons(3)] True by (auto simp: s not_less)
  next
    case False
    then have d: "dir \<noteq> 0" by (auto simp: Math_Abs_def)
    define a where "a = (lo - org) * (1 / dir)"
    define b where "b = (hi - org) * (1 / dir)"
    define tmin' where "tmin' = (if min a b > tmin then min a b else tmin)"
    define tmax' where "tmax' = (if max a b < tmax then max a b else tmax)"
    have step: "slab_loop ((org, dir, lo, hi) # axes) tmin tmax =
      (if tmin' > tmax' then None else slab_loop axes tmin' tmax')"
      using False by (auto simp: Let_def tmin'_def tmax'_def a_def b_def min_def max_def)
    have inside: "tmin \<le> t \<and> t \<le> tmax \<and> in_slab t (org, dir, lo, hi) \<longleftrightarrow> tmin' \<le> t \<and> t \<le> tmax'" for t
      unfolding slab_interval[OF d ok(1), of t org, folded a_def b_def] by (auto simp: tmin'_def tmax'_def)
    then have eq: "{t. tmin \<le> t \<and> t \<le> tmax \<and> (\<forall>s\<in>set (s # axes). in_slab t s)} =
      {t. tmin' \<le> t \<and> t \<le> tmax' \<and> (\<forall>s\<in>set axes. in_slab t s)}"
      unfolding s by auto
    show ?thesis
      unfolding eq unfolding s step
      by (cases "tmin' > tmax'") (use IH[of tmin' tmax'] in \<open>auto simp: not_less\<close>)
  qed
qed simp

lemma slab_loop_le: "slab_loop axes tmin tmax = Some (a, b) \<Longrightarrow> tmin \<le> tmax \<Longrightarrow> a \<le> b"
proof (induction axes arbitrary: tmin tmax)
  case (Cons s axes)
  obtain org dir lo hi where s: "s = (org, dir, lo, hi)" by (cases s)
  show ?case
    using Cons(2,3) unfolding s
    by (auto simp: Let_def not_less split: if_split_asm intro: Cons(1))
qed simp

text \<open>
  The ray test finds the first point of the box the ray meets. For a box that is not inside
  out and a ray whose direction is along or clearly off each axis, it reports no hit exactly if no
  point in front of the origin (up to the largest number) is in the box. Otherwise the result is
  such a point: the first one, unless the origin is inside the box, where it is the last.
\<close>

theorem meRayIntersectsAABB_first:
  fixes org dir lo hi :: "'a::linordered_field vec3"
  assumes "\<forall>s\<in>set (axes_of org dir lo hi). slab_ok s"
  defines "inside \<equiv> \<lambda>t. \<forall>s\<in>set (axes_of org dir lo hi). in_slab t s"
  shows "case meRayIntersectsAABB org dir lo hi of
      None \<Rightarrow> \<not> (\<exists>t\<ge>0. t \<le> FLT_MAX \<and> inside t)
    | Some t \<Rightarrow> 0 \<le> t \<and> t \<le> FLT_MAX \<and> inside t \<and>
        (if \<exists>u<0. - FLT_MAX \<le> u \<and> inside u then \<forall>u. t < u \<and> u \<le> FLT_MAX \<longrightarrow> \<not> inside u
         else \<forall>u. 0 \<le> u \<and> u < t \<longrightarrow> \<not> inside u)"
proof -
  have "(0::'a) \<le> FLT_MAX" by (simp add: FLT_MAX_def)
  then have "(- FLT_MAX::'a) \<le> FLT_MAX" by simp
  note I = slab_loop_interval[OF assms(1) this]
  show ?thesis
  proof (cases "slab_loop (axes_of org dir lo hi) (- FLT_MAX) FLT_MAX")
    case None
    with I have "\<not> (- FLT_MAX \<le> t \<and> t \<le> FLT_MAX \<and> inside t)" for t unfolding inside_def by auto
    moreover have "- FLT_MAX \<le> t" if "0 \<le> t" for t :: 'a using that \<open>0 \<le> FLT_MAX\<close> by (meson neg_le_0_iff_le order_trans)
    ultimately show ?thesis using None by (auto simp: meRayIntersectsAABB_def)
  next
    case (Some ab)
    obtain a b where ab: "ab = (a, b)" by (cases ab)
    have J: "- FLT_MAX \<le> t \<and> t \<le> FLT_MAX \<and> inside t \<longleftrightarrow> a \<le> t \<and> t \<le> b" for t
      using I Some unfolding inside_def ab by auto
    have le: "a \<le> b" by (rule slab_loop_le[OF Some[unfolded ab]]) (use \<open>0 \<le> FLT_MAX\<close> in simp)
    have ia: "inside a" "- FLT_MAX \<le> a" "a \<le> FLT_MAX" and ib: "inside b" "b \<le> FLT_MAX" using J[of a] J[of b] le by auto
    have pos: "- FLT_MAX \<le> t" if "0 \<le> t" for t :: 'a using that \<open>0 \<le> FLT_MAX\<close> by (meson neg_le_0_iff_le order_trans)
    consider "b < 0" | "0 \<le> b" "0 \<le> a" | "0 \<le> b" "a < 0" by linarith
    then show ?thesis
    proof cases
      case 1
      have "\<not> (\<exists>t\<ge>0. t \<le> FLT_MAX \<and> inside t)" using J pos 1 by (meson leD order_trans)
      then show ?thesis using Some 1 by (simp add: meRayIntersectsAABB_def ab)
    next
      case 2
      have "\<not> (\<exists>u<0. - FLT_MAX \<le> u \<and> inside u)"
        using J 2(2) \<open>0 \<le> FLT_MAX\<close> by (meson leD less_imp_le order_trans)
      moreover have "\<forall>u. 0 \<le> u \<and> u < a \<longrightarrow> \<not> inside u"
        using J pos ia(3) by (meson leD less_imp_le order_trans)
      ultimately show ?thesis using Some 2 ia by (auto simp: meRayIntersectsAABB_def ab)
    next
      case 3
      have "\<exists>u<0. - FLT_MAX \<le> u \<and> inside u" using 3(2) ia by blast
      moreover have "\<forall>u. b < u \<and> u \<le> FLT_MAX \<longrightarrow> \<not> inside u"
        using J pos 3(1) by (meson leD less_imp_le order_trans)
      ultimately show ?thesis using Some 3 ib by (simp add: meRayIntersectsAABB_def ab)
    qed
  qed
qed

theorem meRayIntersectsAABB_first_witness:
  "meRayIntersectsAABB (-2, 0, 0) (1, 0, 0) (-1, -1, -1) (1, 1, 1 :: rat) = Some 1 \<and>
   \<not> list_all (in_slab (1 / 2)) (axes_of (-2, 0, 0) (1, 0, 0) (-1, -1, -1) (1, 1, 1 :: rat))"
proof -
  have hit: "meRayIntersectsAABB (-2, 0, 0) (1, 0, 0) (-1, -1, -1) (1, 1, 1 :: rat) = Some 1"
    by (simp add: meRayIntersectsAABB_def FLT_MAX_def Math_Abs_def)
  have "\<forall>s\<in>set (axes_of (-2, 0, 0) (1, 0, 0) (-1, -1, -1) (1, 1, 1 :: rat)). slab_ok s"
    by (simp add: Math_Abs_def)
  from meRayIntersectsAABB_first[OF this] hit show ?thesis by (auto simp: list_all_iff split: if_splits)
qed

text \<open>
  Two rectangles given by position and size are tested with their corners in the wrong order:
  the position of the second is taken for the end of the first. So two equal rectangles do not
  overlap, whatever their size, although they overlap for the test by corners.
\<close>

theorem isOverlappingRectSize2D_wrong:
  fixes pos size :: "'a::linordered_field vec2"
  assumes "0 < fst size" and "0 < snd size"
  shows "\<not> isOverlappingRectSize2D pos size pos size \<and>
    isOverlappingRect2D pos (fst pos + fst size, snd pos + snd size) pos (fst pos + fst size, snd pos + snd size)"
  using assms by (simp add: isOverlappingRectSize2D_def isOverlappingRect2D_def)

theorem isOverlappingRectSize2D_wrong_witness:
  "\<not> isOverlappingRectSize2D (3, 4) (1, 2) (3, 4) (1, 2 :: rat)"
  using isOverlappingRectSize2D_wrong[of "(1, 2 :: rat)" "(3, 4)"] by simp

text \<open>Boxes intersect exactly when they share a point.\<close>

lemma BoundingBox_Intersects_iff:
  fixes a b :: "'a::linordered_field BoundingBox"
  assumes "bb_min a = (ax, ay, az)" "bb_max a = (aX, aY, aZ)" "bb_min b = (bx, by', bz)" "bb_max b = (bX, bY, bZ)"
    and "ax \<le> aX" "ay \<le> aY" "az \<le> aZ" "bx \<le> bX" "by' \<le> bY" "bz \<le> bZ"
  shows "BoundingBox_Intersects a b \<longleftrightarrow>
    (\<exists>x y z. ax \<le> x \<and> x \<le> aX \<and> bx \<le> x \<and> x \<le> bX \<and> ay \<le> y \<and> y \<le> aY \<and> by' \<le> y \<and> y \<le> bY \<and>
       az \<le> z \<and> z \<le> aZ \<and> bz \<le> z \<and> z \<le> bZ)" (is "?l \<longleftrightarrow> ?r")
proof
  assume ?l
  then show ?r
    using assms by (intro exI[of _ "max ax bx"] exI[of _ "max ay by'"] exI[of _ "max az bz"]) (simp add: BoundingBox_Intersects_def)
next
  assume ?r
  then show ?l using assms by (auto simp: BoundingBox_Intersects_def intro: order_trans)
qed

text \<open>The coordinates of a point after the matrix.\<close>

fun clip :: "'a::linordered_field mat4 \<Rightarrow> 'a vec3 \<Rightarrow> nat \<Rightarrow> 'a" where
  "clip mat (x, y, z) j = mat 0 j * x + mat 1 j * y + mat 2 j * z + mat 3 j"

text \<open>
  A point is culled exactly if the matrix takes it out of the clip volume: the frustum keeps
  the points whose clip coordinates lie between minus and plus the fourth.
\<close>

theorem ShouldCullSphere_point:
  "ShouldCullSphere mat p 0 \<longleftrightarrow>
    \<not> list_all (\<lambda>j. - clip mat p 3 \<le> clip mat p j \<and> clip mat p j \<le> clip mat p 3) [0, 1, 2]"
proof -
  obtain x y z where p: "p = (x, y, z)" by (cases p) auto
  have "dot4 p (\<lambda>i. mat i 3 + mat i j) = clip mat p 3 + clip mat p j"
    "dot4 p (\<lambda>i. mat i 3 - mat i j) = clip mat p 3 - clip mat p j" for j
    by (simp_all add: p algebra_simps)
  then show ?thesis
    by (simp add: ShouldCullSphere_def Frustum_planes_def Let_def not_less)
qed

text \<open>
  With a radius it is not so: the planes are not normalised, so the radius is compared with a
  distance in other units. A sphere that reaches into the volume is culled.
\<close>

lemma ShouldCullSphere_visible_sphere:
  fixes mat :: "rat mat4"
  defines "mat \<equiv> \<lambda>i j. if i = j then (if i = 3 then 1 else 2) else 0"
  shows "ShouldCullSphere mat (- 4 / 5, 0, 0) (1 / 2) \<and> \<not> ShouldCullSphere mat (- 1 / 2, 0, 0) 0"
  by (simp add: ShouldCullSphere_def Frustum_planes_def mat_def)

section \<open>Bits and percentages\<close>

text \<open>
  \<open>countLeadingZeroes\<close> counts the zeroes at the other end: 31 for the top bit, none for the lowest,
  and none for zero.
\<close>

lemma countLeadingZeroes_trailing:
  "countLeadingZeroes 0x80000000 = 31 \<and> countLeadingZeroes 1 = 0 \<and> countLeadingZeroes 12 = 2 \<and> countLeadingZeroes 0 = 0"
  by code_simp

lemma PercentOf_le:
  assumes "unat x * 100 < 4294967296"
  shows "unat (PercentOf x p) = unat x * min (unat p) 100 div 100" and "unat (PercentOf x p) \<le> unat x"
proof -
  let ?c = "Math_Clamp p 0 100 :: u32"
  have c: "unat ?c = min (unat p) 100"
    by (auto simp: Math_Clamp_def word_less_nat_alt min_def)
  have le: "unat x * unat ?c \<le> unat x * 100" by (simp add: c)
  have "unat x * unat ?c < 2 ^ 32" using le_less_trans[OF le assms] by (simp only: power_numeral Num.pow.simps Num.sqr.simps)
  then have "unat (x * ?c) = unat x * unat ?c" by (simp add: unat_mult_lem[symmetric])
  then show "unat (PercentOf x p) = unat x * min (unat p) 100 div 100" by (simp add: PercentOf_def unat_div c)
  then show "unat (PercentOf x p) \<le> unat x" using div_le_mono[OF le, of 100] by (simp add: c)
qed

lemma Remap_ends:
  fixes iMin iMax oMin oMax :: "'a::linordered_field"
  assumes "iMin \<noteq> iMax"
  shows "Remap iMin iMin iMax oMin oMax = oMin" and "Remap iMax iMin iMax oMin oMax = oMax"
  using assms by (simp_all add: Remap_def Math_Lerp_def InvLerp_def)

lemma halfExtents_FromCenter:
  fixes c h :: "'a::linordered_field vec3"
  shows "BoundingBox_center (BoundingBox_FromCenterHalfExtents c h) = c"
    and "BoundingBox_halfExtents (BoundingBox_FromCenterHalfExtents c h) = h"
  by (auto simp: BoundingBox_center_def BoundingBox_halfExtents_def BoundingBox_FromCenterHalfExtents_def
      field_simps split: prod.splits)

end
