(* ===== verification/Picking.thy ===== *)
theory Picking
  imports Geometry AssetSystems
begin

text \<open>
  Entities and picking: the flags of \<open>scene/me_entity.h\<close>, \<open>scene/me_entity.cpp\<close>, the ray cast
  through a scene of \<open>scene/me_scene.cpp\<close>, and what the editor makes of a hit
  (\<open>core/me_command.cpp\<close>, \<open>editor/me_editor.cpp\<close>).
\<close>

section \<open>Entities\<close>

text \<open>The flags are bit numbers.\<close>

definition EntityFlags_Invalid :: nat where "EntityFlags_Invalid = 1"
definition EntityFlags_DISABLED :: nat where "EntityFlags_DISABLED = 2"
definition EntityFlags_HIDDEN :: nat where "EntityFlags_HIDDEN = 3"
definition EntityFlags_Selected :: nat where "EntityFlags_Selected = 4"

record 'a meEntity =
  ent_position :: "'a vec3"
  ent_mesh :: asset
  ent_flags :: u32

definition meEntitySetFlag :: "'a meEntity \<Rightarrow> nat \<Rightarrow> bool \<Rightarrow> 'a meEntity" where
  "meEntitySetFlag ent flag enabled = ent\<lparr>ent_flags := SET_BIT (ent_flags ent) flag enabled\<rparr>"

definition meEntityIsFlag :: "'a meEntity \<Rightarrow> nat \<Rightarrow> bool" where
  "meEntityIsFlag ent flag = TEST_BIT (ent_flags ent) flag"

text \<open>By handle: through the entity pool, whose objects are in a store.\<close>

record 'a entity_system =
  es_pool :: "nat pool"
  es_store :: "nat \<rightharpoonup> 'a meEntity"

definition meEntityGet :: "'a entity_system \<Rightarrow> Eye \<Rightarrow> 'a meEntity result" where
  "meEntityGet es ref = bindR (RP_Get (es_pool es) ref) (\<lambda>c. deref (es_store es c))"

definition meEntityUpdate :: "('a meEntity \<Rightarrow> 'a meEntity) \<Rightarrow> Eye \<Rightarrow> 'a entity_system \<Rightarrow> 'a entity_system result" where
  "meEntityUpdate f ref es = bindR (RP_Get (es_pool es) ref) (\<lambda>c. bindR (deref (es_store es c)) (\<lambda>e.
     Inr (es\<lparr>es_store := (es_store es)(c \<mapsto> f e)\<rparr>)))"

definition meEntitySetFlagRef :: "Eye \<Rightarrow> nat \<Rightarrow> bool \<Rightarrow> 'a entity_system \<Rightarrow> 'a entity_system result" where
  "meEntitySetFlagRef ref flag enabled = meEntityUpdate (\<lambda>e. meEntitySetFlag e flag enabled) ref"

definition meEntityIsFlagRef :: "'a entity_system \<Rightarrow> Eye \<Rightarrow> nat \<Rightarrow> bool result" where
  "meEntityIsFlagRef es ref flag = bindR (meEntityGet es ref) (\<lambda>e. Inr (meEntityIsFlag e flag))"

text \<open>The pool's bad data is an invalid, disabled entity.\<close>

definition InitializeEntitySystem :: "'a entity_system \<Rightarrow> 'a entity_system result" where
  "InitializeEntitySystem es = bindR (meEntitySetFlagRef EYE_INVALID EntityFlags_Invalid True es)
     (meEntitySetFlagRef EYE_INVALID EntityFlags_DISABLED True)"

definition meEntityDestroy :: "Eye \<Rightarrow> 'a entity_system \<Rightarrow> (bool \<times> 'a entity_system) result" where
  "meEntityDestroy ref es = bindR (RP_Destroy (es_pool es) ref) (\<lambda>p. Inr (True, es\<lparr>es_pool := p\<rparr>))"

lemma entity_flags:
  assumes "flag < 32" and "flag' < 32"
  shows "meEntityIsFlag (meEntitySetFlag e flag v) flag' = (if flag' = flag then v else meEntityIsFlag e flag')"
  using assms by (simp add: meEntityIsFlag_def meEntitySetFlag_def TEST_BIT_bit bit_SET_BIT)

section \<open>The ray cast\<close>

record 'a meSceneRaycastHit =
  hit_entity :: asset
  hit_distance :: 'a
  hit_point :: "'a vec3"

definition entity_none :: asset where
  "entity_none = asset_staged (MAID_Of (meAssetType_value MAEntity)) Unloaded"

definition hit_none :: "'a::linordered_field meSceneRaycastHit" where
  "hit_none = \<lparr>hit_entity = entity_none, hit_distance = 0, hit_point = (0, 0, 0)\<rparr>"

definition hit_bool :: "'a meSceneRaycastHit \<Rightarrow> bool" where
  "hit_bool h \<longleftrightarrow> as_handle (hit_entity h) \<noteq> EYE_INVALID"

fun add3 :: "'a::linordered_field vec3 \<Rightarrow> 'a vec3 \<Rightarrow> 'a vec3" where
  "add3 (x, y, z) (x', y', z') = (x + x', y + y', z + z')"

fun scale3 :: "'a::linordered_field vec3 \<Rightarrow> 'a \<Rightarrow> 'a vec3" where
  "scale3 (x, y, z) t = (x * t, y * t, z * t)"

text \<open>
  What the locks of the loop give: the entity a reference of the scene refers to, if it can be
  loaded, and the bounds of the entity's mesh, whose lock is not tested. \<open>model\<close> applies the
  entity's model matrix, from the vendored mathematics, to a corner.
\<close>

record 'a locks =
  lk_entity :: "asset \<Rightarrow> 'a meEntity option"
  lk_bounds :: "'a meEntity \<Rightarrow> 'a BoundingBox option"
  lk_model :: "'a meEntity \<Rightarrow> 'a vec3 \<Rightarrow> 'a vec3"

definition entity_box :: "'a::linordered_field locks \<Rightarrow> 'a meEntity \<Rightarrow> ('a vec3 \<times> 'a vec3) result" where
  "entity_box lk ent = (case lk_bounds lk ent of
     None \<Rightarrow> Inl AssertFailed
   | Some bounds \<Rightarrow> Inr (add3 (ent_position ent) (lk_model lk ent (bb_min bounds)),
                        add3 (ent_position ent) (lk_model lk ent (bb_max bounds))))"

fun raycast_loop :: "'a::linordered_field locks \<Rightarrow> 'a vec3 \<Rightarrow> 'a vec3 \<Rightarrow> asset list \<Rightarrow> 'a \<Rightarrow> 'a meSceneRaycastHit \<Rightarrow>
    'a meSceneRaycastHit result" where
  "raycast_loop lk org dir [] closestT res = Inr res"
| "raycast_loop lk org dir (entRef # refs) closestT res =
     (case lk_entity lk entRef of
        None \<Rightarrow> raycast_loop lk org dir refs closestT res
      | Some ent \<Rightarrow>
          if meEntityIsFlag ent EntityFlags_HIDDEN \<or> meEntityIsFlag ent EntityFlags_DISABLED
          then raycast_loop lk org dir refs closestT res
          else bindR (entity_box lk ent) (\<lambda>(worldMin, worldMax).
               case meRayIntersectsAABB org dir worldMin worldMax of
                 None \<Rightarrow> raycast_loop lk org dir refs closestT res
               | Some t \<Rightarrow>
                   if t < closestT
                   then raycast_loop lk org dir refs t
                          \<lparr>hit_entity = entRef, hit_distance = t, hit_point = add3 org (scale3 dir t)\<rparr>
                   else raycast_loop lk org dir refs closestT res))"

definition meSceneRaycast :: "'a::linordered_field locks \<Rightarrow> 'a vec3 \<Rightarrow> 'a vec3 \<Rightarrow> asset list \<Rightarrow> 'a meSceneRaycastHit result" where
  "meSceneRaycast lk org dir entities = raycast_loop lk org dir entities FLT_MAX hit_none"

text \<open>The distance at which a reference is hit, if it is seen at all.\<close>

definition seen_at :: "'a::linordered_field locks \<Rightarrow> 'a vec3 \<Rightarrow> 'a vec3 \<Rightarrow> asset \<Rightarrow> 'a option" where
  "seen_at lk org dir ref = (case lk_entity lk ref of None \<Rightarrow> None
     | Some ent \<Rightarrow>
         if meEntityIsFlag ent EntityFlags_HIDDEN \<or> meEntityIsFlag ent EntityFlags_DISABLED then None
         else (case entity_box lk ent of Inl e \<Rightarrow> None | Inr (lo, hi) \<Rightarrow> meRayIntersectsAABB org dir lo hi))"

definition boxes_known :: "'a::linordered_field locks \<Rightarrow> asset list \<Rightarrow> bool" where
  "boxes_known lk refs \<longleftrightarrow> (\<forall>ref\<in>set refs. \<forall>ent. lk_entity lk ref = Some ent \<longrightarrow> lk_bounds lk ent \<noteq> None)"

lemma raycast_loop_closest:
  assumes "boxes_known lk refs"
  shows "\<exists>h. raycast_loop lk org dir refs closestT res = Inr h \<and>
    ((h = res \<and> (\<forall>ref\<in>set refs. \<forall>t. seen_at lk org dir ref = Some t \<longrightarrow> closestT \<le> t)) \<or>
     (\<exists>xs ref ys t. refs = xs @ ref # ys \<and> seen_at lk org dir ref = Some t \<and> t < closestT \<and>
        h = \<lparr>hit_entity = ref, hit_distance = t, hit_point = add3 org (scale3 dir t)\<rparr> \<and>
        (\<forall>r\<in>set xs. \<forall>u. seen_at lk org dir r = Some u \<longrightarrow> t < u) \<and>
        (\<forall>r\<in>set ys. \<forall>u. seen_at lk org dir r = Some u \<longrightarrow> t \<le> u)))"
  using assms
proof (induction refs arbitrary: closestT res)
  case (Cons ref refs)
  have known: "boxes_known lk refs" using Cons(2) by (simp add: boxes_known_def)
  have step: "raycast_loop lk org dir (ref # refs) closestT res =
    (case seen_at lk org dir ref of
       None \<Rightarrow> raycast_loop lk org dir refs closestT res
     | Some t \<Rightarrow> if t < closestT
                 then raycast_loop lk org dir refs t \<lparr>hit_entity = ref, hit_distance = t, hit_point = add3 org (scale3 dir t)\<rparr>
                 else raycast_loop lk org dir refs closestT res)"
  proof (cases "lk_entity lk ref")
    case (Some ent)
    then obtain b where "lk_bounds lk ent = Some b" using Cons(2) by (auto simp: boxes_known_def)
    with Some show ?thesis by (simp add: seen_at_def entity_box_def)
  qed (simp add: seen_at_def)
  show ?case
  proof (cases "\<exists>t. seen_at lk org dir ref = Some t \<and> t < closestT")
    case True
    then obtain t where t: "seen_at lk org dir ref = Some t" "t < closestT" by blast
    let ?h = "\<lparr>hit_entity = ref, hit_distance = t, hit_point = add3 org (scale3 dir t)\<rparr>"
    have run: "raycast_loop lk org dir (ref # refs) closestT res = raycast_loop lk org dir refs t ?h"
      unfolding step by (simp add: t)
    from Cons(1)[OF known, of t ?h] obtain h where h: "raycast_loop lk org dir refs t ?h = Inr h"
      "(h = ?h \<and> (\<forall>r\<in>set refs. \<forall>u. seen_at lk org dir r = Some u \<longrightarrow> t \<le> u)) \<or>
       (\<exists>xs r ys u. refs = xs @ r # ys \<and> seen_at lk org dir r = Some u \<and> u < t \<and>
          h = \<lparr>hit_entity = r, hit_distance = u, hit_point = add3 org (scale3 dir u)\<rparr> \<and>
          (\<forall>r\<in>set xs. \<forall>v. seen_at lk org dir r = Some v \<longrightarrow> u < v) \<and>
          (\<forall>r\<in>set ys. \<forall>v. seen_at lk org dir r = Some v \<longrightarrow> u \<le> v))" by blast
    from h(2) show ?thesis
    proof
      assume "h = ?h \<and> (\<forall>r\<in>set refs. \<forall>u. seen_at lk org dir r = Some u \<longrightarrow> t \<le> u)"
      then show ?thesis unfolding run h(1) using t
        by (intro exI[of _ h] conjI refl disjI2 exI[of _ "[]"] exI[of _ ref] exI[of _ refs] exI[of _ t]) simp_all
    next
      assume "\<exists>xs r ys u. refs = xs @ r # ys \<and> seen_at lk org dir r = Some u \<and> u < t \<and>
          h = \<lparr>hit_entity = r, hit_distance = u, hit_point = add3 org (scale3 dir u)\<rparr> \<and>
          (\<forall>r\<in>set xs. \<forall>v. seen_at lk org dir r = Some v \<longrightarrow> u < v) \<and>
          (\<forall>r\<in>set ys. \<forall>v. seen_at lk org dir r = Some v \<longrightarrow> u \<le> v)"
      then obtain xs r ys u where r: "refs = xs @ r # ys" "seen_at lk org dir r = Some u" "u < t"
          "h = \<lparr>hit_entity = r, hit_distance = u, hit_point = add3 org (scale3 dir u)\<rparr>"
          "\<forall>r\<in>set xs. \<forall>v. seen_at lk org dir r = Some v \<longrightarrow> u < v"
          "\<forall>r\<in>set ys. \<forall>v. seen_at lk org dir r = Some v \<longrightarrow> u \<le> v" by blast
      then show ?thesis unfolding run h(1) using t
        by (intro exI[of _ h] conjI refl disjI2 exI[of _ "ref # xs"] exI[of _ r] exI[of _ ys] exI[of _ u]) auto
    qed
  next
    case False
    then have run: "raycast_loop lk org dir (ref # refs) closestT res = raycast_loop lk org dir refs closestT res"
      unfolding step by (auto split: option.splits)
    have far: "closestT \<le> t" if "seen_at lk org dir ref = Some t" for t using False that by (auto simp: not_less)
    from Cons(1)[OF known, of closestT res] show ?thesis
    proof (elim exE conjE disjE)
      fix h assume "raycast_loop lk org dir refs closestT res = Inr h" "h = res"
        "\<forall>ref\<in>set refs. \<forall>t. seen_at lk org dir ref = Some t \<longrightarrow> closestT \<le> t"
      then show ?thesis unfolding run using far by (intro exI[of _ h] conjI disjI1) auto
    next
      fix h xs r ys u
      assume "raycast_loop lk org dir refs closestT res = Inr h" "refs = xs @ r # ys" "seen_at lk org dir r = Some u"
        "u < closestT" "h = \<lparr>hit_entity = r, hit_distance = u, hit_point = add3 org (scale3 dir u)\<rparr>"
        "\<forall>r\<in>set xs. \<forall>v. seen_at lk org dir r = Some v \<longrightarrow> u < v"
        "\<forall>r\<in>set ys. \<forall>v. seen_at lk org dir r = Some v \<longrightarrow> u \<le> v"
      then show ?thesis unfolding run using far
        by (intro exI[of _ h] conjI disjI2 exI[of _ "ref # xs"] exI[of _ r] exI[of _ ys] exI[of _ u]) (auto dest: less_le_trans)
    qed
  qed
qed simp

text \<open>
  C30. The ray cast returns the first of the closest: the entity reference with the smallest
  distance at which the ray meets a visible entity's box, of several at the same distance the
  first in the scene, with the point at that distance; and nothing only if no visible entity is
  met nearer than the largest number.
\<close>

theorem meSceneRaycast_closest:
  fixes org :: "'a::linordered_field vec3"
  assumes "boxes_known lk entities"
  shows "\<exists>h. meSceneRaycast lk org dir entities = Inr h \<and>
    ((h = hit_none \<and> (\<forall>ref\<in>set entities. \<forall>t. seen_at lk org dir ref = Some t \<longrightarrow> FLT_MAX \<le> t)) \<or>
     (\<exists>xs ref ys t. entities = xs @ ref # ys \<and> seen_at lk org dir ref = Some t \<and> t < FLT_MAX \<and>
        h = \<lparr>hit_entity = ref, hit_distance = t, hit_point = add3 org (scale3 dir t)\<rparr> \<and>
        (\<forall>r\<in>set xs. \<forall>u. seen_at lk org dir r = Some u \<longrightarrow> t < u) \<and>
        (\<forall>r\<in>set ys. \<forall>u. seen_at lk org dir r = Some u \<longrightarrow> t \<le> u)))"
  unfolding meSceneRaycast_def by (rule raycast_loop_closest[OF assms])

section \<open>The editor\<close>

text \<open>
  The selected entity, the inspectors (a \<open>HybridArray\<close>, see \<open>HybridArrays\<close>, here the list of its
  elements) and, for each material, the highlight in its editor data. \<open>material_of\<close> is the
  material of the mesh of an entity, as the locks find it.
\<close>

record inspector =
  in_currentAsset :: asset
  in_active :: bool

record 'a editor =
  ed_entities :: "'a entity_system"
  ed_inspectors :: "inspector list"
  ed_selectedObj :: asset
  ed_highlight :: "nat \<Rightarrow> bool"

definition asset_eq :: "asset \<Rightarrow> asset \<Rightarrow> bool" where
  "asset_eq a b \<longleftrightarrow> as_id a = as_id b \<and> as_handle a = as_handle b"

definition meEditorOnEntitySelect :: "('a meEntity \<Rightarrow> nat option) \<Rightarrow> Eye \<Rightarrow> bool \<Rightarrow> 'a editor \<Rightarrow> 'a editor result" where
  "meEditorOnEntitySelect material_of entityRef isSelected ed =
     bindR (meEntityUpdate (\<lambda>e. e\<lparr>ent_flags := SET_BIT (ent_flags e) EntityFlags_Selected True\<rparr>) entityRef (ed_entities ed)) (\<lambda>es.
     bindR (meEntityGet es entityRef) (\<lambda>entity.
     case material_of entity of
       None \<Rightarrow> Inl AssertFailed
     | Some material \<Rightarrow> Inr (ed\<lparr>ed_entities := es, ed_highlight := (ed_highlight ed)(material := isSelected)\<rparr>)))"

fun FindInspectorForAsset :: "inspector list \<Rightarrow> MAID \<Rightarrow> nat option" where
  "FindInspectorForAsset [] assetID = None"
| "FindInspectorForAsset (i # is) assetID =
     (if as_id (in_currentAsset i) = assetID then Some 0 else map_option Suc (FindInspectorForAsset is assetID))"

definition HandlePickEntity ::
    "'a::linordered_field locks \<Rightarrow> ('a meEntity \<Rightarrow> nat option) \<Rightarrow> 'a vec3 \<Rightarrow> 'a vec3 \<Rightarrow> asset list \<Rightarrow> 'a editor \<Rightarrow> 'a editor result" where
  "HandlePickEntity lk material_of org dir entities ed =
     bindR (meSceneRaycast lk org dir entities) (\<lambda>hit.
     bindR (if \<not> asset_eq (ed_selectedObj ed) (hit_entity hit) then
              bindR (if isLoaded (ed_selectedObj ed)
                     then meEditorOnEntitySelect material_of (as_handle (ed_selectedObj ed)) False ed else Inr ed) (\<lambda>ed.
              if hit_bool hit then meEditorOnEntitySelect material_of (as_handle (hit_entity hit)) True ed else Inr ed)
            else Inr ed) (\<lambda>ed.
     let ed = ed\<lparr>ed_selectedObj := hit_entity hit\<rparr>
     in if \<not> hit_bool hit then Inr ed
        else case FindInspectorForAsset (ed_inspectors ed) (as_id (hit_entity hit)) of
          Some k \<Rightarrow> Inr (ed\<lparr>ed_inspectors := (ed_inspectors ed)[k := \<lparr>in_currentAsset = hit_entity hit, in_active = True\<rparr>]\<rparr>)
        | None \<Rightarrow> Inr (ed\<lparr>ed_inspectors := ed_inspectors ed @ [\<lparr>in_currentAsset = hit_entity hit, in_active = True\<rparr>]\<rparr>)))"

lemma FindInspector_spec:
  "case FindInspectorForAsset is m of
     None \<Rightarrow> \<forall>i\<in>set is. as_id (in_currentAsset i) \<noteq> m
   | Some k \<Rightarrow> k < length is \<and> as_id (in_currentAsset (is ! k)) = m"
  by (induction "is" m rule: FindInspectorForAsset.induct) (auto split: option.splits)

lemma bex_update: "k < length xs \<Longrightarrow> P x \<Longrightarrow> \<exists>i\<in>set (xs[k := x]). P i"
  by (blast intro: set_update_memI)

text \<open>
  A click on an entity that the scene refers to by its id alone - as saved scenes do; the lock
  of the ray cast loads it, into a copy - is lost: the hit carries no handle, so the editor ends
  with nothing selected and no inspector opened, although the entity is the closest seen.
\<close>

theorem pick_by_id_lost:
  fixes org :: "'a::linordered_field vec3"
  assumes "boxes_known lk [ref]" and "seen_at lk org dir ref = Some t" and "t < FLT_MAX"
    and "as_handle ref = EYE_INVALID" and "\<not> isLoaded (ed_selectedObj ed)"
  shows "HandlePickEntity lk material_of org dir [ref] ed = Inr (ed\<lparr>ed_selectedObj := ref\<rparr>) \<and>
    \<not> isLoaded (ed_selectedObj (ed\<lparr>ed_selectedObj := ref\<rparr>))"
proof -
  have "meSceneRaycast lk org dir [ref] =
      Inr \<lparr>hit_entity = ref, hit_distance = t, hit_point = add3 org (scale3 dir t)\<rparr>"
    unfolding meSceneRaycast_def
    using raycast_loop_closest[OF assms(1), of org dir FLT_MAX hit_none] assms(2,3)
    by (auto simp: Cons_eq_append_conv)
  then show ?thesis using assms(4,5) by (auto simp: HandlePickEntity_def hit_bool_def isLoaded_def)
qed

text \<open>
  Selecting another entity takes the highlight off the material of the one selected before,
  unless both share it, and puts it on the new one's; but the flag that says an entity is selected
  is only ever set: after the change both entities have it.
\<close>

theorem pick_selects:
  fixes org :: "'a::linordered_field vec3"
  assumes hit: "meSceneRaycast lk org dir entities = Inr h" "hit_bool h"
    and old: "isLoaded (ed_selectedObj ed)" "as_handle (ed_selectedObj ed) \<noteq> as_handle (hit_entity h)"
    and objs: "RP_Get (es_pool (ed_entities ed)) (as_handle (ed_selectedObj ed)) = Inr c"
      "RP_Get (es_pool (ed_entities ed)) (as_handle (hit_entity h)) = Inr d" "c \<noteq> d"
    and ents: "es_store (ed_entities ed) c = Some e" "es_store (ed_entities ed) d = Some f"
    and mats: "\<And>x. material_of x = Some (mat (ent_mesh x))"
  shows "\<exists>ed'. HandlePickEntity lk material_of org dir entities ed = Inr ed' \<and> ed_selectedObj ed' = hit_entity h \<and>
    ed_highlight ed' = (ed_highlight ed)(mat (ent_mesh e) := False, mat (ent_mesh f) := True) \<and>
    (\<exists>i\<in>set (ed_inspectors ed'). in_active i \<and> in_currentAsset i = hit_entity h) \<and>
    (\<forall>x\<in>{as_handle (ed_selectedObj ed), as_handle (hit_entity h)}.
       meEntityIsFlagRef (ed_entities ed') x EntityFlags_Selected = Inr True)"
proof -
  have "\<not> asset_eq (ed_selectedObj ed) (hit_entity h)" using old(2) by (simp add: asset_eq_def)
  note defs = HandlePickEntity_def meEditorOnEntitySelect_def meEntityUpdate_def meEntityGet_def
  show ?thesis
    using hit old objs ents mats \<open>\<not> asset_eq _ _\<close> FindInspector_spec[of "ed_inspectors ed" "as_id (hit_entity h)"]
    by (auto simp: defs Let_def meEntityIsFlagRef_def meEntityIsFlag_def TEST_BIT_bit bit_SET_BIT
        EntityFlags_Selected_def bex_update split: option.splits)
qed

section \<open>The properties at a small scene\<close>

definition small_locks :: "rat meEntity option \<Rightarrow> rat locks" where
  "small_locks e = \<lparr>lk_entity = (\<lambda>_. e), lk_bounds = (\<lambda>_. Some \<lparr>bb_min = (-1, -1, -1), bb_max = (1, 1, 1)\<rparr>),
     lk_model = (\<lambda>_ v. v)\<rparr>"

definition small_entity :: "rat meEntity" where
  "small_entity = \<lparr>ent_position = (0, 0, 0), ent_mesh = entity_none, ent_flags = 0\<rparr>"

lemma small_locks_simps [simp]:
  "lk_entity (small_locks e) ref = e" "lk_bounds (small_locks e) x = Some \<lparr>bb_min = (-1, -1, -1), bb_max = (1, 1, 1)\<rparr>"
  "lk_model (small_locks e) x v = v"
  by (simp_all add: small_locks_def)

lemma small_box: "meRayIntersectsAABB (-2, 0, 0) (1, 0, 0) (-1, -1, -1) (1, 1, 1 :: rat) = Some 1"
  by (simp add: meRayIntersectsAABB_def FLT_MAX_def Math_Abs_def)

lemma small_seen: "seen_at (small_locks (Some small_entity)) (-2, 0, 0) (1, 0, 0) ref = Some 1"
  using small_box
  by (simp add: seen_at_def entity_box_def small_entity_def meEntityIsFlag_def TEST_BIT_bit)

lemma small_known: "boxes_known (small_locks e) refs"
  by (simp add: boxes_known_def)

lemma small_near: "(1 :: rat) < FLT_MAX"
  by (simp add: FLT_MAX_def)

lemma meSceneRaycast_closest_witness:
  "\<exists>h. meSceneRaycast (small_locks (Some small_entity)) (-2, 0, 0) (1, 0, 0) [entity_none, entity_none] = Inr h \<and>
     hit_distance h = 1"
proof -
  let ?lk = "small_locks (Some small_entity)"
  from meSceneRaycast_closest[OF small_known[of "Some small_entity" "[entity_none, entity_none]"],
      where org = "(-2, 0, 0)" and dir = "(1, 0, 0)"]
  show ?thesis using small_seen small_near by (auto simp: not_le)
qed

definition small_editor :: "nat pool \<Rightarrow> asset \<Rightarrow> rat editor" where
  "small_editor p selected = \<lparr>ed_entities = \<lparr>es_pool = p, es_store = [8 \<mapsto> small_entity,
     9 \<mapsto> small_entity\<lparr>ent_mesh := asset_staged MAID_INVALID Unloaded\<rparr>]\<rparr>, ed_inspectors = [],
     ed_selectedObj = selected, ed_highlight = (\<lambda>_. False)\<rparr>"

lemma pick_by_id_lost_witness:
  "\<exists>p ed. HandlePickEntity (small_locks (Some small_entity)) (\<lambda>_. None) (-2, 0, 0) (1, 0, 0) [entity_none]
     (small_editor p entity_none) = Inr ed \<and> ed_inspectors ed = []"
proof -
  have "as_handle entity_none = EYE_INVALID" "\<not> isLoaded (ed_selectedObj (small_editor p entity_none))" for p
    by (simp_all add: small_editor_def entity_none_def asset_staged_def isLoaded_def)
  from pick_by_id_lost[OF small_known small_seen small_near this] show ?thesis by (simp add: small_editor_def)
qed

text \<open>A pool with an instance and a template.\<close>

lemma two_objects:
  "\<exists>p h h'. RP_Get (p :: nat pool) h = Inr 8 \<and> RP_Get p h' = Inr 9 \<and> h \<noteq> h' \<and> h \<noteq> EYE_INVALID \<and> h' \<noteq> EYE_INVALID"
proof -
  from pool_new_wf [of "7 :: nat" 0 0] obtain p where
    p: "pool_wf (p :: nat pool)" "\<And>t. length (blocks (assoc_pool t p)) = 1"
      "\<And>t k. slot_generation (slots t p k) = 0"
    by (auto simp: slot_default_generation)
  have "pool_room (is_template meResourceType_InstanceAsset) p" by (simp add: pool_room_def p(2))
  from RP_Create_ok [OF p(1) this, of 8] obtain k q where
    q: "pool_wf q" "0 < k" "k < 8388608" "k \<in> live_slots False q" "slot_obj (slots False q k) = Some 8"
      "slot_generation (slots False q k) = 0" "assoc_pool True q = assoc_pool True p"
    by (auto simp: Let_def is_template_def p(3))
  have "pool_room (is_template meResourceType_TemplateAsset) q" by (simp add: pool_room_def p(2) q(7) is_template_def)
  from RP_Create_ok [OF q(1) this, of 9] obtain j r where
    r: "pool_wf r" "0 < j" "j < 8388608" "j \<in> live_slots True r" "slot_obj (slots True r j) = Some 9"
      "slot_generation (slots True r j) = 0" "assoc_pool False r = assoc_pool False q"
    using p(3)[of True] q(7) by (auto simp: Let_def is_template_def)
  let ?h = "Eye_make (of_nat k) 0 False" and ?h' = "Eye_make (of_nat j) 0 True"
  have h: "unat (Eye_GetIndex ?h) = k" "Eye_IsTemplateAsset ?h = False" "Eye_GetGeneration ?h = 0"
    using q(3) by (simp_all only: Eye_GetIndex_of_nat Eye_IsTemplateAsset_make Eye_GetGeneration_make)
  have h': "unat (Eye_GetIndex ?h') = j" "Eye_IsTemplateAsset ?h' = True" "Eye_GetGeneration ?h' = 0"
    using r(3) by (simp_all only: Eye_GetIndex_of_nat Eye_IsTemplateAsset_make Eye_GetGeneration_make)
  have "RP_Get r ?h = Inr 8" using RP_Get_live[OF r(1), of ?h] q(4-6) r(7) h by (simp add: Let_def)
  moreover have "RP_Get r ?h' = Inr 9" using RP_Get_live[OF r(1), of ?h'] r(4-6) h' by (simp add: Let_def)
  moreover have "?h \<noteq> ?h'" "?h \<noteq> EYE_INVALID" "?h' \<noteq> EYE_INVALID"
    using h h' q(2) r(2) by (metis, metis Eye_zero(1) EYE_INVALID_def unat_0 less_irrefl, metis Eye_zero(1) EYE_INVALID_def unat_0 less_irrefl)
  ultimately show ?thesis by blast
qed

lemma pick_selects_witness:
  "\<exists>p h h' ed. HandlePickEntity (small_locks (Some small_entity)) (\<lambda>x. Some (if ent_mesh x = entity_none then 0 else 1))
       (-2, 0, 0) (1, 0, 0) [asset_handled h' MAID_INVALID] (small_editor p (asset_handled h MAID_INVALID)) = Inr ed \<and>
     \<not> ed_highlight ed 0 \<and> ed_highlight ed 1 \<and>
     meEntityIsFlagRef (ed_entities ed) h EntityFlags_Selected = Inr True"
proof -
  obtain p :: "nat pool" and h h' where
    p: "RP_Get p h = Inr 8" "RP_Get p h' = Inr 9" "h \<noteq> h'" "h \<noteq> EYE_INVALID" "h' \<noteq> EYE_INVALID"
    using two_objects by blast
  let ?lk = "small_locks (Some small_entity)" and ?ref = "asset_handled h' MAID_INVALID"
  let ?ed = "small_editor p (asset_handled h MAID_INVALID)"
  have hit: "meSceneRaycast ?lk (-2, 0, 0) (1, 0, 0) [?ref] =
      Inr \<lparr>hit_entity = ?ref, hit_distance = 1, hit_point = add3 (-2, 0, 0) (scale3 (1, 0, 0) 1)\<rparr>" (is "_ = Inr ?hit")
    using raycast_loop_closest[OF small_known[of "Some small_entity" "[?ref]"], where org = "(-2, 0, 0)" and dir = "(1, 0, 0)" and
        closestT = FLT_MAX and res = hit_none] small_seen small_near
    by (auto simp: meSceneRaycast_def Cons_eq_append_conv not_le)
  have valid: "Eye_bool h" using p(4) by (simp add: Eye_bool_def EYE_INVALID_def)
  have args: "hit_bool ?hit" "isLoaded (ed_selectedObj ?ed)" "as_handle (ed_selectedObj ?ed) \<noteq> as_handle (hit_entity ?hit)"
    "RP_Get (es_pool (ed_entities ?ed)) (as_handle (ed_selectedObj ?ed)) = Inr 8"
    "RP_Get (es_pool (ed_entities ?ed)) (as_handle (hit_entity ?hit)) = Inr 9"
    "es_store (ed_entities ?ed) 8 = Some small_entity"
    "es_store (ed_entities ?ed) 9 = Some (small_entity\<lparr>ent_mesh := asset_staged MAID_INVALID Unloaded\<rparr>)"
    using p valid by (simp_all add: hit_bool_def asset_handled_def small_editor_def isLoaded_def)
  have mesh: "ent_mesh small_entity = entity_none" "asset_staged MAID_INVALID Unloaded \<noteq> entity_none"
    by (simp add: small_entity_def, code_simp)
  from pick_selects[OF hit args(1-5) _ args(6,7), of "\<lambda>x. Some (if ent_mesh x = entity_none then 0 else 1)"
      "\<lambda>m. if m = entity_none then 0 else 1"] obtain ed where
    ed: "HandlePickEntity ?lk (\<lambda>x. Some (if ent_mesh x = entity_none then 0 else 1)) (-2, 0, 0) (1, 0, 0) [?ref] ?ed = Inr ed"
      "ed_highlight ed 0 = False" "ed_highlight ed 1 = True"
      "meEntityIsFlagRef (ed_entities ed) (as_handle (ed_selectedObj ?ed)) EntityFlags_Selected = Inr True"
    using mesh by auto
  moreover have "as_handle (ed_selectedObj ?ed) = h" by (simp add: small_editor_def asset_handled_def)
  ultimately show ?thesis by (intro exI[of _ p] exI[of _ h] exI[of _ h'] exI[of _ ed]) simp
qed

end
