(* ===== verification/HotReload.thy ===== *)
theory HotReload
  imports StringParse
begin

text \<open>
  Reloading the user's program while the engine runs (\<open>core/me_app.h\<close>, \<open>core/me_app.cpp\<close>): a key
  starts a build, the watcher of the build's process queues a command, and the main thread swaps the
  library when it flushes its commands.
\<close>

section \<open>State\<close>

text \<open>
  A callback is one of the engine's own that do nothing, or code of a loaded module. The module
  handles are the operating system's; it counts how often each is loaded and drops a module when
  its count is zero.
\<close>

datatype code_ptr = DefaultFn | ModuleFn nat nat

record MindseyeAppCallbacks =
  initFn :: code_ptr
  updateFn :: code_ptr
  shutdownFn :: code_ptr
  onSceneLoaded :: "code_ptr list"

definition callbacks_default :: MindseyeAppCallbacks where
  "callbacks_default = \<lparr>initFn = DefaultFn, updateFn = DefaultFn, shutdownFn = DefaultFn, onSceneLoaded = []\<rparr>"

record AppDllSlot =
  sl_callbacks :: MindseyeAppCallbacks
  sl_dllHandle :: "nat option"

definition slot_empty :: AppDllSlot where
  "slot_empty = \<lparr>sl_callbacks = callbacks_default, sl_dllHandle = None\<rparr>"

record meLoadedUserApp =
  ap_slots :: "AppDllSlot list"
  ap_activeSlot :: nat
  ap_dllCounter :: int
  ap_pendingSlot :: nat

definition meLoadedUserApp_new :: meLoadedUserApp where
  "meLoadedUserApp_new = \<lparr>ap_slots = replicate 2 slot_empty, ap_activeSlot = 0, ap_dllCounter = 1, ap_pendingSlot = 0\<rparr>"

definition ActiveCallbacks :: "meLoadedUserApp \<Rightarrow> MindseyeAppCallbacks" where
  "ActiveCallbacks app = sl_callbacks (ap_slots app ! ap_activeSlot app)"

record HotReloadData =
  hr_newCounter :: int
  hr_newSlot :: nat
  hr_builtDllPath :: "u8 list"
  hr_newDllPath :: "u8 list"

text \<open>
  The engine as far as reloading goes: how many builds run, how many swap commands wait for the
  main thread, and the counts of the modules.
\<close>

record reload =
  rl_app :: meLoadedUserApp
  rl_hot :: HotReloadData
  rl_builds :: nat
  rl_swaps :: nat
  rl_modules :: "nat \<Rightarrow> nat"

section \<open>Operations\<close>

definition InternalRegisterApp :: "MindseyeAppCallbacks \<Rightarrow> meLoadedUserApp \<Rightarrow> meLoadedUserApp" where
  "InternalRegisterApp cbs app = app\<lparr>ap_slots :=
     (ap_slots app)[ap_pendingSlot app := (ap_slots app ! ap_pendingSlot app)\<lparr>sl_callbacks := cbs\<rparr>]\<rparr>"

text \<open>
  What a load of a path gives: nothing, or a handle, with the callbacks the library's static
  initialisers register if this load runs them.
\<close>

type_synonym loader = "u8 list \<Rightarrow> (nat \<times> MindseyeAppCallbacks option) option"

definition LoadDynamicLibrary :: "loader \<Rightarrow> u8 list \<Rightarrow> reload \<Rightarrow> nat option \<times> reload" where
  "LoadDynamicLibrary load path r = (case load path of
     None \<Rightarrow> (None, r)
   | Some (h, registered) \<Rightarrow>
       (Some h, r\<lparr>rl_modules := (rl_modules r)(h := rl_modules r h + 1),
                  rl_app := (case registered of None \<Rightarrow> rl_app r | Some cbs \<Rightarrow> InternalRegisterApp cbs (rl_app r))\<rparr>))"

definition UnloadDynamicLibrary :: "nat option \<Rightarrow> reload \<Rightarrow> reload" where
  "UnloadDynamicLibrary handle r = (case handle of
     None \<Rightarrow> r
   | Some h \<Rightarrow> r\<lparr>rl_modules := (rl_modules r)(h := rl_modules r h - 1)\<rparr>)"

text \<open>The first load, when the engine reads its configuration.\<close>

definition load_user_app :: "loader \<Rightarrow> u8 list \<Rightarrow> reload \<Rightarrow> reload" where
  "load_user_app load userAppDllPath r =
     (let r = r\<lparr>rl_app := (rl_app r)\<lparr>ap_pendingSlot := 0\<rparr>\<rparr>;
          (gameLib, r) = LoadDynamicLibrary load userAppDllPath r
      in if gameLib = None then r
         else r\<lparr>rl_app := (rl_app r)\<lparr>ap_slots := (ap_slots (rl_app r))[0 := (ap_slots (rl_app r) ! 0)\<lparr>sl_dllHandle := gameLib\<rparr>],
                  ap_activeSlot := 0, ap_dllCounter := 1\<rparr>\<rparr>)"

text \<open>The paths of the libraries: formatted into buffers of a fixed size, so cut off.\<close>

definition ME_PATH_MAX :: nat where
  "ME_PATH_MAX = 260"

definition format_int :: "int \<Rightarrow> u8 list" where
  "format_int i = (if i < 0 then 45 # dec_digits (nat (- i)) else dec_digits (nat i))"

definition dll_path :: "u8 list \<Rightarrow> u8 list \<Rightarrow> u8 list \<Rightarrow> u8 list" where
  "dll_path exeFolder appName suffix = take (ME_PATH_MAX - 1) (exeFolder @ [47] @ appName @ suffix @ [46, 100, 108, 108])"

definition CheckForUserAppReload :: "bool \<Rightarrow> u8 list \<Rightarrow> u8 list \<Rightarrow> reload \<Rightarrow> reload result" where
  "CheckForUserAppReload pressed exeFolder appName r =
     (if \<not> pressed then Inr r
      else let app = rl_app r
           in require SignedOverflow (ap_dllCounter app < 2147483647)
                (Inr (r\<lparr>rl_hot := \<lparr>hr_newCounter = ap_dllCounter app + 1,
                          hr_newSlot = 1 - ap_activeSlot app,
                          hr_builtDllPath = dll_path exeFolder appName [],
                          hr_newDllPath = dll_path exeFolder appName (45 # format_int (ap_dllCounter app + 1))\<rparr>,
                        rl_builds := rl_builds r + 1\<rparr>)))"

text \<open>Runs on the thread that watches the build: with its exit code, and whether the copy succeeds.\<close>

definition OnHotReloadBuildComplete :: "int \<Rightarrow> (u8 list \<Rightarrow> u8 list \<Rightarrow> bool) \<Rightarrow> reload \<Rightarrow> reload" where
  "OnHotReloadBuildComplete exitCode file_copy r =
     (if exitCode = 2 then r
      else if exitCode \<noteq> 0 then r
      else if \<not> file_copy (hr_builtDllPath (rl_hot r)) (hr_newDllPath (rl_hot r)) then r
      else r\<lparr>rl_swaps := rl_swaps r + 1\<rparr>)"

definition DoUserAppDllSwap :: "loader \<Rightarrow> reload \<Rightarrow> reload" where
  "DoUserAppDllSwap load r =
     (let data = rl_hot r;
          r = r\<lparr>rl_app := (rl_app r)\<lparr>ap_pendingSlot := hr_newSlot data\<rparr>\<rparr>;
          (newHandle, r) = LoadDynamicLibrary load (hr_newDllPath data) r;
          r = r\<lparr>rl_app := (rl_app r)\<lparr>ap_pendingSlot := 0\<rparr>\<rparr>
      in if newHandle = None then r
         else let app = rl_app r;
                  r = UnloadDynamicLibrary (sl_dllHandle (ap_slots app ! ap_activeSlot app)) r;
                  slots = (ap_slots app)[ap_activeSlot app := slot_empty];
                  slots = slots[hr_newSlot data := (slots ! hr_newSlot data)\<lparr>sl_dllHandle := newHandle\<rparr>]
              in r\<lparr>rl_app := app\<lparr>ap_slots := slots, ap_dllCounter := hr_newCounter data, ap_activeSlot := hr_newSlot data\<rparr>\<rparr>)"

section \<open>Runs\<close>

text \<open>
  The main thread checks the key and runs a waiting swap command; a build that runs completes at any
  time. A library registers its own functions.
\<close>

fun in_module :: "nat \<Rightarrow> code_ptr \<Rightarrow> bool" where
  "in_module h DefaultFn = True"
| "in_module h (ModuleFn h' a) = (h' = h)"

definition callbacks_of :: "nat \<Rightarrow> MindseyeAppCallbacks \<Rightarrow> bool" where
  "callbacks_of h cbs \<longleftrightarrow> in_module h (initFn cbs) \<and> in_module h (updateFn cbs) \<and> in_module h (shutdownFn cbs) \<and>
     list_all (in_module h) (onSceneLoaded cbs)"

definition registers_own :: "loader \<Rightarrow> bool" where
  "registers_own load \<longleftrightarrow> (\<forall>path h cbs. load path = Some (h, Some cbs) \<longrightarrow> callbacks_of h cbs)"

inductive reload_step :: "reload \<Rightarrow> reload \<Rightarrow> bool" where
  check: "CheckForUserAppReload pressed exeFolder appName r = Inr r' \<Longrightarrow> reload_step r r'"
| complete: "0 < rl_builds r \<Longrightarrow>
    reload_step r (OnHotReloadBuildComplete exitCode file_copy (r\<lparr>rl_builds := rl_builds r - 1\<rparr>))"
| swap: "0 < rl_swaps r \<Longrightarrow> registers_own load \<Longrightarrow>
    reload_step r (DoUserAppDllSwap load (r\<lparr>rl_swaps := rl_swaps r - 1\<rparr>))"

inductive reload_run :: "reload \<Rightarrow> reload \<Rightarrow> bool" where
  none: "reload_run r r"
| more: "reload_run r r' \<Longrightarrow> reload_step r' r'' \<Longrightarrow> reload_run r r''"

definition reload_start :: "HotReloadData \<Rightarrow> reload" where
  "reload_start hot = \<lparr>rl_app = meLoadedUserApp_new, rl_hot = hot, rl_builds = 0, rl_swaps = 0, rl_modules = \<lambda>h. 0\<rparr>"

section \<open>No code of an unloaded library is called\<close>

text \<open>
  One slot is in use and the other empty; the callbacks in use are those of the module of the slot,
  which is loaded, or the defaults. The data of a reload under way name one of the slots.
\<close>

definition app_inv :: "meLoadedUserApp \<Rightarrow> (nat \<Rightarrow> nat) \<Rightarrow> bool" where
  "app_inv app modules \<longleftrightarrow> length (ap_slots app) = 2 \<and> ap_activeSlot app < 2 \<and>
     ap_slots app ! (1 - ap_activeSlot app) = slot_empty \<and>
     (case sl_dllHandle (ap_slots app ! ap_activeSlot app) of
        None \<Rightarrow> ActiveCallbacks app = callbacks_default
      | Some h \<Rightarrow> 0 < modules h \<and> callbacks_of h (ActiveCallbacks app))"

definition reload_inv :: "reload \<Rightarrow> bool" where
  "reload_inv r \<longleftrightarrow> app_inv (rl_app r) (rl_modules r) \<and> (0 < rl_builds r + rl_swaps r \<longrightarrow> hr_newSlot (rl_hot r) < 2)"

lemma callbacks_default_of [simp]: "callbacks_of h callbacks_default"
  by (simp add: callbacks_of_def callbacks_default_def)

lemma slot_empty_simps [simp]: "sl_callbacks slot_empty = callbacks_default" "sl_dllHandle slot_empty = None"
  by (simp_all add: slot_empty_def)

lemma two_slots: "length xs = 2 \<Longrightarrow> xs = [xs ! 0, xs ! Suc 0]"
  by (cases xs; cases "tl xs") auto

lemma less_2: "(i::nat) < 2 \<longleftrightarrow> i = 0 \<or> i = Suc 0"
  by auto

lemma DoUserAppDllSwap_inv:
  assumes "app_inv (rl_app r) (rl_modules r)" and "hr_newSlot (rl_hot r) < 2" and "registers_own load"
  shows "app_inv (rl_app (DoUserAppDllSwap load r)) (rl_modules (DoUserAppDllSwap load r))"
proof -
  obtain s0 s1 where s: "ap_slots (rl_app r) = [s0, s1]"
    using assms(1) two_slots unfolding app_inv_def by blast
  have own: "load (hr_newDllPath (rl_hot r)) = Some (h, Some cbs) \<Longrightarrow> callbacks_of h cbs" for h cbs
    using assms(3) unfolding registers_own_def by blast
  have a: "ap_activeSlot (rl_app r) = 0 \<or> ap_activeSlot (rl_app r) = Suc 0"
    using assms(1) by (auto simp: app_inv_def)
  have n: "hr_newSlot (rl_hot r) = 0 \<or> hr_newSlot (rl_hot r) = Suc 0" using assms(2) by auto
  note defs = DoUserAppDllSwap_def LoadDynamicLibrary_def UnloadDynamicLibrary_def InternalRegisterApp_def
    app_inv_def ActiveCallbacks_def Let_def
  show ?thesis
    using a n assms(1) own s
    by (elim disjE; cases "load (hr_newDllPath (rl_hot r))")
      (auto simp: defs split: option.splits)
qed

lemma DoUserAppDllSwap_frame [simp]:
  "rl_builds (DoUserAppDllSwap load r) = rl_builds r" "rl_swaps (DoUserAppDllSwap load r) = rl_swaps r"
  "rl_hot (DoUserAppDllSwap load r) = rl_hot r"
  by (auto simp: DoUserAppDllSwap_def LoadDynamicLibrary_def UnloadDynamicLibrary_def Let_def split: option.splits)

lemma app_inv_frame [simp]:
  "app_inv (app\<lparr>ap_dllCounter := n\<rparr>) ms = app_inv app ms" "app_inv (app\<lparr>ap_pendingSlot := k\<rparr>) ms = app_inv app ms"
  by (simp_all add: app_inv_def ActiveCallbacks_def cong: option.case_cong)

lemma reload_step_inv: "reload_step r r' \<Longrightarrow> reload_inv r \<Longrightarrow> reload_inv r'"
proof (induction rule: reload_step.induct)
  case (check pressed exeFolder appName r r')
  then show ?case
    by (auto simp: CheckForUserAppReload_def reload_inv_def Let_def require_Inr split: if_splits)
next
  case (complete r exitCode file_copy)
  then show ?case by (auto simp: OnHotReloadBuildComplete_def reload_inv_def)
next
  case (swap r load)
  with DoUserAppDllSwap_inv[of "r\<lparr>rl_swaps := rl_swaps r - 1\<rparr>" load] show ?case
    by (simp add: reload_inv_def)
qed

lemma reload_run_inv: "reload_run r r' \<Longrightarrow> reload_inv r \<Longrightarrow> reload_inv r'"
  by (induction rule: reload_run.induct) (auto intro: reload_step_inv)

lemma load_user_app_inv: "registers_own load \<Longrightarrow> reload_inv (load_user_app load path (reload_start hot))"
  by (auto simp: load_user_app_def LoadDynamicLibrary_def InternalRegisterApp_def reload_start_def meLoadedUserApp_new_def
      reload_inv_def app_inv_def ActiveCallbacks_def registers_own_def Let_def numeral_eq_Suc split: option.splits)

text \<open>
  C23. Whatever keys are pressed, builds end and libraries fail to load: in every state of a run of
  the engine, each callback it would call is one of the engine's own defaults or code of a library
  that is loaded; never of one that was unloaded.
\<close>

theorem reload_never_dangles:
  assumes "registers_own load" and "reload_run (load_user_app load path (reload_start hot)) r"
    and "f \<in> {initFn cbs, updateFn cbs, shutdownFn cbs} \<union> set (onSceneLoaded cbs)" and "cbs = ActiveCallbacks (rl_app r)"
  shows "f = DefaultFn \<or> (\<exists>h a. f = ModuleFn h a \<and> 0 < rl_modules r h)"
proof -
  have inv: "app_inv (rl_app r) (rl_modules r)"
    using reload_run_inv[OF assms(2) load_user_app_inv[OF assms(1)]] by (simp add: reload_inv_def)
  consider "cbs = callbacks_default" | h where "0 < rl_modules r h" "callbacks_of h cbs"
    using inv assms(4) by (auto simp: app_inv_def split: option.splits)
  then show ?thesis
  proof cases
    case 1
    then show ?thesis using assms(3) by (auto simp: callbacks_default_def)
  next
    case (2 h)
    then have "in_module h f" using assms(3) by (auto simp: callbacks_of_def list_all_iff)
    with 2(1) show ?thesis by (cases f) auto
  qed
qed

section \<open>One reload, and two at once\<close>

text \<open>
  A reload that is not disturbed does what it is for: after the build the callbacks the new
  library registers are the active ones, in the other slot; the old library is unloaded once and its
  slot emptied; the counter is that of the file that was loaded. If the library cannot be loaded, the
  old one stays in use.
\<close>

theorem reload_swaps:
  assumes "reload_inv r" and "rl_builds r = 0" and "CheckForUserAppReload True exeFolder appName r = Inr r1"
    and "file_copy (hr_builtDllPath (rl_hot r1)) (hr_newDllPath (rl_hot r1))"
    and "r2 = OnHotReloadBuildComplete 0 file_copy (r1\<lparr>rl_builds := 0\<rparr>)"
    and "r3 = DoUserAppDllSwap load (r2\<lparr>rl_swaps := rl_swaps r2 - 1\<rparr>)"
    and "a = ap_activeSlot (rl_app r)" and "old = sl_dllHandle (ap_slots (rl_app r) ! a)"
  shows "case load (dll_path exeFolder appName (45 # format_int (ap_dllCounter (rl_app r) + 1))) of
      None \<Rightarrow> rl_app r3 = (rl_app r)\<lparr>ap_pendingSlot := 0\<rparr> \<and> rl_modules r3 = rl_modules r
    | Some (h, registered) \<Rightarrow>
        ActiveCallbacks (rl_app r3) = (case registered of Some cbs \<Rightarrow> cbs | None \<Rightarrow> callbacks_default) \<and>
        ap_activeSlot (rl_app r3) = 1 - a \<and> sl_dllHandle (ap_slots (rl_app r3) ! (1 - a)) = Some h \<and>
        ap_slots (rl_app r3) ! a = slot_empty \<and> ap_dllCounter (rl_app r3) = ap_dllCounter (rl_app r) + 1 \<and>
        rl_modules r3 = (case old of None \<Rightarrow> (rl_modules r)(h := rl_modules r h + 1)
          | Some g \<Rightarrow> ((rl_modules r)(h := rl_modules r h + 1))(g := ((rl_modules r)(h := rl_modules r h + 1)) g - 1))"
proof -
  obtain s0 s1 where s: "ap_slots (rl_app r) = [s0, s1]"
    using assms(1) two_slots unfolding reload_inv_def app_inv_def by blast
  have a: "ap_activeSlot (rl_app r) = 0 \<or> ap_activeSlot (rl_app r) = Suc 0"
    using assms(1) by (auto simp: reload_inv_def app_inv_def)
  have r1: "rl_app r1 = rl_app r" "rl_modules r1 = rl_modules r" "hr_newSlot (rl_hot r1) = 1 - ap_activeSlot (rl_app r)"
    "hr_newCounter (rl_hot r1) = ap_dllCounter (rl_app r) + 1"
    "hr_newDllPath (rl_hot r1) = dll_path exeFolder appName (45 # format_int (ap_dllCounter (rl_app r) + 1))"
    using assms(3) by (auto simp: CheckForUserAppReload_def require_Inr Let_def)
  have r2: "rl_app r2 = rl_app r" "rl_modules r2 = rl_modules r" "rl_hot r2 = rl_hot r1"
    using assms(4,5) r1(1,2) by (simp_all add: OnHotReloadBuildComplete_def)
  have empty: "ap_slots (rl_app r) ! (1 - ap_activeSlot (rl_app r)) = slot_empty"
    using assms(1) by (simp add: reload_inv_def app_inv_def)
  note defs = DoUserAppDllSwap_def LoadDynamicLibrary_def UnloadDynamicLibrary_def InternalRegisterApp_def
    ActiveCallbacks_def Let_def
  show ?thesis
    using a empty r1(3-) r2 s unfolding assms(6-8)
    by (elim disjE; cases "load (hr_newDllPath (rl_hot r1))")
      (auto simp: defs split: option.splits)
qed

text \<open>
  Two reloads at once switch the user's program off. If the key is pressed again while the build
  runs and both builds succeed before the main thread flushes its commands, the second swap puts the
  library into the slot that is in use and then empties it: the engine goes on, calling its own
  defaults, which do nothing.
\<close>

theorem reload_twice_loses_app:
  assumes "reload_inv r" and "CheckForUserAppReload True exeFolder appName r = Inr r1"
    and "CheckForUserAppReload True exeFolder appName r1 = Inr r2" and "rl_hot r3 = rl_hot r2" and "rl_app r3 = rl_app r2"
    and "rl_modules r3 = rl_modules r2"
    and "load (hr_newDllPath (rl_hot r2)) = Some (h, Some cbs)" and "load' (hr_newDllPath (rl_hot r2)) = Some (h, registered)"
    and "sl_dllHandle (ap_slots (rl_app r) ! ap_activeSlot (rl_app r)) \<noteq> Some h"
    and "r4 = DoUserAppDllSwap load r3" and "r5 = DoUserAppDllSwap load' r4"
  shows "ActiveCallbacks (rl_app r4) = cbs \<and> ActiveCallbacks (rl_app r5) = callbacks_default \<and>
    rl_modules r5 h = rl_modules r h + 1"
proof -
  obtain s0 s1 where s: "ap_slots (rl_app r) = [s0, s1]"
    using assms(1) two_slots unfolding reload_inv_def app_inv_def by blast
  have a: "ap_activeSlot (rl_app r) = 0 \<or> ap_activeSlot (rl_app r) = Suc 0"
    using assms(1) by (auto simp: reload_inv_def app_inv_def)
  have r2: "rl_app r3 = rl_app r" "rl_modules r3 = rl_modules r" "hr_newSlot (rl_hot r3) = 1 - ap_activeSlot (rl_app r)"
    using assms(2-6) by (auto simp: CheckForUserAppReload_def require_Inr Let_def)
  note defs = DoUserAppDllSwap_def LoadDynamicLibrary_def UnloadDynamicLibrary_def InternalRegisterApp_def
    ActiveCallbacks_def Let_def
  have load: "load (hr_newDllPath (rl_hot r3)) = Some (h, Some cbs)" "load' (hr_newDllPath (rl_hot r3)) = Some (h, registered)"
    using assms(4,7,8) by simp_all
  show ?thesis
    using a r2 s load assms(9) unfolding assms(10,11)
    by (elim disjE) (auto simp: defs split: option.splits)
qed

section \<open>The properties at a small program\<close>

text \<open>Libraries that load, each under a handle of its own, and an engine that has loaded one.\<close>

definition small_cbs :: "nat \<Rightarrow> MindseyeAppCallbacks" where
  "small_cbs h = \<lparr>initFn = ModuleFn h 0, updateFn = ModuleFn h 1, shutdownFn = DefaultFn, onSceneLoaded = []\<rparr>"

definition small_loader :: "nat \<Rightarrow> loader" where
  "small_loader h path = Some (h, Some (small_cbs h))"

definition small_reload :: reload where
  "small_reload = load_user_app (small_loader 1) []
     (reload_start \<lparr>hr_newCounter = 0, hr_newSlot = 0, hr_builtDllPath = [], hr_newDllPath = []\<rparr>)"

lemma registers_own_small: "registers_own (small_loader h)"
  by (simp add: registers_own_def small_loader_def small_cbs_def callbacks_of_def)

lemma small_reload_inv: "reload_inv small_reload"
  unfolding small_reload_def by (rule load_user_app_inv[OF registers_own_small])

lemmas small_defs = small_reload_def small_loader_def small_cbs_def load_user_app_def reload_start_def
  meLoadedUserApp_new_def LoadDynamicLibrary_def InternalRegisterApp_def Let_def numeral_eq_Suc

lemma small_reload_app:
  "rl_app small_reload = \<lparr>ap_slots = [\<lparr>sl_callbacks = small_cbs 1, sl_dllHandle = Some 1\<rparr>, slot_empty],
     ap_activeSlot = 0, ap_dllCounter = 1, ap_pendingSlot = 0\<rparr>" "rl_builds small_reload = 0"
  by (simp_all add: small_defs slot_empty_def)

lemma small_check: "\<exists>r'. CheckForUserAppReload True [] [97] r = Inr r'" if "ap_dllCounter (rl_app r) = 1"
  using that by (simp add: CheckForUserAppReload_def Let_def)

theorem reload_never_dangles_witness:
  "\<exists>h a. updateFn (ActiveCallbacks (rl_app small_reload)) = ModuleFn h a \<and> 0 < rl_modules small_reload h"
proof -
  have "updateFn (ActiveCallbacks (rl_app small_reload)) \<noteq> DefaultFn"
    by (simp add: small_reload_app ActiveCallbacks_def small_cbs_def)
  moreover have "\<exists>hot. reload_run (load_user_app (small_loader 1) [] (reload_start hot)) small_reload"
    unfolding small_reload_def by (rule exI, rule reload_run.none)
  ultimately show ?thesis
    using reload_never_dangles[OF registers_own_small _ _ refl, of 1 "[]" _ small_reload "updateFn (ActiveCallbacks (rl_app small_reload))"]
    by auto
qed

theorem reload_swaps_witness:
  "\<exists>r1 r2. CheckForUserAppReload True [] [97] small_reload = Inr r1 \<and> rl_swaps r2 = 1 \<and>
    ActiveCallbacks (rl_app (DoUserAppDllSwap (small_loader 2) (r2\<lparr>rl_swaps := 0\<rparr>))) = small_cbs 2"
proof -
  obtain r1 where r1: "CheckForUserAppReload True [] [97] small_reload = Inr r1"
    using small_check[of small_reload] by (auto simp: small_reload_app)
  then have swaps: "rl_swaps r1 = 0"
    by (auto simp: CheckForUserAppReload_def require_Inr Let_def) (simp add: small_defs)
  let ?copy = "\<lambda>a b. True"
  from reload_swaps[OF small_reload_inv small_reload_app(2) r1, of ?copy, OF TrueI refl refl refl refl, of "small_loader 2"]
  have "ActiveCallbacks (rl_app (DoUserAppDllSwap (small_loader 2)
      ((OnHotReloadBuildComplete 0 ?copy (r1\<lparr>rl_builds := 0\<rparr>))\<lparr>rl_swaps := 0\<rparr>))) = small_cbs 2"
    using swaps by (simp add: small_loader_def OnHotReloadBuildComplete_def)
  then show ?thesis using r1 swaps
    by (intro exI[of _ r1] exI[of _ "OnHotReloadBuildComplete 0 ?copy (r1\<lparr>rl_builds := 0\<rparr>)"])
      (simp add: OnHotReloadBuildComplete_def)
qed

theorem reload_twice_loses_app_witness:
  "\<exists>r2. reload_run small_reload r2 \<and>
    ActiveCallbacks (rl_app (DoUserAppDllSwap (small_loader 2) r2)) = small_cbs 2 \<and>
    ActiveCallbacks (rl_app (DoUserAppDllSwap (\<lambda>p. Some (2, None)) (DoUserAppDllSwap (small_loader 2) r2))) = callbacks_default"
proof -
  obtain r1 where r1: "CheckForUserAppReload True [] [97] small_reload = Inr r1"
    using small_check[of small_reload] by (auto simp: small_reload_app)
  then have "ap_dllCounter (rl_app r1) = 1"
    by (auto simp: CheckForUserAppReload_def require_Inr Let_def small_reload_app)
  then obtain r2 where r2: "CheckForUserAppReload True [] [97] r1 = Inr r2"
    using small_check[of r1] by auto
  have "reload_run small_reload r2"
    by (rule reload_run.more[OF reload_run.more[OF reload_run.none]]) (rule reload_step.check[OF r1] reload_step.check[OF r2])+
  moreover have "ActiveCallbacks (rl_app (DoUserAppDllSwap (small_loader 2) r2)) = small_cbs 2 \<and>
      ActiveCallbacks (rl_app (DoUserAppDllSwap (\<lambda>p. Some (2, None)) (DoUserAppDllSwap (small_loader 2) r2))) = callbacks_default"
    using reload_twice_loses_app[OF small_reload_inv r1 r2 refl refl refl _ _ _ refl refl,
      of "small_loader 2" 2 "small_cbs 2" "\<lambda>p. Some (2, None)" None]
    by (simp add: small_loader_def small_reload_app)
  ultimately show ?thesis by blast
qed

end
