(* ===== verification/StringObjects.thy ===== *)
theory StringObjects
  imports Strings
begin

text \<open>
  Strings that own their memory (\<open>core/me_string.h\<close>, \<open>core/me_string.cpp\<close>), on a heap of blocks
  that know their allocator.
\<close>

section \<open>The heap\<close>

text \<open>
  A block has an allocator and bytes; a new block has a new address, and any bytes. Giving a block
  back to an allocator ends its life, so a later access is an error, as is a block of another
  allocator. (An arena's \<open>meFree\<close> does nothing; code that is right here is right there.)
\<close>

type_synonym loc = nat

record heap =
  hp_blocks :: "loc \<Rightarrow> (nat \<times> u8 list) option"
  hp_next :: loc
  hp_junk :: u8

text \<open>\<open>MEALLOC\<close> and \<open>MEFREE\<close> on an allocator that may be null.\<close>

definition mem_alloc :: "nat option \<Rightarrow> nat \<Rightarrow> heap \<Rightarrow> (loc \<times> heap) result" where
  "mem_alloc al n h = bindR (deref al) (\<lambda>x. Inr (hp_next h,
     h\<lparr>hp_blocks := (hp_blocks h)(hp_next h \<mapsto> (x, replicate n (hp_junk h))), hp_next := Suc (hp_next h)\<rparr>))"

definition mem_free :: "nat option \<Rightarrow> loc option \<Rightarrow> heap \<Rightarrow> heap result" where
  "mem_free al p h = (case p of None \<Rightarrow> Inr h | Some a \<Rightarrow>
     bindR (deref al) (\<lambda>x. case hp_blocks h a of
       None \<Rightarrow> Inl BadFree
     | Some (y, bs) \<Rightarrow> require BadFree (x = y) (Inr (h\<lparr>hp_blocks := (hp_blocks h)(a := None)\<rparr>))))"

definition block_at :: "loc \<Rightarrow> heap \<Rightarrow> (nat \<times> u8 list) result" where
  "block_at a h = (case hp_blocks h a of None \<Rightarrow> Inl Dangling | Some b \<Rightarrow> Inr b)"

text \<open>A pointer into a block, a run of bytes behind it, and writing one.\<close>

type_synonym ptr = "(loc \<times> nat) option"

definition mem_read :: "ptr \<Rightarrow> nat \<Rightarrow> heap \<Rightarrow> u8 list result" where
  "mem_read p n h = bindR (deref p) (\<lambda>(a, i). bindR (block_at a h) (\<lambda>(x, bs).
     require OutOfBounds (i + n \<le> length bs) (Inr (take n (drop i bs)))))"

definition mem_write :: "ptr \<Rightarrow> u8 list \<Rightarrow> heap \<Rightarrow> heap result" where
  "mem_write p ys h = bindR (deref p) (\<lambda>(a, i). bindR (block_at a h) (\<lambda>(x, bs).
     bindR (blit i ys bs) (\<lambda>bs'. Inr (h\<lparr>hp_blocks := (hp_blocks h)(a \<mapsto> (x, bs'))\<rparr>))))"

definition mem_copy :: "ptr \<Rightarrow> ptr \<Rightarrow> nat \<Rightarrow> heap \<Rightarrow> heap result" where
  "mem_copy dst src n h = (if n = 0 then Inr h else bindR (mem_read src n h) (\<lambda>bs. mem_write dst bs h))"

definition ptr_add :: "ptr \<Rightarrow> nat \<Rightarrow> ptr" where
  "ptr_add p n = map_option (\<lambda>(a, i). (a, i + n)) p"

section \<open>Views and strings\<close>

record view =
  vw_data :: ptr
  vw_len :: nat

definition view_bool :: "view \<Rightarrow> bool" where
  "view_bool v \<longleftrightarrow> vw_data v \<noteq> None \<and> vw_len v \<noteq> 0"

record stringobj =
  so_data :: "loc option"
  so_len :: nat
  so_allocator :: "nat option"

definition String_new :: stringobj where
  "String_new = \<lparr>so_data = None, so_len = 0, so_allocator = None\<rparr>"

definition String_bool :: "stringobj \<Rightarrow> bool" where
  "String_bool s \<longleftrightarrow> so_data s \<noteq> None \<and> so_len s \<noteq> 0"

definition base_ptr :: "loc option \<Rightarrow> ptr" where
  "base_ptr d = map_option (\<lambda>a. (a, 0)) d"

text \<open>The conversion to a view, and the views into a string.\<close>

definition String_view :: "stringobj \<Rightarrow> view" where
  "String_view s = \<lparr>vw_data = base_ptr (so_data s), vw_len = so_len s\<rparr>"

definition String_OffsetViewLen :: "stringobj \<Rightarrow> nat \<Rightarrow> nat \<Rightarrow> view" where
  "String_OffsetViewLen s ofs len =
     \<lparr>vw_data = ptr_add (base_ptr (so_data s)) ofs, vw_len = (if so_len s < len then so_len s else len)\<rparr>"

definition String_OffsetView :: "stringobj \<Rightarrow> nat \<Rightarrow> view" where
  "String_OffsetView s ofs = (let ofs = (if ofs > so_len s then so_len s else ofs)
     in \<lparr>vw_data = ptr_add (base_ptr (so_data s)) ofs, vw_len = so_len s - ofs\<rparr>)"

text \<open>
  \<open>BufferCopy\<close> refuses a source longer than the target; \<open>StringCopy\<close> writes the terminator
  whatever it says.
\<close>

definition BufferCopy :: "view \<Rightarrow> view \<Rightarrow> heap \<Rightarrow> (bool \<times> heap) result" where
  "BufferCopy dst src h = (if vw_len src > vw_len dst then Inr (False, h)
     else bindR (mem_copy (vw_data dst) (vw_data src) (vw_len src) h) (\<lambda>h. Inr (True, h)))"

definition StringCopy :: "view \<Rightarrow> view \<Rightarrow> heap \<Rightarrow> (bool \<times> heap) result" where
  "StringCopy dst src h = bindR (BufferCopy dst src h) (\<lambda>(result, h).
     bindR (mem_write (ptr_add (vw_data dst) (vw_len src)) [0] h) (\<lambda>h. Inr (result, h)))"

section \<open>Operations of strings\<close>

definition DEFAULT_ALLOCATOR :: nat where
  "DEFAULT_ALLOCATOR = 0"

definition or_default :: "nat option \<Rightarrow> nat option" where
  "or_default al = (case al of None \<Rightarrow> Some DEFAULT_ALLOCATOR | Some x \<Rightarrow> Some x)"

definition CopyOf_view :: "view \<Rightarrow> nat option \<Rightarrow> heap \<Rightarrow> (stringobj \<times> heap) result" where
  "CopyOf_view str al h =
     (if \<not> view_bool str then Inr (String_new, h)
      else bindR (mem_alloc al (vw_len str + 1) h) (\<lambda>(a, h).
           let this = \<lparr>so_data = Some a, so_len = vw_len str, so_allocator = al\<rparr>
           in bindR (mem_write (Some (a, vw_len str)) [0] h) (\<lambda>h.
              bindR (StringCopy (String_view this) str h) (\<lambda>(ok, h). Inr (this, h)))))"

definition CopyOf_string :: "stringobj \<Rightarrow> heap \<Rightarrow> (stringobj \<times> heap) result" where
  "CopyOf_string str h =
     (if \<not> String_bool str then Inr (String_new, h)
      else bindR (mem_alloc (so_allocator str) (so_len str + 1) h) (\<lambda>(a, h).
           let this = \<lparr>so_data = Some a, so_len = so_len str, so_allocator = so_allocator str\<rparr>
           in bindR (mem_write (Some (a, so_len str)) [0] h) (\<lambda>h.
              bindR (StringCopy (String_view this) (String_view str) h) (\<lambda>(ok, h). Inr (this, h)))))"

text \<open>A C string is read up to its terminator; the target's old memory is not looked at.\<close>

definition CopyOfCStr :: "ptr \<Rightarrow> nat option \<Rightarrow> heap \<Rightarrow> (stringobj \<times> heap) result" where
  "CopyOfCStr cstr al h =
     bindR (case cstr of None \<Rightarrow> CStringLength None
       | Some (a, i) \<Rightarrow> bindR (block_at a h) (\<lambda>(x, bs). CStringLength (Some (bs, i)))) (\<lambda>len.
     bindR (mem_alloc al (len + 1) h) (\<lambda>(a, h).
     bindR (mem_write (Some (a, len)) [0] h) (\<lambda>h.
     let this = \<lparr>so_data = Some a, so_len = len, so_allocator = al\<rparr>
     in bindR (StringCopy (String_view this) \<lparr>vw_data = cstr, vw_len = len\<rparr> h) (\<lambda>(ok, h). Inr (this, h)))))"

text \<open>The constructors build a new object.\<close>

definition InitFromBuf :: "ptr \<Rightarrow> nat \<Rightarrow> nat option \<Rightarrow> heap \<Rightarrow> (stringobj \<times> heap) result" where
  "InitFromBuf data len al h =
     (let al = or_default al
      in if len = 0 then Inr (String_new, h)
         else bindR (mem_alloc al (len + 1) h) (\<lambda>(a, h).
              bindR (mem_copy (Some (a, 0)) data len h) (\<lambda>h.
              bindR (mem_write (Some (a, len)) [0] h) (\<lambda>h.
                Inr (\<lparr>so_data = Some a, so_len = len, so_allocator = al\<rparr>, h)))))"

definition String_of_view :: "view \<Rightarrow> nat option \<Rightarrow> heap \<Rightarrow> (stringobj \<times> heap) result" where
  "String_of_view str al h = InitFromBuf (vw_data str) (vw_len str) (or_default al) h"

definition String_of_string :: "stringobj \<Rightarrow> heap \<Rightarrow> (stringobj \<times> heap) result" where
  "String_of_string other h = CopyOf_string other h"

definition String_destroy :: "stringobj \<Rightarrow> heap \<Rightarrow> (stringobj \<times> heap) result" where
  "String_destroy s h =
     bindR (if so_allocator s \<noteq> None \<and> so_data s \<noteq> None then mem_free (so_allocator s) (so_data s) h else Inr h)
       (\<lambda>h. Inr (String_new, h))"

text \<open>
  The assignments. The target's own buffer is given back before a string is copied, and after a view
  is, because the view may point into it; by then the target's allocator is that of the copy.
\<close>

definition String_assign :: "stringobj \<Rightarrow> stringobj \<Rightarrow> heap \<Rightarrow> (stringobj \<times> heap) result" where
  "String_assign this other h =
     bindR (if so_allocator this \<noteq> None \<and> so_data this \<noteq> None then mem_free (so_allocator this) (so_data this) h else Inr h)
       (\<lambda>h. CopyOf_string other h)"

definition String_assign_view :: "stringobj \<Rightarrow> view \<Rightarrow> heap \<Rightarrow> (stringobj \<times> heap) result" where
  "String_assign_view this other h =
     (let al = or_default (so_allocator this); oldData = so_data this
      in bindR (CopyOf_view other al h) (\<lambda>(this, h).
         bindR (if oldData \<noteq> None \<and> oldData \<noteq> so_data this then mem_free (so_allocator this) oldData h else Inr h)
           (\<lambda>h. Inr (this, h))))"

text \<open>Moving leaves the source empty.\<close>

definition String_move :: "stringobj \<Rightarrow> stringobj \<times> stringobj" where
  "String_move other = (other, String_new)"

definition String_move_assign :: "stringobj \<Rightarrow> stringobj \<Rightarrow> heap \<Rightarrow> (stringobj \<times> stringobj \<times> heap) result" where
  "String_move_assign this other h =
     bindR (if so_allocator this \<noteq> None \<and> so_data this \<noteq> None then mem_free (so_allocator this) (so_data this) h else Inr h)
       (\<lambda>h. Inr (other, String_new, h))"

definition String_eq_view :: "stringobj \<Rightarrow> view \<Rightarrow> heap \<Rightarrow> bool result" where
  "String_eq_view this s h =
     (if vw_len s \<noteq> so_len this then Inr False
      else if vw_len s = 0 then Inr True
      else bindR (mem_read (base_ptr (so_data this)) (vw_len s) h) (\<lambda>xs.
           bindR (mem_read (vw_data s) (vw_len s) h) (\<lambda>ys. Inr (xs = ys))))"

definition String_cstr :: "stringobj \<Rightarrow> heap \<Rightarrow> ptr result" where
  "String_cstr s h = bindR (mem_read (ptr_add (base_ptr (so_data s)) (so_len s)) 1 h) (\<lambda>c.
     ME_ASSERT (c = [0]) (Inr (base_ptr (so_data s))))"

text \<open>
  The two functions that make a C string of a view. The second terminates the view it was given, not
  the copy.
\<close>

definition cstrForce :: "view \<Rightarrow> nat option \<Rightarrow> heap \<Rightarrow> (ptr \<times> heap) result" where
  "cstrForce v al h = bindR (mem_read (ptr_add (vw_data v) (vw_len v)) 1 h) (\<lambda>c.
     if c = [0] then Inr (vw_data v, h)
     else bindR (mem_alloc al (vw_len v + 1) h) (\<lambda>(a, h).
          bindR (mem_write (Some (a, vw_len v)) [0] h) (\<lambda>h.
          bindR (BufferCopy \<lparr>vw_data = Some (a, 0), vw_len = vw_len v + 1\<rparr> v h) (\<lambda>(ok, h). Inr (Some (a, 0), h)))))"

definition CStringFromString :: "view \<Rightarrow> nat option \<Rightarrow> heap \<Rightarrow> (ptr \<times> heap) result" where
  "CStringFromString str al h = bindR (mem_alloc al (vw_len str + 1) h) (\<lambda>(a, h).
     bindR (mem_copy (Some (a, 0)) (vw_data str) (vw_len str) h) (\<lambda>h.
     bindR (mem_write (ptr_add (vw_data str) (vw_len str)) [0] h) (\<lambda>h. Inr (Some (a, 0), h))))"

section \<open>The heap under the operations\<close>

definition heap_ok :: "heap \<Rightarrow> bool" where
  "heap_ok h \<longleftrightarrow> (\<forall>a. hp_blocks h a \<noteq> None \<longrightarrow> a < hp_next h)"

definition view_bytes :: "view \<Rightarrow> heap \<Rightarrow> u8 list" where
  "view_bytes v h = (case mem_read (vw_data v) (vw_len v) h of Inr bs \<Rightarrow> bs | Inl e \<Rightarrow> [])"

definition view_ok :: "view \<Rightarrow> heap \<Rightarrow> bool" where
  "view_ok v h \<longleftrightarrow> (view_bool v \<longrightarrow> (\<exists>bs. mem_read (vw_data v) (vw_len v) h = Inr bs)) \<and> (vw_data v = None \<longrightarrow> vw_len v = 0)"

text \<open>What a copy of some bytes into a new block gives.\<close>

definition fresh_string :: "nat \<Rightarrow> u8 list \<Rightarrow> heap \<Rightarrow> stringobj \<times> heap" where
  "fresh_string al bs h = (\<lparr>so_data = Some (hp_next h), so_len = length bs, so_allocator = Some al\<rparr>,
     h\<lparr>hp_blocks := (hp_blocks h)(hp_next h \<mapsto> (al, bs @ [0])), hp_next := Suc (hp_next h)\<rparr>)"

lemma mem_alloc_Some: "mem_alloc (Some x) n h = Inr (hp_next h,
    h\<lparr>hp_blocks := (hp_blocks h)(hp_next h \<mapsto> (x, replicate n (hp_junk h))), hp_next := Suc (hp_next h)\<rparr>)"
  by (simp add: mem_alloc_def)

lemma mem_read_Inr: "mem_read p n h = Inr bs \<longleftrightarrow>
    (\<exists>a i x cs. p = Some (a, i) \<and> hp_blocks h a = Some (x, cs) \<and> i + n \<le> length cs \<and> bs = take n (drop i cs))"
  by (cases p; cases "hp_blocks h (fst (the p))") (auto simp: mem_read_def block_at_def result_Inr)

lemma length_mem_read: "mem_read p n h = Inr bs \<Longrightarrow> length bs = n"
  by (auto simp: mem_read_Inr)

lemma CopyOf_view_fresh:
  assumes "view_bool v" and "mem_read (vw_data v) (vw_len v) h = Inr bs" and "heap_ok h"
  shows "CopyOf_view v (Some al) h = Inr (fresh_string al bs h)"
proof -
  obtain a i x cs where v: "vw_data v = Some (a, i)" "hp_blocks h a = Some (x, cs)" "i + vw_len v \<le> length cs"
    "bs = take (vw_len v) (drop i cs)" using assms(2) by (auto simp: mem_read_Inr)
  have a: "a < hp_next h" using assms(3) v(2) by (auto simp: heap_ok_def)
  have n: "vw_len v \<noteq> 0" using assms(1) by (simp add: view_bool_def)
  show ?thesis
    using assms(1) v a n
    by (simp add: CopyOf_view_def mem_alloc_Some mem_write_def block_at_def StringCopy_def BufferCopy_def
        String_view_def base_ptr_def mem_copy_def mem_read_def ptr_add_def fresh_string_def Let_def)
qed

lemma InitFromBuf_fresh:
  assumes "n \<noteq> 0" and "mem_read p n h = Inr bs" and "heap_ok h"
  shows "InitFromBuf p n (Some al) h = Inr (fresh_string al bs h)"
proof -
  obtain a i x cs where v: "p = Some (a, i)" "hp_blocks h a = Some (x, cs)" "i + n \<le> length cs"
    "bs = take n (drop i cs)" using assms(2) by (auto simp: mem_read_Inr)
  have a: "a < hp_next h" using assms(3) v(2) by (auto simp: heap_ok_def)
  show ?thesis
    using assms(1) v a
    by (simp add: InitFromBuf_def or_default_def mem_alloc_Some mem_write_def block_at_def mem_copy_def mem_read_def fresh_string_def Let_def)
qed

text \<open>
  A string is empty, without memory, or it owns a block of its allocator with its characters and the
  terminator.
\<close>

definition string_bytes :: "stringobj \<Rightarrow> heap \<Rightarrow> u8 list" where
  "string_bytes s h = (case so_data s of None \<Rightarrow> [] | Some a \<Rightarrow>
     (case hp_blocks h a of None \<Rightarrow> [] | Some (x, bs) \<Rightarrow> take (so_len s) bs))"

definition string_ok :: "stringobj \<Rightarrow> heap \<Rightarrow> bool" where
  "string_ok s h \<longleftrightarrow> s = String_new \<or>
     (\<exists>a al bs. s = \<lparr>so_data = Some a, so_len = length bs, so_allocator = Some al\<rparr> \<and> bs \<noteq> [] \<and>
        hp_blocks h a = Some (al, bs @ [0]))"

lemma string_ok_cases:
  assumes "string_ok s h"
  obtains "s = String_new" "string_bytes s h = []"
  | a al bs where "s = \<lparr>so_data = Some a, so_len = length bs, so_allocator = Some al\<rparr>" "bs \<noteq> []"
      "hp_blocks h a = Some (al, bs @ [0])" "string_bytes s h = bs"
  using assms by (auto simp: string_ok_def string_bytes_def String_new_def)

definition free_block :: "loc option \<Rightarrow> heap \<Rightarrow> heap" where
  "free_block d h = (case d of None \<Rightarrow> h | Some a \<Rightarrow> h\<lparr>hp_blocks := (hp_blocks h)(a := None)\<rparr>)"

lemma string_free:
  assumes "string_ok s h"
  shows "(if so_allocator s \<noteq> None \<and> so_data s \<noteq> None then mem_free (so_allocator s) (so_data s) h else Inr h) =
    Inr (free_block (so_data s) h)"
  using assms by (cases rule: string_ok_cases) (auto simp: String_new_def mem_free_def free_block_def)

text \<open>What each operation does, in terms of these.\<close>

definition copy_string :: "nat \<Rightarrow> u8 list \<Rightarrow> heap \<Rightarrow> stringobj \<times> heap" where
  "copy_string al bs h = (if bs = [] then (String_new, h) else fresh_string al bs h)"

lemma CopyOf_string_copy:
  assumes "string_ok s h" and "heap_ok h"
  shows "\<exists>al. CopyOf_string s h = Inr (copy_string al (string_bytes s h) h)"
  using assms(1)
proof (cases rule: string_ok_cases)
  case 1
  then show ?thesis by (simp add: CopyOf_string_def String_bool_def copy_string_def String_new_def)
next
  case (2 a al bs)
  have "a < hp_next h" using assms(2) 2(3) by (auto simp: heap_ok_def)
  with 2 show ?thesis
    by (auto simp: CopyOf_string_def String_bool_def copy_string_def fresh_string_def mem_alloc_Some mem_write_def
        block_at_def StringCopy_def BufferCopy_def String_view_def base_ptr_def mem_copy_def mem_read_def ptr_add_def Let_def)
qed

lemma view_bytes_read: "view_ok v h \<Longrightarrow> view_bool v \<Longrightarrow> mem_read (vw_data v) (vw_len v) h = Inr (view_bytes v h)"
  by (auto simp: view_ok_def view_bytes_def)

lemma view_bytes_empty: "view_ok v h \<Longrightarrow> view_bytes v h = [] \<longleftrightarrow> \<not> view_bool v"
  using length_mem_read[of "vw_data v" "vw_len v" h "view_bytes v h"]
  by (cases "vw_data v") (auto simp: view_ok_def view_bool_def view_bytes_def mem_read_def dest: length_mem_read split: sum.splits)

lemma String_of_view_copy:
  assumes "view_ok v h" and "heap_ok h"
  shows "\<exists>x. String_of_view v al h = Inr (copy_string x (view_bytes v h) h)"
proof (cases "view_bool v")
  case True
  obtain x where "or_default (or_default al) = Some x" "or_default al = Some x" by (cases al) (auto simp: or_default_def)
  with InitFromBuf_fresh[OF _ view_bytes_read[OF assms(1) True] assms(2), of x] True view_bytes_empty[OF assms(1)]
  show ?thesis by (auto simp: String_of_view_def copy_string_def view_bool_def)
next
  case False
  then have "vw_len v = 0" using assms(1) by (auto simp: view_bool_def view_ok_def)
  with False view_bytes_empty[OF assms(1)] show ?thesis
    by (simp add: String_of_view_def InitFromBuf_def copy_string_def)
qed

text \<open>The new block is not the old one, so assigning a view first copies and then frees.\<close>

lemma String_assign_view_copy:
  assumes "string_ok s h" and "view_ok v h" and "heap_ok h" and "view_bytes v h \<noteq> [] \<or> string_bytes s h = []"
  shows "\<exists>x. String_assign_view s v h =
    Inr (fst (copy_string x (view_bytes v h) h), free_block (so_data s) (snd (copy_string x (view_bytes v h) h)))"
proof (cases "view_bool v")
  case True
  note c = CopyOf_view_fresh[OF True view_bytes_read[OF assms(2) True] assms(3)]
  have ne: "view_bytes v h \<noteq> []" using True view_bytes_empty[OF assms(2)] by simp
  from assms(1) show ?thesis
  proof (cases rule: string_ok_cases)
    case 1
    then show ?thesis using c[of DEFAULT_ALLOCATOR] ne
      by (auto simp: String_assign_view_def String_new_def or_default_def copy_string_def free_block_def fresh_string_def)
  next
    case (2 a al bs)
    then have "a < hp_next h" using assms(3) by (auto simp: heap_ok_def)
    with 2 show ?thesis using c[of al] ne
      by (intro exI[of _ al]) (simp add: String_assign_view_def or_default_def copy_string_def free_block_def fresh_string_def mem_free_def)
  qed
next
  case False
  then have e: "view_bytes v h = []" "s = String_new"
    using view_bytes_empty[OF assms(2)] assms(1,4) by (auto elim!: string_ok_cases)
  with False show ?thesis
    by (auto simp: String_assign_view_def CopyOf_view_def copy_string_def free_block_def String_new_def)
qed

text \<open>
  Assigning an empty view to a string that has memory stops the program: the copy of nothing
  forgets the allocator, and the old buffer is then given back to a null one.
\<close>

theorem String_assign_empty_crashes:
  assumes "string_ok s h" and "string_bytes s h \<noteq> []" and "\<not> view_bool v"
  shows "String_assign_view s v h = Inl NullDeref"
  using assms(1)
  by (cases rule: string_ok_cases)
    (use assms(2,3) in \<open>auto simp: String_assign_view_def CopyOf_view_def mem_free_def String_new_def\<close>)

section \<open>Programs over strings\<close>

text \<open>
  The strings of a program, by name; a name not in use holds the empty string. A view comes from
  memory the strings do not own (\<open>BlockAt\<close>: a literal, a buffer) or from a string, by
  \<open>OffsetView\<close>; in an assignment it may be the target itself.
\<close>

record strings =
  st_heap :: heap
  st_vars :: "nat \<Rightarrow> stringobj"

datatype source = BlockAt loc nat nat | OfVar nat nat

datatype str_op = Construct nat source "nat option" | CopyConstruct nat nat | MoveConstruct nat nat
  | Assign nat nat | AssignView nat source | MoveAssign nat nat | Destroy nat

fun source_view :: "source \<Rightarrow> strings \<Rightarrow> view" where
  "source_view (BlockAt a i n) st = \<lparr>vw_data = Some (a, i), vw_len = n\<rparr>"
| "source_view (OfVar j k) st = String_OffsetView (st_vars st j) k"

definition set_var :: "nat \<Rightarrow> stringobj \<times> heap \<Rightarrow> strings \<Rightarrow> strings" where
  "set_var i r st = \<lparr>st_heap = snd r, st_vars = (st_vars st)(i := fst r)\<rparr>"

fun str_exec :: "str_op \<Rightarrow> strings \<Rightarrow> strings result" where
  "str_exec (Construct i src al) st =
     bindR (String_of_view (source_view src st) al (st_heap st)) (\<lambda>r. Inr (set_var i r st))"
| "str_exec (CopyConstruct i j) st = bindR (String_of_string (st_vars st j) (st_heap st)) (\<lambda>r. Inr (set_var i r st))"
| "str_exec (MoveConstruct i j) st = (case String_move (st_vars st j) of (s, rest) \<Rightarrow>
     Inr (st\<lparr>st_vars := (st_vars st)(j := rest, i := s)\<rparr>))"
| "str_exec (Assign i j) st = (if i = j then Inr st
     else bindR (String_assign (st_vars st i) (st_vars st j) (st_heap st)) (\<lambda>r. Inr (set_var i r st)))"
| "str_exec (AssignView i src) st =
     bindR (String_assign_view (st_vars st i) (source_view src st) (st_heap st)) (\<lambda>r. Inr (set_var i r st))"
| "str_exec (MoveAssign i j) st = (if i = j then Inr st
     else bindR (String_move_assign (st_vars st i) (st_vars st j) (st_heap st)) (\<lambda>(s, rest, h).
       Inr \<lparr>st_heap = h, st_vars = (st_vars st)(j := rest, i := s)\<rparr>))"
| "str_exec (Destroy i) st = bindR (String_destroy (st_vars st i) (st_heap st)) (\<lambda>r. Inr (set_var i r st))"

fun str_run :: "str_op list \<Rightarrow> strings \<Rightarrow> strings result" where
  "str_run [] st = Inr st"
| "str_run (op # ops) st = bindR (str_exec op st) (str_run ops)"

text \<open>What it means: each name has a value, and the operations copy and move values.\<close>

type_synonym foreign = "loc \<Rightarrow> (nat \<times> u8 list) option"

fun source_value :: "foreign \<Rightarrow> source \<Rightarrow> (nat \<Rightarrow> u8 list) \<Rightarrow> u8 list" where
  "source_value F (BlockAt a i n) vals = (case F a of None \<Rightarrow> [] | Some (x, bs) \<Rightarrow> take n (drop i bs))"
| "source_value F (OfVar j k) vals = drop k (vals j)"

fun value_op :: "foreign \<Rightarrow> str_op \<Rightarrow> (nat \<Rightarrow> u8 list) \<Rightarrow> (nat \<Rightarrow> u8 list)" where
  "value_op F (Construct i src al) vals = vals(i := source_value F src vals)"
| "value_op F (CopyConstruct i j) vals = vals(i := vals j)"
| "value_op F (MoveConstruct i j) vals = (vals(j := []))(i := vals j)"
| "value_op F (Assign i j) vals = vals(i := vals j)"
| "value_op F (AssignView i src) vals = vals(i := source_value F src vals)"
| "value_op F (MoveAssign i j) vals = (if i = j then vals else (vals(j := []))(i := vals j))"
| "value_op F (Destroy i) vals = vals(i := [])"

text \<open>
  What the code relies on: a constructor's name is not in use, a view lies in its block, and no empty
  view is assigned to a string that has characters.
\<close>

fun source_ok :: "foreign \<Rightarrow> source \<Rightarrow> bool" where
  "source_ok F (BlockAt a i n) = (case F a of None \<Rightarrow> False | Some (x, bs) \<Rightarrow> i + n \<le> length bs)"
| "source_ok F (OfVar j k) = True"

fun op_ok :: "foreign \<Rightarrow> str_op \<Rightarrow> (nat \<Rightarrow> u8 list) \<Rightarrow> bool" where
  "op_ok F (Construct i src al) vals \<longleftrightarrow> source_ok F src \<and> vals i = []"
| "op_ok F (CopyConstruct i j) vals \<longleftrightarrow> vals i = []"
| "op_ok F (MoveConstruct i j) vals \<longleftrightarrow> vals i = []"
| "op_ok F (AssignView i src) vals \<longleftrightarrow> source_ok F src \<and> (vals i = [] \<or> source_value F src vals \<noteq> [])"
| "op_ok F op vals \<longleftrightarrow> True"

fun ops_ok :: "foreign \<Rightarrow> str_op list \<Rightarrow> (nat \<Rightarrow> u8 list) \<Rightarrow> bool" where
  "ops_ok F [] vals \<longleftrightarrow> True"
| "ops_ok F (op # ops) vals \<longleftrightarrow> op_ok F op vals \<and> ops_ok F ops (value_op F op vals)"

text \<open>
  The invariant: every string is well formed, no two share a block, and the heap holds the blocks of
  the strings and the foreign ones, and nothing else.
\<close>

definition owned :: "strings \<Rightarrow> loc \<Rightarrow> bool" where
  "owned st a \<longleftrightarrow> (\<exists>i. so_data (st_vars st i) = Some a)"

definition strings_inv :: "foreign \<Rightarrow> (nat \<Rightarrow> u8 list) \<Rightarrow> strings \<Rightarrow> bool" where
  "strings_inv F vals st \<longleftrightarrow> heap_ok (st_heap st) \<and> (\<forall>i. string_ok (st_vars st i) (st_heap st)) \<and>
     (\<forall>i j a. so_data (st_vars st i) = Some a \<and> so_data (st_vars st j) = Some a \<longrightarrow> i = j) \<and>
     (\<forall>a. if owned st a then F a = None else hp_blocks (st_heap st) a = F a) \<and>
     (\<forall>i. string_bytes (st_vars st i) (st_heap st) = vals i)"

lemma heap_frame:
  assumes "\<And>a. so_data s = Some a \<Longrightarrow> hp_blocks h' a = hp_blocks h a"
  shows "string_bytes s h' = string_bytes s h" and "string_ok s h \<Longrightarrow> string_ok s h'"
proof -
  show "string_bytes s h' = string_bytes s h" using assms by (simp add: string_bytes_def split: option.split)
  assume "string_ok s h"
  then show "string_ok s h'"
  proof (cases rule: string_ok_cases)
    case 1
    then show ?thesis by (simp add: string_ok_def)
  next
    case (2 a al bs)
    then have "hp_blocks h' a = Some (al, bs @ [0])" using assms[of a] by simp
    with 2 show ?thesis by (auto simp: string_ok_def)
  qed
qed

lemma String_new_ok [simp]: "string_ok String_new h" "string_bytes String_new h = []" "so_data String_new = None"
  by (simp_all add: string_ok_def string_bytes_def String_new_def)

lemma free_block_blocks: "hp_blocks (free_block d h) a = (if d = Some a then None else hp_blocks h a)"
  "hp_next (free_block d h) = hp_next h"
  by (auto simp: free_block_def split: option.split)

lemma copy_string_blocks:
  "copy_string x bs h = (s, h') \<Longrightarrow> hp_blocks h' a = (if so_data s = Some a then Some (x, bs @ [0]) else hp_blocks h a)"
  "copy_string x bs h = (s, h') \<Longrightarrow> hp_next h \<le> hp_next h'"
  "copy_string x bs h = (s, h') \<Longrightarrow> so_data s = Some a \<Longrightarrow> a = hp_next h \<and> hp_next h' = Suc a"
  "copy_string x bs h = (s, h') \<Longrightarrow> s = (if bs = [] then String_new
     else \<lparr>so_data = Some (hp_next h), so_len = length bs, so_allocator = Some x\<rparr>)"
  by (auto simp: copy_string_def fresh_string_def String_new_def split: if_splits)

lemma copy_string_ok:
  assumes "heap_ok h" and "copy_string x bs h = (s, h')" and "d \<noteq> Some (hp_next h)"
  shows "heap_ok (free_block d h')" "string_ok s (free_block d h')" "string_bytes s (free_block d h') = bs"
    "\<And>a. so_data s = Some a \<Longrightarrow> hp_blocks h a = None"
    "\<And>a. so_data s \<noteq> Some a \<Longrightarrow> d \<noteq> Some a \<Longrightarrow> hp_blocks (free_block d h') a = hp_blocks h a"
    "\<And>a. d = Some a \<Longrightarrow> hp_blocks (free_block d h') a = None"
proof -
  note b = copy_string_blocks(1)[OF assms(2)] copy_string_blocks(2-4)[OF assms(2)] free_block_blocks
  have lt: "hp_blocks h a \<noteq> None \<Longrightarrow> a < hp_next h" for a using assms(1) by (auto simp: heap_ok_def)
  have "a < hp_next h'" if "hp_blocks (free_block d h') a \<noteq> None" for a
    using that lt[of a] b(2) b(3)[of a] by (cases "so_data s = Some a") (auto simp: b(5) b(1) split: if_splits)
  then show "heap_ok (free_block d h')" by (simp add: heap_ok_def b(6))
  show new: "hp_blocks h a = None" if "so_data s = Some a" for a
    using lt[of a] b(3)[OF that] by (cases "hp_blocks h a") auto
  show "string_ok s (free_block d h')" "string_bytes s (free_block d h') = bs"
    using assms(3) by (cases "bs = []"; simp add: string_ok_def string_bytes_def String_new_def copy_string_blocks(4)[OF assms(2)] b(1) free_block_blocks(1))+
qed (simp_all add: free_block_blocks copy_string_blocks(1)[OF assms(2)])

text \<open>Giving a name a new copy, and its old block back.\<close>

lemma strings_inv_copy:
  assumes inv: "strings_inv F vals st" and copy: "copy_string x bs (st_heap st) = (s, h)"
  shows "strings_inv F (vals(i := bs)) (set_var i (s, free_block (so_data (st_vars st i)) h) st)"
proof -
  let ?d = "so_data (st_vars st i)" and ?st = "set_var i (s, free_block (so_data (st_vars st i)) h) st"
  have ok: "heap_ok (st_heap st)" "\<And>j. string_ok (st_vars st j) (st_heap st)"
    and inj: "\<And>j k a. so_data (st_vars st j) = Some a \<Longrightarrow> so_data (st_vars st k) = Some a \<Longrightarrow> j = k"
    and own: "\<And>a. if owned st a then F a = None else hp_blocks (st_heap st) a = F a"
    and vals: "\<And>j. string_bytes (st_vars st j) (st_heap st) = vals j"
    using inv by (auto simp: strings_inv_def)
  have live: "hp_blocks (st_heap st) a \<noteq> None" if "so_data (st_vars st j) = Some a" for j a
    using ok(2)[of j] that by (auto simp: string_ok_def String_new_def)
  have d: "?d \<noteq> Some (hp_next (st_heap st))"
    using live[of i] ok(1) by (auto simp: heap_ok_def)
  note c = copy_string_ok[OF ok(1) copy d]
  have same: "hp_blocks (free_block ?d h) a = hp_blocks (st_heap st) a" if "j \<noteq> i" "so_data (st_vars st j) = Some a" for j a
  proof (rule c(5))
    show "so_data s \<noteq> Some a" using c(4)[of a] live[OF that(2)] by (cases "so_data s = Some a") simp_all
    show "?d \<noteq> Some a" using inj[OF that(2), of i] that(1) by blast
  qed
  have others: "string_bytes (st_vars st j) (free_block ?d h) = vals j" "string_ok (st_vars st j) (free_block ?d h)" if "j \<noteq> i" for j
  proof -
    note f = heap_frame[OF same[OF that]]
    show "string_bytes (st_vars st j) (free_block ?d h) = vals j" using f(1) by (simp add: vals)
    show "string_ok (st_vars st j) (free_block ?d h)" using f(2) ok(2) by blast
  qed
  have owns: "if owned ?st a then F a = None else hp_blocks (st_heap ?st) a = F a" for a
  proof -
    consider "so_data s = Some a" | j where "j \<noteq> i" "so_data (st_vars st j) = Some a"
      | "so_data s \<noteq> Some a" "?d = Some a" "\<forall>j. j \<noteq> i \<longrightarrow> so_data (st_vars st j) \<noteq> Some a"
      | "so_data s \<noteq> Some a" "\<forall>j. so_data (st_vars st j) \<noteq> Some a" by metis
    then show ?thesis
    proof cases
      case 1
      then have "hp_blocks (st_heap st) a = None" by (rule c(4))
      then have "\<not> owned st a" by (auto simp: owned_def dest!: live)
      moreover have "owned ?st a" using 1 by (auto simp: owned_def set_var_def)
      ultimately show ?thesis using own[of a] \<open>hp_blocks (st_heap st) a = None\<close> by simp
    next
      case (2 j)
      then have "owned st a" "owned ?st a" by (auto simp: owned_def set_var_def)
      then show ?thesis using own[of a] by simp
    next
      case 3
      have "owned st a" using 3(2) by (auto simp: owned_def)
      then have "F a = None" using own[of a] by simp
      moreover have "\<not> owned ?st a" using 3 by (auto simp: owned_def set_var_def)
      ultimately show ?thesis using c(6)[OF 3(2)] by (simp add: set_var_def)
    next
      case 4
      then have "\<not> owned ?st a" "\<not> owned st a" by (auto simp: owned_def set_var_def)
      then show ?thesis using own[of a] c(5)[of a] 4 by (simp add: set_var_def)
    qed
  qed
  have new: "so_data s \<noteq> Some a" if "so_data (st_vars st j) = Some a" for j a
    using c(4)[of a] live[OF that] by (cases "so_data s = Some a") simp_all
  have proj: "st_heap ?st = free_block ?d h" "st_vars ?st = (st_vars st)(i := s)" by (simp_all add: set_var_def)
  have "string_ok (st_vars ?st j) (st_heap ?st)" "string_bytes (st_vars ?st j) (st_heap ?st) = (vals(i := bs)) j" for j
    unfolding proj using c(2,3) others by (cases "j = i"; simp)+
  moreover have "j = k" if "so_data (st_vars ?st j) = Some a" "so_data (st_vars ?st k) = Some a" for j k a
    using that inj[of j a k] new[of j a] new[of k a] unfolding proj by (cases "j = i"; cases "k = i") simp_all
  ultimately show ?thesis using owns c(1) unfolding strings_inv_def proj(1) by blast
qed

text \<open>Moving the memory of one name to another, which gives its own back.\<close>

lemma strings_inv_move:
  assumes inv: "strings_inv F vals st" and "i \<noteq> j"
  shows "strings_inv F ((vals(j := []))(i := vals j))
    \<lparr>st_heap = free_block (so_data (st_vars st i)) (st_heap st), st_vars = (st_vars st)(j := String_new, i := st_vars st j)\<rparr>"
    (is "strings_inv F ?vals ?st")
proof -
  let ?d = "so_data (st_vars st i)"
  have ok: "heap_ok (st_heap st)" "\<And>j. string_ok (st_vars st j) (st_heap st)"
    and inj: "\<And>j k a. so_data (st_vars st j) = Some a \<Longrightarrow> so_data (st_vars st k) = Some a \<Longrightarrow> j = k"
    and own: "\<And>a. if owned st a then F a = None else hp_blocks (st_heap st) a = F a"
    and vals: "\<And>j. string_bytes (st_vars st j) (st_heap st) = vals j"
    using inv by (auto simp: strings_inv_def)
  have same: "hp_blocks (free_block ?d (st_heap st)) a = hp_blocks (st_heap st) a" if "k \<noteq> i" "so_data (st_vars st k) = Some a" for k a
    using inj[OF that(2), of i] that(1) by (auto simp: free_block_blocks)
  have others: "string_bytes (st_vars st k) (free_block ?d (st_heap st)) = vals k"
    "string_ok (st_vars st k) (free_block ?d (st_heap st))" if "k \<noteq> i" for k
    using heap_frame[OF same[OF that]] ok(2)[of k] vals[of k] by simp_all
  have proj: "st_heap ?st = free_block ?d (st_heap st)" "st_vars ?st = (st_vars st)(j := String_new, i := st_vars st j)" by simp_all
  have vars: "string_ok (st_vars ?st k) (st_heap ?st)" "string_bytes (st_vars ?st k) (st_heap ?st) = ?vals k" for k
    unfolding proj using others[of j] others[of k] assms(2) by (cases "k = i"; cases "k = j"; simp)+
  have vars_data: "so_data (st_vars ?st k) = Some a \<longleftrightarrow> (if k = i then so_data (st_vars st j) = Some a else k \<noteq> j \<and> so_data (st_vars st k) = Some a)" for k a
    using assms(2) unfolding proj by auto
  have "k = l" if "so_data (st_vars ?st k) = Some a" "so_data (st_vars ?st l) = Some a" for k l a
    using that unfolding vars_data by (metis inj)
  moreover have "if owned ?st a then F a = None else hp_blocks (st_heap ?st) a = F a" for a
  proof -
    have "owned ?st a \<longleftrightarrow> owned st a \<and> ?d \<noteq> Some a"
      unfolding owned_def vars_data by (metis inj assms(2))
    moreover have "?d = Some a \<Longrightarrow> owned st a" unfolding owned_def by blast
    ultimately show ?thesis using own[of a] unfolding proj(1) free_block_blocks by (cases "?d = Some a") simp_all
  qed
  moreover have "heap_ok (st_heap ?st)" using ok(1) by (auto simp: heap_ok_def free_block_blocks split: if_splits)
  ultimately show ?thesis using vars unfolding strings_inv_def by blast
qed

lemma free_copy_commute:
  assumes "d \<noteq> Some (hp_next h)"
  shows "copy_string x bs (free_block d h) = (fst (copy_string x bs h), free_block d (snd (copy_string x bs h)))"
proof (cases d)
  case (Some a)
  with assms have "a \<noteq> hp_next h" by simp
  with Some show ?thesis by (simp add: copy_string_def fresh_string_def free_block_def fun_upd_twist)
qed (simp add: free_block_def)

lemma source_view_ok:
  assumes "strings_inv F vals st" and "source_ok F src"
  shows "view_ok (source_view src st) (st_heap st)" and "view_bytes (source_view src st) (st_heap st) = source_value F src vals"
proof -
  have "view_ok (source_view src st) (st_heap st) \<and> view_bytes (source_view src st) (st_heap st) = source_value F src vals"
  proof (cases src)
    case (BlockAt a i n)
    then obtain x bs where F: "F a = Some (x, bs)" "i + n \<le> length bs" using assms(2) by (auto split: option.splits)
    have "if owned st a then F a = None else hp_blocks (st_heap st) a = F a" using assms(1) by (simp add: strings_inv_def)
    then have "mem_read (Some (a, i)) n (st_heap st) = Inr (take n (drop i bs))"
      using F by (simp add: mem_read_Inr split: if_splits)
    then show ?thesis using BlockAt F(1) by (simp add: view_ok_def view_bytes_def)
  next
    case (OfVar j k)
    have s: "string_ok (st_vars st j) (st_heap st)" "string_bytes (st_vars st j) (st_heap st) = vals j"
      using assms(1) by (auto simp: strings_inv_def)
    from s(1) show ?thesis
    proof (cases rule: string_ok_cases)
      case 1
      then show ?thesis using OfVar s(2)
        by (simp add: String_OffsetView_def String_new_def view_ok_def view_bool_def view_bytes_def base_ptr_def ptr_add_def mem_read_def)
    next
      case (2 a al bs)
      then have "mem_read (Some (a, min k (length bs))) (length bs - min k (length bs)) (st_heap st) = Inr (drop k bs)"
        by (auto simp: mem_read_Inr min_def)
      then show ?thesis using OfVar s(2) 2
        by (auto simp: String_OffsetView_def view_ok_def view_bytes_def base_ptr_def ptr_add_def min_def Let_def split: if_splits)
    qed
  qed
  then show "view_ok (source_view src st) (st_heap st)" and "view_bytes (source_view src st) (st_heap st) = source_value F src vals"
    by auto
qed

lemma str_exec_spec:
  assumes inv: "strings_inv F vals st" and op: "op_ok F op vals"
  shows "\<exists>st'. str_exec op st = Inr st' \<and> strings_inv F (value_op F op vals) st'"
proof -
  have ok: "heap_ok (st_heap st)" "\<And>j. string_ok (st_vars st j) (st_heap st)"
    and vals: "\<And>j. string_bytes (st_vars st j) (st_heap st) = vals j"
    using inv by (auto simp: strings_inv_def)
  have next_free: "so_data (st_vars st j) \<noteq> Some (hp_next (st_heap st))" for j
    using ok(1) ok(2)[of j] by (fastforce simp: heap_ok_def string_ok_def String_new_def)
  have none: "so_data (st_vars st i) = None" if "vals i = []" for i
    using ok(2)[of i] vals[of i] that by (auto elim!: string_ok_cases)
  have copy: "strings_inv F (vals(i := bs)) (set_var i (fst (copy_string x bs (st_heap st)),
      free_block (so_data (st_vars st i)) (snd (copy_string x bs (st_heap st)))) st)" for i x bs
    by (rule strings_inv_copy[OF inv]) simp
  have fresh: "strings_inv F (vals(i := bs)) (set_var i (copy_string x bs (st_heap st)) st)" if "vals i = []" for i x bs
    using copy[of i bs x] none[OF that] by (simp add: free_block_def)
  show ?thesis
  proof (cases op)
    case (Construct i src al)
    with op source_view_ok[OF inv, of src] String_of_view_copy[of "source_view src st" "st_heap st" al] ok(1) fresh
    show ?thesis by fastforce
  next
    case (CopyConstruct i j)
    with op CopyOf_string_copy[OF ok(2)[of j] ok(1)] fresh show ?thesis
      by (auto simp: String_of_string_def vals)
  next
    case (MoveConstruct i j)
    show ?thesis
    proof (cases "i = j")
      case True
      with MoveConstruct op inv none[of i] ok(2)[of i] show ?thesis
        by (simp add: String_move_def fun_upd_idem)
    next
      case False
      with MoveConstruct op strings_inv_move[OF inv False] none[of i] show ?thesis
        by (cases st) (simp add: String_move_def free_block_def)
    qed
  next
    case (Assign i j)
    show ?thesis
    proof (cases "i = j")
      case False
      let ?h = "free_block (so_data (st_vars st i)) (st_heap st)"
      have same: "hp_blocks ?h a = hp_blocks (st_heap st) a" if "so_data (st_vars st j) = Some a" for a
        using inv that False by (auto simp: strings_inv_def free_block_blocks)
      have "heap_ok ?h" using ok(1) by (auto simp: heap_ok_def free_block_blocks split: if_splits)
      from CopyOf_string_copy[OF heap_frame(2)[where s = "st_vars st j", OF same ok(2)] this]
        heap_frame(1)[where s = "st_vars st j", OF same] vals[of j]
      obtain x where "CopyOf_string (st_vars st j) ?h = Inr (copy_string x (vals j) ?h)" by auto
      with False Assign string_free[OF ok(2)[of i]] free_copy_commute[OF next_free[of i]] copy[of i "vals j" x] show ?thesis
        by (simp add: String_assign_def)
    qed (use Assign inv in simp)
  next
    case (AssignView i src)
    with op source_view_ok[OF inv, of src] String_assign_view_copy[OF ok(2)[of i] _ ok(1), of "source_view src st"] vals[of i] copy[of i]
    show ?thesis by fastforce
  next
    case (MoveAssign i j)
    then show ?thesis using inv strings_inv_move[OF inv, of i j] string_free[OF ok(2)[of i]]
      by (simp add: String_move_assign_def)
  next
    case (Destroy i)
    then show ?thesis using copy[of i "[]"] string_free[OF ok(2)[of i]]
      by (simp add: String_destroy_def copy_string_def)
  qed
qed

text \<open>
  C12. A program that constructs, copies, assigns, moves and destroys strings, in any order, with
  views that may point into the strings themselves, never makes a memory error; every string holds
  what value semantics says; no two share memory, and when a string goes, so does its block: at the
  end the heap holds the blocks of the strings that are not empty and what it held besides.
\<close>

theorem strings_are_values:
  assumes "strings_inv F vals st" and "ops_ok F ops vals"
  shows "\<exists>st'. str_run ops st = Inr st' \<and>
    (\<forall>i. string_bytes (st_vars st' i) (st_heap st') = fold (value_op F) ops vals i) \<and>
    (\<forall>a. hp_blocks (st_heap st') a \<noteq> F a \<longrightarrow>
      (\<exists>!i. so_data (st_vars st' i) = Some a \<and> fold (value_op F) ops vals i \<noteq> []))"
proof -
  have "\<exists>st'. str_run ops st = Inr st' \<and> strings_inv F (fold (value_op F) ops vals) st'"
    using assms
  proof (induction ops arbitrary: st vals)
    case (Cons op ops)
    then show ?case using str_exec_spec[OF Cons.prems(1), of op] by fastforce
  qed simp
  then obtain st' where st': "str_run ops st = Inr st'" "strings_inv F (fold (value_op F) ops vals) st'" by blast
  have "\<exists>!i. so_data (st_vars st' i) = Some a \<and> fold (value_op F) ops vals i \<noteq> []"
    if "hp_blocks (st_heap st') a \<noteq> F a" for a
  proof -
    have "owned st' a" using st'(2) that by (cases "owned st' a") (auto simp: strings_inv_def)
    then obtain i where i: "so_data (st_vars st' i) = Some a" by (auto simp: owned_def)
    have s: "string_ok (st_vars st' i) (st_heap st')" "string_bytes (st_vars st' i) (st_heap st') = fold (value_op F) ops vals i"
      using st'(2) by (simp_all add: strings_inv_def)
    then have "fold (value_op F) ops vals i \<noteq> []" using i by (auto elim!: string_ok_cases)
    moreover have "j = i" if "so_data (st_vars st' j) = Some a" for j
      using st'(2) that i unfolding strings_inv_def by blast
    ultimately show ?thesis using i by blast
  qed
  with st' show ?thesis by (auto simp: strings_inv_def)
qed

section \<open>A small program\<close>

text \<open>A literal of three characters; a string of it, its own tail assigned to it, and copied.\<close>

definition lit_blocks :: foreign where
  "lit_blocks = [0 \<mapsto> (1, [97, 98, 99, 0])]"

definition lit_strings :: strings where
  "lit_strings = \<lparr>st_heap = \<lparr>hp_blocks = lit_blocks, hp_next = 1, hp_junk = 7\<rparr>, st_vars = \<lambda>i. String_new\<rparr>"

lemma lit_strings_inv: "strings_inv lit_blocks (\<lambda>i. []) lit_strings"
  by (auto simp: strings_inv_def lit_strings_def lit_blocks_def heap_ok_def owned_def)

theorem strings_are_values_witness:
  "\<exists>st. str_run [Construct 0 (BlockAt 0 0 3) None, AssignView 0 (OfVar 0 1), CopyConstruct 1 0, Destroy 0] lit_strings = Inr st \<and>
    string_bytes (st_vars st 1) (st_heap st) = [98, 99] \<and> string_bytes (st_vars st 0) (st_heap st) = []"
proof -
  let ?ops = "[Construct 0 (BlockAt 0 0 3) None, AssignView 0 (OfVar 0 1), CopyConstruct 1 0, Destroy 0]"
  have "ops_ok lit_blocks ?ops (\<lambda>i. [])" by (simp add: lit_blocks_def)
  from strings_are_values[OF lit_strings_inv this] show ?thesis by (auto simp: lit_blocks_def)
qed

theorem String_assign_empty_crashes_witness:
  "String_assign_view \<lparr>so_data = Some 0, so_len = 1, so_allocator = Some 1\<rparr> \<lparr>vw_data = None, vw_len = 0\<rparr>
    \<lparr>hp_blocks = [0 \<mapsto> (1, [97, 0])], hp_next = 1, hp_junk = 7\<rparr> = Inl NullDeref"
  by (rule String_assign_empty_crashes) (simp_all add: string_ok_def string_bytes_def view_bool_def)

section \<open>Two more flaws\<close>

text \<open>
  \<open>CStringFromString\<close> terminates its source, one character behind the view, and leaves its result
  unterminated; and a view of given length at an offset may reach past the string.
\<close>

lemma CStringFromString_unterminated:
  "CStringFromString \<lparr>vw_data = Some (0, 0), vw_len = 1\<rparr> (Some 1) \<lparr>hp_blocks = [0 \<mapsto> (1, [97, 98, 0])], hp_next = 1, hp_junk = 7\<rparr> =
    Inr (Some (1, 0), \<lparr>hp_blocks = [0 \<mapsto> (1, [97, 0, 0]), 1 \<mapsto> (1, [97, 7])], hp_next = 2, hp_junk = 7\<rparr>)"
  by (simp add: CStringFromString_def mem_alloc_def mem_copy_def mem_read_def mem_write_def block_at_def ptr_add_def
      blit_def fun_upd_twist numeral_eq_Suc)

lemma OffsetViewLen_past_end:
  assumes "string_ok s h" and "0 < ofs" and "ofs < so_len s"
  shows "vw_len (String_OffsetViewLen s ofs (so_len s)) + ofs > so_len s"
  using assms by (simp add: String_OffsetViewLen_def)

lemma String_cstr_empty: "String_cstr String_new h = Inl NullDeref"
  by (simp add: String_cstr_def String_new_def base_ptr_def ptr_add_def mem_read_def)

lemma String_cstr_ok:
  assumes "string_ok s h" and "string_bytes s h \<noteq> []"
  shows "String_cstr s h = Inr (base_ptr (so_data s))"
  using assms(1)
  by (cases rule: string_ok_cases)
    (use assms(2) in \<open>auto simp: String_cstr_def base_ptr_def ptr_add_def mem_read_def block_at_def\<close>)

end
