(* ===== verification/StringBuilders.thy ===== *)
theory StringBuilders
  imports StringObjects
begin

text \<open>
  String builders and the ring of buffers for temporary strings (\<open>core/me_string.h\<close>,
  \<open>core/me_string.cpp\<close>). The text a format produces is the vendored formatter's and an argument.
\<close>

section \<open>Builders\<close>

record builder =
  sb_data :: "loc option"
  sb_len :: nat
  sb_capacity :: nat
  sb_allocator :: "nat option"
  sb_isScopedAlloc :: bool

definition builder_default :: builder where
  "builder_default = \<lparr>sb_data = None, sb_len = 0, sb_capacity = 0, sb_allocator = None, sb_isScopedAlloc = False\<rparr>"

definition StringBuilder_new :: "nat option \<Rightarrow> nat \<Rightarrow> bool \<Rightarrow> heap \<Rightarrow> (builder \<times> heap) result" where
  "StringBuilder_new al initialSize scoped h = bindR (mem_alloc al initialSize h) (\<lambda>(a, h).
     Inr (\<lparr>sb_data = Some a, sb_len = 0, sb_capacity = initialSize, sb_allocator = al, sb_isScopedAlloc = scoped\<rparr>, h))"

definition SetAllocator :: "nat option \<Rightarrow> builder \<Rightarrow> builder" where
  "SetAllocator al sb = sb\<lparr>sb_allocator := al\<rparr>"

definition StringBuilder_destroy :: "builder \<Rightarrow> heap \<Rightarrow> (builder \<times> heap) result" where
  "StringBuilder_destroy sb h =
     bindR (if sb_isScopedAlloc sb then mem_free (sb_allocator sb) (sb_data sb) h else Inr h) (\<lambda>h.
       Inr (sb\<lparr>sb_len := 0, sb_data := None\<rparr>, h))"

text \<open>Growing: the old buffer is given back without a look at whether there is one.\<close>

definition StringBuilderCheckGrow :: "builder \<Rightarrow> nat \<Rightarrow> heap \<Rightarrow> (builder \<times> heap) result" where
  "StringBuilderCheckGrow sb n h =
     (if wrap64 (wrap64 (sb_len sb + n) + 1) > sb_capacity sb then
        let olddata = sb_data sb;
            sb = sb\<lparr>sb_capacity := MEMAX (wrap64 (sb_capacity sb + n)) (wrap64 (sb_capacity sb * 2))\<rparr>
        in bindR (mem_alloc (sb_allocator sb) (sb_capacity sb) h) (\<lambda>(a, h).
           let sb = sb\<lparr>sb_data := Some a\<rparr>
           in bindR (mem_copy (Some (a, 0)) (base_ptr olddata) (sb_len sb) h) (\<lambda>h.
              bindR (mem_free (sb_allocator sb) olddata h) (\<lambda>h. Inr (sb, h))))
      else Inr (sb, h))"

definition sb_Append :: "view \<Rightarrow> builder \<Rightarrow> heap \<Rightarrow> (builder \<times> heap) result" where
  "sb_Append str sb h =
     (if \<not> view_bool str then Inr (sb, h)
      else ME_ASSERT (sb_allocator sb \<noteq> None)
        (bindR (StringBuilderCheckGrow sb (vw_len str) h) (\<lambda>(sb, h).
         bindR (mem_copy (ptr_add (base_ptr (sb_data sb)) (sb_len sb)) (vw_data str) (vw_len str) h) (\<lambda>h.
           Inr (sb\<lparr>sb_len := wrap64 (sb_len sb + vw_len str)\<rparr>, h)))))"

definition sb_Clear :: "builder \<Rightarrow> heap \<Rightarrow> (builder \<times> heap) result" where
  "sb_Clear sb h = bindR (mem_write (base_ptr (sb_data sb)) [0] h) (\<lambda>h. Inr (sb\<lparr>sb_len := 0\<rparr>, h))"

text \<open>Formatting for a builder goes through memory of its allocator that nobody gives back.\<close>

definition MAX_TEXT_BUFFER_LENGTH :: nat where
  "MAX_TEXT_BUFFER_LENGTH = 16000"

definition InternalStringFormat_new :: "u8 list \<Rightarrow> nat option \<Rightarrow> heap \<Rightarrow> (ptr \<times> heap) result" where
  "InternalStringFormat_new txt al h =
     bindR (mem_alloc al (length txt) h) (\<lambda>(a, h).
     bindR (mem_write (Some (a, 0)) txt h) (\<lambda>h.
       ME_ASSERT (length txt + 1 < MAX_TEXT_BUFFER_LENGTH) (Inr (Some (a, 0), h))))"

definition sb_AppendFormat :: "u8 list \<Rightarrow> builder \<Rightarrow> heap \<Rightarrow> (builder \<times> heap) result" where
  "sb_AppendFormat txt sb h =
     bindR (InternalStringFormat_new txt (sb_allocator sb) h) (\<lambda>(p, h).
     bindR (sb_Append \<lparr>vw_data = p, vw_len = length txt\<rparr> sb h) (\<lambda>(sb, h).
       ME_ASSERT (sb_capacity sb > sb_len sb) (Inr (sb, h))))"

text \<open>Formatting into new memory goes through a buffer on the stack.\<close>

definition StringFormatNew :: "u8 list \<Rightarrow> nat option \<Rightarrow> heap \<Rightarrow> (view \<times> heap) result" where
  "StringFormatNew txt al h =
     ME_ASSERT (0 < length txt) (require OutOfBounds (length txt < MAX_TEXT_BUFFER_LENGTH)
       (bindR (mem_alloc al (length txt + 1) h) (\<lambda>(a, h).
        bindR (mem_write (Some (a, 0)) (txt @ [0]) h) (\<lambda>h. Inr (\<lparr>vw_data = Some (a, 0), vw_len = length txt\<rparr>, h)))))"

text \<open>A string of a builder, and assigning one.\<close>

definition String_of_builder :: "builder \<Rightarrow> nat option \<Rightarrow> heap \<Rightarrow> (stringobj \<times> heap) result" where
  "String_of_builder sb al h =
     InitFromBuf (base_ptr (sb_data sb)) (sb_len sb) (if al \<noteq> None then al else sb_allocator sb) h"

definition String_assign_builder :: "stringobj \<Rightarrow> builder \<Rightarrow> heap \<Rightarrow> (stringobj \<times> heap) result" where
  "String_assign_builder this other h =
     (let al = (if so_allocator this \<noteq> None then so_allocator this else or_default (sb_allocator other));
          oldData = so_data this
      in bindR (CopyOf_view \<lparr>vw_data = base_ptr (sb_data other), vw_len = sb_len other\<rparr> al h) (\<lambda>(this, h).
         bindR (if oldData \<noteq> None \<and> oldData \<noteq> so_data this then mem_free (so_allocator this) oldData h else Inr h)
           (\<lambda>h. Inr (this, h))))"

section \<open>What a builder holds\<close>

definition builder_ok :: "builder \<Rightarrow> heap \<Rightarrow> bool" where
  "builder_ok sb h \<longleftrightarrow> (\<exists>a al bs. sb_data sb = Some a \<and> sb_allocator sb = Some al \<and> hp_blocks h a = Some (al, bs) \<and>
     length bs = sb_capacity sb \<and> sb_len sb < sb_capacity sb)"

definition builder_bytes :: "builder \<Rightarrow> heap \<Rightarrow> u8 list" where
  "builder_bytes sb h = (case sb_data sb of None \<Rightarrow> [] | Some a \<Rightarrow>
     (case hp_blocks h a of None \<Rightarrow> [] | Some (x, bs) \<Rightarrow> take (sb_len sb) bs))"

text \<open>One append: the text behind the old one, in the old block or a new one.\<close>

lemma sb_Append_spec:
  assumes ok: "builder_ok sb h" "heap_ok h" and v: "view_ok v h" "map_option fst (vw_data v) \<noteq> sb_data sb"
    and room: "2 * (sb_capacity sb + vw_len v) < 18446744073709551616"
  shows "\<exists>sb' h'. sb_Append v sb h = Inr (sb', h') \<and> builder_ok sb' h' \<and> heap_ok h' \<and>
    builder_bytes sb' h' = builder_bytes sb h @ view_bytes v h \<and>
    sb_len sb' = sb_len sb + length (view_bytes v h) \<and>
    sb_capacity sb' \<le> max (sb_capacity sb) (2 * sb_len sb') \<and>
    (\<forall>a. sb_data sb \<noteq> Some a \<and> sb_data sb' \<noteq> Some a \<longrightarrow> hp_blocks h' a = hp_blocks h a) \<and>
    (\<forall>a. sb_data sb = Some a \<and> sb_data sb' \<noteq> Some a \<longrightarrow> hp_blocks h' a = None) \<and>
    (sb_data sb' = sb_data sb \<or> (\<exists>a. sb_data sb' = Some a \<and> hp_blocks h a = None))"
proof (cases "view_bool v")
  case False
  then show ?thesis using ok view_bytes_empty[OF v(1)] by (simp add: sb_Append_def)
next
  case True
  obtain a al bs where sb: "sb_data sb = Some a" "sb_allocator sb = Some al" "hp_blocks h a = Some (al, bs)"
    "length bs = sb_capacity sb" "sb_len sb < sb_capacity sb" using ok(1) unfolding builder_ok_def by blast
  obtain b i x cs where vw: "vw_data v = Some (b, i)" "hp_blocks h b = Some (x, cs)" "i + vw_len v \<le> length cs"
    "view_bytes v h = take (vw_len v) (drop i cs)"
    using view_bytes_read[OF v(1) True] by (auto simp: mem_read_Inr)
  have ne: "b \<noteq> a" "vw_len v \<noteq> 0" "length (view_bytes v h) = vw_len v"
    using v(2) True vw(3) by (auto simp: sb(1) vw(1,4) view_bool_def)
  have lt: "a < hp_next h" "b < hp_next h" using ok(2) sb(3) vw(2) by (auto simp: heap_ok_def)
  let ?grow = "sb_len sb + vw_len v + 1 > sb_capacity sb"
  have w: "wrap64 (Suc (sb_len sb + vw_len v)) = Suc (sb_len sb + vw_len v)"
    "wrap64 (sb_capacity sb + vw_len v) = sb_capacity sb + vw_len v" "wrap64 (sb_capacity sb * 2) = sb_capacity sb * 2"
    "wrap64 (sb_len sb + vw_len v) = sb_len sb + vw_len v" "wrap64 (vw_len v) = vw_len v" "wrap64 (Suc (vw_len v)) = Suc (vw_len v)"
    using sb(5) room by simp_all
  note defs = sb_Append_def StringBuilderCheckGrow_def mem_copy_def mem_read_def mem_write_def block_at_def
    base_ptr_def ptr_add_def Let_def
  show ?thesis
  proof (cases ?grow)
    case False
    define h' where "h' = h\<lparr>hp_blocks := (hp_blocks h)(a \<mapsto> (al, take (sb_len sb) bs @ view_bytes v h @ drop (sb_len sb + vw_len v) bs))\<rparr>"
    have "sb_Append v sb h = Inr (sb\<lparr>sb_len := sb_len sb + vw_len v\<rparr>, h')"
      using True False sb vw(1-3) ne(2) by (simp add: defs w h'_def vw(4))
    moreover have "builder_ok (sb\<lparr>sb_len := sb_len sb + vw_len v\<rparr>) h'"
      using False sb ne(3) by (simp add: builder_ok_def h'_def)
    moreover have "builder_bytes (sb\<lparr>sb_len := sb_len sb + vw_len v\<rparr>) h' = builder_bytes sb h @ view_bytes v h"
      using sb ne(3) by (simp add: builder_bytes_def h'_def)
    ultimately show ?thesis using ok(2) sb(1) lt(1) ne(3) by (auto simp: h'_def heap_ok_def)
  next
    case True
    let ?c = "max (sb_capacity sb + vw_len v) (sb_capacity sb * 2)" and ?a = "hp_next h"
    define sb' where "sb' = sb\<lparr>sb_capacity := ?c, sb_data := Some ?a, sb_len := sb_len sb + vw_len v\<rparr>"
    define h' where "h' = h\<lparr>hp_blocks := ((hp_blocks h)(a := None))(?a \<mapsto>
      (al, take (sb_len sb) bs @ view_bytes v h @ replicate (?c - sb_len sb - vw_len v) (hp_junk h))), hp_next := Suc ?a\<rparr>"
    have fits: "sb_len sb + vw_len v < ?c" using sb(5) by simp
    have "sb_Append v sb h = Inr (sb', h')"
      using True \<open>view_bool v\<close> sb vw(1-3) ne(1,2) lt fits
      by (cases "sb_len sb = 0")
        (simp_all add: defs w mem_alloc_Some mem_free_def MEMAX_max sb'_def h'_def vw(4) fun_upd_twist diff_diff_eq)
    moreover have "builder_ok sb' h'" using sb ne(3) fits by (simp add: builder_ok_def sb'_def h'_def)
    moreover have "builder_bytes sb' h' = builder_bytes sb h @ view_bytes v h"
      using sb ne(3) lt(1) by (simp add: builder_bytes_def sb'_def h'_def)
    moreover have "hp_blocks h ?a = None" using ok(2) by (cases "hp_blocks h ?a") (auto simp: heap_ok_def)
    moreover have "heap_ok h'" using ok(2) by (auto simp: heap_ok_def h'_def less_Suc_eq)
    ultimately show ?thesis using sb(1) ne(3) True fits by (auto simp: sb'_def h'_def)
  qed
qed

fun append_all :: "view list \<Rightarrow> builder \<Rightarrow> heap \<Rightarrow> (builder \<times> heap) result" where
  "append_all [] sb h = Inr (sb, h)"
| "append_all (v # vs) sb h = bindR (sb_Append v sb h) (\<lambda>(sb, h). append_all vs sb h)"

lemma view_frame:
  assumes "view_ok v h" and "\<And>a i. vw_data v = Some (a, i) \<Longrightarrow> hp_blocks h' a = hp_blocks h a"
  shows "view_ok v h'" and "view_bytes v h' = view_bytes v h"
proof -
  have "mem_read (vw_data v) (vw_len v) h' = mem_read (vw_data v) (vw_len v) h"
    using assms(2) by (cases "vw_data v") (auto simp: mem_read_def block_at_def)
  then show "view_ok v h'" "view_bytes v h' = view_bytes v h" using assms(1) by (simp_all add: view_ok_def view_bytes_def)
qed

text \<open>
  C29. Texts appended to a builder with memory end up in it one behind the other, through any number
  of times it grows; the heap keeps one block for it, and the string made of it holds them all.
\<close>

theorem append_all_concat:
  assumes "builder_ok sb h" and "heap_ok h"
    and "\<forall>v\<in>set vs. view_ok v h \<and> map_option fst (vw_data v) \<noteq> sb_data sb \<and> view_bool v"
    and "2 * sb_capacity sb + 2 * (sb_len sb + sum_list (map vw_len vs)) < 18446744073709551616"
    and "6 * (sb_len sb + sum_list (map vw_len vs)) < 18446744073709551616"
  shows "\<exists>sb' h'. append_all vs sb h = Inr (sb', h') \<and> builder_ok sb' h' \<and> heap_ok h' \<and>
    builder_bytes sb' h' = builder_bytes sb h @ concat (map (\<lambda>v. view_bytes v h) vs) \<and>
    (\<forall>a. sb_data sb' \<noteq> Some a \<longrightarrow> hp_blocks h' a = (if sb_data sb = Some a then None else hp_blocks h a))"
  using assms
proof (induction vs arbitrary: sb h)
  case (Cons v vs)
  have v: "view_ok v h" "map_option fst (vw_data v) \<noteq> sb_data sb" "view_bool v" using Cons.prems(3) by auto
  have len: "length (view_bytes v h) = vw_len v" using length_mem_read[OF view_bytes_read[OF v(1,3)]] .
  obtain sb1 h1 where s1: "sb_Append v sb h = Inr (sb1, h1)" "builder_ok sb1 h1" "heap_ok h1"
    "builder_bytes sb1 h1 = builder_bytes sb h @ view_bytes v h" "sb_len sb1 = sb_len sb + vw_len v"
    "sb_capacity sb1 \<le> max (sb_capacity sb) (2 * sb_len sb1)"
    "\<And>a. sb_data sb \<noteq> Some a \<Longrightarrow> sb_data sb1 \<noteq> Some a \<Longrightarrow> hp_blocks h1 a = hp_blocks h a"
    "\<And>a. sb_data sb = Some a \<Longrightarrow> sb_data sb1 \<noteq> Some a \<Longrightarrow> hp_blocks h1 a = None"
    "sb_data sb1 = sb_data sb \<or> (\<exists>a. sb_data sb1 = Some a \<and> hp_blocks h a = None)"
    using sb_Append_spec[OF Cons.prems(1,2) v(1,2)] Cons.prems(4) unfolding len by auto
  have live: "\<exists>a i b. vw_data w = Some (a, i) \<and> hp_blocks h a = Some b" if "view_ok w h" "view_bool w" for w
    using view_bytes_read[OF that] by (auto simp: mem_read_Inr)
  have vs: "view_ok w h1" "view_bytes w h1 = view_bytes w h" "map_option fst (vw_data w) \<noteq> sb_data sb1" if "w \<in> set vs" for w
  proof -
    have w: "view_ok w h" "map_option fst (vw_data w) \<noteq> sb_data sb" "view_bool w" using that Cons.prems(3) by auto
    obtain a i b where a: "vw_data w = Some (a, i)" "hp_blocks h a = Some b" using live[OF w(1,3)] by blast
    show ne: "map_option fst (vw_data w) \<noteq> sb_data sb1" using s1(9) w(2) a by auto
    have "hp_blocks h1 a = hp_blocks h a" using s1(7)[of a] w(2) ne a(1) by simp
    with view_frame[OF w(1), of h1] a(1) show "view_ok w h1" "view_bytes w h1 = view_bytes w h" by auto
  qed
  have "2 * sb_capacity sb1 + 2 * (sb_len sb1 + sum_list (map vw_len vs)) < 18446744073709551616"
    "6 * (sb_len sb1 + sum_list (map vw_len vs)) < 18446744073709551616"
    using Cons.prems(4,5) s1(5,6) by (auto simp: max_def split: if_splits)
  then obtain sb2 h2 where s2: "append_all vs sb1 h1 = Inr (sb2, h2)" "builder_ok sb2 h2" "heap_ok h2"
    "builder_bytes sb2 h2 = builder_bytes sb1 h1 @ concat (map (\<lambda>v. view_bytes v h1) vs)"
    "\<And>a. sb_data sb2 \<noteq> Some a \<Longrightarrow> hp_blocks h2 a = (if sb_data sb1 = Some a then None else hp_blocks h1 a)"
    using Cons.IH[OF s1(2,3)] vs Cons.prems(3) by auto
  have "hp_blocks h2 a = (if sb_data sb = Some a then None else hp_blocks h a)" if "sb_data sb2 \<noteq> Some a" for a
    using s2(5)[OF that] s1(7,8)[of a] s1(9) by (cases "sb_data sb1 = Some a"; cases "sb_data sb = Some a") auto
  moreover have "concat (map (\<lambda>v. view_bytes v h1) vs) = concat (map (\<lambda>v. view_bytes v h) vs)"
    using vs(2) by (metis (mono_tags, lifting) map_eq_conv)
  ultimately show ?case using s1(1,4) s2(1-4) by simp
qed simp

lemma StringBuilder_new_ok:
  assumes "0 < n" and "heap_ok h"
  shows "\<exists>sb h'. StringBuilder_new (Some al) n sc h = Inr (sb, h') \<and> builder_ok sb h' \<and> heap_ok h' \<and> builder_bytes sb h' = []"
  using assms by (auto simp: StringBuilder_new_def mem_alloc_Some builder_ok_def builder_bytes_def heap_ok_def less_Suc_eq)

text \<open>The string of a builder holds its text, in memory of its own.\<close>

lemma String_of_builder_copy:
  assumes "builder_ok sb h" and "heap_ok h"
  shows "\<exists>x. String_of_builder sb None h = Inr (copy_string x (builder_bytes sb h) h)"
proof -
  obtain a al bs where sb: "sb_data sb = Some a" "sb_allocator sb = Some al" "hp_blocks h a = Some (al, bs)"
    "length bs = sb_capacity sb" "sb_len sb < sb_capacity sb" using assms(1) unfolding builder_ok_def by blast
  have bytes: "mem_read (base_ptr (sb_data sb)) (sb_len sb) h = Inr (builder_bytes sb h)"
    using sb by (auto simp: mem_read_Inr base_ptr_def builder_bytes_def)
  show ?thesis
  proof (cases "sb_len sb = 0")
    case True
    then show ?thesis using length_mem_read[OF bytes]
      by (simp add: String_of_builder_def InitFromBuf_def copy_string_def)
  next
    case False
    with InitFromBuf_fresh[OF False bytes assms(2), of al] length_mem_read[OF bytes] sb(2) show ?thesis
      by (auto simp: String_of_builder_def copy_string_def)
  qed
qed

section \<open>What a builder does not support\<close>

text \<open>
  Appending a part of a builder's own text to it works only as long as it does not grow: growing
  gives the old block back before the text is read, so the copy reads memory that is gone.
\<close>

theorem sb_Append_self_dangles:
  assumes "builder_ok sb h" and "heap_ok h" and "sb_data sb = Some a" and "0 < n" and "i + n \<le> sb_len sb"
    and "sb_capacity sb \<le> sb_len sb + n" and "2 * (sb_capacity sb + n) < 18446744073709551616"
  shows "sb_Append \<lparr>vw_data = Some (a, i), vw_len = n\<rparr> sb h = Inl Dangling"
proof -
  obtain al bs where sb: "sb_allocator sb = Some al" "hp_blocks h a = Some (al, bs)"
    "length bs = sb_capacity sb" "sb_len sb < sb_capacity sb" using assms(1,3) unfolding builder_ok_def by auto
  have lt: "a < hp_next h" using assms(2) sb(2) by (auto simp: heap_ok_def)
  have w: "wrap64 (sb_len sb + n) = sb_len sb + n" "wrap64 (Suc (sb_len sb + n)) = Suc (sb_len sb + n)"
    using sb(4) assms(7) by simp_all
  have c: "sb_len sb \<le> MEMAX (wrap64 (sb_capacity sb + n)) (wrap64 (sb_capacity sb * 2))" "sb_len sb \<noteq> 0"
    using sb(4) assms(4,5,7) by (auto simp: MEMAX_max)
  show ?thesis
    using assms(3,4,6) sb lt c
    by (simp add: sb_Append_def StringBuilderCheckGrow_def view_bool_def w mem_alloc_Some mem_copy_def mem_read_def
        mem_write_def block_at_def base_ptr_def ptr_add_def mem_free_def Let_def)
qed

text \<open>
  A builder that was given its allocator afterwards starts without memory; it grows to just what the
  first text needs, which the formatting append does not accept.
\<close>

lemma AppendFormat_unsized_asserts:
  assumes "txt \<noteq> []" and "length txt < 15999" and "heap_ok h"
  shows "sb_AppendFormat txt (SetAllocator (Some al) builder_default) h = Inl AssertFailed"
proof -
  have n: "wrap64 (length txt) = length txt" "wrap64 (Suc (length txt)) = Suc (length txt)" using assms(2) by simp_all
  show ?thesis using assms
    by (simp add: sb_AppendFormat_def InternalStringFormat_new_def SetAllocator_def builder_default_def mem_alloc_Some
        mem_write_def block_at_def MAX_TEXT_BUFFER_LENGTH_def sb_Append_def StringBuilderCheckGrow_def view_bool_def n
        mem_copy_def mem_read_def ptr_add_def base_ptr_def mem_free_def MEMAX_max Let_def)
qed

text \<open>Assigning an empty builder to a string that has memory stops the program, as an empty view does.\<close>

lemma String_assign_builder_empty:
  assumes "string_ok s h" and "string_bytes s h \<noteq> []" and "sb_len sb = 0"
  shows "String_assign_builder s sb h = Inl NullDeref"
  using assms(1)
  by (cases rule: string_ok_cases)
    (use assms(2,3) in \<open>auto simp: String_assign_builder_def CopyOf_view_def view_bool_def mem_free_def String_new_def\<close>)

section \<open>Temporary strings\<close>

text \<open>
  Each thread has a ring of buffers. A text goes into the next one, with a terminator, and the view
  that is returned points there: the number of the buffer and a length.
\<close>

definition MAX_TEXTFORMAT_BUFFERS :: nat where
  "MAX_TEXTFORMAT_BUFFERS = 12"

record format_ring =
  fr_buffers :: "u8 list list"
  fr_index :: nat

definition format_ring_new :: format_ring where
  "format_ring_new = \<lparr>fr_buffers = replicate MAX_TEXTFORMAT_BUFFERS (replicate MAX_TEXT_BUFFER_LENGTH 0), fr_index = 0\<rparr>"

definition StringFormatTmp :: "u8 list \<Rightarrow> format_ring \<Rightarrow> ((nat \<times> nat) \<times> format_ring) result" where
  "StringFormatTmp txt fr =
     bindR (readAt (fr_index fr) (fr_buffers fr)) (\<lambda>buf.
     bindR (blit 0 (take (MAX_TEXT_BUFFER_LENGTH - 1) txt @ [0]) buf) (\<lambda>buf'.
     ME_ASSERT (length txt + 1 < MAX_TEXT_BUFFER_LENGTH)
       (let fr' = fr\<lparr>fr_buffers := (fr_buffers fr)[fr_index fr := buf'], fr_index := fr_index fr + 1\<rparr>;
            fr' = (if fr_index fr' \<ge> MAX_TEXTFORMAT_BUFFERS then fr'\<lparr>fr_index := 0\<rparr> else fr')
        in Inr ((fr_index fr, length txt), fr'))))"

definition tmp_text :: "format_ring \<Rightarrow> nat \<times> nat \<Rightarrow> u8 list" where
  "tmp_text fr v = take (snd v) (fr_buffers fr ! fst v)"

fun format_all :: "u8 list list \<Rightarrow> format_ring \<Rightarrow> format_ring result" where
  "format_all [] fr = Inr fr"
| "format_all (t # ts) fr = bindR (StringFormatTmp t fr) (\<lambda>(v, fr). format_all ts fr)"

definition ring_ok :: "format_ring \<Rightarrow> bool" where
  "ring_ok fr \<longleftrightarrow> length (fr_buffers fr) = 12 \<and> fr_index fr < 12 \<and> (\<forall>b\<in>set (fr_buffers fr). length b = 16000)"

lemma StringFormatTmp_ok:
  assumes "ring_ok fr" and "length txt < 15999"
  shows "\<exists>fr'. StringFormatTmp txt fr = Inr ((fr_index fr, length txt), fr') \<and> ring_ok fr' \<and>
    fr_index fr' = (fr_index fr + 1) mod 12 \<and> tmp_text fr' (fr_index fr, length txt) = txt \<and>
    (\<forall>i. i \<noteq> fr_index fr \<longrightarrow> fr_buffers fr' ! i = fr_buffers fr ! i)"
proof -
  let ?b = "fr_buffers fr ! fr_index fr"
  have b: "length ?b = 16000" "fr_index fr < length (fr_buffers fr)" using assms(1) by (auto simp: ring_ok_def)
  define b' where "b' = txt @ [0] @ drop (Suc (length txt)) ?b"
  have blit: "blit 0 (take 15999 txt @ [0]) ?b = Inr b'" using b(1) assms(2) by (simp add: b'_def)
  have "length b' = 16000" using b(1) assms(2) by (simp add: b'_def)
  then have "ring_ok \<lparr>fr_buffers = (fr_buffers fr)[fr_index fr := b'], fr_index = i\<rparr>" if "i < 12" for i
    using assms(1) that set_update_subset_insert[of "fr_buffers fr" "fr_index fr" b'] by (auto simp: ring_ok_def)
  moreover have "StringFormatTmp txt fr = Inr ((fr_index fr, length txt),
      \<lparr>fr_buffers = (fr_buffers fr)[fr_index fr := b'], fr_index = (fr_index fr + 1) mod 12\<rparr>)"
  proof -
    have "Suc (fr_index fr) mod 12 = (if 11 \<le> fr_index fr then 0 else Suc (fr_index fr))"
      using assms(1) by (cases "fr_index fr = 11") (simp_all add: ring_ok_def)
    then show ?thesis using b blit assms(2)
      by (cases fr) (auto simp: StringFormatTmp_def MAX_TEXT_BUFFER_LENGTH_def MAX_TEXTFORMAT_BUFFERS_def Let_def readAt_def)
  qed
  ultimately show ?thesis using b(2) by (simp add: tmp_text_def b'_def)
qed

lemma format_all_frame:
  assumes "ring_ok fr" and "\<forall>t\<in>set ts. length t < 15999"
  shows "\<exists>fr'. format_all ts fr = Inr fr' \<and> ring_ok fr' \<and> fr_index fr' = (fr_index fr + length ts) mod 12 \<and>
    (\<forall>i<12. (\<forall>k<length ts. i \<noteq> (fr_index fr + k) mod 12) \<longrightarrow> fr_buffers fr' ! i = fr_buffers fr ! i)"
  using assms
proof (induction ts arbitrary: fr)
  case Nil
  then show ?case by (simp add: ring_ok_def)
next
  case (Cons t ts)
  obtain fr1 where f1: "StringFormatTmp t fr = Inr ((fr_index fr, length t), fr1)" "ring_ok fr1"
    "fr_index fr1 = (fr_index fr + 1) mod 12" "\<And>i. i \<noteq> fr_index fr \<Longrightarrow> fr_buffers fr1 ! i = fr_buffers fr ! i"
    using StringFormatTmp_ok[OF Cons.prems(1), of t] Cons.prems(2) by auto
  obtain fr2 where f2: "format_all ts fr1 = Inr fr2" "ring_ok fr2" "fr_index fr2 = (fr_index fr1 + length ts) mod 12"
    "\<And>i. i < 12 \<Longrightarrow> (\<forall>k<length ts. i \<noteq> (fr_index fr1 + k) mod 12) \<Longrightarrow> fr_buffers fr2 ! i = fr_buffers fr1 ! i"
    using Cons.IH[OF f1(2)] Cons.prems(2) by auto
  have i: "fr_index fr < 12" using Cons.prems(1) by (simp add: ring_ok_def)
  have "fr_buffers fr2 ! i = fr_buffers fr ! i" if "i < 12" "\<forall>k<length (t # ts). i \<noteq> (fr_index fr + k) mod 12" for i
  proof -
    have "i \<noteq> (fr_index fr1 + k) mod 12" if "k < length ts" for k
      using \<open>\<forall>k<length (t # ts). _\<close>[rule_format, of "Suc k"] that by (simp add: f1(3) mod_simps)
    then show ?thesis using f2(4)[OF that(1)] f1(4)[of i] that(2)[rule_format, of 0] i by simp
  qed
  then show ?case using f1(1) f2(1,2) by (simp add: f2(3) f1(3) mod_simps)
qed

lemma ring_other:
  assumes "i < 12" and "k < 11"
  shows "i \<noteq> Suc (i + k) mod 12"
proof (cases "Suc (i + k) < 12")
  case False
  then have "Suc (i + k) mod 12 = Suc (i + k) - 12" using assms by (simp add: le_mod_geq)
  with False assms show ?thesis by arith
qed simp

text \<open>
  A temporary string keeps its text for the next eleven calls, whatever they format; the twelfth
  call writes over it.
\<close>

theorem StringFormatTmp_lives:
  assumes "ring_ok fr" and "length txt < 15999" and "length ts \<le> 12" and "\<forall>t\<in>set ts. length t < 15999"
  shows "\<exists>v fr1 fr2. StringFormatTmp txt fr = Inr (v, fr1) \<and> format_all ts fr1 = Inr fr2 \<and>
    (length ts < 12 \<longrightarrow> tmp_text fr2 v = txt) \<and>
    (length ts = 12 \<and> length (last ts) = length txt \<longrightarrow> tmp_text fr2 v = last ts)"
proof -
  obtain fr1 where f1: "StringFormatTmp txt fr = Inr ((fr_index fr, length txt), fr1)" "ring_ok fr1"
    "fr_index fr1 = (fr_index fr + 1) mod 12" "tmp_text fr1 (fr_index fr, length txt) = txt"
    using StringFormatTmp_ok[OF assms(1,2)] by auto
  have i: "fr_index fr < 12" using assms(1) by (simp add: ring_ok_def)
  have kept: "\<exists>fr'. format_all us fr1 = Inr fr' \<and> ring_ok fr' \<and> fr_index fr' = (fr_index fr1 + length us) mod 12 \<and>
      tmp_text fr' (fr_index fr, length txt) = txt" if "length us < 12" "\<forall>t\<in>set us. length t < 15999" for us
  proof -
    have "fr_index fr \<noteq> (fr_index fr1 + k) mod 12" if "k < length us" for k
      using ring_other[OF i, of k] that \<open>length us < 12\<close> by (simp add: f1(3) mod_simps)
    with format_all_frame[OF f1(2) that(2)] i f1(4) show ?thesis by (auto simp: tmp_text_def)
  qed
  show ?thesis
  proof (cases "length ts < 12")
    case True
    with kept[OF True assms(4)] f1(1) show ?thesis by auto
  next
    case False
    then obtain us t where ts: "ts = us @ [t]" "length us = 11" using assms(3) by (cases ts rule: rev_cases) auto
    obtain fr' where f: "format_all us fr1 = Inr fr'" "ring_ok fr'" "fr_index fr' = (fr_index fr1 + length us) mod 12"
      using kept[of us] ts assms(4) by auto
    have "fr_index fr' = fr_index fr" using i by (simp add: f(3) f1(3) ts(2) mod_simps)
    with StringFormatTmp_ok[OF f(2), of t] ts(1) assms(4) obtain fr2 where
      "StringFormatTmp t fr' = Inr ((fr_index fr, length t), fr2)" "tmp_text fr2 (fr_index fr, length t) = t" by auto
    moreover have "format_all (us @ [t]) fr1 = bindR (format_all us fr1) (format_all [t])" for fr1
      by (induction us arbitrary: fr1) (simp_all add: bindR_assoc case_prod_unfold)
    ultimately show ?thesis using f1(1) f(1) ts by auto
  qed
qed

section \<open>The properties at small texts\<close>

definition small_builder :: builder where
  "small_builder = \<lparr>sb_data = Some 1, sb_len = 1, sb_capacity = 2, sb_allocator = Some 1, sb_isScopedAlloc = False\<rparr>"

definition small_heap :: heap where
  "small_heap = \<lparr>hp_blocks = [0 \<mapsto> (1, [97, 98, 99, 0]), 1 \<mapsto> (1, [120, 0])], hp_next = 2, hp_junk = 7\<rparr>"

lemma small_builder_ok: "builder_ok small_builder small_heap" "heap_ok small_heap"
  by (auto simp: builder_ok_def small_builder_def small_heap_def heap_ok_def)

theorem append_all_concat_witness:
  "\<exists>sb h. append_all [\<lparr>vw_data = Some (0, 0), vw_len = 3\<rparr>, \<lparr>vw_data = Some (0, 1), vw_len = 2\<rparr>] small_builder small_heap = Inr (sb, h) \<and>
    builder_bytes sb h = [120, 97, 98, 99, 98, 99]"
proof -
  let ?v = "\<lparr>vw_data = Some (0, 0), vw_len = 3\<rparr>" and ?w = "\<lparr>vw_data = Some (0, 1), vw_len = 2\<rparr>"
  have "\<forall>v\<in>set [?v, ?w]. view_ok v small_heap \<and> map_option fst (vw_data v) \<noteq> sb_data small_builder \<and> view_bool v"
    by (simp add: view_ok_def view_bool_def mem_read_def block_at_def small_heap_def small_builder_def)
  from append_all_concat[OF small_builder_ok this]
  show ?thesis by (fastforce simp: small_builder_def small_heap_def builder_bytes_def view_bytes_def mem_read_def block_at_def)
qed

theorem sb_Append_self_dangles_witness:
  "sb_Append \<lparr>vw_data = Some (1, 0), vw_len = 1\<rparr> small_builder small_heap = Inl Dangling"
  by (rule sb_Append_self_dangles[OF small_builder_ok]) (simp_all add: small_builder_def)

lemma ring_new_ok: "ring_ok format_ring_new"
  by (simp add: ring_ok_def format_ring_new_def MAX_TEXTFORMAT_BUFFERS_def MAX_TEXT_BUFFER_LENGTH_def)

theorem StringFormatTmp_lives_witness:
  "\<exists>v fr1 fr2. StringFormatTmp [97, 98] format_ring_new = Inr (v, fr1) \<and> format_all (replicate 11 [99]) fr1 = Inr fr2 \<and>
    tmp_text fr2 v = [97, 98]"
  using StringFormatTmp_lives[OF ring_new_ok, of "[97, 98]" "replicate 11 [99]"] by auto

end
