(* ===== verification/Files.thy ===== *)
theory Files
  imports AssetPaths
begin

text \<open>
  File references: \<open>OSFileReference\<close> of \<open>platform/me_os.h\<close>, its functions in
  \<open>platform/windows/me_os_win.cpp\<close>, and the search of \<open>core/me_filesystem.cpp\<close> for a file in
  the directories above a path. The calls of the operating system are arguments. A path is the list of its bytes where the code passes a view of it.
\<close>

section \<open>File references\<close>

definition ME_PATH_MAX :: nat where
  "ME_PATH_MAX = 260"

record OSFileReference =
  fr_flags :: u32
  fr_handle :: nat
  fr_path :: "u8 list"

definition OSFileReference_default :: OSFileReference where
  "OSFileReference_default = \<lparr>fr_flags = 0, fr_handle = 0, fr_path = replicate ME_PATH_MAX 0\<rparr>"

text \<open>
  \<open>StringCopy\<close> into the path buffer: a text longer than the buffer is not copied, but its
  terminator is written in either case.
\<close>

definition path_copy :: "u8 list \<Rightarrow> u8 list \<Rightarrow> u8 list result" where
  "path_copy path str =
     (let path = (if length str > length path then path else str @ drop (length str) path)
      in writeAt (length str) 0 path)"

definition InitWithoutOpening :: "OSFileReference \<Rightarrow> u8 list \<Rightarrow> OSFileReference result" where
  "InitWithoutOpening file str =
     bindR (path_copy (fr_path file) str) (\<lambda>path.
     bindR (readAt (length str) path) (\<lambda>c.
       ME_ASSERT (c = 0) (Inr (file\<lparr>fr_path := path\<rparr>))))"

text \<open>The path as the operating system reads it: up to its terminator.\<close>

definition fr_cpath :: "OSFileReference \<Rightarrow> u8 list result" where
  "fr_cpath file = bindR (cstring_loop (fr_path file)) (\<lambda>n. Inr (take n (fr_path file)))"

definition file_ok :: "OSFileReference \<Rightarrow> bool" where
  "file_ok file \<longleftrightarrow> length (fr_path file) = ME_PATH_MAX"

definition path_ok :: "u8 list \<Rightarrow> bool" where
  "path_ok p \<longleftrightarrow> length p < ME_PATH_MAX \<and> 0 \<notin> set p"

lemma file_ok_default [simp]: "file_ok OSFileReference_default"
  by (simp add: file_ok_def OSFileReference_default_def)

lemma cstring_loop_prefix: "0 \<notin> set s \<Longrightarrow> cstring_loop (s @ 0 # rest) = Inr (length s)"
  by (induction s) auto

lemma path_copy_ok:
  assumes "length str < length path"
  shows "path_copy path str = Inr (str @ 0 # drop (Suc (length str)) path)"
proof -
  have "length str < length (str @ drop (length str) path)" using assms by simp
  then have "path_copy path str = Inr ((str @ drop (length str) path)[length str := 0])"
    using assms by (simp only: path_copy_def Let_def writeAt_ok) simp
  also have "(str @ drop (length str) path)[length str := 0] = str @ 0 # drop (Suc (length str)) path"
    using assms by (simp add: list_update_append Cons_nth_drop_Suc[symmetric])
  finally show ?thesis .
qed

text \<open>A path that fits is what the operating system will read.\<close>

lemma InitWithoutOpening_ok:
  assumes "file_ok file" and "path_ok str"
  shows "\<exists>file'. InitWithoutOpening file str = Inr file' \<and> file_ok file' \<and> fr_cpath file' = Inr str \<and>
    fr_flags file' = fr_flags file \<and> fr_handle file' = fr_handle file"
proof -
  let ?p = "str @ 0 # drop (Suc (length str)) (fr_path file)"
  have len: "length str < length (fr_path file)"
    using assms by (simp add: file_ok_def path_ok_def)
  have "InitWithoutOpening file str = Inr (file\<lparr>fr_path := ?p\<rparr>)"
    using path_copy_ok[OF len] by (simp add: InitWithoutOpening_def readAt_def nth_append)
  moreover have "fr_cpath (file\<lparr>fr_path := ?p\<rparr>) = Inr str"
    using assms(2) by (simp add: fr_cpath_def cstring_loop_prefix path_ok_def)
  moreover have "file_ok (file\<lparr>fr_path := ?p\<rparr>)"
    using assms(1) len by (simp add: file_ok_def)
  ultimately show ?thesis by simp
qed

text \<open>A longer one writes its terminator behind the buffer.\<close>

lemma InitWithoutOpening_overflow:
  assumes "file_ok file" and "ME_PATH_MAX \<le> length str"
  shows "InitWithoutOpening file str = Inl OutOfBounds"
  using assms by (simp add: InitWithoutOpening_def path_copy_def writeAt_def file_ok_def)

section \<open>Looking for a file further out\<close>

text \<open>
  \<open>isFile\<close> is \<open>GetFileAttributesA\<close>'s answer that a path names a file; \<open>full\<close> is the path
  \<open>GetFullPathNameA\<close> writes into the buffer, \<open>None\<close> if it fails. A path that does not fit is not
  written, and the length of the buffer's content is then read from no terminated text.
\<close>

definition meOSFileExists :: "(u8 list \<Rightarrow> bool) \<Rightarrow> OSFileReference \<Rightarrow> bool result" where
  "meOSFileExists isFile file = bindR (fr_cpath file) (\<lambda>path. Inr (isFile path))"

definition meOSResolveRelativeToAbsPath :: "(u8 list \<Rightarrow> u8 list option) \<Rightarrow> u8 list \<Rightarrow> u8 list result" where
  "meOSResolveRelativeToAbsPath full potentiallyRelativePath =
     (case full potentiallyRelativePath of None \<Rightarrow> Inl AssertFailed
      | Some dst \<Rightarrow> require OutOfBounds (length dst < ME_PATH_MAX)
          (bindR (meFsNormalizePathSeperators (sv_of dst)) (\<lambda>absolutePath. Inr (sv_str absolutePath))))"

fun scan_loop :: "(u8 list \<Rightarrow> bool) \<Rightarrow> nat \<Rightarrow> OSFileReference \<Rightarrow> u8 list \<Rightarrow> u8 list result" where
  "scan_loop isFile 0 file result = Inl NoReturn"
| "scan_loop isFile (Suc left) file result =
     (if result = [] then Inr []
      else
       (let view = sv_of result
        in bindR (FindInStringRev view meFsGetDirectorySeperator 0 0) (\<lambda>lastFolderEnd.
             if lastFolderEnd = -1 then Inr []
             else bindR (FindInStringRev view meFsGetDirectorySeperator (nat (int (length result) - lastFolderEnd)) 0)
              (\<lambda>lastFolderStart.
               if lastFolderStart = -1 then Inr []
               else
                (let beforeFolder = OffsetViewLen view 0 (nat lastFolderStart);
                     afterFolder = OffsetView view (nat lastFolderEnd);
                     builder = sv_str beforeFolder @ sv_str afterFolder
                 in bindR (InitWithoutOpening file builder) (\<lambda>file.
                    bindR (meOSFileExists isFile file) (\<lambda>found.
                      if found then Inr builder else scan_loop isFile left file builder)))))))"

text \<open>
  Each round drops one directory, so the length of the path bounds the number of rounds.
\<close>

definition meFsScanOutForFile ::
    "(u8 list \<Rightarrow> u8 list option) \<Rightarrow> (u8 list \<Rightarrow> bool) \<Rightarrow> u8 list \<Rightarrow> u8 list result" where
  "meFsScanOutForFile full isFile fileStr =
     bindR (InitWithoutOpening OSFileReference_default fileStr) (\<lambda>file.
     bindR (meOSFileExists isFile file) (\<lambda>found.
       if found then Inr fileStr
       else bindR (meOSResolveRelativeToAbsPath full fileStr) (\<lambda>absPath.
            bindR (InitWithoutOpening file absPath) (\<lambda>file.
            bindR (meOSFileExists isFile file) (\<lambda>found.
              if found then Inr absPath
              else scan_loop isFile (Suc (length absPath)) file absPath)))))"

text \<open>A path by its directories and its file name, and the candidates the search tries.\<close>

definition path_of :: "u8 list list \<Rightarrow> u8 list \<Rightarrow> u8 list" where
  "path_of dirs name = concat (map (\<lambda>d. d @ [47]) dirs) @ name"

fun ancestors :: "u8 list list \<Rightarrow> u8 list \<Rightarrow> u8 list list" where
  "ancestors (d # c # rdirs) name = path_of (rev (c # rdirs)) name # ancestors (c # rdirs) name"
| "ancestors _ name = []"


text \<open>The normalised path has a slash for every backslash.\<close>

lemma separators_loop_map:
  assumes "sv_wf v" and "i + left = sv_len v"
  shows "\<exists>v'. separators_loop v i left = Inr v' \<and> sv_wf v' \<and>
    sv_str v' = take i (sv_str v) @ map (\<lambda>c. if c = 92 then 47 else c) (drop i (sv_str v))"
  using assms
proof (induction left arbitrary: v i)
  case 0
  then show ?case by simp
next
  case (Suc left)
  have i: "i < sv_len v" "i < length (sv_str v)" using Suc.prems by simp_all
  have dropped: "drop i (sv_str v) = sv_str v ! i # drop (Suc i) (sv_str v)"
    using i(2) by (simp add: Cons_nth_drop_Suc)
  have taken: "take (Suc i) (sv_str v) = take i (sv_str v) @ [sv_str v ! i]"
    using i(2) by (simp add: take_Suc_conv_app_nth)
  show ?case
  proof (cases "sv_str v ! i = 92")
    case True
    obtain w where w: "sv_index_put v i 47 = Inr w" "sv_wf w" "sv_str w = (sv_str v)[i := 47]" "sv_len w = sv_len v"
      using sv_index_put_ok[OF Suc.prems(1) i(1)] by blast
    then have "sv_put v i 47 = Inr w" using i(1) by (simp add: sv_index_put_def)
    moreover obtain v' where "separators_loop w (Suc i) left = Inr v'" "sv_wf v'"
      "sv_str v' = take (Suc i) (sv_str w) @ map (\<lambda>c. if c = 92 then 47 else c) (drop (Suc i) (sv_str w))"
      using Suc.IH[of w "Suc i"] Suc.prems w by auto
    ultimately show ?thesis
      using Suc.prems(1) i w True dropped
      by (intro exI[of _ v']) (simp add: sv_get_ok take_Suc_conv_app_nth)
  next
    case False
    then show ?thesis
      using Suc.IH[of v "Suc i"] Suc.prems i dropped taken by (auto simp: sv_get_ok)
  qed
qed

lemma meOSResolveRelativeToAbsPath_ok:
  assumes "full p = Some dst" and "length dst < ME_PATH_MAX"
  shows "meOSResolveRelativeToAbsPath full p = Inr (map (\<lambda>c. if c = 92 then 47 else c) dst)"
  using separators_loop_map[of "sv_of dst" 0 "length dst"] assms
  by (auto simp: meOSResolveRelativeToAbsPath_def meFsNormalizePathSeperators_def)

text \<open>The last separator of a path, and the last one at least a distance away from its end.\<close>

lemma dirSep_simps [simp]:
  "good_needle meFsGetDirectorySeperator" "sv_len meFsGetDirectorySeperator = 1"
  "sv_str meFsGetDirectorySeperator = [47]"
  by (simp_all add: meFsGetDirectorySeperator_def chars_def good_needle_def)

lemma occurs_sep: "occurs 0 h [47] j \<longleftrightarrow> j < length h \<and> h ! j = 47"
  by (cases "j < length h") (simp_all add: occurs_plain Cons_nth_drop_Suc[symmetric])

lemma last_sep_split:
  assumes "47 \<notin> set b" and "length (a @ 47 # b @ c) < 2147483648"
  shows "FindInStringRev (sv_of (a @ 47 # b @ c)) meFsGetDirectorySeperator (length c) 0 = Inr (int (length a))"
proof -
  let ?h = "a @ 47 # b @ c"
  have "last_upto (length ?h - 1 - length c) (occurs 0 ?h [47]) (length a)"
    unfolding last_upto_def occurs_sep
  proof (intro conjI allI impI)
    fix i assume i: "length a < i \<and> i \<le> length ?h - 1 - length c"
    then have "?h ! i = b ! (i - length a - 1)" by (auto simp: nth_append nth_Cons')
    moreover have "i - length a - 1 < length b" using i by auto
    ultimately show "\<not> (i < length ?h \<and> ?h ! i = 47)" using assms(1) by (metis nth_mem)
  qed auto
  then show ?thesis
    using find_last(1)[of "sv_of ?h" meFsGetDirectorySeperator "length c" 0 "length a"] assms(2) by simp
qed

lemma last_sep_none:
  assumes "47 \<notin> set b" and "length (b @ c) < 2147483648"
  shows "FindInStringRev (sv_of (b @ c)) meFsGetDirectorySeperator (length c) 0 = Inr (-1)"
proof (cases "b = []")
  case True
  then show ?thesis
    using assms(2) needle_empty_good[of meFsGetDirectorySeperator] by (simp add: FindInStringRev_def Let_def)
next
  case False
  let ?h = "b @ c"
  have "\<not> occurs 0 ?h [47] j" if "j \<le> length ?h - 1 - length c" for j
  proof -
    have "j < length b" using that False by (cases b) auto
    then have "b ! j \<noteq> 47" using assms(1) by (metis nth_mem)
    with \<open>j < length b\<close> show ?thesis by (simp add: occurs_sep nth_append)
  qed
  then show ?thesis
    using find_last(2)[of "sv_of ?h" meFsGetDirectorySeperator "length c" 0] assms(2) False
    by (cases b) auto
qed


text \<open>One round: the two last separators, and the path without the directory between them.\<close>

lemma path_of_two: "path_of (dirs @ [c, d]) name = path_of dirs c @ 47 # d @ 47 # name"
  by (simp add: path_of_def)

lemma path_of_one: "path_of (dirs @ [c]) name = path_of dirs c @ 47 # name"
  by (simp add: path_of_def)

lemma scan_loop_Nil [simp]: "scan_loop isFile (Suc left) file [] = Inr []"
  by simp

lemma scan_loop_round:
  fixes dirs :: "u8 list list" and c d name :: "u8 list"
  defines "p \<equiv> path_of (dirs @ [c, d]) name" and "q \<equiv> path_of (dirs @ [c]) name"
  assumes "47 \<notin> set d" and "47 \<notin> set name" and "length p < 2147483648"
  shows "scan_loop isFile (Suc left) file p =
    bindR (InitWithoutOpening file q) (\<lambda>file. bindR (meOSFileExists isFile file) (\<lambda>found.
      if found then Inr q else scan_loop isFile left file q))"
proof -
  let ?s = "path_of dirs c"
  have p: "p = ?s @ 47 # d @ 47 # name" by (simp add: p_def path_of_two)
  have lastEnd: "FindInStringRev (sv_of p) meFsGetDirectorySeperator 0 0 = Inr (int (length (?s @ 47 # d)))"
    using last_sep_split[of name "?s @ 47 # d" "[]"] assms(4,5) by (simp add: p)
  have lastStart: "FindInStringRev (sv_of p) meFsGetDirectorySeperator (Suc (length name)) 0 = Inr (int (length ?s))"
    using last_sep_split[of d ?s "47 # name"] assms(3,5) by (simp add: p)
  have left: "nat (int (length p) - int (length (?s @ 47 # d))) = Suc (length name)"
    by (simp add: p)
  have before: "sv_str (OffsetViewLen (sv_of p) 0 (length ?s)) = ?s"
    by (simp add: p OffsetViewLen_def sv_str_def sv_of_def)
  have after: "sv_str (OffsetView (sv_of p) (length (?s @ 47 # d))) = 47 # name"
    by (simp add: p sv_str_OffsetView)
  have q: "q = ?s @ 47 # name" by (simp add: q_def path_of_one)
  have "p \<noteq> []" by (simp add: p)
  then show ?thesis
    unfolding scan_loop.simps(2) Let_def lastEnd bindR_simps left lastStart nat_int before after q by simp
qed

lemma scan_loop_stops:
  assumes "47 \<notin> set c" and "47 \<notin> set name" and "length (path_of [c] name) < 2147483648"
  shows "scan_loop isFile (Suc left) file (path_of [c] name) = Inr []"
proof -
  have p: "path_of [c] name = c @ 47 # name" by (simp add: path_of_def)
  have "FindInStringRev (sv_of (c @ 47 # name)) meFsGetDirectorySeperator 0 0 = Inr (int (length c))"
    using last_sep_split[of name c "[]"] assms by (simp add: p)
  moreover have "FindInStringRev (sv_of (c @ 47 # name)) meFsGetDirectorySeperator (Suc (length name)) 0 = Inr (-1)"
    using last_sep_none[of c "47 # name"] assms by (simp add: p)
  moreover have "nat (int (length (c @ 47 # name)) - int (length c)) = Suc (length name)" by simp
  ultimately show ?thesis
    unfolding p scan_loop.simps(2) Let_def by (simp only: bindR_simps) simp
qed


lemma path_ok_shorter: "path_ok (path_of (dirs @ [c, d]) name) \<Longrightarrow> path_ok (path_of (dirs @ [c]) name)"
  by (auto simp: path_ok_def path_of_def)

lemma scan_loop_ancestors:
  assumes "list_all (\<lambda>d. 47 \<notin> set d) (name # rdirs)" and "path_ok (path_of (rev rdirs) name)"
    and "file_ok ref" and "length rdirs < left"
  shows "scan_loop isFile left ref (path_of (rev rdirs) name) =
    Inr (case find isFile (ancestors rdirs name) of None \<Rightarrow> [] | Some p \<Rightarrow> p)"
  using assms
proof (induction rdirs name arbitrary: left ref rule: ancestors.induct [case_names deeper none one])
  case (deeper d c rdirs name)
  let ?p = "path_of (rev rdirs @ [c, d]) name" and ?q = "path_of (rev rdirs @ [c]) name"
  obtain n where left: "left = Suc n" using deeper.prems(4) by (cases left) auto
  have p: "path_ok ?p" using deeper.prems(2) by simp
  then have q: "path_ok ?q" by (rule path_ok_shorter)
  obtain ref' where ref': "InitWithoutOpening ref ?q = Inr ref'" "file_ok ref'" "fr_cpath ref' = Inr ?q"
    using InitWithoutOpening_ok[OF deeper.prems(3) q] by blast
  have "scan_loop isFile left ref (path_of (rev (d # c # rdirs)) name) =
      (if isFile ?q then Inr ?q else scan_loop isFile n ref' ?q)"
    using scan_loop_round[of d name "rev rdirs" c isFile n ref] deeper.prems(1) p ref'
    by (simp add: left meOSFileExists_def path_ok_def ME_PATH_MAX_def)
  moreover have "scan_loop isFile n ref' ?q =
      Inr (case find isFile (ancestors (c # rdirs) name) of None \<Rightarrow> [] | Some p \<Rightarrow> p)"
    using deeper.IH[of ref' n] deeper.prems q ref' left by simp
  ultimately show ?case by simp
next
  case (none name)
  then obtain n where "left = Suc n" by (cases left) auto
  moreover have "name \<noteq> [] \<Longrightarrow> FindInStringRev (sv_of name) meFsGetDirectorySeperator 0 0 = Inr (-1)"
    using last_sep_none[of name "[]"] none.prems by (simp add: path_ok_def path_of_def ME_PATH_MAX_def)
  ultimately show ?case by (simp add: path_of_def)
next
  case (one c name)
  then obtain n where "left = Suc n" by (cases left) auto
  then show ?case using scan_loop_stops[of c name isFile n ref] one.prems by (simp add: path_ok_def ME_PATH_MAX_def)
qed

lemma length_path_of: "length dirs \<le> length (path_of dirs name)"
  by (induction dirs) (simp_all add: path_of_def)

text \<open>
  C37. The search for the user's configuration file: first the name as it is, then the absolute
  path, then that path with its innermost directory dropped, again and again; the first candidate
  that is a file is returned, and the empty string if none is. The search ends for every
  absolute path that fits the buffer.
\<close>

theorem meFsScanOutForFile_first:
  assumes "path_ok fileStr" and "full fileStr = Some dst"
    and "map (\<lambda>c. if c = 92 then 47 else c) dst = path_of (rev rdirs) name"
    and "list_all (\<lambda>d. 47 \<notin> set d) (name # rdirs)" and "path_ok (path_of (rev rdirs) name)"
  shows "meFsScanOutForFile full isFile fileStr =
    Inr (case find isFile (fileStr # path_of (rev rdirs) name # ancestors rdirs name) of None \<Rightarrow> [] | Some p \<Rightarrow> p)"
proof -
  let ?p = "path_of (rev rdirs) name"
  obtain ref where ref: "InitWithoutOpening OSFileReference_default fileStr = Inr ref" "file_ok ref"
      "fr_cpath ref = Inr fileStr"
    using InitWithoutOpening_ok[OF file_ok_default assms(1)] by blast
  obtain ref' where ref': "InitWithoutOpening ref ?p = Inr ref'" "file_ok ref'" "fr_cpath ref' = Inr ?p"
    using InitWithoutOpening_ok[OF ref(2) assms(5)] by blast
  have "length dst = length ?p" using arg_cong[OF assms(3), of length] by simp
  then have abs: "meOSResolveRelativeToAbsPath full fileStr = Inr ?p"
    using meOSResolveRelativeToAbsPath_ok[of full fileStr dst] assms(2,3,5) by (simp add: path_ok_def)
  have "length rdirs < Suc (length ?p)"
    using length_path_of[of "rev rdirs" name] by simp
  then show ?thesis
    using scan_loop_ancestors[OF assms(4,5) ref'(2), of "Suc (length ?p)" isFile] ref ref' abs
    by (simp add: meFsScanOutForFile_def meOSFileExists_def del: scan_loop.simps)
qed

text \<open>\<open>a\<close> is looked up as \<open>a\<close>, \<open>C/d/e/a\<close>, \<open>C/d/a\<close> and found as \<open>C/a\<close>.\<close>

theorem meFsScanOutForFile_first_witness:
  "meFsScanOutForFile (\<lambda>_. Some [67, 92, 100, 92, 101, 92, 97]) (\<lambda>p. p = [67, 47, 97]) [97] = Inr [67, 47, 97]"
proof -
  let ?dst = "[67, 92, 100, 92, 101, 92, 97] :: u8 list" and ?rdirs = "[[101], [100], [67]] :: u8 list list"
  have "path_ok [97]" by code_simp
  moreover have "map (\<lambda>c. if c = 92 then 47 else c) ?dst = path_of (rev ?rdirs) [97]" by code_simp
  moreover have "list_all (\<lambda>d. 47 \<notin> set d) ([97] # ?rdirs)" by code_simp
  moreover have "path_ok (path_of (rev ?rdirs) [97])" by code_simp
  ultimately have "meFsScanOutForFile (\<lambda>_. Some ?dst) (\<lambda>p. p = [67, 47, 97]) [97] =
      Inr (case find (\<lambda>p. p = [67, 47, 97]) ([97] # path_of (rev ?rdirs) [97] # ancestors ?rdirs [97]) of
        None \<Rightarrow> [] | Some p \<Rightarrow> p)"
    by (intro meFsScanOutForFile_first[of "[97]" "\<lambda>_. Some ?dst" ?dst ?rdirs "[97]"] refl)
  then show ?thesis by (simp add: path_of_def)
qed

end
