(* ===== verification/FileWrites.thy ===== *)
theory FileWrites
  imports Files StringBuilders
begin

text \<open>
  Opening, writing, moving and closing files (\<open>platform/windows/me_os_win.cpp\<close>): the loop that
  writes a buffer, and the write through a temporary file. The calls of the operating system are
  the fields of \<open>Win\<close>, functions on a state of the operating system; what is relied on of them
  is \<open>win_laws\<close>.
\<close>

section \<open>The operating system\<close>

datatype open_mode = OPEN_ALWAYS | OPEN_EXISTING | TRUNCATE_EXISTING | CREATE_ALWAYS

text \<open>The arguments the code varies: files are always shared for reading and nothing else.\<close>

record open_args =
  oa_readonly :: bool
  oa_mode :: open_mode
  oa_temporary :: bool
  oa_delete_on_close :: bool

record 'os Win =
  CreateFileA :: "u8 list \<Rightarrow> open_args \<Rightarrow> 'os \<Rightarrow> nat \<times> 'os"
  WriteFile :: "nat \<Rightarrow> u8 list \<Rightarrow> 'os \<Rightarrow> (bool \<times> nat) \<times> 'os"
  MoveFileExA :: "u8 list \<Rightarrow> u8 list \<Rightarrow> bool \<Rightarrow> 'os \<Rightarrow> bool \<times> 'os"
  CloseHandle :: "nat \<Rightarrow> 'os \<Rightarrow> bool \<times> 'os"

definition INVALID_HANDLE_VALUE :: nat where
  "INVALID_HANDLE_VALUE = 18446744073709551615"

definition OSFileFlags_OnlyIfExists :: u32 where "OSFileFlags_OnlyIfExists = 1"
definition OSFileFlags_StompExisting :: u32 where "OSFileFlags_StompExisting = 2"
definition OSFileFlags_ScopedFile :: u32 where "OSFileFlags_ScopedFile = 4"
definition OSFileFlags_DeleteOnFileClose :: u32 where "OSFileFlags_DeleteOnFileClose = 8"
definition OSFileFlags_IsDirectory :: u32 where "OSFileFlags_IsDirectory = 16"
definition OSFileFlags_ReadOnly :: u32 where "OSFileFlags_ReadOnly = 32"
definition OSFileFlags_Temporary :: u32 where "OSFileFlags_Temporary = 64"

definition flag_set :: "u32 \<Rightarrow> u32 \<Rightarrow> bool" where
  "flag_set flags flag \<longleftrightarrow> and flags flag \<noteq> 0"

section \<open>Operations on files\<close>

definition meOSOpenFile ::
    "'os Win \<Rightarrow> OSFileReference \<Rightarrow> u8 list \<Rightarrow> u32 \<Rightarrow> 'os \<Rightarrow> ((bool \<times> OSFileReference) \<times> 'os) result" where
  "meOSOpenFile win ref path flags os =
     bindR (path_copy (replicate ME_PATH_MAX 0) path) (\<lambda>buffer.
       let ref = ref\<lparr>fr_path := buffer\<rparr>;
           flags = or flags (fr_flags ref);
           openMode = (if flag_set flags OSFileFlags_OnlyIfExists
                       then (if flag_set flags OSFileFlags_StompExisting then TRUNCATE_EXISTING else OPEN_EXISTING)
                       else if flag_set flags OSFileFlags_StompExisting then CREATE_ALWAYS else OPEN_ALWAYS);
           args = \<lparr>oa_readonly = flag_set flags OSFileFlags_ReadOnly, oa_mode = openMode,
                   oa_temporary = flag_set flags OSFileFlags_Temporary,
                   oa_delete_on_close = flag_set flags OSFileFlags_DeleteOnFileClose\<rparr>
       in bindR (fr_cpath ref) (\<lambda>name.
          let (h, os) = CreateFileA win name args os;
              ref = ref\<lparr>fr_handle := h\<rparr>
          in if h = INVALID_HANDLE_VALUE then Inr ((False, ref), os)
             else Inr ((True, ref\<lparr>fr_flags := flags\<rparr>), os)))"

definition meOSCloseFile :: "'os Win \<Rightarrow> OSFileReference \<Rightarrow> 'os \<Rightarrow> (bool \<times> 'os) result" where
  "meOSCloseFile win ref os =
     ME_ASSERT (fr_handle ref \<noteq> 0 \<and> fr_handle ref \<noteq> INVALID_HANDLE_VALUE) (Inr (CloseHandle win (fr_handle ref) os))"

text \<open>The destructor.\<close>

definition OSFileReference_destroy :: "'os Win \<Rightarrow> OSFileReference \<Rightarrow> 'os \<Rightarrow> 'os result" where
  "OSFileReference_destroy win ref os =
     (if flag_set (fr_flags ref) OSFileFlags_ScopedFile
      then bindR (meOSCloseFile win ref os) (\<lambda>(closed, os). Inr os) else Inr os)"

text \<open>
  One round per call of \<open>WriteFile\<close>, for at most \<open>2^32 - 1\<close> bytes each. What was written counts
  up in a \<open>size_t\<close>: a call never reports more than it was asked to write, so it does not wrap.
\<close>

function write_loop :: "'os Win \<Rightarrow> nat \<Rightarrow> u8 list \<Rightarrow> nat \<Rightarrow> 'os \<Rightarrow> bool \<times> 'os" where
  "write_loop win h data totalWritten os =
     (if totalWritten < length data then
       (let thisWrite = MEMIN (length data - totalWritten) 4294967295;
            ((written, amtActuallyWritten), os) = WriteFile win h (take thisWrite (drop totalWritten data)) os
        in if \<not> written \<or> amtActuallyWritten = 0 then (False, os)
           else write_loop win h data (totalWritten + amtActuallyWritten) os)
      else (True, os))"
  by pat_completeness auto

termination
  by (relation "measure (\<lambda>(win, h, data, totalWritten, os). length data - totalWritten)") auto

declare write_loop.simps [simp del]

definition meOSWriteFileContent :: "'os Win \<Rightarrow> OSFileReference \<Rightarrow> u8 list \<Rightarrow> 'os \<Rightarrow> (bool \<times> 'os) result" where
  "meOSWriteFileContent win ref data os =
     ME_ASSERT (\<not> flag_set (fr_flags ref) OSFileFlags_ReadOnly) (Inr (write_loop win (fr_handle ref) data 0 os))"

definition meOSFileMove :: "'os Win \<Rightarrow> OSFileReference \<Rightarrow> OSFileReference \<Rightarrow> bool \<Rightarrow> 'os \<Rightarrow> (bool \<times> 'os) result" where
  "meOSFileMove win src dst failIfExists os =
     bindR (fr_cpath src) (\<lambda>from. bindR (fr_cpath dst) (\<lambda>to.
       Inr (MoveFileExA win from to (\<not> failIfExists) os)))"

text \<open>The decimal digits of a number, as \<open>%llu\<close> prints them.\<close>

fun decimal :: "nat \<Rightarrow> u8 list" where
  "decimal n = (if n < 10 then [of_nat (48 + n)] else decimal (n div 10) @ [of_nat (48 + n mod 10)])"

declare decimal.simps [simp del]

definition temp_path :: "u8 list \<Rightarrow> nat \<Rightarrow> u8 list" where
  "temp_path path timestamp = path @ chars ''.tmp.'' @ decimal timestamp"

text \<open>
  The write through a temporary file: \<open>timestamp\<close> is the system's clock. The destructors of the
  two references run at every return; that of the target has nothing to close.
\<close>

definition atomic_flags :: u32 where
  "atomic_flags = or (or (or OSFileFlags_StompExisting OSFileFlags_Temporary) OSFileFlags_DeleteOnFileClose)
     OSFileFlags_ScopedFile"

definition meOSWriteFileContentAtomic ::
    "'os Win \<Rightarrow> nat \<Rightarrow> u8 list \<Rightarrow> u8 list \<Rightarrow> 'os \<Rightarrow> (bool \<times> 'os) result" where
  "meOSWriteFileContentAtomic win timestamp path buffer os =
     ME_ASSERT (path \<noteq> [])
      (let tempPath = temp_path path timestamp
       in ME_ASSERT (length tempPath + 1 < MAX_TEXT_BUFFER_LENGTH)
        (if length tempPath \<ge> ME_PATH_MAX then Inr (False, os)
         else bindR (meOSOpenFile win OSFileReference_default tempPath atomic_flags os) (\<lambda>((opened, tempFile), os).
           if \<not> opened then bindR (OSFileReference_destroy win tempFile os) (\<lambda>os. Inr (False, os))
           else bindR (meOSWriteFileContent win tempFile buffer os) (\<lambda>(success, os).
             if \<not> success then bindR (OSFileReference_destroy win tempFile os) (\<lambda>os. Inr (False, os))
             else bindR (InitWithoutOpening OSFileReference_default path) (\<lambda>targetFile.
               bindR (meOSFileMove win tempFile targetFile False os) (\<lambda>(moved, os).
               bindR (OSFileReference_destroy win targetFile os) (\<lambda>os.
               bindR (OSFileReference_destroy win tempFile os) (\<lambda>os. Inr (moved, os)))))))))"

section \<open>What is relied on of the operating system\<close>

text \<open>
  \<open>disk\<close> is the content of the files, \<open>opened\<close> the open handles of the program: the path, the
  position of the next write and whether closing deletes the file. The laws are the documented
  behaviour of the calls with the arguments the code passes: a write puts some of the bytes at the
  position; a move either fails and changes nothing, or the file has no open handle and takes the
  place of the target - renaming needs delete access, and the code never opens a file with
  \<open>FILE_SHARE_DELETE\<close>; the last close of a file opened with \<open>FILE_FLAG_DELETE_ON_CLOSE\<close> deletes it.
\<close>

record open_handle =
  oh_path :: "u8 list"
  oh_pos :: nat
  oh_delete :: bool

definition overwrite :: "nat \<Rightarrow> u8 list \<Rightarrow> u8 list \<Rightarrow> u8 list" where
  "overwrite pos new old = take pos old @ new @ drop (pos + length new) old"

definition win_laws ::
    "'os Win \<Rightarrow> ('os \<Rightarrow> u8 list \<rightharpoonup> u8 list) \<Rightarrow> ('os \<Rightarrow> nat \<rightharpoonup> open_handle) \<Rightarrow> bool" where
  "win_laws win disk opened \<longleftrightarrow>
     (\<forall>p a os h os'. CreateFileA win p a os = (h, os') \<longrightarrow>
        (if h = INVALID_HANDLE_VALUE then disk os' = disk os \<and> opened os' = opened os
         else h \<noteq> 0 \<and> opened os h = None \<and>
              opened os' = (opened os)(h \<mapsto> \<lparr>oh_path = p, oh_pos = 0, oh_delete = oa_delete_on_close a\<rparr>) \<and>
              (\<exists>content. disk os' = (disk os)(p \<mapsto> content) \<and> (oa_mode a = CREATE_ALWAYS \<longrightarrow> content = [])))) \<and>
     (\<forall>h f chunk os ok n os'. opened os h = Some f \<and> WriteFile win h chunk os = ((ok, n), os') \<longrightarrow>
        n \<le> length chunk \<and> opened os' = (opened os)(h \<mapsto> f\<lparr>oh_pos := oh_pos f + n\<rparr>) \<and>
        disk os' = (disk os)(oh_path f \<mapsto> overwrite (oh_pos f) (take n chunk) (the (disk os (oh_path f))))) \<and>
     (\<forall>src dst replace os ok os'. MoveFileExA win src dst replace os = (ok, os') \<longrightarrow>
        opened os' = opened os \<and>
        (if ok then (\<forall>h f. opened os h = Some f \<longrightarrow> oh_path f \<noteq> src) \<and>
                    disk os' = ((disk os)(dst := disk os src))(src := None)
         else disk os' = disk os)) \<and>
     (\<forall>h f os ok os'. opened os h = Some f \<and> CloseHandle win h os = (ok, os') \<longrightarrow>
        opened os' = (opened os)(h := None) \<and>
        disk os' = (if oh_delete f \<and> (\<forall>h' f'. h' \<noteq> h \<and> opened os h' = Some f' \<longrightarrow> oh_path f' \<noteq> oh_path f)
                    then (disk os)(oh_path f := None) else disk os))"


lemmas win_create = win_laws_def[THEN iffD1, THEN conjunct1, rule_format]
lemmas win_write = win_laws_def[THEN iffD1, THEN conjunct2, THEN conjunct1, rule_format]
lemmas win_move = win_laws_def[THEN iffD1, THEN conjunct2, THEN conjunct2, THEN conjunct1, rule_format]
lemmas win_close = win_laws_def[THEN iffD1, THEN conjunct2, THEN conjunct2, THEN conjunct2, rule_format]

section \<open>Writing a buffer\<close>

lemma overwrite_0 [simp]: "overwrite 0 new [] = new"
  by (simp add: overwrite_def)

lemma overwrite_Nil [simp]: "pos \<le> length old \<Longrightarrow> overwrite pos [] old = old"
  by (simp add: overwrite_def)

lemma overwrite_more:
  assumes "pos \<le> length old" and "t + n \<le> length data"
  shows "overwrite (pos + t) (take n (drop t data)) (overwrite pos (take t data) old) = overwrite pos (take (t + n) data) old"
proof -
  have "take (pos + t) (overwrite pos (take t data) old) = take pos old @ take t data"
    using assms by (simp add: overwrite_def)
  moreover have "drop (pos + t + n) (overwrite pos (take t data) old) = drop (pos + t + n) old"
    using assms by (simp add: overwrite_def add.commute add.left_commute)
  ultimately show ?thesis
    using assms by (simp add: overwrite_def take_add add.assoc)
qed

lemma write_loop_spec:
  assumes "win_laws win disk opened" and "pos \<le> length old"
    and "opened os h = Some f" and "oh_pos f = pos + t" and "t \<le> length data"
    and "disk os (oh_path f) = Some (overwrite pos (take t data) old)"
  shows "\<exists>ok n os'. write_loop win h data t os = (ok, os') \<and> n \<le> length data \<and> (ok \<longrightarrow> n = length data) \<and>
    opened os' = (opened os)(h \<mapsto> f\<lparr>oh_pos := pos + n\<rparr>) \<and>
    disk os' = (disk os)(oh_path f \<mapsto> overwrite pos (take n data) old)"
  using assms(3-6)
proof (induction "length data - t" arbitrary: t os f rule: less_induct)
  case less
  show ?case
  proof (cases "t < length data")
    case False
    moreover have "f\<lparr>oh_pos := pos + length data\<rparr> = f" using less.prems False by (cases f) simp
    ultimately show ?thesis
      using less.prems by (intro exI[of _ True] exI[of _ "length data"] exI[of _ os])
        (simp add: write_loop.simps fun_upd_idem)
  next
    case True
    let ?chunk = "take (MEMIN (length data - t) 4294967295) (drop t data)"
    obtain ok n os1 where call: "WriteFile win h ?chunk os = ((ok, n), os1)" by (metis surj_pair)
    have n: "n \<le> length ?chunk" "opened os1 = (opened os)(h \<mapsto> f\<lparr>oh_pos := pos + (t + n)\<rparr>)"
      and "disk os1 = (disk os)(oh_path f \<mapsto> overwrite (pos + t) (take n ?chunk) (overwrite pos (take t data) old))"
      using win_write[OF assms(1), of os h f ?chunk ok n os1] call less.prems by (simp_all add: add.assoc)
    moreover have "take n ?chunk = take n (drop t data)" using n(1) by (simp add: min_absorb1)
    moreover have bound: "t + n \<le> length data" using n(1) True by auto
    ultimately have disk: "disk os1 = (disk os)(oh_path f \<mapsto> overwrite pos (take (t + n) data) old)"
      using overwrite_more[OF assms(2) bound] by simp
    show ?thesis
    proof (cases "\<not> ok \<or> n = 0")
      case stop: True
      then have "write_loop win h data t os = (False, os1)"
        using True call by (subst write_loop.simps) (simp add: Let_def)
      then show ?thesis using n(2) disk bound
        by (intro exI[of _ False] exI[of _ "t + n"] exI[of _ os1]) simp
    next
      case False
      then have step: "write_loop win h data t os = write_loop win h data (t + n) os1"
        using True call by (subst write_loop.simps) (simp add: Let_def)
      have "length data - (t + n) < length data - t" using False True by auto
      from less.hyps[OF this, of os1 "f\<lparr>oh_pos := pos + (t + n)\<rparr>"] n(2) disk bound
      obtain ok' n' os' where "write_loop win h data (t + n) os1 = (ok', os')" "n' \<le> length data"
        "ok' \<longrightarrow> n' = length data" "opened os' = (opened os1)(h \<mapsto> f\<lparr>oh_pos := pos + n'\<rparr>)"
        "disk os' = (disk os1)(oh_path f \<mapsto> overwrite pos (take n' data) old)"
        by auto
      then show ?thesis
        using n(2) disk by (intro exI[of _ ok'] exI[of _ n'] exI[of _ os']) (simp add: step)
    qed
  qed
qed

text \<open>
  C36. Writing a buffer to an open file always returns, however few bytes each call of the
  operating system takes. What it wrote is a prefix of the buffer, at the position of the handle
  and without gaps or repetitions; if it reports success, it is the whole buffer.
\<close>

theorem meOSWriteFileContent_writes:
  assumes "win_laws win disk opened" and "\<not> flag_set (fr_flags ref) OSFileFlags_ReadOnly"
    and "opened os (fr_handle ref) = Some f" and "disk os (oh_path f) = Some old" and "oh_pos f \<le> length old"
  shows "\<exists>ok n os'. meOSWriteFileContent win ref data os = Inr (ok, os') \<and> n \<le> length data \<and>
    (ok \<longrightarrow> n = length data) \<and> opened os' = (opened os)(fr_handle ref \<mapsto> f\<lparr>oh_pos := oh_pos f + n\<rparr>) \<and>
    disk os' = (disk os)(oh_path f \<mapsto> overwrite (oh_pos f) (take n data) old)"
  using write_loop_spec[OF assms(1,5,3), of 0 data] assms(2,4,5) by (auto simp: meOSWriteFileContent_def)


section \<open>The write through a temporary file\<close>

lemma decimal_digits:
  "0 \<notin> set (decimal n)" "n < 10 ^ Suc k \<Longrightarrow> length (decimal n) \<le> Suc k"
proof -
  have digit: "of_nat (48 + d) \<noteq> (0 :: u8)" if "d < 10" for d :: nat
    using that by (simp add: word_of_nat_eq_0_iff nat_dvd_not_less del: of_nat_add)
  show "0 \<notin> set (decimal n)"
  proof (induction n rule: decimal.induct)
    case (1 n)
    then show ?case using digit[of n] digit[of "n mod 10"] by (subst decimal.simps) (auto simp del: of_nat_add)
  qed
  show "length (decimal n) \<le> Suc k" if "n < 10 ^ Suc k"
    using that
  proof (induction k arbitrary: n)
    case 0
    then show ?case by (simp add: decimal.simps)
  next
    case (Suc k)
    have "n div 10 < 10 ^ Suc k" using Suc.prems by (simp add: less_mult_imp_div_less)
    from Suc.IH[OF this] show ?case by (subst decimal.simps) simp
  qed
qed

lemma temp_path_simps:
  "0 \<notin> set path \<Longrightarrow> 0 \<notin> set (temp_path path n)"
  "length (temp_path path n) = length path + 5 + length (decimal n)" "temp_path path n \<noteq> path"
proof -
  have "0 \<notin> set (chars ''.tmp.'')" by code_simp
  then show "0 \<notin> set path \<Longrightarrow> 0 \<notin> set (temp_path path n)"
    using decimal_digits(1) by (simp add: temp_path_def)
qed (simp_all add: temp_path_def)

lemma atomic_flags_simps [simp]:
  "flag_set atomic_flags OSFileFlags_OnlyIfExists = False" "flag_set atomic_flags OSFileFlags_StompExisting"
  "flag_set atomic_flags OSFileFlags_DeleteOnFileClose" "flag_set atomic_flags OSFileFlags_ScopedFile"
  "flag_set atomic_flags OSFileFlags_ReadOnly = False" "flag_set 0 flag = False"
proof -
  show "flag_set 0 flag = False" by (simp add: flag_set_def)
qed code_simp+

text \<open>Opening the temporary file: it is new, empty, and goes when it is closed.\<close>

lemma open_temp:
  assumes "win_laws win disk opened" and "path_ok temp"
  shows "\<exists>ok ref os'. meOSOpenFile win OSFileReference_default temp atomic_flags os = Inr ((ok, ref), os') \<and>
    (if ok then fr_flags ref = atomic_flags \<and> fr_cpath ref = Inr temp \<and> fr_handle ref \<noteq> 0 \<and>
       fr_handle ref \<noteq> INVALID_HANDLE_VALUE \<and> opened os (fr_handle ref) = None \<and>
       opened os' = (opened os)(fr_handle ref \<mapsto> \<lparr>oh_path = temp, oh_pos = 0, oh_delete = True\<rparr>) \<and>
       disk os' = (disk os)(temp \<mapsto> [])
     else fr_flags ref = 0 \<and> disk os' = disk os \<and> opened os' = opened os)"
proof -
  let ?args = "\<lparr>oa_readonly = False, oa_mode = CREATE_ALWAYS, oa_temporary = flag_set atomic_flags OSFileFlags_Temporary,
    oa_delete_on_close = True\<rparr>"
  let ?path = "temp @ 0 # drop (Suc (length temp)) (replicate ME_PATH_MAX 0)"
  obtain h os' where call: "CreateFileA win temp ?args os = (h, os')" by (metis surj_pair)
  have path: "path_copy (replicate ME_PATH_MAX 0) temp = Inr ?path" "cstring_loop ?path = Inr (length temp)"
    using path_copy_ok[of temp "replicate ME_PATH_MAX 0"] assms(2) by (simp_all add: path_ok_def cstring_loop_prefix)
  let ?ref = "\<lparr>fr_flags = 0, fr_handle = h, fr_path = ?path\<rparr>"
  have opens: "meOSOpenFile win OSFileReference_default temp atomic_flags os =
      Inr (if h = INVALID_HANDLE_VALUE then ((False, ?ref), os') else ((True, ?ref\<lparr>fr_flags := atomic_flags\<rparr>), os'))"
    using path call
    by (simp add: meOSOpenFile_def OSFileReference_default_def fr_cpath_def Let_def del: drop_replicate)
  have "fr_cpath ?ref = Inr temp" "fr_cpath (?ref\<lparr>fr_flags := atomic_flags\<rparr>) = Inr temp"
    using path(2) by (simp_all add: fr_cpath_def del: drop_replicate)
  then show ?thesis
    using opens win_create[OF assms(1) call] by (cases "h = INVALID_HANDLE_VALUE") auto
qed

text \<open>Closing it.\<close>

lemma close_temp:
  assumes "win_laws win disk opened" and "fr_flags ref = atomic_flags" and "fr_handle ref \<noteq> 0"
    and "fr_handle ref \<noteq> INVALID_HANDLE_VALUE"
    and "opened os (fr_handle ref) = Some f" and "oh_delete f"
  shows "\<exists>os'. OSFileReference_destroy win ref os = Inr os' \<and> opened os' = (opened os)(fr_handle ref := None) \<and>
    (\<forall>q. q \<noteq> oh_path f \<longrightarrow> disk os' q = disk os q)"
proof -
  obtain ok os' where call: "CloseHandle win (fr_handle ref) os = (ok, os')" by (metis surj_pair)
  with win_close[OF assms(1), of os "fr_handle ref" f ok os'] assms(2-5)
  show ?thesis by (auto simp: OSFileReference_destroy_def meOSCloseFile_def)
qed

text \<open>The file is closed, and every other file is as it was.\<close>

lemma close_written:
  assumes "win_laws win disk opened" and "fr_flags ref = atomic_flags" and "fr_handle ref \<noteq> 0"
    and "fr_handle ref \<noteq> INVALID_HANDLE_VALUE" and "opened os (fr_handle ref) = None"
    and "opened os1 = (opened os)(fr_handle ref \<mapsto> f)" and "oh_delete f" and "oh_path f = temp"
    and "disk os1 = (disk os)(temp \<mapsto> bytes)"
  shows "\<exists>os2. OSFileReference_destroy win ref os1 = Inr os2 \<and> opened os2 = opened os \<and>
    (\<forall>q. q \<noteq> temp \<longrightarrow> disk os2 q = disk os q)"
proof -
  obtain os2 where os2: "OSFileReference_destroy win ref os1 = Inr os2" "opened os2 = (opened os1)(fr_handle ref := None)"
    "\<forall>q. q \<noteq> temp \<longrightarrow> disk os2 q = disk os1 q"
    using close_temp[OF assms(1-4), of os1 f] assms(6-8) by auto
  moreover have "(opened os1)(fr_handle ref := None) = opened os" using assms(5,6) by (simp add: fun_upd_idem)
  ultimately show ?thesis using assms(9) by simp
qed

text \<open>The write once the temporary file is open: written or not, moved it is not.\<close>

lemma atomic_write_opened:
  assumes "win_laws win disk opened" and "path \<noteq> []" and "path_ok path"
    and "length (temp_path path timestamp) + 1 < MAX_TEXT_BUFFER_LENGTH" and "length (temp_path path timestamp) < ME_PATH_MAX"
    and "meOSOpenFile win OSFileReference_default (temp_path path timestamp) atomic_flags os = Inr ((True, ref), os1)"
    and ref: "fr_flags ref = atomic_flags" "fr_handle ref \<noteq> 0" "fr_handle ref \<noteq> INVALID_HANDLE_VALUE"
      "opened os (fr_handle ref) = None" "fr_cpath ref = Inr (temp_path path timestamp)"
    and os1: "opened os1 = (opened os)(fr_handle ref \<mapsto> \<lparr>oh_path = temp_path path timestamp, oh_pos = 0, oh_delete = True\<rparr>)"
      "disk os1 = (disk os)(temp_path path timestamp \<mapsto> [])"
  shows "\<exists>os'. meOSWriteFileContentAtomic win timestamp path buffer os = Inr (False, os') \<and> opened os' = opened os \<and>
    (\<forall>q. q \<noteq> temp_path path timestamp \<longrightarrow> disk os' q = disk os q)"
proof -
  let ?temp = "temp_path path timestamp" and ?f = "\<lparr>oh_path = temp_path path timestamp, oh_pos = 0, oh_delete = True\<rparr>"
  obtain ok n os2 where wr: "meOSWriteFileContent win ref buffer os1 = Inr (ok, os2)"
    "opened os2 = (opened os)(fr_handle ref \<mapsto> ?f\<lparr>oh_pos := n\<rparr>)"
    "disk os2 = (disk os)(?temp \<mapsto> overwrite 0 (take n buffer) [])"
    using write_loop_spec[OF assms(1), of 0 "[]" os1 "fr_handle ref" ?f 0 buffer] ref os1 atomic_flags_simps
    by (auto simp: meOSWriteFileContent_def overwrite_0)
  obtain target where target: "InitWithoutOpening OSFileReference_default path = Inr target"
    "fr_cpath target = Inr path" "fr_flags target = 0"
    using InitWithoutOpening_ok[OF file_ok_default assms(3)] by (auto simp: OSFileReference_default_def)
  obtain moved os3 where mv: "MoveFileExA win ?temp path True os2 = (moved, os3)" by (metis surj_pair)
  have same: "\<not> moved" "opened os3 = opened os2" "disk os3 = disk os2"
    using win_move[OF assms(1) mv] wr(2) by (auto split: if_splits)
  note close = close_written[OF assms(1) ref(1-4), where f = "?f\<lparr>oh_pos := n\<rparr>" and temp = ?temp]
  obtain os4 where "OSFileReference_destroy win ref os2 = Inr os4" "opened os4 = opened os"
      "\<forall>q. q \<noteq> ?temp \<longrightarrow> disk os4 q = disk os q" using close[OF wr(2) _ _ wr(3)] by auto
  moreover obtain os5 where "OSFileReference_destroy win ref os3 = Inr os5" "opened os5 = opened os"
      "\<forall>q. q \<noteq> ?temp \<longrightarrow> disk os5 q = disk os q" using close[of os3, OF same(2)[unfolded wr(2)] _ _ same(3)[unfolded wr(3)]] by auto
  ultimately show ?thesis using assms(2,4-6) wr(1) ref(5) target mv same(1)
    by (cases ok) (simp_all add: meOSWriteFileContentAtomic_def Let_def meOSFileMove_def OSFileReference_destroy_def[of _ target])
qed

text \<open>
  C35. The write through a temporary file never puts the new content in place: the temporary file
  is opened without sharing delete access and is still open when it should be renamed, so the
  rename fails. Every outcome is a failure, the target keeps what it was, every other file and
  every handle too, and the temporary file is closed.
\<close>

theorem atomic_write_never_lands:
  assumes "win_laws win disk opened" and "path \<noteq> []" and "path_ok path" and "timestamp < 2 ^ 64"
    and "\<forall>h f. opened os h = Some f \<longrightarrow> oh_path f \<noteq> temp_path path timestamp"
  shows "\<exists>os'. meOSWriteFileContentAtomic win timestamp path buffer os = Inr (False, os') \<and>
    disk os' path = disk os path \<and> (\<forall>q. q \<noteq> temp_path path timestamp \<longrightarrow> disk os' q = disk os q) \<and>
    opened os' = opened os"
proof -
  let ?temp = "temp_path path timestamp"
  have "length (decimal timestamp) \<le> 20" using decimal_digits(2)[of timestamp 19] assms(4) by simp
  then have fits: "length ?temp + 1 < MAX_TEXT_BUFFER_LENGTH"
    using assms(3) by (simp add: temp_path_simps path_ok_def ME_PATH_MAX_def MAX_TEXT_BUFFER_LENGTH_def)
  show ?thesis
  proof (cases "length ?temp < ME_PATH_MAX")
    case False
    then show ?thesis using assms(2) fits by (simp add: meOSWriteFileContentAtomic_def Let_def)
  next
    case True
    then have "path_ok ?temp" using assms(3) temp_path_simps(1) by (simp add: path_ok_def)
    then obtain opn ref os1 where opn: "meOSOpenFile win OSFileReference_default ?temp atomic_flags os = Inr ((opn, ref), os1)"
      "if opn then fr_flags ref = atomic_flags \<and> fr_cpath ref = Inr ?temp \<and> fr_handle ref \<noteq> 0 \<and>
         fr_handle ref \<noteq> INVALID_HANDLE_VALUE \<and> opened os (fr_handle ref) = None \<and>
         opened os1 = (opened os)(fr_handle ref \<mapsto> \<lparr>oh_path = ?temp, oh_pos = 0, oh_delete = True\<rparr>) \<and>
         disk os1 = (disk os)(?temp \<mapsto> [])
       else fr_flags ref = 0 \<and> disk os1 = disk os \<and> opened os1 = opened os"
      using open_temp[OF assms(1)] by blast
    have "\<exists>os'. meOSWriteFileContentAtomic win timestamp path buffer os = Inr (False, os') \<and> opened os' = opened os \<and>
        (\<forall>q. q \<noteq> ?temp \<longrightarrow> disk os' q = disk os q)"
    proof (cases opn)
      case False
      with opn assms(2) fits True show ?thesis
        by (simp add: meOSWriteFileContentAtomic_def Let_def OSFileReference_destroy_def)
    next
      case opened: True
      with opn(2) have ref: "fr_flags ref = atomic_flags" "fr_handle ref \<noteq> 0" "fr_handle ref \<noteq> INVALID_HANDLE_VALUE"
          "opened os (fr_handle ref) = None" "fr_cpath ref = Inr ?temp"
          "opened os1 = (opened os)(fr_handle ref \<mapsto> \<lparr>oh_path = ?temp, oh_pos = 0, oh_delete = True\<rparr>)"
          "disk os1 = (disk os)(?temp \<mapsto> [])" by simp_all
      from atomic_write_opened[OF assms(1-3) fits True _ ref] opened opn(1) show ?thesis by simp
    qed
    then show ?thesis using temp_path_simps(3)[of path timestamp] by (auto dest: sym)
  qed
qed


section \<open>A small operating system\<close>

text \<open>
  One open file at a time, writes of at most three bytes. It obeys the laws, so the theorems are
  about something.
\<close>

type_synonym small_os = "(u8 list \<rightharpoonup> u8 list) \<times> open_handle option"

definition small_opened :: "small_os \<Rightarrow> nat \<rightharpoonup> open_handle" where
  "small_opened os = (\<lambda>h. if h = 1 then snd os else None)"

definition small_win :: "small_os Win" where
  "small_win =
     \<lparr>CreateFileA = (\<lambda>p a (d, o1). case o1 of Some _ \<Rightarrow> (INVALID_HANDLE_VALUE, (d, o1))
        | None \<Rightarrow> (1, (d(p \<mapsto> if oa_mode a = CREATE_ALWAYS then [] else case d p of None \<Rightarrow> [] | Some c \<Rightarrow> c),
                      Some \<lparr>oh_path = p, oh_pos = 0, oh_delete = oa_delete_on_close a\<rparr>))),
      WriteFile = (\<lambda>h chunk (d, o1). case small_opened (d, o1) h of None \<Rightarrow> ((False, 0), (d, o1))
        | Some f \<Rightarrow> let n = min 3 (length chunk)
            in ((True, n), (d(oh_path f \<mapsto> overwrite (oh_pos f) (take n chunk) (the (d (oh_path f)))),
                            Some (f\<lparr>oh_pos := oh_pos f + n\<rparr>)))),
      MoveFileExA = (\<lambda>src dst replace (d, o1).
        if map_option oh_path o1 = Some src then (False, (d, o1)) else (True, ((d(dst := d src))(src := None), o1))),
      CloseHandle = (\<lambda>h (d, o1). case small_opened (d, o1) h of None \<Rightarrow> (False, (d, o1))
        | Some f \<Rightarrow> (True, (if oh_delete f then d(oh_path f := None) else d, None)))\<rparr>"

lemma small_win_laws: "win_laws small_win fst small_opened"
  unfolding win_laws_def small_win_def small_opened_def Let_def INVALID_HANDLE_VALUE_def
  by (intro conjI) (auto split: option.splits if_splits prod.splits)

theorem meOSWriteFileContent_writes_witness:
  "\<exists>os f. small_opened os 1 = Some f \<and> (\<exists>ok n os'. meOSWriteFileContent small_win
     (OSFileReference_default\<lparr>fr_handle := 1\<rparr>) [1, 2, 3, 4, 5] os = Inr (ok, os') \<and> n \<le> 5 \<and>
     small_opened os' = (small_opened os)(1 \<mapsto> f\<lparr>oh_pos := oh_pos f + n\<rparr>) \<and>
     fst os' = (fst os)(oh_path f \<mapsto> overwrite (oh_pos f) (take n [1, 2, 3, 4, 5]) [9, 8]))"
proof -
  let ?f = "\<lparr>oh_path = [97], oh_pos = 1, oh_delete = False\<rparr>"
  let ?os = "([[97] \<mapsto> [9, 8]], Some ?f) :: small_os"
  have "\<exists>ok n os'. meOSWriteFileContent small_win (OSFileReference_default\<lparr>fr_handle := 1\<rparr>) [1, 2, 3, 4, 5] ?os = Inr (ok, os') \<and>
      n \<le> length [1, 2, 3, 4, 5 :: u8] \<and> (ok \<longrightarrow> n = length [1, 2, 3, 4, 5 :: u8]) \<and>
      small_opened os' = (small_opened ?os)(fr_handle (OSFileReference_default\<lparr>fr_handle := 1\<rparr>) \<mapsto> ?f\<lparr>oh_pos := oh_pos ?f + n\<rparr>) \<and>
      fst os' = (fst ?os)(oh_path ?f \<mapsto> overwrite (oh_pos ?f) (take n [1, 2, 3, 4, 5]) [9, 8])"
    by (rule meOSWriteFileContent_writes[OF small_win_laws])
      (simp_all add: small_opened_def OSFileReference_default_def flag_set_def)
  moreover have "fr_handle (OSFileReference_default\<lparr>fr_handle := 1\<rparr>) = 1" "length [1, 2, 3, 4, 5 :: u8] = 5" by simp_all
  moreover have "small_opened ?os 1 = Some ?f" by (simp add: small_opened_def)
  moreover have "fst ?os = [[97] \<mapsto> [9, 8]]" by simp
  ultimately show ?thesis by metis
qed

theorem atomic_write_never_lands_witness:
  "\<exists>os'. meOSWriteFileContentAtomic small_win 7 [97] [1, 2] ([[97] \<mapsto> [9]], None) = Inr (False, os') \<and>
     fst os' [97] = Some [9] \<and> small_opened os' = small_opened ([[97] \<mapsto> [9]], None)"
proof -
  let ?os = "([[97] \<mapsto> [9]], None) :: small_os"
  have "\<forall>h f. small_opened ?os h = Some f \<longrightarrow> oh_path f \<noteq> temp_path [97] 7" by (simp add: small_opened_def)
  moreover have "path_ok [97]" by code_simp
  ultimately obtain os' where "meOSWriteFileContentAtomic small_win 7 [97] [1, 2] ?os = Inr (False, os')"
    "fst os' [97] = fst ?os [97]" "small_opened os' = small_opened ?os"
    using atomic_write_never_lands[OF small_win_laws, of "[97]" 7 ?os "[1, 2]"] by auto
  then show ?thesis by (intro exI[of _ os']) simp
qed

end
