(* ===== verification/Directories.thy ===== *)
theory Directories
  imports FileWrites
begin

text \<open>
  Directories: making all directories of a path (\<open>platform/windows/me_os_win.cpp\<close>), and the
  recursive walk of \<open>core/me_filesystem.cpp\<close> that finds the files of the resource directory.
\<close>

section \<open>Making the directories of a path\<close>

text \<open>
  \<open>DirectoryExists\<close> and \<open>CreateDirectoryA\<close>, which also answers whether the reason for a failure
  is \<open>ERROR_ALREADY_EXISTS\<close>.
\<close>

record 'os WinDirs =
  DirectoryExists :: "u8 list \<Rightarrow> 'os \<Rightarrow> bool"
  CreateDirectoryA :: "u8 list \<Rightarrow> 'os \<Rightarrow> (bool \<times> bool) \<times> 'os"

definition ensure_directory :: "'os WinDirs \<Rightarrow> u8 list \<Rightarrow> 'os \<Rightarrow> (bool \<times> 'os) result" where
  "ensure_directory win tempPath os =
     bindR (cstring_loop tempPath) (\<lambda>n.
       let path = take n tempPath
       in if DirectoryExists win path os then Inr (True, os)
          else let ((created, existed), os) = CreateDirectoryA win path os in Inr (created \<or> existed, os))"

text \<open>The separator is replaced by a terminator for the call and by a backslash afterwards.\<close>

fun create_loop :: "'os WinDirs \<Rightarrow> nat \<Rightarrow> nat \<Rightarrow> u8 list \<Rightarrow> 'os \<Rightarrow> ((bool \<times> u8 list) \<times> 'os) result" where
  "create_loop win p 0 tempPath os = Inl NoReturn"
| "create_loop win p (Suc left) tempPath os =
     bindR (readAt p tempPath) (\<lambda>c.
       if c = 0 then Inr ((True, tempPath), os)
       else if c = 92 \<or> c = 47 then
         bindR (writeAt p 0 tempPath) (\<lambda>terminated.
         bindR (ensure_directory win terminated os) (\<lambda>(ok, os).
           if \<not> ok then Inr ((False, terminated), os)
           else bindR (writeAt p 92 terminated) (\<lambda>tempPath. create_loop win (Suc p) left tempPath os)))
       else create_loop win (Suc p) left tempPath os)"

definition CreateRecursiveDirectory :: "'os WinDirs \<Rightarrow> u8 list \<Rightarrow> 'os \<Rightarrow> (bool \<times> 'os) result" where
  "CreateRecursiveDirectory win path os =
     (if length path \<ge> ME_PATH_MAX then Inr (False, os)
      else bindR (path_copy (replicate ME_PATH_MAX 0) path) (\<lambda>tempPath.
           bindR (readAt 0 tempPath) (\<lambda>c0. bindR (readAt 1 tempPath) (\<lambda>c1. bindR (readAt 2 tempPath) (\<lambda>c2.
             let p = (if c0 \<noteq> 0 \<and> c1 = 58 \<and> c2 = 92 then 3 else 0)
             in bindR (create_loop win p ME_PATH_MAX tempPath os) (\<lambda>((ok, tempPath), os).
                  if \<not> ok then Inr (False, os) else ensure_directory win tempPath os))))))"

section \<open>Reading directories\<close>

text \<open>
  What \<open>FindFirstFileA\<close> and \<open>FindNextFileA\<close> deliver for a query: nothing if there is no handle,
  otherwise the names with their directory bit, and whether the listing ended without an error.
\<close>

type_synonym listings = "u8 list \<Rightarrow> ((u8 list \<times> bool) list \<times> bool) option"

fun push_entries :: "(u8 list \<times> bool) list \<Rightarrow> OSFileReference list \<Rightarrow> OSFileReference list result" where
  "push_entries [] result = Inr result"
| "push_entries ((filename, isDirectory) # entries) result =
     bindR (StringCompare (sv_of filename) (LIT ''.'') 0) (\<lambda>here.
     bindR (StringCompare (sv_of filename) (LIT ''..'') 0) (\<lambda>up.
       if \<not> here \<and> \<not> up then
         bindR (InitWithoutOpening OSFileReference_default filename) (\<lambda>ref.
           push_entries entries
             (result @ [ref\<lparr>fr_flags := if isDirectory then or (fr_flags ref) OSFileFlags_IsDirectory else fr_flags ref\<rparr>]))
       else push_entries entries result))"

definition meOSReadDirectory ::
    "listings \<Rightarrow> OSFileReference \<Rightarrow> OSFileReference list \<Rightarrow> (bool \<times> OSFileReference list) result" where
  "meOSReadDirectory listing folder result =
     bindR (fr_cpath folder) (\<lambda>path.
       let folderQuery = path @ [92, 42]
       in ME_ASSERT (length folderQuery + 1 < MAX_TEXT_BUFFER_LENGTH)
         (case listing folderQuery of None \<Rightarrow> Inr (False, result)
          | Some (entries, complete) \<Rightarrow>
              bindR (push_entries entries result) (\<lambda>result. Inr (complete, result))))"

text \<open>
  The walk appends what it finds behind what is there already: first all entries of the directory,
  then, for every directory among them, what the walk of that directory finds. The recursion is
  on paths that grow, so \<open>ME_PATH_MAX\<close> levels are all there can be.
\<close>

definition walk_entry ::
    "(OSFileReference \<Rightarrow> OSFileReference list \<Rightarrow> (bool \<times> OSFileReference list) result) \<Rightarrow> u8 list \<Rightarrow> OSFileReference \<Rightarrow> bool \<Rightarrow>
     OSFileReference list \<Rightarrow> (bool \<times> OSFileReference list) result" where
  "walk_entry walk path ref success result =
     (if flag_set (fr_flags ref) OSFileFlags_IsDirectory
      then bindR (fr_cpath ref) (\<lambda>name.
           let fullPath = path @ fmt_str meFsGetDirectorySeperator @ name
           in ME_ASSERT (length fullPath + 1 < MAX_TEXT_BUFFER_LENGTH)
             (bindR (InitWithoutOpening OSFileReference_default fullPath) (\<lambda>fullRef.
              bindR (walk fullRef result) (\<lambda>(ok, result). Inr (success \<and> ok, result)))))
      else Inr (success, result))"

fun walk_entries ::
    "(OSFileReference \<Rightarrow> OSFileReference list \<Rightarrow> (bool \<times> OSFileReference list) result) \<Rightarrow> u8 list \<Rightarrow> nat \<Rightarrow> nat \<Rightarrow> bool \<Rightarrow>
     OSFileReference list \<Rightarrow> (bool \<times> OSFileReference list) result" where
  "walk_entries walk path index 0 success result = Inr (success, result)"
| "walk_entries walk path index (Suc left) success result =
     bindR (readAt index result) (\<lambda>ref.
     bindR (walk_entry walk path ref success result) (\<lambda>(success, result).
       walk_entries walk path (Suc index) left success result))"

primrec walk_level ::
    "nat \<Rightarrow> listings \<Rightarrow> OSFileReference \<Rightarrow> OSFileReference list \<Rightarrow> (bool \<times> OSFileReference list) result" where
  "walk_level 0 listing directory result = Inl NoReturn"
| "walk_level (Suc left) listing directory result =
     (let currentNum = length result
      in bindR (meOSReadDirectory listing directory result) (\<lambda>(success, result).
           if success
           then bindR (fr_cpath directory) (\<lambda>path.
                  walk_entries (walk_level left listing) path currentNum (length result - currentNum) success result)
           else Inr (success, result)))"

definition meFsRecursiveDirectoryWalk ::
    "listings \<Rightarrow> OSFileReference \<Rightarrow> OSFileReference list \<Rightarrow> (bool \<times> OSFileReference list) result" where
  "meFsRecursiveDirectoryWalk listing directory result = walk_level (Suc ME_PATH_MAX) listing directory result"

section \<open>Making directories makes them all\<close>

text \<open>
  The laws: a directory exists after it was made or found to exist - for the second, a file of
  that name will do - and none disappears.
\<close>

definition dir_laws :: "'os WinDirs \<Rightarrow> ('os \<Rightarrow> u8 list \<Rightarrow> bool) \<Rightarrow> bool" where
  "dir_laws win there \<longleftrightarrow>
     (\<forall>p os. DirectoryExists win p os \<longrightarrow> there os p) \<and>
     (\<forall>p os created existed os'. CreateDirectoryA win p os = ((created, existed), os') \<longrightarrow>
        (created \<or> existed \<longrightarrow> there os' p) \<and> (\<forall>q. there os q \<longrightarrow> there os' q))"

text \<open>The text up to a position, with the separators passed before turned around.\<close>

definition dir_prefix :: "nat \<Rightarrow> u8 list \<Rightarrow> nat \<Rightarrow> u8 list" where
  "dir_prefix start path n = take start path @ map (\<lambda>c. if c = 47 then 92 else c) (drop start (take n path))"

definition dir_prefixes :: "nat \<Rightarrow> u8 list \<Rightarrow> u8 list list" where
  "dir_prefixes start path =
     map (dir_prefix start path) (filter (\<lambda>n. path ! n = 47 \<or> path ! n = 92) [start..<length path] @ [length path])"


definition dir_start :: "u8 list \<Rightarrow> nat" where
  "dir_start path = (if length path \<ge> 3 \<and> path ! 1 = 58 \<and> path ! 2 = 92 then 3 else 0)"

lemma dir_prefix_Suc:
  assumes "start \<le> n" and "n < length path"
  shows "dir_prefix start path (Suc n) = dir_prefix start path n @ [if path ! n = 47 then 92 else path ! n]"
  using assms by (simp add: dir_prefix_def take_Suc_conv_app_nth)

lemma length_dir_prefix [simp]: "start \<le> n \<Longrightarrow> n \<le> length path \<Longrightarrow> length (dir_prefix start path n) = n"
  by (simp add: dir_prefix_def)

lemma dir_prefix_start [simp]: "dir_prefix start path start = take start path"
  by (simp add: dir_prefix_def)

lemma dir_prefix_clean: "0 \<notin> set path \<Longrightarrow> 0 \<notin> set (dir_prefix start path n)"
  by (auto simp: dir_prefix_def dest: in_set_takeD in_set_dropD)

lemma ensure_directory_spec:
  assumes "dir_laws win there" and "0 \<notin> set p"
  shows "\<exists>ok os'. ensure_directory win (p @ 0 # rest) os = Inr (ok, os') \<and> (ok \<longrightarrow> there os' p) \<and>
    (\<forall>q. there os q \<longrightarrow> there os' q)"
proof (cases "DirectoryExists win p os")
  case True
  then show ?thesis using assms
    by (intro exI[of _ True] exI[of _ os]) (simp add: ensure_directory_def cstring_loop_prefix dir_laws_def)
next
  case False
  obtain created existed os' where "CreateDirectoryA win p os = ((created, existed), os')" by (metis surj_pair)
  then show ?thesis
    using False assms by (auto simp: ensure_directory_def cstring_loop_prefix dir_laws_def)
qed

lemma create_loop_spec:
  assumes "dir_laws win there" and "0 \<notin> set path" and "start \<le> p" and "p \<le> length path" and "length path - p < left"
    and "list_all (there os) (map (dir_prefix start path) (filter (\<lambda>n. path ! n = 47 \<or> path ! n = 92) [start..<p]))"
  shows "\<exists>ok temp os'. create_loop win p left (dir_prefix start path p @ drop p path @ 0 # zeros) os = Inr ((ok, temp), os') \<and>
    (ok \<longrightarrow> temp = dir_prefix start path (length path) @ 0 # zeros \<and>
       list_all (there os') (map (dir_prefix start path) (filter (\<lambda>n. path ! n = 47 \<or> path ! n = 92) [start..<length path]))) \<and>
    (\<forall>q. there os q \<longrightarrow> there os' q)"
  using assms(3-6)
proof (induction left arbitrary: p os)
  case (Suc left)
  let ?pre = "dir_prefix start path p"
  have len: "length ?pre = p" using Suc.prems by simp
  show ?case
  proof (cases "p < length path")
    case False
    then have "p = length path" using Suc.prems by simp
    then show ?thesis using Suc.prems len by (intro exI[of _ True]) (simp add: readAt_def nth_append)
  next
    case True
    then have split: "drop p path = path ! p # drop (Suc p) path" by (simp add: Cons_nth_drop_Suc)
    then have read: "readAt p (?pre @ drop p path @ 0 # zeros) = Inr (path ! p)"
      using len by (simp add: readAt_def nth_append)
    have nz: "path ! p \<noteq> 0" using assms(2) True by (metis nth_mem)
    have filt: "filter (\<lambda>n. path ! n = 47 \<or> path ! n = 92) [start..<Suc p] =
        filter (\<lambda>n. path ! n = 47 \<or> path ! n = 92) [start..<p] @ (if path ! p = 47 \<or> path ! p = 92 then [p] else [])"
      using Suc.prems(1) by simp
    show ?thesis
    proof (cases "path ! p = 92 \<or> path ! p = 47")
      case False
      then have same: "dir_prefix start path (Suc p) @ drop (Suc p) path @ 0 # zeros = ?pre @ drop p path @ 0 # zeros"
        using dir_prefix_Suc[OF Suc.prems(1) True] split by simp
      have step: "create_loop win p (Suc left) (?pre @ drop p path @ 0 # zeros) os =
          create_loop win (Suc p) left (?pre @ drop p path @ 0 # zeros) os"
        using read nz False by simp
      have "start \<le> Suc p" "Suc p \<le> length path" "length path - Suc p < left" using Suc.prems True by auto
      moreover have "list_all (there os) (map (dir_prefix start path) (filter (\<lambda>n. path ! n = 47 \<or> path ! n = 92) [start..<Suc p]))"
        using Suc.prems(4) filt False by auto
      ultimately show ?thesis unfolding step by (rule Suc.IH[of "Suc p" os, unfolded same])
    next
      case sep: True
      have cut: "writeAt p 0 (?pre @ drop p path @ 0 # zeros) = Inr (?pre @ 0 # drop (Suc p) path @ 0 # zeros)"
        using split len by (simp add: writeAt_def list_update_append)
      have restore: "writeAt p 92 (?pre @ 0 # drop (Suc p) path @ 0 # zeros) =
          Inr (dir_prefix start path (Suc p) @ drop (Suc p) path @ 0 # zeros)"
        using dir_prefix_Suc[OF Suc.prems(1) True] len sep by (auto simp: writeAt_def list_update_append)
      obtain ok os1 where ens: "ensure_directory win (?pre @ 0 # drop (Suc p) path @ 0 # zeros) os = Inr (ok, os1)"
        "ok \<longrightarrow> there os1 ?pre" "\<forall>q. there os q \<longrightarrow> there os1 q"
        using ensure_directory_spec[OF assms(1) dir_prefix_clean[OF assms(2)]] by blast
      show ?thesis
      proof (cases ok)
        case False
        then show ?thesis using read nz sep cut ens by auto
      next
        case True
        have "list_all (there os1) (map (dir_prefix start path) (filter (\<lambda>n. path ! n = 47 \<or> path ! n = 92) [start..<Suc p]))"
          using Suc.prems(4) ens True sep filt by (auto simp: list_all_iff)
        from Suc.IH[OF _ _ _ this] Suc.prems \<open>p < length path\<close>
        obtain ok' temp os' where "create_loop win (Suc p) left (dir_prefix start path (Suc p) @ drop (Suc p) path @ 0 # zeros) os1 =
            Inr ((ok', temp), os')"
          "ok' \<longrightarrow> temp = dir_prefix start path (length path) @ 0 # zeros \<and>
            list_all (there os') (map (dir_prefix start path) (filter (\<lambda>n. path ! n = 47 \<or> path ! n = 92) [start..<length path]))"
          "\<forall>q. there os1 q \<longrightarrow> there os' q"
          by fastforce
        then show ?thesis using read nz sep cut ens True restore by auto
      qed
    qed
  qed
qed simp

text \<open>
  Making the directories of a path visits its separators from left to right behind the drive,
  with slashes turned into backslashes. If it reports success, every directory on the way and the
  path itself are there; directories that were there stay. It always returns.
\<close>

theorem CreateRecursiveDirectory_makes_all:
  assumes "dir_laws win there" and "path_ok path"
  shows "\<exists>ok os'. CreateRecursiveDirectory win path os = Inr (ok, os') \<and>
    (ok \<longrightarrow> list_all (there os') (dir_prefixes (dir_start path) path)) \<and> (\<forall>q. there os q \<longrightarrow> there os' q)"
proof -
  let ?start = "dir_start path" and ?temp = "path @ replicate (ME_PATH_MAX - length path) 0"
  have clean: "0 \<notin> set path" and short: "length path < ME_PATH_MAX" using assms(2) by (simp_all add: path_ok_def)
  have temp: "?temp = path @ 0 # replicate (ME_PATH_MAX - Suc (length path)) 0" (is "_ = _ @ 0 # ?zeros")
    using short by (simp add: Suc_diff_Suc flip: replicate_Suc)
  have copy: "path_copy (replicate ME_PATH_MAX 0) path = Inr ?temp"
    using path_copy_ok[of path "replicate ME_PATH_MAX 0"] short temp by simp
  have reads: "readAt i ?temp = Inr (?temp ! i)" if "i < 3" for i
    using that short by (simp add: readAt_def ME_PATH_MAX_def)
  have beyond: "?temp ! i = 0" if "length path \<le> i" "i < 3" for i
    using that short by (simp add: nth_append ME_PATH_MAX_def)
  have start: "(if ?temp ! 0 \<noteq> 0 \<and> ?temp ! 1 = 58 \<and> ?temp ! 2 = 92 then 3 else 0) = ?start"
  proof (cases "length path \<ge> 3")
    case True
    then have "path ! 0 \<noteq> 0" using clean by (metis length_greater_0_conv list.size(3) not_numeral_le_zero nth_mem)
    moreover have "?temp ! i = path ! i" if "i < 3" for i using that True by (simp add: nth_append)
    ultimately show ?thesis using True by (simp add: dir_start_def)
  next
    case False
    then show ?thesis using beyond[of 2] by (simp add: dir_start_def)
  qed
  have le: "?start \<le> length path" by (simp add: dir_start_def)
  have pre: "dir_prefix ?start path ?start @ drop ?start path @ 0 # ?zeros = ?temp"
    unfolding temp by (simp only: dir_prefix_start append_assoc[symmetric] append_take_drop_id)
  have bound: "length path - ?start < ME_PATH_MAX" using short by simp
  have none: "list_all (there os) (map (dir_prefix ?start path) (filter (\<lambda>n. path ! n = 47 \<or> path ! n = 92) [?start..<?start]))"
    by simp
  obtain ok temp' os1 where loop: "create_loop win ?start ME_PATH_MAX ?temp os = Inr ((ok, temp'), os1)"
    "ok \<longrightarrow> temp' = dir_prefix ?start path (length path) @ 0 # ?zeros \<and>
       list_all (there os1) (map (dir_prefix ?start path) (filter (\<lambda>n. path ! n = 47 \<or> path ! n = 92) [?start..<length path]))"
    "\<forall>q. there os q \<longrightarrow> there os1 q"
    using create_loop_spec[OF assms(1) clean order.refl le bound none, of ?zeros, unfolded pre] by blast
  have unfold: "CreateRecursiveDirectory win path os =
      (if \<not> ok then Inr (False, os1) else ensure_directory win temp' os1)"
    using short by (simp only: CreateRecursiveDirectory_def copy bindR_simps reads start Let_def loop(1)) simp
  show ?thesis
  proof (cases ok)
    case False
    then show ?thesis using unfold loop(3) by (intro exI[of _ False] exI[of _ os1]) simp
  next
    case True
    obtain ok' os2 where "ensure_directory win temp' os1 = Inr (ok', os2)"
      "ok' \<longrightarrow> there os2 (dir_prefix ?start path (length path))" "\<forall>q. there os1 q \<longrightarrow> there os2 q"
      using ensure_directory_spec[OF assms(1) dir_prefix_clean[OF clean]] loop(2) True by blast
    then show ?thesis
      using unfold loop(2,3) True by (auto simp: dir_prefixes_def list_all_iff)
  qed
qed


text \<open>\<open>C:\a/b\<close> where nothing but the drive exists.\<close>

definition small_dirs :: "u8 list list WinDirs" where
  "small_dirs = \<lparr>DirectoryExists = (\<lambda>p ds. p \<in> set ds), CreateDirectoryA = (\<lambda>p ds. ((True, False), p # ds))\<rparr>"

theorem CreateRecursiveDirectory_makes_all_witness:
  "\<exists>ds. CreateRecursiveDirectory small_dirs [67, 58, 92, 97, 47, 98] [] = Inr (True, ds) \<and>
     list_all (\<lambda>p. p \<in> set ds) [[67, 58, 92, 97], [67, 58, 92, 97, 92, 98]]"
proof -
  let ?path = "[67, 58, 92, 97, 47, 98] :: u8 list"
  have "dir_laws small_dirs (\<lambda>ds p. p \<in> set ds)" by (simp add: dir_laws_def small_dirs_def)
  moreover have "path_ok ?path" by code_simp
  ultimately obtain ok ds where run: "CreateRecursiveDirectory small_dirs ?path [] = Inr (ok, ds)"
    "ok \<longrightarrow> list_all (\<lambda>p. p \<in> set ds) (dir_prefixes (dir_start ?path) ?path)"
    using CreateRecursiveDirectory_makes_all[of small_dirs "\<lambda>ds p. p \<in> set ds" ?path "[]"] by blast
  have "\<exists>ds. CreateRecursiveDirectory small_dirs ?path [] = Inr (True, ds)"
    unfolding small_dirs_def CreateRecursiveDirectory_def by (rule exI, code_simp)
  moreover have "dir_prefixes (dir_start ?path) ?path = [[67, 58, 92, 97], [67, 58, 92, 97, 92, 98]]" by code_simp
  ultimately show ?thesis using run by auto
qed

section \<open>The walk finds bare names\<close>

definition name_ok :: "u8 list \<Rightarrow> bool" where
  "name_ok n \<longleftrightarrow> n \<noteq> [] \<and> path_ok n \<and> 47 \<notin> set n \<and> 92 \<notin> set n"

text \<open>What the operating system documents of names: they are not empty, fit, and hold no separator.\<close>

definition names_ok :: "listings \<Rightarrow> bool" where
  "names_ok listing \<longleftrightarrow> (\<forall>query entries complete. listing query = Some (entries, complete) \<longrightarrow> list_all (name_ok \<circ> fst) entries)"

definition ref_entry :: "OSFileReference \<Rightarrow> u8 list \<times> bool" where
  "ref_entry ref = (case fr_cpath ref of Inr n \<Rightarrow> n | Inl e \<Rightarrow> [], flag_set (fr_flags ref) OSFileFlags_IsDirectory)"

definition found_ok :: "OSFileReference \<Rightarrow> bool" where
  "found_ok ref \<longleftrightarrow> fr_cpath ref = Inr (fst (ref_entry ref)) \<and> name_ok (fst (ref_entry ref))"

abbreviation no_dots :: "(u8 list \<times> bool) list \<Rightarrow> (u8 list \<times> bool) list" where
  "no_dots \<equiv> filter (\<lambda>(n, d). n \<noteq> chars ''.'' \<and> n \<noteq> chars ''..'')"

lemma StringCompare_lit: "StringCompare (sv_of n) (STRING_LIT t) 0 = Inr (n = t)"
  using StringCompare_spec[of "sv_of n" "STRING_LIT t" 0] by simp

lemma flag_directory [simp]:
  "flag_set 0 OSFileFlags_IsDirectory = False" "flag_set OSFileFlags_IsDirectory OSFileFlags_IsDirectory"
  by code_simp+

lemma push_entries_spec:
  assumes "list_all (name_ok \<circ> fst) entries"
  shows "\<exists>refs. push_entries entries result = Inr (result @ refs) \<and> map ref_entry refs = no_dots entries \<and> list_all found_ok refs"
  using assms
proof (induction entries arbitrary: result)
  case (Cons e entries)
  obtain n d where e: "e = (n, d)" by (cases e)
  show ?case
  proof (cases "n = chars ''.'' \<or> n = chars ''..''")
    case True
    then show ?thesis using Cons.IH[of result] Cons.prems e by (auto simp: StringCompare_lit)
  next
    case False
    have n: "name_ok n" "path_ok n" using Cons.prems e by (simp_all add: name_ok_def)
    obtain ref where ref: "InitWithoutOpening OSFileReference_default n = Inr ref" "fr_cpath ref = Inr n" "fr_flags ref = 0"
      using InitWithoutOpening_ok[OF file_ok_default n(2)] by (auto simp: OSFileReference_default_def)
    let ?ref = "ref\<lparr>fr_flags := if d then or (fr_flags ref) OSFileFlags_IsDirectory else fr_flags ref\<rparr>"
    have "fr_cpath ?ref = Inr n" using ref(2) by (simp add: fr_cpath_def)
    then have "ref_entry ?ref = (n, d)" "found_ok ?ref"
      using n(1) ref(3) by (simp_all add: ref_entry_def found_ok_def)
    moreover obtain refs where "push_entries entries (result @ [?ref]) = Inr ((result @ [?ref]) @ refs)"
      "map ref_entry refs = no_dots entries" "list_all found_ok refs"
      using Cons.IH[of "result @ [?ref]"] Cons.prems by auto
    ultimately show ?thesis
      using False ref(1) e by (intro exI[of _ "?ref # refs"]) (simp add: StringCompare_lit)
  qed
qed simp

lemma read_directory_found:
  assumes "names_ok listing" and "meOSReadDirectory listing folder result = Inr (ok, result')"
  shows "\<exists>refs. result' = result @ refs \<and> list_all found_ok refs"
proof -
  obtain path where path: "fr_cpath folder = Inr path" using assms(2) by (auto simp: meOSReadDirectory_def bindR_Inr)
  show ?thesis
  proof (cases "listing (path @ [92, 42])")
    case None
    then show ?thesis using assms(2) path by (simp add: meOSReadDirectory_def Let_def ME_ASSERT_Inr)
  next
    case (Some a)
    then obtain entries complete where l: "listing (path @ [92, 42]) = Some (entries, complete)" by (cases a) auto
    then have "list_all (name_ok \<circ> fst) entries" using assms(1) unfolding names_ok_def by blast
    from push_entries_spec[OF this, of result] obtain refs where
      "push_entries entries result = Inr (result @ refs)" "list_all found_ok refs" by blast
    then show ?thesis using assms(2) path l by (auto simp: meOSReadDirectory_def Let_def ME_ASSERT_Inr)
  qed
qed

lemma walk_entries_found:
  assumes walk: "\<And>dir result ok result'. walk dir result = Inr (ok, result') \<Longrightarrow> \<exists>refs. result' = result @ refs \<and> list_all found_ok refs"
  shows "walk_entries walk path index left success result = Inr (ok, result') \<Longrightarrow>
    \<exists>refs. result' = result @ refs \<and> list_all found_ok refs"
proof (induction left arbitrary: index success result)
  case (Suc left)
  obtain ref success1 result1 where step:
    "walk_entry walk path ref success result = Inr (success1, result1)"
    and rest: "walk_entries walk path (Suc index) left success1 result1 = Inr (ok, result')"
    using Suc.prems by (auto simp only: walk_entries.simps elim!: bindR_InrE)
  have "\<exists>refs. result1 = result @ refs \<and> list_all found_ok refs"
  proof (cases "flag_set (fr_flags ref) OSFileFlags_IsDirectory")
    case True
    with step obtain dir ok1 where "walk dir result = Inr (ok1, result1)"
      by (auto simp: walk_entry_def Let_def result_Inr)
    then show ?thesis by (rule walk)
  next
    case False
    with step show ?thesis by (simp add: walk_entry_def)
  qed
  then show ?case using Suc.IH[OF rest] by auto
qed simp

lemma walk_level_found:
  assumes "names_ok listing"
  shows "walk_level left listing dir result = Inr (ok, result') \<Longrightarrow> \<exists>refs. result' = result @ refs \<and> list_all found_ok refs"
proof (induction left arbitrary: dir result ok result')
  case (Suc left)
  obtain success result1 where read: "meOSReadDirectory listing dir result = Inr (success, result1)"
    using Suc.prems by (auto simp: Let_def bindR_Inr)
  from read_directory_found[OF assms read] obtain refs where refs: "result1 = result @ refs" "list_all found_ok refs" by blast
  show ?case
  proof (cases success)
    case False
    then have "result' = result1" using Suc.prems read by (simp add: Let_def)
    then show ?thesis using refs by blast
  next
    case True
    then obtain path where "walk_entries (walk_level left listing) path (length result) (length result1 - length result) True result1 =
        Inr (ok, result')"
      using Suc.prems read by (auto simp: Let_def bindR_Inr)
    from walk_entries_found[OF Suc.IH this] refs show ?thesis by fastforce
  qed
qed simp


section \<open>The walk finds everything\<close>

datatype dirtree = Dir "(u8 list \<times> dirtree option) list"

fun tree_entries :: "dirtree \<Rightarrow> (u8 list \<times> bool) list" where
  "tree_entries (Dir es) = map (\<lambda>(n, sub). (n, sub \<noteq> None)) es"

text \<open>All entries of a directory, then those of its directories one after the other.\<close>

fun tree_listing :: "dirtree \<Rightarrow> (u8 list \<times> bool) list" where
  "tree_listing (Dir es) = map (\<lambda>(n, sub). (n, sub \<noteq> None)) es @
     concat (map (\<lambda>(n, sub). case sub of None \<Rightarrow> [] | Some t \<Rightarrow> tree_listing t) es)"

text \<open>The directory at a path is such a tree, and the paths in it fit the buffer.\<close>

fun dir_holds :: "listings \<Rightarrow> u8 list \<Rightarrow> dirtree \<Rightarrow> bool" where
  "dir_holds listing path (Dir es) \<longleftrightarrow>
     path_ok path \<and>
     (case listing (path @ [92, 42]) of None \<Rightarrow> False
      | Some (entries, complete) \<Rightarrow> complete \<and> list_all (name_ok \<circ> fst) entries \<and> no_dots entries = tree_entries (Dir es)) \<and>
     list_all (\<lambda>(n, sub). case sub of None \<Rightarrow> True | Some t \<Rightarrow> dir_holds listing (path @ 47 # n) t) es"

lemma dir_holds_path: "dir_holds listing path t \<Longrightarrow> path_ok path"
  by (cases t) simp

lemma separator_text [simp]: "fmt_str meFsGetDirectorySeperator = [47]"
  by (simp add: fmt_str_def)

lemma walk_entries_tree:
  assumes "length refs = length es" and "map ref_entry refs = map (\<lambda>(n, sub). (n, sub \<noteq> None)) es"
    and "list_all found_ok refs" and "\<forall>j<length refs. index + j < length result \<and> result ! (index + j) = refs ! j"
    and "list_all (\<lambda>(n, sub). case sub of None \<Rightarrow> True | Some t \<Rightarrow> dir_holds listing (path @ 47 # n) t) es"
    and "\<And>n t dir result. (n, Some t) \<in> set es \<Longrightarrow> dir_holds listing (path @ 47 # n) t \<Longrightarrow> file_ok dir \<Longrightarrow> fr_cpath dir = Inr (path @ 47 # n) \<Longrightarrow>
      \<exists>more. walk dir result = Inr (True, result @ more) \<and> map ref_entry more = tree_listing t"
  shows "\<exists>more. walk_entries walk path index (length refs) True result = Inr (True, result @ more) \<and>
    map ref_entry more = concat (map (\<lambda>(n, sub). case sub of None \<Rightarrow> [] | Some t \<Rightarrow> tree_listing t) es)"
  using assms
proof (induction refs es arbitrary: index result rule: list_induct2')
  case (4 ref refs e es)
  obtain n sub where e: "e = (n, sub)" by (cases e)
  have here: "readAt index result = Inr ref" using "4.prems"(4) by (force simp: readAt_def)
  have ref: "ref_entry ref = (n, sub \<noteq> None)" "fr_cpath ref = Inr n"
    using "4.prems"(2,3) e by (auto simp: found_ok_def)
  have "\<exists>more. walk_entry walk path ref True result = Inr (True, result @ more) \<and>
    map ref_entry more = (case sub of None \<Rightarrow> [] | Some t \<Rightarrow> tree_listing t)"
  proof (cases sub)
    case None
    then show ?thesis using ref(1) by (simp add: ref_entry_def walk_entry_def)
  next
    case (Some t)
    have t: "dir_holds listing (path @ 47 # n) t" using "4.prems"(5) e Some by simp
    then have ok: "path_ok (path @ 47 # n)" by (rule dir_holds_path)
    obtain dir where dir: "InitWithoutOpening OSFileReference_default (path @ 47 # n) = Inr dir" "file_ok dir"
      "fr_cpath dir = Inr (path @ 47 # n)"
      using InitWithoutOpening_ok[OF file_ok_default ok] by blast
    have "length (path @ 47 # n) + 1 < MAX_TEXT_BUFFER_LENGTH"
      using ok by (simp add: path_ok_def ME_PATH_MAX_def MAX_TEXT_BUFFER_LENGTH_def)
    moreover have "flag_set (fr_flags ref) OSFileFlags_IsDirectory" using ref(1) Some by (simp add: ref_entry_def)
    moreover obtain more where "walk dir result = Inr (True, result @ more)" "map ref_entry more = tree_listing t"
      using "4.prems"(6)[of n t dir result] t dir(2,3) e Some by auto
    ultimately show ?thesis using ref(2) dir(1) Some by (intro exI[of _ more]) (simp add: walk_entry_def)
  qed
  then obtain more where more: "walk_entry walk path ref True result = Inr (True, result @ more)"
    "map ref_entry more = (case sub of None \<Rightarrow> [] | Some t \<Rightarrow> tree_listing t)" by blast
  have rest: "\<forall>j<length refs. Suc index + j < length (result @ more) \<and> (result @ more) ! (Suc index + j) = refs ! j"
  proof (intro allI impI)
    fix j assume "j < length refs"
    then have "index + Suc j < length result \<and> result ! (index + Suc j) = (ref # refs) ! Suc j"
      using "4.prems"(4) by (auto simp del: nth_Cons_Suc)
    then show "Suc index + j < length (result @ more) \<and> (result @ more) ! (Suc index + j) = refs ! j"
      by (simp add: nth_append)
  qed
  have "\<exists>more'. walk_entries walk path (Suc index) (length refs) True (result @ more) = Inr (True, (result @ more) @ more') \<and>
    map ref_entry more' = concat (map (\<lambda>(n, sub). case sub of None \<Rightarrow> [] | Some t \<Rightarrow> tree_listing t) es)"
  proof (rule "4.IH"[OF _ _ _ rest])
    show "\<exists>more. walk d r = Inr (True, r @ more) \<and> map ref_entry more = tree_listing s"
      if "(m, Some s) \<in> set es" "dir_holds listing (path @ 47 # m) s" "file_ok d" "fr_cpath d = Inr (path @ 47 # m)" for m s d r
      using "4.prems"(6)[of m s d r] that by simp
  qed (use "4.prems" in simp_all)
  then obtain more' where "walk_entries walk path (Suc index) (length refs) True (result @ more) = Inr (True, (result @ more) @ more')"
    "map ref_entry more' = concat (map (\<lambda>(n, sub). case sub of None \<Rightarrow> [] | Some t \<Rightarrow> tree_listing t) es)" by blast
  then show ?case using here more e by (intro exI[of _ "more @ more'"]) simp
qed simp_all

lemma walk_level_tree:
  assumes "dir_holds listing path t" and "fr_cpath dir = Inr path" and "ME_PATH_MAX < length path + left"
  shows "\<exists>more. walk_level left listing dir result = Inr (True, result @ more) \<and> map ref_entry more = tree_listing t"
  using assms
proof (induction left arbitrary: path t dir result)
  case 0
  then show ?case using dir_holds_path by (fastforce simp: path_ok_def)
next
  case (Suc left)
  obtain es where t: "t = Dir es" by (cases t)
  have fits: "length path + 3 < MAX_TEXT_BUFFER_LENGTH"
    using dir_holds_path[OF Suc.prems(1)] by (simp add: path_ok_def ME_PATH_MAX_def MAX_TEXT_BUFFER_LENGTH_def)
  obtain entries where entries: "listing (path @ [92, 42]) = Some (entries, True)" "list_all (name_ok \<circ> fst) entries"
    "no_dots entries = tree_entries t"
    using Suc.prems(1) t by (auto split: option.splits)
  obtain refs where refs: "push_entries entries result = Inr (result @ refs)" "map ref_entry refs = tree_entries t"
    "list_all found_ok refs"
    using push_entries_spec[OF entries(2), of result] entries(3) by auto
  have read: "meOSReadDirectory listing dir result = Inr (True, result @ refs)"
    using Suc.prems(2) entries(1) refs(1) fits by (simp add: meOSReadDirectory_def)
  have "\<exists>more. walk_entries (walk_level left listing) path (length result) (length refs) True (result @ refs) =
      Inr (True, (result @ refs) @ more) \<and>
      map ref_entry more = concat (map (\<lambda>(n, sub). case sub of None \<Rightarrow> [] | Some t \<Rightarrow> tree_listing t) es)"
  proof (rule walk_entries_tree[where listing = listing])
    show "length refs = length es" using arg_cong[OF refs(2), of length] t by simp
    show "map ref_entry refs = map (\<lambda>(n, sub). (n, sub \<noteq> None)) es" using refs(2) t by simp
    show "list_all (\<lambda>(n, sub). case sub of None \<Rightarrow> True | Some t \<Rightarrow> dir_holds listing (path @ 47 # n) t) es"
      using Suc.prems(1) t by simp
    show "\<exists>more. walk_level left listing d r = Inr (True, r @ more) \<and> map ref_entry more = tree_listing s"
      if "dir_holds listing (path @ 47 # n) s" "fr_cpath d = Inr (path @ 47 # n)" for n s d r
      using Suc.IH[OF that] Suc.prems(3) by simp
  qed (use refs in auto)
  then show ?case using read Suc.prems(2) refs(2) t by (auto simp: Let_def)
qed

text \<open>
  The recursive walk finds every entry of a directory tree whose paths fit the buffer: first
  the entries of the directory, then those of its directories in order, each with its directory
  bit. What it records of an entry is its name alone: the directory it was found in is lost.
\<close>

theorem meFsRecursiveDirectoryWalk_listing:
  assumes "dir_holds listing path t" and "fr_cpath dir = Inr path"
  shows "\<exists>more. meFsRecursiveDirectoryWalk listing dir result = Inr (True, result @ more) \<and> map ref_entry more = tree_listing t"
  using walk_level_tree[OF assms, of "Suc ME_PATH_MAX"] by (simp add: meFsRecursiveDirectoryWalk_def)


text \<open>A directory \<open>D\<close> with a file \<open>a\<close> and a directory \<open>b\<close> that holds a file \<open>c\<close>.\<close>

definition small_listing :: listings where
  "small_listing query =
     (if query = [68, 92, 42] then Some ([([46], True), ([46, 46], True), ([97], False), ([98], True)], True)
      else if query = [68, 47, 98, 92, 42] then Some ([([46], True), ([46, 46], True), ([99], False)], True)
      else None)"

theorem meFsRecursiveDirectoryWalk_listing_witness:
  "\<exists>dir more. InitWithoutOpening OSFileReference_default [68] = Inr dir \<and>
     meFsRecursiveDirectoryWalk small_listing dir [] = Inr (True, more) \<and>
     map ref_entry more = [([97], False), ([98], True), ([99], False)]"
proof -
  let ?t = "Dir [([97], None), ([98], Some (Dir [([99], None)]))]"
  obtain dir where dir: "InitWithoutOpening OSFileReference_default [68] = Inr dir" "fr_cpath dir = Inr [68]"
    using InitWithoutOpening_ok[OF file_ok_default, of "[68]"] by (auto simp: path_ok_def ME_PATH_MAX_def)
  have "dir_holds small_listing [68] ?t" by code_simp
  from meFsRecursiveDirectoryWalk_listing[OF this dir(2), of "[]"] obtain more where
    "meFsRecursiveDirectoryWalk small_listing dir [] = Inr (True, more)" "map ref_entry more = tree_listing ?t" by auto
  then show ?thesis using dir(1) by (intro exI[of _ dir] exI[of _ more]) simp
qed

section \<open>The walk ends\<close>

lemma cstring_loop_fault: "cstring_loop p = Inl e \<Longrightarrow> e = OutOfBounds"
  by (induction p) (auto simp: bindR_def split: if_split_asm sum.split_asm)

lemma cstring_loop_clean: "cstring_loop p = Inr n \<Longrightarrow> n < length p \<and> 0 \<notin> set (take n p)"
  by (induction p arbitrary: n) (fastforce simp: bindR_Inr split: if_split_asm)+

lemma fr_cpath_clean: "file_ok ref \<Longrightarrow> fr_cpath ref = Inr path \<Longrightarrow> path_ok path"
  by (auto simp: fr_cpath_def bindR_Inr file_ok_def path_ok_def dest: cstring_loop_clean)

lemma fr_cpath_NoReturn: "fr_cpath ref \<noteq> Inl NoReturn"
  by (auto simp: fr_cpath_def bindR_def dest: cstring_loop_fault split: sum.split)

lemma InitWithoutOpening_cases:
  assumes "0 \<notin> set str"
  shows "(\<exists>ref. InitWithoutOpening OSFileReference_default str = Inr ref \<and> file_ok ref \<and> fr_cpath ref = Inr str) \<or>
    InitWithoutOpening OSFileReference_default str = Inl OutOfBounds"
proof (cases "length str < ME_PATH_MAX")
  case True
  then show ?thesis using InitWithoutOpening_ok[OF file_ok_default, of str] assms by (auto simp: path_ok_def)
next
  case False
  then show ?thesis using InitWithoutOpening_overflow[OF file_ok_default, of str] by simp
qed

lemma InitWithoutOpening_NoReturn: "InitWithoutOpening ref str \<noteq> Inl NoReturn"
  by (auto simp: InitWithoutOpening_def path_copy_def readAt_def writeAt_def ME_ASSERT_def require_def bindR_def
      split: sum.split if_split)

lemma push_entries_NoReturn: "push_entries entries result \<noteq> Inl NoReturn"
proof (induction entries result rule: push_entries.induct)
  case (2 n d entries result)
  then show ?case
    using InitWithoutOpening_NoReturn[of OSFileReference_default n]
    by (cases "InitWithoutOpening OSFileReference_default n") (auto simp: StringCompare_lit)
qed simp

lemma meOSReadDirectory_NoReturn: "meOSReadDirectory listing folder result \<noteq> Inl NoReturn"
  using fr_cpath_NoReturn[of folder] push_entries_NoReturn
  by (cases "fr_cpath folder")
    (auto simp: meOSReadDirectory_def Let_def ME_ASSERT_def require_def bindR_def split: option.split sum.split)

lemma walk_entry_NoReturn:
  assumes "path_ok path" and "\<And>dir result. file_ok dir \<Longrightarrow> (\<And>p. fr_cpath dir = Inr p \<Longrightarrow> length path < length p) \<Longrightarrow> walk dir result \<noteq> Inl NoReturn"
  shows "walk_entry walk path ref success result \<noteq> Inl NoReturn"
proof (cases "fr_cpath ref")
  case (Inl e)
  then show ?thesis using fr_cpath_NoReturn[of ref] by (auto simp: walk_entry_def)
next
  case (Inr name)
  have "0 \<notin> set name" using Inr cstring_loop_clean by (auto simp: fr_cpath_def bindR_Inr)
  then have "0 \<notin> set (path @ 47 # name)" using assms(1) by (simp add: path_ok_def)
  from InitWithoutOpening_cases[OF this] show ?thesis
  proof (elim disjE exE conjE)
    fix dir assume dir: "InitWithoutOpening OSFileReference_default (path @ 47 # name) = Inr dir" "file_ok dir"
      "fr_cpath dir = Inr (path @ 47 # name)"
    have "walk dir result \<noteq> Inl NoReturn" using assms(2)[OF dir(2)] dir(3) by simp
    then show ?thesis using Inr dir(1)
      by (cases "walk dir result") (auto simp: walk_entry_def ME_ASSERT_def require_def)
  qed (use Inr in \<open>simp add: walk_entry_def ME_ASSERT_def require_def\<close>)
qed

lemma walk_entries_NoReturn:
  assumes "\<And>ref success result. walk_entry walk path ref success result \<noteq> Inl NoReturn"
  shows "walk_entries walk path index left success result \<noteq> Inl NoReturn"
proof (induction left arbitrary: index success result)
  case (Suc left)
  show ?case
  proof (cases "index < length result")
    case True
    show ?thesis using assms[of "result ! index" success result] Suc.IH True
      by (cases "walk_entry walk path (result ! index) success result") auto
  qed (simp add: readAt_def)
qed simp

lemma walk_level_NoReturn:
  assumes "file_ok dir" and "\<And>path. fr_cpath dir = Inr path \<Longrightarrow> ME_PATH_MAX < length path + left"
  shows "left \<noteq> 0 \<Longrightarrow> walk_level left listing dir result \<noteq> Inl NoReturn"
  using assms
proof (induction left arbitrary: dir result)
  case (Suc left)
  show ?case
  proof (cases "fr_cpath dir")
    case (Inl e)
    then have "e \<noteq> NoReturn" using fr_cpath_NoReturn[of dir] by auto
    then show ?thesis using Inl by (simp add: Let_def meOSReadDirectory_def)
  next
    case (Inr path)
    then have path: "path_ok path" using Suc.prems(2) fr_cpath_clean by blast
    have "walk_level left listing d r \<noteq> Inl NoReturn"
      if "file_ok d" "\<And>p. fr_cpath d = Inr p \<Longrightarrow> length path < length p" for d r
    proof (cases "left = 0")
      case True
      then show ?thesis using Suc.prems(3)[OF Inr] path by (simp add: path_ok_def)
    next
      case False
      show ?thesis using Suc.IH[OF False that(1)] that(2) Suc.prems(3)[OF Inr] by fastforce
    qed
    then have "walk_entry (walk_level left listing) path ref success r \<noteq> Inl NoReturn" for ref success r
      using walk_entry_NoReturn[OF path] by blast
    then have entries: "walk_entries (walk_level left listing) path index n success r \<noteq> Inl NoReturn" for index n success r
      by (rule walk_entries_NoReturn)
    show ?thesis
      using entries meOSReadDirectory_NoReturn[of listing dir result] Inr
      by (cases "meOSReadDirectory listing dir result") (simp_all add: Let_def split: prod.split)
  qed
qed simp

text \<open>
  The walk ends whatever the directories look like, even if they contain themselves: every
  level lengthens the path, and one that no longer fits stops the walk - by a write behind the
  path buffer.
\<close>

theorem meFsRecursiveDirectoryWalk_ends:
  assumes "file_ok dir"
  shows "meFsRecursiveDirectoryWalk listing dir result \<noteq> Inl NoReturn"
  unfolding meFsRecursiveDirectoryWalk_def using assms by (intro walk_level_NoReturn) auto


theorem meFsRecursiveDirectoryWalk_ends_witness:
  "meFsRecursiveDirectoryWalk (\<lambda>_. Some ([([97], True)], True)) OSFileReference_default [] \<noteq> Inl NoReturn"
  by (rule meFsRecursiveDirectoryWalk_ends[OF file_ok_default])

end
