(* ===== verification/AssetDiscovery.thy ===== *)
theory AssetDiscovery
  imports Directories AssetIndexes
begin

text \<open>
  The asset index is built from what the recursive walk of the resource directory finds
  (\<open>meAssetIndexInitialize\<close> in \<open>asset/me_asset_index.cpp\<close> on \<open>meFsRecursiveDirectoryWalk\<close>): the
  two together.
\<close>

lemma abs_path_of_name:
  assumes "name_ok path" and "sv_wf resDir" and "47 \<in> set (sv_str resDir)" and "0 \<notin> set (sv_str resDir)"
    and "sv_len resDir < 2147483648"
  shows "meAssetGetAbsPathForResource resDir (STRING_LIT path) = Inr (STRING_LIT path, STRING_LIT (sv_str resDir @ 47 # path))"
proof -
  have path: "path \<noteq> []" "47 \<notin> set path" "92 \<notin> set path" "0 \<notin> set path" "length path < 2147483648"
    using assms(1) by (simp_all add: name_ok_def path_ok_def ME_PATH_MAX_def)
  have "sv_str resDir \<noteq> []" using assms(3) by auto
  then have needle: "good_needle resDir"
    using assms(2,4) by (metis good_needle_def length_greater_0_conv length_sv_str nth_mem)
  have "\<not> occurs 0 path (sv_str resDir) j" for j
    using occurs_subset[of 0 path "sv_str resDir" j] assms(3) path(2) by auto
  then have "FindInString (STRING_LIT path) resDir 0 0 = Inr (-1)"
    using find_first(2)[of "STRING_LIT path" resDir 0] needle path(5) by simp
  moreover have "meFsNormalizePathSeperators (STRING_LIT path) = Inr (STRING_LIT path)"
    using path(3) by (simp add: normalize_clean)
  moreover have "sv_bool (STRING_LIT path)" using path(1) by (simp add: sv_bool_def STRING_LIT_def)
  ultimately show ?thesis
    using assms(4) path(4) by (simp add: meAssetGetAbsPathForResource_def fmt_str_clean)
qed

text \<open>A file adds its own name to the index, and only if it is found in the resource directory itself.\<close>

lemma OnFoundAssetFile_adds:
  assumes "name_ok name" and "sv_wf resDir" and "47 \<in> set (sv_str resDir)" and "0 \<notin> set (sv_str resDir)"
    and "sv_len resDir < 2147483648"
    and "OnFoundAssetFile env fuel resDir loaders files (STRING_LIT name) index = Inr index'"
    and "assetToPathMap index' m = Some path"
  shows "assetToPathMap index m = Some path \<or> path = name \<and> files (sv_str resDir @ 47 # name) \<noteq> None"
  using assms(6,7) unfolding OnFoundAssetFile_def abs_path_of_name[OF assms(1-5)]
  by (auto simp: Let_def bindR_Inr split: if_split_asm option.split_asm)

lemma index_files_adds:
  assumes "sv_wf resDir" and "47 \<in> set (sv_str resDir)" and "0 \<notin> set (sv_str resDir)" and "sv_len resDir < 2147483648"
  shows "list_all (name_ok \<circ> fst) dataFiles \<Longrightarrow> index_files env fuel resDir loaders files dataFiles index = Inr index' \<Longrightarrow>
    assetToPathMap index' m = Some path \<Longrightarrow>
    assetToPathMap index m = Some path \<or> name_ok path \<and> files (sv_str resDir @ 47 # path) \<noteq> None"
proof (induction dataFiles arbitrary: index)
  case (Cons f rest)
  obtain name dir where f: "f = (name, dir)" by (cases f)
  show ?case
  proof (cases dir)
    case True
    then show ?thesis using Cons f by simp
  next
    case False
    then obtain index1 where step: "index1 = index \<or> OnFoundAssetFile env fuel resDir loaders files (STRING_LIT name) index = Inr index1"
      and rest: "index_files env fuel resDir loaders files rest index1 = Inr index'"
      using Cons.prems(2) f by (auto simp: bindR_Inr split: if_split_asm)
    have "assetToPathMap index1 m = Some path \<or> name_ok path \<and> files (sv_str resDir @ 47 # path) \<noteq> None"
      using Cons.IH[OF _ rest Cons.prems(3)] Cons.prems(1) by simp
    moreover have "name_ok name" using Cons.prems(1) f by simp
    ultimately show ?thesis using step OnFoundAssetFile_adds[OF _ assms] by blast
  qed
qed simp

text \<open>
  C34. The index knows only assets that lie in the resource directory itself. The walk visits the
  directories below it, but hands on bare names, and the index looks for every name in the resource
  directory: an asset file in a directory below is not found there and is left out - or another
  file of the same name takes its place.
\<close>

theorem nested_assets_unindexed:
  assumes "names_ok listing" and "meFsRecursiveDirectoryWalk listing dir [] = Inr (ok, refs)"
    and "meAssetIndexInitialize env fuel resDir loaders files (map ref_entry refs) = Inr index"
    and "sv_wf resDir" and "47 \<in> set (sv_str resDir)" and "0 \<notin> set (sv_str resDir)" and "sv_len resDir < 2147483648"
  shows "\<forall>m path. assetToPathMap index m = Some path \<longrightarrow>
    47 \<notin> set path \<and> files (sv_str resDir @ 47 # path) \<noteq> None"
proof (intro allI impI)
  fix m path assume m: "assetToPathMap index m = Some path"
  have "list_all found_ok refs"
    using walk_level_found[OF assms(1)] assms(2) unfolding meFsRecursiveDirectoryWalk_def by fastforce
  then have "list_all (name_ok \<circ> fst) (map ref_entry refs)" by (simp add: list_all_iff found_ok_def)
  from index_files_adds[OF assms(4-7) this assms(3)[unfolded meAssetIndexInitialize_def] m]
  show "47 \<notin> set path \<and> files (sv_str resDir @ 47 # path) \<noteq> None"
    by (auto simp: index_empty_def name_ok_def)
qed


text \<open>The resource directory \<open>R/D\<close> with \<open>b/x.mesh.masset\<close> in it, a file that is there.\<close>

definition nested_listing :: listings where
  "nested_listing query =
     (if query = [82, 47, 68, 92, 42] then Some ([([98], True)], True)
      else if query = [82, 47, 68, 47, 98, 92, 42] then Some ([(chars ''x.mesh.masset'', False)], True)
      else None)"

definition nested_files :: "u8 list \<rightharpoonup> u8 list" where
  "nested_files path = (if path = chars ''R/D/b/x.mesh.masset'' then Some [123] else None)"

theorem nested_assets_unindexed_witness:
  "\<forall>env fuel td. \<exists>dir refs index.
     meFsRecursiveDirectoryWalk nested_listing dir [] = Inr (True, refs) \<and>
     (chars ''x.mesh.masset'', False) \<in> set (map ref_entry refs) \<and>
     nested_files (chars ''R/D/b/x.mesh.masset'') \<noteq> None \<and>
     meAssetIndexInitialize env fuel (LIT ''R/D'') (\<lambda>_. Some td) nested_files (map ref_entry refs) = Inr index \<and>
     assetToPathMap index = Map.empty"
proof (intro allI)
  fix env fuel td
  let ?name = "chars ''x.mesh.masset''" and ?dirs = "LIT ''R/D''"
  let ?t = "Dir [([98], Some (Dir [(?name, None)]))]"
  have names: "name_ok ?name" "name_ok [98]" by code_simp+
  then have listing: "names_ok nested_listing" by (auto simp: names_ok_def nested_listing_def split: if_split_asm)
  obtain dir where dir: "fr_cpath dir = Inr [82, 47, 68]"
    using InitWithoutOpening_ok[OF file_ok_default, of "[82, 47, 68]"] by (auto simp: path_ok_def ME_PATH_MAX_def)
  have "dir_holds nested_listing [82, 47, 68] ?t" by code_simp
  from meFsRecursiveDirectoryWalk_listing[OF this dir, of "[]"] obtain refs where
    walk: "meFsRecursiveDirectoryWalk nested_listing dir [] = Inr (True, refs)" "map ref_entry refs = [([98], True), (?name, False)]"
    by auto
  have res: "sv_wf ?dirs" "47 \<in> set (sv_str ?dirs)" "0 \<notin> set (sv_str ?dirs)" "sv_len ?dirs < 2147483648"
    by (simp, code_simp, code_simp, code_simp)
  have "meAssetFindAssetTypeFromFilepath (STRING_LIT ?name) = Inr MAMesh" by code_simp
  moreover have "nested_files (sv_str ?dirs @ 47 # ?name) = None" by code_simp
  ultimately have "OnFoundAssetFile env fuel ?dirs (\<lambda>_. Some td) nested_files (STRING_LIT ?name) index_empty = Inr index_empty"
    unfolding OnFoundAssetFile_def abs_path_of_name[OF names(1) res] by simp
  moreover have "\<exists>k. FindInString (STRING_LIT ?name) (LIT ME_ASSET_EXTENSION) 0 0 = Inr k" by (rule exI, code_simp)
  ultimately have index: "meAssetIndexInitialize env fuel ?dirs (\<lambda>_. Some td) nested_files (map ref_entry refs) = Inr index_empty"
    unfolding meAssetIndexInitialize_def walk(2) by auto
  have absent: "nested_files (sv_str ?dirs @ 47 # path) \<noteq> None \<longrightarrow> 47 \<in> set path" for path
    by (auto simp: nested_files_def chars_def)
  have "assetToPathMap index_empty m = None" for m
    using nested_assets_unindexed[OF listing walk(1) index res] absent by (metis not_None_eq)
  moreover have "nested_files (chars ''R/D/b/x.mesh.masset'') \<noteq> None" by code_simp
  ultimately show "\<exists>dir refs index.
     meFsRecursiveDirectoryWalk nested_listing dir [] = Inr (True, refs) \<and>
     (?name, False) \<in> set (map ref_entry refs) \<and> nested_files (chars ''R/D/b/x.mesh.masset'') \<noteq> None \<and>
     meAssetIndexInitialize env fuel ?dirs (\<lambda>_. Some td) nested_files (map ref_entry refs) = Inr index \<and>
     assetToPathMap index = Map.empty"
    using walk index by (intro exI[of _ dir] exI[of _ refs] exI[of _ index_empty]) auto
qed

end
