(* ===== verification/CommandLines.thy ===== *)
theory CommandLines
  imports Strings
begin

text \<open>
  The command line (\<open>core/me_cmdline\<close>). An argument is its bytes up to the terminating zero; the
  value of an option is parsed from a view of the argument, and a pointer to its characters is the
  argument's memory.
\<close>

record CommandLineArgs =
  hasResourceDir :: bool
  cl_ResourceDir :: "(u8 list \<times> nat) option"
  hasShouldRunTests :: bool
  cl_ShouldRunTests :: bool

definition CommandLineArgs_default :: CommandLineArgs where
  "CommandLineArgs_default =
     \<lparr>hasResourceDir = False, cl_ResourceDir = None, hasShouldRunTests = False, cl_ShouldRunTests = False\<rparr>"

definition cl_text :: "string \<Rightarrow> u8 list" where
  "cl_text s = map of_char s"

definition parseCmdLineArgFromString_cstr :: "StringView \<Rightarrow> (u8 list \<times> nat) option" where
  "parseCmdLineArgFromString_cstr value = map_option (\<lambda>m. (m, sv_at value)) (sv_mem value)"

text \<open>The \<open>bool\<close> parser lowers the characters in place; the view it has afterwards is returned too.\<close>

definition parseCmdLineArgFromString_bool :: "StringView \<Rightarrow> (bool \<times> StringView) result" where
  "parseCmdLineArgFromString_bool value =
     bindR (ToLowerView value) (\<lambda>value.
     bindR (sv_eq value (STRING_LIT (cl_text ''true''))) (\<lambda>isTrue.
       if isTrue then Inr (True, value)
       else bindR (sv_eq value (STRING_LIT (cl_text ''1''))) (\<lambda>isOne. Inr (isOne, value))))"

definition parse_arg :: "u8 list \<Rightarrow> CommandLineArgs \<Rightarrow> CommandLineArgs result" where
  "parse_arg argv args =
     (let memory = argv @ [0]
      in bindR (CStringLength (Some (memory, 0))) (\<lambda>len.
         let arg = \<lparr>sv_mem = Some memory, sv_at = 0, sv_len = len\<rparr>
         in bindR (StringCompare arg (STRING_LIT (cl_text ''-ResourceDir'')) StringOpFlags_CaseInsensitive) (\<lambda>isDir.
            let args = (if isDir then args\<lparr>hasResourceDir := True, cl_ResourceDir := parseCmdLineArgFromString_cstr arg\<rparr>
                        else args)
            in bindR (StringCompare arg (STRING_LIT (cl_text ''-ShouldRunTests'')) StringOpFlags_CaseInsensitive) (\<lambda>isTests.
                 if isTests
                 then bindR (parseCmdLineArgFromString_bool arg) (\<lambda>(value, arg).
                        Inr (args\<lparr>hasShouldRunTests := True, cl_ShouldRunTests := value\<rparr>))
                 else Inr args))))"

fun parse_args :: "u8 list list \<Rightarrow> CommandLineArgs \<Rightarrow> CommandLineArgs result" where
  "parse_args [] args = Inr args"
| "parse_args (a # argv) args = bindR (parse_arg a args) (parse_args argv)"

text \<open>The first argument is the program.\<close>

definition parseCmdLine :: "u8 list list \<Rightarrow> CommandLineArgs \<Rightarrow> CommandLineArgs result" where
  "parseCmdLine argv args = parse_args (drop 1 argv) args"

definition InitializeCmdLine :: "u8 list list \<Rightarrow> CommandLineArgs result" where
  "InitializeCmdLine argv = parseCmdLine argv CommandLineArgs_default"

section \<open>What the options can be\<close>

definition is_option :: "string \<Rightarrow> u8 list \<Rightarrow> bool" where
  "is_option name a \<longleftrightarrow> map ToLower a = map ToLower (cl_text name)"

lemma fold_char_CI: "fold_char StringOpFlags_CaseInsensitive = ToLower"
proof -
  have "has_flag StringOpFlags_CaseInsensitive StringOpFlags_CaseInsensitive" by code_simp
  then show ?thesis by (simp add: fold_char_def fun_eq_iff)
qed

lemma cstring_loop_terminated: "0 \<notin> set a \<Longrightarrow> cstring_loop (a @ [0]) = Inr (length a)"
  by (induction a) auto


lemma parse_arg_spec:
  assumes "0 \<notin> set a"
  shows "parse_arg a args =
    Inr (let args = (if is_option ''-ResourceDir'' a
                     then args\<lparr>hasResourceDir := True, cl_ResourceDir := Some (a @ [0], 0)\<rparr> else args)
         in if is_option ''-ShouldRunTests'' a then args\<lparr>hasShouldRunTests := True, cl_ShouldRunTests := False\<rparr> else args)"
proof -
  let ?v = "\<lparr>sv_mem = Some (a @ [0]), sv_at = 0, sv_len = length a\<rparr>"
  have v: "sv_wf ?v" "sv_str ?v = a" by (simp_all add: sv_wf_def sv_str_def)
  have opt: "StringCompare ?v (STRING_LIT (cl_text name)) StringOpFlags_CaseInsensitive = Inr (is_option name a)" for name
    using StringCompare_spec[OF v(1), of "STRING_LIT (cl_text name)"] v(2) by (simp add: is_option_def fold_char_CI)
  obtain w where w: "ToLowerView ?v = Inr w" "sv_wf w" "sv_str w = map ToLower a"
    using map_view_loop_spec[OF v(1), of 0 "length a" ToLower] v(2) by (auto simp: ToLowerView_def)
  have not_value: "map ToLower (cl_text ''-ShouldRunTests'') \<noteq> cl_text ''true''" "map ToLower (cl_text ''-ShouldRunTests'') \<noteq> cl_text ''1''"
    by code_simp+
  have "parseCmdLineArgFromString_bool ?v = Inr (False, w)" if "is_option ''-ShouldRunTests'' a"
    using that not_value w sv_eq_spec[OF w(2), of "STRING_LIT (cl_text ''true'')"] sv_eq_spec[OF w(2), of "STRING_LIT (cl_text ''1'')"]
    by (simp add: parseCmdLineArgFromString_bool_def is_option_def)
  then show ?thesis
    using assms by (simp add: parse_arg_def CStringLength_def cstring_loop_terminated opt Let_def parseCmdLineArgFromString_cstr_def)
qed

definition cmdline_ok :: "u8 list list \<Rightarrow> CommandLineArgs \<Rightarrow> bool" where
  "cmdline_ok argv args \<longleftrightarrow>
     hasResourceDir args = list_ex (is_option ''-ResourceDir'') argv \<and>
     hasShouldRunTests args = list_ex (is_option ''-ShouldRunTests'') argv \<and> \<not> cl_ShouldRunTests args \<and>
     (case cl_ResourceDir args of None \<Rightarrow> \<not> hasResourceDir args | Some (m, at) \<Rightarrow> at = 0 \<and> (\<exists>a. m = a @ [0] \<and> 0 \<notin> set a \<and> is_option ''-ResourceDir'' a))"

lemma parse_args_ok:
  assumes "cmdline_ok before args" and "list_all (\<lambda>a. 0 \<notin> set a) argv"
  shows "\<exists>args'. parse_args argv args = Inr args' \<and> cmdline_ok (before @ argv) args'"
  using assms
proof (induction argv arbitrary: before args)
  case (Cons a argv)
  obtain args1 where step: "parse_arg a args = Inr args1" "cmdline_ok (before @ [a]) args1"
    using Cons.prems parse_arg_spec[of a args] by (auto simp: cmdline_ok_def Let_def split: option.splits)
  then show ?case using Cons.IH[OF step(2)] Cons.prems(2) by simp
qed simp

text \<open>
  The command line knows which options are given, upper or lower case, but it parses the value
  of an option from the option's own text: the switch to run the tests is never true, and the
  resource directory is the text of the option.
\<close>

theorem InitializeCmdLine_values:
  assumes "list_all (\<lambda>a. 0 \<notin> set a) argv"
  shows "\<exists>args. InitializeCmdLine argv = Inr args \<and>
    hasResourceDir args = list_ex (is_option ''-ResourceDir'') (drop 1 argv) \<and>
    hasShouldRunTests args = list_ex (is_option ''-ShouldRunTests'') (drop 1 argv) \<and> \<not> cl_ShouldRunTests args \<and>
    (case cl_ResourceDir args of None \<Rightarrow> \<not> hasResourceDir args | Some (m, at) \<Rightarrow> at = 0 \<and> (\<exists>a. m = a @ [0] \<and> 0 \<notin> set a \<and> is_option ''-ResourceDir'' a))"
proof -
  have "cmdline_ok [] CommandLineArgs_default" by (simp add: cmdline_ok_def CommandLineArgs_default_def)
  moreover have "list_all (\<lambda>a. 0 \<notin> set a) (drop 1 argv)" using assms by (auto simp: list_all_iff dest: in_set_dropD)
  ultimately show ?thesis
    using parse_args_ok[of "[]" CommandLineArgs_default "drop 1 argv"]
    by (simp add: InitializeCmdLine_def parseCmdLine_def cmdline_ok_def)
qed

theorem InitializeCmdLine_values_witness:
  "\<exists>args. InitializeCmdLine [cl_text ''e'', cl_text ''-shouldruntests'', cl_text ''true''] = Inr args \<and>
     hasShouldRunTests args \<and> \<not> cl_ShouldRunTests args \<and> \<not> hasResourceDir args"
proof -
  let ?argv = "[cl_text ''e'', cl_text ''-shouldruntests'', cl_text ''true'']"
  have "list_all (\<lambda>a. 0 \<notin> set a) ?argv" "list_ex (is_option ''-ShouldRunTests'') (drop 1 ?argv)"
    "\<not> list_ex (is_option ''-ResourceDir'') (drop 1 ?argv)" by code_simp+
  then show ?thesis using InitializeCmdLine_values[of ?argv] by auto
qed

end
