(* ===== verification/ResourceDirs.thy ===== *)
theory ResourceDirs
  imports Files CommandLines
begin

text \<open>
  Where the resource directory comes from (\<open>meAssetInitialize\<close> in \<open>asset/me_asset.cpp\<close>): the
  command line, the directory of the project's configuration file, or the working directory.
\<close>

text \<open>\<open>full\<close> is \<open>GetFullPathNameA\<close>; the configuration file is empty if none was read.\<close>

definition meAssetGetProjectRootResourceDir :: "(u8 list \<Rightarrow> u8 list option) \<Rightarrow> u8 list \<Rightarrow> u8 list result" where
  "meAssetGetProjectRootResourceDir full projectRootConfigFile =
     (if projectRootConfigFile = [] then Inr []
      else bindR (meOSResolveRelativeToAbsPath full projectRootConfigFile) (\<lambda>userAppConfigPathAbs.
           bindR (msFsGetDirFromPath (sv_of userAppConfigPathAbs)) (\<lambda>dir. Inr (sv_str dir))))"

definition meAssetInitialize_resourceDir ::
    "(u8 list \<Rightarrow> u8 list option) \<Rightarrow> u8 list \<Rightarrow> u8 list \<Rightarrow> CommandLineArgs \<Rightarrow> u8 list result" where
  "meAssetInitialize_resourceDir full projectRootConfigFile workingDir cmdline =
     (if hasResourceDir cmdline
      then bindR (CStringLength (cl_ResourceDir cmdline)) (\<lambda>len.
             Inr (case cl_ResourceDir cmdline of None \<Rightarrow> [] | Some (m, at) \<Rightarrow> take len (drop at m)))
      else bindR (meAssetGetProjectRootResourceDir full projectRootConfigFile) (\<lambda>rootResDir.
             Inr (if rootResDir \<noteq> [] then rootResDir else workingDir)))"

section \<open>The directory of a file\<close>

lemma find_last_after:
  assumes "47 \<notin> set name" and "length (d @ 47 # name) < 2147483648"
  shows "FindInStringRev (sv_of (d @ 47 # name)) (LIT ''/'') 0 StringOpFlags_IdxAfterNeedle = Inr (int (length d + 1))"
proof -
  let ?h = "d @ 47 # name"
  have lit: "good_needle (LIT ''/'')" "sv_len (LIT ''/'') = 1" "sv_str (LIT ''/'') = [47]"
    using dirSep_simps by (simp_all add: meFsGetDirectorySeperator_def)
  have "last_upto (length ?h - 1) (occurs StringOpFlags_IdxAfterNeedle ?h [47]) (length d)"
    unfolding last_upto_def
  proof (intro conjI allI impI)
    fix i assume i: "length d < i \<and> i \<le> length ?h - 1"
    then have "?h ! i = name ! (i - length d - 1)" "i - length d - 1 < length name" by (auto simp: nth_append nth_Cons')
    then show "\<not> occurs StringOpFlags_IdxAfterNeedle ?h [47] i" using assms(1) nth_mem by (fastforce simp: occurs_char)
  qed (simp_all add: occurs_char nth_append)
  then show ?thesis
    using find_last(1)[of "sv_of ?h" "LIT ''/''" 0 StringOpFlags_IdxAfterNeedle "length d"] lit assms(2) by simp
qed

lemma find_dot:
  assumes "46 \<in> set name" and "length (d @ 47 # name) < 2147483648"
  shows "\<exists>r. FindInString (sv_of (d @ 47 # name)) (LIT ''.'') (Suc (length d)) 0 = Inr r \<and> r \<noteq> -1"
proof -
  let ?h = "d @ 47 # name"
  have lit: "good_needle (LIT ''.'')" "sv_wf (LIT ''.'')" "sv_len (LIT ''.'') = 1" "sv_str (LIT ''.'') = [46]"
    by (simp_all add: chars_def good_needle_def)
  have prems: "sv_wf (sv_of ?h)" "sv_len (sv_of ?h) < 2147483648" "Suc (length d) + length name = Suc (sv_len (sv_of ?h) - sv_len (LIT ''.''))"
    "sv_len (LIT ''.'') \<le> sv_len (sv_of ?h)" "0 < sv_len (LIT ''.'')"
    using assms(2) lit(3) by simp_all
  obtain r where
    r: "find_loop (sv_of ?h) (LIT ''.'') 0 (int (Suc (length d))) (length name) = Inr r"
      "if r = -1 then \<forall>j\<ge>Suc (length d). \<not> occurs 0 ?h [46] j
       else \<exists>j. first_from (Suc (length d)) (occurs 0 ?h [46]) j \<and>
         r = int (if has_flag 0 StringOpFlags_IdxAfterNeedle then j + sv_len (LIT ''.'') else j)"
    using find_loop_spec[OF prems(1) lit(2) prems(2-5), of 0, unfolded lit(4) sv_wf_of(2)] by blast
  obtain k where k: "k < length name" "name ! k = 46" using assms(1) by (auto simp: in_set_conv_nth)
  then have "occurs 0 ?h [46] (Suc (length d) + k)" by (simp add: occurs_char nth_append)
  then have "r \<noteq> -1" using r(2) by (metis le_add1)
  moreover have "FindInString (sv_of ?h) (LIT ''.'') (Suc (length d)) 0 = Inr r"
    using r(1) needle_empty_good[OF lit(1)] lit(3) assms(2) by (simp add: FindInString_def Let_def)
  ultimately show ?thesis by blast
qed

lemma dir_of_file:
  assumes "47 \<notin> set name" and "46 \<in> set name" and "92 \<notin> set (d @ name)" and "length (d @ 47 # name) < 2147483648"
  shows "\<exists>v. msFsGetDirFromPath (sv_of (d @ 47 # name)) = Inr v \<and> sv_str v = d"
proof -
  have "meFsNormalizePathSeperators (sv_of (d @ 47 # name)) = Inr (sv_of (d @ 47 # name))"
    using assms(3) by (intro normalize_clean) auto
  moreover obtain r where "FindInString (sv_of (d @ 47 # name)) (LIT ''.'') (Suc (length d)) 0 = Inr r" "r \<noteq> -1"
    using find_dot[OF assms(2,4)] by blast
  moreover have "nat (MEMAX 0 (int (length d + 1) - 1)) = length d" by (simp add: MEMAX_def)
  ultimately show ?thesis
    using find_last_after[OF assms(1,4)] dirSep_normal
    by (simp add: msFsGetDirFromPath_def sv_of_def sv_str_def nat_add_distrib)
qed

text \<open>
  C39. With the option for it on the command line the resource directory is the text of that option
  itself, whatever follows it. Without, it is the directory of the project's configuration file,
  and the working directory if there is none.
\<close>

theorem resource_directory:
  assumes "InitializeCmdLine argv = Inr cmdline" and "list_all (\<lambda>a. 0 \<notin> set a) argv"
    and "full cfg = Some (d @ 47 # name)" and "47 \<notin> set name" and "46 \<in> set name" and "92 \<notin> set (d @ name)"
    and "length (d @ 47 # name) < ME_PATH_MAX"
  shows "\<exists>dir. meAssetInitialize_resourceDir full cfg workingDir cmdline = Inr dir \<and>
    (if list_ex (is_option ''-ResourceDir'') (drop 1 argv) then is_option ''-ResourceDir'' dir
     else dir = (if cfg = [] \<or> d = [] then workingDir else d))"
proof -
  have "cmdline_ok [] CommandLineArgs_default" by (simp add: cmdline_ok_def CommandLineArgs_default_def)
  moreover have "list_all (\<lambda>a. 0 \<notin> set a) (drop 1 argv)" using assms(2) by (auto simp: list_all_iff dest: in_set_dropD)
  ultimately have ok: "cmdline_ok (drop 1 argv) cmdline"
    using parse_args_ok[of "[]" CommandLineArgs_default "drop 1 argv"] assms(1)
    by (simp add: InitializeCmdLine_def parseCmdLine_def)
  show ?thesis
  proof (cases "hasResourceDir cmdline")
    case True
    then obtain a where a: "cl_ResourceDir cmdline = Some (a @ [0], 0)" "is_option ''-ResourceDir'' a" "0 \<notin> set a"
      using ok by (auto simp: cmdline_ok_def split: option.splits)
    then show ?thesis using True ok
      by (simp add: meAssetInitialize_resourceDir_def CStringLength_def cstring_loop_terminated cmdline_ok_def)
  next
    case False
    have "map (\<lambda>c. if c = 92 then 47 else c) (d @ 47 # name) = d @ 47 # name"
      using assms(6) by (intro map_idI) auto
    then have "meOSResolveRelativeToAbsPath full cfg = Inr (d @ 47 # name)"
      using meOSResolveRelativeToAbsPath_ok[of full cfg "d @ 47 # name"] assms(3,7) by simp
    moreover have "length (d @ 47 # name) < 2147483648" using assms(7) by (simp add: ME_PATH_MAX_def)
    ultimately show ?thesis
      using False ok dir_of_file[OF assms(4-6)]
      by (auto simp: meAssetInitialize_resourceDir_def meAssetGetProjectRootResourceDir_def cmdline_ok_def)
  qed
qed


text \<open>\<open>D/c.ini\<close> as configuration, without and with the option.\<close>

theorem resource_directory_witness:
  "(\<exists>cmdline. InitializeCmdLine [cl_text ''e''] = Inr cmdline \<and>
      meAssetInitialize_resourceDir (\<lambda>_. Some (cl_text ''D/c.ini'')) (cl_text ''c.ini'') (cl_text ''W'') cmdline = Inr (cl_text ''D'')) \<and>
   (\<exists>cmdline dir. InitializeCmdLine [cl_text ''e'', cl_text ''-ResourceDir'', cl_text ''X''] = Inr cmdline \<and>
      meAssetInitialize_resourceDir (\<lambda>_. Some (cl_text ''D/c.ini'')) (cl_text ''c.ini'') (cl_text ''W'') cmdline = Inr dir \<and>
      is_option ''-ResourceDir'' dir)"
proof -
  let ?cfg = "cl_text ''c.ini''" and ?full = "\<lambda>_. Some (cl_text ''D/c.ini'')" and ?W = "cl_text ''W''"
  let ?argv = "[cl_text ''e'', cl_text ''-ResourceDir'', cl_text ''X'']"
  have cfg: "?full ?cfg = Some (cl_text ''D'' @ 47 # ?cfg)" "47 \<notin> set ?cfg" "46 \<in> set ?cfg" "92 \<notin> set (cl_text ''D'' @ ?cfg)"
    "length (cl_text ''D'' @ 47 # ?cfg) < ME_PATH_MAX" "?cfg \<noteq> []" "cl_text ''D'' \<noteq> []"
    by code_simp+
  have clean: "list_all (\<lambda>a. 0 \<notin> set a) [cl_text ''e'']" "list_all (\<lambda>a. 0 \<notin> set a) ?argv"
    "\<not> list_ex (is_option ''-ResourceDir'') (drop 1 [cl_text ''e''])" "list_ex (is_option ''-ResourceDir'') (drop 1 ?argv)"
    by code_simp+
  obtain c1 c2 where init: "InitializeCmdLine [cl_text ''e''] = Inr c1" "InitializeCmdLine ?argv = Inr c2"
    using parse_args_ok[of "[]" CommandLineArgs_default "[]"] parse_args_ok[of "[]" CommandLineArgs_default "drop 1 ?argv"] clean
    by (auto simp: InitializeCmdLine_def parseCmdLine_def cmdline_ok_def CommandLineArgs_default_def)
  from resource_directory[where full = ?full and cfg = ?cfg and workingDir = ?W, OF init(1) clean(1) cfg(1-5)] clean(3) cfg(6,7)
  have "meAssetInitialize_resourceDir ?full ?cfg ?W c1 = Inr (cl_text ''D'')" by auto
  moreover from resource_directory[where full = ?full and cfg = ?cfg and workingDir = ?W, OF init(2) clean(2) cfg(1-5)] clean(4)
  have "\<exists>dir. meAssetInitialize_resourceDir ?full ?cfg ?W c2 = Inr dir \<and> is_option ''-ResourceDir'' dir" by auto
  ultimately show ?thesis using init by blast
qed

end
