(* ===== verification/Inputs.thy ===== *)
theory Inputs
  imports Bits
begin

text \<open>
  Keyboard and mouse (\<open>platform/me_input\<close>), the window messages that feed them and the tick of
  the platform layer (\<open>platform/windows/me_os_win.cpp\<close>). The messages of a tick are a list; what
  the operating system answers to a registration or a question is an argument. Positions are
  integers where the code keeps whole numbers in floats.
\<close>

section \<open>State\<close>

datatype meMouseButton = LBUTTON | RBUTTON | MBUTTON

fun button_bit :: "meMouseButton \<Rightarrow> nat" where
  "button_bit LBUTTON = 0"
| "button_bit RBUTTON = 1"
| "button_bit MBUTTON = 2"

datatype meOSCursorState = FREE | CAPTURED

record meMouseInput =
  mousePosScreen :: "int \<times> int"
  mouseDelta :: "int \<times> int"
  mi_scroll :: int
  prevButtons :: u32
  mi_buttons :: u32

record meKeyboardInput =
  keyStates :: bitarray
  prevKeyStates :: bitarray

record OSStateView =
  mouseState :: meMouseInput
  keyboardState :: meKeyboardInput
  windowWidth :: nat
  windowHeight :: nat
  cursorState :: meOSCursorState
  useRawInput :: bool

definition NUM_KEYS :: nat where
  "NUM_KEYS = 256"

definition OSStateView_default :: OSStateView where
  "OSStateView_default =
     \<lparr>mouseState = \<lparr>mousePosScreen = (0, 0), mouseDelta = (0, 0), mi_scroll = 0, prevButtons = 0, mi_buttons = 0\<rparr>,
      keyboardState = \<lparr>keyStates = bitarray_init NUM_KEYS False, prevKeyStates = bitarray_init NUM_KEYS False\<rparr>,
      windowWidth = 0, windowHeight = 0, cursorState = FREE, useRawInput = False\<rparr>"

section \<open>Buttons and keys\<close>

definition UpdateMouseScreenPos :: "int \<Rightarrow> int \<Rightarrow> meMouseInput \<Rightarrow> meMouseInput" where
  "UpdateMouseScreenPos xpos ypos m = m\<lparr>mousePosScreen := (xpos, ypos)\<rparr>"

definition IsMouseButtonDown :: "meMouseInput \<Rightarrow> meMouseButton \<Rightarrow> bool" where
  "IsMouseButtonDown m button = TEST_BIT (mi_buttons m) (button_bit button)"

definition IsMouseButtonJustPressed :: "meMouseInput \<Rightarrow> meMouseButton \<Rightarrow> bool" where
  "IsMouseButtonJustPressed m button \<longleftrightarrow> IsMouseButtonDown m button \<and> \<not> TEST_BIT (prevButtons m) (button_bit button)"

definition IsMouseButtonJustReleased :: "meMouseInput \<Rightarrow> meMouseButton \<Rightarrow> bool" where
  "IsMouseButtonJustReleased m button \<longleftrightarrow> \<not> IsMouseButtonDown m button \<and> TEST_BIT (prevButtons m) (button_bit button)"

definition MouseInputTick :: "meMouseInput \<Rightarrow> meMouseInput" where
  "MouseInputTick m = m\<lparr>prevButtons := mi_buttons m\<rparr>"

definition KeyboardInputTick :: "meKeyboardInput \<Rightarrow> meKeyboardInput" where
  "KeyboardInputTick k = k\<lparr>prevKeyStates := keyStates k\<rparr>"

definition IsKeyDown :: "meKeyboardInput \<Rightarrow> nat \<Rightarrow> bool result" where
  "IsKeyDown k key = bitarray_get (keyStates k) key"

definition IsKeyJustPressed :: "meKeyboardInput \<Rightarrow> nat \<Rightarrow> bool result" where
  "IsKeyJustPressed k key = bindR (IsKeyDown k key) (\<lambda>down.
     if \<not> down then Inr False else bindR (bitarray_get (prevKeyStates k) key) (\<lambda>prev. Inr (\<not> prev)))"

definition IsKeyJustReleased :: "meKeyboardInput \<Rightarrow> nat \<Rightarrow> bool result" where
  "IsKeyJustReleased k key = bindR (IsKeyDown k key) (\<lambda>down.
     if down then Inr False else bitarray_get (prevKeyStates k) key)"

section \<open>Window messages\<close>

text \<open>
  The messages the window procedure handles; \<open>WM_CAPTURECHANGED\<close> carries whether the raw input
  device could be registered, \<open>WM_INPUT\<close> what it reports, \<open>WM_MOUSEWHEEL\<close> the signed distance.
\<close>

datatype raw_input = RawRelative int int | RawAbsolute | RawOther

datatype message =
    WM_SIZE nat nat
  | WM_KILLFOCUS
  | WM_CAPTURECHANGED bool
  | WM_KEYDOWN nat
  | WM_KEYUP nat
  | WM_INPUT raw_input
  | WM_MOUSEMOVE int int
  | WM_BUTTONDOWN meMouseButton
  | WM_BUTTONUP meMouseButton
  | WM_MOUSEWHEEL int
  | WM_QUIT
  | WM_OTHER

definition OnResize :: "nat \<Rightarrow> nat \<Rightarrow> OSStateView \<Rightarrow> OSStateView" where
  "OnResize width height os = os\<lparr>windowWidth := width, windowHeight := height\<rparr>"

definition meOSSetCursorState :: "bool \<Rightarrow> meOSCursorState \<Rightarrow> OSStateView \<Rightarrow> OSStateView" where
  "meOSSetCursorState registered state os =
     (case state of CAPTURED \<Rightarrow> os\<lparr>useRawInput := registered\<rparr>
      | FREE \<Rightarrow> if \<not> registered then os else os\<lparr>useRawInput := False\<rparr>)"

definition set_button :: "meMouseButton \<Rightarrow> bool \<Rightarrow> OSStateView \<Rightarrow> OSStateView" where
  "set_button button down os =
     (let m = mouseState os in os\<lparr>mouseState := m\<lparr>mi_buttons := SET_BIT (mi_buttons m) (button_bit button) down\<rparr>\<rparr>)"

definition set_key :: "nat \<Rightarrow> bool \<Rightarrow> OSStateView \<Rightarrow> OSStateView result" where
  "set_key key down os =
     (let k = keyboardState os
      in bindR (bitarray_set NUM_KEYS (keyStates k) key down) (\<lambda>keys.
           Inr (os\<lparr>keyboardState := k\<lparr>keyStates := keys\<rparr>\<rparr>)))"

text \<open>Division in C rounds towards zero; a notch of the wheel is 120.\<close>

definition wheel_notches :: "int \<Rightarrow> int" where
  "wheel_notches distance = sgn distance * (\<bar>distance\<bar> div 120)"

fun WndProc :: "message \<Rightarrow> OSStateView \<Rightarrow> OSStateView result" where
  "WndProc (WM_SIZE width height) os = Inr (OnResize width height os)"
| "WndProc WM_KILLFOCUS os =
     (let k = keyboardState os; m = mouseState os
      in Inr (os\<lparr>keyboardState := \<lparr>keyStates = bitarray_clear (keyStates k), prevKeyStates = bitarray_clear (prevKeyStates k)\<rparr>,
                 mouseState := m\<lparr>mi_buttons := 0, prevButtons := 0\<rparr>\<rparr>))"
| "WndProc (WM_CAPTURECHANGED registered) os =
     Inr (if useRawInput os then meOSSetCursorState registered FREE os else os)"
| "WndProc (WM_KEYDOWN key) os = set_key key True os"
| "WndProc (WM_KEYUP key) os = set_key key False os"
| "WndProc (WM_INPUT raw) os =
     (if \<not> useRawInput os then Inr os
      else case raw of RawRelative dx dy \<Rightarrow> Inr (os\<lparr>mouseState := (mouseState os)\<lparr>mouseDelta := (dx, dy)\<rparr>\<rparr>)
           | RawAbsolute \<Rightarrow> Inl AssertFailed | RawOther \<Rightarrow> Inr os)"
| "WndProc (WM_MOUSEMOVE x y) os =
     Inr (if useRawInput os then os else os\<lparr>mouseState := UpdateMouseScreenPos x y (mouseState os)\<rparr>)"
| "WndProc (WM_BUTTONDOWN button) os = Inr (set_button button True os)"
| "WndProc (WM_BUTTONUP button) os = Inr (set_button button False os)"
| "WndProc (WM_MOUSEWHEEL distance) os =
     (let m = mouseState os; total = mi_scroll m + wheel_notches distance
      in require SignedOverflow (-2147483648 \<le> total \<and> total < 2147483648)
           (Inr (os\<lparr>mouseState := m\<lparr>mi_scroll := total\<rparr>\<rparr>)))"
| "WndProc WM_QUIT os = Inr os"
| "WndProc WM_OTHER os = Inr os"

section \<open>The tick\<close>

fun pump :: "message list \<Rightarrow> OSStateView \<times> bool \<Rightarrow> (OSStateView \<times> bool) result" where
  "pump [] (os, isRunning) = Inr (os, isRunning)"
| "pump (msg # msgs) (os, isRunning) =
     (let isRunning = (if msg = WM_QUIT then False else isRunning)
      in bindR (WndProc msg os) (\<lambda>os. pump msgs (os, isRunning)))"

text \<open>The loop that sleeps while the window is an icon; \<open>iconic n\<close> is the answer to the nth question.\<close>

partial_function (option) wait_iconic :: "(nat \<Rightarrow> bool) \<Rightarrow> nat \<Rightarrow> nat option" where
  "wait_iconic iconic n = (if iconic n then wait_iconic iconic (Suc n) else Some n)"

definition VK_ESCAPE :: nat where "VK_ESCAPE = 27"
definition VK_TAB :: nat where "VK_TAB = 9"

definition tick_end :: "bool \<Rightarrow> OSStateView \<times> bool \<Rightarrow> (OSStateView \<times> bool) result" where
  "tick_end registered = (\<lambda>(os, isRunning).
     bindR (bitarray_get (keyStates (keyboardState os)) VK_ESCAPE) (\<lambda>escape.
       let isRunning = (if escape then False else isRunning)
       in bindR (IsKeyJustPressed (keyboardState os) VK_TAB) (\<lambda>tab.
            Inr (if tab then meOSSetCursorState registered (if useRawInput os then FREE else CAPTURED) os else os,
                 isRunning))))"

definition meOSTick ::
    "bool \<Rightarrow> (nat \<Rightarrow> bool) \<Rightarrow> message list \<Rightarrow> OSStateView \<times> bool \<Rightarrow> (OSStateView \<times> bool) result option" where
  "meOSTick registered iconic msgs = (\<lambda>(os, isRunning).
     let os = os\<lparr>mouseState := MouseInputTick (mouseState os), keyboardState := KeyboardInputTick (keyboardState os)\<rparr>
     in case pump msgs (os, isRunning) of Inl e \<Rightarrow> Some (Inl e)
        | Inr (os, isRunning) \<Rightarrow>
            (case wait_iconic iconic 0 of None \<Rightarrow> None
             | Some n \<Rightarrow> Some (tick_end registered (os, isRunning))))"


section \<open>What the tick computes\<close>

definition os_ok :: "OSStateView \<Rightarrow> bool" where
  "os_ok os \<longleftrightarrow> bitarray_wf NUM_KEYS (keyStates (keyboardState os)) \<and> bitarray_wf NUM_KEYS (prevKeyStates (keyboardState os))"

definition held :: "OSStateView \<Rightarrow> nat \<Rightarrow> bool" where
  "held os key = bitarray_bits NUM_KEYS (keyStates (keyboardState os)) ! key"

definition was_held :: "OSStateView \<Rightarrow> nat \<Rightarrow> bool" where
  "was_held os key = bitarray_bits NUM_KEYS (prevKeyStates (keyboardState os)) ! key"

text \<open>The last message about a key decides; losing the focus lets go of all of them.\<close>

fun key_msg :: "nat \<Rightarrow> message \<Rightarrow> bool \<Rightarrow> bool" where
  "key_msg key (WM_KEYDOWN k) down = (if k = key then True else down)"
| "key_msg key (WM_KEYUP k) down = (if k = key then False else down)"
| "key_msg key WM_KILLFOCUS down = False"
| "key_msg key _ down = down"

definition key_after :: "nat \<Rightarrow> message list \<Rightarrow> bool \<Rightarrow> bool" where
  "key_after key msgs down = fold (key_msg key) msgs down"

fun button_msg :: "meMouseButton \<Rightarrow> message \<Rightarrow> bool \<Rightarrow> bool" where
  "button_msg button (WM_BUTTONDOWN b) down = (if b = button then True else down)"
| "button_msg button (WM_BUTTONUP b) down = (if b = button then False else down)"
| "button_msg button WM_KILLFOCUS down = False"
| "button_msg button _ down = down"

definition button_after :: "meMouseButton \<Rightarrow> message list \<Rightarrow> bool \<Rightarrow> bool" where
  "button_after button msgs down = fold (button_msg button) msgs down"

lemma button_bit_less [simp]: "button_bit b < 32"
  by (cases b) simp_all

lemma button_bit_eq [simp]: "button_bit b = button_bit c \<longleftrightarrow> b = c"
  by (cases b; cases c) simp_all

lemma set_key_ok:
  assumes "os_ok os" and "set_key k v os = Inr os'"
  shows "os_ok os' \<and> (\<forall>key<NUM_KEYS. held os' key = (if key = k then v else held os key)) \<and> (\<forall>key. was_held os' key = was_held os key) \<and>
    mouseState os' = mouseState os \<and> cursorState os' = cursorState os"
proof -
  have k: "k < NUM_KEYS"
    using assms(2) by (auto simp: set_key_def bitarray_set_def Let_def result_Inr)
  obtain keys where keys: "bitarray_set NUM_KEYS (keyStates (keyboardState os)) k v = Inr keys" "bitarray_wf NUM_KEYS keys"
    "bitarray_bits NUM_KEYS keys = (bitarray_bits NUM_KEYS (keyStates (keyboardState os)))[k := v]"
    using bitarray_set_spec[OF _ k] assms(1) unfolding os_ok_def by blast
  then have os': "os' = os\<lparr>keyboardState := (keyboardState os)\<lparr>keyStates := keys\<rparr>\<rparr>"
    using assms(2) by (simp add: set_key_def Let_def)
  show ?thesis
    using keys(2,3) assms(1) unfolding os' by (simp add: os_ok_def held_def was_held_def nth_list_update)
qed

lemma WndProc_spec:
  assumes "os_ok os" and "WndProc msg os = Inr os'"
  shows "os_ok os'" and "key < NUM_KEYS \<Longrightarrow> held os' key = key_msg key msg (held os key)"
    and "key < NUM_KEYS \<Longrightarrow> was_held os' key = (was_held os key \<and> msg \<noteq> WM_KILLFOCUS)"
    and "IsMouseButtonDown (mouseState os') button = button_msg button msg (IsMouseButtonDown (mouseState os) button)"
    and "TEST_BIT (prevButtons (mouseState os')) n = (TEST_BIT (prevButtons (mouseState os)) n \<and> msg \<noteq> WM_KILLFOCUS)"
    and "cursorState os' = cursorState os"
proof -
  note defs = OnResize_def meOSSetCursorState_def set_button_def UpdateMouseScreenPos_def os_ok_def held_def was_held_def
    IsMouseButtonDown_def TEST_BIT_bit bit_SET_BIT
  have clear: "bitarray_wf NUM_KEYS (bitarray_clear d)" "key < NUM_KEYS \<Longrightarrow> \<not> bitarray_bits NUM_KEYS (bitarray_clear d) ! key"
    if "bitarray_wf NUM_KEYS d" for d key
    using bitarray_clear_spec[OF that] by simp_all
  have "os_ok os' \<and> (key < NUM_KEYS \<longrightarrow> held os' key = key_msg key msg (held os key)) \<and>
    (key < NUM_KEYS \<longrightarrow> was_held os' key = (was_held os key \<and> msg \<noteq> WM_KILLFOCUS)) \<and>
    IsMouseButtonDown (mouseState os') button = button_msg button msg (IsMouseButtonDown (mouseState os) button) \<and>
    TEST_BIT (prevButtons (mouseState os')) n = (TEST_BIT (prevButtons (mouseState os)) n \<and> msg \<noteq> WM_KILLFOCUS) \<and>
    cursorState os' = cursorState os"
  proof (cases "\<exists>k v. WndProc msg os = set_key k v os \<and> msg = (if v then WM_KEYDOWN k else WM_KEYUP k)")
    case True
    then obtain k v where kv: "set_key k v os = Inr os'" "msg = (if v then WM_KEYDOWN k else WM_KEYUP k)"
      using assms(2) by auto
    show ?thesis using set_key_ok[OF assms(1) kv(1)] kv(2) by (cases v) auto
  next
    case False
    then have "\<forall>k. msg \<noteq> WM_KEYDOWN k" "\<forall>k. msg \<noteq> WM_KEYUP k"
      by (metis WndProc.simps(4), metis WndProc.simps(5))
    then show ?thesis
    proof (cases msg)
      case WM_KILLFOCUS
      then show ?thesis using assms clear by (auto simp: defs Let_def)
    next
      case (WM_INPUT raw)
      then show ?thesis using assms by (cases raw) (auto simp: defs split: if_split_asm)
    next
      case (WM_CAPTURECHANGED r)
      then show ?thesis using assms by (cases "useRawInput os"; cases r) (auto simp: defs)
    next
      case (WM_MOUSEMOVE x y)
      then show ?thesis using assms by (cases "useRawInput os") (auto simp: defs)
    next
      case (WM_MOUSEWHEEL d)
      then show ?thesis using assms by (auto simp: defs Let_def require_Inr)
    qed (use assms in \<open>auto simp: defs Let_def\<close>)
  qed
  then show "os_ok os'" "key < NUM_KEYS \<Longrightarrow> held os' key = key_msg key msg (held os key)"
    "key < NUM_KEYS \<Longrightarrow> was_held os' key = (was_held os key \<and> msg \<noteq> WM_KILLFOCUS)"
    "IsMouseButtonDown (mouseState os') button = button_msg button msg (IsMouseButtonDown (mouseState os) button)"
    "TEST_BIT (prevButtons (mouseState os')) n = (TEST_BIT (prevButtons (mouseState os)) n \<and> msg \<noteq> WM_KILLFOCUS)"
    "cursorState os' = cursorState os"
    by simp_all
qed


lemma pump_spec:
  assumes "os_ok os" and "pump msgs (os, run) = Inr (os', run')"
  shows "os_ok os' \<and> run' = (run \<and> WM_QUIT \<notin> set msgs) \<and> cursorState os' = cursorState os \<and>
    (\<forall>key<NUM_KEYS. held os' key = key_after key msgs (held os key) \<and>
       was_held os' key = (was_held os key \<and> WM_KILLFOCUS \<notin> set msgs)) \<and>
    (\<forall>button. IsMouseButtonDown (mouseState os') button = button_after button msgs (IsMouseButtonDown (mouseState os) button)) \<and>
    (\<forall>n. TEST_BIT (prevButtons (mouseState os')) n = (TEST_BIT (prevButtons (mouseState os)) n \<and> WM_KILLFOCUS \<notin> set msgs))"
  using assms
proof (induction msgs arbitrary: os run)
  case (Cons msg msgs)
  obtain os1 where os1: "WndProc msg os = Inr os1" "pump msgs (os1, run \<and> msg \<noteq> WM_QUIT) = Inr (os', run')"
    using Cons.prems(2) by (auto simp: Let_def bindR_Inr split: if_split_asm)
  note msg = WndProc_spec[OF Cons.prems(1) os1(1)]
  show ?case
    using Cons.IH[OF msg(1) os1(2)] msg(2-6) by (auto simp: key_after_def button_after_def)
qed (simp add: key_after_def button_after_def)

lemma wait_iconic_returns: "wait_iconic iconic n \<noteq> None \<longleftrightarrow> (\<exists>m\<ge>n. \<not> iconic m)"
proof
  assume "wait_iconic iconic n \<noteq> None"
  then obtain m where "wait_iconic iconic n = Some m" by auto
  then show "\<exists>m\<ge>n. \<not> iconic m"
  proof (rule wait_iconic.raw_induct[rotated, where P = "\<lambda>iconic n m. \<exists>m\<ge>n. \<not> iconic m"])
    fix f iconic n m
    assume IH: "\<And>iconic n m. f iconic n = Some m \<Longrightarrow> \<exists>m\<ge>n. \<not> iconic (m :: nat)"
      and "(if iconic n then f iconic (Suc n) else Some n) = Some (m :: nat)"
    then show "\<exists>m\<ge>n. \<not> iconic m"
      using IH[of iconic "Suc n" m] by (cases "iconic n") (force dest: Suc_leD)+
  qed
next
  assume "\<exists>m\<ge>n. \<not> iconic m"
  then obtain m where "n \<le> m" "\<not> iconic m" by blast
  then show "wait_iconic iconic n \<noteq> None"
  proof (induction "m - n" arbitrary: n)
    case 0
    then show ?case by (simp add: wait_iconic.simps)
  next
    case (Suc d)
    then show ?case using Suc.hyps(1)[of "Suc n"] by (subst wait_iconic.simps) auto
  qed
qed

lemma keys_spec:
  assumes "os_ok os" and "key < NUM_KEYS"
  shows "IsKeyDown (keyboardState os) key = Inr (held os key)"
    and "IsKeyJustPressed (keyboardState os) key = Inr (held os key \<and> \<not> was_held os key)"
    and "IsKeyJustReleased (keyboardState os) key = Inr (\<not> held os key \<and> was_held os key)"
  using assms by (auto simp: IsKeyDown_def IsKeyJustPressed_def IsKeyJustReleased_def os_ok_def held_def was_held_def bitarray_get_ok)

lemma tick_end_spec:
  assumes "os_ok os"
  shows "\<exists>os'. tick_end registered (os, run) = Inr (os', run \<and> \<not> held os VK_ESCAPE) \<and>
    keyboardState os' = keyboardState os \<and> mouseState os' = mouseState os \<and> cursorState os' = cursorState os"
proof -
  have vk: "VK_ESCAPE < NUM_KEYS" "VK_TAB < NUM_KEYS" by (simp_all add: VK_ESCAPE_def VK_TAB_def NUM_KEYS_def)
  show ?thesis
    using keys_spec(1)[OF assms vk(1)] keys_spec(2)[OF assms vk(2)]
    by (auto simp: tick_end_def IsKeyDown_def meOSSetCursorState_def Let_def)
qed

lemma meOSTick_spec:
  assumes "os_ok os" and "meOSTick registered iconic msgs (os, run) = Some (Inr (os', run'))"
  shows "os_ok os' \<and> cursorState os' = cursorState os \<and> run' = (run \<and> WM_QUIT \<notin> set msgs \<and> \<not> held os' VK_ESCAPE) \<and>
    (\<forall>key<NUM_KEYS. held os' key = key_after key msgs (held os key) \<and>
       was_held os' key = (held os key \<and> WM_KILLFOCUS \<notin> set msgs)) \<and>
    (\<forall>button. IsMouseButtonDown (mouseState os') button = button_after button msgs (IsMouseButtonDown (mouseState os) button) \<and>
       TEST_BIT (prevButtons (mouseState os')) (button_bit button) =
         (IsMouseButtonDown (mouseState os) button \<and> WM_KILLFOCUS \<notin> set msgs))"
proof -
  let ?os = "os\<lparr>mouseState := MouseInputTick (mouseState os), keyboardState := KeyboardInputTick (keyboardState os)\<rparr>"
  have start: "os_ok ?os" "held ?os key = held os key" "was_held ?os key = held os key" "cursorState ?os = cursorState os"
    "IsMouseButtonDown (mouseState ?os) button = IsMouseButtonDown (mouseState os) button"
    "TEST_BIT (prevButtons (mouseState ?os)) (button_bit button) = IsMouseButtonDown (mouseState os) button" for key button
    using assms(1)
    by (simp_all add: os_ok_def held_def was_held_def KeyboardInputTick_def MouseInputTick_def IsMouseButtonDown_def)
  obtain os1 run1 where pump: "pump msgs (?os, run) = Inr (os1, run1)" and wait: "tick_end registered (os1, run1) = Inr (os', run')"
    using assms(2) by (auto simp: meOSTick_def Let_def split: sum.split_asm option.split_asm)
  note p = pump_spec[OF start(1) pump]
  then have "os_ok os1" by blast
  from tick_end_spec[OF this, of registered run1] wait
  have e: "run' = (run1 \<and> \<not> held os1 VK_ESCAPE)" "keyboardState os' = keyboardState os1" "mouseState os' = mouseState os1"
    "cursorState os' = cursorState os1" by auto
  have same: "os_ok os' = os_ok os1" "held os' = held os1" "was_held os' = was_held os1"
    using e(2) by (simp_all add: os_ok_def held_def was_held_def fun_eq_iff)
  show ?thesis using p start e same by auto
qed

section \<open>Properties\<close>

text \<open>
  C38. What a tick reports of a key and of a mouse button: it is down if the last message about it
  says so, or none came and it was down before; losing the focus lets go of everything. It was just
  pressed if it is down and was not at the end of the previous tick, and just released in the
  other case - except that losing the focus in the tick forgets what was held, so nothing counts as
  released then. The engine stops on a quit message and while escape is held.
\<close>

theorem meOSTick_reports:
  assumes "os_ok os" and "meOSTick registered iconic msgs (os, run) = Some (Inr (os', run'))" and "key < NUM_KEYS"
  shows "let now = key_after key msgs (held os key); before = (held os key \<and> WM_KILLFOCUS \<notin> set msgs);
             bnow = button_after button msgs (IsMouseButtonDown (mouseState os) button);
             bbefore = (IsMouseButtonDown (mouseState os) button \<and> WM_KILLFOCUS \<notin> set msgs)
    in os_ok os' \<and> IsKeyDown (keyboardState os') key = Inr now \<and>
       IsKeyJustPressed (keyboardState os') key = Inr (now \<and> \<not> before) \<and>
       IsKeyJustReleased (keyboardState os') key = Inr (\<not> now \<and> before) \<and>
       IsMouseButtonDown (mouseState os') button = bnow \<and>
       IsMouseButtonJustPressed (mouseState os') button = (bnow \<and> \<not> bbefore) \<and>
       IsMouseButtonJustReleased (mouseState os') button = (\<not> bnow \<and> bbefore) \<and>
       run' = (run \<and> WM_QUIT \<notin> set msgs \<and> \<not> held os' VK_ESCAPE)"
proof -
  note t = meOSTick_spec[OF assms(1,2)]
  then have "os_ok os'" by blast
  from keys_spec[OF this assms(3)] t assms(3) show ?thesis
    by (simp add: IsMouseButtonJustPressed_def IsMouseButtonJustReleased_def Let_def)
qed

text \<open>
  The tick returns exactly if the window is not an icon for ever: the loop that waits for it
  handles no messages.
\<close>

theorem meOSTick_returns:
  "meOSTick registered iconic msgs (os, run) \<noteq> None \<longleftrightarrow>
     (\<exists>n. iconic n = False) \<or> (\<exists>e. pump msgs (os\<lparr>mouseState := MouseInputTick (mouseState os),
        keyboardState := KeyboardInputTick (keyboardState os)\<rparr>, run) = Inl e)"
  using wait_iconic_returns[of iconic 0]
  by (auto simp: meOSTick_def Let_def split: sum.split option.split)


text \<open>A key tapped within one tick is missed; held over two ticks it is just pressed once.\<close>

theorem meOSTick_reports_witness:
  "\<exists>os1 os2. meOSTick True (\<lambda>_. False) [WM_KEYDOWN 65, WM_KEYUP 65, WM_KEYDOWN 66] (OSStateView_default, True) = Some (Inr (os1, True)) \<and>
     IsKeyJustPressed (keyboardState os1) 65 = Inr False \<and> IsKeyJustReleased (keyboardState os1) 65 = Inr False \<and>
     IsKeyJustPressed (keyboardState os1) 66 = Inr True \<and>
     meOSTick True (\<lambda>_. False) [] (os1, True) = Some (Inr (os2, True)) \<and> IsKeyJustPressed (keyboardState os2) 66 = Inr False"
proof -
  let ?msgs = "[WM_KEYDOWN 65, WM_KEYUP 65, WM_KEYDOWN 66]"
  have wait: "wait_iconic (\<lambda>_. False) 0 = Some 0" by (simp add: wait_iconic.simps)
  have ok: "os_ok OSStateView_default" by code_simp
  have "\<exists>os1. meOSTick True (\<lambda>_. False) ?msgs (OSStateView_default, True) = Some (Inr (os1, True))"
    unfolding meOSTick_def Let_def OSStateView_default_def by (simp only: prod.case, rule exI) (subst wait, code_simp)
  then obtain os1 where os1: "meOSTick True (\<lambda>_. False) ?msgs (OSStateView_default, True) = Some (Inr (os1, True))" by blast
  have "os_ok os1" "\<not> held os1 VK_ESCAPE" using meOSTick_spec[OF ok os1] by simp_all
  moreover let ?os = "os1\<lparr>mouseState := MouseInputTick (mouseState os1), keyboardState := KeyboardInputTick (keyboardState os1)\<rparr>"
  have "os_ok ?os = os_ok os1" "held ?os VK_ESCAPE = held os1 VK_ESCAPE"
    using \<open>os_ok os1\<close> by (simp_all add: os_ok_def held_def KeyboardInputTick_def)
  ultimately obtain os2 where "tick_end True (?os, True) = Inr (os2, True)"
    using tick_end_spec[of ?os True True] by auto
  then have os2: "meOSTick True (\<lambda>_. False) [] (os1, True) = Some (Inr (os2, True))"
    by (simp add: meOSTick_def wait)
  have keys: "(65 :: nat) < NUM_KEYS" "(66 :: nat) < NUM_KEYS" by (simp_all add: NUM_KEYS_def)
  have "held OSStateView_default 65 = False" "held OSStateView_default 66 = False"
    using keys by (simp_all add: held_def OSStateView_default_def bitarray_bits_init)
  then have first: "IsKeyJustPressed (keyboardState os1) 65 = Inr False" "IsKeyJustReleased (keyboardState os1) 65 = Inr False"
    "IsKeyJustPressed (keyboardState os1) 66 = Inr True" "IsKeyDown (keyboardState os1) 66 = Inr True"
    using meOSTick_reports[OF ok os1 keys(1), of LBUTTON] meOSTick_reports[OF ok os1 keys(2), of LBUTTON]
    by (simp_all add: Let_def key_after_def)
  then have "held os1 66" using keys_spec(1)[OF \<open>os_ok os1\<close> keys(2)] by simp
  then have "IsKeyJustPressed (keyboardState os2) 66 = Inr False"
    using meOSTick_reports[OF \<open>os_ok os1\<close> os2 keys(2), of LBUTTON] by (simp add: Let_def key_after_def)
  then show ?thesis using os1 os2 first by (intro exI[of _ os1] exI[of _ os2]) simp
qed

text \<open>A run of ticks.\<close>

fun meOSTicks :: "(bool \<times> (nat \<Rightarrow> bool) \<times> message list) list \<Rightarrow> OSStateView \<times> bool \<Rightarrow> (OSStateView \<times> bool) result option" where
  "meOSTicks [] s = Some (Inr s)"
| "meOSTicks ((registered, iconic, msgs) # ticks) s =
     (case meOSTick registered iconic msgs s of None \<Rightarrow> None | Some (Inl e) \<Rightarrow> Some (Inl e)
      | Some (Inr s) \<Rightarrow> meOSTicks ticks s)"


lemma meOSTicks_cursor: "os_ok os \<Longrightarrow> meOSTicks ticks (os, run) = Some (Inr (os', run')) \<Longrightarrow> cursorState os' = cursorState os"
proof (induction ticks arbitrary: os run)
  case (Cons t ticks)
  obtain registered iconic msgs where t: "t = (registered, iconic, msgs)" by (cases t)
  then obtain os1 run1 where "meOSTick registered iconic msgs (os, run) = Some (Inr (os1, run1))"
    "meOSTicks ticks (os1, run1) = Some (Inr (os', run'))"
    using Cons.prems(2) by (auto split: option.split_asm sum.split_asm)
  with Cons.IH meOSTick_spec[OF Cons.prems(1)] show ?case by metis
qed simp

text \<open>
  Nothing ever writes the cursor state: over any number of ticks it stays \<open>FREE\<close>, whatever
  the window captures, so the editor's test that the cursor is free before it picks is always true.
\<close>

theorem cursorState_never_captured:
  assumes "meOSTicks ticks (OSStateView_default, True) = Some (Inr (os, run))"
  shows "cursorState os = FREE"
proof -
  have "os_ok OSStateView_default" by code_simp
  from meOSTicks_cursor[OF this assms] show ?thesis by (simp add: OSStateView_default_def)
qed

theorem cursorState_never_captured_witness:
  "\<exists>os. meOSTicks [(True, (\<lambda>_. False), [WM_KEYDOWN 9])] (OSStateView_default, True) = Some (Inr (os, True)) \<and>
     useRawInput os \<and> cursorState os = FREE"
proof -
  have wait: "wait_iconic (\<lambda>_. False) 0 = Some 0" by (simp add: wait_iconic.simps)
  have "map_option (map_sum id (\<lambda>(os, run). (useRawInput os, run))) (meOSTicks [(True, (\<lambda>_. False), [WM_KEYDOWN 9])] (OSStateView_default, True)) =
      Some (Inr (True, True))"
    unfolding meOSTicks.simps meOSTick_def Let_def OSStateView_default_def by (simp only: prod.case) (subst wait, code_simp)
  then obtain os where os: "meOSTicks [(True, (\<lambda>_. False), [WM_KEYDOWN 9])] (OSStateView_default, True) = Some (Inr (os, True))" "useRawInput os"
    by (cases "meOSTicks [(True, (\<lambda>_. False), [WM_KEYDOWN 9])] (OSStateView_default, True)"; cases "the (meOSTicks [(True, (\<lambda>_. False), [WM_KEYDOWN 9])] (OSStateView_default, True))") (auto simp del: meOSTicks.simps)
  then show ?thesis using cursorState_never_captured by blast
qed

end
