(* ===== verification/Spans.thy ===== *)
theory Spans
  imports Prelude
begin

text \<open>
  Spans (\<open>core/containers/me_span.h\<close>) and the cursor buffer of \<open>core/me_memory.h\<close>. A span is a
  memory object, a position in it and a size in bytes; a null span has no object.
\<close>

section \<open>Spans\<close>

record meSpan =
  sp_data :: "u8 list option"
  sp_at :: nat
  sp_size :: nat

definition meSpan_default :: meSpan where
  "meSpan_default = \<lparr>sp_data = None, sp_at = 0, sp_size = 0\<rparr>"

definition Subspan :: "nat \<Rightarrow> meSpan \<Rightarrow> meSpan result" where
  "Subspan offset s = ME_ASSERT (sp_size s \<ge> offset)
     (Inr (s\<lparr>sp_at := sp_at s + offset, sp_size := sp_size s - offset\<rparr>))"

definition SubspanLen :: "nat \<Rightarrow> nat \<Rightarrow> meSpan \<Rightarrow> meSpan result" where
  "SubspanLen offset len s = ME_ASSERT (sp_size s \<ge> offset) (ME_ASSERT (sp_size s - offset \<ge> len)
     (Inr (s\<lparr>sp_at := sp_at s + offset, sp_size := len\<rparr>)))"

definition meSpan_bool :: "meSpan \<Rightarrow> bool" where
  "meSpan_bool s \<longleftrightarrow> sp_data s \<noteq> None \<and> sp_size s \<noteq> 0"

definition meSpan_isValid :: "meSpan \<Rightarrow> bool" where
  "meSpan_isValid s \<longleftrightarrow> sp_data s \<noteq> None \<and> sp_size s > 0"

text \<open>\<open>operator[]\<close> of a span of bytes.\<close>

definition meSpan_index :: "meSpan \<Rightarrow> nat \<Rightarrow> u8 result" where
  "meSpan_index s idx = ME_ASSERT (idx < sp_size s)
     (case sp_data s of None \<Rightarrow> Inl NullDeref | Some d \<Rightarrow> readAt (sp_at s + idx) d)"

definition span_wf :: "meSpan \<Rightarrow> bool" where
  "span_wf s = (case sp_data s of None \<Rightarrow> sp_size s = 0 | Some d \<Rightarrow> sp_at s + sp_size s \<le> length d)"

definition span_bytes :: "meSpan \<Rightarrow> u8 list" where
  "span_bytes s = (case sp_data s of None \<Rightarrow> [] | Some d \<Rightarrow> take (sp_size s) (drop (sp_at s) d))"

lemma span_index_ok: "span_wf s \<Longrightarrow> idx < sp_size s \<Longrightarrow> meSpan_index s idx = Inr (span_bytes s ! idx)"
  by (auto simp: meSpan_index_def span_wf_def span_bytes_def split: option.splits)

text \<open>
  A part of a span is inside the span and holds the bytes at its place; whatever does not fit
  fails an assertion, also where offset and length would add up beyond 64 bits.
\<close>

theorem SubspanLen_part:
  assumes "span_wf s"
  shows "SubspanLen offset len s =
      (if offset + len \<le> sp_size s then Inr (s\<lparr>sp_at := sp_at s + offset, sp_size := len\<rparr>) else Inl AssertFailed) \<and>
    (case SubspanLen offset len s of Inl e \<Rightarrow> True
     | Inr t \<Rightarrow> span_wf t \<and> span_bytes t = take len (drop offset (span_bytes s)))"
  using assms
  by (auto simp: SubspanLen_def ME_ASSERT_def require_def span_wf_def span_bytes_def drop_take min_absorb1 add.commute
      split: option.splits)

theorem SubspanLen_part_witness:
  "SubspanLen 1 2 \<lparr>sp_data = Some [9, 8, 7, 6, 5], sp_at = 1, sp_size = 3\<rparr> = Inr \<lparr>sp_data = Some [9, 8, 7, 6, 5], sp_at = 2, sp_size = 2\<rparr>"
  using SubspanLen_part[of "\<lparr>sp_data = Some [9, 8, 7, 6, 5], sp_at = 1, sp_size = 3\<rparr>" 1 2] by (simp add: span_wf_def)

section \<open>The cursor buffer\<close>

text \<open>The bounds check of \<open>read\<close> adds in 32 bits; the copy reads the memory behind the pointer.\<close>

record meCursorBuffer =
  cb_data :: "u8 list"
  cb_size :: nat
  cb_cursor :: nat

definition cb_read :: "nat \<Rightarrow> meCursorBuffer \<Rightarrow> (u8 list option \<times> meCursorBuffer) result" where
  "cb_read len b =
     (if wrap32 (cb_cursor b + len) > cb_size b then Inr (None, b)
      else require OutOfBounds (cb_cursor b + len \<le> length (cb_data b))
        (Inr (Some (take len (drop (cb_cursor b) (cb_data b))), b\<lparr>cb_cursor := wrap32 (cb_cursor b + len)\<rparr>)))"

definition cb_skip :: "nat \<Rightarrow> meCursorBuffer \<Rightarrow> meCursorBuffer" where
  "cb_skip n b = b\<lparr>cb_cursor := wrap32 (cb_cursor b + n)\<rparr>"

definition cb_eof :: "meCursorBuffer \<Rightarrow> bool" where
  "cb_eof b \<longleftrightarrow> cb_cursor b \<ge> cb_size b"

text \<open>Reading field after field.\<close>

fun cb_reads :: "nat list \<Rightarrow> meCursorBuffer \<Rightarrow> (u8 list list option \<times> meCursorBuffer) result" where
  "cb_reads [] b = Inr (Some [], b)"
| "cb_reads (len # lens) b =
     bindR (cb_read len b) (\<lambda>(out, b).
       case out of None \<Rightarrow> Inr (None, b)
       | Some x \<Rightarrow> bindR (cb_reads lens b) (\<lambda>(rest, b). Inr (map_option (\<lambda>xs. x # xs) rest, b)))"

definition cb_ok :: "meCursorBuffer \<Rightarrow> bool" where
  "cb_ok b \<longleftrightarrow> cb_size b = length (cb_data b) \<and> cb_size b < 2 ^ 32 \<and> cb_cursor b \<le> cb_size b"

lemma cb_read_ok:
  assumes "cb_ok b" and "cb_cursor b + len < 2 ^ 32"
  shows "cb_read len b = (if cb_cursor b + len \<le> cb_size b
    then Inr (Some (take len (drop (cb_cursor b) (cb_data b))), b\<lparr>cb_cursor := cb_cursor b + len\<rparr>) else Inr (None, b))"
  using assms by (simp add: cb_read_def cb_ok_def)

text \<open>
  Reading fields of given lengths from a cursor buffer cuts the bytes at the cursor into these
  lengths, one behind the other, and leaves the cursor behind the last; the buffer is never read
  outside. This is for lengths that do not carry the cursor over the end of 32 bits: one that does
  passes the check of the bounds and reads outside.
\<close>

theorem cb_reads_fields:
  assumes "cb_ok b" and "cb_cursor b + sum_list lens \<le> cb_size b"
  shows "(\<exists>fields. cb_reads lens b = Inr (Some fields, b\<lparr>cb_cursor := cb_cursor b + sum_list lens\<rparr>) \<and>
      map length fields = lens \<and> concat fields = take (sum_list lens) (drop (cb_cursor b) (cb_data b))) \<and>
    cb_read (2 ^ 32 - cb_cursor b) b = Inl OutOfBounds"
proof
  show "\<exists>fields. cb_reads lens b = Inr (Some fields, b\<lparr>cb_cursor := cb_cursor b + sum_list lens\<rparr>) \<and>
      map length fields = lens \<and> concat fields = take (sum_list lens) (drop (cb_cursor b) (cb_data b))"
    using assms
  proof (induction lens arbitrary: b)
    case (Cons len lens)
    let ?b = "b\<lparr>cb_cursor := cb_cursor b + len\<rparr>"
    have read: "cb_read len b = Inr (Some (take len (drop (cb_cursor b) (cb_data b))), ?b)"
      using Cons.prems cb_read_ok[OF Cons.prems(1), of len] by (simp add: cb_ok_def)
    obtain fields where "cb_reads lens ?b = Inr (Some fields, ?b\<lparr>cb_cursor := cb_cursor ?b + sum_list lens\<rparr>)"
      "map length fields = lens" "concat fields = take (sum_list lens) (drop (cb_cursor ?b) (cb_data ?b))"
      using Cons.IH[of ?b] Cons.prems by (auto simp: cb_ok_def)
    moreover have "take (len + sum_list lens) (drop (cb_cursor b) (cb_data b)) =
        take len (drop (cb_cursor b) (cb_data b)) @ take (sum_list lens) (drop (cb_cursor b + len) (cb_data b))"
      by (simp add: take_add add.commute)
    ultimately show ?case
      using read Cons.prems
      by (intro exI[of _ "take len (drop (cb_cursor b) (cb_data b)) # fields"]) (simp add: cb_ok_def add.assoc)
  qed simp
  show "cb_read (2 ^ 32 - cb_cursor b) b = Inl OutOfBounds"
    using assms(1) by (simp add: cb_read_def cb_ok_def wrap32_def require_def)
qed


theorem cb_reads_fields_witness:
  "\<exists>fields. cb_reads [1, 2] \<lparr>cb_data = [9, 8, 7, 6], cb_size = 4, cb_cursor = 1\<rparr> =
     Inr (Some fields, \<lparr>cb_data = [9, 8, 7, 6], cb_size = 4, cb_cursor = 4\<rparr>) \<and> concat fields = [8, 7, 6]"
  using cb_reads_fields[of "\<lparr>cb_data = [9, 8, 7, 6], cb_size = 4, cb_cursor = 1\<rparr>" "[1, 2]"] by (auto simp: cb_ok_def)

end
