(* ===== verification/RelPtrs.thy ===== *)
theory RelPtrs
  imports Bits
begin

text \<open>
  Relative pointers (\<open>core/me_ptrs.h\<close>) and two module tests: of the relative pointers
  (\<open>core/me_ptrs.cpp\<close>) and of the bit array (\<open>core/containers/me_bitarray.h\<close>). A pointer is a
  64-bit address, the null pointer is 0; a relative pointer is its offset, and \<open>self\<close> the address
  it is stored at.
\<close>

type_synonym address = u64
type_synonym meRelPtr = u64

definition meRelPtr_default :: meRelPtr where
  "meRelPtr_default = 0"

definition meRelPtr_of :: "address \<Rightarrow> address \<Rightarrow> meRelPtr" where
  "meRelPtr_of self ptr = (if ptr \<noteq> 0 then ptr - self else 0)"

definition meRelPtr_Get :: "address \<Rightarrow> meRelPtr \<Rightarrow> address" where
  "meRelPtr_Get self offset = (if offset \<noteq> 0 then self + offset else 0)"

definition meRelPtr_assign :: "address \<Rightarrow> address \<Rightarrow> meRelPtr" where
  "meRelPtr_assign self ptr = (if ptr \<noteq> 0 then ptr - self else 0)"

definition meRelPtr_Clear :: meRelPtr where
  "meRelPtr_Clear = 0"

definition meRelPtr_bool :: "meRelPtr \<Rightarrow> bool" where
  "meRelPtr_bool offset \<longleftrightarrow> offset \<noteq> 0"

text \<open>
  A relative pointer gives back the address it was set to, from where it is stored. Moved or
  copied together with what it points to it points to the copy. The one address it cannot hold is
  its own: that reads as null.
\<close>

theorem meRelPtr_relocates:
  "meRelPtr_Get self (meRelPtr_assign self ptr) = (if ptr = self then 0 else ptr) \<and>
   meRelPtr_Get (self + distance) (meRelPtr_assign self ptr) =
     (if ptr = 0 then 0 else if ptr = self then 0 else ptr + distance) \<and>
   meRelPtr_bool (meRelPtr_assign self ptr) = (ptr \<noteq> 0 \<and> ptr \<noteq> self)"
  by (auto simp: meRelPtr_Get_def meRelPtr_assign_def meRelPtr_bool_def algebra_simps)

section \<open>The test of relative pointers\<close>

text \<open>
  The record of the test: its pointer lies at its address, its value eight bytes behind. The two
  records are at \<open>record\<close> and \<open>copy\<close>; \<open>load\<close> reads an integer at an address.
\<close>

record meRelPtrTestRecord =
  rt_ptr :: meRelPtr
  rt_value :: int

definition load :: "(address \<times> meRelPtrTestRecord) list \<Rightarrow> address \<Rightarrow> int result" where
  "load objects at = (case map_of (map (\<lambda>(a, r). (a + 8, rt_value r)) objects) at of Some v \<Rightarrow> Inr v | None \<Rightarrow> Inl Dangling)"

definition test_points :: "(address \<times> meRelPtrTestRecord) list \<Rightarrow> address \<Rightarrow> meRelPtrTestRecord \<Rightarrow> int \<Rightarrow> unit result" where
  "test_points objects at r v =
     ME_ASSERT (meRelPtr_bool (rt_ptr r)) (ME_ASSERT (meRelPtr_Get at (rt_ptr r) = at + 8)
       (bindR (load objects (meRelPtr_Get at (rt_ptr r))) (\<lambda>x. ME_ASSERT (x = v) (Inr ()))))"

definition meRelPtrTests :: "address \<Rightarrow> address \<Rightarrow> unit result" where
  "meRelPtrTests at_record at_copy =
     ME_ASSERT (\<not> meRelPtr_bool meRelPtr_default) (ME_ASSERT (meRelPtr_Get 0 meRelPtr_default = 0)
      (let r = \<lparr>rt_ptr = meRelPtr_default, rt_value = 42\<rparr>;
           r = r\<lparr>rt_ptr := meRelPtr_assign at_record (at_record + 8)\<rparr>
       in bindR (test_points [(at_record, r)] at_record r 42) (\<lambda>_.
          let c = r in
          bindR (test_points [(at_record, r), (at_copy, c)] at_copy c 42) (\<lambda>_.
          let c = c\<lparr>rt_value := 321\<rparr> in
          bindR (load [(at_record, r), (at_copy, c)] (meRelPtr_Get at_record (rt_ptr r))) (\<lambda>x. ME_ASSERT (x = 42)
          (bindR (load [(at_record, r), (at_copy, c)] (meRelPtr_Get at_copy (rt_ptr c))) (\<lambda>x. ME_ASSERT (x = 321)
          (let r = r\<lparr>rt_ptr := meRelPtr_Clear\<rparr>
           in ME_ASSERT (\<not> meRelPtr_bool (rt_ptr r)) (ME_ASSERT (meRelPtr_Get at_record (rt_ptr r) = 0) (Inr ()))))))))))"

text \<open>The test passes wherever the compiler puts the two records.\<close>

lemma meRelPtrTests_passes:
  assumes "at_record \<noteq> at_copy" and "at_record + 8 \<noteq> 0"
  shows "meRelPtrTests at_record at_copy = Inr ()"
  using assms
  by (simp add: meRelPtrTests_def test_points_def load_def meRelPtr_default_def meRelPtr_bool_def meRelPtr_Get_def
      meRelPtr_assign_def meRelPtr_Clear_def Let_def)

section \<open>The test of the bit array\<close>

fun set_bits :: "nat list \<Rightarrow> bitarray \<Rightarrow> bitarray result" where
  "set_bits [] bits = Inr bits"
| "set_bits (i # is) bits = bindR (bitarray_set 64 bits i True) (set_bits is)"

fun flip_bits :: "nat list \<Rightarrow> bitarray \<Rightarrow> bitarray result" where
  "flip_bits [] bits = Inr bits"
| "flip_bits (i # is) bits =
     bindR (bitarray_get bits i) (\<lambda>v. bindR (bitarray_set 64 bits i (\<not> v)) (flip_bits is))"

fun check_bits :: "(nat \<Rightarrow> bool) \<Rightarrow> nat list \<Rightarrow> bitarray \<Rightarrow> bitarray result" where
  "check_bits expected [] bits = Inr bits"
| "check_bits expected (i # is) bits =
     bindR (bitarray_get bits i) (\<lambda>v. ME_ASSERT (v = expected i) (check_bits expected is bits))"

definition TestmeBitArray :: "bitarray result" where
  "TestmeBitArray =
     ME_ASSERT (bitarray_count 64 = 64)
      (bindR (check_bits (\<lambda>i. False) [0..<64] (bitarray_init 64 False)) (\<lambda>bits.
       bindR (set_bits (filter even [0..<64]) bits) (\<lambda>bits.
       bindR (check_bits (\<lambda>i. i mod 2 = 0) [0..<64] bits) (\<lambda>bits.
       bindR (flip_bits [0..<64] bits) (\<lambda>bits.
       bindR (check_bits (\<lambda>i. i mod 2 = 1) [0..<64] bits) (\<lambda>bits.
       bindR (bitarray_set 64 bits 10 True) (\<lambda>bits.
       bindR (bitarray_get bits 10) (\<lambda>v. ME_ASSERT v
        (bitarray_set 64 bits 10 False)))))))))"

lemma check_bits_ok:
  assumes "bitarray_wf 64 bits"
  shows "list_all (\<lambda>i. i < 64 \<and> bitarray_bits 64 bits ! i = expected i) is \<Longrightarrow> check_bits expected is bits = Inr bits"
  using assms by (induction "is") (simp_all add: bitarray_get_ok)

lemma set_bits_spec:
  "bitarray_wf 64 bits \<Longrightarrow> list_all (\<lambda>i. i < 64) is \<Longrightarrow>
   \<exists>bits'. set_bits is bits = Inr bits' \<and> bitarray_wf 64 bits' \<and>
     (\<forall>j<64. bitarray_bits 64 bits' ! j = (j \<in> set is \<or> bitarray_bits 64 bits ! j))"
proof (induction "is" arbitrary: bits)
  case (Cons i "is")
  obtain bits1 where bits1: "bitarray_set 64 bits i True = Inr bits1" "bitarray_wf 64 bits1"
    "bitarray_bits 64 bits1 = (bitarray_bits 64 bits)[i := True]"
    using bitarray_set_spec[OF Cons.prems(1), of i True] Cons.prems(2) by auto
  with Cons.IH[OF bits1(2)] Cons.prems(2) show ?case by (auto simp: nth_list_update)
qed simp

lemma flip_bits_spec:
  "bitarray_wf 64 bits \<Longrightarrow> list_all (\<lambda>i. i < 64) is \<Longrightarrow> distinct is \<Longrightarrow>
   \<exists>bits'. flip_bits is bits = Inr bits' \<and> bitarray_wf 64 bits' \<and>
     (\<forall>j<64. bitarray_bits 64 bits' ! j = (bitarray_bits 64 bits ! j \<noteq> (j \<in> set is)))"
proof (induction "is" arbitrary: bits)
  case (Cons i "is")
  obtain bits1 where bits1: "bitarray_set 64 bits i (\<not> bitarray_bits 64 bits ! i) = Inr bits1" "bitarray_wf 64 bits1"
    "bitarray_bits 64 bits1 = (bitarray_bits 64 bits)[i := \<not> bitarray_bits 64 bits ! i]"
    using bitarray_set_spec[OF Cons.prems(1), of i] Cons.prems(2) by auto
  with Cons.IH[OF bits1(2)] Cons.prems show ?case by (auto simp: nth_list_update bitarray_get_ok)
qed simp

text \<open>The test passes, and leaves the odd bits set.\<close>

lemma TestmeBitArray_passes: "\<exists>bits. TestmeBitArray = Inr bits \<and> (\<forall>j<64. bitarray_bits 64 bits ! j = odd j)"
proof -
  let ?b0 = "bitarray_init 64 False"
  have b0: "bitarray_wf 64 ?b0" "check_bits (\<lambda>i. False) [0..<64] ?b0 = Inr ?b0"
    using check_bits_ok[OF bitarray_wf_init[of 64 False], of "\<lambda>i. False" "[0..<64]"]
    by (simp_all add: bitarray_wf_init bitarray_bits_init list_all_iff)
  obtain b1 where b1: "set_bits (filter even [0..<64]) ?b0 = Inr b1" "bitarray_wf 64 b1"
    "\<forall>j<64. bitarray_bits 64 b1 ! j = even j"
    using set_bits_spec[OF b0(1), of "filter even [0..<64]"] by (auto simp: list_all_iff bitarray_bits_init)
  have c1: "check_bits (\<lambda>i. i mod 2 = 0) [0..<64] b1 = Inr b1"
    using b1(3) by (intro check_bits_ok b1(2)) (simp add: list_all_iff even_iff_mod_2_eq_zero)
  obtain b2 where b2: "flip_bits [0..<64] b1 = Inr b2" "bitarray_wf 64 b2" "\<forall>j<64. bitarray_bits 64 b2 ! j = odd j"
    using flip_bits_spec[OF b1(2), of "[0..<64]"] b1(3) by (auto simp: list_all_iff)
  have c2: "check_bits (\<lambda>i. i mod 2 = 1) [0..<64] b2 = Inr b2"
    using b2(3) by (intro check_bits_ok b2(2)) (simp add: list_all_iff odd_iff_mod_2_eq_one)
  obtain b3 where b3: "bitarray_set 64 b2 10 True = Inr b3" "bitarray_wf 64 b3" "bitarray_bits 64 b3 = (bitarray_bits 64 b2)[10 := True]"
    using bitarray_set_spec[OF b2(2), of 10 True] by auto
  obtain b4 where b4: "bitarray_set 64 b3 10 False = Inr b4" "bitarray_bits 64 b4 = (bitarray_bits 64 b3)[10 := False]"
    using bitarray_set_spec[OF b3(2), of 10 False] by auto
  have "TestmeBitArray = Inr b4"
    using b0(2) b1(1) c1 b2(1) c2 b3 b4(1) by (simp add: TestmeBitArray_def bitarray_count_def bitarray_get_ok)
  moreover have "\<forall>j<64. bitarray_bits 64 b4 ! j = odd j"
    using b2(3) b3(3) b4(2) by (simp add: nth_list_update)
  ultimately show ?thesis by blast
qed

end
