(* ===== verification/Treemaps.thy ===== *)
theory Treemaps
  imports Complex_Main Prelude
begin

text \<open>
  The squarified treemap of \<open>algo/me_treemap.h\<close>. Numbers are those of an ordered field: the
  arithmetic is exact where the program rounds, and there is no NaN. Sizes are a list where the
  code passes a pointer and a count; the rows of the result are checked against the array of 32
  rectangles the code keeps them in.
\<close>

section \<open>Rows and columns\<close>

record 'a meTreemapRect =
  tr_x :: 'a
  tr_y :: 'a
  tr_w :: 'a
  tr_h :: 'a

record 'a meTreemapItem =
  ti_value :: 'a
  ti_userData :: "nat option"
  ti_rect :: "'a meTreemapRect"

fun sum_sizes :: "'a::linordered_field \<Rightarrow> 'a list \<Rightarrow> 'a" where
  "sum_sizes acc [] = acc"
| "sum_sizes acc (s # sizes) = sum_sizes (acc + s) sizes"

definition me_treemap_normalize_sizes :: "'a::linordered_field list \<Rightarrow> 'a \<Rightarrow> 'a \<Rightarrow> 'a list" where
  "me_treemap_normalize_sizes sizes w h =
     (let sum = sum_sizes 0 sizes; area = w * h in map (\<lambda>s. s * area / sum) sizes)"

definition me_treemap_pad_rect :: "'a::linordered_field meTreemapRect \<Rightarrow> 'a meTreemapRect" where
  "me_treemap_pad_rect rect =
     (let rect = (if tr_w rect > 2 then rect\<lparr>tr_x := tr_x rect + 1, tr_w := tr_w rect - 2\<rparr> else rect)
      in if tr_h rect > 2 then rect\<lparr>tr_y := tr_y rect + 1, tr_h := tr_h rect - 2\<rparr> else rect)"

fun row_rects :: "'a::linordered_field \<Rightarrow> 'a \<Rightarrow> 'a \<Rightarrow> 'a list \<Rightarrow> 'a meTreemapRect list" where
  "row_rects width x yoff [] = []"
| "row_rects width x yoff (s # sizes) =
     (let h = s / width
      in \<lparr>tr_x = x, tr_y = yoff, tr_w = width, tr_h = h\<rparr> # row_rects width x (yoff + h) sizes)"

definition me_treemap_layout_row :: "'a::linordered_field list \<Rightarrow> 'a \<Rightarrow> 'a \<Rightarrow> 'a \<Rightarrow> 'a \<Rightarrow> 'a meTreemapRect list" where
  "me_treemap_layout_row sizes x y dx dy =
     (let covered_area = sum_sizes 0 sizes; width = covered_area / dy in row_rects width x y sizes)"

fun col_rects :: "'a::linordered_field \<Rightarrow> 'a \<Rightarrow> 'a \<Rightarrow> 'a list \<Rightarrow> 'a meTreemapRect list" where
  "col_rects height xoff y [] = []"
| "col_rects height xoff y (s # sizes) =
     (let w = s / height
      in \<lparr>tr_x = xoff, tr_y = y, tr_w = w, tr_h = height\<rparr> # col_rects height (xoff + w) y sizes)"

definition me_treemap_layout_col :: "'a::linordered_field list \<Rightarrow> 'a \<Rightarrow> 'a \<Rightarrow> 'a \<Rightarrow> 'a \<Rightarrow> 'a meTreemapRect list" where
  "me_treemap_layout_col sizes x y dx dy =
     (let covered_area = sum_sizes 0 sizes; height = covered_area / dx in col_rects height x y sizes)"

definition me_treemap_layout :: "'a::linordered_field list \<Rightarrow> 'a \<Rightarrow> 'a \<Rightarrow> 'a \<Rightarrow> 'a \<Rightarrow> 'a meTreemapRect list" where
  "me_treemap_layout sizes x y dx dy =
     (if dx \<ge> dy then me_treemap_layout_row sizes x y dx dy else me_treemap_layout_col sizes x y dx dy)"

definition me_treemap_leftover_row ::
    "'a::linordered_field list \<Rightarrow> 'a \<Rightarrow> 'a \<Rightarrow> 'a \<Rightarrow> 'a \<Rightarrow> 'a \<times> 'a \<times> 'a \<times> 'a" where
  "me_treemap_leftover_row sizes x y dx dy =
     (let covered_area = sum_sizes 0 sizes; width = covered_area / dy in (x + width, y, dx - width, dy))"

definition me_treemap_leftover_col ::
    "'a::linordered_field list \<Rightarrow> 'a \<Rightarrow> 'a \<Rightarrow> 'a \<Rightarrow> 'a \<Rightarrow> 'a \<times> 'a \<times> 'a \<times> 'a" where
  "me_treemap_leftover_col sizes x y dx dy =
     (let covered_area = sum_sizes 0 sizes; height = covered_area / dx in (x, y + height, dx, dy - height))"

definition me_treemap_leftover ::
    "'a::linordered_field list \<Rightarrow> 'a \<Rightarrow> 'a \<Rightarrow> 'a \<Rightarrow> 'a \<Rightarrow> 'a \<times> 'a \<times> 'a \<times> 'a" where
  "me_treemap_leftover sizes x y dx dy =
     (if dx \<ge> dy then me_treemap_leftover_row sizes x y dx dy else me_treemap_leftover_col sizes x y dx dy)"

section \<open>Choosing the rows\<close>

definition max_row :: nat where
  "max_row = 32"

definition rect_ratio :: "'a::linordered_field meTreemapRect \<Rightarrow> 'a" where
  "rect_ratio r = (if tr_w r > tr_h r then tr_w r / tr_h r else tr_h r / tr_w r)"

definition me_treemap_worst_ratio :: "'a::linordered_field list \<Rightarrow> 'a \<Rightarrow> 'a \<Rightarrow> 'a \<Rightarrow> 'a \<Rightarrow> 'a" where
  "me_treemap_worst_ratio sizes x y dx dy =
     (if length sizes > max_row then 1000000000
      else foldl (\<lambda>worst r. let ratio = rect_ratio r in if ratio > worst then ratio else worst) 0
             (me_treemap_layout sizes x y dx dy))"

function row_size :: "'a::linordered_field list \<Rightarrow> 'a \<Rightarrow> 'a \<Rightarrow> 'a \<Rightarrow> 'a \<Rightarrow> nat \<Rightarrow> nat" where
  "row_size sizes x y dx dy i =
     (if i < length sizes \<and>
         me_treemap_worst_ratio (take i sizes) x y dx dy \<ge> me_treemap_worst_ratio (take (i + 1) sizes) x y dx dy
      then row_size sizes x y dx dy (i + 1) else i)"
  by pat_completeness auto

termination
  by (relation "measure (\<lambda>(sizes, x, y, dx, dy, i). length sizes - i)") auto

declare row_size.simps [simp del]

lemma row_size_bounds: "i \<le> length sizes \<Longrightarrow> i \<le> row_size sizes x y dx dy i \<and> row_size sizes x y dx dy i \<le> length sizes"
proof (induction sizes x y dx dy i rule: row_size.induct)
  case (1 sizes x y dx dy i)
  then show ?case by (subst (1 2) row_size.simps) auto
qed

section \<open>The layout\<close>

text \<open>
  The user data of an item, if there is any; storing a row in the result; and the whole layout.
  A row of more than 32 items is written behind the array of its rectangles.
\<close>

definition user_at :: "nat list option \<Rightarrow> nat \<Rightarrow> nat option result" where
  "user_at userData j = (case userData of None \<Rightarrow> Inr None | Some us \<Rightarrow> bindR (readAt j us) (\<lambda>u. Inr (Some u)))"

fun store_row ::
    "'a meTreemapRect list \<Rightarrow> 'a list \<Rightarrow> nat list option \<Rightarrow> nat \<Rightarrow> nat \<Rightarrow> 'a meTreemapItem list \<Rightarrow> 'a meTreemapItem list result" where
  "store_row (r # rects) (s # sizes) userData outOffset j outItems =
     bindR (user_at userData j) (\<lambda>u.
     bindR (writeAt (outOffset + j) \<lparr>ti_value = s, ti_userData = u, ti_rect = r\<rparr> outItems) (\<lambda>outItems.
       store_row rects sizes userData outOffset (Suc j) outItems))"
| "store_row _ _ userData outOffset j outItems = Inr outItems"

function me_treemap_squarify_impl ::
    "'a::linordered_field list \<Rightarrow> nat list option \<Rightarrow> 'a \<Rightarrow> 'a \<Rightarrow> 'a \<Rightarrow> 'a \<Rightarrow> 'a meTreemapItem list \<Rightarrow> nat \<Rightarrow>
     (nat \<times> 'a meTreemapItem list) result" where
  "me_treemap_squarify_impl sizes userData x y dx dy outItems outOffset =
     (case sizes of [] \<Rightarrow> Inr (outOffset, outItems)
      | [s] \<Rightarrow>
          bindR (user_at userData 0) (\<lambda>u.
          bindR (writeAt outOffset \<lparr>ti_value = s, ti_userData = u, ti_rect = \<lparr>tr_x = x, tr_y = y, tr_w = dx, tr_h = dy\<rparr>\<rparr> outItems)
            (\<lambda>outItems. Inr (outOffset + 1, outItems)))
      | _ \<Rightarrow>
          (let i = row_size sizes x y dx dy 1;
               row = take i sizes
           in require OutOfBounds (i \<le> max_row)
             (bindR (store_row (me_treemap_layout row x y dx dy) row userData outOffset 0 outItems) (\<lambda>outItems.
                let (lx, ly, ldx, ldy) = me_treemap_leftover row x y dx dy
                in me_treemap_squarify_impl (drop i sizes) (map_option (drop i) userData) lx ly ldx ldy outItems (outOffset + i)))))"
  by pat_completeness auto

termination
proof (relation "measure (\<lambda>(sizes, _). length sizes)", goal_cases)
  case (2 sizes userData x y dx dy outItems outOffset s ss s2 ss2 i row)
  then show ?case using row_size_bounds[of 1 sizes x y dx dy] by auto
qed simp

declare me_treemap_squarify_impl.simps [simp del]

definition me_treemap_squarify ::
    "'a::linordered_field list \<Rightarrow> nat list option \<Rightarrow> 'a meTreemapRect \<Rightarrow> 'a meTreemapItem list \<Rightarrow> bool \<Rightarrow> 'a meTreemapItem list result" where
  "me_treemap_squarify sizes userData bounds outItems pad =
     bindR (me_treemap_squarify_impl sizes userData (tr_x bounds) (tr_y bounds) (tr_w bounds) (tr_h bounds) outItems 0)
       (\<lambda>(n, outItems).
         if pad
         then require OutOfBounds (length sizes \<le> length outItems)
           (Inr (map (\<lambda>item. item\<lparr>ti_rect := me_treemap_pad_rect (ti_rect item)\<rparr>) (take (length sizes) outItems) @
                 drop (length sizes) outItems))
         else Inr outItems)"


section \<open>The rectangles of a layout\<close>

text \<open>The rectangles alone, and the items made of them.\<close>

function treemap_rects :: "'a::linordered_field list \<Rightarrow> 'a \<Rightarrow> 'a \<Rightarrow> 'a \<Rightarrow> 'a \<Rightarrow> 'a meTreemapRect list" where
  "treemap_rects sizes x y dx dy =
     (case sizes of [] \<Rightarrow> [] | [s] \<Rightarrow> [\<lparr>tr_x = x, tr_y = y, tr_w = dx, tr_h = dy\<rparr>]
      | _ \<Rightarrow> (let i = row_size sizes x y dx dy 1;
                  (lx, ly, ldx, ldy) = me_treemap_leftover (take i sizes) x y dx dy
              in me_treemap_layout (take i sizes) x y dx dy @ treemap_rects (drop i sizes) lx ly ldx ldy))"
  by pat_completeness auto

termination
proof (relation "measure (\<lambda>(sizes, _). length sizes)", goal_cases)
  case (2 sizes x y dx dy s ss s2 ss2 i)
  then show ?case using row_size_bounds[of 1 sizes x y dx dy] by auto
qed simp

declare treemap_rects.simps [simp del]

fun items_of :: "'a meTreemapRect list \<Rightarrow> 'a list \<Rightarrow> nat list option \<Rightarrow> 'a meTreemapItem list" where
  "items_of (r # rects) (s # sizes) userData =
     \<lparr>ti_value = s, ti_userData = map_option hd userData, ti_rect = r\<rparr> # items_of rects sizes (map_option tl userData)"
| "items_of _ _ userData = []"

lemma length_items_of [simp]: "length (items_of rects sizes userData) = min (length rects) (length sizes)"
  by (induction rects sizes userData rule: items_of.induct) auto

lemma items_of_append:
  "length rects = length sizes \<Longrightarrow> items_of (rects @ rects') (sizes @ sizes') userData =
     items_of rects sizes userData @ items_of rects' sizes' (map_option (drop (length sizes)) userData)"
proof (induction rects sizes userData rule: items_of.induct)
  case (1 r rects s sizes userData)
  then show ?case by (simp add: option.map_comp comp_def drop_Suc)
qed (simp_all add: option.map_ident)

definition user_ok :: "nat list option \<Rightarrow> nat \<Rightarrow> bool" where
  "user_ok userData n = (case userData of None \<Rightarrow> True | Some us \<Rightarrow> n \<le> length us)"

lemma user_at_ok: "user_ok userData n \<Longrightarrow> j < n \<Longrightarrow> user_at userData j = Inr (map_option (\<lambda>us. us ! j) userData)"
  by (auto simp: user_ok_def user_at_def split: option.splits)

lemma user_ok_drop: "user_ok userData (i + n) \<Longrightarrow> user_ok (map_option (drop i) userData) n"
  by (auto simp: user_ok_def split: option.splits)

lemma store_row_items:
  assumes "length rects = length sizes" and "outOffset + j + length sizes \<le> length outItems"
    and "user_ok userData (j + length sizes)"
  shows "store_row rects sizes userData outOffset j outItems =
    Inr (take (outOffset + j) outItems @ items_of rects sizes (map_option (drop j) userData) @
         drop (outOffset + j + length sizes) outItems)"
  using assms
proof (induction rects sizes arbitrary: j outItems rule: list_induct2')
  case (4 r rects s sizes)
  let ?item = "\<lparr>ti_value = s, ti_userData = map_option (\<lambda>us. us ! j) userData, ti_rect = r\<rparr>"
  let ?out = "outItems[outOffset + j := ?item]"
  have user: "user_at userData j = Inr (map_option (\<lambda>us. us ! j) userData)"
    using user_at_ok[OF "4.prems"(3)] by simp
  have hd: "map_option (\<lambda>us. us ! j) userData = map_option hd (map_option (drop j) userData)"
    using "4.prems"(3) by (cases userData) (auto simp: user_ok_def hd_drop_conv_nth)
  have tl: "map_option (drop (Suc j)) userData = map_option tl (map_option (drop j) userData)"
    by (cases userData) (simp_all add: drop_Suc tl_drop)
  have "store_row rects sizes userData outOffset (Suc j) ?out =
      Inr (take (outOffset + Suc j) ?out @ items_of rects sizes (map_option (drop (Suc j)) userData) @
           drop (outOffset + Suc j + length sizes) ?out)"
    using "4.IH"[of "Suc j" ?out] "4.prems" by simp
  moreover have "take (outOffset + Suc j) ?out = take (outOffset + j) outItems @ [?item]"
    using "4.prems"(2) by (simp add: upd_conv_take_nth_drop min_absorb2)
  moreover have "drop (outOffset + Suc j + length sizes) ?out = drop (outOffset + j + length (s # sizes)) outItems"
    by simp
  ultimately show ?case using "4.prems"(2) by (simp add: user hd tl)
qed simp_all

lemma length_layout [simp]: "length (me_treemap_layout sizes x y dx dy) = length sizes"
proof -
  have "length (row_rects width x yoff sizes) = length sizes" for width x yoff :: 'a
    by (induction sizes arbitrary: yoff) (simp_all add: Let_def)
  moreover have "length (col_rects height xoff y sizes) = length sizes" for height xoff y :: 'a
    by (induction sizes arbitrary: xoff) (simp_all add: Let_def)
  ultimately show ?thesis
    by (simp add: me_treemap_layout_def me_treemap_layout_row_def me_treemap_layout_col_def Let_def)
qed

lemma length_treemap_rects [simp]: "length (treemap_rects sizes x y dx dy) = length sizes"
proof (induction sizes x y dx dy rule: treemap_rects.induct)
  case (1 sizes x y dx dy)
  then show ?case
    using row_size_bounds[of 1 sizes x y dx dy]
    by (subst treemap_rects.simps) (auto simp: Let_def split: list.split prod.split)
qed

lemma squarify_impl_step:
  assumes "2 \<le> length sizes" and "i = row_size sizes x y dx dy 1"
    and "me_treemap_leftover (take i sizes) x y dx dy = (lx, ly, ldx, ldy)"
  shows "me_treemap_squarify_impl sizes userData x y dx dy outItems outOffset =
    require OutOfBounds (i \<le> max_row)
      (bindR (store_row (me_treemap_layout (take i sizes) x y dx dy) (take i sizes) userData outOffset 0 outItems) (\<lambda>outItems.
         me_treemap_squarify_impl (drop i sizes) (map_option (drop i) userData) lx ly ldx ldy outItems (outOffset + i)))"
    and "treemap_rects sizes x y dx dy =
      me_treemap_layout (take i sizes) x y dx dy @ treemap_rects (drop i sizes) lx ly ldx ldy"
proof -
  obtain s s2 ss where sizes: "sizes = s # s2 # ss"
    using assms(1) by (cases sizes; cases "tl sizes") auto
  show "me_treemap_squarify_impl sizes userData x y dx dy outItems outOffset =
    require OutOfBounds (i \<le> max_row)
      (bindR (store_row (me_treemap_layout (take i sizes) x y dx dy) (take i sizes) userData outOffset 0 outItems) (\<lambda>outItems.
         me_treemap_squarify_impl (drop i sizes) (map_option (drop i) userData) lx ly ldx ldy outItems (outOffset + i)))"
    using assms(2,3) sizes by (subst me_treemap_squarify_impl.simps) (simp add: Let_def)
  show "treemap_rects sizes x y dx dy =
      me_treemap_layout (take i sizes) x y dx dy @ treemap_rects (drop i sizes) lx ly ldx ldy"
    using assms(2,3) sizes by (subst treemap_rects.simps) (simp add: Let_def)
qed

text \<open>With at most 32 items the layout is the list of these items, and nothing is written elsewhere.\<close>

lemma squarify_impl_items:
  assumes "length sizes \<le> max_row" and "outOffset + length sizes \<le> length outItems" and "user_ok userData (length sizes)"
  shows "me_treemap_squarify_impl sizes userData x y dx dy outItems outOffset =
    Inr (outOffset + length sizes, take outOffset outItems @ items_of (treemap_rects sizes x y dx dy) sizes userData @
         drop (outOffset + length sizes) outItems)"
  using assms
proof (induction "length sizes" arbitrary: sizes userData x y dx dy outItems outOffset rule: less_induct)
  case less
  consider "sizes = []" | s where "sizes = [s]" | "2 \<le> length sizes"
    by (cases sizes; cases "tl sizes") auto
  then show ?case
  proof cases
    case 1
    then show ?thesis by (simp add: me_treemap_squarify_impl.simps)
  next
    case 2
    then have "user_at userData 0 = Inr (map_option hd userData)"
      using user_at_ok[OF less.prems(3)] less.prems(3)
      by (cases userData) (auto simp: user_ok_def hd_conv_nth Suc_le_eq)
    moreover have "outItems[outOffset := i] = take outOffset outItems @ i # drop (Suc outOffset) outItems" for i
      using less.prems(2) 2 by (simp add: upd_conv_take_nth_drop)
    ultimately show ?thesis
      using 2 less.prems(2) by (simp add: me_treemap_squarify_impl.simps treemap_rects.simps)
  next
    case 3
    obtain i where i_def: "i = row_size sizes x y dx dy 1" by blast
    obtain lx ly ldx ldy where left: "me_treemap_leftover (take i sizes) x y dx dy = (lx, ly, ldx, ldy)" by (metis surj_pair)
    have i: "1 \<le> i" "i \<le> length sizes" "i \<le> max_row"
      using row_size_bounds[of 1 sizes x y dx dy] 3 less.prems(1) i_def by simp_all
    let ?rects = "me_treemap_layout (take i sizes) x y dx dy"
    let ?row = "items_of ?rects (take i sizes) userData"
    let ?out = "take outOffset outItems @ ?row @ drop (outOffset + i) outItems"
    have "user_ok userData i" using less.prems(3) i(2) by (auto simp: user_ok_def split: option.splits)
    then have store: "store_row ?rects (take i sizes) userData outOffset 0 outItems = Inr ?out"
      using store_row_items[of ?rects "take i sizes" outOffset 0 outItems userData] i(2) less.prems(2)
      by (simp add: option.map_ident min_absorb2)
    have "me_treemap_squarify_impl (drop i sizes) (map_option (drop i) userData) lx ly ldx ldy ?out (outOffset + i) =
        Inr (outOffset + i + length (drop i sizes), take (outOffset + i) ?out @
          items_of (treemap_rects (drop i sizes) lx ly ldx ldy) (drop i sizes) (map_option (drop i) userData) @
          drop (outOffset + i + length (drop i sizes)) ?out)"
      using less.prems i user_ok_drop[of userData i "length sizes - i"] by (intro less.hyps) (auto simp: min_absorb2)
    moreover have "items_of (treemap_rects sizes x y dx dy) sizes userData =
        ?row @ items_of (treemap_rects (drop i sizes) lx ly ldx ldy) (drop i sizes) (map_option (drop i) userData)"
      using items_of_append[of ?rects "take i sizes" "treemap_rects (drop i sizes) lx ly ldx ldy" "drop i sizes" userData]
        squarify_impl_step(2)[OF 3 i_def left] i(2) by (simp add: min_absorb2)
    moreover have "take (outOffset + i) ?out = take outOffset outItems @ ?row"
      "drop (outOffset + i + (length sizes - i)) ?out = drop (outOffset + length sizes) outItems"
      using i(2) less.prems(2) by (simp_all add: min_absorb2 add.commute)
    ultimately show ?thesis
      unfolding squarify_impl_step(1)[OF 3 i_def left] store using i by simp
  qed
qed

section \<open>What a layout is\<close>

definition inside :: "'a::linordered_field meTreemapRect \<Rightarrow> 'a \<Rightarrow> 'a \<Rightarrow> 'a \<Rightarrow> 'a \<Rightarrow> bool" where
  "inside r x y dx dy \<longleftrightarrow> x \<le> tr_x r \<and> y \<le> tr_y r \<and> tr_x r + tr_w r \<le> x + dx \<and> tr_y r + tr_h r \<le> y + dy"

definition apart :: "'a::linordered_field meTreemapRect \<Rightarrow> 'a meTreemapRect \<Rightarrow> bool" where
  "apart r q \<longleftrightarrow> tr_x r + tr_w r \<le> tr_x q \<or> tr_y r + tr_h r \<le> tr_y q"

text \<open>
  Every item has a rectangle of its size, inside the bounds, and none overlaps another: each lies
  to the left of the later ones or above them.
\<close>

definition treemap_ok :: "'a::linordered_field meTreemapRect list \<Rightarrow> 'a list \<Rightarrow> 'a \<Rightarrow> 'a \<Rightarrow> 'a \<Rightarrow> 'a \<Rightarrow> bool" where
  "treemap_ok rects sizes x y dx dy \<longleftrightarrow>
     map (\<lambda>r. tr_w r * tr_h r) rects = sizes \<and> list_all (\<lambda>r. 0 < tr_w r \<and> 0 < tr_h r) rects \<and>
     list_all (\<lambda>r. inside r x y dx dy) rects \<and> sorted_wrt apart rects"

lemma sum_sizes_sum: "sum_sizes acc sizes = acc + sum_list sizes"
  by (induction sizes arbitrary: acc) (simp_all add: add.assoc)

lemma sum_list_pos: "list_all (\<lambda>s. 0 < s) sizes \<Longrightarrow> sizes \<noteq> [] \<Longrightarrow> 0 < sum_list (sizes :: 'a::linordered_field list)"
  by (induction sizes) (auto simp: add_pos_nonneg less_imp_le sum_list_nonneg list_all_iff)

lemma row_rects_ok:
  assumes "0 < width" and "list_all (\<lambda>s. 0 < s) sizes"
  shows "treemap_ok (row_rects width x yoff sizes) sizes x yoff width (sum_list sizes / width)"
  using assms(2)
proof (induction sizes arbitrary: yoff)
  case (Cons s sizes)
  let ?rest = "row_rects width x (yoff + s / width) sizes"
  have IH: "treemap_ok ?rest sizes x (yoff + s / width) width (sum_list sizes / width)"
    using Cons by simp
  have "0 \<le> sum_list sizes" using Cons.prems by (intro sum_list_nonneg) (auto simp: list_all_iff less_imp_le)
  moreover have "0 < s / width" using assms(1) Cons.prems by simp
  ultimately show ?case
    using IH assms(1) by (auto simp: treemap_ok_def inside_def apart_def list_all_iff Let_def add_divide_distrib add.assoc
        intro: order.trans[OF less_imp_le])
qed (simp add: treemap_ok_def)

text \<open>A column is a row with the axes exchanged.\<close>

definition flip_rect :: "'a meTreemapRect \<Rightarrow> 'a meTreemapRect" where
  "flip_rect r = \<lparr>tr_x = tr_y r, tr_y = tr_x r, tr_w = tr_h r, tr_h = tr_w r\<rparr>"

lemma col_rects_flip: "col_rects height xoff y sizes = map flip_rect (row_rects height y xoff sizes)"
  by (induction sizes arbitrary: xoff) (simp_all add: flip_rect_def Let_def)

lemma treemap_ok_flip: "treemap_ok rects sizes y x dy dx \<Longrightarrow> treemap_ok (map flip_rect rects) sizes x y dx dy"
  by (auto simp: treemap_ok_def flip_rect_def inside_def apart_def list_all_iff sorted_wrt_map comp_def mult.commute
      elim!: sorted_wrt_mono_rel[rotated])

lemma treemap_ok_append:
  assumes "treemap_ok rects sizes x y dx dy" and "treemap_ok rects' sizes' x' y' dx' dy'"
    and "\<forall>r q. inside r x y dx dy \<longrightarrow> inside q x' y' dx' dy' \<longrightarrow> apart r q"
    and "\<forall>r. inside r x y dx dy \<longrightarrow> inside r ox oy odx ody" and "\<forall>r. inside r x' y' dx' dy' \<longrightarrow> inside r ox oy odx ody"
  shows "treemap_ok (rects @ rects') (sizes @ sizes') ox oy odx ody"
  using assms by (auto simp: treemap_ok_def list_all_iff sorted_wrt_append)

text \<open>A row and what is left of the bounds.\<close>

lemma layout_splits:
  assumes "0 < dx" and "0 < dy" and "list_all (\<lambda>s. 0 < s) row" and "row \<noteq> []" and "sum_list row \<le> dx * dy"
    and "me_treemap_leftover row x y dx dy = (lx, ly, ldx, ldy)"
  shows "ldx * ldy = dx * dy - sum_list row" and "sum_list row < dx * dy \<Longrightarrow> 0 < ldx \<and> 0 < ldy"
    and "treemap_ok rects rest lx ly ldx ldy \<Longrightarrow> treemap_ok (me_treemap_layout row x y dx dy @ rects) (row @ rest) x y dx dy"
proof -
  let ?S = "sum_list row"
  have S: "0 < ?S" using sum_list_pos assms(3,4) by blast
  show "ldx * ldy = dx * dy - ?S"
    using assms(1,2,6)
    by (auto simp: me_treemap_leftover_def me_treemap_leftover_row_def me_treemap_leftover_col_def sum_sizes_sum Let_def
        left_diff_distrib right_diff_distrib split: if_split_asm)
  show "0 < ldx \<and> 0 < ldy" if "?S < dx * dy"
    using assms(1,2,6) that
    by (auto simp: me_treemap_leftover_def me_treemap_leftover_row_def me_treemap_leftover_col_def sum_sizes_sum Let_def
        divide_less_eq mult.commute split: if_split_asm)
  show "treemap_ok (me_treemap_layout row x y dx dy @ rects) (row @ rest) x y dx dy" if "treemap_ok rects rest lx ly ldx ldy"
  proof (cases "dx \<ge> dy")
    case True
    define W where "W = ?S / dy"
    have W: "0 < W" "W \<le> dx" "lx = x + W" "ly = y" "ldx = dx - W" "ldy = dy"
      using assms(2,5,6) S True
      by (auto simp: W_def me_treemap_leftover_def me_treemap_leftover_row_def sum_sizes_sum Let_def divide_le_eq)
    have "treemap_ok (me_treemap_layout row x y dx dy) row x y W dy"
      using row_rects_ok[of W row x y] S assms(2,3) True
      by (simp add: W_def me_treemap_layout_def me_treemap_layout_row_def sum_sizes_sum Let_def)
    from this that show ?thesis
      using W by (rule_tac treemap_ok_append) (auto simp: inside_def apart_def)
  next
    case False
    define H where "H = ?S / dx"
    have H: "0 < H" "H \<le> dy" "lx = x" "ly = y + H" "ldx = dx" "ldy = dy - H"
      using assms(1,5,6) S False
      by (auto simp: H_def me_treemap_leftover_def me_treemap_leftover_col_def sum_sizes_sum Let_def divide_le_eq mult.commute)
    have "treemap_ok (me_treemap_layout row x y dx dy) row x y dx H"
      using treemap_ok_flip[OF row_rects_ok[of H row y x]] S assms(1,3) False
      by (simp add: H_def me_treemap_layout_def me_treemap_layout_col_def sum_sizes_sum Let_def col_rects_flip)
    from this that show ?thesis
      using H by (rule_tac treemap_ok_append) (auto simp: inside_def apart_def)
  qed
qed

lemma treemap_rects_ok:
  assumes "list_all (\<lambda>s. 0 < s) sizes" and "sizes \<noteq> [] \<Longrightarrow> 0 < dx \<and> 0 < dy \<and> sum_list sizes = dx * dy"
  shows "treemap_ok (treemap_rects sizes x y dx dy) sizes x y dx dy"
  using assms
proof (induction "length sizes" arbitrary: sizes x y dx dy rule: less_induct)
  case less
  consider "sizes = []" | s where "sizes = [s]" | "2 \<le> length sizes"
    by (cases sizes; cases "tl sizes") auto
  then show ?case
  proof cases
    case 1
    then show ?thesis by (simp add: treemap_rects.simps treemap_ok_def)
  next
    case 2
    then show ?thesis using less.prems by (simp add: treemap_rects.simps treemap_ok_def inside_def)
  next
    case 3
    then have "sizes \<noteq> []" by auto
    then have area: "0 < dx" "0 < dy" "sum_list sizes = dx * dy" using less.prems(2) by simp_all
    obtain i where i_def: "i = row_size sizes x y dx dy 1" by blast
    obtain lx ly ldx ldy where left: "me_treemap_leftover (take i sizes) x y dx dy = (lx, ly, ldx, ldy)" by (metis surj_pair)
    have i: "1 \<le> i" "i \<le> length sizes" using row_size_bounds[of 1 sizes x y dx dy] 3 i_def by simp_all
    have pos: "list_all (\<lambda>s. 0 < s) (take i sizes)" "list_all (\<lambda>s. 0 < s) (drop i sizes)"
      using less.prems(1) by (auto simp: list_all_iff dest: in_set_takeD in_set_dropD)
    have sum: "sum_list (take i sizes) + sum_list (drop i sizes) = dx * dy"
      using area(3) by (metis append_take_drop_id sum_list_append)
    have rest: "0 < sum_list (drop i sizes)" if "drop i sizes \<noteq> []" using sum_list_pos[OF pos(2) that] .
    have le: "sum_list (take i sizes) \<le> dx * dy"
      using sum rest by (cases "drop i sizes = []") auto
    have row: "take i sizes \<noteq> []" using i 3 by auto
    note splits = layout_splits[OF area(1,2) pos(1) row le left]
    have "treemap_ok (treemap_rects (drop i sizes) lx ly ldx ldy) (drop i sizes) lx ly ldx ldy"
    proof (rule less.hyps[OF _ pos(2)])
      show "length (drop i sizes) < length sizes" using i 3 by simp
      show "0 < ldx \<and> 0 < ldy \<and> sum_list (drop i sizes) = ldx * ldy" if "drop i sizes \<noteq> []"
        using splits(1,2) sum rest[OF that] by auto
    qed
    from splits(3)[OF this] show ?thesis
      unfolding squarify_impl_step(2)[OF 3 i_def left] by simp
  qed
qed

text \<open>The first rectangle of a layout has the size of the first item, whatever the bounds.\<close>

lemma layout_areas:
  assumes "0 < dx" and "0 < dy" and "list_all (\<lambda>s. 0 < s) row" and "row \<noteq> []"
  shows "map (\<lambda>r. tr_w r * tr_h r) (me_treemap_layout row x y dx dy) = row \<and>
    list_all (\<lambda>r. 0 < tr_w r \<and> 0 < tr_h r) (me_treemap_layout row x y dx dy)"
proof (cases "dx \<ge> dy")
  case True
  then show ?thesis
    using row_rects_ok[of "sum_list row / dy" row x y] sum_list_pos[OF assms(3,4)] assms(2,3)
    by (simp add: me_treemap_layout_def me_treemap_layout_row_def sum_sizes_sum Let_def treemap_ok_def)
next
  case False
  then show ?thesis
    using treemap_ok_flip[OF row_rects_ok[of "sum_list row / dx" row y x]] sum_list_pos[OF assms(3,4)] assms(1,3)
    by (simp add: me_treemap_layout_def me_treemap_layout_col_def sum_sizes_sum Let_def col_rects_flip treemap_ok_def)
qed

text \<open>The routine that is not called would have made the sizes fit.\<close>

lemma normalized_sizes_fit:
  assumes "list_all (\<lambda>s. 0 < s) sizes" and "sizes \<noteq> []" and "0 < w" and "0 < h"
  shows "sum_list (me_treemap_normalize_sizes sizes w h) = w * h \<and> list_all (\<lambda>s. 0 < s) (me_treemap_normalize_sizes sizes w h)"
proof -
  have "sum_list (map (\<lambda>s. s * c / d) sizes) = sum_list sizes * c / d" for c d :: 'a
    by (induction sizes) (simp_all add: add_divide_distrib distrib_right)
  then show ?thesis
    using assms sum_list_pos[OF assms(1,2)]
    by (auto simp: me_treemap_normalize_sizes_def sum_sizes_sum list_all_iff Let_def)
qed

section \<open>Properties\<close>

lemma pad_rect_inside:
  "inside (me_treemap_pad_rect r) (tr_x r) (tr_y r) (tr_w r) (tr_h r)"
  by (simp add: inside_def me_treemap_pad_rect_def Let_def)

lemma map_items_of:
  "map (\<lambda>item. item\<lparr>ti_rect := f (ti_rect item)\<rparr>) (items_of rects sizes userData) = items_of (map f rects) sizes userData"
  by (induction rects sizes userData rule: items_of.induct) simp_all


text \<open>
  Nothing makes the sizes fit the bounds: the routine that would is not called. An item larger
  than the bounds gets a rectangle of its size, which sticks out.
\<close>

theorem me_treemap_squarify_sticks_out:
  assumes "list_all (\<lambda>s. 0 < s) sizes" and "2 \<le> length sizes" and "0 < tr_w bounds" and "0 < tr_h bounds"
    and "tr_w bounds * tr_h bounds < hd sizes"
    and "length sizes \<le> max_row" and "length sizes \<le> length outItems" and "user_ok userData (length sizes)"
  shows "\<exists>item rest. me_treemap_squarify sizes userData bounds outItems False = Inr (item # rest) \<and> ti_value item = hd sizes \<and>
    tr_w (ti_rect item) * tr_h (ti_rect item) = hd sizes \<and>
    \<not> inside (ti_rect item) (tr_x bounds) (tr_y bounds) (tr_w bounds) (tr_h bounds)"
proof -
  let ?x = "tr_x bounds" and ?y = "tr_y bounds" and ?dx = "tr_w bounds" and ?dy = "tr_h bounds"
  let ?R = "treemap_rects sizes ?x ?y ?dx ?dy"
  obtain i where i_def: "i = row_size sizes ?x ?y ?dx ?dy 1" by blast
  obtain lx ly ldx ldy where left: "me_treemap_leftover (take i sizes) ?x ?y ?dx ?dy = (lx, ly, ldx, ldy)" by (metis surj_pair)
  obtain s ss where sizes: "sizes = s # ss" using assms(2) by (cases sizes) auto
  have "1 \<le> i" using row_size_bounds[of 1 sizes ?x ?y ?dx ?dy] assms(2) i_def by simp
  then obtain row where row: "take i sizes = s # row" using sizes by (cases i) auto
  moreover have "list_all (\<lambda>s. 0 < s) (take i sizes)" using assms(1) by (auto simp: list_all_iff dest: in_set_takeD)
  ultimately have areas: "map (\<lambda>r. tr_w r * tr_h r) (me_treemap_layout (take i sizes) ?x ?y ?dx ?dy) = s # row"
    "list_all (\<lambda>r. 0 < tr_w r \<and> 0 < tr_h r) (me_treemap_layout (take i sizes) ?x ?y ?dx ?dy)"
    using layout_areas[OF assms(3,4), of "take i sizes"] by simp_all
  then obtain r rs where layout: "me_treemap_layout (take i sizes) ?x ?y ?dx ?dy = r # rs" "tr_w r * tr_h r = s" "0 < tr_w r" "0 < tr_h r"
    by (cases "me_treemap_layout (take i sizes) ?x ?y ?dx ?dy") auto
  have "\<not> inside r ?x ?y ?dx ?dy"
  proof
    assume "inside r ?x ?y ?dx ?dy"
    then have "tr_w r \<le> ?dx" "tr_h r \<le> ?dy" by (auto simp: inside_def)
    then have "tr_w r * tr_h r \<le> ?dx * ?dy" using layout(3,4) assms(3) by (intro mult_mono) simp_all
    then show False using layout(2) assms(5) sizes by simp
  qed
  moreover have "me_treemap_squarify sizes userData bounds outItems False =
      Inr (items_of ?R sizes userData @ drop (length sizes) outItems)"
    using squarify_impl_items[OF assms(6) _ assms(8), of 0 outItems] assms(7) by (simp add: me_treemap_squarify_def)
  moreover have "?R = r # (rs @ treemap_rects (drop i sizes) lx ly ldx ldy)"
    unfolding squarify_impl_step(2)[OF assms(2) i_def left] layout(1) by simp
  ultimately show ?thesis using sizes layout(2) by simp
qed

text \<open>Equal items that are small for the bounds make the rows better and better up to 32 of them.\<close>

lemma row_rects_equal: "r \<in> set (row_rects width x yoff (replicate n s)) \<Longrightarrow> tr_w r = width \<and> tr_h r = s / width"
  by (induction n arbitrary: yoff) (auto simp: Let_def)

lemma foldl_equal_ratio:
  "0 < q \<Longrightarrow> list_all (\<lambda>r. rect_ratio r = q) rects \<Longrightarrow>
   foldl (\<lambda>worst r. let ratio = rect_ratio r in if ratio > worst then ratio else worst) q rects = q"
  by (induction rects) simp_all

lemma worst_ratio_equal:
  assumes "0 < s" and "0 < dy" and "dy \<le> dx" and "1 \<le> i" and "i \<le> max_row" and "of_nat (i * i) * s \<le> dy * dy"
  shows "me_treemap_worst_ratio (replicate i s) x y dx dy = dy * dy / (of_nat (i * i) * s)"
proof -
  let ?W = "of_nat i * s / dy" and ?q = "dy * dy / (of_nat (i * i) * s)"
  have sum: "sum_list (replicate i s) = of_nat i * s" by (simp add: sum_list_replicate)
  have rects: "me_treemap_layout (replicate i s) x y dx dy = row_rects ?W x y (replicate i s)"
    using assms(3) by (simp add: me_treemap_layout_def me_treemap_layout_row_def sum_sizes_sum Let_def sum)
  have ipos: "(0 :: 'a) < of_nat i" using assms(4) by simp
  have ratio: "rect_ratio r = ?q" if "r \<in> set (row_rects ?W x y (replicate i s))" for r
  proof -
    have r: "tr_w r = ?W" "tr_h r = s / ?W" using row_rects_equal[OF that] by simp_all
    have h: "s / ?W = dy / of_nat i" using assms(1) by simp
    have "?W \<le> dy / of_nat i" using assms(2,6) ipos by (simp add: field_simps)
    moreover have "dy / of_nat i / ?W = ?q" by (simp add: field_simps)
    ultimately show ?thesis using r h by (simp add: rect_ratio_def)
  qed
  have q: "0 < ?q" using assms(1,2) ipos by simp
  obtain r rs where "row_rects ?W x y (replicate i s) = r # rs" using assms(4) by (cases i) (auto simp: Let_def)
  then show ?thesis
    using rects ratio q foldl_equal_ratio[OF q, of rs] assms(5)
    by (simp add: me_treemap_worst_ratio_def list_all_iff Let_def)
qed

lemma row_size_equal:
  assumes "0 < s" and "0 < dy" and "dy \<le> dx" and "1024 * 1000000000 * s \<le> dy * dy" and "i \<le> n" and "1 \<le> i"
  shows "row_size (replicate n s) x y dx dy i = n"
  using assms(5,6)
proof (induction "n - i" arbitrary: i)
  case 0
  then show ?case by (subst row_size.simps) simp
next
  case (Suc d)
  have "i < n" using Suc.hyps(2) by simp
  have small: "of_nat (k * k) * s \<le> dy * dy" if "k \<le> 32" for k
  proof -
    have "k * k \<le> 32 * 32" using that by (intro mult_le_mono)
    then have "(of_nat (k * k) :: 'a) \<le> of_nat (1024 * 1000000000)" by (intro of_nat_mono) simp
    then have "of_nat (k * k) * s \<le> of_nat (1024 * 1000000000) * s" using assms(1) by (intro mult_right_mono) simp_all
    also have "\<dots> = 1024 * 1000000000 * s" by simp
    finally show ?thesis using assms(4) by simp
  qed
  have worst: "me_treemap_worst_ratio (replicate k s) x y dx dy =
      (if k \<le> 32 then dy * dy / (of_nat (k * k) * s) else 1000000000)" if "1 \<le> k" for k
    using worst_ratio_equal[OF assms(1-3) that _ small, of x y] by (simp add: max_row_def me_treemap_worst_ratio_def)
  have "me_treemap_worst_ratio (replicate i s) x y dx dy \<ge> me_treemap_worst_ratio (replicate (i + 1) s) x y dx dy"
  proof -
    consider "i < 32" | "i = 32" | "32 < i" by linarith
    then show ?thesis
    proof cases
      case 1
      have "(of_nat (i * i) :: 'a) \<le> of_nat ((i + 1) * (i + 1))" by (intro of_nat_mono mult_le_mono) simp_all
      then have "of_nat (i * i) * s \<le> of_nat ((i + 1) * (i + 1)) * s" using assms(1) by (intro mult_right_mono) simp_all
      moreover have "0 < of_nat (i * i) * s" using assms(1) Suc.prems by simp
      ultimately have "dy * dy / (of_nat ((i + 1) * (i + 1)) * s) \<le> dy * dy / (of_nat (i * i) * s)"
        using assms(2) by (intro divide_left_mono) simp_all
      then show ?thesis using worst[of i] worst[of "i + 1"] Suc.prems 1 by simp
    next
      case 2
      have "1000000000 \<le> dy * dy / (of_nat (32 * 32) * s)" using assms(1,4) by (simp add: le_divide_eq mult.commute)
      then show ?thesis using worst[of i] worst[of "i + 1"] Suc.prems 2 by simp
    next
      case 3
      then show ?thesis using worst[of i] worst[of "i + 1"] Suc.prems by simp
    qed
  qed
  then have "row_size (replicate n s) x y dx dy i = row_size (replicate n s) x y dx dy (i + 1)"
    using \<open>i < n\<close> by (subst row_size.simps) (simp add: min_absorb1)
  also have "\<dots> = n" using Suc.hyps(2) Suc.prems by (intro Suc.hyps(1)) simp_all
  finally show ?case .
qed

text \<open>
  Where more than 32 equal items are small against the square of the shorter side, all of them
  go into one row, and the row is written behind the 32 rectangles the routine has for it: a row
  of more than 32 counts as no worse than the row before.
\<close>

theorem me_treemap_squarify_overflows:
  assumes "0 < s" and "0 < tr_h bounds" and "tr_h bounds \<le> tr_w bounds"
    and "1024 * 1000000000 * s \<le> tr_h bounds * tr_h bounds" and "max_row < n"
  shows "me_treemap_squarify (replicate n s) userData bounds outItems pad = Inl OutOfBounds"
proof -
  obtain lx ly ldx ldy where left: "me_treemap_leftover (take n (replicate n s)) (tr_x bounds) (tr_y bounds) (tr_w bounds) (tr_h bounds) =
      (lx, ly, ldx, ldy)" by (metis surj_pair)
  have "2 \<le> length (replicate n s)" using assms(5) by (simp add: max_row_def)
  moreover have "n = row_size (replicate n s) (tr_x bounds) (tr_y bounds) (tr_w bounds) (tr_h bounds) 1"
    using row_size_equal[OF assms(1-4), of 1 n "tr_x bounds" "tr_y bounds"] assms(5) by (simp add: max_row_def)
  ultimately show ?thesis
    using squarify_impl_step(1)[OF _ _ left] assms(5) by (simp add: me_treemap_squarify_def)
qed


text \<open>Witnesses: six and two units in a four by two field, and small items in large bounds.\<close>

definition blank_items :: "nat \<Rightarrow> rat meTreemapItem list" where
  "blank_items n = replicate n \<lparr>ti_value = 0, ti_userData = None, ti_rect = \<lparr>tr_x = 0, tr_y = 0, tr_w = 0, tr_h = 0\<rparr>\<rparr>"


theorem me_treemap_squarify_sticks_out_witness:
  "\<exists>item rest. me_treemap_squarify [6, 2] None \<lparr>tr_x = 0, tr_y = 0, tr_w = 2, tr_h = 2\<rparr> (blank_items 2) False = Inr (item # rest) \<and>
     \<not> inside (ti_rect item) 0 0 2 2"
  using me_treemap_squarify_sticks_out[of "[6, 2 :: rat]" "\<lparr>tr_x = 0, tr_y = 0, tr_w = 2, tr_h = 2\<rparr>" "blank_items 2" None]
  by (auto simp: max_row_def blank_items_def user_ok_def)

theorem me_treemap_squarify_overflows_witness:
  "me_treemap_squarify (replicate 40 (1 :: rat)) None \<lparr>tr_x = 0, tr_y = 0, tr_w = 2000000, tr_h = 2000000\<rparr> (blank_items 40) True =
     Inl OutOfBounds"
  by (rule me_treemap_squarify_overflows) (simp_all add: max_row_def)

end
