(* ===== verification/Spec2Isabelle.thy ===== *)
theory Spec2Isabelle
  imports Prelude Bits Hashing Handles Arenas Strings StringParse FloatParse Sequences HybridArrays DynArrays
    BlockLists ResourcePools HashMaps Json Chunkers Reflection Serializer
    BinaryWalks UntrustedData TextWalks AssetFiles ObjectWalks
    TextFiles AssetPaths AssetIndexes AssetSystems AssetInvariants AssetRuns AssetLoads AssetReload AssetWorker
    JobSystems Scenes Commands Geometry Picking HotReload StringObjects StringBuilders
    Files FileWrites Directories AssetDiscovery CommandLines ResourceDirs Inputs Spans RelPtrs Treemaps
begin

text \<open>
  Mindseye is a game engine in C++ (\<open>src/mindseye\<close>). This library models its runtime core: the
  memory and container layer of \<open>core/\<close>, reflection and serialisation, the asset system of
  \<open>asset/\<close>, the scene manager and the entities of \<open>scene/\<close>, the job system, the commands to the
  main thread and the reloading of the user's program, and those parts of the platform layer
  that have logic of their own. Definitions carry the names of the functions they translate; all
  paths below are under \<open>src/mindseye\<close>.

  \<^bold>\<open>How the parts work together.\<close> The engine starts by splitting one block of memory
  into arenas. The resource directory is found from the command line or the configuration file,
  walked recursively, and every asset file in it is entered in the asset index. Other code asks
  for assets by handle (\<open>Eye\<close>) or id (\<open>MAID\<close>); the request puts a job in the queue of the one
  compiler thread, which reads the file, checks the header, waits for the parent asset, lets
  the serializer walk the new object by its type descriptor through a chunker, and publishes it in
  the resource pool of the loader, from where it is reached by handle. A change of the scene
  unloads the current scene and requests the next with a callback that makes it current.
  Commands of other threads are queued and run by the main thread once per frame: one of them
  swaps the library of the user's program, one picks the entity under the cursor.

  \<^bold>\<open>Theories.\<close> Every theory opens with a text that says what it holds and names its
  source files.

  \<^item> Foundations. \<open>Prelude\<close>: machine integers, the type \<open>fault\<close> of everything a run can end in
    (a failed assertion, an access out of bounds, an exception, memory that is gone), results
    \<open>fault + 'a\<close> and the monad on them, lists and searches. \<open>Bits\<close>: bit macros and \<open>meBitArray\<close>.
    \<open>Hashing\<close>: FNV-1a at run time and at compile time. \<open>Handles\<close>: \<open>Eye\<close> in both layouts, \<open>MAID\<close>.
    \<open>RelPtrs\<close>, \<open>Spans\<close>: relative pointers, spans, the cursor buffer of \<open>core/me_memory.h\<close>.
  \<^item> Memory and strings. \<open>Arenas\<close>: \<open>core/me_arena\<close> and the layout of the engine's memory.
    \<open>Strings\<close>, \<open>StringParse\<close>, \<open>FloatParse\<close>: views over a memory object, the searches and parsers of
    \<open>core/me_string\<close>. \<open>StringObjects\<close>, \<open>StringBuilders\<close>: strings that own memory, builders and the
    ring of format buffers, on a heap of blocks.
  \<^item> Containers, \<open>core/containers\<close>. \<open>Sequences\<close> (their interface), \<open>HybridArrays\<close>,
    \<open>DynArrays\<close>, \<open>BlockLists\<close>, \<open>HashMaps\<close>, and on the block lists \<open>ResourcePools\<close>
    (\<open>core/me_resourcepool.h\<close>).
  \<^item> Reflection and serialisation. \<open>Json\<close>: the operations of the vendored JSON library the engine
    calls. \<open>Chunkers\<close>: \<open>core/me_chunker\<close>. \<open>Reflection\<close>: type descriptors and the walks for equality,
    destruction and copying; \<open>ObjectWalks\<close> proves them. \<open>Serializer\<close>: the walk of
    \<open>core/me_serialize.cpp\<close>; \<open>BinaryWalks\<close> and \<open>TextWalks\<close> give the two formats as functions of the
    value and prove the walk against them, \<open>UntrustedData\<close> has the loading of any bytes.
    \<open>AssetFiles\<close>, \<open>TextFiles\<close>: whole files with the header of \<open>asset/me_asset.h\<close>.
  \<^item> Assets. \<open>AssetPaths\<close>: file names. \<open>AssetIndexes\<close>, \<open>AssetDiscovery\<close>: the index and its building.
    \<open>AssetSystems\<close>: the state and every operation of \<open>asset/me_asset.cpp\<close> that is modelled.
    \<open>AssetInvariants\<close>: what each part keeps. \<open>AssetRuns\<close>: runs in which the requests of the engine's
    threads interleave with the stages of the worker's jobs. \<open>AssetLoads\<close>, \<open>AssetReload\<close>,
    \<open>AssetWorker\<close>: one load, an asset's way through its file, the end of the queue.
  \<^item> Engine. \<open>JobSystems\<close>: \<open>core/me_job_system\<close>. \<open>Scenes\<close>: \<open>scene/me_scene.cpp\<close> on the asset
    system, with runs of main thread and worker. \<open>Commands\<close>: \<open>core/me_command.cpp\<close>. \<open>Geometry\<close>,
    \<open>Picking\<close>: boxes and the ray cast, entities, and what a click selects. \<open>HotReload\<close>:
    \<open>core/me_app.cpp\<close>.
  \<^item> Platform. \<open>CommandLines\<close>, \<open>ResourceDirs\<close>, \<open>Files\<close>, \<open>FileWrites\<close>, \<open>Directories\<close> and \<open>Inputs\<close>:
    \<open>core/me_cmdline\<close>, \<open>core/me_filesystem.cpp\<close> and \<open>platform/windows/me_os_win.cpp\<close>.
  \<^item> \<open>Treemaps\<close>: the layout of \<open>algo/me_treemap.h\<close>, which nothing in the engine calls yet.

  \<^bold>\<open>Interfaces.\<close> Five locales state what one part relies on in another, each with its
  interpretation on the code's model: \<open>bit_store\<close> (\<open>meBitArray\<close>), \<open>region_allocator\<close> (the arena),
  \<open>growable_sequence\<close> (\<open>HybridArray\<close> and the stack on it, and \<open>DynArray\<close>), \<open>slot_store\<close> (the block
  list, as the resource pools use it) and \<open>key_store\<close> (\<open>meMap\<close>).

  \<^bold>\<open>What the lemmas show.\<close>

  \<^item> Containers: a well-formedness predicate that every operation keeps, and each operation is the
    one on the abstract list, set of slots or association list the container stands for, through
    growth and reallocation. Indices, handles and node addresses stay valid as long as their
    element lives; a stale handle fails its assertion.
  \<^item> Strings: the searches find the first (or last) occurrence and read inside the views only; the
    parsers return the number denoted; owning strings are values, with no block shared,
    leaked or freed twice.
  \<^item> Serialisation: for every serialisable type, measuring gives the size, writing gives the format,
    reading gives the value back, in binary and text and with the asset header; a load is refused
    for each wrong header; loading arbitrary bytes stays inside the buffer for types without
    strings. A deep copy has the same bytes, and destruction leaves no memory owned.
  \<^item> Assets and scenes: an invariant of every interleaved run; a load ends with the asset loaded or
    rolled back; what is written is loaded again; the worker's queue drains; the current scene
    always resolves. Jobs are neither lost nor run twice, and shutting the job system down ends.
  \<^item> The main thread: the flush of the commands is a run of the engine and ends when commands send
    none; a callback into the user's program belongs to a loaded library; the ray cast finds the
    closest entity; a tick reports the keys and buttons its messages say.
  \<^item> Files: the search for a file and the write loop end with the answer they should.
  \<^item> Several theorems state what the code does where this is not what it means to do: a request for
    several assets reaches the first only, a child cannot be loaded before its parent, a change to
    a scene that is loading is lost, assets in nested directories are not found, and the write
    through a temporary file never lands.

  \<^bold>\<open>Integers.\<close> Values that only count are natural numbers with \<open>wrap32\<close> and \<open>wrap64\<close> written
  at every operation of the source that can wrap; values that are taken apart bit by bit are
  words of their width. Sizes of objects and counts of elements are bounded by hypotheses where
  the source's 32 bits would not be enough, and lemmas beside them show what happens beyond.

  \<^bold>\<open>Fuel and bounds.\<close>

  \<^item> The reflective walks take the nesting depth of the type as fuel; the theorems need at most twice
    the depth of the descriptor, and running out is a fault the theorems exclude.
  \<^item> The chains of \<open>meMap\<close> are walked with one step per address ever handed out, and no chain is
    longer. The search of a file takes one step per byte of the path, since every round drops a
    byte at least. The recursive directory walk takes one level per byte of the path buffer
    (\<open>ME_PATH_MAX\<close>), since every level makes the path longer. The growth loop of \<open>DynArray\<close> needs
    two rounds at most.
  \<^item> Waiting for an asset ends after the 1000 attempts of the code. A resource pool has \<open>2^23\<close> slots,
    the range of a handle's index.
  \<^item> Loops that need not end (the worker threads, the flush of the commands) are step relations or
    partial functions, and that they end is proved under the conditions stated.

  \<^bold>\<open>Arguments of the model.\<close> Code outside the repository and answers of the environment
  are arguments: which allocations succeed and the content of fresh memory; the calls of the
  operating system (in \<open>FileWrites\<close> the record \<open>Win\<close>, whose documented behaviour is \<open>win_laws\<close>);
  parsing and printing of JSON text; the vendored formatter's output; the floating-point operations in
  \<open>FloatParse\<close>, which are exact on representable results; the loader's virtual
  functions; the content of files; the model matrix and the locks in the ray cast; the module
  loader in \<open>HotReload\<close>; the clock. Hypotheses on them are shown satisfiable by the witnesses.

  \<^bold>\<open>What is simpler than the program.\<close> The vendored concurrent queue is a list from which any
  element may be taken. Each stage of an asset job, each locked section and each handler of a
  command is one step. The code of callbacks and event subscribers is a record of the call, and
  ids of new assets are fresh in runs (the code's are a hash of the clock, and can collide).
  \<open>Geometry\<close> and \<open>Treemaps\<close> compute in an ordered field where the program rounds. Pooled resources
  are values without a reference count.

  \<^bold>\<open>Not modelled.\<close> Rendering (\<open>render/\<close>, on bgfx and Vulkan) and the editor's interface
  (\<open>editor/\<close>, on imgui) call vendored libraries. The import of assets converts the structures of
  the vendored cgltf. Windows, virtual memory, processes, atomics, clocks, reading and copying of
  files are single calls of the operating system. Logging and profiling only print. The
  reader-writer lock passes on to the standard library, and the data bridge has no operation. The reflector tool is
  a program of its own on libclang. What computes with the vendored glm library needs
  rounding arithmetic. The set-up and teardown of the asset system
  and of the application, and the registry of types with the macros that fill it, are glue.
  Vendored code, build scripts, shaders and the sample game are left aside.
\<close>

end
